(* ===== verification/Prelude.thy ===== *)
theory Prelude
  imports Main "HOL-Library.Word" "HOL-Library.Signed_Division"
begin

text \<open>
  Shared vocabulary of the development: the machine integer types of the C++ sources as
  words, the integer limits the sources name (\<open>INT32_MIN\<close>, \<open>INT64_MAX\<close>, ...), the bit
  counting functions of the C++ header \<open>bit\<close> that the sources call, and the generic word,
  list and arithmetic facts the components share.  Facts that several component proofs
  rewrite with are collected in the named collections \<open>word_simps\<close> and \<open>limit_simps\<close>.
\<close>

unbundle bit_operations_syntax

section \<open>Machine integers\<close>

text \<open>
  A C++ \<open>uintN_t\<close> is an \<open>N word\<close>.  A C++ \<open>intN_t\<close> has the same two's-complement bit pattern,
  read with \<^const>\<open>sint\<close>; the synonyms \<open>i32\<close> and \<open>i64\<close> record that a word is read as signed,
  and a \<open>static_cast\<close> between the two signednesses of one width is the identity.
\<close>

type_synonym u8 = "8 word"
type_synonym u16 = "16 word"
type_synonym u32 = "32 word"
type_synonym u64 = "64 word"
type_synonym i32 = "32 word"
type_synonym i64 = "64 word"

named_theorems word_simps "word facts the component proofs rewrite with"
named_theorems limit_simps "numeric values of the integer limits"

abbreviation INT32_MIN :: int where "INT32_MIN \<equiv> - 2147483648"
abbreviation INT32_MAX :: int where "INT32_MAX \<equiv> 2147483647"
abbreviation UINT32_MAX :: int where "UINT32_MAX \<equiv> 4294967295"
abbreviation INT64_MIN :: int where "INT64_MIN \<equiv> - 9223372036854775808"
abbreviation INT64_MAX :: int where "INT64_MAX \<equiv> 9223372036854775807"
abbreviation UINT64_MAX :: int where "UINT64_MAX \<equiv> 18446744073709551615"

section \<open>Bit counting\<close>

text \<open>
  \<open>std::countl_zero\<close>, \<open>std::countr_zero\<close> and \<open>std::popcount\<close> on an unsigned word.
\<close>

definition countr_zero :: "'a::len word \<Rightarrow> nat" where
  "countr_zero w = length (takeWhile Not (map (bit w) [0..<LENGTH('a)]))"

definition countl_zero :: "'a::len word \<Rightarrow> nat" where
  "countl_zero w = length (takeWhile Not (rev (map (bit w) [0..<LENGTH('a)])))"

definition popcount :: "'a::len word \<Rightarrow> nat" where
  "popcount w = length (filter (bit w) [0..<LENGTH('a)])"

section \<open>Word facts\<close>

lemma sint_range64: "INT64_MIN \<le> sint (x :: 64 word)" "sint (x :: 64 word) \<le> INT64_MAX"
  using sint_greater_eq [of x] sint_lt [of x] by simp_all

lemma sint_range32: "INT32_MIN \<le> sint (x :: 32 word)" "sint (x :: 32 word) \<le> INT32_MAX"
  using sint_greater_eq [of x] sint_lt [of x] by simp_all

lemma uint_range64: "0 \<le> uint (x :: 64 word)" "uint (x :: 64 word) \<le> UINT64_MAX"
  using uint_bounded [of x] by simp_all

lemma uint_range32: "0 \<le> uint (x :: 32 word)" "uint (x :: 32 word) \<le> UINT32_MAX"
  using uint_bounded [of x] by simp_all

lemma sint_of_int_in_range:
  assumes "- (2 ^ (LENGTH('a) - 1)) \<le> k" and "k < 2 ^ (LENGTH('a) - 1)"
  shows "sint (word_of_int k :: 'a::len word) = k"
proof -
  have "sint (word_of_int k :: 'a word) = signed_take_bit (LENGTH('a) - 1) k"
    by (simp add: sint_sbintrunc')
  also have "\<dots> = k"
    using assms by (simp add: signed_take_bit_int_eq_self)
  finally show ?thesis .
qed

lemma sint_of_int64:
  "INT64_MIN \<le> k \<Longrightarrow> k \<le> INT64_MAX \<Longrightarrow> sint (word_of_int k :: 64 word) = k"
  by (rule sint_of_int_in_range) simp_all

lemma sint_of_int32:
  "INT32_MIN \<le> k \<Longrightarrow> k \<le> INT32_MAX \<Longrightarrow> sint (word_of_int k :: 32 word) = k"
  by (rule sint_of_int_in_range) simp_all

lemma word_of_int_sint [word_simps]: "word_of_int (sint x) = (x :: 'a::len word)"
  by simp

lemma sint_scast_32_64 [word_simps]: "sint (scast (x :: 32 word) :: 64 word) = sint x"
proof -
  have "sint (word_of_int (sint x) :: 64 word) = sint x"
    using sint_range32 [of x] by (intro sint_of_int64) simp_all
  then show ?thesis by (simp only: scast_eq)
qed

text \<open>The signed reading of a word in terms of the unsigned one.\<close>

lemma sint_as_uint:
  "sint (x :: 'a::len word) = uint x - (if bit x (LENGTH('a) - 1) then 2 ^ LENGTH('a) else 0)"
  using signed_take_bit_eq_take_bit_minus [of "LENGTH('a) - 1" "uint x"]
  by (simp add: sint_uint bit_uint_iff take_bit_int_eq_self)

lemma uint_of_non_negative: "0 \<le> sint (w :: 'a::len word) \<Longrightarrow> uint w = sint w"
  using sint_as_uint [of w] uint_bounded [of w]
  by (cases "bit w (LENGTH('a) - 1)"; simp only: if_True if_False; linarith)

end
