(* ===== verification/Mir_Opcodes.thy ===== *)
theory Mir_Opcodes
  imports Prelude
begin

text \<open>
  The MIR instruction opcodes (\<open>include/brass/mir/opcodes.hpp\<close>, \<open>src/mir/opcodes.cpp\<close>): the
  enumeration, the printed name of each opcode and the classification predicates the passes
  ask.  The enumeration is written as a sum of the comment groups it is laid out in, so that
  each group is a small datatype; \<open>Op_x\<close> is the source's \<open>Opcode::x\<close>.
\<close>

datatype ConstOp =
    Op_iconst_i32 | Op_iconst_i64 | Op_fconst_f64 | Op_patchable_const_i32 |
    Op_patchable_const_i64

datatype ConvOp =
    Op_sext_i64 | Op_zext_i64 | Op_trunc_i32 | Op_trunc_i8 | Op_fptosi_i32 | Op_fptosi_i64 |
    Op_fptosi_i32_f32 | Op_fptosi_i64_f32 | Op_sitofp_f64_i32 | Op_sitofp_f64_i64 |
    Op_sitofp_f32_i32 | Op_sitofp_f32_i64 | Op_fptrunc_f32_f64 | Op_fpext_f64_f32 |
    Op_bitcast_i64_f64 | Op_bitcast_f64_i64 | Op_bitcast_i32_f32 | Op_bitcast_f32_i32 |
    Op_bitcast_i64_tagged | Op_bitcast_tagged_i64

datatype ArithOp =
    Op_add | Op_sub | Op_mul | Op_fma_f32 | Op_fma_f64 | Op_sqrt_f32 | Op_sqrt_f64 |
    Op_floor_f32 | Op_floor_f64 | Op_ceil_f32 | Op_ceil_f64 | Op_round_f32 | Op_round_f64 |
    Op_fabs_f32 | Op_fabs_f64 | Op_fmin_f32 | Op_fmin_f64 | Op_fmax_f32 | Op_fmax_f64 |
    Op_sdiv | Op_udiv | Op_smod | Op_umod | Op_neg | Op_and | Op_or | Op_xor | Op_shl |
    Op_lshr | Op_ashr | Op_not | Op_clz | Op_ctz | Op_popcnt

datatype CmpOp =
    Op_eq | Op_ne | Op_slt | Op_ult | Op_sle | Op_ule | Op_sgt | Op_ugt | Op_sge | Op_uge

datatype OvfOp =
    Op_sadd_overflow | Op_ssub_overflow | Op_smul_overflow | Op_uadd_overflow |
    Op_usub_overflow | Op_umul_overflow

datatype SelOp =
    Op_select

datatype MemOp =
    Op_alloca | Op_load | Op_store | Op_load_indexed | Op_store_indexed | Op_write_barrier

datatype PinOp =
    Op_pinned_tls_read | Op_pinned_tls_write | Op_read_sp

datatype CallOp =
    Op_call | Op_call_indirect | Op_patchable_call | Op_safepoint | Op_keep_alive | Op_func_addr

datatype SpecOp =
    Op_guard | Op_resume_point

datatype TermOp =
    Op_br | Op_br_if | Op_switch | Op_ret | Op_unreachable

datatype ExnOp =
    Op_throw | Op_invoke | Op_landing_pad | Op_resume

datatype VecOp =
    Op_vadd | Op_vsub | Op_vmul | Op_vdiv | Op_vfma | Op_vneg | Op_vmin | Op_vmax | Op_vsqrt |
    Op_vand | Op_vor | Op_vxor | Op_vnot | Op_vload | Op_vstore | Op_vbroadcast |
    Op_vextract_lane | Op_vinsert_lane | Op_vshuffle | Op_vzero | Op_vcmp_eq | Op_vcmp_ne |
    Op_vcmp_lt | Op_vcmp_le | Op_vcmp_gt | Op_vcmp_ge | Op_vselect | Op_vshl | Op_vlshr |
    Op_vashr | Op_vconvert | Op_vbitcast | Op_vfloor | Op_vceil | Op_vtrunc | Op_vround |
    Op_vany

datatype CoroOp =
    Op_coro_create | Op_coro_suspend | Op_coro_resume | Op_coro_destroy

datatype Opcode =
    OpConst ConstOp
  | OpConv ConvOp
  | OpArith ArithOp
  | OpCmp CmpOp
  | OpOvf OvfOp
  | OpSel SelOp
  | OpMem MemOp
  | OpPin PinOp
  | OpCall CallOp
  | OpSpec SpecOp
  | OpTerm TermOp
  | OpExn ExnOp
  | OpVec VecOp
  | OpCoro CoroOp

section \<open>Printed names\<close>

primrec const_name :: "ConstOp \<Rightarrow> string" where
  "const_name Op_iconst_i32 = ''iconst_i32''"
| "const_name Op_iconst_i64 = ''iconst_i64''"
| "const_name Op_fconst_f64 = ''fconst_f64''"
| "const_name Op_patchable_const_i32 = ''patchable_const_i32''"
| "const_name Op_patchable_const_i64 = ''patchable_const_i64''"

primrec conv_name :: "ConvOp \<Rightarrow> string" where
  "conv_name Op_sext_i64 = ''sext_i64''"
| "conv_name Op_zext_i64 = ''zext_i64''"
| "conv_name Op_trunc_i32 = ''trunc_i32''"
| "conv_name Op_trunc_i8 = ''trunc_i8''"
| "conv_name Op_fptosi_i32 = ''fptosi_i32''"
| "conv_name Op_fptosi_i64 = ''fptosi_i64''"
| "conv_name Op_fptosi_i32_f32 = ''fptosi_i32_f32''"
| "conv_name Op_fptosi_i64_f32 = ''fptosi_i64_f32''"
| "conv_name Op_sitofp_f64_i32 = ''sitofp_f64_i32''"
| "conv_name Op_sitofp_f64_i64 = ''sitofp_f64_i64''"
| "conv_name Op_sitofp_f32_i32 = ''sitofp_f32_i32''"
| "conv_name Op_sitofp_f32_i64 = ''sitofp_f32_i64''"
| "conv_name Op_fptrunc_f32_f64 = ''fptrunc_f32_f64''"
| "conv_name Op_fpext_f64_f32 = ''fpext_f64_f32''"
| "conv_name Op_bitcast_i64_f64 = ''bitcast_i64_f64''"
| "conv_name Op_bitcast_f64_i64 = ''bitcast_f64_i64''"
| "conv_name Op_bitcast_i32_f32 = ''bitcast_i32_f32''"
| "conv_name Op_bitcast_f32_i32 = ''bitcast_f32_i32''"
| "conv_name Op_bitcast_i64_tagged = ''bitcast_i64_tagged''"
| "conv_name Op_bitcast_tagged_i64 = ''bitcast_tagged_i64''"

primrec arith_name :: "ArithOp \<Rightarrow> string" where
  "arith_name Op_add = ''add''"
| "arith_name Op_sub = ''sub''"
| "arith_name Op_mul = ''mul''"
| "arith_name Op_fma_f32 = ''fma_f32''"
| "arith_name Op_fma_f64 = ''fma_f64''"
| "arith_name Op_sqrt_f32 = ''sqrt_f32''"
| "arith_name Op_sqrt_f64 = ''sqrt_f64''"
| "arith_name Op_floor_f32 = ''floor_f32''"
| "arith_name Op_floor_f64 = ''floor_f64''"
| "arith_name Op_ceil_f32 = ''ceil_f32''"
| "arith_name Op_ceil_f64 = ''ceil_f64''"
| "arith_name Op_round_f32 = ''round_f32''"
| "arith_name Op_round_f64 = ''round_f64''"
| "arith_name Op_fabs_f32 = ''fabs_f32''"
| "arith_name Op_fabs_f64 = ''fabs_f64''"
| "arith_name Op_fmin_f32 = ''fmin_f32''"
| "arith_name Op_fmin_f64 = ''fmin_f64''"
| "arith_name Op_fmax_f32 = ''fmax_f32''"
| "arith_name Op_fmax_f64 = ''fmax_f64''"
| "arith_name Op_sdiv = ''sdiv''"
| "arith_name Op_udiv = ''udiv''"
| "arith_name Op_smod = ''smod''"
| "arith_name Op_umod = ''umod''"
| "arith_name Op_neg = ''neg''"
| "arith_name Op_and = ''and''"
| "arith_name Op_or = ''or''"
| "arith_name Op_xor = ''xor''"
| "arith_name Op_shl = ''shl''"
| "arith_name Op_lshr = ''lshr''"
| "arith_name Op_ashr = ''ashr''"
| "arith_name Op_not = ''not''"
| "arith_name Op_clz = ''clz''"
| "arith_name Op_ctz = ''ctz''"
| "arith_name Op_popcnt = ''popcnt''"

primrec cmp_name :: "CmpOp \<Rightarrow> string" where
  "cmp_name Op_eq = ''eq''"
| "cmp_name Op_ne = ''ne''"
| "cmp_name Op_slt = ''slt''"
| "cmp_name Op_ult = ''ult''"
| "cmp_name Op_sle = ''sle''"
| "cmp_name Op_ule = ''ule''"
| "cmp_name Op_sgt = ''sgt''"
| "cmp_name Op_ugt = ''ugt''"
| "cmp_name Op_sge = ''sge''"
| "cmp_name Op_uge = ''uge''"

primrec ovf_name :: "OvfOp \<Rightarrow> string" where
  "ovf_name Op_sadd_overflow = ''sadd_overflow''"
| "ovf_name Op_ssub_overflow = ''ssub_overflow''"
| "ovf_name Op_smul_overflow = ''smul_overflow''"
| "ovf_name Op_uadd_overflow = ''uadd_overflow''"
| "ovf_name Op_usub_overflow = ''usub_overflow''"
| "ovf_name Op_umul_overflow = ''umul_overflow''"

primrec sel_name :: "SelOp \<Rightarrow> string" where
  "sel_name Op_select = ''select''"

primrec mem_name :: "MemOp \<Rightarrow> string" where
  "mem_name Op_alloca = ''alloca''"
| "mem_name Op_load = ''load''"
| "mem_name Op_store = ''store''"
| "mem_name Op_load_indexed = ''load_indexed''"
| "mem_name Op_store_indexed = ''store_indexed''"
| "mem_name Op_write_barrier = ''write_barrier''"

primrec pin_name :: "PinOp \<Rightarrow> string" where
  "pin_name Op_pinned_tls_read = ''pinned_tls_read''"
| "pin_name Op_pinned_tls_write = ''pinned_tls_write''"
| "pin_name Op_read_sp = ''read_sp''"

primrec call_name :: "CallOp \<Rightarrow> string" where
  "call_name Op_call = ''call''"
| "call_name Op_call_indirect = ''call_indirect''"
| "call_name Op_patchable_call = ''patchable_call''"
| "call_name Op_safepoint = ''safepoint''"
| "call_name Op_keep_alive = ''keep_alive''"
| "call_name Op_func_addr = ''func_addr''"

primrec spec_name :: "SpecOp \<Rightarrow> string" where
  "spec_name Op_guard = ''guard''"
| "spec_name Op_resume_point = ''resume_point''"

primrec term_name :: "TermOp \<Rightarrow> string" where
  "term_name Op_br = ''br''"
| "term_name Op_br_if = ''br_if''"
| "term_name Op_switch = ''switch''"
| "term_name Op_ret = ''ret''"
| "term_name Op_unreachable = ''unreachable''"

primrec exn_name :: "ExnOp \<Rightarrow> string" where
  "exn_name Op_throw = ''throw''"
| "exn_name Op_invoke = ''invoke''"
| "exn_name Op_landing_pad = ''landing_pad''"
| "exn_name Op_resume = ''resume''"

primrec vec_name :: "VecOp \<Rightarrow> string" where
  "vec_name Op_vadd = ''vadd''"
| "vec_name Op_vsub = ''vsub''"
| "vec_name Op_vmul = ''vmul''"
| "vec_name Op_vdiv = ''vdiv''"
| "vec_name Op_vfma = ''vfma''"
| "vec_name Op_vneg = ''vneg''"
| "vec_name Op_vmin = ''vmin''"
| "vec_name Op_vmax = ''vmax''"
| "vec_name Op_vsqrt = ''vsqrt''"
| "vec_name Op_vand = ''vand''"
| "vec_name Op_vor = ''vor''"
| "vec_name Op_vxor = ''vxor''"
| "vec_name Op_vnot = ''vnot''"
| "vec_name Op_vload = ''vload''"
| "vec_name Op_vstore = ''vstore''"
| "vec_name Op_vbroadcast = ''vbroadcast''"
| "vec_name Op_vextract_lane = ''vextract_lane''"
| "vec_name Op_vinsert_lane = ''vinsert_lane''"
| "vec_name Op_vshuffle = ''vshuffle''"
| "vec_name Op_vzero = ''vzero''"
| "vec_name Op_vcmp_eq = ''vcmp_eq''"
| "vec_name Op_vcmp_ne = ''vcmp_ne''"
| "vec_name Op_vcmp_lt = ''vcmp_lt''"
| "vec_name Op_vcmp_le = ''vcmp_le''"
| "vec_name Op_vcmp_gt = ''vcmp_gt''"
| "vec_name Op_vcmp_ge = ''vcmp_ge''"
| "vec_name Op_vselect = ''vselect''"
| "vec_name Op_vshl = ''vshl''"
| "vec_name Op_vlshr = ''vlshr''"
| "vec_name Op_vashr = ''vashr''"
| "vec_name Op_vconvert = ''vconvert''"
| "vec_name Op_vbitcast = ''vbitcast''"
| "vec_name Op_vfloor = ''vfloor''"
| "vec_name Op_vceil = ''vceil''"
| "vec_name Op_vtrunc = ''vtrunc''"
| "vec_name Op_vround = ''vround''"
| "vec_name Op_vany = ''vany''"

primrec coro_name :: "CoroOp \<Rightarrow> string" where
  "coro_name Op_coro_create = ''coro_create''"
| "coro_name Op_coro_suspend = ''coro_suspend''"
| "coro_name Op_coro_resume = ''coro_resume''"
| "coro_name Op_coro_destroy = ''coro_destroy''"

primrec opcode_name :: "Opcode \<Rightarrow> string" where
  "opcode_name (OpConst x) = const_name x"
| "opcode_name (OpConv x) = conv_name x"
| "opcode_name (OpArith x) = arith_name x"
| "opcode_name (OpCmp x) = cmp_name x"
| "opcode_name (OpOvf x) = ovf_name x"
| "opcode_name (OpSel x) = sel_name x"
| "opcode_name (OpMem x) = mem_name x"
| "opcode_name (OpPin x) = pin_name x"
| "opcode_name (OpCall x) = call_name x"
| "opcode_name (OpSpec x) = spec_name x"
| "opcode_name (OpTerm x) = term_name x"
| "opcode_name (OpExn x) = exn_name x"
| "opcode_name (OpVec x) = vec_name x"
| "opcode_name (OpCoro x) = coro_name x"

section \<open>Classification\<close>

definition is_terminator :: "Opcode \<Rightarrow> bool" where
  "is_terminator op \<longleftrightarrow>
     op \<in> set [OpTerm Op_br, OpTerm Op_br_if, OpTerm Op_switch, OpTerm Op_ret, OpTerm Op_unreachable,
     OpExn Op_throw, OpExn Op_invoke, OpExn Op_resume]"

definition is_branch :: "Opcode \<Rightarrow> bool" where
  "is_branch op \<longleftrightarrow>
     op \<in> set [OpTerm Op_br, OpTerm Op_br_if, OpTerm Op_switch, OpExn Op_invoke]"

definition is_call :: "Opcode \<Rightarrow> bool" where
  "is_call op \<longleftrightarrow>
     op \<in> set [OpCall Op_call, OpCall Op_call_indirect, OpCall Op_patchable_call, OpExn Op_invoke]"

definition is_constant :: "Opcode \<Rightarrow> bool" where
  "is_constant op \<longleftrightarrow>
     op \<in> set [OpConst Op_iconst_i32, OpConst Op_iconst_i64, OpConst Op_fconst_f64,
     OpConst Op_patchable_const_i32, OpConst Op_patchable_const_i64]"

definition is_conversion :: "Opcode \<Rightarrow> bool" where
  "is_conversion op \<longleftrightarrow>
     op \<in> set [OpConv Op_sext_i64, OpConv Op_zext_i64, OpConv Op_trunc_i32, OpConv Op_trunc_i8,
     OpConv Op_fptosi_i32, OpConv Op_fptosi_i64, OpConv Op_fptosi_i32_f32,
     OpConv Op_fptosi_i64_f32, OpConv Op_sitofp_f64_i32, OpConv Op_sitofp_f64_i64,
     OpConv Op_sitofp_f32_i32, OpConv Op_sitofp_f32_i64, OpConv Op_fptrunc_f32_f64,
     OpConv Op_fpext_f64_f32, OpConv Op_bitcast_i64_f64, OpConv Op_bitcast_f64_i64,
     OpConv Op_bitcast_i32_f32, OpConv Op_bitcast_f32_i32]"

definition is_arithmetic :: "Opcode \<Rightarrow> bool" where
  "is_arithmetic op \<longleftrightarrow>
     op \<in> set [OpArith Op_add, OpArith Op_sub, OpArith Op_mul, OpArith Op_fma_f32, OpArith Op_fma_f64,
     OpArith Op_sqrt_f32, OpArith Op_sqrt_f64, OpArith Op_floor_f32, OpArith Op_floor_f64,
     OpArith Op_ceil_f32, OpArith Op_ceil_f64, OpArith Op_round_f32, OpArith Op_round_f64,
     OpArith Op_fabs_f32, OpArith Op_fabs_f64, OpArith Op_fmin_f32, OpArith Op_fmin_f64,
     OpArith Op_fmax_f32, OpArith Op_fmax_f64, OpArith Op_sdiv, OpArith Op_udiv, OpArith Op_smod,
     OpArith Op_umod, OpArith Op_neg, OpOvf Op_sadd_overflow, OpOvf Op_ssub_overflow,
     OpOvf Op_smul_overflow, OpOvf Op_uadd_overflow, OpOvf Op_usub_overflow,
     OpOvf Op_umul_overflow]"

definition is_bitwise :: "Opcode \<Rightarrow> bool" where
  "is_bitwise op \<longleftrightarrow>
     op \<in> set [OpArith Op_and, OpArith Op_or, OpArith Op_xor, OpArith Op_shl, OpArith Op_lshr,
     OpArith Op_ashr, OpArith Op_not, OpArith Op_clz, OpArith Op_ctz, OpArith Op_popcnt]"

definition is_comparison :: "Opcode \<Rightarrow> bool" where
  "is_comparison op \<longleftrightarrow>
     op \<in> set [OpCmp Op_eq, OpCmp Op_ne, OpCmp Op_slt, OpCmp Op_ult, OpCmp Op_sle, OpCmp Op_ule,
     OpCmp Op_sgt, OpCmp Op_ugt, OpCmp Op_sge, OpCmp Op_uge]"

definition is_memory :: "Opcode \<Rightarrow> bool" where
  "is_memory op \<longleftrightarrow>
     op \<in> set [OpMem Op_alloca, OpMem Op_load, OpMem Op_store, OpMem Op_load_indexed,
     OpMem Op_store_indexed, OpVec Op_vload, OpVec Op_vstore]"

definition is_write_barrier :: "Opcode \<Rightarrow> bool" where
  "is_write_barrier op \<longleftrightarrow>
     op = OpMem Op_write_barrier"

definition is_select :: "Opcode \<Rightarrow> bool" where
  "is_select op \<longleftrightarrow>
     op = OpSel Op_select"

definition is_vector_op :: "Opcode \<Rightarrow> bool" where
  "is_vector_op op \<longleftrightarrow>
     op \<in> set [OpVec Op_vadd, OpVec Op_vsub, OpVec Op_vmul, OpVec Op_vdiv, OpVec Op_vfma, OpVec Op_vneg,
     OpVec Op_vmin, OpVec Op_vmax, OpVec Op_vsqrt, OpVec Op_vand, OpVec Op_vor, OpVec Op_vxor,
     OpVec Op_vnot, OpVec Op_vload, OpVec Op_vstore, OpVec Op_vbroadcast, OpVec Op_vextract_lane,
     OpVec Op_vinsert_lane, OpVec Op_vshuffle, OpVec Op_vzero, OpVec Op_vcmp_eq,
     OpVec Op_vcmp_ne, OpVec Op_vcmp_lt, OpVec Op_vcmp_le, OpVec Op_vcmp_gt, OpVec Op_vcmp_ge,
     OpVec Op_vselect, OpVec Op_vshl, OpVec Op_vlshr, OpVec Op_vashr, OpVec Op_vconvert,
     OpVec Op_vbitcast, OpVec Op_vfloor, OpVec Op_vceil, OpVec Op_vtrunc, OpVec Op_vround,
     OpVec Op_vany]"

definition is_coro_op :: "Opcode \<Rightarrow> bool" where
  "is_coro_op op \<longleftrightarrow>
     op \<in> set [OpCoro Op_coro_create, OpCoro Op_coro_suspend, OpCoro Op_coro_resume, OpCoro Op_coro_destroy]"

definition is_coro_suspend :: "Opcode \<Rightarrow> bool" where
  "is_coro_suspend op \<longleftrightarrow>
     op = OpCoro Op_coro_suspend"

definition is_coro_resume :: "Opcode \<Rightarrow> bool" where
  "is_coro_resume op \<longleftrightarrow>
     op = OpCoro Op_coro_resume"

definition has_side_effects :: "Opcode \<Rightarrow> bool" where
  "has_side_effects op \<longleftrightarrow>
     is_terminator op \<or> is_call op \<or> is_coro_op op \<or>
     op \<in> set [OpMem Op_alloca, OpMem Op_store, OpMem Op_store_indexed, OpVec Op_vstore,
     OpMem Op_write_barrier, OpPin Op_pinned_tls_read, OpPin Op_pinned_tls_write,
     OpPin Op_read_sp, OpCall Op_safepoint, OpCall Op_keep_alive, OpSpec Op_guard,
     OpSpec Op_resume_point, OpExn Op_landing_pad]"

lemmas opcode_class_defs =
  is_terminator_def is_branch_def is_call_def is_constant_def is_conversion_def is_arithmetic_def
  is_bitwise_def is_comparison_def is_memory_def is_write_barrier_def is_select_def
  is_vector_op_def is_coro_op_def is_coro_suspend_def is_coro_resume_def has_side_effects_def

section \<open>Enumeration of the opcodes\<close>

text \<open>Every opcode in the order of the source's enumeration.\<close>

definition all_opcodes :: "Opcode list" where
  "all_opcodes =
     [OpConst Op_iconst_i32, OpConst Op_iconst_i64, OpConst Op_fconst_f64,
      OpConst Op_patchable_const_i32, OpConst Op_patchable_const_i64, OpConv Op_sext_i64,
      OpConv Op_zext_i64, OpConv Op_trunc_i32, OpConv Op_trunc_i8, OpConv Op_fptosi_i32,
      OpConv Op_fptosi_i64, OpConv Op_fptosi_i32_f32, OpConv Op_fptosi_i64_f32,
      OpConv Op_sitofp_f64_i32, OpConv Op_sitofp_f64_i64, OpConv Op_sitofp_f32_i32,
      OpConv Op_sitofp_f32_i64, OpConv Op_fptrunc_f32_f64, OpConv Op_fpext_f64_f32,
      OpConv Op_bitcast_i64_f64, OpConv Op_bitcast_f64_i64, OpConv Op_bitcast_i32_f32,
      OpConv Op_bitcast_f32_i32, OpConv Op_bitcast_i64_tagged, OpConv Op_bitcast_tagged_i64,
      OpArith Op_add, OpArith Op_sub, OpArith Op_mul, OpArith Op_fma_f32, OpArith Op_fma_f64,
      OpArith Op_sqrt_f32, OpArith Op_sqrt_f64, OpArith Op_floor_f32, OpArith Op_floor_f64,
      OpArith Op_ceil_f32, OpArith Op_ceil_f64, OpArith Op_round_f32, OpArith Op_round_f64,
      OpArith Op_fabs_f32, OpArith Op_fabs_f64, OpArith Op_fmin_f32, OpArith Op_fmin_f64,
      OpArith Op_fmax_f32, OpArith Op_fmax_f64, OpArith Op_sdiv, OpArith Op_udiv, OpArith Op_smod,
      OpArith Op_umod, OpArith Op_neg, OpArith Op_and, OpArith Op_or, OpArith Op_xor,
      OpArith Op_shl, OpArith Op_lshr, OpArith Op_ashr, OpArith Op_not, OpArith Op_clz,
      OpArith Op_ctz, OpArith Op_popcnt, OpCmp Op_eq, OpCmp Op_ne, OpCmp Op_slt, OpCmp Op_ult,
      OpCmp Op_sle, OpCmp Op_ule, OpCmp Op_sgt, OpCmp Op_ugt, OpCmp Op_sge, OpCmp Op_uge,
      OpOvf Op_sadd_overflow, OpOvf Op_ssub_overflow, OpOvf Op_smul_overflow,
      OpOvf Op_uadd_overflow, OpOvf Op_usub_overflow, OpOvf Op_umul_overflow, OpSel Op_select,
      OpMem Op_alloca, OpMem Op_load, OpMem Op_store, OpMem Op_load_indexed,
      OpMem Op_store_indexed, OpMem Op_write_barrier, OpPin Op_pinned_tls_read,
      OpPin Op_pinned_tls_write, OpPin Op_read_sp, OpCall Op_call, OpCall Op_call_indirect,
      OpCall Op_patchable_call, OpCall Op_safepoint, OpCall Op_keep_alive, OpCall Op_func_addr,
      OpSpec Op_guard, OpSpec Op_resume_point, OpTerm Op_br, OpTerm Op_br_if, OpTerm Op_switch,
      OpTerm Op_ret, OpTerm Op_unreachable, OpExn Op_throw, OpExn Op_invoke, OpExn Op_landing_pad,
      OpExn Op_resume, OpVec Op_vadd, OpVec Op_vsub, OpVec Op_vmul, OpVec Op_vdiv, OpVec Op_vfma,
      OpVec Op_vneg, OpVec Op_vmin, OpVec Op_vmax, OpVec Op_vsqrt, OpVec Op_vand, OpVec Op_vor,
      OpVec Op_vxor, OpVec Op_vnot, OpVec Op_vload, OpVec Op_vstore, OpVec Op_vbroadcast,
      OpVec Op_vextract_lane, OpVec Op_vinsert_lane, OpVec Op_vshuffle, OpVec Op_vzero,
      OpVec Op_vcmp_eq, OpVec Op_vcmp_ne, OpVec Op_vcmp_lt, OpVec Op_vcmp_le, OpVec Op_vcmp_gt,
      OpVec Op_vcmp_ge, OpVec Op_vselect, OpVec Op_vshl, OpVec Op_vlshr, OpVec Op_vashr,
      OpVec Op_vconvert, OpVec Op_vbitcast, OpVec Op_vfloor, OpVec Op_vceil, OpVec Op_vtrunc,
      OpVec Op_vround, OpVec Op_vany, OpCoro Op_coro_create, OpCoro Op_coro_suspend,
      OpCoro Op_coro_resume, OpCoro Op_coro_destroy]"

lemma all_opcodes_complete: "op \<in> set all_opcodes"
proof (cases op)
  case (OpConst x) then show ?thesis by (cases x) (simp_all add: all_opcodes_def)
next
  case (OpConv x) then show ?thesis by (cases x) (simp_all add: all_opcodes_def)
next
  case (OpArith x) then show ?thesis by (cases x) (simp_all add: all_opcodes_def)
next
  case (OpCmp x) then show ?thesis by (cases x) (simp_all add: all_opcodes_def)
next
  case (OpOvf x) then show ?thesis by (cases x) (simp_all add: all_opcodes_def)
next
  case (OpSel x) then show ?thesis by (cases x) (simp_all add: all_opcodes_def)
next
  case (OpMem x) then show ?thesis by (cases x) (simp_all add: all_opcodes_def)
next
  case (OpPin x) then show ?thesis by (cases x) (simp_all add: all_opcodes_def)
next
  case (OpCall x) then show ?thesis by (cases x) (simp_all add: all_opcodes_def)
next
  case (OpSpec x) then show ?thesis by (cases x) (simp_all add: all_opcodes_def)
next
  case (OpTerm x) then show ?thesis by (cases x) (simp_all add: all_opcodes_def)
next
  case (OpExn x) then show ?thesis by (cases x) (simp_all add: all_opcodes_def)
next
  case (OpVec x) then show ?thesis by (cases x) (simp_all add: all_opcodes_def)
next
  case (OpCoro x) then show ?thesis by (cases x) (simp_all add: all_opcodes_def)
qed

lemma opcode_names_distinct: "distinct (map opcode_name all_opcodes)"
  by code_simp

section \<open>Properties\<close>

text \<open>
  The printed name identifies the opcode: no two opcodes share one, so the textual form
  of a program determines its operations.
\<close>

theorem opcode_names_identify: "opcode_name op = opcode_name op' \<longleftrightarrow> op = op'"
proof -
  have "inj_on opcode_name (set all_opcodes)"
    using opcode_names_distinct by (simp add: distinct_map)
  then show ?thesis
    by (auto dest: inj_onD intro: all_opcodes_complete)
qed

end
