(* ===== verification/Word_Semantics.thy ===== *)
theory Word_Semantics
  imports Mir_Opcodes
begin

text \<open>
  The reference semantics of the MIR integer operations, as \<open>docs/semantics.md\<close> states it:
  an \<open>iN\<close> value is an N-bit two's-complement pattern, arithmetic wraps modulo \<open>2\<^sup>N\<close>, the
  signedness is the operation's, \<open>sdiv MIN, -1\<close> is \<open>MIN\<close> and \<open>smod MIN, -1\<close> is \<open>0\<close>, and a zero
  divisor has no result.  A shift amount is taken modulo the width, which is not in the document:
  it leaves the result of a shift of an \<open>i8\<close> or \<open>i16\<close> by the width or more unspecified, and says
  that out-of-range shifts are never folded.  It is what the interpreter and the processor do at 32
  and 64 bits, and what the folder folds such a shift to; the narrow evaluator does not, so the
  comparison with it is for amounts below the width.  The semantics is polymorphic in the
  width: the constant folder, the two interpreters' value operations and the narrow integer
  operations are all proved against the same definitions, at widths 8, 16, 32 and 64.
\<close>

definition word_sdiv :: "'a::len word \<Rightarrow> 'a word \<Rightarrow> 'a word" where
  "word_sdiv x y = word_of_int (sint x sdiv sint y)"

definition word_smod :: "'a::len word \<Rightarrow> 'a word \<Rightarrow> 'a word" where
  "word_smod x y = word_of_int (sint x smod sint y)"

text \<open>The amount of a shift as the executions take it at 32 and 64 bits: modulo the width.\<close>

definition shift_amount :: "'a::len word \<Rightarrow> nat" where
  "shift_amount y = unat y mod LENGTH('a)"

fun word_arith :: "ArithOp \<Rightarrow> 'a::len word \<Rightarrow> 'a word \<Rightarrow> 'a word option" where
  "word_arith Op_add x y = Some (x + y)"
| "word_arith Op_sub x y = Some (x - y)"
| "word_arith Op_mul x y = Some (x * y)"
| "word_arith Op_and x y = Some (x AND y)"
| "word_arith Op_or x y = Some (x OR y)"
| "word_arith Op_xor x y = Some (x XOR y)"
| "word_arith Op_shl x y = Some (push_bit (shift_amount y) x)"
| "word_arith Op_lshr x y = Some (drop_bit (shift_amount y) x)"
| "word_arith Op_ashr x y = Some (signed_drop_bit (shift_amount y) x)"
| "word_arith Op_sdiv x y = (if y = 0 then None else Some (word_sdiv x y))"
| "word_arith Op_smod x y = (if y = 0 then None else Some (word_smod x y))"
| "word_arith Op_udiv x y = (if y = 0 then None else Some (x div y))"
| "word_arith Op_umod x y = (if y = 0 then None else Some (x mod y))"
| "word_arith _ x y = None"

fun word_unary :: "ArithOp \<Rightarrow> 'a::len word \<Rightarrow> 'a word option" where
  "word_unary Op_neg x = Some (- x)"
| "word_unary Op_not x = Some (NOT x)"
| "word_unary Op_clz x = Some (of_nat (countl_zero x))"
| "word_unary Op_ctz x = Some (of_nat (countr_zero x))"
| "word_unary Op_popcnt x = Some (of_nat (popcount x))"
| "word_unary _ x = None"

fun word_cmp :: "CmpOp \<Rightarrow> 'a::len word \<Rightarrow> 'a word \<Rightarrow> bool" where
  "word_cmp Op_eq x y \<longleftrightarrow> x = y"
| "word_cmp Op_ne x y \<longleftrightarrow> x \<noteq> y"
| "word_cmp Op_slt x y \<longleftrightarrow> sint x < sint y"
| "word_cmp Op_sle x y \<longleftrightarrow> sint x \<le> sint y"
| "word_cmp Op_sgt x y \<longleftrightarrow> sint x > sint y"
| "word_cmp Op_sge x y \<longleftrightarrow> sint x \<ge> sint y"
| "word_cmp Op_ult x y \<longleftrightarrow> x < y"
| "word_cmp Op_ule x y \<longleftrightarrow> x \<le> y"
| "word_cmp Op_ugt x y \<longleftrightarrow> x > y"
| "word_cmp Op_uge x y \<longleftrightarrow> x \<ge> y"

fun word_overflow :: "OvfOp \<Rightarrow> 'a::len word \<Rightarrow> 'a word \<Rightarrow> bool" where
  "word_overflow Op_sadd_overflow x y \<longleftrightarrow> sint (x + y) \<noteq> sint x + sint y"
| "word_overflow Op_ssub_overflow x y \<longleftrightarrow> sint (x - y) \<noteq> sint x - sint y"
| "word_overflow Op_smul_overflow x y \<longleftrightarrow> sint (x * y) \<noteq> sint x * sint y"
| "word_overflow Op_uadd_overflow x y \<longleftrightarrow> uint (x + y) \<noteq> uint x + uint y"
| "word_overflow Op_usub_overflow x y \<longleftrightarrow> uint (x - y) \<noteq> uint x - uint y"
| "word_overflow Op_umul_overflow x y \<longleftrightarrow> uint (x * y) \<noteq> uint x * uint y"

section \<open>Signed division\<close>

text \<open>\<open>MIN / -1\<close> wraps to \<open>MIN\<close> and leaves no remainder, at the widths the folder uses.\<close>

lemma word_sdiv_min_neg1:
  "word_sdiv (0x80000000 :: 32 word) (- 1) = 0x80000000"
  "word_sdiv (0x8000000000000000 :: 64 word) (- 1) = 0x8000000000000000"
  by (simp_all add: word_sdiv_def signed_divide_int_def)

lemma word_smod_neg1: "word_smod (x :: 'a::len word) (- 1) = 0"
  by (simp add: word_smod_def signed_modulo_int_def signed_divide_int_def sgn_mult_abs)

end
