(* ===== verification/Mir_Types.thy ===== *)
theory Mir_Types
  imports Prelude
begin

text \<open>
  MIR value types (\<open>include/brass/mir/types.hpp\<close>, \<open>src/mir/types.cpp\<close>).  The class
  \<open>Type\<close> holds one \<open>TypeKind\<close> and nothing else, so a type is modelled by its kind.
\<close>

datatype TypeKind =
    I8 | I16 | I32 | I64 | F32 | F64 | Ptr | GCRef | Void
  | F32x4 | F64x2 | I32x4 | I64x2 | F32x8 | F64x4 | I32x8 | I64x4 | Tagged

fun size_in_bytes :: "TypeKind \<Rightarrow> nat" where
  "size_in_bytes I8 = 1"
| "size_in_bytes I16 = 2"
| "size_in_bytes I32 = 4"
| "size_in_bytes F32 = 4"
| "size_in_bytes I64 = 8"
| "size_in_bytes F64 = 8"
| "size_in_bytes Ptr = 8"
| "size_in_bytes GCRef = 8"
| "size_in_bytes Tagged = 8"
| "size_in_bytes Void = 0"
| "size_in_bytes F32x4 = 16"
| "size_in_bytes F64x2 = 16"
| "size_in_bytes I32x4 = 16"
| "size_in_bytes I64x2 = 16"
| "size_in_bytes F32x8 = 32"
| "size_in_bytes F64x4 = 32"
| "size_in_bytes I32x8 = 32"
| "size_in_bytes I64x4 = 32"

definition is_integer :: "TypeKind \<Rightarrow> bool" where
  "is_integer t \<longleftrightarrow> t = I8 \<or> t = I16 \<or> t = I32 \<or> t = I64"

definition is_float :: "TypeKind \<Rightarrow> bool" where
  "is_float t \<longleftrightarrow> t = F32 \<or> t = F64"

definition is_numeric :: "TypeKind \<Rightarrow> bool" where
  "is_numeric t \<longleftrightarrow> is_integer t \<or> is_float t"

definition is_pointer :: "TypeKind \<Rightarrow> bool" where
  "is_pointer t \<longleftrightarrow> t = Ptr"

definition is_gcref :: "TypeKind \<Rightarrow> bool" where
  "is_gcref t \<longleftrightarrow> t = GCRef"

definition is_pointer_or_gcref :: "TypeKind \<Rightarrow> bool" where
  "is_pointer_or_gcref t \<longleftrightarrow> is_pointer t \<or> is_gcref t"

definition is_tagged :: "TypeKind \<Rightarrow> bool" where
  "is_tagged t \<longleftrightarrow> t = Tagged"

definition is_gc_root :: "TypeKind \<Rightarrow> bool" where
  "is_gc_root t \<longleftrightarrow> is_gcref t \<or> is_tagged t"

definition is_void :: "TypeKind \<Rightarrow> bool" where
  "is_void t \<longleftrightarrow> t = Void"

definition is_v128 :: "TypeKind \<Rightarrow> bool" where
  "is_v128 t \<longleftrightarrow> t = F32x4 \<or> t = F64x2 \<or> t = I32x4 \<or> t = I64x2"

definition is_v256 :: "TypeKind \<Rightarrow> bool" where
  "is_v256 t \<longleftrightarrow> t = F32x8 \<or> t = F64x4 \<or> t = I32x8 \<or> t = I64x4"

definition is_vector :: "TypeKind \<Rightarrow> bool" where
  "is_vector t \<longleftrightarrow> is_v128 t \<or> is_v256 t"

definition vector_lanes :: "TypeKind \<Rightarrow> nat" where
  "vector_lanes t =
     (if t = F32x4 \<or> t = I32x4 then 4
      else if t = F64x2 \<or> t = I64x2 then 2
      else if t = F32x8 \<or> t = I32x8 then 8
      else if t = F64x4 \<or> t = I64x4 then 4
      else 0)"

fun element_type :: "TypeKind \<Rightarrow> TypeKind" where
  "element_type F32x4 = F32"
| "element_type F64x2 = F64"
| "element_type I32x4 = I32"
| "element_type I64x2 = I64"
| "element_type F32x8 = F32"
| "element_type F64x4 = F64"
| "element_type I32x8 = I32"
| "element_type I64x4 = I64"
| "element_type t = t"

fun vector_mask_type :: "TypeKind \<Rightarrow> TypeKind" where
  "vector_mask_type F32x4 = I32x4"
| "vector_mask_type I32x4 = I32x4"
| "vector_mask_type F64x2 = I64x2"
| "vector_mask_type I64x2 = I64x2"
| "vector_mask_type F32x8 = I32x8"
| "vector_mask_type I32x8 = I32x8"
| "vector_mask_type F64x4 = I64x4"
| "vector_mask_type I64x4 = I64x4"
| "vector_mask_type t = t"

fun type_name :: "TypeKind \<Rightarrow> string" where
  "type_name I8 = ''i8''"
| "type_name I16 = ''i16''"
| "type_name I32 = ''i32''"
| "type_name I64 = ''i64''"
| "type_name F32 = ''f32''"
| "type_name F64 = ''f64''"
| "type_name Ptr = ''ptr''"
| "type_name GCRef = ''gcref''"
| "type_name Void = ''void''"
| "type_name F32x4 = ''f32x4''"
| "type_name F64x2 = ''f64x2''"
| "type_name I32x4 = ''i32x4''"
| "type_name I64x2 = ''i64x2''"
| "type_name F32x8 = ''f32x8''"
| "type_name F64x4 = ''f64x4''"
| "type_name I32x8 = ''i32x8''"
| "type_name I64x4 = ''i64x4''"
| "type_name Tagged = ''tagged''"

lemmas type_class_defs =
  is_integer_def is_float_def is_numeric_def is_pointer_def is_gcref_def is_pointer_or_gcref_def
  is_tagged_def is_gc_root_def is_void_def is_v128_def is_v256_def is_vector_def vector_lanes_def

section \<open>Layout of vector types\<close>

lemma vector_size: "is_vector t \<Longrightarrow>
    size_in_bytes t = vector_lanes t * size_in_bytes (element_type t)"
  by (cases t) (simp_all add: type_class_defs)

lemma vector_mask_layout: "is_vector t \<Longrightarrow>
    vector_lanes (vector_mask_type t) = vector_lanes t \<and>
    size_in_bytes (vector_mask_type t) = size_in_bytes t \<and>
    is_integer (element_type (vector_mask_type t)) \<and>
    size_in_bytes (element_type (vector_mask_type t)) = size_in_bytes (element_type t)"
  by (cases t) (simp_all add: type_class_defs)

lemma type_name_inj: "inj type_name"
proof (rule injI)
  fix s t :: TypeKind
  assume "type_name s = type_name t"
  then show "s = t" by (cases s; cases t; simp)
qed

end
