(* ===== verification/Float_Arith.thy ===== *)
theory Float_Arith
  imports Prelude
begin

text \<open>
  Floating-point arithmetic with the NaN rule every tier follows
  (\<open>include/brass/interpreter/float_arith.hpp\<close>).  A \<open>double\<close> is its 64-bit pattern and a \<open>float\<close>
  its 32-bit pattern.  The IEEE-754 operations of the host on non-NaN operands and its
  comparisons and conversions are the record \<open>fpu\<close>, a parameter of every definition that uses
  them: no theorem depends on more than the record.  \<open>snan_first\<close> is the preprocessor choice
  between the AArch64 and the x86 operand priority.
\<close>

record fpu =
  snan_first :: bool
  f64_add :: "u64 \<Rightarrow> u64 \<Rightarrow> u64"
  f64_sub :: "u64 \<Rightarrow> u64 \<Rightarrow> u64"
  f64_mul :: "u64 \<Rightarrow> u64 \<Rightarrow> u64"
  f64_div :: "u64 \<Rightarrow> u64 \<Rightarrow> u64"
  f64_fmod :: "u64 \<Rightarrow> u64 \<Rightarrow> u64"
  f64_neg :: "u64 \<Rightarrow> u64"
  f64_eq :: "u64 \<Rightarrow> u64 \<Rightarrow> bool"
  f64_lt :: "u64 \<Rightarrow> u64 \<Rightarrow> bool"
  f64_le :: "u64 \<Rightarrow> u64 \<Rightarrow> bool"
  f32_add :: "u32 \<Rightarrow> u32 \<Rightarrow> u32"
  f32_sub :: "u32 \<Rightarrow> u32 \<Rightarrow> u32"
  f32_mul :: "u32 \<Rightarrow> u32 \<Rightarrow> u32"
  f32_div :: "u32 \<Rightarrow> u32 \<Rightarrow> u32"
  f32_fmod :: "u32 \<Rightarrow> u32 \<Rightarrow> u32"
  f32_neg :: "u32 \<Rightarrow> u32"
  f32_eq :: "u32 \<Rightarrow> u32 \<Rightarrow> bool"
  f32_lt :: "u32 \<Rightarrow> u32 \<Rightarrow> bool"
  f32_le :: "u32 \<Rightarrow> u32 \<Rightarrow> bool"
  f64_of_f32 :: "u32 \<Rightarrow> u64"
  f32_of_f64 :: "u64 \<Rightarrow> u32"
  f64_of_int :: "int \<Rightarrow> u64"
  f32_of_int :: "int \<Rightarrow> u32"

text \<open>
  The conversions and library functions of the host on floating-point values, a parameter as
  the arithmetic is.
\<close>

record fpu_math =
  i32_of_f64 :: "u64 \<Rightarrow> i32"
  i64_of_f64 :: "u64 \<Rightarrow> i64"
  i32_of_f32 :: "u32 \<Rightarrow> i32"
  i64_of_f32 :: "u32 \<Rightarrow> i64"
  std_f64 :: "string \<Rightarrow> u64 list \<Rightarrow> u64"
  std_f32 :: "string \<Rightarrow> u32 list \<Rightarrow> u32"

text \<open>A host whose every operation gives zero, for terms and code without floating point.\<close>

definition zero_fpu :: fpu where
  "zero_fpu = \<lparr>snan_first = False, f64_add = (\<lambda>_ _. 0), f64_sub = (\<lambda>_ _. 0), f64_mul = (\<lambda>_ _. 0), f64_div = (\<lambda>_ _. 0),
     f64_fmod = (\<lambda>_ _. 0), f64_neg = (\<lambda>_. 0), f64_eq = (\<lambda>_ _. False), f64_lt = (\<lambda>_ _. False), f64_le = (\<lambda>_ _. False),
     f32_add = (\<lambda>_ _. 0), f32_sub = (\<lambda>_ _. 0), f32_mul = (\<lambda>_ _. 0), f32_div = (\<lambda>_ _. 0), f32_fmod = (\<lambda>_ _. 0),
     f32_neg = (\<lambda>_. 0), f32_eq = (\<lambda>_ _. False), f32_lt = (\<lambda>_ _. False), f32_le = (\<lambda>_ _. False),
     f64_of_f32 = (\<lambda>_. 0), f32_of_f64 = (\<lambda>_. 0), f64_of_int = (\<lambda>_. 0), f32_of_int = (\<lambda>_. 0)\<rparr>"

definition zero_math :: fpu_math where
  "zero_math = \<lparr>i32_of_f64 = (\<lambda>_. 0), i64_of_f64 = (\<lambda>_. 0), i32_of_f32 = (\<lambda>_. 0), i64_of_f32 = (\<lambda>_. 0),
     std_f64 = (\<lambda>_ _. 0), std_f32 = (\<lambda>_ _. 0)\<rparr>"

section \<open>Classification of bit patterns\<close>

definition quiet64 :: "u64 \<Rightarrow> u64" where
  "quiet64 x = x OR 0x0008000000000000"

definition quiet32 :: "u32 \<Rightarrow> u32" where
  "quiet32 x = x OR 0x00400000"

text \<open>\<open>std::isnan\<close> on the pattern: an all-ones exponent and a non-zero fraction.\<close>

definition isnan64 :: "u64 \<Rightarrow> bool" where
  "isnan64 u \<longleftrightarrow> u AND 0x7FF0000000000000 = 0x7FF0000000000000 \<and> u AND 0x000FFFFFFFFFFFFF \<noteq> 0"

definition isnan32 :: "u32 \<Rightarrow> bool" where
  "isnan32 u \<longleftrightarrow> u AND 0x7F800000 = 0x7F800000 \<and> u AND 0x007FFFFF \<noteq> 0"

text \<open>\<open>std::isfinite\<close>: the exponent is not all ones.\<close>

definition isfinite64 :: "u64 \<Rightarrow> bool" where
  "isfinite64 u \<longleftrightarrow> u AND 0x7FF0000000000000 \<noteq> 0x7FF0000000000000"

definition is_snan64 :: "u64 \<Rightarrow> bool" where
  "is_snan64 u \<longleftrightarrow>
     u AND 0x7FF0000000000000 = 0x7FF0000000000000 \<and>
     u AND 0x0008000000000000 = 0 \<and>
     u AND 0x0007FFFFFFFFFFFF \<noteq> 0"

definition is_snan32 :: "u32 \<Rightarrow> bool" where
  "is_snan32 u \<longleftrightarrow>
     u AND 0x7F800000 = 0x7F800000 \<and>
     u AND 0x00400000 = 0 \<and>
     u AND 0x003FFFFF \<noteq> 0"

section \<open>The NaN rule\<close>

definition nan_operand64 :: "fpu \<Rightarrow> u64 \<Rightarrow> u64 \<Rightarrow> u64 option" where
  "nan_operand64 fp a b =
     (if snan_first fp then
        (if is_snan64 a then Some (quiet64 a)
         else if is_snan64 b then Some (quiet64 b)
         else if isnan64 a then Some (quiet64 a)
         else if isnan64 b then Some (quiet64 b)
         else None)
      else
        (if isnan64 a then Some (quiet64 a)
         else if isnan64 b then Some (quiet64 b)
         else None))"

definition nan_operand32 :: "fpu \<Rightarrow> u32 \<Rightarrow> u32 \<Rightarrow> u32 option" where
  "nan_operand32 fp a b =
     (if snan_first fp then
        (if is_snan32 a then Some (quiet32 a)
         else if is_snan32 b then Some (quiet32 b)
         else if isnan32 a then Some (quiet32 a)
         else if isnan32 b then Some (quiet32 b)
         else None)
      else
        (if isnan32 a then Some (quiet32 a)
         else if isnan32 b then Some (quiet32 b)
         else None))"

definition fparith64 :: "(fpu \<Rightarrow> u64 \<Rightarrow> u64 \<Rightarrow> u64) \<Rightarrow> fpu \<Rightarrow> u64 \<Rightarrow> u64 \<Rightarrow> u64" where
  "fparith64 hw fp a b = (case nan_operand64 fp a b of Some n \<Rightarrow> n | None \<Rightarrow> hw fp a b)"

definition fparith32 :: "(fpu \<Rightarrow> u32 \<Rightarrow> u32 \<Rightarrow> u32) \<Rightarrow> fpu \<Rightarrow> u32 \<Rightarrow> u32 \<Rightarrow> u32" where
  "fparith32 hw fp a b = (case nan_operand32 fp a b of Some n \<Rightarrow> n | None \<Rightarrow> hw fp a b)"

section \<open>What the rule keeps\<close>

lemma is_snan64_isnan: "is_snan64 u \<Longrightarrow> isnan64 u"
proof -
  assume s: "is_snan64 u"
  have "(u AND 0x000FFFFFFFFFFFFF) AND 0x0007FFFFFFFFFFFF = u AND 0x0007FFFFFFFFFFFF"
    by (simp add: and.assoc)
  with s show ?thesis by (auto simp: is_snan64_def isnan64_def)
qed

lemma is_snan32_isnan: "is_snan32 u \<Longrightarrow> isnan32 u"
proof -
  assume s: "is_snan32 u"
  have "(u AND 0x007FFFFF) AND 0x003FFFFF = u AND 0x003FFFFF"
    by (simp add: and.assoc)
  with s show ?thesis by (auto simp: is_snan32_def isnan32_def)
qed

lemma quiet64_nan: "isnan64 u \<Longrightarrow> isnan64 (quiet64 u) \<and> \<not> is_snan64 (quiet64 u)"
  by (simp add: isnan64_def is_snan64_def quiet64_def bit.conj_disj_distrib2 or_eq_0_iff)

lemma quiet32_nan: "isnan32 u \<Longrightarrow> isnan32 (quiet32 u) \<and> \<not> is_snan32 (quiet32 u)"
  by (simp add: isnan32_def is_snan32_def quiet32_def bit.conj_disj_distrib2 or_eq_0_iff)

lemma quiet64_payload: "quiet64 u AND 0xFFF7FFFFFFFFFFFF = u AND 0xFFF7FFFFFFFFFFFF"
  by (simp add: quiet64_def bit.conj_disj_distrib2)

lemma quiet32_payload: "quiet32 u AND 0xFFBFFFFF = u AND 0xFFBFFFFF"
  by (simp add: quiet32_def bit.conj_disj_distrib2)

lemma fparith64_nan:
  "isnan64 a \<or> isnan64 b \<Longrightarrow> \<exists>u. u \<in> {a, b} \<and> isnan64 u \<and> fparith64 hw fp a b = quiet64 u"
  by (auto simp: fparith64_def nan_operand64_def dest: is_snan64_isnan)

lemma fparith32_nan:
  "isnan32 a \<or> isnan32 b \<Longrightarrow> \<exists>u. u \<in> {a, b} \<and> isnan32 u \<and> fparith32 hw fp a b = quiet32 u"
  by (auto simp: fparith32_def nan_operand32_def dest: is_snan32_isnan)

lemma fparith64_hw: "\<not> isnan64 a \<Longrightarrow> \<not> isnan64 b \<Longrightarrow> fparith64 hw fp a b = hw fp a b"
  by (auto simp: fparith64_def nan_operand64_def dest: is_snan64_isnan)

text \<open>
  When an operand of a double operation is a NaN, the result is one of the NaN
  operands with its quiet bit set: a NaN that no longer signals and that keeps the operand's
  sign and the rest of its payload.
\<close>

theorem nan_operand_is_quieted:
  assumes "isnan64 a \<or> isnan64 b"
  shows "\<exists>u. u \<in> {a, b} \<and> isnan64 u \<and>
    isnan64 (fparith64 hw fp a b) \<and> \<not> is_snan64 (fparith64 hw fp a b) \<and>
    fparith64 hw fp a b AND 0xFFF7FFFFFFFFFFFF = u AND 0xFFF7FFFFFFFFFFFF"
proof -
  obtain u where "u \<in> {a, b}" "isnan64 u" "fparith64 hw fp a b = quiet64 u"
    using fparith64_nan [OF assms] by blast
  then show ?thesis using quiet64_nan quiet64_payload by metis
qed

theorem nan_operand_is_quieted_witness:
  "isnan64 0x7FF0000000000001 \<and>
   (\<forall>fp :: fpu. \<exists>u. u \<in> {0x7FF0000000000001, 0} \<and> isnan64 u \<and>
     isnan64 (fparith64 f64_add fp 0x7FF0000000000001 0) \<and>
     \<not> is_snan64 (fparith64 f64_add fp 0x7FF0000000000001 0) \<and>
     fparith64 f64_add fp 0x7FF0000000000001 0 AND 0xFFF7FFFFFFFFFFFF = u AND 0xFFF7FFFFFFFFFFFF)"
proof -
  have "isnan64 0x7FF0000000000001" by (simp add: isnan64_def)
  then show ?thesis using nan_operand_is_quieted [of "0x7FF0000000000001" 0 f64_add] by blast
qed

end
