(* ===== verification/Runtime_Value.thy ===== *)
theory Runtime_Value
  imports Word_Semantics Mir_Types Float_Arith
begin

text \<open>
  The interpreters' runtime values and their scalar operations
  (\<open>include/brass/interpreter/value.hpp\<close>, \<open>src/interpreter/value.cpp\<close>).  A value is a kind, 64
  raw bits and 32 vector bytes.  A thrown \<open>std::runtime_error\<close> is \<open>Inl (RuntimeError msg)\<close>; a
  signed 64-bit \<open>+\<close>, \<open>-\<close> or \<open>*\<close> whose exact result does not fit \<open>int64_t\<close> is undefined behaviour
  of C++ (the build sets no wrapping flag) and is \<open>Inl SignedOverflow\<close>.
\<close>

section \<open>Values\<close>

datatype RuntimeValueKind =
    RVoid | RI32 | RI64 | RF32 | RF64 | RPtr | RGCRef
  | RF32x4 | RF64x2 | RI32x4 | RI64x2 | RF32x8 | RF64x4 | RI32x8 | RI64x4 | RTagged

record RuntimeValue =
  kind :: RuntimeValueKind
  raw_bits :: u64
  vec_bytes :: "u8 list"

definition void_value :: RuntimeValue where
  "void_value = \<lparr>kind = RVoid, raw_bits = 0, vec_bytes = replicate 32 0\<rparr>"

definition from_u32 :: "u32 \<Rightarrow> RuntimeValue" where
  "from_u32 val = void_value\<lparr>kind := RI32, raw_bits := ucast val\<rparr>"

definition from_i32 :: "i32 \<Rightarrow> RuntimeValue" where
  "from_i32 val = void_value\<lparr>kind := RI32, raw_bits := ucast val\<rparr>"

definition from_u64 :: "u64 \<Rightarrow> RuntimeValue" where
  "from_u64 val = void_value\<lparr>kind := RI64, raw_bits := val\<rparr>"

definition from_i64 :: "i64 \<Rightarrow> RuntimeValue" where
  "from_i64 val = void_value\<lparr>kind := RI64, raw_bits := val\<rparr>"

definition from_f32 :: "u32 \<Rightarrow> RuntimeValue" where
  "from_f32 val = void_value\<lparr>kind := RF32, raw_bits := ucast val\<rparr>"

definition from_f64 :: "u64 \<Rightarrow> RuntimeValue" where
  "from_f64 val = void_value\<lparr>kind := RF64, raw_bits := val\<rparr>"

definition from_ptr :: "u64 \<Rightarrow> RuntimeValue" where
  "from_ptr val = void_value\<lparr>kind := RPtr, raw_bits := val\<rparr>"

definition from_gcref :: "u64 \<Rightarrow> RuntimeValue" where
  "from_gcref val = void_value\<lparr>kind := RGCRef, raw_bits := val\<rparr>"

definition from_tagged :: "u64 \<Rightarrow> RuntimeValue" where
  "from_tagged bits = void_value\<lparr>kind := RTagged, raw_bits := bits\<rparr>"

text \<open>\<open>from_bits\<close>: the kind a MIR type is held as; a vector type also gets its first eight bytes.\<close>

fun kind_of_type :: "TypeKind \<Rightarrow> RuntimeValueKind" where
  "kind_of_type I8 = RI32"
| "kind_of_type I16 = RI32"
| "kind_of_type I32 = RI32"
| "kind_of_type I64 = RI64"
| "kind_of_type F32 = RF32"
| "kind_of_type F64 = RF64"
| "kind_of_type Ptr = RPtr"
| "kind_of_type GCRef = RGCRef"
| "kind_of_type Tagged = RTagged"
| "kind_of_type Void = RVoid"
| "kind_of_type F32x4 = RF32x4"
| "kind_of_type F64x2 = RF64x2"
| "kind_of_type I32x4 = RI32x4"
| "kind_of_type I64x2 = RI64x2"
| "kind_of_type F32x8 = RF32x8"
| "kind_of_type F64x4 = RF64x4"
| "kind_of_type I32x8 = RI32x8"
| "kind_of_type I64x4 = RI64x4"

definition le_bytes :: "nat \<Rightarrow> 'a::len word \<Rightarrow> u8 list" where
  "le_bytes n w = map (\<lambda>i. ucast (drop_bit (8 * i) w)) [0..<n]"

definition value_from_bits :: "TypeKind \<Rightarrow> u64 \<Rightarrow> RuntimeValue" where
  "value_from_bits t bits =
     (let v = void_value\<lparr>raw_bits := bits, kind := kind_of_type t\<rparr>
      in if is_vector t then v\<lparr>vec_bytes := le_bytes 8 bits @ drop 8 (vec_bytes v)\<rparr> else v)"

fun value_type :: "RuntimeValueKind \<Rightarrow> TypeKind" where
  "value_type RI32 = I32"
| "value_type RI64 = I64"
| "value_type RF32 = F32"
| "value_type RF64 = F64"
| "value_type RPtr = Ptr"
| "value_type RGCRef = GCRef"
| "value_type RTagged = Tagged"
| "value_type RVoid = Void"
| "value_type RF32x4 = F32x4"
| "value_type RF64x2 = F64x2"
| "value_type RI32x4 = I32x4"
| "value_type RI64x2 = I64x2"
| "value_type RF32x8 = F32x8"
| "value_type RF64x4 = F64x4"
| "value_type RI32x8 = I32x8"
| "value_type RI64x4 = I64x4"

abbreviation is_i32 :: "RuntimeValue \<Rightarrow> bool" where "is_i32 v \<equiv> kind v = RI32"
abbreviation is_i64 :: "RuntimeValue \<Rightarrow> bool" where "is_i64 v \<equiv> kind v = RI64"
abbreviation is_f32 :: "RuntimeValue \<Rightarrow> bool" where "is_f32 v \<equiv> kind v = RF32"
abbreviation is_f64 :: "RuntimeValue \<Rightarrow> bool" where "is_f64 v \<equiv> kind v = RF64"
abbreviation is_ptr :: "RuntimeValue \<Rightarrow> bool" where "is_ptr v \<equiv> kind v = RPtr"
abbreviation is_gcref_value :: "RuntimeValue \<Rightarrow> bool" where "is_gcref_value v \<equiv> kind v = RGCRef"

definition as_u32 :: "RuntimeValue \<Rightarrow> u32" where
  "as_u32 v = ucast (raw_bits v AND 0xFFFFFFFF)"

definition as_i32 :: "RuntimeValue \<Rightarrow> i32" where
  "as_i32 v = ucast (raw_bits v AND 0xFFFFFFFF)"

definition as_i64 :: "RuntimeValue \<Rightarrow> i64" where
  "as_i64 v = (if is_i32 v then scast (as_i32 v) else raw_bits v)"

definition as_u64 :: "RuntimeValue \<Rightarrow> u64" where
  "as_u64 v = raw_bits v"

definition as_f32 :: "fpu \<Rightarrow> RuntimeValue \<Rightarrow> u32" where
  "as_f32 fp v =
     (if is_f32 v then ucast (raw_bits v)
      else if is_f64 v then f32_of_f64 fp (raw_bits v)
      else if is_i32 v then f32_of_int fp (sint (as_i32 v))
      else if is_i64 v then f32_of_int fp (sint (as_i64 v))
      else ucast (raw_bits v))"

definition as_f64 :: "fpu \<Rightarrow> RuntimeValue \<Rightarrow> u64" where
  "as_f64 fp v =
     (if is_f64 v then raw_bits v
      else if is_f32 v then f64_of_f32 fp (ucast (raw_bits v))
      else if is_i32 v then f64_of_int fp (sint (as_i32 v))
      else if is_i64 v then f64_of_int fp (sint (as_i64 v))
      else raw_bits v)"

text \<open>Equality of values: vectors by their 16 or 32 bytes, scalars by their bits.\<close>

definition value_eq :: "RuntimeValue \<Rightarrow> RuntimeValue \<Rightarrow> bool" where
  "value_eq v w =
     (if kind v \<noteq> kind w then False
      else if is_vector (value_type (kind v)) then
        (let sz = (if is_v256 (value_type (kind v)) then 32 else 16)
         in take sz (vec_bytes v) = take sz (vec_bytes w))
      else raw_bits v = raw_bits w)"

section \<open>Conversions\<close>

definition val_sext_i64 :: "RuntimeValue \<Rightarrow> RuntimeValue" where
  "val_sext_i64 v = from_i64 (scast (as_i32 v))"

definition val_zext_i64 :: "RuntimeValue \<Rightarrow> RuntimeValue" where
  "val_zext_i64 v = from_u64 (ucast (as_u32 v))"

definition val_trunc_i32 :: "RuntimeValue \<Rightarrow> RuntimeValue" where
  "val_trunc_i32 v = from_i32 (ucast (as_i64 v))"

section \<open>Arithmetic\<close>

datatype interp_error = RuntimeError string | SignedOverflow

type_synonym interp_result = "interp_error + RuntimeValue"

text \<open>\<open>int64_t\<close> arithmetic: the exact result when it fits, otherwise undefined.\<close>

definition c_int64 :: "int \<Rightarrow> interp_error + i64" where
  "c_int64 k = (if INT64_MIN \<le> k \<and> k \<le> INT64_MAX then Inr (word_of_int k) else Inl SignedOverflow)"

definition to_i64_value :: "interp_error + i64 \<Rightarrow> interp_result" where
  "to_i64_value r = (case r of Inl e \<Rightarrow> Inl e | Inr x \<Rightarrow> Inr (from_i64 x))"

definition ptr_result :: "RuntimeValue \<Rightarrow> u64 \<Rightarrow> interp_result" where
  "ptr_result lhs res = Inr (if is_ptr lhs then from_ptr res else from_gcref res)"

text \<open>The 64-bit reading of an operand that may be an \<open>i32\<close>.\<close>

definition widen :: "RuntimeValue \<Rightarrow> i64" where
  "widen v = (if is_i32 v then scast (as_i32 v) else as_i64 v)"

definition val_add :: "fpu \<Rightarrow> RuntimeValue \<Rightarrow> RuntimeValue \<Rightarrow> interp_result" where
  "val_add fp lhs rhs =
     (if is_f64 lhs \<or> is_f64 rhs then
        Inr (from_f64 (fparith64 f64_add fp (as_f64 fp lhs) (as_f64 fp rhs)))
      else if is_f32 lhs \<or> is_f32 rhs then
        Inr (from_f32 (fparith32 f32_add fp (as_f32 fp lhs) (as_f32 fp rhs)))
      else if is_ptr lhs \<or> is_gcref_value lhs then
        ptr_result lhs (raw_bits lhs + widen rhs)
      else if is_i32 lhs \<and> is_i32 rhs then Inr (from_u32 (as_u32 lhs + as_u32 rhs))
      else to_i64_value (c_int64 (sint (widen lhs) + sint (widen rhs))))"

definition val_sub :: "fpu \<Rightarrow> RuntimeValue \<Rightarrow> RuntimeValue \<Rightarrow> interp_result" where
  "val_sub fp lhs rhs =
     (if is_f64 lhs \<or> is_f64 rhs then
        Inr (from_f64 (fparith64 f64_sub fp (as_f64 fp lhs) (as_f64 fp rhs)))
      else if is_f32 lhs \<or> is_f32 rhs then
        Inr (from_f32 (fparith32 f32_sub fp (as_f32 fp lhs) (as_f32 fp rhs)))
      else if is_ptr lhs \<or> is_gcref_value lhs then
        ptr_result lhs (raw_bits lhs - widen rhs)
      else if is_i32 lhs \<and> is_i32 rhs then Inr (from_u32 (as_u32 lhs - as_u32 rhs))
      else to_i64_value (c_int64 (sint (widen lhs) - sint (widen rhs))))"

definition val_mul :: "fpu \<Rightarrow> RuntimeValue \<Rightarrow> RuntimeValue \<Rightarrow> interp_result" where
  "val_mul fp lhs rhs =
     (if is_f64 lhs \<or> is_f64 rhs then
        Inr (from_f64 (fparith64 f64_mul fp (as_f64 fp lhs) (as_f64 fp rhs)))
      else if is_f32 lhs \<or> is_f32 rhs then
        Inr (from_f32 (fparith32 f32_mul fp (as_f32 fp lhs) (as_f32 fp rhs)))
      else if is_i32 lhs \<and> is_i32 rhs then Inr (from_u32 (as_u32 lhs * as_u32 rhs))
      else to_i64_value (c_int64 (sint (widen lhs) * sint (widen rhs))))"

definition val_sdiv :: "fpu \<Rightarrow> RuntimeValue \<Rightarrow> RuntimeValue \<Rightarrow> interp_result" where
  "val_sdiv fp lhs rhs =
     (if is_f64 lhs \<or> is_f64 rhs then
        Inr (from_f64 (fparith64 f64_div fp (as_f64 fp lhs) (as_f64 fp rhs)))
      else if is_f32 lhs \<or> is_f32 rhs then
        Inr (from_f32 (fparith32 f32_div fp (as_f32 fp lhs) (as_f32 fp rhs)))
      else if is_i32 lhs \<and> is_i32 rhs then
        (let b = as_i32 rhs; a = as_i32 lhs
         in if b = 0 then Inl (RuntimeError ''Interpreter error: Division by zero (i32 sdiv)'')
            else if sint a = INT32_MIN \<and> b = - 1 then Inr (from_i32 (word_of_int INT32_MIN))
            else Inr (from_i32 (word_of_int (sint a sdiv sint b))))
      else
        (let b = widen rhs; a = widen lhs
         in if b = 0 then Inl (RuntimeError ''Interpreter error: Division by zero (i64 sdiv)'')
            else if sint a = INT64_MIN \<and> b = - 1 then Inr (from_i64 (word_of_int INT64_MIN))
            else Inr (from_i64 (word_of_int (sint a sdiv sint b)))))"

definition val_udiv :: "RuntimeValue \<Rightarrow> RuntimeValue \<Rightarrow> interp_result" where
  "val_udiv lhs rhs =
     (if is_i32 lhs \<and> is_i32 rhs then
        (if as_u32 rhs = 0 then Inl (RuntimeError ''Interpreter error: Division by zero (i32 udiv)'')
         else Inr (from_u32 (as_u32 lhs div as_u32 rhs)))
      else
        (if as_u64 rhs = 0 then Inl (RuntimeError ''Interpreter error: Division by zero (i64 udiv)'')
         else Inr (from_u64 (as_u64 lhs div as_u64 rhs))))"

definition val_smod :: "fpu \<Rightarrow> RuntimeValue \<Rightarrow> RuntimeValue \<Rightarrow> interp_result" where
  "val_smod fp lhs rhs =
     (if is_f64 lhs \<or> is_f64 rhs then
        Inr (from_f64 (f64_fmod fp (as_f64 fp lhs) (as_f64 fp rhs)))
      else if is_f32 lhs \<or> is_f32 rhs then
        Inr (from_f32 (f32_fmod fp (as_f32 fp lhs) (as_f32 fp rhs)))
      else if is_i32 lhs \<and> is_i32 rhs then
        (let b = as_i32 rhs; a = as_i32 lhs
         in if b = 0 then Inl (RuntimeError ''Interpreter error: Modulo by zero (i32 smod)'')
            else if sint a = INT32_MIN \<and> b = - 1 then Inr (from_i32 0)
            else Inr (from_i32 (word_of_int (sint a smod sint b))))
      else
        (let b = widen rhs; a = widen lhs
         in if b = 0 then Inl (RuntimeError ''Interpreter error: Modulo by zero (i64 smod)'')
            else if sint a = INT64_MIN \<and> b = - 1 then Inr (from_i64 0)
            else Inr (from_i64 (word_of_int (sint a smod sint b)))))"

definition val_umod :: "RuntimeValue \<Rightarrow> RuntimeValue \<Rightarrow> interp_result" where
  "val_umod lhs rhs =
     (if is_i32 lhs then
        (if as_u32 rhs = 0 then Inl (RuntimeError ''Interpreter error: Modulo by zero (i32 umod)'')
         else Inr (from_u32 (as_u32 lhs mod as_u32 rhs)))
      else
        (if as_u64 rhs = 0 then Inl (RuntimeError ''Interpreter error: Modulo by zero (i64 umod)'')
         else Inr (from_u64 (as_u64 lhs mod as_u64 rhs))))"

definition val_neg :: "fpu \<Rightarrow> RuntimeValue \<Rightarrow> RuntimeValue" where
  "val_neg fp v =
     (if is_f64 v then from_f64 (f64_neg fp (as_f64 fp v))
      else if is_f32 v then from_f32 (f32_neg fp (as_f32 fp v))
      else if is_i32 v then from_u32 (NOT (as_u32 v) + 1)
      else from_u64 (NOT (as_u64 v) + 1))"

section \<open>Bitwise operations\<close>

definition val_and :: "RuntimeValue \<Rightarrow> RuntimeValue \<Rightarrow> RuntimeValue" where
  "val_and lhs rhs =
     (if is_i32 lhs then from_u32 (as_u32 lhs AND as_u32 rhs)
      else from_u64 (as_u64 lhs AND as_u64 rhs))"

definition val_or :: "RuntimeValue \<Rightarrow> RuntimeValue \<Rightarrow> RuntimeValue" where
  "val_or lhs rhs =
     (if is_i32 lhs then from_u32 (as_u32 lhs OR as_u32 rhs)
      else from_u64 (as_u64 lhs OR as_u64 rhs))"

definition val_xor :: "RuntimeValue \<Rightarrow> RuntimeValue \<Rightarrow> RuntimeValue" where
  "val_xor lhs rhs =
     (if is_i32 lhs then from_u32 (as_u32 lhs XOR as_u32 rhs)
      else from_u64 (as_u64 lhs XOR as_u64 rhs))"

definition val_shl :: "RuntimeValue \<Rightarrow> RuntimeValue \<Rightarrow> RuntimeValue" where
  "val_shl lhs rhs =
     (if is_i32 lhs then from_u32 (push_bit (unat (as_u32 rhs AND 31)) (as_u32 lhs))
      else from_u64 (push_bit (unat (as_u64 rhs AND 63)) (as_u64 lhs)))"

definition val_lshr :: "RuntimeValue \<Rightarrow> RuntimeValue \<Rightarrow> RuntimeValue" where
  "val_lshr lhs rhs =
     (if is_i32 lhs then from_u32 (drop_bit (unat (as_u32 rhs AND 31)) (as_u32 lhs))
      else from_u64 (drop_bit (unat (as_u64 rhs AND 63)) (as_u64 lhs)))"

definition val_ashr :: "RuntimeValue \<Rightarrow> RuntimeValue \<Rightarrow> RuntimeValue" where
  "val_ashr lhs rhs =
     (if is_i32 lhs then from_i32 (signed_drop_bit (unat (as_u32 rhs AND 31)) (as_i32 lhs))
      else from_i64 (signed_drop_bit (unat (as_u64 rhs AND 63)) (as_i64 lhs)))"

definition val_not :: "RuntimeValue \<Rightarrow> RuntimeValue" where
  "val_not v = (if is_i32 v then from_u32 (NOT (as_u32 v)) else from_u64 (NOT (as_u64 v)))"

definition val_clz :: "RuntimeValue \<Rightarrow> RuntimeValue" where
  "val_clz v =
     (if is_i32 v then from_i32 (of_nat (countl_zero (as_u32 v)))
      else from_i64 (of_nat (countl_zero (as_u64 v))))"

definition val_ctz :: "RuntimeValue \<Rightarrow> RuntimeValue" where
  "val_ctz v =
     (if is_i32 v then from_i32 (of_nat (countr_zero (as_u32 v)))
      else from_i64 (of_nat (countr_zero (as_u64 v))))"

definition val_popcnt :: "RuntimeValue \<Rightarrow> RuntimeValue" where
  "val_popcnt v =
     (if is_i32 v then from_i32 (of_nat (popcount (as_u32 v)))
      else from_i64 (of_nat (popcount (as_u64 v))))"

section \<open>Comparisons\<close>

definition flag :: "bool \<Rightarrow> RuntimeValue" where
  "flag b = from_i32 (if b then 1 else 0)"

definition val_eq :: "fpu \<Rightarrow> RuntimeValue \<Rightarrow> RuntimeValue \<Rightarrow> RuntimeValue" where
  "val_eq fp lhs rhs =
     (if is_f32 lhs \<or> is_f32 rhs then flag (f32_eq fp (as_f32 fp lhs) (as_f32 fp rhs))
      else if is_f64 lhs \<or> is_f64 rhs then flag (f64_eq fp (as_f64 fp lhs) (as_f64 fp rhs))
      else if is_i32 lhs \<and> is_i32 rhs then flag (as_i32 lhs = as_i32 rhs)
      else flag (raw_bits lhs = raw_bits rhs))"

definition val_ne :: "fpu \<Rightarrow> RuntimeValue \<Rightarrow> RuntimeValue \<Rightarrow> RuntimeValue" where
  "val_ne fp lhs rhs =
     (if is_f32 lhs \<or> is_f32 rhs then flag (\<not> f32_eq fp (as_f32 fp lhs) (as_f32 fp rhs))
      else if is_f64 lhs \<or> is_f64 rhs then flag (\<not> f64_eq fp (as_f64 fp lhs) (as_f64 fp rhs))
      else if is_i32 lhs \<and> is_i32 rhs then flag (as_i32 lhs \<noteq> as_i32 rhs)
      else flag (raw_bits lhs \<noteq> raw_bits rhs))"

definition val_slt :: "fpu \<Rightarrow> RuntimeValue \<Rightarrow> RuntimeValue \<Rightarrow> RuntimeValue" where
  "val_slt fp lhs rhs =
     (if is_f32 lhs \<or> is_f32 rhs then flag (f32_lt fp (as_f32 fp lhs) (as_f32 fp rhs))
      else if is_f64 lhs \<or> is_f64 rhs then flag (f64_lt fp (as_f64 fp lhs) (as_f64 fp rhs))
      else if is_i32 lhs then flag (sint (as_i32 lhs) < sint (as_i32 rhs))
      else flag (sint (as_i64 lhs) < sint (as_i64 rhs)))"

definition val_sle :: "fpu \<Rightarrow> RuntimeValue \<Rightarrow> RuntimeValue \<Rightarrow> RuntimeValue" where
  "val_sle fp lhs rhs =
     (if is_f32 lhs \<or> is_f32 rhs then flag (f32_le fp (as_f32 fp lhs) (as_f32 fp rhs))
      else if is_f64 lhs \<or> is_f64 rhs then flag (f64_le fp (as_f64 fp lhs) (as_f64 fp rhs))
      else if is_i32 lhs then flag (sint (as_i32 lhs) \<le> sint (as_i32 rhs))
      else flag (sint (as_i64 lhs) \<le> sint (as_i64 rhs)))"

definition val_sgt :: "fpu \<Rightarrow> RuntimeValue \<Rightarrow> RuntimeValue \<Rightarrow> RuntimeValue" where
  "val_sgt fp lhs rhs =
     (if is_f32 lhs \<or> is_f32 rhs then flag (f32_lt fp (as_f32 fp rhs) (as_f32 fp lhs))
      else if is_f64 lhs \<or> is_f64 rhs then flag (f64_lt fp (as_f64 fp rhs) (as_f64 fp lhs))
      else if is_i32 lhs then flag (sint (as_i32 lhs) > sint (as_i32 rhs))
      else flag (sint (as_i64 lhs) > sint (as_i64 rhs)))"

definition val_sge :: "fpu \<Rightarrow> RuntimeValue \<Rightarrow> RuntimeValue \<Rightarrow> RuntimeValue" where
  "val_sge fp lhs rhs =
     (if is_f32 lhs \<or> is_f32 rhs then flag (f32_le fp (as_f32 fp rhs) (as_f32 fp lhs))
      else if is_f64 lhs \<or> is_f64 rhs then flag (f64_le fp (as_f64 fp rhs) (as_f64 fp lhs))
      else if is_i32 lhs then flag (sint (as_i32 lhs) \<ge> sint (as_i32 rhs))
      else flag (sint (as_i64 lhs) \<ge> sint (as_i64 rhs)))"

definition val_ult :: "RuntimeValue \<Rightarrow> RuntimeValue \<Rightarrow> RuntimeValue" where
  "val_ult lhs rhs =
     (if is_i32 lhs then flag (as_u32 lhs < as_u32 rhs) else flag (as_u64 lhs < as_u64 rhs))"

definition val_ule :: "RuntimeValue \<Rightarrow> RuntimeValue \<Rightarrow> RuntimeValue" where
  "val_ule lhs rhs =
     (if is_i32 lhs then flag (as_u32 lhs \<le> as_u32 rhs) else flag (as_u64 lhs \<le> as_u64 rhs))"

definition val_ugt :: "RuntimeValue \<Rightarrow> RuntimeValue \<Rightarrow> RuntimeValue" where
  "val_ugt lhs rhs =
     (if is_i32 lhs then flag (as_u32 lhs > as_u32 rhs) else flag (as_u64 lhs > as_u64 rhs))"

definition val_uge :: "RuntimeValue \<Rightarrow> RuntimeValue \<Rightarrow> RuntimeValue" where
  "val_uge lhs rhs =
     (if is_i32 lhs then flag (as_u32 lhs \<ge> as_u32 rhs) else flag (as_u64 lhs \<ge> as_u64 rhs))"

section \<open>Overflow checks\<close>

definition val_sadd_overflow :: "RuntimeValue \<Rightarrow> RuntimeValue \<Rightarrow> RuntimeValue" where
  "val_sadd_overflow lhs rhs =
     (if is_i32 lhs then
        (let sum = sint (as_i32 lhs) + sint (as_i32 rhs) in flag (sum < INT32_MIN \<or> sum > INT32_MAX))
      else
        (let a = sint (as_i64 lhs); b = sint (as_i64 rhs)
         in flag (b > 0 \<and> a > INT64_MAX - b \<or> b < 0 \<and> a < INT64_MIN - b)))"

definition val_ssub_overflow :: "RuntimeValue \<Rightarrow> RuntimeValue \<Rightarrow> RuntimeValue" where
  "val_ssub_overflow lhs rhs =
     (if is_i32 lhs then
        (let diff = sint (as_i32 lhs) - sint (as_i32 rhs)
         in flag (diff < INT32_MIN \<or> diff > INT32_MAX))
      else
        (let a = sint (as_i64 lhs); b = sint (as_i64 rhs)
         in flag (b < 0 \<and> a > INT64_MAX + b \<or> b > 0 \<and> a < INT64_MIN + b)))"

text \<open>
  The 64-bit signed product: GCC and Clang use \<open>__builtin_mul_overflow\<close>, which reports whether
  the exact product fits; other compilers take the chain of division tests.
\<close>

definition builtin_mul_overflow :: "int \<Rightarrow> int \<Rightarrow> bool" where
  "builtin_mul_overflow a b \<longleftrightarrow> a * b < INT64_MIN \<or> a * b > INT64_MAX"

definition portable_mul_overflow :: "int \<Rightarrow> int \<Rightarrow> bool" where
  "portable_mul_overflow a b =
     (if a = 0 \<or> b = 0 then False
      else if a = - 1 \<and> b = INT64_MIN then True
      else if b = - 1 \<and> a = INT64_MIN then True
      else if a > 0 \<and> b > 0 \<and> a > INT64_MAX sdiv b then True
      else if a > 0 \<and> b < 0 \<and> b < INT64_MIN sdiv a then True
      else if a < 0 \<and> b > 0 \<and> a < INT64_MIN sdiv b then True
      else if a < 0 \<and> b < 0 \<and> a < INT64_MAX sdiv b then True
      else False)"

definition val_smul_overflow :: "(int \<Rightarrow> int \<Rightarrow> bool) \<Rightarrow> RuntimeValue \<Rightarrow> RuntimeValue \<Rightarrow> RuntimeValue" where
  "val_smul_overflow mul_ovf lhs rhs =
     (if is_i32 lhs then
        (let prod = sint (as_i32 lhs) * sint (as_i32 rhs)
         in flag (prod < INT32_MIN \<or> prod > INT32_MAX))
      else flag (mul_ovf (sint (as_i64 lhs)) (sint (as_i64 rhs))))"

definition val_uadd_overflow :: "RuntimeValue \<Rightarrow> RuntimeValue \<Rightarrow> RuntimeValue" where
  "val_uadd_overflow lhs rhs =
     (if is_i32 lhs then flag (as_u32 lhs + as_u32 rhs < as_u32 lhs)
      else flag (as_u64 lhs + as_u64 rhs < as_u64 lhs))"

definition val_usub_overflow :: "RuntimeValue \<Rightarrow> RuntimeValue \<Rightarrow> RuntimeValue" where
  "val_usub_overflow lhs rhs =
     (if is_i32 lhs then flag (as_u32 lhs < as_u32 rhs) else flag (as_u64 lhs < as_u64 rhs))"

definition val_umul_overflow :: "RuntimeValue \<Rightarrow> RuntimeValue \<Rightarrow> RuntimeValue" where
  "val_umul_overflow lhs rhs =
     (if is_i32 lhs then
        (let prod = (ucast (as_u32 lhs) :: u64) * ucast (as_u32 rhs) in flag (uint prod > UINT32_MAX))
      else
        (let a = as_u64 lhs; b = as_u64 rhs
         in if a = 0 \<or> b = 0 then flag False else flag ((a * b) div a \<noteq> b)))"

end
