(* ===== verification/Int_Fold.thy ===== *)
theory Int_Fold
  imports Word_Semantics Mir_Types
begin

text \<open>
  The integer constant folder of the MIR optimizer (\<open>src/mir/int_fold.hpp\<close>,
  \<open>src/mir/int_fold.cpp\<close>).  Values travel as \<open>int64_t\<close> in canonical form: a 32-bit value is
  sign-extended.  Each definition follows the C++ function of the same name; the theorems
  show that what it computes at 32 and 64 bits is the reference semantics of
  \<open>Word_Semantics\<close> at that width.
\<close>

definition width_of :: "TypeKind \<Rightarrow> nat" where
  "width_of t =
     (if t = I32 then 32
      else if t = I64 \<or> is_pointer_or_gcref t then 64
      else 0)"

definition canonical :: "i64 \<Rightarrow> nat \<Rightarrow> i64" where
  "canonical v width = (if width = 32 then scast (ucast v :: 32 word) else v)"

definition mask_of :: "nat \<Rightarrow> u64" where
  "mask_of width = (if width \<ge> 64 then NOT 0 else push_bit width 1 - 1)"

definition from_bits :: "u64 \<Rightarrow> nat \<Rightarrow> i64" where
  "from_bits bits width = canonical (bits AND mask_of width) width"

definition min_signed :: "nat \<Rightarrow> i64" where
  "min_signed width = (if width = 32 then word_of_int INT32_MIN else word_of_int INT64_MIN)"

definition division_may_trap :: "Opcode \<Rightarrow> nat \<Rightarrow> i64 \<Rightarrow> bool" where
  "division_may_trap op width divisor =
     (case op of
        OpArith Op_sdiv \<Rightarrow> canonical divisor width = 0
      | OpArith Op_smod \<Rightarrow> canonical divisor width = 0
      | OpArith Op_udiv \<Rightarrow> canonical divisor width = 0
      | OpArith Op_umod \<Rightarrow> canonical divisor width = 0
      | _ \<Rightarrow> False)"

text \<open>
  C++ \<open>/\<close> and \<open>%\<close> on \<open>int64_t\<close> truncate toward zero; the operands reach them only where the
  quotient is representable.
\<close>

definition c_div :: "i64 \<Rightarrow> i64 \<Rightarrow> i64" where
  "c_div a b = word_of_int (sint a sdiv sint b)"

definition c_mod :: "i64 \<Rightarrow> i64 \<Rightarrow> i64" where
  "c_mod a b = word_of_int (sint a smod sint b)"

definition binary :: "Opcode \<Rightarrow> nat \<Rightarrow> i64 \<Rightarrow> i64 \<Rightarrow> i64 option" where
  "binary op width a_in b_in =
     (if width \<noteq> 32 \<and> width \<noteq> 64 then None
      else
        let a = canonical a_in width;
            b = canonical b_in width;
            m = mask_of width;
            ua = a AND m;
            ub = b AND m;
            shift = unat (ub AND of_nat (width - 1))
        in (case op of
              OpArith f \<Rightarrow>
                (case f of
                   Op_add \<Rightarrow> Some (from_bits (ua + ub) width)
                 | Op_sub \<Rightarrow> Some (from_bits (ua - ub) width)
                 | Op_mul \<Rightarrow> Some (from_bits (ua * ub) width)
                 | Op_and \<Rightarrow> Some (from_bits (ua AND ub) width)
                 | Op_or \<Rightarrow> Some (from_bits (ua OR ub) width)
                 | Op_xor \<Rightarrow> Some (from_bits (ua XOR ub) width)
                 | Op_shl \<Rightarrow> Some (from_bits (push_bit shift ua) width)
                 | Op_lshr \<Rightarrow> Some (from_bits (drop_bit shift ua) width)
                 | Op_ashr \<Rightarrow> Some (canonical (signed_drop_bit shift a) width)
                 | Op_sdiv \<Rightarrow>
                     (if b = 0 then None
                      else if a = min_signed width \<and> b = - 1 then Some (min_signed width)
                      else Some (canonical (c_div a b) width))
                 | Op_smod \<Rightarrow>
                     (if b = 0 then None
                      else if a = min_signed width \<and> b = - 1 then Some 0
                      else Some (canonical (c_mod a b) width))
                 | Op_udiv \<Rightarrow>
                     (if ub = 0 then None else Some (from_bits (ua div ub) width))
                 | Op_umod \<Rightarrow>
                     (if ub = 0 then None else Some (from_bits (ua mod ub) width))
                 | _ \<Rightarrow> None)
            | OpCmp c \<Rightarrow>
                (case c of
                   Op_eq \<Rightarrow> Some (if a = b then 1 else 0)
                 | Op_ne \<Rightarrow> Some (if a \<noteq> b then 1 else 0)
                 | Op_slt \<Rightarrow> Some (if sint a < sint b then 1 else 0)
                 | Op_sle \<Rightarrow> Some (if sint a \<le> sint b then 1 else 0)
                 | Op_sgt \<Rightarrow> Some (if sint a > sint b then 1 else 0)
                 | Op_sge \<Rightarrow> Some (if sint a \<ge> sint b then 1 else 0)
                 | Op_ult \<Rightarrow> Some (if ua < ub then 1 else 0)
                 | Op_ule \<Rightarrow> Some (if ua \<le> ub then 1 else 0)
                 | Op_ugt \<Rightarrow> Some (if ua > ub then 1 else 0)
                 | Op_uge \<Rightarrow> Some (if ua \<ge> ub then 1 else 0))
            | _ \<Rightarrow> None))"

definition unary :: "Opcode \<Rightarrow> nat \<Rightarrow> i64 \<Rightarrow> i64 option" where
  "unary op width a_in =
     (if width \<noteq> 32 \<and> width \<noteq> 64 then None
      else
        let ua = a_in AND mask_of width
        in (case op of
              OpArith Op_neg \<Rightarrow> Some (from_bits (0 - ua) width)
            | OpArith Op_not \<Rightarrow> Some (from_bits (NOT ua) width)
            | OpArith Op_clz \<Rightarrow>
                Some (if width = 32 then of_nat (countl_zero (ucast ua :: 32 word))
                      else of_nat (countl_zero ua))
            | OpArith Op_ctz \<Rightarrow>
                Some (if width = 32 then of_nat (countr_zero (ucast ua :: 32 word))
                      else of_nat (countr_zero ua))
            | OpArith Op_popcnt \<Rightarrow> Some (of_nat (popcount ua))
            | _ \<Rightarrow> None))"

definition convert :: "Opcode \<Rightarrow> TypeKind \<Rightarrow> i64 \<Rightarrow> i64 option" where
  "convert op src a =
     (case op of
        OpConv Op_sext_i64 \<Rightarrow> (if src = I32 then Some (canonical a 32) else None)
      | OpConv Op_zext_i64 \<Rightarrow> (if src = I32 then Some (a AND 0xFFFFFFFF) else None)
      | OpConv Op_trunc_i32 \<Rightarrow> (if src = I64 \<or> src = I32 then Some (canonical a 32) else None)
      | _ \<Rightarrow> None)"


section \<open>Truncation and extension\<close>

text \<open>
  A 32-bit operand reaches the folder as the sign extension of its pattern, is masked to the
  zero extension for unsigned work, and the result is truncated and sign-extended again.
  Truncation is a homomorphism for the ring and bitwise operations.
\<close>

lemma mask_of_32: "mask_of 32 = mask 32"
  by (simp add: mask_of_def mask_eq_exp_minus_1)

lemma mask_of_64 [simp]: "mask_of 64 = - 1"
  by (simp add: mask_of_def)

lemma canonical_64 [simp]: "canonical v 64 = v"
  by (simp add: canonical_def)

lemma canonical_32: "canonical v 32 = scast (ucast v :: 32 word)"
  by (simp add: canonical_def)

lemma bit_word32_bound: "bit (x :: 32 word) n \<Longrightarrow> n < 32"
  using bit_imp_le_length [of x n] by simp

lemma bit_cases_32:
  "(\<And>n. n < 31 \<Longrightarrow> bit v n = bit w n) \<Longrightarrow> bit v 31 = bit w 31 \<Longrightarrow>
    (\<And>n. 31 < n \<Longrightarrow> bit v n = bit w n) \<Longrightarrow> v = (w :: 'a::len word)"
  by (rule bit_eqI) (metis linorder_neqE_nat)

lemma scast_and_mask32: "(scast (x :: 32 word) :: 64 word) AND mask 32 = ucast x"
  by (rule bit_cases_32) (auto simp: bit_simps dest: bit_word32_bound)

lemma ucast_and_mask32: "(ucast ((v :: 64 word) AND mask 32) :: 32 word) = ucast v"
  by (rule bit_eqI) (auto simp: bit_simps)

lemma from_bits_64 [simp]: "from_bits v 64 = v"
  by (simp add: from_bits_def)

lemma from_bits_32: "from_bits v 32 = scast (ucast v :: 32 word)"
  by (simp only: from_bits_def canonical_32 mask_of_32 ucast_and_mask32)

lemma uint_ucast_down: "uint (ucast (v :: 64 word) :: 32 word) = uint v mod 2 ^ 32"
  by (simp add: unsigned_ucast_eq take_bit_eq_mod)

lemma ucast_down_add: "(ucast ((v :: 64 word) + w) :: 32 word) = ucast v + ucast w"
  by (simp add: word_uint_eq_iff uint_ucast_down uint_word_ariths mod_mod_cancel mod_simps)

lemma ucast_down_sub: "(ucast ((v :: 64 word) - w) :: 32 word) = ucast v - ucast w"
  by (simp add: word_uint_eq_iff uint_ucast_down uint_word_ariths mod_mod_cancel mod_simps)

lemma ucast_down_mult: "(ucast ((v :: 64 word) * w) :: 32 word) = ucast v * ucast w"
  by (simp add: word_uint_eq_iff uint_ucast_down uint_word_ariths mod_mod_cancel mod_simps)

lemma ucast_down_ucast_up [simp]: "(ucast (ucast (x :: 32 word) :: 64 word) :: 32 word) = x"
  by (rule bit_eqI) (auto simp: bit_simps)

lemma ucast_down_scast_up [simp]: "(ucast (scast (x :: 32 word) :: 64 word) :: 32 word) = x"
  by (rule bit_cases_32) (auto simp: bit_simps dest: bit_word32_bound)

lemma ucast_down_bitwise:
  "(ucast ((v :: 64 word) AND w) :: 32 word) = ucast v AND ucast w"
  "(ucast ((v :: 64 word) OR w) :: 32 word) = ucast v OR ucast w"
  "(ucast ((v :: 64 word) XOR w) :: 32 word) = ucast v XOR ucast w"
  by (rule bit_eqI; auto simp: bit_simps)+

lemma ucast_down_shift:
  "(ucast (push_bit n (ucast (x :: 32 word) :: 64 word)) :: 32 word) = push_bit n x"
  "(ucast (drop_bit n (ucast (x :: 32 word) :: 64 word)) :: 32 word) = drop_bit n x"
  by (rule bit_eqI; auto simp: bit_simps dest: bit_word32_bound)+

lemma ucast_down_ashr:
  assumes n: "n < 32"
  shows "(ucast (signed_drop_bit n (scast (x :: 32 word) :: 64 word)) :: 32 word) =
    signed_drop_bit n x"
proof (rule bit_word_eqI)
  fix m assume m: "m < LENGTH(32)"
  show "bit (ucast (signed_drop_bit n (scast x :: 64 word)) :: 32 word) m =
      bit (signed_drop_bit n x) m"
  proof (cases "n + m < 31")
    case True
    then show ?thesis by (auto simp: bit_simps)
  next
    case False
    then have "min 31 (n + m) = 31" by simp
    moreover have "bit x (n + m) = bit x 31" if "\<not> 32 - n \<le> m"
      using False that n by (intro arg_cong [of _ _ "bit x"]) simp
    ultimately show ?thesis using n m by (auto simp: bit_simps)
  qed
qed

lemma uint_ucast_up [simp]: "uint (ucast (x :: 32 word) :: 64 word) = uint x"
proof -
  have "uint x < 2 ^ 64" using uint_range32 [of x] by simp
  then show ?thesis by (simp add: unsigned_ucast_eq take_bit_int_eq_self)
qed

lemma uint_eq_ucast_down: "uint (v :: 64 word) = uint (x :: 32 word) \<Longrightarrow> ucast v = x"
  by (metis uint_ucast_up ucast_down_ucast_up word_uint_eqI)

lemma ucast_down_udiv:
  "(ucast ((ucast (x :: 32 word) :: 64 word) div ucast y) :: 32 word) = x div y"
  by (rule uint_eq_ucast_down) (simp add: uint_div_distrib)

lemma ucast_down_umod:
  "(ucast ((ucast (x :: 32 word) :: 64 word) mod ucast y) :: 32 word) = x mod y"
  by (rule uint_eq_ucast_down) (simp add: uint_mod_distrib)

lemma scast_32_64_inj [simp]: "(scast (x :: 32 word) :: 64 word) = scast y \<longleftrightarrow> x = y"
  by (metis ucast_down_scast_up)

lemma ucast_32_64_inj [simp]: "(ucast (x :: 32 word) :: 64 word) = ucast y \<longleftrightarrow> x = y"
  by (metis ucast_down_ucast_up)


lemma uint_less_32_64 [simp]:
  "(ucast (x :: 32 word) :: 64 word) < ucast y \<longleftrightarrow> x < y"
  "(ucast (x :: 32 word) :: 64 word) \<le> ucast y \<longleftrightarrow> x \<le> y"
  by (simp_all add: word_less_def word_le_def)

lemma ucast_down_zero [simp]: "(ucast (x :: 32 word) :: 64 word) = 0 \<longleftrightarrow> x = 0"
  by (metis ucast_0 ucast_32_64_inj)

lemma scast_down_zero [simp]: "(scast (x :: 32 word) :: 64 word) = 0 \<longleftrightarrow> x = 0"
  by (metis scast_0 scast_32_64_inj)

section \<open>Shift amounts and signed division\<close>

lemma shift_amount_32: "unat ((ucast (y :: 32 word) :: 64 word) AND of_nat (32 - 1)) = shift_amount y"
proof -
  have "(ucast y :: 64 word) AND 31 = take_bit 5 (ucast y)"
    by (simp add: take_bit_eq_mask mask_eq_exp_minus_1)
  then have "unat ((ucast y :: 64 word) AND 31) = unat (ucast y :: 64 word) mod 32"
    by (simp add: take_bit_eq_mod unat_mod_distrib)
  moreover have "unat (ucast y :: 64 word) = unat y"
    by (simp only: unat_eq_nat_uint uint_ucast_up)
  ultimately show ?thesis by (simp add: shift_amount_def)
qed

lemma shift_amount_64: "unat ((y :: 64 word) AND of_nat (64 - 1)) = shift_amount y"
proof -
  have "y AND 63 = take_bit 6 y"
    by (simp add: take_bit_eq_mask mask_eq_exp_minus_1)
  then show ?thesis
    by (simp add: take_bit_eq_mod unat_mod_distrib shift_amount_def)
qed

lemma shift_amount_less: "shift_amount (y :: 'a::len word) < LENGTH('a)"
  by (simp add: shift_amount_def)

lemma ucast_of_int: "(ucast (word_of_int k :: 64 word) :: 32 word) = word_of_int k"
  by (simp add: word_uint_eq_iff uint_ucast_down uint_word_of_int mod_mod_cancel)

lemma c_div_scast:
  "(ucast (c_div (scast (x :: 32 word)) (scast y)) :: 32 word) = word_sdiv x y"
  by (simp add: c_div_def word_sdiv_def ucast_of_int sint_scast_32_64)

lemma c_mod_scast:
  "(ucast (c_mod (scast (x :: 32 word)) (scast y)) :: 32 word) = word_smod x y"
  by (simp add: c_mod_def word_smod_def ucast_of_int sint_scast_32_64)

lemma min_signed_32: "min_signed 32 = scast (0x80000000 :: 32 word)"
  by (simp add: min_signed_def)

lemma neg1_scast: "(- 1 :: 64 word) = scast (- 1 :: 32 word)"
  by simp

text \<open>
  At 32 bits the folder computes the sign extension of the reference result on the low 32
  bits of its operands; at 64 bits it computes the reference result itself.
\<close>

definition fold_reference :: "('a::len word \<Rightarrow> i64) \<Rightarrow> Opcode \<Rightarrow> 'a word \<Rightarrow> 'a word \<Rightarrow> i64 option"
  where "fold_reference emb op x y =
     (case op of
        OpArith f \<Rightarrow> map_option emb (word_arith f x y)
      | OpCmp c \<Rightarrow> Some (of_bool (word_cmp c x y))
      | _ \<Rightarrow> None)"

lemma binary_32_arith:
  "binary (OpArith f) 32 a b = map_option scast (word_arith f (ucast a :: 32 word) (ucast b))"
proof -
  define x y where "x = (ucast a :: 32 word)" and "y = (ucast b :: 32 word)"
  have min: "scast x = min_signed 32 \<and> (scast y :: 64 word) = - 1 \<longleftrightarrow> x = 0x80000000 \<and> y = - 1"
    by (simp only: min_signed_32 neg1_scast scast_32_64_inj)
  show ?thesis
    unfolding binary_def Let_def canonical_32 mask_of_32 x_def [symmetric] y_def [symmetric]
      scast_and_mask32 shift_amount_32 min
    using shift_amount_less [of y]
    by (cases f) (auto simp: from_bits_32 canonical_32 ucast_down_add ucast_down_sub
        ucast_down_mult ucast_down_bitwise ucast_down_shift ucast_down_ashr ucast_down_udiv
        ucast_down_umod c_div_scast c_mod_scast min_signed_32 word_sdiv_min_neg1 word_smod_neg1)
qed

lemma binary_32_cmp:
  "binary (OpCmp c) 32 a b = Some (of_bool (word_cmp c (ucast a :: 32 word) (ucast b)))"
  unfolding binary_def Let_def canonical_32 mask_of_32 scast_and_mask32
  by (cases c) (simp_all add: sint_scast_32_64)

lemma binary_64_arith: "binary (OpArith f) 64 a b = word_arith f a b"
proof -
  have min: "min_signed 64 = 0x8000000000000000"
    by (simp add: min_signed_def)
  show ?thesis
    unfolding binary_def Let_def canonical_64 mask_of_64 and.right_neutral shift_amount_64 min
    by (cases f) (auto simp: c_div_def [folded word_sdiv_def] c_mod_def [folded word_smod_def]
        word_sdiv_min_neg1 word_smod_neg1)
qed

lemma binary_64_cmp: "binary (OpCmp c) 64 a b = Some (of_bool (word_cmp c a b))"
  unfolding binary_def Let_def by (cases c) simp_all

lemma binary_other:
  "(case op of OpArith _ \<Rightarrow> False | OpCmp _ \<Rightarrow> False | _ \<Rightarrow> True) \<Longrightarrow> binary op w a b = None"
  by (cases op) (simp_all add: binary_def)

lemma binary_32: "binary op 32 a b = fold_reference scast op (ucast a :: 32 word) (ucast b)"
  by (cases op) (simp_all add: fold_reference_def binary_32_arith binary_32_cmp binary_other)

lemma binary_64: "binary op 64 a b = fold_reference id op a b"
  by (cases op) (simp_all add: fold_reference_def binary_64_arith binary_64_cmp binary_other
      option.map_id)

section \<open>Unary operations and conversions\<close>

lemma popcount_ucast_up: "popcount (ucast (x :: 32 word) :: 64 word) = popcount x"
proof -
  have "filter (bit (ucast x :: 64 word)) [0..<64] = filter (bit x) ([0..<32] @ [32..<64])"
    by (rule filter_cong) (auto simp: bit_simps upt_add_eq_append [of 0 32 32, simplified, symmetric]
        dest: bit_word32_bound)
  also have "\<dots> = filter (bit x) [0..<32]"
    by (auto simp: filter_empty_conv dest: bit_word32_bound)
  finally show ?thesis by (simp add: popcount_def)
qed

lemma ucast_down_and_mask: "(a :: 64 word) AND mask 32 = ucast (ucast a :: 32 word)"
  by (rule bit_word_eqI) (auto simp: bit_simps)


text \<open>
  The unary counterpart of \<^const>\<open>fold_reference\<close>.  Counts are small, so their sign extension
  from 32 bits is the count itself.
\<close>

lemma count_bounds:
  "countl_zero (x :: 'a::len word) \<le> LENGTH('a)" "countr_zero x \<le> LENGTH('a)"
  "popcount x \<le> LENGTH('a)"
proof -
  have "length (takeWhile Not (rev (map (bit x) [0..<LENGTH('a)]))) \<le> LENGTH('a)"
    by (rule order_trans [OF length_takeWhile_le]) simp
  then show "countl_zero x \<le> LENGTH('a)" by (simp add: countl_zero_def)
  have "length (takeWhile Not (map (bit x) [0..<LENGTH('a)])) \<le> LENGTH('a)"
    by (rule order_trans [OF length_takeWhile_le]) simp
  then show "countr_zero x \<le> LENGTH('a)" by (simp add: countr_zero_def)
  show "popcount x \<le> LENGTH('a)"
    using length_filter_le [of "bit x" "[0..<LENGTH('a)]"] by (simp add: popcount_def)
qed

lemma scast_of_small_nat:
  assumes "n \<le> 32" shows "(scast (of_nat n :: 32 word) :: 64 word) = of_nat n"
proof -
  have "sint (of_nat n :: 32 word) = int n"
    using assms sint_of_int32 [of "int n"] by simp
  then show ?thesis by (simp add: scast_eq del: word_of_int_sint)
qed

lemma unary_32: "unary (OpArith f) 32 a = map_option scast (word_unary f (ucast a :: 32 word))"
proof -
  define x where "x = (ucast a :: 32 word)"
  note small = scast_of_small_nat [OF count_bounds(1) [of x, simplified]]
    scast_of_small_nat [OF count_bounds(2) [of x, simplified]]
    scast_of_small_nat [OF count_bounds(3) [of x, simplified]]
  have neg: "(ucast (- (ucast x :: 64 word)) :: 32 word) = - x"
    using ucast_down_sub [of 0 "ucast x"] by simp
  have not: "(ucast (NOT (ucast x :: 64 word)) :: 32 word) = NOT x"
    by (rule bit_word_eqI) (auto simp: bit_simps)
  show ?thesis
    unfolding unary_def Let_def mask_of_32 ucast_down_and_mask x_def [symmetric]
    by (cases f) (simp_all add: from_bits_32 neg not small popcount_ucast_up)
qed

lemma unary_64: "unary (OpArith f) 64 a = word_unary f a"
  unfolding unary_def Let_def by (cases f) simp_all

section \<open>Properties\<close>

lemma division_fold_None:
  assumes f: "f \<in> {Op_sdiv, Op_smod, Op_udiv, Op_umod}" and w: "w \<in> {32, 64}"
  shows "binary (OpArith f) w a b = None \<longleftrightarrow> division_may_trap (OpArith f) w b"
  using f w
  by (auto simp: binary_32_arith binary_64_arith division_may_trap_def canonical_32 split: if_splits)

text \<open>
  C12.  The folder computes the reference semantics: at 64 bits the reference result of the
  operands, at 32 bits the sign extension of the reference result of their low 32 bits, and
  nothing for an opcode that is neither integer arithmetic nor a comparison.  A shift by the width
  or more is folded too, with its amount modulo the width; \<open>docs/semantics.md\<close> (2.1) says that
  out-of-range shifts are never folded.
\<close>

theorem fold_computes_reference:
  "binary op 64 a b = fold_reference id op a b \<and>
   binary op 32 a b = fold_reference scast op (ucast a :: 32 word) (ucast b) \<and>
   unary (OpArith f) 64 a = word_unary f a \<and>
   unary (OpArith f) 32 a = map_option scast (word_unary f (ucast a :: 32 word))"
  by (simp add: binary_32 binary_64 unary_32 unary_64)

text \<open>
  A division or remainder is left unfolded exactly when \<open>division_may_trap\<close> says the
  divisor may trap, so the passes that consult it and the folder agree on which divisions
  must stay in the program.
\<close>

theorem division_folds_unless_trap:
  assumes "f \<in> {Op_sdiv, Op_smod, Op_udiv, Op_umod}" and "w \<in> {32, 64}"
  shows "binary (OpArith f) w a b = None \<longleftrightarrow> division_may_trap (OpArith f) w b"
  by (rule division_fold_None [OF assms])

theorem division_folds_unless_trap_witness:
  "Op_udiv \<in> {Op_sdiv, Op_smod, Op_udiv, Op_umod} \<and> (32 :: nat) \<in> {32, 64} \<and>
   binary (OpArith Op_udiv) 32 7 0x100000000 = None"
proof -
  have "division_may_trap (OpArith Op_udiv) 32 0x100000000" by code_simp
  then show ?thesis using division_folds_unless_trap [of Op_udiv 32 7 "0x100000000"] by simp
qed

end
