(* ===== verification/Interp_Ops.thy ===== *)
theory Interp_Ops
  imports Runtime_Value Int_Fold
begin

text \<open>
  The interpreter's dispatch of the integer operations on scalar values
  (\<open>src/interpreter/interpreter.cpp\<close>) and its agreement with the reference semantics and with
  the constant folder: folding an instruction gives the bits the interpreter would compute.
\<close>

section \<open>Dispatch\<close>

definition interp_arith :: "fpu \<Rightarrow> ArithOp \<Rightarrow> RuntimeValue \<Rightarrow> RuntimeValue \<Rightarrow> interp_result option" where
  "interp_arith fp f lhs rhs =
     (case f of
        Op_add \<Rightarrow> Some (val_add fp lhs rhs)
      | Op_sub \<Rightarrow> Some (val_sub fp lhs rhs)
      | Op_mul \<Rightarrow> Some (val_mul fp lhs rhs)
      | Op_sdiv \<Rightarrow> Some (val_sdiv fp lhs rhs)
      | Op_udiv \<Rightarrow> Some (val_udiv lhs rhs)
      | Op_smod \<Rightarrow> Some (val_smod fp lhs rhs)
      | Op_umod \<Rightarrow> Some (val_umod lhs rhs)
      | Op_and \<Rightarrow> Some (Inr (val_and lhs rhs))
      | Op_or \<Rightarrow> Some (Inr (val_or lhs rhs))
      | Op_xor \<Rightarrow> Some (Inr (val_xor lhs rhs))
      | Op_shl \<Rightarrow> Some (Inr (val_shl lhs rhs))
      | Op_lshr \<Rightarrow> Some (Inr (val_lshr lhs rhs))
      | Op_ashr \<Rightarrow> Some (Inr (val_ashr lhs rhs))
      | _ \<Rightarrow> None)"

definition interp_unary :: "fpu \<Rightarrow> ArithOp \<Rightarrow> RuntimeValue \<Rightarrow> RuntimeValue option" where
  "interp_unary fp f v =
     (case f of
        Op_neg \<Rightarrow> Some (val_neg fp v)
      | Op_not \<Rightarrow> Some (val_not v)
      | Op_clz \<Rightarrow> Some (val_clz v)
      | Op_ctz \<Rightarrow> Some (val_ctz v)
      | Op_popcnt \<Rightarrow> Some (val_popcnt v)
      | _ \<Rightarrow> None)"

definition interp_cmp :: "fpu \<Rightarrow> CmpOp \<Rightarrow> RuntimeValue \<Rightarrow> RuntimeValue \<Rightarrow> RuntimeValue" where
  "interp_cmp fp c lhs rhs =
     (case c of
        Op_eq \<Rightarrow> val_eq fp lhs rhs
      | Op_ne \<Rightarrow> val_ne fp lhs rhs
      | Op_slt \<Rightarrow> val_slt fp lhs rhs
      | Op_ult \<Rightarrow> val_ult lhs rhs
      | Op_sle \<Rightarrow> val_sle fp lhs rhs
      | Op_ule \<Rightarrow> val_ule lhs rhs
      | Op_sgt \<Rightarrow> val_sgt fp lhs rhs
      | Op_ugt \<Rightarrow> val_ugt lhs rhs
      | Op_sge \<Rightarrow> val_sge fp lhs rhs
      | Op_uge \<Rightarrow> val_uge lhs rhs)"

definition interp_ovf :: "(int \<Rightarrow> int \<Rightarrow> bool) \<Rightarrow> OvfOp \<Rightarrow> RuntimeValue \<Rightarrow> RuntimeValue \<Rightarrow> RuntimeValue" where
  "interp_ovf mul_ovf v lhs rhs =
     (case v of
        Op_sadd_overflow \<Rightarrow> val_sadd_overflow lhs rhs
      | Op_ssub_overflow \<Rightarrow> val_ssub_overflow lhs rhs
      | Op_smul_overflow \<Rightarrow> val_smul_overflow mul_ovf lhs rhs
      | Op_uadd_overflow \<Rightarrow> val_uadd_overflow lhs rhs
      | Op_usub_overflow \<Rightarrow> val_usub_overflow lhs rhs
      | Op_umul_overflow \<Rightarrow> val_umul_overflow lhs rhs)"

section \<open>Reading operands back\<close>

lemma value_simps [simp]:
  "kind (from_u32 x) = RI32" "kind (from_i32 x) = RI32"
  "kind (from_u64 y) = RI64" "kind (from_i64 y) = RI64"
  "raw_bits (from_u64 y) = y" "raw_bits (from_i64 y) = y"
  "as_u64 (from_u64 y) = y" "as_u64 (from_i64 y) = y"
  "as_i64 (from_u64 y) = y" "as_i64 (from_i64 y) = y"
  "widen (from_u64 y) = y" "widen (from_i64 y) = y"
  by (simp_all add: from_u32_def from_i32_def from_u64_def from_i64_def as_u64_def as_i64_def
      widen_def)

lemma from_i32_eq [simp]: "from_i32 = from_u32"
  by (simp add: fun_eq_iff from_i32_def from_u32_def)

lemma from_i64_eq [simp]: "from_i64 = from_u64"
  by (simp add: fun_eq_iff from_i64_def from_u64_def)

lemma ucast_and_ffffffff: "(ucast (x :: 32 word) :: 64 word) AND 0xFFFFFFFF = ucast x"
proof -
  have "(ucast x :: 64 word) AND mask 32 = ucast x"
    by (rule bit_word_eqI) (auto simp: bit_simps dest: bit_word32_bound)
  then show ?thesis by (simp add: mask_eq_exp_minus_1)
qed

lemma as_32_simps [simp]:
  "as_u32 (from_u32 x) = x" "as_i32 (from_u32 x) = x"
  "raw_bits (from_u32 x) = ucast x"
  by (simp_all add: as_u32_def as_i32_def from_u32_def ucast_and_ffffffff)

section \<open>Agreement with the reference semantics\<close>

lemma shift_mask_32: "unat ((y :: 32 word) AND 31) = shift_amount y"
proof -
  have "y AND 31 = take_bit 5 y"
    by (simp add: take_bit_eq_mask mask_eq_exp_minus_1)
  then show ?thesis
    by (simp add: take_bit_eq_mod unat_mod_distrib shift_amount_def)
qed

lemma shift_mask_64: "unat ((y :: 64 word) AND 63) = shift_amount y"
  using shift_amount_64 [of y] by simp

lemma sdiv_min_32:
  "sint (a :: 32 word) = INT32_MIN \<Longrightarrow> word_sdiv a (- 1) = word_of_int INT32_MIN"
  by (simp add: word_sdiv_def signed_divide_int_def)

lemma sdiv_min_64:
  "sint (a :: 64 word) = INT64_MIN \<Longrightarrow> word_sdiv a (- 1) = word_of_int INT64_MIN"
  by (simp add: word_sdiv_def signed_divide_int_def)

lemmas interp_arith_defs =
  interp_arith_def val_add_def val_sub_def val_mul_def val_sdiv_def
  val_udiv_def val_smod_def val_umod_def val_and_def val_or_def val_xor_def val_shl_def
  val_lshr_def val_ashr_def
  word_sdiv_def [symmetric] word_smod_def [symmetric]

lemma interp_arith_32_Some:
  "word_arith f x y = Some r \<Longrightarrow>
    interp_arith fp f (from_u32 x) (from_u32 y) = Some (Inr (from_u32 r))"
  by (cases f) (auto simp: interp_arith_defs shift_mask_32 sdiv_min_32 word_smod_neg1
      split: if_splits)

lemma interp_arith_32_None:
  "word_arith f x y = None \<Longrightarrow>
    (if f \<in> {Op_sdiv, Op_udiv, Op_smod, Op_umod}
     then \<exists>msg. interp_arith fp f (from_u32 x) (from_u32 y) = Some (Inl (RuntimeError msg))
     else interp_arith fp f (from_u32 x) (from_u32 y) = None)"
  by (cases f) (auto simp: interp_arith_defs split: if_splits)

text \<open>
  At 64 bits the interpreter adds, subtracts and multiplies in \<open>int64_t\<close>: it agrees with the
  reference exactly where the exact result fits, and is undefined elsewhere.
\<close>

definition exact_result :: "ArithOp \<Rightarrow> i64 \<Rightarrow> i64 \<Rightarrow> int option" where
  "exact_result f x y =
     (case f of
        Op_add \<Rightarrow> Some (sint x + sint y)
      | Op_sub \<Rightarrow> Some (sint x - sint y)
      | Op_mul \<Rightarrow> Some (sint x * sint y)
      | _ \<Rightarrow> None)"

definition overflows_int64 :: "ArithOp \<Rightarrow> i64 \<Rightarrow> i64 \<Rightarrow> bool" where
  "overflows_int64 f x y =
     (case exact_result f x y of None \<Rightarrow> False | Some k \<Rightarrow> k < INT64_MIN \<or> INT64_MAX < k)"

lemma c_int64_word: "c_int64 k = (if k < INT64_MIN \<or> INT64_MAX < k then Inl SignedOverflow
    else Inr (word_of_int k))"
  by (auto simp: c_int64_def)

lemma interp_arith_64_Some:
  "word_arith f x y = Some r \<Longrightarrow>
    interp_arith fp f (from_u64 x) (from_u64 y) =
      Some (if overflows_int64 f x y then Inl SignedOverflow else Inr (from_u64 r))"
  by (cases f) (auto simp: interp_arith_defs shift_mask_64 sdiv_min_64 word_smod_neg1
      to_i64_value_def c_int64_word overflows_int64_def exact_result_def split: if_splits)

lemma interp_cmp_32: "interp_cmp fp c (from_u32 x) (from_u32 y) = flag (word_cmp c x y)"
  by (cases c) (auto simp: interp_cmp_def val_eq_def val_ne_def val_slt_def val_sle_def val_sgt_def
      val_sge_def val_ult_def val_ule_def val_ugt_def val_uge_def)

lemma interp_cmp_64: "interp_cmp fp c (from_u64 x) (from_u64 y) = flag (word_cmp c x y)"
  by (cases c) (auto simp: interp_cmp_def val_eq_def val_ne_def val_slt_def val_sle_def val_sgt_def
      val_sge_def val_ult_def val_ule_def val_ugt_def val_uge_def)

lemma interp_unary_32:
  "interp_unary fp f (from_u32 x) = map_option from_u32 (word_unary f x)"
  by (cases f) (auto simp: interp_unary_def val_neg_def val_not_def val_clz_def val_ctz_def
      val_popcnt_def minus_eq_not_plus_1)

lemma interp_unary_64:
  "interp_unary fp f (from_u64 x) = map_option from_u64 (word_unary f x)"
  by (cases f) (auto simp: interp_unary_def val_neg_def val_not_def val_clz_def val_ctz_def
      val_popcnt_def minus_eq_not_plus_1)

section \<open>Overflow checks\<close>

lemma sint_wrap_iff:
  "sint (word_of_int k :: 'a::len word) = k \<longleftrightarrow> - (2 ^ (LENGTH('a) - 1)) \<le> k \<and> k < 2 ^ (LENGTH('a) - 1)"
  (is "?L \<longleftrightarrow> ?R")
proof
  assume ?L
  then show ?R
    using sint_greater_eq [of "word_of_int k :: 'a word"] sint_lt [of "word_of_int k :: 'a word"]
    by simp
next
  assume ?R
  then show ?L by (intro sint_of_int_in_range) simp_all
qed

lemma uint_wrap_iff: "uint (word_of_int k :: 'a::len word) = k \<longleftrightarrow> 0 \<le> k \<and> k < 2 ^ LENGTH('a)"
  (is "?L \<longleftrightarrow> ?R")
proof
  assume ?L
  then show ?R
    using uint_bounded [of "word_of_int k :: 'a word"] unsigned_greater_eq [of "word_of_int k :: 'a word"]
    by metis
next
  assume ?R
  then show ?L by (simp add: uint_word_of_int)
qed

lemma word_overflow_exact:
  fixes x y :: "'a::len word"
  shows "word_overflow Op_sadd_overflow x y \<longleftrightarrow> \<not> (- (2 ^ (LENGTH('a) - 1)) \<le> sint x + sint y \<and> sint x + sint y < 2 ^ (LENGTH('a) - 1))"
    and "word_overflow Op_ssub_overflow x y \<longleftrightarrow> \<not> (- (2 ^ (LENGTH('a) - 1)) \<le> sint x - sint y \<and> sint x - sint y < 2 ^ (LENGTH('a) - 1))"
    and "word_overflow Op_smul_overflow x y \<longleftrightarrow> \<not> (- (2 ^ (LENGTH('a) - 1)) \<le> sint x * sint y \<and> sint x * sint y < 2 ^ (LENGTH('a) - 1))"
    and "word_overflow Op_uadd_overflow x y \<longleftrightarrow> \<not> uint x + uint y < 2 ^ LENGTH('a)"
    and "word_overflow Op_usub_overflow x y \<longleftrightarrow> uint x < uint y"
    and "word_overflow Op_umul_overflow x y \<longleftrightarrow> \<not> uint x * uint y < 2 ^ LENGTH('a)"
proof -
  have s: "x + y = word_of_int (sint x + sint y)" "x - y = word_of_int (sint x - sint y)"
    "x * y = word_of_int (sint x * sint y)" by simp_all
  have u: "x + y = word_of_int (uint x + uint y)" "x - y = word_of_int (uint x - uint y)"
    "x * y = word_of_int (uint x * uint y)" by simp_all
  have lt: "uint x - uint y < 2 ^ LENGTH('a)"
  proof -
    have "0 \<le> uint y" by simp
    then show ?thesis using uint_bounded [of x] by linarith
  qed
  show "word_overflow Op_sadd_overflow x y \<longleftrightarrow> \<not> (- (2 ^ (LENGTH('a) - 1)) \<le> sint x + sint y \<and> sint x + sint y < 2 ^ (LENGTH('a) - 1))"
    by (simp only: word_overflow.simps s(1) sint_wrap_iff)
  show "word_overflow Op_ssub_overflow x y \<longleftrightarrow> \<not> (- (2 ^ (LENGTH('a) - 1)) \<le> sint x - sint y \<and> sint x - sint y < 2 ^ (LENGTH('a) - 1))"
    by (simp only: word_overflow.simps s(2) sint_wrap_iff)
  show "word_overflow Op_smul_overflow x y \<longleftrightarrow> \<not> (- (2 ^ (LENGTH('a) - 1)) \<le> sint x * sint y \<and> sint x * sint y < 2 ^ (LENGTH('a) - 1))"
    by (simp only: word_overflow.simps s(3) sint_wrap_iff)
  show "word_overflow Op_uadd_overflow x y \<longleftrightarrow> \<not> uint x + uint y < 2 ^ LENGTH('a)"
    by (simp only: word_overflow.simps u(1) uint_wrap_iff) simp
  show "word_overflow Op_usub_overflow x y \<longleftrightarrow> uint x < uint y"
    using lt by (simp only: word_overflow.simps u(2) uint_wrap_iff) auto
  show "word_overflow Op_umul_overflow x y \<longleftrightarrow> \<not> uint x * uint y < 2 ^ LENGTH('a)"
    by (simp only: word_overflow.simps u(3) uint_wrap_iff) simp
qed


declare word_overflow.simps [simp del]

text \<open>The division-based multiplication check decides exactly whether the product fits.\<close>

lemma div_less_mult:
  assumes b: "0 < (b :: int)"
  shows "m div b < a \<longleftrightarrow> m < a * b"
proof
  assume "m div b < a"
  then have "(m div b + 1) * b \<le> a * b" using b by (intro mult_right_mono) auto
  moreover have "m < (m div b + 1) * b"
    using div_mult_mod_eq [of m b] pos_mod_bound [OF b, of m] unfolding distrib_right by linarith
  ultimately show "m < a * b" by simp
next
  assume "m < a * b"
  moreover have "(m div b) * b \<le> m"
    using div_mult_mod_eq [of m b] pos_mod_sign [OF b, of m] by linarith
  ultimately have "(m div b) * b < a * b" by simp
  then show "m div b < a" using b by simp
qed

lemma portable_mul_overflow_correct: "portable_mul_overflow a b = builtin_mul_overflow a b"
proof -
  consider "a = 0 \<or> b = 0" | "a > 0" "b > 0" | "a > 0" "b < 0" | "a < 0" "b > 0" | "a < 0" "b < 0"
    by linarith
  then show ?thesis
  proof cases
    case 2
    then have "INT64_MAX sdiv b < a \<longleftrightarrow> INT64_MAX < a * b"
      by (simp add: signed_divide_int_def div_less_mult)
    moreover have "\<not> a * b < INT64_MIN" using 2 by (simp add: not_less order_trans [OF _ mult_pos_pos [THEN less_imp_le]])
    ultimately show ?thesis using 2 by (simp add: portable_mul_overflow_def builtin_mul_overflow_def)
  next
    case 3
    then have "b < INT64_MIN sdiv a \<longleftrightarrow> 9223372036854775808 div a < - b"
      by (simp add: signed_divide_int_def) linarith
    also have "\<dots> \<longleftrightarrow> a * b < INT64_MIN"
      using 3 by (simp add: div_less_mult mult.commute) linarith
    finally have "b < INT64_MIN sdiv a \<longleftrightarrow> a * b < INT64_MIN" .
    moreover have "\<not> INT64_MAX < a * b" using 3 mult_pos_neg [of a b] by simp
    ultimately show ?thesis using 3 by (simp add: portable_mul_overflow_def builtin_mul_overflow_def)
  next
    case 4
    then have "a < INT64_MIN sdiv b \<longleftrightarrow> 9223372036854775808 div b < - a"
      by (simp add: signed_divide_int_def) linarith
    also have "\<dots> \<longleftrightarrow> a * b < INT64_MIN"
      using 4 by (simp add: div_less_mult) linarith
    finally have "a < INT64_MIN sdiv b \<longleftrightarrow> a * b < INT64_MIN" .
    moreover have "\<not> INT64_MAX < a * b" using 4 mult_neg_pos [of a b] by simp
    ultimately show ?thesis using 4 by (simp add: portable_mul_overflow_def builtin_mul_overflow_def)
  next
    case 5
    then have "a < INT64_MAX sdiv b \<longleftrightarrow> INT64_MAX div (- b) < - a"
      by (simp add: signed_divide_int_def) linarith
    also have "\<dots> \<longleftrightarrow> INT64_MAX < a * b"
      using 5 by (simp add: div_less_mult)
    finally have "a < INT64_MAX sdiv b \<longleftrightarrow> INT64_MAX < a * b" .
    moreover have "\<not> a * b < INT64_MIN" using 5 mult_neg_neg [of a b] by simp
    ultimately show ?thesis using 5 by (auto simp: portable_mul_overflow_def builtin_mul_overflow_def)
  qed (auto simp: portable_mul_overflow_def builtin_mul_overflow_def)
qed

lemma unsigned_add_check: "(x :: 'a::len word) + y < x \<longleftrightarrow> word_overflow Op_uadd_overflow x y"
proof -
  have eq: "uint (x + y) =
      (if uint x + uint y < 2 ^ LENGTH('a) then uint x + uint y else uint x + uint y - 2 ^ LENGTH('a))"
    by (rule uint_plus_if_size [unfolded word_size])
  show ?thesis
    using uint_bounded [of y] by (auto simp: word_overflow_exact word_less_def eq)
qed

lemma unsigned_sub_check: "(x :: 'a::len word) < y \<longleftrightarrow> word_overflow Op_usub_overflow x y"
  by (simp add: word_overflow_exact word_less_def)

lemma unsigned_mul_check:
  assumes a: "(x :: 'a::len word) \<noteq> 0"
  shows "(x * y) div x \<noteq> y \<longleftrightarrow> word_overflow Op_umul_overflow x y"
proof -
  have pos: "0 < uint x" using a by (metis uint_0_iff uint_ge_0 less_le)
  have "uint x * uint y < 2 ^ LENGTH('a)" if "(x * y) div x = y"
  proof -
    from that have "uint (x * y) div uint x = uint y" by (metis uint_div_distrib)
    then have "uint x * uint y \<le> uint (x * y)"
      using pos_mod_sign [OF pos, of "uint (x * y)"] mult_div_mod_eq [of "uint x" "uint (x * y)"]
      by simp
    then show ?thesis using uint_bounded [of "x * y"] by linarith
  qed
  moreover have "(x * y) div x = y" if "uint x * uint y < 2 ^ LENGTH('a)"
  proof -
    from that have "uint (x * y) = uint x * uint y" by (simp add: uint_word_ariths)
    then show ?thesis using pos by (simp add: word_uint_eq_iff uint_div_distrib)
  qed
  ultimately show ?thesis by (auto simp: word_overflow_exact)
qed

lemma umul_check_32:
  "uint ((ucast (x :: 32 word) :: u64) * ucast y) > UINT32_MAX \<longleftrightarrow> word_overflow Op_umul_overflow x y"
proof -
  have "uint x * uint y \<le> UINT32_MAX * UINT32_MAX"
    using uint_range32 [of x] uint_range32 [of y] by (intro mult_mono) simp_all
  then have "uint ((ucast x :: u64) * ucast y) = uint x * uint y"
    by (simp add: uint_word_ariths)
  then show ?thesis by (auto simp: word_overflow_exact)
qed

lemma interp_ovf_32: "interp_ovf mul_ovf v (from_u32 x) (from_u32 y) = flag (word_overflow v x y)"
  by (cases v) (auto simp: interp_ovf_def val_sadd_overflow_def val_ssub_overflow_def
      val_smul_overflow_def val_uadd_overflow_def val_usub_overflow_def val_umul_overflow_def
      unsigned_add_check unsigned_sub_check [symmetric] umul_check_32 Let_def word_overflow_exact(1,2,3)
      intro!: arg_cong [of _ _ flag])

lemma umul_check_64:
  "(x = 0 \<or> y = 0 \<longrightarrow> \<not> word_overflow Op_umul_overflow (x :: 64 word) y)"
  by (auto simp: word_overflow_exact)

lemma interp_ovf_64:
  assumes "\<And>a b. mul_ovf a b = builtin_mul_overflow a b"
  shows "interp_ovf mul_ovf v (from_u64 x) (from_u64 y) = flag (word_overflow v x y)"
proof (cases v)
  case Op_sadd_overflow
  then show ?thesis
    using sint_range64 [of x] sint_range64 [of y]
    by (auto simp: interp_ovf_def val_sadd_overflow_def Let_def word_overflow_exact
        intro!: arg_cong [of _ _ flag])
next
  case Op_ssub_overflow
  then show ?thesis
    using sint_range64 [of x] sint_range64 [of y]
    by (auto simp: interp_ovf_def val_ssub_overflow_def Let_def word_overflow_exact
        intro!: arg_cong [of _ _ flag])
next
  case Op_umul_overflow
  then show ?thesis
    using umul_check_64 [of x y] unsigned_mul_check [of x y]
    by (auto simp: interp_ovf_def val_umul_overflow_def Let_def)
qed (auto simp: assms interp_ovf_def val_smul_overflow_def builtin_mul_overflow_def
    val_uadd_overflow_def val_usub_overflow_def unsigned_add_check unsigned_sub_check [symmetric] word_overflow_exact(1,2,3)
    intro!: arg_cong [of _ _ flag])


section \<open>Properties\<close>

text \<open>
  C6.  On \<open>i32\<close> operands the interpreter computes the reference semantics of every binary
  integer operation, comparison and unary operation, and it reports an error exactly when a
  division or remainder has a zero divisor.
\<close>

theorem interp_i32_semantics:
  "interp_cmp fp c (from_i32 x) (from_i32 y) = flag (word_cmp c x y) \<and>
   interp_unary fp f (from_i32 x) = map_option from_i32 (word_unary f x) \<and>
   (case word_arith f x y of
      Some r \<Rightarrow> interp_arith fp f (from_i32 x) (from_i32 y) = Some (Inr (from_i32 r))
    | None \<Rightarrow>
        (if f \<in> {Op_sdiv, Op_udiv, Op_smod, Op_umod}
         then \<exists>msg. interp_arith fp f (from_i32 x) (from_i32 y) = Some (Inl (RuntimeError msg))
         else interp_arith fp f (from_i32 x) (from_i32 y) = None))"
proof (cases "word_arith f x y")
  case None
  then show ?thesis
    using interp_arith_32_None [OF None, of fp] by (simp add: interp_cmp_32 interp_unary_32)
next
  case (Some r)
  then show ?thesis
    by (simp add: interp_cmp_32 interp_unary_32 interp_arith_32_Some)
qed

text \<open>
  C9.  The interpreter's overflow checks report, at 32 and at 64 bits, exactly whether the
  operation overflows, with either of the two multiplication checks the build can select.
\<close>

theorem interp_overflow_checks:
  assumes "mul_ovf \<in> {builtin_mul_overflow, portable_mul_overflow}"
  shows "interp_ovf mul_ovf v (from_i32 x) (from_i32 y) = flag (word_overflow v x y) \<and>
    interp_ovf mul_ovf v (from_i64 x') (from_i64 y') = flag (word_overflow v x' y')"
  using assms interp_ovf_64 [of mul_ovf v x' y']
  by (auto simp: interp_ovf_32 portable_mul_overflow_correct)

theorem interp_overflow_checks_witness:
  "portable_mul_overflow \<in> {builtin_mul_overflow, portable_mul_overflow} \<and>
   interp_ovf portable_mul_overflow Op_smul_overflow (from_i64 4611686018427387904) (from_i64 2) = flag True"
proof -
  have m: "portable_mul_overflow \<in> {builtin_mul_overflow, portable_mul_overflow}" by simp
  have "interp_ovf portable_mul_overflow Op_smul_overflow (from_i64 4611686018427387904) (from_i64 2) =
      flag (word_overflow Op_smul_overflow (4611686018427387904 :: 64 word) 2)"
    using interp_overflow_checks [OF m, of Op_smul_overflow 0 0 4611686018427387904 2] by simp
  then show ?thesis by (simp add: word_overflow_exact)
qed

text \<open>
  C11.  The interpreter's \<open>i64\<close> addition, subtraction and multiplication are the wrapping
  operations exactly while the exact result fits \<open>int64_t\<close>; otherwise the C++ expression is
  undefined behaviour.  Every other operation agrees with the reference on all operands.
\<close>

theorem interp_i64_semantics:
  assumes "word_arith f x y = Some r"
  shows "interp_arith fp f (from_i64 x) (from_i64 y) =
    Some (if overflows_int64 f x y then Inl SignedOverflow else Inr (from_i64 r))"
  by (simp add: interp_arith_64_Some [OF assms])

theorem interp_i64_semantics_witness:
  "word_arith Op_add (0x7FFFFFFFFFFFFFFF :: 64 word) 1 = Some 0x8000000000000000 \<and>
   (\<forall>fp. interp_arith fp Op_add (from_i64 0x7FFFFFFFFFFFFFFF) (from_i64 1) = Some (Inl SignedOverflow))"
proof -
  have a: "word_arith Op_add (0x7FFFFFFFFFFFFFFF :: 64 word) 1 = Some 0x8000000000000000" by simp
  have "overflows_int64 Op_add 0x7FFFFFFFFFFFFFFF 1" by (simp add: overflows_int64_def exact_result_def)
  then show ?thesis using a interp_i64_semantics [OF a] by simp
qed

text \<open>
  C2.  The constant folder and the interpreter agree: when the folder gives a result for an
  \<open>i32\<close> operation on two constants, the interpreter computes the value with the same low 32
  bits; at \<open>i64\<close> it computes the same 64 bits unless its C++ expression overflows.
\<close>

theorem fold_agrees_with_interpreter:
  assumes "binary (OpArith f) w a b = Some r"
  shows "(w = 32 \<and> interp_arith fp f (from_i32 (ucast a)) (from_i32 (ucast b)) =
            Some (Inr (from_i32 (ucast r))) \<and> canonical r 32 = r) \<or>
         (w = 64 \<and> interp_arith fp f (from_i64 a) (from_i64 b) =
            Some (if overflows_int64 f a b then Inl SignedOverflow else Inr (from_i64 r)))"
proof -
  consider "w = 32" | "w = 64" using assms by (auto simp: binary_def split: if_splits)
  then show ?thesis
  proof cases
    case 1
    with assms obtain q where q: "word_arith f (ucast a :: 32 word) (ucast b) = Some q"
      and r: "r = scast q"
      by (auto simp: binary_32_arith)
    with 1 show ?thesis by (simp add: interp_arith_32_Some canonical_32)
  next
    case 2
    with assms have "word_arith f a b = Some r" by (simp add: binary_64_arith)
    with 2 show ?thesis by (simp add: interp_arith_64_Some)
  qed
qed

theorem fold_agrees_with_interpreter_witness:
  "binary (OpArith Op_sdiv) 32 0xFFFFFFFF80000000 (- 1) = Some 0xFFFFFFFF80000000 \<and>
   (\<forall>fp. interp_arith fp Op_sdiv (from_i32 (ucast (0xFFFFFFFF80000000 :: 64 word)))
      (from_i32 (ucast (- 1 :: 64 word))) = Some (Inr (from_i32 (ucast (0xFFFFFFFF80000000 :: 64 word)))))"
proof -
  have f: "binary (OpArith Op_sdiv) 32 0xFFFFFFFF80000000 (- 1) = Some 0xFFFFFFFF80000000"
    by code_simp
  then show ?thesis using fold_agrees_with_interpreter [OF f] by simp
qed

text \<open>
  C35.  The folder's integer conversions are the interpreter's, on any 64-bit operand, in canonical
  form or not: the folded sign and zero extension of an \<open>i32\<close> are the interpreter's on the operand's
  low 32 bits, a folded truncation is the interpreter's in the folder's canonical form, sign-extended
  to 64 bits, and no other conversion is folded.
\<close>

theorem fold_conversions_agree:
  fixes x :: i64
  shows "map_option from_i64 (convert (OpConv Op_sext_i64) I32 x) = Some (val_sext_i64 (from_i32 (ucast x))) \<and>
   map_option from_i64 (convert (OpConv Op_zext_i64) I32 x) = Some (val_zext_i64 (from_i32 (ucast x))) \<and>
   convert (OpConv Op_trunc_i32) I64 x = Some (scast (as_i32 (val_trunc_i32 (from_i64 x)))) \<and>
   convert (OpConv Op_trunc_i32) I32 x = Some (scast (as_i32 (val_trunc_i32 (from_i32 (ucast x))))) \<and>
   (convert (OpConv f) t x \<noteq> None) =
     ((f, t) \<in> {(Op_sext_i64, I32), (Op_zext_i64, I32), (Op_trunc_i32, I64), (Op_trunc_i32, I32)})"
proof -
  have z: "x AND 0xFFFFFFFF = ucast (ucast x :: i32)"
    using ucast_down_and_mask [of x] by (simp add: mask_eq_exp_minus_1)
  have low: "ucast (as_i64 (from_i32 y)) = y" for y by (simp add: as_i64_def)
  have "(convert (OpConv f) t x \<noteq> None) =
     ((f, t) \<in> {(Op_sext_i64, I32), (Op_zext_i64, I32), (Op_trunc_i32, I64), (Op_trunc_i32, I32)})"
    by (cases f) (simp_all add: convert_def)
  then show ?thesis
    by (simp add: convert_def val_sext_i64_def val_zext_i64_def val_trunc_i32_def canonical_32 z low [simplified])
qed

end
