(* ===== verification/Narrow_Int.thy ===== *)
theory Narrow_Int
  imports Interp_Ops
begin

text \<open>
  The interpreters' \<open>i8\<close> and \<open>i16\<close> integer operations
  (\<open>include/brass/interpreter/narrow_int.hpp\<close>, \<open>src/interpreter/narrow_int.cpp\<close>).  A narrow value
  is held zero-extended in an \<open>i32\<close> value and only its low bits are read.  \<open>eval_narrow_int\<close>
  returns \<open>None\<close> where the C++ function returns \<open>false\<close>.
\<close>

definition narrow_int_bits :: "TypeKind \<Rightarrow> nat" where
  "narrow_int_bits t = (if t = I8 then 8 else if t = I16 then 16 else 0)"

definition narrow_zext :: "u64 \<Rightarrow> nat \<Rightarrow> u32" where
  "narrow_zext v bits = ucast (v AND (push_bit bits 1 - 1))"

definition narrow_sext :: "u64 \<Rightarrow> nat \<Rightarrow> i32" where
  "narrow_sext v bits =
     (let z = narrow_zext v bits;
          sign = push_bit (bits - 1) 1
      in (z XOR sign) - sign)"

text \<open>The counting loops of the \<open>clz\<close>, \<open>ctz\<close> and \<open>popcnt\<close> cases.\<close>

fun clz_loop :: "u32 \<Rightarrow> nat \<Rightarrow> nat" where
  "clz_loop a 0 = 0"
| "clz_loop a (Suc i) = (if drop_bit i a AND 1 = 0 then Suc (clz_loop a i) else 0)"

function ctz_loop :: "u32 \<Rightarrow> nat \<Rightarrow> nat \<Rightarrow> nat" where
  "ctz_loop a bits n =
     (if n < bits \<and> drop_bit n a AND 1 = 0 then ctz_loop a bits (Suc n) else n)"
  by pat_completeness auto
termination by (relation "measure (\<lambda>(a, bits, n). bits - n)") auto

lemma and_minus_one_less:
  assumes "(x :: 'a::len word) \<noteq> 0" shows "unat (x AND (x - 1)) < unat x"
proof -
  have "uint (x AND (x - 1)) \<le> uint (x - 1)"
    by (simp add: uint_and AND_upper2 uint_ge_0)
  then have "unat (x AND (x - 1)) \<le> unat (x - 1)"
    by (simp only: unat_eq_nat_uint nat_mono)
  also have "\<dots> < unat x" using assms by (simp add: unat_minus_one unat_gt_0)
  finally show ?thesis .
qed

function popcnt_loop :: "u32 \<Rightarrow> nat" where
  "popcnt_loop x = (if x = 0 then 0 else Suc (popcnt_loop (x AND (x - 1))))"
  by pat_completeness auto
termination by (relation "measure unat") (simp_all add: and_minus_one_less)

definition narrow_value :: "nat \<Rightarrow> u64 \<Rightarrow> interp_result option" where
  "narrow_value bits r = Some (Inr (from_i32 (narrow_zext r bits)))"

definition narrow_flag :: "bool \<Rightarrow> interp_result option" where
  "narrow_flag f = Some (Inr (from_i32 (if f then 1 else 0)))"

definition narrow_div_error :: "nat \<Rightarrow> string \<Rightarrow> interp_result option" where
  "narrow_div_error bits what =
     Some (Inl (RuntimeError (''Interpreter error: Division by zero (i'' @
       (if bits = 8 then ''8'' else ''16'') @ '' '' @ what @ '')'')))"

definition narrow_arith :: "ArithOp \<Rightarrow> nat \<Rightarrow> u32 \<Rightarrow> u32 \<Rightarrow> i32 \<Rightarrow> i32 \<Rightarrow> interp_result option" where
  "narrow_arith f bits a b sa sb =
     (let amt = unat (b AND 31)
      in case f of
           Op_add \<Rightarrow> narrow_value bits (ucast a + ucast b)
         | Op_sub \<Rightarrow> narrow_value bits (ucast a - ucast b)
         | Op_mul \<Rightarrow> narrow_value bits (ucast a * ucast b)
         | Op_neg \<Rightarrow> narrow_value bits (0 - ucast a)
         | Op_and \<Rightarrow> narrow_value bits (ucast (a AND b))
         | Op_or \<Rightarrow> narrow_value bits (ucast (a OR b))
         | Op_xor \<Rightarrow> narrow_value bits (ucast (a XOR b))
         | Op_not \<Rightarrow> narrow_value bits (NOT (ucast a))
         | Op_shl \<Rightarrow> narrow_value bits (push_bit amt (ucast a))
         | Op_lshr \<Rightarrow> narrow_value bits (ucast (drop_bit amt a))
         | Op_ashr \<Rightarrow> narrow_value bits (scast (signed_drop_bit amt sa))
         | Op_sdiv \<Rightarrow> (if b = 0 then narrow_div_error bits ''sdiv''
                      else narrow_value bits (word_of_int (sint sa sdiv sint sb)))
         | Op_smod \<Rightarrow> (if b = 0 then narrow_div_error bits ''smod''
                      else narrow_value bits (word_of_int (sint sa smod sint sb)))
         | Op_udiv \<Rightarrow> (if b = 0 then narrow_div_error bits ''udiv''
                      else narrow_value bits (ucast (a div b)))
         | Op_umod \<Rightarrow> (if b = 0 then narrow_div_error bits ''umod''
                      else narrow_value bits (ucast (a mod b)))
         | Op_clz \<Rightarrow> narrow_value bits (of_nat (clz_loop a bits))
         | Op_ctz \<Rightarrow> narrow_value bits (of_nat (ctz_loop a bits 0))
         | Op_popcnt \<Rightarrow> narrow_value bits (of_nat (popcnt_loop a))
         | _ \<Rightarrow> None)"

definition narrow_cmp :: "CmpOp \<Rightarrow> u32 \<Rightarrow> u32 \<Rightarrow> i32 \<Rightarrow> i32 \<Rightarrow> interp_result option" where
  "narrow_cmp c a b sa sb =
     (case c of
        Op_eq \<Rightarrow> narrow_flag (a = b)
      | Op_ne \<Rightarrow> narrow_flag (a \<noteq> b)
      | Op_slt \<Rightarrow> narrow_flag (sint sa < sint sb)
      | Op_sle \<Rightarrow> narrow_flag (sint sa \<le> sint sb)
      | Op_sgt \<Rightarrow> narrow_flag (sint sa > sint sb)
      | Op_sge \<Rightarrow> narrow_flag (sint sa \<ge> sint sb)
      | Op_ult \<Rightarrow> narrow_flag (a < b)
      | Op_ule \<Rightarrow> narrow_flag (a \<le> b)
      | Op_ugt \<Rightarrow> narrow_flag (a > b)
      | Op_uge \<Rightarrow> narrow_flag (a \<ge> b))"

definition narrow_ovf :: "OvfOp \<Rightarrow> nat \<Rightarrow> u32 \<Rightarrow> u32 \<Rightarrow> i32 \<Rightarrow> i32 \<Rightarrow> interp_result option" where
  "narrow_ovf v bits a b sa sb =
     (let smin = - (2 ^ (bits - 1)) :: int;
          smax = 2 ^ (bits - 1) - 1;
          umax = 2 ^ bits - 1;
          out = (\<lambda>r. r < smin \<or> r > smax)
      in case v of
           Op_sadd_overflow \<Rightarrow> narrow_flag (out (sint sa + sint sb))
         | Op_ssub_overflow \<Rightarrow> narrow_flag (out (sint sa - sint sb))
         | Op_smul_overflow \<Rightarrow> narrow_flag (out (sint sa * sint sb))
         | Op_uadd_overflow \<Rightarrow> narrow_flag (uint a + uint b > umax)
         | Op_usub_overflow \<Rightarrow> narrow_flag (a < b)
         | Op_umul_overflow \<Rightarrow> narrow_flag (uint a * uint b > umax))"

definition eval_narrow_int :: "Opcode \<Rightarrow> nat \<Rightarrow> RuntimeValue list \<Rightarrow> interp_result option" where
  "eval_narrow_int op bits operands =
     (if bits \<noteq> 8 \<and> bits \<noteq> 16 then None
      else
        let raw_a = (if length operands > 0 then raw_bits (operands ! 0) else 0);
            raw_b = (if length operands > 1 then raw_bits (operands ! 1) else 0);
            a = narrow_zext raw_a bits;
            b = narrow_zext raw_b bits;
            sa = narrow_sext raw_a bits;
            sb = narrow_sext raw_b bits
        in case op of
             OpArith f \<Rightarrow> narrow_arith f bits a b sa sb
           | OpCmp c \<Rightarrow> narrow_cmp c a b sa sb
           | OpOvf v \<Rightarrow> narrow_ovf v bits a b sa sb
           | _ \<Rightarrow> None)"

section \<open>Widening and narrowing\<close>

text \<open>
  For a width \<open>n \<le> 32\<close> the low \<open>n\<close> bits of the raw operand are an \<open>n\<close>-bit word \<open>x\<close>; the
  evaluator works on \<open>ucast x\<close> and \<open>scast x\<close>, and narrowing the 64-bit result is a homomorphism.
\<close>

lemma narrow_mask: "(push_bit n 1 - 1 :: 64 word) = mask n"
  by (simp add: mask_eq_exp_minus_1 push_bit_eq_mult)

lemma narrow_zext_eq:
  assumes "LENGTH('a) \<le> 32"
  shows "narrow_zext v LENGTH('a) = ucast (ucast v :: 'a::len word)"
  unfolding narrow_zext_def narrow_mask
  using assms by (intro bit_word_eqI) (auto simp: bit_simps)

lemma xor_sub_sign:
  fixes z :: "'b::len word"
  assumes m: "m < LENGTH('b)"
  shows "(z XOR push_bit m 1) - push_bit m 1 = (if bit z m then z - push_bit (Suc m) 1 else z)"
proof (cases "bit z m")
  case True
  have "(z XOR push_bit m 1) + push_bit m 1 = (z XOR push_bit m 1) OR push_bit m 1"
    using True m by (intro disjunctive_add) (auto simp: bit_simps)
  also have "\<dots> = z" using True by (intro bit_eqI) (auto simp: bit_simps)
  finally have "z XOR push_bit m 1 = z - push_bit m 1" by (simp add: eq_diff_eq)
  moreover have "push_bit (Suc m) 1 = push_bit m 1 + push_bit m (1 :: 'b word)"
    by (simp add: push_bit_eq_mult)
  ultimately show ?thesis using True by (simp add: algebra_simps)
next
  case False
  have "z + push_bit m 1 = z OR push_bit m 1"
    using False m by (intro disjunctive_add) (auto simp: bit_simps)
  also have "\<dots> = z XOR push_bit m 1" using False by (intro bit_eqI) (auto simp: bit_simps)
  finally have "z XOR push_bit m 1 = z + push_bit m 1" by (rule sym)
  then show ?thesis using False by simp
qed

lemma narrow_sext_eq:
  assumes n: "LENGTH('a) \<le> 32"
  shows "narrow_sext v LENGTH('a) = scast (ucast v :: 'a::len word)"
proof -
  define x where "x = (ucast v :: 'a word)"
  let ?n = "LENGTH('a)"
  have bit: "bit (ucast x :: 32 word) (?n - 1) = bit x (?n - 1)"
    using n by (simp add: bit_ucast_iff)
  have "narrow_sext v ?n = (if bit x (?n - 1) then ucast x - push_bit ?n 1 else ucast x)"
    using n unfolding narrow_sext_def Let_def narrow_zext_eq [OF n] x_def [symmetric]
    by (subst xor_sub_sign) (simp_all only: bit, simp_all)
  also have "\<dots> = word_of_int (sint x)"
    unfolding sint_as_uint ucast_eq by (simp add: wi_hom_syms(2) push_bit_eq_mult)
  finally show ?thesis by (simp only: scast_eq x_def)
qed

lemma sint_scast_up:
  assumes "LENGTH('a) \<le> LENGTH('b)"
  shows "sint (scast (x :: 'a::len word) :: 'b::len word) = sint x"
proof -
  have "(2 :: int) ^ (LENGTH('a) - 1) \<le> 2 ^ (LENGTH('b) - 1)"
    using assms by (intro power_increasing) simp_all
  then show ?thesis
    unfolding scast_eq using sint_greater_eq [of x, folded One_nat_def] sint_lt [of x]
    by (intro sint_of_int_in_range) linarith+
qed

lemma uint_ucast_wide: "LENGTH('a) \<le> LENGTH('b) \<Longrightarrow> uint (ucast (x :: 'a::len word) :: 'b::len word) = uint x"
  by (metis uint_up_ucast is_up)

lemma ucast_wide: "LENGTH('a) \<le> 32 \<Longrightarrow>
    (ucast (ucast (x :: 'a::len word) :: 32 word) :: 64 word) = ucast x"
  by (intro bit_word_eqI) (auto simp: bit_simps dest: bit_imp_le_length)

lemma ucast_narrow_of_int:
  assumes "LENGTH('a) \<le> LENGTH('b)"
  shows "(ucast (word_of_int k :: 'b::len word) :: 'a::len word) = word_of_int k"
  using assms by (simp add: word_uint_eq_iff unsigned_ucast_eq uint_word_of_int take_bit_eq_mod
      mod_mod_cancel le_imp_power_dvd)

text \<open>Narrowing turns each 64-bit result into the \<open>n\<close>-bit result.\<close>

lemma uint_ucast_narrow:
  "LENGTH('a) \<le> LENGTH('b) \<Longrightarrow> uint (ucast (v :: 'b::len word) :: 'a::len word) = uint v mod 2 ^ LENGTH('a)"
  by (simp add: unsigned_ucast_eq take_bit_eq_mod)

lemma narrow_ring:
  assumes n: "LENGTH('a) \<le> LENGTH(64)"
  shows "(ucast ((ucast (x :: 'a::len word) :: 64 word) + ucast y) :: 'a word) = x + y"
    "(ucast ((ucast x :: 64 word) - ucast y) :: 'a word) = x - y"
    "(ucast ((ucast x :: 64 word) * ucast y) :: 'a word) = x * y"
    "(ucast (0 - (ucast x :: 64 word)) :: 'a word) = - x"
proof -
  have d: "(2 :: int) ^ LENGTH('a) dvd 2 ^ LENGTH(64)" using n by (intro le_imp_power_dvd)
  note eqs = word_uint_eq_iff uint_ucast_narrow [OF n] uint_word_ariths uint_ucast_wide [OF n]
    mod_mod_cancel [OF d]
  show "(ucast ((ucast x :: 64 word) + ucast y) :: 'a word) = x + y" by (simp only: eqs)
  show "(ucast ((ucast x :: 64 word) - ucast y) :: 'a word) = x - y" by (simp only: eqs)
  show "(ucast ((ucast x :: 64 word) * ucast y) :: 'a word) = x * y" by (simp only: eqs)
  show "(ucast (0 - (ucast x :: 64 word)) :: 'a word) = - x" by (simp only: eqs unsigned_0 diff_0)
qed

lemma narrow_bitwise:
  assumes n: "LENGTH('a) \<le> 32"
  shows "(ucast (ucast ((ucast (x :: 'a::len word) :: 32 word) AND ucast y) :: 64 word) :: 'a word) = x AND y"
    "(ucast (ucast ((ucast x :: 32 word) OR ucast y) :: 64 word) :: 'a word) = x OR y"
    "(ucast (ucast ((ucast x :: 32 word) XOR ucast y) :: 64 word) :: 'a word) = x XOR y"
    "(ucast (NOT (ucast x :: 64 word)) :: 'a word) = NOT x"
    "(ucast (push_bit k (ucast x :: 64 word)) :: 'a word) = push_bit k x"
    "(ucast (ucast (drop_bit k (ucast x :: 32 word)) :: 64 word) :: 'a word) = drop_bit k x"
  using n by (intro bit_word_eqI; auto simp: bit_simps dest: bit_imp_le_length)+

lemma narrow_divide:
  assumes n: "LENGTH('a) \<le> 32"
  shows "(ucast (ucast ((ucast (x :: 'a::len word) :: 32 word) div ucast y) :: 64 word) :: 'a word) = x div y"
    "(ucast (ucast ((ucast x :: 32 word) mod ucast y) :: 64 word) :: 'a word) = x mod y"
proof -
  have u: "uint (ucast z :: 32 word) = uint z" for z :: "'a word"
    using n by (simp add: uint_ucast_wide)
  have w: "ucast (ucast (v :: 32 word) :: 64 word) = (word_of_int (uint v) :: 'a word)" for v
  proof -
    have "LENGTH('a) \<le> LENGTH(64)" using n by simp
    moreover have "uint (ucast v :: 64 word) = uint v" by (simp add: uint_ucast_wide)
    ultimately show ?thesis
      by (simp only: word_uint_eq_iff uint_ucast_narrow uint_word_of_int)
  qed
  show "(ucast (ucast ((ucast x :: 32 word) div ucast y) :: 64 word) :: 'a word) = x div y"
    unfolding w uint_div_distrib u by (rule word_div_def [symmetric])
  show "(ucast (ucast ((ucast x :: 32 word) mod ucast y) :: 64 word) :: 'a word) = x mod y"
    unfolding w uint_mod_distrib u by (rule word_mod_def [symmetric])
qed

lemma narrow_signed:
  assumes n: "LENGTH('a) \<le> 32"
  shows "(ucast (word_of_int (sint (scast (x :: 'a::len word) :: 32 word) sdiv sint (scast y :: 32 word)) :: 64 word) :: 'a word) = word_sdiv x y"
    "(ucast (word_of_int (sint (scast x :: 32 word) smod sint (scast y :: 32 word)) :: 64 word) :: 'a word) = word_smod x y"
    "(ucast (scast (signed_drop_bit k (scast x :: 32 word)) :: 64 word) :: 'a word) = signed_drop_bit k x"
proof -
  have s: "sint (scast z :: 32 word) = sint z" for z :: "'a word"
    using n by (intro sint_scast_up) simp
  show "(ucast (word_of_int (sint (scast x :: 32 word) sdiv sint (scast y :: 32 word)) :: 64 word) :: 'a word) = word_sdiv x y"
    using n by (simp add: s word_sdiv_def ucast_narrow_of_int)
  show "(ucast (word_of_int (sint (scast x :: 32 word) smod sint (scast y :: 32 word)) :: 64 word) :: 'a word) = word_smod x y"
    using n by (simp add: s word_smod_def ucast_narrow_of_int)
  have "scast (signed_drop_bit k (scast x :: 32 word)) = (word_of_int (drop_bit k (sint x)) :: 64 word)"
    by (subst scast_eq) (simp only: sint_signed_drop_bit_eq s)
  then show "(ucast (scast (signed_drop_bit k (scast x :: 32 word)) :: 64 word) :: 'a word) = signed_drop_bit k x"
    using n ucast_narrow_of_int [where 'a = 'a and 'b = 64, of "drop_bit k (sint x)"]
    by (simp only: sint_signed_drop_bit_eq [symmetric] word_of_int_sint) simp
qed

section \<open>The counting loops\<close>

lemma low_bit_test: "drop_bit n (a :: 'a::len word) AND 1 = 0 \<longleftrightarrow> \<not> bit a n"
  by (simp add: and_one_eq even_drop_bit_iff_not_bit [symmetric] mod2_eq_if)

lemma clz_loop_eq: "clz_loop a i = length (takeWhile Not (rev (map (bit a) [0..<i])))"
  by (induction i) (simp_all add: low_bit_test)

lemma ctz_loop_eq: "ctz_loop a bits n = n + length (takeWhile Not (map (bit a) [n..<bits]))"
  if "n \<le> bits" for n
  using that
proof (induction a bits n rule: ctz_loop.induct)
  case (1 a bits n)
  then show ?case
    by (cases "n < bits"; subst ctz_loop.simps)
      (auto simp: low_bit_test upt_conv_Cons simp del: ctz_loop.simps)
qed

lemma clear_lowest_bit:
  fixes x :: "'a::len word"
  assumes k: "bit x k" and low: "\<And>i. i < k \<Longrightarrow> \<not> bit x i"
  shows "x AND (x - 1) = x AND NOT (push_bit k 1)"
proof -
  let ?y = "x AND NOT (push_bit k 1)"
  have kn: "k < LENGTH('a)" using k by (rule bit_imp_le_length)
  have "?y + push_bit k 1 = ?y OR push_bit k 1"
    by (intro disjunctive_add) (auto simp: bit_simps)
  also have "\<dots> = x" using k kn by (intro bit_word_eqI) (auto simp: bit_simps)
  finally have x: "x = ?y + push_bit k 1" by (rule sym)
  have "x - 1 = ?y + mask k"
    by (subst x) (simp add: mask_eq_exp_minus_1 push_bit_eq_mult)
  also have "\<dots> = ?y OR mask k"
    using low by (intro disjunctive_add) (auto simp: bit_simps)
  finally have "x - 1 = ?y OR mask k" .
  then show ?thesis
    using low by (intro bit_word_eqI) (auto simp: bit_simps)
qed

lemma popcount_card: "popcount (x :: 'a::len word) = card {i. bit x i}"
proof -
  have "{i. bit x i} = set (filter (bit x) [0..<LENGTH('a)])"
    by (auto dest: bit_imp_le_length)
  then have "card {i. bit x i} = length (filter (bit x) [0..<LENGTH('a)])"
    by (simp only: distinct_card distinct_filter distinct_upt)
  then show ?thesis by (simp add: popcount_def)
qed

lemma finite_bits: "finite {i. bit (x :: 'a::len word) i}"
  by (rule finite_subset [of _ "{..<LENGTH('a)}"]) (auto dest: bit_imp_le_length)

lemma popcount_clear_lowest:
  assumes "(x :: 'a::len word) \<noteq> 0"
  shows "popcount x = Suc (popcount (x AND (x - 1)))"
proof -
  obtain j where "bit x j" using assms by (auto simp: bit_eq_iff)
  then obtain k where k: "bit x k" and low: "\<And>i. i < k \<Longrightarrow> \<not> bit x i"
    using ex_least_nat_le [of "bit x" j] by blast
  have "x AND (x - 1) = x AND NOT (push_bit k 1)"
    by (rule clear_lowest_bit [OF k low])
  then have "{i. bit (x AND (x - 1)) i} = {i. bit x i} - {k}"
    by (auto simp only: bit_and_iff bit_not_iff bit_push_bit_iff)
      (auto simp: bit_simps dest: bit_imp_le_length)
  then show ?thesis
    using k finite_bits [of x] by (simp add: popcount_card card_Suc_Diff1 del: card_Diff_insert)
qed

lemma popcnt_loop_eq: "popcnt_loop x = popcount x"
proof (induction x rule: popcnt_loop.induct)
  case (1 x)
  then show ?case
    by (cases "x = 0"; subst popcnt_loop.simps)
      (simp_all add: popcount_clear_lowest popcount_card [of 0] del: popcnt_loop.simps)
qed

lemma narrow_counts:
  assumes n: "LENGTH('a) \<le> 32"
  shows "clz_loop (ucast (x :: 'a::len word)) LENGTH('a) = countl_zero x"
    "ctz_loop (ucast x) LENGTH('a) 0 = countr_zero x"
    "popcnt_loop (ucast x) = popcount x"
proof -
  have b: "map (bit (ucast x :: 32 word)) [0..<LENGTH('a)] = map (bit x) [0..<LENGTH('a)]"
    using n by (intro map_cong) (auto simp: bit_simps)
  show "clz_loop (ucast x) LENGTH('a) = countl_zero x"
    by (simp only: clz_loop_eq countl_zero_def b)
  show "ctz_loop (ucast x) LENGTH('a) 0 = countr_zero x"
    by (simp only: ctz_loop_eq countr_zero_def b add_0 le0)
  have "{i. bit (ucast x :: 32 word) i} = {i. bit x i}"
    using n by (auto simp: bit_simps dest: bit_imp_le_length)
  then show "popcnt_loop (ucast x) = popcount x"
    by (simp only: popcnt_loop_eq popcount_card)
qed

section \<open>Agreement with the reference semantics\<close>

lemma narrow_value_eq:
  assumes "LENGTH('a) \<le> 32" and "(ucast r :: 'a::len word) = q"
  shows "narrow_value LENGTH('a) r = Some (Inr (from_i32 (ucast q)))"
  using assms by (simp add: narrow_value_def narrow_zext_eq)

lemma narrow_flag_eq: "narrow_flag f = Some (Inr (flag f))"
  by (simp add: narrow_flag_def flag_def)

text \<open>The evaluator on the low bits \<open>x\<close> and \<open>y\<close> of its operands.\<close>

lemma eval_narrow_int_eq:
  assumes n: "LENGTH('a) = 8 \<or> LENGTH('a) = 16"
  shows "eval_narrow_int op LENGTH('a) [a, b] =
    (let x = (ucast (raw_bits a) :: 'a::len word); y = (ucast (raw_bits b) :: 'a word)
     in case op of
          OpArith f \<Rightarrow> narrow_arith f LENGTH('a) (ucast x) (ucast y) (scast x) (scast y)
        | OpCmp c \<Rightarrow> narrow_cmp c (ucast x) (ucast y) (scast x) (scast y)
        | OpOvf v \<Rightarrow> narrow_ovf v LENGTH('a) (ucast x) (ucast y) (scast x) (scast y)
        | _ \<Rightarrow> None)"
proof -
  have n': "LENGTH('a) \<le> 32" using n by auto
  show ?thesis
    unfolding eval_narrow_int_def Let_def narrow_zext_eq [OF n'] narrow_sext_eq [OF n']
    using n by (auto split: Opcode.split)
qed

lemma ucast_wide_less:
  assumes n: "LENGTH('a) \<le> LENGTH('b)"
  shows "(ucast (x :: 'a::len word) :: 'b::len word) < ucast y \<longleftrightarrow> x < y"
    "(ucast x :: 'b word) \<le> ucast y \<longleftrightarrow> x \<le> y"
    "(ucast x :: 'b word) = ucast y \<longleftrightarrow> x = y"
    "(ucast x :: 'b word) = 0 \<longleftrightarrow> x = 0"
proof -
  note u = uint_ucast_wide [OF n]
  show "(ucast x :: 'b word) < ucast y \<longleftrightarrow> x < y" by (simp only: word_less_def u)
  show "(ucast x :: 'b word) \<le> ucast y \<longleftrightarrow> x \<le> y" by (simp only: word_le_def u)
  show "(ucast x :: 'b word) = ucast y \<longleftrightarrow> x = y" by (simp only: word_uint_eq_iff u)
  show "(ucast x :: 'b word) = 0 \<longleftrightarrow> x = 0" by (simp only: word_uint_eq_iff u unsigned_0)
qed

lemma narrow_cmp_eq:
  assumes n: "LENGTH('a) \<le> LENGTH(32)"
  shows "narrow_cmp c (ucast (x :: 'a::len word)) (ucast y) (scast x) (scast y) =
    Some (Inr (flag (word_cmp c x y)))"
  by (cases c) (simp_all add: narrow_cmp_def narrow_flag_eq ucast_wide_less [OF n] sint_scast_up [OF n])

lemma narrow_ovf_eq:
  assumes n: "LENGTH('a) \<le> LENGTH(32)"
  shows "narrow_ovf v LENGTH('a) (ucast (x :: 'a::len word)) (ucast y) (scast x) (scast y) =
    Some (Inr (flag (word_overflow v x y)))"
  by (cases v) (auto simp: narrow_ovf_def narrow_flag_eq sint_scast_up [OF n] uint_ucast_wide [OF n]
      word_overflow_exact word_less_def Let_def intro!: arg_cong [of _ _ flag])

lemma narrow_unary_eq:
  assumes n: "LENGTH('a) \<le> 32" and r: "word_unary f (x :: 'a::len word) = Some r"
  shows "narrow_arith f LENGTH('a) (ucast x) b (scast x) sb = Some (Inr (from_i32 (ucast r)))"
proof -
  have n': "LENGTH('a) \<le> LENGTH(64)" using n by simp
  have c: "(ucast (of_nat k :: 64 word) :: 'a word) = of_nat k" for k
    using ucast_narrow_of_int [OF n', of "int k"] by simp
  note defs = narrow_arith_def Let_def ArithOp.case narrow_counts [OF n] ucast_wide [OF n]
  from r show ?thesis
  proof (cases f)
    case Op_neg
    then show ?thesis using r unfolding Op_neg defs
      by (intro narrow_value_eq [OF n]) (simp only: narrow_ring(4) [OF n'] word_unary.simps option.inject)
  next
    case Op_not
    then show ?thesis using r unfolding Op_not defs
      by (intro narrow_value_eq [OF n]) (simp only: narrow_bitwise [OF n] word_unary.simps option.inject)
  qed (use r in \<open>simp_all only: defs word_unary.simps option.inject narrow_value_eq [OF n c] option.distinct\<close>)
qed

lemma narrow_shift:
  assumes n: "LENGTH('a) = 8 \<or> LENGTH('a) = 16" and "unat (y :: 'a::len word) < LENGTH('a)"
  shows "unat ((ucast y :: 32 word) AND 31) = shift_amount y"
proof -
  have n': "LENGTH('a) \<le> LENGTH(32)" using n by auto
  have "unat (ucast y :: 32 word) = unat y"
    by (simp only: unat_eq_nat_uint uint_ucast_wide [OF n'])
  then show ?thesis
    using assms shift_mask_32 [of "ucast y"] by (auto simp: shift_amount_def)
qed

lemma narrow_arith_Some:
  assumes n: "LENGTH('a) = 8 \<or> LENGTH('a) = 16" and r: "word_arith f (x :: 'a::len word) y = Some r"
    and sh: "f \<in> {Op_shl, Op_lshr, Op_ashr} \<Longrightarrow> unat y < LENGTH('a)"
  shows "narrow_arith f LENGTH('a) (ucast x) (ucast y) (scast x) (scast y) = Some (Inr (from_i32 (ucast r)))"
proof -
  have n32: "LENGTH('a) \<le> 32" and n': "LENGTH('a) \<le> LENGTH(64)" and n'': "LENGTH('a) \<le> LENGTH(32)"
    using n by auto
  note defs = narrow_arith_def Let_def ArithOp.case ucast_wide [OF n32] ucast_wide_less(4) [OF n'']
  note results = narrow_ring [OF n'] narrow_bitwise [OF n32] narrow_divide [OF n32] narrow_signed [OF n32]
  have "f \<in> {Op_shl, Op_lshr, Op_ashr} \<Longrightarrow> unat ((ucast y :: 32 word) AND 31) = shift_amount y"
    using narrow_shift [OF n sh] .
  note sh' = this [simplified insert_iff simp_thms empty_iff]
  note vals = results [THEN narrow_value_eq [OF n32]]
  show ?thesis
    by (cases f) (use r sh' in \<open>simp_all only: defs vals word_arith.simps option.inject
      option.distinct simp_thms split: if_splits\<close>)
qed

lemma narrow_arith_error:
  assumes n: "LENGTH('a) \<le> LENGTH(32)" and f: "f \<in> {Op_sdiv, Op_udiv, Op_smod, Op_umod}"
  shows "narrow_arith f LENGTH('a) (ucast (x :: 'a::len word)) (ucast (0 :: 'a word)) sa sb =
    Some (Inl (RuntimeError (''Interpreter error: Division by zero (i'' @
       (if LENGTH('a) = 8 then ''8'' else ''16'') @ '' '' @ opcode_name (OpArith f) @ '')'')))"
  using f by (auto simp: narrow_arith_def narrow_div_error_def)

section \<open>Properties\<close>

text \<open>
  C13.  At widths 8 and 16 the narrow evaluator computes the reference semantics on the low
  bits of its operands, whatever their high bits: comparisons and overflow checks yield their
  flag, unary and binary operations the zero extension of the reference result, and a zero
  divisor is reported as an error.  Shifts are included for amounts below the width only: the
  result of a larger amount is unspecified, and the evaluator's is not the reference result.
\<close>

theorem narrow_int_semantics:
  fixes x y :: "'a::len word"
  assumes n: "LENGTH('a) = 8 \<or> LENGTH('a) = 16"
    and x: "x = ucast (raw_bits a)" and y: "y = ucast (raw_bits b)"
  shows "eval_narrow_int (OpCmp c) LENGTH('a) [a, b] = Some (Inr (flag (word_cmp c x y))) \<and>
    eval_narrow_int (OpOvf v) LENGTH('a) [a, b] = Some (Inr (flag (word_overflow v x y))) \<and>
    (\<forall>r. word_unary f x = Some r \<longrightarrow>
      eval_narrow_int (OpArith f) LENGTH('a) [a, b] = Some (Inr (from_i32 (ucast r)))) \<and>
    (\<forall>r. word_arith f x y = Some r \<longrightarrow> (f \<in> {Op_shl, Op_lshr, Op_ashr} \<longrightarrow> unat y < LENGTH('a)) \<longrightarrow>
      eval_narrow_int (OpArith f) LENGTH('a) [a, b] = Some (Inr (from_i32 (ucast r)))) \<and>
    (f \<in> {Op_sdiv, Op_udiv, Op_smod, Op_umod} \<and> y = 0 \<longrightarrow>
      eval_narrow_int (OpArith f) LENGTH('a) [a, b] =
        Some (Inl (RuntimeError (''Interpreter error: Division by zero (i'' @
          (if LENGTH('a) = 8 then ''8'' else ''16'') @ '' '' @ opcode_name (OpArith f) @ '')''))))"
proof -
  have n': "LENGTH('a) \<le> LENGTH(32)" using n by auto
  show ?thesis
    unfolding eval_narrow_int_eq [OF n] Let_def x [symmetric] y [symmetric] Opcode.case
    using narrow_cmp_eq [OF n', of c x y] narrow_ovf_eq [OF n', of v x y]
      narrow_unary_eq [OF n' [simplified], of f x] narrow_arith_Some [OF n, of f x y]
      narrow_arith_error [OF n', of f x]
    by (simp only: simp_thms) blast
qed

theorem narrow_int_semantics_witness:
  "LENGTH(8) = 8 \<and>
   eval_narrow_int (OpArith Op_sdiv) 8 [from_i32 0xFFFFFF80, from_i32 0xFF] = Some (Inr (from_i32 0x80)) \<and>
   eval_narrow_int (OpOvf Op_smul_overflow) 8 [from_i32 0xFFFFFF80, from_i32 0xFF] = Some (Inr (flag True))"
proof -
  have n: "LENGTH(8) = 8 \<or> LENGTH(8) = 16" by simp
  have x: "(0x80 :: 8 word) = ucast (raw_bits (from_i32 0xFFFFFF80))"
    and y: "(0xFF :: 8 word) = ucast (raw_bits (from_i32 0xFF))"
    by code_simp+
  have d: "word_arith Op_sdiv (0x80 :: 8 word) 0xFF = Some 0x80" by code_simp
  have m: "word_overflow Op_smul_overflow (0x80 :: 8 word) 0xFF" by (simp add: word_overflow_exact)
  show ?thesis
    using narrow_int_semantics [OF n x y, of Op_eq Op_smul_overflow Op_sdiv] d m by auto
qed

end
