(* ===== verification/Value_Range.thy ===== *)
theory Value_Range
  imports Interp_Ops
begin

text \<open>
  The interval lattice of the value range analysis (\<open>include/brass/mir/range_analysis.hpp\<close>,
  \<open>src/mir/range_analysis_lattice.cpp\<close>).  A C++ \<open>int64_t\<close> bound is an \<open>int\<close>; every bound an
  operation stores lies in the 64-bit range, which is proved and not assumed.  The overflow
  helpers exist twice in the source, over a 128-bit type and portably; both are modelled and
  proved equal.
\<close>

section \<open>Ranges\<close>

record ValueRange =
  min_val :: int
  max_val :: int

definition mk_range :: "int \<Rightarrow> int \<Rightarrow> ValueRange" where
  "mk_range lo hi = \<lparr>min_val = lo, max_val = hi\<rparr>"

definition constant_range :: "int \<Rightarrow> ValueRange" where
  "constant_range v = mk_range v v"

definition non_negative_range :: ValueRange where
  "non_negative_range = mk_range 0 INT64_MAX"

definition full_range :: ValueRange where
  "full_range = mk_range INT64_MIN INT64_MAX"

definition empty_range :: ValueRange where
  "empty_range = mk_range 1 0"

definition is_constant_range :: "ValueRange \<Rightarrow> bool" where
  "is_constant_range r \<longleftrightarrow> min_val r = max_val r"

definition is_non_negative :: "ValueRange \<Rightarrow> bool" where
  "is_non_negative r \<longleftrightarrow> min_val r \<ge> 0"

definition is_empty :: "ValueRange \<Rightarrow> bool" where
  "is_empty r \<longleftrightarrow> min_val r > max_val r"

definition is_full :: "ValueRange \<Rightarrow> bool" where
  "is_full r \<longleftrightarrow> min_val r = INT64_MIN \<and> max_val r = INT64_MAX"

definition contains :: "ValueRange \<Rightarrow> int \<Rightarrow> bool" where
  "contains r v \<longleftrightarrow> \<not> is_empty r \<and> v \<ge> min_val r \<and> v \<le> max_val r"

definition intersect_with :: "ValueRange \<Rightarrow> ValueRange \<Rightarrow> ValueRange" where
  "intersect_with this other =
     (if is_empty this then this
      else if is_empty other then this\<lparr>min_val := 1, max_val := 0\<rparr>
      else this\<lparr>min_val := max (min_val this) (min_val other),
                max_val := min (max_val this) (max_val other)\<rparr>)"

definition union_with :: "ValueRange \<Rightarrow> ValueRange \<Rightarrow> ValueRange" where
  "union_with this other =
     (if is_empty other then this
      else if is_empty this then other
      else this\<lparr>min_val := min (min_val this) (min_val other),
                max_val := max (max_val this) (max_val other)\<rparr>)"

definition is_subrange_of :: "ValueRange \<Rightarrow> ValueRange \<Rightarrow> bool" where
  "is_subrange_of this other =
     (if is_empty this then True
      else if is_empty other then False
      else min_val this \<ge> min_val other \<and> max_val this \<le> max_val other)"

definition range_eq :: "ValueRange \<Rightarrow> ValueRange \<Rightarrow> bool" where
  "range_eq this other =
     (if is_empty this \<and> is_empty other then True
      else min_val this = min_val other \<and> max_val this = max_val other)"

section \<open>Overflow helpers\<close>

text \<open>
  Each helper returns \<open>None\<close> where the C++ one returns \<open>true\<close> (overflow) and the value it
  stores otherwise.  The first version of each computes in \<open>__int128\<close>, where nothing overflows.
\<close>

definition fits_int64 :: "int \<Rightarrow> bool" where
  "fits_int64 k \<longleftrightarrow> INT64_MIN \<le> k \<and> k \<le> INT64_MAX"

definition add_overflows :: "int \<Rightarrow> int \<Rightarrow> int option" where
  "add_overflows a b = (let res = a + b in if res > INT64_MAX \<or> res < INT64_MIN then None else Some res)"

definition add_overflows_portable :: "int \<Rightarrow> int \<Rightarrow> int option" where
  "add_overflows_portable a b =
     (if b > 0 \<and> a > INT64_MAX - b then None
      else if b < 0 \<and> a < INT64_MIN - b then None
      else Some (a + b))"

definition sub_overflows :: "int \<Rightarrow> int \<Rightarrow> int option" where
  "sub_overflows a b = (let res = a - b in if res > INT64_MAX \<or> res < INT64_MIN then None else Some res)"

definition sub_overflows_portable :: "int \<Rightarrow> int \<Rightarrow> int option" where
  "sub_overflows_portable a b =
     (if b < 0 \<and> a > INT64_MAX + b then None
      else if b > 0 \<and> a < INT64_MIN + b then None
      else Some (a - b))"

definition mul_overflows :: "int \<Rightarrow> int \<Rightarrow> int option" where
  "mul_overflows a b = (let res = a * b in if res > INT64_MAX \<or> res < INT64_MIN then None else Some res)"

definition mul_overflows_portable :: "int \<Rightarrow> int \<Rightarrow> int option" where
  "mul_overflows_portable a b =
     (if a = 0 \<or> b = 0 then Some 0
      else if a = - 1 \<and> b = INT64_MIN then None
      else if b = - 1 \<and> a = INT64_MIN then None
      else if a > 0 \<and> b > 0 \<and> a > INT64_MAX sdiv b then None
      else if a > 0 \<and> b < 0 \<and> b < INT64_MIN sdiv a then None
      else if a < 0 \<and> b > 0 \<and> a < INT64_MIN sdiv b then None
      else if a < 0 \<and> b < 0 \<and> a < INT64_MAX sdiv b then None
      else Some (a * b))"

section \<open>Interval arithmetic\<close>

definition range_add :: "ValueRange \<Rightarrow> ValueRange \<Rightarrow> ValueRange" where
  "range_add a b =
     (if is_empty a \<or> is_empty b then empty_range
      else case (add_overflows (min_val a) (min_val b), add_overflows (max_val a) (max_val b)) of
             (Some lo, Some hi) \<Rightarrow> mk_range lo hi
           | _ \<Rightarrow> full_range)"

definition range_sub :: "ValueRange \<Rightarrow> ValueRange \<Rightarrow> ValueRange" where
  "range_sub a b =
     (if is_empty a \<or> is_empty b then empty_range
      else case (sub_overflows (min_val a) (max_val b), sub_overflows (max_val a) (min_val b)) of
             (Some lo, Some hi) \<Rightarrow> mk_range lo hi
           | _ \<Rightarrow> full_range)"

definition range_mul :: "ValueRange \<Rightarrow> ValueRange \<Rightarrow> ValueRange" where
  "range_mul a b =
     (if is_empty a \<or> is_empty b then empty_range
      else case (mul_overflows (min_val a) (min_val b), mul_overflows (min_val a) (max_val b),
                 mul_overflows (max_val a) (min_val b), mul_overflows (max_val a) (max_val b)) of
             (Some p1, Some p2, Some p3, Some p4) \<Rightarrow>
               mk_range (min (min p1 p2) (min p3 p4)) (max (max p1 p2) (max p3 p4))
           | _ \<Rightarrow> full_range)"

definition range_and :: "ValueRange \<Rightarrow> ValueRange \<Rightarrow> ValueRange" where
  "range_and a b =
     (if is_empty a \<or> is_empty b then empty_range
      else if is_constant_range a \<and> is_constant_range b then constant_range (min_val a AND min_val b)
      else if is_non_negative a \<or> is_non_negative b then
        mk_range 0 (if is_non_negative a \<and> is_non_negative b then min (max_val a) (max_val b)
                    else if is_non_negative a then max_val a
                    else max_val b)
      else full_range)"

text \<open>The upper bound of \<open>or\<close> and \<open>xor\<close>: all ones up to the highest bit of either maximum.\<close>

definition bit_bound :: "u64 \<Rightarrow> int" where
  "bit_bound m =
     (let clz = countl_zero m;
          bound = (if clz = 0 then UINT64_MAX else 2 ^ (64 - clz) - 1)
      in if bound > INT64_MAX then INT64_MAX else bound)"

definition range_or :: "ValueRange \<Rightarrow> ValueRange \<Rightarrow> ValueRange" where
  "range_or a b =
     (if is_empty a \<or> is_empty b then empty_range
      else if is_constant_range a \<and> is_constant_range b then constant_range (min_val a OR min_val b)
      else if is_non_negative a \<and> is_non_negative b then
        (let lower = max (min_val a) (min_val b);
             m = (word_of_int (max_val a OR max_val b) :: u64)
         in if m = 0 then constant_range 0 else mk_range lower (bit_bound m))
      else full_range)"

definition range_xor :: "ValueRange \<Rightarrow> ValueRange \<Rightarrow> ValueRange" where
  "range_xor a b =
     (if is_empty a \<or> is_empty b then empty_range
      else if is_constant_range a \<and> is_constant_range b then constant_range (min_val a XOR min_val b)
      else if is_non_negative a \<and> is_non_negative b then
        (let m = (word_of_int (max_val a OR max_val b) :: u64)
         in if m = 0 then constant_range 0 else mk_range 0 (bit_bound m))
      else full_range)"

definition range_shl :: "ValueRange \<Rightarrow> ValueRange \<Rightarrow> ValueRange" where
  "range_shl a b =
     (if is_empty a \<or> is_empty b then empty_range
      else if is_constant_range b \<and> min_val b \<ge> 0 \<and> min_val b < 63 then
        (let factor = 2 ^ nat (min_val b)
         in case (mul_overflows (min_val a) factor, mul_overflows (max_val a) factor) of
              (Some p1, Some p2) \<Rightarrow> mk_range (min p1 p2) (max p1 p2)
            | _ \<Rightarrow> full_range)
      else full_range)"

definition range_lshr :: "ValueRange \<Rightarrow> ValueRange \<Rightarrow> ValueRange" where
  "range_lshr a b =
     (if is_empty a \<or> is_empty b then empty_range
      else if is_constant_range b \<and> min_val b \<ge> 0 \<and> min_val b \<le> 64 then
        (let shift = nat (min_val b)
         in if shift \<ge> 64 then constant_range 0
            else if shift = 0 then a
            else if is_non_negative a then
              mk_range (drop_bit shift (min_val a)) (drop_bit shift (max_val a))
            else mk_range 0 (drop_bit shift UINT64_MAX))
      else full_range)"

definition range_ashr :: "ValueRange \<Rightarrow> ValueRange \<Rightarrow> ValueRange" where
  "range_ashr a b =
     (if is_empty a \<or> is_empty b then empty_range
      else if is_constant_range b \<and> min_val b \<ge> 0 \<and> min_val b < 64 then
        (let shift = nat (min_val b)
         in mk_range (drop_bit shift (min_val a)) (drop_bit shift (max_val a)))
      else full_range)"

definition range_zext :: "ValueRange \<Rightarrow> ValueRange" where
  "range_zext a =
     (if is_empty a then empty_range
      else if is_non_negative a \<and> max_val a \<le> UINT32_MAX then mk_range (min_val a) (max_val a)
      else mk_range 0 UINT32_MAX)"

definition range_sext :: "ValueRange \<Rightarrow> ValueRange" where
  "range_sext a =
     (if is_empty a then empty_range
      else if is_constant_range a then
        constant_range (sint (word_of_int (min_val a) :: i32))
      else if min_val a \<ge> INT32_MIN \<and> max_val a \<le> INT32_MAX then mk_range (min_val a) (max_val a)
      else mk_range INT32_MIN INT32_MAX)"

definition range_trunc :: "ValueRange \<Rightarrow> ValueRange" where
  "range_trunc a =
     (if is_empty a then empty_range
      else if min_val a \<ge> INT32_MIN \<and> max_val a \<le> INT32_MAX then a
      else mk_range INT32_MIN INT32_MAX)"

definition range_select :: "ValueRange \<Rightarrow> ValueRange \<Rightarrow> ValueRange \<Rightarrow> ValueRange" where
  "range_select cond then_r else_r =
     (if is_empty cond \<or> is_empty then_r \<or> is_empty else_r then empty_range
      else if is_constant_range cond then (if min_val cond \<noteq> 0 then then_r else else_r)
      else union_with then_r else_r)"

section \<open>The lattice\<close>

lemmas range_defs = mk_range_def constant_range_def full_range_def empty_range_def
  is_constant_range_def is_non_negative_def is_empty_def is_full_def

definition range_ok :: "ValueRange \<Rightarrow> bool" where
  "range_ok r \<longleftrightarrow> fits_int64 (min_val r) \<and> fits_int64 (max_val r)"

lemma contains_iff: "contains r v \<longleftrightarrow> min_val r \<le> v \<and> v \<le> max_val r"
  by (auto simp: contains_def is_empty_def)

lemma contains_not_empty: "contains r v \<Longrightarrow> \<not> is_empty r"
  by (simp add: contains_def)

lemma is_empty_iff: "is_empty r \<longleftrightarrow> (\<forall>v. \<not> contains r v)"
proof
  assume none: "\<forall>v. \<not> contains r v"
  show "is_empty r"
  proof (rule ccontr)
    assume "\<not> is_empty r"
    then have "contains r (min_val r)" by (simp add: contains_iff is_empty_def)
    with none show False by simp
  qed
qed (auto simp: contains_def)

lemma contains_intersect: "contains (intersect_with r q) v \<longleftrightarrow> contains r v \<and> contains q v"
  by (auto simp: intersect_with_def contains_iff is_empty_def)

lemma contains_union: "contains r v \<or> contains q v \<Longrightarrow> contains (union_with r q) v"
  by (auto simp: union_with_def contains_iff is_empty_def)

lemma subrange_iff: "is_subrange_of r q \<longleftrightarrow> (\<forall>v. contains r v \<longrightarrow> contains q v)"
proof (cases "is_empty r")
  case True
  then show ?thesis by (auto simp: is_subrange_of_def contains_def)
next
  case False
  then have "contains r (min_val r)" "contains r (max_val r)"
    by (auto simp: contains_iff is_empty_def)
  with False show ?thesis
    by (auto simp: is_subrange_of_def contains_iff is_empty_def)
qed

lemma union_least:
  "is_subrange_of r z \<Longrightarrow> is_subrange_of q z \<Longrightarrow> is_subrange_of (union_with r q) z"
  by (auto simp: is_subrange_of_def union_with_def is_empty_def split: if_splits)

lemma range_eq_iff: "range_eq r q \<longleftrightarrow> (\<forall>v. contains r v \<longleftrightarrow> contains q v)"
proof
  assume "range_eq r q"
  then show "\<forall>v. contains r v \<longleftrightarrow> contains q v"
    by (auto simp: range_eq_def contains_iff is_empty_def split: if_splits)
next
  assume same: "\<forall>v. contains r v \<longleftrightarrow> contains q v"
  then have "is_empty r \<longleftrightarrow> is_empty q" by (simp add: is_empty_iff)
  moreover have "is_subrange_of r q" "is_subrange_of q r"
    using same by (simp_all add: subrange_iff)
  ultimately show "range_eq r q"
    by (auto simp: range_eq_def is_subrange_of_def split: if_splits)
qed

lemma union_ok: "range_ok r \<Longrightarrow> range_ok q \<Longrightarrow> range_ok (union_with r q)"
  by (auto simp: range_ok_def union_with_def fits_int64_def)

lemma intersect_ok: "range_ok r \<Longrightarrow> range_ok q \<Longrightarrow> range_ok (intersect_with r q)"
  by (auto simp: range_ok_def intersect_with_def fits_int64_def)

lemma contains_fits: "range_ok r \<Longrightarrow> contains r v \<Longrightarrow> fits_int64 v"
  by (auto simp: range_ok_def contains_iff fits_int64_def)

section \<open>The overflow helpers agree\<close>

lemma add_overflows_portable_eq: "fits_int64 a \<Longrightarrow> fits_int64 b \<Longrightarrow>
    add_overflows_portable a b = add_overflows a b"
  by (auto simp: add_overflows_portable_def add_overflows_def fits_int64_def)

lemma sub_overflows_portable_eq: "fits_int64 a \<Longrightarrow> fits_int64 b \<Longrightarrow>
    sub_overflows_portable a b = sub_overflows a b"
  by (auto simp: sub_overflows_portable_def sub_overflows_def fits_int64_def)

lemma mul_overflows_builtin: "mul_overflows a b = (if builtin_mul_overflow a b then None else Some (a * b))"
  by (auto simp: mul_overflows_def builtin_mul_overflow_def Let_def)

lemma mul_overflows_portable_eq: "mul_overflows_portable a b = mul_overflows a b"
  unfolding mul_overflows_builtin portable_mul_overflow_correct [symmetric]
  by (simp add: mul_overflows_portable_def portable_mul_overflow_def)

lemma mul_overflows_Some: "mul_overflows a b = Some p \<longleftrightarrow> p = a * b \<and> fits_int64 (a * b)"
  by (auto simp: mul_overflows_def fits_int64_def Let_def)

lemma add_overflows_Some: "add_overflows a b = Some p \<longleftrightarrow> p = a + b \<and> fits_int64 (a + b)"
  by (auto simp: add_overflows_def fits_int64_def Let_def)

lemma sub_overflows_Some: "sub_overflows a b = Some p \<longleftrightarrow> p = a - b \<and> fits_int64 (a - b)"
  by (auto simp: sub_overflows_def fits_int64_def Let_def)

section \<open>Sound transfer functions\<close>

text \<open>
  What the analysis relies on of each binary interval operation: it keeps its bounds in the
  64-bit range, and on operands inside its argument intervals the exact integer result is
  inside the result interval, unless the interval is the full one.
\<close>

locale range_transfer =
  fixes aop :: "ValueRange \<Rightarrow> ValueRange \<Rightarrow> ValueRange"
    and cop :: "int \<Rightarrow> int \<Rightarrow> int"
  assumes ok: "range_ok a \<Longrightarrow> range_ok b \<Longrightarrow> range_ok (aop a b)"
    and sound: "range_ok a \<Longrightarrow> range_ok b \<Longrightarrow> contains a x \<Longrightarrow> contains b y \<Longrightarrow>
      is_full (aop a b) \<or> contains (aop a b) (cop x y)"
begin

lemma wrapped:
  assumes "range_ok a" "range_ok b" "contains a x" "contains b y"
  shows "contains (aop a b) (sint (word_of_int (cop x y) :: i64))"
proof (cases "is_full (aop a b)")
  case True
  then show ?thesis
    using sint_range64 by (simp add: contains_iff is_full_def)
next
  case False
  then have c: "contains (aop a b) (cop x y)" using sound assms by blast
  then have "fits_int64 (cop x y)" using contains_fits ok assms by blast
  then have "sint (word_of_int (cop x y) :: i64) = cop x y"
    by (intro sint_of_int64) (simp_all add: fits_int64_def)
  with c show ?thesis by simp
qed

end

lemma range_ok_const [simp]:
  "range_ok full_range" "range_ok empty_range"
  "range_ok (mk_range a b) \<longleftrightarrow> fits_int64 a \<and> fits_int64 b"
  "range_ok (constant_range c) \<longleftrightarrow> fits_int64 c"
  by (simp_all add: range_ok_def full_range_def empty_range_def mk_range_def constant_range_def
      fits_int64_def)

lemma contains_mk [simp]:
  "contains (mk_range a b) v \<longleftrightarrow> a \<le> v \<and> v \<le> b"
  "contains (constant_range c) v \<longleftrightarrow> v = c"
  by (auto simp: contains_iff mk_range_def constant_range_def)

lemma is_full_full [simp]: "is_full full_range"
  by (simp add: is_full_def full_range_def mk_range_def)

interpretation add_transfer: range_transfer range_add "(+)"
proof
  fix a b x y
  assume ok: "range_ok a" "range_ok b"
  show "range_ok (range_add a b)"
    by (auto simp: range_add_def add_overflows_Some split: option.splits)
  assume "contains a x" "contains b y"
  then show "is_full (range_add a b) \<or> contains (range_add a b) (x + y)"
    by (auto simp: range_add_def contains_iff [of a] contains_iff [of b] is_empty_def
        add_overflows_Some split: option.splits)
qed

interpretation sub_transfer: range_transfer range_sub "(-)"
proof
  fix a b x y
  assume ok: "range_ok a" "range_ok b"
  show "range_ok (range_sub a b)"
    by (auto simp: range_sub_def sub_overflows_Some split: option.splits)
  assume "contains a x" "contains b y"
  then show "is_full (range_sub a b) \<or> contains (range_sub a b) (x - y)"
    by (auto simp: range_sub_def contains_iff [of a] contains_iff [of b] is_empty_def
        sub_overflows_Some split: option.splits)
qed

lemma mult_between:
  assumes "lo \<le> x" and "x \<le> (hi :: int)"
  shows "min (lo * c) (hi * c) \<le> x * c" and "x * c \<le> max (lo * c) (hi * c)"
proof -
  have "lo * c \<le> x * c \<and> x * c \<le> hi * c \<or> hi * c \<le> x * c \<and> x * c \<le> lo * c"
    using assms by (cases "0 \<le> c") (auto intro: mult_right_mono mult_right_mono_neg)
  then show "min (lo * c) (hi * c) \<le> x * c" "x * c \<le> max (lo * c) (hi * c)" by auto
qed

lemma mult_corners:
  assumes "a \<le> x" "x \<le> b" "c \<le> y" "y \<le> (d :: int)"
  shows "min (min (a * c) (a * d)) (min (b * c) (b * d)) \<le> x * y"
    and "x * y \<le> max (max (a * c) (a * d)) (max (b * c) (b * d))"
  using mult_between [of a x b y] mult_between [of c y d a] mult_between [of c y d b] assms
  by (auto simp: mult.commute)

interpretation mul_transfer: range_transfer range_mul "(*)"
proof
  fix a b x y
  assume ok: "range_ok a" "range_ok b"
  show "range_ok (range_mul a b)"
    by (auto simp: range_mul_def mul_overflows_Some split: option.splits) (auto simp: min_def max_def)
  assume "contains a x" "contains b y"
  then show "is_full (range_mul a b) \<or> contains (range_mul a b) (x * y)"
    using mult_corners [of "min_val a" x "max_val a" "min_val b" y "max_val b"]
    by (auto simp: range_mul_def contains_iff [of a] contains_iff [of b] is_empty_def
        mul_overflows_Some split: option.splits)
qed

section \<open>Bitwise operations\<close>

lemma fits_int64_iff: "fits_int64 k \<longleftrightarrow> (\<exists>w :: i64. k = sint w)"
proof
  assume "fits_int64 k"
  then have "k = sint (word_of_int k :: i64)"
    using sint_of_int64 [of k] by (simp add: fits_int64_def)
  then show "\<exists>w :: i64. k = sint w" by blast
qed (use sint_range64 in \<open>auto simp: fits_int64_def\<close>)

lemma fits_bitwise:
  assumes "fits_int64 a" "fits_int64 b"
  shows "fits_int64 (a AND b)" "fits_int64 (a OR b)" "fits_int64 (a XOR b)"
  using assms unfolding fits_int64_iff
  by (metis signed_and_eq, metis signed_or_eq, metis signed_xor_eq)

lemma countl_zero_high_bits:
  fixes m :: "'a::len word"
  assumes "LENGTH('a) - countl_zero m \<le> i" shows "\<not> bit m i"
proof (cases "i < LENGTH('a)")
  case True
  let ?bs = "rev (map (bit m) [0..<LENGTH('a)])"
  let ?j = "LENGTH('a) - 1 - i"
  have j: "?j < length (takeWhile Not ?bs)"
    using assms True unfolding countl_zero_def by linarith
  then have "takeWhile Not ?bs ! ?j = ?bs ! ?j" by (rule takeWhile_nth)
  moreover have "\<not> (takeWhile Not ?bs ! ?j)"
    using nth_mem [OF j] set_takeWhileD by metis
  moreover have "?bs ! ?j = bit m i"
    using True by (subst rev_nth) simp_all
  ultimately show ?thesis by simp
qed (auto dest: bit_imp_le_length)

lemma less_bit_length:
  fixes m :: "'a::len word"
  shows "uint m < 2 ^ (LENGTH('a) - countl_zero m)"
proof -
  have "take_bit (LENGTH('a) - countl_zero m) m = m"
    using countl_zero_high_bits [of m] by (intro bit_eqI) (auto simp: bit_take_bit_iff not_less [symmetric])
  then have "take_bit (LENGTH('a) - countl_zero m) (uint m) = uint m"
    by (metis unsigned_take_bit_eq)
  then show ?thesis by (metis take_bit_int_less_exp)
qed

lemma bit_bound_covers:
  assumes m: "0 \<le> m" "m \<le> INT64_MAX" and x: "0 \<le> x" "x \<le> m" and y: "0 \<le> y" "y \<le> m"
  shows "x OR y \<le> bit_bound (word_of_int m)" and "x XOR y \<le> bit_bound (word_of_int m)"
proof -
  define w where "w = (word_of_int m :: u64)"
  define n where "n = 64 - countl_zero w"
  have u: "uint w = m" using m by (simp add: w_def uint_word_of_int)
  have lt: "m < 2 ^ n" using less_bit_length [of w] by (simp add: u n_def)
  then have small: "x < 2 ^ n" "y < 2 ^ n" using x y by simp_all
  have lim: "m < 2 ^ 63" using m by simp
  then have small': "x < 2 ^ 63" "y < 2 ^ 63" using x y by simp_all
  have "k \<le> bit_bound w" if k: "k < 2 ^ n" and k': "k < 2 ^ 63" for k
  proof (cases "countl_zero w = 0")
    case True
    then show ?thesis using k' by (simp add: bit_bound_def Let_def)
  next
    case False
    then show ?thesis using k k' by (simp add: bit_bound_def Let_def n_def)
  qed
  then show "x OR y \<le> bit_bound (word_of_int m)" "x XOR y \<le> bit_bound (word_of_int m)"
    using OR_upper [OF x(1) small] OR_upper [OF x(1) small']
      XOR_upper [OF x(1) small] XOR_upper [OF x(1) small'] by (simp_all add: w_def)
qed

lemma bit_bound_ok: "fits_int64 (bit_bound m)"
proof -
  have "0 \<le> (2 :: int) ^ (64 - countl_zero m)" by simp
  then have "INT64_MIN < 2 ^ (64 - countl_zero m)" by linarith
  then show ?thesis by (auto simp: bit_bound_def Let_def fits_int64_def)
qed

interpretation and_transfer: range_transfer range_and "(AND)"
proof
  fix a b x y
  assume ok: "range_ok a" "range_ok b"
  show "range_ok (range_and a b)"
    using ok fits_bitwise(1) [of "min_val a" "min_val b"]
    by (auto simp: range_and_def range_ok_def [of a] range_ok_def [of b] fits_int64_def [of 0]
        min_def [of "max_val a"])
  assume c: "contains a x" "contains b y"
  have "0 \<le> x AND y" if "0 \<le> x \<or> 0 \<le> y"
    using that by simp
  moreover have "x AND y \<le> x" if "0 \<le> x" using that by simp
  moreover have "x AND y \<le> y" if "0 \<le> y" using that by simp
  ultimately show "is_full (range_and a b) \<or> contains (range_and a b) (x AND y)"
    using c by (cases "is_constant_range a \<and> is_constant_range b"; cases "is_non_negative a";
        cases "is_non_negative b")
      (auto simp: range_and_def contains_iff [of a] contains_iff [of b] is_empty_def
        is_non_negative_def is_constant_range_def)
qed

lemma or_max_bounds:
  assumes "range_ok a" "range_ok b" "is_non_negative a" "is_non_negative b" "contains a x" "contains b y"
  shows "0 \<le> x" "0 \<le> y" "x \<le> max_val a OR max_val b" "y \<le> max_val a OR max_val b"
    "max_val a OR max_val b \<le> INT64_MAX" "0 \<le> max_val a OR max_val b"
proof -
  show x: "0 \<le> x" and y: "0 \<le> y"
    using assms by (auto simp: is_non_negative_def contains_iff)
  have pos: "0 \<le> max_val a" "0 \<le> max_val b"
    using assms x y by (auto simp: contains_iff)
  have "max_val a \<le> max_val a OR max_val b" using pos by (simp add: or_greater_eq)
  then show "x \<le> max_val a OR max_val b"
    using assms by (simp add: contains_iff)
  have "max_val b \<le> max_val b OR max_val a" using pos by (simp add: or_greater_eq)
  then show "y \<le> max_val a OR max_val b"
    using assms by (simp add: contains_iff or.commute)
  show "max_val a OR max_val b \<le> INT64_MAX"
    using fits_bitwise(2) [of "max_val a" "max_val b"] assms by (simp add: range_ok_def fits_int64_def)
  show "0 \<le> max_val a OR max_val b" using pos by simp
qed

lemma zero_bits_zero: "0 \<le> k \<Longrightarrow> k \<le> INT64_MAX \<Longrightarrow> (word_of_int k :: u64) = 0 \<Longrightarrow> k = 0"
  using uint_word_of_int [of k, where 'a = 64] by simp

interpretation or_transfer: range_transfer range_or "(OR)"
proof
  fix a b x y
  assume ok: "range_ok a" "range_ok b"
  show "range_ok (range_or a b)"
    using ok fits_bitwise(2) [of "min_val a" "min_val b"] bit_bound_ok
    by (auto simp: range_or_def range_ok_def [of a] range_ok_def [of b] fits_int64_def [of 0] Let_def
        max_def [of "min_val a"])
  assume c: "contains a x" "contains b y"
  note bounds = or_max_bounds [OF ok _ _ c]
  have "contains (range_or a b) (x OR y)"
    if nn: "is_non_negative a" "is_non_negative b" and nc: "\<not> (is_constant_range a \<and> is_constant_range b)"
  proof -
    note b = bounds [OF nn]
    have "x \<le> x OR y" "y \<le> x OR y"
      using b or_greater_eq [of y x] or_greater_eq [of x y] by (simp_all add: or.commute)
    then show ?thesis
      using c nn nc bit_bound_covers(1) [OF b(6,5,1,3,2,4)] zero_bits_zero [OF b(6,5)] b(1-4)
      by (auto simp: range_or_def Let_def dest: contains_not_empty) (auto simp: contains_iff)
  qed
  then show "is_full (range_or a b) \<or> contains (range_or a b) (x OR y)"
    using c by (auto simp: range_or_def contains_iff [of a] contains_iff [of b] is_constant_range_def
        is_empty_def Let_def)
qed

interpretation xor_transfer: range_transfer range_xor "(XOR)"
proof
  fix a b x y
  assume ok: "range_ok a" "range_ok b"
  show "range_ok (range_xor a b)"
    using ok fits_bitwise(3) [of "min_val a" "min_val b"] bit_bound_ok
    by (auto simp: range_xor_def range_ok_def [of a] range_ok_def [of b] fits_int64_def [of 0] Let_def)
  assume c: "contains a x" "contains b y"
  note bounds = or_max_bounds [OF ok _ _ c]
  have "contains (range_xor a b) (x XOR y)"
    if nn: "is_non_negative a" "is_non_negative b" and nc: "\<not> (is_constant_range a \<and> is_constant_range b)"
  proof -
    note b = bounds [OF nn]
    show ?thesis
      using c nn nc bit_bound_covers(2) [OF b(6,5,1,3,2,4)] zero_bits_zero [OF b(6,5)] b(1-4)
      by (auto simp: range_xor_def Let_def dest: contains_not_empty)
  qed
  then show "is_full (range_xor a b) \<or> contains (range_xor a b) (x XOR y)"
    using c by (auto simp: range_xor_def contains_iff [of a] contains_iff [of b] is_constant_range_def
        is_empty_def Let_def)
qed

section \<open>Shifts and conversions\<close>

interpretation shl_transfer: range_transfer range_shl "\<lambda>x y. x * 2 ^ nat y"
proof
  fix a b x y
  assume ok: "range_ok a" "range_ok b"
  show "range_ok (range_shl a b)"
    by (auto simp: range_shl_def mul_overflows_Some Let_def split: option.splits) (auto simp: min_def max_def)
  assume "contains a x" "contains b y"
  then show "is_full (range_shl a b) \<or> contains (range_shl a b) (x * 2 ^ nat y)"
    using mult_between [of "min_val a" x "max_val a" "2 ^ nat y"]
    by (auto simp: range_shl_def contains_iff [of a] contains_iff [of b] is_empty_def
        is_constant_range_def mul_overflows_Some Let_def split: option.splits)
qed

lemma drop_bit_between:
  assumes "fits_int64 k" shows "fits_int64 (drop_bit n k)"
proof -
  obtain w :: i64 where "k = sint w" using assms fits_int64_iff by blast
  then have "drop_bit n k = sint (signed_drop_bit n w)" by (simp add: sint_signed_drop_bit_eq)
  then show ?thesis using fits_int64_iff by blast
qed

lemma drop_bit_mono: "k \<le> l \<Longrightarrow> drop_bit n k \<le> drop_bit n (l :: int)"
  by (simp add: drop_bit_eq_div zdiv_mono1)

interpretation ashr_transfer: range_transfer range_ashr "\<lambda>x y. drop_bit (nat y) x"
proof
  fix a b x y
  assume ok: "range_ok a" "range_ok b"
  show "range_ok (range_ashr a b)"
    using ok drop_bit_between by (auto simp: range_ashr_def range_ok_def [of a] Let_def)
  assume "contains a x" "contains b y"
  then show "is_full (range_ashr a b) \<or> contains (range_ashr a b) (drop_bit (nat y) x)"
    by (auto simp: range_ashr_def contains_iff [of a] contains_iff [of b] is_empty_def
        is_constant_range_def Let_def intro!: drop_bit_mono)
qed

text \<open>
  A logical shift reads the operand as unsigned: at a non-zero amount the result has a clear
  sign bit and is the shifted unsigned value.
\<close>

lemma sint_drop_bit:
  fixes w :: "'a::len word"
  assumes "0 < n" shows "sint (drop_bit n w) = drop_bit n (uint w)"
proof -
  have "\<not> bit (drop_bit n w) (LENGTH('a) - 1)"
    using assms by (auto simp: bit_drop_bit_eq dest: bit_imp_le_length)
  then have "sint (drop_bit n w) = uint (drop_bit n w)"
    using sint_as_uint [of "drop_bit n w"] by simp
  then show ?thesis by (simp add: unsigned_drop_bit_eq take_bit_int_eq_self)
qed

lemma lshr_ok: "range_ok a \<Longrightarrow> range_ok (range_lshr a b)"
proof -
  have "fits_int64 (drop_bit n UINT64_MAX)" if "0 < n" for n
  proof -
    have "drop_bit n UINT64_MAX = drop_bit (n - 1) INT64_MAX"
      using that by (cases n) (simp_all add: drop_bit_Suc)
    then show ?thesis using drop_bit_between [of INT64_MAX "n - 1"] by (simp add: fits_int64_def [of INT64_MAX])
  qed
  then show "range_ok a \<Longrightarrow> range_ok (range_lshr a b)"
    using drop_bit_between by (auto simp: range_lshr_def range_ok_def [of a] Let_def fits_int64_def [of 0])
qed

lemma lshr_sound:
  fixes w :: "'a::len word"
  assumes c: "contains a (sint w)" and n: "n < 64"
    and w: "is_non_negative a \<or> n = 0 \<or> LENGTH('a) = 64"
  shows "contains (range_lshr a (constant_range (int n))) (sint (drop_bit n w))"
proof (cases "n = 0 \<or> is_non_negative a")
  case True
  have "sint (drop_bit n w) = drop_bit n (sint w)" if "is_non_negative a" "0 < n"
    using that c uint_of_non_negative [of w] by (simp add: sint_drop_bit is_non_negative_def contains_iff)
  then show ?thesis
    using c n True drop_bit_mono
    by (auto simp: range_lshr_def constant_range_def mk_range_def is_empty_def is_constant_range_def
        contains_iff Let_def)
next
  case False
  then have "uint w \<le> UINT64_MAX" using w uint_bounded [of w] by simp
  then show ?thesis
    using False n c sint_drop_bit [of n w] drop_bit_mono [of "uint w" UINT64_MAX n]
    by (auto simp: range_lshr_def constant_range_def mk_range_def is_empty_def is_constant_range_def
        contains_iff Let_def drop_bit_nonnegative_int_iff)
qed

lemma conversions_ok:
  "range_ok a \<Longrightarrow> range_ok (range_zext a)" "range_ok a \<Longrightarrow> range_ok (range_sext a)"
  "range_ok a \<Longrightarrow> range_ok (range_trunc a)"
  using sint_range32 [of "word_of_int (min_val a)"]
  by (auto simp: range_zext_def range_sext_def range_trunc_def range_ok_def [of a] fits_int64_def)

lemma zext_sound: "contains a (sint (x :: i32)) \<Longrightarrow> contains (range_zext a) (sint (ucast x :: i64))"
proof -
  assume c: "contains a (sint x)"
  have "sint (ucast x :: i64) = uint x"
    unfolding ucast_eq [of x, where 'a = 64] using uint_range32 [of x] by (intro sint_of_int64) linarith+
  then show ?thesis
    using c uint_range32 [of x] uint_of_non_negative [of x]
    by (auto simp: range_zext_def contains_iff [of a] is_empty_def is_non_negative_def)
qed

lemma sext_sound: "contains a (sint (x :: i32)) \<Longrightarrow> contains (range_sext a) (sint (scast x :: i64))"
  using sint_range32 [of x]
  by (auto simp: range_sext_def sint_scast_32_64 contains_iff [of a] is_empty_def is_constant_range_def
      sint_of_int32)

lemma trunc_sound: "contains a (sint (y :: i64)) \<Longrightarrow> contains (range_trunc a) (sint (ucast y :: i32))"
proof -
  assume c: "contains a (sint y)"
  have "(ucast y :: i32) = word_of_int (sint y)"
    by (metis ucast_of_int word_of_int_sint)
  then have "sint (ucast y :: i32) = sint y" if "INT32_MIN \<le> sint y" "sint y \<le> INT32_MAX"
    using that sint_of_int32 [of "sint y"] by metis
  then show ?thesis
    using c sint_range32 [of "ucast y"]
    by (auto simp: range_trunc_def contains_iff is_empty_def mk_range_def)
qed

lemma select_ok: "range_ok t \<Longrightarrow> range_ok e \<Longrightarrow> range_ok (range_select c t e)"
  by (auto simp: range_select_def union_ok)

lemma select_sound:
  assumes "contains c v" "contains t x" "contains e y"
  shows "contains (range_select c t e) (if v \<noteq> 0 then x else y)"
  using assms contains_not_empty [OF assms(1)] contains_not_empty [OF assms(2)]
    contains_not_empty [OF assms(3)] contains_union [of t _ e]
  by (auto simp: range_select_def is_constant_range_def contains_iff [of c])

section \<open>Properties\<close>

text \<open>
  C21.  The ranges form the lattice the analysis needs: \<open>contains\<close> gives each range its set of
  values, intersection is exact, union is an upper bound and the least one, and the subrange
  test, the emptiness test and the equality test decide inclusion, emptiness and equality of
  those sets.
\<close>

theorem range_lattice:
  "(contains (intersect_with r q) v \<longleftrightarrow> contains r v \<and> contains q v) \<and>
   is_subrange_of r (union_with r q) \<and> is_subrange_of q (union_with r q) \<and>
   (is_subrange_of (union_with r q) z \<longleftrightarrow> is_subrange_of r z \<and> is_subrange_of q z) \<and>
   (is_subrange_of r q \<longleftrightarrow> {u. contains r u} \<subseteq> {u. contains q u}) \<and>
   (is_empty r \<longleftrightarrow> {u. contains r u} = {}) \<and>
   (range_eq r q \<longleftrightarrow> {u. contains r u} = {u. contains q u})"
proof -
  have up: "is_subrange_of r (union_with r q)" "is_subrange_of q (union_with r q)"
    by (simp_all add: subrange_iff contains_union)
  then have "is_subrange_of (union_with r q) z \<longleftrightarrow> is_subrange_of r z \<and> is_subrange_of q z"
    using union_least [of r z q] subrange_iff [of r] subrange_iff [of q] subrange_iff [of "union_with r q"]
    by blast
  moreover have "is_subrange_of r q \<longleftrightarrow> {u. contains r u} \<subseteq> {u. contains q u}"
    unfolding subrange_iff by blast
  moreover have "is_empty r \<longleftrightarrow> {u. contains r u} = {}" unfolding is_empty_iff by blast
  moreover have "range_eq r q \<longleftrightarrow> {u. contains r u} = {u. contains q u}" unfolding range_eq_iff by blast
  ultimately show ?thesis using up contains_intersect by blast
qed

text \<open>
  The portable overflow helpers, compiled where no 128-bit type exists, agree with the
  128-bit ones on every pair of \<open>int64_t\<close> operands.
\<close>

theorem portable_helpers_agree:
  assumes "fits_int64 a" and "fits_int64 b"
  shows "add_overflows_portable a b = add_overflows a b \<and>
    sub_overflows_portable a b = sub_overflows a b \<and>
    mul_overflows_portable a b = mul_overflows a b"
  using assms by (simp add: add_overflows_portable_eq sub_overflows_portable_eq mul_overflows_portable_eq)

theorem portable_helpers_agree_witness:
  "fits_int64 INT64_MIN \<and> fits_int64 (- 1) \<and> mul_overflows_portable INT64_MIN (- 1) = None"
proof -
  have f: "fits_int64 INT64_MIN" "fits_int64 (- 1)" by (simp_all add: fits_int64_def)
  have "mul_overflows INT64_MIN (- 1) = None" by (simp add: mul_overflows_def)
  then show ?thesis using f portable_helpers_agree [OF f] by simp
qed

end
