(* ===== verification/Mir_Ir.thy ===== *)
theory Mir_Ir
  imports Mir_Types Int_Fold
begin

text \<open>
  The MIR data structures the passes read (\<open>include/brass/mir/instruction.hpp\<close>,
  \<open>include/brass/mir/block.hpp\<close>, \<open>src/mir/block.cpp\<close>, \<open>src/mir/function.cpp\<close>).  A \<open>Value*\<close> or
  \<open>BasicBlock*\<close> is the object's id, a null pointer \<open>None\<close>; the objects live in tables indexed
  by id.  The intrusive instruction list of a block is a list, its \<open>tail_\<close> the last element.
  Symbols, debug locations and memory attributes are not carried: no modelled code reads them.
\<close>

section \<open>Values and instructions\<close>

type_synonym vid = nat
type_synonym bid = nat

record BranchTarget =
  bt_block :: "bid option"
  bt_args :: "vid option list"

record Instruction =
  opcode :: Opcode
  inst_type :: TypeKind
  result :: "vid option"
  operands :: "vid option list"
  imm_i64 :: i64
  symbol :: string
  branch_target :: BranchTarget
  true_target :: BranchTarget
  false_target :: BranchTarget
  switch_cases :: "(i64 \<times> BranchTarget) list"
  state_map :: "vid option list"

definition operand :: "Instruction \<Rightarrow> nat \<Rightarrow> vid option" where
  "operand inst idx = (if idx < length (operands inst) then operands inst ! idx else None)"

definition imm_i32 :: "Instruction \<Rightarrow> i32" where
  "imm_i32 inst = ucast (imm_i64 inst)"

definition produces_value :: "Instruction \<Rightarrow> bool" where
  "produces_value inst \<longleftrightarrow> result inst \<noteq> None \<and> \<not> is_void (inst_type inst)"

datatype ValueKind = InstructionResult | BlockParam

text \<open>
  \<open>def_block\<close> is the block that holds the definition: the \<open>defining_block\<close> of a parameter, the
  \<open>parent\<close> of the defining instruction of a result.
\<close>

record Value =
  val_type :: TypeKind
  val_kind :: ValueKind
  def_inst :: "Instruction option"
  def_block :: "bid option"

type_synonym value_table = "vid \<Rightarrow> Value"

text \<open>\<open>v->is_instruction() ? v->defining_instruction() : nullptr\<close>, the lookup every pass makes.\<close>

definition def_of :: "value_table \<Rightarrow> vid \<Rightarrow> Instruction option" where
  "def_of vt v = (if val_kind (vt v) = InstructionResult then def_inst (vt v) else None)"

section \<open>Blocks and the control flow graph\<close>

record BasicBlock =
  params :: "vid list"
  insts :: "Instruction list"
  predecessors :: "bid list"

definition terminator :: "BasicBlock \<Rightarrow> Instruction option" where
  "terminator bb =
     (if insts bb \<noteq> [] \<and> is_terminator (opcode (last (insts bb))) then Some (last (insts bb)) else None)"

text \<open>\<open>SuccessorList\<close>: two elements inline, more on the heap.\<close>

record SuccessorList =
  sl_inline :: "bid list"
  sl_size :: nat
  sl_spill :: "bid list"

definition empty_succs :: SuccessorList where
  "empty_succs = \<lparr>sl_inline = [0, 0], sl_size = 0, sl_spill = []\<rparr>"

definition push_back :: "SuccessorList \<Rightarrow> bid \<Rightarrow> SuccessorList" where
  "push_back s bb =
     (let s' =
        (if sl_spill s \<noteq> [] then s\<lparr>sl_spill := sl_spill s @ [bb]\<rparr>
         else if sl_size s < 2 then s\<lparr>sl_inline := (sl_inline s)[sl_size s := bb]\<rparr>
         else s\<lparr>sl_spill := take (sl_size s) (sl_inline s) @ [bb]\<rparr>)
      in s'\<lparr>sl_size := sl_size s + 1\<rparr>)"

text \<open>\<open>begin()\<close> to \<open>end()\<close>.\<close>

definition elems :: "SuccessorList \<Rightarrow> bid list" where
  "elems s = take (sl_size s) (if sl_spill s = [] then sl_inline s else sl_spill s)"

definition push_opt :: "SuccessorList \<Rightarrow> bid option \<Rightarrow> SuccessorList" where
  "push_opt s b = (case b of None \<Rightarrow> s | Some bb \<Rightarrow> push_back s bb)"

definition push_new :: "SuccessorList \<Rightarrow> bid option \<Rightarrow> SuccessorList" where
  "push_new s b =
     (case b of None \<Rightarrow> s | Some bb \<Rightarrow> if bb \<in> set (elems s) then s else push_back s bb)"

definition successors :: "BasicBlock \<Rightarrow> SuccessorList" where
  "successors bb =
     (case terminator bb of
        None \<Rightarrow> empty_succs
      | Some tm \<Rightarrow>
          (if opcode tm = OpTerm Op_br then push_opt empty_succs (bt_block (branch_target tm))
           else if opcode tm = OpTerm Op_br_if then
             push_opt (push_opt empty_succs (bt_block (true_target tm))) (bt_block (false_target tm))
           else if opcode tm = OpTerm Op_switch then
             foldl (\<lambda>s (v, t). push_new s (bt_block t))
               (push_opt empty_succs (bt_block (branch_target tm))) (switch_cases tm)
           else if opcode tm = OpExn Op_invoke then
             push_new (push_opt empty_succs (bt_block (true_target tm))) (bt_block (false_target tm))
           else empty_succs))"

record Function =
  fn_blocks :: "bid list"
  fn_block :: "bid \<Rightarrow> BasicBlock"

definition entry_block :: "Function \<Rightarrow> bid option" where
  "entry_block fn = (case fn_blocks fn of [] \<Rightarrow> None | b # _ \<Rightarrow> Some b)"

definition update_block :: "bid \<Rightarrow> (BasicBlock \<Rightarrow> BasicBlock) \<Rightarrow> Function \<Rightarrow> Function" where
  "update_block b f fn = fn\<lparr>fn_block := (fn_block fn)(b := f (fn_block fn b))\<rparr>"

definition clear_predecessors :: "BasicBlock \<Rightarrow> BasicBlock" where
  "clear_predecessors bb = bb\<lparr>predecessors := []\<rparr>"

definition add_predecessor :: "bid \<Rightarrow> BasicBlock \<Rightarrow> BasicBlock" where
  "add_predecessor pred bb =
     (if pred \<in> set (predecessors bb) then bb else bb\<lparr>predecessors := predecessors bb @ [pred]\<rparr>)"

definition remove_predecessor :: "bid \<Rightarrow> BasicBlock \<Rightarrow> BasicBlock" where
  "remove_predecessor pred bb = bb\<lparr>predecessors := remove1 pred (predecessors bb)\<rparr>"

definition rebuild_cfg_predecessors :: "Function \<Rightarrow> Function" where
  "rebuild_cfg_predecessors fn =
     (let cleared = foldl (\<lambda>f b. update_block b clear_predecessors f) fn (fn_blocks fn)
      in foldl (\<lambda>f b. foldl (\<lambda>f s. update_block s (add_predecessor b) f) f
                        (elems (successors (fn_block f b))))
           cleared (fn_blocks fn))"

section \<open>The successor list is a list\<close>

text \<open>
  What the control flow code relies on of its container: pushing appends to the sequence it
  iterates over.
\<close>

locale sequence =
  fixes empty :: 's and push :: "'s \<Rightarrow> 'a \<Rightarrow> 's" and items :: "'s \<Rightarrow> 'a list" and inv :: "'s \<Rightarrow> bool"
  assumes inv_empty: "inv empty" and items_empty: "items empty = []"
    and inv_push: "inv s \<Longrightarrow> inv (push s x)"
    and items_push: "inv s \<Longrightarrow> items (push s x) = items s @ [x]"
begin

lemma push_fresh:
  assumes "inv s"
  shows "inv (if x \<in> set (items s) then s else push s x)"
    and "set (items (if x \<in> set (items s) then s else push s x)) = insert x (set (items s))"
  using assms by (auto simp: inv_push items_push)

lemma foldl_push: "inv s \<Longrightarrow> inv (foldl push s xs) \<and> items (foldl push s xs) = items s @ xs"
  by (induction xs arbitrary: s) (simp_all add: inv_push items_push)

end

definition succs_inv :: "SuccessorList \<Rightarrow> bool" where
  "succs_inv s \<longleftrightarrow> length (sl_inline s) = 2 \<and>
     (if sl_spill s = [] then sl_size s \<le> 2 else sl_size s = length (sl_spill s))"

interpretation succ_list: sequence empty_succs push_back elems succs_inv
proof
  fix s x
  assume inv: "succs_inv s"
  then obtain a b where ab: "sl_inline s = [a, b]"
    by (auto simp: succs_inv_def length_Suc_conv numeral_2_eq_2)
  show "succs_inv (push_back s x)"
    using inv by (auto simp: succs_inv_def push_back_def Let_def)
  consider "sl_spill s \<noteq> []" | "sl_spill s = []" "sl_size s = 0" | "sl_spill s = []" "sl_size s = 1"
    | "sl_spill s = []" "sl_size s = 2"
    using inv by (fastforce simp: succs_inv_def split: if_splits)
  then show "elems (push_back s x) = elems s @ [x]"
    using inv ab by cases (auto simp: succs_inv_def push_back_def Let_def elems_def)
qed (simp_all add: succs_inv_def empty_succs_def elems_def)

lemma push_opt_set:
  "succs_inv s \<Longrightarrow> succs_inv (push_opt s b) \<and> set (elems (push_opt s b)) = set (elems s) \<union> set_option b"
  using succ_list.foldl_push [of s "case b of None \<Rightarrow> [] | Some x \<Rightarrow> [x]"]
  by (cases b) (simp_all add: push_opt_def)

lemma push_new_set:
  "succs_inv s \<Longrightarrow> succs_inv (push_new s b) \<and> set (elems (push_new s b)) = set (elems s) \<union> set_option b"
  using succ_list.push_fresh [of s] by (cases b) (simp_all add: push_new_def)

lemma foldl_push_new_set:
  "succs_inv s \<Longrightarrow> set (elems (foldl (\<lambda>s (v, t). push_new s (bt_block t)) s cs)) =
    set (elems s) \<union> (\<Union>(v, t) \<in> set cs. set_option (bt_block t))"
proof (induction cs arbitrary: s)
  case (Cons c cs)
  obtain v t where c: "c = (v, t)" by force
  from push_new_set [OF Cons.prems, of "bt_block t"] Cons.IH [of "push_new s (bt_block t)"]
  show ?case by (auto simp: c)
qed simp

text \<open>The targets a terminator can transfer control to.\<close>

definition targets :: "Instruction \<Rightarrow> BranchTarget set" where
  "targets tm =
     (if opcode tm = OpTerm Op_br then {branch_target tm}
      else if opcode tm = OpTerm Op_br_if \<or> opcode tm = OpExn Op_invoke
        then {true_target tm, false_target tm}
      else if opcode tm = OpTerm Op_switch then insert (branch_target tm) (snd ` set (switch_cases tm))
      else {})"

lemma successors_set:
  "set (elems (successors bb)) =
    (case terminator bb of None \<Rightarrow> {} | Some tm \<Rightarrow> (\<Union>t \<in> targets tm. set_option (bt_block t)))"
proof (cases "terminator bb")
  case None
  then show ?thesis by (simp add: successors_def succ_list.items_empty)
next
  case (Some tm)
  note e = succ_list.inv_empty succ_list.items_empty
  have p: "succs_inv (push_opt empty_succs b) \<and> set (elems (push_opt empty_succs b)) = set_option b" for b
    using push_opt_set [OF e(1), of b] by (simp add: e)
  then show ?thesis
    using Some push_opt_set [of "push_opt empty_succs (bt_block (true_target tm))"]
      push_new_set [of "push_opt empty_succs (bt_block (true_target tm))"]
      foldl_push_new_set [of "push_opt empty_succs (bt_block (branch_target tm))" "switch_cases tm"]
    by (auto simp: successors_def targets_def e)
qed

section \<open>Rebuilding the predecessor lists\<close>

lemma terminator_preds [simp]: "terminator (bb\<lparr>predecessors := ps\<rparr>) = terminator bb"
  by (simp add: terminator_def)

lemma successors_preds [simp]: "successors (bb\<lparr>predecessors := ps\<rparr>) = successors bb"
  by (simp add: successors_def)

lemma successors_add [simp]: "successors (add_predecessor p bb) = successors bb"
  by (simp add: add_predecessor_def)

lemma update_block_simps [simp]:
  "fn_block (update_block b f fn) c = (if c = b then f (fn_block fn b) else fn_block fn c)"
  "fn_blocks (update_block b f fn) = fn_blocks fn"
  by (simp_all add: update_block_def)

lemma clear_all:
  "fn_block (foldl (\<lambda>f b. update_block b clear_predecessors f) fn bs) c =
    (if c \<in> set bs then clear_predecessors (fn_block fn c) else fn_block fn c)"
  by (induction bs arbitrary: fn) (auto simp: clear_predecessors_def)

lemma distinct_add [simp]:
  "distinct (predecessors bb) \<Longrightarrow> distinct (predecessors (add_predecessor p bb))"
  by (simp add: add_predecessor_def)

lemma add_preds_inner:
  defines "step \<equiv> \<lambda>p f s. update_block s (add_predecessor p) f"
  shows "set (predecessors (fn_block (foldl (step p) fn ss) c)) =
      set (predecessors (fn_block fn c)) \<union> (if c \<in> set ss then {p} else {})"
    and "distinct (predecessors (fn_block fn c)) \<Longrightarrow>
      distinct (predecessors (fn_block (foldl (step p) fn ss) c))"
    and "successors (fn_block (foldl (step p) fn ss) c) = successors (fn_block fn c)"
proof -
  show "set (predecessors (fn_block (foldl (step p) fn ss) c)) =
      set (predecessors (fn_block fn c)) \<union> (if c \<in> set ss then {p} else {})"
    by (induction ss arbitrary: fn) (auto simp: step_def add_predecessor_def)
  show "distinct (predecessors (fn_block fn c)) \<Longrightarrow>
      distinct (predecessors (fn_block (foldl (step p) fn ss) c))"
  proof (induction ss arbitrary: fn)
    case (Cons s ss)
    have "distinct (predecessors (fn_block (step p fn s) c))"
      using Cons.prems by (cases "c = s") (simp_all add: step_def)
    then show ?case using Cons.IH by simp
  qed simp
  show "successors (fn_block (foldl (step p) fn ss) c) = successors (fn_block fn c)"
    by (induction ss arbitrary: fn) (simp_all add: step_def)
qed

lemma add_preds_outer:
  defines "outer \<equiv> \<lambda>f b. foldl (\<lambda>f s. update_block s (add_predecessor b) f) f
    (elems (successors (fn_block f b)))"
  shows "set (predecessors (fn_block (foldl outer fn bs) c)) =
      set (predecessors (fn_block fn c)) \<union> {p \<in> set bs. c \<in> set (elems (successors (fn_block fn p)))}
    \<and> (distinct (predecessors (fn_block fn c)) \<longrightarrow> distinct (predecessors (fn_block (foldl outer fn bs) c)))
    \<and> successors (fn_block (foldl outer fn bs) c) = successors (fn_block fn c)"
proof (induction bs arbitrary: fn)
  case (Cons b bs)
  have inner: "set (predecessors (fn_block (outer fn b) c)) = set (predecessors (fn_block fn c)) \<union>
      (if c \<in> set (elems (successors (fn_block fn b))) then {b} else {})"
    "distinct (predecessors (fn_block fn c)) \<Longrightarrow> distinct (predecessors (fn_block (outer fn b) c))"
    "successors (fn_block (outer fn b) q) = successors (fn_block fn q)" for q
    unfolding outer_def by (simp_all add: add_preds_inner)
  show ?case using Cons.IH [of "outer fn b"] inner by auto
qed simp

text \<open>
  C24.  Rebuilding the predecessor lists makes them the inverse of the successor lists: after
  it, a block's predecessors are exactly the blocks whose terminator can branch to it, each
  once, and no block's terminator or successors changed.
\<close>

theorem rebuild_predecessors_correct:
  assumes "b \<in> set (fn_blocks fn)"
  shows "set (predecessors (fn_block (rebuild_cfg_predecessors fn) b)) =
      {p \<in> set (fn_blocks fn). \<exists>tm. terminator (fn_block fn p) = Some tm \<and>
        (\<exists>t \<in> targets tm. bt_block t = Some b)} \<and>
    distinct (predecessors (fn_block (rebuild_cfg_predecessors fn) b)) \<and>
    elems (successors (fn_block (rebuild_cfg_predecessors fn) c)) = elems (successors (fn_block fn c))"
proof -
  let ?cleared = "foldl (\<lambda>f b. update_block b clear_predecessors f) fn (fn_blocks fn)"
  have blk: "fn_block ?cleared d =
      (if d \<in> set (fn_blocks fn) then clear_predecessors (fn_block fn d) else fn_block fn d)" for d
    by (rule clear_all)
  have succ: "successors (fn_block ?cleared d) = successors (fn_block fn d)" for d
    by (simp add: blk clear_predecessors_def)
  have empty: "predecessors (fn_block ?cleared b) = []"
    using assms by (simp add: blk clear_predecessors_def)
  have tgt: "b \<in> set (elems (successors (fn_block fn p))) \<longleftrightarrow>
      (\<exists>tm. terminator (fn_block fn p) = Some tm \<and> (\<exists>t \<in> targets tm. bt_block t = Some b))" for p
    by (auto simp: successors_set split: option.splits)
  show ?thesis
    using add_preds_outer [of ?cleared "fn_blocks fn" b] add_preds_outer [of ?cleared "fn_blocks fn" c]
    by (simp add: rebuild_cfg_predecessors_def succ empty tgt)
qed

definition loop_example :: Function where
  "loop_example =
     (let none = \<lparr>bt_block = None, bt_args = []\<rparr>;
          br = (\<lambda>b. \<lparr>opcode = OpTerm Op_br, inst_type = Void, result = None, operands = [], imm_i64 = 0, symbol = [],
            branch_target = \<lparr>bt_block = Some b, bt_args = []\<rparr>, true_target = none, false_target = none,
            switch_cases = [], state_map = []\<rparr>)
      in \<lparr>fn_blocks = [0, 1],
          fn_block = (\<lambda>b. \<lparr>params = [], insts = [br 1], predecessors = [7]\<rparr>)\<rparr>)"

theorem rebuild_predecessors_correct_witness:
  "1 \<in> set (fn_blocks loop_example) \<and>
   set (predecessors (fn_block (rebuild_cfg_predecessors loop_example) 1)) = {0, 1}"
proof -
  have b: "1 \<in> set (fn_blocks loop_example)" by (simp add: loop_example_def Let_def)
  then show ?thesis
    using rebuild_predecessors_correct [OF b]
    by (auto simp: loop_example_def Let_def terminator_def targets_def is_terminator_def)
qed

end
