(* ===== verification/Mir_Typing.thy ===== *)
theory Mir_Typing
  imports Narrow_Int Mir_Ir
begin

text \<open>
  Type safety of the scalar instructions: the opcode rules of the MIR verifier
  (\<open>Verifier::verify_function\<close> in \<open>src/mir/verifier.cpp\<close>, \<open>verify_tagged_bitcast\<close> in
  \<open>src/mir/verifier_gc.cpp\<close>), the interpreter's frame (\<open>include/brass/interpreter/frame.hpp\<close>)
  and its step for those opcodes (\<open>Interpreter::execute\<close> in \<open>src/interpreter/interpreter.cpp\<close>,
  \<open>interp_narrow_step\<close>).  The theorems show that a step of an accepted instruction keeps every
  value of the frame of the kind its MIR type says, so that the roots a frame reports to the
  collector are the values of a reference type, and which accepted instructions break it.
\<close>

section \<open>The verifier's rules\<close>

definition op_type :: "value_table \<Rightarrow> Instruction \<Rightarrow> nat \<Rightarrow> TypeKind option" where
  "op_type vt inst i = map_option (\<lambda>v. val_type (vt v)) (operand inst i)"

definition report_if :: "bool \<Rightarrow> string \<Rightarrow> string list" where
  "report_if b msg = (if b then [msg] else [])"

definition check_const :: "ConstOp \<Rightarrow> Instruction \<Rightarrow> string list option" where
  "check_const c inst =
     (case c of
        Op_iconst_i32 \<Rightarrow> Some (report_if (inst_type inst \<noteq> I32)
          (''Result type must be i32, got '' @ type_name (inst_type inst) @ ''.''))
      | Op_iconst_i64 \<Rightarrow> Some (report_if (inst_type inst \<noteq> I64)
          (''Result type must be i64, got '' @ type_name (inst_type inst) @ ''.''))
      | _ \<Rightarrow> None)"

definition requires_one :: "value_table \<Rightarrow> Instruction \<Rightarrow> (TypeKind \<Rightarrow> bool) \<Rightarrow> string \<Rightarrow> string list" where
  "requires_one vt inst P msg =
     report_if (length (operands inst) \<noteq> 1 \<or> (case op_type vt inst 0 of None \<Rightarrow> True | Some t \<Rightarrow> \<not> P t)) msg"

definition result_must_be :: "Instruction \<Rightarrow> TypeKind \<Rightarrow> string list" where
  "result_must_be inst t = report_if (inst_type inst \<noteq> t) (''Result type must be '' @ type_name t @ ''.'')"

definition requires_type :: "value_table \<Rightarrow> Instruction \<Rightarrow> TypeKind \<Rightarrow> TypeKind \<Rightarrow> string list" where
  "requires_type vt inst from to =
     requires_one vt inst (\<lambda>t. t = from) (''Requires 1 '' @ type_name from @ '' operand.'') @ result_must_be inst to"

definition conversion_ok :: "ConvOp \<Rightarrow> TypeKind \<Rightarrow> TypeKind \<Rightarrow> bool" where
  "conversion_ok op in_t out_t =
     (case op of
        Op_fptosi_i32 \<Rightarrow> in_t = F64 \<and> out_t = I32
      | Op_fptosi_i64 \<Rightarrow> in_t = F64 \<and> out_t = I64
      | Op_fptosi_i32_f32 \<Rightarrow> in_t = F32 \<and> out_t = I32
      | Op_fptosi_i64_f32 \<Rightarrow> in_t = F32 \<and> out_t = I64
      | Op_sitofp_f64_i32 \<Rightarrow> in_t = I32 \<and> out_t = F64
      | Op_sitofp_f64_i64 \<Rightarrow> in_t = I64 \<and> out_t = F64
      | Op_sitofp_f32_i32 \<Rightarrow> in_t = I32 \<and> out_t = F32
      | Op_sitofp_f32_i64 \<Rightarrow> in_t = I64 \<and> out_t = F32
      | Op_fptrunc_f32_f64 \<Rightarrow> in_t = F64 \<and> out_t = F32
      | Op_fpext_f64_f32 \<Rightarrow> in_t = F32 \<and> out_t = F64
      | _ \<Rightarrow> False)"

definition check_fp_conversion :: "value_table \<Rightarrow> ConvOp \<Rightarrow> Instruction \<Rightarrow> string list" where
  "check_fp_conversion vt op inst =
     (case op_type vt inst 0 of
        None \<Rightarrow> [''Conversion requires 1 operand.'']
      | Some in_t \<Rightarrow>
          (if length (operands inst) \<noteq> 1 then [''Conversion requires 1 operand.'']
           else report_if (\<not> conversion_ok op in_t (inst_type inst)) ''Invalid operand or result type for conversion.''))"

definition check_conv :: "value_table \<Rightarrow> ConvOp \<Rightarrow> Instruction \<Rightarrow> string list" where
  "check_conv vt op inst =
     (case op of
        Op_sext_i64 \<Rightarrow> requires_one vt inst (\<lambda>t. t = I32) ''Requires 1 i32 operand.'' @ result_must_be inst I64
      | Op_zext_i64 \<Rightarrow> requires_one vt inst (\<lambda>t. t = I32 \<or> t = I8) ''Requires 1 i32 or i8 operand.'' @ result_must_be inst I64
      | Op_trunc_i32 \<Rightarrow> requires_one vt inst (\<lambda>t. t = I64) ''Requires 1 i64 operand.'' @ result_must_be inst I32
      | Op_trunc_i8 \<Rightarrow> requires_one vt inst is_integer ''Requires 1 integer operand.'' @ result_must_be inst I8
      | Op_bitcast_i64_f64 \<Rightarrow> requires_type vt inst F64 I64
      | Op_bitcast_f64_i64 \<Rightarrow> requires_type vt inst I64 F64
      | Op_bitcast_i32_f32 \<Rightarrow> requires_type vt inst F32 I32
      | Op_bitcast_f32_i32 \<Rightarrow> requires_type vt inst I32 F32
      | Op_bitcast_i64_tagged \<Rightarrow> requires_type vt inst Tagged I64
      | Op_bitcast_tagged_i64 \<Rightarrow> requires_type vt inst I64 Tagged
      | _ \<Rightarrow> check_fp_conversion vt op inst)"

text \<open>The rules on two operands, once both are there.\<close>

definition requires_two :: "value_table \<Rightarrow> Instruction \<Rightarrow> (TypeKind \<Rightarrow> TypeKind \<Rightarrow> string list) \<Rightarrow> string list" where
  "requires_two vt inst rule =
     (case (op_type vt inst 0, op_type vt inst 1) of
        (Some t0, Some t1) \<Rightarrow> (if length (operands inst) = 2 then rule t0 t1 else [''Requires 2 operands.''])
      | _ \<Rightarrow> [''Requires 2 operands.''])"

definition mismatch :: "string \<Rightarrow> TypeKind \<Rightarrow> TypeKind \<Rightarrow> string" where
  "mismatch what t0 t1 = what @ '' types mismatch: '' @ type_name t0 @ '' vs '' @ type_name t1 @ ''.''"

definition result_matches :: "Instruction \<Rightarrow> TypeKind \<Rightarrow> string list" where
  "result_matches inst t0 = report_if (inst_type inst \<noteq> t0)
     (''Result type ('' @ type_name (inst_type inst) @ '') must match operand type ('' @ type_name t0 @ '').'')"

definition add_sub_rule :: "Instruction \<Rightarrow> bool \<Rightarrow> TypeKind \<Rightarrow> TypeKind \<Rightarrow> string list" where
  "add_sub_rule inst is_sub t0 t1 =
     (if is_pointer_or_gcref t0 \<and> is_integer t1 then
        report_if (inst_type inst \<noteq> t0) ''Pointer arithmetic result type must match base pointer type.''
      else if is_sub \<and> is_pointer_or_gcref t0 \<and> t0 = t1 then
        report_if (inst_type inst \<noteq> I64) ''Pointer difference result type must be i64.''
      else if t0 \<noteq> t1 then [mismatch ''Operand'' t0 t1]
      else if \<not> is_numeric t0 then [''Operands must be numeric or pointer.'']
      else result_matches inst t0)"

definition mul_div_rule :: "Instruction \<Rightarrow> TypeKind \<Rightarrow> TypeKind \<Rightarrow> string list" where
  "mul_div_rule inst t0 t1 =
     (if t0 \<noteq> t1 then [mismatch ''Operand'' t0 t1]
      else if \<not> is_numeric t0 then [''Operands must be numeric.'']
      else result_matches inst t0)"

definition bitwise_rule :: "Instruction \<Rightarrow> TypeKind \<Rightarrow> TypeKind \<Rightarrow> string list" where
  "bitwise_rule inst t0 t1 =
     (if \<not> is_integer t0 \<or> \<not> is_integer t1 then [''Bitwise/shift operands must be integer.'']
      else report_if (inst_type inst \<noteq> t0) ''Result type must match first operand type.'')"

definition check_fma :: "value_table \<Rightarrow> Instruction \<Rightarrow> TypeKind \<Rightarrow> string \<Rightarrow> string list" where
  "check_fma vt inst t name =
     (if length (operands inst) \<noteq> 3 \<or> op_type vt inst 0 = None \<or> op_type vt inst 1 = None \<or> op_type vt inst 2 = None
      then [''Requires 3 operands.'']
      else report_if (op_type vt inst 0 \<noteq> Some t \<or> op_type vt inst 1 \<noteq> Some t \<or> op_type vt inst 2 \<noteq> Some t \<or>
             inst_type inst \<noteq> t) (name @ '' operands and result must be '' @ type_name t @ ''.''))"

definition check_float_unary :: "value_table \<Rightarrow> Instruction \<Rightarrow> TypeKind \<Rightarrow> string list" where
  "check_float_unary vt inst expected =
     report_if (length (operands inst) \<noteq> 1 \<or> op_type vt inst 0 \<noteq> Some expected \<or> inst_type inst \<noteq> expected)
       ''Unary float op requires 1 matching float operand and result.''"

definition check_float_binary :: "value_table \<Rightarrow> Instruction \<Rightarrow> TypeKind \<Rightarrow> string list" where
  "check_float_binary vt inst expected =
     report_if (length (operands inst) \<noteq> 2 \<or> op_type vt inst 0 \<noteq> Some expected \<or> op_type vt inst 1 \<noteq> Some expected \<or>
        inst_type inst \<noteq> expected)
       ''Binary float op requires 2 matching float operands and result.''"

definition check_unary :: "value_table \<Rightarrow> Instruction \<Rightarrow> (TypeKind \<Rightarrow> bool) \<Rightarrow> string \<Rightarrow> string list" where
  "check_unary vt inst P what =
     (case op_type vt inst 0 of
        None \<Rightarrow> [''Requires 1 operand.'']
      | Some t0 \<Rightarrow>
          (if length (operands inst) \<noteq> 1 then [''Requires 1 operand.'']
           else if \<not> P t0 then [''Operand must be '' @ what @ ''.'']
           else report_if (inst_type inst \<noteq> t0) ''Result type must match operand type.''))"

definition check_arith :: "value_table \<Rightarrow> ArithOp \<Rightarrow> Instruction \<Rightarrow> string list" where
  "check_arith vt f inst =
     (if f \<in> {Op_add, Op_sub} then requires_two vt inst (add_sub_rule inst (f = Op_sub))
      else if f \<in> {Op_mul, Op_sdiv, Op_udiv, Op_smod, Op_umod} then requires_two vt inst (mul_div_rule inst)
      else if f = Op_fma_f32 then check_fma vt inst F32 ''fma_f32''
      else if f = Op_fma_f64 then check_fma vt inst F64 ''fma_f64''
      else if f \<in> {Op_sqrt_f32, Op_floor_f32, Op_ceil_f32, Op_round_f32, Op_fabs_f32} then check_float_unary vt inst F32
      else if f \<in> {Op_sqrt_f64, Op_floor_f64, Op_ceil_f64, Op_round_f64, Op_fabs_f64} then check_float_unary vt inst F64
      else if f \<in> {Op_fmin_f32, Op_fmax_f32} then check_float_binary vt inst F32
      else if f \<in> {Op_fmin_f64, Op_fmax_f64} then check_float_binary vt inst F64
      else if f = Op_neg then check_unary vt inst is_numeric ''numeric''
      else if f \<in> {Op_and, Op_or, Op_xor, Op_shl, Op_lshr, Op_ashr} then requires_two vt inst (bitwise_rule inst)
      else check_unary vt inst is_integer ''integer'')"

definition check_cmp :: "value_table \<Rightarrow> Instruction \<Rightarrow> string list" where
  "check_cmp vt inst = requires_two vt inst (\<lambda>t0 t1.
     (if t0 \<noteq> t1 then [mismatch ''Comparison operand'' t0 t1]
      else report_if (is_void t0) ''Cannot compare void types.'') @
     report_if (inst_type inst \<noteq> I32) ''Comparison result type must be i32.'')"

definition check_ovf :: "value_table \<Rightarrow> Instruction \<Rightarrow> string list" where
  "check_ovf vt inst = requires_two vt inst (\<lambda>t0 t1.
     (if \<not> is_integer t0 \<or> \<not> is_integer t1 then [''Overflow arithmetic operands must be integer.'']
      else report_if (t0 \<noteq> t1) (mismatch ''Overflow arithmetic operand'' t0 t1)) @
     report_if (inst_type inst \<noteq> I32) ''Overflow arithmetic result type must be i32.'')"

definition check_select :: "value_table \<Rightarrow> Instruction \<Rightarrow> string list" where
  "check_select vt inst =
     (case (op_type vt inst 0, op_type vt inst 1, op_type vt inst 2) of
        (Some cond_t, Some t1, Some t2) \<Rightarrow>
          (if length (operands inst) \<noteq> 3 then [''Select requires 3 operands (cond, true_val, false_val).'']
           else report_if (cond_t \<noteq> I32) (''Select condition type must be i32, got '' @ type_name cond_t @ ''.'') @
             (if is_void t1 \<or> is_void t2 then [''Select operands cannot be void.'']
              else if t1 \<noteq> t2 then [mismatch ''Select value'' t1 t2]
              else report_if (inst_type inst \<noteq> t1)
                (''Select result type ('' @ type_name (inst_type inst) @ '') must match operand type ('' @ type_name t1 @ '').'')))
      | _ \<Rightarrow> [''Select requires 3 operands (cond, true_val, false_val).''])"

text \<open>The messages the verifier reports for an instruction; \<open>None\<close> outside the scalar opcodes.\<close>

definition check_scalar :: "value_table \<Rightarrow> Instruction \<Rightarrow> string list option" where
  "check_scalar vt inst =
     (case opcode inst of
        OpConst c \<Rightarrow> check_const c inst
      | OpConv c \<Rightarrow> Some (check_conv vt c inst)
      | OpArith f \<Rightarrow> Some (check_arith vt f inst)
      | OpCmp c \<Rightarrow> Some (check_cmp vt inst)
      | OpOvf v \<Rightarrow> Some (check_ovf vt inst)
      | OpSel s \<Rightarrow> Some (check_select vt inst)
      | _ \<Rightarrow> None)"


section \<open>The interpreter's frame\<close>

text \<open>
  \<open>values_\<close>, indexed by value number; a number past its end reads as void.  The new size is
  computed from \<open>id + 32\<close> in 32 bits.
\<close>

type_synonym interp_frame = "RuntimeValue list"

definition set_value :: "interp_frame \<Rightarrow> vid option \<Rightarrow> RuntimeValue \<Rightarrow> interp_frame" where
  "set_value fr v val =
     (case v of
        None \<Rightarrow> fr
      | Some n \<Rightarrow>
          (let sz = max ((n + 32) mod 2 ^ 32) (length fr * 2);
               fr = (if n \<ge> length fr then fr @ replicate (sz - length fr) void_value else fr)
           in fr[n := val]))"

definition get_value :: "interp_frame \<Rightarrow> vid option \<Rightarrow> RuntimeValue" where
  "get_value fr v =
     (case v of None \<Rightarrow> void_value | Some n \<Rightarrow> if n < length fr then fr ! n else void_value)"

definition is_gc_root_value :: "RuntimeValue \<Rightarrow> bool" where
  "is_gc_root_value v \<longleftrightarrow> kind v = RGCRef \<or> kind v = RTagged"

text \<open>The values of the frame that \<open>collect_roots\<close> hands to the collector, by number.\<close>

definition collect_roots :: "interp_frame \<Rightarrow> vid list" where
  "collect_roots fr = filter (\<lambda>i. is_gc_root_value (fr ! i) \<and> raw_bits (fr ! i) \<noteq> 0) [0..<length fr]"

section \<open>The interpreter's step\<close>

definition val_conv :: "fpu \<Rightarrow> fpu_math \<Rightarrow> ConvOp \<Rightarrow> TypeKind \<Rightarrow> RuntimeValue \<Rightarrow> RuntimeValue" where
  "val_conv fp fm op t v =
     (case op of
        Op_sext_i64 \<Rightarrow> val_sext_i64 v
      | Op_zext_i64 \<Rightarrow> (if t = I8 then from_u64 (ucast (as_u32 v AND 0xff)) else val_zext_i64 v)
      | Op_trunc_i32 \<Rightarrow> val_trunc_i32 v
      | Op_trunc_i8 \<Rightarrow> from_i32 (as_i32 v AND 0xff)
      | Op_fptosi_i32 \<Rightarrow> from_i32 (i32_of_f64 fm (as_f64 fp v))
      | Op_fptosi_i64 \<Rightarrow> from_i64 (i64_of_f64 fm (as_f64 fp v))
      | Op_fptosi_i32_f32 \<Rightarrow> from_i32 (i32_of_f32 fm (as_f32 fp v))
      | Op_fptosi_i64_f32 \<Rightarrow> from_i64 (i64_of_f32 fm (as_f32 fp v))
      | Op_sitofp_f64_i32 \<Rightarrow> from_f64 (f64_of_int fp (sint (as_i32 v)))
      | Op_sitofp_f64_i64 \<Rightarrow> from_f64 (f64_of_int fp (sint (as_i64 v)))
      | Op_sitofp_f32_i32 \<Rightarrow> from_f32 (f32_of_int fp (sint (as_i32 v)))
      | Op_sitofp_f32_i64 \<Rightarrow> from_f32 (f32_of_int fp (sint (as_i64 v)))
      | Op_fptrunc_f32_f64 \<Rightarrow> from_f32 (f32_of_f64 fp (as_f64 fp v))
      | Op_fpext_f64_f32 \<Rightarrow> from_f64 (f64_of_f32 fp (as_f32 fp v))
      | Op_bitcast_i64_f64 \<Rightarrow> from_i64 (raw_bits v)
      | Op_bitcast_f64_i64 \<Rightarrow> from_f64 (raw_bits v)
      | Op_bitcast_i32_f32 \<Rightarrow> value_from_bits I32 (raw_bits v AND 0xFFFFFFFF)
      | Op_bitcast_f32_i32 \<Rightarrow> value_from_bits F32 (raw_bits v AND 0xFFFFFFFF)
      | Op_bitcast_i64_tagged \<Rightarrow> from_i64 (raw_bits v)
      | Op_bitcast_tagged_i64 \<Rightarrow> from_tagged (raw_bits v))"

definition to_f32 :: "fpu \<Rightarrow> RuntimeValue \<Rightarrow> u32" where
  "to_f32 fp v = (if is_f32 v then as_f32 fp v else f32_of_f64 fp (as_f64 fp v))"

definition val_math :: "fpu \<Rightarrow> fpu_math \<Rightarrow> ArithOp \<Rightarrow> RuntimeValue \<Rightarrow> RuntimeValue \<Rightarrow> RuntimeValue \<Rightarrow> RuntimeValue option" where
  "val_math fp fm f a b c =
     (let f64 = (\<lambda>name vs. Some (from_f64 (std_f64 fm name (map (as_f64 fp) vs))));
          f32 = (\<lambda>name vs. Some (from_f32 (std_f32 fm name (map (as_f32 fp) vs))))
      in case f of
           Op_fma_f32 \<Rightarrow> Some (from_f32 (std_f32 fm ''fma'' (map (to_f32 fp) [a, b, c])))
         | Op_fma_f64 \<Rightarrow> f64 ''fma'' [a, b, c]
         | Op_sqrt_f32 \<Rightarrow> f32 ''sqrt'' [a]
         | Op_sqrt_f64 \<Rightarrow> f64 ''sqrt'' [a]
         | Op_floor_f32 \<Rightarrow> f32 ''floor'' [a]
         | Op_floor_f64 \<Rightarrow> f64 ''floor'' [a]
         | Op_ceil_f32 \<Rightarrow> f32 ''ceil'' [a]
         | Op_ceil_f64 \<Rightarrow> f64 ''ceil'' [a]
         | Op_round_f32 \<Rightarrow> f32 ''round'' [a]
         | Op_round_f64 \<Rightarrow> f64 ''round'' [a]
         | Op_fabs_f32 \<Rightarrow> f32 ''fabs'' [a]
         | Op_fabs_f64 \<Rightarrow> f64 ''fabs'' [a]
         | Op_fmin_f32 \<Rightarrow> f32 ''fmin'' [a, b]
         | Op_fmin_f64 \<Rightarrow> f64 ''fmin'' [a, b]
         | Op_fmax_f32 \<Rightarrow> f32 ''fmax'' [a, b]
         | Op_fmax_f64 \<Rightarrow> f64 ''fmax'' [a, b]
         | _ \<Rightarrow> None)"

definition interp_narrow_step :: "value_table \<Rightarrow> Instruction \<Rightarrow> interp_frame \<Rightarrow> interp_result option" where
  "interp_narrow_step vt inst fr =
     (let n = length (operands inst) in
      case (op_type vt inst 0, result inst) of
        (Some t, Some _) \<Rightarrow>
          (if n = 0 \<or> n > 2 \<or> narrow_int_bits t = 0 then None
           else eval_narrow_int (opcode inst) (narrow_int_bits t)
             (take n [get_value fr (operand inst 0), get_value fr (operand inst 1)]))
      | _ \<Rightarrow> None)"

text \<open>The result of the opcode's case in the dispatch; \<open>None\<close> outside the scalar opcodes.\<close>

definition scalar_value :: "fpu \<Rightarrow> fpu_math \<Rightarrow> (int \<Rightarrow> int \<Rightarrow> bool) \<Rightarrow> value_table \<Rightarrow> Instruction \<Rightarrow> interp_frame \<Rightarrow> interp_result option" where
  "scalar_value fp fm mul_ovf vt inst fr =
     (let a = get_value fr (operand inst 0);
          b = get_value fr (operand inst 1);
          c = get_value fr (operand inst 2)
      in case opcode inst of
           OpConst k \<Rightarrow>
             (case k of
                Op_iconst_i32 \<Rightarrow> Some (Inr (from_i32 (imm_i32 inst)))
              | Op_iconst_i64 \<Rightarrow> Some (Inr (from_i64 (imm_i64 inst)))
              | _ \<Rightarrow> None)
         | OpConv k \<Rightarrow> map_option (\<lambda>t. Inr (val_conv fp fm k t a)) (op_type vt inst 0)
         | OpArith f \<Rightarrow>
             (case interp_arith fp f a b of
                Some r \<Rightarrow> Some r
              | None \<Rightarrow> (case interp_unary fp f a of
                    Some v \<Rightarrow> Some (Inr v)
                  | None \<Rightarrow> map_option Inr (val_math fp fm f a b c)))
         | OpCmp k \<Rightarrow> Some (Inr (interp_cmp fp k a b))
         | OpOvf v \<Rightarrow> Some (Inr (interp_ovf mul_ovf v a b))
         | OpSel _ \<Rightarrow>
             (let cond = (if is_i32 a then as_i32 a else if as_i64 a \<noteq> 0 then 1 else 0)
              in Some (Inr (if cond \<noteq> 0 then b else c)))
         | _ \<Rightarrow> None)"

definition interp_step :: "fpu \<Rightarrow> fpu_math \<Rightarrow> (int \<Rightarrow> int \<Rightarrow> bool) \<Rightarrow> value_table \<Rightarrow> Instruction \<Rightarrow> interp_frame \<Rightarrow> (interp_error + interp_frame) option" where
  "interp_step fp fm mul_ovf vt inst fr =
     map_option (\<lambda>r. case r of Inl e \<Rightarrow> Inl e | Inr v \<Rightarrow> Inr (set_value fr (result inst) v))
       (case interp_narrow_step vt inst fr of
          Some r \<Rightarrow> Some r
        | None \<Rightarrow> scalar_value fp fm mul_ovf vt inst fr)"


section \<open>Kinds of results\<close>

lemma get_set_value:
  assumes "n < 2 ^ 32 - 32"
  shows "get_value (set_value fr (Some n) v) (Some m) = (if m = n then v else get_value fr (Some m))"
proof -
  have "(n + 32) mod 2 ^ 32 = n + 32" using assms by simp
  then show ?thesis
    by (auto simp: get_value_def set_value_def Let_def nth_append)
qed

lemma kind_simps [simp]:
  "kind (from_f32 w) = RF32" "kind (from_f64 d) = RF64" "kind (from_ptr d) = RPtr" "kind (from_gcref d) = RGCRef"
  "kind (from_tagged d) = RTagged" "kind void_value = RVoid" "kind (flag b) = RI32"
  by (simp_all add: from_f32_def from_f64_def from_ptr_def from_gcref_def from_tagged_def void_value_def flag_def)


lemma kind_value_from_bits [simp]: "kind (value_from_bits t bits) = kind_of_type t"
  by (simp add: value_from_bits_def Let_def)

lemmas kind_defs = val_sext_i64_def val_zext_i64_def val_trunc_i32_def

lemmas val_defs = val_add_def val_sub_def val_mul_def val_sdiv_def val_udiv_def val_smod_def val_umod_def val_and_def
  val_or_def val_xor_def val_shl_def val_lshr_def val_ashr_def val_neg_def val_not_def val_clz_def val_ctz_def
  val_popcnt_def ptr_result_def to_i64_value_def c_int64_def

lemmas type_defs = is_integer_def is_float_def is_numeric_def is_pointer_def is_gcref_def is_pointer_or_gcref_def

lemma report_if_Nil [simp]: "report_if b msg = [] \<longleftrightarrow> \<not> b"
  by (simp add: report_if_def)

lemma requires_oneD: "requires_one vt inst P msg = [] \<Longrightarrow> \<exists>t. op_type vt inst 0 = Some t \<and> P t"
  by (auto simp: requires_one_def split: option.splits)

lemma requires_twoD:
  "requires_two vt inst rule = [] \<Longrightarrow>
     \<exists>t0 t1. op_type vt inst 0 = Some t0 \<and> op_type vt inst 1 = Some t1 \<and> length (operands inst) = 2 \<and> rule t0 t1 = []"
  by (auto simp: requires_two_def split: option.splits if_splits)

lemma check_unaryD:
  "check_unary vt inst P what = [] \<Longrightarrow> \<exists>t. op_type vt inst 0 = Some t \<and> P t \<and> inst_type inst = t \<and> length (operands inst) = 1"
  by (auto simp: check_unary_def split: option.splits if_splits)

text \<open>
  The accepted instructions whose result the interpreter holds as another kind: the difference
  of two pointers, and an unsigned division or remainder of floating-point operands.
\<close>

definition mistyped :: "value_table \<Rightarrow> Instruction \<Rightarrow> bool" where
  "mistyped vt inst \<longleftrightarrow>
     (case (opcode inst, op_type vt inst 0, op_type vt inst 1) of
        (OpArith f, Some t0, Some t1) \<Rightarrow>
          f = Op_sub \<and> is_pointer_or_gcref t0 \<and> t0 = t1 \<or> f \<in> {Op_udiv, Op_umod} \<and> is_float t0
      | _ \<Rightarrow> False)"

definition narrow_operand :: "value_table \<Rightarrow> Instruction \<Rightarrow> bool" where
  "narrow_operand vt inst \<longleftrightarrow> (\<exists>t. op_type vt inst 0 = Some t \<and> narrow_int_bits t \<noteq> 0)"

lemma conv_kind:
  assumes "check_conv vt op inst = []"
  obtains t where "op_type vt inst 0 = Some t" "kind (val_conv fp fm op t v) = kind_of_type (inst_type inst)"
  using assms that
  by (cases op) (auto simp: check_conv_def requires_type_def result_must_be_def check_fp_conversion_def conversion_ok_def
      val_conv_def kind_defs split: option.splits if_splits dest!: requires_oneD)


lemma cmp_kind: "kind (interp_cmp fp c a b) = RI32"
  by (cases c) (simp_all add: interp_cmp_def val_eq_def val_ne_def val_slt_def val_sle_def val_sgt_def val_sge_def
      val_ult_def val_ule_def val_ugt_def val_uge_def)

lemma ovf_kind: "kind (interp_ovf m w a b) = RI32"
  by (cases w) (simp_all add: interp_ovf_def val_sadd_overflow_def val_ssub_overflow_def val_smul_overflow_def
      val_uadd_overflow_def val_usub_overflow_def val_umul_overflow_def Let_def)

text \<open>The value level of the arithmetic opcodes, on operands of the accepted types.\<close>

definition arith_value :: "fpu \<Rightarrow> fpu_math \<Rightarrow> ArithOp \<Rightarrow> RuntimeValue \<Rightarrow> RuntimeValue \<Rightarrow> RuntimeValue \<Rightarrow> interp_result option" where
  "arith_value fp fm f a b c =
     (case interp_arith fp f a b of
        Some r \<Rightarrow> Some r
      | None \<Rightarrow> (case interp_unary fp f a of Some v \<Rightarrow> Some (Inr v) | None \<Rightarrow> map_option Inr (val_math fp fm f a b c)))"

definition good :: "TypeKind \<Rightarrow> interp_result option \<Rightarrow> bool" where
  "good t r \<longleftrightarrow> (\<exists>x. r = Some x \<and> (\<forall>v. x = Inr v \<longrightarrow> kind v = kind_of_type t))"

lemma good_simps [simp]: "good t (Some (Inr v)) \<longleftrightarrow> kind v = kind_of_type t" "good t (Some (Inl e))" "\<not> good t None"
  by (auto simp: good_def)

lemma good_if [simp]: "good t (if c then x else y) \<longleftrightarrow> (if c then good t x else good t y)"
  by simp

lemma add_sub_kind:
  assumes "add_sub_rule inst (f = Op_sub) t0 t1 = []" "f \<in> {Op_add, Op_sub}" "narrow_int_bits t0 = 0"
    and "\<not> (f = Op_sub \<and> is_pointer_or_gcref t0 \<and> t0 = t1)"
    and "kind a = kind_of_type t0" "kind b = kind_of_type t1"
  shows "good (inst_type inst) (interp_arith fp f a b)"
  using assms
  by (cases t0; cases t1) (auto simp: add_sub_rule_def type_defs result_matches_def interp_arith_def val_defs
      narrow_int_bits_def good_def split: if_splits sum.splits)

lemma mul_div_kind:
  assumes "mul_div_rule inst t0 t1 = []" "f \<in> {Op_mul, Op_sdiv, Op_udiv, Op_smod, Op_umod}" "narrow_int_bits t0 = 0"
    and "\<not> (f \<in> {Op_udiv, Op_umod} \<and> is_float t0)"
    and "kind a = kind_of_type t0" "kind b = kind_of_type t1"
  shows "good (inst_type inst) (interp_arith fp f a b)"
  using assms
  by (cases t0) (auto simp: mul_div_rule_def type_defs result_matches_def interp_arith_def val_defs Let_def
      narrow_int_bits_def good_def split: if_splits sum.splits)

lemma bitwise_kind:
  assumes "bitwise_rule inst t0 t1 = []" "f \<in> {Op_and, Op_or, Op_xor, Op_shl, Op_lshr, Op_ashr}"
    and "narrow_int_bits t0 = 0" "kind a = kind_of_type t0"
  shows "good (inst_type inst) (interp_arith fp f a b)"
  using assms
  by (auto simp: bitwise_rule_def is_integer_def interp_arith_def val_defs narrow_int_bits_def split: if_splits)

lemma unary_kind:
  assumes "is_numeric t" "f \<noteq> Op_neg \<longrightarrow> is_integer t" "f \<in> {Op_neg, Op_not, Op_clz, Op_ctz, Op_popcnt}"
    and "narrow_int_bits t = 0" "kind a = kind_of_type t"
  shows "interp_arith fp f a b = None" "\<exists>v. interp_unary fp f a = Some v \<and> kind v = kind_of_type t"
  using assms
  by (auto simp: type_defs interp_arith_def interp_unary_def val_defs narrow_int_bits_def split: if_splits)


lemma arith_kind:
  assumes chk: "check_arith vt f inst = []" and op: "opcode inst = OpArith f" and ok: "\<not> mistyped vt inst"
    and wide: "\<not> narrow_operand vt inst"
    and ka: "\<And>t. op_type vt inst 0 = Some t \<Longrightarrow> kind a = kind_of_type t"
    and kb: "\<And>t. op_type vt inst 1 = Some t \<Longrightarrow> kind b = kind_of_type t"
  shows "good (inst_type inst) (arith_value fp fm f a b c)"
proof -
  have nb: "narrow_int_bits t = 0" if "op_type vt inst 0 = Some t" for t
    using wide that by (auto simp: narrow_operand_def)
  consider (addsub) "f \<in> {Op_add, Op_sub}" | (muldiv) "f \<in> {Op_mul, Op_sdiv, Op_udiv, Op_smod, Op_umod}"
    | (bitw) "f \<in> {Op_and, Op_or, Op_xor, Op_shl, Op_lshr, Op_ashr}" | (un) "f \<in> {Op_neg, Op_not, Op_clz, Op_ctz, Op_popcnt}"
    | (math) "f \<in> {Op_fma_f32, Op_fma_f64, Op_sqrt_f32, Op_sqrt_f64, Op_floor_f32, Op_floor_f64, Op_ceil_f32, Op_ceil_f64,
        Op_round_f32, Op_round_f64, Op_fabs_f32, Op_fabs_f64, Op_fmin_f32, Op_fmin_f64, Op_fmax_f32, Op_fmax_f64}"
    by (cases f) auto
  then show ?thesis
  proof cases
    case addsub
    then obtain t0 t1 where t: "op_type vt inst 0 = Some t0" "op_type vt inst 1 = Some t1"
        "add_sub_rule inst (f = Op_sub) t0 t1 = []"
      using chk requires_twoD by (fastforce simp: check_arith_def)
    have "good (inst_type inst) (interp_arith fp f a b)"
      using ok op t by (intro add_sub_kind [OF t(3) addsub nb [OF t(1)] _ ka [OF t(1)] kb [OF t(2)]]) (auto simp: mistyped_def)
    then show ?thesis by (auto simp: arith_value_def good_def)
  next
    case muldiv
    then obtain t0 t1 where t: "op_type vt inst 0 = Some t0" "op_type vt inst 1 = Some t1" "mul_div_rule inst t0 t1 = []"
      using chk requires_twoD by (fastforce simp: check_arith_def)
    have "good (inst_type inst) (interp_arith fp f a b)"
      using ok op t by (intro mul_div_kind [OF t(3) muldiv nb [OF t(1)] _ ka [OF t(1)] kb [OF t(2)]]) (auto simp: mistyped_def)
    then show ?thesis by (auto simp: arith_value_def good_def)
  next
    case bitw
    then obtain t0 t1 where t: "op_type vt inst 0 = Some t0" "op_type vt inst 1 = Some t1" "bitwise_rule inst t0 t1 = []"
      using chk requires_twoD by (fastforce simp: check_arith_def)
    have "good (inst_type inst) (interp_arith fp f a b)"
      by (rule bitwise_kind [OF t(3) bitw nb [OF t(1)] ka [OF t(1)]])
    then show ?thesis by (auto simp: arith_value_def good_def)
  next
    case un
    then obtain t where t: "op_type vt inst 0 = Some t" "is_numeric t" "f \<noteq> Op_neg \<longrightarrow> is_integer t" "inst_type inst = t"
      using chk by (auto simp: check_arith_def is_numeric_def dest!: check_unaryD)
    obtain v where "interp_unary fp f a = Some v" "kind v = kind_of_type t"
      using unary_kind(2) [OF t(2,3) un nb [OF t(1)] ka [OF t(1)], of fp] by blast
    then show ?thesis
      using unary_kind(1) [OF t(2,3) un nb [OF t(1)] ka [OF t(1)], of fp b] t(4) by (simp add: arith_value_def)
  next
    case math
    then have "inst_type inst = F32 \<or> inst_type inst = F64" and "interp_arith fp f a b = None" "interp_unary fp f a = None"
      using chk by (auto simp: check_arith_def check_fma_def check_float_unary_def check_float_binary_def
          interp_arith_def interp_unary_def split: if_splits)
    then show ?thesis
      using chk math by (auto simp: arith_value_def val_math_def Let_def check_arith_def check_fma_def
          check_float_unary_def check_float_binary_def split: if_splits)
  qed
qed

text \<open>The narrow step: integer opcodes give an \<open>i32\<close> value, everything else is left to the dispatch.\<close>

lemmas narrow_defs = narrow_value_def narrow_flag_def narrow_div_error_def Let_def

lemma narrow_arith_kind: "narrow_arith f bits a b sa sb = Some (Inr v) \<Longrightarrow> kind v = RI32"
  by (cases f) (auto simp: narrow_arith_def narrow_defs simp del: popcnt_loop.simps clz_loop.simps ctz_loop.simps split: if_splits)

lemma narrow_kind: "eval_narrow_int op bits vs = Some (Inr v) \<Longrightarrow> kind v = RI32"
proof (cases op)
  case (OpCmp c)
  then show "eval_narrow_int op bits vs = Some (Inr v) \<Longrightarrow> kind v = RI32"
    by (cases c) (auto simp: eval_narrow_int_def narrow_cmp_def narrow_defs split: if_splits)
next
  case (OpOvf w)
  then show "eval_narrow_int op bits vs = Some (Inr v) \<Longrightarrow> kind v = RI32"
    by (cases w) (auto simp: eval_narrow_int_def narrow_ovf_def narrow_defs split: if_splits)
qed (auto simp: eval_narrow_int_def Let_def dest: narrow_arith_kind split: if_splits)

lemma narrow_bits_cases: "narrow_int_bits t \<noteq> 0 \<Longrightarrow> (t = I8 \<or> t = I16) \<and> (narrow_int_bits t = 8 \<or> narrow_int_bits t = 16)"
  by (auto simp: narrow_int_bits_def split: if_splits)

lemma narrow_total:
  assumes "bits = 8 \<or> bits = 16"
    and "op = OpArith f \<and> f \<in> {Op_add, Op_sub, Op_mul, Op_sdiv, Op_udiv, Op_smod, Op_umod, Op_and, Op_or, Op_xor, Op_shl,
      Op_lshr, Op_ashr, Op_neg, Op_not, Op_clz, Op_ctz, Op_popcnt} \<or> op = OpCmp c \<or> op = OpOvf w"
  shows "eval_narrow_int op bits vs \<noteq> None"
  using assms
  by (auto simp: eval_narrow_int_def narrow_arith_def narrow_cmp_def narrow_ovf_def narrow_defs
      simp del: popcnt_loop.simps clz_loop.simps ctz_loop.simps split: CmpOp.splits OvfOp.splits)


lemma narrow_arith_checked:
  assumes "check_arith vt f inst = []" "narrow_operand vt inst"
  shows "f \<in> {Op_add, Op_sub, Op_mul, Op_sdiv, Op_udiv, Op_smod, Op_umod, Op_and, Op_or, Op_xor, Op_shl,
      Op_lshr, Op_ashr, Op_neg, Op_not, Op_clz, Op_ctz, Op_popcnt}"
    "op_type vt inst 0 = Some (inst_type inst)" "length (operands inst) \<in> {1, 2}"
  using assms
  by (cases f; auto simp: check_arith_def narrow_operand_def narrow_int_bits_def check_fma_def check_float_unary_def
      check_float_binary_def add_sub_rule_def mul_div_rule_def bitwise_rule_def result_matches_def type_defs
      dest!: requires_twoD check_unaryD split: if_splits)+


text \<open>A value table by its types, and an instruction on values 0 and 1 with result 2.\<close>

definition table_of :: "TypeKind list \<Rightarrow> value_table" where
  "table_of ts v = \<lparr>val_type = (if v < length ts then ts ! v else Void), val_kind = BlockParam, def_inst = None, def_block = None\<rparr>"

definition binary_inst :: "ArithOp \<Rightarrow> TypeKind \<Rightarrow> Instruction" where
  "binary_inst f t =
     (let none = \<lparr>bt_block = None, bt_args = []\<rparr>
      in \<lparr>opcode = OpArith f, inst_type = t, result = Some 2, operands = [Some 0, Some 1], imm_i64 = 0, symbol = [],
          branch_target = none, true_target = none, false_target = none, switch_cases = [], state_map = []\<rparr>)"

section \<open>Type preservation\<close>

text \<open>Every value of \<open>live\<close> is held in the frame as the kind its type says.\<close>

definition frame_typed :: "value_table \<Rightarrow> vid set \<Rightarrow> interp_frame \<Rightarrow> bool" where
  "frame_typed vt live fr \<longleftrightarrow> (\<forall>v\<in>live. kind (get_value fr (Some v)) = kind_of_type (val_type (vt v)))"

definition operands_in :: "vid set \<Rightarrow> Instruction \<Rightarrow> bool" where
  "operands_in live inst \<longleftrightarrow> (\<forall>v. Some v \<in> set (operands inst) \<longrightarrow> v \<in> live)"

lemma operand_kind:
  assumes "frame_typed vt live fr" "operands_in live inst" "op_type vt inst i = Some t"
  shows "kind (get_value fr (operand inst i)) = kind_of_type t"
  using assms by (auto simp: op_type_def operand_def frame_typed_def operands_in_def split: if_splits dest: nth_mem)

definition step_value :: "fpu \<Rightarrow> fpu_math \<Rightarrow> (int \<Rightarrow> int \<Rightarrow> bool) \<Rightarrow> value_table \<Rightarrow> Instruction \<Rightarrow> interp_frame \<Rightarrow> interp_result option" where
  "step_value fp fm m vt inst fr =
     (case interp_narrow_step vt inst fr of Some r \<Rightarrow> Some r | None \<Rightarrow> scalar_value fp fm m vt inst fr)"

lemma narrow_step_wide: "\<not> narrow_operand vt inst \<Longrightarrow> interp_narrow_step vt inst fr = None"
  by (auto simp: narrow_operand_def interp_narrow_step_def Let_def split: option.splits)

lemma narrow_step_other:
  "opcode inst = OpConst k \<Longrightarrow> interp_narrow_step vt inst fr = None"
  "opcode inst = OpConv v \<Longrightarrow> interp_narrow_step vt inst fr = None"
  "opcode inst = OpSel x \<Longrightarrow> interp_narrow_step vt inst fr = None"
  by (auto simp: interp_narrow_step_def eval_narrow_int_def Let_def split: option.splits)

lemma narrow_step_good:
  assumes "narrow_operand vt inst" "result inst = Some r" "length (operands inst) \<in> {1, 2}"
    and "opcode inst = OpArith f \<and> f \<in> {Op_add, Op_sub, Op_mul, Op_sdiv, Op_udiv, Op_smod, Op_umod, Op_and, Op_or, Op_xor, Op_shl,
      Op_lshr, Op_ashr, Op_neg, Op_not, Op_clz, Op_ctz, Op_popcnt} \<or> opcode inst = OpCmp c \<or> opcode inst = OpOvf w"
    and "kind_of_type (inst_type inst) = RI32"
  shows "good (inst_type inst) (step_value fp fm m vt inst fr)"
proof -
  obtain t where t: "op_type vt inst 0 = Some t" "narrow_int_bits t \<noteq> 0" using assms(1) by (auto simp: narrow_operand_def)
  let ?vs = "take (length (operands inst)) [get_value fr (operand inst 0), get_value fr (operand inst 1)]"
  have "interp_narrow_step vt inst fr = eval_narrow_int (opcode inst) (narrow_int_bits t) ?vs"
    using t assms(2,3) by (auto simp: interp_narrow_step_def)
  moreover have "eval_narrow_int (opcode inst) (narrow_int_bits t) ?vs \<noteq> None"
    using narrow_bits_cases [OF t(2)] by (intro narrow_total [OF _ assms(4)]) blast
  ultimately show ?thesis using assms(5) narrow_kind by (auto simp: good_def step_value_def)
qed

lemma step_good:
  assumes chk: "check_scalar vt inst = Some []" and ok: "\<not> mistyped vt inst" and r: "result inst = Some r"
    and ty: "frame_typed vt live fr" "operands_in live inst"
  shows "good (inst_type inst) (step_value fp fm m vt inst fr)"
proof (cases "opcode inst")
  case (OpConst c)
  then show ?thesis
    using chk narrow_step_other [of inst _ vt fr]
    by (cases c) (auto simp: check_scalar_def check_const_def step_value_def scalar_value_def Let_def)
next
  case (OpConv c)
  then have "check_conv vt c inst = []" using chk by (simp add: check_scalar_def)
  then obtain t where "op_type vt inst 0 = Some t"
      "kind (val_conv fp fm c t (get_value fr (operand inst 0))) = kind_of_type (inst_type inst)"
    by (rule conv_kind)
  then show ?thesis
    by (simp add: step_value_def scalar_value_def Let_def narrow_step_other(2) [OF OpConv] OpConv)
next
  case (OpArith f)
  then have chk': "check_arith vt f inst = []" using chk by (simp add: check_scalar_def)
  show ?thesis
  proof (cases "narrow_operand vt inst")
    case True
    note n = narrow_arith_checked [OF chk' True]
    have "kind_of_type (inst_type inst) = RI32"
      using narrow_bits_cases [of "inst_type inst"] True n(2) by (auto simp: narrow_operand_def)
    then show ?thesis using narrow_step_good [OF True r n(3)] OpArith n(1) by blast
  next
    case False
    have "step_value fp fm m vt inst fr = arith_value fp fm f (get_value fr (operand inst 0)) (get_value fr (operand inst 1))
        (get_value fr (operand inst 2))"
      using narrow_step_wide [OF False] OpArith by (simp add: step_value_def scalar_value_def arith_value_def Let_def)
    then show ?thesis
      using arith_kind [OF chk' OpArith ok False operand_kind [OF ty] operand_kind [OF ty]] by simp
  qed
next
  case (OpCmp c)
  then have "inst_type inst = I32" "length (operands inst) \<in> {1, 2}"
    using chk by (auto simp: check_scalar_def check_cmp_def dest!: requires_twoD)
  then show ?thesis
    using OpCmp narrow_step_good [OF _ r] narrow_step_wide [of vt inst fr] cmp_kind
    by (cases "narrow_operand vt inst") (auto simp: step_value_def scalar_value_def Let_def)
next
  case (OpOvf w)
  then have "inst_type inst = I32" "length (operands inst) \<in> {1, 2}"
    using chk by (auto simp: check_scalar_def check_ovf_def dest!: requires_twoD)
  then show ?thesis
    using OpOvf narrow_step_good [OF _ r] narrow_step_wide [of vt inst fr] ovf_kind
    by (cases "narrow_operand vt inst") (auto simp: step_value_def scalar_value_def Let_def)
next
  case (OpSel x)
  then obtain t1 where "op_type vt inst 1 = Some t1" "op_type vt inst 2 = Some t1" "inst_type inst = t1"
    using chk by (auto simp: check_scalar_def check_select_def split: option.splits if_splits)
  then show ?thesis
    using OpSel narrow_step_other [of inst _ vt fr] operand_kind [OF ty, of 1] operand_kind [OF ty, of 2]
    by (auto simp: step_value_def scalar_value_def Let_def)
qed (use chk in \<open>auto simp: check_scalar_def\<close>)

lemma roots_typed:
  assumes "frame_typed vt live fr" "v \<in> live"
  shows "v \<in> set (collect_roots fr) \<longleftrightarrow> is_gc_root (val_type (vt v)) \<and> raw_bits (get_value fr (Some v)) \<noteq> 0"
proof -
  have "is_gc_root_value (get_value fr (Some v)) \<longleftrightarrow> is_gc_root (val_type (vt v))"
    using assms by (cases "val_type (vt v)") (auto simp: frame_typed_def is_gc_root_value_def is_gc_root_def is_gcref_def is_tagged_def)
  then show ?thesis
    by (auto simp: collect_roots_def get_value_def void_value_def split: if_splits)
qed

text \<open>
  C7.  An interpreter step of a scalar instruction the verifier accepts, other than a pointer
  difference or an unsigned division of floating-point operands, is defined, and if it does not
  raise, every value of the frame, the result included, is held as the kind of its MIR type; so
  the values the frame then reports to the collector are those of a reference type that are not
  null.
\<close>

theorem accepted_step_keeps_types:
  assumes "check_scalar vt inst = Some []" "\<not> mistyped vt inst"
    and "frame_typed vt live fr" "operands_in live inst"
    and "result inst = Some r" "val_type (vt r) = inst_type inst" "r < 2 ^ 32 - 32"
  shows "\<exists>res. interp_step fp fm m vt inst fr = Some res \<and>
    (\<forall>fr'. res = Inr fr' \<longrightarrow> frame_typed vt (insert r live) fr' \<and>
       (\<forall>v\<in>insert r live. v \<in> set (collect_roots fr') \<longleftrightarrow>
          is_gc_root (val_type (vt v)) \<and> raw_bits (get_value fr' (Some v)) \<noteq> 0))"
proof -
  obtain x where x: "step_value fp fm m vt inst fr = Some x" "\<forall>v. x = Inr v \<longrightarrow> kind v = kind_of_type (inst_type inst)"
    using step_good [OF assms(1,2,5,3,4), of fp fm m] by (auto simp: good_def)
  have "frame_typed vt (insert r live) (set_value fr (Some r) v)" if "x = Inr v" for v
    using assms(3,6) x(2) that get_set_value [OF assms(7)] by (auto simp: frame_typed_def)
  then show ?thesis
    using x(1) assms(5) roots_typed by (cases x) (auto simp: interp_step_def step_value_def [symmetric])
qed


theorem accepted_step_keeps_types_witness:
  "check_scalar (table_of [GCRef, I32, GCRef]) (binary_inst Op_add GCRef) = Some [] \<and>
   (\<forall>fp fm m. \<exists>res. interp_step fp fm m (table_of [GCRef, I32, GCRef]) (binary_inst Op_add GCRef)
        [from_gcref 4096, from_i32 16] = Some res \<and>
      (\<forall>fr'. res = Inr fr' \<longrightarrow> 2 \<in> set (collect_roots fr') \<longleftrightarrow> raw_bits (get_value fr' (Some 2)) \<noteq> 0))"
proof -
  let ?vt = "table_of [GCRef, I32, GCRef]" and ?inst = "binary_inst Op_add GCRef"
  have c: "check_scalar ?vt ?inst = Some []" by code_simp
  have m: "\<not> mistyped ?vt ?inst" by code_simp
  have t: "frame_typed ?vt {0, 1} [from_gcref 4096, from_i32 16]"
    by (simp add: frame_typed_def get_value_def table_of_def)
  have o: "operands_in {0, 1} ?inst" by (simp add: operands_in_def binary_inst_def Let_def)
  have r: "result ?inst = Some 2" "val_type (?vt 2) = inst_type ?inst" "(2 :: nat) < 2 ^ 32 - 32"
    by (simp_all add: binary_inst_def table_of_def Let_def)
  have "is_gc_root (val_type (?vt 2))" by code_simp
  then show ?thesis using c accepted_step_keeps_types [OF c m t o r] by fastforce
qed


end
