(* ===== verification/Range_Analysis.thy ===== *)
theory Range_Analysis
  imports Value_Range Mir_Typing
begin

text \<open>
  The transfer functions of the value range analysis (\<open>src/mir/range_analysis.cpp\<close>): the range
  of an instruction from the ranges of its operands, and its soundness for every instruction the
  MIR verifier accepts, against the value the interpreters give the instruction: the integer
  folder's on the operands as the interpreter holds them, the narrow evaluator's, and a patched
  value where a patchable constant has one.  Ranges hold values in canonical form, 32-bit values
  sign-extended.
\<close>

section \<open>Saturating arithmetic\<close>

definition sat_add :: "int \<Rightarrow> int \<Rightarrow> int" where
  "sat_add a b =
     (let res = a + b in if res > INT64_MAX then INT64_MAX else if res < INT64_MIN then INT64_MIN else res)"

definition sat_add_portable :: "int \<Rightarrow> int \<Rightarrow> int" where
  "sat_add_portable a b =
     (if b > 0 \<and> a > INT64_MAX - b then INT64_MAX
      else if b < 0 \<and> a < INT64_MIN - b then INT64_MIN
      else a + b)"

definition sat_sub :: "int \<Rightarrow> int \<Rightarrow> int" where
  "sat_sub a b =
     (let res = a - b in if res > INT64_MAX then INT64_MAX else if res < INT64_MIN then INT64_MIN else res)"

definition sat_sub_portable :: "int \<Rightarrow> int \<Rightarrow> int" where
  "sat_sub_portable a b =
     (if b < 0 \<and> a > INT64_MAX + b then INT64_MAX
      else if b > 0 \<and> a < INT64_MIN + b then INT64_MIN
      else a - b)"

definition sat_mul :: "int \<Rightarrow> int \<Rightarrow> int" where
  "sat_mul a b =
     (let res = a * b in if res > INT64_MAX then INT64_MAX else if res < INT64_MIN then INT64_MIN else res)"

definition sat_mul_portable :: "int \<Rightarrow> int \<Rightarrow> int" where
  "sat_mul_portable a b =
     (if a = 0 \<or> b = 0 then 0
      else if a = - 1 \<and> b = INT64_MIN then INT64_MAX
      else if b = - 1 \<and> a = INT64_MIN then INT64_MAX
      else if a > 0 \<and> b > 0 \<and> a > INT64_MAX sdiv b then INT64_MAX
      else if a > 0 \<and> b < 0 \<and> b < INT64_MIN sdiv a then INT64_MIN
      else if a < 0 \<and> b > 0 \<and> a < INT64_MIN sdiv b then INT64_MIN
      else if a < 0 \<and> b < 0 \<and> a < INT64_MAX sdiv b then INT64_MAX
      else a * b)"

section \<open>Ranges of values\<close>

type_synonym ranges = "vid \<rightharpoonup> ValueRange"

definition get_const_int :: "value_table \<Rightarrow> vid option \<Rightarrow> int option" where
  "get_const_int vt val =
     (case val of
        None \<Rightarrow> None
      | Some v \<Rightarrow>
          (case def_of vt v of
             None \<Rightarrow> None
           | Some def \<Rightarrow>
               (if opcode def = OpConst Op_iconst_i32 \<or> opcode def = OpConst Op_patchable_const_i32
                then Some (sint (imm_i32 def))
                else if opcode def = OpConst Op_iconst_i64 \<or> opcode def = OpConst Op_patchable_const_i64
                then Some (sint (imm_i64 def))
                else None)))"

definition fit_to_type :: "ValueRange \<Rightarrow> TypeKind \<Rightarrow> ValueRange" where
  "fit_to_type r t =
     (if is_empty r then r
      else if t = I32 then
        (let i32_range = mk_range INT32_MIN INT32_MAX
         in if is_subrange_of r i32_range then r else i32_range)
      else if t = I64 then r
      else full_range)"

definition full_range_of :: "TypeKind \<Rightarrow> ValueRange" where
  "full_range_of t = (if t = I32 then mk_range INT32_MIN INT32_MAX else full_range)"

definition is_int_value :: "value_table \<Rightarrow> vid option \<Rightarrow> bool" where
  "is_int_value vt v = (case v of None \<Rightarrow> False | Some v \<Rightarrow> val_type (vt v) = I32 \<or> val_type (vt v) = I64)"

fun invert_comparison_opcode :: "CmpOp \<Rightarrow> CmpOp" where
  "invert_comparison_opcode Op_slt = Op_sge"
| "invert_comparison_opcode Op_sle = Op_sgt"
| "invert_comparison_opcode Op_sgt = Op_sle"
| "invert_comparison_opcode Op_sge = Op_slt"
| "invert_comparison_opcode Op_ult = Op_uge"
| "invert_comparison_opcode Op_ule = Op_ugt"
| "invert_comparison_opcode Op_ugt = Op_ule"
| "invert_comparison_opcode Op_uge = Op_ult"
| "invert_comparison_opcode Op_eq = Op_ne"
| "invert_comparison_opcode Op_ne = Op_eq"

text \<open>
  The callers pass comparison opcodes only, so the two functions on them take the comparison
  group.  The source's function calls itself at most twice, a greater-than being the swapped
  less-than and an unsigned order among non-negative ranges the signed one; each opcode it can
  call itself on is a definition of its own, with the emptiness test of that call.
\<close>

definition compare_eq :: "ValueRange \<Rightarrow> ValueRange \<Rightarrow> ValueRange" where
  "compare_eq r0 r1 =
     (if is_empty r0 \<or> is_empty r1 then empty_range
      else if is_constant_range r0 \<and> is_constant_range r1
      then constant_range (if min_val r0 = min_val r1 then 1 else 0)
      else if is_empty (intersect_with r0 r1) then constant_range 0
      else mk_range 0 1)"

definition compare_ne :: "ValueRange \<Rightarrow> ValueRange \<Rightarrow> ValueRange" where
  "compare_ne r0 r1 =
     (if is_empty r0 \<or> is_empty r1 then empty_range
      else if is_constant_range r0 \<and> is_constant_range r1
      then constant_range (if min_val r0 \<noteq> min_val r1 then 1 else 0)
      else if is_empty (intersect_with r0 r1) then constant_range 1
      else mk_range 0 1)"

definition compare_slt :: "ValueRange \<Rightarrow> ValueRange \<Rightarrow> ValueRange" where
  "compare_slt r0 r1 =
     (if is_empty r0 \<or> is_empty r1 then empty_range
      else if max_val r0 < min_val r1 then constant_range 1
      else if min_val r0 \<ge> max_val r1 then constant_range 0
      else mk_range 0 1)"

definition compare_sle :: "ValueRange \<Rightarrow> ValueRange \<Rightarrow> ValueRange" where
  "compare_sle r0 r1 =
     (if is_empty r0 \<or> is_empty r1 then empty_range
      else if max_val r0 \<le> min_val r1 then constant_range 1
      else if min_val r0 > max_val r1 then constant_range 0
      else mk_range 0 1)"

definition compare_ult :: "ValueRange \<Rightarrow> ValueRange \<Rightarrow> ValueRange" where
  "compare_ult r0 r1 =
     (if is_empty r0 \<or> is_empty r1 then empty_range
      else if is_non_negative r0 \<and> is_non_negative r1 then compare_slt r0 r1
      else mk_range 0 1)"

definition compare_ule :: "ValueRange \<Rightarrow> ValueRange \<Rightarrow> ValueRange" where
  "compare_ule r0 r1 =
     (if is_empty r0 \<or> is_empty r1 then empty_range
      else if is_non_negative r0 \<and> is_non_negative r1 then compare_sle r0 r1
      else mk_range 0 1)"

definition evaluate_comparison :: "CmpOp \<Rightarrow> ValueRange \<Rightarrow> ValueRange \<Rightarrow> ValueRange" where
  "evaluate_comparison op r0 r1 =
     (case op of
        Op_eq \<Rightarrow> compare_eq r0 r1
      | Op_ne \<Rightarrow> compare_ne r0 r1
      | Op_slt \<Rightarrow> compare_slt r0 r1
      | Op_sle \<Rightarrow> compare_sle r0 r1
      | Op_sgt \<Rightarrow> if is_empty r0 \<or> is_empty r1 then empty_range else compare_slt r1 r0
      | Op_sge \<Rightarrow> if is_empty r0 \<or> is_empty r1 then empty_range else compare_sle r1 r0
      | Op_ult \<Rightarrow> compare_ult r0 r1
      | Op_ule \<Rightarrow> compare_ule r0 r1
      | Op_ugt \<Rightarrow> if is_empty r0 \<or> is_empty r1 then empty_range else compare_ult r1 r0
      | Op_uge \<Rightarrow> if is_empty r0 \<or> is_empty r1 then empty_range else compare_ule r1 r0)"

definition get_range :: "value_table \<Rightarrow> ranges \<Rightarrow> vid option \<Rightarrow> ValueRange" where
  "get_range vt global v =
     (case v of
        None \<Rightarrow> full_range
      | Some w \<Rightarrow>
          (case get_const_int vt v of
             Some c \<Rightarrow> constant_range c
           | None \<Rightarrow>
               (case global w of
                  Some r \<Rightarrow> r
                | None \<Rightarrow> if val_type (vt w) = I32 then mk_range INT32_MIN INT32_MAX else full_range)))"

definition get_context_range :: "value_table \<Rightarrow> ranges \<Rightarrow> ranges \<Rightarrow> vid option \<Rightarrow> ValueRange" where
  "get_context_range vt global context v =
     (case v of
        None \<Rightarrow> full_range
      | Some w \<Rightarrow>
          (case get_const_int vt v of
             Some c \<Rightarrow> constant_range c
           | None \<Rightarrow> (case context w of Some r \<Rightarrow> r | None \<Rightarrow> get_range vt global v)))"

section \<open>The range of an instruction\<close>

definition evaluate_shift ::
  "ArithOp \<Rightarrow> TypeKind \<Rightarrow> ValueRange \<Rightarrow> ValueRange \<Rightarrow> ValueRange" where
  "evaluate_shift f t r0 r1 =
     (if \<not> is_constant_range r1 then full_range_of t
      else
        let width_mask = (if t = I32 then 31 else 63);
            amt = constant_range (min_val r1 AND width_mask)
        in if f = Op_shl then range_shl r0 amt
           else if f = Op_lshr then
             (if t = I32 \<and> min_val amt > 0 \<and> \<not> is_non_negative r0
              then mk_range 0 (drop_bit (nat (min_val amt)) UINT32_MAX)
              else range_lshr r0 amt)
           else range_ashr r0 amt)"

definition evaluate_instruction ::
  "value_table \<Rightarrow> ranges \<Rightarrow> ranges \<Rightarrow> Instruction \<Rightarrow> ValueRange" where
  "evaluate_instruction vt global context inst =
     (let r = (\<lambda>i. get_context_range vt global context (operand inst i))
      in case opcode inst of
           OpConst Op_iconst_i32 \<Rightarrow> constant_range (sint (imm_i32 inst))
         | OpConst Op_patchable_const_i32 \<Rightarrow> constant_range (sint (imm_i32 inst))
         | OpConst Op_iconst_i64 \<Rightarrow> constant_range (sint (imm_i64 inst))
         | OpConst Op_patchable_const_i64 \<Rightarrow> constant_range (sint (imm_i64 inst))
         | OpArith Op_add \<Rightarrow> range_add (r 0) (r 1)
         | OpArith Op_sub \<Rightarrow> range_sub (r 0) (r 1)
         | OpArith Op_mul \<Rightarrow> range_mul (r 0) (r 1)
         | OpArith Op_and \<Rightarrow> range_and (r 0) (r 1)
         | OpArith Op_or \<Rightarrow> range_or (r 0) (r 1)
         | OpArith Op_xor \<Rightarrow> range_xor (r 0) (r 1)
         | OpArith Op_shl \<Rightarrow> evaluate_shift Op_shl (inst_type inst) (r 0) (r 1)
         | OpArith Op_lshr \<Rightarrow> evaluate_shift Op_lshr (inst_type inst) (r 0) (r 1)
         | OpArith Op_ashr \<Rightarrow> evaluate_shift Op_ashr (inst_type inst) (r 0) (r 1)
         | OpConv Op_zext_i64 \<Rightarrow> range_zext (r 0)
         | OpConv Op_sext_i64 \<Rightarrow> range_sext (r 0)
         | OpConv Op_trunc_i32 \<Rightarrow> range_trunc (r 0)
         | OpSel Op_select \<Rightarrow> range_select (r 0) (r 1) (r 2)
         | OpCmp c \<Rightarrow>
             (if \<not> is_int_value vt (operand inst 0) \<or> \<not> is_int_value vt (operand inst 1)
              then mk_range 0 1
              else evaluate_comparison c (r 0) (r 1))
         | _ \<Rightarrow> full_range_of (inst_type inst))"

section \<open>The saturating helpers agree\<close>

lemma sat_portable_add_sub:
  assumes "fits_int64 a" "fits_int64 b"
  shows "sat_add_portable a b = sat_add a b" "sat_sub_portable a b = sat_sub a b"
  using assms by (auto simp: sat_add_portable_def sat_add_def sat_sub_portable_def sat_sub_def
      fits_int64_def Let_def)

lemma sat_mul_portable_cases:
  "sat_mul_portable a b =
    (if portable_mul_overflow a b then (if 0 < a \<longleftrightarrow> 0 < b then INT64_MAX else INT64_MIN) else a * b)"
proof -
  define h k l m where "h = INT64_MAX sdiv b" and "k = INT64_MIN sdiv a" and "l = INT64_MIN sdiv b"
    and "m = INT64_MAX sdiv b"
  consider "a = 0 \<or> b = 0" | "0 < a" "0 < b" | "0 < a" "b < 0" | "a < 0" "0 < b" | "a < 0" "b < 0"
    by linarith
  then show ?thesis
    unfolding sat_mul_portable_def portable_mul_overflow_def h_def [symmetric] k_def [symmetric]
      l_def [symmetric] m_def [symmetric]
    by cases simp_all
qed

lemma sat_portable_mul: "sat_mul_portable a b = sat_mul a b"
proof -
  have "0 < a * b" if "builtin_mul_overflow a b" "0 < a \<longleftrightarrow> 0 < b"
  proof -
    have "a \<noteq> 0" "b \<noteq> 0" using that(1) by (auto simp: builtin_mul_overflow_def)
    then show ?thesis using that(2) by (auto simp: zero_less_mult_iff)
  qed
  moreover have "a * b \<le> 0" if "\<not> (0 < a \<longleftrightarrow> 0 < b)"
    using that by (auto simp: mult_le_0_iff)
  ultimately show ?thesis
    unfolding sat_mul_portable_cases portable_mul_overflow_correct
    by (cases "builtin_mul_overflow a b"; cases "0 < a \<longleftrightarrow> 0 < b")
      (simp_all add: sat_mul_def builtin_mul_overflow_def Let_def)
qed

section \<open>What an instruction computes\<close>

text \<open>
  The interpreters' table of patched constants (\<open>patch_const\<close>): a patchable constant has the value
  patched for its symbol, if there is one, and its immediate otherwise.
\<close>

type_synonym patched_consts = "string \<rightharpoonup> i64"

definition get_patched_const :: "patched_consts \<Rightarrow> string \<Rightarrow> i64 \<Rightarrow> i64" where
  "get_patched_const patches sym_name default_val =
     (case patches sym_name of Some v \<Rightarrow> v | None \<Rightarrow> default_val)"

text \<open>
  A variable as the interpreter holds it: an integer of up to 32 bits in the low half of the raw
  bits, anything else as it is.
\<close>

definition held :: "value_table \<Rightarrow> (vid \<Rightarrow> i64) \<Rightarrow> vid \<Rightarrow> RuntimeValue" where
  "held vt env v =
     (if kind_of_type (val_type (vt v)) = RI32 then from_u32 (ucast (env v)) else from_u64 (env v))"

definition narrow_result :: "interp_result option \<Rightarrow> i64 option" where
  "narrow_result r = (case r of Some (Inr v) \<Rightarrow> Some (raw_bits v) | _ \<Rightarrow> None)"

text \<open>
  The value an instruction on integers gives its result.  The second operand of a 64-bit bitwise
  operation may have a narrower type: the interpreter reads its raw bits, without a sign
  extension.  Instructions that are not determined by their operands (loads, calls) or compute on
  other types (pointers, floats) have none.
\<close>

definition inst_value ::
  "patched_consts \<Rightarrow> value_table \<Rightarrow> (vid \<Rightarrow> i64) \<Rightarrow> Instruction \<Rightarrow> i64 option" where
  "inst_value patches vt env inst =
     (let val = held vt env; raw = (\<lambda>v. raw_bits (held vt env v)); bits = (\<lambda>v. narrow_int_bits (val_type (vt v)))
      in case opcode inst of
        OpConst Op_iconst_i32 \<Rightarrow> Some (scast (imm_i32 inst))
      | OpConst Op_patchable_const_i32 \<Rightarrow>
          Some (scast (ucast (get_patched_const patches (symbol inst) (scast (imm_i32 inst))) :: i32))
      | OpConst Op_iconst_i64 \<Rightarrow> Some (imm_i64 inst)
      | OpConst Op_patchable_const_i64 \<Rightarrow> Some (get_patched_const patches (symbol inst) (imm_i64 inst))
      | OpArith f \<Rightarrow>
          (case (operand inst 0, operand inst 1) of
             (Some a, Some b) \<Rightarrow>
               (if bits a \<noteq> 0 then narrow_result (eval_narrow_int (OpArith f) (bits a) [val a, val b])
                else if inst_type inst = I32 \<or> inst_type inst = I64
                then binary (OpArith f) (width_of (inst_type inst)) (raw a) (raw b)
                else None)
           | _ \<Rightarrow> None)
      | OpCmp c \<Rightarrow>
          (case (operand inst 0, operand inst 1) of
             (Some a, Some b) \<Rightarrow>
               (if bits a \<noteq> 0 then narrow_result (eval_narrow_int (OpCmp c) (bits a) [val a, val b])
                else binary (OpCmp c) (width_of (val_type (vt a))) (raw a) (raw b))
           | _ \<Rightarrow> None)
      | OpConv f \<Rightarrow>
          (case operand inst 0 of
             Some a \<Rightarrow>
               (if f = Op_zext_i64 \<and> val_type (vt a) = I8 then Some (raw a AND 0xff)
                else convert (OpConv f) (val_type (vt a)) (env a))
           | _ \<Rightarrow> None)
      | OpSel Op_select \<Rightarrow>
          (case (operand inst 0, operand inst 1, operand inst 2) of
             (Some c, Some a, Some b) \<Rightarrow> Some (if env c \<noteq> 0 then env a else env b)
           | _ \<Rightarrow> None)
      | _ \<Rightarrow> None)"

text \<open>The arithmetic \<open>evaluate_instruction\<close> has an interval operation for.\<close>

definition ranged_arith :: "ArithOp \<Rightarrow> bool" where
  "ranged_arith f \<longleftrightarrow> f \<in> {Op_add, Op_sub, Op_mul, Op_and, Op_or, Op_xor, Op_shl, Op_lshr, Op_ashr}"

section \<open>What the verifier accepts\<close>

text \<open>The verifier's rules of the constants that are not among the scalar rules.\<close>

definition check_other_const :: "ConstOp \<Rightarrow> Instruction \<Rightarrow> string list" where
  "check_other_const c inst =
     (let patchable = (\<lambda>t. report_if (inst_type inst \<noteq> t) (''Result type must be '' @ type_name t @ ''.'') @
                         report_if (symbol inst = []) ''Patchable const requires non-empty symbol.'')
      in case c of
           Op_fconst_f64 \<Rightarrow> report_if (inst_type inst \<noteq> F64 \<and> inst_type inst \<noteq> F32)
             (''Result type must be f64 or f32, got '' @ type_name (inst_type inst) @ ''.'')
         | Op_patchable_const_i32 \<Rightarrow> patchable I32
         | Op_patchable_const_i64 \<Rightarrow> patchable I64
         | _ \<Rightarrow> [])"

text \<open>
  An instruction the verifier reports nothing of.  The opcodes outside its scalar rules are not
  restricted here: the analysis gives them the range of their type.
\<close>

definition accepted :: "value_table \<Rightarrow> Instruction \<Rightarrow> bool" where
  "accepted vt inst =
     (case check_scalar vt inst of
        Some msgs \<Rightarrow> msgs = []
      | None \<Rightarrow> (case opcode inst of OpConst c \<Rightarrow> check_other_const c inst = [] | _ \<Rightarrow> True))"

text \<open>
  The accepted instructions the analysis is wrong about: a patchable constant whose patched value
  is not its immediate, and a 64-bit bitwise operation with an \<open>i32\<close> as second operand, which the
  analysis takes as sign-extended and the interpreter as zero-extended.
\<close>

definition patched_away :: "patched_consts \<Rightarrow> Instruction \<Rightarrow> bool" where
  "patched_away patches inst \<longleftrightarrow>
     opcode inst = OpConst Op_patchable_const_i32 \<and>
       ucast (get_patched_const patches (symbol inst) (scast (imm_i32 inst))) \<noteq> imm_i32 inst \<or>
     opcode inst = OpConst Op_patchable_const_i64 \<and>
       get_patched_const patches (symbol inst) (imm_i64 inst) \<noteq> imm_i64 inst"

definition mixed_width :: "value_table \<Rightarrow> Instruction \<Rightarrow> bool" where
  "mixed_width vt inst \<longleftrightarrow>
     opcode inst \<in> {OpArith Op_and, OpArith Op_or, OpArith Op_xor} \<and> inst_type inst = I64 \<and> op_type vt inst 1 = Some I32"

definition range_gap :: "patched_consts \<Rightarrow> value_table \<Rightarrow> Instruction \<Rightarrow> bool" where
  "range_gap patches vt inst \<longleftrightarrow> patched_away patches inst \<or> mixed_width vt inst"

text \<open>Environments hold \<open>i32\<close> values sign-extended.\<close>

definition canonical_env :: "value_table \<Rightarrow> (vid \<Rightarrow> i64) \<Rightarrow> bool" where
  "canonical_env vt env \<longleftrightarrow> (\<forall>v. val_type (vt v) = I32 \<longrightarrow> canonical (env v) 32 = env v)"

lemma canonical_sint: "canonical x 32 = x \<Longrightarrow> sint x = sint (ucast x :: i32)"
  by (metis canonical_32 sint_scast_32_64)

section \<open>Fitting results to their type\<close>

lemma fit_ok: "range_ok r \<Longrightarrow> range_ok (fit_to_type r t)"
  by (simp add: fit_to_type_def fits_int64_def Let_def)

lemma fit_i32: "contains r k \<or> is_full r \<Longrightarrow> contains (fit_to_type r I32) (sint (word_of_int k :: i32))"
proof -
  assume r: "contains r k \<or> is_full r"
  let ?w = "word_of_int k :: i32"
  have i32: "contains (mk_range INT32_MIN INT32_MAX) (sint ?w)"
    using sint_range32 [of ?w] by simp
  show ?thesis
  proof (cases "is_subrange_of r (mk_range INT32_MIN INT32_MAX)")
    case True
    with r have c: "contains r k"
      by (auto simp: is_subrange_of_def is_full_def is_empty_def mk_range_def)
    with True have "sint ?w = k"
      using sint_of_int32 [of k] by (simp add: subrange_iff)
    with c True show ?thesis by (simp add: fit_to_type_def contains_def)
  next
    case False
    with r have "\<not> is_empty r" by (auto simp: contains_def is_empty_def is_full_def)
    with False i32 show ?thesis by (simp add: fit_to_type_def)
  qed
qed

lemma fit_contains_64: "contains r v \<Longrightarrow> contains (fit_to_type r I64) v"
  by (simp add: fit_to_type_def contains_def)

lemma fit_contains_32:
  "contains r v \<Longrightarrow> INT32_MIN \<le> v \<Longrightarrow> v \<le> INT32_MAX \<Longrightarrow> contains (fit_to_type r I32) v"
  using fit_i32 [of r v] sint_of_int32 [of v] by simp

lemma fit_contains_other:
  "t \<noteq> I32 \<Longrightarrow> t \<noteq> I64 \<Longrightarrow> contains r v \<Longrightarrow> contains (fit_to_type r t) (sint (x :: i64))"
  using sint_range64 [of x] by (auto simp: fit_to_type_def contains_def full_range_def mk_range_def is_empty_def)

lemma fit_other: "t \<noteq> I32 \<Longrightarrow> t \<noteq> I64 \<Longrightarrow> \<not> is_empty r \<Longrightarrow> contains (fit_to_type r t) (sint (x :: i64))"
  using sint_range64 [of x] by (simp add: fit_to_type_def full_range_def)

context range_transfer
begin

lemma fit_32:
  assumes "range_ok a" "range_ok b" "contains a (sint (x :: i32))" "contains b y"
  shows "contains (fit_to_type (aop a b) I32) (sint (word_of_int (cop (sint x) y) :: i32))"
  using sound [OF assms] by (intro fit_i32) blast

lemma fit_64:
  assumes "range_ok a" "range_ok b" "contains a (sint (x :: i64))" "contains b y"
  shows "contains (fit_to_type (aop a b) I64) (sint (word_of_int (cop (sint x) y) :: i64))"
  using wrapped [OF assms] by (rule fit_contains_64)

end

section \<open>Soundness of the instruction ranges\<close>

lemma shift_amount_sint_32: "sint (y :: i64) AND 31 = int (shift_amount (ucast y :: i32))"
proof -
  have "sint y AND 31 = sint y mod 32"
    using take_bit_eq_mask [of 5 "sint y"] by (simp add: take_bit_eq_mod mask_eq_exp_minus_1)
  also have "\<dots> = uint y mod 32"
    using sint_as_uint [of y] by (simp add: mod_diff_eq [symmetric])
  also have "\<dots> = int (shift_amount (ucast y :: i32))"
    by (simp add: shift_amount_def zmod_int unsigned_ucast_eq take_bit_eq_mod mod_mod_cancel)
  finally show ?thesis .
qed

lemma shift_amount_sint_64: "sint (y :: i64) AND 63 = int (shift_amount y)"
proof -
  have "sint y AND 63 = sint y mod 64"
    using take_bit_eq_mask [of 6 "sint y"] by (simp add: take_bit_eq_mod mask_eq_exp_minus_1)
  also have "\<dots> = uint y mod 64"
    using sint_as_uint [of y] by (simp add: mod_diff_eq [symmetric])
  also have "\<dots> = int (shift_amount y)"
    by (simp add: shift_amount_def zmod_int)
  finally show ?thesis .
qed

lemma word_op_exact:
  fixes x y :: "'a::len word"
  shows "x AND y = word_of_int (sint x AND sint y)"
    "x OR y = word_of_int (sint x OR sint y)"
    "x XOR y = word_of_int (sint x XOR sint y)"
    "push_bit n x = word_of_int (sint x * 2 ^ n)"
    "signed_drop_bit n x = word_of_int (drop_bit n (sint x))"
proof -
  show "x AND y = word_of_int (sint x AND sint y)" by (metis signed_and_eq word_of_int_sint)
  show "x OR y = word_of_int (sint x OR sint y)" by (metis signed_or_eq word_of_int_sint)
  show "x XOR y = word_of_int (sint x XOR sint y)" by (metis signed_xor_eq word_of_int_sint)
  show "push_bit n x = word_of_int (sint x * 2 ^ n)" by (simp add: push_bit_eq_mult)
  show "signed_drop_bit n x = word_of_int (drop_bit n (sint x))"
    by (metis sint_signed_drop_bit_eq word_of_int_sint)
qed

lemma ucast_signed_down: "(ucast (y :: i64) :: i32) = word_of_int (sint y)"
  by (rule bit_word_eqI) (auto simp: bit_simps bit_sint_iff min_def)

lemma word_down_exact:
  fixes x :: i32 and y :: i64
  shows "x + ucast y = word_of_int (sint x + sint y)" "x - ucast y = word_of_int (sint x - sint y)"
    "x * ucast y = word_of_int (sint x * sint y)" "x AND ucast y = word_of_int (sint x AND sint y)"
    "x OR ucast y = word_of_int (sint x OR sint y)" "x XOR ucast y = word_of_int (sint x XOR sint y)"
  by (simp_all add: ucast_signed_down of_int_and_eq of_int_or_eq of_int_xor_eq)

lemma constant_contains: "is_constant_range r \<Longrightarrow> contains r v \<Longrightarrow> min_val r = v"
  by (simp add: is_constant_range_def contains_iff)

lemma full_range_of_i32: "contains (fit_to_type (full_range_of I32) I32) (sint (x :: i32))"
  using sint_range32 [of x] by (intro fit_contains_32) (simp_all add: full_range_of_def)

lemma full_range_of_i64: "contains (fit_to_type (full_range_of I64) I64) (sint (x :: i64))"
  using sint_range64 [of x] by (intro fit_contains_64) (simp add: full_range_of_def full_range_def)

lemma evaluate_shift_sound_32:
  fixes x :: i32 and y :: i64
  assumes ok: "range_ok a" "range_ok b" and c: "contains a (sint x)" "contains b (sint y)"
    and f: "f \<in> {Op_shl, Op_lshr, Op_ashr}" and q: "word_arith f x (ucast y) = Some q"
  shows "contains (fit_to_type (evaluate_shift f I32 a b) I32) (sint q)"
proof (cases "is_constant_range b")
  case False
  then show ?thesis by (simp add: evaluate_shift_def full_range_of_i32)
next
  case True
  let ?n = "shift_amount (ucast y :: i32)"
  have amt: "min_val b AND 31 = int ?n"
    using constant_contains [OF True c(2)] shift_amount_sint_32 by simp
  have n: "?n < 32" using shift_amount_less [of "ucast y :: i32"] by simp
  let ?c = "constant_range (int ?n)"
  have okc: "range_ok ?c" "contains ?c (int ?n)" using n by (simp_all add: fits_int64_def)
  have mc: "min_val ?c = int ?n" by (simp add: constant_range_def mk_range_def)
  note shl = shl_transfer.fit_32 [OF ok(1) okc(1) c(1) okc(2)]
  note ashr = ashr_transfer.fit_32 [OF ok(1) okc(1) c(1) okc(2)]
  have lshr: "contains (fit_to_type (evaluate_shift Op_lshr I32 a b) I32) (sint (drop_bit ?n x))"
  proof (cases "0 < ?n \<and> \<not> is_non_negative a")
    case big: True
    have "0 \<le> drop_bit ?n (uint x)" "drop_bit ?n (uint x) \<le> drop_bit ?n UINT32_MAX"
      using drop_bit_mono [OF uint_range32(2) [of x]] by simp_all
    then have "contains (mk_range 0 (drop_bit ?n UINT32_MAX)) (sint (drop_bit ?n x))"
      using big sint_drop_bit [of ?n x] by simp
    then show ?thesis
      using True big sint_range32 [of "drop_bit ?n x"]
      by (auto simp: evaluate_shift_def Let_def amt mc intro!: fit_contains_32)
  next
    case False
    then have "contains (range_lshr a ?c) (sint (drop_bit ?n x))"
      using n by (intro lshr_sound [OF c(1)]) auto
    then show ?thesis
      using True False sint_range32 [of "drop_bit ?n x"]
      by (auto simp: evaluate_shift_def Let_def amt mc intro!: fit_contains_32)
  qed
  from f q shl ashr lshr True show ?thesis
    by (auto simp: evaluate_shift_def Let_def amt word_op_exact)
qed

lemma evaluate_shift_sound_64:
  fixes x y :: i64
  assumes ok: "range_ok a" "range_ok b" and c: "contains a (sint x)" "contains b (sint y)"
    and f: "f \<in> {Op_shl, Op_lshr, Op_ashr}" and q: "word_arith f x y = Some q"
  shows "contains (fit_to_type (evaluate_shift f I64 a b) I64) (sint q)"
proof (cases "is_constant_range b")
  case False
  then show ?thesis by (simp add: evaluate_shift_def full_range_of_i64)
next
  case True
  let ?n = "shift_amount y"
  have amt: "min_val b AND 63 = int ?n"
    using constant_contains [OF True c(2)] shift_amount_sint_64 by simp
  have n: "?n < 64" using shift_amount_less [of y] by simp
  let ?c = "constant_range (int ?n)"
  have okc: "range_ok ?c" "contains ?c (int ?n)" using n by (simp_all add: fits_int64_def)
  note shl = shl_transfer.fit_64 [OF ok(1) okc(1) c(1) okc(2)]
  note ashr = ashr_transfer.fit_64 [OF ok(1) okc(1) c(1) okc(2)]
  note lshr = fit_contains_64 [OF lshr_sound [OF c(1) n]]
  from f q shl ashr lshr True show ?thesis
    by (auto simp: evaluate_shift_def Let_def amt word_op_exact)
qed

lemma word_ring_exact:
  fixes x y :: "'a::len word"
  shows "x + y = word_of_int (sint x + sint y)" "x - y = word_of_int (sint x - sint y)"
    "x * y = word_of_int (sint x * sint y)"
  by simp_all

lemmas transfers_32 = add_transfer.fit_32 sub_transfer.fit_32 mul_transfer.fit_32
  and_transfer.fit_32 or_transfer.fit_32 xor_transfer.fit_32

lemmas transfers_64 = add_transfer.fit_64 sub_transfer.fit_64 mul_transfer.fit_64
  and_transfer.fit_64 or_transfer.fit_64 xor_transfer.fit_64

text \<open>The comparison ranges contain the truth value, read as 0 or 1.\<close>

lemma compare_sound:
  assumes c: "contains a x" "contains b y"
  shows "contains (compare_eq a b) (of_bool (x = y))" "contains (compare_ne a b) (of_bool (x \<noteq> y))"
    "contains (compare_slt a b) (of_bool (x < y))" "contains (compare_sle a b) (of_bool (x \<le> y))"
    "contains (compare_ult a b) (of_bool (if 0 \<le> x \<and> 0 \<le> y then x < y else p))"
    "contains (compare_ule a b) (of_bool (if 0 \<le> x \<and> 0 \<le> y then x \<le> y else p))"
proof -
  have ne: "\<not> is_empty a" "\<not> is_empty b" using c by (simp_all add: contains_not_empty)
  have common: "x \<noteq> y" if "is_empty (intersect_with a b)"
    using that c contains_intersect [of a b x] by (auto simp: is_empty_iff)
  show "contains (compare_eq a b) (of_bool (x = y))" "contains (compare_ne a b) (of_bool (x \<noteq> y))"
    using c ne common constant_contains [of a x] constant_contains [of b y]
    by (auto simp: compare_eq_def compare_ne_def)
  show slt: "contains (compare_slt a b) (of_bool (x < y))"
    using c ne by (auto simp: compare_slt_def contains_iff [of a] contains_iff [of b])
  show sle: "contains (compare_sle a b) (of_bool (x \<le> y))"
    using c ne by (auto simp: compare_sle_def contains_iff [of a] contains_iff [of b])
  show "contains (compare_ult a b) (of_bool (if 0 \<le> x \<and> 0 \<le> y then x < y else p))"
    using c ne slt by (auto simp: compare_ult_def is_non_negative_def contains_iff [of a] contains_iff [of b])
  show "contains (compare_ule a b) (of_bool (if 0 \<le> x \<and> 0 \<le> y then x \<le> y else p))"
    using c ne sle by (auto simp: compare_ule_def is_non_negative_def contains_iff [of a] contains_iff [of b])
qed

lemma unsigned_order_non_negative:
  assumes "0 \<le> sint (x :: 'a::len word)" "0 \<le> sint y"
  shows "x < y \<longleftrightarrow> sint x < sint y" "x \<le> y \<longleftrightarrow> sint x \<le> sint y"
  using assms by (simp_all add: word_less_def word_le_def uint_of_non_negative)

lemma evaluate_comparison_sound:
  fixes x y :: "'a::len word"
  assumes c: "contains a (sint x)" "contains b (sint y)"
  shows "contains (evaluate_comparison op a b) (of_bool (word_cmp op x y))"
proof -
  have ne: "\<not> is_empty a" "\<not> is_empty b" using c by (simp_all add: contains_not_empty)
  have lt: "(if 0 \<le> sint x \<and> 0 \<le> sint y then sint x < sint y else x < y) \<longleftrightarrow> x < y"
    "(if 0 \<le> sint y \<and> 0 \<le> sint x then sint y < sint x else y < x) \<longleftrightarrow> y < x"
    "(if 0 \<le> sint x \<and> 0 \<le> sint y then sint x \<le> sint y else x \<le> y) \<longleftrightarrow> x \<le> y"
    "(if 0 \<le> sint y \<and> 0 \<le> sint x then sint y \<le> sint x else y \<le> x) \<longleftrightarrow> y \<le> x"
    by (auto simp: unsigned_order_non_negative)
  have eq: "sint x = sint y \<longleftrightarrow> x = y" by (metis word_of_int_sint)
  note s = compare_sound [OF c]
  note u = s(5) [of "x < y", unfolded lt] s(6) [of "x \<le> y", unfolded lt]
  note s' = compare_sound [OF c(2,1)]
  note u' = s'(5) [of "y < x", unfolded lt] s'(6) [of "y \<le> x", unfolded lt]
  show ?thesis
    using s(1-4) [unfolded eq] u s'(3,4) u' ne by (cases op) (simp_all add: evaluate_comparison_def)
qed

text \<open>The range \<open>evaluate_instruction\<close> gives an arithmetic instruction from its operands' ranges.\<close>

definition arith_range :: "ArithOp \<Rightarrow> TypeKind \<Rightarrow> ValueRange \<Rightarrow> ValueRange \<Rightarrow> ValueRange" where
  "arith_range f t a b =
     (case f of
        Op_add \<Rightarrow> range_add a b | Op_sub \<Rightarrow> range_sub a b | Op_mul \<Rightarrow> range_mul a b
      | Op_and \<Rightarrow> range_and a b | Op_or \<Rightarrow> range_or a b | Op_xor \<Rightarrow> range_xor a b
      | Op_shl \<Rightarrow> evaluate_shift Op_shl t a b | Op_lshr \<Rightarrow> evaluate_shift Op_lshr t a b
      | Op_ashr \<Rightarrow> evaluate_shift Op_ashr t a b | _ \<Rightarrow> full_range_of t)"

lemma evaluate_arith:
  "opcode inst = OpArith f \<Longrightarrow> evaluate_instruction vt g ctx inst =
    arith_range f (inst_type inst) (get_context_range vt g ctx (operand inst 0))
      (get_context_range vt g ctx (operand inst 1))"
  by (cases f) (simp_all add: evaluate_instruction_def arith_range_def)

lemma arith_sound_32:
  fixes x :: i32 and y :: i64
  assumes ok: "range_ok a" "range_ok b" and c: "contains a (sint x)" "contains b (sint y)"
    and q: "word_arith f x (ucast y) = Some q"
  shows "contains (fit_to_type (arith_range f I32 a b) I32) (sint q)"
proof (cases "f \<in> {Op_shl, Op_lshr, Op_ashr}")
  case True
  then show ?thesis using evaluate_shift_sound_32 [OF ok c True q] by (auto simp: arith_range_def)
next
  case False
  note t = transfers_32 [OF ok c]
  show ?thesis
    using False q t by (cases f) (simp_all only: arith_range_def ArithOp.case word_arith.simps option.inject
      option.distinct word_down_exact full_range_of_i32 insert_iff simp_thms)
qed

lemma arith_sound_64:
  fixes x y :: i64
  assumes ok: "range_ok a" "range_ok b" and c: "contains a (sint x)" "contains b (sint y)"
    and q: "word_arith f x y = Some q"
  shows "contains (fit_to_type (arith_range f I64 a b) I64) (sint q)"
proof (cases "f \<in> {Op_shl, Op_lshr, Op_ashr}")
  case True
  then show ?thesis using evaluate_shift_sound_64 [OF ok c True q] by (auto simp: arith_range_def)
next
  case False
  note t = transfers_64 [OF ok c]
  show ?thesis
    using False q t by (cases f) (simp_all only: arith_range_def ArithOp.case word_arith.simps option.inject
      option.distinct word_ring_exact word_op_exact full_range_of_i64 insert_iff simp_thms)
qed

text \<open>At any type but \<open>i32\<close> the analysis computes as at \<open>i64\<close> and then forgets more.\<close>

lemma not_i32_weaker:
  assumes "t \<noteq> I32" and "contains (fit_to_type (arith_range f I64 a b) I64) (sint (q :: i64))"
  shows "contains (fit_to_type (arith_range f t a b) t) (sint q)"
proof -
  have "arith_range f t a b = arith_range f I64 a b"
    using assms(1) by (cases f) (simp_all add: arith_range_def evaluate_shift_def full_range_of_def)
  then show ?thesis
    using assms fit_contains_other [of t "arith_range f I64 a b" "sint q" q]
    by (cases "t = I64") (auto simp: fit_to_type_def)
qed

definition ranges_ok :: "ranges \<Rightarrow> bool" where
  "ranges_ok g \<longleftrightarrow> (\<forall>v r. g v = Some r \<longrightarrow> range_ok r)"

lemma get_const_fits: "get_const_int vt v = Some c \<Longrightarrow> fits_int64 c"
  using sint_range64 sint_range32
  by (auto simp: get_const_int_def fits_int64_def split: option.splits if_splits
      intro: order_trans [of _ INT32_MIN] order_trans [of _ INT32_MAX])

lemma get_range_ok: "ranges_ok g \<Longrightarrow> range_ok (get_range vt g v)"
  by (auto simp: get_range_def ranges_ok_def get_const_fits fits_int64_def [of INT32_MIN]
      fits_int64_def [of INT32_MAX] split: option.splits)

lemma get_context_range_ok: "ranges_ok g \<Longrightarrow> ranges_ok ctx \<Longrightarrow> range_ok (get_context_range vt g ctx v)"
  by (auto simp: get_context_range_def ranges_ok_def [of ctx] get_range_ok get_const_fits
      split: option.splits)

lemma nonempty_member: "\<not> is_empty r \<Longrightarrow> range_ok r \<Longrightarrow> \<exists>x :: i64. contains r (sint x)"
proof -
  assume r: "\<not> is_empty r" "range_ok r"
  then have "fits_int64 (min_val r)" "contains r (min_val r)" by (auto simp: range_ok_def contains_iff is_empty_def)
  then show ?thesis using fits_int64_iff by metis
qed

lemma unranged_arith: "\<not> ranged_arith f \<Longrightarrow> arith_range f t a b = full_range_of t"
  by (cases f) (simp_all add: ranged_arith_def arith_range_def)

lemma full_range_not_empty: "\<not> is_empty (full_range_of t)"
  by (simp add: full_range_of_def full_range_def mk_range_def is_empty_def)

text \<open>From possible operands a possible result: the range of an arithmetic instruction is not empty.\<close>

lemma arith_not_empty:
  assumes ok: "range_ok a" "range_ok b" and ne: "\<not> is_empty a" "\<not> is_empty b" and t: "t \<noteq> I32"
  shows "\<not> is_empty (arith_range f t a b)"
proof (cases "ranged_arith f")
  case True
  obtain x y :: i64 where xy: "contains a (sint x)" "contains b (sint y)"
    using nonempty_member ok ne by metis
  obtain q where "word_arith f x y = Some q" using True by (cases f) (simp_all add: ranged_arith_def)
  from not_i32_weaker [OF t arith_sound_64 [OF ok xy this]] show ?thesis
    by (auto simp: fit_to_type_def contains_def split: if_splits)
qed (simp add: unranged_arith full_range_not_empty)

lemma evaluate_arith_sound_32:
  fixes x y :: i64
  assumes ok: "range_ok ra" "range_ok rb" and c: "contains ra (sint x)" "contains rb (sint y)"
    and q: "word_arith f (ucast x :: i32) (ucast y) = Some q" and can: "ranged_arith f \<Longrightarrow> canonical x 32 = x"
  shows "contains (fit_to_type (arith_range f I32 ra rb) I32) (sint q)"
proof (cases "ranged_arith f")
  case True
  then have "sint x = sint (ucast x :: i32)" using can canonical_sint by blast
  then have "contains ra (sint (ucast x :: i32))" using c(1) by simp
  from arith_sound_32 [OF ok this c(2) q] show ?thesis .
qed (simp add: unranged_arith full_range_of_i32)

section \<open>Operands as the interpreter holds them\<close>

lemma raw_held_wide: "kind_of_type (val_type (vt v)) \<noteq> RI32 \<Longrightarrow> raw_bits (held vt env v) = env v"
  by (simp add: held_def from_u64_def)

lemma raw_held_low: "kind_of_type (val_type (vt v)) = RI32 \<Longrightarrow> raw_bits (held vt env v) = ucast (ucast (env v) :: u32)"
  by (simp add: held_def from_u32_def)

lemma ucast_held: "(ucast (raw_bits (held vt env v)) :: i32) = ucast (env v)"
  by (cases "kind_of_type (val_type (vt v)) = RI32") (simp_all add: raw_held_wide raw_held_low)

lemma shift_amount_held: "shift_amount (raw_bits (held vt env v)) = shift_amount (env v)"
proof (cases "kind_of_type (val_type (vt v)) = RI32")
  case True
  have "n mod 64 = take_bit 6 n" for n :: nat by (simp add: take_bit_eq_mod)
  then show ?thesis using True by (simp add: raw_held_low shift_amount_def unsigned_ucast_eq unsigned_take_bit_eq take_bit_take_bit)
qed (simp add: raw_held_wide)

lemma shift_cong:
  "f \<in> {Op_shl, Op_lshr, Op_ashr} \<Longrightarrow> shift_amount y = shift_amount z \<Longrightarrow> word_arith f x y = word_arith f x z"
  by auto

text \<open>The cases of \<open>inst_value\<close>, one group of opcodes each.\<close>

lemma inst_value_arithE:
  assumes "inst_value patches vt env inst = Some r" "opcode inst = OpArith f"
  obtains a b where "operand inst 0 = Some a" "operand inst 1 = Some b"
    and "if narrow_int_bits (val_type (vt a)) \<noteq> 0
      then narrow_result (eval_narrow_int (OpArith f) (narrow_int_bits (val_type (vt a))) [held vt env a, held vt env b]) = Some r
      else (inst_type inst = I32 \<or> inst_type inst = I64) \<and>
        binary (OpArith f) (width_of (inst_type inst)) (raw_bits (held vt env a)) (raw_bits (held vt env b)) = Some r"
  using assms that by (auto simp: inst_value_def Let_def split: option.splits if_splits)

lemma inst_value_cmpE:
  assumes "inst_value patches vt env inst = Some r" "opcode inst = OpCmp c"
  obtains a b where "operand inst 0 = Some a" "operand inst 1 = Some b"
    and "if narrow_int_bits (val_type (vt a)) \<noteq> 0
      then narrow_result (eval_narrow_int (OpCmp c) (narrow_int_bits (val_type (vt a))) [held vt env a, held vt env b]) = Some r
      else binary (OpCmp c) (width_of (val_type (vt a))) (raw_bits (held vt env a)) (raw_bits (held vt env b)) = Some r"
  using assms that by (auto simp: inst_value_def Let_def split: option.splits if_splits)

lemma inst_value_convE:
  assumes "inst_value patches vt env inst = Some r" "opcode inst = OpConv f"
  obtains a where "operand inst 0 = Some a"
    and "f = Op_zext_i64 \<and> val_type (vt a) = I8 \<and> r = raw_bits (held vt env a) AND 0xff \<or>
      convert (OpConv f) (val_type (vt a)) (env a) = Some r"
  using assms that by (auto simp: inst_value_def Let_def split: option.splits if_splits)

lemma binary_cmp_flag: "binary (OpCmp c) w x y = Some r \<Longrightarrow> r = 0 \<or> r = 1"
  by (cases c) (auto simp: binary_def Let_def split: if_splits)

lemma cmp_held:
  assumes "val_type (vt b) = val_type (vt a)" "narrow_int_bits (val_type (vt a)) = 0"
  shows "binary (OpCmp c) (width_of (val_type (vt a))) (raw_bits (held vt env a)) (raw_bits (held vt env b)) =
    binary (OpCmp c) (width_of (val_type (vt a))) (env a) (env b)"
proof (cases "val_type (vt a) = I32")
  case True
  then show ?thesis by (simp add: width_of_def binary_32_cmp ucast_held)
next
  case False
  then have "kind_of_type (val_type (vt a)) \<noteq> RI32"
    using assms(2) by (cases "val_type (vt a)") (simp_all add: narrow_int_bits_def)
  then show ?thesis using assms(1) by (simp add: raw_held_wide)
qed

lemma narrow_cmp_flag:
  "narrow_result (eval_narrow_int (OpCmp c) bits vs) = Some r \<Longrightarrow> r = 0 \<or> r = 1"
  by (cases c) (auto simp: narrow_result_def eval_narrow_int_def narrow_cmp_def narrow_flag_def from_i32_def Let_def
      split: if_splits)

section \<open>What acceptance says of the operands\<close>

lemmas verifier_defs = accepted_def check_scalar_def op_type_def type_defs result_matches_def

lemma accepted_narrow:
  assumes "accepted vt inst" "opcode inst = OpArith f" "operand inst 0 = Some a" "narrow_int_bits (val_type (vt a)) \<noteq> 0"
  shows "inst_type inst = val_type (vt a)"
  using assms
  by (cases f; cases "val_type (vt a)")
    (auto simp: verifier_defs check_arith_def add_sub_rule_def mul_div_rule_def bitwise_rule_def check_fma_def
      check_float_unary_def check_float_binary_def narrow_int_bits_def
      dest!: requires_twoD check_unaryD split: if_splits)

lemma accepted_ranged:
  assumes "accepted vt inst" "opcode inst = OpArith f" "ranged_arith f" "operand inst 0 = Some a" "operand inst 1 = Some b"
  shows "inst_type inst = I32 \<Longrightarrow> val_type (vt a) = I32"
    and "inst_type inst = I64 \<Longrightarrow> kind_of_type (val_type (vt a)) \<noteq> RI32"
    and "inst_type inst = I64 \<Longrightarrow> f \<in> {Op_add, Op_sub, Op_mul} \<Longrightarrow> kind_of_type (val_type (vt b)) \<noteq> RI32"
  using assms
  by (auto simp: verifier_defs check_arith_def add_sub_rule_def mul_div_rule_def bitwise_rule_def ranged_arith_def
      dest!: requires_twoD split: if_splits)

lemma accepted_cmp:
  assumes "accepted vt inst" "opcode inst = OpCmp c" "operand inst 0 = Some a" "operand inst 1 = Some b"
  shows "val_type (vt b) = val_type (vt a)"
  using assms by (auto simp: verifier_defs check_cmp_def mismatch_def dest!: requires_twoD split: if_splits)

lemma accepted_select:
  assumes "accepted vt inst" "opcode inst = OpSel f" "operand inst 1 = Some a" "operand inst 2 = Some b"
  shows "val_type (vt a) = inst_type inst" "val_type (vt b) = inst_type inst"
  using assms by (auto simp: verifier_defs check_select_def mismatch_def split: option.splits if_splits)

lemma accepted_conv:
  assumes "accepted vt inst" "opcode inst = OpConv f"
  shows "f \<in> {Op_sext_i64, Op_zext_i64} \<Longrightarrow> inst_type inst = I64" "f = Op_trunc_i32 \<Longrightarrow> inst_type inst = I32"
  using assms by (auto simp: verifier_defs check_conv_def result_must_be_def)

lemma accepted_const:
  assumes "accepted vt inst" "opcode inst = OpConst f"
  shows "f \<in> {Op_iconst_i32, Op_patchable_const_i32} \<Longrightarrow> inst_type inst = I32"
    "f \<in> {Op_iconst_i64, Op_patchable_const_i64} \<Longrightarrow> inst_type inst = I64"
    "f = Op_fconst_f64 \<Longrightarrow> inst_type inst \<noteq> I32"
  using assms by (auto simp: verifier_defs check_const_def check_other_const_def Let_def)

section \<open>Soundness of the instruction ranges, by group\<close>

lemma bool_range: "contains r (of_bool b) \<Longrightarrow> contains (fit_to_type r t) (sint (of_bool b :: i64))"
proof -
  assume c: "contains r (of_bool b)"
  have s: "sint (of_bool b :: i64) = of_bool b" by (cases b) simp_all
  then show ?thesis
    using c fit_contains_32 [of r "of_bool b"] fit_contains_64 [of r "of_bool b"]
      fit_contains_other [of t r "of_bool b" "of_bool b"]
    by (cases "t = I32"; cases "t = I64") auto
qed

lemma evaluate_cmp_sound:
  assumes c: "contains ra (sint x)" "contains rb (sint y)"
    and v: "binary (OpCmp op) (width_of t) x y = Some r"
    and can: "t = I32 \<Longrightarrow> canonical x 32 = x \<and> canonical y 32 = y"
  shows "contains (fit_to_type (evaluate_comparison op ra rb) t') (sint r)"
proof (cases "t = I32")
  case True
  then have r: "r = of_bool (word_cmp op (ucast x :: i32) (ucast y))"
    using v by (simp add: width_of_def binary_32_cmp)
  have "sint x = sint (ucast x :: i32)" "sint y = sint (ucast y :: i32)"
    using can True canonical_sint by blast+
  then show ?thesis
    unfolding r using evaluate_comparison_sound [of ra "ucast x :: i32" rb "ucast y"] c
    by (intro bool_range) simp
next
  case False
  then have "width_of t = 64" using v by (auto simp: width_of_def binary_def split: if_splits)
  then have r: "r = of_bool (word_cmp op x y)" using v by (simp add: binary_64_cmp)
  show ?thesis
    unfolding r using evaluate_comparison_sound [OF c] by (rule bool_range)
qed

lemma evaluate_conv_sound:
  assumes c: "contains ra (sint x)" and can: "t = I32 \<Longrightarrow> canonical x 32 = x"
    and v: "convert (OpConv f) t x = Some r"
  shows "f = Op_sext_i64 \<Longrightarrow> contains (range_sext ra) (sint r)"
    and "f = Op_zext_i64 \<Longrightarrow> contains (range_zext ra) (sint r)"
    and "f = Op_trunc_i32 \<Longrightarrow> contains (range_trunc ra) (sint r)"
    and "f \<in> {Op_sext_i64, Op_zext_i64, Op_trunc_i32}"
proof -
  have s: "sint x = sint (ucast x :: i32)" if "t = I32" using can that canonical_sint by blast
  show "contains (range_sext ra) (sint r)" if "f = Op_sext_i64"
    using v c that s sext_sound [of ra "ucast x"] by (auto simp: convert_def canonical_32 split: if_splits)
  show "contains (range_zext ra) (sint r)" if "f = Op_zext_i64"
  proof -
    have "x AND 0xFFFFFFFF = ucast (ucast x :: i32)"
      using ucast_down_and_mask [of x] by (simp add: mask_eq_exp_minus_1)
    then show ?thesis
      using v c that s zext_sound [of ra "ucast x"] by (auto simp: convert_def split: if_splits)
  qed
  show "contains (range_trunc ra) (sint r)" if "f = Op_trunc_i32"
    using v c that trunc_sound [of ra x] by (auto simp: convert_def canonical_32 sint_scast_32_64 split: if_splits)
  show "f \<in> {Op_sext_i64, Op_zext_i64, Op_trunc_i32}"
    using v by (cases f) (simp_all add: convert_def)
qed

lemma fit_contains:
  assumes c: "contains r (sint (x :: i64))" and can: "t = I32 \<Longrightarrow> canonical x 32 = x"
  shows "contains (fit_to_type r t) (sint x)"
proof (cases "t = I32")
  case True
  then have "sint x = sint (ucast x :: i32)" using can canonical_sint by blast
  then show ?thesis
    using True c sint_range32 [of "ucast x"] by (intro fit_contains_32 [of r, folded True]) auto
next
  case False
  then show ?thesis
    using c fit_contains_64 [OF c] fit_contains_other [of t r "sint x" x] by (cases "t = I64") auto
qed

lemma binary_32_canonical: "binary op 32 a b = Some r \<Longrightarrow> canonical r 32 = r"
proof (cases op)
  case (OpCmp c)
  assume "binary op 32 a b = Some r"
  then have "r = of_bool (word_cmp c (ucast a :: i32) (ucast b))" by (simp add: OpCmp binary_32_cmp)
  then show ?thesis by (simp add: canonical_32)
qed (auto simp: binary_32_arith binary_other canonical_32)

lemma inst_value_canonical:
  assumes can: "canonical_env vt env" and ty: "accepted vt inst" and v: "inst_value patches vt env inst = Some r"
    and t: "inst_type inst = I32"
  shows "canonical r 32 = r"
proof (cases "opcode inst")
  case (OpConst f)
  then show ?thesis using accepted_const [OF ty OpConst] v t by (cases f) (auto simp: inst_value_def canonical_32)
next
  case (OpArith f)
  from v this show ?thesis
  proof (rule inst_value_arithE)
    fix a b
    assume a: "operand inst 0 = Some a" and r: "if narrow_int_bits (val_type (vt a)) \<noteq> 0
      then narrow_result (eval_narrow_int (OpArith f) (narrow_int_bits (val_type (vt a))) [held vt env a, held vt env b]) = Some r
      else (inst_type inst = I32 \<or> inst_type inst = I64) \<and>
        binary (OpArith f) (width_of (inst_type inst)) (raw_bits (held vt env a)) (raw_bits (held vt env b)) = Some r"
    have "narrow_int_bits (val_type (vt a)) = 0"
      using accepted_narrow [OF ty OpArith a] t by (auto simp: narrow_int_bits_def)
    then show ?thesis using r t by (auto simp: width_of_def dest: binary_32_canonical)
  qed
next
  case (OpCmp c)
  with v have "r = 0 \<or> r = 1"
    by (rule inst_value_cmpE) (use narrow_cmp_flag binary_cmp_flag in \<open>meson\<close>)
  then show ?thesis by (auto simp: canonical_32)
next
  case (OpConv f)
  then show ?thesis
    using accepted_conv [OF ty OpConv] v t
    by (cases f) (auto simp: inst_value_def convert_def canonical_32 Let_def split: option.splits if_splits)
next
  case (OpSel f)
  then obtain c a b where "operand inst 1 = Some a" "operand inst 2 = Some b" "r = env a \<or> r = env b"
    using v by (cases f) (auto simp: inst_value_def Let_def split: option.splits if_splits)
  then show ?thesis using accepted_select [OF ty OpSel] can t by (auto simp: canonical_env_def)
qed (use v in \<open>simp_all add: inst_value_def\<close>)

text \<open>An arithmetic instruction, at its three kinds of type.\<close>

lemma evaluate_arith_value:
  assumes ok: "range_ok ra" "range_ok rb" and c: "contains ra (sint (env a))" "contains rb (sint (env b))"
    and full: "\<not> is_int_value vt (Some b) \<Longrightarrow> is_full rb"
    and can: "canonical_env vt env" and ty: "accepted vt inst" "\<not> mixed_width vt inst"
    and op: "opcode inst = OpArith f" "operand inst 0 = Some a" "operand inst 1 = Some b"
    and v: "inst_value patches vt env inst = Some r"
  shows "contains (fit_to_type (arith_range f (inst_type inst) ra rb) (inst_type inst)) (sint r)"
proof -
  consider (narrow) "inst_type inst \<noteq> I32" "inst_type inst \<noteq> I64"
    | (word) "inst_type inst = I32" "binary (OpArith f) 32 (raw_bits (held vt env a)) (raw_bits (held vt env b)) = Some r"
    | (long) "inst_type inst = I64" "binary (OpArith f) 64 (raw_bits (held vt env a)) (raw_bits (held vt env b)) = Some r"
    using v op(1)
    by (rule inst_value_arithE)
      (use op(2,3) accepted_narrow [OF ty(1) op(1,2)] in \<open>auto simp: width_of_def narrow_int_bits_def split: if_splits\<close>)
  then show ?thesis
  proof cases
    case narrow
    then show ?thesis
      using arith_not_empty [OF ok contains_not_empty [OF c(1)] contains_not_empty [OF c(2)]] by (intro fit_other)
  next
    case word
    obtain q where q: "word_arith f (ucast (env a) :: i32) (ucast (env b)) = Some q" "r = scast q"
      using word(2) by (auto simp: binary_32_arith ucast_held)
    have "canonical (env a) 32 = env a" if "ranged_arith f"
      using accepted_ranged(1) [OF ty(1) op(1) that op(2,3) word(1)] can by (simp add: canonical_env_def)
    then show ?thesis
      using evaluate_arith_sound_32 [OF ok c q(1)] word(1) q(2) sint_scast_32_64 by simp
  next
    case long
    show ?thesis
    proof (cases "ranged_arith f")
      case False
      then show ?thesis using full_range_of_i64 [of r] long(1) by (simp add: unranged_arith)
    next
      case True
      note acc = accepted_ranged [OF ty(1) op(1) True op(2,3)]
      have a: "word_arith f (env a) (raw_bits (held vt env b)) = Some r"
        using long(2) raw_held_wide [of vt a env, OF acc(2) [OF long(1)]] by (simp add: binary_64_arith)
      have "\<exists>y. contains rb (sint y) \<and> word_arith f (env a) y = Some r"
      proof (cases "kind_of_type (val_type (vt b)) = RI32")
        case False
        then show ?thesis using a c(2) raw_held_wide [of vt b env, OF False] by auto
      next
        case held: True
        show ?thesis
        proof (cases "f \<in> {Op_shl, Op_lshr, Op_ashr}")
          case True
          then show ?thesis using a c(2) shift_cong [OF True shift_amount_held] by metis
        next
          case False
          then have "f \<in> {Op_and, Op_or, Op_xor}"
            using acc(3) [OF long(1)] held True by (auto simp: ranged_arith_def)
          then have "val_type (vt b) \<noteq> I32" using ty(2) op long(1) by (auto simp: mixed_width_def op_type_def)
          moreover have "val_type (vt b) \<noteq> I64" using held by auto
          ultimately have "is_full rb" using full by (simp add: is_int_value_def)
          then show ?thesis using a sint_range64 [of "raw_bits (held vt env b)"] by (auto simp: contains_iff is_full_def)
        qed
      qed
      then show ?thesis using arith_sound_64 [OF ok c(1)] long(1) by auto
    qed
  qed
qed

text \<open>
  The range \<open>evaluate_instruction\<close> computes, fitted to the instruction's type, contains the
  value the instruction computes whenever the context's ranges contain its operands.  On values
  that are neither \<open>i32\<close> nor \<open>i64\<close> the context knows nothing.
\<close>

definition operands_covered :: "value_table \<Rightarrow> ranges \<Rightarrow> ranges \<Rightarrow> (vid \<Rightarrow> i64) \<Rightarrow> Instruction \<Rightarrow> bool" where
  "operands_covered vt g ctx env inst \<longleftrightarrow>
     (\<forall>v \<in> set (operands inst). case v of
        None \<Rightarrow> True
      | Some w \<Rightarrow> contains (get_context_range vt g ctx (Some w)) (sint (env w)) \<and>
          (is_int_value vt (Some w) \<or> is_full (get_context_range vt g ctx (Some w))))"

lemma operand_covered:
  assumes "operands_covered vt g ctx env inst" "operand inst i = Some w"
  shows "contains (get_context_range vt g ctx (Some w)) (sint (env w))"
    and "\<not> is_int_value vt (Some w) \<Longrightarrow> is_full (get_context_range vt g ctx (Some w))"
proof -
  have "Some w \<in> set (operands inst)"
    using assms(2) by (auto simp: operand_def in_set_conv_nth split: if_splits)
  then show "contains (get_context_range vt g ctx (Some w)) (sint (env w))"
    "\<not> is_int_value vt (Some w) \<Longrightarrow> is_full (get_context_range vt g ctx (Some w))"
    using assms(1) by (auto simp: operands_covered_def)
qed

lemma zext_i8_sound:
  assumes "is_full ra"
  shows "contains (range_zext ra) (sint (x AND 0xff :: i64))"
proof -
  have "uint (x AND 0xff) \<le> 0xff" by (simp add: uint_and AND_upper2)
  moreover from this have "sint (x AND 0xff) = uint (x AND 0xff)"
    using sint_of_int64 [of "uint (x AND 0xff)"] uint_ge_0 [of "x AND 0xff"] by simp
  ultimately show ?thesis
    using assms by (simp add: range_zext_def is_full_def is_empty_def is_non_negative_def)
qed

lemma evaluate_conv_value:
  assumes c: "contains ra (sint (env a))" and full: "\<not> is_int_value vt (Some a) \<Longrightarrow> is_full ra"
    and can: "canonical_env vt env" and op: "opcode inst = OpConv f" "operand inst 0 = Some a"
    and v: "inst_value patches vt env inst = Some r"
  shows "f = Op_sext_i64 \<Longrightarrow> contains (range_sext ra) (sint r)"
    and "f = Op_zext_i64 \<Longrightarrow> contains (range_zext ra) (sint r)"
    and "f = Op_trunc_i32 \<Longrightarrow> contains (range_trunc ra) (sint r)"
    and "f \<in> {Op_sext_i64, Op_zext_i64, Op_trunc_i32}"
proof -
  have canv: "val_type (vt a) = I32 \<Longrightarrow> canonical (env a) 32 = env a"
    using can by (simp add: canonical_env_def)
  consider "f = Op_zext_i64" "val_type (vt a) = I8" "r = raw_bits (held vt env a) AND 0xff"
    | "convert (OpConv f) (val_type (vt a)) (env a) = Some r"
    using v op(1) by (rule inst_value_convE) (use op(2) in auto)
  then have "(f = Op_sext_i64 \<longrightarrow> contains (range_sext ra) (sint r)) \<and> (f = Op_zext_i64 \<longrightarrow> contains (range_zext ra) (sint r)) \<and>
    (f = Op_trunc_i32 \<longrightarrow> contains (range_trunc ra) (sint r)) \<and> f \<in> {Op_sext_i64, Op_zext_i64, Op_trunc_i32}"
  proof cases
    case 1
    then have "is_full ra" using full by (simp add: is_int_value_def)
    then show ?thesis using 1 zext_i8_sound by auto
  next
    case 2
    then show ?thesis using evaluate_conv_sound [OF c canv 2] by blast
  qed
  then show "f = Op_sext_i64 \<Longrightarrow> contains (range_sext ra) (sint r)"
    and "f = Op_zext_i64 \<Longrightarrow> contains (range_zext ra) (sint r)"
    and "f = Op_trunc_i32 \<Longrightarrow> contains (range_trunc ra) (sint r)"
    and "f \<in> {Op_sext_i64, Op_zext_i64, Op_trunc_i32}" by blast+
qed

lemma evaluate_cmp_value:
  assumes c: "contains ra (sint (env a))" "contains rb (sint (env b))"
    and can: "canonical_env vt env" and ty: "accepted vt inst"
    and op: "opcode inst = OpCmp cmp" "operand inst 0 = Some a" "operand inst 1 = Some b"
    and v: "inst_value patches vt env inst = Some r"
  shows "r = 0 \<or> r = 1"
    and "is_int_value vt (Some a) \<Longrightarrow> contains (fit_to_type (evaluate_comparison cmp ra rb) t') (sint r)"
proof -
  have same: "val_type (vt b) = val_type (vt a)" by (rule accepted_cmp [OF ty op])
  have canv: "canonical (env w) 32 = env w" if "val_type (vt w) = I32" for w
    using can that by (simp add: canonical_env_def)
  show "r = 0 \<or> r = 1"
    using v op(1) by (rule inst_value_cmpE) (use narrow_cmp_flag binary_cmp_flag in \<open>meson\<close>)
  assume int: "is_int_value vt (Some a)"
  then have bits: "narrow_int_bits (val_type (vt a)) = 0" by (auto simp: is_int_value_def narrow_int_bits_def)
  from v op(1) have "binary (OpCmp cmp) (width_of (val_type (vt a))) (env a) (env b) = Some r"
    by (rule inst_value_cmpE) (use op(2,3) bits cmp_held [OF same bits] in auto)
  then show "contains (fit_to_type (evaluate_comparison cmp ra rb) t') (sint r)"
    by (rule evaluate_cmp_sound [OF c]) (use canv same in simp)
qed

lemma evaluate_sound:
  assumes ok: "ranges_ok g" "ranges_ok ctx" and cov: "operands_covered vt g ctx env inst"
    and can: "canonical_env vt env" and ty: "accepted vt inst" and gap: "\<not> range_gap patches vt inst"
    and v: "inst_value patches vt env inst = Some r"
  shows "contains (fit_to_type (evaluate_instruction vt g ctx inst) (inst_type inst)) (sint r)"
proof -
  note rok = get_context_range_ok [OF ok] and ctx = operand_covered [OF cov]
  have fit: "contains (fit_to_type q (inst_type inst)) (sint r)" if "contains q (sint r)" for q
    using that inst_value_canonical [OF can ty v] by (rule fit_contains)
  show ?thesis
  proof (cases "opcode inst")
    case (OpConst f)
    then have "contains (evaluate_instruction vt g ctx inst) (sint r)"
      using v gap by (cases f) (auto simp: inst_value_def evaluate_instruction_def sint_scast_32_64 range_gap_def patched_away_def)
    then show ?thesis by (rule fit)
  next
    case (OpArith f)
    with v obtain a b where ab: "operand inst 0 = Some a" "operand inst 1 = Some b" by (rule inst_value_arithE)
    have "\<not> mixed_width vt inst" using gap by (simp add: range_gap_def)
    then show ?thesis
      unfolding evaluate_arith [OF OpArith] ab
      by (intro evaluate_arith_value [OF rok rok ctx(1) [OF ab(1)] ctx(1) [OF ab(2)] ctx(2) [OF ab(2)] can ty _ OpArith ab v])
  next
    case (OpCmp c)
    with v obtain a b where ab: "operand inst 0 = Some a" "operand inst 1 = Some b" by (rule inst_value_cmpE)
    note s = evaluate_cmp_value [OF ctx(1) [OF ab(1)] ctx(1) [OF ab(2)] can ty OpCmp ab v]
    then have "contains (mk_range 0 1) (sint r)" by auto
    then show ?thesis
      using s(2) fit by (auto simp: evaluate_instruction_def OpCmp ab ab(2) [unfolded One_nat_def])
  next
    case (OpConv f)
    with v obtain a where a: "operand inst 0 = Some a" by (rule inst_value_convE)
    note s = evaluate_conv_value [OF ctx(1) [OF a] ctx(2) [OF a] can OpConv a v]
    then show ?thesis by (intro fit) (auto simp: evaluate_instruction_def OpConv a)
  next
    case (OpSel f)
    then obtain c a b where abc: "operand inst 0 = Some c" "operand inst 1 = Some a" "operand inst 2 = Some b"
      and r: "r = (if env c \<noteq> 0 then env a else env b)"
      using v by (cases f) (auto simp: inst_value_def Let_def split: option.splits)
    have "sint r = (if sint (env c) \<noteq> 0 then sint (env a) else sint (env b))"
      using r by (simp add: signed_eq_0_iff)
    moreover have "evaluate_instruction vt g ctx inst = range_select (get_context_range vt g ctx (Some c))
        (get_context_range vt g ctx (Some a)) (get_context_range vt g ctx (Some b))"
      using OpSel abc by (cases f) (simp add: evaluate_instruction_def abc(2) [unfolded One_nat_def])
    ultimately show ?thesis
      using select_sound [OF ctx(1) [OF abc(1)] ctx(1) [OF abc(2)] ctx(1) [OF abc(3)]] fit by simp
  qed (use v in \<open>simp_all add: inst_value_def\<close>)
qed

lemma patched_not_contained:
  assumes "accepted vt inst" "patched_away patches inst" "inst_value patches vt env inst = Some r"
  shows "\<not> contains (fit_to_type (evaluate_instruction vt g ctx inst) (inst_type inst)) (sint r)"
proof -
  have eq: "sint r \<noteq> sint (x :: i64)" if "r \<noteq> x" for x using that by (metis word_of_int_sint)
  consider (word) "opcode inst = OpConst Op_patchable_const_i32" | (long) "opcode inst = OpConst Op_patchable_const_i64"
    using assms(2) by (auto simp: patched_away_def)
  then show ?thesis
  proof cases
    case word
    have "r \<noteq> scast (imm_i32 inst)"
      using assms(2,3) word by (auto simp: patched_away_def inst_value_def)
    from eq [OF this] show ?thesis
      using word accepted_const(1) [OF assms(1) word] sint_range32 [of "imm_i32 inst"]
      by (simp add: evaluate_instruction_def fit_to_type_def Let_def sint_scast_32_64 subrange_iff)
  next
    case long
    have "r \<noteq> imm_i64 inst" using assms(2,3) long by (auto simp: patched_away_def inst_value_def)
    from eq [OF this] show ?thesis
      using long accepted_const(2) [OF assms(1) long] by (simp add: evaluate_instruction_def fit_to_type_def)
  qed
qed

section \<open>Properties\<close>


definition example_op :: "Opcode \<Rightarrow> TypeKind \<Rightarrow> vid list \<Rightarrow> i64 \<Rightarrow> Instruction" where
  "example_op op t ops imm =
     (let none = \<lparr>bt_block = None, bt_args = []\<rparr>
      in \<lparr>opcode = op, inst_type = t, result = Some 9, operands = map Some ops, imm_i64 = imm, symbol = ''k'',
          branch_target = none, true_target = none, false_target = none, switch_cases = [], state_map = []\<rparr>)"

definition example_table :: value_table where
  "example_table v = \<lparr>val_type = (if v = 0 then I32 else I64), val_kind = BlockParam, def_inst = None, def_block = None\<rparr>"

lemmas example_op_simps = example_op_def example_table_def operand_def op_type_def Let_def


text \<open>
  The 64-bit \<open>and\<close> of \<open>-1\<close> with an \<open>i32\<close> operand \<open>-1\<close> is accepted.  The interpreter computes
  \<open>0xFFFFFFFF\<close>; from the exact ranges of the operands the analysis concludes \<open>-1\<close>.
\<close>

lemma mixed_width_not_contained:
  "accepted example_table (example_op (OpArith Op_and) I64 [1, 0] 0) \<and>
   inst_value Map.empty example_table (\<lambda>v. - 1) (example_op (OpArith Op_and) I64 [1, 0] 0) = Some 0xFFFFFFFF \<and>
   raw_bits (val_and (held example_table (\<lambda>v. - 1) 1) (held example_table (\<lambda>v. - 1) 0)) = 0xFFFFFFFF \<and>
   fit_to_type (evaluate_instruction example_table Map.empty [0 \<mapsto> constant_range (- 1), 1 \<mapsto> constant_range (- 1)]
     (example_op (OpArith Op_and) I64 [1, 0] 0)) I64 = constant_range (- 1)"
proof -
  have "ucast (ucast (- 1 :: i64) :: u32) = (0xFFFFFFFF :: u64)"
    using ucast_down_and_mask [of "- 1"] by (simp add: mask_eq_exp_minus_1)
  then show ?thesis
    by (simp add: accepted_def check_scalar_def check_arith_def requires_two_def bitwise_rule_def type_defs example_op_simps
        inst_value_def width_of_def binary_def held_def from_u32_def from_u64_def val_and_def narrow_int_bits_def
        from_bits_def canonical_def mask_of_def as_u64_def evaluate_instruction_def get_context_range_def
        get_const_int_def def_of_def range_and_def constant_range_def mk_range_def is_empty_def is_constant_range_def fit_to_type_def)
qed

end
