(* ===== verification/Branch_Refine.thy ===== *)
theory Branch_Refine
  imports Range_Analysis
begin

text \<open>
  Path-sensitive refinement of ranges (\<open>RangeAnalysis::apply_branch_condition\<close> and the rollback
  of \<open>visit_dominator_block\<close>, \<open>src/mir/range_analysis.cpp\<close>): on the edge a conditional branch
  takes, the condition's value and its operands' ranges are narrowed, every write is logged,
  and the log undoes the writes when the walk leaves the block.  The recursion through \<open>and\<close>
  and \<open>or\<close> conditions follows definitions, so it takes fuel; enough fuel is the rank of the
  condition in the definition order.
\<close>

type_synonym rollback = "(vid \<times> ValueRange option) list"
type_synonym refine_state = "ranges \<times> rollback"

definition set_val_range :: "value_table \<Rightarrow> vid \<Rightarrow> ValueRange \<Rightarrow> refine_state \<Rightarrow> refine_state" where
  "set_val_range vt val r st =
     (case st of (ranges, rollback) \<Rightarrow>
        if get_const_int vt (Some val) \<noteq> None then (ranges, rollback)
        else (ranges(val \<mapsto> r), rollback @ [(val, ranges val)]))"

definition set_both ::
  "value_table \<Rightarrow> vid \<Rightarrow> vid \<Rightarrow> ValueRange \<Rightarrow> ValueRange \<Rightarrow> refine_state \<Rightarrow> refine_state" where
  "set_both vt lhs rhs r_lhs r_rhs st = set_val_range vt rhs r_rhs (set_val_range vt lhs r_lhs st)"

text \<open>The switch on the comparison that holds on the edge.\<close>

definition refine_comparison ::
  "value_table \<Rightarrow> CmpOp \<Rightarrow> vid \<Rightarrow> vid \<Rightarrow> ValueRange \<Rightarrow> ValueRange \<Rightarrow> refine_state \<Rightarrow> refine_state" where
  "refine_comparison vt op lhs rhs r_lhs r_rhs st =
     (case op of
        Op_slt \<Rightarrow>
          (let r_lhs = intersect_with r_lhs (mk_range INT64_MIN (sat_sub (max_val r_rhs) 1));
               r_rhs = intersect_with r_rhs (mk_range (sat_add (min_val r_lhs) 1) INT64_MAX)
           in set_both vt lhs rhs r_lhs r_rhs st)
      | Op_sle \<Rightarrow>
          (let r_lhs = intersect_with r_lhs (mk_range INT64_MIN (max_val r_rhs));
               r_rhs = intersect_with r_rhs (mk_range (min_val r_lhs) INT64_MAX)
           in set_both vt lhs rhs r_lhs r_rhs st)
      | Op_sgt \<Rightarrow>
          (let r_rhs = intersect_with r_rhs (mk_range INT64_MIN (sat_sub (max_val r_lhs) 1));
               r_lhs = intersect_with r_lhs (mk_range (sat_add (min_val r_rhs) 1) INT64_MAX)
           in set_both vt lhs rhs r_lhs r_rhs st)
      | Op_sge \<Rightarrow>
          (let r_rhs = intersect_with r_rhs (mk_range INT64_MIN (max_val r_lhs));
               r_lhs = intersect_with r_lhs (mk_range (min_val r_rhs) INT64_MAX)
           in set_both vt lhs rhs r_lhs r_rhs st)
      | Op_ult \<Rightarrow>
          (if min_val r_rhs \<ge> 0 then
             set_both vt lhs rhs (intersect_with r_lhs (mk_range 0 (sat_sub (max_val r_rhs) 1)))
               (intersect_with r_rhs (mk_range 1 INT64_MAX)) st
           else st)
      | Op_ule \<Rightarrow>
          (if min_val r_rhs \<ge> 0 then
             set_val_range vt lhs (intersect_with r_lhs (mk_range 0 (max_val r_rhs))) st
           else st)
      | Op_ugt \<Rightarrow>
          (if min_val r_lhs \<ge> 0 then
             set_val_range vt lhs (intersect_with r_lhs (mk_range 1 INT64_MAX))
               (set_val_range vt rhs (intersect_with r_rhs (mk_range 0 (sat_sub (max_val r_lhs) 1))) st)
           else st)
      | Op_uge \<Rightarrow>
          (if min_val r_lhs \<ge> 0 then
             set_val_range vt rhs (intersect_with r_rhs (mk_range 0 (max_val r_lhs))) st
           else st)
      | Op_eq \<Rightarrow>
          (let inter = intersect_with r_lhs r_rhs in set_both vt lhs rhs inter inter st)
      | Op_ne \<Rightarrow>
          (if is_constant_range r_rhs then
             (if min_val r_lhs = min_val r_rhs \<and> max_val r_lhs > min_val r_rhs then
                set_val_range vt lhs (r_lhs\<lparr>min_val := sat_add (min_val r_rhs) 1\<rparr>) st
              else if max_val r_lhs = min_val r_rhs \<and> min_val r_lhs < min_val r_rhs then
                set_val_range vt lhs (r_lhs\<lparr>max_val := sat_sub (min_val r_rhs) 1\<rparr>) st
              else st)
           else if is_constant_range r_lhs then
             (if min_val r_rhs = min_val r_lhs \<and> max_val r_rhs > min_val r_lhs then
                set_val_range vt rhs (r_rhs\<lparr>min_val := sat_add (min_val r_lhs) 1\<rparr>) st
              else if max_val r_rhs = min_val r_lhs \<and> min_val r_rhs < min_val r_lhs then
                set_val_range vt rhs (r_rhs\<lparr>max_val := sat_sub (min_val r_lhs) 1\<rparr>) st
              else st)
           else st))"

text \<open>The part of the function past the \<open>and\<close>/\<open>or\<close> cases: \<open>cond\<close> is the comparison \<open>cmp\<close>.\<close>

definition refine_edge ::
  "value_table \<Rightarrow> ranges \<Rightarrow> vid \<Rightarrow> Instruction \<Rightarrow> CmpOp \<Rightarrow> bool \<Rightarrow> refine_state \<Rightarrow> refine_state" where
  "refine_edge vt global cond cdef cmp is_true st =
     (let op = (if is_true then cmp else invert_comparison_opcode cmp);
          st1 = set_val_range vt cond (constant_range (if is_true then 1 else 0)) st
      in case (operand cdef 0, operand cdef 1) of
           (Some lhs, Some rhs) \<Rightarrow>
             (if \<not> is_int_value vt (Some lhs) \<or> \<not> is_int_value vt (Some rhs) then st1
              else refine_comparison vt op lhs rhs
                (get_context_range vt global (fst st1) (Some lhs))
                (get_context_range vt global (fst st1) (Some rhs)) st1)
         | _ \<Rightarrow> st1)"

fun apply_branch_condition ::
  "nat \<Rightarrow> value_table \<Rightarrow> ranges \<Rightarrow> vid option \<Rightarrow> bool \<Rightarrow> refine_state \<Rightarrow> refine_state option" where
  "apply_branch_condition 0 vt global cond is_true st = None"
| "apply_branch_condition (Suc fuel) vt global cond is_true st =
     (case cond of
        None \<Rightarrow> Some st
      | Some c \<Rightarrow>
          (case def_of vt c of
             None \<Rightarrow> Some st
           | Some cdef \<Rightarrow>
               (if opcode cdef = OpArith Op_and \<and> is_true then
                  Option.bind (apply_branch_condition fuel vt global (operand cdef 0) True st)
                    (apply_branch_condition fuel vt global (operand cdef 1) True)
                else if opcode cdef = OpArith Op_or \<and> \<not> is_true then
                  Option.bind (apply_branch_condition fuel vt global (operand cdef 0) False st)
                    (apply_branch_condition fuel vt global (operand cdef 1) False)
                else
                  (case opcode cdef of
                     OpCmp cmp \<Rightarrow> Some (refine_edge vt global c cdef cmp is_true st)
                   | _ \<Rightarrow> Some st))))"

text \<open>Leaving a block: the log's entries are put back, last first.\<close>

definition undo_entry :: "ranges \<Rightarrow> vid \<times> ValueRange option \<Rightarrow> ranges" where
  "undo_entry ranges e =
     (case e of (v, Some r) \<Rightarrow> ranges(v \<mapsto> r) | (v, None) \<Rightarrow> ranges(v := None))"

definition undo_rollback :: "ranges \<Rightarrow> rollback \<Rightarrow> ranges" where
  "undo_rollback ranges rollback = foldl undo_entry ranges (rev rollback)"

section \<open>The log undoes the refinement\<close>

definition logged :: "refine_state \<Rightarrow> refine_state \<Rightarrow> bool" where
  "logged st st' \<longleftrightarrow> (\<exists>new. snd st' = snd st @ new \<and> undo_rollback (fst st') new = fst st)"

lemma logged_refl: "logged st st"
  by (simp add: logged_def undo_rollback_def)

lemma logged_trans:
  assumes "logged a b" "logged b c" shows "logged a c"
proof -
  obtain n where n: "snd b = snd a @ n" "undo_rollback (fst b) n = fst a" using assms logged_def by blast
  obtain m where m: "snd c = snd b @ m" "undo_rollback (fst c) m = fst b" using assms logged_def by blast
  have "undo_rollback (fst c) (n @ m) = fst a"
    using n m by (simp add: undo_rollback_def)
  then show ?thesis using n m unfolding logged_def by (metis append_assoc)
qed

lemma logged_set: "logged st (set_val_range vt v r st)"
  by (auto simp: logged_def set_val_range_def undo_rollback_def undo_entry_def split: prod.splits option.splits)

lemma logged_both: "logged st (set_both vt a b p q st)"
  using logged_trans [OF logged_set logged_set] by (simp add: set_both_def)

lemma logged_comparison: "logged st (refine_comparison vt op a b p q st)"
  by (cases op) (auto simp: refine_comparison_def Let_def intro: logged_both logged_set logged_refl
      logged_trans [OF logged_set logged_set])

lemma logged_edge: "logged st (refine_edge vt g c cdef cmp t st)"
  by (auto simp: refine_edge_def Let_def split: option.splits
      intro: logged_set logged_trans [OF logged_set logged_comparison])

text \<open>The four ways a call can go.\<close>

lemma apply_Suc_cases:
  assumes "apply_branch_condition (Suc n) vt g cond t st = Some st'"
  obtains (skip) "st' = st"
  | (conj) c cdef mid where "cond = Some c" "def_of vt c = Some cdef"
      "opcode cdef = OpArith Op_and \<and> t \<or> opcode cdef = OpArith Op_or \<and> \<not> t"
      "apply_branch_condition n vt g (operand cdef 0) t st = Some mid"
      "apply_branch_condition n vt g (operand cdef 1) t mid = Some st'"
  | (cmp) c cdef cmp where "cond = Some c" "def_of vt c = Some cdef" "opcode cdef = OpCmp cmp"
      "st' = refine_edge vt g c cdef cmp t st"
proof (cases cond)
  case None
  then show thesis using assms skip by simp
next
  case (Some c)
  show thesis
  proof (cases "def_of vt c")
    case None
    then show thesis using assms Some skip by simp
  next
    case inner: (Some cdef)
    consider "opcode cdef = OpArith Op_and \<and> t \<or> opcode cdef = OpArith Op_or \<and> \<not> t"
      | cmp where "opcode cdef = OpCmp cmp"
      | "\<not> (opcode cdef = OpArith Op_and \<and> t \<or> opcode cdef = OpArith Op_or \<and> \<not> t)"
        "\<And>cmp. opcode cdef \<noteq> OpCmp cmp" by blast
    then show thesis
    proof cases
      case 1
      then have "Option.bind (apply_branch_condition n vt g (operand cdef 0) t st)
          (apply_branch_condition n vt g (operand cdef 1) t) = Some st'"
        using assms Some inner by auto
      then obtain mid where "apply_branch_condition n vt g (operand cdef 0) t st = Some mid"
        "apply_branch_condition n vt g (operand cdef 1) t mid = Some st'"
        by (auto simp: bind_eq_Some_conv)
      then show thesis by (rule conj [OF Some inner 1])
    next
      case 2
      with assms Some inner have "st' = refine_edge vt g c cdef cmp t st" by simp
      with Some inner 2 show thesis by (rule cmp)
    next
      case 3
      with assms Some inner show thesis by (intro skip) (auto split: Opcode.splits if_splits)
    qed
  qed
qed

lemma logged_apply: "apply_branch_condition n vt g c t st = Some st' \<Longrightarrow> logged st st'"
proof (induction n arbitrary: c t st st')
  case (Suc n)
  from Suc.prems show ?case
    by (cases rule: apply_Suc_cases) (use Suc.IH in \<open>blast intro: logged_refl logged_edge logged_trans\<close>)+
qed simp

section \<open>Termination\<close>

text \<open>Following definitions through \<open>and\<close> and \<open>or\<close> descends in a rank of the values.\<close>

definition ranked :: "value_table \<Rightarrow> (vid \<Rightarrow> nat) \<Rightarrow> bool" where
  "ranked vt rank \<longleftrightarrow>
     (\<forall>c cdef i v. def_of vt c = Some cdef \<longrightarrow>
       opcode cdef = OpArith Op_and \<or> opcode cdef = OpArith Op_or \<longrightarrow>
       operand cdef i = Some v \<longrightarrow> rank v < rank c)"

lemma apply_terminates:
  assumes r: "ranked vt rank"
  shows "(case c of None \<Rightarrow> 0 | Some v \<Rightarrow> Suc (rank v)) < n \<Longrightarrow> \<exists>st'. apply_branch_condition n vt g c t st = Some st'"
proof (induction n arbitrary: c t st)
  case (Suc n)
  have sub: "\<exists>st'. apply_branch_condition n vt g (operand cdef i) b st = Some st'"
    if d: "def_of vt v = Some cdef" "opcode cdef = OpArith Op_and \<or> opcode cdef = OpArith Op_or" "c = Some v"
    for v cdef i b st
  proof (rule Suc.IH)
    have "rank w < rank v" if "operand cdef i = Some w" for w
      using r d that unfolding ranked_def by blast
    then show "(case operand cdef i of None \<Rightarrow> 0 | Some v \<Rightarrow> Suc (rank v)) < n"
      using Suc.prems d(3) by (auto split: option.split intro: less_trans)
  qed
  show ?case
  proof (cases "\<exists>v cdef. c = Some v \<and> def_of vt v = Some cdef \<and>
      (opcode cdef = OpArith Op_and \<or> opcode cdef = OpArith Op_or)")
    case True
    then obtain v cdef where d: "def_of vt v = Some cdef"
      "opcode cdef = OpArith Op_and \<or> opcode cdef = OpArith Op_or" "c = Some v" by blast
    then have "\<exists>st'. Option.bind (apply_branch_condition n vt g (operand cdef 0) t st)
        (apply_branch_condition n vt g (operand cdef 1) t) = Some st'"
      using sub [OF d] by (metis bind_eq_Some_conv)
    then show ?thesis using d by auto
  next
    case False
    then show ?thesis by (auto split: option.split Opcode.split)
  qed
qed simp

section \<open>Soundness\<close>

text \<open>
  \<open>covers\<close>: the ranges in scope contain the values of the defined variables \<open>L\<close>.  The values of
  a program are consistent with their definitions, which the verifier accepts: a comparison of
  integers and a bitwise combination, narrow ones included, have the value the interpreter
  computes, any other comparison is 0 or 1.
\<close>

definition covers :: "value_table \<Rightarrow> ranges \<Rightarrow> (vid \<Rightarrow> i64) \<Rightarrow> vid set \<Rightarrow> ranges \<Rightarrow> bool" where
  "covers vt g env L ranges \<longleftrightarrow>
     (\<forall>v \<in> L. contains (get_context_range vt g ranges (Some v)) (sint (env v)))"

definition consistent :: "patched_consts \<Rightarrow> value_table \<Rightarrow> (vid \<Rightarrow> i64) \<Rightarrow> vid set \<Rightarrow> bool" where
  "consistent patches vt env L \<longleftrightarrow>
     (\<forall>v \<in> L. \<forall>inst. def_of vt v = Some inst \<longrightarrow>
       accepted vt inst \<and> (\<forall>i w. operand inst i = Some w \<longrightarrow> w \<in> L) \<and>
       (case opcode inst of
          OpArith f \<Rightarrow> (f = Op_and \<or> f = Op_or) \<longrightarrow> inst_value patches vt env inst = Some (env v)
        | OpCmp c \<Rightarrow>
            (if is_int_value vt (operand inst 0) \<and> is_int_value vt (operand inst 1)
             then inst_value patches vt env inst = Some (env v)
             else env v = 0 \<or> env v = 1)
        | _ \<Rightarrow> True))"

lemma set_val_covers:
  "covers vt g env L (fst st) \<Longrightarrow> contains r (sint (env v)) \<Longrightarrow>
    covers vt g env L (fst (set_val_range vt v r st))"
  by (auto simp: covers_def set_val_range_def get_context_range_def split: prod.splits option.splits)

lemma set_both_covers:
  "covers vt g env L (fst st) \<Longrightarrow> contains p (sint (env a)) \<Longrightarrow> contains q (sint (env b)) \<Longrightarrow>
    covers vt g env L (fst (set_both vt a b p q st))"
  by (simp add: set_both_def set_val_covers)

lemma unsigned_below_non_negative:
  fixes x y :: "'a::len word"
  assumes y: "0 \<le> sint y"
  shows "x < y \<Longrightarrow> 0 \<le> sint x \<and> sint x < sint y" "x \<le> y \<Longrightarrow> 0 \<le> sint x \<and> sint x \<le> sint y"
proof -
  have "0 \<le> sint x" if "x \<le> y"
  proof (rule ccontr)
    assume "\<not> 0 \<le> sint x"
    then have "uint x = sint x + 2 ^ LENGTH('a)"
      using sint_as_uint [of x] uint_ge_0 [of x] by (auto split: if_splits)
    moreover have "uint x \<le> uint y" using that by (simp add: word_le_def)
    moreover have "(2 :: int) ^ LENGTH('a) = 2 * 2 ^ (LENGTH('a) - 1)"
      by (metis len_gt_0 power_minus_mult mult.commute)
    ultimately show False
      using sint_greater_eq [of x] sint_lt [of y] uint_of_non_negative [OF y] by simp
  qed
  then show "x < y \<Longrightarrow> 0 \<le> sint x \<and> sint x < sint y" "x \<le> y \<Longrightarrow> 0 \<le> sint x \<and> sint x \<le> sint y"
    using unsigned_order_non_negative [of x y] y by auto
qed

lemma sat_bounds:
  "fits_int64 a \<Longrightarrow> v < a \<Longrightarrow> INT64_MIN \<le> v \<Longrightarrow> v \<le> sat_sub a 1"
  "fits_int64 a \<Longrightarrow> a < v \<Longrightarrow> v \<le> INT64_MAX \<Longrightarrow> sat_add a 1 \<le> v"
  by (auto simp: sat_sub_def sat_add_def Let_def fits_int64_def)

lemma word_cmp_invert: "word_cmp (invert_comparison_opcode c) x y \<longleftrightarrow> \<not> word_cmp c x y"
  by (cases c) auto

lemma fits_bounds: "range_ok r \<Longrightarrow> fits_int64 (min_val r) \<and> fits_int64 (max_val r)"
  by (simp add: range_ok_def)

lemma contains_trim:
  "contains r v \<Longrightarrow> v \<noteq> c \<Longrightarrow> c = min_val r \<Longrightarrow> range_ok r \<Longrightarrow>
    contains (r\<lparr>min_val := sat_add c 1\<rparr>) v"
  "contains r v \<Longrightarrow> v \<noteq> c \<Longrightarrow> c = max_val r \<Longrightarrow> range_ok r \<Longrightarrow>
    contains (r\<lparr>max_val := sat_sub c 1\<rparr>) v"
  by (auto simp: contains_iff range_ok_def fits_int64_def sat_add_def sat_sub_def Let_def)

lemma contains_inter_mk:
  "contains r v \<Longrightarrow> lo \<le> v \<Longrightarrow> v \<le> hi \<Longrightarrow> contains (intersect_with r (mk_range lo hi)) v"
  by (simp add: contains_intersect)

lemma intersect_min_le:
  "contains (intersect_with r q) v \<Longrightarrow> range_ok r \<Longrightarrow> range_ok q \<Longrightarrow>
    min_val (intersect_with r q) \<le> v \<and> fits_int64 (min_val (intersect_with r q))"
  using intersect_ok [of r q] by (auto simp: contains_iff range_ok_def)

lemma refine_comparison_sound:
  fixes x y :: "'a::len word"
  assumes cov: "covers vt g env L (fst st)"
    and p: "contains p (sint x)" "range_ok p" and q: "contains q (sint y)" "range_ok q"
    and env: "sint (env a) = sint x" "sint (env b) = sint y" and holds: "word_cmp op x y"
  shows "covers vt g env L (fst (refine_comparison vt op a b p q st))"
proof -
  have pf: "fits_int64 (min_val p)" "fits_int64 (max_val p)" "min_val p \<le> sint x" "sint x \<le> max_val p"
    and qf: "fits_int64 (min_val q)" "fits_int64 (max_val q)" "min_val q \<le> sint y" "sint y \<le> max_val q"
    using p q by (auto simp: range_ok_def contains_iff)
  then have lim: "INT64_MIN \<le> sint x" "sint x \<le> INT64_MAX" "INT64_MIN \<le> sint y" "sint y \<le> INT64_MAX"
    by (auto simp: fits_int64_def)
  have fs: "fits_int64 (sat_sub m 1)" "fits_int64 (sat_add m 1)" if "fits_int64 m" for m
    using that by (auto simp: sat_sub_def sat_add_def Let_def fits_int64_def)
  have fl: "fits_int64 INT64_MIN" "fits_int64 INT64_MAX" "fits_int64 0" "fits_int64 1"
    by (simp_all add: fits_int64_def)
  note both = set_both_covers [OF cov] and one = set_val_covers [OF cov]
  note two = set_val_covers [OF set_val_covers [OF cov]]
  from holds show ?thesis
  proof (cases op)
    case Op_slt
    let ?p = "intersect_with p (mk_range INT64_MIN (sat_sub (max_val q) 1))"
    have lt: "sint x < sint y" using holds Op_slt by simp
    have px: "contains ?p (sint x)"
      using p lim lt qf by (intro contains_inter_mk sat_bounds(1)) auto
    have "min_val ?p \<le> sint x \<and> fits_int64 (min_val ?p)"
      using intersect_min_le [OF px p(2)] qf fs fl by simp
    then have "contains (intersect_with q (mk_range (sat_add (min_val ?p) 1) INT64_MAX)) (sint y)"
      using q lim lt by (intro contains_inter_mk sat_bounds(2)) auto
    with px show ?thesis by (simp add: refine_comparison_def Op_slt Let_def both env)
  next
    case Op_sle
    let ?p = "intersect_with p (mk_range INT64_MIN (max_val q))"
    have le: "sint x \<le> sint y" using holds Op_sle by simp
    have px: "contains ?p (sint x)" using p lim le qf by (intro contains_inter_mk) auto
    then have "contains (intersect_with q (mk_range (min_val ?p) INT64_MAX)) (sint y)"
      using q lim le by (intro contains_inter_mk) (auto simp: contains_iff)
    with px show ?thesis by (simp add: refine_comparison_def Op_sle Let_def both env)
  next
    case Op_sgt
    let ?q = "intersect_with q (mk_range INT64_MIN (sat_sub (max_val p) 1))"
    have lt: "sint y < sint x" using holds Op_sgt by simp
    have qy: "contains ?q (sint y)"
      using q lim lt pf by (intro contains_inter_mk sat_bounds(1)) auto
    have "min_val ?q \<le> sint y \<and> fits_int64 (min_val ?q)"
      using intersect_min_le [OF qy q(2)] pf fs fl by simp
    then have "contains (intersect_with p (mk_range (sat_add (min_val ?q) 1) INT64_MAX)) (sint x)"
      using p lim lt by (intro contains_inter_mk sat_bounds(2)) auto
    with qy show ?thesis by (simp add: refine_comparison_def Op_sgt Let_def both env)
  next
    case Op_sge
    let ?q = "intersect_with q (mk_range INT64_MIN (max_val p))"
    have le: "sint y \<le> sint x" using holds Op_sge by simp
    have qy: "contains ?q (sint y)" using q lim le pf by (intro contains_inter_mk) auto
    then have "contains (intersect_with p (mk_range (min_val ?q) INT64_MAX)) (sint x)"
      using p lim le by (intro contains_inter_mk) (auto simp: contains_iff)
    with qy show ?thesis by (simp add: refine_comparison_def Op_sge Let_def both env)
  next
    case Op_ult
    have "0 \<le> sint x \<and> sint x < sint y" if "0 \<le> min_val q"
      using that qf holds unsigned_below_non_negative(1) [of y x] by (simp add: Op_ult)
    then show ?thesis
      using cov p q lim qf by (auto simp: refine_comparison_def Op_ult env
        intro!: both contains_inter_mk sat_bounds(1))
  next
    case Op_ule
    have "0 \<le> sint x \<and> sint x \<le> sint y" if "0 \<le> min_val q"
      using that qf holds unsigned_below_non_negative(2) [of y x] by (simp add: Op_ule)
    then show ?thesis
      using cov p lim qf by (auto simp: refine_comparison_def Op_ule env intro!: one contains_inter_mk)
  next
    case Op_ugt
    have "0 \<le> sint y \<and> sint y < sint x" if "0 \<le> min_val p"
      using that pf holds unsigned_below_non_negative(1) [of x y] by (simp add: Op_ugt)
    then show ?thesis
      using cov p q lim pf by (auto simp: refine_comparison_def Op_ugt env
        intro!: two contains_inter_mk sat_bounds(1))
  next
    case Op_uge
    have "0 \<le> sint y \<and> sint y \<le> sint x" if "0 \<le> min_val p"
      using that pf holds unsigned_below_non_negative(2) [of x y] by (simp add: Op_uge)
    then show ?thesis
      using cov q lim pf by (auto simp: refine_comparison_def Op_uge env intro!: one contains_inter_mk)
  next
    case Op_eq
    then have "x = y" using holds by simp
    then show ?thesis
      using p q by (simp add: refine_comparison_def Op_eq Let_def both env contains_intersect)
  next
    case Op_ne
    then have ne: "sint x \<noteq> sint y" using holds by (metis word_cmp.simps(2) word_of_int_sint)
    have kq: "min_val q = sint y" if "is_constant_range q" using constant_contains [OF that q(1)] .
    have kp: "min_val p = sint x" if "is_constant_range p" using constant_contains [OF that p(1)] .
    show ?thesis
      using cov ne kq kp contains_trim [OF p(1) _ _ p(2), of "sint y"]
        contains_trim [OF q(1) _ _ q(2), of "sint x"]
      by (auto simp: refine_comparison_def Op_ne env intro!: one)
  qed
qed

lemma set_val_ok: "ranges_ok (fst st) \<Longrightarrow> range_ok r \<Longrightarrow> ranges_ok (fst (set_val_range vt v r st))"
  by (auto simp: set_val_range_def ranges_ok_def split: prod.splits)

lemma set_both_ok:
  "ranges_ok (fst st) \<Longrightarrow> range_ok p \<Longrightarrow> range_ok q \<Longrightarrow> ranges_ok (fst (set_both vt a b p q st))"
  by (simp add: set_both_def set_val_ok)

lemma trim_ok:
  "range_ok r \<Longrightarrow> fits_int64 c \<Longrightarrow> range_ok (r\<lparr>min_val := c\<rparr>)"
  "range_ok r \<Longrightarrow> fits_int64 c \<Longrightarrow> range_ok (r\<lparr>max_val := c\<rparr>)"
  by (simp_all add: range_ok_def)

lemma sat_fits:
  "fits_int64 m \<Longrightarrow> fits_int64 (sat_sub m 1)" "fits_int64 m \<Longrightarrow> fits_int64 (sat_add m 1)"
  by (auto simp: sat_sub_def sat_add_def Let_def fits_int64_def)

lemma limit_fits: "fits_int64 INT64_MIN" "fits_int64 INT64_MAX" "fits_int64 0" "fits_int64 1"
  by (simp_all add: fits_int64_def)

lemma refine_comparison_ok:
  assumes "ranges_ok (fst st)" and p: "range_ok p" and q: "range_ok q"
  shows "ranges_ok (fst (refine_comparison vt op a b p q st))"
proof -
  have f: "range_ok r \<Longrightarrow> fits_int64 (min_val r)" "range_ok r \<Longrightarrow> fits_int64 (max_val r)" for r
    by (simp_all add: range_ok_def)
  have mk: "fits_int64 lo \<Longrightarrow> fits_int64 hi \<Longrightarrow> range_ok (mk_range lo hi)" for lo hi by simp
  note both = set_both_ok [OF assms(1)] and one = set_val_ok [OF assms(1)]
    and two = set_val_ok [OF set_val_ok [OF assms(1)]]
  show ?thesis
    using assms by (cases op)
      (auto simp: refine_comparison_def Let_def simp del: range_ok_const
        intro!: both one two mk intersect_ok trim_ok sat_fits limit_fits f)
qed

lemma refine_edge_ok:
  assumes g: "ranges_ok g" and st: "ranges_ok (fst st)"
  shows "ranges_ok (fst (refine_edge vt g c cdef cmp t st))"
proof -
  let ?st = "set_val_range vt c (constant_range (if t then 1 else 0)) st"
  have st1: "ranges_ok (fst ?st)"
    using st by (intro set_val_ok) (simp_all add: fits_int64_def)
  note rok = get_context_range_ok [OF g st1]
  show ?thesis
    using st1 refine_comparison_ok [OF st1 rok rok]
    by (auto simp: refine_edge_def Let_def split: option.splits)
qed

definition edge_holds :: "(vid \<Rightarrow> i64) \<Rightarrow> vid option \<Rightarrow> bool \<Rightarrow> bool" where
  "edge_holds env cond t = (case cond of None \<Rightarrow> True | Some c \<Rightarrow> if t then env c \<noteq> 0 else env c = 0)"

lemma comparison_flag:
  assumes con: "consistent patches vt env L" and c: "c \<in> L" "def_of vt c = Some cdef" "opcode cdef = OpCmp cmp"
  shows "env c = 0 \<or> env c = 1"
proof (cases "is_int_value vt (operand cdef 0) \<and> is_int_value vt (operand cdef 1)")
  case True
  then have "inst_value patches vt env cdef = Some (env c)" using con c by (auto simp: consistent_def)
  then show ?thesis using c(3) by (rule inst_value_cmpE) (use narrow_cmp_flag binary_cmp_flag in \<open>meson\<close>)
qed (use con c in \<open>auto simp: consistent_def\<close>)

lemma refine_edge_sound:
  assumes cov: "covers vt g env L (fst st)" and ok: "ranges_ok g" "ranges_ok (fst st)"
    and can: "canonical_env vt env" and con: "consistent patches vt env L"
    and c: "c \<in> L" "def_of vt c = Some cdef" "opcode cdef = OpCmp cmp" and edge: "edge_holds env (Some c) t"
  shows "covers vt g env L (fst (refine_edge vt g c cdef cmp t st))"
proof -
  define st1 where "st1 = set_val_range vt c (constant_range (if t then 1 else 0)) st"
  have con': "accepted vt cdef" "\<And>i w. operand cdef i = Some w \<Longrightarrow> w \<in> L"
    using con c by (auto simp: consistent_def)
  have cov1: "covers vt g env L (fst st1)"
    using cov edge comparison_flag [OF con c] unfolding st1_def
    by (intro set_val_covers) (auto simp: edge_holds_def split: if_splits)
  have ok1: "ranges_ok (fst st1)"
    using ok by (auto simp: st1_def set_val_range_def ranges_ok_def fits_int64_def split: prod.splits)
  show ?thesis
  proof (cases "\<exists>a b. operand cdef 0 = Some a \<and> operand cdef 1 = Some b \<and>
      is_int_value vt (Some a) \<and> is_int_value vt (Some b)")
    case False
    then have "refine_edge vt g c cdef cmp t st = st1"
      by (auto simp: refine_edge_def Let_def st1_def [symmetric] split: option.splits)
    then show ?thesis using cov1 by simp
  next
    case True
    then obtain a b where ab: "operand cdef 0 = Some a" "operand cdef 1 = Some b"
      and int: "is_int_value vt (Some a)" "is_int_value vt (Some b)" by blast
    define op where "op = (if t then cmp else invert_comparison_opcode cmp)"
    have ty: "val_type (vt b) = val_type (vt a)" by (rule accepted_cmp [OF con'(1) c(3) ab])
    have bits: "narrow_int_bits (val_type (vt a)) = 0" using int by (auto simp: is_int_value_def narrow_int_bits_def)
    have "inst_value patches vt env cdef = Some (env c)"
      using con c ab int by (auto simp: consistent_def)
    from this c(3) have val: "binary (OpCmp cmp) (width_of (val_type (vt a))) (env a) (env b) = Some (env c)"
      by (rule inst_value_cmpE) (use ab bits cmp_held [OF ty bits] in auto)
    have L: "a \<in> L" "b \<in> L" using con'(2) ab by blast+
    have eq: "refine_edge vt g c cdef cmp t st = refine_comparison vt op a b
        (get_context_range vt g (fst st1) (Some a)) (get_context_range vt g (fst st1) (Some b)) st1"
      using ab int by (simp add: refine_edge_def Let_def st1_def op_def)
    note rok = get_context_range_ok [OF ok(1) ok1]
    have ca: "contains (get_context_range vt g (fst st1) (Some a)) (sint (env a))"
      and cb: "contains (get_context_range vt g (fst st1) (Some b)) (sint (env b))"
      using cov1 L by (auto simp: covers_def)
    have inv: "word_cmp op x y \<longleftrightarrow> (if t then word_cmp cmp x y else \<not> word_cmp cmp x y)"
      for x y :: "'z::len word" by (simp add: op_def word_cmp_invert)
    show ?thesis
    proof (cases "val_type (vt a) = I32")
      case True
      have s: "sint (env a) = sint (ucast (env a) :: i32)" "sint (env b) = sint (ucast (env b) :: i32)"
        using can True ty by (auto simp: canonical_env_def intro!: canonical_sint)
      have "word_cmp op (ucast (env a) :: i32) (ucast (env b))"
        using val True edge unfolding inv
        by (cases "word_cmp cmp (ucast (env a) :: i32) (ucast (env b))")
          (auto simp: width_of_def binary_32_cmp edge_holds_def split: if_splits)
      then show ?thesis
        unfolding eq using refine_comparison_sound [OF cov1 _ rok _ rok s] ca cb s by simp
    next
      case False
      then have "width_of (val_type (vt a)) = 64" using int by (auto simp: is_int_value_def width_of_def)
      then have "word_cmp op (env a) (env b)"
        using val edge unfolding inv
        by (cases "word_cmp cmp (env a) (env b)") (auto simp: binary_64_cmp edge_holds_def split: if_splits)
      then show ?thesis
        unfolding eq by (intro refine_comparison_sound [OF cov1 ca rok cb rok]) simp_all
    qed
  qed
qed

text \<open>
  A true conjunction has true conjuncts, a false disjunction false ones.  The operands of a
  bitwise operation may have different widths, so what goes down a false edge is that the low
  eight bits are zero; for a comparison, which is 0 or 1, that says it is false.
\<close>

definition edge_low :: "(vid \<Rightarrow> i64) \<Rightarrow> vid option \<Rightarrow> bool \<Rightarrow> bool" where
  "edge_low env cond t =
     (case cond of None \<Rightarrow> True | Some c \<Rightarrow> if t then env c \<noteq> 0 else \<forall>n < 8. \<not> bit (env c) n)"

lemma edge_holds_low: "edge_holds env cond t \<Longrightarrow> edge_low env cond t"
  by (auto simp: edge_holds_def edge_low_def split: option.splits)

lemma edge_low_flag: "edge_low env (Some c) t \<Longrightarrow> env c = 0 \<or> env c = 1 \<Longrightarrow> edge_holds env (Some c) t"
  by (auto simp: edge_holds_def edge_low_def bit_1_iff split: if_splits dest: spec [of _ 0])

lemma raw_held_zero: "env v = 0 \<Longrightarrow> raw_bits (held vt env v) = 0"
  by (cases "kind_of_type (val_type (vt v)) = RI32") (simp_all add: raw_held_wide raw_held_low)

lemma bit_raw_held: "n < 8 \<Longrightarrow> bit (raw_bits (held vt env v)) n \<longleftrightarrow> bit (env v) n"
  by (cases "kind_of_type (val_type (vt v)) = RI32") (auto simp: raw_held_wide raw_held_low bit_simps)

lemma bit_narrow_zext: "n < 8 \<Longrightarrow> bits = 8 \<or> bits = 16 \<Longrightarrow> bit (narrow_zext v bits) n \<longleftrightarrow> bit v n"
  unfolding narrow_zext_def push_bit_of_1 mask_eq_exp_minus_1 [symmetric] by (auto simp: bit_simps)

text \<open>The three forms the value of a bitwise operation has.\<close>

lemma bitwise_valueE:
  assumes "inst_value patches vt env inst = Some r" "opcode inst = OpArith f"
  obtains a b where "operand inst 0 = Some a" "operand inst 1 = Some b"
    and "(\<exists>bits. (bits = 8 \<or> bits = 16) \<and> narrow_result (eval_narrow_int (OpArith f) bits [held vt env a, held vt env b]) = Some r) \<or>
      map_option scast (word_arith f (ucast (env a) :: i32) (ucast (env b))) = Some r \<or>
      word_arith f (raw_bits (held vt env a)) (raw_bits (held vt env b)) = Some r"
  using assms
proof (rule inst_value_arithE)
  fix a b
  assume ab: "operand inst 0 = Some a" "operand inst 1 = Some b"
    and v: "if narrow_int_bits (val_type (vt a)) \<noteq> 0
      then narrow_result (eval_narrow_int (OpArith f) (narrow_int_bits (val_type (vt a))) [held vt env a, held vt env b]) = Some r
      else (inst_type inst = I32 \<or> inst_type inst = I64) \<and>
        binary (OpArith f) (width_of (inst_type inst)) (raw_bits (held vt env a)) (raw_bits (held vt env b)) = Some r"
  show thesis
  proof (cases "narrow_int_bits (val_type (vt a)) = 0")
    case True
    then show ?thesis using v that [OF ab] by (auto simp: width_of_def binary_32_arith binary_64_arith ucast_held)
  next
    case False
    then have "narrow_int_bits (val_type (vt a)) = 8 \<or> narrow_int_bits (val_type (vt a)) = 16"
      by (simp add: narrow_int_bits_def split: if_splits)
    then show ?thesis using v False that [OF ab] by (metis (no_types))
  qed
qed

lemma and_nonzero:
  assumes "inst_value patches vt env inst = Some r" "opcode inst = OpArith Op_and" "r \<noteq> 0"
  obtains a b where "operand inst 0 = Some a" "operand inst 1 = Some b" "env a \<noteq> 0" "env b \<noteq> 0"
  using assms(1,2)
proof (rule bitwise_valueE)
  fix a b
  assume ab: "operand inst 0 = Some a" "operand inst 1 = Some b"
    and v: "(\<exists>bits. (bits = 8 \<or> bits = 16) \<and>
        narrow_result (eval_narrow_int (OpArith Op_and) bits [held vt env a, held vt env b]) = Some r) \<or>
      map_option scast (word_arith Op_and (ucast (env a) :: i32) (ucast (env b))) = Some r \<or>
      word_arith Op_and (raw_bits (held vt env a)) (raw_bits (held vt env b)) = Some r"
  have "r = 0" if "env a = 0 \<or> env b = 0"
  proof -
    have "raw_bits (held vt env a) = 0 \<or> raw_bits (held vt env b) = 0" using that raw_held_zero by blast
    then show ?thesis
      using v that
      by (auto simp: eval_narrow_int_def narrow_arith_def narrow_value_def narrow_result_def narrow_zext_def Let_def
          from_u32_def split: if_splits)
  qed
  then show thesis using that [OF ab] assms(3) by blast
qed

lemma or_low_zero:
  assumes "inst_value patches vt env inst = Some r" "opcode inst = OpArith Op_or" "\<forall>n < 8. \<not> bit r n"
  obtains a b where "operand inst 0 = Some a" "operand inst 1 = Some b"
    and "\<forall>n < 8. \<not> bit (env a) n" "\<forall>n < 8. \<not> bit (env b) n"
  using assms(1,2)
proof (rule bitwise_valueE)
  fix a b
  assume ab: "operand inst 0 = Some a" "operand inst 1 = Some b"
    and v: "(\<exists>bits. (bits = 8 \<or> bits = 16) \<and>
        narrow_result (eval_narrow_int (OpArith Op_or) bits [held vt env a, held vt env b]) = Some r) \<or>
      map_option scast (word_arith Op_or (ucast (env a) :: i32) (ucast (env b))) = Some r \<or>
      word_arith Op_or (raw_bits (held vt env a)) (raw_bits (held vt env b)) = Some r"
  have narrow: "bit r n \<longleftrightarrow> bit (env a) n \<or> bit (env b) n"
    if bits: "bits = 8 \<or> bits = 16" and n: "n < 8"
      and r: "narrow_result (eval_narrow_int (OpArith Op_or) bits [held vt env a, held vt env b]) = Some r" for bits n
  proof -
    have "r = ucast (narrow_zext (ucast (narrow_zext (raw_bits (held vt env a)) bits OR
        narrow_zext (raw_bits (held vt env b)) bits)) bits)"
      using r bits by (auto simp: eval_narrow_int_def narrow_arith_def narrow_value_def narrow_result_def Let_def)
    then show ?thesis
      using n bit_narrow_zext [OF n bits] bit_raw_held [OF n] by (simp add: bit_simps)
  qed
  have "bit r n \<longleftrightarrow> bit (env a) n \<or> bit (env b) n" if n: "n < 8" for n
    using v narrow [OF _ n] n bit_raw_held [OF n] by (auto simp: bit_simps)
  then show thesis using that [OF ab] assms(3) by blast
qed

lemma bitwise_edge:
  assumes con: "consistent patches vt env L"
    and c: "c \<in> L" "def_of vt c = Some cdef"
    and op: "opcode cdef = OpArith Op_and \<and> t \<or> opcode cdef = OpArith Op_or \<and> \<not> t"
    and edge: "edge_low env (Some c) t"
  shows "edge_low env (operand cdef 0) t \<and> edge_low env (operand cdef 1) t"
proof -
  have v: "inst_value patches vt env cdef = Some (env c)" using con c op by (auto simp: consistent_def)
  show ?thesis
  proof (cases t)
    case True
    then have "opcode cdef = OpArith Op_and" "env c \<noteq> 0" using op edge by (auto simp: edge_low_def)
    with v obtain a b where "operand cdef 0 = Some a" "operand cdef 1 = Some b" "env a \<noteq> 0" "env b \<noteq> 0"
      by (rule and_nonzero)
    then show ?thesis using True by (simp add: edge_low_def)
  next
    case False
    then have "opcode cdef = OpArith Op_or" "\<forall>n < 8. \<not> bit (env c) n" using op edge by (auto simp: edge_low_def)
    with v obtain a b where "operand cdef 0 = Some a" "operand cdef 1 = Some b"
      "\<forall>n < 8. \<not> bit (env a) n" "\<forall>n < 8. \<not> bit (env b) n"
      by (rule or_low_zero)
    then show ?thesis using False by (simp add: edge_low_def)
  qed
qed

lemma apply_sound:
  assumes ok: "ranges_ok g" and con: "consistent patches vt env L" and can: "canonical_env vt env"
  shows "apply_branch_condition n vt g cond t st = Some st' \<Longrightarrow> set_option cond \<subseteq> L \<Longrightarrow>
    edge_low env cond t \<Longrightarrow> covers vt g env L (fst st) \<Longrightarrow> ranges_ok (fst st) \<Longrightarrow>
    covers vt g env L (fst st') \<and> ranges_ok (fst st')"
proof (induction n arbitrary: cond t st st')
  case (Suc n)
  from Suc.prems(1) show ?case
  proof (cases rule: apply_Suc_cases)
    case skip
    then show ?thesis using Suc.prems by simp
  next
    case (conj c cdef mid)
    then have L: "c \<in> L" and ops: "set_option (operand cdef 0) \<subseteq> L" "set_option (operand cdef 1) \<subseteq> L"
      using Suc.prems(2) con by (auto simp: consistent_def)
    have e: "edge_low env (operand cdef 0) t" "edge_low env (operand cdef 1) t"
      using bitwise_edge [OF con L conj(2,3)] Suc.prems(3) conj(1) by blast+
    have "covers vt g env L (fst mid) \<and> ranges_ok (fst mid)"
      using Suc.IH [OF conj(4) ops(1) e(1)] Suc.prems by blast
    then show ?thesis using Suc.IH [OF conj(5) ops(2) e(2)] by blast
  next
    case (cmp c cdef cmp)
    then have L: "c \<in> L" and "edge_holds env (Some c) t"
      using Suc.prems(2,3) edge_low_flag comparison_flag [OF con _ cmp(2,3)] by auto
    then show ?thesis
      using refine_edge_sound [OF Suc.prems(4) ok Suc.prems(5) can con L cmp(2,3), of t]
        refine_edge_ok [OF ok Suc.prems(5)] cmp(4) by simp
  qed
qed simp

section \<open>Properties\<close>


text \<open>
  The example: \<open>%2 = slt %0, %1\<close> with \<open>%1 = iconst_i32 10\<close> and a parameter \<open>%0\<close> of value 5; the
  narrow parameter \<open>%3\<close> and the \<open>i8\<close> conjunction \<open>%4 = and %3, %2\<close> are in scope too.
\<close>

definition example_inst :: "Opcode \<Rightarrow> TypeKind \<Rightarrow> vid \<Rightarrow> vid list \<Rightarrow> i64 \<Rightarrow> Instruction" where
  "example_inst op t res ops imm =
     (let none = \<lparr>bt_block = None, bt_args = []\<rparr>
      in \<lparr>opcode = op, inst_type = t, result = Some res, operands = map Some ops, imm_i64 = imm, symbol = [],
          branch_target = none, true_target = none, false_target = none, switch_cases = [], state_map = []\<rparr>)"

definition example_values :: value_table where
  "example_values v =
     (if v = 0 then \<lparr>val_type = I32, val_kind = BlockParam, def_inst = None, def_block = None\<rparr>
      else if v = 1 then \<lparr>val_type = I32, val_kind = InstructionResult,
        def_inst = Some (example_inst (OpConst Op_iconst_i32) I32 1 [] 10), def_block = None\<rparr>
      else if v = 2 then \<lparr>val_type = I32, val_kind = InstructionResult,
        def_inst = Some (example_inst (OpCmp Op_slt) I32 2 [0, 1] 0), def_block = None\<rparr>
      else if v = 3 then \<lparr>val_type = I8, val_kind = BlockParam, def_inst = None, def_block = None\<rparr>
      else \<lparr>val_type = I8, val_kind = InstructionResult,
        def_inst = Some (example_inst (OpArith Op_and) I8 4 [3, 2] 0), def_block = None\<rparr>)"

definition example_env :: "vid \<Rightarrow> i64" where
  "example_env v = (if v = 0 then 5 else if v = 1 then 10 else if v = 3 then 3 else 1)"

lemmas example_simps = example_values_def example_inst_def example_env_def Let_def def_of_def operand_def
  get_const_int_def get_context_range_def get_range_def imm_i32_def is_int_value_def

lemma example_apply:
  "apply_branch_condition 6 example_values Map.empty (Some 4) True (Map.empty, []) =
    Some ([2 \<mapsto> constant_range 1, 0 \<mapsto> mk_range INT32_MIN 9], [(2, None), (0, None)])"
proof -
  have fuel: "6 = Suc (Suc (Suc (Suc (Suc (Suc 0)))))" by simp
  show ?thesis
    unfolding fuel
    by (simp add: refine_edge_def refine_comparison_def set_both_def set_val_range_def example_simps
        intersect_with_def is_empty_def mk_range_def constant_range_def full_range_def sat_sub_def)
qed

lemma example_ranked: "ranked example_values id"
  by (auto simp: ranked_def example_simps nth_Cons split: if_splits nat.splits)




end
