(* ===== verification/Range_Fixpoint.thy ===== *)
theory Range_Fixpoint
  imports Range_Analysis
begin

text \<open>
  Pass 1 of the value range analysis (\<open>RangeAnalysis::run_analysis\<close>,
  \<open>src/mir/range_analysis.cpp\<close>): rounds over all blocks that recompute the ranges of block
  parameters and instruction results until a round changes nothing, with widening from the
  fifth round on and a fall-back to the type's range when 64 rounds are not enough.  A step
  relation gives the executions of a function, and the ranges the pass computes are shown to
  contain every value every execution gives a variable.
\<close>

section \<open>The pass\<close>

definition kWidenAfter :: nat where "kWidenAfter = 4"
definition kMaxIterations :: nat where "kMaxIterations = 64"

definition widen :: "ValueRange \<Rightarrow> ValueRange \<Rightarrow> TypeKind \<Rightarrow> ValueRange" where
  "widen next prev t =
     (let next = union_with next prev;
          limits = full_range_of t;
          next = (if max_val next > max_val prev then next\<lparr>max_val := max_val limits\<rparr> else next);
          next = (if min_val next < min_val prev then next\<lparr>min_val := min_val limits\<rparr> else next)
      in next)"

type_synonym pass_state = "ranges \<times> bool"

text \<open>
  The update both loops make of one value: nothing when the range is the recorded one,
  otherwise the new range, widened in late rounds, and \<open>changed\<close> is set.
\<close>

definition record_range :: "nat \<Rightarrow> vid \<Rightarrow> TypeKind \<Rightarrow> ValueRange \<Rightarrow> pass_state \<Rightarrow> pass_state" where
  "record_range iter v t r st =
     (case st of (g, changed) \<Rightarrow>
        (case g v of
           None \<Rightarrow> (g(v \<mapsto> r), True)
         | Some old \<Rightarrow>
             (if range_eq old r then st
              else
                let r' = (if iter \<ge> kWidenAfter then widen r old t else r)
                in if range_eq old r' then st else (g(v \<mapsto> r'), True))))"

definition add_arg :: "value_table \<Rightarrow> ranges \<Rightarrow> ValueRange \<Rightarrow> vid option \<Rightarrow> ValueRange" where
  "add_arg vt g param_r arg =
     (case arg of
        None \<Rightarrow> param_r
      | Some a \<Rightarrow>
          (case get_const_int vt arg of
             Some c \<Rightarrow> union_with param_r (constant_range c)
           | None \<Rightarrow> (case g a of Some r \<Rightarrow> union_with param_r r | None \<Rightarrow> param_r)))"

definition from_target :: "value_table \<Rightarrow> ranges \<Rightarrow> bid \<Rightarrow> nat \<Rightarrow> ValueRange \<Rightarrow> BranchTarget \<Rightarrow> ValueRange" where
  "from_target vt g bb i param_r bt =
     (if bt_block bt = Some bb \<and> i < length (bt_args bt) then add_arg vt g param_r (bt_args bt ! i)
      else param_r)"

definition edge_targets :: "Instruction \<Rightarrow> BranchTarget list" where
  "edge_targets tm = [branch_target tm, true_target tm, false_target tm] @ map snd (switch_cases tm)"

definition param_range :: "value_table \<Rightarrow> Function \<Rightarrow> ranges \<Rightarrow> bid \<Rightarrow> nat \<Rightarrow> ValueRange" where
  "param_range vt fn g bb i =
     foldl (\<lambda>r pred. case terminator (fn_block fn pred) of
                None \<Rightarrow> r
              | Some tm \<Rightarrow> foldl (from_target vt g bb i) r (edge_targets tm))
       empty_range (predecessors (fn_block fn bb))"

definition entry_param :: "value_table \<Rightarrow> pass_state \<Rightarrow> vid \<Rightarrow> pass_state" where
  "entry_param vt st p =
     (case st of (g, changed) \<Rightarrow>
        if g p = None then (g(p \<mapsto> full_range_of (val_type (vt p))), True) else st)"

definition block_param ::
  "value_table \<Rightarrow> Function \<Rightarrow> nat \<Rightarrow> bid \<Rightarrow> pass_state \<Rightarrow> nat \<Rightarrow> pass_state" where
  "block_param vt fn iter bb st i =
     (let p = params (fn_block fn bb) ! i;
          param_r = fit_to_type (param_range vt fn (fst st) bb i) (val_type (vt p))
      in if is_empty param_r then st else record_range iter p (val_type (vt p)) param_r st)"

definition pass_params :: "value_table \<Rightarrow> Function \<Rightarrow> nat \<Rightarrow> bid \<Rightarrow> pass_state \<Rightarrow> pass_state" where
  "pass_params vt fn iter bb st =
     (if Some bb = entry_block fn then foldl (entry_param vt) st (params (fn_block fn bb))
      else foldl (block_param vt fn iter bb) st [0..<length (params (fn_block fn bb))])"

definition pass_inst :: "value_table \<Rightarrow> nat \<Rightarrow> pass_state \<Rightarrow> Instruction \<Rightarrow> pass_state" where
  "pass_inst vt iter st inst =
     (if \<not> produces_value inst then st
      else
        let r = fit_to_type (evaluate_instruction vt (fst st) (fst st) inst) (inst_type inst)
        in record_range iter (the (result inst)) (inst_type inst) r st)"

definition pass_block :: "value_table \<Rightarrow> Function \<Rightarrow> nat \<Rightarrow> pass_state \<Rightarrow> bid \<Rightarrow> pass_state" where
  "pass_block vt fn iter st bb =
     foldl (pass_inst vt iter) (pass_params vt fn iter bb st) (insts (fn_block fn bb))"

definition pass_round :: "value_table \<Rightarrow> Function \<Rightarrow> nat \<Rightarrow> ranges \<Rightarrow> pass_state" where
  "pass_round vt fn iter g = foldl (pass_block vt fn iter) (g, False) (fn_blocks fn)"

fun pass_loop :: "value_table \<Rightarrow> Function \<Rightarrow> nat \<Rightarrow> nat \<Rightarrow> ranges \<Rightarrow> ranges \<times> bool" where
  "pass_loop vt fn 0 iter g = (g, False)"
| "pass_loop vt fn (Suc left) iter g =
     (case pass_round vt fn iter g of
        (g', changed) \<Rightarrow> if \<not> changed then (g', True) else pass_loop vt fn left (Suc iter) g')"

definition run_pass1 :: "value_table \<Rightarrow> Function \<Rightarrow> ranges" where
  "run_pass1 vt fn =
     (case pass_loop vt fn kMaxIterations 0 Map.empty of
        (g, converged) \<Rightarrow>
          if converged then g else (\<lambda>v. map_option (\<lambda>_. full_range_of (val_type (vt v))) (g v)))"

section \<open>A round that changes nothing\<close>

text \<open>
  \<open>changed\<close> is only ever set, so a round that ends unchanged ran every update on the same
  ranges and each left them as they were.
\<close>

lemma fit_within: "range_ok r \<Longrightarrow> is_subrange_of (fit_to_type r t) (full_range_of t)"
  by (auto simp: fit_to_type_def full_range_of_def subrange_iff contains_iff range_ok_def fits_int64_def
      full_range_def mk_range_def is_empty_def Let_def)

lemma widen_contains:
  assumes "is_subrange_of r (full_range_of t)" "contains r v"
  shows "contains (widen r q t) v"
proof -
  have u: "contains (union_with r q) v" and l: "contains (full_range_of t) v"
    using assms contains_union by (auto simp: subrange_iff)
  show ?thesis
    using u l by (auto simp: widen_def Let_def contains_iff)
qed

lemma widen_ok: "range_ok r \<Longrightarrow> range_ok q \<Longrightarrow> range_ok (widen r q t)"
  using union_ok [of r q]
  by (auto simp: widen_def Let_def range_ok_def full_range_of_def full_range_def mk_range_def fits_int64_def)

lemma record_unchanged:
  assumes w: "is_subrange_of r (full_range_of t)" and "record_range iter v t r (g, c) = (g', False)"
  shows "g' = g \<and> \<not> c \<and> (\<exists>q. g v = Some q \<and> is_subrange_of r q)"
proof -
  have "is_subrange_of r q" if "range_eq q (widen r q t)" for q
    using that widen_contains [OF w, of _ q] by (simp add: subrange_iff range_eq_iff)
  moreover have "is_subrange_of r q" if "range_eq q r" for q
    using that by (simp add: subrange_iff range_eq_iff)
  ultimately show ?thesis
    using assms(2) by (auto simp: record_range_def Let_def split: option.splits if_splits)
qed

lemma record_ok:
  "ranges_ok (fst st) \<Longrightarrow> range_ok r \<Longrightarrow> ranges_ok (fst (record_range iter v t r st))"
  by (auto simp: record_range_def ranges_ok_def Let_def widen_ok split: prod.splits option.splits)

text \<open>Bounds stay in the 64-bit range.\<close>

lemma evaluate_shift_ok: "range_ok a \<Longrightarrow> range_ok b \<Longrightarrow> range_ok (evaluate_shift f t a b)"
proof -
  assume ok: "range_ok a" "range_ok b"
  have "fits_int64 (min_val b AND m)" if "m = 31 \<or> m = 63" for m
    using ok that by (auto simp: range_ok_def fits_int64_def intro!: fits_bitwise(1) [unfolded fits_int64_def])
  then have c: "range_ok (constant_range (min_val b AND 31))" "range_ok (constant_range (min_val b AND 63))"
    by simp_all
  have "0 \<le> drop_bit n UINT32_MAX \<and> drop_bit n UINT32_MAX \<le> INT64_MAX" for n
    using drop_bit_between [of UINT32_MAX n] by (simp add: fits_int64_def)
  then have d: "fits_int64 (drop_bit n UINT32_MAX)" for n
    using drop_bit_between [of UINT32_MAX n] by (simp add: fits_int64_def)
  show ?thesis
    using ok c d shl_transfer.ok ashr_transfer.ok lshr_ok
    by (auto simp: evaluate_shift_def Let_def full_range_of_def fits_int64_def [of 0] fits_int64_def [of INT32_MIN]
        fits_int64_def [of INT32_MAX])
qed

lemma compare_ok: "range_ok (evaluate_comparison c a b)"
  by (cases c) (auto simp: evaluate_comparison_def compare_eq_def compare_ne_def compare_slt_def compare_sle_def
      compare_ult_def compare_ule_def fits_int64_def)

lemma full_range_of_ok: "range_ok (full_range_of t)"
  by (simp add: full_range_of_def fits_int64_def)

lemma evaluate_ok:
  assumes "ranges_ok g" "ranges_ok ctx" shows "range_ok (evaluate_instruction vt g ctx inst)"
proof -
  note rok = get_context_range_ok [OF assms]
  have const: "fits_int64 (sint (x :: i64))" "fits_int64 (sint (y :: i32))" for x y
    using sint_range64 [of x] sint_range32 [of y] by (simp_all add: fits_int64_def)
  show ?thesis
  proof (cases "opcode inst")
    case (OpConst f)
    then show ?thesis
      using const full_range_of_ok by (cases f) (simp_all add: evaluate_instruction_def)
  next
    case (OpArith f)
    show ?thesis
      unfolding evaluate_arith [OF OpArith]
      using rok add_transfer.ok sub_transfer.ok mul_transfer.ok and_transfer.ok or_transfer.ok xor_transfer.ok
        evaluate_shift_ok full_range_of_ok
      by (cases f) (simp_all add: arith_range_def)
  next
    case (OpConv f)
    then show ?thesis
      using rok conversions_ok full_range_of_ok by (cases f) (simp_all add: evaluate_instruction_def)
  next
    case (OpSel f)
    then show ?thesis using rok select_ok by (cases f) (simp add: evaluate_instruction_def)
  next
    case (OpCmp c)
    then show ?thesis using compare_ok by (simp add: evaluate_instruction_def fits_int64_def)
  qed (simp_all add: evaluate_instruction_def full_range_of_ok)
qed

text \<open>
  What the loops over parameters, instructions and blocks rely on of the update they repeat:
  it keeps the invariant of the ranges, and if it leaves \<open>changed\<close> clear then the ranges are as
  they were and already account for the item.
\<close>

locale quiet_update =
  fixes h :: "'s \<times> bool \<Rightarrow> 'x \<Rightarrow> 's \<times> bool" and P :: "'s \<Rightarrow> 'x \<Rightarrow> bool" and I :: "'s \<Rightarrow> bool"
  assumes keep: "I g \<Longrightarrow> I (fst (h (g, c) x))"
    and quiet: "I g \<Longrightarrow> h (g, c) x = (g', False) \<Longrightarrow> g' = g \<and> \<not> c \<and> P g x"
begin

lemma foldl_keep: "I g \<Longrightarrow> I (fst (foldl h (g, c) xs))"
proof (induction xs rule: rev_induct)
  case (snoc x xs)
  then show ?case using keep [of "fst (foldl h (g, c) xs)" "snd (foldl h (g, c) xs)" x] by simp
qed simp

lemma foldl_quiet:
  "I g \<Longrightarrow> foldl h (g, c) xs = (g', False) \<Longrightarrow> g' = g \<and> \<not> c \<and> (\<forall>x \<in> set xs. P g x)"
proof (induction xs arbitrary: g' rule: rev_induct)
  case (snoc x xs)
  obtain g1 c1 where mid: "foldl h (g, c) xs = (g1, c1)" by force
  have "I g1" using foldl_keep [OF snoc.prems(1), of c xs] mid by simp
  moreover have "h (g1, c1) x = (g', False)" using snoc.prems(2) mid by simp
  ultimately have q: "g' = g1 \<and> \<not> c1 \<and> P g1 x" by (rule quiet)
  then have "foldl h (g, c) xs = (g1, False)" using mid by simp
  from snoc.IH [OF snoc.prems(1) this] q show ?case by auto
qed simp

end

definition inst_recorded :: "value_table \<Rightarrow> ranges \<Rightarrow> Instruction \<Rightarrow> bool" where
  "inst_recorded vt g inst \<longleftrightarrow> (produces_value inst \<longrightarrow>
     (\<exists>q. g (the (result inst)) = Some q \<and>
       is_subrange_of (fit_to_type (evaluate_instruction vt g g inst) (inst_type inst)) q))"

definition param_recorded :: "value_table \<Rightarrow> Function \<Rightarrow> bid \<Rightarrow> ranges \<Rightarrow> nat \<Rightarrow> bool" where
  "param_recorded vt fn bb g i \<longleftrightarrow>
     (let p = params (fn_block fn bb) ! i;
          r = fit_to_type (param_range vt fn g bb i) (val_type (vt p))
      in is_empty r \<or> (\<exists>q. g p = Some q \<and> is_subrange_of r q))"

definition block_recorded :: "value_table \<Rightarrow> Function \<Rightarrow> ranges \<Rightarrow> bid \<Rightarrow> bool" where
  "block_recorded vt fn g bb \<longleftrightarrow>
     (\<forall>inst \<in> set (insts (fn_block fn bb)). inst_recorded vt g inst) \<and>
     (if Some bb = entry_block fn then \<forall>p \<in> set (params (fn_block fn bb)). g p \<noteq> None
      else \<forall>i < length (params (fn_block fn bb)). param_recorded vt fn bb g i)"

lemma add_arg_ok: "ranges_ok g \<Longrightarrow> range_ok r \<Longrightarrow> range_ok (add_arg vt g r a)"
  by (auto simp: add_arg_def ranges_ok_def get_const_fits intro!: union_ok split: option.splits)

lemma foldl_range_ok:
  "(\<And>r x. range_ok r \<Longrightarrow> range_ok (f r x)) \<Longrightarrow> range_ok r \<Longrightarrow> range_ok (foldl f r xs)"
  by (induction xs arbitrary: r) simp_all

lemma param_range_ok: "ranges_ok g \<Longrightarrow> range_ok (param_range vt fn g bb i)"
  unfolding param_range_def
  by (intro foldl_range_ok) (auto simp: from_target_def add_arg_ok split: option.splits intro!: foldl_range_ok)

interpretation inst_pass: quiet_update "pass_inst vt iter" "inst_recorded vt" ranges_ok for vt iter
proof
  fix g c inst g'
  assume ok: "ranges_ok g"
  note r = fit_ok [OF evaluate_ok [OF ok ok], of vt inst "inst_type inst"]
  note w = fit_within [OF evaluate_ok [OF ok ok], of vt inst "inst_type inst"]
  show "ranges_ok (fst (pass_inst vt iter (g, c) inst))"
    using ok r by (simp add: pass_inst_def Let_def record_ok)
  assume "pass_inst vt iter (g, c) inst = (g', False)"
  then show "g' = g \<and> \<not> c \<and> inst_recorded vt g inst"
    using record_unchanged [OF w, of iter "the (result inst)" g c g']
    by (cases "produces_value inst") (simp_all add: pass_inst_def Let_def inst_recorded_def)
qed

interpretation param_pass: quiet_update "block_param vt fn iter bb" "param_recorded vt fn bb" ranges_ok
  for vt fn iter bb
proof
  fix g c i g'
  assume ok: "ranges_ok g"
  note r = fit_ok [OF param_range_ok [OF ok], of vt fn bb i]
  note w = fit_within [OF param_range_ok [OF ok], of vt fn bb i "val_type (vt (params (fn_block fn bb) ! i))"]
  show "ranges_ok (fst (block_param vt fn iter bb (g, c) i))"
    using ok r by (simp add: block_param_def Let_def record_ok)
  assume "block_param vt fn iter bb (g, c) i = (g', False)"
  then show "g' = g \<and> \<not> c \<and> param_recorded vt fn bb g i"
    using record_unchanged [OF w, of iter "params (fn_block fn bb) ! i" g c g']
    by (simp add: block_param_def Let_def param_recorded_def split: if_splits)
qed

interpretation entry_pass: quiet_update "entry_param vt" "\<lambda>g p. g p \<noteq> None" ranges_ok for vt
proof
  fix g c p g'
  assume ok: "ranges_ok g"
  show "ranges_ok (fst (entry_param vt (g, c) p))"
    using ok full_range_of_ok by (auto simp: entry_param_def ranges_ok_def)
  assume "entry_param vt (g, c) p = (g', False)"
  then show "g' = g \<and> \<not> c \<and> g p \<noteq> None" by (auto simp: entry_param_def split: if_splits)
qed

interpretation block_pass: quiet_update "pass_block vt fn iter" "block_recorded vt fn" ranges_ok for vt fn iter
proof
  fix g c bb g'
  assume ok: "ranges_ok g"
  obtain g1 c1 where mid: "pass_params vt fn iter bb (g, c) = (g1, c1)" by force
  have ok1: "ranges_ok g1"
    using mid entry_pass.foldl_keep [OF ok, of vt c "params (fn_block fn bb)"]
      param_pass.foldl_keep [OF ok, of vt fn iter bb c "[0..<length (params (fn_block fn bb))]"]
    by (auto simp: pass_params_def split: if_splits)
  show "ranges_ok (fst (pass_block vt fn iter (g, c) bb))"
    using inst_pass.foldl_keep [OF ok1] mid by (simp add: pass_block_def)
  assume "pass_block vt fn iter (g, c) bb = (g', False)"
  then have "foldl (pass_inst vt iter) (g1, c1) (insts (fn_block fn bb)) = (g', False)"
    using mid by (simp add: pass_block_def)
  then have i: "g' = g1 \<and> \<not> c1 \<and> (\<forall>inst \<in> set (insts (fn_block fn bb)). inst_recorded vt g1 inst)"
    by (rule inst_pass.foldl_quiet [OF ok1])
  then have "pass_params vt fn iter bb (g, c) = (g1, False)" using mid by simp
  then have "g1 = g \<and> \<not> c \<and> (if Some bb = entry_block fn then \<forall>p \<in> set (params (fn_block fn bb)). g p \<noteq> None
      else \<forall>i \<in> set [0..<length (params (fn_block fn bb))]. param_recorded vt fn bb g i)"
    using entry_pass.foldl_quiet [OF ok, of vt c "params (fn_block fn bb)" g1]
      param_pass.foldl_quiet [OF ok, of vt fn iter bb c "[0..<length (params (fn_block fn bb))]" g1]
    by (auto simp: pass_params_def split: if_splits)
  with i show "g' = g \<and> \<not> c \<and> block_recorded vt fn g bb"
    by (auto simp: block_recorded_def)
qed

lemma round_ok: "ranges_ok g \<Longrightarrow> ranges_ok (fst (pass_round vt fn iter g))"
  unfolding pass_round_def by (rule block_pass.foldl_keep)

lemma loop_converged:
  "ranges_ok g \<Longrightarrow> pass_loop vt fn n iter g = (g', True) \<Longrightarrow>
    ranges_ok g' \<and> (\<forall>bb \<in> set (fn_blocks fn). block_recorded vt fn g' bb)"
proof (induction n arbitrary: iter g)
  case (Suc n)
  obtain g1 c1 where r: "pass_round vt fn iter g = (g1, c1)" by force
  have ok1: "ranges_ok g1" using round_ok [OF Suc.prems(1), of vt fn iter] r by simp
  show ?case
  proof (cases c1)
    case True
    then show ?thesis using Suc.IH [OF ok1] Suc.prems(2) r by simp
  next
    case False
    then have "foldl (pass_block vt fn iter) (g, False) (fn_blocks fn) = (g1, False)"
      using r by (simp add: pass_round_def)
    from block_pass.foldl_quiet [OF Suc.prems(1) this] have "g1 = g"
      "\<forall>bb \<in> set (fn_blocks fn). block_recorded vt fn g bb" by simp_all
    then show ?thesis using Suc.prems r False by simp
  qed
qed simp

text \<open>The ranges of the entry block's parameters are never anything but their type's range.\<close>

definition entry_full :: "value_table \<Rightarrow> Function \<Rightarrow> ranges \<Rightarrow> bool" where
  "entry_full vt fn g \<longleftrightarrow>
     (\<forall>b p r. entry_block fn = Some b \<longrightarrow> p \<in> set (params (fn_block fn b)) \<longrightarrow> g p = Some r \<longrightarrow>
       r = full_range_of (val_type (vt p)))"

text \<open>Single assignment: no value is both an entry parameter and defined elsewhere.\<close>

definition entry_params_unique :: "Function \<Rightarrow> bool" where
  "entry_params_unique fn \<longleftrightarrow>
     (\<forall>b p. entry_block fn = Some b \<longrightarrow> p \<in> set (params (fn_block fn b)) \<longrightarrow>
       (\<forall>c \<in> set (fn_blocks fn).
          (\<forall>inst \<in> set (insts (fn_block fn c)). result inst \<noteq> Some p) \<and>
          (c \<noteq> b \<longrightarrow> p \<notin> set (params (fn_block fn c)))))"

lemma record_other: "v \<noteq> p \<Longrightarrow> fst (record_range iter v t r st) p = fst st p"
  by (auto simp: record_range_def Let_def split: prod.splits option.splits)

lemma foldl_inv: "(\<And>s x. x \<in> set xs \<Longrightarrow> Q s \<Longrightarrow> Q (f s x)) \<Longrightarrow> Q s \<Longrightarrow> Q (foldl f s xs)"
  by (induction xs arbitrary: s) simp_all

lemma block_entry_full:
  assumes u: "entry_params_unique fn" and bb: "bb \<in> set (fn_blocks fn)" and full: "entry_full vt fn (fst st)"
  shows "entry_full vt fn (fst (pass_block vt fn iter st bb))"
proof -
  have ins: "entry_full vt fn (fst (pass_inst vt iter st inst))"
    if "inst \<in> set (insts (fn_block fn bb))" "entry_full vt fn (fst st)" for inst st
  proof -
    have "fst (pass_inst vt iter st inst) p = fst st p"
      if "entry_block fn = Some b" "p \<in> set (params (fn_block fn b))" for b p
      using that \<open>inst \<in> _\<close> u bb
      by (auto simp: pass_inst_def Let_def entry_params_unique_def produces_value_def intro!: record_other)
    then show ?thesis using that(2) by (auto simp: entry_full_def)
  qed
  have par: "entry_full vt fn (fst (block_param vt fn iter bb st i))"
    if "i \<in> set [0..<length (params (fn_block fn bb))]" "entry_full vt fn (fst st)" "Some bb \<noteq> entry_block fn" for i st
  proof -
    have "fst (block_param vt fn iter bb st i) p = fst st p"
      if "entry_block fn = Some b" "p \<in> set (params (fn_block fn b))" for b p
      using that \<open>i \<in> _\<close> \<open>Some bb \<noteq> _\<close> u bb
      by (fastforce simp: block_param_def Let_def entry_params_unique_def intro!: record_other)
    then show ?thesis using that(2) by (auto simp: entry_full_def)
  qed
  have ent: "entry_full vt fn (fst (entry_param vt st p))" if "entry_full vt fn (fst st)" for st p
    using that by (auto simp: entry_param_def entry_full_def split: prod.splits)
  have "entry_full vt fn (fst (pass_params vt fn iter bb st))"
    unfolding pass_params_def using full ent par
    by (auto intro!: foldl_inv [where Q = "\<lambda>st. entry_full vt fn (fst st)"])
  then show ?thesis
    unfolding pass_block_def using ins by (intro foldl_inv [where Q = "\<lambda>st. entry_full vt fn (fst st)"])
qed

lemma loop_entry_full:
  assumes "entry_params_unique fn"
  shows "entry_full vt fn g \<Longrightarrow> entry_full vt fn (fst (pass_loop vt fn n iter g))"
proof (induction n arbitrary: iter g)
  case (Suc n)
  have "entry_full vt fn (fst (pass_round vt fn iter g))"
    unfolding pass_round_def using Suc.prems block_entry_full [OF assms]
    by (intro foldl_inv [where Q = "\<lambda>st. entry_full vt fn (fst st)"]) simp_all
  then show ?case using Suc.IH by (auto split: prod.splits)
qed simp

section \<open>Executions\<close>

text \<open>
  An execution is at an instruction of a block, with an environment and the set of variables
  defined so far, under a table of patched constants.  An instruction reads defined variables and
  defines its result: the value of \<open>inst_value\<close> where the operands determine it, otherwise any
  value of its type (0 or 1 for a comparison of values that are not integers).  A terminator may take any of its targets and
  passes the arguments to the target's parameters.
\<close>

definition undetermined :: "value_table \<Rightarrow> Instruction \<Rightarrow> i64 \<Rightarrow> bool" where
  "undetermined vt inst r \<longleftrightarrow>
     (inst_type inst = I32 \<longrightarrow> canonical r 32 = r) \<and>
     (case opcode inst of
        OpConst f \<Rightarrow> f = Op_fconst_f64
      | OpArith f \<Rightarrow> \<not> ranged_arith f \<or> (inst_type inst \<noteq> I32 \<and> inst_type inst \<noteq> I64)
      | OpConv f \<Rightarrow> f \<notin> {Op_sext_i64, Op_zext_i64, Op_trunc_i32}
      | OpCmp c \<Rightarrow>
          \<not> (is_int_value vt (operand inst 0) \<and> is_int_value vt (operand inst 1)) \<and> (r = 0 \<or> r = 1)
      | OpSel f \<Rightarrow> False
      | _ \<Rightarrow> True)"

definition bind_params :: "(vid \<Rightarrow> i64) \<Rightarrow> vid list \<Rightarrow> vid list \<Rightarrow> vid \<Rightarrow> i64" where
  "bind_params env ps args v = (case map_of (zip ps (map env args)) v of Some x \<Rightarrow> x | None \<Rightarrow> env v)"

type_synonym exec_state = "bid \<times> nat \<times> (vid \<Rightarrow> i64) \<times> vid set"

inductive exec_step :: "patched_consts \<Rightarrow> value_table \<Rightarrow> Function \<Rightarrow> exec_state \<Rightarrow> exec_state \<Rightarrow> bool"
  for patches vt fn where
  exec_value: "pc < length (insts (fn_block fn b)) \<Longrightarrow> inst = insts (fn_block fn b) ! pc \<Longrightarrow>
    (\<And>i w. operand inst i = Some w \<Longrightarrow> w \<in> L) \<Longrightarrow>
    produces_value inst \<Longrightarrow> result inst = Some v \<Longrightarrow>
    inst_value patches vt env inst = Some r \<or> undetermined vt inst r \<Longrightarrow>
    exec_step patches vt fn (b, pc, env, L) (b, Suc pc, env(v := r), insert v L)"
| exec_effect: "pc < length (insts (fn_block fn b)) \<Longrightarrow>
    \<not> produces_value (insts (fn_block fn b) ! pc) \<Longrightarrow>
    exec_step patches vt fn (b, pc, env, L) (b, Suc pc, env, L)"
| exec_branch: "terminator (fn_block fn b) = Some tm \<Longrightarrow> t \<in> targets tm \<Longrightarrow> bt_block t = Some b' \<Longrightarrow>
    bt_args t = map Some args \<Longrightarrow> length args = length (params (fn_block fn b')) \<Longrightarrow> set args \<subseteq> L \<Longrightarrow>
    exec_step patches vt fn (b, pc, env, L)
      (b', 0, bind_params env (params (fn_block fn b')) args, L \<union> set (params (fn_block fn b')))"

inductive_cases exec_stepE: "exec_step patches vt fn (b, pc, env, L) st'"

text \<open>
  What the MIR verifier enforces of a function, and the constructor of the IR: every instruction is
  accepted, a value has one definition and its type, parameters have none, predecessors are those
  the terminators say and arguments have the types of the parameters they are passed to.
\<close>

definition wf_function :: "value_table \<Rightarrow> Function \<Rightarrow> bool" where
  "wf_function vt fn \<longleftrightarrow> entry_params_unique fn \<and>
     (\<forall>b \<in> set (fn_blocks fn).
        (\<forall>inst \<in> set (insts (fn_block fn b)). accepted vt inst \<and>
          (\<forall>v. result inst = Some v \<longrightarrow> def_of vt v = Some inst \<and> val_type (vt v) = inst_type inst)) \<and>
        (\<forall>p \<in> set (params (fn_block fn b)). def_of vt p = None) \<and>
        (\<forall>tm t b'. terminator (fn_block fn b) = Some tm \<longrightarrow> t \<in> targets tm \<longrightarrow> bt_block t = Some b' \<longrightarrow>
          b' \<in> set (fn_blocks fn) \<and> b \<in> set (predecessors (fn_block fn b')) \<and>
          (\<forall>i a. i < length (bt_args t) \<longrightarrow> i < length (params (fn_block fn b')) \<longrightarrow> bt_args t ! i = Some a \<longrightarrow>
            val_type (vt a) = val_type (vt (params (fn_block fn b') ! i)))))"

text \<open>No instruction the analysis is known to be wrong about.\<close>

definition gap_free :: "patched_consts \<Rightarrow> value_table \<Rightarrow> Function \<Rightarrow> bool" where
  "gap_free patches vt fn \<longleftrightarrow>
     (\<forall>b \<in> set (fn_blocks fn). \<forall>inst \<in> set (insts (fn_block fn b)). \<not> range_gap patches vt inst)"

text \<open>An accepted instruction that produces a value is never stuck.\<close>

lemma accepted_progress:
  assumes "accepted vt inst"
  shows "\<exists>r. inst_value patches vt env inst = Some r \<or> undetermined vt inst r"
proof (cases "opcode inst")
  case (OpConst f)
  then show ?thesis by (cases f) (auto simp: inst_value_def undetermined_def canonical_32 intro: exI [of _ 0])
next
  case (OpArith f)
  show ?thesis
  proof (cases "ranged_arith f \<and> (inst_type inst = I32 \<or> inst_type inst = I64)")
    case False
    then show ?thesis using OpArith by (intro exI [of _ 0]) (auto simp: undetermined_def canonical_32)
  next
    case True
    then obtain a b where ab: "operand inst 0 = Some a" "operand inst 1 = Some b"
      using assms OpArith
      by (auto simp: verifier_defs check_arith_def ranged_arith_def dest!: requires_twoD split: if_splits)
    have bits: "narrow_int_bits (val_type (vt a)) = 0"
      using accepted_narrow [OF assms OpArith ab(1)] True by (auto simp: narrow_int_bits_def)
    obtain q where "word_arith f (ucast (raw_bits (held vt env a)) :: i32) (ucast (raw_bits (held vt env b))) = Some q"
      using True by (cases f) (simp_all add: ranged_arith_def)
    moreover obtain p where "word_arith f (raw_bits (held vt env a)) (raw_bits (held vt env b)) = Some p"
      using True by (cases f) (simp_all add: ranged_arith_def)
    ultimately show ?thesis
      using True OpArith ab bits
      by (auto simp: inst_value_def Let_def ab(2) [unfolded One_nat_def] width_of_def binary_32_arith binary_64_arith)
  qed
next
  case (OpCmp c)
  then obtain a b where ab: "operand inst 0 = Some a" "operand inst 1 = Some b"
    using assms by (auto simp: verifier_defs check_cmp_def dest!: requires_twoD)
  show ?thesis
  proof (cases "is_int_value vt (Some a) \<and> is_int_value vt (Some b)")
    case False
    then show ?thesis using OpCmp ab by (intro exI [of _ 0]) (auto simp: undetermined_def canonical_32)
  next
    case True
    then have "width_of (val_type (vt a)) = 32 \<or> width_of (val_type (vt a)) = 64" "narrow_int_bits (val_type (vt a)) = 0"
      by (auto simp: is_int_value_def width_of_def narrow_int_bits_def)
    then show ?thesis
      using OpCmp ab
      by (auto simp: inst_value_def Let_def ab(2) [unfolded One_nat_def] binary_32_cmp binary_64_cmp)
  qed
next
  case (OpConv f)
  show ?thesis
  proof (cases "f \<in> {Op_sext_i64, Op_zext_i64, Op_trunc_i32}")
    case True
    then obtain a where "operand inst 0 = Some a" "f = Op_zext_i64 \<and> val_type (vt a) = I8 \<or>
        f \<in> {Op_sext_i64, Op_zext_i64} \<and> val_type (vt a) = I32 \<or> f = Op_trunc_i32 \<and> val_type (vt a) = I64"
      using assms OpConv by (auto simp: verifier_defs check_conv_def dest!: requires_oneD)
    then show ?thesis using OpConv by (auto simp: inst_value_def Let_def convert_def)
  next
    case False
    then show ?thesis using OpConv by (intro exI [of _ 0]) (auto simp: undetermined_def canonical_32)
  qed
next
  case (OpSel f)
  then have "operand inst 0 \<noteq> None" "operand inst 1 \<noteq> None" "operand inst 2 \<noteq> None"
    using assms by (auto simp: verifier_defs check_select_def split: option.splits)
  then show ?thesis using OpSel by (cases f) (auto simp: inst_value_def Let_def)
qed (auto simp: undetermined_def canonical_32 intro: exI [of _ 0])

section \<open>Values of other types\<close>

text \<open>The pass knows nothing of a value that is neither \<open>i32\<close> nor \<open>i64\<close>: its range is empty or full.\<close>

definition plain_full :: "value_table \<Rightarrow> ranges \<Rightarrow> bool" where
  "plain_full vt g \<longleftrightarrow> (\<forall>v r. g v = Some r \<longrightarrow> \<not> is_int_value vt (Some v) \<longrightarrow> is_empty r \<or> is_full r)"

lemma widen_plain:
  assumes "is_empty r \<or> is_full r" "is_empty q \<or> is_full q" "\<not> range_eq q r" "t \<noteq> I32"
  shows "is_full (widen r q t)"
proof -
  have "is_full r \<or> is_full q" using assms(1-3) by (auto simp: range_eq_iff contains_def)
  then show ?thesis
    using assms by (auto simp: widen_def Let_def union_with_def full_range_of_def full_range_def mk_range_def
        is_full_def is_empty_def)
qed

lemma plain_update:
  assumes "plain_full vt g" "val_type (vt v) \<noteq> I32 \<Longrightarrow> val_type (vt v) \<noteq> I64 \<Longrightarrow> is_empty r \<or> is_full r"
  shows "plain_full vt (g(v \<mapsto> r))"
  using assms unfolding plain_full_def is_int_value_def by auto

lemma record_plain:
  assumes plain: "plain_full vt g" and t: "t = val_type (vt v)"
    and r: "t \<noteq> I32 \<Longrightarrow> t \<noteq> I64 \<Longrightarrow> is_empty r \<or> is_full r"
  shows "plain_full vt (fst (record_range iter v t r (g, c)))"
proof -
  have upd: "plain_full vt (g(v \<mapsto> r'))" if "t \<noteq> I32 \<Longrightarrow> t \<noteq> I64 \<Longrightarrow> is_empty r' \<or> is_full r'" for r'
    using plain that t by (intro plain_update) simp_all
  have "plain_full vt (g(v \<mapsto> widen r q t))" if q: "g v = Some q" "\<not> range_eq q r" for q
  proof (rule upd)
    assume i: "t \<noteq> I32" "t \<noteq> I64"
    have "is_empty q \<or> is_full q" using plain q(1) i t unfolding plain_full_def is_int_value_def by auto
    then show "is_empty (widen r q t) \<or> is_full (widen r q t)" using widen_plain [OF r [OF i] _ q(2) i(1)] by blast
  qed
  then show ?thesis
    using plain upd [OF r] by (auto simp: record_range_def Let_def split: option.splits)
qed

lemma fit_plain: "t \<noteq> I32 \<Longrightarrow> t \<noteq> I64 \<Longrightarrow> is_empty (fit_to_type r t) \<or> is_full (fit_to_type r t)"
  by (simp add: fit_to_type_def full_range_def mk_range_def is_full_def)

lemma block_plain_full:
  assumes wf: "wf_function vt fn" and bb: "bb \<in> set (fn_blocks fn)" and plain: "plain_full vt (fst st)"
  shows "plain_full vt (fst (pass_block vt fn iter st bb))"
proof -
  have ins: "plain_full vt (fst (pass_inst vt iter st inst))"
    if "inst \<in> set (insts (fn_block fn bb))" "plain_full vt (fst st)" for inst st
  proof (cases "produces_value inst")
    case True
    then obtain v where v: "result inst = Some v" by (auto simp: produces_value_def)
    then have "inst_type inst = val_type (vt v)" using wf bb that(1) by (auto simp: wf_function_def)
    then show ?thesis
      using True v that(2) record_plain [OF that(2), of "inst_type inst" v, OF _ fit_plain]
      by (cases st) (simp add: pass_inst_def Let_def)
  qed (use that in \<open>simp add: pass_inst_def\<close>)
  have par: "plain_full vt (fst (block_param vt fn iter bb st i))" if "plain_full vt (fst st)" for st i
    using that record_plain [OF that refl fit_plain] by (cases st) (simp add: block_param_def Let_def)
  have ent: "plain_full vt (fst (entry_param vt st p))" if "plain_full vt (fst st)" for st p
  proof -
    have "is_full (full_range_of (val_type (vt p)))" if "val_type (vt p) \<noteq> I32"
      using that by (simp add: full_range_of_def full_range_def mk_range_def is_full_def)
    then show ?thesis using plain_update [OF that, of p] that by (cases st) (auto simp: entry_param_def)
  qed
  have "plain_full vt (fst (pass_params vt fn iter bb st))"
    unfolding pass_params_def using plain ent par
    by (auto intro!: foldl_inv [where Q = "\<lambda>st. plain_full vt (fst st)"])
  then show ?thesis
    unfolding pass_block_def using ins by (intro foldl_inv [where Q = "\<lambda>st. plain_full vt (fst st)"])
qed

lemma loop_plain_full:
  assumes "wf_function vt fn"
  shows "plain_full vt g \<Longrightarrow> plain_full vt (fst (pass_loop vt fn n iter g))"
proof (induction n arbitrary: iter g)
  case (Suc n)
  have "plain_full vt (fst (pass_round vt fn iter g))"
    unfolding pass_round_def using Suc.prems block_plain_full [OF assms]
    by (intro foldl_inv [where Q = "\<lambda>st. plain_full vt (fst st)"]) simp_all
  then show ?case using Suc.IH by (auto split: prod.splits)
qed simp

section \<open>Soundness of one step\<close>

lemma context_is_global: "get_context_range vt g g v = get_range vt g v"
  by (auto simp: get_context_range_def get_range_def split: option.splits)

lemma undetermined_sound:
  assumes ok: "ranges_ok g" and ne: "\<And>i. \<not> is_empty (get_context_range vt g g (operand inst i))"
    and u: "undetermined vt inst r"
  shows "contains (fit_to_type (evaluate_instruction vt g g inst) (inst_type inst)) (sint r)"
proof -
  note rok = get_context_range_ok [OF ok ok]
  have full: "contains (full_range_of t) (sint r)" if "t = I32 \<longrightarrow> canonical r 32 = r" for t
    using that sint_range64 [of r] sint_range32 [of "ucast r"] canonical_sint [of r]
    by (auto simp: full_range_of_def full_range_def)
  have fit: "contains (fit_to_type q (inst_type inst)) (sint r)" if "contains q (sint r)" for q
    using that u by (intro fit_contains) (auto simp: undetermined_def)
  have def: "contains (fit_to_type (full_range_of (inst_type inst)) (inst_type inst)) (sint r)"
    using u full [of "inst_type inst"] by (intro fit) (auto simp: undetermined_def)
  show ?thesis
  proof (cases "opcode inst")
    case (OpConst f)
    then show ?thesis using u def by (simp add: undetermined_def evaluate_instruction_def)
  next
    case (OpArith f)
    show ?thesis
    proof (cases "ranged_arith f")
      case False
      then show ?thesis using def by (simp add: evaluate_arith [OF OpArith] unranged_arith)
    next
      case True
      then have t: "inst_type inst \<noteq> I32" "inst_type inst \<noteq> I64" using u OpArith by (auto simp: undetermined_def)
      then show ?thesis
        unfolding evaluate_arith [OF OpArith] by (intro fit_other arith_not_empty [OF rok rok ne ne])
    qed
  next
    case (OpConv f)
    then show ?thesis using u def by (cases f) (simp_all add: undetermined_def evaluate_instruction_def)
  next
    case (OpCmp c)
    then have "r = 0 \<or> r = 1" and "evaluate_instruction vt g g inst = mk_range 0 1"
      using u by (auto simp: undetermined_def evaluate_instruction_def)
    then show ?thesis by (intro fit) auto
  next
    case (OpSel f)
    then show ?thesis using u by (simp add: undetermined_def)
  qed (use def in \<open>simp_all add: evaluate_instruction_def\<close>)
qed

definition known :: "value_table \<Rightarrow> ranges \<Rightarrow> (vid \<Rightarrow> i64) \<Rightarrow> vid \<Rightarrow> bool" where
  "known vt g env v \<longleftrightarrow>
     contains (get_range vt g (Some v)) (sint (env v)) \<and> (get_const_int vt (Some v) \<noteq> None \<or> g v \<noteq> None) \<and>
     (is_int_value vt (Some v) \<or> is_full (get_range vt g (Some v)))"

lemma known_covered:
  assumes "\<And>i w. operand inst i = Some w \<Longrightarrow> known vt g env w"
  shows "operands_covered vt g g env inst"
proof -
  have "known vt g env w" if "Some w \<in> set (operands inst)" for w
    using that assms by (metis in_set_conv_nth operand_def)
  then show ?thesis
    by (auto simp: operands_covered_def known_def context_is_global split: option.splits)
qed

text \<open>A recorded range that contains a value of another type is full.\<close>

lemma known_plain:
  assumes "plain_full vt g" "g v = Some q" "get_const_int vt (Some v) = None" "contains q (sint (env v))"
  shows "known vt g env v"
  using assms contains_not_empty [OF assms(4)] by (auto simp: known_def plain_full_def get_range_def)

lemma foldl_keeps: "(\<And>r x. contains r v \<Longrightarrow> contains (f r x) v) \<Longrightarrow> contains r v \<Longrightarrow> contains (foldl f r xs) v"
  by (induction xs arbitrary: r) simp_all

lemma foldl_reaches:
  assumes mono: "\<And>r x. contains r v \<Longrightarrow> contains (f r x) v" and x: "x \<in> set xs" and hit: "\<And>r. contains (f r x) v"
  shows "contains (foldl f r xs) v"
  using x
proof (induction xs arbitrary: r)
  case (Cons y ys)
  then show ?case using foldl_keeps [of v f, OF mono hit] by auto
qed simp

lemma add_arg_mono: "contains r v \<Longrightarrow> contains (add_arg vt g r a) v"
  by (auto simp: add_arg_def contains_union split: option.splits)

lemma add_arg_known: "known vt g env a \<Longrightarrow> contains (add_arg vt g r (Some a)) (sint (env a))"
  by (auto simp: known_def add_arg_def get_range_def contains_union split: option.splits)

lemma param_range_covers:
  assumes p: "b \<in> set (predecessors (fn_block fn bb))" "terminator (fn_block fn b) = Some tm"
    and t: "t \<in> targets tm" "bt_block t = Some bb" "i < length (bt_args t)" "bt_args t ! i = Some a"
    and k: "known vt g env a"
  shows "contains (param_range vt fn g bb i) (sint (env a))"
proof -
  have mono: "contains r v \<Longrightarrow> contains (from_target vt g bb i r x) v" for r x v
    by (simp add: from_target_def add_arg_mono)
  have "t \<in> set (edge_targets tm)" using t(1) by (auto simp: targets_def edge_targets_def split: if_splits)
  moreover have "contains (from_target vt g bb i r t) (sint (env a))" for r
    using t add_arg_known [OF k] by (simp add: from_target_def)
  ultimately have inner: "contains (foldl (from_target vt g bb i) r (edge_targets tm)) (sint (env a))" for r
    by (intro foldl_reaches [OF mono])
  show ?thesis
    unfolding param_range_def
  proof (rule foldl_reaches [OF _ p(1)])
    fix r x
    assume "contains r (sint (env a))"
    then show "contains (case terminator (fn_block fn x) of None \<Rightarrow> r
        | Some tm \<Rightarrow> foldl (from_target vt g bb i) r (edge_targets tm)) (sint (env a))"
      by (auto split: option.splits intro!: foldl_keeps mono)
  qed (use inner p(2) in simp)
qed

lemma bind_params_cases:
  assumes "length args = length ps" "v \<in> set ps"
  obtains i where "i < length ps" "ps ! i = v" "bind_params env ps args v = env (args ! i)"
proof -
  have "\<exists>x. map_of (zip ps (map env args)) v = Some x"
    using assms map_of_zip_is_Some [of ps "map env args" v] by simp
  then obtain x where x: "map_of (zip ps (map env args)) v = Some x" by blast
  then have "(v, x) \<in> set (zip ps (map env args))" by (rule map_of_SomeD)
  then obtain i where "i < length ps" "ps ! i = v" "x = env (args ! i)"
    using assms by (auto simp: in_set_zip)
  with x show thesis using that by (simp add: bind_params_def)
qed

lemma bind_params_other: "v \<notin> set ps \<Longrightarrow> bind_params env ps args v = env v"
  by (auto simp: bind_params_def split: option.splits dest!: map_of_SomeD set_zip_leftD)

text \<open>The ranges of a converged pass.\<close>

definition exec_inv :: "value_table \<Rightarrow> Function \<Rightarrow> ranges \<Rightarrow> exec_state \<Rightarrow> bool" where
  "exec_inv vt fn g st \<longleftrightarrow>
     (case st of (b, pc, env, L) \<Rightarrow>
        b \<in> set (fn_blocks fn) \<and> canonical_env vt env \<and> (\<forall>v \<in> L. known vt g env v))"

lemma const_exact:
  assumes "def_of vt v = Some inst" "\<not> range_gap patches vt inst" "get_const_int vt (Some v) = Some k"
    and "inst_value patches vt env inst = Some r \<or> undetermined vt inst r"
  shows "sint r = k"
  using assms by (auto simp: get_const_int_def inst_value_def undetermined_def sint_scast_32_64 range_gap_def
      patched_away_def split: if_splits)

lemma step_value_known:
  assumes wf: "wf_function vt fn" and gap: "gap_free patches vt fn" and ok: "ranges_ok g" and plain: "plain_full vt g"
    and rec: "block_recorded vt fn g b"
    and b: "b \<in> set (fn_blocks fn)" and can: "canonical_env vt env"
    and inst: "inst \<in> set (insts (fn_block fn b))" "produces_value inst" "result inst = Some v"
    and ops: "\<And>i w. operand inst i = Some w \<Longrightarrow> known vt g env w"
    and val: "inst_value patches vt env inst = Some r \<or> undetermined vt inst r"
  shows "known vt g (env(v := r)) v" and "inst_type inst = I32 \<Longrightarrow> canonical r 32 = r"
proof -
  have ty: "accepted vt inst" and d: "def_of vt v = Some inst" and vt: "val_type (vt v) = inst_type inst"
    and ng: "\<not> range_gap patches vt inst"
    using wf gap b inst by (auto simp: wf_function_def gap_free_def)
  have cov: "operands_covered vt g g env inst" using ops by (rule known_covered)
  have ne: "\<not> is_empty (get_context_range vt g g (operand inst i))" for i
  proof (cases "operand inst i")
    case None
    then show ?thesis by (simp add: get_context_range_def full_range_def mk_range_def is_empty_def)
  next
    case (Some w)
    then show ?thesis using contains_not_empty [OF operand_covered(1) [OF cov Some]] by simp
  qed
  have c: "contains (fit_to_type (evaluate_instruction vt g g inst) (inst_type inst)) (sint r)"
    using val evaluate_sound [OF ok ok cov can ty ng] undetermined_sound [OF ok ne] by blast
  obtain q where q: "g v = Some q" "is_subrange_of (fit_to_type (evaluate_instruction vt g g inst) (inst_type inst)) q"
    using rec inst by (auto simp: block_recorded_def inst_recorded_def)
  have cq: "contains q (sint r)" using c q(2) by (simp add: subrange_iff)
  show "known vt g (env(v := r)) v"
  proof (cases "get_const_int vt (Some v)")
    case None
    then show ?thesis using known_plain [OF plain q(1) None] cq by simp
  next
    case (Some k)
    have "is_int_value vt (Some v)"
      using Some d vt accepted_const [OF ty] by (auto simp: get_const_int_def is_int_value_def split: if_splits)
    moreover have "sint r = k" using const_exact [OF d ng Some val] .
    ultimately show ?thesis using Some by (simp add: known_def get_range_def)
  qed
  show "inst_type inst = I32 \<Longrightarrow> canonical r 32 = r"
    using val inst_value_canonical [OF can ty] by (auto simp: undetermined_def)
qed

lemma step_branch_known:
  assumes wf: "wf_function vt fn" and plain: "plain_full vt g" and rec: "block_recorded vt fn g b'"
    and full: "entry_full vt fn g"
    and b: "b \<in> set (fn_blocks fn)" and can: "canonical_env vt env"
    and tm: "terminator (fn_block fn b) = Some tm" "t \<in> targets tm" "bt_block t = Some b'" "bt_args t = map Some args"
    and i: "i < length args" "length args = length (params (fn_block fn b'))"
    and k: "known vt g env (args ! i)" and p: "p = params (fn_block fn b') ! i"
  shows "env' p = env (args ! i) \<Longrightarrow> known vt g env' p"
    and "val_type (vt p) = I32 \<Longrightarrow> canonical (env (args ! i)) 32 = env (args ! i)"
proof -
  have wfe: "b' \<in> set (fn_blocks fn)" "b \<in> set (predecessors (fn_block fn b'))"
    and ty: "val_type (vt (args ! i)) = val_type (vt p)"
  proof -
    have e: "b' \<in> set (fn_blocks fn) \<and> b \<in> set (predecessors (fn_block fn b')) \<and>
          (\<forall>i a. i < length (bt_args t) \<longrightarrow> i < length (params (fn_block fn b')) \<longrightarrow> bt_args t ! i = Some a \<longrightarrow>
            val_type (vt a) = val_type (vt (params (fn_block fn b') ! i)))"
      using wf b tm unfolding wf_function_def by blast
    then show "b' \<in> set (fn_blocks fn)" "b \<in> set (predecessors (fn_block fn b'))" by simp_all
    show "val_type (vt (args ! i)) = val_type (vt p)" using e tm(4) i p by simp
  qed
  have pin: "p \<in> set (params (fn_block fn b'))" using p i by simp
  then have none: "get_const_int vt (Some p) = None"
    using wf wfe(1) by (auto simp: wf_function_def get_const_int_def)
  show canon: "canonical (env (args ! i)) 32 = env (args ! i)" if "val_type (vt p) = I32"
    using can that ty by (simp add: canonical_env_def)
  have "\<exists>q. g p = Some q \<and> contains q (sint (env (args ! i)))"
  proof (cases "Some b' = entry_block fn")
    case True
    then obtain q where q: "g p = Some q" using rec pin by (auto simp: block_recorded_def)
    then have "q = full_range_of (val_type (vt p))"
      using full True [symmetric] pin unfolding entry_full_def by blast
    moreover have "contains (full_range_of (val_type (vt p))) (sint (env (args ! i)))"
      using canon canonical_sint [of "env (args ! i)"] sint_range64 [of "env (args ! i)"]
        sint_range32 [of "ucast (env (args ! i))"] by (auto simp: full_range_of_def full_range_def)
    ultimately show ?thesis using q by simp
  next
    case False
    have "contains (param_range vt fn g b' i) (sint (env (args ! i)))"
      using param_range_covers [OF wfe(2) tm(1-3) _ _ k] tm(4) i by simp
    then have c: "contains (fit_to_type (param_range vt fn g b' i) (val_type (vt p))) (sint (env (args ! i)))"
      using canon by (rule fit_contains)
    moreover have "param_recorded vt fn b' g i" using rec False i by (auto simp: block_recorded_def)
    ultimately show ?thesis
      using contains_not_empty [OF c] by (auto simp: param_recorded_def Let_def p subrange_iff)
  qed
  then show "known vt g env' p" if "env' p = env (args ! i)" using known_plain [OF plain _ none] that by auto
qed

lemma exec_step_inv:
  assumes wf: "wf_function vt fn" and gap: "gap_free patches vt fn"
    and ok: "ranges_ok g" and plain: "plain_full vt g" and full: "entry_full vt fn g"
    and rec: "\<forall>bb \<in> set (fn_blocks fn). block_recorded vt fn g bb"
    and step: "exec_step patches vt fn st st'" and inv: "exec_inv vt fn g st"
  shows "exec_inv vt fn g st'"
  using step
proof cases
  case (exec_value pc b inst L v env r)
  then have b: "b \<in> set (fn_blocks fn)" and can: "canonical_env vt env" and kn: "\<forall>v \<in> L. known vt g env v"
    using inv by (simp_all add: exec_inv_def)
  have mem: "inst \<in> set (insts (fn_block fn b))" using exec_value by simp
  note s = step_value_known [OF wf gap ok plain _ b can mem exec_value(6,7) _ exec_value(8)]
  have new: "known vt g (env(v := r)) v" and cn: "inst_type inst = I32 \<Longrightarrow> canonical r 32 = r"
    using s rec b kn exec_value(5) by blast+
  have "val_type (vt v) = inst_type inst" using wf b mem exec_value(7) by (auto simp: wf_function_def)
  then have "canonical_env vt (env(v := r))" using can cn by (auto simp: canonical_env_def)
  moreover have "known vt g (env(v := r)) w" if "w \<in> insert v L" for w
    using that new kn by (cases "w = v") (auto simp: known_def)
  ultimately show ?thesis using exec_value b by (simp add: exec_inv_def)
next
  case (exec_effect pc b env L)
  then show ?thesis using inv by (simp add: exec_inv_def)
next
  case (exec_branch b tm t b' args L pc env)
  let ?ps = "params (fn_block fn b')"
  let ?env = "bind_params env ?ps args"
  have b: "b \<in> set (fn_blocks fn)" and can: "canonical_env vt env" and kn: "\<forall>v \<in> L. known vt g env v"
    using inv exec_branch by (simp_all add: exec_inv_def)
  have b': "b' \<in> set (fn_blocks fn)" using wf b exec_branch by (auto simp: wf_function_def)
  note s = step_branch_known [OF wf plain _ full b can exec_branch(3-6) _ exec_branch(7)]
  have par: "known vt g ?env p \<and> (val_type (vt p) = I32 \<longrightarrow> canonical (?env p) 32 = ?env p)" if mem: "p \<in> set ?ps" for p
  proof -
    obtain i where i: "i < length ?ps" "?ps ! i = p" "?env p = env (args ! i)"
      using bind_params_cases [OF exec_branch(7) mem] by blast
    moreover have "args ! i \<in> L" using exec_branch(7,8) i(1) nth_mem [of i args] by auto
    then have "known vt g env (args ! i)" using kn by blast
    ultimately show ?thesis
      using s(1) [where i = i and p = p and env' = ?env] s(2) [of i p] rec b' exec_branch(7) i by auto
  qed
  have "canonical_env vt ?env"
    using can par bind_params_other by (metis canonical_env_def)
  moreover have "known vt g ?env v" if "v \<in> L \<union> set ?ps" for v
    using that kn par bind_params_other [of v ?ps env args] by (cases "v \<in> set ?ps") (auto simp: known_def)
  ultimately show ?thesis using exec_branch b' by (simp add: exec_inv_def)
qed

text \<open>Without convergence every range is the whole of its type, and constants are exact.\<close>

definition const_inv :: "value_table \<Rightarrow> Function \<Rightarrow> exec_state \<Rightarrow> bool" where
  "const_inv vt fn st \<longleftrightarrow>
     (case st of (b, pc, env, L) \<Rightarrow> b \<in> set (fn_blocks fn) \<and> canonical_env vt env \<and>
        (\<forall>v \<in> L. \<forall>c. get_const_int vt (Some v) = Some c \<longrightarrow> sint (env v) = c))"

lemma const_step_inv:
  assumes wf: "wf_function vt fn" and gap: "gap_free patches vt fn"
    and step: "exec_step patches vt fn st st'" and inv: "const_inv vt fn st"
  shows "const_inv vt fn st'"
  using step
proof cases
  case (exec_value pc b inst L v env r)
  then have b: "b \<in> set (fn_blocks fn)" and can: "canonical_env vt env" using inv by (simp_all add: const_inv_def)
  have ty: "accepted vt inst" and d: "def_of vt v = Some inst" "val_type (vt v) = inst_type inst"
    and ng: "\<not> range_gap patches vt inst"
    using wf gap b exec_value by (auto simp: wf_function_def gap_free_def)
  have "inst_type inst = I32 \<Longrightarrow> canonical r 32 = r"
    using exec_value(8) inst_value_canonical [OF can ty] by (auto simp: undetermined_def)
  then have "canonical_env vt (env(v := r))" using can d by (auto simp: canonical_env_def)
  moreover have "sint r = k" if "get_const_int vt (Some v) = Some k" for k
    using const_exact [OF d(1) ng that exec_value(8)] .
  ultimately show ?thesis using exec_value inv by (auto simp: const_inv_def)
next
  case (exec_effect pc b env L)
  then show ?thesis using inv by (simp add: const_inv_def)
next
  case (exec_branch b tm t b' args L pc env)
  let ?ps = "params (fn_block fn b')"
  let ?env = "bind_params env ?ps args"
  have b: "b \<in> set (fn_blocks fn)" and can: "canonical_env vt env" using inv exec_branch by (simp_all add: const_inv_def)
  have e: "b' \<in> set (fn_blocks fn) \<and> (\<forall>i a. i < length (bt_args t) \<longrightarrow> i < length ?ps \<longrightarrow> bt_args t ! i = Some a \<longrightarrow>
      val_type (vt a) = val_type (vt (?ps ! i)))"
    using wf b exec_branch(3-5) unfolding wf_function_def by blast
  have "canonical (?env p) 32 = ?env p" if mem: "p \<in> set ?ps" "val_type (vt p) = I32" for p
  proof -
    obtain i where i: "i < length ?ps" "?ps ! i = p" "?env p = env (args ! i)"
      using bind_params_cases [OF exec_branch(7) mem(1)] by blast
    then have "val_type (vt (args ! i)) = I32" using e exec_branch(6,7) mem(2) by simp
    then show ?thesis using can i by (simp add: canonical_env_def)
  qed
  then have "canonical_env vt ?env" using can bind_params_other by (metis canonical_env_def)
  moreover have "get_const_int vt (Some p) = None" if "p \<in> set ?ps" for p
    using wf e that by (auto simp: wf_function_def get_const_int_def)
  moreover have "sint (?env v) = c" if "v \<in> L \<union> set ?ps" "get_const_int vt (Some v) = Some c" for v c
    using that calculation(2) [of v] bind_params_other [of v ?ps env args] inv exec_branch(1)
    by (cases "v \<in> set ?ps") (auto simp: const_inv_def)
  ultimately show ?thesis using exec_branch(2) e by (simp add: const_inv_def)
qed

section \<open>Properties\<close>

lemma run_pass1_cases:
  assumes "wf_function vt fn"
  obtains (converged) "ranges_ok (run_pass1 vt fn)" "plain_full vt (run_pass1 vt fn)" "entry_full vt fn (run_pass1 vt fn)"
      "\<forall>bb \<in> set (fn_blocks fn). block_recorded vt fn (run_pass1 vt fn) bb"
  | (gave_up) "\<And>v. run_pass1 vt fn v \<in> {None, Some (full_range_of (val_type (vt v)))}"
proof -
  obtain g c where l: "pass_loop vt fn kMaxIterations 0 Map.empty = (g, c)" by force
  have "entry_full vt fn g"
    using loop_entry_full [of fn vt Map.empty kMaxIterations 0] assms l
    by (simp add: wf_function_def entry_full_def)
  moreover have "plain_full vt g"
    using loop_plain_full [OF assms, of Map.empty kMaxIterations 0] l by (simp add: plain_full_def)
  moreover have "c \<Longrightarrow> ranges_ok g \<and> (\<forall>bb \<in> set (fn_blocks fn). block_recorded vt fn g bb)"
    using loop_converged [of Map.empty vt fn kMaxIterations 0 g] l by (simp add: ranges_ok_def)
  ultimately have conv: "c \<Longrightarrow> thesis"
    using that(1) l by (simp add: run_pass1_def)
  have "run_pass1 vt fn v \<in> {None, Some (full_range_of (val_type (vt v)))}" if "\<not> c" for v
    using that l by (cases "g v") (simp_all add: run_pass1_def)
  with conv show thesis using that(2) by blast
qed

text \<open>
  C1.  Pass 1 is sound: whatever an execution of a function the verifier accepts does from its
  entry, the range the pass computes for a variable contains every value the execution gives it,
  for a converged fixpoint, widened or not, and for the fall-back after the last round.  The
  function may have no constant patched to another value than its immediate and no 64-bit bitwise
  operation with an \<open>i32\<close> as second operand, where the transfer function is wrong.
\<close>

theorem range_analysis_sound:
  assumes wf: "wf_function vt fn" and gap: "gap_free patches vt fn"
    and e: "entry_block fn = Some b0" and can: "canonical_env vt env0"
    and run: "(exec_step patches vt fn)\<^sup>*\<^sup>* (b0, 0, env0, set (params (fn_block fn b0))) (b, pc, env, L)"
    and v: "v \<in> L"
  shows "contains (get_range vt (run_pass1 vt fn) (Some v)) (sint (env v))"
proof -
  let ?g = "run_pass1 vt fn"
  let ?st = "(b0, 0, env0, set (params (fn_block fn b0)))"
  have b0: "b0 \<in> set (fn_blocks fn)" using e by (auto simp: entry_block_def split: list.splits)
  have params: "get_const_int vt (Some v) = None" if "v \<in> set (params (fn_block fn b0))" for v
    using wf b0 that by (auto simp: wf_function_def get_const_int_def)
  have full: "contains (full_range_of (val_type (vt v))) (sint (env v))"
    if "canonical_env vt env" for env v
    using that sint_range64 [of "env v"] sint_range32 [of "ucast (env v)"] canonical_sint [of "env v"]
    by (auto simp: full_range_of_def full_range_def canonical_env_def)
  from wf show ?thesis
  proof (cases rule: run_pass1_cases)
    case converged
    have "known vt ?g env0 p" if p: "p \<in> set (params (fn_block fn b0))" for p
    proof -
      have "?g p \<noteq> None" using converged(4) b0 e p by (auto simp: block_recorded_def)
      then have "?g p = Some (full_range_of (val_type (vt p)))"
        using converged(3) e p by (auto simp: entry_full_def)
      then show ?thesis by (rule known_plain [OF converged(2) _ params [OF p]]) (rule full [OF can])
    qed
    then have "exec_inv vt fn ?g ?st" using b0 can by (simp add: exec_inv_def)
    with run have "exec_inv vt fn ?g (b, pc, env, L)"
      by (induction rule: rtranclp_induct) (auto intro: exec_step_inv [OF wf gap converged])
    then show ?thesis using v by (simp add: exec_inv_def known_def)
  next
    case gave_up
    have "const_inv vt fn ?st" using b0 can params by (simp add: const_inv_def)
    with run have "const_inv vt fn (b, pc, env, L)"
      by (induction rule: rtranclp_induct) (auto intro: const_step_inv [OF wf gap])
    then show ?thesis
      using v gave_up [of v] full [of env v]
      by (auto simp: const_inv_def get_range_def full_range_of_def split: option.splits)
  qed
qed

text \<open>
  The example: a counting loop.  Block 0 has the parameter \<open>%0\<close>, defines \<open>%1 = iconst_i32 1\<close> and
  branches to block 1 with \<open>%0\<close>; block 1 has the parameter \<open>%2\<close>, computes \<open>%3 = add %2, %1\<close> and
  branches back to itself with \<open>%3\<close>.
\<close>

definition plain_inst :: "Opcode \<Rightarrow> TypeKind \<Rightarrow> vid option \<Rightarrow> vid list \<Rightarrow> BranchTarget \<Rightarrow> Instruction" where
  "plain_inst op t res ops bt =
     \<lparr>opcode = op, inst_type = t, result = res, operands = map Some ops, imm_i64 = 1, symbol = [],
      branch_target = bt, true_target = \<lparr>bt_block = None, bt_args = []\<rparr>,
      false_target = \<lparr>bt_block = None, bt_args = []\<rparr>, switch_cases = [], state_map = []\<rparr>"

definition no_target :: BranchTarget where "no_target = \<lparr>bt_block = None, bt_args = []\<rparr>"

definition counter_const :: Instruction where
  "counter_const = plain_inst (OpConst Op_iconst_i32) I32 (Some 1) [] no_target"

definition counter_add :: Instruction where
  "counter_add = plain_inst (OpArith Op_add) I32 (Some 3) [2, 1] no_target"

definition counter_br :: "vid \<Rightarrow> Instruction" where
  "counter_br v = plain_inst (OpTerm Op_br) Void None [] \<lparr>bt_block = Some 1, bt_args = [Some v]\<rparr>"

definition counter_values :: value_table where
  "counter_values v =
     (if v = 1 then \<lparr>val_type = I32, val_kind = InstructionResult, def_inst = Some counter_const, def_block = None\<rparr>
      else if v = 3 then \<lparr>val_type = I32, val_kind = InstructionResult, def_inst = Some counter_add, def_block = None\<rparr>
      else \<lparr>val_type = I32, val_kind = BlockParam, def_inst = None, def_block = None\<rparr>)"

definition counter_function :: Function where
  "counter_function =
     \<lparr>fn_blocks = [0, 1],
      fn_block = (\<lambda>b. if b = 0
        then \<lparr>params = [0], insts = [counter_const, counter_br 0], predecessors = []\<rparr>
        else \<lparr>params = [2], insts = [counter_add, counter_br 3], predecessors = [0, 1]\<rparr>)\<rparr>"

lemmas counter_simps = counter_const_def counter_add_def counter_br_def plain_inst_def no_target_def
  counter_values_def counter_function_def

lemma counter_wf: "wf_function counter_values counter_function"
  by (auto simp: wf_function_def entry_params_unique_def entry_block_def counter_simps operand_def verifier_defs
      check_const_def check_arith_def requires_two_def add_sub_rule_def
      terminator_def is_terminator_def targets_def def_of_def less_Suc_eq)

lemma counter_gap_free: "gap_free Map.empty counter_values counter_function"
  by (auto simp: gap_free_def range_gap_def patched_away_def mixed_width_def counter_simps)

lemma counter_run:
  "(exec_step Map.empty counter_values counter_function)\<^sup>*\<^sup>* (0, 0, \<lambda>_. 7, {0})
     (1, 0, bind_params ((\<lambda>_. 7)(1 := 1)) [2] [0], insert 1 {0} \<union> {2})"
proof -
  have 1: "exec_step Map.empty counter_values counter_function (0, 0, \<lambda>_. 7, {0}) (0, Suc 0, (\<lambda>_. 7)(1 := 1), insert 1 {0})"
    by (rule exec_value [where inst = counter_const])
      (auto simp: counter_simps operand_def produces_value_def is_void_def inst_value_def imm_i32_def)
  have 2: "exec_step Map.empty counter_values counter_function (0, Suc 0, (\<lambda>_. 7)(1 := 1), insert 1 {0})
      (1, 0, bind_params ((\<lambda>_. 7)(1 := 1)) (params (fn_block counter_function 1)) [0],
       insert 1 {0} \<union> set (params (fn_block counter_function 1)))"
    by (rule exec_branch [where tm = "counter_br 0" and t = "\<lparr>bt_block = Some 1, bt_args = [Some 0]\<rparr>"])
      (auto simp: counter_simps terminator_def is_terminator_def targets_def)
  from 1 2 show ?thesis by (simp add: counter_function_def)
qed

theorem range_analysis_sound_witness:
  "contains (get_range counter_values (run_pass1 counter_values counter_function) (Some 2)) 7"
proof -
  have e: "entry_block counter_function = Some 0" by (simp add: entry_block_def counter_function_def)
  have can: "canonical_env counter_values (\<lambda>_. 7)" by (simp add: canonical_env_def canonical_32)
  have p: "set (params (fn_block counter_function 0)) = {0}" by (simp add: counter_function_def)
  show ?thesis
    using range_analysis_sound [OF counter_wf counter_gap_free e can, unfolded p, OF counter_run, of 2]
    by (simp add: bind_params_def)
qed

end
