(* ===== verification/Byte_Codec.thy ===== *)
theory Byte_Codec
  imports Prelude "HOL-Library.Monad_Syntax"
begin

text \<open>
  The byte-level writer and reader of \<open>src/gc/stack_map.cpp\<close>: the \<open>write_*\<close> functions append
  little-endian integers to a byte vector, and \<open>BinaryReader\<close> reads them back from a cursor,
  refusing a read that would pass the end.  The contract the serialisation formats rely on is
  the locale \<open>codec\<close>: reading at the position where a value was written gives the value and
  moves the cursor past it, and the reader never looks beyond where it stops.  It is proved
  once for sequences of values and interpreted on each primitive.
\<close>

section \<open>Writers\<close>

type_synonym bytes = "u8 list"

definition write_u8 :: "bytes \<Rightarrow> u8 \<Rightarrow> bytes" where
  "write_u8 buf v = buf @ [v]"

definition write_u32 :: "bytes \<Rightarrow> u32 \<Rightarrow> bytes" where
  "write_u32 buf v = buf @
     [ucast (v AND 0xFF), ucast (drop_bit 8 v AND 0xFF),
      ucast (drop_bit 16 v AND 0xFF), ucast (drop_bit 24 v AND 0xFF)]"

definition write_i32 :: "bytes \<Rightarrow> i32 \<Rightarrow> bytes" where
  "write_i32 buf v = write_u32 buf v"

definition write_u64 :: "bytes \<Rightarrow> u64 \<Rightarrow> bytes" where
  "write_u64 buf v = foldl (\<lambda>b i. b @ [ucast (drop_bit (i * 8) v AND 0xFF)]) buf [0..<8]"

definition write_bytes :: "bytes \<Rightarrow> bytes \<Rightarrow> bytes" where
  "write_bytes buf p = buf @ p"

section \<open>BinaryReader\<close>

record BinaryReader =
  rd_data :: bytes
  rd_pos :: nat

type_synonym 'a read = "BinaryReader \<Rightarrow> ('a \<times> BinaryReader) option"

definition has_bytes :: "BinaryReader \<Rightarrow> nat \<Rightarrow> bool" where
  "has_bytes r n \<longleftrightarrow> rd_pos r + n \<le> length (rd_data r)"

definition byte_at :: "BinaryReader \<Rightarrow> nat \<Rightarrow> u8" where
  "byte_at r i = rd_data r ! (rd_pos r + i)"

definition advance :: "nat \<Rightarrow> BinaryReader \<Rightarrow> BinaryReader" where
  "advance n r = r\<lparr>rd_pos := rd_pos r + n\<rparr>"

definition read_u8 :: "u8 read" where
  "read_u8 r = (if \<not> has_bytes r 1 then None else Some (byte_at r 0, advance 1 r))"

definition read_u16 :: "u16 read" where
  "read_u16 r = (if \<not> has_bytes r 2 then None
     else Some (ucast (byte_at r 0) OR push_bit 8 (ucast (byte_at r 1)), advance 2 r))"

definition read_u32 :: "u32 read" where
  "read_u32 r = (if \<not> has_bytes r 4 then None
     else Some (ucast (byte_at r 0) OR push_bit 8 (ucast (byte_at r 1))
        OR push_bit 16 (ucast (byte_at r 2)) OR push_bit 24 (ucast (byte_at r 3)), advance 4 r))"

definition read_i32 :: "i32 read" where
  "read_i32 r = (case read_u32 r of None \<Rightarrow> None | Some (uval, r') \<Rightarrow> Some (uval, r'))"

definition read_u64 :: "u64 read" where
  "read_u64 r = (if \<not> has_bytes r 8 then None
     else Some (foldl (\<lambda>val i. val OR push_bit (i * 8) (ucast (byte_at r i))) 0 [0..<8], advance 8 r))"

definition read_string :: "nat \<Rightarrow> bytes read" where
  "read_string len r = (if \<not> has_bytes r len then None
     else Some (take len (drop (rd_pos r) (rd_data r)), advance len r))"

definition skip :: "nat \<Rightarrow> unit read" where
  "skip len r = (if \<not> has_bytes r len then None else Some ((), advance len r))"

definition remaining :: "BinaryReader \<Rightarrow> nat" where
  "remaining r = (if rd_pos r < length (rd_data r) then length (rd_data r) - rd_pos r else 0)"

text \<open>
  The counted loops of the decoders: read \<open>n\<close> items, appending each to a vector, and fail at
  the first item that fails.
\<close>

fun read_n :: "'a read \<Rightarrow> nat \<Rightarrow> 'a list read" where
  "read_n f 0 r = Some ([], r)"
| "read_n f (Suc n) r = (case f r of None \<Rightarrow> None
     | Some (x, r') \<Rightarrow> (case read_n f n r' of None \<Rightarrow> None
        | Some (xs, r'') \<Rightarrow> Some (x # xs, r'')))"

section \<open>The contract of a reader\<close>

definition at :: "bytes \<Rightarrow> nat \<Rightarrow> BinaryReader" where
  "at d p = \<lparr>rd_data = d, rd_pos = p\<rparr>"

named_theorems reader_simps "the cursor operations in terms of the data and the position"

lemma at_fields [reader_simps]: "rd_data (at d p) = d" "rd_pos (at d p) = p"
  by (simp_all add: at_def)

lemma advance_at [reader_simps]: "advance n (at d p) = at d (p + n)"
  by (simp add: advance_def at_def)

lemma at_eta [simp]: "at (rd_data r) (rd_pos r) = r"
  by (simp add: at_def)

lemma at_inject [simp]: "at d p = at d' q \<longleftrightarrow> d = d' \<and> p = q"
  by (auto simp: at_def)

lemmas reader_defs = has_bytes_def byte_at_def reader_simps

text \<open>
  A reader is well behaved when it leaves the data alone, moves the cursor forward and not past
  the end, and gives the same answer when more bytes follow the ones it consumed.
\<close>

locale reader =
  fixes read :: "BinaryReader \<Rightarrow> ('a \<times> BinaryReader) option"
  assumes read_moves: "read (at d p) = Some (x, r') \<Longrightarrow> \<exists>q. r' = at d q \<and> p \<le> q \<and> (p \<le> length d \<longrightarrow> q \<le> length d)"
    and read_extend: "read (at d p) = Some (x, at d q) \<Longrightarrow> read (at (d @ e) p) = Some (x, at (d @ e) q)"
begin

lemma read_n_moves:
  "read_n read n (at d p) = Some (xs, r') \<Longrightarrow> \<exists>q. r' = at d q \<and> p \<le> q \<and> (p \<le> length d \<longrightarrow> q \<le> length d)"
proof (induction n arbitrary: p xs)
  case 0
  then show ?case by auto
next
  case (Suc n)
  then obtain x r1 ys where 1: "read (at d p) = Some (x, r1)" "read_n read n r1 = Some (ys, r')"
    by (auto split: option.splits)
  from read_moves [OF 1(1)] obtain q1 where q1: "r1 = at d q1" "p \<le> q1" "p \<le> length d \<longrightarrow> q1 \<le> length d" by auto
  from Suc.IH [of q1 ys] 1(2) q1 show ?case by fastforce
qed

lemma read_n_extend:
  "read_n read n (at d p) = Some (xs, at d q) \<Longrightarrow> read_n read n (at (d @ e) p) = Some (xs, at (d @ e) q)"
proof (induction n arbitrary: p xs)
  case 0
  then show ?case by auto
next
  case (Suc n)
  then obtain x r1 ys where 1: "read (at d p) = Some (x, r1)" "read_n read n r1 = Some (ys, at d q)" "xs = x # ys"
    by (auto split: option.splits)
  from read_moves [OF 1(1)] obtain q1 where q1: "r1 = at d q1" by auto
  from Suc.IH [of q1 ys] 1 q1 read_extend [of d p x q1] show ?case by simp
qed

end

text \<open>Readers compose.\<close>

named_theorems reader_intros "composite readers from their parts"

lemma reader_bind [reader_intros]:
  assumes "reader f" and "\<And>x. reader (g x)"
  shows "reader (\<lambda>r. Option.bind (f r) (\<lambda>(x, r). g x r))"
proof
  fix d p y r' assume "Option.bind (f (at d p)) (\<lambda>(x, r). g x r) = Some (y, r')"
  then obtain x r1 where 1: "f (at d p) = Some (x, r1)" "g x r1 = Some (y, r')"
    by (auto simp: bind_eq_Some_conv)
  from reader.read_moves [OF assms(1) 1(1)] obtain q1
    where "r1 = at d q1" "p \<le> q1" "p \<le> length d \<longrightarrow> q1 \<le> length d" by auto
  with reader.read_moves [OF assms(2), of x d q1] 1(2)
  show "\<exists>q. r' = at d q \<and> p \<le> q \<and> (p \<le> length d \<longrightarrow> q \<le> length d)" by fastforce
next
  fix d p y q e assume "Option.bind (f (at d p)) (\<lambda>(x, r). g x r) = Some (y, at d q)"
  then obtain x r1 where 1: "f (at d p) = Some (x, r1)" "g x r1 = Some (y, at d q)"
    by (auto simp: bind_eq_Some_conv)
  from reader.read_moves [OF assms(1) 1(1)] obtain q1 where "r1 = at d q1" by auto
  with reader.read_extend [OF assms(1), of d p x q1 e] reader.read_extend [OF assms(2), of x d q1 y q e] 1
  show "Option.bind (f (at (d @ e) p)) (\<lambda>(x, r). g x r) = Some (y, at (d @ e) q)" by simp
qed

lemma reader_return [reader_intros]: "reader (\<lambda>r. Some (x, r))" "reader (\<lambda>_. None)"
  by unfold_locales auto

lemma reader_if [reader_intros]: "reader f \<Longrightarrow> reader g \<Longrightarrow> reader (\<lambda>r. if b then f r else g r)"
  by (cases b) simp_all

lemma reader_read_n [reader_intros]: "reader f \<Longrightarrow> reader (read_n f n)"
  by unfold_locales (auto dest: reader.read_n_moves reader.read_n_extend)

text \<open>
  \<open>reads f x s\<close>: wherever the bytes \<open>s\<close> stand, \<open>f\<close> reads \<open>x\<close> there and stops after them.
\<close>

definition reads :: "'a read \<Rightarrow> 'a \<Rightarrow> bytes \<Rightarrow> bool" where
  "reads f x s \<longleftrightarrow> (\<forall>pre post. f (at (pre @ s @ post) (length pre))
     = Some (x, at (pre @ s @ post) (length pre + length s)))"

lemma reads_bind:
  assumes "reads f x s" and "reads (g x) y t"
  shows "reads (\<lambda>r. Option.bind (f r) (\<lambda>(x, r). g x r)) y (s @ t)"
  unfolding reads_def
proof (intro allI)
  fix pre post
  from assms(1) have "f (at (pre @ (s @ t) @ post) (length pre))
      = Some (x, at (pre @ (s @ t) @ post) (length (pre @ s)))" by (simp add: reads_def)
  moreover from assms(2) have "g x (at ((pre @ s) @ t @ post) (length (pre @ s)))
      = Some (y, at ((pre @ s) @ t @ post) (length (pre @ s) + length t))" by (simp only: reads_def)
  ultimately show "Option.bind (f (at (pre @ (s @ t) @ post) (length pre))) (\<lambda>(x, r). g x r)
      = Some (y, at (pre @ (s @ t) @ post) (length pre + length (s @ t)))" by simp
qed

lemma reads_return: "reads (\<lambda>r. Some (x, r)) x []"
  by (simp add: reads_def)

text \<open>A reader that reads exactly \<open>s\<close> fails on every strict prefix of \<open>s\<close>.\<close>

lemma reads_truncated:
  assumes "reader f" and "reads f x s" and "k < length s"
  shows "f (at (take k s) 0) = None"
proof (rule ccontr)
  assume "f (at (take k s) 0) \<noteq> None"
  then obtain y r where y: "f (at (take k s) 0) = Some (y, r)" by auto
  with reader.read_moves [OF assms(1) y] obtain q where q: "r = at (take k s) q" "q \<le> k" using assms(3) by auto
  with y have "f (at (take k s @ drop k s) 0) = Some (y, at (take k s @ drop k s) q)"
    by (intro reader.read_extend [OF assms(1)]) simp
  moreover have "f (at s 0) = Some (x, at s (length s))"
    using assms(2) by (auto simp: reads_def dest!: spec [of _ "[]"])
  ultimately show False using q assms(3) by simp
qed

text \<open>
  A codec pairs a reader with the writer of its values: writing appends, and reading where a
  valid value was written returns it.
\<close>

locale codec = reader read
  for read :: "BinaryReader \<Rightarrow> ('a \<times> BinaryReader) option" +
  fixes write_to :: "bytes \<Rightarrow> 'a \<Rightarrow> bytes" and valid :: "'a \<Rightarrow> bool"
  assumes write_appends: "write_to buf x = buf @ write_to [] x"
    and reads_written: "valid x \<Longrightarrow> reads read x (write_to [] x)"
begin

lemma writes_append: "foldl write_to buf xs = buf @ foldl write_to [] xs"
proof (induction xs arbitrary: buf)
  case Nil
  then show ?case by simp
next
  case (Cons x xs)
  from Cons [of "write_to buf x"] Cons [of "write_to [] x"] write_appends [of buf x] show ?case by simp
qed

lemma reads_n_written:
  "list_all valid xs \<Longrightarrow> reads (read_n read (length xs)) xs (foldl write_to [] xs)"
proof (induction xs)
  case Nil
  then show ?case by (simp add: reads_def)
next
  case (Cons x xs)
  then have v: "valid x" and "reads (read_n read (length xs)) xs (foldl write_to [] xs)" by simp_all
  have "reads (\<lambda>r. Option.bind (read_n read (length xs) r) (\<lambda>(xs, r). Some (x # xs, r))) (x # xs)
      (foldl write_to [] xs @ [])"
    by (rule reads_bind, fact) (rule reads_return)
  then have "reads (\<lambda>r. Option.bind (read r) (\<lambda>(x, r). Option.bind (read_n read (length xs) r)
      (\<lambda>(xs, r). Some (x # xs, r)))) (x # xs) (write_to [] x @ foldl write_to [] xs @ [])"
    by (rule reads_bind [OF reads_written [OF v]])
  moreover have "read_n read (Suc (length xs)) = (\<lambda>r. Option.bind (read r) (\<lambda>(x, r).
      Option.bind (read_n read (length xs) r) (\<lambda>(xs, r). Some (x # xs, r))))"
    by (rule ext) (auto simp: Option.bind_def split: option.splits)
  ultimately show ?case using writes_append [of "write_to [] x" xs] by simp
qed

end

section \<open>The primitives are codecs\<close>

lemma byte_of_drop [word_simps]:
  "bit (ucast (ucast (drop_bit k v AND 0xFF) :: u8) :: 'a::len word) i \<longleftrightarrow> i < 8 \<and> bit (v :: 'a word) (k + i)"
  if "8 \<le> LENGTH('a)"
proof -
  have "(0xFF :: 'a word) = mask 8" by (simp add: mask_eq_exp_minus_1)
  then have "bit (0xFF :: 'a word) i \<longleftrightarrow> i < LENGTH('a) \<and> i < 8"
    by (metis bit_mask_iff possible_bit_word)
  with that show ?thesis
    by (auto simp: bit_ucast_iff bit_and_iff bit_drop_bit_eq ac_simps)
qed

lemma add_byte:
  "k + 8 \<le> LENGTH('a) \<Longrightarrow>
     take_bit k v OR push_bit k (ucast (ucast (drop_bit k v AND 0xFF) :: u8)) = take_bit (k + 8) (v :: 'a::len word)"
  by (rule bit_word_eqI) (auto simp: bit_or_iff bit_push_bit_iff byte_of_drop bit_take_bit_iff)

lemma join_bytes_32:
  "ucast (ucast (v AND 0xFF) :: u8) OR push_bit 8 (ucast (ucast (drop_bit 8 v AND 0xFF) :: u8))
     OR push_bit 16 (ucast (ucast (drop_bit 16 v AND 0xFF) :: u8))
     OR push_bit 24 (ucast (ucast (drop_bit 24 v AND 0xFF) :: u8)) = (v :: u32)"
  using add_byte [of 0 v] add_byte [of 8 v] add_byte [of 16 v] add_byte [of 24 v]
  by (simp add: or.assoc [symmetric] take_bit_word_eq_self)

lemma join_bytes_upto:
  assumes "n \<le> 8"
  shows "foldl (\<lambda>val i. val OR push_bit (i * 8) (ucast (ucast (drop_bit (i * 8) v AND 0xFF) :: u8))) 0 [0..<n]
      = take_bit (n * 8) (v :: u64)"
  using assms
proof (induction n)
  case 0
  then show ?case by simp
next
  case (Suc n)
  then show ?case using add_byte [of "n * 8" v] by (simp add: add.commute)
qed

lemma write_u64_eq: "write_u64 buf v = buf @ map (\<lambda>i. ucast (drop_bit (i * 8) v AND 0xFF)) [0..<8]"
proof -
  have "foldl (\<lambda>b i. b @ [ucast (drop_bit (i * 8) v AND 0xFF)]) buf xs
      = buf @ map (\<lambda>i. ucast (drop_bit (i * 8) v AND 0xFF)) xs" for xs
    by (induction xs arbitrary: buf) simp_all
  then show ?thesis by (simp add: write_u64_def)
qed

interpretation u8_codec: codec read_u8 write_u8 "\<lambda>_. True"
  by unfold_locales
    (auto simp: read_u8_def write_u8_def reads_def reader_defs nth_append split: if_splits)

interpretation u32_codec: codec read_u32 write_u32 "\<lambda>_. True"
proof unfold_locales
  fix d e p x q assume "read_u32 (at d p) = Some (x, at d q)"
  then show "read_u32 (at (d @ e) p) = Some (x, at (d @ e) q)"
    by (auto simp: read_u32_def reader_defs nth_append split: if_splits)
next
  show "reads read_u32 x (write_u32 [] x)" for x
    by (simp add: reads_def read_u32_def write_u32_def reader_defs nth_append join_bytes_32)
qed (auto simp: read_u32_def write_u32_def reader_defs split: if_splits)

interpretation i32_codec: codec read_i32 write_i32 "\<lambda>_. True"
proof -
  have "read_i32 = read_u32" by (rule ext) (auto simp: read_i32_def split: option.splits)
  moreover have "write_i32 = write_u32" by (intro ext) (simp add: write_i32_def)
  ultimately show "codec read_i32 write_i32 (\<lambda>_. True)" using u32_codec.codec_axioms by simp
qed

interpretation u64_codec: codec read_u64 write_u64 "\<lambda>_. True"
proof unfold_locales
  fix d e p x q assume "read_u64 (at d p) = Some (x, at d q)"
  then show "read_u64 (at (d @ e) p) = Some (x, at (d @ e) q)"
    by (auto simp: read_u64_def reader_defs nth_append upt_rec split: if_splits)
next
  fix x
  have "read_u64 (at (pre @ write_u64 [] x @ post) (length pre))
      = Some (x, at (pre @ write_u64 [] x @ post) (length pre + length (write_u64 [] x)))" for pre post
  proof -
    let ?d = "pre @ write_u64 [] x @ post"
    have b: "(write_u64 [] x @ post) ! i = ucast (drop_bit (i * 8) x AND 0xFF)" if "i < 8" for i
      using that by (simp add: write_u64_eq nth_append)
    have "foldl (\<lambda>val i. val OR push_bit (i * 8) (ucast (byte_at (at ?d (length pre)) i))) 0 [0..<8]
        = foldl (\<lambda>val i. val OR push_bit (i * 8) (ucast (ucast (drop_bit (i * 8) x AND 0xFF) :: u8))) 0 [0..<8]"
      by (intro foldl_cong) (simp_all add: byte_at_def reader_simps b)
    also have "\<dots> = take_bit (8 * 8) x" by (rule join_bytes_upto) simp
    also have "\<dots> = x" by (simp add: take_bit_word_eq_self)
    finally show ?thesis by (simp add: read_u64_def has_bytes_def reader_simps write_u64_eq)
  qed
  then show "reads read_u64 x (write_u64 [] x)" by (simp add: reads_def)
qed (auto simp: read_u64_def write_u64_eq reader_defs split: if_splits)

interpretation string_reader: reader "read_string n"
  by unfold_locales (auto simp: read_string_def reader_defs split: if_splits)

lemma reads_string: "length s = n \<Longrightarrow> reads (read_string n) s s"
  by (auto simp: reads_def read_string_def reader_defs)

interpretation skip_reader: reader "skip n"
  by unfold_locales (auto simp: skip_def reader_defs split: if_splits)

lemma reads_skip: "length s = n \<Longrightarrow> reads (skip n) () s"
  by (auto simp: reads_def skip_def reader_defs)

lemmas primitive_readers [reader_intros] =
  u8_codec.reader_axioms u32_codec.reader_axioms i32_codec.reader_axioms u64_codec.reader_axioms
  string_reader.reader_axioms skip_reader.reader_axioms

text \<open>Sequencing after a primitive whose bytes come first.\<close>

lemmas reads_then =
  reads_bind [OF u8_codec.reads_written [OF TrueI]] reads_bind [OF u32_codec.reads_written [OF TrueI]]
  reads_bind [OF i32_codec.reads_written [OF TrueI]] reads_bind [OF u64_codec.reads_written [OF TrueI]]

text \<open>Each writer as an append, oriented so that rewriting with it ends.\<close>

lemma written_suffix:
  "NO_MATCH [] buf \<Longrightarrow> write_u8 buf a = buf @ write_u8 [] a"
  "NO_MATCH [] buf \<Longrightarrow> write_u32 buf b = buf @ write_u32 [] b"
  "NO_MATCH [] buf \<Longrightarrow> write_i32 buf c = buf @ write_i32 [] c"
  "NO_MATCH [] buf \<Longrightarrow> write_u64 buf d = buf @ write_u64 [] d"
  "NO_MATCH [] buf \<Longrightarrow> write_bytes buf s = buf @ s"
  by (rule u8_codec.write_appends u32_codec.write_appends i32_codec.write_appends
      u64_codec.write_appends write_bytes_def)+

text \<open>\<open>skip\<close> accepts and moves exactly as reading the bytes and dropping them.\<close>

lemma skip_as_read: "skip n r = map_option (\<lambda>(_, r'). ((), r')) (read_string n r)"
  by (simp add: skip_def read_string_def)

text \<open>A read succeeds exactly when \<open>remaining\<close> says that many bytes are left.\<close>

lemma reads_by_remaining:
  assumes "rd_pos r \<le> length (rd_data r)"
  shows "read_u8 r \<noteq> None \<longleftrightarrow> 1 \<le> remaining r" "read_u16 r \<noteq> None \<longleftrightarrow> 2 \<le> remaining r"
    "read_u32 r \<noteq> None \<longleftrightarrow> 4 \<le> remaining r" "read_u64 r \<noteq> None \<longleftrightarrow> 8 \<le> remaining r"
    "read_string n r \<noteq> None \<longleftrightarrow> n \<le> remaining r"
  using assms by (auto simp: read_u8_def read_u16_def read_u32_def read_u64_def read_string_def
      has_bytes_def remaining_def)

end
