(* ===== verification/Lir.thy ===== *)
theory Lir
  imports Prelude
begin

text \<open>
  The low-level intermediate representation of the code generators
  (\<open>include/brass/codegen/lir.hpp\<close>, \<open>src/codegen/lir.cpp\<close>): virtual and physical registers,
  operands, opcodes and instructions, and the allocation of virtual registers.  The opcode
  enumeration is written as a sum of its comment groups.  An instruction keeps the fields the
  integer lowering sets: opcode, defined and used operands with their fixed-register
  constraints, and the condition; the fields of calls, guards and safepoints are left out.
\<close>

section \<open>Registers\<close>

text \<open>
  \<open>RegClass\<close> is an enumeration over \<open>uint8_t\<close> and the stack map decoder casts any byte to it, so
  the field keeps the byte.
\<close>

definition RC_GPR :: u8 where "RC_GPR = 0"
definition RC_XMM :: u8 where "RC_XMM = 1"

record PReg =
  reg_class :: u8
  reg_code :: u8

definition default_PReg :: PReg where
  "default_PReg = \<lparr>reg_class = RC_GPR, reg_code = 0xFF\<rparr>"

definition preg_valid :: "PReg \<Rightarrow> bool" where
  "preg_valid p \<longleftrightarrow> reg_code p \<noteq> 0xFF"

definition preg_is_gpr :: "PReg \<Rightarrow> bool" where
  "preg_is_gpr p \<longleftrightarrow> reg_class p = RC_GPR \<and> preg_valid p"

definition preg_is_xmm :: "PReg \<Rightarrow> bool" where
  "preg_is_xmm p \<longleftrightarrow> reg_class p = RC_XMM \<and> preg_valid p"

record VReg =
  vreg_id :: nat
  vreg_class :: u8
  vreg_size :: nat
  is_gcref :: bool
  is_tagged :: bool

text \<open>\<open>VReg{}\<close>: the invalid register.\<close>

definition default_VReg :: VReg where
  "default_VReg = \<lparr>vreg_id = 4294967295, vreg_class = RC_GPR, vreg_size = 8, is_gcref = False, is_tagged = False\<rparr>"

datatype GPR = RAX | RCX | RDX | RBX | RSP | RBP | RSI | RDI | R8 | R9 | R10 | R11 | R12 | R13 | R14 | R15

fun gpr_code :: "GPR \<Rightarrow> u8" where
  "gpr_code RAX = 0" | "gpr_code RCX = 1" | "gpr_code RDX = 2" | "gpr_code RBX = 3"
| "gpr_code RSP = 4" | "gpr_code RBP = 5" | "gpr_code RSI = 6" | "gpr_code RDI = 7"
| "gpr_code R8 = 8" | "gpr_code R9 = 9" | "gpr_code R10 = 10" | "gpr_code R11 = 11"
| "gpr_code R12 = 12" | "gpr_code R13 = 13" | "gpr_code R14 = 14" | "gpr_code R15 = 15"

definition preg_gpr :: "GPR \<Rightarrow> PReg" where
  "preg_gpr r = \<lparr>reg_class = RC_GPR, reg_code = gpr_code r\<rparr>"

text \<open>The condition codes, without their aliases.\<close>

datatype Condition =
    C_O | C_NO | C_B | C_AE | C_E | C_NE | C_BE | C_A | C_S | C_NS | C_P | C_NP | C_L | C_GE | C_LE | C_G | C_None

section \<open>Operands\<close>

datatype LirScale = Scale1 | Scale2 | Scale4 | Scale8

record LirMem =
  base_vreg :: "VReg option"
  base_preg :: "PReg option"
  index_vreg :: "VReg option"
  index_preg :: "PReg option"
  mem_scale :: LirScale
  mem_disp :: i32

text \<open>The operand kinds; the last argument is the operand size in bytes where the kind has one.\<close>

datatype LirOperand =
    O_None
  | O_VReg VReg nat
  | O_PReg PReg nat
  | O_ImmInt i64 nat
  | O_ImmFloat u64
  | O_Mem LirMem nat
  | O_SpillSlot i32 nat
  | O_LocalSlot i32 nat
  | O_Label u32
  | O_Symbol string
  | O_Condition Condition

definition op_preg_gpr :: "GPR \<Rightarrow> nat \<Rightarrow> LirOperand" where
  "op_preg_gpr g sz = O_PReg (preg_gpr g) sz"

fun operand_size :: "LirOperand \<Rightarrow> nat" where
  "operand_size (O_VReg _ sz) = sz"
| "operand_size (O_PReg _ sz) = sz"
| "operand_size (O_ImmInt _ sz) = sz"
| "operand_size (O_Mem _ sz) = sz"
| "operand_size (O_SpillSlot _ sz) = sz"
| "operand_size (O_LocalSlot _ sz) = sz"
| "operand_size _ = 8"

fun is_mem :: "LirOperand \<Rightarrow> bool" where
  "is_mem (O_Mem _ _) = True"
| "is_mem _ = False"

section \<open>Opcodes\<close>

datatype MoveOp = L_Mov | L_Mov32 | L_Movabs | L_Movsx8 | L_Movsx16 | L_Movsxd | L_Movzx8 | L_Movzx16

datatype AluOp =
    L_Add | L_Add32 | L_Adds | L_Adds32 | L_Sub | L_Sub32 | L_Subs | L_Subs32 | L_Imul | L_Imul32
  | L_Smulh | L_Umulh | L_Idiv | L_Idiv32 | L_Div | L_Div32 | L_Cdq | L_Cqo | L_And | L_And32 | L_Or
  | L_Or32 | L_Xor | L_Xor32 | L_Not | L_Not32 | L_Neg | L_Neg32 | L_Shl | L_Shl32 | L_Shr | L_Shr32
  | L_Sar | L_Sar32 | L_Popcnt | L_Popcnt32 | L_Lzcnt | L_Lzcnt32 | L_Tzcnt | L_Tzcnt32 | L_Bsr | L_Bsr32
  | L_Bsf | L_Bsf32

datatype TestOp = L_Cmp | L_Cmp32 | L_Test | L_Test32 | L_Setcc | L_Cmovcc

datatype SseOp =
    L_Movsd | L_Movss | L_Movq_gx | L_Movq_xg | L_Addsd | L_Addss | L_Subsd | L_Subss | L_Mulsd | L_Mulss
  | L_Divsd | L_Divss | L_Sqrtsd | L_Sqrtss | L_Ucomisd | L_Ucomiss | L_Xorpd | L_Fneg | L_Fneg32
  | L_Cvtsi2sd | L_Cvtsi2sd32 | L_Cvttsd2si | L_Cvttsd2si32 | L_Cvtsi2ss | L_Cvtsi2ss32 | L_Cvttss2si
  | L_Cvttss2si32 | L_Cvtsd2ss | L_Cvtss2sd | L_Floor32 | L_Floor64 | L_Ceil32 | L_Ceil64 | L_Round32
  | L_Round64 | L_Fabs32 | L_Fabs64 | L_Minss | L_Minsd | L_Maxss | L_Maxsd

datatype SimdOp =
    L_Movaps | L_Movups | L_Movd_xg | L_Movd_gx | L_Addps | L_Subps | L_Mulps | L_Divps | L_Minps | L_Maxps
  | L_Sqrtps | L_Addpd | L_Subpd | L_Mulpd | L_Divpd | L_Minpd | L_Maxpd | L_Sqrtpd | L_Fneg4s | L_Fneg2d
  | L_Paddd | L_Psubd | L_Pmulld | L_Pminsd | L_Pmaxsd | L_Paddq | L_Psubq | L_Pand | L_Por | L_Pxor | L_Pandn
  | L_Pnot | L_Pcmpeqd | L_Pslld | L_Psllq | L_Shufps | L_Shufpd | L_Pshufd | L_Movddup | L_Pinsrd | L_Pextrd
  | L_Pinsrq | L_Pextrq | L_Insertps | L_Extractps | L_Xorps

datatype AvxOp =
    L_Vmovaps | L_Vmovups | L_Vaddps | L_Vsubps | L_Vmulps | L_Vdivps | L_Vminps | L_Vmaxps | L_Vaddpd | L_Vsubpd
  | L_Vmulpd | L_Vdivpd | L_Vminpd | L_Vmaxpd | L_Vsqrtps | L_Vsqrtpd | L_Vextractf128 | L_Vinsertf128 | L_Vpaddd
  | L_Vpsubd | L_Vpmulld | L_Vpaddq | L_Vpsubq | L_Vandps | L_Vorps | L_Vxorps | L_Vandpd | L_Vorpd | L_Vxorpd
  | L_Vpand | L_Vpor | L_Vpxor | L_Vbroadcastss | L_Vbroadcastsd | L_Vpbroadcastd | L_Vpbroadcastq | L_Vfmadd213ps
  | L_Vfmadd231ps | L_Vfmadd213pd | L_Vfmadd231pd | L_Vfmadd213ss | L_Vfmadd231ss | L_Vfmadd213sd | L_Vfmadd231sd

datatype VexOp =
    L_Vcmpps | L_Vcmppd | L_Vpcmpeqd | L_Vpcmpgtd | L_Vpcmpeqq | L_Vpcmpgtq | L_Vpminsd | L_Vpmaxsd | L_Vpsllvd
  | L_Vpsllvq | L_Vpsrlvd | L_Vpsrlvq | L_Vpsravd | L_Vshufps | L_Vblendvps | L_Vblendvpd | L_Vcvtdq2ps
  | L_Vcvttps2dq | L_Vcvtdq2pd | L_Vcvttpd2dq | L_Vcvtps2pd | L_Vcvtpd2ps | L_Vpmovsxdq | L_Vroundps | L_Vroundpd
  | L_Vmovmskps | L_Vmovmskpd

datatype FlowOp = L_Jmp | L_Jcc | L_Call | L_CallIndirect | L_Ret | L_Push | L_Pop | L_Lea

datatype RuntimeOp = L_ParallelCopy | L_Safepoint | L_WriteBarrier | L_GuardExit | L_Trap

datatype LirOpcode =
    L_Nop
  | L_KeepAlive
  | LMove MoveOp
  | LAlu AluOp
  | LTest TestOp
  | LSse SseOp
  | LSimd SimdOp
  | LAvx AvxOp
  | LVex VexOp
  | LFlow FlowOp
  | LRuntime RuntimeOp

section \<open>Instructions\<close>

record LirInst =
  lir_opcode :: LirOpcode
  lir_defs :: "LirOperand list"
  lir_uses :: "LirOperand list"
  def_constraints :: "PReg option list"
  use_constraints :: "PReg option list"
  lir_condition :: Condition

definition new_inst :: "LirOpcode \<Rightarrow> LirInst" where
  "new_inst op = \<lparr>lir_opcode = op, lir_defs = [], lir_uses = [], def_constraints = [], use_constraints = [],
     lir_condition = C_None\<rparr>"

definition add_def :: "LirOperand \<Rightarrow> PReg option \<Rightarrow> LirInst \<Rightarrow> LirInst" where
  "add_def op c i = i\<lparr>lir_defs := lir_defs i @ [op], def_constraints := def_constraints i @ [c]\<rparr>"

definition add_use :: "LirOperand \<Rightarrow> PReg option \<Rightarrow> LirInst \<Rightarrow> LirInst" where
  "add_use op c i = i\<lparr>lir_uses := lir_uses i @ [op], use_constraints := use_constraints i @ [c]\<rparr>"

text \<open>A block's instructions, and the virtual registers of its function.\<close>

record LirFunction =
  vreg_table :: "VReg list"
  lir_code :: "LirInst list"

definition allocate_vreg :: "u8 \<Rightarrow> nat \<Rightarrow> bool \<Rightarrow> bool \<Rightarrow> LirFunction \<Rightarrow> VReg \<times> LirFunction" where
  "allocate_vreg rc sz gcref tagged fn =
     (let v = \<lparr>vreg_id = length (vreg_table fn), vreg_class = rc, vreg_size = sz,
              is_gcref = (gcref \<or> tagged), is_tagged = tagged\<rparr>
      in (v, fn\<lparr>vreg_table := vreg_table fn @ [v]\<rparr>))"

definition append_inst :: "LirInst \<Rightarrow> LirFunction \<Rightarrow> LirFunction" where
  "append_inst i fn = fn\<lparr>lir_code := lir_code fn @ [i]\<rparr>"

text \<open>The table's invariant: a register's number is its position.\<close>

definition vreg_inv :: "LirFunction \<Rightarrow> bool" where
  "vreg_inv fn \<longleftrightarrow> (\<forall>i < length (vreg_table fn). vreg_id (vreg_table fn ! i) = i)"

lemma allocate_vreg_inv:
  "vreg_inv fn \<Longrightarrow> vreg_inv (snd (allocate_vreg rc sz gcref tagged fn))"
  by (auto simp: vreg_inv_def allocate_vreg_def Let_def nth_append less_Suc_eq)

lemma allocate_vreg_fresh:
  "allocate_vreg rc sz gcref tagged fn = (v, fn') \<Longrightarrow> vreg_inv fn \<Longrightarrow>
     v \<notin> set (vreg_table fn) \<and> vreg_id v \<notin> vreg_id ` set (vreg_table fn)"
  by (force simp: vreg_inv_def allocate_vreg_def Let_def in_set_conv_nth)

end
