(* ===== verification/Stack_Map.thy ===== *)
theory Stack_Map
  imports Byte_Codec Lir
begin

text \<open>
  The stack maps of \<open>include/brass/gc/stack_map.hpp\<close> and \<open>src/gc/stack_map.cpp\<close>: which frame
  slots and callee-saved registers hold references at each return address of a function, how
  the collector finds the record of a return address, and the binary format the maps are
  stored in.  Operations of the classes take the object as a record and return it updated.
  The binary search of \<open>std::lower_bound\<close> is written out; \<open>std::stable_sort\<close> is the stable
  \<^const>\<open>sort_key\<close>.  The format is proved to round-trip and to reject every truncated input,
  the lookups to find the first record of an offset whether or not the records were sorted.
\<close>

section \<open>Data\<close>

datatype StackMapRootKind = FrameSlot | CalleeSavedReg

datatype StackMapValueKind = GcRef | Tagged

record StackMapRootLocation =
  root_kind :: StackMapRootKind
  offset_from_rbp :: i32
  root_reg :: PReg
  root_value :: StackMapValueKind

definition frame_slot :: "i32 \<Rightarrow> StackMapValueKind \<Rightarrow> StackMapRootLocation" where
  "frame_slot offset v =
     \<lparr>root_kind = FrameSlot, offset_from_rbp = offset, root_reg = default_PReg, root_value = v\<rparr>"

definition callee_saved :: "i32 \<Rightarrow> PReg \<Rightarrow> StackMapValueKind \<Rightarrow> StackMapRootLocation" where
  "callee_saved offset r v =
     \<lparr>root_kind = CalleeSavedReg, offset_from_rbp = offset, root_reg = r, root_value = v\<rparr>"

record StackMapRecord =
  instruction_offset :: u32
  frame_size :: u32
  roots :: "StackMapRootLocation list"
  safepoint_id :: u32

definition same_location :: "StackMapRootLocation \<Rightarrow> StackMapRootLocation \<Rightarrow> bool" where
  "same_location r loc \<longleftrightarrow> root_kind r = root_kind loc
     \<and> offset_from_rbp r = offset_from_rbp loc \<and> root_reg r = root_reg loc"

definition add_root :: "StackMapRecord \<Rightarrow> StackMapRootLocation \<Rightarrow> StackMapRecord" where
  "add_root rec loc = (if list_ex (\<lambda>r. same_location r loc) (roots rec) then rec
     else rec\<lparr>roots := roots rec @ [loc]\<rparr>)"

record FunctionStackMap =
  function_name :: bytes
  function_address :: u64
  code_offset :: u32
  code_size :: u32
  fn_records :: "StackMapRecord list"
  records_sorted :: bool

definition default_FunctionStackMap :: FunctionStackMap where
  "default_FunctionStackMap = \<lparr>function_name = [], function_address = 0, code_offset = 0,
     code_size = 0, fn_records = [], records_sorted = False\<rparr>"

definition add_record :: "FunctionStackMap \<Rightarrow> StackMapRecord \<Rightarrow> FunctionStackMap" where
  "add_record fm rec = fm\<lparr>fn_records := fn_records fm @ [rec]\<rparr>"

record ModuleStackMap =
  module_functions :: "FunctionStackMap list"
  indexed_by_code_registry :: bool

definition default_ModuleStackMap :: ModuleStackMap where
  "default_ModuleStackMap = \<lparr>module_functions = [], indexed_by_code_registry = False\<rparr>"

definition clear_functions :: "ModuleStackMap \<Rightarrow> ModuleStackMap" where
  "clear_functions m = m\<lparr>module_functions := []\<rparr>"

definition set_indexed_by_code_registry :: "ModuleStackMap \<Rightarrow> bool \<Rightarrow> ModuleStackMap" where
  "set_indexed_by_code_registry m v = m\<lparr>indexed_by_code_registry := v\<rparr>"

section \<open>Lookup\<close>

definition sort_records :: "FunctionStackMap \<Rightarrow> FunctionStackMap" where
  "sort_records fm = fm\<lparr>fn_records := sort_key instruction_offset (fn_records fm), records_sorted := True\<rparr>"

text \<open>
  \<open>std::lower_bound\<close> over \<open>[first, first + count)\<close>: halve the range, keeping the half that holds
  the first element that is not less.
\<close>

function lower_bound :: "('a \<Rightarrow> bool) \<Rightarrow> 'a list \<Rightarrow> nat \<Rightarrow> nat \<Rightarrow> nat" where
  "lower_bound before xs first count = (if count = 0 then first
     else let step = count div 2 in
       if before (xs ! (first + step)) then lower_bound before xs (first + step + 1) (count - (step + 1))
       else lower_bound before xs first step)"
  by auto
termination
  by (relation "measure (\<lambda>(before, xs, first, count). count)") auto

declare lower_bound.simps [simp del]

definition find_record_by_offset :: "FunctionStackMap \<Rightarrow> u32 \<Rightarrow> StackMapRecord option" where
  "find_record_by_offset fm call_offset = (if records_sorted fm then
       let it = lower_bound (\<lambda>r. instruction_offset r < call_offset) (fn_records fm) 0 (length (fn_records fm))
       in if it \<noteq> length (fn_records fm) \<and> instruction_offset (fn_records fm ! it) = call_offset
          then Some (fn_records fm ! it) else None
     else find (\<lambda>rec. instruction_offset rec = call_offset) (fn_records fm))"

definition find_record_by_ip :: "FunctionStackMap \<Rightarrow> u64 \<Rightarrow> StackMapRecord option" where
  "find_record_by_ip fm return_ip = (if function_address fm = 0 then None
     else if return_ip < function_address fm then None
     else find_record_by_offset fm (ucast (return_ip - function_address fm)))"

section \<open>Maps of a module\<close>

fun replace_or_append :: "FunctionStackMap \<Rightarrow> FunctionStackMap list \<Rightarrow> FunctionStackMap list" where
  "replace_or_append fm [] = [fm]"
| "replace_or_append fm (f # fs) = (if function_name f = function_name fm then fm # fs
     else f # replace_or_append fm fs)"

definition add_function :: "ModuleStackMap \<Rightarrow> FunctionStackMap \<Rightarrow> ModuleStackMap" where
  "add_function m fm = m\<lparr>module_functions := replace_or_append fm (module_functions m)\<rparr>"

definition find_function_by_name :: "ModuleStackMap \<Rightarrow> bytes \<Rightarrow> FunctionStackMap option" where
  "find_function_by_name m name = find (\<lambda>fn. function_name fn = name) (module_functions m)"

definition holds_ip :: "u64 \<Rightarrow> FunctionStackMap \<Rightarrow> bool" where
  "holds_ip ip fn \<longleftrightarrow> function_address fn \<noteq> 0 \<and>
     (if code_size fn > 0 then ip \<ge> function_address fn \<and> ip < function_address fn + ucast (code_size fn)
      else ip \<ge> function_address fn \<and>
        list_ex (\<lambda>r. function_address fn + ucast (instruction_offset r) = ip) (fn_records fn))"

definition find_function_by_ip :: "ModuleStackMap \<Rightarrow> u64 \<Rightarrow> FunctionStackMap option" where
  "find_function_by_ip m ip = find (holds_ip ip) (module_functions m)"

fun find_record_in :: "u64 \<Rightarrow> FunctionStackMap list \<Rightarrow> StackMapRecord option" where
  "find_record_in return_ip [] = None"
| "find_record_in return_ip (fn # fns) =
     (case (if function_address fn \<noteq> 0 \<and> return_ip \<ge> function_address fn
            then find_record_by_offset fn (ucast (return_ip - function_address fn)) else None) of
        Some rec \<Rightarrow> Some rec
      | None \<Rightarrow> find_record_in return_ip fns)"

definition find_record :: "ModuleStackMap \<Rightarrow> u64 \<Rightarrow> StackMapRecord option" where
  "find_record m return_ip = find_record_in return_ip (module_functions m)"

definition relocate :: "ModuleStackMap \<Rightarrow> u64 \<Rightarrow> ModuleStackMap" where
  "relocate m text_base_address = m\<lparr>module_functions :=
     map (\<lambda>fn. fn\<lparr>function_address := text_base_address + ucast (code_offset fn)\<rparr>) (module_functions m)\<rparr>"

fun register_in :: "bytes \<Rightarrow> u64 \<Rightarrow> u32 \<Rightarrow> FunctionStackMap list \<Rightarrow> FunctionStackMap list" where
  "register_in name address csize [] =
     [default_FunctionStackMap\<lparr>function_name := name, function_address := address, code_size := csize\<rparr>]"
| "register_in name address csize (fn # fns) = (if function_name fn = name
     then fn\<lparr>function_address := address, code_size := (if csize > 0 then csize else code_size fn)\<rparr> # fns
     else fn # register_in name address csize fns)"

definition register_function_address :: "ModuleStackMap \<Rightarrow> bytes \<Rightarrow> u64 \<Rightarrow> u32 \<Rightarrow> ModuleStackMap" where
  "register_function_address m name address csize = m\<lparr>module_functions := register_in name address csize (module_functions m)\<rparr>"

section \<open>Encoding\<close>

definition STACK_MAP_MAGIC :: u32 where "STACK_MAP_MAGIC = 0x4D435342"
definition STACK_MAP_VERSION :: u32 where "STACK_MAP_VERSION = 1"

definition kind_byte :: "StackMapRootKind \<Rightarrow> u8" where
  "kind_byte k = (case k of FrameSlot \<Rightarrow> 0 | CalleeSavedReg \<Rightarrow> 1)"

definition value_byte :: "StackMapValueKind \<Rightarrow> u8" where
  "value_byte v = (case v of GcRef \<Rightarrow> 0 | Tagged \<Rightarrow> 1)"

definition write_root :: "bytes \<Rightarrow> StackMapRootLocation \<Rightarrow> bytes" where
  "write_root out root =
     write_u8 (write_u8 (write_u8 (write_u8 (write_i32 out (offset_from_rbp root))
       (kind_byte (root_kind root))) (reg_class (root_reg root))) (reg_code (root_reg root)))
       (value_byte (root_value root))"

definition write_record :: "bytes \<Rightarrow> StackMapRecord \<Rightarrow> bytes" where
  "write_record out rec =
     foldl write_root
       (write_u32 (write_u32 (write_u32 (write_u32 out (instruction_offset rec)) (frame_size rec))
          (safepoint_id rec)) (of_nat (length (roots rec))))
       (roots rec)"

definition write_name :: "bytes \<Rightarrow> bytes \<Rightarrow> bytes" where
  "write_name out name = (let name_len = of_nat (length name) :: u32; out = write_u32 out name_len
     in if name_len > 0 then write_bytes out (take (unat name_len) name) else out)"

definition write_function :: "bytes \<Rightarrow> FunctionStackMap \<Rightarrow> bytes" where
  "write_function out fn =
     foldl write_record
       (write_u32 (write_u32 (write_u64 (write_name out (function_name fn)) (ucast (code_offset fn)))
          (code_size fn)) (of_nat (length (fn_records fn))))
       (fn_records fn)"

definition encode_stack_maps :: "ModuleStackMap \<Rightarrow> bytes" where
  "encode_stack_maps m =
     foldl write_function
       (write_u32 (write_u32 (write_u32 [] STACK_MAP_MAGIC) STACK_MAP_VERSION) (of_nat (length (module_functions m))))
       (module_functions m)"

section \<open>Decoding\<close>

definition read_root :: "StackMapRootLocation read" where
  "read_root r = do {
     (offset, r) \<leftarrow> read_i32 r;
     (kind, r) \<leftarrow> read_u8 r;
     (cls, r) \<leftarrow> read_u8 r;
     (code, r) \<leftarrow> read_u8 r;
     (v, r) \<leftarrow> read_u8 r;
     if kind > 1 \<or> v > 1 then None
     else Some (\<lparr>root_kind = (if kind = 0 then FrameSlot else CalleeSavedReg), offset_from_rbp = offset,
                 root_reg = \<lparr>reg_class = cls, reg_code = code\<rparr>,
                 root_value = (if v = 0 then GcRef else Tagged)\<rparr>, r)}"

definition read_record :: "StackMapRecord read" where
  "read_record r = do {
     (ioff, r) \<leftarrow> read_u32 r;
     (fsize, r) \<leftarrow> read_u32 r;
     (sid, r) \<leftarrow> read_u32 r;
     (root_count, r) \<leftarrow> read_u32 r;
     (rs, r) \<leftarrow> read_n read_root (unat root_count) r;
     Some (\<lparr>instruction_offset = ioff, frame_size = fsize, roots = rs, safepoint_id = sid\<rparr>, r)}"

definition read_function :: "u64 \<Rightarrow> FunctionStackMap read" where
  "read_function text_base_address r = do {
     (name_len, r) \<leftarrow> read_u32 r;
     (name, r) \<leftarrow> read_string (unat name_len) r;
     (code_offset64, r) \<leftarrow> read_u64 r;
     (csize, r) \<leftarrow> read_u32 r;
     (rec_count, r) \<leftarrow> read_u32 r;
     (recs, r) \<leftarrow> read_n read_record (unat rec_count) r;
     Some (default_FunctionStackMap\<lparr>function_name := name, code_offset := ucast code_offset64,
        code_size := csize,
        function_address := (if text_base_address > 0 then text_base_address + ucast (ucast code_offset64 :: u32) else 0),
        fn_records := recs\<rparr>, r)}"

text \<open>
  The loop over the functions adds each to \<open>out\<close> as it is read, so a failure leaves the
  functions before it behind.
\<close>

fun read_functions :: "u64 \<Rightarrow> nat \<Rightarrow> BinaryReader \<Rightarrow> ModuleStackMap \<Rightarrow> bool \<times> ModuleStackMap" where
  "read_functions base 0 r out = (True, out)"
| "read_functions base (Suc n) r out = (case read_function base r of
     None \<Rightarrow> (False, out)
   | Some (fm, r) \<Rightarrow> read_functions base n r (add_function out fm))"

text \<open>The header: magic number, version and the count of functions.\<close>

definition read_header :: "u32 read" where
  "read_header r = do {
     (magic, r) \<leftarrow> read_u32 r;
     if magic \<noteq> STACK_MAP_MAGIC then None else do {
     (version, r) \<leftarrow> read_u32 r;
     if version \<noteq> STACK_MAP_VERSION then None else read_u32 r}}"

definition decode_stack_maps_into :: "bytes \<Rightarrow> ModuleStackMap \<Rightarrow> u64 \<Rightarrow> bool \<times> ModuleStackMap" where
  "decode_stack_maps_into data out text_base_address = (let out = clear_functions out in
     case read_header (at data 0) of None \<Rightarrow> (False, out)
     | Some (fn_count, r) \<Rightarrow> read_functions text_base_address (unat fn_count) r out)"

definition decode_stack_maps :: "bytes \<Rightarrow> u64 \<Rightarrow> ModuleStackMap" where
  "decode_stack_maps data text_base_address =
     snd (decode_stack_maps_into data default_ModuleStackMap text_base_address)"

definition peek_stack_maps :: "bytes \<Rightarrow> bool \<times> u32 \<times> u32" where
  "peek_stack_maps data = (case read_header (at data 0) of None \<Rightarrow> (False, 0, 0)
     | Some (function_count, r) \<Rightarrow>
         if function_count = 0 then (True, 0, 0)
         else (case do { (name_len, r) \<leftarrow> read_u32 r; (u, r) \<leftarrow> skip (unat name_len) r;
                         (code_offset64, r) \<leftarrow> read_u64 r; (csize, r) \<leftarrow> read_u32 r; read_u32 r } of
                 None \<Rightarrow> (False, function_count, 0)
               | Some (first_record_count, _) \<Rightarrow> (True, function_count, first_record_count)))"

section \<open>The lookups find the first record of an offset\<close>

text \<open>Binary search over a list split by \<open>before\<close> stops at the boundary of the split.\<close>

lemma lower_bound_partition:
  assumes "first + count \<le> length xs"
    and "first \<le> k" and "k \<le> first + count"
    and "\<And>i. first \<le> i \<Longrightarrow> i < k \<Longrightarrow> before (xs ! i)"
    and "\<And>i. k \<le> i \<Longrightarrow> i < first + count \<Longrightarrow> \<not> before (xs ! i)"
  shows "lower_bound before xs first count = k"
  using assms
proof (induction before xs first count rule: lower_bound.induct)
  case (1 before xs first count)
  show ?case
  proof (cases "count = 0")
    case True
    with 1 show ?thesis by (simp add: lower_bound.simps)
  next
    case False
    let ?s = "count div 2"
    from False have s: "?s < count" by simp
    show ?thesis
    proof (cases "before (xs ! (first + ?s))")
      case True
      then have "first + ?s < k" using 1(7) [of "first + ?s"] s by force
      with 1(1) [OF False refl True] 1(3-7) False True s show ?thesis
        by (subst lower_bound.simps) (simp add: Let_def)
    next
      case False': False
      then have "k \<le> first + ?s" using 1(6) [of "first + ?s"] s by force
      with 1(2) [OF False refl False'] 1(3-7) False False' s show ?thesis
        by (subst lower_bound.simps) (simp add: Let_def)
    qed
  qed
qed

lemma lower_bound_sorted:
  assumes "sorted (map key xs)"
  shows "lower_bound (\<lambda>x. key x < (c :: 'k::linorder)) xs 0 (length xs) = length (takeWhile (\<lambda>x. key x < c) xs)"
proof (rule lower_bound_partition)
  let ?k = "length (takeWhile (\<lambda>x. key x < c) xs)"
  show "0 + length xs \<le> length xs" "0 \<le> ?k" "?k \<le> 0 + length xs"
    by (simp_all add: length_takeWhile_le)
  show "key (xs ! i) < c" if "0 \<le> i" "i < ?k" for i
    using that by (metis nth_mem set_takeWhileD takeWhile_nth)
  show "\<not> key (xs ! i) < c" if "?k \<le> i" "i < 0 + length xs" for i
  proof -
    from that have k: "?k < length xs" by simp
    have "\<not> key (xs ! ?k) < c" using nth_length_takeWhile [OF k] .
    moreover have "key (xs ! ?k) \<le> key (xs ! i)"
      using assms that by (auto simp: sorted_iff_nth_mono)
    ultimately show ?thesis by simp
  qed
qed

lemma find_as_takeWhile:
  assumes "sorted (map key xs)"
  shows "find (\<lambda>x. key x = (c :: 'k::linorder)) xs =
    (let k = length (takeWhile (\<lambda>x. key x < c) xs) in
     if k \<noteq> length xs \<and> key (xs ! k) = c then Some (xs ! k) else None)"
  using assms
proof (induction xs)
  case Nil
  then show ?case by simp
next
  case (Cons x xs)
  consider "key x < c" | "key x = c" | "c < key x" by fastforce
  then show ?case
  proof cases
    case 3
    with Cons.prems have "\<forall>y \<in> set xs. key y \<noteq> c" by auto
    then have "find (\<lambda>x. key x = c) xs = None" by (auto simp: find_None_iff)
    with 3 show ?thesis by auto
  qed (use Cons in \<open>auto simp: Let_def\<close>)
qed

lemma find_as_filter: "find P xs = (case filter P xs of [] \<Rightarrow> None | x # _ \<Rightarrow> Some x)"
  by (induction xs) auto

lemma find_sort_key: "find (\<lambda>x. f x = c) (sort_key f xs) = find (\<lambda>x. f x = c) xs"
  by (simp add: find_as_filter sort_key_stable)

text \<open>The records' invariant: a map marked sorted is sorted.\<close>

definition sorted_inv :: "FunctionStackMap \<Rightarrow> bool" where
  "sorted_inv fm \<longleftrightarrow> (records_sorted fm \<longrightarrow> sorted (map instruction_offset (fn_records fm)))"

lemma find_record_by_offset_first:
  "sorted_inv fm \<Longrightarrow> find_record_by_offset fm off = find (\<lambda>r. instruction_offset r = off) (fn_records fm)"
  by (simp add: find_record_by_offset_def sorted_inv_def lower_bound_sorted find_as_takeWhile)

lemma sort_records_inv [simp]: "sorted_inv (sort_records fm)"
  by (simp add: sorted_inv_def sort_records_def)

section \<open>The format round-trips\<close>

lemma root_bytes [simp]:
  "kind_byte k \<le> 1" "value_byte v \<le> 1" "kind_byte k = 0 \<longleftrightarrow> k = FrameSlot" "value_byte v = 0 \<longleftrightarrow> v = GcRef"
  by (cases k; cases v; simp add: kind_byte_def value_byte_def)+

lemma root_cases [simp]:
  "k \<noteq> FrameSlot \<longleftrightarrow> k = CalleeSavedReg" "v \<noteq> GcRef \<longleftrightarrow> v = Tagged"
  by (cases k; simp) (cases v; simp)

lemma read_root_parts:
  "reads read_root x (write_i32 [] (offset_from_rbp x) @ write_u8 [] (kind_byte (root_kind x))
     @ write_u8 [] (reg_class (root_reg x)) @ write_u8 [] (reg_code (root_reg x))
     @ write_u8 [] (value_byte (root_value x)) @ [])"
  unfolding read_root_def
  by (intro reads_then) (cases x; cases "root_reg x"; simp add: not_less reads_def)

interpretation root_codec: codec read_root write_root "\<lambda>_. True"
proof (rule codec.intro [OF _ codec_axioms.intro])
  show "reader read_root" unfolding read_root_def by (intro reader_intros)
next
  show "write_root buf x = buf @ write_root [] x" for buf x
    by (simp add: write_root_def written_suffix)
next
  show "reads read_root x (write_root [] x)" for x
    using read_root_parts [of x] by (simp add: write_root_def written_suffix)
qed

definition valid_record :: "StackMapRecord \<Rightarrow> bool" where
  "valid_record rec \<longleftrightarrow> length (roots rec) < 2 ^ 32"

lemma ucast_32_64: "ucast (ucast (x :: u32) :: u64) = x"
  by (rule bit_word_eqI) (simp add: bit_ucast_iff)

lemma unat_count: "n < 2 ^ 32 \<Longrightarrow> unat (of_nat n :: u32) = n"
  by (simp add: unat_of_nat)

lemma read_record_parts:
  assumes "valid_record x"
  shows "reads read_record x (write_u32 [] (instruction_offset x) @ write_u32 [] (frame_size x)
     @ write_u32 [] (safepoint_id x) @ write_u32 [] (of_nat (length (roots x)))
     @ foldl write_root [] (roots x) @ [])"
  unfolding read_record_def
proof (intro reads_then)
  have "reads (read_n read_root (length (roots x))) (roots x) (foldl write_root [] (roots x))"
    by (rule root_codec.reads_n_written) (simp add: list_all_iff)
  then have "reads (read_n read_root (unat (of_nat (length (roots x)) :: u32))) (roots x) (foldl write_root [] (roots x))"
    using assms by (simp add: valid_record_def unat_count)
  then show "reads (\<lambda>r. read_n read_root (unat (of_nat (length (roots x)) :: u32)) r \<bind>
      (\<lambda>(rs, r). Some (\<lparr>instruction_offset = instruction_offset x, frame_size = frame_size x,
        roots = rs, safepoint_id = safepoint_id x\<rparr>, r))) x (foldl write_root [] (roots x) @ [])"
    by (rule reads_bind) (simp add: reads_def)
qed

interpretation record_codec: codec read_record write_record valid_record
proof (rule codec.intro [OF _ codec_axioms.intro])
  show "reader read_record" unfolding read_record_def
    by (intro reader_intros root_codec.reader_axioms)
next
  show "write_record buf x = buf @ write_record [] x" for buf x
    by (simp add: write_record_def written_suffix root_codec.writes_append [where buf = "_ @ _"])
next
  show "reads read_record x (write_record [] x)" if "valid_record x" for x
    using read_record_parts [OF that]
    by (simp add: write_record_def written_suffix root_codec.writes_append [where buf = "_ @ _"])
qed

text \<open>
  What loading adds to the stored fields: the address of the code when the text section's base is
  known, and the mark that the records are not sorted.
\<close>

definition loaded :: "u64 \<Rightarrow> FunctionStackMap \<Rightarrow> FunctionStackMap" where
  "loaded base fn = fn\<lparr>function_address := (if base > 0 then base + ucast (code_offset fn) else 0),
     records_sorted := False\<rparr>"

definition storable :: "FunctionStackMap \<Rightarrow> bool" where
  "storable fn \<longleftrightarrow> length (function_name fn) < 2 ^ 32 \<and> length (fn_records fn) < 2 ^ 32
     \<and> list_all valid_record (fn_records fn)"

lemma write_name_appends:
  "length name < 2 ^ 32 \<Longrightarrow> write_name buf name = buf @ write_u32 [] (of_nat (length name)) @ name"
proof -
  assume n: "length name < 2 ^ 32"
  have "(of_nat (length name) :: u32) > 0 \<longleftrightarrow> name \<noteq> []"
    using unat_count [OF n] by (simp add: word_less_nat_alt)
  then show ?thesis
    by (auto simp: write_name_def Let_def unat_count [OF n] write_bytes_def u32_codec.write_appends [of buf])
qed

lemma write_name_suffix: "write_name buf name = buf @ write_name [] name"
  by (simp add: write_name_def Let_def write_bytes_def u32_codec.write_appends [of buf])

lemma read_function_parts:
  assumes "storable x" and "loaded base x = x"
  shows "reads (read_function base) x ((write_u32 [] (of_nat (length (function_name x))) @ function_name x
     @ write_u64 [] (ucast (code_offset x)) @ write_u32 [] (code_size x)
     @ write_u32 [] (of_nat (length (fn_records x))) @ foldl write_record [] (fn_records x) @ []))"
  unfolding read_function_def
proof (intro reads_then reads_bind [OF reads_string])
  from assms(1) have c: "unat (of_nat (length (fn_records x)) :: u32) = length (fn_records x)"
    by (simp add: storable_def unat_count)
  have "reads (read_n read_record (unat (of_nat (length (fn_records x)) :: u32))) (fn_records x)
      (foldl write_record [] (fn_records x))"
    unfolding c using assms(1) by (intro record_codec.reads_n_written) (simp add: storable_def)
  then show "reads (\<lambda>r. read_n read_record (unat (of_nat (length (fn_records x)) :: u32)) r \<bind>
      (\<lambda>(recs, r). Some (default_FunctionStackMap\<lparr>function_name := function_name x,
        code_offset := ucast (ucast (code_offset x) :: u64), code_size := code_size x,
        function_address := (if base > 0 then base + ucast (ucast (ucast (code_offset x) :: u64) :: u32) else 0),
        fn_records := recs\<rparr>, r))) x (foldl write_record [] (fn_records x) @ [])"
  proof (rule reads_bind)
    have "default_FunctionStackMap\<lparr>function_name := function_name x,
        code_offset := ucast (ucast (code_offset x) :: u64), code_size := code_size x,
        function_address := (if base > 0 then base + ucast (ucast (ucast (code_offset x) :: u64) :: u32) else 0),
        fn_records := fn_records x\<rparr> = loaded base x"
      by (cases x) (simp add: default_FunctionStackMap_def loaded_def ucast_32_64)
    with assms(2) show "reads (\<lambda>r. Some (default_FunctionStackMap\<lparr>function_name := function_name x,
        code_offset := ucast (ucast (code_offset x) :: u64), code_size := code_size x,
        function_address := (if base > 0 then base + ucast (ucast (ucast (code_offset x) :: u64) :: u32) else 0),
        fn_records := fn_records x\<rparr>, r)) x []"
      by (simp add: reads_def)
  qed
  from assms(1) show "length (function_name x) = unat (of_nat (length (function_name x)) :: u32)"
    by (simp add: storable_def unat_count)
qed

interpretation function_codec: codec "read_function base" write_function
    "\<lambda>fn. storable fn \<and> loaded base fn = fn" for base
proof (rule codec.intro [OF _ codec_axioms.intro])
  show "reader (read_function base)" unfolding read_function_def
    by (intro reader_intros record_codec.reader_axioms)
next
  show "write_function buf x = buf @ write_function [] x" for buf x
    by (simp add: write_function_def written_suffix record_codec.writes_append [where buf = "_ @ _"])
      (simp add: write_name_suffix [of buf])
next
  show "reads (read_function base) x (write_function [] x)" if "storable x \<and> loaded base x = x" for x
    using read_function_parts [of x base] that
    by (simp add: write_function_def written_suffix write_name_appends storable_def
        record_codec.writes_append [where buf = "_ @ _"])
qed

lemma read_functions_collect:
  "read_n (read_function base) n r = Some (fs, r') \<Longrightarrow> read_functions base n r out = (True, foldl add_function out fs)"
  by (induction n arbitrary: r fs out) (auto split: option.splits prod.splits)

lemma read_functions_fails:
  "read_n (read_function base) n r = None \<Longrightarrow> \<not> fst (read_functions base n r out)"
  by (induction n arbitrary: r out) (auto split: option.splits prod.splits)

lemma replace_or_append_new:
  "function_name fm \<notin> function_name ` set fs \<Longrightarrow> replace_or_append fm fs = fs @ [fm]"
  by (induction fs) auto

lemma add_functions_distinct:
  "distinct (map function_name (module_functions out @ fs)) \<Longrightarrow>
     foldl add_function out fs = out\<lparr>module_functions := module_functions out @ fs\<rparr>"
proof (induction fs arbitrary: out)
  case Nil
  then show ?case by simp
next
  case (Cons f fs)
  then show ?case by (auto simp: add_function_def replace_or_append_new image_iff)
qed

text \<open>A whole file: the header, then as many functions as it announces.\<close>

definition read_file :: "u64 \<Rightarrow> FunctionStackMap list read" where
  "read_file base r = do { (fn_count, r) \<leftarrow> read_header r; read_n (read_function base) (unat fn_count) r }"

definition storable_module :: "ModuleStackMap \<Rightarrow> bool" where
  "storable_module m \<longleftrightarrow> length (module_functions m) < 2 ^ 32 \<and> list_all storable (module_functions m)
     \<and> distinct (map function_name (module_functions m))"

lemma header_reader: "reader read_header"
  unfolding read_header_def by (intro reader_intros)

lemma reads_header:
  "reads read_header n (write_u32 [] STACK_MAP_MAGIC @ write_u32 [] STACK_MAP_VERSION @ write_u32 [] n)"
  unfolding read_header_def by (intro reads_then) (simp, intro reads_then, simp add: u32_codec.reads_written)

lemma file_reader: "reader (read_file base)"
  unfolding read_file_def by (intro reader_intros header_reader function_codec.reader_axioms)

lemma write_loaded [simp]: "write_function out (loaded base fn) = write_function out fn"
  by (simp add: write_function_def loaded_def)

lemma loaded_simps [simp]:
  "function_name (loaded base fn) = function_name fn" "storable (loaded base fn) = storable fn"
  "loaded base (loaded base fn) = loaded base fn"
  by (simp_all add: loaded_def storable_def)

lemma foldl_write_loaded:
  "foldl write_function buf (map (loaded base) fs) = foldl write_function buf fs"
  by (induction fs arbitrary: buf) simp_all

lemma encode_parts:
  "encode_stack_maps m = (write_u32 [] STACK_MAP_MAGIC @ write_u32 [] STACK_MAP_VERSION
     @ write_u32 [] (of_nat (length (module_functions m)))) @ foldl write_function [] (module_functions m)"
  by (simp add: encode_stack_maps_def written_suffix function_codec.writes_append [where buf = "_ @ _"])

lemma reads_file:
  assumes "storable_module m"
  shows "reads (read_file base) (map (loaded base) (module_functions m)) (encode_stack_maps m)"
  unfolding read_file_def encode_parts
proof (rule reads_bind [OF reads_header])
  have c: "unat (of_nat (length (module_functions m)) :: u32) = length (map (loaded base) (module_functions m))"
    using assms by (simp add: storable_module_def unat_count)
  show "reads (read_n (read_function base) (unat (of_nat (length (module_functions m)) :: u32)))
      (map (loaded base) (module_functions m)) (foldl write_function [] (module_functions m))"
    using function_codec.reads_n_written [of base "map (loaded base) (module_functions m)"] assms c
    by (simp add: storable_module_def list_all_iff foldl_write_loaded)
qed

lemma decode_accepts:
  "read_file base (at data 0) = Some (fs, r) \<Longrightarrow>
     decode_stack_maps_into data out base = (True, foldl add_function (clear_functions out) fs)"
  by (auto simp: decode_stack_maps_into_def read_file_def Let_def read_functions_collect bind_eq_Some_conv)

lemma decode_refuses:
  "read_file base (at data 0) = None \<Longrightarrow> \<not> fst (decode_stack_maps_into data out base)"
  by (auto simp: decode_stack_maps_into_def read_file_def Let_def
      dest: read_functions_fails split: option.splits)

text \<open>
  C10.  Decoding what was encoded gives the same maps back, with the code addresses computed from
  the text section's base, provided names are distinct and every count fits its 32-bit field.
\<close>

theorem stack_map_roundtrip:
  assumes "storable_module m"
  shows "decode_stack_maps_into (encode_stack_maps m) out base
    = (True, out\<lparr>module_functions := map (loaded base) (module_functions m)\<rparr>)"
proof -
  from reads_file [OF assms, of base]
  have "read_file base (at (encode_stack_maps m) 0) = Some (map (loaded base) (module_functions m),
      at (encode_stack_maps m) (length (encode_stack_maps m)))"
    by (auto simp: reads_def dest!: spec [of _ "[]"])
  moreover have "distinct (map function_name (map (loaded base) (module_functions m)))"
    using assms by (simp add: storable_module_def comp_def)
  ultimately show ?thesis
    by (simp add: decode_accepts add_functions_distinct clear_functions_def)
qed

text \<open>
  C25.  No truncated file is accepted: every strict prefix of an encoding is refused.
\<close>

theorem truncated_stack_maps_refused:
  assumes "storable_module m" and "k < length (encode_stack_maps m)"
  shows "\<not> fst (decode_stack_maps_into (take k (encode_stack_maps m)) out base)"
  by (intro decode_refuses reads_truncated [OF file_reader reads_file [OF assms(1)] assms(2)])

text \<open>Peeking reads the same header and the counts at the places the encoder put them.\<close>

lemma peek_first:
  assumes "storable fn"
  shows "\<exists>s t. write_function [] fn = s @ t \<and>
    reads (\<lambda>r. do { (name_len, r) \<leftarrow> read_u32 r; (u, r) \<leftarrow> skip (unat name_len) r;
        (code_offset64, r) \<leftarrow> read_u64 r; (csize, r) \<leftarrow> read_u32 r; read_u32 r })
      (of_nat (length (fn_records fn))) s"
proof (intro exI conjI)
  let ?s = "write_u32 [] (of_nat (length (function_name fn))) @ function_name fn
     @ write_u64 [] (ucast (code_offset fn)) @ write_u32 [] (code_size fn)
     @ write_u32 [] (of_nat (length (fn_records fn)))"
  show "write_function [] fn = ?s @ foldl write_record [] (fn_records fn)"
    using assms by (simp add: write_function_def written_suffix write_name_appends storable_def
        record_codec.writes_append [where buf = "_ @ _"])
  show "reads (\<lambda>r. do { (name_len, r) \<leftarrow> read_u32 r; (u, r) \<leftarrow> skip (unat name_len) r;
        (code_offset64, r) \<leftarrow> read_u64 r; (csize, r) \<leftarrow> read_u32 r; read_u32 r })
      (of_nat (length (fn_records fn))) ?s"
    using assms
    by (intro reads_then reads_bind [OF reads_skip] u32_codec.reads_written)
      (simp_all add: storable_def unat_count)
qed

text \<open>
  Peeking at an encoding reports the number of functions and of the first one's records
  without decoding them.
\<close>

theorem peek_stack_maps_agrees:
  assumes "storable_module m"
  shows "peek_stack_maps (encode_stack_maps m) = (True, of_nat (length (module_functions m)),
    case module_functions m of [] \<Rightarrow> 0 | fn # _ \<Rightarrow> of_nat (length (fn_records fn)))"
proof -
  let ?h = "write_u32 [] STACK_MAP_MAGIC @ write_u32 [] STACK_MAP_VERSION
    @ write_u32 [] (of_nat (length (module_functions m)))"
  let ?d = "encode_stack_maps m"
  have h: "read_header (at ?d 0) = Some (of_nat (length (module_functions m)), at ?d (length ?h))"
    using reads_header [unfolded reads_def, rule_format, of "[]" "of_nat (length (module_functions m))"
        "foldl write_function [] (module_functions m)"]
    by (simp add: encode_parts)
  show ?thesis
  proof (cases "module_functions m")
    case Nil
    with h show ?thesis by (simp add: peek_stack_maps_def)
  next
    case (Cons fn fs)
    from assms Cons have st: "storable fn" and len: "length (module_functions m) < 2 ^ 32"
      by (simp_all add: storable_module_def)
    from peek_first [OF st] obtain s t where w: "write_function [] fn = s @ t" and
      r: "reads (\<lambda>r. do { (name_len, r) \<leftarrow> read_u32 r; (u, r) \<leftarrow> skip (unat name_len) r;
          (code_offset64, r) \<leftarrow> read_u64 r; (csize, r) \<leftarrow> read_u32 r; read_u32 r })
        (of_nat (length (fn_records fn))) s"
      by blast
    have d: "?d = ?h @ s @ (t @ foldl write_function [] fs)"
      using function_codec.writes_append [of "s @ t" fs] by (simp add: encode_parts Cons w)
    have "of_nat (length (module_functions m)) \<noteq> (0 :: u32)"
      using unat_count [OF len] Cons by (metis length_0_conv list.distinct(1) unat_0)
    with h r [unfolded reads_def, rule_format, of ?h "t @ foldl write_function [] fs", folded d] Cons
    show ?thesis by (simp add: peek_stack_maps_def)
  qed
qed

section \<open>The module's index\<close>

text \<open>
  A store addressed by the key of its items, where adding an item replaces the one with its key.
\<close>

locale keyed_store =
  fixes add :: "'m \<Rightarrow> 'f \<Rightarrow> 'm" and lookup :: "'m \<Rightarrow> 'k \<Rightarrow> 'f option" and key :: "'f \<Rightarrow> 'k"
  assumes lookup_add: "lookup (add m f) k = (if k = key f then Some f else lookup m k)"
begin

lemma lookup_adds:
  "lookup (foldl add m fs) k = (case find (\<lambda>f. key f = k) (rev fs) of Some f \<Rightarrow> Some f | None \<Rightarrow> lookup m k)"
proof (induction fs arbitrary: m)
  case Nil
  then show ?case by simp
next
  case (Cons f fs)
  have "find P (xs @ [x]) = (case find P xs of Some y \<Rightarrow> Some y | None \<Rightarrow> if P x then Some x else None)"
    for P and xs :: "'f list" and x
    by (induction xs) auto
  with Cons lookup_add [of m f k] show ?case by (auto split: option.splits)
qed

end

lemma find_replace_or_append:
  "find (\<lambda>fn. function_name fn = n) (replace_or_append fm fs)
     = (if n = function_name fm then Some fm else find (\<lambda>fn. function_name fn = n) fs)"
  by (induction fs) auto

interpretation by_name: keyed_store add_function find_function_by_name function_name
  by unfold_locales (simp add: add_function_def find_function_by_name_def find_replace_or_append)

lemma names_replace_or_append:
  "map function_name (replace_or_append fm fs) =
     (if function_name fm \<in> function_name ` set fs then map function_name fs
      else map function_name fs @ [function_name fm])"
  by (induction fs) auto

lemma names_register_in:
  "map function_name (register_in n a c fs) =
     (if n \<in> function_name ` set fs then map function_name fs else map function_name fs @ [n])"
  by (induction fs) auto

definition names_inv :: "ModuleStackMap \<Rightarrow> bool" where
  "names_inv m \<longleftrightarrow> distinct (map function_name (module_functions m))"

lemma add_function_names: "names_inv m \<Longrightarrow> names_inv (add_function m fm)"
  by (simp add: names_inv_def add_function_def names_replace_or_append)

lemma find_cleared [simp]: "find_function_by_name (clear_functions m) n = None"
  by (simp add: find_function_by_name_def clear_functions_def)

lemma read_functions_names: "names_inv out \<Longrightarrow> names_inv (snd (read_functions base n r out))"
  by (induction n arbitrary: r out) (auto simp: add_function_names split: option.splits)

text \<open>
  C38.  Names identify functions: every operation that changes a module's maps keeps the names
  distinct, and a lookup by name after an accepted decode finds the last function of that name.
\<close>

theorem module_names_invariant:
  assumes "names_inv m"
  shows "names_inv (add_function m fm) \<and> names_inv (register_function_address m n a c)
    \<and> names_inv (relocate m base) \<and> names_inv (snd (decode_stack_maps_into data m base))
    \<and> (read_file base (at data 0) = Some (fs, r) \<longrightarrow>
       find_function_by_name (snd (decode_stack_maps_into data m base)) n = find (\<lambda>f. function_name f = n) (rev fs))"
proof (intro conjI impI)
  from assms show "names_inv (add_function m fm)" by (rule add_function_names)
  from assms show "names_inv (register_function_address m n a c)"
    by (simp add: names_inv_def register_function_address_def names_register_in)
  from assms show "names_inv (relocate m base)" by (simp add: names_inv_def relocate_def comp_def)
  have "names_inv (clear_functions m)" by (simp add: names_inv_def clear_functions_def)
  then show "names_inv (snd (decode_stack_maps_into data m base))"
    by (auto simp: decode_stack_maps_into_def Let_def read_functions_names split: option.splits)
  assume "read_file base (at data 0) = Some (fs, r)"
  then show "find_function_by_name (snd (decode_stack_maps_into data m base)) n = find (\<lambda>f. function_name f = n) (rev fs)"
    using by_name.lookup_adds [of "clear_functions m" fs n]
    by (simp add: decode_accepts split: option.splits)
qed

text \<open>
  C26.  Sorting changes how records are searched but not what is found: the binary search over the
  sorted records returns the first record of an offset in the original order, if there is one.
\<close>

theorem sorted_lookup_agrees:
  "find_record_by_offset (sort_records fm) off = find (\<lambda>r. instruction_offset r = off) (fn_records fm)"
  using find_record_by_offset_first [OF sort_records_inv, of fm off]
  by (simp add: sort_records_def find_sort_key)

text \<open>
  The layout of the functions of a module: return addresses of a function lie in its code, after
  its entry; the codes of different functions do not overlap; the text spans less than 4 GiB.
\<close>

definition in_code :: "FunctionStackMap \<Rightarrow> nat \<Rightarrow> bool" where
  "in_code fn ip \<longleftrightarrow> unat (function_address fn) < ip \<and> ip \<le> unat (function_address fn) + unat (code_size fn)"

definition well_placed :: "FunctionStackMap list \<Rightarrow> bool" where
  "well_placed fs \<longleftrightarrow>
     (\<forall>fn \<in> set fs. function_address fn \<noteq> 0 \<and> sorted_inv fn
        \<and> unat (function_address fn) + unat (code_size fn) < 2 ^ 64
        \<and> (\<forall>r \<in> set (fn_records fn). 0 < instruction_offset r \<and> instruction_offset r \<le> code_size fn))
     \<and> (\<forall>f \<in> set fs. \<forall>g \<in> set fs. f \<noteq> g \<longrightarrow> (\<forall>ip. in_code f ip \<longrightarrow> \<not> in_code g ip))
     \<and> (\<forall>f \<in> set fs. \<forall>g \<in> set fs. unat (function_address f) + unat (code_size f) < unat (function_address g) + 2 ^ 32)"

lemma offset_of_ip:
  assumes "(a :: u64) \<le> ip" and "unat ip < unat a + 2 ^ 32"
  shows "unat (ucast (ip - a) :: u32) = unat ip - unat a"
proof -
  have "unat (ip - a) = unat ip - unat a" using assms(1) by (simp add: unat_sub)
  with assms show ?thesis by (simp add: unsigned_ucast_eq take_bit_nat_eq_self)
qed

lemma lookup_in_code:
  assumes "sorted_inv fn" and "\<forall>r \<in> set (fn_records fn). 0 < instruction_offset r \<and> instruction_offset r \<le> code_size fn"
    and "function_address fn \<le> ip" and "unat ip < unat (function_address fn) + 2 ^ 32"
    and "find_record_by_offset fn (ucast (ip - function_address fn)) = Some rec"
  shows "in_code fn (unat ip)"
proof -
  from assms(5) have "rec \<in> set (fn_records fn)" "instruction_offset rec = ucast (ip - function_address fn)"
    unfolding find_record_by_offset_first [OF assms(1)] by (auto simp: find_Some_iff)
  with assms(2) have "0 < unat (ucast (ip - function_address fn) :: u32)"
    "unat (ucast (ip - function_address fn) :: u32) \<le> unat (code_size fn)"
    by (auto simp: word_less_nat_alt word_le_nat_alt)
  with offset_of_ip [OF assms(3,4)] assms(3) show ?thesis by (simp add: in_code_def word_le_nat_alt)
qed

lemma find_record_in_by_ip:
  "find_record_in ip (fn # fns) = (case find_record_by_ip fn ip of Some rec \<Rightarrow> Some rec | None \<Rightarrow> find_record_in ip fns)"
  by (auto simp: find_record_by_ip_def not_le split: option.splits)

lemma find_record_in_only:
  assumes "\<And>g. g \<in> set fs \<Longrightarrow> g \<noteq> fm \<Longrightarrow> find_record_by_ip g ip = None"
  shows "find_record_in ip fs = (if fm \<in> set fs then find_record_by_ip fm ip else None)"
  using assms
proof (induction fs)
  case Nil
  then show ?case by simp
next
  case (Cons f fs)
  then have IH: "find_record_in ip fs = (if fm \<in> set fs then find_record_by_ip fm ip else None)" by simp
  show ?case
  proof (cases "f = fm")
    case True
    with IH show ?thesis by (simp add: find_record_in_by_ip del: find_record_in.simps split: option.split)
  next
    case False
    with IH Cons.prems [of f] show ?thesis by (simp add: find_record_in_by_ip del: find_record_in.simps)
  qed
qed

lemma well_placed_fn:
  assumes "well_placed fs" and "fn \<in> set fs"
  shows "function_address fn \<noteq> 0" and "sorted_inv fn"
    and "\<forall>r \<in> set (fn_records fn). 0 < instruction_offset r \<and> instruction_offset r \<le> code_size fn"
    and "unat (function_address fn + ucast (code_size fn)) = unat (function_address fn) + unat (code_size fn)"
proof -
  from assms have *: "function_address fn \<noteq> 0" "sorted_inv fn" "unat (function_address fn) + unat (code_size fn) < 2 ^ 64"
    "\<forall>r \<in> set (fn_records fn). 0 < instruction_offset r \<and> instruction_offset r \<le> code_size fn"
    unfolding well_placed_def by blast+
  from * show "function_address fn \<noteq> 0" "sorted_inv fn"
    "\<forall>r \<in> set (fn_records fn). 0 < instruction_offset r \<and> instruction_offset r \<le> code_size fn"
    by blast+
  have "unat (ucast (code_size fn) :: u64) = unat (code_size fn)"
    using unsigned_less [where 'a = nat, of "code_size fn"] by (simp add: unsigned_ucast_eq take_bit_nat_eq_self)
  with *(3) show "unat (function_address fn + ucast (code_size fn)) = unat (function_address fn) + unat (code_size fn)"
    by (simp add: unat_word_ariths)
qed

lemma well_placed_disjoint:
  "well_placed fs \<Longrightarrow> f \<in> set fs \<Longrightarrow> g \<in> set fs \<Longrightarrow> in_code f ip \<Longrightarrow> in_code g ip \<Longrightarrow> f = g"
  unfolding well_placed_def by blast

lemma well_placed_near:
  "well_placed fs \<Longrightarrow> f \<in> set fs \<Longrightarrow> g \<in> set fs \<Longrightarrow> in_code f ip \<Longrightarrow> ip < unat (function_address g) + 2 ^ 32"
  unfolding well_placed_def in_code_def by (meson le_less_trans)

lemma in_code_le: "in_code fn (unat ip) \<Longrightarrow> function_address fn \<le> ip"
  by (simp add: in_code_def word_le_nat_alt)

text \<open>A function that claims an address by its size or its records has it in its code, or is entered there.\<close>

lemma holds_ip_in_code:
  assumes "well_placed fs" and "g \<in> set fs" and "holds_ip ip g"
  shows "in_code g (unat ip) \<or> unat ip = unat (function_address g) \<and> code_size g > 0"
proof (cases "code_size g > 0")
  case True
  with well_placed_fn(4) [OF assms(1,2)] assms(3) show ?thesis
    by (auto simp: holds_ip_def in_code_def word_le_nat_alt word_less_nat_alt)
next
  case False
  with assms(3) obtain r where "r \<in> set (fn_records g)" by (auto simp: holds_ip_def list_ex_iff)
  with well_placed_fn(3) [OF assms(1,2)] False show ?thesis by (meson order.strict_trans2)
qed

text \<open>
  C23.  The record of a return address is found in the function whose code contains it, and not in
  another: with functions laid out without overlap in a text of less than 4 GiB, searching the
  module for a return address of a function gives what searching that function gives, and the
  function found for an address inside its code is that function.
\<close>

theorem find_record_of_return_address:
  assumes placed: "well_placed (module_functions m)" and fm: "fm \<in> set (module_functions m)"
    and ip: "in_code fm (unat ip)"
  shows "find_record m ip = find_record_by_ip fm ip
    \<and> (unat ip < unat (function_address fm) + unat (code_size fm) \<longrightarrow> find_function_by_ip m ip = Some fm)"
proof (intro conjI impI)
  let ?fs = "module_functions m"
  have "find_record_by_ip g ip = None" if g: "g \<in> set ?fs" "g \<noteq> fm" for g
  proof (rule ccontr)
    assume "find_record_by_ip g ip \<noteq> None"
    then obtain rec where le: "function_address g \<le> ip"
      and rec: "find_record_by_offset g (ucast (ip - function_address g)) = Some rec"
      by (auto simp: find_record_by_ip_def not_less split: if_splits)
    with lookup_in_code [OF well_placed_fn(2,3) [OF placed g(1)] le well_placed_near [OF placed fm g(1) ip]]
    have "in_code g (unat ip)" by simp
    with well_placed_disjoint [OF placed fm g(1) ip] g(2) show False by simp
  qed
  from find_record_in_only [OF this] fm show "find_record m ip = find_record_by_ip fm ip"
    by (simp add: find_record_def)
  assume lt: "unat ip < unat (function_address fm) + unat (code_size fm)"
  have only: "g = fm" if g: "g \<in> set ?fs" "holds_ip ip g" for g
  proof (rule ccontr)
    assume "g \<noteq> fm"
    with holds_ip_in_code [OF placed g] well_placed_disjoint [OF placed fm g(1) ip]
    have "unat ip = unat (function_address g)" "code_size g > 0" by auto
    with lt ip have "in_code fm (Suc (unat ip))" "in_code g (Suc (unat ip))"
      by (auto simp: in_code_def word_less_nat_alt)
    with well_placed_disjoint [OF placed fm g(1)] \<open>g \<noteq> fm\<close> show False by blast
  qed
  have "holds_ip ip fm"
    using lt ip well_placed_fn(1,4) [OF placed fm]
    by (auto simp: holds_ip_def in_code_def word_less_nat_alt word_le_nat_alt)
  with fm obtain g where g: "find (holds_ip ip) ?fs = Some g"
    by (cases "find (holds_ip ip) ?fs") (auto simp: find_None_iff)
  then have "g \<in> set ?fs" "holds_ip ip g" by (auto simp: find_Some_iff)
  with only g show "find_function_by_ip m ip = Some fm" by (simp add: find_function_by_ip_def)
qed

section \<open>An example module\<close>

text \<open>Two functions laid out one after the other, the first with one safepoint and one root.\<close>

definition example_record :: StackMapRecord where
  "example_record = add_root \<lparr>instruction_offset = 9, frame_size = 32, roots = [], safepoint_id = 1\<rparr>
     (frame_slot (- 24) GcRef)"

definition example_f :: FunctionStackMap where
  "example_f = add_record \<lparr>function_name = [102], function_address = 0x1000, code_offset = 0,
     code_size = 16, fn_records = [], records_sorted = False\<rparr> example_record"

definition example_g :: FunctionStackMap where
  "example_g = \<lparr>function_name = [103], function_address = 0x1010, code_offset = 16,
     code_size = 8, fn_records = [], records_sorted = False\<rparr>"

definition example_module :: ModuleStackMap where
  "example_module = add_function (add_function default_ModuleStackMap example_f) example_g"

lemmas example_defs = example_module_def example_f_def example_g_def example_record_def
  default_ModuleStackMap_def add_function_def add_record_def add_root_def frame_slot_def default_PReg_def RC_GPR_def

lemma example_storable: "storable_module example_module"
  by (simp add: storable_module_def storable_def valid_record_def example_defs)

lemma example_names: "names_inv example_module"
  by (simp add: names_inv_def example_defs)

lemma example_placed: "well_placed (module_functions example_module)"
  by (auto simp: well_placed_def in_code_def sorted_inv_def example_defs)

theorem stack_map_roundtrip_witness:
  "decode_stack_maps_into (encode_stack_maps example_module) default_ModuleStackMap 0x1000 = (True, example_module)"
  using stack_map_roundtrip [OF example_storable, of default_ModuleStackMap "0x1000"]
  by (simp add: loaded_def example_defs)

theorem truncated_stack_maps_refused_witness:
  "\<not> fst (decode_stack_maps_into (take 11 (encode_stack_maps example_module)) default_ModuleStackMap 0)"
  by (rule truncated_stack_maps_refused [OF example_storable]) (simp add: encode_parts write_u32_def)

theorem peek_stack_maps_agrees_witness:
  "peek_stack_maps (encode_stack_maps example_module) = (True, 2, 1)"
  using peek_stack_maps_agrees [OF example_storable] by (simp add: example_defs)

theorem module_names_invariant_witness:
  "names_inv (add_function example_module example_f)
    \<and> find_function_by_name (snd (decode_stack_maps_into (encode_stack_maps example_module) example_module 0x1000)) [103]
      = Some example_g"
proof -
  have "read_file 0x1000 (at (encode_stack_maps example_module) 0)
      = Some (map (loaded 0x1000) (module_functions example_module),
          at (encode_stack_maps example_module) (length (encode_stack_maps example_module)))"
    using reads_file [OF example_storable, of "0x1000"] by (auto simp: reads_def dest!: spec [of _ "[]"])
  with module_names_invariant [OF example_names, of example_f "[103]" 0 0 "0x1000" "encode_stack_maps example_module"]
  have "names_inv (add_function example_module example_f)"
    "find_function_by_name (snd (decode_stack_maps_into (encode_stack_maps example_module) example_module 0x1000)) [103]
      = find (\<lambda>f. function_name f = [103]) (rev (map (loaded 0x1000) (module_functions example_module)))"
    by blast+
  then show ?thesis by (simp add: loaded_def example_defs)
qed

theorem find_record_of_return_address_witness:
  "find_record example_module 0x1009 = Some example_record \<and> find_function_by_ip example_module 0x1009 = Some example_f"
proof -
  have "find_record example_module 0x1009 = find_record_by_ip example_f 0x1009
    \<and> find_function_by_ip example_module 0x1009 = Some example_f"
    using find_record_of_return_address [OF example_placed, of example_f "0x1009"]
    by (simp add: in_code_def example_defs)
  moreover have "find_record_by_ip example_f 0x1009 = Some example_record"
    by (simp add: find_record_by_ip_def find_record_by_offset_def example_defs)
  ultimately show ?thesis by simp
qed

end
