(* ===== verification/Bv_Eval.thy ===== *)
theory Bv_Eval
  imports Interp_Ops
begin

text \<open>
  The bitvector terms of the equivalence checker and their evaluation
  (\<open>include/brass/verify/bv_solver.hpp\<close>, \<open>src/verify/bv_solver.hpp\<close> and \<open>eval_node_concrete\<close>,
  \<open>evaluate_all\<close>, \<open>eval_concrete\<close> of \<open>src/verify/bv_concrete_search.cpp\<close>).  A term is a node in
  a table, its children named by index; a value is a \<open>uint64_t\<close> masked to the node's width.
  The IEEE operations, conversions and library functions of the host are a parameter, the
  records of \<open>Float_Arith\<close>.  The theorems show that evaluation is compositional and stays inside
  the width and that, at 32 and 64 bits, the integer operations are the reference semantics of
  the MIR operations.
\<close>

section \<open>Terms\<close>

datatype BVOp =
    BV_Const | BV_Var | BV_Extract | BV_Concat | BV_ZExt | BV_SExt | BV_Not | BV_Neg | BV_And
  | BV_Or | BV_Xor | BV_Add | BV_Sub | BV_Mul | BV_UDiv | BV_SDiv | BV_URem | BV_SRem | BV_Shl
  | BV_LShr | BV_AShr | BV_Eq | BV_Ne | BV_Ult | BV_Ule | BV_Ugt | BV_Uge | BV_Slt | BV_Sle
  | BV_Sgt | BV_Sge | BV_Ite | BV_Clz | BV_Ctz | BV_Popcnt | BV_SAddOvf | BV_SSubOvf | BV_SMulOvf
  | BV_UAddOvf | BV_USubOvf | BV_UMulOvf | BV_Fp BVFpOp
and BVFpOp =
    BV_FAdd | BV_FSub | BV_FMul | BV_FDiv | BV_FSqrt | BV_FAbs | BV_FNeg | BV_FFloor | BV_FCeil
  | BV_FRound | BV_FMin | BV_FMax | BV_FEq | BV_FNe | BV_FLt | BV_FLe | BV_FGt | BV_FGe
  | BV_SiToFp | BV_FpToSi | BV_FpExt | BV_FpTrunc

type_synonym BVNodeId = nat

record BVNode =
  bv_op :: BVOp
  bv_width :: nat
  bv_a :: BVNodeId
  bv_b :: BVNodeId
  bv_c :: BVNodeId
  bv_imm :: u64
  bv_extra :: nat

definition width_mask :: "nat \<Rightarrow> u64" where
  "width_mask w = (if w = 0 then 0 else if w \<ge> 64 then NOT 0 else push_bit w 1 - 1)"

definition sign_extend_bits :: "u64 \<Rightarrow> nat \<Rightarrow> i64" where
  "sign_extend_bits v w = (if w = 0 then 0 else if w \<ge> 64 then v
     else let m = width_mask w; v = v AND m; sign_bit = push_bit (w - 1) 1
          in if v AND sign_bit \<noteq> 0 then v OR NOT m else v)"

text \<open>The loop doubles from 1; the test that \<open>p\<close> is positive holds in it throughout.\<close>

function shift_pow :: "nat \<Rightarrow> nat \<Rightarrow> nat" where
  "shift_pow p w = (if p < w \<and> 0 < p then shift_pow (p * 2) w else p)"
  by auto
termination
  by (relation "measure (\<lambda>(p, w). w - p)") auto

declare shift_pow.simps [simp del]

definition shift_mask :: "nat \<Rightarrow> nat" where
  "shift_mask w = (if w \<le> 1 then 0 else shift_pow 1 w - 1)"

definition mul_u64_overflow :: "u64 \<Rightarrow> u64 \<Rightarrow> bool" where
  "mul_u64_overflow a b \<longleftrightarrow> a \<noteq> 0 \<and> b \<noteq> 0 \<and> (a * b) div a \<noteq> b"

definition mul_s64_overflow :: "i64 \<Rightarrow> i64 \<Rightarrow> bool" where
  "mul_s64_overflow a b =
     (if a = 0 \<or> b = 0 then False
      else if (sint a = - 1 \<and> sint b = INT64_MIN) \<or> (sint b = - 1 \<and> sint a = INT64_MIN) then True
      else if sint a > 0 then
        (if sint b > 0 then sint a > INT64_MAX sdiv sint b else sint b < INT64_MIN sdiv sint a)
      else (if sint b > 0 then sint a < INT64_MIN sdiv sint b else sint a < INT64_MAX sdiv sint b))"

section \<open>Evaluation\<close>

type_synonym fp_eval = "fpu \<times> fpu_math"

definition eval_ieee_fmin_fmax :: "fpu \<Rightarrow> u64 \<Rightarrow> u64 \<Rightarrow> nat \<Rightarrow> bool \<Rightarrow> u64" where
  "eval_ieee_fmin_fmax fp va vb w is_max =
     (let mant_bits = (if w = 32 then 23 else 52);
          exp_mask = (if w = 32 then 0xFF else 0x7FF);
          mant_mask = push_bit mant_bits 1 - 1;
          sign_mask = push_bit (w - 1) 1;
          m = width_mask w;
          va = va AND m;
          vb = vb AND m;
          is_nan = (\<lambda>v. drop_bit mant_bits v AND exp_mask = exp_mask \<and> v AND mant_mask \<noteq> 0);
          is_zero = (\<lambda>v. v AND NOT sign_mask = 0)
      in if is_nan va \<and> is_nan vb then va OR push_bit (mant_bits - 1) 1
         else if is_nan va then vb
         else if is_nan vb then va
         else if is_zero va \<and> is_zero vb then (if is_max then va AND vb else va OR vb)
         else if w = 32 then
           (if is_max then (if f32_lt fp (ucast vb) (ucast va) then va else vb)
            else (if f32_lt fp (ucast va) (ucast vb) then va else vb))
         else
           (if is_max then (if f64_lt fp vb va then va else vb) else (if f64_lt fp va vb then va else vb)))"

text \<open>
  The floating-point cases.  \<open>bits_to_f32\<close> reads the low 32 bits and \<open>f32_to_bits\<close> zero-extends; the
  literals \<open>-9223372036854775808.0\<close> and \<open>9223372036854775807.0\<close> are \<open>-2\<^sup>6\<^sup>3\<close> and \<open>2\<^sup>6\<^sup>3\<close> as doubles.
\<close>

definition eval_fp_to_si :: "fpu \<Rightarrow> fpu_math \<Rightarrow> nat \<Rightarrow> u64 \<Rightarrow> u64" where
  "eval_fp_to_si fp fm w d =
     (if \<not> isfinite64 d then 0
      else if w = 32 then
        (if f64_le fp d (f64_of_int fp INT32_MIN) then 0x80000000
         else if f64_le fp (f64_of_int fp INT32_MAX) d then 0x7FFFFFFF
         else ucast (i32_of_f64 fm d))
      else if f64_le fp d 0xC3E0000000000000 then 0x8000000000000000
      else if f64_le fp 0x43E0000000000000 d then 0x7FFFFFFFFFFFFFFF
      else i64_of_f64 fm d AND width_mask w)"

definition eval_fp :: "fp_eval \<Rightarrow> BVFpOp \<Rightarrow> nat \<Rightarrow> nat \<Rightarrow> u64 \<Rightarrow> u64 \<Rightarrow> u64" where
  "eval_fp host f w aw va vb =
     (let fp = fst host; fm = snd host;
          fa = (ucast va :: u32); fb = (ucast vb :: u32);
          out = (\<lambda>r32 r64. if w = 32 then ucast (r32 :: u32) else r64);
          test = (\<lambda>t32 t64. if (if aw = 32 then t32 else t64) then 1 else 0)
      in case f of
           BV_FAdd \<Rightarrow> out (fparith32 f32_add fp fa fb) (fparith64 f64_add fp va vb)
         | BV_FSub \<Rightarrow> out (fparith32 f32_sub fp fa fb) (fparith64 f64_sub fp va vb)
         | BV_FMul \<Rightarrow> out (fparith32 f32_mul fp fa fb) (fparith64 f64_mul fp va vb)
         | BV_FDiv \<Rightarrow> out (fparith32 f32_div fp fa fb) (fparith64 f64_div fp va vb)
         | BV_FSqrt \<Rightarrow> out (std_f32 fm ''sqrt'' [fa]) (std_f64 fm ''sqrt'' [va])
         | BV_FAbs \<Rightarrow> out (std_f32 fm ''fabs'' [fa]) (std_f64 fm ''fabs'' [va])
         | BV_FNeg \<Rightarrow> out (f32_neg fp fa) (f64_neg fp va)
         | BV_FFloor \<Rightarrow> out (std_f32 fm ''floor'' [fa]) (std_f64 fm ''floor'' [va])
         | BV_FCeil \<Rightarrow> out (std_f32 fm ''ceil'' [fa]) (std_f64 fm ''ceil'' [va])
         | BV_FRound \<Rightarrow> out (std_f32 fm ''round'' [fa]) (std_f64 fm ''round'' [va])
         | BV_FMin \<Rightarrow> eval_ieee_fmin_fmax fp va vb w False
         | BV_FMax \<Rightarrow> eval_ieee_fmin_fmax fp va vb w True
         | BV_FEq \<Rightarrow> test (f32_eq fp fa fb) (f64_eq fp va vb)
         | BV_FNe \<Rightarrow> test (\<not> f32_eq fp fa fb) (\<not> f64_eq fp va vb)
         | BV_FLt \<Rightarrow> test (f32_lt fp fa fb) (f64_lt fp va vb)
         | BV_FLe \<Rightarrow> test (f32_le fp fa fb) (f64_le fp va vb)
         | BV_FGt \<Rightarrow> test (f32_lt fp fb fa) (f64_lt fp vb va)
         | BV_FGe \<Rightarrow> test (f32_le fp fb fa) (f64_le fp vb va)
         | BV_SiToFp \<Rightarrow> (let sv = sint (sign_extend_bits va aw) in out (f32_of_int fp sv) (f64_of_int fp sv))
         | BV_FpToSi \<Rightarrow> eval_fp_to_si fp fm w (if aw = 32 then f64_of_f32 fp fa else va)
         | BV_FpExt \<Rightarrow> f64_of_f32 fp fa
         | BV_FpTrunc \<Rightarrow> ucast (f32_of_f64 fp va))"

text \<open>The signed minimum of a width.\<close>

definition bv_min_signed :: "nat \<Rightarrow> i64" where
  "bv_min_signed w = (if w \<ge> 64 then word_of_int INT64_MIN else - push_bit (w - 1) 1)"

definition shift_count :: "u64 \<Rightarrow> nat \<Rightarrow> nat" where
  "shift_count vb w = unat (vb AND of_nat (shift_mask w))"

text \<open>
  The switch of \<open>eval_node_concrete\<close> on operands already masked to the widths of their nodes:
  \<open>w\<close> is the node's width, \<open>aw\<close> and \<open>bw\<close> its children's.
\<close>

fun eval_op :: "fp_eval \<Rightarrow> BVOp \<Rightarrow> nat \<Rightarrow> nat \<Rightarrow> nat \<Rightarrow> u64 \<Rightarrow> nat \<Rightarrow> u64 \<Rightarrow> u64 \<Rightarrow> u64 \<Rightarrow> u64" where
  "eval_op fp BV_Const w aw bw imm extra va vb vc = imm AND width_mask w"
| "eval_op fp BV_Var w aw bw imm extra va vb vc = va AND width_mask w"
| "eval_op fp BV_Extract w aw bw imm extra va vb vc = drop_bit extra va AND width_mask w"
| "eval_op fp BV_Concat w aw bw imm extra va vb vc =
     (push_bit bw va OR (vb AND width_mask bw)) AND width_mask w"
| "eval_op fp BV_ZExt w aw bw imm extra va vb vc = va AND width_mask w"
| "eval_op fp BV_SExt w aw bw imm extra va vb vc = sign_extend_bits va aw AND width_mask w"
| "eval_op fp BV_Not w aw bw imm extra va vb vc = NOT va AND width_mask w"
| "eval_op fp BV_Neg w aw bw imm extra va vb vc = (NOT va + 1) AND width_mask w"
| "eval_op fp BV_And w aw bw imm extra va vb vc = (va AND vb) AND width_mask w"
| "eval_op fp BV_Or w aw bw imm extra va vb vc = (va OR vb) AND width_mask w"
| "eval_op fp BV_Xor w aw bw imm extra va vb vc = (va XOR vb) AND width_mask w"
| "eval_op fp BV_Add w aw bw imm extra va vb vc = (va + vb) AND width_mask w"
| "eval_op fp BV_Sub w aw bw imm extra va vb vc = (va - vb) AND width_mask w"
| "eval_op fp BV_Mul w aw bw imm extra va vb vc = (va * vb) AND width_mask w"
| "eval_op fp BV_UDiv w aw bw imm extra va vb vc =
     (if vb = 0 then 0 else (va div vb) AND width_mask w)"
| "eval_op fp BV_URem w aw bw imm extra va vb vc =
     (if vb = 0 then 0 else (va mod vb) AND width_mask w)"
| "eval_op fp BV_SDiv w aw bw imm extra va vb vc =
     (if vb = 0 then 0
      else let sa = sign_extend_bits va w; sb = sign_extend_bits vb w
           in if sa = bv_min_signed w \<and> sb = - 1 then bv_min_signed w AND width_mask w
              else c_div sa sb AND width_mask w)"
| "eval_op fp BV_SRem w aw bw imm extra va vb vc =
     (if vb = 0 then 0
      else let sa = sign_extend_bits va w; sb = sign_extend_bits vb w
           in if sa = bv_min_signed w \<and> sb = - 1 then 0
              else c_mod sa sb AND width_mask w)"
| "eval_op fp BV_Shl w aw bw imm extra va vb vc = push_bit (shift_count vb w) va AND width_mask w"
| "eval_op fp BV_LShr w aw bw imm extra va vb vc = drop_bit (shift_count vb w) va AND width_mask w"
| "eval_op fp BV_AShr w aw bw imm extra va vb vc =
     signed_drop_bit (shift_count vb w) (sign_extend_bits va w) AND width_mask w"
| "eval_op fp BV_Eq w aw bw imm extra va vb vc = (if va = vb then 1 else 0)"
| "eval_op fp BV_Ne w aw bw imm extra va vb vc = (if va \<noteq> vb then 1 else 0)"
| "eval_op fp BV_Ult w aw bw imm extra va vb vc = (if va < vb then 1 else 0)"
| "eval_op fp BV_Ule w aw bw imm extra va vb vc = (if va \<le> vb then 1 else 0)"
| "eval_op fp BV_Ugt w aw bw imm extra va vb vc = (if va > vb then 1 else 0)"
| "eval_op fp BV_Uge w aw bw imm extra va vb vc = (if va \<ge> vb then 1 else 0)"
| "eval_op fp BV_Slt w aw bw imm extra va vb vc =
     (if sint (sign_extend_bits va aw) < sint (sign_extend_bits vb aw) then 1 else 0)"
| "eval_op fp BV_Sle w aw bw imm extra va vb vc =
     (if sint (sign_extend_bits va aw) \<le> sint (sign_extend_bits vb aw) then 1 else 0)"
| "eval_op fp BV_Sgt w aw bw imm extra va vb vc =
     (if sint (sign_extend_bits va aw) > sint (sign_extend_bits vb aw) then 1 else 0)"
| "eval_op fp BV_Sge w aw bw imm extra va vb vc =
     (if sint (sign_extend_bits va aw) \<ge> sint (sign_extend_bits vb aw) then 1 else 0)"
| "eval_op fp BV_Ite w aw bw imm extra va vb vc =
     (if va \<noteq> 0 then vb AND width_mask w else vc AND width_mask w)"
| "eval_op fp BV_Clz w aw bw imm extra va vb vc =
     (if va = 0 then of_nat w else ucast (of_nat (countl_zero va) - (64 - of_nat w) :: u32)) AND width_mask w"
| "eval_op fp BV_Ctz w aw bw imm extra va vb vc =
     (if va = 0 then of_nat w else of_nat (countr_zero va)) AND width_mask w"
| "eval_op fp BV_Popcnt w aw bw imm extra va vb vc =
     of_nat (popcount (va AND width_mask w)) AND width_mask w"
| "eval_op fp BV_UAddOvf w aw bw imm extra va vb vc =
     (if ((va + vb) AND width_mask aw) < va then 1 else 0)"
| "eval_op fp BV_USubOvf w aw bw imm extra va vb vc = (if va < vb then 1 else 0)"
| "eval_op fp BV_UMulOvf w aw bw imm extra va vb vc =
     (if aw \<le> 32 then (if va * vb > width_mask aw then 1 else 0)
      else (if mul_u64_overflow va vb then 1 else 0))"
| "eval_op fp BV_SAddOvf w aw bw imm extra va vb vc =
     (let sa = sint (sign_extend_bits va aw); sb = sint (sign_extend_bits vb aw);
          sr = sint (sign_extend_bits (va + vb) aw)
      in if (sa \<ge> 0 \<and> sb \<ge> 0 \<and> sr < 0) \<or> (sa < 0 \<and> sb < 0 \<and> sr \<ge> 0) then 1 else 0)"
| "eval_op fp BV_SSubOvf w aw bw imm extra va vb vc =
     (let sa = sint (sign_extend_bits va aw); sb = sint (sign_extend_bits vb aw);
          sr = sint (sign_extend_bits (va - vb) aw)
      in if (sa \<ge> 0 \<and> sb < 0 \<and> sr < 0) \<or> (sa < 0 \<and> sb \<ge> 0 \<and> sr \<ge> 0) then 1 else 0)"
| "eval_op fp BV_SMulOvf w aw bw imm extra va vb vc =
     (let sa = sign_extend_bits va aw; sb = sign_extend_bits vb aw
      in if aw \<le> 32
         then (let p = sint (sa * sb) in
           if p < - (2 ^ (aw - 1)) \<or> p > 2 ^ (aw - 1) - 1 then 1 else 0)
         else (if mul_s64_overflow sa sb then 1 else 0))"
| "eval_op fp (BV_Fp f) w aw bw imm extra va vb vc = eval_fp fp f w aw va vb"

text \<open>
  \<open>eval_node_concrete\<close>: a child index past the table takes the node's own width.
\<close>

definition child_width :: "BVNode list \<Rightarrow> BVNode \<Rightarrow> BVNodeId \<Rightarrow> nat" where
  "child_width nodes n c = (if c < length nodes then bv_width (nodes ! c) else bv_width n)"

definition eval_node_concrete :: "fp_eval \<Rightarrow> BVNode list \<Rightarrow> BVNode \<Rightarrow> u64 \<Rightarrow> u64 \<Rightarrow> u64 \<Rightarrow> u64" where
  "eval_node_concrete fp nodes n va vb vc =
     (let aw = child_width nodes n (bv_a n)
      in eval_op fp (bv_op n) (bv_width n) aw (child_width nodes n (bv_b n)) (bv_imm n) (bv_extra n)
           (va AND width_mask aw) (vb AND width_mask (child_width nodes n (bv_b n)))
           (vc AND width_mask (child_width nodes n (bv_c n))))"

text \<open>\<open>evaluate_all\<close> fills the table of values in the order of the nodes.\<close>

definition node_val :: "u64 list \<Rightarrow> nat \<Rightarrow> u64" where
  "node_val vals i = (if i < length vals then vals ! i else 0)"

definition evaluate_node :: "fp_eval \<Rightarrow> BVNode list \<Rightarrow> u64 list \<Rightarrow> u64 list \<Rightarrow> BVNode \<Rightarrow> u64" where
  "evaluate_node fp nodes var_values vals n =
     (if bv_op n = BV_Var then node_val var_values (unat (bv_imm n)) AND width_mask (bv_width n)
      else if bv_op n = BV_Const then bv_imm n AND width_mask (bv_width n)
      else eval_node_concrete fp nodes n (node_val vals (bv_a n)) (node_val vals (bv_b n)) (node_val vals (bv_c n)))"

definition evaluate_all :: "fp_eval \<Rightarrow> BVNode list \<Rightarrow> u64 list \<Rightarrow> u64 list" where
  "evaluate_all fp nodes var_values =
     foldl (\<lambda>vals n. vals @ [evaluate_node fp nodes var_values vals n]) [] nodes"

definition eval_concrete :: "fp_eval \<Rightarrow> BVNode list \<Rightarrow> BVNodeId \<Rightarrow> u64 list \<Rightarrow> u64" where
  "eval_concrete fp nodes root var_values = node_val (evaluate_all fp nodes var_values) root"

section \<open>The operations a MIR instruction is translated to\<close>

text \<open>The choices of \<open>src/verify/mir_sym_exec.cpp\<close> for integer instructions.\<close>

definition bv_of_arith :: "ArithOp \<Rightarrow> BVOp option" where
  "bv_of_arith f = (case f of
      Op_add \<Rightarrow> Some BV_Add | Op_sub \<Rightarrow> Some BV_Sub | Op_mul \<Rightarrow> Some BV_Mul
    | Op_sdiv \<Rightarrow> Some BV_SDiv | Op_udiv \<Rightarrow> Some BV_UDiv | Op_smod \<Rightarrow> Some BV_SRem | Op_umod \<Rightarrow> Some BV_URem
    | Op_and \<Rightarrow> Some BV_And | Op_or \<Rightarrow> Some BV_Or | Op_xor \<Rightarrow> Some BV_Xor
    | Op_shl \<Rightarrow> Some BV_Shl | Op_lshr \<Rightarrow> Some BV_LShr | Op_ashr \<Rightarrow> Some BV_AShr
    | _ \<Rightarrow> None)"

definition bv_of_unary :: "ArithOp \<Rightarrow> BVOp option" where
  "bv_of_unary f = (case f of
      Op_neg \<Rightarrow> Some BV_Neg | Op_not \<Rightarrow> Some BV_Not | Op_clz \<Rightarrow> Some BV_Clz
    | Op_ctz \<Rightarrow> Some BV_Ctz | Op_popcnt \<Rightarrow> Some BV_Popcnt | _ \<Rightarrow> None)"

fun bv_of_cmp :: "CmpOp \<Rightarrow> BVOp" where
  "bv_of_cmp Op_eq = BV_Eq"
| "bv_of_cmp Op_ne = BV_Ne"
| "bv_of_cmp Op_slt = BV_Slt"
| "bv_of_cmp Op_ult = BV_Ult"
| "bv_of_cmp Op_sle = BV_Sle"
| "bv_of_cmp Op_ule = BV_Ule"
| "bv_of_cmp Op_sgt = BV_Sgt"
| "bv_of_cmp Op_ugt = BV_Ugt"
| "bv_of_cmp Op_sge = BV_Sge"
| "bv_of_cmp Op_uge = BV_Uge"

fun bv_of_ovf :: "OvfOp \<Rightarrow> BVOp" where
  "bv_of_ovf Op_sadd_overflow = BV_SAddOvf"
| "bv_of_ovf Op_ssub_overflow = BV_SSubOvf"
| "bv_of_ovf Op_smul_overflow = BV_SMulOvf"
| "bv_of_ovf Op_uadd_overflow = BV_UAddOvf"
| "bv_of_ovf Op_usub_overflow = BV_USubOvf"
| "bv_of_ovf Op_umul_overflow = BV_UMulOvf"

section \<open>Widths 32 and 64\<close>

lemma mask_64: "(mask 64 :: u64) = - 1"
  using mask_full [where 'a = 64] by simp

lemma width_mask_eq: "w \<le> 64 \<Longrightarrow> width_mask w = mask w"
  by (auto simp: width_mask_def mask_eq_exp_minus_1 push_bit_eq_mult le_less
      simp flip: mask_64 [unfolded mask_eq_exp_minus_1])

lemma width_mask_simps [simp]: "width_mask 64 = - 1" "width_mask 32 = mask 32"
  by (simp_all add: width_mask_def mask_eq_exp_minus_1)

lemma test_bit: "x AND push_bit n 1 \<noteq> 0 \<longleftrightarrow> bit (x :: 'a::len word) n"
  by (simp only: push_bit_of_1 and_exp_eq_0_iff_not_bit not_not)

lemma sign_extend_64 [simp]: "sign_extend_bits v 64 = v"
  by (simp add: sign_extend_bits_def)

lemma sign_extend_32 [simp]: "sign_extend_bits v 32 = scast (ucast v :: u32)"
proof -
  have "sign_extend_bits v 32 = (if bit (v AND mask 32) 31 then (v AND mask 32) OR NOT (mask 32) else v AND mask 32)"
    unfolding sign_extend_bits_def Let_def test_bit [of _ "32 - 1"] by simp
  also have "\<dots> = scast (ucast v :: u32)"
    by (rule bit_word_eqI) (auto simp: bit_or_iff bit_and_iff bit_not_iff bit_mask_iff
        bit_signed_iff bit_ucast_iff not_less min_def nat_less_le [of _ 32] le_less [of 31] Suc_le_eq [of 31, symmetric])
  finally show ?thesis .
qed

lemma shift_mask_values [simp]: "shift_mask 64 = 63" "shift_mask 32 = 31"
  by code_simp+

lemma shift_count_32: "shift_count (ucast (y :: u32)) 32 = shift_amount y"
  using shift_amount_32 [of y] by (simp add: shift_count_def)

lemma shift_count_64: "shift_count (y :: u64) 64 = shift_amount y"
  using shift_amount_64 [of y] by (simp add: shift_count_def)

lemma bv_min_signed_values: "bv_min_signed 64 = min_signed 64" "bv_min_signed 32 = min_signed 32"
  by (simp_all add: bv_min_signed_def min_signed_def)

lemma sint_eq_0: "sint a = 0 \<longleftrightarrow> a = (0 :: 'a::len word)"
  by (metis sint_0 word_of_int_sint)

lemma mul_s64_overflow_exact: "mul_s64_overflow a b \<longleftrightarrow> word_overflow Op_smul_overflow a b"
proof -
  have "mul_s64_overflow a b = portable_mul_overflow (sint a) (sint b)"
    by (auto simp: mul_s64_overflow_def portable_mul_overflow_def simp flip: sint_eq_0)
  then show ?thesis
    by (auto simp: portable_mul_overflow_correct builtin_mul_overflow_def word_overflow_exact)
qed

lemma mul_u64_overflow_exact: "mul_u64_overflow a b \<longleftrightarrow> word_overflow Op_umul_overflow a b"
  using unsigned_mul_check [of a b] umul_check_64 [of a b] by (auto simp: mul_u64_overflow_def)

text \<open>A value of width 32 in a 64-bit word: the mask is a cast down and up again.\<close>

lemmas mask_32_casts = ucast_down_and_mask ucast_down_add ucast_down_sub ucast_down_mult ucast_down_bitwise
  ucast_down_shift ucast_down_ashr ucast_down_udiv ucast_down_umod c_div_scast c_mod_scast

lemma eval_arith_64:
  assumes "bv_of_arith f = Some op" and "word_arith f x y = Some z"
  shows "eval_op fp op 64 aw bw imm extra (x :: u64) y vc = z"
proof -
  have min: "bv_min_signed 64 = 0x8000000000000000" by (simp add: bv_min_signed_def)
  from assms show ?thesis
    by (cases f) (auto simp: bv_of_arith_def shift_count_64 Let_def min c_div_def [folded word_sdiv_def]
        c_mod_def [folded word_smod_def] word_sdiv_min_neg1 word_smod_neg1 split: if_splits)
qed

lemma ucast_min_signed: "ucast (min_signed 32) = (0x80000000 :: u32)"
  by (simp add: min_signed_32)

lemma eval_arith_32:
  assumes "bv_of_arith f = Some op" and "word_arith f x y = Some z"
  shows "eval_op fp op 32 aw bw imm extra (ucast (x :: u32)) (ucast y) vc = ucast z"
proof -
  have min: "scast x = min_signed 32 \<and> (scast y :: i64) = - 1 \<longleftrightarrow> x = 0x80000000 \<and> y = - 1"
    by (simp only: min_signed_32 neg1_scast scast_32_64_inj)
  from assms shift_amount_less [of y] show ?thesis
    by (cases f) (auto simp: bv_of_arith_def shift_count_32 mask_32_casts Let_def min bv_min_signed_values
        ucast_min_signed word_sdiv_min_neg1 word_smod_neg1 split: if_splits)
qed

lemma eval_cmp_64: "eval_op fp (bv_of_cmp c) w 64 bw imm extra (x :: u64) y vc = of_bool (word_cmp c x y)"
  by (cases c) simp_all

lemma eval_cmp_32:
  "eval_op fp (bv_of_cmp c) w 32 bw imm extra (ucast (x :: u32)) (ucast y) vc = of_bool (word_cmp c x y)"
  by (cases c) (simp_all add: sint_scast_32_64)

text \<open>Sign rules: a signed sum or difference overflows when the result's sign is impossible.\<close>

lemma sint_wraps:
  fixes k :: int
  defines "h \<equiv> 2 ^ (LENGTH('a::len) - 1)"
  assumes "- (2 * h) \<le> k" and "k < 2 * h"
  shows "sint (word_of_int k :: 'a word) = (if k < - h then k + 2 * h else if k < h then k else k - 2 * h)"
proof -
  have two: "2 * h = 2 ^ LENGTH('a)" unfolding h_def by (simp flip: power_Suc)
  have "(word_of_int (k + 2 * h) :: 'a word) = word_of_int k" "(word_of_int (k - 2 * h) :: 'a word) = word_of_int k"
    unfolding two by (simp_all add: word_of_int_2p)
  moreover have "sint (word_of_int j :: 'a word) = j" if "- h \<le> j" "j < h" for j
    using that unfolding h_def by (rule sint_of_int_in_range)
  ultimately show ?thesis using assms(2,3) by (smt (verit))
qed

lemma signed_signs:
  fixes x y :: "'a::len word"
  shows "word_overflow Op_sadd_overflow x y \<longleftrightarrow>
     sint x \<ge> 0 \<and> sint y \<ge> 0 \<and> sint (x + y) < 0 \<or> sint x < 0 \<and> sint y < 0 \<and> sint (x + y) \<ge> 0"
    and "word_overflow Op_ssub_overflow x y \<longleftrightarrow>
     sint x \<ge> 0 \<and> sint y < 0 \<and> sint (x - y) < 0 \<or> sint x < 0 \<and> sint y \<ge> 0 \<and> sint (x - y) \<ge> 0"
proof -
  define h where "h = (2 :: int) ^ (LENGTH('a) - 1)"
  have r: "- h \<le> sint x" "sint x < h" "- h \<le> sint y" "sint y < h"
    unfolding h_def using sint_greater_eq [of x] sint_lt [of x] sint_greater_eq [of y] sint_lt [of y] by simp_all
  have add: "sint (x + y) = (if sint x + sint y < - h then sint x + sint y + 2 * h
      else if sint x + sint y < h then sint x + sint y else sint x + sint y - 2 * h)"
    using sint_wraps [where 'a = 'a, of "sint x + sint y", folded h_def] r by simp
  show "word_overflow Op_sadd_overflow x y \<longleftrightarrow>
     sint x \<ge> 0 \<and> sint y \<ge> 0 \<and> sint (x + y) < 0 \<or> sint x < 0 \<and> sint y < 0 \<and> sint (x + y) \<ge> 0"
    unfolding word_overflow.simps add using r by simp
  have sub: "sint (x - y) = (if sint x - sint y < - h then sint x - sint y + 2 * h
      else if sint x - sint y < h then sint x - sint y else sint x - sint y - 2 * h)"
    using sint_wraps [where 'a = 'a, of "sint x - sint y", folded h_def] r by simp
  show "word_overflow Op_ssub_overflow x y \<longleftrightarrow>
     sint x \<ge> 0 \<and> sint y < 0 \<and> sint (x - y) < 0 \<or> sint x < 0 \<and> sint y \<ge> 0 \<and> sint (x - y) \<ge> 0"
    unfolding word_overflow.simps sub using r by simp
qed

lemma eval_ovf_64:
  "eval_op fp (bv_of_ovf v) w 64 bw imm extra (x :: u64) y vc = of_bool (word_overflow v x y)"
proof (cases v)
  case Op_uadd_overflow
  then show ?thesis using unsigned_add_check [of x y] by simp
next
  case Op_usub_overflow
  then show ?thesis using unsigned_sub_check [of x y] by simp
next
  case Op_smul_overflow
  then show ?thesis by (simp only: bv_of_ovf.simps eval_op.simps Let_def sign_extend_64 mul_s64_overflow_exact) simp
next
  case Op_umul_overflow
  then show ?thesis by (simp only: bv_of_ovf.simps eval_op.simps mul_u64_overflow_exact) simp
qed (simp_all only: bv_of_ovf.simps eval_op.simps Let_def sign_extend_64 signed_signs of_bool_def)

lemma mult_by_sint: "a * b = word_of_int (sint a * sint b)" for a b :: "'a::len word"
  by simp

lemma product_32:
  fixes x y :: u32
  shows "sint ((scast x :: i64) * scast y) = sint x * sint y" and "uint ((ucast x :: u64) * ucast y) = uint x * uint y"
proof -
  have "\<bar>sint x\<bar> * \<bar>sint y\<bar> \<le> 2147483648 * 2147483648"
    using sint_range32 [of x] sint_range32 [of y] by (intro mult_mono) auto
  then have "\<bar>sint x * sint y\<bar> \<le> 4611686018427387904" by (simp add: abs_mult)
  then show "sint ((scast x :: i64) * scast y) = sint x * sint y"
    unfolding mult_by_sint [of "scast x :: i64"] sint_scast_32_64 by (intro sint_of_int64) linarith+
  have "uint x * uint y \<le> 4294967295 * 4294967295"
    using uint_range32 [of x] uint_range32 [of y] by (intro mult_mono) auto
  then show "uint ((ucast x :: u64) * ucast y) = uint x * uint y"
    by (simp add: uint_word_ariths)
qed

lemma eval_ovf_32:
  "eval_op fp (bv_of_ovf v) w 32 bw imm extra (ucast (x :: u32)) (ucast y) vc = of_bool (word_overflow v x y)"
proof (cases v)
  case Op_uadd_overflow
  then show ?thesis using unsigned_add_check [of x y] by (simp add: mask_32_casts)
next
  case Op_usub_overflow
  then show ?thesis using unsigned_sub_check [of x y] by simp
next
  case Op_smul_overflow
  then show ?thesis by (auto simp: Let_def product_32 word_overflow_exact)
next
  case Op_umul_overflow
  then show ?thesis by (simp add: word_less_def product_32 word_overflow_exact mask_eq_exp_minus_1)
qed (simp_all only: bv_of_ovf.simps eval_op.simps Let_def sign_extend_32 signed_signs of_bool_def
    ucast_down_add ucast_down_sub ucast_down_ucast_up sint_scast_32_64)

section \<open>Counting bits\<close>

lemma bits_ucast: "map (bit (ucast (x :: u32) :: u64)) [0..<64] = map (bit x) [0..<32] @ replicate 32 False"
proof (rule nth_equalityI)
  fix i assume "i < length (map (bit (ucast x :: u64)) [0..<64])"
  then show "map (bit (ucast x :: u64)) [0..<64] ! i = (map (bit x) [0..<32] @ replicate 32 False) ! i"
    by (auto simp: nth_append bit_ucast_iff dest: bit_word32_bound)
qed simp

lemma countl_zero_ucast: "countl_zero (ucast (x :: u32) :: u64) = 32 + countl_zero x"
proof -
  have "takeWhile Not (replicate n False @ xs) = replicate n False @ takeWhile Not xs" for n xs
    by (induction n) simp_all
  then show ?thesis by (simp add: countl_zero_def bits_ucast)
qed

lemma countr_zero_ucast:
  assumes "(x :: u32) \<noteq> 0"
  shows "countr_zero (ucast x :: u64) = countr_zero x"
proof -
  from assms obtain n where "n < 32" "bit x n" by (auto simp: bit_eq_iff dest: bit_word32_bound)
  then have "True \<in> set (map (bit x) [0..<32])" by force
  then show ?thesis by (simp add: countr_zero_def bits_ucast takeWhile_append1 [of True])
qed

lemma count_of_zero: "countl_zero (0 :: 'a::len word) = LENGTH('a)" "countr_zero (0 :: 'a::len word) = LENGTH('a)"
  by (simp_all add: countl_zero_def countr_zero_def takeWhile_eq_all_conv [THEN iffD2])

lemma ucast_count: "c \<le> 64 \<Longrightarrow> (ucast (of_nat c :: u32) :: u64) = of_nat c"
  by (simp add: word_uint_eq_iff unsigned_of_nat take_bit_nat_eq_self)

lemma not_plus_1: "NOT a + 1 = - a" for a :: "'a::len word"
  by (simp add: not_eq_complement)

lemma eval_unary_64:
  assumes "bv_of_unary f = Some op" and "word_unary f x = Some z"
  shows "eval_op fp op 64 64 bw imm extra (x :: u64) vb vc = z"
  using assms count_bounds(1) [of x]
  by (cases f) (auto simp: bv_of_unary_def count_of_zero not_plus_1 ucast_count)

lemma eval_unary_32:
  assumes "bv_of_unary f = Some op" and "word_unary f x = Some z"
  shows "eval_op fp op 32 32 bw imm extra (ucast (x :: u32)) vb vc = ucast z"
proof -
  note c = count_bounds [of x, simplified]
  have neg: "(ucast (NOT (ucast x :: u64) + 1) :: u32) = - x"
    using ucast_down_sub [of 0 "ucast x"] by (simp add: not_plus_1)
  have not: "(ucast (NOT (ucast x :: u64)) :: u32) = NOT x"
    by (rule bit_word_eqI) (auto simp: bit_simps)
  have nat: "(ucast (of_nat n :: u64) :: u32) = of_nat n" for n
    using ucast_of_int [of "int n"] by simp
  from assms c show ?thesis
    by (cases f) (auto simp: bv_of_unary_def ucast_down_and_mask neg not nat count_of_zero countl_zero_ucast
        countr_zero_ucast popcount_ucast_up ucast_count)
qed

text \<open>
  C28.  The checker's bitvector operations mean what the MIR instructions they stand for mean: at
  32 and 64 bits, evaluating the operation chosen for an arithmetic, unary, comparison or
  overflow instruction gives the reference result of the instruction wherever it has one.
\<close>

theorem bv_operations_match_reference:
  fixes x y z :: u32 and a b c :: u64
  shows "(bv_of_arith f = Some op \<and> word_arith f x y = Some z \<longrightarrow>
      eval_op fp op 32 32 32 imm extra (ucast x) (ucast y) vc = ucast z)
    \<and> (bv_of_arith f = Some op \<and> word_arith f a b = Some c \<longrightarrow> eval_op fp op 64 64 64 imm extra a b vc = c)
    \<and> (bv_of_unary f = Some op \<and> word_unary f x = Some z \<longrightarrow>
      eval_op fp op 32 32 bw imm extra (ucast x) vb vc = ucast z)
    \<and> (bv_of_unary f = Some op \<and> word_unary f a = Some c \<longrightarrow> eval_op fp op 64 64 bw imm extra a vb vc = c)
    \<and> eval_op fp (bv_of_cmp r) 1 32 32 imm extra (ucast x) (ucast y) vc = of_bool (word_cmp r x y)
    \<and> eval_op fp (bv_of_cmp r) 1 64 64 imm extra a b vc = of_bool (word_cmp r a b)
    \<and> eval_op fp (bv_of_ovf v) 1 32 32 imm extra (ucast x) (ucast y) vc = of_bool (word_overflow v x y)
    \<and> eval_op fp (bv_of_ovf v) 1 64 64 imm extra a b vc = of_bool (word_overflow v a b)"
  by (auto intro: eval_arith_32 eval_arith_64 eval_unary_32 eval_unary_64
      simp: eval_cmp_32 eval_cmp_64 eval_ovf_32 eval_ovf_64)

theorem bv_operations_match_reference_witness:
  "eval_op (zero_fpu, zero_math) BV_SDiv 32 32 32 0 0 (ucast (0x80000000 :: u32)) (ucast (- 1 :: u32)) 0 = 0x80000000
    \<and> eval_op (zero_fpu, zero_math) BV_AShr 64 64 64 0 0 (- 8) 65 0 = - 4"
proof -
  have 1: "word_arith Op_sdiv (0x80000000 :: u32) (- 1) = Some 0x80000000" by (simp add: word_sdiv_min_neg1)
  have 2: "word_arith Op_ashr (- 8 :: u64) 65 = Some (- 4)"
    by code_simp
  show ?thesis
    using bv_operations_match_reference [of Op_sdiv BV_SDiv "0x80000000" "- 1" "0x80000000" "(zero_fpu, zero_math)" 0 0 0]
      bv_operations_match_reference [of Op_ashr BV_AShr _ _ _ "(zero_fpu, zero_math)" 0 0 0 "- 8" 65 "- 4"] 1 2
    by (simp add: bv_of_arith_def)
qed

section \<open>Evaluating a table\<close>

lemma one_in_width: "1 \<le> w \<Longrightarrow> 1 AND width_mask w = 1"
  by (cases "w \<ge> 64") (simp_all add: width_mask_def width_mask_eq mask_eq_exp_minus_1
      flip: mask_eq_exp_minus_1 take_bit_eq_mask)

text \<open>
  The widths a floating-point operation's result fits: the code tests for 32 and computes at 64
  bits otherwise.
\<close>

definition fp_width :: "BVFpOp \<Rightarrow> nat \<Rightarrow> bool" where
  "fp_width f w \<longleftrightarrow>
     (if f \<in> {BV_FEq, BV_FNe, BV_FLt, BV_FLe, BV_FGt, BV_FGe} then 1 \<le> w
      else if f = BV_FpExt then 64 \<le> w
      else if f = BV_FpTrunc then w = 32 \<or> 64 \<le> w
      else w = 32 \<or> 64 \<le> w)"

lemma wide_mask: "64 \<le> w \<Longrightarrow> width_mask w = - 1"
  by (simp add: width_mask_def)

lemma ucast_in_32: "(ucast (x :: u32) :: u64) AND mask 32 = ucast x"
  by (rule bit_word_eqI) (auto simp: bit_simps dest: bit_imp_le_length)

lemma fmin_fmax_cases:
  defines "x w v \<equiv> v AND width_mask w"
  shows "eval_ieee_fmin_fmax fp va vb w mx \<in>
    {x w va OR push_bit ((if w = 32 then 23 else 52) - 1) 1, x w va, x w vb, x w va AND x w vb, x w va OR x w vb}"
  unfolding eval_ieee_fmin_fmax_def Let_def x_def [symmetric] by simp

lemma fmin_fmax_bounded:
  assumes "w = 32 \<or> 64 \<le> w"
  shows "eval_ieee_fmin_fmax fp va vb w mx AND width_mask w = eval_ieee_fmin_fmax fp va vb w mx"
proof -
  have "push_bit ((if w = 32 then 23 else 52) - 1) 1 AND width_mask w = push_bit ((if w = 32 then 23 else 52) - 1) 1"
    using assms by (auto simp: wide_mask mask_eq_exp_minus_1)
  then show ?thesis
    using fmin_fmax_cases [of fp va vb w mx] by (auto simp: bit.conj_disj_distrib2 and.assoc)
qed

lemma test_bounded: "1 \<le> w \<Longrightarrow> (if p then 1 else 0) AND width_mask w = (if p then 1 else 0)"
  using one_in_width by simp

lemma result_bounded:
  "w = 32 \<or> 64 \<le> w \<Longrightarrow> (if w = 32 then ucast (x :: u32) else y) AND width_mask w = (if w = 32 then ucast x else y)"
  by (auto simp: wide_mask ucast_in_32)

lemma fp_to_si_bounded:
  assumes "w = 32 \<or> 64 \<le> w"
  shows "eval_fp_to_si fp fm w d AND width_mask w = eval_fp_to_si fp fm w d"
  using assms
proof
  assume "w = 32"
  moreover have "(0x80000000 :: u64) AND mask 32 = 0x80000000" "(0x7FFFFFFF :: u64) AND mask 32 = 0x7FFFFFFF"
    by (simp_all add: mask_eq_exp_minus_1)
  ultimately show ?thesis by (simp add: eval_fp_to_si_def ucast_in_32)
qed (simp add: wide_mask)

lemma eval_fp_bounded:
  assumes "fp_width f w"
  shows "eval_fp fp f w aw va vb AND width_mask w = eval_fp fp f w aw va vb"
proof (cases "f \<in> {BV_FEq, BV_FNe, BV_FLt, BV_FLe, BV_FGt, BV_FGe}")
  case True
  then have "1 \<le> w" using assms by (simp add: fp_width_def)
  then show ?thesis
    using True by (elim insertE emptyE) (simp_all only: eval_fp_def Let_def BVFpOp.case test_bounded)
next
  case False
  then have w: "w = 32 \<or> 64 \<le> w" and ext: "f = BV_FpExt \<Longrightarrow> 64 \<le> w"
    using assms by (auto simp: fp_width_def split: if_splits)
  have trunc: "ucast (x :: u32) AND width_mask w = (ucast x :: u64)" for x
    using w by (auto simp: wide_mask ucast_in_32)
  show ?thesis
    using False ext
    by (cases f) (simp_all only: eval_fp_def Let_def BVFpOp.case result_bounded [OF w] fmin_fmax_bounded [OF w]
        fp_to_si_bounded [OF w] trunc wide_mask and_minus_numerals and.right_neutral insert_iff simp_thms)
qed

lemma eval_op_bounded:
  assumes "1 \<le> w" and "\<And>f. op = BV_Fp f \<Longrightarrow> fp_width f w"
  shows "eval_op fp op w aw bw imm extra va vb vc AND width_mask w = eval_op fp op w aw bw imm extra va vb vc"
  using assms one_in_width [OF assms(1)]
  by (cases op) (simp_all add: Let_def and.assoc eval_fp_bounded)

text \<open>The table after the first nodes is a prefix of the table after all of them.\<close>

definition table_upto :: "fp_eval \<Rightarrow> BVNode list \<Rightarrow> u64 list \<Rightarrow> nat \<Rightarrow> u64 list" where
  "table_upto fp nodes var_values k =
     foldl (\<lambda>vals n. vals @ [evaluate_node fp nodes var_values vals n]) [] (take k nodes)"

lemma table_upto_Suc:
  "k < length nodes \<Longrightarrow> table_upto fp nodes vs (Suc k)
     = table_upto fp nodes vs k @ [evaluate_node fp nodes vs (table_upto fp nodes vs k) (nodes ! k)]"
  by (simp add: table_upto_def take_Suc_conv_app_nth)

lemma table_upto_length: "k \<le> length nodes \<Longrightarrow> length (table_upto fp nodes vs k) = k"
  by (induction k) (simp_all add: table_upto_Suc, simp add: table_upto_def)

lemma table_upto_prefix:
  assumes "k \<le> m" and "m \<le> length nodes"
  shows "take k (table_upto fp nodes vs m) = table_upto fp nodes vs k"
  using assms
proof (induction m)
  case 0
  then show ?case by (simp add: table_upto_def)
next
  case (Suc m)
  then show ?case
    by (cases "k = Suc m") (simp_all add: table_upto_Suc table_upto_length)
qed

text \<open>
  Tables as the context builds them: a node refers only to nodes before it, widths are from 1,
  and a floating-point operation has a width its result fits.
\<close>

definition wf_nodes :: "BVNode list \<Rightarrow> bool" where
  "wf_nodes nodes \<longleftrightarrow> (\<forall>i < length nodes. 1 \<le> bv_width (nodes ! i)
     \<and> (\<forall>f. bv_op (nodes ! i) = BV_Fp f \<longrightarrow> fp_width f (bv_width (nodes ! i)))
     \<and> (bv_op (nodes ! i) \<noteq> BV_Var \<and> bv_op (nodes ! i) \<noteq> BV_Const \<longrightarrow>
          bv_a (nodes ! i) < i \<and> bv_b (nodes ! i) < i \<and> bv_c (nodes ! i) < i))"

lemma node_values:
  assumes wf: "wf_nodes nodes" and i: "i < length nodes"
  shows "eval_concrete fp nodes i vs = evaluate_node fp nodes vs (evaluate_all fp nodes vs) (nodes ! i)
    \<and> eval_concrete fp nodes i vs AND width_mask (bv_width (nodes ! i)) = eval_concrete fp nodes i vs"
proof -
  let ?T = "table_upto fp nodes vs"
  have all: "evaluate_all fp nodes vs = ?T (length nodes)" by (simp add: evaluate_all_def table_upto_def)
  have pre: "take i (?T (length nodes)) = ?T i" using i by (intro table_upto_prefix) simp_all
  have len: "length (?T (length nodes)) = length nodes" "length (?T i) = i"
    using i by (simp_all add: table_upto_length)
  have "take (Suc i) (?T (length nodes)) = ?T i @ [evaluate_node fp nodes vs (?T i) (nodes ! i)]"
    using i table_upto_prefix [of "Suc i" "length nodes" nodes fp vs] by (simp add: table_upto_Suc)
  then have "?T (length nodes) ! i = evaluate_node fp nodes vs (?T i) (nodes ! i)"
    using i len by (metis lessI nth_append_length nth_take)
  then have v: "eval_concrete fp nodes i vs = evaluate_node fp nodes vs (?T i) (nodes ! i)"
    using i len by (simp add: eval_concrete_def node_val_def all)
  have child: "node_val (?T i) c = node_val (?T (length nodes)) c" if "c < i" for c
    using that i len pre by (metis node_val_def nth_take order.strict_trans)
  have "evaluate_node fp nodes vs (?T i) (nodes ! i) = evaluate_node fp nodes vs (?T (length nodes)) (nodes ! i)"
    using wf i child by (auto simp: evaluate_node_def wf_nodes_def)
  moreover have "1 \<le> bv_width (nodes ! i)" "\<And>f. bv_op (nodes ! i) = BV_Fp f \<Longrightarrow> fp_width f (bv_width (nodes ! i))"
    using wf i by (simp_all add: wf_nodes_def)
  then have "evaluate_node fp nodes vs (?T i) (nodes ! i) AND width_mask (bv_width (nodes ! i))
      = evaluate_node fp nodes vs (?T i) (nodes ! i)"
    by (simp add: evaluate_node_def eval_node_concrete_def Let_def eval_op_bounded and.assoc)
  ultimately show ?thesis by (simp add: v all)
qed

text \<open>
  C39.  The table of values is the meaning of the terms.  A variable has the value assigned to it
  and a constant its immediate, both cut to their width; any other node has the value of its
  operation on the values of its first, second and third child, in that order, floating-point
  operations on whatever host included.  No value exceeds the width of its node.
\<close>

theorem evaluate_all_compositional:
  assumes wf: "wf_nodes nodes" and i: "i < length nodes" and n: "nodes ! i = n"
  shows "eval_concrete fp nodes i vs =
      (if bv_op n = BV_Var
       then (if unat (bv_imm n) < length vs then vs ! unat (bv_imm n) else 0) AND width_mask (bv_width n)
       else if bv_op n = BV_Const then bv_imm n AND width_mask (bv_width n)
       else eval_op fp (bv_op n) (bv_width n) (bv_width (nodes ! bv_a n)) (bv_width (nodes ! bv_b n)) (bv_imm n) (bv_extra n)
         (eval_concrete fp nodes (bv_a n) vs) (eval_concrete fp nodes (bv_b n) vs) (eval_concrete fp nodes (bv_c n) vs))
    \<and> eval_concrete fp nodes i vs AND width_mask (bv_width n) = eval_concrete fp nodes i vs"
proof -
  have v: "eval_concrete fp nodes i vs = evaluate_node fp nodes vs (evaluate_all fp nodes vs) n"
    and m: "eval_concrete fp nodes i vs AND width_mask (bv_width n) = eval_concrete fp nodes i vs"
    using node_values [OF wf i, of fp vs] unfolding n by blast+
  have c: "k < length nodes" "eval_concrete fp nodes k vs AND width_mask (bv_width (nodes ! k)) = eval_concrete fp nodes k vs"
    if "bv_op n \<noteq> BV_Var" "bv_op n \<noteq> BV_Const" "k \<in> {bv_a n, bv_b n, bv_c n}" for k
  proof -
    have "k < i" using wf i that n by (auto simp: wf_nodes_def)
    then show "k < length nodes" using i by simp
    then show "eval_concrete fp nodes k vs AND width_mask (bv_width (nodes ! k)) = eval_concrete fp nodes k vs"
      using node_values [OF wf] by blast
  qed
  show ?thesis
  proof (cases "bv_op n = BV_Var \<or> bv_op n = BV_Const")
    case True
    then show ?thesis using v m by (auto simp: evaluate_node_def node_val_def)
  next
    case False
    then have "bv_op n \<noteq> BV_Var" "bv_op n \<noteq> BV_Const" by simp_all
    note k = c [OF this]
    show ?thesis
      using v m False k [of "bv_a n"] k [of "bv_b n"] k [of "bv_c n"]
      by (simp add: evaluate_node_def eval_node_concrete_def Let_def child_width_def del: eval_op.simps flip: eval_concrete_def)
  qed
qed

text \<open>The difference of a variable and a constant, at 8 bits.\<close>

definition example_nodes :: "BVNode list" where
  "example_nodes =
     [\<lparr>bv_op = BV_Var, bv_width = 8, bv_a = 0, bv_b = 0, bv_c = 0, bv_imm = 0, bv_extra = 0\<rparr>,
      \<lparr>bv_op = BV_Const, bv_width = 8, bv_a = 0, bv_b = 0, bv_c = 0, bv_imm = 5, bv_extra = 0\<rparr>,
      \<lparr>bv_op = BV_Sub, bv_width = 8, bv_a = 0, bv_b = 1, bv_c = 0, bv_imm = 0, bv_extra = 0\<rparr>]"

theorem evaluate_all_compositional_witness:
  "eval_concrete (zero_fpu, zero_math) example_nodes 2 [3] =
      eval_op (zero_fpu, zero_math) BV_Sub 8 8 8 0 0 (eval_concrete (zero_fpu, zero_math) example_nodes 0 [3])
        (eval_concrete (zero_fpu, zero_math) example_nodes 1 [3]) (eval_concrete (zero_fpu, zero_math) example_nodes 0 [3])
    \<and> evaluate_all (zero_fpu, zero_math) example_nodes [3] = [3, 5, 254]"
proof
  have "wf_nodes example_nodes"
    by (auto simp: wf_nodes_def example_nodes_def less_Suc_eq numeral_eq_Suc)
  from evaluate_all_compositional [OF this, of 2 _ "(zero_fpu, zero_math)" "[3]", OF _ refl]
  show "eval_concrete (zero_fpu, zero_math) example_nodes 2 [3] =
      eval_op (zero_fpu, zero_math) BV_Sub 8 8 8 0 0 (eval_concrete (zero_fpu, zero_math) example_nodes 0 [3])
        (eval_concrete (zero_fpu, zero_math) example_nodes 1 [3]) (eval_concrete (zero_fpu, zero_math) example_nodes 0 [3])"
    by (simp add: example_nodes_def del: eval_op.simps)
  show "evaluate_all (zero_fpu, zero_math) example_nodes [3] = [3, 5, 254]"
    by (simp add: evaluate_all_def example_nodes_def evaluate_node_def eval_node_concrete_def node_val_def
        child_width_def width_mask_def)
qed

end
