(* ===== verification/Lir_Exec.thy ===== *)
theory Lir_Exec
  imports Lir Bv_Eval "HOL-Library.Monad_Syntax"
begin

text \<open>
  The executor of x64 LIR that the equivalence checker runs (\<open>execute_lir_block\<close> of
  \<open>src/verify/lir_equiv.cpp\<close>), with every bitvector term replaced by its value: a value is a
  width and a masked \<open>uint64_t\<close>, each \<open>make_*\<close> call of the executor is the evaluation of the node
  it makes (\<open>eval_op\<close>), and a fresh variable is an argument.  The checker's claim that two blocks
  are equivalent is that these values agree for all arguments, so this is the meaning the
  checker gives to LIR.  Memory operands are compared by term identity in the executor, not by
  value, and are not modelled: an instruction that reads or writes memory stops the execution
  with \<^const>\<open>None\<close>, as do the opcodes the model leaves out.  An opcode the executor itself does
  not know clears \<open>supported\<close> and stops.
\<close>

section \<open>Values\<close>

type_synonym bv = "nat \<times> u64"

definition bv_const :: "u64 \<Rightarrow> nat \<Rightarrow> bv" where
  "bv_const v w = (w, v AND width_mask w)"

definition bv_extract :: "fp_eval \<Rightarrow> bv \<Rightarrow> nat \<Rightarrow> nat \<Rightarrow> bv" where
  "bv_extract fp a hi lo = (hi - lo + 1, eval_op fp BV_Extract (hi - lo + 1) (fst a) 1 0 lo (snd a) 0 0)"

definition bv_concat :: "fp_eval \<Rightarrow> bv \<Rightarrow> bv \<Rightarrow> bv" where
  "bv_concat fp hi lo = (fst hi + fst lo, eval_op fp BV_Concat (fst hi + fst lo) (fst hi) (fst lo) 0 0 (snd hi) (snd lo) 0)"

definition bv_zext :: "fp_eval \<Rightarrow> bv \<Rightarrow> nat \<Rightarrow> bv" where
  "bv_zext fp a n = (fst a + n, eval_op fp BV_ZExt (fst a + n) (fst a) 1 0 n (snd a) 0 0)"

definition bv_sext :: "fp_eval \<Rightarrow> bv \<Rightarrow> nat \<Rightarrow> bv" where
  "bv_sext fp a n = (fst a + n, eval_op fp BV_SExt (fst a + n) (fst a) 1 0 n (snd a) 0 0)"

definition bv_unary :: "fp_eval \<Rightarrow> BVOp \<Rightarrow> bv \<Rightarrow> nat \<Rightarrow> bv" where
  "bv_unary fp op a w = (w, eval_op fp op w (fst a) 1 0 0 (snd a) 0 0)"

definition bv_binary :: "fp_eval \<Rightarrow> BVOp \<Rightarrow> bv \<Rightarrow> bv \<Rightarrow> nat \<Rightarrow> bv" where
  "bv_binary fp op a b w = (w, eval_op fp op w (fst a) (fst b) 0 0 (snd a) (snd b) 0)"

definition bv_ite :: "fp_eval \<Rightarrow> bv \<Rightarrow> bv \<Rightarrow> bv \<Rightarrow> bv" where
  "bv_ite fp c t f = (fst t, eval_op fp BV_Ite (fst t) (fst c) (fst t) 0 0 (snd c) (snd t) (snd f))"

section \<open>State\<close>

record LirFlagsState =
  flag_zf :: bv
  flag_sf :: bv
  flag_of :: bv
  flag_cf :: bv
  flag_pf :: bv

record LirExecState =
  supported :: bool
  gpr :: "nat \<Rightarrow> u64"
  xmm_lo :: "nat \<Rightarrow> u64"
  xmm_hi :: "nat \<Rightarrow> u64"
  flags :: LirFlagsState
  vregs :: "nat \<Rightarrow> u64"
  spill_slots :: "i32 \<Rightarrow> u64"
  local_slots :: "i32 \<Rightarrow> u64"
  flags_defined :: bool
  has_branch :: bool
  branch_taken :: bv
  taken_label :: u32
  fallthrough_label :: u32
  clobber_seq :: nat

text \<open>The fresh variables that stand for flags an instruction leaves undefined.\<close>

datatype clobber = Clob_zf | Clob_sf | Clob_of | Clob_cf

record lir_env =
  env_fp :: fp_eval
  env_clob :: "clobber \<Rightarrow> nat \<Rightarrow> u64"

definition clob_var :: "lir_env \<Rightarrow> clobber \<Rightarrow> nat \<Rightarrow> bv" where
  "clob_var e c n = (1, env_clob e c n AND width_mask 1)"

section \<open>Flags\<close>

definition eval_condition :: "fp_eval \<Rightarrow> LirFlagsState \<Rightarrow> Condition \<Rightarrow> bv" where
  "eval_condition fp f cond = (case cond of
      C_O \<Rightarrow> flag_of f
    | C_NO \<Rightarrow> bv_unary fp BV_Not (flag_of f) 1
    | C_B \<Rightarrow> flag_cf f
    | C_AE \<Rightarrow> bv_unary fp BV_Not (flag_cf f) 1
    | C_E \<Rightarrow> flag_zf f
    | C_NE \<Rightarrow> bv_unary fp BV_Not (flag_zf f) 1
    | C_BE \<Rightarrow> bv_binary fp BV_Or (flag_cf f) (flag_zf f) 1
    | C_A \<Rightarrow> bv_unary fp BV_Not (bv_binary fp BV_Or (flag_cf f) (flag_zf f) 1) 1
    | C_S \<Rightarrow> flag_sf f
    | C_NS \<Rightarrow> bv_unary fp BV_Not (flag_sf f) 1
    | C_P \<Rightarrow> flag_pf f
    | C_NP \<Rightarrow> bv_unary fp BV_Not (flag_pf f) 1
    | C_L \<Rightarrow> bv_binary fp BV_Xor (flag_sf f) (flag_of f) 1
    | C_GE \<Rightarrow> bv_unary fp BV_Not (bv_binary fp BV_Xor (flag_sf f) (flag_of f) 1) 1
    | C_LE \<Rightarrow> bv_binary fp BV_Or (flag_zf f) (bv_binary fp BV_Xor (flag_sf f) (flag_of f) 1) 1
    | C_G \<Rightarrow> bv_unary fp BV_Not (bv_binary fp BV_Or (flag_zf f) (bv_binary fp BV_Xor (flag_sf f) (flag_of f) 1) 1) 1
    | C_None \<Rightarrow> bv_const 0 1)"

definition set_add_flags :: "fp_eval \<Rightarrow> bv \<Rightarrow> bv \<Rightarrow> bv \<Rightarrow> nat \<Rightarrow> LirFlagsState" where
  "set_add_flags fp a b res w = \<lparr>
     flag_zf = bv_binary fp BV_Eq res (bv_const 0 w) 1,
     flag_sf = bv_extract fp res (w - 1) (w - 1),
     flag_of = bv_binary fp BV_SAddOvf a b 1,
     flag_cf = bv_binary fp BV_UAddOvf a b 1,
     flag_pf = bv_const 0 1\<rparr>"

definition set_sub_flags :: "fp_eval \<Rightarrow> bv \<Rightarrow> bv \<Rightarrow> bv \<Rightarrow> nat \<Rightarrow> LirFlagsState" where
  "set_sub_flags fp a b res w = \<lparr>
     flag_zf = bv_binary fp BV_Eq res (bv_const 0 w) 1,
     flag_sf = bv_extract fp res (w - 1) (w - 1),
     flag_of = bv_binary fp BV_SSubOvf a b 1,
     flag_cf = bv_binary fp BV_USubOvf a b 1,
     flag_pf = bv_const 0 1\<rparr>"

definition set_logic_flags :: "fp_eval \<Rightarrow> bv \<Rightarrow> nat \<Rightarrow> LirFlagsState" where
  "set_logic_flags fp res w = \<lparr>
     flag_zf = bv_binary fp BV_Eq res (bv_const 0 w) 1,
     flag_sf = bv_extract fp res (w - 1) (w - 1),
     flag_of = bv_const 0 1,
     flag_cf = bv_const 0 1,
     flag_pf = bv_const 0 1\<rparr>"

section \<open>Operands\<close>

definition read_reg64 :: "LirExecState \<Rightarrow> LirOperand \<Rightarrow> bv" where
  "read_reg64 st op = (case op of
      O_PReg p _ \<Rightarrow>
        if preg_is_gpr p \<and> reg_code p < 16 then (64, gpr st (unat (reg_code p)))
        else if preg_is_xmm p \<and> reg_code p < 16 then (64, xmm_lo st (unat (reg_code p)))
        else bv_const 0 64
    | O_VReg v _ \<Rightarrow> (64, vregs st (vreg_id v))
    | _ \<Rightarrow> bv_const 0 64)"

definition narrow_to :: "fp_eval \<Rightarrow> bv \<Rightarrow> nat \<Rightarrow> bv" where
  "narrow_to fp raw64 w = (if w = 64 then raw64 else bv_extract fp raw64 (w - 1) 0)"

definition read_op :: "fp_eval \<Rightarrow> LirExecState \<Rightarrow> LirOperand \<Rightarrow> nat \<Rightarrow> bv option" where
  "read_op fp st op w = (case op of
      O_PReg _ _ \<Rightarrow> Some (narrow_to fp (read_reg64 st op) w)
    | O_VReg _ _ \<Rightarrow> Some (narrow_to fp (read_reg64 st op) w)
    | O_ImmInt i _ \<Rightarrow> Some (bv_const i w)
    | O_ImmFloat u \<Rightarrow> Some (bv_const u w)
    | O_SpillSlot s _ \<Rightarrow> Some (narrow_to fp (64, spill_slots st s) w)
    | O_LocalSlot s _ \<Rightarrow> Some (narrow_to fp (64, local_slots st s) w)
    | O_Mem _ _ \<Rightarrow> None
    | _ \<Rightarrow> Some (bv_const 0 w))"

definition widen_value :: "fp_eval \<Rightarrow> bv \<Rightarrow> u64" where
  "widen_value fp v = snd (if fst v = 64 then v else bv_zext fp v (64 - fst v))"

definition write_gpr :: "fp_eval \<Rightarrow> nat \<Rightarrow> bv \<Rightarrow> bool \<Rightarrow> LirExecState \<Rightarrow> LirExecState" where
  "write_gpr fp c v zero_ext st =
     (let new = (if fst v = 64 then v
                 else if fst v = 32 \<and> zero_ext then bv_zext fp v 32
                 else bv_concat fp (bv_extract fp (64, gpr st c) 63 (fst v)) v)
      in st\<lparr>gpr := (gpr st)(c := snd new)\<rparr>)"

definition write_op :: "fp_eval \<Rightarrow> LirOperand \<Rightarrow> bv \<Rightarrow> bool \<Rightarrow> LirExecState \<Rightarrow> LirExecState option" where
  "write_op fp dst v zero_ext st = (case dst of
      O_PReg p _ \<Rightarrow> Some
        (if preg_is_gpr p \<and> reg_code p < 16 then write_gpr fp (unat (reg_code p)) v zero_ext st
         else if preg_is_xmm p \<and> reg_code p < 16
         then st\<lparr>xmm_lo := (xmm_lo st)(unat (reg_code p) := widen_value fp v)\<rparr>
         else st)
    | O_VReg r _ \<Rightarrow> Some (st\<lparr>vregs := (vregs st)(vreg_id r := widen_value fp v)\<rparr>)
    | O_SpillSlot s _ \<Rightarrow> Some (st\<lparr>spill_slots := (spill_slots st)(s := widen_value fp v)\<rparr>)
    | O_LocalSlot s _ \<Rightarrow> Some (st\<lparr>local_slots := (local_slots st)(s := widen_value fp v)\<rparr>)
    | O_Mem _ _ \<Rightarrow> None
    | _ \<Rightarrow> Some st)"

section \<open>Instructions\<close>

definition def0 :: "LirInst \<Rightarrow> LirOperand" where
  "def0 inst = (case lir_defs inst of [] \<Rightarrow> O_None | d # _ \<Rightarrow> d)"

definition use_at :: "LirInst \<Rightarrow> nat \<Rightarrow> LirOperand" where
  "use_at inst k = (if k < length (lir_uses inst) then lir_uses inst ! k else O_None)"

definition get_bin_lhs :: "fp_eval \<Rightarrow> LirInst \<Rightarrow> nat \<Rightarrow> LirExecState \<Rightarrow> bv option" where
  "get_bin_lhs fp inst w st =
     (if length (lir_uses inst) \<ge> 2 then read_op fp st (use_at inst 0) w
      else if lir_defs inst \<noteq> [] then read_op fp st (def0 inst) w
      else Some (bv_const 0 w))"

definition get_bin_rhs :: "fp_eval \<Rightarrow> LirInst \<Rightarrow> nat \<Rightarrow> LirExecState \<Rightarrow> bv option" where
  "get_bin_rhs fp inst w st =
     (if lir_uses inst \<noteq> [] then read_op fp st (last (lir_uses inst)) w else Some (bv_const 0 w))"

text \<open>Moves: nothing happens when an operand is missing.\<close>

definition move_value :: "fp_eval \<Rightarrow> MoveOp \<Rightarrow> LirInst \<Rightarrow> LirExecState \<Rightarrow> bv option" where
  "move_value fp op inst st = (let src = use_at inst 0 in case op of
      L_Mov \<Rightarrow> read_op fp st src (if is_mem (def0 inst) \<and> operand_size (def0 inst) < 8 then operand_size (def0 inst) * 8 else 64)
    | L_Movabs \<Rightarrow> read_op fp st src (if is_mem (def0 inst) \<and> operand_size (def0 inst) < 8 then operand_size (def0 inst) * 8 else 64)
    | L_Mov32 \<Rightarrow> read_op fp st src 32
    | L_Movsxd \<Rightarrow> map_option (\<lambda>v. bv_sext fp v 32) (read_op fp st src 32)
    | L_Movsx8 \<Rightarrow> map_option (\<lambda>v. bv_sext fp v (if operand_size (def0 inst) = 4 then 24 else 56)) (read_op fp st src 8)
    | L_Movsx16 \<Rightarrow> map_option (\<lambda>v. bv_sext fp v (if operand_size (def0 inst) = 4 then 16 else 48)) (read_op fp st src 16)
    | L_Movzx8 \<Rightarrow> map_option (\<lambda>v. bv_zext fp v 56) (read_op fp st src 8)
    | L_Movzx16 \<Rightarrow> map_option (\<lambda>v. bv_zext fp v 48) (read_op fp st src 16))"

definition exec_move :: "fp_eval \<Rightarrow> MoveOp \<Rightarrow> LirInst \<Rightarrow> LirExecState \<Rightarrow> LirExecState option" where
  "exec_move fp op inst st =
     (if lir_defs inst = [] \<or> lir_uses inst = [] then Some st
      else do { v \<leftarrow> move_value fp op inst st; write_op fp (def0 inst) v True st })"

definition exec_add :: "fp_eval \<Rightarrow> nat \<Rightarrow> LirInst \<Rightarrow> LirExecState \<Rightarrow> LirExecState option" where
  "exec_add fp w inst st = do {
     a \<leftarrow> get_bin_lhs fp inst w st; b \<leftarrow> get_bin_rhs fp inst w st;
     let res = bv_binary fp BV_Add a b w;
     st \<leftarrow> write_op fp (def0 inst) res True st;
     Some (st\<lparr>flags := set_add_flags fp a b res w, flags_defined := True\<rparr>) }"

definition exec_sub :: "fp_eval \<Rightarrow> nat \<Rightarrow> LirInst \<Rightarrow> LirExecState \<Rightarrow> LirExecState option" where
  "exec_sub fp w inst st = do {
     a \<leftarrow> get_bin_lhs fp inst w st; b \<leftarrow> get_bin_rhs fp inst w st;
     let res = bv_binary fp BV_Sub a b w;
     st \<leftarrow> write_op fp (def0 inst) res True st;
     Some (st\<lparr>flags := set_sub_flags fp a b res w, flags_defined := True\<rparr>) }"

definition exec_imul :: "lir_env \<Rightarrow> nat \<Rightarrow> LirInst \<Rightarrow> LirExecState \<Rightarrow> LirExecState option" where
  "exec_imul e w inst st = do {
     let fp = env_fp e;
     a \<leftarrow> get_bin_lhs fp inst w st; b \<leftarrow> get_bin_rhs fp inst w st;
     st \<leftarrow> write_op fp (def0 inst) (bv_binary fp BV_Mul a b w) True st;
     let ovf = bv_binary fp BV_SMulOvf a b 1;
     Some (st\<lparr>flags := (flags st)\<lparr>flag_of := ovf, flag_cf := ovf,
         flag_zf := clob_var e Clob_zf (clobber_seq st), flag_sf := clob_var e Clob_sf (clobber_seq st)\<rparr>,
       clobber_seq := clobber_seq st + 1\<rparr>) }"

definition exec_logic :: "fp_eval \<Rightarrow> BVOp \<Rightarrow> nat \<Rightarrow> LirInst \<Rightarrow> LirExecState \<Rightarrow> LirExecState option" where
  "exec_logic fp bop w inst st = do {
     a \<leftarrow> get_bin_lhs fp inst w st; b \<leftarrow> get_bin_rhs fp inst w st;
     let res = bv_binary fp bop a b w;
     st \<leftarrow> write_op fp (def0 inst) res True st;
     Some (st\<lparr>flags := set_logic_flags fp res w, flags_defined := True\<rparr>) }"

definition unary_source :: "LirInst \<Rightarrow> LirOperand" where
  "unary_source inst = (if lir_uses inst = [] then def0 inst else use_at inst 0)"

definition exec_not :: "fp_eval \<Rightarrow> nat \<Rightarrow> LirInst \<Rightarrow> LirExecState \<Rightarrow> LirExecState option" where
  "exec_not fp w inst st = do {
     a \<leftarrow> read_op fp st (unary_source inst) w;
     write_op fp (def0 inst) (bv_unary fp BV_Not a w) True st }"

definition exec_neg :: "fp_eval \<Rightarrow> nat \<Rightarrow> LirInst \<Rightarrow> LirExecState \<Rightarrow> LirExecState option" where
  "exec_neg fp w inst st = do {
     a \<leftarrow> read_op fp st (unary_source inst) w;
     let res = bv_unary fp BV_Neg a w;
     st \<leftarrow> write_op fp (def0 inst) res True st;
     Some (st\<lparr>flags := set_sub_flags fp (bv_const 0 w) a res w, flags_defined := True\<rparr>) }"

text \<open>A shift by zero leaves the zero and sign flags; the others become unknown.\<close>

definition exec_shift :: "lir_env \<Rightarrow> BVOp \<Rightarrow> nat \<Rightarrow> LirInst \<Rightarrow> LirExecState \<Rightarrow> LirExecState option" where
  "exec_shift e sop w inst st = do {
     let fp = env_fp e;
     a \<leftarrow> get_bin_lhs fp inst w st; b \<leftarrow> get_bin_rhs fp inst w st;
     let res = bv_binary fp sop a b w;
     st \<leftarrow> write_op fp (def0 inst) res True st;
     let cnt = bv_binary fp BV_And b (bv_const (of_nat (w - 1)) w) w;
     let nz = bv_binary fp BV_Ne cnt (bv_const 0 w) 1;
     let new_zf = bv_binary fp BV_Eq res (bv_const 0 w) 1;
     let new_sf = bv_extract fp res (w - 1) (w - 1);
     Some (st\<lparr>flags := (flags st)\<lparr>flag_zf := bv_ite fp nz new_zf (flag_zf (flags st)),
         flag_sf := bv_ite fp nz new_sf (flag_sf (flags st)),
         flag_of := clob_var e Clob_of (clobber_seq st), flag_cf := clob_var e Clob_cf (clobber_seq st)\<rparr>,
       clobber_seq := clobber_seq st + 1\<rparr>) }"

definition exec_count :: "fp_eval \<Rightarrow> BVOp \<Rightarrow> nat \<Rightarrow> LirInst \<Rightarrow> LirExecState \<Rightarrow> LirExecState option" where
  "exec_count fp uop w inst st = do {
     a \<leftarrow> read_op fp st (use_at inst 0) w;
     write_op fp (def0 inst) (bv_unary fp uop a w) True st }"

definition exec_cdq :: "fp_eval \<Rightarrow> LirExecState \<Rightarrow> LirExecState" where
  "exec_cdq fp st =
     (let eax = bv_extract fp (64, gpr st 0) 31 0;
          sign = bv_sext fp (bv_extract fp eax 31 31) 31
      in st\<lparr>gpr := (gpr st)(2 := snd (bv_zext fp sign 32))\<rparr>)"

definition exec_cqo :: "fp_eval \<Rightarrow> LirExecState \<Rightarrow> LirExecState" where
  "exec_cqo fp st =
     (let sign = bv_sext fp (bv_extract fp (64, gpr st 0) 63 63) 63
      in st\<lparr>gpr := (gpr st)(2 := snd sign)\<rparr>)"

text \<open>The opcodes of the ALU group the executor does not know are unsupported.\<close>

definition unsupported :: "LirExecState \<Rightarrow> LirExecState" where
  "unsupported st = st\<lparr>supported := False\<rparr>"

fun exec_alu :: "lir_env \<Rightarrow> AluOp \<Rightarrow> LirInst \<Rightarrow> LirExecState \<Rightarrow> LirExecState option" where
  "exec_alu e L_Add inst st = exec_add (env_fp e) 64 inst st"
| "exec_alu e L_Adds inst st = exec_add (env_fp e) 64 inst st"
| "exec_alu e L_Add32 inst st = exec_add (env_fp e) 32 inst st"
| "exec_alu e L_Adds32 inst st = exec_add (env_fp e) 32 inst st"
| "exec_alu e L_Sub inst st = exec_sub (env_fp e) 64 inst st"
| "exec_alu e L_Subs inst st = exec_sub (env_fp e) 64 inst st"
| "exec_alu e L_Sub32 inst st = exec_sub (env_fp e) 32 inst st"
| "exec_alu e L_Subs32 inst st = exec_sub (env_fp e) 32 inst st"
| "exec_alu e L_Imul inst st = exec_imul e 64 inst st"
| "exec_alu e L_Imul32 inst st = exec_imul e 32 inst st"
| "exec_alu e L_And inst st = exec_logic (env_fp e) BV_And 64 inst st"
| "exec_alu e L_And32 inst st = exec_logic (env_fp e) BV_And 32 inst st"
| "exec_alu e L_Or inst st = exec_logic (env_fp e) BV_Or 64 inst st"
| "exec_alu e L_Or32 inst st = exec_logic (env_fp e) BV_Or 32 inst st"
| "exec_alu e L_Xor inst st = exec_logic (env_fp e) BV_Xor 64 inst st"
| "exec_alu e L_Xor32 inst st = exec_logic (env_fp e) BV_Xor 32 inst st"
| "exec_alu e L_Not inst st = exec_not (env_fp e) 64 inst st"
| "exec_alu e L_Not32 inst st = exec_not (env_fp e) 32 inst st"
| "exec_alu e L_Neg inst st = exec_neg (env_fp e) 64 inst st"
| "exec_alu e L_Neg32 inst st = exec_neg (env_fp e) 32 inst st"
| "exec_alu e L_Shl inst st = exec_shift e BV_Shl 64 inst st"
| "exec_alu e L_Shl32 inst st = exec_shift e BV_Shl 32 inst st"
| "exec_alu e L_Shr inst st = exec_shift e BV_LShr 64 inst st"
| "exec_alu e L_Shr32 inst st = exec_shift e BV_LShr 32 inst st"
| "exec_alu e L_Sar inst st = exec_shift e BV_AShr 64 inst st"
| "exec_alu e L_Sar32 inst st = exec_shift e BV_AShr 32 inst st"
| "exec_alu e L_Popcnt inst st = exec_count (env_fp e) BV_Popcnt 64 inst st"
| "exec_alu e L_Popcnt32 inst st = exec_count (env_fp e) BV_Popcnt 32 inst st"
| "exec_alu e L_Lzcnt inst st = exec_count (env_fp e) BV_Clz 64 inst st"
| "exec_alu e L_Lzcnt32 inst st = exec_count (env_fp e) BV_Clz 32 inst st"
| "exec_alu e L_Tzcnt inst st = exec_count (env_fp e) BV_Ctz 64 inst st"
| "exec_alu e L_Tzcnt32 inst st = exec_count (env_fp e) BV_Ctz 32 inst st"
| "exec_alu e L_Cdq inst st = Some (exec_cdq (env_fp e) st)"
| "exec_alu e L_Cqo inst st = Some (exec_cqo (env_fp e) st)"
| "exec_alu e _ inst st = Some (unsupported st)"

definition exec_compare :: "fp_eval \<Rightarrow> nat \<Rightarrow> LirInst \<Rightarrow> LirExecState \<Rightarrow> LirExecState option" where
  "exec_compare fp w inst st = do {
     a \<leftarrow> read_op fp st (use_at inst 0) w; b \<leftarrow> read_op fp st (use_at inst 1) w;
     Some (st\<lparr>flags := set_sub_flags fp a b (bv_binary fp BV_Sub a b w) w, flags_defined := True\<rparr>) }"

definition exec_bit_test :: "fp_eval \<Rightarrow> nat \<Rightarrow> LirInst \<Rightarrow> LirExecState \<Rightarrow> LirExecState option" where
  "exec_bit_test fp w inst st = do {
     a \<leftarrow> read_op fp st (use_at inst 0) w; b \<leftarrow> read_op fp st (use_at inst 1) w;
     Some (st\<lparr>flags := set_logic_flags fp (bv_binary fp BV_And a b w) w, flags_defined := True\<rparr>) }"

definition exec_setcc :: "fp_eval \<Rightarrow> LirInst \<Rightarrow> LirExecState \<Rightarrow> LirExecState option" where
  "exec_setcc fp inst st =
     write_op fp (def0 inst) (bv_zext fp (eval_condition fp (flags st) (lir_condition inst)) 7) False st"

definition exec_cmovcc :: "fp_eval \<Rightarrow> LirInst \<Rightarrow> LirExecState \<Rightarrow> LirExecState option" where
  "exec_cmovcc fp inst st = do {
     let w = (if operand_size (def0 inst) = 4 then 32 else 64);
     f_val \<leftarrow> read_op fp st (def0 inst) w;
     t_val \<leftarrow> read_op fp st (last (lir_uses inst)) w;
     write_op fp (def0 inst) (bv_ite fp (eval_condition fp (flags st) (lir_condition inst)) t_val f_val) True st }"

fun exec_test :: "fp_eval \<Rightarrow> TestOp \<Rightarrow> LirInst \<Rightarrow> LirExecState \<Rightarrow> LirExecState option" where
  "exec_test fp L_Cmp inst st = exec_compare fp 64 inst st"
| "exec_test fp L_Cmp32 inst st = exec_compare fp 32 inst st"
| "exec_test fp L_Test inst st = exec_bit_test fp 64 inst st"
| "exec_test fp L_Test32 inst st = exec_bit_test fp 32 inst st"
| "exec_test fp L_Setcc inst st = exec_setcc fp inst st"
| "exec_test fp L_Cmovcc inst st = exec_cmovcc fp inst st"

text \<open>Address computation, as \<open>lea\<close> uses it.\<close>

fun scale_value :: "LirScale \<Rightarrow> u64" where
  "scale_value Scale1 = 1" | "scale_value Scale2 = 2" | "scale_value Scale4 = 4" | "scale_value Scale8 = 8"

definition mem_base :: "LirExecState \<Rightarrow> LirMem \<Rightarrow> u64" where
  "mem_base st m = (case base_preg m of
      Some p \<Rightarrow> if reg_code p < 16 then gpr st (unat (reg_code p))
        else (case base_vreg m of Some v \<Rightarrow> vregs st (vreg_id v) | None \<Rightarrow> 0)
    | None \<Rightarrow> (case base_vreg m of Some v \<Rightarrow> vregs st (vreg_id v) | None \<Rightarrow> 0))"

definition scaled_index :: "fp_eval \<Rightarrow> LirMem \<Rightarrow> u64 \<Rightarrow> u64" where
  "scaled_index fp m idx = (if scale_value (mem_scale m) > 1
     then snd (bv_binary fp BV_Mul (64, idx) (bv_const (scale_value (mem_scale m)) 64) 64) else idx)"

definition mem_index :: "LirExecState \<Rightarrow> LirMem \<Rightarrow> u64 option" where
  "mem_index st m = (case index_preg m of
      Some p \<Rightarrow> if reg_code p < 16 then Some (gpr st (unat (reg_code p)))
        else map_option (\<lambda>v. vregs st (vreg_id v)) (index_vreg m)
    | None \<Rightarrow> map_option (\<lambda>v. vregs st (vreg_id v)) (index_vreg m))"

definition eval_mem_addr :: "fp_eval \<Rightarrow> LirExecState \<Rightarrow> LirMem \<Rightarrow> bv" where
  "eval_mem_addr fp st m =
     (let addr = (64, mem_base st m);
          addr = (case mem_index st m of None \<Rightarrow> addr
                  | Some idx \<Rightarrow> bv_binary fp BV_Add addr (64, scaled_index fp m idx) 64)
      in if mem_disp m \<noteq> 0 then bv_binary fp BV_Add addr (bv_const (scast (mem_disp m)) 64) 64 else addr)"

definition exec_lea :: "fp_eval \<Rightarrow> LirInst \<Rightarrow> LirExecState \<Rightarrow> LirExecState option" where
  "exec_lea fp inst st =
     (if lir_defs inst = [] \<or> lir_uses inst = [] then Some st
      else let put = (\<lambda>addr. write_op fp (def0 inst)
                 (if operand_size (def0 inst) = 4 then bv_extract fp addr 31 0 else addr) True st)
           in case use_at inst 0 of
             O_Mem m _ \<Rightarrow> put (eval_mem_addr fp st m)
           | O_SpillSlot s _ \<Rightarrow>
               put (bv_binary fp BV_Add (64, gpr st 5) (bv_const (word_of_int (- 8 * (sint s + 1))) 64) 64)
           | O_LocalSlot s _ \<Rightarrow> put (bv_binary fp BV_Add (64, gpr st 5) (bv_const (scast s) 64) 64)
           | _ \<Rightarrow> Some st)"

text \<open>A parallel copy reads every source before it writes a destination.\<close>

definition is_gpr_operand :: "LirOperand \<Rightarrow> bool" where
  "is_gpr_operand op = (case op of O_PReg p _ \<Rightarrow> preg_is_gpr p | _ \<Rightarrow> False)"

definition is_spill_operand :: "LirOperand \<Rightarrow> bool" where
  "is_spill_operand op = (case op of O_SpillSlot _ _ \<Rightarrow> True | _ \<Rightarrow> False)"

definition copy_width :: "LirOperand \<Rightarrow> LirOperand \<Rightarrow> nat" where
  "copy_width dst src = (if is_spill_operand dst \<and> is_gpr_operand src then 64
     else if operand_size dst = 4 \<or> operand_size src = 4 then 32 else 64)"

fun read_sources :: "fp_eval \<Rightarrow> LirExecState \<Rightarrow> (LirOperand \<times> LirOperand) list \<Rightarrow> (LirOperand \<times> bv) list option" where
  "read_sources fp st [] = Some []"
| "read_sources fp st ((dst, src) # ps) = do {
     v \<leftarrow> read_op fp st src (copy_width dst src);
     rest \<leftarrow> read_sources fp st ps;
     Some ((dst, v) # rest) }"

fun write_pending :: "fp_eval \<Rightarrow> (LirOperand \<times> bv) list \<Rightarrow> LirExecState \<Rightarrow> LirExecState option" where
  "write_pending fp [] st = Some st"
| "write_pending fp ((dst, v) # ps) st = do { st \<leftarrow> write_op fp dst v True st; write_pending fp ps st }"

definition exec_parallel_copy :: "fp_eval \<Rightarrow> LirInst \<Rightarrow> LirExecState \<Rightarrow> LirExecState option" where
  "exec_parallel_copy fp inst st = do {
     pending \<leftarrow> read_sources fp st (zip (lir_defs inst) (lir_uses inst));
     write_pending fp pending st }"

text \<open>Scalar floating point: the operations are the parameter's.\<close>

definition exec_fp_move :: "fp_eval \<Rightarrow> nat \<Rightarrow> LirInst \<Rightarrow> LirExecState \<Rightarrow> LirExecState option" where
  "exec_fp_move fp w inst st =
     (if lir_defs inst = [] \<or> lir_uses inst = [] then Some st
      else do { v \<leftarrow> read_op fp st (use_at inst 0) w; write_op fp (def0 inst) v True st })"

definition exec_fp_binary :: "fp_eval \<Rightarrow> BVFpOp \<Rightarrow> nat \<Rightarrow> LirInst \<Rightarrow> LirExecState \<Rightarrow> LirExecState option" where
  "exec_fp_binary fp fop w inst st = do {
     a \<leftarrow> get_bin_lhs fp inst w st; b \<leftarrow> get_bin_rhs fp inst w st;
     write_op fp (def0 inst) (bv_binary fp (BV_Fp fop) a b w) True st }"

definition exec_fp_unary :: "fp_eval \<Rightarrow> BVFpOp \<Rightarrow> LirOperand \<Rightarrow> nat \<Rightarrow> nat \<Rightarrow> LirInst \<Rightarrow> LirExecState \<Rightarrow> LirExecState option" where
  "exec_fp_unary fp fop src src_w dst_w inst st = do {
     a \<leftarrow> read_op fp st src src_w;
     write_op fp (def0 inst) (bv_unary fp (BV_Fp fop) a dst_w) True st }"

definition exec_ucomi :: "fp_eval \<Rightarrow> nat \<Rightarrow> LirInst \<Rightarrow> LirExecState \<Rightarrow> LirExecState option" where
  "exec_ucomi fp w inst st = do {
     a \<leftarrow> read_op fp st (use_at inst 0) w; b \<leftarrow> read_op fp st (use_at inst 1) w;
     let unord = bv_binary fp BV_Or (bv_unary fp BV_Not (bv_binary fp (BV_Fp BV_FEq) a a 1) 1)
           (bv_unary fp BV_Not (bv_binary fp (BV_Fp BV_FEq) b b 1) 1) 1;
     let eq = bv_binary fp (BV_Fp BV_FEq) a b 1;
     let lt = bv_binary fp (BV_Fp BV_FLt) a b 1;
     Some (st\<lparr>flags := \<lparr>flag_zf = bv_binary fp BV_Or unord eq 1, flag_sf = bv_const 0 1, flag_of = bv_const 0 1,
         flag_cf = bv_binary fp BV_Or unord lt 1, flag_pf = unord\<rparr>, flags_defined := True\<rparr>) }"

definition same_preg :: "LirOperand \<Rightarrow> LirOperand \<Rightarrow> bool" where
  "same_preg a b = (case a of O_PReg p _ \<Rightarrow> (case b of O_PReg q _ \<Rightarrow> p = q | _ \<Rightarrow> False) | _ \<Rightarrow> False)"

definition exec_vector_xor :: "fp_eval \<Rightarrow> LirInst \<Rightarrow> LirExecState \<Rightarrow> LirExecState option" where
  "exec_vector_xor fp inst st =
     (if lir_defs inst = [] then Some st else do {
        a \<leftarrow> get_bin_lhs fp inst 64 st; b \<leftarrow> get_bin_rhs fp inst 64 st;
        st \<leftarrow> write_op fp (def0 inst) (bv_binary fp BV_Xor a b 64) True st;
        Some (case def0 inst of
          O_PReg p _ \<Rightarrow> if preg_is_xmm p \<and> length (lir_uses inst) \<ge> 2 \<and> same_preg (use_at inst 0) (use_at inst 1)
            then st\<lparr>xmm_hi := (xmm_hi st)(unat (reg_code p) := 0)\<rparr> else st
        | _ \<Rightarrow> st) })"

definition exec_sse :: "fp_eval \<Rightarrow> SseOp \<Rightarrow> LirInst \<Rightarrow> LirExecState \<Rightarrow> LirExecState option" where
  "exec_sse fp op inst st = (let src = last (lir_uses inst); src0 = use_at inst 0 in case op of
      L_Movsd \<Rightarrow> exec_fp_move fp 64 inst st
    | L_Movss \<Rightarrow> exec_fp_move fp 32 inst st
    | L_Movq_gx \<Rightarrow> exec_fp_move fp 64 inst st
    | L_Movq_xg \<Rightarrow> exec_fp_move fp 64 inst st
    | L_Addsd \<Rightarrow> exec_fp_binary fp BV_FAdd 64 inst st
    | L_Addss \<Rightarrow> exec_fp_binary fp BV_FAdd 32 inst st
    | L_Subsd \<Rightarrow> exec_fp_binary fp BV_FSub 64 inst st
    | L_Subss \<Rightarrow> exec_fp_binary fp BV_FSub 32 inst st
    | L_Mulsd \<Rightarrow> exec_fp_binary fp BV_FMul 64 inst st
    | L_Mulss \<Rightarrow> exec_fp_binary fp BV_FMul 32 inst st
    | L_Divsd \<Rightarrow> exec_fp_binary fp BV_FDiv 64 inst st
    | L_Divss \<Rightarrow> exec_fp_binary fp BV_FDiv 32 inst st
    | L_Minsd \<Rightarrow> exec_fp_binary fp BV_FMin 64 inst st
    | L_Minss \<Rightarrow> exec_fp_binary fp BV_FMin 32 inst st
    | L_Maxsd \<Rightarrow> exec_fp_binary fp BV_FMax 64 inst st
    | L_Maxss \<Rightarrow> exec_fp_binary fp BV_FMax 32 inst st
    | L_Sqrtsd \<Rightarrow> exec_fp_unary fp BV_FSqrt src 64 64 inst st
    | L_Sqrtss \<Rightarrow> exec_fp_unary fp BV_FSqrt src 32 32 inst st
    | L_Floor64 \<Rightarrow> exec_fp_unary fp BV_FFloor src 64 64 inst st
    | L_Floor32 \<Rightarrow> exec_fp_unary fp BV_FFloor src 32 32 inst st
    | L_Ceil64 \<Rightarrow> exec_fp_unary fp BV_FCeil src 64 64 inst st
    | L_Ceil32 \<Rightarrow> exec_fp_unary fp BV_FCeil src 32 32 inst st
    | L_Round64 \<Rightarrow> exec_fp_unary fp BV_FRound src 64 64 inst st
    | L_Round32 \<Rightarrow> exec_fp_unary fp BV_FRound src 32 32 inst st
    | L_Fabs64 \<Rightarrow> exec_fp_unary fp BV_FAbs src 64 64 inst st
    | L_Fabs32 \<Rightarrow> exec_fp_unary fp BV_FAbs src 32 32 inst st
    | L_Fneg \<Rightarrow> exec_fp_unary fp BV_FNeg src 64 64 inst st
    | L_Fneg32 \<Rightarrow> exec_fp_unary fp BV_FNeg src 32 32 inst st
    | L_Cvtsi2sd \<Rightarrow> exec_fp_unary fp BV_SiToFp src0 64 64 inst st
    | L_Cvtsi2sd32 \<Rightarrow> exec_fp_unary fp BV_SiToFp src0 32 64 inst st
    | L_Cvtsi2ss \<Rightarrow> exec_fp_unary fp BV_SiToFp src0 64 32 inst st
    | L_Cvtsi2ss32 \<Rightarrow> exec_fp_unary fp BV_SiToFp src0 32 32 inst st
    | L_Cvttsd2si \<Rightarrow> exec_fp_unary fp BV_FpToSi src0 64 64 inst st
    | L_Cvttsd2si32 \<Rightarrow> exec_fp_unary fp BV_FpToSi src0 64 32 inst st
    | L_Cvttss2si \<Rightarrow> exec_fp_unary fp BV_FpToSi src0 32 64 inst st
    | L_Cvttss2si32 \<Rightarrow> exec_fp_unary fp BV_FpToSi src0 32 32 inst st
    | L_Cvtsd2ss \<Rightarrow> exec_fp_unary fp BV_FpTrunc src0 64 32 inst st
    | L_Cvtss2sd \<Rightarrow> exec_fp_unary fp BV_FpExt src0 32 64 inst st
    | L_Ucomisd \<Rightarrow> exec_ucomi fp 64 inst st
    | L_Ucomiss \<Rightarrow> exec_ucomi fp 32 inst st
    | L_Xorpd \<Rightarrow> exec_vector_xor fp inst st)"

definition exec_simd :: "fp_eval \<Rightarrow> SimdOp \<Rightarrow> LirInst \<Rightarrow> LirExecState \<Rightarrow> LirExecState option" where
  "exec_simd fp op inst st = (case op of
      L_Movd_gx \<Rightarrow> exec_fp_move fp 32 inst st
    | L_Movd_xg \<Rightarrow> exec_fp_move fp 32 inst st
    | L_Movaps \<Rightarrow> exec_fp_move fp 64 inst st
    | L_Movups \<Rightarrow> exec_fp_move fp 64 inst st
    | L_Xorps \<Rightarrow> exec_vector_xor fp inst st
    | L_Pxor \<Rightarrow> exec_vector_xor fp inst st
    | _ \<Rightarrow> Some (unsupported st))"

text \<open>Control flow: the first branch is the taken one, a jump after it the fall-through.\<close>

definition exec_flow :: "fp_eval \<Rightarrow> FlowOp \<Rightarrow> LirInst \<Rightarrow> LirExecState \<Rightarrow> LirExecState option" where
  "exec_flow fp op inst st = (case op of
      L_Jmp \<Rightarrow> Some (case use_at inst 0 of
          O_Label l \<Rightarrow> if \<not> has_branch st
            then st\<lparr>has_branch := True, branch_taken := bv_const 1 1, taken_label := l\<rparr>
            else st\<lparr>fallthrough_label := l\<rparr>
        | _ \<Rightarrow> st)
    | L_Jcc \<Rightarrow> Some (case use_at inst 0 of
          O_Label l \<Rightarrow> st\<lparr>has_branch := True, branch_taken := eval_condition fp (flags st) (lir_condition inst),
            taken_label := l\<rparr>
        | _ \<Rightarrow> st)
    | L_Ret \<Rightarrow> Some st
    | L_Lea \<Rightarrow> exec_lea fp inst st
    | L_Push \<Rightarrow> None
    | L_Pop \<Rightarrow> None
    | _ \<Rightarrow> Some (unsupported st))"

definition exec_inst :: "lir_env \<Rightarrow> LirInst \<Rightarrow> LirExecState \<Rightarrow> LirExecState option" where
  "exec_inst e inst st = (case lir_opcode inst of
      L_Nop \<Rightarrow> Some st
    | L_KeepAlive \<Rightarrow> Some st
    | LMove op \<Rightarrow> exec_move (env_fp e) op inst st
    | LAlu op \<Rightarrow> exec_alu e op inst st
    | LTest op \<Rightarrow> exec_test (env_fp e) op inst st
    | LSse op \<Rightarrow> exec_sse (env_fp e) op inst st
    | LSimd op \<Rightarrow> exec_simd (env_fp e) op inst st
    | LAvx op \<Rightarrow> (if op = L_Vmovaps \<or> op = L_Vmovups then exec_fp_move (env_fp e) 64 inst st else Some (unsupported st))
    | LVex _ \<Rightarrow> Some (unsupported st)
    | LFlow op \<Rightarrow> exec_flow (env_fp e) op inst st
    | LRuntime op \<Rightarrow> (if op = L_ParallelCopy then exec_parallel_copy (env_fp e) inst st else Some (unsupported st)))"

fun execute_lir :: "lir_env \<Rightarrow> LirInst list \<Rightarrow> LirExecState \<Rightarrow> LirExecState option" where
  "execute_lir e [] st = Some st"
| "execute_lir e (i # is) st = (case exec_inst e i st of
      None \<Rightarrow> None
    | Some st' \<Rightarrow> if supported st' then execute_lir e is st' else Some st')"

end
