(* ===== verification/Div_Magic.thy ===== *)
theory Div_Magic
  imports Word_Semantics
begin

text \<open>
  Signed 64-bit division by a constant as a multiplication (\<open>include/brass/codegen/div_magic.hpp\<close>).
  The search for the multiplier runs in wrapping 64-bit arithmetic and has no bound written in
  it; it is a partial function whose value is \<^const>\<open>None\<close> where it does not return.  The
  theorems show that it returns for every divisor the code takes, without a wrap-around on the
  way, and that multiplying by its result divides every dividend exactly.
\<close>

section \<open>The search\<close>

record SignedDivMagic =
  multiplier :: i64
  magic_shift :: nat

definition takes_signed_div_magic :: "i64 \<Rightarrow> bool" where
  "takes_signed_div_magic d = (if sint d < 3 then False else (d AND (d - 1)) \<noteq> 0)"

text \<open>The loop's variables: \<open>p\<close>, \<open>q1\<close>, \<open>r1\<close>, \<open>q2\<close> and \<open>r2\<close>; \<open>delta\<close> is recomputed from \<open>r2\<close>.\<close>

type_synonym magic_state = "nat \<times> u64 \<times> u64 \<times> u64 \<times> u64"

definition magic_body :: "u64 \<Rightarrow> u64 \<Rightarrow> magic_state \<Rightarrow> magic_state" where
  "magic_body ad anc = (\<lambda>(p, q1, r1, q2, r2).
     let p = p + 1;
         q1 = 2 * q1;
         r1 = 2 * r1;
         (q1, r1) = (if r1 \<ge> anc then (q1 + 1, r1 - anc) else (q1, r1));
         q2 = 2 * q2;
         r2 = 2 * r2;
         (q2, r2) = (if r2 \<ge> ad then (q2 + 1, r2 - ad) else (q2, r2))
     in (p, q1, r1, q2, r2))"

definition magic_continues :: "u64 \<Rightarrow> magic_state \<Rightarrow> bool" where
  "magic_continues ad = (\<lambda>(p, q1, r1, q2, r2).
     let delta = ad - r2 in q1 < delta \<or> (q1 = delta \<and> r1 = 0))"

partial_function (option) magic_loop :: "u64 \<Rightarrow> u64 \<Rightarrow> magic_state \<Rightarrow> magic_state option" where
  "magic_loop ad anc s = (let s' = magic_body ad anc s in
     if magic_continues ad s' then magic_loop ad anc s' else Some s')"

definition signed_div_magic64 :: "i64 \<Rightarrow> SignedDivMagic option" where
  "signed_div_magic64 d =
     (let two63 = 0x8000000000000000 :: u64;
          ad = d;
          t = two63;
          anc = t - 1 - t mod ad;
          q1 = two63 div anc;
          r1 = two63 - q1 * anc;
          q2 = two63 div ad;
          r2 = two63 - q2 * ad
      in map_option (\<lambda>(p, q1, r1, q2, r2). \<lparr>multiplier = q2 + 1, magic_shift = p - 64\<rparr>)
           (magic_loop ad anc (63, q1, r1, q2, r2)))"

section \<open>The identity of the header comment\<close>

text \<open>
  The sequence the multiplier is for: the high half of the signed product, the dividend added
  back when the multiplier is negative as an \<open>int64_t\<close>, an arithmetic shift, and the dividend's
  sign bit.
\<close>

definition smulh :: "i64 \<Rightarrow> i64 \<Rightarrow> i64" where
  "smulh a b = word_of_int ((sint a * sint b) div 2 ^ 64)"

definition magic_quotient :: "SignedDivMagic \<Rightarrow> i64 \<Rightarrow> i64" where
  "magic_quotient mg n =
     (let t = smulh (multiplier mg) n;
          t = (if sint (multiplier mg) < 0 then t + n else t);
          t = signed_drop_bit (magic_shift mg) t
      in t + drop_bit 63 n)"

section \<open>Division by multiplication\<close>

text \<open>
  The arithmetic behind the identity, over the natural numbers: \<open>m\<close> over \<open>P\<close> approximates
  \<open>1 / D\<close> from above with error \<open>e\<close>, small enough for every dividend up to \<open>N\<close>.
\<close>

lemma remainder_bound:
  fixes D N nc e P k :: nat
  assumes nc: "nc + 1 = D * (N div D)" and e: "e * nc < P" and D: "2 \<le> D" "D \<le> N"
    and k: "k \<le> N" and not_last: "\<not> (k = N \<and> k mod D = D - 1)"
  shows "(k mod D) * P + k * e < D * P"
proof -
  let ?s = "k mod D"
  have s: "?s < D" using D by simp
  show ?thesis
  proof (cases "?s = D - 1")
    case True
    with not_last k have "k + 1 \<le> N" by simp
    have "k + 1 = D * (k div D + 1)"
      using True D mult_div_mod_eq [of D k] by simp
    moreover have "(k + 1) div D \<le> N div D" using \<open>k + 1 \<le> N\<close> by (rule div_le_mono)
    ultimately have "k + 1 \<le> nc + 1"
      unfolding nc using D by (metis mult_le_mono2 nonzero_mult_div_cancel_left not_numeral_le_zero)
    then have "k * e \<le> nc * e" by simp
    then have "k * e < P" using e by (simp only: mult.commute [of _ e])
    then have "?s * P + k * e < ?s * P + P" by simp
    also have "\<dots> = D * P" using True D by (metis Suc_diff_1 add.commute less_le_trans mult_Suc zero_less_numeral)
    finally show ?thesis .
  next
    case False
    with s have s2: "?s + 2 \<le> D" by simp
    have "D * (k div D) \<le> D * (N div D)" using k by (simp add: div_le_mono)
    then have "k \<le> nc + 1 + ?s" unfolding nc using mult_div_mod_eq [of D k] by linarith
    then have "k * e \<le> (nc + 1 + ?s) * e" by (rule mult_le_mono1)
    also have "\<dots> = nc * e + (?s + 1) * e" by algebra
    finally have ke: "k * e \<le> nc * e + (?s + 1) * e" .
    have "1 \<le> N div D" using D by (simp add: Suc_le_eq div_greater_zero_iff)
    then have "D \<le> nc + 1" unfolding nc by simp
    then have "(?s + 1) * e \<le> nc * e" using s2 by (intro mult_le_mono1) simp
    with ke e have "k * e < 2 * P" unfolding mult.commute [of e nc] by linarith
    then have "?s * P + k * e < (?s + 2) * P" by (simp add: algebra_simps)
    also have "\<dots> \<le> D * P" using s2 by (rule mult_le_mono1)
    finally show ?thesis .
  qed
qed

lemma scaled_product:
  fixes D P m e k :: nat
  assumes "m * D = P + e"
  shows "D * (m * k) = D * ((k div D) * P) + ((k mod D) * P + k * e)"
proof -
  have "D * (m * k) = m * D * k" by simp
  also have "\<dots> = k * P + k * e" unfolding assms by (simp add: algebra_simps)
  finally have "D * (m * k) = k * P + k * e" .
  moreover have "k * P = D * (k div D) * P + (k mod D) * P"
    by (metis distrib_right mult_div_mod_eq)
  ultimately show ?thesis by (simp add: ac_simps)
qed

text \<open>The product lies in the interval of length \<open>P\<close> that the quotient selects.\<close>

lemma product_interval:
  fixes D N nc e P k m :: nat
  assumes m: "m * D = P + e" and nc: "nc + 1 = D * (N div D)" and e: "e * nc < P" "0 < e"
    and D: "2 \<le> D" "D \<le> N" and k: "k \<le> N"
    and last: "N mod D = D - 1 \<longrightarrow> N * e \<le> P"
  shows "k div D * P \<le> m * k" "0 < k \<Longrightarrow> k div D * P < m * k"
    and "m * k \<le> (k div D + 1) * P" "k < N \<Longrightarrow> m * k < (k div D + 1) * P"
proof -
  let ?q = "k div D"
  note prod = scaled_product [OF m, of k]
  have upto: "D * (m * k) \<le> D * ((?q + 1) * P)"
  proof (cases "k = N \<and> k mod D = D - 1")
    case True
    then have "k * e \<le> P" using last by blast
    then have "(k mod D) * P + k * e \<le> (D - 1) * P + P" using True by (metis add_le_mono le_refl)
    also have "\<dots> = D * P" using D by (metis Suc_diff_1 add.commute less_le_trans mult_Suc zero_less_numeral)
    finally show ?thesis unfolding prod by (simp add: algebra_simps)
  next
    case False
    from remainder_bound [OF nc e(1) D k False] show ?thesis unfolding prod by (simp add: algebra_simps)
  qed
  have "D * (?q * P) \<le> D * (m * k)" unfolding prod by simp
  then show "?q * P \<le> m * k" using D by simp
  show "?q * P < m * k" if "0 < k"
  proof -
    have "0 < k * e" using that e by simp
    then have "D * (?q * P) < D * (m * k)" unfolding prod by simp
    then show ?thesis by simp
  qed
  from upto show "m * k \<le> (?q + 1) * P" using D by simp
  show "m * k < (?q + 1) * P" if "k < N"
  proof -
    from that have "(k mod D) * P + k * e < D * P"
      using remainder_bound [OF nc e(1) D k] by simp
    then have "D * (m * k) < D * ((?q + 1) * P)" unfolding prod by (simp add: algebra_simps)
    then show ?thesis by simp
  qed
qed

section \<open>The search returns the least exponent\<close>

lemma div_mod_unique: "r < A \<Longrightarrow> x = r + A * q \<Longrightarrow> x div A = q \<and> x mod A = r" for A x q r :: nat
  by simp

lemma double_div_mod:
  fixes A x :: nat
  assumes "0 < A"
  shows "2 * x div A = (if A \<le> 2 * (x mod A) then 2 * (x div A) + 1 else 2 * (x div A))
    \<and> 2 * x mod A = (if A \<le> 2 * (x mod A) then 2 * (x mod A) - A else 2 * (x mod A))"
proof -
  let ?r = "x mod A"
  have r: "?r < A" using assms by simp
  have "2 * x = 2 * (A * (x div A) + ?r)" by simp
  then have x: "2 * x = 2 * ?r + A * (2 * (x div A))" by (simp only: algebra_simps)
  show ?thesis
  proof (cases "A \<le> 2 * ?r")
    case True
    have "2 * x = (2 * ?r - A) + A * (2 * (x div A) + 1)"
      unfolding x distrib_left using True by linarith
    with div_mod_unique [of "2 * ?r - A" A "2 * x" "2 * (x div A) + 1"] r True show ?thesis by simp
  next
    case False
    with div_mod_unique [of "2 * ?r" A "2 * x" "2 * (x div A)"] x show ?thesis by simp
  qed
qed

lemma unat_double: "2 * unat w < 2 ^ 64 \<Longrightarrow> unat (2 * w :: u64) = 2 * unat w"
  by (simp add: unat_word_ariths)

lemma unat_Suc64: "unat w + 1 < 2 ^ 64 \<Longrightarrow> unat (w + 1 :: u64) = unat w + 1"
  by (simp add: unat_word_ariths)

text \<open>One doubling of a quotient and remainder, as both halves of the body do it.\<close>

lemma double_pair:
  fixes a q r :: u64
  assumes "0 < unat a" "unat a < 2 ^ 63" and "unat q = x div unat a" "unat r = x mod unat a"
    and "2 * (x div unat a) + 1 < 2 ^ 64"
  shows "\<exists>q' r'. (if a \<le> 2 * r then (2 * q + 1, 2 * r - a) else (2 * q, 2 * r)) = (q', r')
    \<and> unat q' = 2 * x div unat a \<and> unat r' = 2 * x mod unat a"
proof -
  have r: "unat (2 * r) = 2 * (x mod unat a)"
    using assms(1,2,4) mod_less_divisor [OF assms(1), of x] by (subst unat_double) simp_all
  have q: "unat (2 * q) = 2 * (x div unat a)" using assms(3,5) by (subst unat_double) simp_all
  have q1: "unat (2 * q + 1) = 2 * (x div unat a) + 1" using assms(5) q by (subst unat_Suc64) simp_all
  have le: "a \<le> 2 * r \<longleftrightarrow> unat a \<le> 2 * (x mod unat a)" by (simp add: word_le_nat_alt r)
  show ?thesis
  proof (cases "a \<le> 2 * r")
    case True
    then have "unat (2 * r - a) = 2 * (x mod unat a) - unat a" by (simp add: unat_sub r)
    with True le q1 double_div_mod [OF assms(1), of x] show ?thesis by simp
  next
    case False
    with le q r double_div_mod [OF assms(1), of x] show ?thesis by simp
  qed
qed

text \<open>The loop's variables at exponent \<open>p\<close>, and when the loop goes on from there.\<close>

definition magic_at :: "u64 \<Rightarrow> u64 \<Rightarrow> nat \<Rightarrow> magic_state \<Rightarrow> bool" where
  "magic_at ad anc p = (\<lambda>(p', q1, r1, q2, r2). p' = p
     \<and> unat q1 = 2 ^ p div unat anc \<and> unat r1 = 2 ^ p mod unat anc
     \<and> unat q2 = 2 ^ p div unat ad \<and> unat r2 = 2 ^ p mod unat ad)"

definition goes_on :: "nat \<Rightarrow> nat \<Rightarrow> nat \<Rightarrow> bool" where
  "goes_on D A p \<longleftrightarrow> 2 ^ p \<le> A * (D - 2 ^ p mod D)"

lemma magic_continues_iff:
  assumes "magic_at ad anc p s" and "0 < unat ad" "0 < unat anc"
  shows "magic_continues ad s \<longleftrightarrow> goes_on (unat ad) (unat anc) p"
proof -
  obtain q1 r1 q2 r2 where s: "s = (p, q1, r1, q2, r2)" and *: "unat q1 = 2 ^ p div unat anc"
    "unat r1 = 2 ^ p mod unat anc" "unat r2 = 2 ^ p mod unat ad"
    using assms(1) by (cases s) (auto simp: magic_at_def)
  let ?A = "unat anc" and ?d = "unat ad - 2 ^ p mod unat ad"
  have d: "unat (ad - r2) = ?d"
    using assms(2) * by (simp add: unat_sub word_le_nat_alt)
  have r0: "r1 = 0 \<longleftrightarrow> 2 ^ p mod ?A = 0" by (metis *(2) unat_0 unat_eq_zero)
  have x: "2 ^ p = ?A * (2 ^ p div ?A) + 2 ^ p mod ?A" by simp
  have "2 ^ p div ?A < ?d \<or> 2 ^ p div ?A = ?d \<and> 2 ^ p mod ?A = 0 \<longleftrightarrow> 2 ^ p \<le> ?A * ?d"
  proof (cases "2 ^ p div ?A" ?d rule: linorder_cases)
    case less
    then have "?A * (2 ^ p div ?A) + ?A \<le> ?A * ?d" by (metis Suc_leI add.commute mult_Suc_right mult_le_mono2)
    with x less mod_less_divisor [OF assms(3), of "2 ^ p"] show ?thesis by linarith
  next
    case equal
    with x show ?thesis by auto
  next
    case greater
    then have "?A * ?d < ?A * (2 ^ p div ?A)" using assms(3) by simp
    with x greater show ?thesis by linarith
  qed
  with d r0 * show ?thesis
    by (simp add: s magic_continues_def goes_on_def word_less_nat_alt word_unat_eq_iff)
qed

text \<open>One round: below the limits the code starts with, the body doubles the power of two.\<close>

definition magic_bounds :: "nat \<Rightarrow> nat \<Rightarrow> bool" where
  "magic_bounds D A \<longleftrightarrow> 3 \<le> D \<and> D < 2 ^ 63 \<and> 2 \<le> A \<and> A < 2 ^ 63"

lemma quotient_bound:
  fixes x A B :: nat
  assumes "x \<le> A * B" "B < 2 ^ 63" "0 < A"
  shows "2 * (x div A) + 1 < 2 ^ 64"
proof -
  have "x div A \<le> A * B div A" using assms(1) by (rule div_le_mono)
  also have "\<dots> = B" using assms(3) by simp
  finally show ?thesis using assms(2) by simp
qed

lemma goes_on_small:
  assumes "magic_bounds D A" and "p = 63 \<or> goes_on D A p"
  shows "2 * (2 ^ p div A) + 1 < 2 ^ 64" and "2 * (2 ^ p div D) + 1 < 2 ^ 64"
proof -
  have le: "2 ^ p \<le> A * D" if "p \<noteq> 63"
  proof -
    have "2 ^ p \<le> A * (D - 2 ^ p mod D)" using that assms(2) by (simp add: goes_on_def)
    also have "\<dots> \<le> A * D" by simp
    finally show ?thesis .
  qed
  have small: "2 * (2 ^ 63 div B) + 1 < (2 :: nat) ^ 64" if "2 \<le> B" for B
  proof -
    have "2 ^ 63 div B \<le> (2 :: nat) ^ 63 div 2" using that by (intro div_le_mono2) simp_all
    then show ?thesis by simp
  qed
  show "2 * (2 ^ p div A) + 1 < 2 ^ 64"
    using small [of A] quotient_bound [OF le, of] assms(1) by (cases "p = 63") (auto simp: magic_bounds_def)
  show "2 * (2 ^ p div D) + 1 < 2 ^ 64"
    using small [of D] quotient_bound [of "2 ^ p" D A] le assms(1)
    by (cases "p = 63") (auto simp: magic_bounds_def mult.commute)
qed

lemma magic_body_step:
  assumes "magic_bounds (unat ad) (unat anc)" and "magic_at ad anc p s"
    and "p = 63 \<or> goes_on (unat ad) (unat anc) p"
  shows "magic_at ad anc (p + 1) (magic_body ad anc s)"
proof -
  obtain q1 r1 q2 r2 where s: "s = (p, q1, r1, q2, r2)" and *: "unat q1 = 2 ^ p div unat anc"
    "unat r1 = 2 ^ p mod unat anc" "unat q2 = 2 ^ p div unat ad" "unat r2 = 2 ^ p mod unat ad"
    using assms(2) by (cases s) (auto simp: magic_at_def)
  from double_pair [of anc q1 "2 ^ p" r1] assms(1) * goes_on_small(1) [OF assms(1,3)]
  obtain q1' r1' where 1: "(if anc \<le> 2 * r1 then (2 * q1 + 1, 2 * r1 - anc) else (2 * q1, 2 * r1)) = (q1', r1')"
    "unat q1' = 2 * 2 ^ p div unat anc" "unat r1' = 2 * 2 ^ p mod unat anc"
    by (auto simp: magic_bounds_def)
  from double_pair [of ad q2 "2 ^ p" r2] assms(1) * goes_on_small(2) [OF assms(1,3)]
  obtain q2' r2' where 2: "(if ad \<le> 2 * r2 then (2 * q2 + 1, 2 * r2 - ad) else (2 * q2, 2 * r2)) = (q2', r2')"
    "unat q2' = 2 * 2 ^ p div unat ad" "unat r2' = 2 * 2 ^ p mod unat ad"
    by (auto simp: magic_bounds_def)
  show ?thesis unfolding s magic_body_def Let_def prod.case 1(1) 2(1)
    using 1 2 by (simp add: magic_at_def)
qed

text \<open>The loop ends by exponent 126, at the first one where it does not go on.\<close>

lemma magic_loop_returns:
  assumes b: "magic_bounds (unat ad) (unat anc)"
    and "magic_at ad anc p s" and "p = 63 \<or> goes_on (unat ad) (unat anc) p" and "p < 126"
  shows "\<exists>p' s'. magic_loop ad anc s = Some s' \<and> magic_at ad anc p' s' \<and> p < p' \<and> p' \<le> 126
    \<and> \<not> goes_on (unat ad) (unat anc) p' \<and> (\<forall>k. p < k \<and> k < p' \<longrightarrow> goes_on (unat ad) (unat anc) k)"
  using assms(2-)
proof (induction "126 - p" arbitrary: p s rule: less_induct)
  case less
  let ?D = "unat ad" and ?A = "unat anc" and ?s = "magic_body ad anc s"
  from magic_body_step [OF b less.prems(1,2)] have at: "magic_at ad anc (p + 1) ?s" .
  have pos: "0 < ?D" "0 < ?A" using b by (auto simp: magic_bounds_def)
  note c = magic_continues_iff [OF at pos]
  show ?case
  proof (cases "goes_on ?D ?A (p + 1)")
    case True
    have "p + 1 < 126"
    proof (rule ccontr)
      assume "\<not> p + 1 < 126"
      with less.prems(3) have "p + 1 = 126" by simp
      with True have "2 ^ 126 \<le> ?A * (?D - 2 ^ 126 mod ?D)" by (simp add: goes_on_def)
      also have "\<dots> \<le> ?A * ?D" by simp
      also have "\<dots> < 2 ^ 63 * 2 ^ 63" using b by (intro mult_strict_mono) (auto simp: magic_bounds_def)
      finally show False by simp
    qed
    then have "126 - (p + 1) < 126 - p" by simp
    from less.hyps [OF this at _ \<open>p + 1 < 126\<close>] True obtain p' s' where
      "magic_loop ad anc ?s = Some s'" "magic_at ad anc p' s'" "p + 1 < p'" "p' \<le> 126"
      "\<not> goes_on ?D ?A p'" "\<forall>k. p + 1 < k \<and> k < p' \<longrightarrow> goes_on ?D ?A k" by blast
    moreover from this(6) True have "\<forall>k. p < k \<and> k < p' \<longrightarrow> goes_on ?D ?A k"
      by (metis Suc_eq_plus1 Suc_lessI)
    moreover have "magic_loop ad anc s = magic_loop ad anc ?s"
      using c True by (subst magic_loop.simps) (simp add: Let_def)
    ultimately show ?thesis by (metis add_lessD1)
  next
    case False
    with c have "magic_loop ad anc s = Some ?s" by (subst magic_loop.simps) (simp add: Let_def)
    with at False less.prems(3) show ?thesis by (intro exI [of _ "p + 1"] exI [of _ ?s]) auto
  qed
qed

section \<open>What the search finds\<close>

text \<open>The exponent found: the least from 64 on where the error is small enough.\<close>

definition magic_exponent :: "nat \<Rightarrow> nat \<Rightarrow> nat \<Rightarrow> bool" where
  "magic_exponent D A p \<longleftrightarrow> 64 \<le> p \<and> p \<le> 126 \<and> \<not> goes_on D A p \<and> (\<forall>k. 64 \<le> k \<and> k < p \<longrightarrow> goes_on D A k)"

lemma divisor_range:
  assumes "takes_signed_div_magic d"
  shows "3 \<le> unat d" "unat d < 2 ^ 63" "sint d = int (unat d)"
proof -
  from assms have 3: "3 \<le> sint d" by (simp add: takes_signed_div_magic_def split: if_splits)
  then have "uint d = sint d" by (intro uint_of_non_negative) simp
  then show s: "sint d = int (unat d)" by simp
  from 3 show "3 \<le> unat d" unfolding s by linarith
  from sint_range64(2) [of d] have "unat d < 9223372036854775808" unfolding s by linarith
  then show "unat d < 2 ^ 63" by simp
qed

lemma magic_anc:
  fixes ad :: u64
  assumes "3 \<le> unat ad" "unat ad < 2 ^ 63"
  shows "unat (0x8000000000000000 - 1 - 0x8000000000000000 mod ad) + 1 = unat ad * (2 ^ 63 div unat ad)"
    and "magic_bounds (unat ad) (unat (0x8000000000000000 - 1 - 0x8000000000000000 mod ad))"
proof -
  let ?D = "unat ad"
  have m: "unat (0x8000000000000000 mod ad) = 2 ^ 63 mod ?D" by (simp add: unat_mod)
  have lt: "2 ^ 63 mod ?D < ?D" using assms by simp
  have le: "0x8000000000000000 mod ad \<le> 0x8000000000000000 - 1"
    using lt assms(2) by (simp add: word_le_nat_alt m)
  have a: "unat (0x8000000000000000 - 1 - 0x8000000000000000 mod ad) = 2 ^ 63 - 1 - 2 ^ 63 mod ?D"
    using m by (subst unat_sub [OF le]) simp
  have "2 ^ 63 = ?D * (2 ^ 63 div ?D) + 2 ^ 63 mod ?D" by simp
  then show e: "unat (0x8000000000000000 - 1 - 0x8000000000000000 mod ad) + 1 = ?D * (2 ^ 63 div ?D)"
    using a lt assms(2) by linarith
  have "1 \<le> 2 ^ 63 div ?D" using assms by (simp add: Suc_le_eq div_greater_zero_iff)
  then have "?D \<le> ?D * (2 ^ 63 div ?D)" by simp
  with e a assms show "magic_bounds ?D (unat (0x8000000000000000 - 1 - 0x8000000000000000 mod ad))"
    unfolding magic_bounds_def by linarith
qed

lemma unat_remainder: "unat (x - x div a * a :: u64) = unat x mod unat a"
proof -
  have "x div a * a = x - x mod a" by (metis add_diff_cancel_right' div_mult_mod_eq)
  then show ?thesis by (simp add: unat_mod)
qed

lemma signed_div_magic64_found:
  assumes "takes_signed_div_magic d"
  obtains A p mg where "signed_div_magic64 d = Some mg" and "A + 1 = unat d * (2 ^ 63 div unat d)"
    and "A < 2 ^ 63" and "magic_exponent (unat d) A p" and "magic_shift mg = p - 64"
    and "unat (multiplier mg) = 2 ^ p div unat d + 1"
proof -
  let ?D = "unat d" and ?t = "0x8000000000000000 :: u64"
  let ?anc = "?t - 1 - ?t mod d"
  let ?s = "(63, ?t div ?anc, ?t - ?t div ?anc * ?anc, ?t div d, ?t - ?t div d * d)"
  note D = divisor_range [OF assms]
  note anc = magic_anc [OF D(1,2)]
  have "magic_at d ?anc 63 ?s" by (simp add: magic_at_def unat_remainder unat_div)
  from magic_loop_returns [OF anc(2) this] obtain p s' where
    l: "magic_loop d ?anc ?s = Some s'" and at: "magic_at d ?anc p s'" and p: "63 < p" "p \<le> 126"
    and no: "\<not> goes_on ?D (unat ?anc) p" and yes: "\<forall>k. 63 < k \<and> k < p \<longrightarrow> goes_on ?D (unat ?anc) k"
    by auto
  obtain q1 r1 q2 r2 where s': "s' = (p, q1, r1, q2, r2)" and q2: "unat q2 = 2 ^ p div ?D"
    using at by (cases s') (auto simp: magic_at_def)
  have "2 ^ p div ?D + 1 < 2 ^ 64"
  proof (cases "p = 64")
    case True
    have "2 ^ 64 div ?D \<le> 2 ^ 64 div 3" using D by (intro div_le_mono2) simp_all
    with True show ?thesis by simp
  next
    case False
    with p yes have "goes_on ?D (unat ?anc) (p - 1)" by simp
    then have "2 ^ (p - 1) \<le> unat ?anc * (?D - 2 ^ (p - 1) mod ?D)" by (simp add: goes_on_def)
    also have "\<dots> \<le> unat ?anc * ?D" by simp
    finally have "2 * 2 ^ (p - 1) \<le> ?D * (2 * unat ?anc)" by (simp add: mult.commute)
    moreover have "2 * 2 ^ (p - 1) = (2 :: nat) ^ p" using p by (metis less_nat_zero_code not_gr_zero power_eq_if)
    ultimately have "2 ^ p \<le> ?D * (2 * unat ?anc)" by (simp only:)
    then have "2 ^ p div ?D \<le> ?D * (2 * unat ?anc) div ?D" by (rule div_le_mono)
    also have "\<dots> = 2 * unat ?anc" using D by (intro nonzero_mult_div_cancel_left) simp
    finally show ?thesis using anc(2) by (simp add: magic_bounds_def)
  qed
  then have "unat (q2 + 1) = 2 ^ p div ?D + 1" using q2 by (subst unat_Suc64) simp_all
  moreover have "signed_div_magic64 d = Some \<lparr>multiplier = q2 + 1, magic_shift = p - 64\<rparr>"
    unfolding signed_div_magic64_def Let_def l by (simp add: s')
  moreover have "magic_exponent ?D (unat ?anc) p" using p no yes by (auto simp: magic_exponent_def)
  ultimately show thesis using that [of _ "unat ?anc" p] anc by (auto simp: magic_bounds_def)
qed

text \<open>
  When \<open>2\<^sup>6\<^sup>3 mod D = D - 1\<close>, the one dividend \<open>- 2\<^sup>6\<^sup>3\<close> is past the last full interval; the search
  then stops at 64 with error 2, which is just small enough.
\<close>

lemma last_dividend:
  fixes D A :: nat
  assumes "magic_exponent D A p" and "A + 1 = D * (2 ^ 63 div D)" and "3 \<le> D" and "2 ^ 63 mod D = D - 1"
  shows "2 ^ 63 * (D - 2 ^ p mod D) \<le> 2 ^ p"
proof -
  have "2 ^ 64 mod D = 2 * 2 ^ 63 mod D" by simp
  also have "\<dots> = D - 2" using double_div_mod [of D "2 ^ 63"] assms(3,4) by auto
  finally have r: "2 ^ 64 mod D = D - 2" .
  have "D * (2 ^ 63 div D) \<le> 2 ^ 63" by simp
  with assms(2) have "A + 1 \<le> 2 ^ 63" by simp
  then have "\<not> goes_on D A 64" using r assms(3) by (simp add: goes_on_def)
  with assms(1) have "p = 64" unfolding magic_exponent_def by (metis le_neq_implies_less order_refl)
  with r assms(3) show ?thesis by simp
qed

section \<open>The quotient is exact\<close>

lemma uint_of_negative: "sint (n :: i64) < 0 \<Longrightarrow> uint n = sint n + 2 ^ 64"
  using sint_as_uint [of n] by (simp split: if_splits)

lemma high_product:
  "(if sint M < 0 then smulh M n + n else smulh M n) = word_of_int (uint M * sint n div 2 ^ 64)"
proof (cases "sint M < 0")
  case True
  from uint_of_negative [OF this] have M: "sint M = uint M - 2 ^ 64" by simp
  have "sint M * sint n = uint M * sint n + (- sint n) * 2 ^ 64" unfolding M by (simp add: algebra_simps)
  then have "sint M * sint n div 2 ^ 64 = uint M * sint n div 2 ^ 64 - sint n"
    using div_mult_self1 [of "2 ^ 64 :: int" "uint M * sint n" "- sint n"] by simp
  then have "smulh M n = word_of_int (uint M * sint n div 2 ^ 64) - n"
    by (simp add: smulh_def)
  with True show ?thesis by simp
next
  case False
  then show ?thesis by (simp add: smulh_def uint_of_non_negative)
qed

lemma high_product_range:
  fixes n :: i64
  assumes "0 \<le> m" "m < 2 ^ 64"
  shows "INT64_MIN \<le> m * sint n div 2 ^ 64" "m * sint n div 2 ^ 64 \<le> INT64_MAX"
proof -
  let ?n = "sint n"
  have "min 0 ?n * 2 ^ 64 \<le> m * ?n"
  proof (cases "0 \<le> ?n")
    case True
    then show ?thesis using assms by simp
  next
    case False
    then have "2 ^ 64 * ?n \<le> m * ?n" using assms by (intro mult_right_mono_neg) simp_all
    with False show ?thesis by simp
  qed
  then have "min 0 ?n * 2 ^ 64 div 2 ^ 64 \<le> m * ?n div 2 ^ 64" by (rule zdiv_mono1) simp
  then have "min 0 ?n \<le> m * ?n div 2 ^ 64" by simp
  with sint_range64(1) [of n] show "INT64_MIN \<le> m * ?n div 2 ^ 64" by linarith
  have "m * ?n \<le> 2 ^ 64 * max 0 ?n"
  proof (cases "0 \<le> ?n")
    case True
    then show ?thesis using assms by (intro mult_mono) simp_all
  next
    case False
    then show ?thesis using assms by (simp add: mult_nonneg_nonpos)
  qed
  then have "m * ?n div 2 ^ 64 \<le> 2 ^ 64 * max 0 ?n div 2 ^ 64" by (rule zdiv_mono1) simp
  with sint_range64(2) [of n] show "m * ?n div 2 ^ 64 \<le> INT64_MAX" by simp
qed

lemma shifted_product:
  fixes n M :: i64
  shows "signed_drop_bit sh (if sint M < 0 then smulh M n + n else smulh M n)
    = word_of_int (uint M * sint n div 2 ^ (64 + sh))"
proof -
  have "uint M < 2 ^ 64" using uint_bounded [of M] by simp
  note r = high_product_range [of "uint M" n, OF _ this]
  have "sint (signed_drop_bit sh (word_of_int (uint M * sint n div 2 ^ 64) :: i64))
      = uint M * sint n div 2 ^ 64 div 2 ^ sh"
    using r by (simp add: sint_signed_drop_bit_eq drop_bit_eq_div sint_of_int64)
  also have "\<dots> = uint M * sint n div 2 ^ (64 + sh)"
    by (simp add: zdiv_zmult2_eq power_add)
  finally show ?thesis unfolding high_product by (metis word_of_int_sint)
qed

lemma floor_of_interval:
  fixes x P q :: int
  assumes "0 < P" "q * P \<le> x" "x < (q + 1) * P"
  shows "x div P = q"
  by (rule int_div_pos_eq [of _ _ _ "x - q * P"]) (use assms in \<open>simp_all add: algebra_simps\<close>)

lemma sign_bit: "drop_bit 63 (n :: i64) = (if sint n < 0 then 1 else 0)"
proof -
  have "uint (drop_bit 63 n) = uint n div 2 ^ 63" by (simp add: drop_bit_eq_div uint_div)
  also have "\<dots> = (if sint n < 0 then 1 else 0)"
  proof (cases "sint n < 0")
    case True
    with uint_of_negative [of n] sint_range64 [of n] show ?thesis
      by (simp add: floor_of_interval [of "2 ^ 63" 1])
  next
    case False
    with uint_of_non_negative [of n] sint_range64 [of n] show ?thesis
      by (simp add: floor_of_interval [of "2 ^ 63" 0])
  qed
  finally show ?thesis by (simp add: word_uint_eq_iff)
qed

lemma sdiv_nat: "int k sdiv int D = int (k div D)" "(- int k) sdiv int D = - int (k div D)"
  by (cases "k = 0"; cases "D = 0"; simp add: signed_divide_int_def zdiv_int)+

text \<open>Comparing scaled naturals as integers.\<close>

lemma scaled_int:
  fixes q m k :: nat
  shows "q * 2 ^ p \<le> m * k \<longleftrightarrow> int q * 2 ^ p \<le> int m * int k"
    and "q * 2 ^ p < m * k \<longleftrightarrow> int q * 2 ^ p < int m * int k"
    and "m * k \<le> (q + 1) * 2 ^ p \<longleftrightarrow> int m * int k \<le> (int q + 1) * 2 ^ p"
    and "m * k < (q + 1) * 2 ^ p \<longleftrightarrow> int m * int k < (int q + 1) * 2 ^ p"
proof -
  have "int (q * 2 ^ p) = int q * 2 ^ p" "int (m * k) = int m * int k" "int ((q + 1) * 2 ^ p) = (int q + 1) * 2 ^ p"
    by (simp_all add: algebra_simps)
  then show "q * 2 ^ p \<le> m * k \<longleftrightarrow> int q * 2 ^ p \<le> int m * int k"
    and "q * 2 ^ p < m * k \<longleftrightarrow> int q * 2 ^ p < int m * int k"
    and "m * k \<le> (q + 1) * 2 ^ p \<longleftrightarrow> int m * int k \<le> (int q + 1) * 2 ^ p"
    and "m * k < (q + 1) * 2 ^ p \<longleftrightarrow> int m * int k < (int q + 1) * 2 ^ p"
    by (metis of_nat_le_iff of_nat_less_iff)+
qed

lemma magic_quotient_int:
  assumes "takes_signed_div_magic d" and "signed_div_magic64 d = Some mg"
  shows "magic_quotient mg n = word_sdiv n d"
proof -
  from signed_div_magic64_found [OF assms(1)] assms(2) obtain A p where
    A: "A + 1 = unat d * (2 ^ 63 div unat d)" and p: "magic_exponent (unat d) A p"
    and sh: "magic_shift mg = p - 64" and M: "unat (multiplier mg) = 2 ^ p div unat d + 1"
    by (metis option.inject)
  let ?D = "unat d" and ?m = "unat (multiplier mg)" and ?e = "unat d - 2 ^ p mod unat d" and ?k = "nat \<bar>sint n\<bar>"
  note D = divisor_range [OF assms(1)]
  have "2 ^ p = ?D * (2 ^ p div ?D) + 2 ^ p mod ?D" by simp
  moreover have r: "2 ^ p mod ?D < ?D" using D by simp
  moreover have "?m * ?D = ?D * (2 ^ p div ?D) + ?D" by (simp add: M algebra_simps)
  ultimately have m: "?m * ?D = 2 ^ p + ?e" by linarith
  have e: "?e * A < 2 ^ p" "0 < ?e" using p r by (simp_all add: magic_exponent_def goes_on_def mult.commute)
  have "?k \<le> 9223372036854775808" using sint_range64 [of n] by linarith
  then have k: "?k \<le> 2 ^ 63" by simp
  have "2 \<le> ?D" "?D \<le> 2 ^ 63" using D by simp_all
  moreover have "2 ^ 63 mod ?D = ?D - 1 \<longrightarrow> 2 ^ 63 * ?e \<le> 2 ^ p"
    using last_dividend [OF p A D(1)] by blast
  note int = product_interval [OF m A e calculation(1,2) k this]
  have "64 + (p - 64) = p" using p by (simp add: magic_exponent_def)
  then have t: "magic_quotient mg n = word_of_int (int ?m * sint n div 2 ^ p) + drop_bit 63 n"
    using shifted_product [of "p - 64" "multiplier mg" n] by (simp add: magic_quotient_def sh)
  show ?thesis
  proof (cases "0 \<le> sint n")
    case True
    then have n: "sint n = int ?k" by simp
    have "?k < 9223372036854775808" using True sint_range64(2) [of n] by linarith
    then have "?k < 2 ^ 63" by simp
    from floor_of_interval [OF _ int(1) [unfolded scaled_int] int(4) [OF this, unfolded scaled_int]]
    have "int ?m * int ?k div 2 ^ p = int (?k div ?D)" by simp
    moreover have "word_sdiv n d = word_of_int (int (?k div ?D))"
      unfolding word_sdiv_def D(3) by (subst n) (simp only: sdiv_nat)
    ultimately show ?thesis unfolding t sign_bit using True n by (simp only: if_False not_less [symmetric]) simp
  next
    case False
    then have n: "sint n = - int ?k" "0 < ?k" by simp_all
    from int(3) [unfolded scaled_int] int(2) [OF n(2), unfolded scaled_int]
    have "- (int ?m * int ?k) div 2 ^ p = - int (?k div ?D) - 1"
      by (intro floor_of_interval) (simp_all add: algebra_simps)
    moreover have "word_sdiv n d = word_of_int (- int (?k div ?D))"
      unfolding word_sdiv_def D(3) by (subst n(1)) (simp only: sdiv_nat)
    moreover have "int ?m * sint n = - (int ?m * int ?k)" by (subst n(1)) simp
    ultimately show ?thesis unfolding t sign_bit using False by (simp only: if_True not_le) simp
  qed
qed

text \<open>
  C14. Division by a constant is exact.  For every divisor the selectors hand to it (at least
  three and not a power of two) the unbounded search for a multiplier returns, its shift is one
  an instruction can encode, and the high-half multiplication sequence it parameterises computes
  the truncating signed quotient of every 64-bit dividend, \<open>INT64_MIN\<close> included.
\<close>

theorem signed_div_magic_exact:
  assumes "takes_signed_div_magic d"
  shows "\<exists>mg. signed_div_magic64 d = Some mg \<and> magic_shift mg \<le> 62 \<and>
           (\<forall>n. magic_quotient mg n = word_sdiv n d)"
proof -
  obtain A p mg where "signed_div_magic64 d = Some mg" "magic_exponent (unat d) A p" "magic_shift mg = p - 64"
    by (rule signed_div_magic64_found [OF assms])
  then have "signed_div_magic64 d = Some mg" "magic_shift mg \<le> 62"
    by (auto simp: magic_exponent_def)
  with magic_quotient_int [OF assms] show ?thesis by blast
qed

theorem signed_div_magic_exact_witness:
  "takes_signed_div_magic 7 \<and> (\<exists>mg. signed_div_magic64 7 = Some mg \<and>
     magic_quotient mg (- 100) = - 14 \<and> magic_quotient mg (2 ^ 63) = word_sdiv (2 ^ 63) 7)"
proof -
  have t: "takes_signed_div_magic 7" by code_simp
  moreover have "word_sdiv (- 100) 7 = (- 14 :: i64)" by code_simp
  ultimately show ?thesis using signed_div_magic_exact [OF t] by metis
qed

end
