(* ===== verification/X64_Machine.thy ===== *)
theory X64_Machine
  imports Lir_Exec Div_Magic
begin

text \<open>
  Running the integer code the x64 instruction selector emits.  The equivalence checker's
  executor (\<open>Lir_Exec\<close>) has no meaning for the one-operand multiply and the divides; here they
  get the one the emitter gives them (\<open>src/codegen/emit_alu.cpp\<close>, \<open>emit_wrapping_idiv\<close> of
  \<open>src/target/x64/x64_encoder_alu.cpp\<close>), down to the processor's own instructions, which are a
  parameter.  What is assumed of the processor is its manual's description of \<open>imul\<close>, \<open>idiv\<close>,
  \<open>div\<close>, \<open>bsr\<close> and \<open>bsf\<close>, stated as the locale \<open>x64_cpu_laws\<close>.  The second half of the theory gives one
  rule per instruction shape for a judgement \<open>runs\<close>: the code runs to its end and the final
  state satisfies a predicate.
\<close>

section \<open>The processor's instructions\<close>

text \<open>
  The arguments of the divides are \<open>RDX\<close>, \<open>RAX\<close> and the source, the result \<open>RAX\<close> and \<open>RDX\<close>;
  \<^const>\<open>None\<close> is a divide error.  The multiply takes \<open>RAX\<close> and the source and gives \<open>RDX\<close> and
  \<open>RAX\<close>.  A bit scan takes the old destination and the source.  The last component stands for
  the flags the instructions leave undefined.
\<close>

record x64_cpu =
  cpu_imul :: "u64 \<Rightarrow> u64 \<Rightarrow> u64 \<times> u64"
  cpu_idiv :: "u64 \<Rightarrow> u64 \<Rightarrow> u64 \<Rightarrow> (u64 \<times> u64) option"
  cpu_div :: "u64 \<Rightarrow> u64 \<Rightarrow> u64 \<Rightarrow> (u64 \<times> u64) option"
  cpu_idiv32 :: "u32 \<Rightarrow> u32 \<Rightarrow> u32 \<Rightarrow> (u32 \<times> u32) option"
  cpu_div32 :: "u32 \<Rightarrow> u32 \<Rightarrow> u32 \<Rightarrow> (u32 \<times> u32) option"
  cpu_bsr :: "u64 \<Rightarrow> u64 \<Rightarrow> u64"
  cpu_bsr32 :: "u32 \<Rightarrow> u32 \<Rightarrow> u32"
  cpu_bsf :: "u64 \<Rightarrow> u64 \<Rightarrow> u64"
  cpu_bsf32 :: "u32 \<Rightarrow> u32 \<Rightarrow> u32"
  cpu_flags :: "LirExecState \<Rightarrow> LirFlagsState"

text \<open>
  The processor manual: a divide by zero or a quotient that does not fit raises an error; the
  quotient is truncated and the remainder has the dividend's sign; a bit scan of a non-zero
  source gives the index of its highest or lowest set bit.
\<close>

locale x64_cpu_laws =
  fixes cpu :: x64_cpu
  assumes imul: "cpu_imul cpu a b = (smulh a b, a * b)"
    and idiv: "s \<noteq> 0 \<Longrightarrow> n = sint hi * 2 ^ 64 + uint lo \<Longrightarrow> INT64_MIN \<le> n sdiv sint s \<Longrightarrow>
      n sdiv sint s \<le> INT64_MAX \<Longrightarrow>
      cpu_idiv cpu hi lo s = Some (word_of_int (n sdiv sint s), word_of_int (n smod sint s))"
    and idiv32: "t \<noteq> 0 \<Longrightarrow> m = sint hi' * 2 ^ 32 + uint lo' \<Longrightarrow> INT32_MIN \<le> m sdiv sint t \<Longrightarrow>
      m sdiv sint t \<le> INT32_MAX \<Longrightarrow>
      cpu_idiv32 cpu hi' lo' t = Some (word_of_int (m sdiv sint t), word_of_int (m smod sint t))"
    and div: "s \<noteq> 0 \<Longrightarrow> n = uint hi * 2 ^ 64 + uint lo \<Longrightarrow> n div uint s \<le> UINT64_MAX \<Longrightarrow>
      cpu_div cpu hi lo s = Some (word_of_int (n div uint s), word_of_int (n mod uint s))"
    and div32: "t \<noteq> 0 \<Longrightarrow> m = uint hi' * 2 ^ 32 + uint lo' \<Longrightarrow> m div uint t \<le> UINT32_MAX \<Longrightarrow>
      cpu_div32 cpu hi' lo' t = Some (word_of_int (m div uint t), word_of_int (m mod uint t))"
    and bsr: "s \<noteq> 0 \<Longrightarrow> cpu_bsr cpu old s = of_nat (63 - countl_zero s)"
    and bsr32: "t \<noteq> 0 \<Longrightarrow> cpu_bsr32 cpu old' t = of_nat (31 - countl_zero t)"
    and bsf: "s \<noteq> 0 \<Longrightarrow> cpu_bsf cpu old s = of_nat (countr_zero s)"
    and bsf32: "t \<noteq> 0 \<Longrightarrow> cpu_bsf32 cpu old' t = of_nat (countr_zero t)"

section \<open>Emitted multiplies and divides\<close>

text \<open>The shape check of the one-operand multiply; any other shape is a compile error.\<close>

definition is_gpr_op :: "LirOperand \<Rightarrow> GPR \<Rightarrow> bool" where
  "is_gpr_op op g = (case op of O_PReg p _ \<Rightarrow> p = preg_gpr g | _ \<Rightarrow> False)"

definition emit_smulh :: "x64_cpu \<Rightarrow> lir_env \<Rightarrow> LirInst \<Rightarrow> LirExecState \<Rightarrow> LirExecState option" where
  "emit_smulh cpu e inst st =
     (case (lir_defs inst, lir_uses inst) of
        ([d0, d1], [u0, u1]) \<Rightarrow>
          if is_gpr_op d0 RAX \<and> is_gpr_op d1 RDX \<and> is_gpr_op u0 RAX
          then do {
            v \<leftarrow> read_op (env_fp e) st u1 64;
            let (hi, lo) = cpu_imul cpu (gpr st 0) (snd v);
            Some (st\<lparr>gpr := (gpr st)(0 := lo, 2 := hi), flags := cpu_flags cpu st\<rparr>) }
          else None
      | _ \<Rightarrow> None)"

text \<open>\<open>cmp src, -1; jne divide; neg rax; xor edx, edx; jmp done; divide: idiv src; done:\<close>\<close>

definition emit_wrapping_idiv :: "x64_cpu \<Rightarrow> lir_env \<Rightarrow> LirInst \<Rightarrow> LirExecState \<Rightarrow> LirExecState option" where
  "emit_wrapping_idiv cpu e inst st = do {
     v \<leftarrow> read_op (env_fp e) st (last (lir_uses inst)) 64;
     (q, r) \<leftarrow> (if snd v = - 1 then Some (- gpr st 0, 0) else cpu_idiv cpu (gpr st 2) (gpr st 0) (snd v));
     Some (st\<lparr>gpr := (gpr st)(0 := q, 2 := r), flags := cpu_flags cpu st\<rparr>) }"

definition emit_wrapping_idiv32 :: "x64_cpu \<Rightarrow> lir_env \<Rightarrow> LirInst \<Rightarrow> LirExecState \<Rightarrow> LirExecState option" where
  "emit_wrapping_idiv32 cpu e inst st = do {
     v \<leftarrow> read_op (env_fp e) st (last (lir_uses inst)) 32;
     (q, r) \<leftarrow> (if (ucast (snd v) :: u32) = - 1 then Some (- ucast (gpr st 0), 0)
       else cpu_idiv32 cpu (ucast (gpr st 2)) (ucast (gpr st 0)) (ucast (snd v)));
     Some (st\<lparr>gpr := (gpr st)(0 := ucast q, 2 := ucast r), flags := cpu_flags cpu st\<rparr>) }"

definition emit_div :: "x64_cpu \<Rightarrow> lir_env \<Rightarrow> LirInst \<Rightarrow> LirExecState \<Rightarrow> LirExecState option" where
  "emit_div cpu e inst st = do {
     v \<leftarrow> read_op (env_fp e) st (last (lir_uses inst)) 64;
     (q, r) \<leftarrow> cpu_div cpu (gpr st 2) (gpr st 0) (snd v);
     Some (st\<lparr>gpr := (gpr st)(0 := q, 2 := r), flags := cpu_flags cpu st\<rparr>) }"

definition emit_div32 :: "x64_cpu \<Rightarrow> lir_env \<Rightarrow> LirInst \<Rightarrow> LirExecState \<Rightarrow> LirExecState option" where
  "emit_div32 cpu e inst st = do {
     v \<leftarrow> read_op (env_fp e) st (last (lir_uses inst)) 32;
     (q, r) \<leftarrow> cpu_div32 cpu (ucast (gpr st 2)) (ucast (gpr st 0)) (ucast (snd v));
     Some (st\<lparr>gpr := (gpr st)(0 := ucast q, 2 := ucast r), flags := cpu_flags cpu st\<rparr>) }"

definition emit_bit_scan :: "x64_cpu \<Rightarrow> lir_env \<Rightarrow> (u64 \<Rightarrow> u64 \<Rightarrow> u64) \<Rightarrow> LirInst \<Rightarrow> LirExecState \<Rightarrow> LirExecState option" where
  "emit_bit_scan cpu e f inst st = do {
     old \<leftarrow> read_op (env_fp e) st (def0 inst) 64;
     v \<leftarrow> read_op (env_fp e) st (use_at inst 0) 64;
     st \<leftarrow> write_op (env_fp e) (def0 inst) (64, f (snd old) (snd v)) True st;
     Some (st\<lparr>flags := cpu_flags cpu st\<rparr>) }"

definition emit_bit_scan32 :: "x64_cpu \<Rightarrow> lir_env \<Rightarrow> (u32 \<Rightarrow> u32 \<Rightarrow> u32) \<Rightarrow> LirInst \<Rightarrow> LirExecState \<Rightarrow> LirExecState option" where
  "emit_bit_scan32 cpu e f inst st = do {
     old \<leftarrow> read_op (env_fp e) st (def0 inst) 32;
     v \<leftarrow> read_op (env_fp e) st (use_at inst 0) 32;
     st \<leftarrow> write_op (env_fp e) (def0 inst) (32, ucast (f (ucast (snd old)) (ucast (snd v)))) True st;
     Some (st\<lparr>flags := cpu_flags cpu st\<rparr>) }"

definition machine_inst :: "x64_cpu \<Rightarrow> lir_env \<Rightarrow> LirInst \<Rightarrow> LirExecState \<Rightarrow> LirExecState option" where
  "machine_inst cpu e inst st = (case lir_opcode inst of
      LAlu op \<Rightarrow> (case op of
          L_Smulh \<Rightarrow> emit_smulh cpu e inst st
        | L_Idiv \<Rightarrow> emit_wrapping_idiv cpu e inst st
        | L_Idiv32 \<Rightarrow> emit_wrapping_idiv32 cpu e inst st
        | L_Div \<Rightarrow> emit_div cpu e inst st
        | L_Div32 \<Rightarrow> emit_div32 cpu e inst st
        | L_Bsr \<Rightarrow> emit_bit_scan cpu e (cpu_bsr cpu) inst st
        | L_Bsr32 \<Rightarrow> emit_bit_scan32 cpu e (cpu_bsr32 cpu) inst st
        | L_Bsf \<Rightarrow> emit_bit_scan cpu e (cpu_bsf cpu) inst st
        | L_Bsf32 \<Rightarrow> emit_bit_scan32 cpu e (cpu_bsf32 cpu) inst st
        | _ \<Rightarrow> exec_inst e inst st)
    | _ \<Rightarrow> exec_inst e inst st)"

fun run_lir :: "x64_cpu \<Rightarrow> lir_env \<Rightarrow> LirInst list \<Rightarrow> LirExecState \<Rightarrow> LirExecState option" where
  "run_lir cpu e [] st = Some st"
| "run_lir cpu e (i # is) st = (case machine_inst cpu e i st of
      None \<Rightarrow> None
    | Some st' \<Rightarrow> if supported st' then run_lir cpu e is st' else None)"

section \<open>Plain operands\<close>

text \<open>The operands integer code uses: virtual registers, general registers and immediates.\<close>

fun plain_src :: "LirOperand \<Rightarrow> bool" where
  "plain_src (O_VReg _ _) = True"
| "plain_src (O_PReg p _) \<longleftrightarrow> preg_is_gpr p \<and> reg_code p < 16"
| "plain_src (O_ImmInt _ _) = True"
| "plain_src _ = False"

fun plain_dst :: "LirOperand \<Rightarrow> bool" where
  "plain_dst (O_VReg _ _) = True"
| "plain_dst (O_PReg p _) \<longleftrightarrow> preg_is_gpr p \<and> reg_code p < 16"
| "plain_dst _ = False"

fun src_val :: "LirExecState \<Rightarrow> LirOperand \<Rightarrow> u64" where
  "src_val st (O_VReg v _) = vregs st (vreg_id v)"
| "src_val st (O_PReg p _) = gpr st (unat (reg_code p))"
| "src_val st (O_ImmInt i _) = i"
| "src_val st _ = 0"

text \<open>A state that differs from another only in a destination and the flags.\<close>

fun dst_vregs :: "LirOperand \<Rightarrow> u64 \<Rightarrow> (nat \<Rightarrow> u64) \<Rightarrow> nat \<Rightarrow> u64" where
  "dst_vregs (O_VReg r _) v f = f(vreg_id r := v)"
| "dst_vregs _ v f = f"

fun dst_gpr :: "LirOperand \<Rightarrow> u64 \<Rightarrow> (nat \<Rightarrow> u64) \<Rightarrow> nat \<Rightarrow> u64" where
  "dst_gpr (O_PReg p _) v f = f(unat (reg_code p) := v)"
| "dst_gpr _ v f = f"

definition sets :: "LirOperand \<Rightarrow> u64 \<Rightarrow> LirExecState \<Rightarrow> LirExecState \<Rightarrow> bool" where
  "sets d v st st' \<longleftrightarrow> supported st' \<and> vregs st' = dst_vregs d v (vregs st) \<and> gpr st' = dst_gpr d v (gpr st)"

lemma low_mask: "(x :: u64) AND mask 32 = ucast (ucast x :: u32)"
  by (rule bit_word_eqI) (auto simp: bit_simps)

lemma read_plain:
  assumes "plain_src op"
  shows "read_op fp st op 64 = Some (64, src_val st op)"
    and "read_op fp st op 32 = Some (32, ucast (ucast (src_val st op) :: u32))"
  using assms
  by (cases op; simp add: read_op_def narrow_to_def read_reg64_def bv_const_def bv_extract_def low_mask)+

lemma write_plain:
  assumes "plain_dst d" and "supported st"
  obtains st' where "write_op fp d (64, v) True st = Some st'" and "sets d v st st'" and "flags st' = flags st"
    and "clobber_seq st' = clobber_seq st"
  using assms
  by (cases d) (auto simp: write_op_def widen_value_def write_gpr_def sets_def)

lemma write_plain32:
  assumes "plain_dst d" and "supported st"
  obtains st' where "write_op fp d (32, ucast (v :: u32)) True st = Some st'" and "sets d (ucast v) st st'"
    and "flags st' = flags st" and "clobber_seq st' = clobber_seq st"
  using assms
  by (cases d) (auto simp: write_op_def widen_value_def write_gpr_def sets_def bv_zext_def)

section \<open>Rules of running code\<close>

definition runs :: "x64_cpu \<Rightarrow> lir_env \<Rightarrow> LirInst list \<Rightarrow> LirExecState \<Rightarrow> (LirExecState \<Rightarrow> bool) \<Rightarrow> bool" where
  "runs cpu e is st Q \<longleftrightarrow> (\<exists>st'. run_lir cpu e is st = Some st' \<and> Q st')"

named_theorems runs_rules "one rule per instruction shape"

lemma runs_Nil [runs_rules]: "Q st \<Longrightarrow> runs cpu e [] st Q"
  by (simp add: runs_def)

lemma runs_Cons:
  "machine_inst cpu e i st = Some st' \<Longrightarrow> supported st' \<Longrightarrow> runs cpu e is st' Q \<Longrightarrow> runs cpu e (i # is) st Q"
  by (simp add: runs_def)

lemma runs_step:
  "machine_inst cpu e i st = Some st' \<Longrightarrow> sets d v st st' \<Longrightarrow> runs cpu e is st' Q \<Longrightarrow> runs cpu e (i # is) st Q"
  by (rule runs_Cons) (simp_all add: sets_def)

lemma runs_mono: "runs cpu e is st P \<Longrightarrow> (\<And>st'. P st' \<Longrightarrow> Q st') \<Longrightarrow> runs cpu e is st Q"
  by (auto simp: runs_def)

lemma runs_append: "runs cpu e (is @ js) st Q \<longleftrightarrow> runs cpu e is st (\<lambda>st'. runs cpu e js st' Q)"
  by (induction "is" arbitrary: st) (auto simp: runs_def split: option.splits)

text \<open>What an instruction reads and writes, without the fields code generation uses.\<close>

abbreviation LI :: "LirOpcode \<Rightarrow> LirOperand list \<Rightarrow> LirOperand list \<Rightarrow> PReg option list \<Rightarrow> PReg option list \<Rightarrow> Condition \<Rightarrow> LirInst" where
  "LI op ds us dc uc c \<equiv> \<lparr>lir_opcode = op, lir_defs = ds, lir_uses = us, def_constraints = dc,
     use_constraints = uc, lir_condition = c\<rparr>"

lemma runs_mov [runs_rules]:
  assumes "plain_dst d" "plain_src a" "supported st"
    and "\<And>st'. sets d (src_val st a) st st' \<Longrightarrow> flags st' = flags st \<Longrightarrow> runs cpu e is st' Q"
  shows "runs cpu e (LI (LMove L_Mov) [d] [a] dc uc c # is) st Q"
proof -
  obtain st' where w: "write_op (env_fp e) d (64, src_val st a) True st = Some st'" "sets d (src_val st a) st st'"
    "flags st' = flags st" by (rule write_plain [OF assms(1,3)])
  have "\<not> is_mem d" using assms(1) by (cases d) simp_all
  then have "machine_inst cpu e (LI (LMove L_Mov) [d] [a] dc uc c) st = Some st'"
    by (simp add: machine_inst_def exec_inst_def exec_move_def move_value_def use_at_def def0_def read_plain [OF assms(2)] w)
  from runs_step [OF this w(2) assms(4) [OF w(2,3)]] show ?thesis .
qed

lemma runs_mov32 [runs_rules]:
  assumes "plain_dst d" "plain_src a" "supported st"
    and "\<And>st'. sets d (ucast (ucast (src_val st a) :: u32)) st st' \<Longrightarrow> flags st' = flags st \<Longrightarrow> runs cpu e is st' Q"
  shows "runs cpu e (LI (LMove L_Mov32) [d] [a] dc uc c # is) st Q"
proof -
  let ?v = "ucast (src_val st a) :: u32"
  obtain st' where w: "write_op (env_fp e) d (32, ucast ?v) True st = Some st'" "sets d (ucast ?v) st st'"
    "flags st' = flags st" by (rule write_plain32 [OF assms(1,3)])
  have "machine_inst cpu e (LI (LMove L_Mov32) [d] [a] dc uc c) st = Some st'"
    by (simp add: machine_inst_def exec_inst_def exec_move_def move_value_def use_at_def def0_def read_plain [OF assms(2)] w)
  from runs_step [OF this w(2) assms(4) [OF w(2,3)]] show ?thesis .
qed

subsection \<open>Two-operand arithmetic\<close>

fun alu64 :: "AluOp \<Rightarrow> ArithOp option" where
  "alu64 L_Add = Some Op_add" | "alu64 L_Sub = Some Op_sub" | "alu64 L_Imul = Some Op_mul"
| "alu64 L_And = Some Op_and" | "alu64 L_Or = Some Op_or" | "alu64 L_Xor = Some Op_xor"
| "alu64 L_Shl = Some Op_shl" | "alu64 L_Shr = Some Op_lshr" | "alu64 L_Sar = Some Op_ashr"
| "alu64 _ = None"

fun alu32 :: "AluOp \<Rightarrow> ArithOp option" where
  "alu32 L_Add32 = Some Op_add" | "alu32 L_Sub32 = Some Op_sub" | "alu32 L_Imul32 = Some Op_mul"
| "alu32 L_And32 = Some Op_and" | "alu32 L_Or32 = Some Op_or" | "alu32 L_Xor32 = Some Op_xor"
| "alu32 L_Shl32 = Some Op_shl" | "alu32 L_Shr32 = Some Op_lshr" | "alu32 L_Sar32 = Some Op_ashr"
| "alu32 _ = None"

definition arith_val :: "ArithOp \<Rightarrow> 'a::len word \<Rightarrow> 'a word \<Rightarrow> 'a word" where
  "arith_val f x y = the (word_arith f x y)"

text \<open>The operation the executor evaluates, with the flags it sets, for each opcode.\<close>

lemmas exec_alu_defs = exec_add_def exec_sub_def exec_imul_def exec_logic_def exec_shift_def
  get_bin_lhs_def get_bin_rhs_def use_at_def def0_def bv_binary_def Let_def

lemma eval_alu64:
  assumes "alu64 op = Some f" and "bv_of_arith f = Some bop"
  shows "eval_op fp bop 64 64 64 0 0 x y 0 = arith_val f x y"
proof -
  have "word_arith f x y = Some (arith_val f x y)" using assms(1) by (cases op) (auto simp: arith_val_def)
  from eval_arith_64 [OF assms(2) this] show ?thesis .
qed

lemma eval_alu32:
  assumes "alu32 op = Some f" and "bv_of_arith f = Some bop"
  shows "eval_op fp bop 32 32 32 0 0 (ucast (x :: u32)) (ucast y) 0 = ucast (arith_val f x y)"
proof -
  have "word_arith f x y = Some (arith_val f x y)" using assms(1) by (cases op) (auto simp: arith_val_def)
  from eval_arith_32 [OF assms(2) this] show ?thesis .
qed

lemma machine_alu64:
  assumes "alu64 op = Some f" "plain_dst d" "plain_src a" "plain_src b" "supported st"
  obtains st' where "machine_inst cpu e (LI (LAlu op) [d] [a, b] dc uc c) st = Some st'"
    and "sets d (arith_val f (src_val st a) (src_val st b)) st st'"
proof -
  obtain bop where bop: "bv_of_arith f = Some bop"
    using assms(1) by (cases op) (auto simp: bv_of_arith_def)
  let ?v = "arith_val f (src_val st a) (src_val st b)"
  obtain st' where w: "write_op (env_fp e) d (64, ?v) True st = Some st'" "sets d ?v st st'"
    by (rule write_plain [OF assms(2,5)])
  have "\<exists>st'. machine_inst cpu e (LI (LAlu op) [d] [a, b] dc uc c) st = Some st' \<and> sets d ?v st st'"
    using w assms(1) bop eval_alu64 [OF assms(1) bop, of "env_fp e" "src_val st a" "src_val st b"]
    by (cases op) (auto simp: sets_def machine_inst_def exec_inst_def exec_alu_defs read_plain [OF assms(3)]
        read_plain [OF assms(4)] bv_of_arith_def simp del: eval_op.simps)
  then show ?thesis using that by blast
qed


lemma machine_alu32:
  assumes "alu32 op = Some f" "plain_dst d" "plain_src a" "plain_src b" "supported st"
  obtains st' where "machine_inst cpu e (LI (LAlu op) [d] [a, b] dc uc c) st = Some st'"
    and "sets d (ucast (arith_val f (ucast (src_val st a) :: u32) (ucast (src_val st b)))) st st'"
proof -
  obtain bop where bop: "bv_of_arith f = Some bop"
    using assms(1) by (cases op) (auto simp: bv_of_arith_def)
  let ?v = "arith_val f (ucast (src_val st a) :: u32) (ucast (src_val st b))"
  obtain st' where w: "write_op (env_fp e) d (32, ucast ?v) True st = Some st'" "sets d (ucast ?v) st st'"
    by (rule write_plain32 [OF assms(2,5)])
  have "\<exists>st'. machine_inst cpu e (LI (LAlu op) [d] [a, b] dc uc c) st = Some st' \<and> sets d (ucast ?v) st st'"
    using w assms(1) bop eval_alu32 [OF assms(1) bop, of "env_fp e" "ucast (src_val st a)" "ucast (src_val st b)"]
    by (cases op) (auto simp: sets_def machine_inst_def exec_inst_def exec_alu_defs read_plain [OF assms(3)]
        read_plain [OF assms(4)] bv_of_arith_def simp del: eval_op.simps)
  then show ?thesis using that by blast
qed

lemma runs_alu64:
  assumes "alu64 op = Some f" "plain_dst d" "plain_src a" "plain_src b" "supported st"
    and "\<And>st'. sets d (arith_val f (src_val st a) (src_val st b)) st st' \<Longrightarrow> runs cpu e is st' Q"
  shows "runs cpu e (LI (LAlu op) [d] [a, b] dc uc c # is) st Q"
proof -
  obtain st' where m: "machine_inst cpu e (LI (LAlu op) [d] [a, b] dc uc c) st = Some st'"
    "sets d (arith_val f (src_val st a) (src_val st b)) st st'" by (rule machine_alu64 [OF assms(1-5)])
  from runs_step [OF m assms(6) [OF m(2)]] show ?thesis .
qed

lemma runs_alu32:
  assumes "alu32 op = Some f" "plain_dst d" "plain_src a" "plain_src b" "supported st"
    and "\<And>st'. sets d (ucast (arith_val f (ucast (src_val st a) :: u32) (ucast (src_val st b)))) st st' \<Longrightarrow>
      runs cpu e is st' Q"
  shows "runs cpu e (LI (LAlu op) [d] [a, b] dc uc c # is) st Q"
proof -
  obtain st' where m: "machine_inst cpu e (LI (LAlu op) [d] [a, b] dc uc c) st = Some st'"
    "sets d (ucast (arith_val f (ucast (src_val st a) :: u32) (ucast (src_val st b)))) st st'"
    by (rule machine_alu32 [OF assms(1-5)])
  from runs_step [OF m assms(6) [OF m(2)]] show ?thesis .
qed

lemma arith_val_simps [simp]:
  "arith_val Op_add x y = x + y" "arith_val Op_sub x y = x - y" "arith_val Op_mul x y = x * y"
  "arith_val Op_and x y = x AND y" "arith_val Op_or x y = x OR y" "arith_val Op_xor x y = x XOR y"
  "arith_val Op_shl x y = push_bit (shift_amount y) x" "arith_val Op_lshr x y = drop_bit (shift_amount y) x"
  "arith_val Op_ashr x y = signed_drop_bit (shift_amount y) x"
  by (simp_all add: arith_val_def)

text \<open>The rules at each opcode, so that the opcode selects the rule.\<close>

lemmas runs_alu_ops [runs_rules] =
  runs_alu64 [OF alu64.simps(1)]
  runs_alu64 [OF alu64.simps(2)]
  runs_alu64 [OF alu64.simps(3)]
  runs_alu64 [OF alu64.simps(4)]
  runs_alu64 [OF alu64.simps(5)]
  runs_alu64 [OF alu64.simps(6)]
  runs_alu64 [OF alu64.simps(7)]
  runs_alu64 [OF alu64.simps(8)]
  runs_alu64 [OF alu64.simps(9)]
  runs_alu32 [OF alu32.simps(1)]
  runs_alu32 [OF alu32.simps(2)]
  runs_alu32 [OF alu32.simps(3)]
  runs_alu32 [OF alu32.simps(4)]
  runs_alu32 [OF alu32.simps(5)]
  runs_alu32 [OF alu32.simps(6)]
  runs_alu32 [OF alu32.simps(7)]
  runs_alu32 [OF alu32.simps(8)]
  runs_alu32 [OF alu32.simps(9)]

text \<open>One-operand instructions: negation, complement and the population count.\<close>

fun unary64 :: "AluOp \<Rightarrow> ArithOp option" where
  "unary64 L_Neg = Some Op_neg" | "unary64 L_Not = Some Op_not" | "unary64 L_Popcnt = Some Op_popcnt"
| "unary64 _ = None"

fun unary32 :: "AluOp \<Rightarrow> ArithOp option" where
  "unary32 L_Neg32 = Some Op_neg" | "unary32 L_Not32 = Some Op_not" | "unary32 L_Popcnt32 = Some Op_popcnt"
| "unary32 _ = None"

definition unary_val :: "ArithOp \<Rightarrow> 'a::len word \<Rightarrow> 'a word" where
  "unary_val f x = the (word_unary f x)"

lemmas exec_unary_defs = exec_neg_def exec_not_def exec_count_def unary_source_def use_at_def def0_def
  bv_unary_def Let_def

lemma runs_unary64:
  assumes "unary64 op = Some f" "plain_dst d" "plain_src a" "supported st"
    and "\<And>st'. sets d (unary_val f (src_val st a)) st st' \<Longrightarrow> runs cpu e is st' Q"
  shows "runs cpu e (LI (LAlu op) [d] [a] dc uc c # is) st Q"
proof -
  obtain bop where bop: "bv_of_unary f = Some bop"
    using assms(1) by (cases op) (auto simp: bv_of_unary_def)
  let ?v = "unary_val f (src_val st a)"
  obtain st' where w: "write_op (env_fp e) d (64, ?v) True st = Some st'" "sets d ?v st st'"
    by (rule write_plain [OF assms(2,4)])
  have v: "eval_op (env_fp e) bop 64 64 1 0 0 (src_val st a) 0 0 = ?v"
  proof -
    have "word_unary f (src_val st a) = Some ?v" using assms(1) by (cases op) (auto simp: unary_val_def)
    from eval_unary_64 [OF bop this] show ?thesis .
  qed
  have "\<exists>st'. machine_inst cpu e (LI (LAlu op) [d] [a] dc uc c) st = Some st' \<and> sets d ?v st st'"
    using w assms(1) bop v
    by (cases op) (auto simp: sets_def machine_inst_def exec_inst_def exec_unary_defs read_plain [OF assms(3)]
        bv_of_unary_def simp del: eval_op.simps)
  then show ?thesis using assms(5) runs_step by blast
qed

lemma runs_unary32:
  assumes "unary32 op = Some f" "plain_dst d" "plain_src a" "supported st"
    and "\<And>st'. sets d (ucast (unary_val f (ucast (src_val st a) :: u32))) st st' \<Longrightarrow> runs cpu e is st' Q"
  shows "runs cpu e (LI (LAlu op) [d] [a] dc uc c # is) st Q"
proof -
  obtain bop where bop: "bv_of_unary f = Some bop"
    using assms(1) by (cases op) (auto simp: bv_of_unary_def)
  let ?v = "unary_val f (ucast (src_val st a) :: u32)"
  obtain st' where w: "write_op (env_fp e) d (32, ucast ?v) True st = Some st'" "sets d (ucast ?v) st st'"
    by (rule write_plain32 [OF assms(2,4)])
  have v: "eval_op (env_fp e) bop 32 32 1 0 0 (ucast (ucast (src_val st a) :: u32)) 0 0 = ucast ?v"
  proof -
    have "word_unary f (ucast (src_val st a) :: u32) = Some ?v" using assms(1) by (cases op) (auto simp: unary_val_def)
    from eval_unary_32 [OF bop this] show ?thesis .
  qed
  have "\<exists>st'. machine_inst cpu e (LI (LAlu op) [d] [a] dc uc c) st = Some st' \<and> sets d (ucast ?v) st st'"
    using w assms(1) bop v
    by (cases op) (auto simp: sets_def machine_inst_def exec_inst_def exec_unary_defs read_plain [OF assms(3)]
        bv_of_unary_def simp del: eval_op.simps)
  then show ?thesis using assms(5) runs_step by blast
qed

lemma unary_val_simps [simp]:
  "unary_val Op_neg x = - x" "unary_val Op_not x = NOT x" "unary_val Op_popcnt x = of_nat (popcount x)"
  by (simp_all add: unary_val_def)

lemmas runs_unary_ops [runs_rules] =
  runs_unary64 [OF unary64.simps(1)]
  runs_unary64 [OF unary64.simps(2)]
  runs_unary64 [OF unary64.simps(3)]
  runs_unary32 [OF unary32.simps(1)]
  runs_unary32 [OF unary32.simps(2)]
  runs_unary32 [OF unary32.simps(3)]

section \<open>Flags and conditions\<close>

text \<open>The relation a condition tests after a comparison of \<open>x\<close> with \<open>y\<close>.\<close>

fun relational :: "Condition \<Rightarrow> bool" where
  "relational c \<longleftrightarrow> c \<in> {C_E, C_NE, C_L, C_LE, C_G, C_GE, C_B, C_BE, C_A, C_AE}"

fun cond_cmp :: "Condition \<Rightarrow> 'a::len word \<Rightarrow> 'a word \<Rightarrow> bool" where
  "cond_cmp C_E x y = word_cmp Op_eq x y"
| "cond_cmp C_NE x y = word_cmp Op_ne x y"
| "cond_cmp C_L x y = word_cmp Op_slt x y"
| "cond_cmp C_LE x y = word_cmp Op_sle x y"
| "cond_cmp C_G x y = word_cmp Op_sgt x y"
| "cond_cmp C_GE x y = word_cmp Op_sge x y"
| "cond_cmp C_B x y = word_cmp Op_ult x y"
| "cond_cmp C_BE x y = word_cmp Op_ule x y"
| "cond_cmp C_A x y = word_cmp Op_ugt x y"
| "cond_cmp C_AE x y = word_cmp Op_uge x y"
| "cond_cmp _ x y = False"

text \<open>Five one-bit flags with the given meanings.\<close>

definition flags_are :: "LirFlagsState \<Rightarrow> bool \<Rightarrow> bool \<Rightarrow> bool \<Rightarrow> bool \<Rightarrow> bool" where
  "flags_are f z sg ov cy \<longleftrightarrow> flag_zf f = (1, of_bool z) \<and> flag_sf f = (1, of_bool sg) \<and>
     flag_of f = (1, of_bool ov) \<and> flag_cf f = (1, of_bool cy)"

lemma one_bit_ops [simp]:
  "bv_unary fp BV_Not (1, of_bool a) 1 = (1, of_bool (\<not> a))"
  "bv_binary fp BV_Or (1, of_bool a) (1, of_bool b) 1 = (1, of_bool (a \<or> b))"
  "bv_binary fp BV_Xor (1, of_bool a) (1, of_bool b) 1 = (1, of_bool (a \<noteq> b))"
  by (cases a; cases b; simp add: bv_unary_def bv_binary_def width_mask_def; code_simp)+

lemma sign_bit_extract:
  "bv_extract fp (64, r :: u64) 63 63 = (1, of_bool (sint r < 0))"
  "bv_extract fp (32, ucast (t :: u32)) 31 31 = (1, of_bool (sint t < 0))"
proof -
  have "drop_bit 63 r AND 1 = of_bool (bit r 63)"
    by (rule bit_word_eqI) (auto simp: bit_simps)
  then show "bv_extract fp (64, r) 63 63 = (1, of_bool (sint r < 0))"
    using bit_last_iff [of r] by (simp add: bv_extract_def width_mask_def)
  have "drop_bit 31 (ucast t :: u64) AND 1 = of_bool (bit t 31)"
    by (rule bit_word_eqI) (auto simp: bit_simps)
  then show "bv_extract fp (32, ucast t) 31 31 = (1, of_bool (sint t < 0))"
    using bit_last_iff [of t] by (simp add: bv_extract_def width_mask_def)
qed

lemma sub_flags_64:
  "flags_are (set_sub_flags fp (64, x :: u64) (64, y) (64, x - y) 64) (x = y) (sint (x - y) < 0)
     (word_overflow Op_ssub_overflow x y) (x < y)"
  using eval_ovf_64 [of fp Op_ssub_overflow 1 64 0 0 x y 0] eval_ovf_64 [of fp Op_usub_overflow 1 64 0 0 x y 0]
    unsigned_sub_check [of x y]
  by (simp add: flags_are_def set_sub_flags_def bv_binary_def bv_const_def sign_bit_extract del: eval_op.simps(40,42))

lemma sub_flags_32:
  "flags_are (set_sub_flags fp (32, ucast (x :: u32)) (32, ucast y) (32, ucast (x - y)) 32) (x = y) (sint (x - y) < 0)
     (word_overflow Op_ssub_overflow x y) (x < y)"
  using eval_ovf_32 [of fp Op_ssub_overflow 1 32 0 0 x y 0] eval_ovf_32 [of fp Op_usub_overflow 1 32 0 0 x y 0]
    unsigned_sub_check [of x y]
  by (simp add: flags_are_def set_sub_flags_def bv_binary_def bv_const_def sign_bit_extract del: eval_op.simps(40,42))

lemma add_flags_64:
  "flags_are (set_add_flags fp (64, x :: u64) (64, y) (64, x + y) 64) (x + y = 0) (sint (x + y) < 0)
     (word_overflow Op_sadd_overflow x y) (word_overflow Op_uadd_overflow x y)"
  using eval_ovf_64 [of fp Op_sadd_overflow 1 64 0 0 x y 0] eval_ovf_64 [of fp Op_uadd_overflow 1 64 0 0 x y 0]
  by (simp add: flags_are_def set_add_flags_def bv_binary_def bv_const_def sign_bit_extract
      del: eval_op.simps(36,37,38,39,40,41,42) word_overflow.simps)

lemma add_flags_32:
  "flags_are (set_add_flags fp (32, ucast (x :: u32)) (32, ucast y) (32, ucast (x + y)) 32) (x + y = 0)
     (sint (x + y) < 0) (word_overflow Op_sadd_overflow x y) (word_overflow Op_uadd_overflow x y)"
  using eval_ovf_32 [of fp Op_sadd_overflow 1 32 0 0 x y 0] eval_ovf_32 [of fp Op_uadd_overflow 1 32 0 0 x y 0]
  by (simp add: flags_are_def set_add_flags_def bv_binary_def bv_const_def sign_bit_extract
      del: eval_op.simps(36,37,38,39,40,41,42) word_overflow.simps)

lemma logic_flags_64: "flags_are (set_logic_flags fp (64, r :: u64) 64) (r = 0) (sint r < 0) False False"
  by (simp add: flags_are_def set_logic_flags_def bv_binary_def bv_const_def sign_bit_extract)

lemma logic_flags_32: "flags_are (set_logic_flags fp (32, ucast (r :: u32)) 32) (r = 0) (sint r < 0) False False"
  by (simp add: flags_are_def set_logic_flags_def bv_binary_def bv_const_def sign_bit_extract)

text \<open>The signed relation from the sign and overflow of the difference.\<close>

lemma signed_less_by_flags:
  "(sint (x - y) < 0) \<noteq> word_overflow Op_ssub_overflow x y \<longleftrightarrow> sint x < sint (y :: 'a::len word)"
  unfolding signed_signs using word_overflow.simps(2) [of x y] signed_signs(2) [of x y] by (auto; linarith)

text \<open>A condition as a combination of the flags.\<close>

fun flag_cond :: "Condition \<Rightarrow> bool \<Rightarrow> bool \<Rightarrow> bool \<Rightarrow> bool \<Rightarrow> bool" where
  "flag_cond C_O z sg ov cy = ov"
| "flag_cond C_NO z sg ov cy = (\<not> ov)"
| "flag_cond C_B z sg ov cy = cy"
| "flag_cond C_AE z sg ov cy = (\<not> cy)"
| "flag_cond C_E z sg ov cy = z"
| "flag_cond C_NE z sg ov cy = (\<not> z)"
| "flag_cond C_BE z sg ov cy = (cy \<or> z)"
| "flag_cond C_A z sg ov cy = (\<not> (cy \<or> z))"
| "flag_cond C_S z sg ov cy = sg"
| "flag_cond C_NS z sg ov cy = (\<not> sg)"
| "flag_cond C_L z sg ov cy = (sg \<noteq> ov)"
| "flag_cond C_GE z sg ov cy = (\<not> (sg \<noteq> ov))"
| "flag_cond C_LE z sg ov cy = (z \<or> sg \<noteq> ov)"
| "flag_cond C_G z sg ov cy = (\<not> (z \<or> sg \<noteq> ov))"
| "flag_cond _ z sg ov cy = False"

lemma condition_value:
  assumes "flags_are f z sg ov cy" and "c \<notin> {C_P, C_NP, C_None}"
  shows "eval_condition fp f c = (1, of_bool (flag_cond c z sg ov cy))"
proof -
  from assms(1) have "flag_zf f = (1, of_bool z)" "flag_sf f = (1, of_bool sg)" "flag_of f = (1, of_bool ov)"
    "flag_cf f = (1, of_bool cy)" by (simp_all only: flags_are_def)
  with assms(2) show ?thesis
    by (cases c) (simp_all only: eval_condition_def Condition.case one_bit_ops flag_cond.simps insert_iff simp_thms)
qed

lemma flag_cond_sub:
  fixes x y :: "'a::len word"
  assumes "relational c"
  shows "flag_cond c (x = y) (sint (x - y) < 0) (word_overflow Op_ssub_overflow x y) (x < y) = cond_cmp c x y"
  using assms signed_less_by_flags [of x y] signed_word_eqI [of x y]
  by (cases c) (auto simp: le_less not_less simp del: word_overflow.simps)

lemma flag_cond_test:
  fixes x :: "'a::len word"
  assumes "relational c"
  shows "flag_cond c (x = 0) (sint x < 0) False False = cond_cmp c x 0"
  using assms by (cases c) (auto simp: sint_eq_0 [symmetric] word_gt_0)

text \<open>A state whose registers are another's and whose flags have the given meaning.\<close>

definition tests :: "bool \<Rightarrow> bool \<Rightarrow> bool \<Rightarrow> bool \<Rightarrow> LirExecState \<Rightarrow> LirExecState \<Rightarrow> bool" where
  "tests z sg ov cy st st' \<longleftrightarrow> supported st' \<and> vregs st' = vregs st \<and> gpr st' = gpr st \<and>
     flags_are (flags st') z sg ov cy"

lemma runs_tests:
  "machine_inst cpu e i st = Some st' \<Longrightarrow> tests z sg ov cy st st' \<Longrightarrow> runs cpu e is st' Q \<Longrightarrow> runs cpu e (i # is) st Q"
  by (rule runs_Cons) (simp_all add: tests_def)

lemma runs_cmp [runs_rules]:
  assumes "plain_src a" "plain_src b" "supported st"
    and "\<And>st'. tests (src_val st a = src_val st b) (sint (src_val st a - src_val st b) < 0)
      (word_overflow Op_ssub_overflow (src_val st a) (src_val st b)) (src_val st a < src_val st b) st st' \<Longrightarrow>
      runs cpu e is st' Q"
  shows "runs cpu e (LI (LTest L_Cmp) [] [a, b] dc uc c # is) st Q"
proof -
  let ?x = "src_val st a" and ?y = "src_val st b"
  let ?st = "st\<lparr>flags := set_sub_flags (env_fp e) (64, ?x) (64, ?y) (64, ?x - ?y) 64, flags_defined := True\<rparr>"
  have "machine_inst cpu e (LI (LTest L_Cmp) [] [a, b] dc uc c) st = Some ?st"
    by (simp add: machine_inst_def exec_inst_def exec_compare_def use_at_def read_plain [OF assms(1)]
        read_plain [OF assms(2)] bv_binary_def)
  moreover have "tests (?x = ?y) (sint (?x - ?y) < 0) (word_overflow Op_ssub_overflow ?x ?y) (?x < ?y) st ?st"
    using assms(3) sub_flags_64 by (simp add: tests_def)
  ultimately show ?thesis using assms(4) runs_tests by blast
qed

lemma runs_cmp32 [runs_rules]:
  assumes "plain_src a" "plain_src b" "supported st"
    and "\<And>st'. tests ((ucast (src_val st a) :: u32) = ucast (src_val st b))
      (sint ((ucast (src_val st a) :: u32) - ucast (src_val st b)) < 0)
      (word_overflow Op_ssub_overflow (ucast (src_val st a) :: u32) (ucast (src_val st b)))
      ((ucast (src_val st a) :: u32) < ucast (src_val st b)) st st' \<Longrightarrow> runs cpu e is st' Q"
  shows "runs cpu e (LI (LTest L_Cmp32) [] [a, b] dc uc c # is) st Q"
proof -
  let ?x = "ucast (src_val st a) :: u32" and ?y = "ucast (src_val st b) :: u32"
  let ?st = "st\<lparr>flags := set_sub_flags (env_fp e) (32, ucast ?x) (32, ucast ?y) (32, ucast (?x - ?y)) 32,
    flags_defined := True\<rparr>"
  have "eval_op (env_fp e) BV_Sub 32 32 32 0 0 (ucast ?x) (ucast ?y) 0 = ucast (?x - ?y)"
    using eval_alu32 [of L_Sub32 Op_sub BV_Sub "env_fp e" ?x ?y] by (simp add: bv_of_arith_def arith_val_def)
  then have "machine_inst cpu e (LI (LTest L_Cmp32) [] [a, b] dc uc c) st = Some ?st"
    by (simp add: machine_inst_def exec_inst_def exec_compare_def use_at_def read_plain [OF assms(1)]
        read_plain [OF assms(2)] bv_binary_def)
  moreover have "tests (?x = ?y) (sint (?x - ?y) < 0) (word_overflow Op_ssub_overflow ?x ?y) (?x < ?y) st ?st"
    using assms(3) sub_flags_32 by (simp add: tests_def)
  ultimately show ?thesis using assms(4) runs_tests by blast
qed

lemma runs_test [runs_rules]:
  assumes "plain_src a" "plain_src b" "supported st"
    and "\<And>st'. tests (src_val st a AND src_val st b = 0) (sint (src_val st a AND src_val st b) < 0) False False st st' \<Longrightarrow>
      runs cpu e is st' Q"
  shows "runs cpu e (LI (LTest L_Test) [] [a, b] dc uc c # is) st Q"
proof -
  let ?r = "src_val st a AND src_val st b"
  let ?st = "st\<lparr>flags := set_logic_flags (env_fp e) (64, ?r) 64, flags_defined := True\<rparr>"
  have "machine_inst cpu e (LI (LTest L_Test) [] [a, b] dc uc c) st = Some ?st"
    by (simp add: machine_inst_def exec_inst_def exec_bit_test_def use_at_def read_plain [OF assms(1)]
        read_plain [OF assms(2)] bv_binary_def)
  moreover have "tests (?r = 0) (sint ?r < 0) False False st ?st"
    using assms(3) logic_flags_64 by (simp add: tests_def)
  ultimately show ?thesis using assms(4) runs_tests by blast
qed

lemma runs_test32 [runs_rules]:
  assumes "plain_src a" "plain_src b" "supported st"
    and "\<And>st'. tests ((ucast (src_val st a) :: u32) AND ucast (src_val st b) = 0)
      (sint ((ucast (src_val st a) :: u32) AND ucast (src_val st b)) < 0) False False st st' \<Longrightarrow> runs cpu e is st' Q"
  shows "runs cpu e (LI (LTest L_Test32) [] [a, b] dc uc c # is) st Q"
proof -
  let ?x = "ucast (src_val st a) :: u32" and ?y = "ucast (src_val st b) :: u32"
  let ?st = "st\<lparr>flags := set_logic_flags (env_fp e) (32, ucast (?x AND ?y)) 32, flags_defined := True\<rparr>"
  have "eval_op (env_fp e) BV_And 32 32 32 0 0 (ucast ?x) (ucast ?y) 0 = ucast (?x AND ?y)"
    using eval_alu32 [of L_And32 Op_and BV_And "env_fp e" ?x ?y] by (simp add: bv_of_arith_def arith_val_def)
  then have "machine_inst cpu e (LI (LTest L_Test32) [] [a, b] dc uc c) st = Some ?st"
    by (simp add: machine_inst_def exec_inst_def exec_bit_test_def use_at_def read_plain [OF assms(1)]
        read_plain [OF assms(2)] bv_binary_def)
  moreover have "tests (?x AND ?y = 0) (sint (?x AND ?y) < 0) False False st ?st"
    using assms(3) logic_flags_32 by (simp add: tests_def)
  ultimately show ?thesis using assms(4) runs_tests by blast
qed

text \<open>The condition's truth in a state whose flags it can be read from.\<close>

definition cond_bit :: "lir_env \<Rightarrow> LirExecState \<Rightarrow> Condition \<Rightarrow> bool" where
  "cond_bit e st c \<longleftrightarrow> eval_condition (env_fp e) (flags st) c = (1, 1)"

definition cond_ready :: "lir_env \<Rightarrow> LirExecState \<Rightarrow> Condition \<Rightarrow> bool" where
  "cond_ready e st c \<longleftrightarrow> eval_condition (env_fp e) (flags st) c = (1, of_bool (cond_bit e st c))"

lemma cond_of_flags:
  assumes "flags_are (flags st) z sg ov cy" and "c \<notin> {C_P, C_NP, C_None}"
  shows "cond_ready e st c" and "cond_bit e st c = flag_cond c z sg ov cy"
  using condition_value [OF assms, of "env_fp e"]
  by (cases "flag_cond c z sg ov cy"; simp add: cond_ready_def cond_bit_def)+

text \<open>\<open>setcc\<close> on a byte and \<open>movzx\<close> of it into its register, as they are always paired.\<close>

lemma runs_setcc [runs_rules]:
  assumes "cond_ready e st c" "supported st"
    and "\<And>st'. sets (O_VReg r s) (of_bool (cond_bit e st c)) st st' \<Longrightarrow> flags st' = flags st \<Longrightarrow> runs cpu e is st' Q"
  shows "runs cpu e (LI (LTest L_Setcc) [O_VReg r s] [] dc uc c # is) st Q"
proof -
  let ?st = "st\<lparr>vregs := (vregs st)(vreg_id r := of_bool (cond_bit e st c))\<rparr>"
  have "machine_inst cpu e (LI (LTest L_Setcc) [O_VReg r s] [] dc uc c) st = Some ?st"
    using assms(1)
    by (cases "cond_bit e st c") (simp_all add: machine_inst_def exec_inst_def exec_setcc_def def0_def cond_ready_def
        write_op_def widen_value_def bv_zext_def width_mask_def)
  moreover have "sets (O_VReg r s) (of_bool (cond_bit e st c)) st ?st" using assms(2) by (simp add: sets_def)
  ultimately show ?thesis using assms(3) [of ?st] runs_step by simp
qed

lemma runs_movzx8 [runs_rules]:
  assumes "supported st"
    and "\<And>st'. sets (O_VReg d s) (src_val st (O_VReg r t) AND 255) st st' \<Longrightarrow> flags st' = flags st \<Longrightarrow> runs cpu e is st' Q"
  shows "runs cpu e (LI (LMove L_Movzx8) [O_VReg d s] [O_VReg r t] dc uc c # is) st Q"
proof -
  let ?st = "st\<lparr>vregs := (vregs st)(vreg_id d := vregs st (vreg_id r) AND 255)\<rparr>"
  have "machine_inst cpu e (LI (LMove L_Movzx8) [O_VReg d s] [O_VReg r t] dc uc c) st = Some ?st"
    by (simp add: machine_inst_def exec_inst_def exec_move_def move_value_def use_at_def def0_def read_op_def
        read_reg64_def narrow_to_def bv_extract_def bv_zext_def width_mask_def write_op_def widen_value_def)
  moreover have "sets (O_VReg d s) (src_val st (O_VReg r t) AND 255) st ?st" using assms(1) by (simp add: sets_def)
  ultimately show ?thesis using assms(2) [of ?st] runs_step by simp
qed

lemma runs_cmov [runs_rules]:
  assumes "cond_ready e st c" "supported st" "plain_src b"
    and "\<And>st'. sets (O_VReg d s)
        (if s = 4 then ucast (ucast (if cond_bit e st c then src_val st b else vregs st (vreg_id d)) :: u32)
         else if cond_bit e st c then src_val st b else vregs st (vreg_id d)) st st' \<Longrightarrow>
      flags st' = flags st \<Longrightarrow> runs cpu e is st' Q"
  shows "runs cpu e (LI (LTest L_Cmovcc) [O_VReg d s] [a, b] dc uc c # is) st Q"
proof -
  let ?v = "if s = 4 then ucast (ucast (if cond_bit e st c then src_val st b else vregs st (vreg_id d)) :: u32)
         else if cond_bit e st c then src_val st b else vregs st (vreg_id d)"
  let ?st = "st\<lparr>vregs := (vregs st)(vreg_id d := ?v)\<rparr>"
  have d: "plain_src (O_VReg d t)" for t by simp
  have "machine_inst cpu e (LI (LTest L_Cmovcc) [O_VReg d s] [a, b] dc uc c) st = Some ?st"
    using assms(1)
    by (cases "cond_bit e st c"; cases "s = 4") (simp_all add: machine_inst_def exec_inst_def exec_cmovcc_def def0_def cond_ready_def
        write_op_def widen_value_def bv_zext_def bv_ite_def read_plain [OF assms(3)] read_plain [OF d] low_mask)
  moreover have "sets (O_VReg d s) ?v st ?st" using assms(2) by (simp add: sets_def)
  ultimately show ?thesis using assms(4) [of ?st] runs_step by simp
qed

section \<open>Multiplies and divides\<close>

text \<open>A step that sets \<open>RAX\<close> and \<open>RDX\<close>.\<close>

definition sets_pair :: "u64 \<Rightarrow> u64 \<Rightarrow> LirExecState \<Rightarrow> LirExecState \<Rightarrow> bool" where
  "sets_pair a d st st' \<longleftrightarrow> supported st' \<and> vregs st' = vregs st \<and> gpr st' = (gpr st)(0 := a, 2 := d)"

lemma runs_pair:
  "machine_inst cpu e i st = Some st' \<Longrightarrow> sets_pair a d st st' \<Longrightarrow> runs cpu e is st' Q \<Longrightarrow> runs cpu e (i # is) st Q"
  by (rule runs_Cons) (simp_all add: sets_pair_def)

definition sign_fill :: "'a::len word \<Rightarrow> 'a word" where
  "sign_fill x = (if sint x < 0 then - 1 else 0)"

lemma sign_extend_bit [simp]: "sign_extend_bits (of_bool b) 1 = - of_bool b"
  by (cases b; simp; code_simp)

lemma runs_cqo [runs_rules]:
  assumes "supported st"
    and "\<And>st'. sets (op_preg_gpr RDX s) (sign_fill (gpr st 0)) st st' \<Longrightarrow> runs cpu e is st' Q"
  shows "runs cpu e (LI (LAlu L_Cqo) ds us dc uc c # is) st Q"
proof -
  let ?st = "st\<lparr>gpr := (gpr st)(2 := sign_fill (gpr st 0))\<rparr>"
  have "exec_cqo (env_fp e) st = ?st"
    unfolding exec_cqo_def sign_bit_extract bv_sext_def
    by (simp add: sign_fill_def flip: One_nat_def)
  then have "machine_inst cpu e (LI (LAlu L_Cqo) ds us dc uc c) st = Some ?st"
    by (simp add: machine_inst_def exec_inst_def)
  moreover have "sets (op_preg_gpr RDX s) (sign_fill (gpr st 0)) st ?st"
    using assms(1) by (simp add: sets_def op_preg_gpr_def preg_gpr_def)
  ultimately show ?thesis using assms(2) runs_step by blast
qed

lemma runs_cdq [runs_rules]:
  assumes "supported st"
    and "\<And>st'. sets (op_preg_gpr RDX s) (ucast (sign_fill (ucast (gpr st 0) :: u32))) st st' \<Longrightarrow> runs cpu e is st' Q"
  shows "runs cpu e (LI (LAlu L_Cdq) ds us dc uc c # is) st Q"
proof -
  let ?x = "ucast (gpr st 0) :: u32"
  let ?st = "st\<lparr>gpr := (gpr st)(2 := ucast (sign_fill ?x))\<rparr>"
  have x: "bv_extract (env_fp e) (64, gpr st 0) 31 0 = (32, ucast ?x)"
    by (simp add: bv_extract_def low_mask)
  have m: "mask 32 = (ucast (- 1 :: u32) :: u64)" by code_simp
  have "exec_cdq (env_fp e) st = ?st"
    unfolding exec_cdq_def x Let_def sign_bit_extract bv_sext_def
    by (simp add: sign_fill_def bv_zext_def m flip: One_nat_def)
  then have "machine_inst cpu e (LI (LAlu L_Cdq) ds us dc uc c) st = Some ?st"
    by (simp add: machine_inst_def exec_inst_def)
  moreover have "sets (op_preg_gpr RDX s) (ucast (sign_fill ?x)) st ?st"
    using assms(1) by (simp add: sets_def op_preg_gpr_def preg_gpr_def)
  ultimately show ?thesis using assms(2) runs_step by blast
qed

text \<open>The dividend a sign fill makes, and when its quotient fits.\<close>

lemma sign_fill_value:
  "sint (sign_fill (x :: u64)) * 2 ^ 64 + uint x = sint x" "sint (sign_fill (t :: u32)) * 2 ^ 32 + uint t = sint t"
  using bit_last_iff [of x] bit_last_iff [of t] by (auto simp: sign_fill_def sint_as_uint [of x] sint_as_uint [of t])

lemma sdiv_fits:
  fixes n d h :: int
  assumes "- h \<le> n" "n < h" "d \<noteq> - 1"
  shows "- h \<le> n sdiv d" "n sdiv d < h"
proof -
  have q: "0 \<le> \<bar>n\<bar> div \<bar>d\<bar>" by (cases "d = 0") (simp_all add: pos_imp_zdiv_nonneg_iff)
  have h: "0 < h" using assms by linarith
  have "- h \<le> n sdiv d \<and> n sdiv d < h"
  proof (cases "\<bar>d\<bar> \<le> 1")
    case True
    then have "d = 0 \<or> d = 1" using assms(3) by auto
    then show ?thesis using assms h by (auto simp: signed_divide_int_def sgn_mult_abs)
  next
    case False
    then have "\<bar>n\<bar> div \<bar>d\<bar> \<le> \<bar>n\<bar> div 2" by (intro zdiv_mono2) auto
    moreover have "\<bar>n\<bar> div 2 < h" using assms h by linarith
    ultimately show ?thesis using q by (auto simp: signed_divide_int_def sgn_if)
  qed
  then show "- h \<le> n sdiv d" "n sdiv d < h" by auto
qed

lemma word_sdiv_neg1: "word_sdiv x (- 1) = - (x :: 'a::len word)"
  by (simp add: word_sdiv_def signed_divide_int_def sgn_mult_abs)

context x64_cpu_laws
begin

lemma runs_smulh:
  assumes "supported st" "plain_src b"
    and "\<And>st'. sets_pair (gpr st 0 * src_val st b) (smulh (gpr st 0) (src_val st b)) st st' \<Longrightarrow> runs cpu e is st' Q"
  shows "runs cpu e (LI (LAlu L_Smulh) [op_preg_gpr RAX s0, op_preg_gpr RDX s1] [op_preg_gpr RAX s2, b] dc uc c # is) st Q"
proof -
  let ?st = "st\<lparr>gpr := (gpr st)(0 := gpr st 0 * src_val st b, 2 := smulh (gpr st 0) (src_val st b)), flags := cpu_flags cpu st\<rparr>"
  have "machine_inst cpu e (LI (LAlu L_Smulh) [op_preg_gpr RAX s0, op_preg_gpr RDX s1] [op_preg_gpr RAX s2, b] dc uc c) st = Some ?st"
    by (simp add: machine_inst_def emit_smulh_def is_gpr_op_def op_preg_gpr_def read_plain [OF assms(2)] imul)
  moreover have "sets_pair (gpr st 0 * src_val st b) (smulh (gpr st 0) (src_val st b)) st ?st"
    using assms(1) by (simp add: sets_pair_def)
  ultimately show ?thesis using assms(3) runs_pair by blast
qed

lemma cpu_idiv_filled:
  assumes "s \<noteq> 0" "s \<noteq> - 1"
  shows "cpu_idiv cpu (sign_fill x) x s = Some (word_sdiv x s, word_smod x s)"
proof -
  have "sint s \<noteq> - 1" using assms(2) signed_word_eqI [of s "- 1"] by auto
  moreover have "INT64_MIN \<le> sint x" "sint x < 9223372036854775808" using sint_range64 [of x] by linarith+
  ultimately have "INT64_MIN \<le> sint x sdiv sint s" "sint x sdiv sint s < 9223372036854775808"
    using sdiv_fits [of 9223372036854775808 "sint x" "sint s"] by auto
  then show ?thesis
    unfolding word_sdiv_def word_smod_def by (intro idiv assms(1)) (linarith | simp only: sign_fill_value)+
qed

lemma cpu_idiv32_filled:
  assumes "s \<noteq> 0" "s \<noteq> - 1"
  shows "cpu_idiv32 cpu (sign_fill x) x s = Some (word_sdiv x s, word_smod x s)"
proof -
  have "sint s \<noteq> - 1" using assms(2) signed_word_eqI [of s "- 1"] by auto
  moreover have "INT32_MIN \<le> sint x" "sint x < 2147483648" using sint_range32 [of x] by linarith+
  ultimately have "INT32_MIN \<le> sint x sdiv sint s" "sint x sdiv sint s < 2147483648"
    using sdiv_fits [of 2147483648 "sint x" "sint s"] by auto
  then show ?thesis
    unfolding word_sdiv_def word_smod_def by (intro idiv32 assms(1)) (linarith | simp only: sign_fill_value)+
qed

lemma cpu_div_zero_high:
  assumes "s \<noteq> 0"
  shows "cpu_div cpu 0 x s = Some (x div s, x mod s)"
proof -
  have "uint x div uint s \<le> UINT64_MAX" using uint_range64(2) [of "x div s"] by (simp only: uint_div)
  then show ?thesis using div [OF assms, of "uint x" 0 x] by (simp add: word_div_def word_mod_def)
qed

lemma cpu_div32_zero_high:
  assumes "s \<noteq> 0"
  shows "cpu_div32 cpu 0 x s = Some (x div s, x mod s)"
proof -
  have "uint x div uint s \<le> UINT32_MAX" using uint_range32(2) [of "x div s"] by (simp only: uint_div)
  then show ?thesis using div32 [OF assms, of "uint x" 0 x] by (simp add: word_div_def word_mod_def)
qed

lemma runs_idiv:
  assumes "supported st" "src_val st b \<noteq> 0" "gpr st 2 = sign_fill (gpr st 0)" "plain_src b"
    and "\<And>st'. sets_pair (word_sdiv (gpr st 0) (src_val st b)) (word_smod (gpr st 0) (src_val st b)) st st' \<Longrightarrow>
      runs cpu e is st' Q"
  shows "runs cpu e (LI (LAlu L_Idiv) ds [a0, a1, b] dc uc c # is) st Q"
proof -
  let ?q = "word_sdiv (gpr st 0) (src_val st b)" and ?r = "word_smod (gpr st 0) (src_val st b)"
  let ?st = "st\<lparr>gpr := (gpr st)(0 := ?q, 2 := ?r), flags := cpu_flags cpu st\<rparr>"
  have "machine_inst cpu e (LI (LAlu L_Idiv) ds [a0, a1, b] dc uc c) st = Some ?st"
    using cpu_idiv_filled [OF assms(2), of "gpr st 0"]
    by (simp add: machine_inst_def emit_wrapping_idiv_def read_plain [OF assms(4)] assms(3) word_sdiv_neg1 word_smod_neg1)
  moreover have "sets_pair ?q ?r st ?st" using assms(1) by (simp add: sets_pair_def)
  ultimately show ?thesis using assms(5) runs_pair by blast
qed

lemma runs_idiv32:
  assumes "supported st" "(ucast (src_val st b) :: u32) \<noteq> 0"
    "ucast (gpr st 2) = sign_fill (ucast (gpr st 0) :: u32)" "plain_src b"
    and "\<And>st'. sets_pair (ucast (word_sdiv (ucast (gpr st 0) :: u32) (ucast (src_val st b))))
        (ucast (word_smod (ucast (gpr st 0) :: u32) (ucast (src_val st b)))) st st' \<Longrightarrow> runs cpu e is st' Q"
  shows "runs cpu e (LI (LAlu L_Idiv32) ds [a0, a1, b] dc uc c # is) st Q"
proof -
  let ?q = "word_sdiv (ucast (gpr st 0) :: u32) (ucast (src_val st b))"
    and ?r = "word_smod (ucast (gpr st 0) :: u32) (ucast (src_val st b))"
  let ?st = "st\<lparr>gpr := (gpr st)(0 := ucast ?q, 2 := ucast ?r), flags := cpu_flags cpu st\<rparr>"
  have "machine_inst cpu e (LI (LAlu L_Idiv32) ds [a0, a1, b] dc uc c) st = Some ?st"
    using cpu_idiv32_filled [OF assms(2), of "ucast (gpr st 0)"]
    by (simp add: machine_inst_def emit_wrapping_idiv32_def read_plain [OF assms(4)] assms(3) word_sdiv_neg1 word_smod_neg1)
  moreover have "sets_pair (ucast ?q) (ucast ?r) st ?st" using assms(1) by (simp add: sets_pair_def)
  ultimately show ?thesis using assms(5) runs_pair by blast
qed

lemma runs_div:
  assumes "supported st" "src_val st b \<noteq> 0" "gpr st 2 = 0" "plain_src b"
    and "\<And>st'. sets_pair (gpr st 0 div src_val st b) (gpr st 0 mod src_val st b) st st' \<Longrightarrow> runs cpu e is st' Q"
  shows "runs cpu e (LI (LAlu L_Div) ds [a0, a1, b] dc uc c # is) st Q"
proof -
  let ?q = "gpr st 0 div src_val st b" and ?r = "gpr st 0 mod src_val st b"
  let ?st = "st\<lparr>gpr := (gpr st)(0 := ?q, 2 := ?r), flags := cpu_flags cpu st\<rparr>"
  have "machine_inst cpu e (LI (LAlu L_Div) ds [a0, a1, b] dc uc c) st = Some ?st"
    using cpu_div_zero_high [OF assms(2), of "gpr st 0"]
    by (simp add: machine_inst_def emit_div_def read_plain [OF assms(4)] assms(3))
  moreover have "sets_pair ?q ?r st ?st" using assms(1) by (simp add: sets_pair_def)
  ultimately show ?thesis using assms(5) runs_pair by blast
qed

lemma runs_div32:
  assumes "supported st" "(ucast (src_val st b) :: u32) \<noteq> 0" "(ucast (gpr st 2) :: u32) = 0" "plain_src b"
    and "\<And>st'. sets_pair (ucast ((ucast (gpr st 0) :: u32) div ucast (src_val st b)))
        (ucast ((ucast (gpr st 0) :: u32) mod ucast (src_val st b))) st st' \<Longrightarrow> runs cpu e is st' Q"
  shows "runs cpu e (LI (LAlu L_Div32) ds [a0, a1, b] dc uc c # is) st Q"
proof -
  let ?q = "(ucast (gpr st 0) :: u32) div ucast (src_val st b)"
    and ?r = "(ucast (gpr st 0) :: u32) mod ucast (src_val st b)"
  let ?st = "st\<lparr>gpr := (gpr st)(0 := ucast ?q, 2 := ucast ?r), flags := cpu_flags cpu st\<rparr>"
  have "machine_inst cpu e (LI (LAlu L_Div32) ds [a0, a1, b] dc uc c) st = Some ?st"
    using cpu_div32_zero_high [OF assms(2), of "ucast (gpr st 0)"]
    by (simp add: machine_inst_def emit_div32_def read_plain [OF assms(4)] assms(3))
  moreover have "sets_pair (ucast ?q) (ucast ?r) st ?st" using assms(1) by (simp add: sets_pair_def)
  ultimately show ?thesis using assms(5) runs_pair by blast
qed

lemmas runs_divides = runs_smulh runs_idiv runs_idiv32 runs_div runs_div32

end

text \<open>The laws have a model: the instructions computed as the manual describes them.\<close>

definition manual_cpu :: x64_cpu where
  "manual_cpu = \<lparr>cpu_imul = \<lambda>a b. (smulh a b, a * b),
     cpu_idiv = \<lambda>hi lo s. let n = sint hi * 2 ^ 64 + uint lo; q = n sdiv sint s in
       if s = 0 \<or> q < INT64_MIN \<or> q > INT64_MAX then None else Some (word_of_int q, word_of_int (n smod sint s)),
     cpu_div = \<lambda>hi lo s. let n = uint hi * 2 ^ 64 + uint lo; q = n div uint s in
       if s = 0 \<or> q > UINT64_MAX then None else Some (word_of_int q, word_of_int (n mod uint s)),
     cpu_idiv32 = \<lambda>hi lo s. let n = sint hi * 2 ^ 32 + uint lo; q = n sdiv sint s in
       if s = 0 \<or> q < INT32_MIN \<or> q > INT32_MAX then None else Some (word_of_int q, word_of_int (n smod sint s)),
     cpu_div32 = \<lambda>hi lo s. let n = uint hi * 2 ^ 32 + uint lo; q = n div uint s in
       if s = 0 \<or> q > UINT32_MAX then None else Some (word_of_int q, word_of_int (n mod uint s)),
     cpu_bsr = \<lambda>old s. if s = 0 then old else of_nat (63 - countl_zero s),
     cpu_bsr32 = \<lambda>old s. if s = 0 then old else of_nat (31 - countl_zero s),
     cpu_bsf = \<lambda>old s. if s = 0 then old else of_nat (countr_zero s),
     cpu_bsf32 = \<lambda>old s. if s = 0 then old else of_nat (countr_zero s),
     cpu_flags = flags\<rparr>"

interpretation manual: x64_cpu_laws manual_cpu
  by unfold_locales (simp_all add: manual_cpu_def Let_def)

end
