(* ===== verification/X64_Isel.thy ===== *)
theory X64_Isel
  imports X64_Machine Mir_Ir
begin

text \<open>
  Integer instruction selection for x64: \<open>src/target/x64/x64_isel_shift_div.cpp\<close>,
  \<open>x64_isel_overflow.cpp\<close>, the integer halves of \<open>x64_isel_cmp.cpp\<close> and of \<open>lower_binary_alu\<close> in
  \<open>x64_isel_alu.cpp\<close>, and the integer cases of its \<open>lower_instruction\<close>.  A lowering appends
  instructions to the function and allocates its temporaries there.  What the selector's
  analysis passes computed is in the context: the registers of values, the instructions that
  are folded into their users, the loads that are folded into an instruction's memory operand,
  and which operand values die at the instruction.  The instruction's provenance
  (\<open>mir_origin\<close>) is left out.
\<close>

section \<open>Context\<close>

record X64ISel =
  val_to_vreg :: "vid \<Rightarrow> VReg option"
  isel_values :: value_table
  skipped_insts :: "vid \<Rightarrow> bool"
  fused_load :: "vid \<Rightarrow> LirOperand option"
  dead_after :: "vid \<Rightarrow> bool"

definition get_vreg :: "X64ISel \<Rightarrow> vid option \<Rightarrow> VReg" where
  "get_vreg sel v = (case v of None \<Rightarrow> default_VReg
     | Some v \<Rightarrow> (case val_to_vreg sel v of Some r \<Rightarrow> r | None \<Rightarrow> default_VReg))"

record ImmIntInfo =
  is_imm :: bool
  imm_val :: i64
  fits_i32 :: bool

definition no_imm :: ImmIntInfo where
  "no_imm = \<lparr>is_imm = False, imm_val = 0, fits_i32 = False\<rparr>"

definition get_imm_int_info :: "X64ISel \<Rightarrow> vid option \<Rightarrow> ImmIntInfo" where
  "get_imm_int_info sel v = (case v of None \<Rightarrow> no_imm
     | Some v \<Rightarrow> (case def_of (isel_values sel) v of None \<Rightarrow> no_imm
         | Some d \<Rightarrow>
             if opcode d = OpConst Op_iconst_i32 then \<lparr>is_imm = True, imm_val = scast (imm_i32 d), fits_i32 = True\<rparr>
             else if opcode d = OpConst Op_iconst_i64 then
               \<lparr>is_imm = True, imm_val = imm_i64 d,
                fits_i32 = (INT32_MIN \<le> sint (imm_i64 d) \<and> sint (imm_i64 d) \<le> INT32_MAX)\<rparr>
             else no_imm))"

text \<open>\<open>can_fuse_load\<close> and \<open>get_load_mem_operand\<close> of the operand's definition.\<close>

definition fuses :: "X64ISel \<Rightarrow> vid option \<Rightarrow> LirOperand option" where
  "fuses sel v = (case v of None \<Rightarrow> None | Some v \<Rightarrow> fused_load sel v)"

section \<open>Instructions\<close>

definition insn :: "LirOpcode \<Rightarrow> (LirOperand \<times> PReg option) list \<Rightarrow> (LirOperand \<times> PReg option) list \<Rightarrow> LirInst" where
  "insn op ds us = foldl (\<lambda>i (u, c). add_use u c i) (foldl (\<lambda>i (d, c). add_def d c i) (new_inst op) ds) us"

definition insn_cc :: "LirOpcode \<Rightarrow> Condition \<Rightarrow> (LirOperand \<times> PReg option) list \<Rightarrow> (LirOperand \<times> PReg option) list \<Rightarrow> LirInst" where
  "insn_cc op c ds us = (insn op ds us)\<lparr>lir_condition := c\<rparr>"

definition emit :: "LirInst list \<Rightarrow> LirFunction \<Rightarrow> LirFunction" where
  "emit is fn = foldl (\<lambda>fn i. append_inst i fn) fn is"

definition temp :: "nat \<Rightarrow> LirFunction \<Rightarrow> VReg \<times> LirFunction" where
  "temp sz fn = allocate_vreg RC_GPR sz False False fn"

definition vr :: "VReg \<Rightarrow> nat \<Rightarrow> LirOperand \<times> PReg option" where
  "vr v sz = (O_VReg v sz, None)"

definition im :: "i64 \<Rightarrow> nat \<Rightarrow> LirOperand \<times> PReg option" where
  "im i sz = (O_ImmInt i sz, None)"

definition fixed :: "GPR \<Rightarrow> nat \<Rightarrow> LirOperand \<times> PReg option" where
  "fixed g sz = (op_preg_gpr g sz, Some (preg_gpr g))"

definition mov_op :: "nat \<Rightarrow> LirOpcode" where
  "mov_op sz = LMove (if sz = 4 then L_Mov32 else L_Mov)"

definition alu_op :: "nat \<Rightarrow> AluOp \<Rightarrow> AluOp \<Rightarrow> LirOpcode" where
  "alu_op sz op32 op64 = LAlu (if sz = 4 then op32 else op64)"

definition mov_vv :: "VReg \<Rightarrow> VReg \<Rightarrow> nat \<Rightarrow> LirInst" where
  "mov_vv d s sz = insn (mov_op sz) [vr d sz] [vr s sz]"

text \<open>A two-address operation on a register, and one with an immediate.\<close>

definition alu_vv :: "nat \<Rightarrow> AluOp \<Rightarrow> AluOp \<Rightarrow> VReg \<Rightarrow> VReg \<Rightarrow> LirInst" where
  "alu_vv sz op32 op64 d s = insn (alu_op sz op32 op64) [vr d sz] [vr d sz, vr s sz]"

definition alu_vi :: "nat \<Rightarrow> AluOp \<Rightarrow> AluOp \<Rightarrow> VReg \<Rightarrow> i64 \<Rightarrow> nat \<Rightarrow> LirInst" where
  "alu_vi sz op32 op64 d i isz = insn (alu_op sz op32 op64) [vr d sz] [vr d sz, im i isz]"

section \<open>Division and shifts\<close>

definition lower_signed_div_magic ::
    "X64ISel \<Rightarrow> Instruction \<Rightarrow> bool \<Rightarrow> ImmIntInfo \<Rightarrow> LirFunction \<Rightarrow> LirFunction option" where
  "lower_signed_div_magic sel inst is_mod divisor fn =
     map_option (\<lambda>mg.
       let dst = get_vreg sel (result inst);
           n = get_vreg sel (operand inst 0);
           fn = emit [insn (LMove L_Mov) [fixed RAX 8] [im (multiplier mg) 8],
             insn (LAlu L_Smulh) [fixed RAX 8, fixed RDX 8] [fixed RAX 8, vr n 8]] fn;
           (q, fn) = temp 8 fn;
           fn = emit [insn (LMove L_Mov) [vr q 8] [fixed RDX 8]] fn;
           fn = (if sint (multiplier mg) < 0 then emit [insn (LAlu L_Add) [vr q 8] [vr q 8, vr n 8]] fn else fn);
           fn = (if magic_shift mg > 0
             then emit [insn (LAlu L_Sar) [vr q 8] [vr q 8, im (of_nat (magic_shift mg)) 1]] fn else fn);
           (sign, fn) = temp 8 fn;
           fn = emit [insn (LMove L_Mov) [vr sign 8] [vr n 8], insn (LAlu L_Shr) [vr sign 8] [vr sign 8, im 63 1]] fn
       in if \<not> is_mod then
            emit [insn (LMove L_Mov) [vr dst 8] [vr q 8], insn (LAlu L_Add) [vr dst 8] [vr dst 8, vr sign 8]] fn
          else
            let fn = emit [insn (LAlu L_Add) [vr q 8] [vr q 8, vr sign 8]] fn;
                (prod, fn) = temp 8 fn;
                fn = (if fits_i32 divisor then emit [insn (LAlu L_Imul) [vr prod 8] [vr q 8, im (imm_val divisor) 8]] fn
                  else emit [insn (LMove L_Mov) [vr prod 8] [vr q 8],
                    insn (LAlu L_Imul) [vr prod 8] [vr prod 8, vr (get_vreg sel (operand inst 1)) 8]] fn)
            in emit [insn (LMove L_Mov) [vr dst 8] [vr n 8], insn (LAlu L_Sub) [vr dst 8] [vr dst 8, vr prod 8]] fn)
       (signed_div_magic64 (imm_val divisor))"

definition divisor_folds :: "ImmIntInfo \<Rightarrow> bool \<Rightarrow> bool" where
  "divisor_folds divisor is_mod =
     (if \<not> is_imm divisor \<or> sint (imm_val divisor) \<le> 0 then False
      else let c = imm_val divisor in
        if c AND (c - 1) \<noteq> 0 then False else \<not> is_mod \<or> c \<le> push_bit 31 1)"

definition divisor_unread :: "X64ISel \<Rightarrow> Instruction \<Rightarrow> bool" where
  "divisor_unread sel inst =
     (let op = opcode inst;
          is_mod = (op = OpArith Op_umod \<or> op = OpArith Op_smod);
          dv = get_imm_int_info sel (operand inst 1);
          magic = ((op = OpArith Op_sdiv \<or> op = OpArith Op_smod) \<and> inst_type inst = I64 \<and> is_imm dv \<and>
            takes_signed_div_magic (imm_val dv))
      in if magic then \<not> is_mod \<or> fits_i32 dv else divisor_folds dv is_mod)"

definition mul_imm_folds :: "ImmIntInfo \<Rightarrow> bool" where
  "mul_imm_folds factor =
     (if \<not> is_imm factor then False
      else if fits_i32 factor then True
      else let c = imm_val factor in 0 < sint c \<and> c AND (c - 1) = 0)"

text \<open>The loop \<open>while ((1ULL << k) < C) k++\<close>; \<open>C\<close> is below \<open>2\<^sup>6\<^sup>3\<close> where it runs.\<close>

function log2_from :: "nat \<Rightarrow> u64 \<Rightarrow> nat" where
  "log2_from k C = (if 2 ^ k < unat C then log2_from (k + 1) C else k)"
  by auto
termination
proof (relation "measure (\<lambda>(k, C). unat C - k)")
  show "((k + 1, C), k, C) \<in> measure (\<lambda>(k, C). unat C - k)" if "2 ^ k < unat C" for k and C :: u64
    using order.strict_trans [OF less_exp that] by simp
qed simp

declare log2_from.simps [simp del]

definition set_zero :: "VReg \<Rightarrow> nat \<Rightarrow> LirInst" where
  "set_zero dst sz = alu_vv sz L_Xor32 L_Xor dst dst"

text \<open>The four power-of-two cases of \<open>lower_div_mod\<close>; \<^const>\<open>None\<close> falls through to the divide.\<close>

definition lower_udiv_pow2 :: "VReg \<Rightarrow> VReg \<Rightarrow> nat \<Rightarrow> nat \<Rightarrow> LirFunction \<Rightarrow> LirFunction" where
  "lower_udiv_pow2 dst op0 sz k fn =
     (if k = 0 then emit [mov_vv dst op0 sz] fn
      else emit [mov_vv dst op0 sz, alu_vi sz L_Shr32 L_Shr dst (of_nat k) 1] fn)"

definition lower_umod_pow2 :: "VReg \<Rightarrow> VReg \<Rightarrow> nat \<Rightarrow> nat \<Rightarrow> u64 \<Rightarrow> LirFunction \<Rightarrow> LirFunction option" where
  "lower_umod_pow2 dst op0 sz k C fn =
     (if k = 0 then Some (emit [set_zero dst sz] fn)
      else let m = C - 1 in
        if m \<le> 2147483647
        then Some (emit [mov_vv dst op0 sz, alu_vi sz L_And32 L_And dst (scast (ucast m :: i32)) sz] fn)
        else None)"

definition lower_sdiv_pow2 :: "VReg \<Rightarrow> VReg \<Rightarrow> nat \<Rightarrow> nat \<Rightarrow> LirFunction \<Rightarrow> LirFunction" where
  "lower_sdiv_pow2 dst op0 sz k fn =
     (if k = 0 then emit [mov_vv dst op0 sz] fn
      else let (tmp, fn) = temp sz fn; top = (if sz = 4 then 31 else 63) in
        if k = 1 then
          emit [mov_vv tmp op0 sz, alu_vi sz L_Shr32 L_Shr tmp top 1,
            mov_vv dst op0 sz, alu_vv sz L_Add32 L_Add dst tmp, alu_vi sz L_Sar32 L_Sar dst 1 1] fn
        else
          emit [mov_vv tmp op0 sz, alu_vi sz L_Sar32 L_Sar tmp top 1,
            alu_vi sz L_Shr32 L_Shr tmp (of_nat ((if sz = 4 then 32 else 64) - k)) 1,
            mov_vv dst op0 sz, alu_vv sz L_Add32 L_Add dst tmp, alu_vi sz L_Sar32 L_Sar dst (of_nat k) 1] fn)"

definition lower_smod_pow2 :: "VReg \<Rightarrow> VReg \<Rightarrow> nat \<Rightarrow> nat \<Rightarrow> u64 \<Rightarrow> LirFunction \<Rightarrow> LirFunction" where
  "lower_smod_pow2 dst op0 sz k C fn =
     (if k = 0 then emit [set_zero dst sz] fn
      else let (tmp, fn) = temp sz fn; top = (if sz = 4 then 31 else 63) in
        if k = 1 then
          emit [mov_vv tmp op0 sz, alu_vi sz L_Shr32 L_Shr tmp top 1,
            alu_vv sz L_Add32 L_Add tmp op0, alu_vi sz L_And32 L_And tmp (- 2) sz,
            mov_vv dst op0 sz, alu_vv sz L_Sub32 L_Sub dst tmp] fn
        else
          emit [mov_vv tmp op0 sz, alu_vi sz L_Sar32 L_Sar tmp top 1,
            alu_vi sz L_Shr32 L_Shr tmp (of_nat ((if sz = 4 then 32 else 64) - k)) 1,
            alu_vv sz L_Add32 L_Add tmp op0,
            alu_vi sz L_And32 L_And tmp (scast (ucast (NOT (C - 1)) :: i32)) sz,
            mov_vv dst op0 sz, alu_vv sz L_Sub32 L_Sub dst tmp] fn)"

definition lower_divide :: "VReg \<Rightarrow> VReg \<Rightarrow> VReg \<Rightarrow> nat \<Rightarrow> bool \<Rightarrow> bool \<Rightarrow> LirFunction \<Rightarrow> LirFunction" where
  "lower_divide dst op0 op1 sz is_signed is_mod fn =
     emit [insn (mov_op sz) [fixed RAX sz] [vr op0 sz],
       (if is_signed then insn (alu_op sz L_Cdq L_Cqo) [fixed RDX sz] [fixed RAX sz]
        else insn (alu_op sz L_Xor32 L_Xor) [fixed RDX sz] [fixed RDX sz, fixed RDX sz]),
       insn (if is_signed then alu_op sz L_Idiv32 L_Idiv else alu_op sz L_Div32 L_Div)
         [fixed RAX sz, fixed RDX sz] [fixed RAX sz, fixed RDX sz, vr op1 sz],
       insn (mov_op sz) [vr dst sz] [fixed (if is_mod then RDX else RAX) sz]] fn"

definition lower_pow2 ::
    "VReg \<Rightarrow> VReg \<Rightarrow> nat \<Rightarrow> u64 \<Rightarrow> bool \<Rightarrow> bool \<Rightarrow> LirFunction \<Rightarrow> LirFunction option" where
  "lower_pow2 dst op0 sz C is_signed is_mod fn =
     (let k = log2_from 0 C in
      if \<not> is_signed then
        (if \<not> is_mod then Some (lower_udiv_pow2 dst op0 sz k fn) else lower_umod_pow2 dst op0 sz k C fn)
      else
        (if \<not> is_mod then Some (lower_sdiv_pow2 dst op0 sz k fn) else Some (lower_smod_pow2 dst op0 sz k C fn)))"

definition lower_div_mod :: "X64ISel \<Rightarrow> Instruction \<Rightarrow> bool \<Rightarrow> bool \<Rightarrow> LirFunction \<Rightarrow> LirFunction option" where
  "lower_div_mod sel inst is_signed is_mod fn =
     (let dst = get_vreg sel (result inst);
          op0 = get_vreg sel (operand inst 0);
          sz = vreg_size dst;
          imm1 = get_imm_int_info sel (operand inst 1);
          divide = lower_divide dst op0 (get_vreg sel (operand inst 1)) sz is_signed is_mod fn
      in if is_signed \<and> sz = 8 \<and> is_imm imm1 \<and> takes_signed_div_magic (imm_val imm1)
         then lower_signed_div_magic sel inst is_mod imm1 fn
         else if divisor_folds imm1 is_mod
         then (case lower_pow2 dst op0 sz (imm_val imm1) is_signed is_mod fn of Some fn' \<Rightarrow> Some fn' | None \<Rightarrow> Some divide)
         else Some divide)"

definition lower_shift :: "X64ISel \<Rightarrow> Instruction \<Rightarrow> AluOp \<Rightarrow> AluOp \<Rightarrow> LirFunction \<Rightarrow> LirFunction" where
  "lower_shift sel inst op32 op64 fn =
     (let dst = get_vreg sel (result inst);
          op0 = get_vreg sel (operand inst 0);
          sz = vreg_size dst;
          imm1 = get_imm_int_info sel (operand inst 1)
      in if is_imm imm1 then
           let shift_amt = ucast (imm_val imm1 AND (if sz = 4 then 31 else 63)) :: u8 in
           if shift_amt = 0 then emit [mov_vv dst op0 sz] fn
           else emit [mov_vv dst op0 sz, alu_vi sz op32 op64 dst (ucast shift_amt) 1] fn
         else let op1 = get_vreg sel (operand inst 1) in
           emit [mov_vv dst op0 sz,
             insn (LMove L_Mov) [fixed RCX 8] [vr op1 (vreg_size op1)],
             insn (alu_op sz op32 op64) [vr dst sz] [vr dst sz, fixed RCX 1]] fn)"

section \<open>Comparisons\<close>

fun get_comparison_conditions :: "CmpOp \<Rightarrow> Condition \<times> Condition" where
  "get_comparison_conditions Op_eq = (C_E, C_E)"
| "get_comparison_conditions Op_ne = (C_NE, C_NE)"
| "get_comparison_conditions Op_slt = (C_L, C_B)"
| "get_comparison_conditions Op_ult = (C_B, C_B)"
| "get_comparison_conditions Op_sle = (C_LE, C_BE)"
| "get_comparison_conditions Op_ule = (C_BE, C_BE)"
| "get_comparison_conditions Op_sgt = (C_G, C_A)"
| "get_comparison_conditions Op_ugt = (C_A, C_A)"
| "get_comparison_conditions Op_sge = (C_GE, C_AE)"
| "get_comparison_conditions Op_uge = (C_AE, C_AE)"

fun swap_relational_condition :: "Condition \<Rightarrow> Condition" where
  "swap_relational_condition C_E = C_E"
| "swap_relational_condition C_NE = C_NE"
| "swap_relational_condition C_L = C_G"
| "swap_relational_condition C_LE = C_GE"
| "swap_relational_condition C_G = C_L"
| "swap_relational_condition C_GE = C_LE"
| "swap_relational_condition C_B = C_A"
| "swap_relational_condition C_BE = C_AE"
| "swap_relational_condition C_A = C_B"
| "swap_relational_condition C_AE = C_BE"
| "swap_relational_condition c = c"

definition cmp_op :: "nat \<Rightarrow> LirOpcode" where
  "cmp_op sz = LTest (if sz = 4 then L_Cmp32 else L_Cmp)"

definition test_op :: "nat \<Rightarrow> LirOpcode" where
  "test_op sz = LTest (if sz = 4 then L_Test32 else L_Test)"

definition operand_bytes :: "X64ISel \<Rightarrow> vid option \<Rightarrow> nat" where
  "operand_bytes sel v = (let sz = (case v of None \<Rightarrow> 0 | Some v \<Rightarrow> size_in_bytes (val_type (isel_values sel v)))
     in if sz = 0 then 8 else sz)"

text \<open>The flag-setting instruction and the condition to test, of the integer branch.\<close>

definition compare_code :: "X64ISel \<Rightarrow> Instruction \<Rightarrow> Condition \<Rightarrow> LirInst \<times> Condition" where
  "compare_code sel inst cond =
     (let v0 = operand inst 0; v1 = operand inst 1;
          op0 = get_vreg sel v0; op1 = get_vreg sel v1;
          sz = operand_bytes sel v0;
          imm1 = get_imm_int_info sel v1; imm0 = get_imm_int_info sel v0
      in if is_imm imm1 \<and> imm_val imm1 = 0 then (insn (test_op sz) [] [vr op0 sz, vr op0 sz], cond)
         else if is_imm imm0 \<and> imm_val imm0 = 0
         then (insn (test_op sz) [] [vr op1 sz, vr op1 sz], swap_relational_condition cond)
         else if is_imm imm1 \<and> fits_i32 imm1 then (insn (cmp_op sz) [] [vr op0 sz, im (imm_val imm1) sz], cond)
         else if is_imm imm0 \<and> fits_i32 imm0
         then (insn (cmp_op sz) [] [vr op1 sz, im (imm_val imm0) sz], swap_relational_condition cond)
         else (case fuses sel v1 of
             Some m \<Rightarrow> (insn (cmp_op sz) [] [vr op0 sz, (m, None)], cond)
           | None \<Rightarrow> (insn (cmp_op sz) [] [vr op0 sz, vr op1 sz], cond)))"

definition set_bool :: "VReg \<Rightarrow> Condition \<Rightarrow> LirInst list" where
  "set_bool dst c = [insn_cc (LTest L_Setcc) c [vr dst 1] [], insn (LMove L_Movzx8) [vr dst (vreg_size dst)] [vr dst 1]]"

definition lower_comparison :: "X64ISel \<Rightarrow> Instruction \<Rightarrow> Condition \<Rightarrow> LirFunction \<Rightarrow> LirFunction" where
  "lower_comparison sel inst cond fn =
     (let (i, c) = compare_code sel inst cond in emit (i # set_bool (get_vreg sel (result inst)) c) fn)"

section \<open>Overflow checks\<close>

definition lower_umul_overflow32 :: "VReg \<Rightarrow> VReg \<Rightarrow> VReg \<Rightarrow> LirFunction \<Rightarrow> LirFunction" where
  "lower_umul_overflow32 dst op0 op1 fn =
     (let (t0, fn) = temp 8 fn;
          (t1, fn) = temp 8 fn;
          fn = emit [insn (LMove L_Mov32) [vr t0 4] [vr op0 4], insn (LMove L_Mov32) [vr t1 4] [vr op1 4]] fn;
          (prod, fn) = temp 8 fn;
          fn = emit [insn (LMove L_Mov) [vr prod 8] [vr t0 8], insn (LAlu L_Imul) [vr prod 8] [vr prod 8, vr t1 8]] fn;
          (high, fn) = temp 8 fn
      in emit ([insn (LMove L_Mov) [vr high 8] [vr prod 8], insn (LAlu L_Shr) [vr high 8] [vr high 8, im 32 1],
           insn (LTest L_Test32) [] [vr high 4, vr high 4]] @ set_bool dst C_NE) fn)"

definition lower_umul_overflow64 :: "VReg \<Rightarrow> VReg \<Rightarrow> VReg \<Rightarrow> LirFunction \<Rightarrow> LirFunction" where
  "lower_umul_overflow64 dst op0 op1 fn =
     (let (prod, fn) = temp 8 fn;
          fn = emit [insn (LMove L_Mov) [vr prod 8] [vr op0 8], insn (LAlu L_Imul) [vr prod 8] [vr prod 8, vr op1 8]] fn;
          (safe_div, fn) = temp 8 fn;
          fn = emit [insn (LMove L_Mov) [vr safe_div 8] [vr op0 8], insn (LTest L_Test) [] [vr op0 8, vr op0 8]] fn;
          (one_vreg, fn) = temp 8 fn;
          fn = emit ([insn (LMove L_Mov) [vr one_vreg 8] [im 1 8],
            insn_cc (LTest L_Cmovcc) C_E [vr safe_div 8] [vr safe_div 8, vr one_vreg 8],
            insn (LMove L_Mov) [fixed RAX 8] [vr prod 8],
            insn (LAlu L_Xor) [fixed RDX 8] [fixed RDX 8, fixed RDX 8],
            insn (LAlu L_Div) [fixed RAX 8, fixed RDX 8] [fixed RAX 8, fixed RDX 8, vr safe_div 8],
            insn (LTest L_Cmp) [] [fixed RAX 8, vr op1 8]] @ set_bool dst C_NE) fn;
          (zero_reg, fn) = temp 4 fn
      in emit [insn (LAlu L_Xor32) [vr zero_reg 4] [vr zero_reg 4, vr zero_reg 4],
           insn (LTest L_Test) [] [vr op0 8, vr op0 8],
           insn_cc (LTest L_Cmovcc) C_E [vr dst (vreg_size dst)] [vr dst (vreg_size dst), vr zero_reg 4]] fn)"

fun overflow_alu :: "OvfOp \<Rightarrow> AluOp \<times> AluOp \<times> Condition" where
  "overflow_alu Op_sadd_overflow = (L_Add32, L_Add, C_O)"
| "overflow_alu Op_ssub_overflow = (L_Sub32, L_Sub, C_O)"
| "overflow_alu Op_smul_overflow = (L_Imul32, L_Imul, C_O)"
| "overflow_alu Op_uadd_overflow = (L_Add32, L_Add, C_B)"
| "overflow_alu _ = (L_Sub32, L_Sub, C_B)"

definition lower_overflow_check :: "X64ISel \<Rightarrow> Instruction \<Rightarrow> OvfOp \<Rightarrow> LirFunction \<Rightarrow> LirFunction" where
  "lower_overflow_check sel inst op fn =
     (let dst = get_vreg sel (result inst);
          op0 = get_vreg sel (operand inst 0);
          op1 = get_vreg sel (operand inst 1);
          sz = vreg_size op0
      in if op = Op_umul_overflow then
           (if sz = 4 then lower_umul_overflow32 dst op0 op1 fn else lower_umul_overflow64 dst op0 op1 fn)
         else let (tmp, fn) = temp sz fn; (op32, op64, cond) = overflow_alu op in
           emit ([mov_vv tmp op0 sz, alu_vv sz op32 op64 tmp op1] @ set_bool dst cond) fn)"

section \<open>Arithmetic\<close>

definition emit_mov_alu :: "VReg \<Rightarrow> nat \<Rightarrow> AluOp \<Rightarrow> AluOp \<Rightarrow> VReg \<Rightarrow> LirOperand \<Rightarrow> LirInst list" where
  "emit_mov_alu dst sz op32 op64 first_src second_src =
     (if dst \<noteq> first_src then [mov_vv dst first_src sz] else []) @
     [insn (alu_op sz op32 op64) [vr dst sz]
        [vr dst sz, (if (case second_src of O_VReg v _ \<Rightarrow> v = first_src | _ \<Rightarrow> False) then O_VReg dst sz else second_src, None)]]"

definition prefer_rhs_first :: "X64ISel \<Rightarrow> Instruction \<Rightarrow> bool" where
  "prefer_rhs_first sel inst =
     (let dst = get_vreg sel (result inst); src0 = get_vreg sel (operand inst 0); src1 = get_vreg sel (operand inst 1);
          dead = (\<lambda>v. case v of None \<Rightarrow> False | Some v \<Rightarrow> dead_after sel v)
      in dst = src1 \<or> src0 \<noteq> src1 \<and> \<not> dead (operand inst 0) \<and> dead (operand inst 1))"

definition valid_vreg :: "VReg \<Rightarrow> VReg option" where
  "valid_vreg r = (if vreg_id r = 4294967295 then None else Some r)"

definition mem_base_index :: "VReg \<Rightarrow> VReg \<Rightarrow> LirScale \<Rightarrow> i32 \<Rightarrow> nat \<Rightarrow> LirOperand" where
  "mem_base_index b i sc disp sz =
     O_Mem \<lparr>base_vreg = valid_vreg b, base_preg = None, index_vreg = valid_vreg i, index_preg = None,
       mem_scale = sc, mem_disp = disp\<rparr> sz"

definition mem_index_only :: "VReg \<Rightarrow> LirScale \<Rightarrow> i32 \<Rightarrow> nat \<Rightarrow> LirOperand" where
  "mem_index_only i sc disp sz =
     O_Mem \<lparr>base_vreg = None, base_preg = None, index_vreg = valid_vreg i, index_preg = None,
       mem_scale = sc, mem_disp = disp\<rparr> sz"

definition mem_base_only :: "VReg \<Rightarrow> i32 \<Rightarrow> nat \<Rightarrow> LirOperand" where
  "mem_base_only b disp sz =
     O_Mem \<lparr>base_vreg = valid_vreg b, base_preg = None, index_vreg = None, index_preg = None,
       mem_scale = Scale1, mem_disp = disp\<rparr> sz"

definition lea :: "VReg \<Rightarrow> nat \<Rightarrow> LirOperand \<Rightarrow> LirInst" where
  "lea dst sz m = insn (LFlow L_Lea) [vr dst sz] [(m, None)]"

text \<open>The scales of \<open>lea\<close> for a multiplication by a small constant: base plus index, or index alone.\<close>

definition lea_scale :: "i64 \<Rightarrow> (bool \<times> LirScale) option" where
  "lea_scale c = (if c = 2 then Some (True, Scale1) else if c = 3 then Some (True, Scale2)
     else if c = 5 then Some (True, Scale4) else if c = 9 then Some (True, Scale8)
     else if c = 4 then Some (False, Scale4) else if c = 8 then Some (False, Scale8) else None)"

definition lea_mul :: "VReg \<Rightarrow> nat \<Rightarrow> VReg \<Rightarrow> bool \<times> LirScale \<Rightarrow> i32 \<Rightarrow> LirInst" where
  "lea_mul dst sz r = (\<lambda>(based, sc) disp.
     lea dst sz (if based then mem_base_index r r sc disp sz else mem_index_only r sc disp sz))"

text \<open>Multiplication by a constant; \<^const>\<open>None\<close> is a constant the general multiply takes from a register.\<close>

definition mul_const :: "VReg \<Rightarrow> nat \<Rightarrow> VReg \<Rightarrow> ImmIntInfo \<Rightarrow> LirInst list option" where
  "mul_const dst sz r info =
     (let c = imm_val info; mov = (if dst \<noteq> r then [mov_vv dst r sz] else []) in
      if c = 0 then Some [set_zero dst sz]
      else if c = 1 then Some mov
      else case lea_scale c of
        Some bs \<Rightarrow> Some [lea_mul dst sz r bs 0]
      | None \<Rightarrow>
          if 0 < sint c \<and> c AND (c - 1) = 0 then Some (mov @ [alu_vi sz L_Shl32 L_Shl dst (of_nat (log2_from 0 c)) 1])
          else if fits_i32 info then Some [insn (alu_op sz L_Imul32 L_Imul) [vr dst sz] [vr r sz, im c sz]]
          else None)"

definition lower_mul :: "X64ISel \<Rightarrow> Instruction \<Rightarrow> LirInst list" where
  "lower_mul sel inst =
     (let dst = get_vreg sel (result inst); v0 = operand inst 0; v1 = operand inst 1;
          src0 = get_vreg sel v0; src1 = get_vreg sel v1; sz = vreg_size dst;
          imm0 = get_imm_int_info sel v0; imm1 = get_imm_int_info sel v1;
          const = (if is_imm imm1 then mul_const dst sz (get_vreg sel v0) imm1
            else if is_imm imm0 then mul_const dst sz (get_vreg sel v1) imm0 else None)
      in case const of Some is \<Rightarrow> is
       | None \<Rightarrow> (case fuses sel v1 of
           Some m \<Rightarrow> emit_mov_alu dst sz L_Imul32 L_Imul src0 m
         | None \<Rightarrow> (case fuses sel v0 of
             Some m \<Rightarrow> emit_mov_alu dst sz L_Imul32 L_Imul src1 m
           | None \<Rightarrow>
               if prefer_rhs_first sel inst then emit_mov_alu dst sz L_Imul32 L_Imul src1 (O_VReg src0 sz)
               else emit_mov_alu dst sz L_Imul32 L_Imul src0 (O_VReg src1 sz))))"

text \<open>An addition of a constant to a value whose definition is folded into it, as one \<open>lea\<close>.\<close>

definition fused_add :: "X64ISel \<Rightarrow> VReg \<Rightarrow> nat \<Rightarrow> i32 \<Rightarrow> Instruction \<Rightarrow> LirInst option" where
  "fused_add sel dst sz C d =
     (if opcode d = OpArith Op_mul then
        let m0 = get_imm_int_info sel (operand d 0); m1 = get_imm_int_info sel (operand d 1);
            m_val = (if is_imm m1 then operand d 0 else operand d 1);
            mult = (if is_imm m1 then imm_val m1 else imm_val m0)
        in map_option (\<lambda>bs. lea_mul dst sz (get_vreg sel m_val) bs C) (lea_scale mult)
      else if opcode d = OpArith Op_shl then
        let s1 = get_imm_int_info sel (operand d 1) in
        if is_imm s1 \<and> (imm_val s1 = 1 \<or> imm_val s1 = 2 \<or> imm_val s1 = 3) then
          Some (lea dst sz (mem_index_only (get_vreg sel (operand d 0))
            (if imm_val s1 = 1 then Scale2 else if imm_val s1 = 2 then Scale4 else Scale8) C sz))
        else None
      else if opcode d = OpArith Op_add then
        (if \<not> is_imm (get_imm_int_info sel (operand d 0)) \<and> \<not> is_imm (get_imm_int_info sel (operand d 1))
         then Some (lea dst sz (mem_base_index (get_vreg sel (operand d 0)) (get_vreg sel (operand d 1)) Scale1 C sz))
         else None)
      else None)"

definition add_const :: "X64ISel \<Rightarrow> VReg \<Rightarrow> nat \<Rightarrow> vid option \<Rightarrow> i64 \<Rightarrow> LirInst list" where
  "add_const sel dst sz reg_val c =
     (let C = ucast c :: i32;
          r = get_vreg sel reg_val;
          fused = (case reg_val of None \<Rightarrow> None
            | Some v \<Rightarrow> (case def_of (isel_values sel) v of None \<Rightarrow> None
                | Some d \<Rightarrow> if skipped_insts sel v then fused_add sel dst sz C d else None))
      in case fused of Some i \<Rightarrow> [i]
       | None \<Rightarrow>
           if C = 0 then (if dst \<noteq> r then [mov_vv dst r sz] else [])
           else if dst = r then [alu_vi sz L_Add32 L_Add dst (scast C) sz]
           else [lea dst sz (mem_base_only r C sz)])"

definition lower_add :: "X64ISel \<Rightarrow> Instruction \<Rightarrow> LirInst list" where
  "lower_add sel inst =
     (let dst = get_vreg sel (result inst); v0 = operand inst 0; v1 = operand inst 1;
          src0 = get_vreg sel v0; src1 = get_vreg sel v1; sz = vreg_size dst;
          imm0 = get_imm_int_info sel v0; imm1 = get_imm_int_info sel v1
      in if is_imm imm1 \<and> fits_i32 imm1 then add_const sel dst sz v0 (imm_val imm1)
         else if is_imm imm0 \<and> fits_i32 imm0 then add_const sel dst sz v1 (imm_val imm0)
         else case fuses sel v1 of
           Some m \<Rightarrow> emit_mov_alu dst sz L_Add32 L_Add src0 m
         | None \<Rightarrow> (case fuses sel v0 of
             Some m \<Rightarrow> emit_mov_alu dst sz L_Add32 L_Add src1 m
           | None \<Rightarrow>
               if dst \<noteq> src0 \<and> dst \<noteq> src1 then [lea dst sz (mem_base_index src0 src1 Scale1 0 sz)]
               else if dst = src1 then emit_mov_alu dst sz L_Add32 L_Add src1 (O_VReg src0 sz)
               else emit_mov_alu dst sz L_Add32 L_Add src0 (O_VReg src1 sz)))"

definition lower_sub :: "X64ISel \<Rightarrow> Instruction \<Rightarrow> LirInst list" where
  "lower_sub sel inst =
     (let dst = get_vreg sel (result inst); v0 = operand inst 0; v1 = operand inst 1;
          src0 = get_vreg sel v0; src1 = get_vreg sel v1; sz = vreg_size dst;
          imm0 = get_imm_int_info sel v0; imm1 = get_imm_int_info sel v1;
          C = ucast (imm_val imm1) :: i32
      in if is_imm imm1 \<and> fits_i32 imm1 \<and> C = 0 then (if dst \<noteq> src0 then [mov_vv dst src0 sz] else [])
         else if is_imm imm1 \<and> fits_i32 imm1 \<and> dst = src0 then [alu_vi sz L_Sub32 L_Sub dst (scast C) sz]
         else if is_imm imm1 \<and> fits_i32 imm1 \<and> sint C \<noteq> INT32_MIN then [lea dst sz (mem_base_only src0 (- C) sz)]
         else if is_imm imm0 \<and> imm_val imm0 = 0 then
           (if dst \<noteq> src1 then [mov_vv dst src1 sz] else []) @ [insn (alu_op sz L_Neg32 L_Neg) [vr dst sz] [vr dst sz]]
         else if is_imm imm0 \<and> fits_i32 imm0 then
           [insn (mov_op sz) [vr dst sz] [im (imm_val imm0) sz], alu_vv sz L_Sub32 L_Sub dst src1]
         else case fuses sel v1 of
           Some m \<Rightarrow> emit_mov_alu dst sz L_Sub32 L_Sub src0 m
         | None \<Rightarrow>
             if is_imm imm1 \<and> fits_i32 imm1 then emit_mov_alu dst sz L_Sub32 L_Sub src0 (O_ImmInt (imm_val imm1) sz)
             else emit_mov_alu dst sz L_Sub32 L_Sub src0 (O_VReg src1 sz))"

definition lower_logic :: "X64ISel \<Rightarrow> Instruction \<Rightarrow> AluOp \<Rightarrow> AluOp \<Rightarrow> LirInst list" where
  "lower_logic sel inst op32 op64 =
     (let dst = get_vreg sel (result inst); v0 = operand inst 0; v1 = operand inst 1;
          src0 = get_vreg sel v0; src1 = get_vreg sel v1; sz = vreg_size dst;
          imm0 = get_imm_int_info sel v0; imm1 = get_imm_int_info sel v1
      in if is_imm imm1 \<and> fits_i32 imm1 then emit_mov_alu dst sz op32 op64 src0 (O_ImmInt (imm_val imm1) sz)
         else if is_imm imm0 \<and> fits_i32 imm0 then emit_mov_alu dst sz op32 op64 src1 (O_ImmInt (imm_val imm0) sz)
         else case fuses sel v1 of
           Some m \<Rightarrow> emit_mov_alu dst sz op32 op64 src0 m
         | None \<Rightarrow> (case fuses sel v0 of
             Some m \<Rightarrow> emit_mov_alu dst sz op32 op64 src1 m
           | None \<Rightarrow>
               if prefer_rhs_first sel inst then emit_mov_alu dst sz op32 op64 src1 (O_VReg src0 sz)
               else emit_mov_alu dst sz op32 op64 src0 (O_VReg src1 sz)))"

section \<open>Unary operations, constants and conversions\<close>

definition lower_neg :: "VReg \<Rightarrow> VReg \<Rightarrow> LirInst list" where
  "lower_neg dst src = (let sz = vreg_size dst in
     [mov_vv dst src sz, insn (alu_op sz L_Neg32 L_Neg) [vr dst sz] [vr dst sz]])"

definition lower_not :: "VReg \<Rightarrow> VReg \<Rightarrow> LirInst list" where
  "lower_not dst src = (let sz = vreg_size dst in
     [mov_vv dst src sz, insn (alu_op sz L_Not32 L_Not) [vr dst sz] [vr dst sz]])"

definition lower_clz :: "VReg \<Rightarrow> VReg \<Rightarrow> LirFunction \<Rightarrow> LirFunction" where
  "lower_clz dst src fn =
     (let sz = vreg_size dst;
          fn = emit [insn (alu_op sz L_Bsr32 L_Bsr) [vr dst sz] [vr src sz]] fn;
          (tmp, fn) = temp sz fn;
          fn = emit [insn (mov_op sz) [vr tmp sz] [im (if sz = 4 then 31 else 63) sz],
            alu_vv sz L_Sub32 L_Sub tmp dst, mov_vv dst tmp sz,
            insn (test_op sz) [] [vr src sz, vr src sz]] fn;
          (zero_val, fn) = temp sz fn
      in emit [insn (mov_op sz) [vr zero_val sz] [im (if sz = 4 then 32 else 64) sz],
           insn_cc (LTest L_Cmovcc) C_E [vr dst sz] [vr dst sz, vr zero_val sz]] fn)"

definition lower_ctz :: "VReg \<Rightarrow> VReg \<Rightarrow> LirFunction \<Rightarrow> LirFunction" where
  "lower_ctz dst src fn =
     (let sz = vreg_size dst;
          fn = emit [insn (alu_op sz L_Bsf32 L_Bsf) [vr dst sz] [vr src sz],
            insn (test_op sz) [] [vr src sz, vr src sz]] fn;
          (zero_val, fn) = temp sz fn
      in emit [insn (mov_op sz) [vr zero_val sz] [im (if sz = 4 then 32 else 64) sz],
           insn_cc (LTest L_Cmovcc) C_E [vr dst sz] [vr dst sz, vr zero_val sz]] fn)"

definition lower_popcnt :: "VReg \<Rightarrow> VReg \<Rightarrow> LirInst list" where
  "lower_popcnt dst src = (let sz = vreg_size dst in
     [insn (alu_op sz L_Popcnt32 L_Popcnt) [vr dst sz] [vr src sz]])"

definition lower_iconst_i32 :: "VReg \<Rightarrow> i32 \<Rightarrow> LirInst list" where
  "lower_iconst_i32 dst c =
     (if c = 0 then [set_zero dst 4] else [insn (LMove L_Mov32) [vr dst 4] [im (scast c) 4]])"

definition lower_iconst_i64 :: "VReg \<Rightarrow> i64 \<Rightarrow> LirInst list" where
  "lower_iconst_i64 dst c =
     (let sz = vreg_size dst in
      if c = 0 then [set_zero dst sz]
      else if sz = 4 then [insn (LMove L_Mov32) [vr dst 4] [im c 4]]
      else if INT32_MIN \<le> sint c \<and> sint c \<le> INT32_MAX then [insn (LMove L_Mov) [vr dst 8] [im c 8]]
      else [insn (LMove L_Movabs) [vr dst 8] [im c 8]])"

definition lower_conversion :: "X64ISel \<Rightarrow> Instruction \<Rightarrow> ConvOp \<Rightarrow> LirInst list option" where
  "lower_conversion sel inst op =
     (let dst = get_vreg sel (result inst); v = operand inst 0; src = get_vreg sel v in
      case op of
        Op_sext_i64 \<Rightarrow> Some [insn (LMove L_Movsxd) [vr dst 8] [vr src 4]]
      | Op_zext_i64 \<Rightarrow>
          Some (if (case v of None \<Rightarrow> False | Some v \<Rightarrow> val_type (isel_values sel v) = I8)
                then [insn (LMove L_Movzx8) [vr dst 4] [vr src 1]]
                else [insn (LMove L_Mov32) [vr dst 4] [vr src 4]])
      | Op_trunc_i32 \<Rightarrow> Some [insn (LMove L_Mov32) [vr dst 4] [vr src 4]]
      | Op_trunc_i8 \<Rightarrow> Some [insn (LMove L_Mov) [vr dst 1] [vr src 1]]
      | _ \<Rightarrow> None)"

section \<open>The dispatch\<close>

text \<open>
  The cases of \<open>lower_instruction\<close> for integer results; \<^const>\<open>None\<close> stands for the cases that are
  not modelled and for the error of an opcode without a lowering.
\<close>

fun lower_arith :: "X64ISel \<Rightarrow> Instruction \<Rightarrow> ArithOp \<Rightarrow> LirFunction \<Rightarrow> LirFunction option" where
  "lower_arith sel inst Op_add fn = Some (emit (lower_add sel inst) fn)"
| "lower_arith sel inst Op_sub fn = Some (emit (lower_sub sel inst) fn)"
| "lower_arith sel inst Op_mul fn = Some (emit (lower_mul sel inst) fn)"
| "lower_arith sel inst Op_sdiv fn = lower_div_mod sel inst True False fn"
| "lower_arith sel inst Op_udiv fn = lower_div_mod sel inst False False fn"
| "lower_arith sel inst Op_smod fn = lower_div_mod sel inst True True fn"
| "lower_arith sel inst Op_umod fn = lower_div_mod sel inst False True fn"
| "lower_arith sel inst Op_and fn = Some (emit (lower_logic sel inst L_And32 L_And) fn)"
| "lower_arith sel inst Op_or fn = Some (emit (lower_logic sel inst L_Or32 L_Or) fn)"
| "lower_arith sel inst Op_xor fn = Some (emit (lower_logic sel inst L_Xor32 L_Xor) fn)"
| "lower_arith sel inst Op_shl fn = Some (lower_shift sel inst L_Shl32 L_Shl fn)"
| "lower_arith sel inst Op_lshr fn = Some (lower_shift sel inst L_Shr32 L_Shr fn)"
| "lower_arith sel inst Op_ashr fn = Some (lower_shift sel inst L_Sar32 L_Sar fn)"
| "lower_arith sel inst Op_neg fn = Some (emit (lower_neg (get_vreg sel (result inst)) (get_vreg sel (operand inst 0))) fn)"
| "lower_arith sel inst Op_not fn = Some (emit (lower_not (get_vreg sel (result inst)) (get_vreg sel (operand inst 0))) fn)"
| "lower_arith sel inst Op_clz fn = Some (lower_clz (get_vreg sel (result inst)) (get_vreg sel (operand inst 0)) fn)"
| "lower_arith sel inst Op_ctz fn = Some (lower_ctz (get_vreg sel (result inst)) (get_vreg sel (operand inst 0)) fn)"
| "lower_arith sel inst Op_popcnt fn = Some (emit (lower_popcnt (get_vreg sel (result inst)) (get_vreg sel (operand inst 0))) fn)"
| "lower_arith sel inst _ fn = None"

definition lower_instruction :: "X64ISel \<Rightarrow> Instruction \<Rightarrow> LirFunction \<Rightarrow> LirFunction option" where
  "lower_instruction sel inst fn =
     (if (case result inst of None \<Rightarrow> False | Some v \<Rightarrow> skipped_insts sel v) then Some fn
      else case opcode inst of
        OpConst c \<Rightarrow> (case c of
            Op_iconst_i32 \<Rightarrow> Some (emit (lower_iconst_i32 (get_vreg sel (result inst)) (imm_i32 inst)) fn)
          | Op_iconst_i64 \<Rightarrow> Some (emit (lower_iconst_i64 (get_vreg sel (result inst)) (imm_i64 inst)) fn)
          | _ \<Rightarrow> None)
      | OpConv c \<Rightarrow> map_option (\<lambda>is. emit is fn) (lower_conversion sel inst c)
      | OpArith f \<Rightarrow> lower_arith sel inst f fn
      | OpCmp c \<Rightarrow> Some (lower_comparison sel inst (fst (get_comparison_conditions c)) fn)
      | OpOvf c \<Rightarrow> Some (lower_overflow_check sel inst c fn)
      | _ \<Rightarrow> None)"

end
