(* ===== verification/X64_Div.thy ===== *)
theory X64_Div
  imports X64_Isel
begin

text \<open>
  Correctness of the x64 lowering of shifts, divisions and remainders: running the emitted code
  leaves the reference result in the destination and every other register of the function as it
  was.  The first section is the arithmetic of the power-of-two sequences, at any width.
\<close>

section \<open>Powers of two\<close>

lemma bit_top: "bit (x :: 'a::len word) (LENGTH('a) - 1) \<longleftrightarrow> sint x < 0"
  by (simp add: bit_last_iff)

text \<open>The bias of a negative dividend: all sign bits, shifted down to the low \<open>k\<close>.\<close>

definition div_bias :: "nat \<Rightarrow> 'a::len word \<Rightarrow> 'a word" where
  "div_bias k x = (if sint x < 0 then mask k else 0)"

lemma arithmetic_sign: "signed_drop_bit (LENGTH('a) - 1) x = (if sint (x :: 'a::len word) < 0 then - 1 else 0)"
proof (rule signed_word_eqI)
  have "- (2 ^ (LENGTH('a) - 1)) \<le> sint x" "sint x < 2 ^ (LENGTH('a) - 1)"
    using sint_greater_eq [of x] sint_lt [of x] by simp_all
  then have "sint x div 2 ^ (LENGTH('a) - 1) = (if sint x < 0 then - 1 else 0)"
    by (cases "sint x < 0") (simp_all add: int_div_pos_eq [of _ _ _ "sint x + 2 ^ (LENGTH('a) - 1)"] div_pos_pos_trivial)
  then show "sint (signed_drop_bit (LENGTH('a) - 1) x) = sint (if sint x < 0 then - 1 else 0 :: 'a word)"
    by (simp add: sint_signed_drop_bit_eq drop_bit_eq_div)
qed

lemma sign_shifted:
  assumes "0 < k" "k < LENGTH('a)"
  shows "drop_bit (LENGTH('a) - k) (signed_drop_bit (LENGTH('a) - 1) x) = div_bias k (x :: 'a::len word)"
proof -
  have "drop_bit (LENGTH('a) - k) (- 1 :: 'a word) = mask k"
    by (rule bit_word_eqI) (use assms in \<open>auto simp: bit_simps\<close>)
  then show ?thesis by (simp add: arithmetic_sign [unfolded One_nat_def] div_bias_def)
qed

lemma sign_shifted_1: "drop_bit (LENGTH('a) - 1) x = div_bias 1 (x :: 'a::len word)"
proof (rule bit_word_eqI)
  fix n assume "n < LENGTH('a)"
  then show "bit (drop_bit (LENGTH('a) - 1) x) n = bit (div_bias 1 x) n"
    using bit_top [of x] bit_imp_le_length [of x "LENGTH('a) - 1 + n"]
    by (cases n) (auto simp: bit_simps div_bias_def)
qed

lemma sint_pow2:
  assumes "k < LENGTH('a) - 1"
  shows "sint (2 ^ k :: 'a::len word) = 2 ^ k"
proof -
  have "(2 :: int) ^ k < 2 ^ (LENGTH('a) - 1)" using assms by (intro power_strict_increasing) simp_all
  then have "sint (word_of_int (2 ^ k) :: 'a word) = 2 ^ k"
    by (intro sint_of_int_in_range) (simp_all add: order.trans [of _ 0])
  then show ?thesis by simp
qed

lemma sint_biased:
  assumes "k < LENGTH('a) - 1"
  shows "sint (x + div_bias k x) = sint x + (if sint (x :: 'a::len word) < 0 then 2 ^ k - 1 else 0)"
proof (cases "sint x < 0")
  case True
  have "(2 :: int) ^ k < 2 ^ (LENGTH('a) - 1)" "(1 :: int) \<le> 2 ^ k"
    using assms by (intro power_strict_increasing) simp_all
  moreover have "- (2 ^ (LENGTH('a) - 1)) \<le> sint x" using sint_greater_eq [of x] by simp
  ultimately have "sint (word_of_int (sint x + (2 ^ k - 1)) :: 'a word) = sint x + (2 ^ k - 1)"
    using True by (intro sint_of_int_in_range) linarith+
  moreover have "x + mask k = word_of_int (sint x + (2 ^ k - 1))"
    by (simp add: mask_eq_exp_minus_1)
  ultimately show ?thesis using True by (simp add: div_bias_def)
qed (simp add: div_bias_def)

lemma sdiv_pow2_int: "n sdiv 2 ^ k = (n + (if n < 0 then 2 ^ k - 1 else 0)) div 2 ^ k" for n :: int
proof (cases "n < 0")
  case True
  let ?q = "- n div 2 ^ k" and ?r = "- n mod 2 ^ k"
  have "- n = 2 ^ k * ?q + ?r" by simp
  then have "n + (2 ^ k - 1) = 2 ^ k * - ?q + (2 ^ k - 1 - ?r)" by linarith
  moreover have "0 \<le> 2 ^ k - 1 - ?r" "2 ^ k - 1 - ?r < 2 ^ k"
    using pos_mod_bound [of "2 ^ k" "- n"] pos_mod_sign [of "2 ^ k" "- n"] zero_less_power [of "2 :: int" k] by linarith+
  ultimately have "(n + (2 ^ k - 1)) div 2 ^ k = - ?q" by (rule int_div_pos_eq)
  then show ?thesis using True by (simp add: signed_divide_int_def)
next
  case False
  then show ?thesis by (cases "n = 0") (simp_all add: signed_divide_int_def)
qed

text \<open>The biased shift divides, and clearing the low bits gives the multiple the remainder is taken from.\<close>

lemma biased_shift:
  assumes "k < LENGTH('a) - 1"
  shows "signed_drop_bit k (x + div_bias k x) = word_sdiv x (2 ^ k :: 'a::len word)"
proof -
  have "sint (signed_drop_bit k (x + div_bias k x)) = sint x sdiv 2 ^ k"
    by (simp add: sint_signed_drop_bit_eq drop_bit_eq_div sint_biased [OF assms] sdiv_pow2_int)
  then show ?thesis unfolding word_sdiv_def sint_pow2 [OF assms] by (metis word_of_int_sint)
qed

lemma cleared_multiple: "y AND NOT (mask k) = 2 ^ k * signed_drop_bit k (y :: 'a::len word)"
proof -
  have "y AND NOT (mask k) = push_bit k (signed_drop_bit k y)"
    by (rule bit_word_eqI) (auto simp: bit_simps bit_signed_drop_bit_iff)
  then show ?thesis by (simp add: push_bit_eq_mult mult.commute)
qed

lemma biased_remainder:
  assumes "k < LENGTH('a) - 1"
  shows "x - ((x + div_bias k x) AND NOT (mask k)) = word_smod x (2 ^ k :: 'a::len word)"
proof -
  have "x - 2 ^ k * word_of_int (sint x sdiv 2 ^ k) = word_of_int (sint x - 2 ^ k * (sint x sdiv 2 ^ k))"
    by simp
  moreover have "sint x - 2 ^ k * (sint x sdiv 2 ^ k) = sint x smod 2 ^ k"
    using sdiv_mult_smod_eq [of "sint x" "2 ^ k"] by (simp add: mult.commute)
  ultimately show ?thesis
    unfolding cleared_multiple biased_shift [OF assms] by (simp add: word_sdiv_def word_smod_def sint_pow2 [OF assms])
qed

lemma udiv_pow2: "k < LENGTH('a) \<Longrightarrow> drop_bit k x = x div (2 ^ k :: 'a::len word)"
  by (simp add: drop_bit_eq_div)

lemma umod_pow2: "x AND mask k = x mod (2 ^ k :: 'a::len word)"
  by (simp flip: take_bit_eq_mask add: take_bit_eq_mod)

section \<open>The emitted code\<close>

text \<open>
  Running what a lowering appended computes \<open>P\<close> of the destination and keeps every other
  register the function already had.
\<close>

definition new_code :: "LirFunction \<Rightarrow> LirFunction \<Rightarrow> LirInst list" where
  "new_code fn fn' = drop (length (lir_code fn)) (lir_code fn')"

definition computes ::
    "x64_cpu \<Rightarrow> lir_env \<Rightarrow> LirFunction \<Rightarrow> LirFunction \<Rightarrow> LirExecState \<Rightarrow> VReg \<Rightarrow> (u64 \<Rightarrow> bool) \<Rightarrow> bool" where
  "computes cpu e fn fn' st dst P \<longleftrightarrow> runs cpu e (new_code fn fn') st (\<lambda>st'. P (vregs st' (vreg_id dst)) \<and>
     (\<forall>v < length (vreg_table fn). v \<noteq> vreg_id dst \<longrightarrow> vregs st' v = vregs st v))"

lemma insn_eq [simp]: "insn op ds us = LI op (map fst ds) (map fst us) (map snd ds) (map snd us) C_None"
proof -
  have u: "foldl (\<lambda>i (u, c). add_use u c i) i us =
      i\<lparr>lir_uses := lir_uses i @ map fst us, use_constraints := use_constraints i @ map snd us\<rparr>" for i us
    by (induction us arbitrary: i) (auto simp: add_use_def)
  have d: "foldl (\<lambda>i (u, c). add_def u c i) i ds =
      i\<lparr>lir_defs := lir_defs i @ map fst ds, def_constraints := def_constraints i @ map snd ds\<rparr>" for i ds
    by (induction ds arbitrary: i) (auto simp: add_def_def)
  show ?thesis by (simp add: insn_def u d new_inst_def)
qed

lemma insn_cc_eq [simp]: "insn_cc op c ds us = LI op (map fst ds) (map fst us) (map snd ds) (map snd us) c"
  by (simp add: insn_cc_def)

lemma emit_fields [simp]: "lir_code (emit is fn) = lir_code fn @ is" "vreg_table (emit is fn) = vreg_table fn"
  by (induction "is" arbitrary: fn) (simp_all add: emit_def append_inst_def)

lemma new_code_emit [simp]: "new_code fn (emit is fn) = is"
  by (simp add: new_code_def)

definition temp_vreg :: "nat \<Rightarrow> nat \<Rightarrow> VReg" where
  "temp_vreg k sz = fst (temp sz \<lparr>vreg_table = replicate k default_VReg, lir_code = []\<rparr>)"

lemma temp_eq: "temp sz fn = (temp_vreg (length (vreg_table fn)) sz,
    fn\<lparr>vreg_table := vreg_table fn @ [temp_vreg (length (vreg_table fn)) sz]\<rparr>)"
  by (simp add: temp_vreg_def temp_def allocate_vreg_def Let_def)

lemma temp_vreg_id [simp]: "vreg_id (temp_vreg k sz) = k"
  by (simp add: temp_vreg_def temp_def allocate_vreg_def Let_def)

lemma code_of_table [simp]: "lir_code (fn\<lparr>vreg_table := t\<rparr>) = lir_code fn"
  by simp

lemmas shape_defs = vr_def im_def fixed_def mov_op_def alu_op_def mov_vv_def alu_vv_def alu_vi_def set_zero_def
  cmp_op_def test_op_def set_bool_def

lemma fixed_regs [simp]: "plain_src (op_preg_gpr g s)" "plain_dst (op_preg_gpr g s)"
  "src_val st (op_preg_gpr g s) = gpr st (unat (gpr_code g))"
  "dst_vregs (op_preg_gpr g s) v f = f" "dst_gpr (op_preg_gpr g s) v h = h(unat (gpr_code g) := v)"
  by (cases g; simp add: op_preg_gpr_def preg_gpr_def preg_is_gpr_def preg_valid_def RC_GPR_def)+

section \<open>Operands\<close>

text \<open>A value in a register of the function other than the destination, its definition not folded away.\<close>

definition in_reg :: "X64ISel \<Rightarrow> LirFunction \<Rightarrow> LirExecState \<Rightarrow> VReg \<Rightarrow> vid option \<Rightarrow> 'a::len word \<Rightarrow> bool" where
  "in_reg sel fn st dst v x \<longleftrightarrow> vreg_id (get_vreg sel v) < length (vreg_table fn) \<and>
     vreg_id (get_vreg sel v) \<noteq> vreg_id dst \<and> ucast (vregs st (vreg_id (get_vreg sel v))) = x \<and>
     (\<forall>u. v = Some u \<longrightarrow> \<not> skipped_insts sel u)"

text \<open>A value that, where the selector sees a constant, is that constant.\<close>

definition const_ok :: "X64ISel \<Rightarrow> vid option \<Rightarrow> 'a::len word \<Rightarrow> bool" where
  "const_ok sel v x \<longleftrightarrow> (is_imm (get_imm_int_info sel v) \<longrightarrow> imm_val (get_imm_int_info sel v) = scast x)"

lemma fits_of_info:
  assumes "is_imm (get_imm_int_info sel v)"
  shows "fits_i32 (get_imm_int_info sel v) \<longleftrightarrow>
    INT32_MIN \<le> sint (imm_val (get_imm_int_info sel v)) \<and> sint (imm_val (get_imm_int_info sel v)) \<le> INT32_MAX"
  using assms sint_range32
  by (auto simp: get_imm_int_info_def no_imm_def sint_scast_32_64 split: option.splits if_splits)

section \<open>Shifts\<close>

fun shift_pair :: "ArithOp \<Rightarrow> (AluOp \<times> AluOp) option" where
  "shift_pair Op_shl = Some (L_Shl32, L_Shl)"
| "shift_pair Op_lshr = Some (L_Shr32, L_Shr)"
| "shift_pair Op_ashr = Some (L_Sar32, L_Sar)"
| "shift_pair _ = None"

lemma shift_pair_alu: "shift_pair f = Some (op32, op64) \<Longrightarrow> alu32 op32 = Some f \<and> alu64 op64 = Some f"
  by (cases f) auto

lemma arith_val_shift:
  assumes "shift_pair f = Some ops" "shift_amount y = shift_amount y'"
  shows "arith_val f x y = arith_val f x y'"
  using assms by (cases f) (simp_all add: arith_val_def)

lemma shift_val_0: "shift_pair f = Some ops \<Longrightarrow> shift_amount y = 0 \<Longrightarrow> arith_val f x y = x"
  by (cases f) (simp_all add: arith_val_def)

lemma masked_amount:
  fixes y :: u64 and t :: u32
  shows "shift_amount (ucast (ucast (y AND 63) :: u8) :: u64) = shift_amount y"
    and "shift_amount (ucast (ucast (ucast (scast t AND 31 :: u64) :: u8) :: u64) :: u32) = shift_amount t"
proof -
  have m: "(63 :: u64) = mask 6" "(31 :: u64) = mask 5" by (simp_all add: mask_eq_exp_minus_1)
  have "ucast (ucast (y AND 63) :: u8) = take_bit 6 y" unfolding m
    by (rule bit_word_eqI) (auto simp: bit_simps)
  then show "shift_amount (ucast (ucast (y AND 63) :: u8) :: u64) = shift_amount y"
    by (simp add: shift_amount_def take_bit_eq_mod unat_mod)
  have "(ucast (ucast (ucast (scast t AND 31 :: u64) :: u8) :: u64) :: u32) = take_bit 5 t" unfolding m
    by (rule bit_word_eqI) (auto simp: bit_simps)
  then show "shift_amount (ucast (ucast (ucast (scast t AND 31 :: u64) :: u8) :: u64) :: u32) = shift_amount t"
    by (simp add: shift_amount_def take_bit_eq_mod unat_mod)
qed

lemma lower_shift_64:
  assumes "shift_pair f = Some (op32, op64)" "vreg_size (get_vreg sel (result inst)) = 8" "supported st"
    and x: "in_reg sel fn st (get_vreg sel (result inst)) (operand inst 0) (x :: u64)"
    and "const_ok sel (operand inst 1) y"
    and y: "is_imm (get_imm_int_info sel (operand inst 1)) \<or> in_reg sel fn st (get_vreg sel (result inst)) (operand inst 1) y"
  shows "computes cpu e fn (lower_shift sel inst op32 op64 fn) st (get_vreg sel (result inst)) (\<lambda>v. v = arith_val f x y)"
proof -
  have a: "alu64 op64 = Some f" using shift_pair_alu [OF assms(1)] by simp
  let ?amt = "ucast (y AND 63) :: u8"
  have amt: "arith_val f x (ucast ?amt) = arith_val f x y" by (rule arith_val_shift [OF assms(1) masked_amount(1)])
  then have amt0: "?amt = 0 \<Longrightarrow> arith_val f x y = x" using shift_val_0 [OF assms(1), of 0 x] by (simp add: shift_amount_def)
  show ?thesis
  proof (cases "is_imm (get_imm_int_info sel (operand inst 1))")
    case True
    then have "imm_val (get_imm_int_info sel (operand inst 1)) = y" using assms(5) by (simp add: const_ok_def)
    then show ?thesis
      using True x amt amt0 assms(2,3) by (cases "?amt = 0")
        (auto simp: computes_def lower_shift_def Let_def in_reg_def shape_defs sets_def intro!: runs_mov runs_alu64 [OF a] runs_Nil)
  next
    case False
    then show ?thesis
      using y x assms(2,3)
      by (auto simp: computes_def lower_shift_def Let_def in_reg_def shape_defs sets_def intro!: runs_mov runs_alu64 [OF a] runs_Nil)
  qed
qed

lemma lower_shift_32:
  assumes "shift_pair f = Some (op32, op64)" "vreg_size (get_vreg sel (result inst)) = 4" "supported st"
    and x: "in_reg sel fn st (get_vreg sel (result inst)) (operand inst 0) (x :: u32)"
    and "const_ok sel (operand inst 1) y"
    and y: "is_imm (get_imm_int_info sel (operand inst 1)) \<or> in_reg sel fn st (get_vreg sel (result inst)) (operand inst 1) y"
  shows "computes cpu e fn (lower_shift sel inst op32 op64 fn) st (get_vreg sel (result inst)) (\<lambda>v. v = ucast (arith_val f x y))"
proof -
  have a: "alu32 op32 = Some f" using shift_pair_alu [OF assms(1)] by simp
  let ?amt = "ucast (scast y AND 31 :: u64) :: u8"
  have amt: "arith_val f x (ucast (ucast ?amt :: u64)) = arith_val f x y"
    by (rule arith_val_shift [OF assms(1) masked_amount(2)])
  then have amt0: "?amt = 0 \<Longrightarrow> arith_val f x y = x" using shift_val_0 [OF assms(1), of 0 x] by (simp add: shift_amount_def)
  show ?thesis
  proof (cases "is_imm (get_imm_int_info sel (operand inst 1))")
    case True
    then have "imm_val (get_imm_int_info sel (operand inst 1)) = scast y" using assms(5) by (simp add: const_ok_def)
    then show ?thesis
      using True x amt amt0 assms(2,3) by (cases "?amt = 0")
        (auto simp: computes_def lower_shift_def Let_def in_reg_def shape_defs sets_def intro!: runs_mov32 runs_alu32 [OF a] runs_Nil)
  next
    case False
    then show ?thesis
      using y x assms(2,3)
      by (auto simp: computes_def lower_shift_def Let_def in_reg_def shape_defs sets_def intro!: runs_mov runs_mov32 runs_alu32 [OF a] runs_Nil)
  qed
qed

section \<open>Division\<close>

lemma unat_pow2: "j < LENGTH('a) \<Longrightarrow> unat (2 ^ j :: 'a::len word) = 2 ^ j"
  using unat_of_nat [of "2 ^ j", where 'a = 'a] by (simp add: power_strict_increasing)

lemma log2_from_pow2: "k \<le> j \<Longrightarrow> j < 64 \<Longrightarrow> log2_from k (2 ^ j) = j"
proof (induction "j - k" arbitrary: k)
  case 0
  then show ?case by (simp add: log2_from.simps unat_pow2)
next
  case (Suc d)
  then have "2 ^ k < (2 :: nat) ^ j" by (intro power_strict_increasing) simp_all
  then show ?case using Suc by (subst log2_from.simps) (simp add: unat_pow2)
qed

text \<open>A positive constant whose \<open>c & (c - 1)\<close> is zero is a power of two: otherwise both have its top bit.\<close>

lemma pow2_of_and:
  assumes "c AND (c - 1) = 0" "0 < sint (c :: u64)"
  obtains j where "j < 63" "c = 2 ^ j"
proof -
  have c: "c \<noteq> 0" using assms(2) by auto
  then have "1 \<le> unat c" by (simp add: Suc_le_eq unat_gt_0)
  then obtain j where j: "2 ^ j \<le> unat c" "unat c < 2 ^ (j + 1)" using ex_power_ivl1 [of 2 "unat c"] by auto
  have "unat c < 9223372036854775808"
    using assms(2) uint_of_non_negative [of c] sint_range64 [of c] by (simp add: unat_eq_nat_uint)
  then have "(2 :: nat) ^ j < 2 ^ 63" using j(1) by simp
  then have "j < 63" by (rule power_less_imp_less_exp [rotated]) simp
  have top: "bit w j" if "2 ^ j \<le> unat w" "unat w < 2 ^ (j + 1)" for w :: u64
  proof -
    have "unat w div 2 ^ j = 1" using that by (intro Euclidean_Rings.div_nat_eqI) simp_all
    then have "bit (unat w) j" by (simp add: bit_iff_odd)
    then show ?thesis by (simp add: bit_unsigned_iff)
  qed
  have "unat c = 2 ^ j"
  proof (rule ccontr)
    assume "unat c \<noteq> 2 ^ j"
    then have "2 ^ j \<le> unat (c - 1)" "unat (c - 1) < 2 ^ (j + 1)" using j c by (simp_all add: unat_minus_one)
    then have "bit (c AND (c - 1)) j" using top [of c] top [of "c - 1"] j by (simp add: bit_and_iff)
    then show False using assms(1) by simp
  qed
  then have "c = 2 ^ j" using \<open>j < 63\<close> by (simp add: word_unat_eq_iff unat_pow2)
  with \<open>j < 63\<close> show ?thesis by (rule that)
qed

lemma divide_64:
  assumes "x64_cpu_laws cpu" "supported st"
    and "vreg_id op0 < length (vreg_table fn)" "vreg_id op0 \<noteq> vreg_id dst" "vregs st (vreg_id op0) = x"
    and "vregs st (vreg_id op1) = y" "y \<noteq> 0"
  shows "computes cpu e fn (lower_divide dst op0 op1 8 is_signed is_mod fn) st dst
    (\<lambda>v. v = (if is_signed then if is_mod then word_smod x y else word_sdiv x y else if is_mod then x mod y else x div y))"
proof -
  note rules = runs_rules x64_cpu_laws.runs_divides [OF assms(1)]
  show ?thesis
    using assms(2-)
    by (cases is_signed; cases is_mod)
      (auto simp: computes_def lower_divide_def shape_defs sets_def sets_pair_def intro!: rules)
qed

lemma divide_32:
  assumes "x64_cpu_laws cpu" "supported st"
    and "vreg_id op0 < length (vreg_table fn)" "vreg_id op0 \<noteq> vreg_id dst" "ucast (vregs st (vreg_id op0)) = (x :: u32)"
    and "ucast (vregs st (vreg_id op1)) = y" "y \<noteq> 0"
  shows "computes cpu e fn (lower_divide dst op0 op1 4 is_signed is_mod fn) st dst
    (\<lambda>v. v = ucast (if is_signed then if is_mod then word_smod x y else word_sdiv x y else if is_mod then x mod y else x div y))"
proof -
  note rules = runs_rules x64_cpu_laws.runs_divides [OF assms(1)]
  show ?thesis
    using assms(2-)
    by (cases is_signed; cases is_mod)
      (auto simp: computes_def lower_divide_def shape_defs sets_def sets_pair_def intro!: rules)
qed

text \<open>Immediate shift counts and masks as the executor reads them.\<close>

lemma count_64 [simp]: "k < 64 \<Longrightarrow> shift_amount (of_nat k :: u64) = k"
  by (simp add: shift_amount_def unat_of_nat)

lemma count_32 [simp]: "k < 32 \<Longrightarrow> shift_amount (ucast (of_nat k :: u64) :: u32) = k"
  by (simp add: shift_amount_def unsigned_ucast_eq unat_of_nat take_bit_nat_eq_self)

lemma count_diff [simp]:
  "0 < k \<Longrightarrow> k < 64 \<Longrightarrow> shift_amount (64 - of_nat k :: u64) = 64 - k"
  "0 < k \<Longrightarrow> k < 32 \<Longrightarrow> shift_amount (ucast (32 - of_nat k :: u64) :: u32) = 32 - k"
  using count_64 [of "64 - k"] count_32 [of "32 - k"] by simp_all

lemma count_numerals [simp]:
  "shift_amount (63 :: u64) = 63" "shift_amount (31 :: u32) = 31" "shift_amount (1 :: u64) = 1"
  "shift_amount (1 :: u32) = 1" "shift_amount (32 :: u64) = 32"
  by (simp_all add: shift_amount_def)

lemma low_mask_imm:
  assumes "k \<le> 31"
  shows "scast (ucast (2 ^ k - 1 :: u64) :: i32) = (mask k :: u64)" "scast (ucast (NOT (2 ^ k - 1) :: u64) :: i32) = (NOT (mask k) :: u64)"
    and "(2 ^ k - 1 :: u64) \<le> 2147483647"
proof -
  have m: "2 ^ k - 1 = (mask k :: u64)" by (simp add: mask_eq_exp_minus_1)
  show "scast (ucast (2 ^ k - 1 :: u64) :: i32) = (mask k :: u64)" unfolding m
    by (rule bit_word_eqI) (use assms in \<open>auto simp: bit_simps\<close>)
  show "scast (ucast (NOT (2 ^ k - 1) :: u64) :: i32) = (NOT (mask k) :: u64)" unfolding m
    by (rule bit_word_eqI) (use assms in \<open>auto simp: bit_simps min_def\<close>)
  have "(2 :: nat) ^ k \<le> 2 ^ 31" using assms by (intro power_increasing) simp_all
  moreover have "unat (2 ^ k - 1 :: u64) = 2 ^ k - 1" using assms by (simp add: unat_minus_one unat_pow2)
  ultimately show "(2 ^ k - 1 :: u64) \<le> 2147483647" by (simp add: word_le_nat_alt)
qed

lemma minus_2_low: "(18446744073709551614 :: u32) = - 2"
  by code_simp

text \<open>
  The destination's final value under a lowering, and the frame: the registers a lowering may
  write besides the destination are its temporaries.
\<close>

lemmas run_defs = computes_def new_code_def shape_defs sets_def Let_def temp_eq

lemma umod_fold: "k < LENGTH('a) \<Longrightarrow> x AND (2 ^ k - 1) = x mod (2 ^ k :: 'a::len word)"
  by (simp add: umod_pow2 flip: mask_eq_exp_minus_1)

lemma udiv_pow2_64:
  assumes "supported st" "vreg_id op0 \<noteq> vreg_id dst" "vregs st (vreg_id op0) = x" "k < 64"
  shows "computes cpu e fn (lower_udiv_pow2 dst op0 8 k fn) st dst (\<lambda>v. v = x div 2 ^ k)"
  using assms by (cases "k = 0") (auto simp: run_defs lower_udiv_pow2_def drop_bit_eq_div intro!: runs_rules)

lemma udiv_pow2_32:
  assumes "supported st" "vreg_id op0 \<noteq> vreg_id dst" "ucast (vregs st (vreg_id op0)) = (x :: u32)" "k < 32"
  shows "computes cpu e fn (lower_udiv_pow2 dst op0 4 k fn) st dst (\<lambda>v. v = ucast (x div 2 ^ k))"
  using assms by (cases "k = 0") (auto simp: run_defs lower_udiv_pow2_def drop_bit_eq_div intro!: runs_rules)

lemma umod_pow2_64:
  assumes "supported st" "vreg_id op0 \<noteq> vreg_id dst" "vregs st (vreg_id op0) = x" "k \<le> 31"
  shows "\<exists>fn'. lower_umod_pow2 dst op0 8 k (2 ^ k) fn = Some fn' \<and> computes cpu e fn fn' st dst (\<lambda>v. v = x mod 2 ^ k)"
  using assms low_mask_imm [OF assms(4)]
  by (cases "k = 0") (auto simp: run_defs lower_umod_pow2_def umod_pow2 intro!: runs_rules)

lemma ucast_masks: "k \<le> 32 \<Longrightarrow> ucast (mask k :: u64) = (mask k :: u32)" "k \<le> 32 \<Longrightarrow> ucast (NOT (mask k) :: u64) = (NOT (mask k) :: u32)"
  by (rule bit_word_eqI; auto simp: bit_simps)+

lemma umod_pow2_32:
  assumes "supported st" "vreg_id op0 \<noteq> vreg_id dst" "ucast (vregs st (vreg_id op0)) = (x :: u32)" "k < 31"
  shows "\<exists>fn'. lower_umod_pow2 dst op0 4 k (2 ^ k) fn = Some fn' \<and>
    computes cpu e fn fn' st dst (\<lambda>v. v = ucast (x mod 2 ^ k))"
  using assms low_mask_imm [of k]
  by (cases "k = 0") (auto simp: run_defs lower_umod_pow2_def umod_pow2 ucast_masks intro!: runs_rules)

lemmas bias_64 = sign_shifted [where 'a = 64, simplified] sign_shifted_1 [where 'a = 64, simplified]
lemmas bias_32 = sign_shifted [where 'a = 32, simplified] sign_shifted_1 [where 'a = 32, simplified]

lemma word_sdiv_1: "0 < LENGTH('a) - 1 \<Longrightarrow> word_sdiv x (1 :: 'a::len word) = x"
  using sint_pow2 [of 0, where 'a = 'a] by (simp add: word_sdiv_def signed_divide_int_def sgn_mult_abs)

lemma word_smod_1: "0 < LENGTH('a) - 1 \<Longrightarrow> word_smod x (1 :: 'a::len word) = 0"
  using sint_pow2 [of 0, where 'a = 'a] by (simp add: word_smod_def signed_modulo_int_def)

lemma sdiv_pow2_64:
  assumes "supported st" "vreg_id op0 < length (vreg_table fn)" "vreg_id dst < length (vreg_table fn)"
    "vreg_id op0 \<noteq> vreg_id dst" "vregs st (vreg_id op0) = x" "k < 63"
  shows "computes cpu e fn (lower_sdiv_pow2 dst op0 8 k fn) st dst (\<lambda>v. v = word_sdiv x (2 ^ k))"
proof -
  consider "k = 0" | "k = 1" | "1 < k" by linarith
  then show ?thesis
    using assms biased_shift [of k x]
    by cases (auto simp: run_defs lower_sdiv_pow2_def bias_64 word_sdiv_1 intro!: runs_rules)
qed

lemma sdiv_pow2_32:
  assumes "supported st" "vreg_id op0 < length (vreg_table fn)" "vreg_id dst < length (vreg_table fn)"
    "vreg_id op0 \<noteq> vreg_id dst" "ucast (vregs st (vreg_id op0)) = (x :: u32)" "k < 31"
  shows "computes cpu e fn (lower_sdiv_pow2 dst op0 4 k fn) st dst (\<lambda>v. v = ucast (word_sdiv x (2 ^ k)))"
proof -
  consider "k = 0" | "k = 1" | "1 < k" by linarith
  then show ?thesis
    using assms biased_shift [of k x]
    by cases (auto simp: run_defs lower_sdiv_pow2_def bias_32 word_sdiv_1 intro!: runs_rules)
qed

lemma smod_pow2_64:
  assumes "supported st" "vreg_id op0 < length (vreg_table fn)" "vreg_id dst < length (vreg_table fn)"
    "vreg_id op0 \<noteq> vreg_id dst" "vregs st (vreg_id op0) = x" "k \<le> 31"
  shows "computes cpu e fn (lower_smod_pow2 dst op0 8 k (2 ^ k) fn) st dst (\<lambda>v. v = word_smod x (2 ^ k))"
proof -
  consider "k = 0" | "k = 1" | "1 < k" by linarith
  then show ?thesis
    using assms biased_remainder [of k x, unfolded add.commute [of x]] low_mask_imm [OF assms(6)]
    by cases (auto simp: run_defs lower_smod_pow2_def bias_64 word_smod_1 intro!: runs_rules)
qed

lemma smod_pow2_32:
  assumes "supported st" "vreg_id op0 < length (vreg_table fn)" "vreg_id dst < length (vreg_table fn)"
    "vreg_id op0 \<noteq> vreg_id dst" "ucast (vregs st (vreg_id op0)) = (x :: u32)" "k < 31"
  shows "computes cpu e fn (lower_smod_pow2 dst op0 4 k (2 ^ k) fn) st dst (\<lambda>v. v = ucast (word_smod x (2 ^ k)))"
proof -
  consider "k = 0" | "k = 1" | "1 < k" by linarith
  then show ?thesis
    using assms biased_remainder [of k x, unfolded add.commute [of x]] low_mask_imm [of k]
    by cases (auto simp: run_defs lower_smod_pow2_def bias_32 word_smod_1 minus_2_low ucast_masks intro!: runs_rules)
qed

text \<open>The multiplication sequence.\<close>

lemma word_smod_by_sdiv: "x - word_sdiv x y * y = word_smod x (y :: 'a::len word)"
proof -
  have "x - word_of_int (sint x sdiv sint y) * y = word_of_int (sint x - (sint x sdiv sint y) * sint y)" by simp
  also have "sint x - (sint x sdiv sint y) * sint y = sint x smod sint y"
    using sdiv_mult_smod_eq [of "sint x" "sint y"] by simp
  finally show ?thesis by (simp add: word_sdiv_def word_smod_def)
qed

text \<open>The code before the two endings leaves the quotient's parts in the two temporaries.\<close>

definition magic_code :: "SignedDivMagic \<Rightarrow> VReg \<Rightarrow> VReg \<Rightarrow> VReg \<Rightarrow> LirInst list" where
  "magic_code mg n q sign =
     [insn (LMove L_Mov) [fixed RAX 8] [im (multiplier mg) 8],
      insn (LAlu L_Smulh) [fixed RAX 8, fixed RDX 8] [fixed RAX 8, vr n 8],
      insn (LMove L_Mov) [vr q 8] [fixed RDX 8]] @
     (if sint (multiplier mg) < 0 then [insn (LAlu L_Add) [vr q 8] [vr q 8, vr n 8]] else []) @
     (if magic_shift mg > 0 then [insn (LAlu L_Sar) [vr q 8] [vr q 8, im (of_nat (magic_shift mg)) 1]] else []) @
     [insn (LMove L_Mov) [vr sign 8] [vr n 8], insn (LAlu L_Shr) [vr sign 8] [vr sign 8, im 63 1]]"

definition magic_ending :: "bool \<Rightarrow> ImmIntInfo \<Rightarrow> VReg \<Rightarrow> VReg \<Rightarrow> VReg \<Rightarrow> VReg \<Rightarrow> VReg \<Rightarrow> VReg \<Rightarrow> LirInst list" where
  "magic_ending md info dst n d q sign pr =
     (if \<not> md then [insn (LMove L_Mov) [vr dst 8] [vr q 8], insn (LAlu L_Add) [vr dst 8] [vr dst 8, vr sign 8]]
      else [insn (LAlu L_Add) [vr q 8] [vr q 8, vr sign 8]] @
        (if fits_i32 info then [insn (LAlu L_Imul) [vr pr 8] [vr q 8, im (imm_val info) 8]]
         else [insn (LMove L_Mov) [vr pr 8] [vr q 8], insn (LAlu L_Imul) [vr pr 8] [vr pr 8, vr d 8]]) @
        [insn (LMove L_Mov) [vr dst 8] [vr n 8], insn (LAlu L_Sub) [vr dst 8] [vr dst 8, vr pr 8]])"

lemma lower_signed_div_magic_code:
  assumes "signed_div_magic64 (imm_val info) = Some mg" and "N = length (vreg_table fn)"
  obtains fn' where "lower_signed_div_magic sel inst md info fn = Some fn'"
    and "new_code fn fn' = magic_code mg (get_vreg sel (operand inst 0)) (temp_vreg N 8) (temp_vreg (N + 1) 8) @
      magic_ending md info (get_vreg sel (result inst)) (get_vreg sel (operand inst 0)) (get_vreg sel (operand inst 1))
        (temp_vreg N 8) (temp_vreg (N + 1) 8) (temp_vreg (N + 2) 8)"
proof -
  have "\<exists>fn'. lower_signed_div_magic sel inst md info fn = Some fn' \<and>
    new_code fn fn' = magic_code mg (get_vreg sel (operand inst 0)) (temp_vreg N 8) (temp_vreg (N + 1) 8) @
      magic_ending md info (get_vreg sel (result inst)) (get_vreg sel (operand inst 0)) (get_vreg sel (operand inst 1))
        (temp_vreg N 8) (temp_vreg (N + 1) 8) (temp_vreg (N + 2) 8)"
    unfolding lower_signed_div_magic_def assms(1) assms(2)
    by (cases md; cases "fits_i32 info"; cases "sint (multiplier mg) < 0"; cases "magic_shift mg > 0")
      (simp_all add: magic_code_def magic_ending_def Let_def temp_eq new_code_def del: insn_eq)
  then show ?thesis using that by blast
qed

lemma magic_code_runs:
  assumes cpu: "x64_cpu_laws cpu" and "supported st" "takes_signed_div_magic y" "signed_div_magic64 y = Some mg"
    and "vregs st (vreg_id n) = x" "vreg_id n \<noteq> vreg_id q" "vreg_id n \<noteq> vreg_id sign" "vreg_id q \<noteq> vreg_id sign"
  shows "runs cpu e (magic_code mg n q sign) st (\<lambda>st'. supported st' \<and>
    (\<exists>t. vregs st' = (vregs st)(vreg_id q := t, vreg_id sign := drop_bit 63 x) \<and> t + drop_bit 63 x = word_sdiv x y))"
proof -
  obtain A p where "magic_exponent (unat y) A p" "magic_shift mg = p - 64"
    using signed_div_magic64_found [OF assms(3)] assms(4) by (metis option.inject)
  then have s: "magic_shift mg < 64" by (auto simp: magic_exponent_def)
  have q: "signed_drop_bit (magic_shift mg)
      (if sint (multiplier mg) < 0 then smulh (multiplier mg) x + x else smulh (multiplier mg) x) + drop_bit 63 x = word_sdiv x y"
    using magic_quotient_int [OF assms(3,4), of x] by (simp add: magic_quotient_def Let_def)
  note rules = runs_rules x64_cpu_laws.runs_divides [OF cpu]
  show ?thesis
    using assms(2,5-) s q
    by (cases "sint (multiplier mg) < 0"; cases "magic_shift mg = 0")
      (auto simp: magic_code_def shape_defs sets_def sets_pair_def intro!: rules)
qed

lemma magic_64:
  assumes cpu: "x64_cpu_laws cpu" and "supported st" "takes_signed_div_magic y" "imm_val info = y"
    and x: "in_reg sel fn st (get_vreg sel (result inst)) (operand inst 0) x"
    and dst: "vreg_id (get_vreg sel (result inst)) < length (vreg_table fn)"
    and y: "md \<longrightarrow> \<not> fits_i32 info \<longrightarrow> in_reg sel fn st (get_vreg sel (result inst)) (operand inst 1) y"
  shows "\<exists>fn'. lower_signed_div_magic sel inst md info fn = Some fn' \<and>
    computes cpu e fn fn' st (get_vreg sel (result inst)) (\<lambda>v. v = (if md then word_smod x y else word_sdiv x y))"
proof -
  obtain mg where mg: "signed_div_magic64 y = Some mg" by (rule signed_div_magic64_found [OF assms(3)])
  let ?N = "length (vreg_table fn)" and ?n = "get_vreg sel (operand inst 0)"
  have n: "vregs st (vreg_id ?n) = x" "vreg_id ?n < ?N" "vreg_id ?n \<noteq> vreg_id (get_vreg sel (result inst))"
    using x by (simp_all add: in_reg_def)
  have pre: "runs cpu e (magic_code mg ?n (temp_vreg ?N 8) (temp_vreg (?N + 1) 8)) st (\<lambda>st'. supported st' \<and>
    (\<exists>t. vregs st' = (vregs st)(?N := t, ?N + 1 := drop_bit 63 x) \<and> t + drop_bit 63 x = word_sdiv x y))"
    using magic_code_runs [OF cpu assms(2,3) mg n(1), of "temp_vreg ?N 8" "temp_vreg (?N + 1) 8" e] n(2) by simp
  from mg assms(4) have "signed_div_magic64 (imm_val info) = Some mg" by simp
  from lower_signed_div_magic_code [OF this refl, of sel inst md fn] obtain fn'
    where fn': "lower_signed_div_magic sel inst md info fn = Some fn'"
      and code: "new_code fn fn' = magic_code mg ?n (temp_vreg ?N 8) (temp_vreg (?N + 1) 8) @
        magic_ending md info (get_vreg sel (result inst)) ?n (get_vreg sel (operand inst 1))
          (temp_vreg ?N 8) (temp_vreg (?N + 1) 8) (temp_vreg (?N + 2) 8)" by blast
  have "computes cpu e fn fn' st (get_vreg sel (result inst)) (\<lambda>v. v = (if md then word_smod x y else word_sdiv x y))"
    unfolding computes_def code runs_append
    by (rule runs_mono [OF pre])
      (use dst n y assms(4) word_smod_by_sdiv [of x y] in
        \<open>auto simp: magic_ending_def in_reg_def shape_defs sets_def intro!: runs_rules\<close>)
  with fn' show ?thesis by blast
qed

fun div_kind :: "ArithOp \<Rightarrow> (bool \<times> bool) option" where
  "div_kind Op_sdiv = Some (True, False)"
| "div_kind Op_udiv = Some (False, False)"
| "div_kind Op_smod = Some (True, True)"
| "div_kind Op_umod = Some (False, True)"
| "div_kind _ = None"

lemma div_kind_value:
  assumes "div_kind f = Some (sg, md)" "y \<noteq> 0"
  shows "word_arith f x y = Some (if sg then if md then word_smod x y else word_sdiv x y else if md then x mod y else x div y)"
  using assms by (cases f) auto

lemma folded_divisor:
  assumes "divisor_folds info md"
  obtains k where "k < 63" "imm_val info = 2 ^ k" "md \<longrightarrow> k \<le> 31" "is_imm info"
proof -
  from assms have i: "is_imm info" "0 < sint (imm_val info)" "imm_val info AND (imm_val info - 1) = 0"
    "md \<longrightarrow> imm_val info \<le> push_bit 31 1"
    by (auto simp: divisor_folds_def Let_def split: if_splits)
  obtain k where k: "k < 63" "imm_val info = 2 ^ k" by (rule pow2_of_and [OF i(3,2)])
  have "k \<le> 31" if md
  proof -
    have "(2 :: nat) ^ k \<le> 2 ^ 31" using i(4) that k unat_pow2 [of k, where 'a = 64] by (simp add: word_le_nat_alt)
    then show ?thesis by (rule power_le_imp_le_exp [rotated]) simp
  qed
  then show ?thesis using that k i(1) by blast
qed

lemma lower_pow2_64:
  assumes "supported st" "vreg_id op0 < length (vreg_table fn)" "vreg_id dst < length (vreg_table fn)"
    "vreg_id op0 \<noteq> vreg_id dst" "vregs st (vreg_id op0) = x" "k < 63" "md \<longrightarrow> k \<le> 31" "y = 2 ^ k"
  shows "\<exists>fn'. lower_pow2 dst op0 8 y sg md fn = Some fn' \<and> computes cpu e fn fn' st dst
    (\<lambda>v. v = (if sg then if md then word_smod x y else word_sdiv x y else if md then x mod y else x div y))"
  using assms by (cases sg; cases md)
    (simp_all add: lower_pow2_def log2_from_pow2 smod_pow2_64 sdiv_pow2_64 umod_pow2_64 udiv_pow2_64)

lemma lower_pow2_32:
  assumes "supported st" "vreg_id op0 < length (vreg_table fn)" "vreg_id dst < length (vreg_table fn)"
    "vreg_id op0 \<noteq> vreg_id dst" "ucast (vregs st (vreg_id op0)) = (x :: u32)" "k < 31" "y = 2 ^ k"
  shows "\<exists>fn'. lower_pow2 dst op0 4 (2 ^ k) sg md fn = Some fn' \<and> computes cpu e fn fn' st dst
    (\<lambda>v. v = ucast (if sg then if md then word_smod x y else word_sdiv x y else if md then x mod y else x div y))"
  using assms by (cases sg; cases md)
    (simp_all add: lower_pow2_def log2_from_pow2 smod_pow2_32 sdiv_pow2_32 umod_pow2_32 udiv_pow2_32)

text \<open>The use analysis and the lowering agree: where the divisor is unread it need be in no register.\<close>

lemma lower_div_mod_64:
  assumes cpu: "x64_cpu_laws cpu" and f: "div_kind f = Some (sg, md)" "opcode inst = OpArith f" "inst_type inst = I64"
    and dst: "vreg_size (get_vreg sel (result inst)) = 8" "vreg_id (get_vreg sel (result inst)) < length (vreg_table fn)"
    and st: "supported st" and x: "in_reg sel fn st (get_vreg sel (result inst)) (operand inst 0) x"
    and y: "const_ok sel (operand inst 1) y" "y \<noteq> 0"
    and read: "\<not> divisor_unread sel inst \<longrightarrow> in_reg sel fn st (get_vreg sel (result inst)) (operand inst 1) y"
  shows "\<exists>fn'. lower_div_mod sel inst sg md fn = Some fn' \<and>
    computes cpu e fn fn' st (get_vreg sel (result inst)) (\<lambda>v. word_arith f x y = Some v)"
proof -
  let ?i = "get_imm_int_info sel (operand inst 1)" and ?d = "get_vreg sel (result inst)"
    and ?n = "get_vreg sel (operand inst 0)"
  let ?z = "if sg then if md then word_smod x y else word_sdiv x y else if md then x mod y else x div y"
  have kind: "sg \<longleftrightarrow> f = Op_sdiv \<or> f = Op_smod" "md \<longleftrightarrow> f = Op_umod \<or> f = Op_smod" using f(1) by (cases f; simp)+
  have val: "(\<lambda>v. word_arith f x y = Some v) = (\<lambda>v. v = ?z)" using div_kind_value [OF f(1) y(2), of x] by auto
  have x': "vreg_id ?n < length (vreg_table fn)" "vreg_id ?n \<noteq> vreg_id ?d" "vregs st (vreg_id ?n) = x"
    using x by (simp_all add: in_reg_def)
  show ?thesis
  proof (cases "sg \<and> is_imm ?i \<and> takes_signed_div_magic (imm_val ?i)")
    case True
    then have i: "imm_val ?i = y" using y by (simp add: const_ok_def)
    have "md \<longrightarrow> \<not> fits_i32 ?i \<longrightarrow> in_reg sel fn st ?d (operand inst 1) y"
      using read True f kind by (auto simp: divisor_unread_def Let_def)
    moreover have "takes_signed_div_magic y" using True i by simp
    ultimately show ?thesis
      unfolding val using magic_64 [OF cpu st _ i x dst(2)] True dst(1) by (simp add: lower_div_mod_def)
  next
    case no_magic: False
    show ?thesis
    proof (cases "divisor_folds ?i md")
      case True
      obtain k where k: "k < 63" "imm_val ?i = 2 ^ k" "md \<longrightarrow> k \<le> 31" "is_imm ?i" by (rule folded_divisor [OF True])
      then have "y = 2 ^ k" using y by (simp add: const_ok_def)
      from lower_pow2_64 [OF st x'(1) dst(2) x'(2,3) k(1,3) this, of sg cpu e]
      obtain fn' where "lower_pow2 ?d ?n 8 y sg md fn = Some fn'" "computes cpu e fn fn' st ?d (\<lambda>v. v = ?z)" by blast
      then show ?thesis unfolding val using no_magic True dst(1) k(2) \<open>y = 2 ^ k\<close>
        by (intro exI [of _ fn']) (auto simp: lower_div_mod_def Let_def)
    next
      case False
      then have "in_reg sel fn st ?d (operand inst 1) y"
        using no_magic read f kind by (auto simp: divisor_unread_def Let_def)
      then have "computes cpu e fn (lower_divide ?d ?n (get_vreg sel (operand inst 1)) 8 sg md fn) st ?d (\<lambda>v. v = ?z)"
        using divide_64 [OF cpu st x', of "get_vreg sel (operand inst 1)" y] y(2) by (simp add: in_reg_def)
      then show ?thesis unfolding val using no_magic False dst(1) by (auto simp: lower_div_mod_def Let_def)
    qed
  qed
qed

lemma lower_div_mod_32:
  assumes cpu: "x64_cpu_laws cpu" and f: "div_kind f = Some (sg, md)" "opcode inst = OpArith f" "inst_type inst = I32"
    and dst: "vreg_size (get_vreg sel (result inst)) = 4" "vreg_id (get_vreg sel (result inst)) < length (vreg_table fn)"
    and st: "supported st" and x: "in_reg sel fn st (get_vreg sel (result inst)) (operand inst 0) (x :: u32)"
    and y: "const_ok sel (operand inst 1) y" "y \<noteq> 0"
    and read: "\<not> divisor_unread sel inst \<longrightarrow> in_reg sel fn st (get_vreg sel (result inst)) (operand inst 1) y"
  shows "\<exists>fn'. lower_div_mod sel inst sg md fn = Some fn' \<and>
    computes cpu e fn fn' st (get_vreg sel (result inst)) (\<lambda>v. word_arith f x y = Some (ucast v))"
proof -
  let ?i = "get_imm_int_info sel (operand inst 1)" and ?d = "get_vreg sel (result inst)"
    and ?n = "get_vreg sel (operand inst 0)"
  let ?z = "if sg then if md then word_smod x y else word_sdiv x y else if md then x mod y else x div y"
  have kind: "md \<longleftrightarrow> f = Op_umod \<or> f = Op_smod" using f(1) by (cases f; simp)
  have "computes cpu e fn fn' st ?d (\<lambda>v. v = ucast ?z) \<Longrightarrow>
      computes cpu e fn fn' st ?d (\<lambda>v. word_arith f x y = Some (ucast v))" for fn'
    unfolding computes_def using div_kind_value [OF f(1) y(2), of x] by (elim runs_mono) auto
  note val = this
  have x': "vreg_id ?n < length (vreg_table fn)" "vreg_id ?n \<noteq> vreg_id ?d" "ucast (vregs st (vreg_id ?n)) = x"
    using x by (simp_all add: in_reg_def)
  show ?thesis
  proof (cases "divisor_folds ?i md")
    case True
    obtain k where k: "k < 63" "imm_val ?i = 2 ^ k" "is_imm ?i" by (rule folded_divisor [OF True])
    then have i: "scast y = (2 ^ k :: u64)" using y by (simp add: const_ok_def)
    then have "sint y = 2 ^ k" using sint_scast_32_64 [of y] sint_pow2 [of k, where 'a = 64] k(1) by simp
    then have "(2 :: int) ^ k < 2 ^ 31" using sint_range32 [of y] by simp
    then have "k < 31" by (rule power_less_imp_less_exp [rotated]) simp
    moreover have "y = 2 ^ k"
      using \<open>sint y = 2 ^ k\<close> sint_pow2 [of k, where 'a = 32, simplified] \<open>k < 31\<close> by (metis word_of_int_sint)
    ultimately obtain fn' where "lower_pow2 ?d ?n 4 (2 ^ k) sg md fn = Some fn'" "computes cpu e fn fn' st ?d (\<lambda>v. v = ucast ?z)"
      using lower_pow2_32 [OF st x'(1) dst(2) x'(2,3), of k y sg md cpu e] by blast
    then show ?thesis using True dst(1) k(2) val by (intro exI [of _ fn']) (auto simp: lower_div_mod_def Let_def)
  next
    case False
    then have "in_reg sel fn st ?d (operand inst 1) y" using read f kind by (auto simp: divisor_unread_def Let_def)
    then have "computes cpu e fn (lower_divide ?d ?n (get_vreg sel (operand inst 1)) 4 sg md fn) st ?d (\<lambda>v. v = ucast ?z)"
      using divide_32 [OF cpu st x', of "get_vreg sel (operand inst 1)" y] y(2) by (simp add: in_reg_def)
    then show ?thesis using False dst(1) val by (auto simp: lower_div_mod_def Let_def)
  qed
qed

end
