(* ===== verification/X64_Alu.thy ===== *)
theory X64_Alu
  imports X64_Div
begin

text \<open>
  Correctness of the rest of the x64 integer lowering: additions and multiplications through
  \<open>lea\<close>, two-address arithmetic, comparisons, overflow checks and unary operations.
\<close>

section \<open>More rules\<close>

lemma runs_movabs [runs_rules]:
  assumes "plain_dst d" "plain_src a" "supported st"
    and "\<And>st'. sets d (src_val st a) st st' \<Longrightarrow> flags st' = flags st \<Longrightarrow> runs cpu e is st' Q"
  shows "runs cpu e (LI (LMove L_Movabs) [d] [a] dc uc c # is) st Q"
proof -
  obtain st' where w: "write_op (env_fp e) d (64, src_val st a) True st = Some st'" "sets d (src_val st a) st st'"
    "flags st' = flags st" by (rule write_plain [OF assms(1,3)])
  have "\<not> is_mem d" using assms(1) by (cases d) simp_all
  then have "machine_inst cpu e (LI (LMove L_Movabs) [d] [a] dc uc c) st = Some st'"
    by (simp add: machine_inst_def exec_inst_def exec_move_def move_value_def use_at_def def0_def read_plain [OF assms(2)] w)
  from runs_step [OF this w(2) assms(4) [OF w(2,3)]] show ?thesis .
qed

lemma runs_movsxd [runs_rules]:
  assumes "supported st" "plain_src a"
    and "\<And>st'. sets (O_VReg d s) (scast (ucast (src_val st a) :: u32)) st st' \<Longrightarrow> runs cpu e is st' Q"
  shows "runs cpu e (LI (LMove L_Movsxd) [O_VReg d s] [a] dc uc c # is) st Q"
proof -
  let ?v = "scast (ucast (src_val st a) :: u32) :: u64"
  let ?st = "st\<lparr>vregs := (vregs st)(vreg_id d := ?v)\<rparr>"
  have "machine_inst cpu e (LI (LMove L_Movsxd) [O_VReg d s] [a] dc uc c) st = Some ?st"
    by (simp add: machine_inst_def exec_inst_def exec_move_def move_value_def use_at_def def0_def read_plain [OF assms(2)]
        bv_sext_def write_op_def widen_value_def)
  moreover have "sets (O_VReg d s) ?v st ?st" using assms(1) by (simp add: sets_def)
  ultimately show ?thesis using assms(3) [of ?st] runs_step by simp
qed

text \<open>The address \<open>lea\<close> computes, without physical registers.\<close>

definition lea_value :: "LirExecState \<Rightarrow> LirMem \<Rightarrow> u64" where
  "lea_value st m = (case base_vreg m of Some b \<Rightarrow> vregs st (vreg_id b) | None \<Rightarrow> 0) +
     (case index_vreg m of Some i \<Rightarrow> vregs st (vreg_id i) * scale_value (mem_scale m) | None \<Rightarrow> 0) + scast (mem_disp m)"

lemma eval_mem_addr_value:
  assumes "base_preg m = None" "index_preg m = None"
  shows "eval_mem_addr fp st m = (64, lea_value st m)"
  using assms
  by (cases "mem_scale m"; cases "index_vreg m"; cases "base_vreg m")
    (simp_all add: eval_mem_addr_def lea_value_def mem_base_def mem_index_def scaled_index_def bv_binary_def bv_const_def Let_def)

lemma runs_lea [runs_rules]:
  assumes "supported st" "base_preg m = None" "index_preg m = None"
    and "\<And>st'. sets (O_VReg d s) (if s = 4 then ucast (ucast (lea_value st m) :: u32) else lea_value st m) st st' \<Longrightarrow>
      runs cpu e is st' Q"
  shows "runs cpu e (LI (LFlow L_Lea) [O_VReg d s] [O_Mem m t] dc uc c # is) st Q"
proof -
  let ?v = "if s = 4 then ucast (ucast (lea_value st m) :: u32) else lea_value st m"
  let ?st = "st\<lparr>vregs := (vregs st)(vreg_id d := ?v)\<rparr>"
  have "machine_inst cpu e (LI (LFlow L_Lea) [O_VReg d s] [O_Mem m t] dc uc c) st = Some ?st"
    by (simp add: machine_inst_def exec_inst_def exec_flow_def exec_lea_def use_at_def def0_def Let_def
        eval_mem_addr_value [OF assms(2,3)] write_op_def widen_value_def bv_extract_def bv_zext_def low_mask)
  moreover have "sets (O_VReg d s) ?v st ?st" using assms(1) by (simp add: sets_def)
  ultimately show ?thesis using assms(4) [of ?st] runs_step by simp
qed

section \<open>Arithmetic\<close>

lemma valid_in_table: "vreg_id r < n \<Longrightarrow> n \<le> 4294967295 \<Longrightarrow> valid_vreg r = Some r"
  by (simp add: valid_vreg_def)

definition writes :: "x64_cpu \<Rightarrow> lir_env \<Rightarrow> LirInst list \<Rightarrow> LirExecState \<Rightarrow> VReg \<Rightarrow> u64 \<Rightarrow> bool" where
  "writes cpu e is st dst v \<longleftrightarrow> runs cpu e is st (\<lambda>st'. vregs st' = (vregs st)(vreg_id dst := v))"

lemma writes_computes: "writes cpu e is st dst v \<Longrightarrow> P v \<Longrightarrow> computes cpu e fn (emit is fn) st dst P"
  unfolding writes_def computes_def new_code_emit by (elim runs_mono) auto

text \<open>The shapes the lowerings emit, each with the value it writes.\<close>

lemma writes_mov:
  "supported st \<Longrightarrow> writes cpu e [mov_vv d r 8] st d (vregs st (vreg_id r))"
  "supported st \<Longrightarrow> writes cpu e [mov_vv d r 4] st d (ucast (ucast (vregs st (vreg_id r)) :: u32))"
  by (auto simp: writes_def shape_defs sets_def intro!: runs_rules)

lemma writes_lea:
  assumes "supported st" "base_preg m = None" "index_preg m = None"
  shows "writes cpu e [lea d 8 (O_Mem m t)] st d (lea_value st m)"
    and "writes cpu e [lea d 4 (O_Mem m t)] st d (ucast (ucast (lea_value st m) :: u32))"
  using assms by (auto simp: writes_def lea_def shape_defs sets_def intro!: runs_rules)

lemma writes_base_index:
  assumes "supported st" "vreg_id b \<noteq> 4294967295" "vreg_id i \<noteq> 4294967295"
  shows "writes cpu e [lea d 8 (mem_base_index b i sc disp t)] st d
      (vregs st (vreg_id b) + vregs st (vreg_id i) * scale_value sc + scast disp)"
    and "writes cpu e [lea d 4 (mem_base_index b i sc disp t)] st d
      (ucast (ucast (vregs st (vreg_id b) + vregs st (vreg_id i) * scale_value sc + scast disp) :: u32))"
  using writes_lea [OF assms(1), of "\<lparr>base_vreg = Some b, base_preg = None, index_vreg = Some i, index_preg = None,
      mem_scale = sc, mem_disp = disp\<rparr>"] assms
  by (simp_all add: mem_base_index_def valid_vreg_def lea_value_def)

lemma writes_index:
  assumes "supported st" "vreg_id i \<noteq> 4294967295"
  shows "writes cpu e [lea d 8 (mem_index_only i sc disp t)] st d (vregs st (vreg_id i) * scale_value sc + scast disp)"
    and "writes cpu e [lea d 4 (mem_index_only i sc disp t)] st d
      (ucast (ucast (vregs st (vreg_id i) * scale_value sc + scast disp) :: u32))"
  using writes_lea [OF assms(1), of "\<lparr>base_vreg = None, base_preg = None, index_vreg = Some i, index_preg = None,
      mem_scale = sc, mem_disp = disp\<rparr>"] assms
  by (simp_all add: mem_index_only_def valid_vreg_def lea_value_def)

lemma writes_base:
  assumes "supported st" "vreg_id b \<noteq> 4294967295"
  shows "writes cpu e [lea d 8 (mem_base_only b disp t)] st d (vregs st (vreg_id b) + scast disp)"
    and "writes cpu e [lea d 4 (mem_base_only b disp t)] st d (ucast (ucast (vregs st (vreg_id b) + scast disp) :: u32))"
  using writes_lea [OF assms(1), of "\<lparr>base_vreg = Some b, base_preg = None, index_vreg = None, index_preg = None,
      mem_scale = Scale1, mem_disp = disp\<rparr>"] assms
  by (simp_all add: mem_base_only_def valid_vreg_def lea_value_def)

lemma mov_alu_64:
  assumes "alu64 op64 = Some f" "supported st" "plain_src b" "vregs st (vreg_id r) = x" "src_val st b = y"
    and "\<And>v s. b = O_VReg v s \<Longrightarrow> vreg_id v \<noteq> vreg_id dst" and "vreg_id r \<noteq> vreg_id dst"
  shows "writes cpu e (emit_mov_alu dst 8 op32 op64 r b) st dst (arith_val f x y)"
proof (cases "\<exists>v s. b = O_VReg v s")
  case True
  then obtain v s where b: "b = O_VReg v s" by blast
  show ?thesis
    using assms(2-)
    by (auto simp: writes_def emit_mov_alu_def b shape_defs sets_def intro!: runs_mov runs_alu64 [OF assms(1)] runs_Nil)
next
  case False
  then show ?thesis
    using assms(2-)
    by (cases b) (auto simp: writes_def emit_mov_alu_def shape_defs sets_def intro!: runs_mov runs_alu64 [OF assms(1)] runs_Nil)
qed

lemma mov_alu_32:
  assumes "alu32 op32 = Some f" "supported st" "plain_src b" "ucast (vregs st (vreg_id r)) = (x :: u32)"
    and "ucast (src_val st b) = y"
    and "\<And>v s. b = O_VReg v s \<Longrightarrow> vreg_id v \<noteq> vreg_id dst" and "vreg_id r \<noteq> vreg_id dst"
  shows "writes cpu e (emit_mov_alu dst 4 op32 op64 r b) st dst (ucast (arith_val f x y))"
proof (cases "\<exists>v s. b = O_VReg v s")
  case True
  then obtain v s where b: "b = O_VReg v s" by blast
  show ?thesis
    using assms(2-)
    by (auto simp: writes_def emit_mov_alu_def b shape_defs sets_def intro!: runs_mov32 runs_alu32 [OF assms(1)] runs_Nil)
next
  case False
  then show ?thesis
    using assms(2-)
    by (cases b) (auto simp: writes_def emit_mov_alu_def shape_defs sets_def intro!: runs_mov32 runs_alu32 [OF assms(1)] runs_Nil)
qed

text \<open>
  The operand an addition, a logical operation or a comparison, and a multiplication take as an
  immediate, and the operands of such an instruction: what the selector sees as a constant is that
  constant, no load is folded into the instruction, and the operand that is not taken as an
  immediate, or both, are in registers.
\<close>

definition alu_folded :: "X64ISel \<Rightarrow> Instruction \<Rightarrow> nat option" where
  "alu_folded sel inst =
     (let imm0 = get_imm_int_info sel (operand inst 0); imm1 = get_imm_int_info sel (operand inst 1)
      in if is_imm imm1 \<and> fits_i32 imm1 then Some 1 else if is_imm imm0 \<and> fits_i32 imm0 then Some 0 else None)"

definition mul_folded :: "X64ISel \<Rightarrow> Instruction \<Rightarrow> nat option" where
  "mul_folded sel inst =
     (let imm0 = get_imm_int_info sel (operand inst 0); imm1 = get_imm_int_info sel (operand inst 1)
      in if is_imm imm1 then (if mul_imm_folds imm1 then Some 1 else None)
         else if is_imm imm0 \<and> mul_imm_folds imm0 then Some 0 else None)"

definition two_operands ::
    "X64ISel \<Rightarrow> LirFunction \<Rightarrow> LirExecState \<Rightarrow> Instruction \<Rightarrow> nat option \<Rightarrow> 'a::len word \<Rightarrow> 'a word \<Rightarrow> bool" where
  "two_operands sel fn st inst folded x y \<longleftrightarrow>
     (let v0 = operand inst 0; v1 = operand inst 1; dst = get_vreg sel (result inst)
      in const_ok sel v0 x \<and> const_ok sel v1 y \<and> fuses sel v0 = None \<and> fuses sel v1 = None \<and>
         (folded \<noteq> Some 0 \<longrightarrow> in_reg sel fn st dst v0 x) \<and> (folded \<noteq> Some 1 \<longrightarrow> in_reg sel fn st dst v1 y))"

text \<open>
  The instructions on two constants whose lowering reads the register of the one the analysis
  counts as folded: a comparison of zero with another constant, and the subtraction of
  \<open>INT32_MIN\<close> from a constant.
\<close>

definition reads_folded :: "X64ISel \<Rightarrow> Instruction \<Rightarrow> bool" where
  "reads_folded sel inst \<longleftrightarrow>
     (let imm0 = get_imm_int_info sel (operand inst 0); imm1 = get_imm_int_info sel (operand inst 1)
      in is_imm imm0 \<and> is_imm imm1 \<and> fits_i32 imm1 \<and>
         (case opcode inst of
            OpCmp _ \<Rightarrow> imm_val imm0 = 0 \<and> imm_val imm1 \<noteq> 0
          | OpArith f \<Rightarrow> f = Op_sub \<and> fits_i32 imm0 \<and> sint (imm_val imm1) = INT32_MIN
          | _ \<Rightarrow> False))"

lemma scast_low_32: "INT32_MIN \<le> sint (y :: u64) \<Longrightarrow> sint y \<le> INT32_MAX \<Longrightarrow> scast (ucast y :: u32) = y"
proof -
  assume r: "INT32_MIN \<le> sint y" "sint y \<le> INT32_MAX"
  have "(ucast y :: u32) = word_of_int (sint y)" by (metis ucast_of_int word_of_int_sint)
  then have "sint (ucast y :: u32) = sint y" using sint_of_int32 [OF r] by metis
  then show ?thesis by (metis scast_eq word_of_int_sint)
qed

lemma add_const_plain:
  assumes "\<And>v. reg_val = Some v \<Longrightarrow> \<not> skipped_insts sel v"
  shows "add_const sel dst sz reg_val c = (let C = ucast c :: i32; r = get_vreg sel reg_val in
     if C = 0 then (if dst \<noteq> r then [mov_vv dst r sz] else [])
     else if dst = r then [alu_vi sz L_Add32 L_Add dst (scast C) sz]
     else [lea dst sz (mem_base_only r C sz)])"
  using assms by (auto simp: add_const_def Let_def split: option.splits)

lemma low_of_scast [simp]: "ucast (scast (y :: u32) :: u64) = y"
  by (rule bit_word_eqI) (auto simp: bit_simps)

lemma add_const_64:
  assumes "supported st" "vregs st (vreg_id (get_vreg sel v)) = x" "vreg_id (get_vreg sel v) \<noteq> vreg_id dst"
    "vreg_id (get_vreg sel v) \<noteq> 4294967295" "\<And>u. v = Some u \<Longrightarrow> \<not> skipped_insts sel u"
    "scast (ucast c :: u32) = c"
  shows "writes cpu e (add_const sel dst 8 v c) st dst (x + c)"
proof -
  have "ucast c = (0 :: u32) \<Longrightarrow> c = 0" using assms(6) by auto
  moreover have "dst \<noteq> get_vreg sel v" using assms(3) by auto
  ultimately show ?thesis
    using assms writes_mov(1) [OF assms(1)] writes_base(1) [OF assms(1,4), of cpu e dst "ucast c", unfolded assms(6)]
    by (auto simp: add_const_plain Let_def)
qed

lemma add_const_32:
  assumes "supported st" "ucast (vregs st (vreg_id (get_vreg sel v))) = (x :: u32)" "vreg_id (get_vreg sel v) \<noteq> vreg_id dst"
    "vreg_id (get_vreg sel v) \<noteq> 4294967295" "\<And>u. v = Some u \<Longrightarrow> \<not> skipped_insts sel u"
    "ucast c = (y :: u32)"
  shows "writes cpu e (add_const sel dst 4 v c) st dst (ucast (x + y))"
proof -
  have "dst \<noteq> get_vreg sel v" using assms(3) by auto
  then show ?thesis
    using assms writes_mov(2) [OF assms(1)] writes_base(2) [OF assms(1,4)]
    by (auto simp: add_const_plain Let_def ucast_down_add)
qed

text \<open>What \<open>two_operands\<close> gives in each case of the folding.\<close>

lemma two_operands_cases:
  assumes "two_operands sel fn st inst (alu_folded sel inst) x y"
  obtains
    (imm1) "is_imm (get_imm_int_info sel (operand inst 1))" "fits_i32 (get_imm_int_info sel (operand inst 1))"
      "const_ok sel (operand inst 0) x"
      "imm_val (get_imm_int_info sel (operand inst 1)) = scast y"
      "in_reg sel fn st (get_vreg sel (result inst)) (operand inst 0) x"
  | (imm0) "\<not> (is_imm (get_imm_int_info sel (operand inst 1)) \<and> fits_i32 (get_imm_int_info sel (operand inst 1)))"
      "fits_i32 (get_imm_int_info sel (operand inst 0))"
      "is_imm (get_imm_int_info sel (operand inst 0))"
      "imm_val (get_imm_int_info sel (operand inst 0)) = scast x"
      "in_reg sel fn st (get_vreg sel (result inst)) (operand inst 1) y"
  | (regs) "\<not> (is_imm (get_imm_int_info sel (operand inst 1)) \<and> fits_i32 (get_imm_int_info sel (operand inst 1)))"
      "\<not> (is_imm (get_imm_int_info sel (operand inst 0)) \<and> fits_i32 (get_imm_int_info sel (operand inst 0)))"
      "in_reg sel fn st (get_vreg sel (result inst)) (operand inst 0) x"
      "in_reg sel fn st (get_vreg sel (result inst)) (operand inst 1) y"
  using assms that unfolding two_operands_def alu_folded_def Let_def const_ok_def
  by (cases "is_imm (get_imm_int_info sel (operand inst 1)) \<and> fits_i32 (get_imm_int_info sel (operand inst 1))";
      cases "is_imm (get_imm_int_info sel (operand inst 0)) \<and> fits_i32 (get_imm_int_info sel (operand inst 0))") auto

lemma two_factors_cases:
  assumes "two_operands sel fn st inst (mul_folded sel inst) x y"
  obtains
    (imm1) "is_imm (get_imm_int_info sel (operand inst 1))" "mul_imm_folds (get_imm_int_info sel (operand inst 1))"
      "const_ok sel (operand inst 0) x"
      "imm_val (get_imm_int_info sel (operand inst 1)) = scast y"
      "in_reg sel fn st (get_vreg sel (result inst)) (operand inst 0) x"
  | (imm0) "\<not> is_imm (get_imm_int_info sel (operand inst 1))" "mul_imm_folds (get_imm_int_info sel (operand inst 0))"
      "is_imm (get_imm_int_info sel (operand inst 0))"
      "imm_val (get_imm_int_info sel (operand inst 0)) = scast x"
      "in_reg sel fn st (get_vreg sel (result inst)) (operand inst 1) y"
  | (regs) "is_imm (get_imm_int_info sel (operand inst 1)) \<Longrightarrow> \<not> mul_imm_folds (get_imm_int_info sel (operand inst 1))"
      "\<not> is_imm (get_imm_int_info sel (operand inst 1)) \<Longrightarrow>
        \<not> (is_imm (get_imm_int_info sel (operand inst 0)) \<and> mul_imm_folds (get_imm_int_info sel (operand inst 0)))"
      "in_reg sel fn st (get_vreg sel (result inst)) (operand inst 0) x"
      "in_reg sel fn st (get_vreg sel (result inst)) (operand inst 1) y"
  using assms that unfolding two_operands_def mul_folded_def Let_def const_ok_def
  by (cases "is_imm (get_imm_int_info sel (operand inst 1))";
      cases "mul_imm_folds (get_imm_int_info sel (operand inst 1))";
      cases "is_imm (get_imm_int_info sel (operand inst 0)) \<and> mul_imm_folds (get_imm_int_info sel (operand inst 0))") auto

lemma two_operands_plain:
  assumes "two_operands sel fn st inst folded x y"
  shows "fuses sel (operand inst 0) = None" "fuses sel (operand inst 1) = None"
  using assms by (auto simp: two_operands_def Let_def)

lemma in_reg_fields:
  assumes "in_reg sel fn st dst v x"
  shows "vreg_id (get_vreg sel v) < length (vreg_table fn)" "vreg_id (get_vreg sel v) \<noteq> vreg_id dst"
    "dst \<noteq> get_vreg sel v" "ucast (vregs st (vreg_id (get_vreg sel v))) = x"
  using assms by (auto simp: in_reg_def)

lemma in_reg_kept: "in_reg sel fn st dst v x \<Longrightarrow> v = Some u \<Longrightarrow> \<not> skipped_insts sel u"
  by (simp add: in_reg_def)

lemma in_reg_valid: "in_reg sel fn st dst v x \<Longrightarrow> length (vreg_table fn) \<le> 4294967295 \<Longrightarrow> vreg_id (get_vreg sel v) \<noteq> 4294967295"
  by (simp add: in_reg_def)

lemma lower_add_64:
  assumes "supported st" "vreg_size (get_vreg sel (result inst)) = 8" "length (vreg_table fn) \<le> 4294967295"
    and ops: "two_operands sel fn st inst (alu_folded sel inst) (x :: u64) y"
  shows "writes cpu e (lower_add sel inst) st (get_vreg sel (result inst)) (x + y)"
  using ops
proof (cases rule: two_operands_cases)
  case imm1
  note r = in_reg_fields [OF imm1(5)] in_reg_valid [OF imm1(5) assms(3)]
  have "scast (ucast y :: u32) = y" using imm1 fits_of_info [OF imm1(1)] by (simp add: scast_low_32)
  then have "writes cpu e (add_const sel (get_vreg sel (result inst)) 8 (operand inst 0) y) st (get_vreg sel (result inst)) (x + y)"
    using r in_reg_kept [OF imm1(5)] by (intro add_const_64 assms(1)) simp_all
  then show ?thesis using imm1 assms(2) by (simp add: lower_add_def Let_def)
next
  case imm0
  note r = in_reg_fields [OF imm0(5)] in_reg_valid [OF imm0(5) assms(3)]
  have "scast (ucast x :: u32) = x" using imm0 fits_of_info [OF imm0(3)] by (simp add: scast_low_32)
  then have "writes cpu e (add_const sel (get_vreg sel (result inst)) 8 (operand inst 1) x) st (get_vreg sel (result inst)) (y + x)"
    using r in_reg_kept [OF imm0(5)] by (intro add_const_64 assms(1)) simp_all
  then show ?thesis using imm0 assms(2) by (auto simp: lower_add_def Let_def add.commute)
next
  case regs
  note r = in_reg_fields [OF regs(3)] in_reg_fields [OF regs(4)]
  from writes_base_index(1) [OF assms(1) in_reg_valid [OF regs(3) assms(3)] in_reg_valid [OF regs(4) assms(3)], of cpu e _ Scale1 0]
  show ?thesis using regs r assms(2) two_operands_plain [OF ops] by (auto simp: lower_add_def Let_def)
qed

lemma lower_add_32:
  assumes "supported st" "vreg_size (get_vreg sel (result inst)) = 4" "length (vreg_table fn) \<le> 4294967295"
    and ops: "two_operands sel fn st inst (alu_folded sel inst) (x :: u32) y"
  shows "writes cpu e (lower_add sel inst) st (get_vreg sel (result inst)) (ucast (x + y))"
  using ops
proof (cases rule: two_operands_cases)
  case imm1
  note r = in_reg_fields [OF imm1(5)] in_reg_valid [OF imm1(5) assms(3)]
  have "writes cpu e (add_const sel (get_vreg sel (result inst)) 4 (operand inst 0) (scast y)) st (get_vreg sel (result inst)) (ucast (x + y))"
    using r in_reg_kept [OF imm1(5)] by (intro add_const_32 assms(1)) simp_all
  then show ?thesis using imm1 assms(2) by (simp add: lower_add_def Let_def)
next
  case imm0
  note r = in_reg_fields [OF imm0(5)] in_reg_valid [OF imm0(5) assms(3)]
  have "writes cpu e (add_const sel (get_vreg sel (result inst)) 4 (operand inst 1) (scast x)) st (get_vreg sel (result inst)) (ucast (y + x))"
    using r in_reg_kept [OF imm0(5)] by (intro add_const_32 assms(1)) simp_all
  then show ?thesis using imm0 assms(2) by (auto simp: lower_add_def Let_def add.commute)
next
  case regs
  note r = in_reg_fields [OF regs(3)] in_reg_fields [OF regs(4)]
  from writes_base_index(2) [OF assms(1) in_reg_valid [OF regs(3) assms(3)] in_reg_valid [OF regs(4) assms(3)], of cpu e _ Scale1 0]
  show ?thesis using regs r assms(2) two_operands_plain [OF ops] by (auto simp: lower_add_def Let_def ucast_down_add)
qed

lemma scast_negative_disp:
  assumes "sint c \<noteq> INT32_MIN"
  shows "(scast (- c :: u32) :: u64) = - scast c"
proof -
  have "sint (word_of_int (- sint c) :: u32) = - sint c"
    using assms sint_range32 [of c] by (intro sint_of_int32) linarith+
  then have "sint (- c) = - sint c" by simp
  then have "sint (scast (- c) :: u64) = - sint c" by (simp only: sint_scast_32_64)
  moreover have "- (scast c :: u64) = word_of_int (- sint c)" using sint_scast_32_64 [of c] by (metis word_of_int_sint wi_hom_neg)
  ultimately show ?thesis by (metis word_of_int_sint)
qed

text \<open>Where \<open>INT32_MIN\<close> is subtracted, the first operand is no constant that fits 32 bits.\<close>

lemma min_not_folded:
  assumes "opcode inst = OpArith Op_sub" "\<not> reads_folded sel inst"
    and "is_imm (get_imm_int_info sel (operand inst 1))" "fits_i32 (get_imm_int_info sel (operand inst 1))"
    and "sint (imm_val (get_imm_int_info sel (operand inst 1))) = INT32_MIN"
  shows "\<not> (is_imm (get_imm_int_info sel (operand inst 0)) \<and> fits_i32 (get_imm_int_info sel (operand inst 0)))"
    "\<not> (is_imm (get_imm_int_info sel (operand inst 0)) \<and> imm_val (get_imm_int_info sel (operand inst 0)) = 0)"
  using assms fits_of_info [of sel "operand inst 0"] by (auto simp: reads_folded_def Let_def)

text \<open>A second operand that does not fold: the tests of the lowering for it fail.\<close>

lemma unfolded_tests:
  assumes "\<not> (is_imm i \<and> fits_i32 i)"
  shows "(is_imm i \<and> fits_i32 i \<and> P) = False" "(is_imm i \<and> fits_i32 i) = False"
  using assms by blast+

lemma lower_sub_64:
  assumes "supported st" "vreg_size (get_vreg sel (result inst)) = 8" "length (vreg_table fn) \<le> 4294967295"
    and sub: "opcode inst = OpArith Op_sub" "\<not> reads_folded sel inst"
    and ops: "two_operands sel fn st inst (alu_folded sel inst) (x :: u64) y"
  shows "writes cpu e (lower_sub sel inst) st (get_vreg sel (result inst)) (x - y)"
  using ops
proof (cases rule: two_operands_cases)
  case imm1
  let ?C = "ucast y :: u32"
  note r = in_reg_fields [OF imm1(5)]
  note b = writes_base(1) [OF assms(1) in_reg_valid [OF imm1(5) assms(3)], of cpu e "get_vreg sel (result inst)" "- ?C" 8]
  have c: "scast ?C = y" using imm1 fits_of_info [OF imm1(1)] by (simp add: scast_low_32)
  then have z: "?C = 0 \<Longrightarrow> y = 0" by auto
  consider "?C = 0" | "?C \<noteq> 0" "sint ?C \<noteq> INT32_MIN" | "?C \<noteq> 0" "sint ?C = INT32_MIN" by blast
  then show ?thesis
  proof cases
    case 1
    then show ?thesis using imm1 r z writes_mov(1) [OF assms(1), of cpu e "get_vreg sel (result inst)"] assms(2)
      by (auto simp: lower_sub_def Let_def)
  next
    case 2
    then show ?thesis using imm1 r b c assms(2) scast_negative_disp [of ?C] by (simp add: lower_sub_def Let_def)
  next
    case 3
    have "writes cpu e (emit_mov_alu (get_vreg sel (result inst)) 8 L_Sub32 L_Sub (get_vreg sel (operand inst 0)) (O_ImmInt y 8))
        st (get_vreg sel (result inst)) (arith_val Op_sub x y)"
      using r by (intro mov_alu_64 assms(1)) simp_all
    moreover have "sint y = INT32_MIN" using 3(2) c sint_scast_32_64 [of ?C] by simp
    ultimately show ?thesis using 3 imm1 r assms(2) two_operands_plain [OF ops] min_not_folded [OF sub imm1(1,2)]
      by (auto simp: lower_sub_def Let_def)
  qed
next
  case imm0
  note r = in_reg_fields [OF imm0(5)]
  show ?thesis
    using imm0(2-) r assms(1,2) by (cases "x = 0")
      (auto simp: lower_sub_def Let_def unfolded_tests [OF imm0(1)] unfolded_tests [OF imm0(1), unfolded One_nat_def]
        writes_def shape_defs sets_def intro!: runs_rules)
next
  case regs
  note r = in_reg_fields [OF regs(3)] in_reg_fields [OF regs(4)]
  have "writes cpu e (emit_mov_alu (get_vreg sel (result inst)) 8 L_Sub32 L_Sub (get_vreg sel (operand inst 0))
      (O_VReg (get_vreg sel (operand inst 1)) 8)) st (get_vreg sel (result inst)) (arith_val Op_sub x y)"
    using r by (intro mov_alu_64 assms(1)) simp_all
  moreover have "\<not> (is_imm (get_imm_int_info sel (operand inst 0)) \<and> imm_val (get_imm_int_info sel (operand inst 0)) = 0)"
    using regs(2) fits_of_info [of sel "operand inst 0"] by auto
  ultimately show ?thesis using regs r assms(2) two_operands_plain [OF ops] by (auto simp: lower_sub_def Let_def)
qed

lemma lower_sub_32:
  assumes "supported st" "vreg_size (get_vreg sel (result inst)) = 4" "length (vreg_table fn) \<le> 4294967295"
    and sub: "opcode inst = OpArith Op_sub" "\<not> reads_folded sel inst"
    and ops: "two_operands sel fn st inst (alu_folded sel inst) (x :: u32) y"
  shows "writes cpu e (lower_sub sel inst) st (get_vreg sel (result inst)) (ucast (x - y))"
  using ops
proof (cases rule: two_operands_cases)
  case imm1
  note r = in_reg_fields [OF imm1(5)]
  note b = writes_base(2) [OF assms(1) in_reg_valid [OF imm1(5) assms(3)], of cpu e "get_vreg sel (result inst)" "- y" 4]
  consider "y = 0" | "y \<noteq> 0" "sint y \<noteq> INT32_MIN" | "y \<noteq> 0" "sint y = INT32_MIN" by blast
  then show ?thesis
  proof cases
    case 1
    then show ?thesis using imm1 r writes_mov(2) [OF assms(1), of cpu e "get_vreg sel (result inst)"] assms(2)
      by (auto simp: lower_sub_def Let_def)
  next
    case 2
    then show ?thesis using imm1 r b assms(2) by (simp add: lower_sub_def Let_def ucast_down_add)
  next
    case 3
    have "writes cpu e (emit_mov_alu (get_vreg sel (result inst)) 4 L_Sub32 L_Sub (get_vreg sel (operand inst 0)) (O_ImmInt (scast y) 4))
        st (get_vreg sel (result inst)) (ucast (arith_val Op_sub x y))"
      using r by (intro mov_alu_32 assms(1)) simp_all
    then show ?thesis using 3 imm1 r assms(2) two_operands_plain [OF ops] min_not_folded [OF sub imm1(1,2)]
      by (auto simp: lower_sub_def Let_def sint_scast_32_64)
  qed
next
  case imm0
  note r = in_reg_fields [OF imm0(5)]
  have z: "scast x = (0 :: u64) \<Longrightarrow> x = 0" using low_of_scast [of x] by auto
  show ?thesis
    using imm0(2-) r z assms(1,2) by (cases "x = 0")
      (auto simp: lower_sub_def Let_def unfolded_tests [OF imm0(1)] unfolded_tests [OF imm0(1), unfolded One_nat_def]
        writes_def shape_defs sets_def intro!: runs_rules)
next
  case regs
  note r = in_reg_fields [OF regs(3)] in_reg_fields [OF regs(4)]
  have "writes cpu e (emit_mov_alu (get_vreg sel (result inst)) 4 L_Sub32 L_Sub (get_vreg sel (operand inst 0))
      (O_VReg (get_vreg sel (operand inst 1)) 4)) st (get_vreg sel (result inst)) (ucast (arith_val Op_sub x y))"
    using r by (intro mov_alu_32 assms(1)) simp_all
  moreover have "\<not> (is_imm (get_imm_int_info sel (operand inst 0)) \<and> imm_val (get_imm_int_info sel (operand inst 0)) = 0)"
    using regs(2) fits_of_info [of sel "operand inst 0"] by auto
  ultimately show ?thesis using regs r assms(2) two_operands_plain [OF ops] by (auto simp: lower_sub_def Let_def)
qed

text \<open>The commutative two-address operations, in either operand order.\<close>

definition commutes :: "ArithOp \<Rightarrow> bool" where
  "commutes f \<longleftrightarrow> f \<in> {Op_add, Op_mul, Op_and, Op_or, Op_xor}"

lemma commutes_val: "commutes f \<Longrightarrow> arith_val f x y = arith_val f y x"
  by (auto simp: commutes_def ac_simps)

lemma either_order_64:
  assumes "alu64 op64 = Some f" "commutes f" "supported st"
    and r: "in_reg sel fn st dst v0 (x :: u64)" "in_reg sel fn st dst v1 y"
  shows "writes cpu e (emit_mov_alu dst 8 op32 op64 (get_vreg sel v0) (O_VReg (get_vreg sel v1) 8)) st dst (arith_val f x y)"
    and "writes cpu e (emit_mov_alu dst 8 op32 op64 (get_vreg sel v1) (O_VReg (get_vreg sel v0) 8)) st dst (arith_val f x y)"
proof -
  note f = in_reg_fields [OF r(1)] in_reg_fields [OF r(2)]
  show "writes cpu e (emit_mov_alu dst 8 op32 op64 (get_vreg sel v0) (O_VReg (get_vreg sel v1) 8)) st dst (arith_val f x y)"
    by (rule mov_alu_64 [OF assms(1,3)]) (use f in simp_all)
  show "writes cpu e (emit_mov_alu dst 8 op32 op64 (get_vreg sel v1) (O_VReg (get_vreg sel v0) 8)) st dst (arith_val f x y)"
    unfolding commutes_val [OF assms(2), of x y] by (rule mov_alu_64 [OF assms(1,3)]) (use f in simp_all)
qed

lemma either_order_32:
  assumes "alu32 op32 = Some f" "commutes f" "supported st"
    and r: "in_reg sel fn st dst v0 (x :: u32)" "in_reg sel fn st dst v1 y"
  shows "writes cpu e (emit_mov_alu dst 4 op32 op64 (get_vreg sel v0) (O_VReg (get_vreg sel v1) 4)) st dst (ucast (arith_val f x y))"
    and "writes cpu e (emit_mov_alu dst 4 op32 op64 (get_vreg sel v1) (O_VReg (get_vreg sel v0) 4)) st dst (ucast (arith_val f x y))"
proof -
  note f = in_reg_fields [OF r(1)] in_reg_fields [OF r(2)]
  show "writes cpu e (emit_mov_alu dst 4 op32 op64 (get_vreg sel v0) (O_VReg (get_vreg sel v1) 4)) st dst (ucast (arith_val f x y))"
    by (rule mov_alu_32 [OF assms(1,3)]) (use f in simp_all)
  show "writes cpu e (emit_mov_alu dst 4 op32 op64 (get_vreg sel v1) (O_VReg (get_vreg sel v0) 4)) st dst (ucast (arith_val f x y))"
    unfolding commutes_val [OF assms(2), of x y] by (rule mov_alu_32 [OF assms(1,3)]) (use f in simp_all)
qed

lemma lower_logic_64:
  assumes "alu64 op64 = Some f" "commutes f" "supported st" "vreg_size (get_vreg sel (result inst)) = 8"
    and ops: "two_operands sel fn st inst (alu_folded sel inst) (x :: u64) y"
  shows "writes cpu e (lower_logic sel inst op32 op64) st (get_vreg sel (result inst)) (arith_val f x y)"
  using ops
proof (cases rule: two_operands_cases)
  case imm1
  then show ?thesis using in_reg_fields [OF imm1(5)] assms(4)
    by (auto simp: lower_logic_def Let_def intro!: mov_alu_64 [OF assms(1,3)])
next
  case imm0
  then show ?thesis using in_reg_fields [OF imm0(5)] assms(4)
    by (auto simp: lower_logic_def Let_def commutes_val [OF assms(2), of x y] intro!: mov_alu_64 [OF assms(1,3)])
next
  case regs
  then show ?thesis using either_order_64 [OF assms(1-3) regs(3,4), of cpu e op32] assms(4) two_operands_plain [OF ops]
    by (auto simp: lower_logic_def Let_def)
qed

lemma lower_logic_32:
  assumes "alu32 op32 = Some f" "commutes f" "supported st" "vreg_size (get_vreg sel (result inst)) = 4"
    and ops: "two_operands sel fn st inst (alu_folded sel inst) (x :: u32) y"
  shows "writes cpu e (lower_logic sel inst op32 op64) st (get_vreg sel (result inst)) (ucast (arith_val f x y))"
  using ops
proof (cases rule: two_operands_cases)
  case imm1
  then show ?thesis using in_reg_fields [OF imm1(5)] assms(4)
    by (auto simp: lower_logic_def Let_def intro!: mov_alu_32 [OF assms(1,3)])
next
  case imm0
  then show ?thesis using in_reg_fields [OF imm0(5)] assms(4)
    by (auto simp: lower_logic_def Let_def commutes_val [OF assms(2), of x y] intro!: mov_alu_32 [OF assms(1,3)])
next
  case regs
  then show ?thesis using either_order_32 [OF assms(1-3) regs(3,4), of cpu e op64] assms(4) two_operands_plain [OF ops]
    by (auto simp: lower_logic_def Let_def)
qed

section \<open>Multiplication\<close>

lemma lea_scale_value:
  assumes "lea_scale c = Some (based, sc)"
  shows "(if based then x else 0) + x * scale_value sc = x * c"
  using assms by (auto simp: lea_scale_def algebra_simps split: if_splits)

lemma writes_lea_mul:
  assumes "lea_scale c = Some bs" "supported st" "vreg_id r \<noteq> 4294967295"
  shows "writes cpu e [lea_mul d 8 r bs disp] st d (vregs st (vreg_id r) * c + scast disp)"
    and "writes cpu e [lea_mul d 4 r bs disp] st d (ucast (ucast (vregs st (vreg_id r) * c + scast disp) :: u32))"
proof -
  obtain based sc where bs: "bs = (based, sc)" by (cases bs)
  note v = lea_scale_value [OF assms(1) [unfolded bs], of "vregs st (vreg_id r)", symmetric]
  show "writes cpu e [lea_mul d 8 r bs disp] st d (vregs st (vreg_id r) * c + scast disp)"
    unfolding v bs using writes_base_index(1) [OF assms(2,3,3)] writes_index(1) [OF assms(2,3)]
    by (cases based) (simp_all add: lea_mul_def)
  show "writes cpu e [lea_mul d 4 r bs disp] st d (ucast (ucast (vregs st (vreg_id r) * c + scast disp) :: u32))"
    unfolding v bs using writes_base_index(2) [OF assms(2,3,3)] writes_index(2) [OF assms(2,3)]
    by (cases based) (simp_all add: lea_mul_def)
qed

text \<open>
  An operand that the analysis folded into the \<open>lea\<close> of the addition that uses it: a product with a
  small constant, a left shift by a small constant or a sum, skipped as an instruction, whose own
  operands are in registers.
\<close>

definition lea_fusible :: "X64ISel \<Rightarrow> Instruction \<Rightarrow> bool" where
  "lea_fusible sel d \<longleftrightarrow>
     (let i0 = get_imm_int_info sel (operand d 0); i1 = get_imm_int_info sel (operand d 1);
          mult = (if is_imm i1 then imm_val i1 else if is_imm i0 then imm_val i0 else 0)
      in if opcode d = OpArith Op_mul then mult \<in> {2, 3, 4, 5, 8, 9}
         else if opcode d = OpArith Op_shl then is_imm i1 \<and> imm_val i1 \<in> {1, 2, 3}
         else if opcode d = OpArith Op_add then \<not> is_imm i0 \<and> \<not> is_imm i1
         else False)"

definition fused_parts :: "X64ISel \<Rightarrow> LirFunction \<Rightarrow> LirExecState \<Rightarrow> VReg \<Rightarrow> Instruction \<Rightarrow> 'a::len word \<Rightarrow> 'a word \<Rightarrow> bool" where
  "fused_parts sel fn st dst d a b \<longleftrightarrow> const_ok sel (operand d 0) a \<and> const_ok sel (operand d 1) b \<and>
     (opcode d = OpArith Op_mul \<and> \<not> is_imm (get_imm_int_info sel (operand d 1)) \<or> in_reg sel fn st dst (operand d 0) a) \<and>
     (is_imm (get_imm_int_info sel (operand d 1)) \<or> in_reg sel fn st dst (operand d 1) b)"

definition fused_operand :: "X64ISel \<Rightarrow> LirFunction \<Rightarrow> LirExecState \<Rightarrow> VReg \<Rightarrow> vid option \<Rightarrow> 'a::len word \<Rightarrow> bool" where
  "fused_operand sel fn st dst v x \<longleftrightarrow>
     (\<exists>u d f a b. v = Some u \<and> def_of (isel_values sel) u = Some d \<and> skipped_insts sel u \<and> lea_fusible sel d \<and>
        opcode d = OpArith f \<and> word_arith f a b = Some x \<and> fused_parts sel fn st dst d a b)"

lemma fusible_product:
  assumes "lea_fusible sel d" "opcode d = OpArith Op_mul"
  shows "is_imm (get_imm_int_info sel (operand d 1)) \<Longrightarrow> \<exists>bs. lea_scale (imm_val (get_imm_int_info sel (operand d 1))) = Some bs"
    and "\<not> is_imm (get_imm_int_info sel (operand d 1)) \<Longrightarrow>
      is_imm (get_imm_int_info sel (operand d 0)) \<and> (\<exists>bs. lea_scale (imm_val (get_imm_int_info sel (operand d 0))) = Some bs)"
  using assms by (auto simp: lea_fusible_def lea_scale_def Let_def split: if_splits)

lemma fused_add_64:
  assumes fits: "lea_fusible sel d" "opcode d = OpArith f" "word_arith f a b = Some (x :: u64)" "fused_parts sel fn st dst d a b"
    and st: "supported st" "length (vreg_table fn) \<le> 4294967295"
  shows "\<exists>i. fused_add sel dst 8 C d = Some i \<and> writes cpu e [i] st dst (x + scast C)"
proof -
  let ?i0 = "get_imm_int_info sel (operand d 0)" and ?i1 = "get_imm_int_info sel (operand d 1)"
  note p = fits(4) [unfolded fused_parts_def]
  consider (mul) "f = Op_mul" | (shl) "f = Op_shl" | (add) "f = Op_add" using fits(1,2) by (auto simp: lea_fusible_def Let_def split: if_splits)
  then show ?thesis
  proof cases
    case mul
    show ?thesis
    proof (cases "is_imm ?i1")
      case True
      then obtain bs where bs: "lea_scale (imm_val ?i1) = Some bs"
        using fusible_product(1) [OF fits(1)] fits(2) mul by blast
      have r: "in_reg sel fn st dst (operand d 0) a" "imm_val ?i1 = b" using p True by (auto simp: const_ok_def)
      show ?thesis
        using writes_lea_mul(1) [OF bs st(1) in_reg_valid [OF r(1) st(2)], of cpu e dst C] in_reg_fields(4) [OF r(1)] r(2) bs True fits(2,3) mul
        by (auto simp: fused_add_def Let_def)
    next
      case False
      then obtain bs where bs: "lea_scale (imm_val ?i0) = Some bs" and "is_imm ?i0"
        using fusible_product(2) [OF fits(1)] fits(2) mul by blast
      then have r: "in_reg sel fn st dst (operand d 1) b" "imm_val ?i0 = a" using p False by (auto simp: const_ok_def)
      show ?thesis
        using writes_lea_mul(1) [OF bs st(1) in_reg_valid [OF r(1) st(2)], of cpu e dst C] in_reg_fields(4) [OF r(1)] r(2) bs False fits(2,3) mul
        by (auto simp: fused_add_def Let_def mult.commute)
    qed
  next
    case shl
    then have i: "is_imm ?i1" "imm_val ?i1 \<in> {1, 2, 3}" "in_reg sel fn st dst (operand d 0) a" "imm_val ?i1 = b"
      using fits(1,2) p by (auto simp: lea_fusible_def Let_def const_ok_def)
    note w = writes_index(1) [OF st(1) in_reg_valid [OF i(3) st(2)], of cpu e dst _ C 8]
    have "x = a * (if b = 1 then 2 else if b = 2 then 4 else 8)"
      using i(2,4) fits(3) shl by (auto simp: shift_amount_def push_bit_eq_mult)
    then show ?thesis
      using i in_reg_fields(4) [OF i(3)] fits(2) shl w [of Scale2] w [of Scale4] w [of Scale8]
      by (auto simp: fused_add_def Let_def)
  next
    case add
    then have i: "\<not> is_imm ?i0" "\<not> is_imm ?i1" "in_reg sel fn st dst (operand d 0) a" "in_reg sel fn st dst (operand d 1) b"
      using fits(1,2) p by (auto simp: lea_fusible_def Let_def)
    then show ?thesis
      using writes_base_index(1) [OF st(1) in_reg_valid [OF i(3) st(2)] in_reg_valid [OF i(4) st(2)], of cpu e dst Scale1 C 8]
        in_reg_fields(4) [OF i(3)] in_reg_fields(4) [OF i(4)] fits(2,3) add
      by (auto simp: fused_add_def Let_def)
  qed
qed

lemma fused_add_32:
  assumes fits: "lea_fusible sel d" "opcode d = OpArith f" "word_arith f a b = Some (x :: u32)" "fused_parts sel fn st dst d a b"
    and st: "supported st" "length (vreg_table fn) \<le> 4294967295"
  shows "\<exists>i. fused_add sel dst 4 C d = Some i \<and> writes cpu e [i] st dst (ucast (x + C))"
proof -
  let ?i0 = "get_imm_int_info sel (operand d 0)" and ?i1 = "get_imm_int_info sel (operand d 1)"
  note p = fits(4) [unfolded fused_parts_def]
  consider (mul) "f = Op_mul" | (shl) "f = Op_shl" | (add) "f = Op_add" using fits(1,2) by (auto simp: lea_fusible_def Let_def split: if_splits)
  then show ?thesis
  proof cases
    case mul
    show ?thesis
    proof (cases "is_imm ?i1")
      case True
      then obtain bs where bs: "lea_scale (imm_val ?i1) = Some bs"
        using fusible_product(1) [OF fits(1)] fits(2) mul by blast
      have r: "in_reg sel fn st dst (operand d 0) a" "imm_val ?i1 = scast b" using p True by (auto simp: const_ok_def)
      show ?thesis
        using writes_lea_mul(2) [OF bs st(1) in_reg_valid [OF r(1) st(2)], of cpu e dst C] in_reg_fields(4) [OF r(1)] r(2) bs True fits(2,3) mul
        by (auto simp: fused_add_def Let_def ucast_down_mult ucast_down_add)
    next
      case False
      then obtain bs where bs: "lea_scale (imm_val ?i0) = Some bs" and "is_imm ?i0"
        using fusible_product(2) [OF fits(1)] fits(2) mul by blast
      then have r: "in_reg sel fn st dst (operand d 1) b" "imm_val ?i0 = scast a" using p False by (auto simp: const_ok_def)
      show ?thesis
        using writes_lea_mul(2) [OF bs st(1) in_reg_valid [OF r(1) st(2)], of cpu e dst C] in_reg_fields(4) [OF r(1)] r(2) bs False fits(2,3) mul
        by (auto simp: fused_add_def Let_def mult.commute ucast_down_mult ucast_down_add)
    qed
  next
    case shl
    then have i: "is_imm ?i1" "imm_val ?i1 \<in> {1, 2, 3}" "in_reg sel fn st dst (operand d 0) a" "ucast (imm_val ?i1) = b"
      using fits(1,2) p by (auto simp: lea_fusible_def Let_def const_ok_def)
    note w = writes_index(2) [OF st(1) in_reg_valid [OF i(3) st(2)], of cpu e dst _ C 4]
    have "x = a * ucast (if imm_val ?i1 = 1 then 2 else if imm_val ?i1 = 2 then 4 else 8 :: u64)"
      using i(2) i(4) [symmetric] fits(3) shl by (auto simp: shift_amount_def push_bit_eq_mult)
    then show ?thesis
      using i(1-3) in_reg_fields(4) [OF i(3)] fits(2) shl w [of Scale2] w [of Scale4] w [of Scale8]
      by (auto simp: fused_add_def Let_def ucast_down_mult ucast_down_add)
  next
    case add
    then have i: "\<not> is_imm ?i0" "\<not> is_imm ?i1" "in_reg sel fn st dst (operand d 0) a" "in_reg sel fn st dst (operand d 1) b"
      using fits(1,2) p by (auto simp: lea_fusible_def Let_def)
    then show ?thesis
      using writes_base_index(2) [OF st(1) in_reg_valid [OF i(3) st(2)] in_reg_valid [OF i(4) st(2)], of cpu e dst Scale1 C 4]
        in_reg_fields(4) [OF i(3)] in_reg_fields(4) [OF i(4)] fits(2,3) add
      by (auto simp: fused_add_def Let_def ucast_down_add)
  qed
qed

text \<open>The addition of a constant to such an operand.\<close>

lemma add_const_fused_64:
  assumes "fused_operand sel fn st dst v (x :: u64)" "supported st" "length (vreg_table fn) \<le> 4294967295" "scast (ucast c :: u32) = c"
  shows "writes cpu e (add_const sel dst 8 v c) st dst (x + c)"
proof -
  obtain u d f a b where v: "v = Some u" "def_of (isel_values sel) u = Some d" "skipped_insts sel u"
    and d: "lea_fusible sel d" "opcode d = OpArith f" "word_arith f a b = Some x" "fused_parts sel fn st dst d a b"
    using assms(1) unfolding fused_operand_def by blast
  obtain i where "fused_add sel dst 8 (ucast c) d = Some i" "writes cpu e [i] st dst (x + scast (ucast c :: u32))"
    using fused_add_64 [OF d assms(2,3)] by blast
  then show ?thesis using v assms(4) by (simp add: add_const_def Let_def)
qed

lemma add_const_fused_32:
  assumes "fused_operand sel fn st dst v (x :: u32)" "supported st" "length (vreg_table fn) \<le> 4294967295" "ucast c = (y :: u32)"
  shows "writes cpu e (add_const sel dst 4 v c) st dst (ucast (x + y))"
proof -
  obtain u d f a b where v: "v = Some u" "def_of (isel_values sel) u = Some d" "skipped_insts sel u"
    and d: "lea_fusible sel d" "opcode d = OpArith f" "word_arith f a b = Some x" "fused_parts sel fn st dst d a b"
    using assms(1) unfolding fused_operand_def by blast
  obtain i where "fused_add sel dst 4 y d = Some i" "writes cpu e [i] st dst (ucast (x + y))"
    using fused_add_32 [OF d assms(2,3)] by blast
  then show ?thesis using v assms(4) by (simp add: add_const_def Let_def)
qed

definition lea_fused :: "X64ISel \<Rightarrow> LirFunction \<Rightarrow> LirExecState \<Rightarrow> Instruction \<Rightarrow> 'a::len word \<Rightarrow> 'a word \<Rightarrow> bool" where
  "lea_fused sel fn st inst x y \<longleftrightarrow>
     opcode inst = OpArith Op_add \<and> const_ok sel (operand inst 0) x \<and> const_ok sel (operand inst 1) y \<and>
     (alu_folded sel inst = Some 1 \<and> fused_operand sel fn st (get_vreg sel (result inst)) (operand inst 0) x \<or>
      alu_folded sel inst = Some 0 \<and> fused_operand sel fn st (get_vreg sel (result inst)) (operand inst 1) y)"

lemma lower_fused_64:
  assumes "supported st" "vreg_size (get_vreg sel (result inst)) = 8" "length (vreg_table fn) \<le> 4294967295"
    and f: "lea_fused sel fn st inst (x :: u64) y"
  shows "writes cpu e (lower_add sel inst) st (get_vreg sel (result inst)) (x + y)"
proof -
  note c = add_const_fused_64 [OF _ assms(1,3)]
  have low: "scast (ucast z :: u32) = z"
    if "is_imm (get_imm_int_info sel v)" "fits_i32 (get_imm_int_info sel v)" "imm_val (get_imm_int_info sel v) = z" for v and z :: u64
    using that fits_of_info [OF that(1)] by (simp add: scast_low_32)
  show ?thesis
    using f assms(2) c [where x = x and c = y] c [where x = y and c = x] low [of "operand inst 0" x] low [of "operand inst 1" y]
    by (auto simp: lea_fused_def alu_folded_def lower_add_def Let_def const_ok_def add.commute split: if_splits)
qed

lemma lower_fused_32:
  assumes "supported st" "vreg_size (get_vreg sel (result inst)) = 4" "length (vreg_table fn) \<le> 4294967295"
    and f: "lea_fused sel fn st inst (x :: u32) y"
  shows "writes cpu e (lower_add sel inst) st (get_vreg sel (result inst)) (ucast (x + y))"
proof -
  note c = add_const_fused_32 [OF _ assms(1,3)]
  show ?thesis
    using f assms(2) c [where x = x and c = "scast y" and y = y] c [where x = y and c = "scast x" and y = x]
    by (auto simp: lea_fused_def alu_folded_def lower_add_def Let_def const_ok_def add.commute split: if_splits)
qed

lemma push_bit_pow2: "push_bit j x = x * (2 ^ j :: 'a::len word)"
  by (simp add: push_bit_eq_mult)

lemma writes_shl:
  assumes "supported st" "vreg_id r \<noteq> vreg_id dst" "j < 64"
  shows "writes cpu e [mov_vv dst r 8, alu_vi 8 L_Shl32 L_Shl dst (of_nat j) 1] st dst (vregs st (vreg_id r) * 2 ^ j)"
    and "j < 32 \<Longrightarrow> writes cpu e [mov_vv dst r 4, alu_vi 4 L_Shl32 L_Shl dst (of_nat j) 1] st dst
      (ucast ((ucast (vregs st (vreg_id r)) :: u32) * 2 ^ j))"
  using assms by (auto simp: writes_def shape_defs sets_def push_bit_pow2 intro!: runs_rules)

lemma mul_const_64:
  assumes "supported st" "vreg_id r \<noteq> vreg_id dst" "vreg_id r \<noteq> 4294967295" "mul_imm_folds info"
  obtains code where "mul_const dst 8 r info = Some code" "writes cpu e code st dst (vregs st (vreg_id r) * imm_val info)"
proof -
  let ?c = "imm_val info"
  have d: "dst \<noteq> r" using assms(2) by auto
  consider (zero) "?c = 0" | (one) "?c = 1" | (lea) bs where "lea_scale ?c = Some bs" "?c \<noteq> 0" "?c \<noteq> 1"
    | (pow2) "lea_scale ?c = None" "?c \<noteq> 0" "?c \<noteq> 1" "0 < sint ?c" "?c AND (?c - 1) = 0"
    | (imm) "lea_scale ?c = None" "?c \<noteq> 0" "?c \<noteq> 1" "\<not> (0 < sint ?c \<and> ?c AND (?c - 1) = 0)" "fits_i32 info"
    using assms(4) by (cases "lea_scale ?c") (auto simp: mul_imm_folds_def Let_def split: if_splits)
  then show ?thesis
  proof cases
    case zero
    then show ?thesis using assms(1) by (intro that [of "[set_zero dst 8]"])
      (auto simp: mul_const_def writes_def shape_defs sets_def intro!: runs_rules)
  next
    case one
    then show ?thesis using d writes_mov(1) [OF assms(1)] by (intro that [of "[mov_vv dst r 8]"]) (auto simp: mul_const_def)
  next
    case lea
    then show ?thesis using writes_lea_mul(1) [OF lea(1) assms(1,3), of cpu e dst 0]
      by (intro that [of "[lea_mul dst 8 r bs 0]"]) (auto simp: mul_const_def)
  next
    case pow2
    obtain j where j: "j < 63" "?c = 2 ^ j" by (rule pow2_of_and [OF pow2(5,4)])
    then have "log2_from 0 ?c = j" by (simp add: log2_from_pow2)
    then show ?thesis using pow2 d j writes_shl(1) [OF assms(1,2), of j cpu e]
      by (intro that [of "[mov_vv dst r 8, alu_vi 8 L_Shl32 L_Shl dst (of_nat j) 1]"]) (auto simp: mul_const_def Let_def)
  next
    case imm
    then have "mul_const dst 8 r info = Some [insn (alu_op 8 L_Imul32 L_Imul) [vr dst 8] [vr r 8, im ?c 8]]"
      by (simp only: mul_const_def Let_def if_False option.case if_True)
    moreover have "writes cpu e [insn (alu_op 8 L_Imul32 L_Imul) [vr dst 8] [vr r 8, im ?c 8]] st dst (vregs st (vreg_id r) * ?c)"
      using assms(1) by (auto simp: writes_def shape_defs sets_def intro!: runs_rules)
    ultimately show ?thesis by (rule that)
  qed
qed

text \<open>At 32 bits the constant is the sign extension of a 32-bit one.\<close>

lemma mul_const_32:
  assumes "supported st" "vreg_id r \<noteq> vreg_id dst" "vreg_id r \<noteq> 4294967295" "imm_val info = scast (y :: u32)" "fits_i32 info"
  obtains code where "mul_const dst 4 r info = Some code"
    "writes cpu e code st dst (ucast ((ucast (vregs st (vreg_id r)) :: u32) * y))"
proof -
  let ?c = "imm_val info"
  have d: "dst \<noteq> r" using assms(2) by auto
  have y: "ucast ?c = y" using assms(4) by simp
  consider (zero) "?c = 0" | (one) "?c = 1" | (lea) bs where "lea_scale ?c = Some bs" "?c \<noteq> 0" "?c \<noteq> 1"
    | (pow2) "lea_scale ?c = None" "?c \<noteq> 0" "?c \<noteq> 1" "0 < sint ?c" "?c AND (?c - 1) = 0"
    | (imm) "lea_scale ?c = None" "?c \<noteq> 0" "?c \<noteq> 1" "\<not> (0 < sint ?c \<and> ?c AND (?c - 1) = 0)" "fits_i32 info"
    using assms(5) by (cases "lea_scale ?c") auto
  then show ?thesis
  proof cases
    case zero
    then show ?thesis using assms(1) y by (intro that [of "[set_zero dst 4]"])
      (auto simp: mul_const_def writes_def shape_defs sets_def intro!: runs_rules)
  next
    case one
    then show ?thesis using d y writes_mov(2) [OF assms(1)] by (intro that [of "[mov_vv dst r 4]"]) (auto simp: mul_const_def)
  next
    case lea
    then show ?thesis using y writes_lea_mul(2) [OF lea(1) assms(1,3), of cpu e dst 0]
      by (intro that [of "[lea_mul dst 4 r bs 0]"]) (auto simp: mul_const_def ucast_down_mult)
  next
    case pow2
    obtain j where j: "j < 63" "?c = 2 ^ j" by (rule pow2_of_and [OF pow2(5,4)])
    then have l: "log2_from 0 ?c = j" by (simp add: log2_from_pow2)
    have "sint y = 2 ^ j" using j sint_scast_32_64 [of y] sint_pow2 [of j, where 'a = 64] assms(4) by simp
    then have "(2 :: int) ^ j < 2 ^ 31" using sint_range32 [of y] by simp
    then have "j < 31" by (rule power_less_imp_less_exp [rotated]) simp
    moreover have "y = 2 ^ j"
      using \<open>sint y = 2 ^ j\<close> sint_pow2 [of j, where 'a = 32, simplified] \<open>j < 31\<close> by (metis word_of_int_sint)
    ultimately show ?thesis using pow2 d j l writes_shl(2) [OF assms(1,2), of j cpu e]
      by (intro that [of "[mov_vv dst r 4, alu_vi 4 L_Shl32 L_Shl dst (of_nat j) 1]"]) (auto simp: mul_const_def Let_def)
  next
    case imm
    then have "mul_const dst 4 r info = Some [insn (alu_op 4 L_Imul32 L_Imul) [vr dst 4] [vr r 4, im ?c 4]]"
      by (simp only: mul_const_def Let_def if_False option.case if_True)
    moreover have "writes cpu e [insn (alu_op 4 L_Imul32 L_Imul) [vr dst 4] [vr r 4, im ?c 4]] st dst
        (ucast ((ucast (vregs st (vreg_id r)) :: u32) * y))"
      using assms(1) y by (auto simp: writes_def shape_defs sets_def intro!: runs_rules)
    ultimately show ?thesis by (rule that)
  qed
qed

text \<open>A constant the folding leaves is one the multiplication by a constant leaves too.\<close>

lemma mul_const_None: "is_imm info \<Longrightarrow> \<not> mul_imm_folds info \<Longrightarrow> INT32_MIN \<le> sint (imm_val info) \<and> sint (imm_val info) \<le> INT32_MAX \<longrightarrow> fits_i32 info \<Longrightarrow>
    mul_const dst sz r info = None"
  by (auto simp: mul_imm_folds_def mul_const_def lea_scale_def Let_def split: if_splits)

lemma lower_mul_64:
  assumes "supported st" "vreg_size (get_vreg sel (result inst)) = 8" "length (vreg_table fn) \<le> 4294967295"
    and ops: "two_operands sel fn st inst (mul_folded sel inst) (x :: u64) y"
  shows "writes cpu e (lower_mul sel inst) st (get_vreg sel (result inst)) (x * y)"
  using ops
proof (cases rule: two_factors_cases)
  case imm1
  obtain code where "mul_const (get_vreg sel (result inst)) 8 (get_vreg sel (operand inst 0)) (get_imm_int_info sel (operand inst 1)) = Some code"
    "writes cpu e code st (get_vreg sel (result inst)) (vregs st (vreg_id (get_vreg sel (operand inst 0))) * y)"
    using mul_const_64 [OF assms(1) in_reg_fields(2) [OF imm1(5)] in_reg_valid [OF imm1(5) assms(3)] imm1(2)] imm1(4) by auto
  then show ?thesis using imm1 in_reg_fields [OF imm1(5)] assms(2) by (simp add: lower_mul_def Let_def)
next
  case imm0
  obtain code where "mul_const (get_vreg sel (result inst)) 8 (get_vreg sel (operand inst 1)) (get_imm_int_info sel (operand inst 0)) = Some code"
    "writes cpu e code st (get_vreg sel (result inst)) (vregs st (vreg_id (get_vreg sel (operand inst 1))) * x)"
    using mul_const_64 [OF assms(1) in_reg_fields(2) [OF imm0(5)] in_reg_valid [OF imm0(5) assms(3)] imm0(2)] imm0(4) by auto
  then show ?thesis using imm0 in_reg_fields [OF imm0(5)] assms(2) by (simp add: lower_mul_def Let_def mult.commute)
next
  case regs
  have "mul_const d 8 r (get_imm_int_info sel v) = None"
    if "\<not> mul_imm_folds (get_imm_int_info sel v)" "is_imm (get_imm_int_info sel v)" for v d r
    using that fits_of_info [of sel v] by (intro mul_const_None) simp_all
  then show ?thesis using regs assms(2) two_operands_plain [OF ops]
      either_order_64 [OF alu64.simps(3) _ assms(1) regs(3,4), of cpu e L_Imul32, simplified commutes_def]
    by (auto simp: lower_mul_def Let_def)
qed

lemma imm_32_fits:
  assumes "is_imm (get_imm_int_info sel v)" "imm_val (get_imm_int_info sel v) = scast (y :: u32)"
  shows "fits_i32 (get_imm_int_info sel v)"
  using fits_of_info [OF assms(1)] sint_range32 [of y] by (simp add: assms(2) sint_scast_32_64)

lemma lower_mul_32:
  assumes "supported st" "vreg_size (get_vreg sel (result inst)) = 4" "length (vreg_table fn) \<le> 4294967295"
    and ops: "two_operands sel fn st inst (mul_folded sel inst) (x :: u32) y"
  shows "writes cpu e (lower_mul sel inst) st (get_vreg sel (result inst)) (ucast (x * y))"
  using ops
proof (cases rule: two_factors_cases)
  case imm1
  obtain code where "mul_const (get_vreg sel (result inst)) 4 (get_vreg sel (operand inst 0)) (get_imm_int_info sel (operand inst 1)) = Some code"
    "writes cpu e code st (get_vreg sel (result inst)) (ucast (ucast (vregs st (vreg_id (get_vreg sel (operand inst 0)))) * y))"
    using mul_const_32 [OF assms(1) in_reg_fields(2) [OF imm1(5)] in_reg_valid [OF imm1(5) assms(3)] imm1(4) imm_32_fits [OF imm1(1,4)]] by auto
  then show ?thesis using imm1 in_reg_fields [OF imm1(5)] assms(2) by (simp add: lower_mul_def Let_def)
next
  case imm0
  obtain code where "mul_const (get_vreg sel (result inst)) 4 (get_vreg sel (operand inst 1)) (get_imm_int_info sel (operand inst 0)) = Some code"
    "writes cpu e code st (get_vreg sel (result inst)) (ucast (ucast (vregs st (vreg_id (get_vreg sel (operand inst 1)))) * x))"
    using mul_const_32 [OF assms(1) in_reg_fields(2) [OF imm0(5)] in_reg_valid [OF imm0(5) assms(3)] imm0(4) imm_32_fits [OF imm0(3,4)]] by auto
  then show ?thesis using imm0 in_reg_fields [OF imm0(5)] assms(2) by (simp add: lower_mul_def Let_def mult.commute)
next
  case regs
  have "mul_const d 4 r (get_imm_int_info sel v) = None"
    if "\<not> mul_imm_folds (get_imm_int_info sel v)" "is_imm (get_imm_int_info sel v)" for v d r
    using that fits_of_info [of sel v] by (intro mul_const_None) simp_all
  then show ?thesis using regs assms(2) two_operands_plain [OF ops]
      either_order_32 [OF alu32.simps(3) _ assms(1) regs(3,4), of cpu e L_Imul, simplified commutes_def]
    by (auto simp: lower_mul_def Let_def)
qed

end
