(* ===== verification/X64_Cmp.thy ===== *)
theory X64_Cmp
  imports X64_Alu
begin

text \<open>
  Correctness of the x64 lowering of the integer comparisons, the overflow checks and the bit
  counts: the code leaves one or zero, or the count, in the destination.
\<close>

section \<open>Flags to a Boolean\<close>

text \<open>The flags a condition reads are set, and it has the given truth value.\<close>

definition holds :: "LirExecState \<Rightarrow> Condition \<Rightarrow> bool \<Rightarrow> bool" where
  "holds st c b \<longleftrightarrow> supported st \<and> (\<forall>fp. eval_condition fp (flags st) c = (1, of_bool b))"

lemma holds_flags: "flags_are (flags st) z sg ov cy \<Longrightarrow> c \<notin> {C_P, C_NP, C_None} \<Longrightarrow> supported st \<Longrightarrow> flag_cond c z sg ov cy = b \<Longrightarrow> holds st c b"
  using condition_value by (auto simp: holds_def)

lemma set_bool_runs:
  assumes "holds st c b"
    and "\<And>st'. supported st' \<Longrightarrow> vregs st' = (vregs st)(vreg_id dst := of_bool b) \<Longrightarrow> runs cpu e is st' Q"
  shows "runs cpu e (set_bool dst c @ is) st Q"
proof -
  have s: "supported st" and v: "eval_condition (env_fp e) (flags st) c = (1, of_bool b)"
    using assms(1) unfolding holds_def by blast+
  then have c: "cond_ready e st c" "cond_bit e st c = b" by (auto simp: cond_ready_def cond_bit_def)
  with s show ?thesis unfolding set_bool_def using assms(2) by (auto simp: vr_def sets_def intro!: runs_rules)
qed

lemma set_bool_writes:
  assumes "runs cpu e is st (\<lambda>st'. holds st' c b \<and> vregs st' = vregs st)"
  shows "writes cpu e (is @ set_bool dst c) st dst (of_bool b)"
  unfolding writes_def runs_append
proof (rule runs_mono [OF assms])
  fix st' assume "holds st' c b \<and> vregs st' = vregs st"
  then have "runs cpu e (set_bool dst c @ []) st' (\<lambda>s. vregs s = (vregs st)(vreg_id dst := of_bool b))"
    by (elim conjE set_bool_runs) (auto intro: runs_Nil)
  then show "runs cpu e (set_bool dst c) st' (\<lambda>s. vregs s = (vregs st)(vreg_id dst := of_bool b))" by simp
qed

lemma relational_flags: "relational c \<Longrightarrow> c \<notin> {C_P, C_NP, C_None}"
  by auto

lemma cmp_holds:
  assumes "relational c" "supported st" "plain_src a" "plain_src b"
  shows "runs cpu e [insn (cmp_op 8) [] [(a, p), (b, q)]] st
      (\<lambda>st'. holds st' c (cond_cmp c (src_val st a) (src_val st b)) \<and> vregs st' = vregs st)"
    and "runs cpu e [insn (cmp_op 4) [] [(a, p), (b, q)]] st
      (\<lambda>st'. holds st' c (cond_cmp c (ucast (src_val st a) :: u32) (ucast (src_val st b))) \<and> vregs st' = vregs st)"
  using assms(2-) relational_flags [OF assms(1)] flag_cond_sub [OF assms(1)]
  by (auto simp: cmp_op_def tests_def intro!: runs_rules holds_flags)

lemma test_holds:
  assumes "relational c" "supported st"
  shows "runs cpu e [insn (test_op 8) [] [vr r s, vr r t]] st
      (\<lambda>st'. holds st' c (cond_cmp c (vregs st (vreg_id r)) 0) \<and> vregs st' = vregs st)"
    and "runs cpu e [insn (test_op 4) [] [vr r s, vr r t]] st
      (\<lambda>st'. holds st' c (cond_cmp c (ucast (vregs st (vreg_id r)) :: u32) 0) \<and> vregs st' = vregs st)"
  using assms(2-) relational_flags [OF assms(1)] flag_cond_test [OF assms(1)]
  by (auto simp: vr_def test_op_def tests_def intro!: runs_rules holds_flags)

section \<open>Comparisons\<close>

lemma swap_cond: "relational c \<Longrightarrow> cond_cmp (swap_relational_condition c) y x = cond_cmp c x y"
  "relational c \<Longrightarrow> relational (swap_relational_condition c)"
  by (cases c; auto)+

lemma unfit_not_zero: "\<not> (is_imm (get_imm_int_info sel v) \<and> fits_i32 (get_imm_int_info sel v)) \<Longrightarrow>
    \<not> (is_imm (get_imm_int_info sel v) \<and> imm_val (get_imm_int_info sel v) = 0)"
  using fits_of_info [of sel v] by auto

text \<open>Where a constant is the second operand, a zero as first operand goes with a second zero.\<close>

lemma zero_not_folded:
  assumes "opcode inst = OpCmp r" "\<not> reads_folded sel inst"
    and "is_imm (get_imm_int_info sel (operand inst 1))" "fits_i32 (get_imm_int_info sel (operand inst 1))"
    and "imm_val (get_imm_int_info sel (operand inst 1)) \<noteq> 0"
  shows "\<not> (is_imm (get_imm_int_info sel (operand inst 0)) \<and> imm_val (get_imm_int_info sel (operand inst 0)) = 0)"
  using assms by (auto simp: reads_folded_def Let_def)

lemma compare_64:
  assumes "relational c" "supported st" "operand_bytes sel (operand inst 0) = 8"
    and cmp: "opcode inst = OpCmp r" "\<not> reads_folded sel inst"
    and ops: "two_operands sel fn st inst (alu_folded sel inst) (x :: u64) y"
  shows "runs cpu e [fst (compare_code sel inst c)] st
    (\<lambda>st'. holds st' (snd (compare_code sel inst c)) (cond_cmp c x y) \<and> vregs st' = vregs st)"
  using ops
proof (cases rule: two_operands_cases)
  case imm1
  then show ?thesis
    using zero_not_folded [OF cmp imm1(1,2)] in_reg_fields [OF imm1(5)] assms(3) test_holds(1) [OF assms(1,2)] cmp_holds(1) [OF assms(1,2), of "O_VReg _ _" "O_ImmInt y _"]
    by (cases "y = 0") (auto simp: compare_code_def Let_def vr_def im_def)
next
  case imm0
  note s = swap_cond(1) [OF assms(1), of y x] swap_cond(2) [OF assms(1)]
  show ?thesis unfolding s(1) [symmetric]
    using imm0 unfit_not_zero [OF imm0(1)] in_reg_fields [OF imm0(5)] assms(3) test_holds(1) [OF s(2) assms(2)]
      cmp_holds(1) [OF s(2) assms(2), of "O_VReg _ _" "O_ImmInt x _"]
    by (cases "x = 0") (auto simp: compare_code_def Let_def vr_def im_def)
next
  case regs
  then show ?thesis
    using in_reg_fields [OF regs(3)] in_reg_fields [OF regs(4)] assms(3) two_operands_plain [OF ops]
      unfit_not_zero [OF regs(1)] unfit_not_zero [OF regs(2)] cmp_holds(1) [OF assms(1,2), of "O_VReg _ _" "O_VReg _ _"]
    by (auto simp: compare_code_def Let_def vr_def im_def)
qed

lemma compare_32:
  assumes "relational c" "supported st" "operand_bytes sel (operand inst 0) = 4"
    and cmp: "opcode inst = OpCmp r" "\<not> reads_folded sel inst"
    and ops: "two_operands sel fn st inst (alu_folded sel inst) (x :: u32) y"
  shows "runs cpu e [fst (compare_code sel inst c)] st
    (\<lambda>st'. holds st' (snd (compare_code sel inst c)) (cond_cmp c x y) \<and> vregs st' = vregs st)"
  using ops
proof (cases rule: two_operands_cases)
  case imm1
  have "scast y = (0 :: u64) \<longleftrightarrow> y = 0" using low_of_scast [of y] by auto
  then show ?thesis
    using imm1 zero_not_folded [OF cmp imm1(1,2)] in_reg_fields [OF imm1(5)] assms(3) test_holds(2) [OF assms(1,2)]
      cmp_holds(2) [OF assms(1,2), of "O_VReg _ _" "O_ImmInt (scast y) _"]
    by (cases "y = 0") (auto simp: compare_code_def Let_def vr_def im_def)
next
  case imm0
  note s = swap_cond(1) [OF assms(1), of y x] swap_cond(2) [OF assms(1)]
  have "scast x = (0 :: u64) \<longleftrightarrow> x = 0" using low_of_scast [of x] by auto
  then show ?thesis unfolding s(1) [symmetric]
    using imm0 unfit_not_zero [OF imm0(1)] in_reg_fields [OF imm0(5)] assms(3) test_holds(2) [OF s(2) assms(2)]
      cmp_holds(2) [OF s(2) assms(2), of "O_VReg _ _" "O_ImmInt (scast x) _"]
    by (cases "x = 0") (auto simp: compare_code_def Let_def vr_def im_def)
next
  case regs
  then show ?thesis
    using in_reg_fields [OF regs(3)] in_reg_fields [OF regs(4)] assms(3) two_operands_plain [OF ops]
      unfit_not_zero [OF regs(1)] unfit_not_zero [OF regs(2)] cmp_holds(2) [OF assms(1,2), of "O_VReg _ _" "O_VReg _ _"]
    by (auto simp: compare_code_def Let_def vr_def im_def)
qed

text \<open>The condition an integer comparison selects tests that comparison.\<close>

lemma comparison_condition: "relational (fst (get_comparison_conditions r))"
  "cond_cmp (fst (get_comparison_conditions r)) x y = word_cmp r x y"
  by (cases r; simp)+

lemma lower_comparison_writes:
  assumes "runs cpu e [fst (compare_code sel inst c)] st
    (\<lambda>st'. holds st' (snd (compare_code sel inst c)) b \<and> vregs st' = vregs st)"
  shows "writes cpu e (new_code fn (lower_comparison sel inst c fn)) st (get_vreg sel (result inst)) (of_bool b)"
  using set_bool_writes [OF assms, of "get_vreg sel (result inst)"]
  by (simp add: lower_comparison_def split_beta del: insn_eq)

section \<open>Overflow checks\<close>

text \<open>The flag an overflow check reads, after each of the three operations.\<close>

lemma eval_add: "eval_op fp BV_Add 64 64 64 0 0 x y 0 = x + y"
  "eval_op fp BV_Add 32 32 32 0 0 (ucast (a :: u32)) (ucast b) 0 = ucast (a + b)"
  using eval_alu64 [of L_Add Op_add BV_Add fp x y] eval_alu32 [of L_Add32 Op_add BV_Add fp a b] by (simp_all add: bv_of_arith_def)

lemma eval_mul: "eval_op fp BV_Mul 64 64 64 0 0 x y 0 = x * y"
  "eval_op fp BV_Mul 32 32 32 0 0 (ucast (a :: u32)) (ucast b) 0 = ucast (a * b)"
  using eval_alu64 [of L_Imul Op_mul BV_Mul fp x y] eval_alu32 [of L_Imul32 Op_mul BV_Mul fp a b] by (simp_all add: bv_of_arith_def)

lemma eval_zext: "eval_op fp BV_ZExt 64 32 (Suc 0) 0 32 (ucast (a :: u32)) 0 0 = ucast a"
  using bv_zext_def by simp

lemma eval_sub: "eval_op fp BV_Sub 64 64 64 0 0 x y 0 = x - y"
  "eval_op fp BV_Sub 32 32 32 0 0 (ucast (a :: u32)) (ucast b) 0 = ucast (a - b)"
  using eval_alu64 [of L_Sub Op_sub BV_Sub fp x y] eval_alu32 [of L_Sub32 Op_sub BV_Sub fp a b] by (simp_all add: bv_of_arith_def)

text \<open>A step that writes one register and after which two conditions hold.\<close>

definition leaves :: "x64_cpu \<Rightarrow> lir_env \<Rightarrow> LirInst \<Rightarrow> LirExecState \<Rightarrow> VReg \<Rightarrow> (Condition \<times> bool) list \<Rightarrow> bool" where
  "leaves cpu e i st d cs \<longleftrightarrow> runs cpu e [i] st (\<lambda>st'. (\<forall>(c, b) \<in> set cs. holds st' c b) \<and> (\<exists>t. vregs st' = (vregs st)(vreg_id d := t)))"

lemma leavesI:
  assumes "machine_inst cpu e i st = Some st'" "supported st'" "vregs st' = (vregs st)(vreg_id d := t)"
    "\<And>c b. (c, b) \<in> set cs \<Longrightarrow> holds st' c b"
  shows "leaves cpu e i st d cs"
  unfolding leaves_def using assms by (auto intro!: runs_Cons runs_Nil)

lemma flags_after_add_64:
  assumes "supported st" "vregs st (vreg_id d) = x" "vregs st (vreg_id r) = y"
  shows "leaves cpu e (insn (LAlu L_Add) [vr d s] [vr d s, vr r s]) st d [(C_O, word_overflow Op_sadd_overflow x y), (C_B, word_overflow Op_uadd_overflow x y)]"
proof -
  let ?st = "st\<lparr>vregs := (vregs st)(vreg_id d := x + y), flags := set_add_flags (env_fp e) (64, x) (64, y) (64, x + y) 64,
    flags_defined := True\<rparr>"
  have "machine_inst cpu e (insn (LAlu L_Add) [vr d s] [vr d s, vr r s]) st = Some ?st"
    using assms by (simp add: machine_inst_def exec_inst_def exec_alu_defs vr_def read_plain eval_add write_op_def widen_value_def
        bv_zext_def eval_zext del: eval_op.simps)
  moreover have "holds ?st c b" if "(c, b) \<in> set [(C_O, word_overflow Op_sadd_overflow x y), (C_B, word_overflow Op_uadd_overflow x y)]" for c b
    using that assms(1) add_flags_64 [of "env_fp e" x y] by (auto simp del: word_overflow.simps intro!: holds_flags)
  ultimately show ?thesis using assms(1) by (intro leavesI [of cpu e _ st ?st]) simp_all
qed

lemma flags_after_add_32:
  assumes "supported st" "ucast (vregs st (vreg_id d)) = (x :: u32)" "ucast (vregs st (vreg_id r)) = y"
  shows "leaves cpu e (insn (LAlu L_Add32) [vr d s] [vr d s, vr r s]) st d [(C_O, word_overflow Op_sadd_overflow x y), (C_B, word_overflow Op_uadd_overflow x y)]"
proof -
  let ?st = "st\<lparr>vregs := (vregs st)(vreg_id d := ucast (x + y)), flags := set_add_flags (env_fp e) (32, ucast x) (32, ucast y) (32, ucast (x + y)) 32,
    flags_defined := True\<rparr>"
  have "machine_inst cpu e (insn (LAlu L_Add32) [vr d s] [vr d s, vr r s]) st = Some ?st"
    using assms by (simp add: machine_inst_def exec_inst_def exec_alu_defs vr_def read_plain eval_add write_op_def widen_value_def
        bv_zext_def eval_zext del: eval_op.simps)
  moreover have "holds ?st c b" if "(c, b) \<in> set [(C_O, word_overflow Op_sadd_overflow x y), (C_B, word_overflow Op_uadd_overflow x y)]" for c b
    using that assms(1) add_flags_32 [of "env_fp e" x y] by (auto simp del: word_overflow.simps intro!: holds_flags)
  ultimately show ?thesis using assms(1) by (intro leavesI [of cpu e _ st ?st]) simp_all
qed

lemma flags_after_sub_64:
  assumes "supported st" "vregs st (vreg_id d) = x" "vregs st (vreg_id r) = y"
  shows "leaves cpu e (insn (LAlu L_Sub) [vr d s] [vr d s, vr r s]) st d [(C_O, word_overflow Op_ssub_overflow x y), (C_B, word_overflow Op_usub_overflow x y)]"
proof -
  let ?st = "st\<lparr>vregs := (vregs st)(vreg_id d := x - y), flags := set_sub_flags (env_fp e) (64, x) (64, y) (64, x - y) 64,
    flags_defined := True\<rparr>"
  have "machine_inst cpu e (insn (LAlu L_Sub) [vr d s] [vr d s, vr r s]) st = Some ?st"
    using assms by (simp add: machine_inst_def exec_inst_def exec_alu_defs vr_def read_plain eval_sub write_op_def widen_value_def
        bv_zext_def eval_zext del: eval_op.simps)
  moreover have "holds ?st c b" if "(c, b) \<in> set [(C_O, word_overflow Op_ssub_overflow x y), (C_B, word_overflow Op_usub_overflow x y)]" for c b
    using that assms(1) sub_flags_64 [of "env_fp e" x y] unsigned_sub_check [of x y] by (auto simp del: word_overflow.simps intro!: holds_flags)
  ultimately show ?thesis using assms(1) by (intro leavesI [of cpu e _ st ?st]) simp_all
qed

lemma flags_after_sub_32:
  assumes "supported st" "ucast (vregs st (vreg_id d)) = (x :: u32)" "ucast (vregs st (vreg_id r)) = y"
  shows "leaves cpu e (insn (LAlu L_Sub32) [vr d s] [vr d s, vr r s]) st d [(C_O, word_overflow Op_ssub_overflow x y), (C_B, word_overflow Op_usub_overflow x y)]"
proof -
  let ?st = "st\<lparr>vregs := (vregs st)(vreg_id d := ucast (x - y)), flags := set_sub_flags (env_fp e) (32, ucast x) (32, ucast y) (32, ucast (x - y)) 32,
    flags_defined := True\<rparr>"
  have "machine_inst cpu e (insn (LAlu L_Sub32) [vr d s] [vr d s, vr r s]) st = Some ?st"
    using assms by (simp add: machine_inst_def exec_inst_def exec_alu_defs vr_def read_plain eval_sub write_op_def widen_value_def
        bv_zext_def eval_zext del: eval_op.simps)
  moreover have "holds ?st c b" if "(c, b) \<in> set [(C_O, word_overflow Op_ssub_overflow x y), (C_B, word_overflow Op_usub_overflow x y)]" for c b
    using that assms(1) sub_flags_32 [of "env_fp e" x y] unsigned_sub_check [of x y] by (auto simp del: word_overflow.simps intro!: holds_flags)
  ultimately show ?thesis using assms(1) by (intro leavesI [of cpu e _ st ?st]) simp_all
qed

lemma flags_after_imul_64:
  assumes "supported st" "vregs st (vreg_id d) = x" "vregs st (vreg_id r) = y"
  shows "leaves cpu e (insn (LAlu L_Imul) [vr d s] [vr d s, vr r s]) st d [(C_O, word_overflow Op_smul_overflow x y)]"
proof -
  have v: "eval_op fp BV_SMulOvf 1 64 64 0 0 x y 0 = of_bool (word_overflow Op_smul_overflow x y)" for fp
    using eval_ovf_64 [of fp Op_smul_overflow 1 64 0 0 x y 0] by (simp del: eval_op.simps word_overflow.simps)
  obtain st' where "machine_inst cpu e (insn (LAlu L_Imul) [vr d s] [vr d s, vr r s]) st = Some st'" "supported st'"
    "flag_of (flags st') = (1, of_bool (word_overflow Op_smul_overflow x y))" "vregs st' = (vregs st)(vreg_id d := x * y)"
    using assms v [of "env_fp e"] eval_mul
    by (auto simp: machine_inst_def exec_inst_def exec_alu_defs vr_def read_plain write_op_def widen_value_def
        bv_zext_def eval_zext simp del: eval_op.simps word_overflow.simps)
  then show ?thesis by (intro leavesI) (auto simp: holds_def eval_condition_def simp del: word_overflow.simps)
qed

lemma flags_after_imul_32:
  assumes "supported st" "ucast (vregs st (vreg_id d)) = (x :: u32)" "ucast (vregs st (vreg_id r)) = y"
  shows "leaves cpu e (insn (LAlu L_Imul32) [vr d s] [vr d s, vr r s]) st d [(C_O, word_overflow Op_smul_overflow x y)]"
proof -
  have v: "eval_op fp BV_SMulOvf 1 32 32 0 0 (ucast x) (ucast y) 0 = of_bool (word_overflow Op_smul_overflow x y)" for fp
    using eval_ovf_32 [of fp Op_smul_overflow 1 32 0 0 x y 0] by (simp del: eval_op.simps word_overflow.simps)
  obtain st' where "machine_inst cpu e (insn (LAlu L_Imul32) [vr d s] [vr d s, vr r s]) st = Some st'" "supported st'"
    "flag_of (flags st') = (1, of_bool (word_overflow Op_smul_overflow x y))" "vregs st' = (vregs st)(vreg_id d := ucast (x * y))"
    using assms v [of "env_fp e"] eval_mul
    by (auto simp: machine_inst_def exec_inst_def exec_alu_defs vr_def read_plain write_op_def widen_value_def
        bv_zext_def eval_zext simp del: eval_op.simps word_overflow.simps)
  then show ?thesis by (intro leavesI) (auto simp: holds_def eval_condition_def simp del: word_overflow.simps)
qed

lemma overflow_flag_64:
  assumes "overflow_alu op = (op32, op64, c)" "op \<noteq> Op_umul_overflow" "supported st"
    and "vregs st (vreg_id d) = x" "vregs st (vreg_id r) = y"
  obtains cs where "leaves cpu e (alu_vv 8 op32 op64 d r) st d cs" "(c, word_overflow op x y) \<in> set cs"
  using assms(1,2) flags_after_add_64 [OF assms(3-), of cpu e 8] flags_after_sub_64 [OF assms(3-), of cpu e 8]
    flags_after_imul_64 [OF assms(3-), of cpu e 8]
  by (cases op) (auto simp: alu_vv_def alu_op_def simp del: insn_eq word_overflow.simps intro: that)

lemma overflow_flag_32:
  assumes "overflow_alu op = (op32, op64, c)" "op \<noteq> Op_umul_overflow" "supported st"
    and "ucast (vregs st (vreg_id d)) = (x :: u32)" "ucast (vregs st (vreg_id r)) = y"
  obtains cs where "leaves cpu e (alu_vv 4 op32 op64 d r) st d cs" "(c, word_overflow op x y) \<in> set cs"
  using assms(1,2) flags_after_add_32 [OF assms(3-), of cpu e 4] flags_after_sub_32 [OF assms(3-), of cpu e 4]
    flags_after_imul_32 [OF assms(3-), of cpu e 4]
  by (cases op) (auto simp: alu_vv_def alu_op_def simp del: insn_eq word_overflow.simps intro: that)

text \<open>Code that leaves the registers of the function alone and sets the flags, then the Boolean.\<close>

abbreviation frame :: "nat \<Rightarrow> LirExecState \<Rightarrow> LirExecState \<Rightarrow> bool" where
  "frame N st st' \<equiv> \<forall>v < N. vregs st' v = vregs st v"

lemma set_bool_computes:
  assumes "runs cpu e is st (\<lambda>st'. holds st' c b \<and> frame N st st')"
  shows "runs cpu e (is @ set_bool dst c) st (\<lambda>st'. supported st' \<and> vregs st' (vreg_id dst) = of_bool b \<and>
     (\<forall>v < N. v \<noteq> vreg_id dst \<longrightarrow> vregs st' v = vregs st v))"
  unfolding runs_append
proof (rule runs_mono [OF assms])
  let ?Q = "\<lambda>s. supported s \<and> vregs s (vreg_id dst) = of_bool b \<and> (\<forall>v < N. v \<noteq> vreg_id dst \<longrightarrow> vregs s v = vregs st v)"
  fix st' assume "holds st' c b \<and> frame N st st'"
  then have "runs cpu e (set_bool dst c @ []) st' ?Q" by (elim conjE set_bool_runs) (auto intro: runs_Nil)
  then show "runs cpu e (set_bool dst c) st' ?Q" by simp
qed

lemma leaves_set_bool:
  assumes "leaves cpu e i st t cs" "(c, b) \<in> set cs" "vreg_id t = N"
  shows "runs cpu e (i # set_bool dst c) st (\<lambda>st'. supported st' \<and> vregs st' (vreg_id dst) = of_bool b \<and>
     (\<forall>v < N. v \<noteq> vreg_id dst \<longrightarrow> vregs st' v = vregs st v))"
proof -
  have "runs cpu e [i] st (\<lambda>st'. holds st' c b \<and> frame N st st')"
    by (rule runs_mono [OF assms(1) [unfolded leaves_def]]) (use assms in auto)
  from set_bool_computes [OF this] show ?thesis by simp
qed

lemma flagged_overflow_64:
  assumes "op \<noteq> Op_umul_overflow" "supported st" "vreg_size (get_vreg sel (operand inst 0)) = 8"
    and r: "in_reg sel fn st (get_vreg sel (result inst)) (operand inst 0) (x :: u64)"
      "in_reg sel fn st (get_vreg sel (result inst)) (operand inst 1) y"
  shows "computes cpu e fn (lower_overflow_check sel inst op fn) st (get_vreg sel (result inst)) (\<lambda>v. v = of_bool (word_overflow op x y))"
proof -
  let ?N = "length (vreg_table fn)" and ?r0 = "get_vreg sel (operand inst 0)" and ?r1 = "get_vreg sel (operand inst 1)"
    and ?d = "get_vreg sel (result inst)"
  obtain op32 op64 c where o: "overflow_alu op = (op32, op64, c)" by (cases "overflow_alu op")
  have code: "new_code fn (lower_overflow_check sel inst op fn) =
      mov_vv (temp_vreg ?N 8) ?r0 8 # alu_vv 8 op32 op64 (temp_vreg ?N 8) ?r1 # set_bool ?d c"
    using assms(1,3) o by (simp add: lower_overflow_check_def Let_def temp_eq new_code_def del: insn_eq)
  have "runs cpu e (alu_vv 8 op32 op64 (temp_vreg ?N 8) ?r1 # set_bool ?d c) st' (\<lambda>s. vregs s (vreg_id ?d) = of_bool (word_overflow op x y) \<and>
     (\<forall>v < ?N. v \<noteq> vreg_id ?d \<longrightarrow> vregs s v = vregs st v))"
    if st': "supported st'" "vregs st' = (vregs st)(?N := x)" for st'
  proof -
    have y: "vregs st' (vreg_id (temp_vreg ?N 8)) = x" "vregs st' (vreg_id ?r1) = y" using in_reg_fields [OF r(2)] st' by auto
    obtain cs where "leaves cpu e (alu_vv 8 op32 op64 (temp_vreg ?N 8) ?r1) st' (temp_vreg ?N 8) cs" "(c, word_overflow op x y) \<in> set cs"
      by (rule overflow_flag_64 [OF o assms(1) st'(1) y])
    from leaves_set_bool [OF this temp_vreg_id] show ?thesis by (rule runs_mono) (use st' in auto)
  qed
  then show ?thesis
    unfolding computes_def code using assms(2) in_reg_fields [OF r(1)]
    by (auto simp: mov_vv_def mov_op_def vr_def sets_def intro!: runs_mov simp del: word_overflow.simps)
qed

lemma flagged_overflow_32:
  assumes "op \<noteq> Op_umul_overflow" "supported st" "vreg_size (get_vreg sel (operand inst 0)) = 4"
    and r: "in_reg sel fn st (get_vreg sel (result inst)) (operand inst 0) (x :: u32)"
      "in_reg sel fn st (get_vreg sel (result inst)) (operand inst 1) y"
  shows "computes cpu e fn (lower_overflow_check sel inst op fn) st (get_vreg sel (result inst)) (\<lambda>v. v = of_bool (word_overflow op x y))"
proof -
  let ?N = "length (vreg_table fn)" and ?r0 = "get_vreg sel (operand inst 0)" and ?r1 = "get_vreg sel (operand inst 1)"
    and ?d = "get_vreg sel (result inst)"
  obtain op32 op64 c where o: "overflow_alu op = (op32, op64, c)" by (cases "overflow_alu op")
  have code: "new_code fn (lower_overflow_check sel inst op fn) =
      mov_vv (temp_vreg ?N 4) ?r0 4 # alu_vv 4 op32 op64 (temp_vreg ?N 4) ?r1 # set_bool ?d c"
    using assms(1,3) o by (simp add: lower_overflow_check_def Let_def temp_eq new_code_def del: insn_eq)
  have "runs cpu e (alu_vv 4 op32 op64 (temp_vreg ?N 4) ?r1 # set_bool ?d c) st' (\<lambda>s. vregs s (vreg_id ?d) = of_bool (word_overflow op x y) \<and>
     (\<forall>v < ?N. v \<noteq> vreg_id ?d \<longrightarrow> vregs s v = vregs st v))"
    if st': "supported st'" "vregs st' = (vregs st)(?N := ucast x)" for st'
  proof -
    have y: "ucast (vregs st' (vreg_id (temp_vreg ?N 4))) = x" "ucast (vregs st' (vreg_id ?r1)) = y" using in_reg_fields [OF r(2)] st' by auto
    obtain cs where "leaves cpu e (alu_vv 4 op32 op64 (temp_vreg ?N 4) ?r1) st' (temp_vreg ?N 4) cs" "(c, word_overflow op x y) \<in> set cs"
      by (rule overflow_flag_32 [OF o assms(1) st'(1) y])
    from leaves_set_bool [OF this temp_vreg_id] show ?thesis by (rule runs_mono) (use st' in auto)
  qed
  then show ?thesis
    unfolding computes_def code using assms(2) in_reg_fields [OF r(1)]
    by (auto simp: mov_vv_def mov_op_def vr_def sets_def intro!: runs_mov32 simp del: word_overflow.simps)
qed

lemma high_half_32:
  "(ucast (drop_bit 32 ((ucast x :: u64) * ucast y)) :: u32) \<noteq> 0 \<longleftrightarrow> word_overflow Op_umul_overflow x (y :: u32)"
proof -
  let ?p = "(ucast x :: u64) * ucast y"
  have "uint (ucast (drop_bit 32 ?p) :: u32) = uint ?p div 2 ^ 32 mod 2 ^ 32"
    by (simp add: uint_ucast_down drop_bit_eq_div uint_div)
  also have "\<dots> = uint ?p div 2 ^ 32"
  proof (rule mod_pos_pos_trivial)
    have "uint ?p < 18446744073709551616" using uint_range64(2) [of ?p] by linarith
    then show "uint ?p div 2 ^ 32 < 2 ^ 32" by simp
  qed (simp add: pos_imp_zdiv_nonneg_iff)
  finally have "(ucast (drop_bit 32 ?p) :: u32) \<noteq> 0 \<longleftrightarrow> uint ?p div 2 ^ 32 \<noteq> 0" by (simp add: word_uint_eq_iff)
  also have "\<dots> \<longleftrightarrow> \<not> uint ?p < 2 ^ 32" using uint_range64 [of ?p] by auto
  also have "\<dots> \<longleftrightarrow> word_overflow Op_umul_overflow x y" by (simp add: product_32 word_overflow_exact del: word_overflow.simps)
  finally show ?thesis .
qed

lemma umul_overflow_32:
  assumes "supported st" "vreg_size (get_vreg sel (operand inst 0)) = 4"
    and r: "in_reg sel fn st (get_vreg sel (result inst)) (operand inst 0) (x :: u32)"
      "in_reg sel fn st (get_vreg sel (result inst)) (operand inst 1) y"
  shows "computes cpu e fn (lower_overflow_check sel inst Op_umul_overflow fn) st (get_vreg sel (result inst))
    (\<lambda>v. v = of_bool (word_overflow Op_umul_overflow x y))"
proof -
  let ?N = "length (vreg_table fn)" and ?r0 = "get_vreg sel (operand inst 0)" and ?r1 = "get_vreg sel (operand inst 1)"
    and ?d = "get_vreg sel (result inst)"
  let ?t0 = "temp_vreg ?N 8" and ?t1 = "temp_vreg (?N + 1) 8" and ?p = "temp_vreg (?N + 2) 8" and ?h = "temp_vreg (?N + 3) 8"
  let ?is = "[insn (LMove L_Mov32) [vr ?t0 4] [vr ?r0 4], insn (LMove L_Mov32) [vr ?t1 4] [vr ?r1 4],
    insn (LMove L_Mov) [vr ?p 8] [vr ?t0 8], insn (LAlu L_Imul) [vr ?p 8] [vr ?p 8, vr ?t1 8],
    insn (LMove L_Mov) [vr ?h 8] [vr ?p 8], insn (LAlu L_Shr) [vr ?h 8] [vr ?h 8, im 32 1],
    insn (LTest L_Test32) [] [vr ?h 4, vr ?h 4]]"
  have code: "new_code fn (lower_overflow_check sel inst Op_umul_overflow fn) = ?is @ set_bool ?d C_NE"
    using assms(2) by (simp add: lower_overflow_check_def lower_umul_overflow32_def Let_def temp_eq new_code_def del: insn_eq)
      (simp add: numeral_eq_Suc)
  have "runs cpu e ?is st (\<lambda>st'. holds st' C_NE (word_overflow Op_umul_overflow x y) \<and> frame ?N st st')"
    using assms(1) in_reg_fields [OF r(1)] in_reg_fields [OF r(2)] high_half_32 [of x y]
    by (auto simp: shape_defs sets_def tests_def simp del: word_overflow.simps intro!: runs_rules holds_flags)
  from set_bool_computes [OF this, of ?d] show ?thesis unfolding computes_def code by (rule runs_mono) auto
qed

text \<open>The quotient of the wrapped product by the first operand, or by one.\<close>

lemma umul_quotient:
  assumes cpu: "x64_cpu_laws cpu" and "supported st" "vregs st (vreg_id r0) = x" "vregs st (vreg_id r1) = y"
    and "vreg_id r0 < N" "vreg_id r1 < N"
  shows "runs cpu e [insn (LMove L_Mov) [vr (temp_vreg N 8) 8] [vr r0 8],
      insn (LAlu L_Imul) [vr (temp_vreg N 8) 8] [vr (temp_vreg N 8) 8, vr r1 8],
      insn (LMove L_Mov) [vr (temp_vreg (N + 1) 8) 8] [vr r0 8], insn (LTest L_Test) [] [vr r0 8, vr r0 8],
      insn (LMove L_Mov) [vr (temp_vreg (N + 2) 8) 8] [im 1 8],
      insn_cc (LTest L_Cmovcc) C_E [vr (temp_vreg (N + 1) 8) 8] [vr (temp_vreg (N + 1) 8) 8, vr (temp_vreg (N + 2) 8) 8],
      insn (LMove L_Mov) [fixed RAX 8] [vr (temp_vreg N 8) 8],
      insn (LAlu L_Xor) [fixed RDX 8] [fixed RDX 8, fixed RDX 8],
      insn (LAlu L_Div) [fixed RAX 8, fixed RDX 8] [fixed RAX 8, fixed RDX 8, vr (temp_vreg (N + 1) 8) 8],
      insn (LTest L_Cmp) [] [fixed RAX 8, vr r1 8]] st
    (\<lambda>st'. holds st' C_NE (x * y div (if x = 0 then 1 else x) \<noteq> y) \<and> frame N st st')"
proof -
  note rules = runs_rules x64_cpu_laws.runs_divides [OF cpu]
  have E: "cond_ready e s C_E" "cond_bit e s C_E = z" if "flag_zf (flags s) = (1, of_bool z)" for s z
    using that by (auto simp: cond_ready_def cond_bit_def eval_condition_def)
  show ?thesis
    using assms(2-) by (cases "x = 0")
      (auto simp: shape_defs sets_def sets_pair_def tests_def flags_are_def E simp del: word_overflow.simps intro!: rules holds_flags)
qed

text \<open>The last step clears the answer when the first operand is zero.\<close>

lemma umul_zero_case:
  assumes "supported st" "vregs st (vreg_id r0) = x" "vregs st (vreg_id dst) = of_bool b" "vreg_id r0 < N" "vreg_id dst < N"
  shows "runs cpu e [insn (LAlu L_Xor32) [vr (temp_vreg (N + 3) 4) 4] [vr (temp_vreg (N + 3) 4) 4, vr (temp_vreg (N + 3) 4) 4],
      insn (LTest L_Test) [] [vr r0 8, vr r0 8],
      insn_cc (LTest L_Cmovcc) C_E [vr dst (vreg_size dst)] [vr dst (vreg_size dst), vr (temp_vreg (N + 3) 4) 4]] st
    (\<lambda>st'. vregs st' (vreg_id dst) = of_bool (x \<noteq> 0 \<and> b) \<and> (\<forall>v < N. v \<noteq> vreg_id dst \<longrightarrow> vregs st' v = vregs st v))"
proof -
  have E: "cond_ready e s C_E" "cond_bit e s C_E = z" if "flag_zf (flags s) = (1, of_bool z)" for s z
    using that by (auto simp: cond_ready_def cond_bit_def eval_condition_def)
  show ?thesis
    using assms by (cases "x = 0") (auto simp: shape_defs sets_def tests_def flags_are_def E intro!: runs_rules)
qed

lemma umul_overflow_64:
  assumes cpu: "x64_cpu_laws cpu" and "supported st" "vreg_size (get_vreg sel (operand inst 0)) = 8"
    and r: "in_reg sel fn st (get_vreg sel (result inst)) (operand inst 0) (x :: u64)"
      "in_reg sel fn st (get_vreg sel (result inst)) (operand inst 1) y"
    and dst: "vreg_id (get_vreg sel (result inst)) < length (vreg_table fn)"
  shows "computes cpu e fn (lower_overflow_check sel inst Op_umul_overflow fn) st (get_vreg sel (result inst))
    (\<lambda>v. v = of_bool (word_overflow Op_umul_overflow x y))"
proof -
  let ?N = "length (vreg_table fn)" and ?r0 = "get_vreg sel (operand inst 0)" and ?r1 = "get_vreg sel (operand inst 1)"
    and ?d = "get_vreg sel (result inst)"
  let ?t = "\<lambda>i. temp_vreg (?N + i) 8"
  let ?q = "[insn (LMove L_Mov) [vr (temp_vreg ?N 8) 8] [vr ?r0 8],
      insn (LAlu L_Imul) [vr (temp_vreg ?N 8) 8] [vr (temp_vreg ?N 8) 8, vr ?r1 8],
      insn (LMove L_Mov) [vr (?t 1) 8] [vr ?r0 8], insn (LTest L_Test) [] [vr ?r0 8, vr ?r0 8],
      insn (LMove L_Mov) [vr (?t 2) 8] [im 1 8],
      insn_cc (LTest L_Cmovcc) C_E [vr (?t 1) 8] [vr (?t 1) 8, vr (?t 2) 8],
      insn (LMove L_Mov) [fixed RAX 8] [vr (temp_vreg ?N 8) 8],
      insn (LAlu L_Xor) [fixed RDX 8] [fixed RDX 8, fixed RDX 8],
      insn (LAlu L_Div) [fixed RAX 8, fixed RDX 8] [fixed RAX 8, fixed RDX 8, vr (?t 1) 8],
      insn (LTest L_Cmp) [] [fixed RAX 8, vr ?r1 8]]"
  let ?z = "[insn (LAlu L_Xor32) [vr (temp_vreg (?N + 3) 4) 4] [vr (temp_vreg (?N + 3) 4) 4, vr (temp_vreg (?N + 3) 4) 4],
      insn (LTest L_Test) [] [vr ?r0 8, vr ?r0 8],
      insn_cc (LTest L_Cmovcc) C_E [vr ?d (vreg_size ?d)] [vr ?d (vreg_size ?d), vr (temp_vreg (?N + 3) 4) 4]]"
  have code: "new_code fn (lower_overflow_check sel inst Op_umul_overflow fn) = (?q @ set_bool ?d C_NE) @ ?z"
    using assms(3) by (simp add: lower_overflow_check_def lower_umul_overflow64_def Let_def temp_eq new_code_def del: insn_eq insn_cc_eq)
      (simp add: numeral_eq_Suc)
  note r0 = in_reg_fields [OF r(1)] and r1 = in_reg_fields [OF r(2)]
  have "vregs st (vreg_id ?r0) = x" "vregs st (vreg_id ?r1) = y" using r0 r1 by simp_all
  from set_bool_computes [OF umul_quotient [OF cpu assms(2) this r0(1) r1(1)], of e ?d] show ?thesis
    unfolding computes_def code runs_append [of _ _ _ ?z]
  proof (rule runs_mono)
    let ?b = "x * y div (if x = 0 then 1 else x) \<noteq> y"
    fix s :: LirExecState assume s: "supported s \<and> vregs s (vreg_id ?d) = of_bool ?b \<and> (\<forall>v < ?N. v \<noteq> vreg_id ?d \<longrightarrow> vregs s v = vregs st v)"
    have "x \<noteq> 0 \<and> ?b \<longleftrightarrow> word_overflow Op_umul_overflow x y"
      using mul_u64_overflow_exact [of x y] by (auto simp: mul_u64_overflow_def simp del: word_overflow.simps)
    with s umul_zero_case [of s ?r0 x ?d ?b ?N cpu e] r0 dst
    show "runs cpu e ?z s (\<lambda>s. vregs s (vreg_id ?d) = of_bool (word_overflow Op_umul_overflow x y) \<and>
        (\<forall>v < ?N. v \<noteq> vreg_id ?d \<longrightarrow> vregs s v = vregs st v))"
      by (auto simp del: word_overflow.simps insn_eq insn_cc_eq elim!: runs_mono)
  qed
qed

end
