(* ===== verification/X64_Select.thy ===== *)
theory X64_Select
  imports X64_Cmp
begin

text \<open>
  Unary operations, and the correctness of the x64 selection of integer instructions as a whole:
  the use analysis decides which operand a lowering reads from no register (\<open>folded_operand\<close>),
  the lowering is dispatched by the opcode (\<open>lower_instruction\<close>), and running the code it appends
  computes the reference result and keeps the function's other registers.
\<close>

section \<open>Unary operations\<close>

text \<open>A bit scan writes what the processor gives, which is specified for a non-zero source only.\<close>

fun bit_scan64 :: "x64_cpu \<Rightarrow> AluOp \<Rightarrow> (u64 \<Rightarrow> u64 \<Rightarrow> u64) option" where
  "bit_scan64 cpu L_Bsr = Some (cpu_bsr cpu)" | "bit_scan64 cpu L_Bsf = Some (cpu_bsf cpu)" | "bit_scan64 cpu _ = None"

fun bit_scan32 :: "x64_cpu \<Rightarrow> AluOp \<Rightarrow> (u32 \<Rightarrow> u32 \<Rightarrow> u32) option" where
  "bit_scan32 cpu L_Bsr32 = Some (cpu_bsr32 cpu)" | "bit_scan32 cpu L_Bsf32 = Some (cpu_bsf32 cpu)" | "bit_scan32 cpu _ = None"

lemma runs_bit_scan64:
  assumes "bit_scan64 cpu op = Some f" "supported st" "plain_src b"
    and "\<And>st'. sets (O_VReg d s) (f (vregs st (vreg_id d)) (src_val st b)) st st' \<Longrightarrow> runs cpu e is st' Q"
  shows "runs cpu e (LI (LAlu op) [O_VReg d s] [b] dc uc c # is) st Q"
proof -
  let ?v = "f (vregs st (vreg_id d)) (src_val st b)"
  have "plain_dst (O_VReg d s)" "plain_src (O_VReg d s)" by simp_all
  obtain st' where w: "write_op (env_fp e) (O_VReg d s) (64, ?v) True st = Some st'" "sets (O_VReg d s) ?v st st'"
    by (rule write_plain [OF \<open>plain_dst (O_VReg d s)\<close> assms(2)])
  let ?st = "st'\<lparr>flags := cpu_flags cpu st'\<rparr>"
  have "machine_inst cpu e (LI (LAlu op) [O_VReg d s] [b] dc uc c) st = Some ?st"
    using assms(1) w(1)
    by (cases op) (simp_all add: machine_inst_def emit_bit_scan_def use_at_def def0_def read_plain [OF assms(3)] read_plain [OF \<open>plain_src (O_VReg d s)\<close>])
  moreover have "sets (O_VReg d s) ?v st ?st" using w(2) by (simp add: sets_def)
  ultimately show ?thesis using assms(4) runs_step by blast
qed

lemma runs_bit_scan32:
  assumes "bit_scan32 cpu op = Some f" "supported st" "plain_src b"
    and "\<And>st'. sets (O_VReg d s) (ucast (f (ucast (vregs st (vreg_id d))) (ucast (src_val st b)))) st st' \<Longrightarrow> runs cpu e is st' Q"
  shows "runs cpu e (LI (LAlu op) [O_VReg d s] [b] dc uc c # is) st Q"
proof -
  let ?v = "f (ucast (vregs st (vreg_id d))) (ucast (src_val st b))"
  have "plain_dst (O_VReg d s)" "plain_src (O_VReg d s)" by simp_all
  obtain st' where w: "write_op (env_fp e) (O_VReg d s) (32, ucast ?v) True st = Some st'" "sets (O_VReg d s) (ucast ?v) st st'"
    by (rule write_plain32 [OF \<open>plain_dst (O_VReg d s)\<close> assms(2)])
  let ?st = "st'\<lparr>flags := cpu_flags cpu st'\<rparr>"
  have "machine_inst cpu e (LI (LAlu op) [O_VReg d s] [b] dc uc c) st = Some ?st"
    using assms(1) w(1)
    by (cases op) (simp_all add: machine_inst_def emit_bit_scan32_def use_at_def def0_def read_plain [OF assms(3)] read_plain [OF \<open>plain_src (O_VReg d s)\<close>])
  moreover have "sets (O_VReg d s) (ucast ?v) st ?st" using w(2) by (simp add: sets_def)
  ultimately show ?thesis using assms(4) runs_step by blast
qed

lemmas runs_bit_scans = runs_bit_scan64 [OF bit_scan64.simps(1)] runs_bit_scan64 [OF bit_scan64.simps(2)]
  runs_bit_scan32 [OF bit_scan32.simps(1)] runs_bit_scan32 [OF bit_scan32.simps(2)]

lemma neg_not_popcnt_64:
  assumes "supported st" "vreg_size dst = 8" "vreg_id src \<noteq> vreg_id dst" "vregs st (vreg_id src) = x"
  shows "writes cpu e (lower_neg dst src) st dst (- x)" "writes cpu e (lower_not dst src) st dst (NOT x)"
    "writes cpu e (lower_popcnt dst src) st dst (of_nat (popcount x))"
  using assms by (auto simp: lower_neg_def lower_not_def lower_popcnt_def writes_def shape_defs sets_def intro!: runs_rules)

lemma neg_not_popcnt_32:
  assumes "supported st" "vreg_size dst = 4" "vreg_id src \<noteq> vreg_id dst" "ucast (vregs st (vreg_id src)) = (x :: u32)"
  shows "writes cpu e (lower_neg dst src) st dst (ucast (- x))" "writes cpu e (lower_not dst src) st dst (ucast (NOT x))"
    "writes cpu e (lower_popcnt dst src) st dst (ucast (of_nat (popcount x) :: u32))"
  using assms by (auto simp: lower_neg_def lower_not_def lower_popcnt_def writes_def shape_defs sets_def intro!: runs_rules)

lemma cond_E:
  assumes "flag_zf (flags s) = (1, of_bool z)"
  shows "cond_ready e s C_E" "cond_bit e s C_E = z"
  using assms by (auto simp: cond_ready_def cond_bit_def eval_condition_def)

lemma countl_zero_less: "countl_zero (x :: 'a::len word) < LENGTH('a)" if "x \<noteq> 0"
proof -
  from that obtain n where n: "bit x n" using bit_word_eqI [of x 0] by auto
  then have "n < LENGTH('a)" by (rule bit_imp_le_length)
  with n have "True \<in> set (rev (map (bit x) [0..<LENGTH('a)]))" by force
  then have "length (takeWhile Not (rev (map (bit x) [0..<LENGTH('a)]))) < length (rev (map (bit x) [0..<LENGTH('a)]))"
    by (metis (no_types, lifting) length_takeWhile_le nat_less_le takeWhile_eq_all_conv takeWhile_eq_take take_all_iff order_refl)
  then show ?thesis by (simp add: countl_zero_def)
qed

lemma leading_64: "(x :: u64) \<noteq> 0 \<Longrightarrow> 63 - of_nat (63 - countl_zero x) = (of_nat (countl_zero x) :: u64)"
  using countl_zero_less [of x] by (simp add: of_nat_diff)

lemma leading_32: "(x :: u32) \<noteq> 0 \<Longrightarrow> 31 - of_nat (31 - countl_zero x) = (of_nat (countl_zero x) :: u32)"
  using countl_zero_less [of x] by (simp add: of_nat_diff)

lemma clz_64:
  assumes "x64_cpu_laws cpu" "supported st" "vreg_size dst = 8" "vreg_id src \<noteq> vreg_id dst" "vregs st (vreg_id src) = x"
    "vreg_id src < length (vreg_table fn)" "vreg_id dst < length (vreg_table fn)"
  shows "computes cpu e fn (lower_clz dst src fn) st dst (\<lambda>v. v = of_nat (countl_zero x))"
  using assms(2-) leading_64 [of x] count_of_zero [where 'a = 64] x64_cpu_laws.bsr [OF assms(1), of x]
  by (cases "x = 0") (auto simp: lower_clz_def run_defs tests_def flags_are_def cond_E intro!: runs_rules runs_bit_scans)

lemma clz_32:
  assumes "x64_cpu_laws cpu" "supported st" "vreg_size dst = 4" "vreg_id src \<noteq> vreg_id dst" "ucast (vregs st (vreg_id src)) = (x :: u32)"
    "vreg_id src < length (vreg_table fn)" "vreg_id dst < length (vreg_table fn)"
  shows "computes cpu e fn (lower_clz dst src fn) st dst (\<lambda>v. v = ucast (of_nat (countl_zero x) :: u32))"
  using assms(2-) leading_32 [of x] count_of_zero [where 'a = 32] x64_cpu_laws.bsr32 [OF assms(1), of x]
  by (cases "x = 0") (auto simp: lower_clz_def run_defs tests_def flags_are_def cond_E intro!: runs_rules runs_bit_scans)

lemma ctz_64:
  assumes "x64_cpu_laws cpu" "supported st" "vreg_size dst = 8" "vreg_id src \<noteq> vreg_id dst" "vregs st (vreg_id src) = x"
    "vreg_id src < length (vreg_table fn)" "vreg_id dst < length (vreg_table fn)"
  shows "computes cpu e fn (lower_ctz dst src fn) st dst (\<lambda>v. v = of_nat (countr_zero x))"
  using assms(2-) count_of_zero [where 'a = 64] x64_cpu_laws.bsf [OF assms(1), of x]
  by (cases "x = 0") (auto simp: lower_ctz_def run_defs tests_def flags_are_def cond_E intro!: runs_rules runs_bit_scans)

lemma ctz_32:
  assumes "x64_cpu_laws cpu" "supported st" "vreg_size dst = 4" "vreg_id src \<noteq> vreg_id dst" "ucast (vregs st (vreg_id src)) = (x :: u32)"
    "vreg_id src < length (vreg_table fn)" "vreg_id dst < length (vreg_table fn)"
  shows "computes cpu e fn (lower_ctz dst src fn) st dst (\<lambda>v. v = ucast (of_nat (countr_zero x) :: u32))"
  using assms(2-) count_of_zero [where 'a = 32] x64_cpu_laws.bsf32 [OF assms(1), of x]
  by (cases "x = 0") (auto simp: lower_ctz_def run_defs tests_def flags_are_def cond_E intro!: runs_rules runs_bit_scans)

section \<open>The use analysis\<close>

text \<open>
  The operand of an integer instruction whose use the analysis counts as folded
  (\<open>analyze_function\<close>, step 3): a constant all of whose uses are folded gets no register.  Loads
  folded into memory operands are in the context (\<^const>\<open>fused_load\<close>).
\<close>

definition folded_operand :: "X64ISel \<Rightarrow> Instruction \<Rightarrow> nat option" where
  "folded_operand sel inst =
     (let imm0 = get_imm_int_info sel (operand inst 0); imm1 = get_imm_int_info sel (operand inst 1);
          alu = (if is_imm imm1 \<and> fits_i32 imm1 then Some 1 else if is_imm imm0 \<and> fits_i32 imm0 then Some 0 else None)
      in case opcode inst of
           OpArith f \<Rightarrow>
             if f \<in> {Op_udiv, Op_umod, Op_sdiv, Op_smod} then (if divisor_unread sel inst then Some 1 else None)
             else if f \<in> {Op_shl, Op_lshr, Op_ashr} then (if is_imm imm1 then Some 1 else None)
             else if f = Op_mul then
               (if is_imm imm1 then (if mul_imm_folds imm1 then Some 1 else None)
                else if is_imm imm0 \<and> mul_imm_folds imm0 then Some 0 else None)
             else if f \<in> {Op_add, Op_sub, Op_and, Op_or, Op_xor} then alu
             else None
         | OpCmp _ \<Rightarrow> alu
         | _ \<Rightarrow> None)"

text \<open>
  An instruction the selector lowers: its result has a register of the function, and each operand
  the analysis did not fold is in another one.
\<close>

definition result_ready :: "X64ISel \<Rightarrow> LirFunction \<Rightarrow> LirExecState \<Rightarrow> Instruction \<Rightarrow> bool" where
  "result_ready sel fn st inst \<longleftrightarrow> supported st \<and> length (vreg_table fn) \<le> 4294967295 \<and>
     vreg_id (get_vreg sel (result inst)) < length (vreg_table fn) \<and>
     (case result inst of None \<Rightarrow> True | Some r \<Rightarrow> \<not> skipped_insts sel r)"

definition operand_ready :: "X64ISel \<Rightarrow> LirFunction \<Rightarrow> LirExecState \<Rightarrow> Instruction \<Rightarrow> nat \<Rightarrow> 'a::len word \<Rightarrow> bool" where
  "operand_ready sel fn st inst k x \<longleftrightarrow> const_ok sel (operand inst k) x \<and> fuses sel (operand inst k) = None \<and>
     (folded_operand sel inst \<noteq> Some k \<longrightarrow> in_reg sel fn st (get_vreg sel (result inst)) (operand inst k) x)"

definition two_constants :: "X64ISel \<Rightarrow> Instruction \<Rightarrow> bool" where
  "two_constants sel inst \<longleftrightarrow> is_imm (get_imm_int_info sel (operand inst 0)) \<and> is_imm (get_imm_int_info sel (operand inst 1))"

text \<open>
  Both operands are ready, or the instruction is an addition whose operand the analysis folded into
  its \<open>lea\<close>.  Left out are the two cases of \<^const>\<open>reads_folded\<close>, where the lowering reads a register
  the analysis may not have given, and operands that are loads folded into a memory operand.
\<close>

definition selectable :: "X64ISel \<Rightarrow> LirFunction \<Rightarrow> LirExecState \<Rightarrow> Instruction \<Rightarrow> 'a::len word \<Rightarrow> 'a word \<Rightarrow> bool" where
  "selectable sel fn st inst x y \<longleftrightarrow> result_ready sel fn st inst \<and>
     (\<not> reads_folded sel inst \<and> operand_ready sel fn st inst 0 x \<and> operand_ready sel fn st inst 1 y \<or>
      lea_fused sel fn st inst x y)"

lemma alu_folded_operand:
  "opcode inst = OpArith f \<and> f \<in> {Op_add, Op_sub, Op_and, Op_or, Op_xor} \<or> opcode inst = OpCmp c \<Longrightarrow>
    folded_operand sel inst = alu_folded sel inst"
  by (auto simp: folded_operand_def alu_folded_def Let_def)

lemma mul_folded_operand: "opcode inst = OpArith Op_mul \<Longrightarrow> folded_operand sel inst = mul_folded sel inst"
  by (simp add: folded_operand_def mul_folded_def Let_def)

lemma selectable_plain:
  assumes "selectable sel fn st inst x y" "opcode inst \<noteq> OpArith Op_add"
  shows "\<not> reads_folded sel inst" "operand_ready sel fn st inst 0 x" "operand_ready sel fn st inst 1 y"
  using assms by (auto simp: selectable_def lea_fused_def)

lemma selectable_alu:
  assumes "selectable sel fn st inst x y"
    and "opcode inst = OpArith f \<and> f \<in> {Op_sub, Op_and, Op_or, Op_xor} \<or> opcode inst = OpCmp c"
  shows "two_operands sel fn st inst (alu_folded sel inst) x y" "\<not> reads_folded sel inst"
  using selectable_plain [OF assms(1)] assms(2) alu_folded_operand [of inst f c sel]
  by (auto simp: operand_ready_def two_operands_def Let_def)

lemma selectable_add:
  assumes "selectable sel fn st inst x y" "opcode inst = OpArith Op_add"
  shows "two_operands sel fn st inst (alu_folded sel inst) x y \<or> lea_fused sel fn st inst x y"
  using assms alu_folded_operand [of inst Op_add] by (auto simp: selectable_def operand_ready_def two_operands_def Let_def)

lemma selectable_mul:
  assumes "selectable sel fn st inst x y" "opcode inst = OpArith Op_mul"
  shows "two_operands sel fn st inst (mul_folded sel inst) x y"
  using selectable_plain [OF assms(1)] assms(2) mul_folded_operand [OF assms(2)]
  by (auto simp: operand_ready_def two_operands_def Let_def)

lemma selectable_fields:
  assumes "selectable sel fn st inst x y"
  shows "supported st" "length (vreg_table fn) \<le> 4294967295" "vreg_id (get_vreg sel (result inst)) < length (vreg_table fn)"
    "const_ok sel (operand inst 1) y"
  using assms by (auto simp: selectable_def result_ready_def operand_ready_def lea_fused_def)

lemma lower_instruction_dispatch:
  assumes "result_ready sel fn st inst"
  shows "opcode inst = OpArith f \<Longrightarrow> lower_instruction sel inst fn = lower_arith sel inst f fn"
    and "opcode inst = OpCmp c \<Longrightarrow> lower_instruction sel inst fn = Some (lower_comparison sel inst (fst (get_comparison_conditions c)) fn)"
    and "opcode inst = OpOvf v \<Longrightarrow> lower_instruction sel inst fn = Some (lower_overflow_check sel inst v fn)"
  using assms by (auto simp: lower_instruction_def result_ready_def split: option.splits)

text \<open>The first operand of a division or a shift is in a register, and a divisor that is read is too.\<close>

lemma selectable_div:
  assumes "selectable sel fn st inst x y" "opcode inst = OpArith f" "div_kind f = Some k"
  shows "in_reg sel fn st (get_vreg sel (result inst)) (operand inst 0) x"
    and "\<not> divisor_unread sel inst \<longrightarrow> in_reg sel fn st (get_vreg sel (result inst)) (operand inst 1) y"
  using selectable_plain [OF assms(1)] assms(2,3) by (cases f; auto simp: operand_ready_def folded_operand_def split: if_splits)+

lemma selectable_shift:
  assumes "selectable sel fn st inst x y" "opcode inst = OpArith f" "shift_pair f = Some k"
  shows "in_reg sel fn st (get_vreg sel (result inst)) (operand inst 0) x"
    and "is_imm (get_imm_int_info sel (operand inst 1)) \<or> in_reg sel fn st (get_vreg sel (result inst)) (operand inst 1) y"
  using selectable_plain [OF assms(1)] assms(2,3) by (cases f; auto simp: operand_ready_def folded_operand_def Let_def split: if_splits)+

section \<open>Correctness of the selection\<close>

lemma arith_kinds:
  assumes "word_arith f x y \<noteq> None"
  obtains (div) sg md where "div_kind f = Some (sg, md)" "y \<noteq> 0" | (shift) op32 op64 where "shift_pair f = Some (op32, op64)"
    | (mul) "f = Op_mul" | (add) "f = Op_add" | (sub) "f = Op_sub" | (logic) "f \<in> {Op_and, Op_or, Op_xor}"
  using assms by (cases f) (auto split: if_splits)

lemma arith_64:
  assumes cpu: "x64_cpu_laws cpu" and f: "opcode inst = OpArith f" "inst_type inst = I64" "word_arith f x y \<noteq> None"
    and dst: "vreg_size (get_vreg sel (result inst)) = 8" and s: "selectable sel fn st inst x (y :: u64)"
  shows "\<exists>fn'. lower_arith sel inst f fn = Some fn' \<and>
    computes cpu e fn fn' st (get_vreg sel (result inst)) (\<lambda>v. word_arith f x y = Some v)"
  using f(3)
proof (cases rule: arith_kinds)
  case (div sg md)
  note r = selectable_div [OF s f(1) div(1)]
  from lower_div_mod_64 [OF cpu div(1) f(1,2) dst selectable_fields(3) [OF s] selectable_fields(1) [OF s] r(1) selectable_fields(4) [OF s] div(2) r(2)]
  show ?thesis using div(1) by (cases f) auto
next
  case (shift op32 op64)
  note r = selectable_shift [OF s f(1) shift]
  from lower_shift_64 [OF shift dst selectable_fields(1) [OF s] r(1) selectable_fields(4) [OF s] r(2)]
  have "computes cpu e fn (lower_shift sel inst op32 op64 fn) st (get_vreg sel (result inst)) (\<lambda>v. word_arith f x y = Some v)"
    unfolding computes_def by (rule runs_mono) (use shift in \<open>cases f; auto\<close>)
  then show ?thesis using shift by (cases f) auto
next
  case mul
  then show ?thesis using lower_mul_64 [OF selectable_fields(1) [OF s] dst selectable_fields(2) [OF s] selectable_mul [OF s]] f
    by (auto intro!: writes_computes)
next
  case add
  note st = selectable_fields(1) [OF s] dst selectable_fields(2) [OF s]
  show ?thesis
    using selectable_add [OF s] lower_add_64 [OF st] lower_fused_64 [OF st] f add by (auto intro!: writes_computes)
next
  case sub
  then have op: "opcode inst = OpArith Op_sub" using f(1) by simp
  have t: "two_operands sel fn st inst (alu_folded sel inst) x y" "\<not> reads_folded sel inst"
    by (rule selectable_alu [OF s, of Op_sub]; simp add: op)+
  show ?thesis using lower_sub_64 [OF selectable_fields(1) [OF s] dst selectable_fields(2) [OF s] op t(2,1)] sub
    by (auto intro!: writes_computes)
next
  case logic
  have t: "two_operands sel fn st inst (alu_folded sel inst) x y" by (rule selectable_alu(1) [OF s, of f]) (use logic f(1) in auto)
  note l = lower_logic_64 [OF _ _ selectable_fields(1) [OF s] dst t]
  show ?thesis
    using logic f l [of L_And Op_and cpu e L_And32] l [of L_Or Op_or cpu e L_Or32] l [of L_Xor Op_xor cpu e L_Xor32]
    by (auto simp: commutes_def elim!: writes_computes)
qed

lemma arith_32:
  assumes cpu: "x64_cpu_laws cpu" and f: "opcode inst = OpArith f" "inst_type inst = I32" "word_arith f x y \<noteq> None"
    and dst: "vreg_size (get_vreg sel (result inst)) = 4" and s: "selectable sel fn st inst x (y :: u32)"
  shows "\<exists>fn'. lower_arith sel inst f fn = Some fn' \<and>
    computes cpu e fn fn' st (get_vreg sel (result inst)) (\<lambda>v. word_arith f x y = Some (ucast v))"
  using f(3)
proof (cases rule: arith_kinds)
  case (div sg md)
  note r = selectable_div [OF s f(1) div(1)]
  from lower_div_mod_32 [OF cpu div(1) f(1,2) dst selectable_fields(3) [OF s] selectable_fields(1) [OF s] r(1) selectable_fields(4) [OF s] div(2) r(2)]
  show ?thesis using div(1) by (cases f) auto
next
  case (shift op32 op64)
  note r = selectable_shift [OF s f(1) shift]
  from lower_shift_32 [OF shift dst selectable_fields(1) [OF s] r(1) selectable_fields(4) [OF s] r(2)]
  have "computes cpu e fn (lower_shift sel inst op32 op64 fn) st (get_vreg sel (result inst)) (\<lambda>v. word_arith f x y = Some (ucast v))"
    unfolding computes_def by (rule runs_mono) (use shift in \<open>cases f; auto\<close>)
  then show ?thesis using shift by (cases f) auto
next
  case mul
  then show ?thesis using lower_mul_32 [OF selectable_fields(1) [OF s] dst selectable_fields(2) [OF s] selectable_mul [OF s]] f
    by (auto intro!: writes_computes)
next
  case add
  note st = selectable_fields(1) [OF s] dst selectable_fields(2) [OF s]
  show ?thesis
    using selectable_add [OF s] lower_add_32 [OF st] lower_fused_32 [OF st] f add by (auto intro!: writes_computes)
next
  case sub
  then have op: "opcode inst = OpArith Op_sub" using f(1) by simp
  have t: "two_operands sel fn st inst (alu_folded sel inst) x y" "\<not> reads_folded sel inst"
    by (rule selectable_alu [OF s, of Op_sub]; simp add: op)+
  show ?thesis using lower_sub_32 [OF selectable_fields(1) [OF s] dst selectable_fields(2) [OF s] op t(2,1)] sub
    by (auto intro!: writes_computes)
next
  case logic
  have t: "two_operands sel fn st inst (alu_folded sel inst) x y" by (rule selectable_alu(1) [OF s, of f]) (use logic f(1) in auto)
  note l = lower_logic_32 [OF _ _ selectable_fields(1) [OF s] dst t]
  show ?thesis
    using logic f l [of L_And32 Op_and cpu e L_And] l [of L_Or32 Op_or cpu e L_Or] l [of L_Xor32 Op_xor cpu e L_Xor]
    by (auto simp: commutes_def elim!: writes_computes)
qed

lemma unary_ready:
  assumes "result_ready sel fn st inst" "operand_ready sel fn st inst 0 x" "opcode inst = OpArith f" "word_unary f x \<noteq> None"
  shows "in_reg sel fn st (get_vreg sel (result inst)) (operand inst 0) x"
  using assms by (cases f) (auto simp: operand_ready_def folded_operand_def)

lemma select_unary_64:
  assumes cpu: "x64_cpu_laws cpu" and f: "opcode inst = OpArith f" "word_unary f x \<noteq> None"
    and dst: "vreg_size (get_vreg sel (result inst)) = 8"
    and s: "result_ready sel fn st inst" "operand_ready sel fn st inst 0 (x :: u64)"
  shows "\<exists>fn'. lower_arith sel inst f fn = Some fn' \<and>
    computes cpu e fn fn' st (get_vreg sel (result inst)) (\<lambda>v. word_unary f x = Some v)"
proof -
  note r = in_reg_fields [OF unary_ready [OF s f]]
  have st: "supported st" "vreg_id (get_vreg sel (result inst)) < length (vreg_table fn)" using s(1) by (simp_all add: result_ready_def)
  have x: "vregs st (vreg_id (get_vreg sel (operand inst 0))) = x" using r(4) by simp
  note w = neg_not_popcnt_64 [OF st(1) dst r(2) x, of cpu e]
    clz_64 [OF cpu st(1) dst r(2) x r(1) st(2), of e] ctz_64 [OF cpu st(1) dst r(2) x r(1) st(2), of e]
  have flip: "computes cpu e fn fn' st d (\<lambda>v. v = a) \<Longrightarrow> computes cpu e fn fn' st d ((=) a)" for fn' d and a :: u64
    unfolding computes_def by (erule runs_mono) auto
  show ?thesis using f(2) w by (cases f) (auto intro!: writes_computes flip)
qed

lemma select_unary_32:
  assumes cpu: "x64_cpu_laws cpu" and f: "opcode inst = OpArith f" "word_unary f x \<noteq> None"
    and dst: "vreg_size (get_vreg sel (result inst)) = 4"
    and s: "result_ready sel fn st inst" "operand_ready sel fn st inst 0 (x :: u32)"
  shows "\<exists>fn'. lower_arith sel inst f fn = Some fn' \<and>
    computes cpu e fn fn' st (get_vreg sel (result inst)) (\<lambda>v. word_unary f x = Some (ucast v))"
proof -
  note r = in_reg_fields [OF unary_ready [OF s f]]
  have st: "supported st" "vreg_id (get_vreg sel (result inst)) < length (vreg_table fn)" using s(1) by (simp_all add: result_ready_def)
  note w = neg_not_popcnt_32 [OF st(1) dst r(2) r(4), of cpu e]
    clz_32 [OF cpu st(1) dst r(2) r(4) r(1) st(2), of e] ctz_32 [OF cpu st(1) dst r(2) r(4) r(1) st(2), of e]
  have weaken: "computes cpu e fn fn' st d (\<lambda>v. v = ucast a) \<Longrightarrow> computes cpu e fn fn' st d (\<lambda>v. a = ucast v)" for fn' d and a :: u32
    unfolding computes_def by (erule runs_mono) auto
  show ?thesis using f(2) w by (cases f) (auto intro!: writes_computes weaken)
qed

lemma comparison_64:
  assumes c: "opcode inst = OpCmp c" "operand_bytes sel (operand inst 0) = 8" and s: "selectable sel fn st inst x (y :: u64)"
  shows "computes cpu e fn (lower_comparison sel inst (fst (get_comparison_conditions c)) fn) st (get_vreg sel (result inst))
    (\<lambda>v. v = of_bool (word_cmp c x y))"
proof -
  have t: "two_operands sel fn st inst (alu_folded sel inst) x y" "\<not> reads_folded sel inst"
    by (rule selectable_alu [OF s, of _ c]; simp add: c(1))+
  note w = lower_comparison_writes [OF compare_64 [OF comparison_condition(1) [of c] selectable_fields(1) [OF s] c(2,1) t(2,1)],
      unfolded comparison_condition(2)]
  show ?thesis unfolding computes_def by (rule runs_mono [OF w [unfolded writes_def]]) auto
qed

lemma comparison_32:
  assumes c: "opcode inst = OpCmp c" "operand_bytes sel (operand inst 0) = 4" and s: "selectable sel fn st inst x (y :: u32)"
  shows "computes cpu e fn (lower_comparison sel inst (fst (get_comparison_conditions c)) fn) st (get_vreg sel (result inst))
    (\<lambda>v. v = of_bool (word_cmp c x y))"
proof -
  have t: "two_operands sel fn st inst (alu_folded sel inst) x y" "\<not> reads_folded sel inst"
    by (rule selectable_alu [OF s, of _ c]; simp add: c(1))+
  note w = lower_comparison_writes [OF compare_32 [OF comparison_condition(1) [of c] selectable_fields(1) [OF s] c(2,1) t(2,1)],
      unfolded comparison_condition(2)]
  show ?thesis unfolding computes_def by (rule runs_mono [OF w [unfolded writes_def]]) auto
qed

lemma selectable_overflow:
  assumes "selectable sel fn st inst x y" "opcode inst = OpOvf v"
  shows "in_reg sel fn st (get_vreg sel (result inst)) (operand inst 0) x" "in_reg sel fn st (get_vreg sel (result inst)) (operand inst 1) y"
  using selectable_plain [OF assms(1)] assms(2) by (simp_all add: operand_ready_def folded_operand_def)

end
