(* ===== verification/X64_Correct.thy ===== *)
theory X64_Correct
  imports X64_Select
begin

text \<open>
  The x64 instruction selector against the reference semantics of the MIR integer operations:
  the properties of the selection, each with a run on the processor the manual describes.
\<close>

section \<open>An instance\<close>

text \<open>An instruction on a parameter in register 0 and a folded constant, with its result in register 1.\<close>

definition ex_inst :: "Opcode \<Rightarrow> TypeKind \<Rightarrow> nat \<Rightarrow> nat list \<Rightarrow> i64 \<Rightarrow> Instruction" where
  "ex_inst opc t r args c =
     (let b = \<lparr>bt_block = None, bt_args = []\<rparr> in
      \<lparr>opcode = opc, inst_type = t, result = Some r, operands = map Some args, imm_i64 = c, symbol = [], branch_target = b, true_target = b,
       false_target = b, switch_cases = [], state_map = []\<rparr>)"

definition ex_sel :: "nat \<Rightarrow> TypeKind \<Rightarrow> Opcode \<Rightarrow> i64 \<Rightarrow> X64ISel" where
  "ex_sel sz t c_op c =
     \<lparr>val_to_vreg = [0 \<mapsto> \<lparr>vreg_id = 0, vreg_class = RC_GPR, vreg_size = sz, is_gcref = False, is_tagged = False\<rparr>,
        2 \<mapsto> \<lparr>vreg_id = 1, vreg_class = RC_GPR, vreg_size = sz, is_gcref = False, is_tagged = False\<rparr>],
      isel_values = (\<lambda>v. \<lparr>val_type = t, val_kind = (if v = 1 then InstructionResult else BlockParam),
        def_inst = (if v = 1 then Some (ex_inst c_op t 1 [] c) else None), def_block = None\<rparr>),
      skipped_insts = (\<lambda>v. v = 1), fused_load = Map.empty, dead_after = (\<lambda>_. False)\<rparr>"

definition ex_fn :: LirFunction where
  "ex_fn = \<lparr>vreg_table = [default_VReg, default_VReg], lir_code = []\<rparr>"

definition ex_state :: "u64 \<Rightarrow> LirExecState" where
  "ex_state x = \<lparr>supported = True, gpr = (\<lambda>_. 0), xmm_lo = (\<lambda>_. 0), xmm_hi = (\<lambda>_. 0),
     flags = \<lparr>flag_zf = (1, 0), flag_sf = (1, 0), flag_of = (1, 0), flag_cf = (1, 0), flag_pf = (1, 0)\<rparr>,
     vregs = (\<lambda>_. 0)(0 := x), spill_slots = (\<lambda>_. 0), local_slots = (\<lambda>_. 0), flags_defined = False, has_branch = False,
     branch_taken = (1, 0), taken_label = 0, fallthrough_label = 0, clobber_seq = 0\<rparr>"

definition ex_env :: lir_env where
  "ex_env = \<lparr>env_fp = (zero_fpu, zero_math), env_clob = (\<lambda>_ _. 0)\<rparr>"

lemmas example_defs = ex_inst_def ex_sel_def ex_fn_def ex_state_def selectable_def result_ready_def operand_ready_def reads_folded_def
  in_reg_def const_ok_def fuses_def get_vreg_def get_imm_int_info_def no_imm_def folded_operand_def divisor_unread_def divisor_folds_def
  takes_signed_div_magic_def operand_def def_of_def imm_i32_def Let_def

lemma ex_inst_fields [simp]:
  "opcode (ex_inst opc t r args c) = opc" "inst_type (ex_inst opc t r args c) = t" "result (ex_inst opc t r args c) = Some r"
  by (simp_all add: ex_inst_def Let_def)

lemma ex_dst_size [simp]: "vreg_size (get_vreg (ex_sel sz t c_op c) (Some 2)) = sz"
  by (simp add: get_vreg_def ex_sel_def)

section \<open>Properties\<close>

text \<open>
  C3.  The selection of a 64-bit binary operation is correct: for every operation the reference
  semantics gives a result (a zero divisor has none), the selector has a lowering, and running
  the code it appends leaves that result in the destination and every other register of the
  function as it was.  The processor's multiplies and divides are as its manual states; a
  constant operand the use analysis folded is in no register, and neither is the product, shift or
  sum that the \<open>lea\<close> of an addition absorbs.  Left out are a subtraction of \<open>INT32_MIN\<close> from a
  constant of 32 bits, which reads the register of its folded operand, and operands that are loads
  folded into a memory operand of the instruction.
\<close>

theorem x64_arithmetic_64:
  fixes x y :: u64
  assumes "x64_cpu_laws cpu" "opcode inst = OpArith f" "inst_type inst = I64" "word_arith f x y \<noteq> None"
    and "vreg_size (get_vreg sel (result inst)) = 8" "selectable sel fn st inst x y"
  shows "\<exists>fn'. lower_instruction sel inst fn = Some fn' \<and>
    computes cpu e fn fn' st (get_vreg sel (result inst)) (\<lambda>v. word_arith f x y = Some v)"
proof -
  have "result_ready sel fn st inst" using assms(6) by (simp add: selectable_def)
  then show ?thesis using arith_64 [OF assms, of e] lower_instruction_dispatch(1) assms(2) by metis
qed

text \<open>A product with 5, absorbed by the addition of 7: values 1 and 4 are the constants, value 3 the product.\<close>

definition ex_fused :: X64ISel where
  "ex_fused =
     \<lparr>val_to_vreg = val_to_vreg (ex_sel 8 I64 (OpConst Op_iconst_i64) 5),
      isel_values = (\<lambda>v. \<lparr>val_type = I64, val_kind = (if v = 0 then BlockParam else InstructionResult),
        def_inst = (if v = 1 then Some (ex_inst (OpConst Op_iconst_i64) I64 1 [] 5)
          else if v = 3 then Some (ex_inst (OpArith Op_mul) I64 3 [0, 1] 0)
          else if v = 4 then Some (ex_inst (OpConst Op_iconst_i64) I64 4 [] 7) else None), def_block = None\<rparr>),
      skipped_insts = (\<lambda>v. v = 1 \<or> v = 3 \<or> v = 4), fused_load = Map.empty, dead_after = (\<lambda>_. False)\<rparr>"

lemma ex_fused_selectable: "selectable ex_fused ex_fn (ex_state 10) (ex_inst (OpArith Op_add) I64 2 [3, 4] 0) (50 :: u64) 7"
proof -
  let ?d = "ex_inst (OpArith Op_mul) I64 3 [0, 1] 0"
  have "fused_parts ex_fused ex_fn (ex_state 10) (get_vreg ex_fused (Some 2)) ?d (10 :: u64) 5" "lea_fusible ex_fused ?d"
    "def_of (isel_values ex_fused) 3 = Some ?d" "skipped_insts ex_fused 3"
    by (simp_all add: fused_parts_def lea_fusible_def ex_fused_def example_defs)
  moreover have "word_arith Op_mul (10 :: u64) 5 = Some 50" by simp
  ultimately have "fused_operand ex_fused ex_fn (ex_state 10) (get_vreg ex_fused (Some 2)) (Some 3) (50 :: u64)"
    unfolding fused_operand_def using ex_inst_fields(1) by blast
  then show ?thesis by (simp add: lea_fused_def alu_folded_def ex_fused_def example_defs)
qed

theorem x64_arithmetic_64_witness:
  "(\<exists>fn'. lower_instruction (ex_sel 8 I64 (OpConst Op_iconst_i64) 7) (ex_inst (OpArith Op_sdiv) I64 2 [0, 1] 0) ex_fn = Some fn' \<and>
    computes manual_cpu ex_env ex_fn fn' (ex_state (- 100)) (get_vreg (ex_sel 8 I64 (OpConst Op_iconst_i64) 7) (Some 2))
      (\<lambda>v. Some (- 14) = Some v)) \<and>
   (\<exists>fn'. lower_instruction ex_fused (ex_inst (OpArith Op_add) I64 2 [3, 4] 0) ex_fn = Some fn' \<and>
    computes manual_cpu ex_env ex_fn fn' (ex_state 10) (get_vreg ex_fused (Some 2)) (\<lambda>v. Some 57 = Some v))"
proof
  let ?sel = "ex_sel 8 I64 (OpConst Op_iconst_i64) 7" and ?inst = "ex_inst (OpArith Op_sdiv) I64 2 [0, 1] 0"
  have v: "word_arith Op_sdiv (- 100 :: u64) 7 = Some (- 14)" by code_simp
  have s: "selectable ?sel ex_fn (ex_state (- 100)) ?inst (- 100 :: u64) 7" by (simp add: example_defs)
  have p: "opcode ?inst = OpArith Op_sdiv" "inst_type ?inst = I64" "vreg_size (get_vreg ?sel (result ?inst)) = 8" by simp_all
  show "\<exists>fn'. lower_instruction ?sel ?inst ex_fn = Some fn' \<and>
      computes manual_cpu ex_env ex_fn fn' (ex_state (- 100)) (get_vreg ?sel (Some 2)) (\<lambda>v. Some (- 14) = Some v)"
    using x64_arithmetic_64 [OF manual.x64_cpu_laws_axioms p(1,2) _ p(3) s, of ex_env] by (simp add: v del: word_arith.simps)
  let ?add = "ex_inst (OpArith Op_add) I64 2 [3, 4] 0"
  have q: "opcode ?add = OpArith Op_add" "inst_type ?add = I64" "vreg_size (get_vreg ex_fused (result ?add)) = 8"
    by (simp_all add: get_vreg_def ex_fused_def ex_sel_def)
  show "\<exists>fn'. lower_instruction ex_fused ?add ex_fn = Some fn' \<and>
      computes manual_cpu ex_env ex_fn fn' (ex_state 10) (get_vreg ex_fused (Some 2)) (\<lambda>v. Some 57 = Some v)"
    using x64_arithmetic_64 [OF manual.x64_cpu_laws_axioms q(1,2) _ q(3) ex_fused_selectable, of ex_env] by simp
qed

text \<open>
  C4.  The selection of a 32-bit binary operation is correct: the low half of the destination is
  the reference result and the function's other registers are kept, for every operation that has
  a result, whatever is in the upper halves of the operand registers, with folded constants and the
  operand the \<open>lea\<close> of an addition absorbs.  Left out are a subtraction of \<open>INT32_MIN\<close> from a
  constant, which reads the register of its folded operand, and operands that are loads folded into
  a memory operand of the instruction.
\<close>

theorem x64_arithmetic_32:
  fixes x y :: u32
  assumes "x64_cpu_laws cpu" "opcode inst = OpArith f" "inst_type inst = I32" "word_arith f x y \<noteq> None"
    and "vreg_size (get_vreg sel (result inst)) = 4" "selectable sel fn st inst x y"
  shows "\<exists>fn'. lower_instruction sel inst fn = Some fn' \<and>
    computes cpu e fn fn' st (get_vreg sel (result inst)) (\<lambda>v. word_arith f x y = Some (ucast v))"
proof -
  have "result_ready sel fn st inst" using assms(6) by (simp add: selectable_def)
  then show ?thesis using arith_32 [OF assms, of e] lower_instruction_dispatch(1) assms(2) by metis
qed

theorem x64_arithmetic_32_witness:
  "\<exists>fn'. lower_instruction (ex_sel 4 I32 (OpConst Op_iconst_i32) 16) (ex_inst (OpArith Op_smod) I32 2 [0, 1] 0) ex_fn = Some fn' \<and>
    computes manual_cpu ex_env ex_fn fn' (ex_state (- 100)) (get_vreg (ex_sel 4 I32 (OpConst Op_iconst_i32) 16) (Some 2))
      (\<lambda>v. Some (- 4) = Some (ucast v :: u32))"
proof -
  let ?sel = "ex_sel 4 I32 (OpConst Op_iconst_i32) 16" and ?inst = "ex_inst (OpArith Op_smod) I32 2 [0, 1] 0"
  have v: "word_arith Op_smod (- 100 :: u32) 16 = Some (- 4)" by code_simp
  have s: "selectable ?sel ex_fn (ex_state (- 100)) ?inst (- 100 :: u32) 16" by (simp add: example_defs)
  have p: "opcode ?inst = OpArith Op_smod" "inst_type ?inst = I32" "vreg_size (get_vreg ?sel (result ?inst)) = 4" by simp_all
  show ?thesis using x64_arithmetic_32 [OF manual.x64_cpu_laws_axioms p(1,2) _ p(3) s, of ex_env] by (simp add: v del: word_arith.simps)
qed

text \<open>
  C32.  The selection of a 64-bit negation, complement, population count, and of the counts of
  leading and trailing zeros is correct, for a zero operand too: there the bit scan leaves its
  destination undefined and the conditional move supplies the width.
\<close>

theorem x64_unary_64:
  fixes x :: u64
  assumes "x64_cpu_laws cpu" "opcode inst = OpArith f" "word_unary f x \<noteq> None"
    and "vreg_size (get_vreg sel (result inst)) = 8" "result_ready sel fn st inst" "operand_ready sel fn st inst 0 x"
  shows "\<exists>fn'. lower_instruction sel inst fn = Some fn' \<and>
    computes cpu e fn fn' st (get_vreg sel (result inst)) (\<lambda>v. word_unary f x = Some v)"
  using select_unary_64 [OF assms, of e] lower_instruction_dispatch(1) [OF assms(5,2)] by simp

theorem x64_unary_64_witness:
  "\<exists>fn'. lower_instruction (ex_sel 8 I64 (OpConst Op_iconst_i64) 0) (ex_inst (OpArith Op_clz) I64 2 [0] 0) ex_fn = Some fn' \<and>
    computes manual_cpu ex_env ex_fn fn' (ex_state 0) (get_vreg (ex_sel 8 I64 (OpConst Op_iconst_i64) 0) (Some 2))
      (\<lambda>v. Some 64 = Some v)"
proof -
  let ?sel = "ex_sel 8 I64 (OpConst Op_iconst_i64) 0" and ?inst = "ex_inst (OpArith Op_clz) I64 2 [0] 0"
  have v: "word_unary Op_clz (0 :: u64) = Some 64" by code_simp
  have s: "result_ready ?sel ex_fn (ex_state 0) ?inst" "operand_ready ?sel ex_fn (ex_state 0) ?inst 0 (0 :: u64)"
    by (simp_all add: example_defs)
  have p: "opcode ?inst = OpArith Op_clz" "vreg_size (get_vreg ?sel (result ?inst)) = 8" by simp_all
  show ?thesis using x64_unary_64 [OF manual.x64_cpu_laws_axioms p(1) _ p(2) s, of ex_env] by (simp add: v del: word_unary.simps)
qed

text \<open>
  C36.  The selection of a 32-bit negation, complement, population count, and of the counts of
  leading and trailing zeros is correct, for a zero operand too: there the bit scan leaves its
  destination undefined and the conditional move supplies the width.
\<close>

theorem x64_unary_32:
  fixes x :: u32
  assumes "x64_cpu_laws cpu" "opcode inst = OpArith f" "word_unary f x \<noteq> None"
    and "vreg_size (get_vreg sel (result inst)) = 4" "result_ready sel fn st inst" "operand_ready sel fn st inst 0 x"
  shows "\<exists>fn'. lower_instruction sel inst fn = Some fn' \<and>
    computes cpu e fn fn' st (get_vreg sel (result inst)) (\<lambda>v. word_unary f x = Some (ucast v))"
  using select_unary_32 [OF assms, of e] lower_instruction_dispatch(1) [OF assms(5,2)] by simp

theorem x64_unary_32_witness:
  "\<exists>fn'. lower_instruction (ex_sel 4 I32 (OpConst Op_iconst_i64) 0) (ex_inst (OpArith Op_clz) I32 2 [0] 0) ex_fn = Some fn' \<and>
    computes manual_cpu ex_env ex_fn fn' (ex_state 0) (get_vreg (ex_sel 4 I32 (OpConst Op_iconst_i64) 0) (Some 2))
      (\<lambda>v. Some 32 = Some (ucast v :: u32))"
proof -
  let ?sel = "ex_sel 4 I32 (OpConst Op_iconst_i64) 0" and ?inst = "ex_inst (OpArith Op_clz) I32 2 [0] 0"
  have v: "word_unary Op_clz (0 :: u32) = Some 32" by code_simp
  have s: "result_ready ?sel ex_fn (ex_state 0) ?inst" "operand_ready ?sel ex_fn (ex_state 0) ?inst 0 (0 :: u32)"
    by (simp_all add: example_defs)
  have p: "opcode ?inst = OpArith Op_clz" "vreg_size (get_vreg ?sel (result ?inst)) = 4" by simp_all
  show ?thesis using x64_unary_32 [OF manual.x64_cpu_laws_axioms p(1) _ p(2) s, of ex_env] by (simp add: v del: word_unary.simps)
qed

text \<open>
  C18.  The selection of a 64-bit integer comparison is correct, signed and unsigned, for a constant
  on either side and for the test against zero, whose condition is swapped when the zero is on the
  left: the destination is one or zero.  Left out are a comparison of a constant zero with another
  32-bit constant, which reads the register of its folded operand, and operands that are loads
  folded into a memory operand of the instruction.
\<close>

theorem x64_comparison_64:
  fixes x y :: u64
  assumes "opcode inst = OpCmp c" "operand_bytes sel (operand inst 0) = 8" "selectable sel fn st inst x y"
  shows "\<exists>fn'. lower_instruction sel inst fn = Some fn' \<and>
    computes cpu e fn fn' st (get_vreg sel (result inst)) (\<lambda>v. v = of_bool (word_cmp c x y))"
proof -
  have "result_ready sel fn st inst" using assms(3) by (simp add: selectable_def)
  from lower_instruction_dispatch(2) [OF this assms(1)] show ?thesis using comparison_64 [OF assms] by simp
qed

theorem x64_comparison_64_witness:
  "\<exists>fn'. lower_instruction (ex_sel 8 I64 (OpConst Op_iconst_i64) 0) (ex_inst (OpCmp Op_sgt) I64 2 [1, 0] 0) ex_fn = Some fn' \<and>
    computes manual_cpu ex_env ex_fn fn' (ex_state (- 5)) (get_vreg (ex_sel 8 I64 (OpConst Op_iconst_i64) 0) (Some 2)) (\<lambda>v. v = 1)"
proof -
  let ?sel = "ex_sel 8 I64 (OpConst Op_iconst_i64) 0" and ?inst = "ex_inst (OpCmp Op_sgt) I64 2 [1, 0] 0"
  have v: "word_cmp Op_sgt (0 :: u64) (- 5)" by code_simp
  have s: "selectable ?sel ex_fn (ex_state (- 5)) ?inst (0 :: u64) (- 5)" by (simp add: example_defs)
  have p: "opcode ?inst = OpCmp Op_sgt" "operand_bytes ?sel (operand ?inst 0) = 8"
    by (simp_all add: operand_bytes_def operand_def ex_inst_def ex_sel_def Let_def)
  show ?thesis using x64_comparison_64 [OF p s, of manual_cpu ex_env] v by simp
qed

text \<open>
  C30.  The selection of a 32-bit integer comparison is correct, signed and unsigned, for a constant
  on either side and for the test against zero, whose condition is swapped when the zero is on the
  left: the destination is one or zero.  Left out are a comparison of a constant zero with another
  32-bit constant, which reads the register of its folded operand, and operands that are loads
  folded into a memory operand of the instruction.
\<close>

theorem x64_comparison_32:
  fixes x y :: u32
  assumes "opcode inst = OpCmp c" "operand_bytes sel (operand inst 0) = 4" "selectable sel fn st inst x y"
  shows "\<exists>fn'. lower_instruction sel inst fn = Some fn' \<and>
    computes cpu e fn fn' st (get_vreg sel (result inst)) (\<lambda>v. v = of_bool (word_cmp c x y))"
proof -
  have "result_ready sel fn st inst" using assms(3) by (simp add: selectable_def)
  from lower_instruction_dispatch(2) [OF this assms(1)] show ?thesis using comparison_32 [OF assms] by simp
qed

theorem x64_comparison_32_witness:
  "\<exists>fn'. lower_instruction (ex_sel 4 I32 (OpConst Op_iconst_i32) 0) (ex_inst (OpCmp Op_sgt) I32 2 [1, 0] 0) ex_fn = Some fn' \<and>
    computes manual_cpu ex_env ex_fn fn' (ex_state (- 5)) (get_vreg (ex_sel 4 I32 (OpConst Op_iconst_i32) 0) (Some 2)) (\<lambda>v. v = 1)"
proof -
  let ?sel = "ex_sel 4 I32 (OpConst Op_iconst_i32) 0" and ?inst = "ex_inst (OpCmp Op_sgt) I32 2 [1, 0] 0"
  have v: "word_cmp Op_sgt (0 :: u32) (- 5)" by code_simp
  have s: "selectable ?sel ex_fn (ex_state (- 5)) ?inst (0 :: u32) (- 5)" by (simp add: example_defs)
  have p: "opcode ?inst = OpCmp Op_sgt" "operand_bytes ?sel (operand ?inst 0) = 4"
    by (simp_all add: operand_bytes_def operand_def ex_inst_def ex_sel_def Let_def)
  show ?thesis using x64_comparison_32 [OF p s, of manual_cpu ex_env] v by simp
qed

text \<open>
  C16.  The selection of the six 64-bit overflow checks is correct: the destination says whether the
  exact result of the addition, subtraction or multiplication, signed or unsigned, does not fit.
  The unsigned multiplication divides the wrapped product, by one where the first operand is zero.
\<close>

theorem x64_overflow_64:
  fixes x y :: u64
  assumes "x64_cpu_laws cpu" "opcode inst = OpOvf f" "vreg_size (get_vreg sel (operand inst 0)) = 8" "selectable sel fn st inst x y"
  shows "\<exists>fn'. lower_instruction sel inst fn = Some fn' \<and>
    computes cpu e fn fn' st (get_vreg sel (result inst)) (\<lambda>v. v = of_bool (word_overflow f x y))"
proof -
  have ready: "result_ready sel fn st inst" using assms(4) by (simp add: selectable_def)
  note r = selectable_overflow [OF assms(4,2)] and st = selectable_fields(1,3) [OF assms(4)]
  have "computes cpu e fn (lower_overflow_check sel inst f fn) st (get_vreg sel (result inst)) (\<lambda>v. v = of_bool (word_overflow f x y))"
    using umul_overflow_64 [OF assms(1) st(1) assms(3) r st(2)] flagged_overflow_64 [OF _ st(1) assms(3) r] by (cases "f = Op_umul_overflow") blast+
  then show ?thesis using lower_instruction_dispatch(3) [OF ready assms(2)] by simp
qed

theorem x64_overflow_64_witness:
  "\<exists>fn'. lower_instruction (ex_sel 8 I64 (OpConst Op_iconst_i64) 0) (ex_inst (OpOvf Op_umul_overflow) I64 2 [0, 0] 0) ex_fn = Some fn' \<and>
    computes manual_cpu ex_env ex_fn fn' (ex_state 0x8000000000000000) (get_vreg (ex_sel 8 I64 (OpConst Op_iconst_i64) 0) (Some 2)) (\<lambda>v. v = 1)"
proof -
  let ?sel = "ex_sel 8 I64 (OpConst Op_iconst_i64) 0" and ?inst = "ex_inst (OpOvf Op_umul_overflow) I64 2 [0, 0] 0"
  have v: "word_overflow Op_umul_overflow (0x8000000000000000 :: u64) 0x8000000000000000" by code_simp
  have s: "selectable ?sel ex_fn (ex_state 0x8000000000000000) ?inst (0x8000000000000000 :: u64) 0x8000000000000000" by (simp add: example_defs)
  have p: "opcode ?inst = OpOvf Op_umul_overflow" "vreg_size (get_vreg ?sel (operand ?inst 0)) = 8"
    by (simp_all add: get_vreg_def operand_def ex_inst_def ex_sel_def Let_def)
  show ?thesis using x64_overflow_64 [OF manual.x64_cpu_laws_axioms p s, of ex_env] v by (simp del: word_overflow.simps)
qed

text \<open>
  C29.  The selection of the six 32-bit overflow checks is correct; the unsigned multiplication takes
  the high half of the 64-bit product of the zero-extended operands.
\<close>

theorem x64_overflow_32:
  fixes x y :: u32
  assumes "x64_cpu_laws cpu" "opcode inst = OpOvf f" "vreg_size (get_vreg sel (operand inst 0)) = 4" "selectable sel fn st inst x y"
  shows "\<exists>fn'. lower_instruction sel inst fn = Some fn' \<and>
    computes cpu e fn fn' st (get_vreg sel (result inst)) (\<lambda>v. v = of_bool (word_overflow f x y))"
proof -
  have ready: "result_ready sel fn st inst" using assms(4) by (simp add: selectable_def)
  note r = selectable_overflow [OF assms(4,2)] and st = selectable_fields(1,3) [OF assms(4)]
  have "computes cpu e fn (lower_overflow_check sel inst f fn) st (get_vreg sel (result inst)) (\<lambda>v. v = of_bool (word_overflow f x y))"
    using umul_overflow_32 [OF st(1) assms(3) r] flagged_overflow_32 [OF _ st(1) assms(3) r] by (cases "f = Op_umul_overflow") blast+
  then show ?thesis using lower_instruction_dispatch(3) [OF ready assms(2)] by simp
qed

theorem x64_overflow_32_witness:
  "\<exists>fn'. lower_instruction (ex_sel 4 I32 (OpConst Op_iconst_i64) 0) (ex_inst (OpOvf Op_umul_overflow) I32 2 [0, 0] 0) ex_fn = Some fn' \<and>
    computes manual_cpu ex_env ex_fn fn' (ex_state 0x80000000) (get_vreg (ex_sel 4 I32 (OpConst Op_iconst_i64) 0) (Some 2)) (\<lambda>v. v = 1)"
proof -
  let ?sel = "ex_sel 4 I32 (OpConst Op_iconst_i64) 0" and ?inst = "ex_inst (OpOvf Op_umul_overflow) I32 2 [0, 0] 0"
  have v: "word_overflow Op_umul_overflow (0x80000000 :: u32) 0x80000000" by code_simp
  have s: "selectable ?sel ex_fn (ex_state 0x80000000) ?inst (0x80000000 :: u32) 0x80000000" by (simp add: example_defs)
  have p: "opcode ?inst = OpOvf Op_umul_overflow" "vreg_size (get_vreg ?sel (operand ?inst 0)) = 4"
    by (simp_all add: get_vreg_def operand_def ex_inst_def ex_sel_def Let_def)
  show ?thesis using x64_overflow_32 [OF manual.x64_cpu_laws_axioms p s, of ex_env] v by (simp del: word_overflow.simps)
qed

section \<open>Two constants\<close>

text \<open>
  C40.  The comparison the properties above leave out: for a constant zero and another 32-bit
  constant the analysis folds the second operand, whose definition is then dropped when this is its
  only use, and yet the lowering tests that operand's register against itself.
\<close>

theorem zero_comparison_reads_folded:
  assumes "opcode inst = OpCmp r" "two_constants sel inst" "imm_val (get_imm_int_info sel (operand inst 0)) = 0"
    and "imm_val (get_imm_int_info sel (operand inst 1)) \<noteq> 0" "fits_i32 (get_imm_int_info sel (operand inst 1))"
  shows "folded_operand sel inst = Some 1 \<and>
    lir_uses (fst (compare_code sel inst c)) = replicate 2 (O_VReg (get_vreg sel (operand inst 1)) (operand_bytes sel (operand inst 0)))"
  using assms by (simp add: folded_operand_def compare_code_def two_constants_def Let_def vr_def numeral_2_eq_2)

text \<open>Values 0 and 1 are the constants 0 and 5, and neither has a register.\<close>

definition ex_constants :: X64ISel where
  "ex_constants =
     \<lparr>val_to_vreg = Map.empty,
      isel_values = (\<lambda>v. \<lparr>val_type = I64, val_kind = InstructionResult,
        def_inst = Some (ex_inst (OpConst Op_iconst_i64) I64 v [] (if v = 0 then 0 else 5)), def_block = None\<rparr>),
      skipped_insts = (\<lambda>_. True), fused_load = Map.empty, dead_after = (\<lambda>_. False)\<rparr>"

theorem zero_comparison_reads_folded_witness:
  "folded_operand ex_constants (ex_inst (OpCmp Op_slt) I64 2 [0, 1] 0) = Some 1 \<and>
   lir_uses (fst (compare_code ex_constants (ex_inst (OpCmp Op_slt) I64 2 [0, 1] 0) C_L)) = replicate 2 (O_VReg default_VReg 8)"
proof -
  let ?inst = "ex_inst (OpCmp Op_slt) I64 2 [0, 1] 0"
  have p: "two_constants ex_constants ?inst" "imm_val (get_imm_int_info ex_constants (operand ?inst 0)) = 0"
    "imm_val (get_imm_int_info ex_constants (operand ?inst 1)) \<noteq> 0" "fits_i32 (get_imm_int_info ex_constants (operand ?inst 1))"
    and r: "get_vreg ex_constants (operand ?inst 1) = default_VReg" "operand_bytes ex_constants (operand ?inst 0) = 8"
    by (simp_all add: two_constants_def get_imm_int_info_def get_vreg_def operand_bytes_def operand_def def_of_def ex_constants_def ex_inst_def Let_def)
  show ?thesis using zero_comparison_reads_folded [OF _ p, of Op_slt C_L] unfolding r by simp
qed

text \<open>
  The subtraction they leave out: the analysis folds a second operand \<open>INT32_MIN\<close>, and where the first
  is a constant too the lowering subtracts that operand's register.
\<close>

lemma sub_min_reads_folded:
  assumes "opcode inst = OpArith Op_sub" "reads_folded sel inst" "get_vreg sel (result inst) \<noteq> get_vreg sel (operand inst 0)"
  shows "folded_operand sel inst = Some 1 \<and>
    (\<exists>i \<in> set (lower_sub sel inst). \<exists>sz. O_VReg (get_vreg sel (operand inst 1)) sz \<in> set (lir_uses i))"
proof -
  let ?i0 = "get_imm_int_info sel (operand inst 0)" and ?i1 = "get_imm_int_info sel (operand inst 1)"
  have r: "is_imm ?i0" "is_imm ?i1" "fits_i32 ?i0" "fits_i32 ?i1" and m: "sint (imm_val ?i1) = INT32_MIN"
    using assms(1,2) by (auto simp: reads_folded_def Let_def)
  have "scast (ucast (imm_val ?i1) :: u32) = imm_val ?i1" by (rule scast_low_32) (unfold m, simp_all)
  then have "sint (ucast (imm_val ?i1) :: u32) = INT32_MIN" using sint_scast_32_64 [of "ucast (imm_val ?i1)"] m by simp
  then show ?thesis
    using r assms(1,3)
    by (auto simp: folded_operand_def lower_sub_def Let_def mov_vv_def alu_vv_def vr_def im_def split: if_splits)
qed

end
