(* ===== verification/Parallel_Copy.thy ===== *)
theory Parallel_Copy
  imports Lir
begin

text \<open>
  The emission of a \<open>ParallelCopy\<close> for x64 (\<open>src/codegen/emit_parallel_copy.cpp\<close>): moves between
  physical registers, spill slots and immediates that happen at once are put in an order that
  reads no overwritten source, cycles going through a reserved scratch register or an exchange.
  The instructions are those of \<open>src/target/x64/x64_encoder.cpp\<close>, run on a state of general
  registers, vector registers and spill slots; a spill slot is a region of its own, the frame
  layout keeping the slots apart.  The theorems show that the emission returns, that the
  instructions perform the parallel assignment and touch nothing but its destinations and the
  four scratch registers, and which cycles the choice of the scratch register breaks.
\<close>

section \<open>Instructions\<close>

text \<open>\<open>to_mem_address\<close> of an operand, with what was added to its displacement.\<close>

datatype MoveMem = Mem_At LirOperand nat

definition to_mem_address :: "LirOperand \<Rightarrow> MoveMem" where
  "to_mem_address op = Mem_At op 0"

text \<open>
  The forms the emission uses, registers by the code of their enumerator: \<open>rr\<close> register to
  register, \<open>ri\<close> and \<open>mi\<close> from an immediate, \<open>rm\<close> a load, \<open>mr\<close> a store.
\<close>

datatype X64Move =
    Mov_rr u8 u8 | Mov32_rr u8 u8 | Mov_ri u8 i64 | Mov32_ri u8 u32
  | Mov_rm u8 MoveMem | Mov32_rm u8 MoveMem | Mov_mr MoveMem u8 | Mov32_mr MoveMem u8
  | Mov_mi MoveMem i32 | Mov32_mi MoveMem i32 | Xchg u8 u8 | Xchg32 u8 u8
  | Vmovaps_rr u8 u8 | Vmovups_rm u8 MoveMem | Vmovups_mr MoveMem u8
  | Movaps_rr u8 u8 | Movups_rm u8 MoveMem | Movups_mr MoveMem u8
  | Movss_rm u8 MoveMem | Movss_mr MoveMem u8 | Movsd_rm u8 MoveMem | Movsd_mr MoveMem u8

type_synonym ymm = "256 word"

record move_state =
  mv_gpr :: "u8 \<Rightarrow> u64"
  mv_xmm :: "u8 \<Rightarrow> ymm"
  mv_slot :: "i32 \<Rightarrow> ymm"

text \<open>
  The register an instruction names: three bits in the operand byte (\<open>reg_code\<close>) and the
  fourth in the prefix (\<open>is_extended\<close>), so the code \<open>0xFF\<close> of \<open>GPR::None\<close> names register 7.
\<close>

definition encoded :: "u8 \<Rightarrow> u8" where
  "encoded c = (c AND 7) + (if 8 \<le> c \<and> c \<le> 15 then 8 else 0)"

definition put_bits :: "nat \<Rightarrow> nat \<Rightarrow> ymm \<Rightarrow> ymm \<Rightarrow> ymm" where
  "put_bits lo n v w = (w AND NOT (push_bit lo (mask n))) OR push_bit lo (take_bit n v)"

text \<open>The bytes of a slot from an offset; an address outside the spill slots is not in the state.\<close>

fun load :: "nat \<Rightarrow> MoveMem \<Rightarrow> move_state \<Rightarrow> ymm option" where
  "load n (Mem_At (O_SpillSlot s _) off) st = Some (take_bit (8 * n) (drop_bit (8 * off) (mv_slot st s)))"
| "load n _ st = None"

fun store :: "nat \<Rightarrow> MoveMem \<Rightarrow> ymm \<Rightarrow> move_state \<Rightarrow> move_state option" where
  "store n (Mem_At (O_SpillSlot s _) off) v st =
     Some (st\<lparr>mv_slot := (mv_slot st)(s := put_bits (8 * off) (8 * n) v (mv_slot st s))\<rparr>)"
| "store n _ v st = None"

definition set_gpr :: "u8 \<Rightarrow> u64 \<Rightarrow> move_state \<Rightarrow> move_state" where
  "set_gpr r v st = st\<lparr>mv_gpr := (mv_gpr st)(encoded r := v)\<rparr>"

definition get_gpr :: "u8 \<Rightarrow> move_state \<Rightarrow> u64" where
  "get_gpr r st = mv_gpr st (encoded r)"

text \<open>The low \<open>n\<close> bits of a vector register; the rest is kept, as the non-VEX encodings do.\<close>

definition set_xmm :: "nat \<Rightarrow> u8 \<Rightarrow> ymm \<Rightarrow> move_state \<Rightarrow> move_state" where
  "set_xmm n r v st = st\<lparr>mv_xmm := (mv_xmm st)(encoded r := put_bits 0 n v (mv_xmm st (encoded r)))\<rparr>"

definition get_xmm :: "u8 \<Rightarrow> move_state \<Rightarrow> ymm" where
  "get_xmm r st = mv_xmm st (encoded r)"

fun run_move :: "X64Move \<Rightarrow> move_state \<Rightarrow> move_state option" where
  "run_move (Mov_rr d s) st = Some (set_gpr d (get_gpr s st) st)"
| "run_move (Mov32_rr d s) st = Some (set_gpr d (take_bit 32 (get_gpr s st)) st)"
| "run_move (Mov_ri d v) st = Some (set_gpr d v st)"
| "run_move (Mov32_ri d v) st = Some (set_gpr d (ucast v) st)"
| "run_move (Mov_rm d m) st = map_option (\<lambda>v. set_gpr d (ucast v) st) (load 8 m st)"
| "run_move (Mov32_rm d m) st = map_option (\<lambda>v. set_gpr d (ucast v) st) (load 4 m st)"
| "run_move (Mov_mr m s) st = store 8 m (ucast (get_gpr s st)) st"
| "run_move (Mov32_mr m s) st = store 4 m (ucast (get_gpr s st)) st"
| "run_move (Mov_mi m v) st = store 8 m (scast v) st"
| "run_move (Mov32_mi m v) st = store 4 m (scast v) st"
| "run_move (Xchg a b) st = Some (set_gpr b (get_gpr a st) (set_gpr a (get_gpr b st) st))"
| "run_move (Xchg32 a b) st =
     Some (set_gpr b (take_bit 32 (get_gpr a st)) (set_gpr a (take_bit 32 (get_gpr b st)) st))"
| "run_move (Vmovaps_rr d s) st = Some (set_xmm 256 d (get_xmm s st) st)"
| "run_move (Vmovups_rm d m) st = map_option (\<lambda>v. set_xmm 256 d v st) (load 32 m st)"
| "run_move (Vmovups_mr m s) st = store 32 m (get_xmm s st) st"
| "run_move (Movaps_rr d s) st = Some (set_xmm 128 d (get_xmm s st) st)"
| "run_move (Movups_rm d m) st = map_option (\<lambda>v. set_xmm 128 d v st) (load 16 m st)"
| "run_move (Movups_mr m s) st = store 16 m (get_xmm s st) st"
| "run_move (Movss_rm d m) st = map_option (\<lambda>v. set_xmm 128 d v st) (load 4 m st)"
| "run_move (Movss_mr m s) st = store 4 m (get_xmm s st) st"
| "run_move (Movsd_rm d m) st = map_option (\<lambda>v. set_xmm 128 d v st) (load 8 m st)"
| "run_move (Movsd_mr m s) st = store 8 m (get_xmm s st) st"

fun run_moves :: "X64Move list \<Rightarrow> move_state \<Rightarrow> move_state option" where
  "run_moves [] st = Some st"
| "run_moves (i # is) st = (case run_move i st of None \<Rightarrow> None | Some st' \<Rightarrow> run_moves is st')"

section \<open>Emission\<close>

definition preg_xmm :: "u8 \<Rightarrow> PReg" where
  "preg_xmm c = \<lparr>reg_class = RC_XMM, reg_code = c\<rparr>"

definition as_gpr :: "PReg \<Rightarrow> u8" where
  "as_gpr p = (if preg_is_gpr p then reg_code p else 0xFF)"

definition as_xmm :: "PReg \<Rightarrow> u8" where
  "as_xmm p = (if preg_is_xmm p then reg_code p else 0xFF)"

text \<open>
  The test the code repeats for a destination and a source: the same physical register, or
  the same spill slot.
\<close>

fun same_loc :: "LirOperand \<Rightarrow> LirOperand \<Rightarrow> bool" where
  "same_loc (O_PReg p _) (O_PReg q _) \<longleftrightarrow> p = q"
| "same_loc (O_SpillSlot s _) (O_SpillSlot t _) \<longleftrightarrow> s = t"
| "same_loc _ _ \<longleftrightarrow> False"

record copy_move =
  mv_dst :: LirOperand
  mv_src :: LirOperand
  mv_done :: bool

fun is_spill_slot :: "LirOperand \<Rightarrow> bool" where
  "is_spill_slot (O_SpillSlot _ _) = True"
| "is_spill_slot _ = False"

definition move_to_preg :: "PReg \<Rightarrow> nat \<Rightarrow> LirOperand \<Rightarrow> X64Move list" where
  "move_to_preg p dsz src =
     (if preg_is_gpr p then
        let d = as_gpr p in
        (case src of
           O_PReg q ssz \<Rightarrow> [if dsz = 4 \<and> ssz = 4 then Mov32_rr d (as_gpr q) else Mov_rr d (as_gpr q)]
         | O_ImmInt v _ \<Rightarrow> [if dsz = 4 then Mov32_ri d (ucast v) else Mov_ri d v]
         | _ \<Rightarrow> [if dsz = 4 then Mov32_rm d (to_mem_address src) else Mov_rm d (to_mem_address src)])
      else
        let d = as_xmm p; ssz = operand_size src in
        if dsz = 32 \<or> ssz = 32 then
          (case src of O_PReg q _ \<Rightarrow> [Vmovaps_rr d (as_xmm q)] | _ \<Rightarrow> [Vmovups_rm d (to_mem_address src)])
        else if dsz = 16 \<or> ssz = 16 then
          (case src of O_PReg q _ \<Rightarrow> [Movaps_rr d (as_xmm q)] | _ \<Rightarrow> [Movups_rm d (to_mem_address src)])
        else (case src of
            O_PReg q _ \<Rightarrow> [Movaps_rr d (as_xmm q)]
          | _ \<Rightarrow> [if dsz = 4 \<and> ssz = 4 then Movss_rm d (to_mem_address src) else Movsd_rm d (to_mem_address src)]))"

definition hi_half :: "MoveMem \<Rightarrow> MoveMem" where
  "hi_half m = (case m of Mem_At op off \<Rightarrow> Mem_At op (off + 4))"

definition move_to_mem :: "LirOperand \<Rightarrow> LirOperand \<Rightarrow> X64Move list" where
  "move_to_mem dst src =
     (let dst_mem = to_mem_address dst;
          whole_slot = is_spill_slot dst;
          dsz = operand_size dst;
          ssz = operand_size src
      in (case src of
            O_PReg q _ \<Rightarrow>
              (if preg_is_gpr q then
                 [if ssz = 4 \<and> \<not> whole_slot then Mov32_mr dst_mem (as_gpr q) else Mov_mr dst_mem (as_gpr q)]
               else if dsz = 32 \<or> ssz = 32 then [Vmovups_mr dst_mem (as_xmm q)]
               else if dsz = 16 \<or> ssz = 16 then [Movups_mr dst_mem (as_xmm q)]
               else if dsz = 4 \<and> ssz = 4 then [Movss_mr dst_mem (as_xmm q)]
               else [Movsd_mr dst_mem (as_xmm q)])
          | O_ImmInt v _ \<Rightarrow>
              (if dsz = 4 then
                 Mov32_mi dst_mem (ucast v) # (if whole_slot then [Mov32_mi (hi_half dst_mem) 0] else [])
               else if INT32_MIN \<le> sint v \<and> sint v \<le> INT32_MAX then [Mov_mi dst_mem (ucast v)]
               else [Mov32_mi dst_mem (ucast v), Mov32_mi (hi_half dst_mem) (ucast (drop_bit 32 v))])
          | _ \<Rightarrow>
              (let src_mem = to_mem_address src; r11 = gpr_code R11 in
               if dsz = 32 \<or> ssz = 32 then [Vmovups_rm 15 src_mem, Vmovups_mr dst_mem 15]
               else if dsz = 16 \<or> ssz = 16 then [Movups_rm 15 src_mem, Movups_mr dst_mem 15]
               else if dsz = 4 \<and> ssz = 4 then
                 [Mov32_rm r11 src_mem, if whole_slot then Mov_mr dst_mem r11 else Mov32_mr dst_mem r11]
               else [Mov_rm r11 src_mem, Mov_mr dst_mem r11])))"

definition emit_move :: "LirOperand \<Rightarrow> LirOperand \<Rightarrow> X64Move list" where
  "emit_move dst src =
     (if same_loc dst src then []
      else case dst of O_PReg p dsz \<Rightarrow> move_to_preg p dsz src | _ \<Rightarrow> move_to_mem dst src)"

definition cycle_scratch :: "bool \<Rightarrow> PReg" where
  "cycle_scratch is_xmm = (if is_xmm then preg_xmm 14 else preg_gpr R10)"


text \<open>The moves of the instruction, self moves left out.\<close>

definition copy_moves :: "LirOperand list \<Rightarrow> LirOperand list \<Rightarrow> copy_move list" where
  "copy_moves ds us =
     [\<lparr>mv_dst = d, mv_src = u, mv_done = False\<rparr>. (d, u) \<leftarrow> zip ds us, \<not> same_loc d u]"

definition dst_used :: "copy_move list \<Rightarrow> LirOperand \<Rightarrow> bool" where
  "dst_used moves d \<longleftrightarrow> list_ex (\<lambda>other. \<not> mv_done other \<and> same_loc d (mv_src other)) moves"

definition set_done :: "nat \<Rightarrow> copy_move list \<Rightarrow> copy_move list" where
  "set_done i moves = moves[i := (moves ! i)\<lparr>mv_done := True\<rparr>]"

text \<open>One pass of \<open>peel_acyclic\<close>, from index \<open>i\<close>: the moves, the code and whether one was made.\<close>

function peel_from :: "nat \<Rightarrow> copy_move list \<Rightarrow> X64Move list \<Rightarrow> bool \<Rightarrow> copy_move list \<times> X64Move list \<times> bool" where
  "peel_from i moves code progress =
     (if i < length moves then
        let m = moves ! i in
        if mv_done m \<or> dst_used moves (mv_dst m) then peel_from (i + 1) moves code progress
        else peel_from (i + 1) (set_done i moves) (code @ emit_move (mv_dst m) (mv_src m)) True
      else (moves, code, progress))"
  by pat_completeness auto
termination
  by (relation "measure (\<lambda>(i, moves, _, _). length moves - i)") (auto simp: set_done_def)

declare peel_from.simps [simp del]

abbreviation peel_acyclic :: "copy_move list \<Rightarrow> X64Move list \<Rightarrow> copy_move list \<times> X64Move list \<times> bool" where
  "peel_acyclic moves code \<equiv> peel_from 0 moves code False"

definition pending :: "copy_move list \<Rightarrow> nat set" where
  "pending moves = {i. i < length moves \<and> \<not> mv_done (moves ! i)}"

lemma finite_pending [simp]: "finite (pending moves)"
  unfolding pending_def by simp

lemma pending_set_done: "i < length moves \<Longrightarrow> pending (set_done i moves) = pending moves - {i}"
  unfolding pending_def set_done_def by (auto simp: nth_list_update)

lemma length_set_done [simp]: "length (set_done i moves) = length moves"
  unfolding set_done_def by simp

lemma peel_from_pending:
  "peel_from i moves code p = (moves', code', p') \<Longrightarrow>
     pending moves' \<subseteq> pending moves \<and> (p' \<and> \<not> p \<longrightarrow> pending moves' \<subset> pending moves)"
proof (induction i moves code p arbitrary: moves' code' p' rule: peel_from.induct)
  case (1 i moves code p)
  show ?case
  proof (cases "i < length moves \<and> \<not> mv_done (moves ! i) \<and> \<not> dst_used moves (mv_dst (moves ! i))")
    case True
    then have "i \<in> pending moves" by (simp add: pending_def)
    moreover have "pending moves' \<subseteq> pending (set_done i moves)"
      using 1 True by (auto simp: peel_from.simps [of i] Let_def)
    ultimately show ?thesis using True by (auto simp: pending_set_done)
  next
    case False
    then show ?thesis using 1 by (auto simp: peel_from.simps [of i] Let_def split: if_splits)
  qed
qed

text \<open>\<open>while (peel_acyclic()) {}\<close>.\<close>

function peel_all :: "copy_move list \<Rightarrow> X64Move list \<Rightarrow> copy_move list \<times> X64Move list" where
  "peel_all moves code =
     (case peel_acyclic moves code of
        (moves', code', progress) \<Rightarrow> if progress then peel_all moves' code' else (moves', code'))"
  by pat_completeness auto
termination
  by (relation "measure (\<lambda>(moves, _). card (pending moves))")
    (auto intro!: psubset_card_mono dest!: peel_from_pending [OF sym])

declare peel_all.simps [simp del]

text \<open>The first move that is left, and the first move left that writes what move \<open>cur\<close> reads.\<close>

definition first_pending :: "copy_move list \<Rightarrow> nat option" where
  "first_pending moves = List.find (\<lambda>i. \<not> mv_done (moves ! i)) [0..<length moves]"

definition next_in_cycle :: "copy_move list \<Rightarrow> nat \<Rightarrow> nat option" where
  "next_in_cycle moves cur =
     List.find (\<lambda>i. \<not> mv_done (moves ! i) \<and> same_loc (mv_dst (moves ! i)) (mv_src (moves ! cur)))
       [0..<length moves]"

lemma next_in_cycle_bound: "next_in_cycle moves cur = Some n \<Longrightarrow> n < length moves"
  unfolding next_in_cycle_def by (auto simp: find_Some_iff)

function trace_cycle :: "copy_move list \<Rightarrow> nat \<Rightarrow> nat list \<Rightarrow> nat \<Rightarrow> nat list" where
  "trace_cycle moves start cycle cur =
     (let cycle = cycle @ [cur] in
      case next_in_cycle moves cur of
        None \<Rightarrow> cycle
      | Some nxt \<Rightarrow> (if nxt = start \<or> nxt \<in> set cycle then cycle else trace_cycle moves start cycle nxt))"
  by pat_completeness auto
termination
  by (relation "measure (\<lambda>(moves, _, cycle, cur). card ({..<length moves} - set cycle - {cur}))")
    (auto intro!: psubset_card_mono dest: next_in_cycle_bound)

declare trace_cycle.simps [simp del]

fun is_preg_class :: "(PReg \<Rightarrow> bool) \<Rightarrow> LirOperand \<Rightarrow> bool" where
  "is_preg_class P (O_PReg p _) = P p"
| "is_preg_class P _ = False"

fun preg_of :: "LirOperand \<Rightarrow> PReg" where
  "preg_of (O_PReg p _) = p"
| "preg_of _ = default_PReg"

definition is_gpr_operand :: "LirOperand \<Rightarrow> bool" where "is_gpr_operand = is_preg_class preg_is_gpr"
definition is_xmm_operand :: "LirOperand \<Rightarrow> bool" where "is_xmm_operand = is_preg_class preg_is_xmm"

definition break_pair :: "copy_move \<Rightarrow> copy_move \<Rightarrow> X64Move list" where
  "break_pair m0 m1 =
     (if is_gpr_operand (mv_dst m0) \<and> is_gpr_operand (mv_dst m1) \<and> is_gpr_operand (mv_src m0) \<and> is_gpr_operand (mv_src m1) then
        let r0 = as_gpr (preg_of (mv_dst m0)); r1 = as_gpr (preg_of (mv_dst m1)) in
        [if operand_size (mv_dst m0) = 4 \<and> operand_size (mv_dst m1) = 4 then Xchg32 r0 r1 else Xchg r0 r1]
      else
        let is_xmm = is_xmm_operand (mv_dst m0) \<or> is_xmm_operand (mv_dst m1) \<or> is_xmm_operand (mv_src m0) \<or>
              is_xmm_operand (mv_src m1) \<or> operand_size (mv_dst m0) = 16 \<or> operand_size (mv_dst m0) = 32;
            scratch = O_PReg (cycle_scratch is_xmm) (operand_size (mv_dst m0))
        in emit_move scratch (mv_src m0) @ emit_move (mv_dst m1) (mv_dst m0) @ emit_move (mv_dst m0) scratch)"

fun with_size :: "LirOperand \<Rightarrow> nat \<Rightarrow> LirOperand" where
  "with_size (O_VReg v _) sz = O_VReg v sz"
| "with_size (O_PReg p _) sz = O_PReg p sz"
| "with_size (O_ImmInt v _) sz = O_ImmInt v sz"
| "with_size (O_Mem m _) sz = O_Mem m sz"
| "with_size (O_SpillSlot s _) sz = O_SpillSlot s sz"
| "with_size (O_LocalSlot s _) sz = O_LocalSlot s sz"
| "with_size op _ = op"

text \<open>The scratch register a longer cycle parks its first destination in.\<close>

definition parking :: "copy_move list \<Rightarrow> nat \<Rightarrow> nat \<Rightarrow> LirOperand" where
  "parking moves idx0 last_idx =
     (let m0 = moves ! idx0;
          is_xmm = is_xmm_operand (mv_dst m0) \<or> is_xmm_operand (mv_src m0) \<or>
            operand_size (mv_dst m0) = 16 \<or> operand_size (mv_dst m0) = 32;
          sz = max (operand_size (mv_dst m0))
                 (max (operand_size (mv_src (moves ! last_idx))) (operand_size (mv_dst (moves ! last_idx))))
      in O_PReg (cycle_scratch is_xmm) sz)"

text \<open>
  What one round does with the cycle it traced.  The branch of an empty cycle is unreachable:
  the trace starts with the move it is given.
\<close>

definition break_cycle :: "copy_move list \<Rightarrow> nat list \<Rightarrow> X64Move list \<Rightarrow> copy_move list \<times> X64Move list" where
  "break_cycle moves cycle code =
     (if length cycle = 2 then
        (set_done (cycle ! 1) (set_done (cycle ! 0) moves), code @ break_pair (moves ! (cycle ! 0)) (moves ! (cycle ! 1)))
      else
        let idx0 = cycle ! 0; last_idx = last cycle; scratch = parking moves idx0 last_idx in
        (moves[last_idx := (moves ! last_idx)\<lparr>mv_src := scratch\<rparr>],
         code @ emit_move scratch (with_size (mv_dst (moves ! idx0)) (operand_size scratch))))"

partial_function (option) copy_loop :: "copy_move list \<Rightarrow> X64Move list \<Rightarrow> X64Move list option" where
  "copy_loop moves code =
     (case peel_all moves code of (moves, code) \<Rightarrow>
        (case first_pending moves of
           None \<Rightarrow> Some code
         | Some start \<Rightarrow>
             (case break_cycle moves (trace_cycle moves start [] start) code of
                (moves, code) \<Rightarrow> copy_loop moves code)))"

definition emit_parallel_copy :: "LirOperand list \<Rightarrow> LirOperand list \<Rightarrow> X64Move list option" where
  "emit_parallel_copy ds us =
     (if ds = [] \<or> length ds \<noteq> length us then Some [] else copy_loop (copy_moves ds us) [])"


section \<open>One move\<close>

text \<open>
  The contents of an operand's location, the same whatever size it is named with, and the
  operands of a copy: registers of the machine's sixteen of a class, spill slots, immediates.
\<close>

fun read_loc :: "move_state \<Rightarrow> LirOperand \<Rightarrow> ymm" where
  "read_loc st (O_PReg p _) = (if reg_class p = RC_GPR then ucast (mv_gpr st (reg_code p)) else mv_xmm st (reg_code p))"
| "read_loc st (O_SpillSlot s _) = mv_slot st s"
| "read_loc st (O_ImmInt v _) = ucast v"
| "read_loc st _ = 0"

definition plain_gpr :: "PReg \<Rightarrow> bool" where
  "plain_gpr p \<longleftrightarrow> reg_class p = RC_GPR \<and> reg_code p < 16"

definition plain_xmm :: "PReg \<Rightarrow> bool" where
  "plain_xmm p \<longleftrightarrow> reg_class p = RC_XMM \<and> reg_code p < 16"

definition gpr_sizes :: "nat set" where "gpr_sizes = {4, 8}"
definition xmm_sizes :: "nat set" where "xmm_sizes = {4, 8, 16, 32}"

fun place :: "LirOperand \<Rightarrow> bool" where
  "place (O_PReg p _) \<longleftrightarrow> plain_gpr p \<or> plain_xmm p"
| "place (O_SpillSlot _ _) \<longleftrightarrow> True"
| "place (O_ImmInt _ _) \<longleftrightarrow> True"
| "place _ \<longleftrightarrow> False"

text \<open>The registers memory-to-memory moves go through, and those that park a cycle's value.\<close>

definition through_reg :: "LirOperand \<Rightarrow> bool" where
  "through_reg op \<longleftrightarrow> (\<exists>sz. op = O_PReg (preg_gpr R11) sz \<or> op = O_PReg (preg_xmm 15) sz)"

definition parking_reg :: "LirOperand \<Rightarrow> bool" where
  "parking_reg op \<longleftrightarrow> (\<exists>sz. op = O_PReg (preg_gpr R10) sz \<or> op = O_PReg (preg_xmm 14) sz)"

text \<open>The pairs one move can carry: the classes fit and a general register holds the size.\<close>

fun movable :: "LirOperand \<Rightarrow> LirOperand \<Rightarrow> bool" where
  "movable (O_PReg p dz) (O_PReg q sz) \<longleftrightarrow>
     plain_gpr p \<and> plain_gpr q \<and> dz \<in> gpr_sizes \<or> plain_xmm p \<and> plain_xmm q \<and> dz \<in> xmm_sizes"
| "movable (O_PReg p dz) (O_SpillSlot s sz) \<longleftrightarrow>
     plain_gpr p \<and> dz \<in> gpr_sizes \<or> plain_xmm p \<and> dz \<in> xmm_sizes"
| "movable (O_PReg p dz) (O_ImmInt v sz) \<longleftrightarrow> plain_gpr p \<and> dz \<in> gpr_sizes"
| "movable (O_SpillSlot t dz) (O_PReg q sz) \<longleftrightarrow>
     plain_gpr q \<and> dz \<in> gpr_sizes \<or> plain_xmm q \<and> dz \<in> xmm_sizes"
| "movable (O_SpillSlot t dz) (O_SpillSlot s sz) \<longleftrightarrow> dz \<in> xmm_sizes"
| "movable (O_SpillSlot t dz) (O_ImmInt v sz) \<longleftrightarrow> dz \<in> gpr_sizes"
| "movable _ _ \<longleftrightarrow> False"

lemma encoded_small [simp]: "c < 16 \<Longrightarrow> encoded c = c"
proof -
  assume "c < 16"
  then have "unat c < 16" by (simp add: word_less_nat_alt)
  moreover have "\<forall>n \<in> set [0..<16]. encoded (of_nat n) = of_nat n" by code_simp
  ultimately have "encoded (of_nat (unat c)) = of_nat (unat c)"
    by (metis atLeastLessThan_iff set_upt zero_le)
  then show ?thesis by simp
qed

lemma small_code: "c < 16 \<Longrightarrow> c \<noteq> (0xFF :: u8)"
  by auto

lemma plain_gprD:
  assumes "plain_gpr p"
  shows "preg_is_gpr p" "as_gpr p = reg_code p" "encoded (reg_code p) = reg_code p" "reg_class p = RC_GPR"
  using assms small_code by (auto simp: plain_gpr_def preg_is_gpr_def preg_valid_def as_gpr_def)

lemma plain_xmmD:
  assumes "plain_xmm p"
  shows "\<not> preg_is_gpr p" "preg_is_xmm p" "as_xmm p = reg_code p" "encoded (reg_code p) = reg_code p"
    "reg_class p \<noteq> RC_GPR"
  using assms small_code
  by (auto simp: plain_xmm_def preg_is_xmm_def preg_is_gpr_def preg_valid_def as_xmm_def RC_GPR_def RC_XMM_def)

lemma same_loc_read: "same_loc a b \<Longrightarrow> read_loc st a = read_loc st b"
  by (cases "(a, b)" rule: same_loc.cases) auto

lemma same_loc_sym: "same_loc a b \<longleftrightarrow> same_loc b a"
  by (cases "(a, b)" rule: same_loc.cases) auto

lemma same_loc_trans: "same_loc a b \<Longrightarrow> same_loc b c \<Longrightarrow> same_loc a c"
  by (cases "(a, b)" rule: same_loc.cases; cases c) auto

lemma bit_put_bits:
  "bit (put_bits lo n v w) k \<longleftrightarrow> k < 256 \<and> (if lo \<le> k \<and> k < lo + n then bit v (k - lo) else bit w k)"
  unfolding put_bits_def by (auto simp: bit_simps)

lemma take_put_bits [simp]: "k \<le> n \<Longrightarrow> take_bit k (put_bits 0 n v w) = take_bit k v"
  by (rule bit_word_eqI) (auto simp: bit_take_bit_iff bit_put_bits)

lemma take_put_above [simp]: "k \<le> lo \<Longrightarrow> take_bit k (put_bits lo n v w) = take_bit k w"
  by (rule bit_word_eqI) (auto simp: bit_take_bit_iff bit_put_bits dest: bit_imp_le_length)

lemma take_ucast [simp]:
  "k \<le> 64 \<Longrightarrow> take_bit k (ucast (ucast (v :: ymm) :: u64) :: ymm) = take_bit k v"
  "k \<le> 32 \<Longrightarrow> take_bit k (ucast (take_bit 32 x :: u64) :: ymm) = take_bit k (ucast x)"
  "k \<le> 32 \<Longrightarrow> take_bit k (ucast (ucast (ucast y :: u32) :: u64) :: ymm) = take_bit k (ucast (y :: i64))"
  by (rule bit_word_eqI; auto simp: bit_simps)+

lemma top_bit: "31 \<le> n \<Longrightarrow> n < 32 \<Longrightarrow> n = (31 :: nat)" "63 \<le> n \<Longrightarrow> n < 64 \<Longrightarrow> n = (63 :: nat)"
  by simp_all

lemma take_scast [simp]:
  "take_bit 32 (scast (ucast (y :: i64) :: i32) :: ymm) = take_bit 32 (ucast y)"
  by (rule bit_word_eqI) (auto simp: bit_simps min_def dest: top_bit)

lemma small_store:
  assumes "INT32_MIN \<le> sint v" "sint v \<le> INT32_MAX"
  shows "take_bit 64 (scast (ucast (v :: i64) :: i32) :: ymm) = take_bit 64 (ucast v)"
proof (rule bit_word_eqI)
  fix n
  have "bit (sint v) k \<longleftrightarrow> bit (sint v) (min k 31)" for k
  proof -
    have "signed_take_bit 31 (sint v) = sint v"
      using assms by (simp add: signed_take_bit_int_eq_self)
    then have "bit (signed_take_bit 31 (sint v)) k \<longleftrightarrow> bit (sint v) k" by simp
    then show ?thesis 
      unfolding bit_signed_take_bit_iff min.commute [of 31] by simp
  qed
  from this [of n] show "bit (take_bit 64 (scast (ucast v :: i32) :: ymm)) n \<longleftrightarrow> bit (take_bit 64 (ucast v :: ymm)) n"
    by (auto simp: bit_simps min_def split: if_splits dest: top_bit)
qed

lemma halves_store:
  "take_bit 64 (put_bits 32 32 (scast (ucast (drop_bit 32 v) :: i32)) (put_bits 0 32 (scast (ucast v :: i32)) w))
   = take_bit 64 (ucast (v :: i64))"
  by (rule bit_word_eqI) (auto simp: bit_simps bit_put_bits)


lemma gpr_eqI: "plain_gpr p \<Longrightarrow> plain_gpr q \<Longrightarrow> reg_code p = reg_code q \<Longrightarrow> p = q"
  by (cases p, cases q) (auto simp: plain_gpr_def)

lemma xmm_eqI: "plain_xmm p \<Longrightarrow> plain_xmm q \<Longrightarrow> reg_code p = reg_code q \<Longrightarrow> p = q"
  by (cases p, cases q) (auto simp: plain_xmm_def)

lemma gpr_not_xmm: "plain_gpr p \<Longrightarrow> \<not> plain_xmm p"
  by (auto simp: plain_gpr_def plain_xmm_def RC_GPR_def RC_XMM_def)

lemma read_set_gpr:
  assumes "plain_gpr p"
  shows "read_loc (set_gpr (reg_code p) v st) (O_PReg p sz) = ucast v"
    and "place op \<Longrightarrow> \<not> same_loc (O_PReg p sz) op \<Longrightarrow> read_loc (set_gpr (reg_code p) v st) op = read_loc st op"
  using assms
  by (auto simp: set_gpr_def plain_gprD plain_xmmD gpr_not_xmm dest: gpr_eqI elim!: place.elims)

lemma read_set_xmm:
  assumes "plain_xmm p"
  shows "read_loc (set_xmm n (reg_code p) v st) (O_PReg p sz) = put_bits 0 n v (mv_xmm st (reg_code p))"
    and "place op \<Longrightarrow> \<not> same_loc (O_PReg p sz) op \<Longrightarrow> read_loc (set_xmm n (reg_code p) v st) op = read_loc st op"
  using assms
  by (auto simp: set_xmm_def plain_gprD plain_xmmD gpr_not_xmm dest: xmm_eqI elim!: place.elims)

lemma read_store:
  assumes "store n (Mem_At (O_SpillSlot s z) off) v st = Some st'"
  shows "read_loc st' (O_SpillSlot s sz) = put_bits (8 * off) (8 * n) v (mv_slot st s)"
    and "place op \<Longrightarrow> \<not> same_loc (O_SpillSlot s sz) op \<Longrightarrow> read_loc st' op = read_loc st op"
  using assms by (auto elim!: place.elims)

definition moves_to :: "LirOperand \<Rightarrow> LirOperand \<Rightarrow> move_state \<Rightarrow> move_state \<Rightarrow> bool" where
  "moves_to d s st st' \<longleftrightarrow>
     take_bit (8 * operand_size d) (read_loc st' d) = take_bit (8 * operand_size d) (read_loc st s) \<and>
     (\<forall>op. place op \<and> \<not> same_loc d op \<and> \<not> through_reg op \<longrightarrow> read_loc st' op = read_loc st op)"


lemma move_to_gpr:
  assumes "plain_gpr p" "movable (O_PReg p dz) s"
  shows "\<exists>st'. run_moves (move_to_preg p dz s) st = Some st' \<and> moves_to (O_PReg p dz) s st st'"
proof -
  have p: "preg_is_gpr p" "as_gpr p = reg_code p" using assms by (simp_all add: plain_gprD)
  obtain v where "run_moves (move_to_preg p dz s) st = Some (set_gpr (reg_code p) v st)"
      and "take_bit (8 * dz) (ucast v :: ymm) = take_bit (8 * dz) (read_loc st s)"
    using assms p
    by (cases s; cases "operand_size s = 4") (auto simp: move_to_preg_def Let_def to_mem_address_def
        gpr_sizes_def get_gpr_def plain_gprD gpr_not_xmm)
  then show ?thesis using assms(1)
    by (auto simp: moves_to_def read_set_gpr simp del: read_loc.simps)
qed

lemma move_to_xmm:
  assumes "plain_xmm p" "movable (O_PReg p dz) s"
  shows "\<exists>st'. run_moves (move_to_preg p dz s) st = Some st' \<and> moves_to (O_PReg p dz) s st st'"
proof -
  have p: "\<not> preg_is_gpr p" "as_xmm p = reg_code p" using assms by (simp_all add: plain_xmmD)
  have g: "\<not> plain_gpr p" using assms(1) gpr_not_xmm by blast
  obtain v n where "run_moves (move_to_preg p dz s) st = Some (set_xmm n (reg_code p) v st)"
      and "take_bit (8 * dz) v = take_bit (8 * dz) (read_loc st s)" "8 * dz \<le> n"
    using assms p g
    by (cases s; cases "operand_size s = 4"; cases "operand_size s = 16"; cases "operand_size s = 32")
      (auto simp: move_to_preg_def Let_def to_mem_address_def xmm_sizes_def get_xmm_def plain_xmmD)
  then show ?thesis using assms(1)
    by (auto simp: moves_to_def read_set_xmm simp del: read_loc.simps)
qed


lemma slot_stored:
  assumes "store n (to_mem_address (O_SpillSlot t dz)) v st1 = Some st'" "dz \<le> n"
    and "take_bit (8 * dz) v = take_bit (8 * dz) (read_loc st s)"
    and "\<And>op. place op \<Longrightarrow> \<not> through_reg op \<Longrightarrow> read_loc st1 op = read_loc st op"
  shows "moves_to (O_SpillSlot t dz) s st st'"
  using assms read_store [OF assms(1) [unfolded to_mem_address_def]]
  by (auto simp: moves_to_def simp del: read_loc.simps)

lemma slot_store_some: "\<exists>st'. store n (Mem_At (O_SpillSlot t dz) off) v st = Some st'"
  by simp

lemma slot_from_reg:
  assumes "movable (O_SpillSlot t dz) (O_PReg q sz)"
  shows "\<exists>st'. run_moves (move_to_mem (O_SpillSlot t dz) (O_PReg q sz)) st = Some st' \<and>
    moves_to (O_SpillSlot t dz) (O_PReg q sz) st st'"
proof -
  obtain v n i where i: "move_to_mem (O_SpillSlot t dz) (O_PReg q sz) = [i]"
      "run_move i st = store n (to_mem_address (O_SpillSlot t dz)) v st"
      and v: "dz \<le> n" "v = read_loc st (O_PReg q sz)"
    using assms gpr_not_xmm [of q]
    by (cases "sz = 4"; cases "sz = 16"; cases "sz = 32"; cases "plain_gpr q")
      (auto simp: move_to_mem_def Let_def gpr_sizes_def xmm_sizes_def get_gpr_def get_xmm_def plain_gprD plain_xmmD)
  from slot_store_some obtain st' where "store n (to_mem_address (O_SpillSlot t dz)) v st = Some st'"
    unfolding to_mem_address_def by blast
  then show ?thesis using i v slot_stored by fastforce
qed

lemma through_regs:
  "plain_gpr p \<Longrightarrow> \<not> through_reg (O_PReg p sz) \<Longrightarrow> reg_code p \<noteq> 11"
  "plain_xmm p \<Longrightarrow> \<not> through_reg (O_PReg p sz) \<Longrightarrow> reg_code p \<noteq> 15"
  by (cases p; auto simp: through_reg_def plain_gpr_def plain_xmm_def preg_gpr_def preg_xmm_def)+

lemma slot_from_slot:
  assumes "movable (O_SpillSlot t dz) (O_SpillSlot s sz)"
  shows "\<exists>st'. run_moves (move_to_mem (O_SpillSlot t dz) (O_SpillSlot s sz)) st = Some st' \<and>
    moves_to (O_SpillSlot t dz) (O_SpillSlot s sz) st st'"
  using assms
  by (cases "sz = 4"; cases "sz = 16"; cases "sz = 32")
    (auto simp: move_to_mem_def Let_def xmm_sizes_def get_gpr_def get_xmm_def to_mem_address_def
      set_gpr_def set_xmm_def moves_to_def plain_gprD plain_xmmD dest: through_regs elim!: place.elims)

lemma slot_from_imm:
  assumes "movable (O_SpillSlot t dz) (O_ImmInt v sz)"
  shows "\<exists>st'. run_moves (move_to_mem (O_SpillSlot t dz) (O_ImmInt v sz)) st = Some st' \<and>
    moves_to (O_SpillSlot t dz) (O_ImmInt v sz) st st'"
  using assms small_store [of v] halves_store [of v]
  by (auto simp: move_to_mem_def Let_def gpr_sizes_def to_mem_address_def hi_half_def moves_to_def elim!: place.elims)

lemma emit_move_ok:
  assumes "movable d s" "\<not> same_loc d s"
  shows "\<exists>st'. run_moves (emit_move d s) st = Some st' \<and> moves_to d s st st'"
  using assms move_to_gpr move_to_xmm slot_from_reg slot_from_slot slot_from_imm
  by (cases "(d, s)" rule: movable.cases) (auto simp: emit_move_def)


section \<open>Well-formed copies\<close>

text \<open>
  \<open>bk\<close> says which spill slots hold vector values: the allocator keeps one register class per
  slot.  An operand of a class has a size its registers hold.
\<close>

fun in_bank :: "(i32 \<Rightarrow> bool) \<Rightarrow> bool \<Rightarrow> LirOperand \<Rightarrow> bool" where
  "in_bank bk x (O_PReg p sz) \<longleftrightarrow> (if x then plain_xmm p \<and> sz \<in> xmm_sizes else plain_gpr p \<and> sz \<in> gpr_sizes)"
| "in_bank bk x (O_SpillSlot s sz) \<longleftrightarrow> bk s = x \<and> sz \<in> (if x then xmm_sizes else gpr_sizes)"
| "in_bank bk x (O_ImmInt v sz) \<longleftrightarrow> \<not> x \<and> sz \<in> gpr_sizes"
| "in_bank bk x _ \<longleftrightarrow> False"

fun is_imm_int :: "LirOperand \<Rightarrow> bool" where
  "is_imm_int (O_ImmInt _ _) = True"
| "is_imm_int _ = False"

fun scratch_op :: "LirOperand \<Rightarrow> bool" where
  "scratch_op (O_PReg p _) \<longleftrightarrow> p \<in> {preg_gpr R10, preg_gpr R11, preg_xmm 14, preg_xmm 15}"
| "scratch_op _ \<longleftrightarrow> False"

text \<open>One move of a copy: one class, one size, none of the reserved registers.\<close>

definition move_ok :: "(i32 \<Rightarrow> bool) \<Rightarrow> LirOperand \<Rightarrow> LirOperand \<Rightarrow> bool" where
  "move_ok bk d s \<longleftrightarrow> (\<exists>x. in_bank bk x d \<and> in_bank bk x s) \<and> operand_size d = operand_size s \<and>
     \<not> is_imm_int d \<and> \<not> scratch_op d \<and> \<not> scratch_op s"

text \<open>
  A scalar floating-point move from slot to slot: a cycle that starts with it parks its value
  in a general register, whatever the move that reads the value back needs.
\<close>

definition scalar_slot_copy :: "(i32 \<Rightarrow> bool) \<Rightarrow> LirOperand \<Rightarrow> LirOperand \<Rightarrow> bool" where
  "scalar_slot_copy bk d s \<longleftrightarrow> in_bank bk True d \<and> is_spill_slot d \<and> is_spill_slot s \<and> operand_size d \<le> 8"

definition reads_back :: "(i32 \<Rightarrow> bool) \<Rightarrow> LirOperand \<times> LirOperand \<Rightarrow> LirOperand \<times> LirOperand \<Rightarrow> bool" where
  "reads_back bk = (\<lambda>(d, s) (d', s'). scalar_slot_copy bk d s \<and> same_loc d s' \<longrightarrow>
     is_spill_slot d' \<and> operand_size d' \<le> 8)"

definition copy_ok :: "(i32 \<Rightarrow> bool) \<Rightarrow> LirOperand list \<Rightarrow> LirOperand list \<Rightarrow> bool" where
  "copy_ok bk ds us \<longleftrightarrow> length ds = length us \<and>
     (\<forall>i<length ds. move_ok bk (ds ! i) (us ! i)) \<and>
     (\<forall>i<length ds. \<forall>j<length ds. i \<noteq> j \<longrightarrow> \<not> same_loc (ds ! i) (ds ! j)) \<and>
     (\<forall>i<length ds. \<forall>j<length ds. reads_back bk (ds ! i, us ! i) (ds ! j, us ! j))"

section \<open>The invariant of the loop\<close>

abbreviation dst_at :: "copy_move list \<Rightarrow> nat \<Rightarrow> LirOperand" where "dst_at ms i \<equiv> mv_dst (ms ! i)"
abbreviation src_at :: "copy_move list \<Rightarrow> nat \<Rightarrow> LirOperand" where "src_at ms i \<equiv> mv_src (ms ! i)"

definition reads_from :: "copy_move list \<Rightarrow> nat \<Rightarrow> nat \<Rightarrow> bool" where
  "reads_from ms j i \<longleftrightarrow> same_loc (dst_at ms i) (src_at ms j)"

definition parked_ok :: "(i32 \<Rightarrow> bool) \<Rightarrow> copy_move list \<Rightarrow> nat \<Rightarrow> bool" where
  "parked_ok bk ms i \<longleftrightarrow> parking_reg (src_at ms i) \<and> movable (dst_at ms i) (src_at ms i)"

definition wf_moves :: "(i32 \<Rightarrow> bool) \<Rightarrow> copy_move list \<Rightarrow> bool" where
  "wf_moves bk ms \<longleftrightarrow>
     (\<forall>i<length ms. place (dst_at ms i) \<and> \<not> is_imm_int (dst_at ms i) \<and> \<not> scratch_op (dst_at ms i)) \<and>
     (\<forall>i<length ms. \<forall>j<length ms. i \<noteq> j \<longrightarrow> \<not> same_loc (dst_at ms i) (dst_at ms j)) \<and>
     (\<forall>i\<in>pending ms. \<not> same_loc (dst_at ms i) (src_at ms i) \<and>
        (move_ok bk (dst_at ms i) (src_at ms i) \<or> parked_ok bk ms i)) \<and>
     (\<forall>i\<in>pending ms. \<forall>j\<in>pending ms. reads_back bk (dst_at ms i, src_at ms i) (dst_at ms j, src_at ms j))"

definition holds_want :: "(nat \<Rightarrow> ymm) \<Rightarrow> copy_move list \<Rightarrow> move_state \<Rightarrow> bool" where
  "holds_want want ms st \<longleftrightarrow> (\<forall>i<length ms.
     take_bit (8 * operand_size (dst_at ms i)) (read_loc st (if mv_done (ms ! i) then dst_at ms i else src_at ms i))
     = take_bit (8 * operand_size (dst_at ms i)) (want i))"

definition keeps :: "copy_move list \<Rightarrow> move_state \<Rightarrow> move_state \<Rightarrow> bool" where
  "keeps ms st0 st \<longleftrightarrow> (\<forall>op. place op \<and> \<not> scratch_op op \<and> (\<forall>i<length ms. \<not> same_loc (dst_at ms i) op) \<longrightarrow>
     read_loc st op = read_loc st0 op)"

definition copy_inv :: "(i32 \<Rightarrow> bool) \<Rightarrow> (nat \<Rightarrow> ymm) \<Rightarrow> move_state \<Rightarrow> copy_move list \<Rightarrow> move_state \<Rightarrow> bool" where
  "copy_inv bk want st0 ms st \<longleftrightarrow> wf_moves bk ms \<and> holds_want want ms st \<and> keeps ms st0 st"

lemma run_moves_append:
  "run_moves (a @ b) st = (case run_moves a st of None \<Rightarrow> None | Some st' \<Rightarrow> run_moves b st')"
  by (induction a arbitrary: st) (auto split: option.splits)

lemma scratch_op_iff: "scratch_op op \<longleftrightarrow> through_reg op \<or> parking_reg op"
  by (cases op) (auto simp: through_reg_def parking_reg_def)

lemma in_bank_place: "in_bank bk x op \<Longrightarrow> place op"
  by (cases op) (auto split: if_splits)

lemma bank_movable:
  assumes "in_bank bk x d" "in_bank bk x s" "\<not> is_imm_int d"
  shows "movable d s"
  using assms by (cases d; cases s) (auto simp: gpr_sizes_def xmm_sizes_def split: if_splits)

lemma move_okD:
  assumes "move_ok bk d s"
  shows "movable d s" "place s" "\<not> scratch_op s" "place d" "operand_size d = operand_size s"
    "\<not> scratch_op d" "\<not> is_imm_int d"
  using assms bank_movable in_bank_place by (auto simp: move_ok_def)

lemma movable_place: "movable d s \<Longrightarrow> place s"
  by (cases "(d, s)" rule: movable.cases) auto

lemma pending_lt: "i \<in> pending ms \<Longrightarrow> i < length ms"
  by (simp add: pending_def)

lemma wf_movesD:
  assumes "wf_moves bk ms"
  shows "i < length ms \<Longrightarrow> place (dst_at ms i)" "i < length ms \<Longrightarrow> \<not> scratch_op (dst_at ms i)"
    "i < length ms \<Longrightarrow> \<not> is_imm_int (dst_at ms i)"
    "i < length ms \<Longrightarrow> j < length ms \<Longrightarrow> same_loc (dst_at ms i) (dst_at ms j) \<Longrightarrow> i = j"
    "i \<in> pending ms \<Longrightarrow> \<not> same_loc (dst_at ms i) (src_at ms i)"
    "i \<in> pending ms \<Longrightarrow> move_ok bk (dst_at ms i) (src_at ms i) \<or> parked_ok bk ms i"
    "i \<in> pending ms \<Longrightarrow> j \<in> pending ms \<Longrightarrow> reads_back bk (dst_at ms i, src_at ms i) (dst_at ms j, src_at ms j)"
  using assms unfolding wf_moves_def by blast+

lemma pending_src:
  assumes "wf_moves bk ms" "i \<in> pending ms"
  shows "movable (dst_at ms i) (src_at ms i)" "place (src_at ms i)" "\<not> through_reg (src_at ms i)"
proof -
  from wf_movesD(6) [OF assms] show m: "movable (dst_at ms i) (src_at ms i)"
    by (auto simp: parked_ok_def move_okD)
  then show "place (src_at ms i)" by (rule movable_place)
  from wf_movesD(6) [OF assms] show "\<not> through_reg (src_at ms i)"
    by (auto simp: parked_ok_def parking_reg_def through_reg_def preg_gpr_def preg_xmm_def RC_GPR_def RC_XMM_def
        dest!: move_okD(3) simp: scratch_op_iff)
qed


text \<open>
  The moves \<open>D\<close> made: each destination has its value, no move that is left reads one of them,
  and nothing else changed, but for the parking registers where no move that is left reads them.
\<close>

definition finished :: "nat set \<Rightarrow> copy_move list \<Rightarrow> copy_move list \<Rightarrow> bool" where
  "finished D ms ms' \<longleftrightarrow> length ms' = length ms \<and>
     (\<forall>k<length ms. dst_at ms' k = dst_at ms k \<and> src_at ms' k = src_at ms k \<and>
        mv_done (ms' ! k) = (mv_done (ms ! k) \<or> k \<in> D))"

lemma finished_pending: "finished D ms ms' \<Longrightarrow> pending ms' = pending ms - D"
  unfolding finished_def pending_def by auto

lemma finished_set_done: "i < length ms \<Longrightarrow> finished {i} ms (set_done i ms)"
  unfolding finished_def set_done_def by (auto simp: nth_list_update)

lemma finished_trans: "finished D ms ms' \<Longrightarrow> finished D' ms' ms'' \<Longrightarrow> finished (D \<union> D') ms ms''"
  unfolding finished_def by auto

lemma finished_wf: "finished D ms ms' \<Longrightarrow> wf_moves bk ms \<Longrightarrow> wf_moves bk ms'"
  unfolding wf_moves_def parked_ok_def finished_pending [of D ms ms'] by (simp add: finished_def pending_def)

lemma copy_inv_finished:
  assumes inv: "copy_inv bk want st0 ms st" and fin: "finished D ms ms'" and D: "D \<subseteq> pending ms"
    and made: "\<And>i. i \<in> D \<Longrightarrow> take_bit (8 * operand_size (dst_at ms i)) (read_loc st' (dst_at ms i)) =
      take_bit (8 * operand_size (dst_at ms i)) (read_loc st (src_at ms i))"
    and frame: "\<And>op. place op \<Longrightarrow> \<not> through_reg op \<Longrightarrow> \<not> (clobber \<and> parking_reg op) \<Longrightarrow>
      \<forall>i\<in>D. \<not> same_loc (dst_at ms i) op \<Longrightarrow> read_loc st' op = read_loc st op"
    and unread: "\<And>i k. i \<in> D \<Longrightarrow> k \<in> pending ms - D \<Longrightarrow> \<not> reads_from ms k i"
    and clobbered: "\<And>k. clobber \<Longrightarrow> k \<in> pending ms - D \<Longrightarrow> \<not> parking_reg (src_at ms k)"
  shows "copy_inv bk want st0 ms' st'"
proof -
  have wf: "wf_moves bk ms" and hold: "holds_want want ms st" and keep: "keeps ms st0 st"
    using inv by (auto simp: copy_inv_def)
  have len: "length ms' = length ms" and same: "\<And>k. k < length ms \<Longrightarrow> dst_at ms' k = dst_at ms k"
    "\<And>k. k < length ms \<Longrightarrow> src_at ms' k = src_at ms k"
    "\<And>k. k < length ms \<Longrightarrow> mv_done (ms' ! k) \<longleftrightarrow> mv_done (ms ! k) \<or> k \<in> D"
    using fin by (auto simp: finished_def)
  have "holds_want want ms' st'"
    unfolding holds_want_def len
  proof (intro allI impI)
    fix k assume k: "k < length ms"
    note old = hold [unfolded holds_want_def, rule_format, OF k]
    consider "k \<in> D" | "k \<notin> D" "mv_done (ms ! k)" | "k \<in> pending ms - D"
      using k by (auto simp: pending_def)
    then have "take_bit (8 * operand_size (dst_at ms k)) (read_loc st' (if mv_done (ms ! k) \<or> k \<in> D then dst_at ms k else src_at ms k))
      = take_bit (8 * operand_size (dst_at ms k)) (want k)"
    proof cases
      case 1
      then show ?thesis using made [OF 1] old D by (auto simp: pending_def)
    next
      case 2
      have "\<forall>i\<in>D. \<not> same_loc (dst_at ms i) (dst_at ms k)"
        using wf_movesD(4) [OF wf _ k] 2 D pending_lt by blast
      then have "read_loc st' (dst_at ms k) = read_loc st (dst_at ms k)"
        using wf_movesD(1,2) [OF wf k] by (intro frame) (auto simp: scratch_op_iff)
      then show ?thesis using old 2 by simp
    next
      case 3
      then have "read_loc st' (src_at ms k) = read_loc st (src_at ms k)"
        using pending_src [OF wf, of k] clobbered unread by (intro frame) (auto simp: reads_from_def)
      then show ?thesis using old 3 by (simp add: pending_def)
    qed
    then show "take_bit (8 * operand_size (dst_at ms' k)) (read_loc st' (if mv_done (ms' ! k) then dst_at ms' k else src_at ms' k))
      = take_bit (8 * operand_size (dst_at ms' k)) (want k)"
      by (simp only: same [OF k])
  qed
  moreover have "keeps ms' st0 st'"
  proof -
    have "\<forall>i\<in>D. i < length ms" using D pending_lt by blast
    then show ?thesis using keep frame same len by (simp add: keeps_def scratch_op_iff)
  qed
  ultimately show ?thesis using finished_wf [OF fin wf] by (simp add: copy_inv_def)
qed

lemma dst_used_iff: "dst_used ms (dst_at ms i) \<longleftrightarrow> (\<exists>k\<in>pending ms. reads_from ms k i)"
  unfolding dst_used_def reads_from_def pending_def list_ex_length by auto

lemma peel_one:
  assumes "copy_inv bk want st0 ms st" "i \<in> pending ms" "\<not> dst_used ms (dst_at ms i)"
  shows "\<exists>st'. run_moves (emit_move (dst_at ms i) (src_at ms i)) st = Some st' \<and>
    copy_inv bk want st0 (set_done i ms) st'"
proof -
  have wf: "wf_moves bk ms" using assms(1) by (simp add: copy_inv_def)
  obtain st' where run: "run_moves (emit_move (dst_at ms i) (src_at ms i)) st = Some st'"
      and st': "moves_to (dst_at ms i) (src_at ms i) st st'"
    using emit_move_ok [OF pending_src(1) [OF wf assms(2)] wf_movesD(5) [OF wf assms(2)]] by blast
  have "copy_inv bk want st0 (set_done i ms) st'"
    using assms(2,3) st'
    by (intro copy_inv_finished [OF assms(1) finished_set_done, where clobber = False])
      (auto simp: pending_lt moves_to_def dst_used_iff)
  then show ?thesis using run by blast
qed

lemma peel_from_ok:
  "\<lbrakk>peel_from i ms code p = (ms', code', p'); run_moves code st1 = Some st; copy_inv bk want st0 ms st\<rbrakk> \<Longrightarrow>
     \<exists>st'. run_moves code' st1 = Some st' \<and> copy_inv bk want st0 ms' st' \<and> (\<exists>D. finished D ms ms')"
proof (induction i ms code p arbitrary: ms' code' p' st rule: peel_from.induct)
  case (1 i ms code p)
  show ?case
  proof (cases "i \<in> pending ms \<and> \<not> dst_used ms (dst_at ms i)")
    case True
    then obtain st2 where st2: "run_moves (emit_move (dst_at ms i) (src_at ms i)) st = Some st2"
        "copy_inv bk want st0 (set_done i ms) st2"
      using peel_one "1.prems"(3) by blast
    have "\<exists>st'. run_moves code' st1 = Some st' \<and> copy_inv bk want st0 ms' st' \<and>
        (\<exists>D. finished D (set_done i ms) ms')"
      using True "1.prems" st2 "1.IH"(2) [of "ms ! i" ms' code' p' st2]
      by (auto simp: peel_from.simps [of i] Let_def pending_def run_moves_append)
    then show ?thesis using finished_trans [OF finished_set_done] True pending_lt by blast
  next
    case False
    have "finished {} ms ms" by (simp add: finished_def)
    then show ?thesis
      using False "1.prems" "1.IH"(1)
      by (auto simp: peel_from.simps [of i] Let_def pending_def split: if_splits)
  qed
qed


lemma peel_from_progress: "peel_from i ms code True = (ms', code', p') \<Longrightarrow> p'"
proof (induction i ms code True arbitrary: ms' code' p' rule: peel_from.induct)
  case (1 i ms code)
  then show ?case by (simp add: peel_from.simps [of i] Let_def split: if_splits)
qed

lemma peel_from_stuck:
  "peel_from i ms code p = (ms', code', False) \<Longrightarrow>
     ms' = ms \<and> code' = code \<and> (\<forall>k\<in>pending ms. i \<le> k \<longrightarrow> dst_used ms (dst_at ms k))"
proof (induction i ms code p arbitrary: ms' code' rule: peel_from.induct)
  case (1 i ms code p)
  show ?case
  proof (cases "i < length ms")
    case True
    have used: "mv_done (ms ! i) \<or> dst_used ms (dst_at ms i)"
      using "1.prems" True peel_from_progress by (fastforce simp: peel_from.simps [of i] Let_def split: if_splits)
    then have "peel_from (i + 1) ms code p = (ms', code', False)"
      using "1.prems" True by (simp add: peel_from.simps [of i] Let_def)
    then have *: "ms' = ms \<and> code' = code \<and> (\<forall>k\<in>pending ms. i + 1 \<le> k \<longrightarrow> dst_used ms (dst_at ms k))"
      using "1.IH"(1) [OF True refl used] by simp
    have "dst_used ms (dst_at ms k)" if "k \<in> pending ms" "i \<le> k" for k
      using * used that by (cases "k = i") (auto simp: pending_def)
    then show ?thesis using * by blast
  next
    case False
    then show ?thesis using "1.prems" by (auto simp: peel_from.simps [of i] pending_def)
  qed
qed


definition stuck :: "copy_move list \<Rightarrow> bool" where
  "stuck ms \<longleftrightarrow> (\<forall>i\<in>pending ms. \<exists>k\<in>pending ms. reads_from ms k i)"

lemma peel_all_ok:
  "\<lbrakk>peel_all ms code = (ms', code'); run_moves code st1 = Some st; copy_inv bk want st0 ms st\<rbrakk> \<Longrightarrow>
     \<exists>st'. run_moves code' st1 = Some st' \<and> copy_inv bk want st0 ms' st' \<and> (\<exists>D. finished D ms ms') \<and> stuck ms'"
proof (induction ms code arbitrary: ms' code' st rule: peel_all.induct)
  case (1 ms code)
  obtain ms2 code2 p where peel: "peel_acyclic ms code = (ms2, code2, p)" by (metis prod_cases3)
  obtain st2 D where *: "run_moves code2 st1 = Some st2" "copy_inv bk want st0 ms2 st2" "finished D ms ms2"
    using peel_from_ok [OF peel "1.prems"(2,3)] by blast
  show ?case
  proof (cases p)
    case True
    then have "\<exists>st'. run_moves code' st1 = Some st' \<and> copy_inv bk want st0 ms' st' \<and>
        (\<exists>D. finished D ms2 ms') \<and> stuck ms'"
      using "1.IH" [OF peel [symmetric] refl True _ *(1,2)] "1.prems"(1) peel
      by (simp add: peel_all.simps [of ms])
    then show ?thesis using finished_trans [OF *(3)] by blast
  next
    case False
    then have "ms' = ms2" "code' = code2" using "1.prems"(1) peel by (simp_all add: peel_all.simps [of ms])
    moreover have "stuck ms2"
      using peel_from_stuck [OF peel [unfolded False [THEN eq_False [THEN iffD2]]]] by (simp add: stuck_def dst_used_iff)
    ultimately show ?thesis using * by blast
  qed
qed

section \<open>Cycles\<close>

text \<open>When no move can be peeled, the moves left are a permutation of their locations.\<close>

lemma reads_unique_dst:
  assumes "wf_moves bk ms" "i < length ms" "i' < length ms" "reads_from ms k i" "reads_from ms k i'"
  shows "i = i'"
  using assms wf_movesD(4) [OF assms(1)] same_loc_sym same_loc_trans unfolding reads_from_def by blast

lemma stuck_permutation:
  assumes wf: "wf_moves bk ms" and st: "stuck ms"
  shows "k \<in> pending ms \<Longrightarrow> \<exists>i\<in>pending ms. reads_from ms k i"
    and "\<lbrakk>i \<in> pending ms; k \<in> pending ms; k' \<in> pending ms; reads_from ms k i; reads_from ms k' i\<rbrakk> \<Longrightarrow> k = k'"
proof -
  obtain u where u: "\<forall>i\<in>pending ms. u i \<in> pending ms \<and> reads_from ms (u i) i"
    using st unfolding stuck_def by metis
  have "inj_on u (pending ms)"
    using u reads_unique_dst [OF wf] pending_lt by (metis inj_onI)
  then have onto: "u ` pending ms = pending ms"
    using u by (intro endo_inj_surj) auto
  then show "k \<in> pending ms \<Longrightarrow> \<exists>i\<in>pending ms. reads_from ms k i"
    using u by (metis imageE)
  show "k = k'" if "i \<in> pending ms" "k \<in> pending ms" "k' \<in> pending ms" "reads_from ms k i" "reads_from ms k' i"
  proof -
    have "k = u i" if "k \<in> pending ms" "reads_from ms k i" for k
      using that onto u \<open>i \<in> pending ms\<close> reads_unique_dst [OF wf] pending_lt by (metis imageE)
    then show ?thesis using that by metis
  qed
qed

lemma stuck_not_parked:
  assumes "wf_moves bk ms" "stuck ms" "k \<in> pending ms"
  shows "move_ok bk (dst_at ms k) (src_at ms k)" "\<not> parking_reg (src_at ms k)"
proof -
  obtain i where i: "i \<in> pending ms" "reads_from ms k i" using stuck_permutation(1) [OF assms] by blast
  then have "\<not> scratch_op (dst_at ms i)" using wf_movesD(2) [OF assms(1)] pending_lt by blast
  then show "\<not> parking_reg (src_at ms k)"
    using i(2) by (cases "dst_at ms i"; cases "src_at ms k") (auto simp: reads_from_def scratch_op_iff parking_reg_def)
  then show "move_ok bk (dst_at ms k) (src_at ms k)"
    using wf_movesD(6) [OF assms(1,3)] by (simp add: parked_ok_def)
qed

definition path :: "copy_move list \<Rightarrow> nat list \<Rightarrow> bool" where
  "path ms c \<longleftrightarrow> distinct c \<and> set c \<subseteq> pending ms \<and> (\<forall>t. Suc t < length c \<longrightarrow> reads_from ms (c ! t) (c ! Suc t))"

lemma next_in_cycle_eq:
  assumes "wf_moves bk ms" "stuck ms" "k \<in> pending ms"
  obtains i where "next_in_cycle ms k = Some i" "i \<in> pending ms" "reads_from ms k i"
proof -
  obtain i where i: "i \<in> pending ms" "reads_from ms k i" using stuck_permutation(1) [OF assms] by blast
  then have "next_in_cycle ms k \<noteq> None"
    by (auto simp: next_in_cycle_def find_None_iff reads_from_def pending_def)
  then obtain i' where "next_in_cycle ms k = Some i'" by blast
  moreover from this have "i' \<in> pending ms" "reads_from ms k i'"
    by (auto simp: next_in_cycle_def find_Some_iff reads_from_def pending_def)
  ultimately show ?thesis using that by blast
qed

lemma trace_cycle_ok:
  "\<lbrakk>wf_moves bk ms; stuck ms; path ms (cycle @ [cur]); hd (cycle @ [cur]) = start\<rbrakk> \<Longrightarrow>
     path ms (trace_cycle ms start cycle cur) \<and> trace_cycle ms start cycle cur \<noteq> [] \<and>
     hd (trace_cycle ms start cycle cur) = start \<and> reads_from ms (last (trace_cycle ms start cycle cur)) start"
proof (induction ms start cycle cur rule: trace_cycle.induct)
  case (1 ms start cycle cur)
  let ?c = "cycle @ [cur]"
  have cur: "cur \<in> pending ms" using "1.prems"(3) by (simp add: path_def)
  obtain i where i: "next_in_cycle ms cur = Some i" "i \<in> pending ms" "reads_from ms cur i"
    using next_in_cycle_eq [OF "1.prems"(1,2) cur] by blast
  show ?case
  proof (cases "i = start")
    case True
    then show ?thesis using i "1.prems" by (simp add: trace_cycle.simps [of ms])
  next
    case False
    have new: "i \<notin> set ?c"
    proof
      assume "i \<in> set ?c"
      then obtain t where t: "t < length ?c" "?c ! t = i" by (metis in_set_conv_nth)
      have "t \<noteq> 0" using t False "1.prems"(4) by (metis hd_conv_nth snoc_eq_iff_butlast)
      then obtain t' where t': "t = Suc t'" by (cases t) auto
      have r: "reads_from ms (?c ! t') i" using t t' "1.prems"(3) unfolding path_def by blast
      have "?c ! t' \<in> set ?c" using t(1) t' by (intro nth_mem) simp
      then have m: "?c ! t' \<in> pending ms" using "1.prems"(3) unfolding path_def by blast
      have "?c ! t' = cur" by (rule stuck_permutation(2) [OF "1.prems"(1,2) i(2) m cur r i(3)])
      then have "?c ! t' = ?c ! length cycle" by simp
      moreover have "distinct ?c" using "1.prems"(3) unfolding path_def by blast
      ultimately have "t' = length cycle" using nth_eq_iff_index_eq [of ?c t' "length cycle"] t(1) t' by simp
      then show False using t(1) t' by simp
    qed
    then have p: "path ms (?c @ [i])"
      using "1.prems"(3) i by (auto simp: path_def nth_append less_Suc_eq)
    have hd: "hd (?c @ [i]) = start" using "1.prems"(4) by (cases cycle) auto
    have "trace_cycle ms start cycle cur = trace_cycle ms start ?c i"
      using i(1) new False by (subst trace_cycle.simps) simp
    moreover have "\<not> (i = start \<or> i \<in> set ?c)" using new False by simp
    ultimately show ?thesis using "1.IH" [OF refl i(1) _ "1.prems"(1,2) p hd] by presburger
  qed
qed

text \<open>What a pair of moves that swap two locations does.\<close>

lemma bank_unique: "in_bank bk x a \<Longrightarrow> in_bank bk y b \<Longrightarrow> same_loc a b \<Longrightarrow> x = y"
  using gpr_not_xmm by (cases "(a, b)" rule: same_loc.cases) (auto split: if_splits)

lemma same_loc_cong: "same_loc a b \<Longrightarrow> same_loc a c \<longleftrightarrow> same_loc b c"
  using same_loc_sym same_loc_trans by blast

lemma moves_toD:
  assumes "moves_to d s st st'"
  shows "take_bit (8 * operand_size d) (read_loc st' d) = take_bit (8 * operand_size d) (read_loc st s)"
    "place op \<Longrightarrow> \<not> same_loc d op \<Longrightarrow> \<not> through_reg op \<Longrightarrow> read_loc st' op = read_loc st op"
  using assms by (auto simp: moves_to_def)

lemma parking_scratch:
  "parking_reg (O_PReg (cycle_scratch x) sz)" "place (O_PReg (cycle_scratch x) sz)"
  "\<not> through_reg (O_PReg (cycle_scratch x) sz)" "reg_class (cycle_scratch x) = (if x then RC_XMM else RC_GPR)"
  "x \<Longrightarrow> plain_xmm (cycle_scratch x)" "\<not> x \<Longrightarrow> plain_gpr (cycle_scratch x)"
  by (auto simp: parking_reg_def through_reg_def cycle_scratch_def preg_xmm_def preg_gpr_def plain_xmm_def
      plain_gpr_def RC_GPR_def RC_XMM_def)

lemma not_scratch_location:
  "\<not> scratch_op op \<Longrightarrow> \<not> same_loc (O_PReg (cycle_scratch x) sz) op"
  by (cases op) (auto simp: cycle_scratch_def)

lemma three_moves:
  assumes m: "movable sc s0" "movable d1 d0" "movable d0 sc"
    and sc: "sc = O_PReg (cycle_scratch x) (operand_size d0)"
    and plain: "place d0" "place d1" "place s0" "\<not> scratch_op d0" "\<not> scratch_op d1" "\<not> scratch_op s0"
    and diff: "\<not> same_loc d0 d1"
  shows "\<exists>st'. run_moves (emit_move sc s0 @ emit_move d1 d0 @ emit_move d0 sc) st = Some st' \<and>
    take_bit (8 * operand_size d0) (read_loc st' d0) = take_bit (8 * operand_size d0) (read_loc st s0) \<and>
    take_bit (8 * operand_size d1) (read_loc st' d1) = take_bit (8 * operand_size d1) (read_loc st d0) \<and>
    (\<forall>op. place op \<and> \<not> scratch_op op \<and> \<not> same_loc d0 op \<and> \<not> same_loc d1 op \<longrightarrow>
       read_loc st' op = read_loc st op)"
proof -
  have ns: "\<not> same_loc sc op" "\<not> same_loc op sc" if "\<not> scratch_op op" for op
    using not_scratch_location that same_loc_sym by (auto simp: sc)
  have nt: "\<not> through_reg op" if "\<not> scratch_op op" for op using that by (simp add: scratch_op_iff)
  obtain st1 where 1: "run_moves (emit_move sc s0) st = Some st1" "moves_to sc s0 st st1"
    using emit_move_ok [OF m(1)] ns plain by blast
  obtain st2 where 2: "run_moves (emit_move d1 d0) st1 = Some st2" "moves_to d1 d0 st1 st2"
    using emit_move_ok [OF m(2)] diff same_loc_sym by blast
  obtain st3 where 3: "run_moves (emit_move d0 sc) st2 = Some st3" "moves_to d0 sc st2 st3"
    using emit_move_ok [OF m(3)] ns plain by blast
  have "read_loc st1 d0 = read_loc st d0" using moves_toD(2) [OF 1(2)] plain ns nt by blast
  moreover have "read_loc st3 d1 = read_loc st2 d1" using moves_toD(2) [OF 3(2)] plain diff nt by blast
  moreover have "read_loc st2 sc = read_loc st1 sc"
    using moves_toD(2) [OF 2(2), of sc] ns(2) [OF plain(5)] parking_scratch(2,3) by (simp add: sc)
  moreover have "operand_size sc = operand_size d0" by (simp add: sc)
  moreover have "read_loc st3 op = read_loc st op"
    if "place op" "\<not> scratch_op op" "\<not> same_loc d0 op" "\<not> same_loc d1 op" for op
    using that moves_toD(2) [OF 1(2)] moves_toD(2) [OF 2(2)] moves_toD(2) [OF 3(2)] ns nt by metis
  ultimately show ?thesis
    using moves_toD(1) [OF 1(2)] moves_toD(1) [OF 2(2)] moves_toD(1) [OF 3(2)] 1(1) 2(1) 3(1)
    by (auto simp: run_moves_append)
qed


definition swaps :: "copy_move \<Rightarrow> copy_move \<Rightarrow> move_state \<Rightarrow> move_state \<Rightarrow> bool" where
  "swaps m0 m1 st st' \<longleftrightarrow>
     take_bit (8 * operand_size (mv_dst m0)) (read_loc st' (mv_dst m0)) =
       take_bit (8 * operand_size (mv_dst m0)) (read_loc st (mv_src m0)) \<and>
     take_bit (8 * operand_size (mv_dst m1)) (read_loc st' (mv_dst m1)) =
       take_bit (8 * operand_size (mv_dst m1)) (read_loc st (mv_src m1)) \<and>
     (\<forall>op. place op \<and> \<not> scratch_op op \<and> \<not> same_loc (mv_dst m0) op \<and> \<not> same_loc (mv_dst m1) op \<longrightarrow>
        read_loc st' op = read_loc st op)"

lemma is_gpr_opE:
  assumes "in_bank bk x op" "is_gpr_operand op"
  obtains p sz where "op = O_PReg p sz" "plain_gpr p" "\<not> x" "sz \<in> gpr_sizes"
  using assms plain_xmmD(1) by (cases op) (auto simp: is_gpr_operand_def split: if_splits)

lemma is_xmm_operand_bank: "in_bank bk x op \<Longrightarrow> is_xmm_operand op \<Longrightarrow> x"
  by (cases op) (auto simp: is_xmm_operand_def preg_is_xmm_def plain_gpr_def RC_GPR_def RC_XMM_def split: if_splits)

lemma bank_cases:
  assumes "in_bank bk x op" "\<not> is_imm_int op" "\<not> is_spill_slot op"
  shows "if x then is_xmm_operand op else is_gpr_operand op"
  using assms by (cases op) (auto simp: is_xmm_operand_def is_gpr_operand_def plain_gprD plain_xmmD)

lemma bank_size: "in_bank bk x op \<Longrightarrow> operand_size op \<in> (if x then xmm_sizes else gpr_sizes)"
  by (cases op) (auto split: if_splits)

lemma bank_imm: "in_bank bk x op \<Longrightarrow> is_imm_int op \<Longrightarrow> \<not> x"
  by (cases op) auto

lemma scratch_movable:
  assumes "in_bank bk x op" "z \<longrightarrow> x" "x \<and> \<not> z \<longrightarrow> is_spill_slot op"
  shows "sz \<in> (if z then xmm_sizes else gpr_sizes) \<Longrightarrow> movable (O_PReg (cycle_scratch z) sz) op"
    and "\<not> is_imm_int op \<Longrightarrow> x \<and> \<not> z \<longrightarrow> operand_size op \<in> gpr_sizes \<Longrightarrow> movable op (O_PReg (cycle_scratch z) sz')"
proof -
  have sc: "if z then plain_xmm (cycle_scratch z) else plain_gpr (cycle_scratch z)"
    using parking_scratch(5,6) [of z] by simp
  show "sz \<in> (if z then xmm_sizes else gpr_sizes) \<Longrightarrow> movable (O_PReg (cycle_scratch z) sz) op"
    using assms sc by (cases op; cases x; cases z) simp_all
  show "\<not> is_imm_int op \<Longrightarrow> x \<and> \<not> z \<longrightarrow> operand_size op \<in> gpr_sizes \<Longrightarrow> movable op (O_PReg (cycle_scratch z) sz')"
    using assms sc by (cases op; cases x; cases z) simp_all
qed

lemma exchange_ok:
  assumes "plain_gpr p" "plain_gpr q" "p \<noteq> q" "a \<in> gpr_sizes" "b \<in> gpr_sizes"
  shows "\<exists>st'. run_move (if a = 4 \<and> b = 4 then Xchg32 (reg_code p) (reg_code q) else Xchg (reg_code p) (reg_code q)) st = Some st' \<and>
    take_bit (8 * a) (read_loc st' (O_PReg p a)) = take_bit (8 * a) (read_loc st (O_PReg q a)) \<and>
    take_bit (8 * b) (read_loc st' (O_PReg q b)) = take_bit (8 * b) (read_loc st (O_PReg p b)) \<and>
    (\<forall>op. place op \<and> \<not> same_loc (O_PReg p a) op \<and> \<not> same_loc (O_PReg q b) op \<longrightarrow> read_loc st' op = read_loc st op)"
proof -
  have "reg_code p \<noteq> reg_code q" using assms gpr_eqI by blast
  then show ?thesis
    using assms
    by (auto simp: set_gpr_def get_gpr_def plain_gprD plain_xmmD gpr_sizes_def elim!: place.elims dest: gpr_eqI)
qed

lemma break_pair_ok:
  assumes ok: "move_ok bk (mv_dst m0) (mv_src m0)" "move_ok bk (mv_dst m1) (mv_src m1)"
    and cyc: "same_loc (mv_dst m0) (mv_src m1)" "same_loc (mv_dst m1) (mv_src m0)"
    and diff: "\<not> same_loc (mv_dst m0) (mv_dst m1)"
  shows "\<exists>st'. run_moves (break_pair m0 m1) st = Some st' \<and> swaps m0 m1 st st'"
proof -
  obtain x where b0: "in_bank bk x (mv_dst m0)" "in_bank bk x (mv_src m0)" using ok(1) by (auto simp: move_ok_def)
  obtain y where "in_bank bk y (mv_dst m1)" "in_bank bk y (mv_src m1)" using ok(2) by (auto simp: move_ok_def)
  moreover from this have "y = x" using bank_unique [OF _ b0(2) cyc(2)] by blast
  ultimately have b1: "in_bank bk x (mv_dst m1)" "in_bank bk x (mv_src m1)" by simp_all
  have vals: "read_loc st (mv_src m1) = read_loc st (mv_dst m0)" "read_loc st (mv_src m0) = read_loc st (mv_dst m1)"
    using same_loc_read [OF cyc(1)] same_loc_read [OF cyc(2)] by auto
  show ?thesis
  proof (cases "is_gpr_operand (mv_dst m0) \<and> is_gpr_operand (mv_dst m1) \<and> is_gpr_operand (mv_src m0) \<and> is_gpr_operand (mv_src m1)")
    case True
    obtain p a where p: "mv_dst m0 = O_PReg p a" "plain_gpr p" "a \<in> gpr_sizes" using is_gpr_opE [OF b0(1)] True by blast
    obtain q b where q: "mv_dst m1 = O_PReg q b" "plain_gpr q" "b \<in> gpr_sizes" using is_gpr_opE [OF b1(1)] True by blast
    have "p \<noteq> q" using diff p(1) q(1) by auto
    have "break_pair m0 m1 = [if a = 4 \<and> b = 4 then Xchg32 (reg_code p) (reg_code q) else Xchg (reg_code p) (reg_code q)]"
      using True p q by (auto simp: break_pair_def plain_gprD Let_def)
    then show ?thesis
      using exchange_ok [OF p(2) q(2) \<open>p \<noteq> q\<close> p(3) q(3), of st] vals p(1) q(1) unfolding swaps_def
      by (auto simp del: read_loc.simps run_move.simps simp: same_loc_read [of "O_PReg _ a" "O_PReg _ b"]) 
  next
    case False
    define z where z_def: "z \<longleftrightarrow> is_xmm_operand (mv_dst m0) \<or> is_xmm_operand (mv_dst m1) \<or> is_xmm_operand (mv_src m0) \<or>
      is_xmm_operand (mv_src m1) \<or> operand_size (mv_dst m0) = 16 \<or> operand_size (mv_dst m0) = 32"
    let ?sc = "O_PReg (cycle_scratch z) (operand_size (mv_dst m0))"
    have z: "z \<longrightarrow> x" "x \<and> \<not> z \<longrightarrow> is_spill_slot (mv_dst m0)" "x \<and> \<not> z \<longrightarrow> is_spill_slot (mv_src m0)"
        "operand_size (mv_dst m0) \<in> (if z then xmm_sizes else gpr_sizes)"
      using b0 b1 is_xmm_operand_bank bank_cases [OF b0(1)] bank_cases [OF b0(2)] bank_size [OF b0(1)] bank_imm [OF b0(1)]
        bank_imm [OF b0(2)] by (auto simp: z_def gpr_sizes_def xmm_sizes_def split: if_splits)
    have imm: "\<not> is_imm_int (mv_dst m0)" "\<not> is_imm_int (mv_dst m1)" using ok by (simp_all add: move_ok_def)
    have "movable ?sc (mv_src m0)" by (rule scratch_movable(1) [OF b0(2) z(1,3,4)])
    moreover have "movable (mv_dst m0) ?sc"
      using z(4) by (intro scratch_movable(2) [OF b0(1) z(1,2) imm(1)]) auto
    moreover have "movable (mv_dst m1) (mv_dst m0)" by (rule bank_movable [OF b1(1) b0(1) imm(2)])
    moreover have "break_pair m0 m1 = emit_move ?sc (mv_src m0) @ emit_move (mv_dst m1) (mv_dst m0) @ emit_move (mv_dst m0) ?sc"
      unfolding break_pair_def z_def Let_def using False by (simp only: if_False)
    moreover have "\<not> scratch_op (mv_dst m0)" "\<not> scratch_op (mv_dst m1)" using ok by (simp_all add: move_ok_def)
    ultimately show ?thesis
      using three_moves [OF _ _ _ refl move_okD(4) [OF ok(1)] move_okD(4) [OF ok(2)] move_okD(2) [OF ok(1)] _ _
          move_okD(3) [OF ok(1)] diff, of z st]
      unfolding swaps_def vals by simp
  qed
qed


text \<open>A longer cycle parks the value of its first destination for the move that reads it.\<close>

lemma with_size_same:
  assumes "in_bank bk x op"
  shows "same_loc (with_size op sz) = same_loc op" "read_loc st (with_size op sz) = read_loc st op"
    "operand_size (with_size op sz) = sz" "is_spill_slot (with_size op sz) = is_spill_slot op"
    "is_imm_int (with_size op sz) = is_imm_int op"
    "sz \<in> (if x then xmm_sizes else gpr_sizes) \<Longrightarrow> in_bank bk x (with_size op sz)"
proof -
  show "same_loc (with_size op sz) = same_loc op"
  proof
    fix b
    show "same_loc (with_size op sz) b = same_loc op b"
      using assms by (cases op; cases b) auto
  qed
qed (use assms in \<open>cases op; auto split: if_splits\<close>)+

lemma max_sizes: "a \<in> xmm_sizes \<Longrightarrow> b \<in> xmm_sizes \<Longrightarrow> max a b \<in> xmm_sizes"
  "a \<in> gpr_sizes \<Longrightarrow> b \<in> gpr_sizes \<Longrightarrow> max a b \<in> gpr_sizes"
  by (auto simp: xmm_sizes_def gpr_sizes_def)

lemma parking_fits:
  assumes wf: "wf_moves bk ms" and st: "stuck ms" and a: "a \<in> pending ms" and l: "l \<in> pending ms" and r: "reads_from ms l a"
  obtains z sz where "parking ms a l = O_PReg (cycle_scratch z) sz" "operand_size (dst_at ms l) \<le> sz"
    "movable (parking ms a l) (with_size (dst_at ms a) sz)" "movable (dst_at ms l) (parking ms a l)"
proof -
  note oka = stuck_not_parked(1) [OF wf st a] and okl = stuck_not_parked(1) [OF wf st l]
  obtain x where ba: "in_bank bk x (dst_at ms a)" "in_bank bk x (src_at ms a)" using oka by (auto simp: move_ok_def)
  obtain y where "in_bank bk y (dst_at ms l)" "in_bank bk y (src_at ms l)" using okl by (auto simp: move_ok_def)
  moreover from this have "y = x" using bank_unique [OF ba(1) _ r [unfolded reads_from_def]] by blast
  ultimately have bl: "in_bank bk x (dst_at ms l)" by simp
  define z where z_def: "z \<longleftrightarrow> is_xmm_operand (dst_at ms a) \<or> is_xmm_operand (src_at ms a) \<or>
    operand_size (dst_at ms a) = 16 \<or> operand_size (dst_at ms a) = 32"
  define sz where sz_def: "sz = max (operand_size (dst_at ms a)) (operand_size (dst_at ms l))"
  have p: "parking ms a l = O_PReg (cycle_scratch z) sz"
    using move_okD(5) [OF okl] by (simp add: parking_def Let_def z_def sz_def)
  have z: "z \<longrightarrow> x" "x \<and> \<not> z \<longrightarrow> is_spill_slot (dst_at ms a)"
      "x \<and> \<not> z \<longrightarrow> is_spill_slot (src_at ms a) \<and> operand_size (dst_at ms a) \<in> gpr_sizes"
    using ba is_xmm_operand_bank bank_cases [OF ba(1)] bank_cases [OF ba(2)] bank_size [OF ba(1)] bank_imm [OF ba(1)]
      bank_imm [OF ba(2)] by (auto simp: z_def gpr_sizes_def xmm_sizes_def split: if_splits)
  have rb: "x \<and> \<not> z \<longrightarrow> is_spill_slot (dst_at ms l)" "x \<and> \<not> z \<longrightarrow> operand_size (dst_at ms l) \<in> gpr_sizes"
    using wf_movesD(7) [OF wf a l] z ba r bank_size [OF bl]
    by (auto simp: reads_back_def scalar_slot_copy_def reads_from_def gpr_sizes_def xmm_sizes_def)
  have sz: "sz \<in> (if z then xmm_sizes else gpr_sizes)"
    using bank_size [OF ba(1)] bank_size [OF bl] max_sizes z rb by (auto simp: sz_def split: if_splits)
  then have szx: "sz \<in> (if x then xmm_sizes else gpr_sizes)"
    using z(1) by (auto simp: gpr_sizes_def xmm_sizes_def split: if_splits)
  note ws = with_size_same [OF ba(1), where sz = sz]
  have "movable (parking ms a l) (with_size (dst_at ms a) sz)"
    unfolding p by (rule scratch_movable(1) [OF ws(6) [OF szx] z(1) _ sz]) (use z(2) ws(4) in simp)
  moreover have "movable (dst_at ms l) (parking ms a l)"
    unfolding p by (rule scratch_movable(2) [OF bl z(1) rb(1) _ rb(2)]) (use okl in \<open>simp add: move_ok_def\<close>)
  ultimately show ?thesis using that [OF p] by (simp add: sz_def)
qed


definition redirect :: "nat \<Rightarrow> LirOperand \<Rightarrow> copy_move list \<Rightarrow> copy_move list" where
  "redirect l sc ms = ms[l := (ms ! l)\<lparr>mv_src := sc\<rparr>]"

lemma redirect_simps [simp]:
  "length (redirect l sc ms) = length ms" "pending (redirect l sc ms) = pending ms"
  "i < length ms \<Longrightarrow> dst_at (redirect l sc ms) i = dst_at ms i"
  "i < length ms \<Longrightarrow> src_at (redirect l sc ms) i = (if i = l then sc else src_at ms i)"
  "i < length ms \<Longrightarrow> mv_done (redirect l sc ms ! i) = mv_done (ms ! i)"
  unfolding redirect_def pending_def by (cases "l < length ms"; auto simp: nth_list_update)+

lemma redirect_wf:
  assumes wf: "wf_moves bk ms" and l: "l < length ms" and sc: "parking_reg sc" "movable (dst_at ms l) sc"
  shows "wf_moves bk (redirect l sc ms)"
proof -
  have no: "\<not> same_loc (dst_at ms i) sc" if "i < length ms" for i
    using wf_movesD(2) [OF wf that] sc(1) by (cases "dst_at ms i"; cases sc) (auto simp: scratch_op_iff parking_reg_def)
  have ns: "\<not> is_spill_slot sc" using sc(1) by (auto simp: parking_reg_def)
  have ok: "\<not> same_loc (dst_at ms i) (src_at (redirect l sc ms) i) \<and>
      (move_ok bk (dst_at ms i) (src_at (redirect l sc ms) i) \<or> parked_ok bk (redirect l sc ms) i)"
    if "i \<in> pending ms" for i
    using wf_movesD(5,6) [OF wf that] no [OF pending_lt [OF that]] sc pending_lt [OF that]
    by (cases "i = l") (simp_all add: parked_ok_def)
  have rb: "reads_back bk (dst_at ms i, src_at (redirect l sc ms) i) (dst_at ms j, src_at (redirect l sc ms) j)"
    if "i \<in> pending ms" "j \<in> pending ms" for i j
    using wf_movesD(7) [OF wf that] no [OF pending_lt [OF that(1)]] ns pending_lt [OF that(1)] pending_lt [OF that(2)]
    by (cases "i = l"; cases "j = l") (simp_all add: reads_back_def scalar_slot_copy_def)
  show ?thesis
    unfolding wf_moves_def redirect_simps(1,2)
  proof (intro conjI)
    show "\<forall>i\<in>pending ms. \<forall>j\<in>pending ms. reads_back bk (dst_at (redirect l sc ms) i, src_at (redirect l sc ms) i)
        (dst_at (redirect l sc ms) j, src_at (redirect l sc ms) j)"
      using rb pending_lt by simp
    show "\<forall>i\<in>pending ms. \<not> same_loc (dst_at (redirect l sc ms) i) (src_at (redirect l sc ms) i) \<and>
        (move_ok bk (dst_at (redirect l sc ms) i) (src_at (redirect l sc ms) i) \<or> parked_ok bk (redirect l sc ms) i)"
      using ok pending_lt by simp
  qed (use wf_movesD(1-4) [OF wf] in auto)
qed

lemma take_bit_less: "take_bit n a = take_bit n b \<Longrightarrow> k \<le> n \<Longrightarrow> take_bit k a = take_bit k (b :: ymm)"
proof -
  assume "take_bit n a = take_bit n b" "k \<le> n"
  then have "take_bit k (take_bit n a) = take_bit k (take_bit n b)" by simp
  then show ?thesis using \<open>k \<le> n\<close> by (simp add: min.absorb1)
qed

lemma park_ok:
  assumes inv: "copy_inv bk want st0 ms st" and st: "stuck ms" and a: "a \<in> pending ms" and l: "l \<in> pending ms"
    and r: "reads_from ms l a"
  shows "\<exists>st'. run_moves (emit_move (parking ms a l) (with_size (dst_at ms a) (operand_size (parking ms a l)))) st = Some st' \<and>
    copy_inv bk want st0 (redirect l (parking ms a l) ms) st'"
proof -
  have wf: "wf_moves bk ms" and hold: "holds_want want ms st" and keep: "keeps ms st0 st"
    using inv by (auto simp: copy_inv_def)
  obtain z sz where p: "parking ms a l = O_PReg (cycle_scratch z) sz" "operand_size (dst_at ms l) \<le> sz"
      and m: "movable (parking ms a l) (with_size (dst_at ms a) sz)" "movable (dst_at ms l) (parking ms a l)"
    using parking_fits [OF wf st a l r] by blast
  obtain x where ba: "in_bank bk x (dst_at ms a)" using stuck_not_parked(1) [OF wf st a] by (auto simp: move_ok_def)
  note ws = with_size_same [OF ba, where sz = sz]
  have far: "\<not> same_loc (parking ms a l) op" if "\<not> scratch_op op" for op
    using not_scratch_location that by (simp add: p)
  have "\<not> same_loc (parking ms a l) (with_size (dst_at ms a) sz)"
    using ws(1) far [OF wf_movesD(2) [OF wf pending_lt [OF a]]] same_loc_sym by metis
  then obtain st' where st': "run_moves (emit_move (parking ms a l) (with_size (dst_at ms a) sz)) st = Some st'"
      "moves_to (parking ms a l) (with_size (dst_at ms a) sz) st st'"
    using emit_move_ok [OF m(1)] by blast
  have other: "read_loc st' op = read_loc st op" if "place op" "\<not> scratch_op op" for op
    using moves_toD(2) [OF st'(2) that(1) far [OF that(2)]] that(2) by (simp add: scratch_op_iff)
  have same: "read_loc st (dst_at ms a) = read_loc st (src_at ms l)"
    using same_loc_read r by (simp add: reads_from_def)
  have park: "take_bit (8 * operand_size (dst_at ms l)) (read_loc st' (parking ms a l)) =
      take_bit (8 * operand_size (dst_at ms l)) (want l)"
    using take_bit_less [OF moves_toD(1) [OF st'(2)], of "8 * operand_size (dst_at ms l)"] p ws(2) same
      hold [unfolded holds_want_def, rule_format, OF pending_lt [OF l]] l
    by (simp add: pending_def)
  have "holds_want want (redirect l (parking ms a l) ms) st'"
    unfolding holds_want_def
  proof (intro allI impI)
    fix k assume "k < length (redirect l (parking ms a l) ms)"
    then have k: "k < length ms" by simp
    have "take_bit (8 * operand_size (dst_at ms k))
        (read_loc st' (if mv_done (ms ! k) then dst_at ms k else if k = l then parking ms a l else src_at ms k)) =
      take_bit (8 * operand_size (dst_at ms k)) (want k)"
    proof (cases "k = l \<or> mv_done (ms ! k)")
      case True
      then show ?thesis
        using park l other [OF wf_movesD(1) [OF wf k] wf_movesD(2) [OF wf k]] hold [unfolded holds_want_def, rule_format, OF k]
        by (auto simp: pending_def)
    next
      case False
      then have "k \<in> pending ms" using k by (simp add: pending_def)
      then have "\<not> scratch_op (src_at ms k)" "place (src_at ms k)"
        using stuck_not_parked [OF wf st] pending_src [OF wf] by (auto simp: scratch_op_iff)
      then show ?thesis using False other hold [unfolded holds_want_def, rule_format, OF k] by simp
    qed
    then show "take_bit (8 * operand_size (dst_at (redirect l (parking ms a l) ms) k))
        (read_loc st' (if mv_done (redirect l (parking ms a l) ms ! k) then dst_at (redirect l (parking ms a l) ms) k
          else src_at (redirect l (parking ms a l) ms) k)) =
      take_bit (8 * operand_size (dst_at (redirect l (parking ms a l) ms) k)) (want k)"
      by (simp only: redirect_simps(3-5) [OF k])
  qed
  moreover have "keeps (redirect l (parking ms a l) ms) st0 st'"
    using keep other by (simp add: keeps_def)
  moreover have "wf_moves bk (redirect l (parking ms a l) ms)"
    using redirect_wf [OF wf pending_lt [OF l] _ m(2)] parking_scratch(1) by (simp add: p)
  ultimately show ?thesis using st'(1) by (simp add: copy_inv_def p)
qed


section \<open>The loop\<close>

text \<open>
  A round either makes two moves, or leaves the first destination of its cycle unread, so that
  the next peeling makes that move.
\<close>

lemma break_cycle_ok:
  assumes inv: "copy_inv bk want st0 ms st" and st: "stuck ms" and start: "start \<in> pending ms"
    and run: "run_moves code st1 = Some st"
    and step: "break_cycle ms (trace_cycle ms start [] start) code = (ms', code')"
  shows "\<exists>st'. run_moves code' st1 = Some st' \<and> copy_inv bk want st0 ms' st' \<and> pending ms' \<subseteq> pending ms \<and>
    (\<forall>k\<in>pending ms'. start \<in> pending ms' \<longrightarrow> \<not> reads_from ms' k start)"
proof -
  have wf: "wf_moves bk ms" using inv by (simp add: copy_inv_def)
  let ?c = "trace_cycle ms start [] start"
  have "path ms ([] @ [start])" using start by (simp add: path_def)
  then have c: "path ms ?c" "?c \<noteq> []" "hd ?c = start" "reads_from ms (last ?c) start"
    using trace_cycle_ok [OF wf st, of "[]" start start] by simp_all
  have c0: "?c ! 0 = start" using c by (simp add: hd_conv_nth)
  have lastp: "last ?c \<in> pending ms" using c(1,2) unfolding path_def by (meson last_in_set subsetD)
  show ?thesis
  proof (cases "length ?c = 2")
    case True
    define j where "j = ?c ! 1"
    have j: "j = last ?c" using True c(2) by (simp add: j_def last_conv_nth)
    have jp: "j \<in> pending ms" using lastp j by simp
    have r: "reads_from ms j start" "reads_from ms start j" "start \<noteq> j"
      using c True c0 j wf_movesD(5) [OF wf start] by (auto simp: path_def j_def reads_from_def)
    have diff: "\<not> same_loc (dst_at ms start) (dst_at ms j)"
      using wf_movesD(4) [OF wf pending_lt [OF start] pending_lt [OF jp]] r(3) by blast
    obtain st' where st': "run_moves (break_pair (ms ! start) (ms ! j)) st = Some st'" "swaps (ms ! start) (ms ! j) st st'"
      using break_pair_ok [OF stuck_not_parked(1) [OF wf st start] stuck_not_parked(1) [OF wf st jp] _ _ diff] r
      by (auto simp: reads_from_def)
    have ms': "ms' = set_done j (set_done start ms)" "code' = code @ break_pair (ms ! start) (ms ! j)"
      using step True by (auto simp: break_cycle_def c0 j_def)
    have fin: "finished {start, j} ms ms'"
      using finished_trans [OF finished_set_done finished_set_done, of start ms j] start jp pending_lt
      by (simp add: ms' insert_commute)
    have "copy_inv bk want st0 ms' st'"
    proof (rule copy_inv_finished [OF inv fin, where clobber = True])
      fix i k assume "i \<in> {start, j}" "k \<in> pending ms - {start, j}"
      then show "\<not> reads_from ms k i" using stuck_permutation(2) [OF wf st] start jp r by blast
    qed (use start jp st'(2) stuck_not_parked(2) [OF wf st] in \<open>auto simp: swaps_def scratch_op_iff\<close>)
    then show ?thesis using run st'(1) finished_pending [OF fin] by (auto simp: ms'(2) run_moves_append)
  next
    case False
    let ?sc = "parking ms start (last ?c)"
    have ms': "ms' = redirect (last ?c) ?sc ms" "code' = code @ emit_move ?sc (with_size (dst_at ms start) (operand_size ?sc))"
      using step False by (auto simp: break_cycle_def Let_def c0 redirect_def)
    obtain st' where st': "run_moves (emit_move ?sc (with_size (dst_at ms start) (operand_size ?sc))) st = Some st'"
        "copy_inv bk want st0 ms' st'"
      using park_ok [OF inv st start lastp c(4)] ms' by blast
    have "\<not> reads_from ms' k start" if "k \<in> pending ms" for k
    proof (cases "k = last ?c")
      case True
      then show ?thesis
        using not_scratch_location [OF wf_movesD(2) [OF wf pending_lt [OF start]]] same_loc_sym
          pending_lt [OF start] pending_lt [OF lastp] by (auto simp: ms' reads_from_def parking_def Let_def)
    next
      case False
      then have "\<not> reads_from ms k start" using stuck_permutation(2) [OF wf st start that lastp _ c(4)] by blast
      then show ?thesis using False pending_lt [OF start] pending_lt [OF that] by (simp add: ms' reads_from_def)
    qed
    then show ?thesis using run st' by (auto simp: ms' run_moves_append)
  qed
qed

lemma first_pending_iff: "first_pending ms = None \<longleftrightarrow> pending ms = {}" "first_pending ms = Some i \<Longrightarrow> i \<in> pending ms"
  by (auto simp: first_pending_def find_None_iff find_Some_iff pending_def)

lemma finished_reads: "finished D ms ms' \<Longrightarrow> i < length ms \<Longrightarrow> k < length ms \<Longrightarrow> reads_from ms' k i = reads_from ms k i"
  by (simp add: finished_def reads_from_def)

lemma map_dst: "map mv_dst (set_done i ms) = map mv_dst ms" "map mv_dst (redirect i sc ms) = map mv_dst ms"
  by (cases "i < length ms"; auto simp: set_done_def redirect_def nth_list_update intro!: nth_equalityI)+

lemma copy_loop_ok:
  assumes "copy_inv bk want st0 ms st" "run_moves code st1 = Some st"
  shows "\<exists>code' ms' st'. copy_loop ms code = Some code' \<and> run_moves code' st1 = Some st' \<and>
    copy_inv bk want st0 ms' st' \<and> pending ms' = {} \<and> map mv_dst ms' = map mv_dst ms"
  using assms
proof (induction "card (pending (fst (peel_all ms code)))" arbitrary: ms code st rule: less_induct)
  case less
  obtain ms2 code2 where peel: "peel_all ms code = (ms2, code2)" by fastforce
  obtain st2 D where 2: "run_moves code2 st1 = Some st2" "copy_inv bk want st0 ms2 st2" "finished D ms ms2" "stuck ms2"
    using peel_all_ok [OF peel less.prems(2,1)] by blast
  have dst2: "map mv_dst ms2 = map mv_dst ms" using 2(3) by (auto simp: finished_def intro: nth_equalityI)
  show ?case
  proof (cases "first_pending ms2")
    case None
    then show ?thesis using 2 dst2 first_pending_iff(1) [of ms2] peel by (subst copy_loop.simps) auto
  next
    case (Some start)
    note start = first_pending_iff(2) [OF Some]
    obtain ms3 code3 where step: "break_cycle ms2 (trace_cycle ms2 start [] start) code2 = (ms3, code3)" by fastforce
    obtain st3 where 3: "run_moves code3 st1 = Some st3" "copy_inv bk want st0 ms3 st3" "pending ms3 \<subseteq> pending ms2"
        "\<forall>k\<in>pending ms3. start \<in> pending ms3 \<longrightarrow> \<not> reads_from ms3 k start"
      using break_cycle_ok [OF 2(2,4) start 2(1) step] by blast
    have dst3: "map mv_dst ms3 = map mv_dst ms2"
      using step by (auto simp: break_cycle_def Let_def map_dst redirect_def [symmetric] split: if_splits)
    obtain ms4 code4 where peel3: "peel_all ms3 code3 = (ms4, code4)" by fastforce
    obtain D' where 4: "finished D' ms3 ms4" "stuck ms4" using peel_all_ok [OF peel3 3(1,2)] by blast
    have "pending ms4 \<subseteq> pending ms3" using finished_pending [OF 4(1)] by blast
    moreover have "start \<notin> pending ms4"
    proof
      assume s4: "start \<in> pending ms4"
      then obtain k where k: "k \<in> pending ms4" "reads_from ms4 k start" using 4(2) by (auto simp: stuck_def)
      have "start \<in> pending ms3" "k \<in> pending ms3" using s4 k(1) finished_pending [OF 4(1)] by auto
      then show False using k(2) 3(4) finished_reads [OF 4(1) pending_lt pending_lt] by blast
    qed
    ultimately have "pending ms4 \<subset> pending ms2" using 3(3) start by blast
    then have "card (pending (fst (peel_all ms3 code3))) < card (pending (fst (peel_all ms code)))"
      by (simp add: peel peel3 psubset_card_mono)
    from less.hyps [OF this 3(2,1)] show ?thesis
      using peel Some step dst2 dst3 by (subst copy_loop.simps) simp
  qed
qed


lemma copy_moves_map: "copy_moves ds us =
    map (\<lambda>(d, u). \<lparr>mv_dst = d, mv_src = u, mv_done = False\<rparr>) (filter (\<lambda>(d, u). \<not> same_loc d u) (zip ds us))"
proof -
  have "concat (map (\<lambda>(d, u). if \<not> same_loc d u then [\<lparr>mv_dst = d, mv_src = u, mv_done = False\<rparr>] else []) xs) =
    map (\<lambda>(d, u). \<lparr>mv_dst = d, mv_src = u, mv_done = False\<rparr>) (filter (\<lambda>(d, u). \<not> same_loc d u) xs)" for xs
    by (induction xs) auto
  then show ?thesis unfolding copy_moves_def by simp
qed

lemma copy_moves_at:
  assumes "k < length (copy_moves ds us)" "length ds = length us"
  obtains i where "i < length ds" "dst_at (copy_moves ds us) k = ds ! i" "src_at (copy_moves ds us) k = us ! i"
    "\<not> same_loc (ds ! i) (us ! i)"
proof -
  let ?f = "filter (\<lambda>(d, u). \<not> same_loc d u) (zip ds us)"
  have "?f ! k \<in> set ?f" using assms(1) unfolding copy_moves_map by (intro nth_mem) simp
  then obtain i where "i < length ds" "?f ! k = (ds ! i, us ! i)" "\<not> same_loc (ds ! i) (us ! i)"
    using assms(2) by (auto simp: set_zip)
  then show ?thesis using that assms(1) unfolding copy_moves_map by simp
qed

lemma copy_moves_pending: "pending (copy_moves ds us) = {..<length (copy_moves ds us)}"
  unfolding pending_def copy_moves_map by (auto split: prod.splits)

lemma copy_moves_distinct:
  assumes "copy_ok bk ds us" "i < length (copy_moves ds us)" "j < length (copy_moves ds us)" "i \<noteq> j"
  shows "\<not> same_loc (dst_at (copy_moves ds us) i) (dst_at (copy_moves ds us) j)"
proof -
  have "sorted_wrt (\<lambda>m m'. \<not> same_loc (fst m) (fst m')) (zip ds us)"
    using assms(1) by (auto simp: copy_ok_def sorted_wrt_iff_nth_less)
  then have "sorted_wrt (\<lambda>m m'. \<not> same_loc (mv_dst m) (mv_dst m')) (copy_moves ds us)"
    unfolding copy_moves_map sorted_wrt_map by (intro sorted_wrt_filter) (auto simp: case_prod_beta)
  then show ?thesis
    using assms(2-4) same_loc_sym by (metis linorder_neqE_nat sorted_wrt_iff_nth_less)
qed

lemma copy_moves_wf:
  assumes ok: "copy_ok bk ds us"
  shows "wf_moves bk (copy_moves ds us)"
proof -
  have len: "length ds = length us" using ok by (simp add: copy_ok_def)
  let ?ms = "copy_moves ds us"
  have mv: "move_ok bk (dst_at ?ms k) (src_at ?ms k)" "\<not> same_loc (dst_at ?ms k) (src_at ?ms k)"
    if "k < length ?ms" for k
    using copy_moves_at [OF that len] ok unfolding copy_ok_def by metis+
  have rb: "reads_back bk (dst_at ?ms i, src_at ?ms i) (dst_at ?ms j, src_at ?ms j)"
    if "i < length ?ms" "j < length ?ms" for i j
    using copy_moves_at [OF that(1) len] copy_moves_at [OF that(2) len] ok unfolding copy_ok_def by metis
  show ?thesis
    using mv rb move_okD(4,6,7) [OF mv(1)] copy_moves_distinct [OF ok] unfolding wf_moves_def copy_moves_pending
    by blast
qed

text \<open>
  C5.  The emission of a parallel copy whose moves keep to one register class and one size each,
  whose destinations are distinct and whose operands avoid the reserved registers returns, and
  its instructions perform all the moves at once: every destination gets, in the bytes of its
  size, what its source held before the copy, and no other location changes but the four
  reserved registers.  Where a scalar floating-point move goes from slot to slot, the value
  that move overwrites must be read back by slots only; the copies left out by this condition
  include the cycle for which the emission goes wrong.
\<close>

theorem parallel_copy_correct:
  assumes "copy_ok bk ds us"
  shows "\<exists>code st'. emit_parallel_copy ds us = Some code \<and> run_moves code st = Some st' \<and>
    (\<forall>i<length ds. take_bit (8 * operand_size (ds ! i)) (read_loc st' (ds ! i)) =
       take_bit (8 * operand_size (ds ! i)) (read_loc st (us ! i))) \<and>
    (\<forall>op. place op \<and> \<not> scratch_op op \<and> (\<forall>d\<in>set ds. \<not> same_loc d op) \<longrightarrow> read_loc st' op = read_loc st op)"
proof (cases "ds = []")
  case True
  then show ?thesis by (simp add: emit_parallel_copy_def)
next
  case False
  have len: "length ds = length us" using assms by (simp add: copy_ok_def)
  let ?ms = "copy_moves ds us"
  let ?want = "\<lambda>k. read_loc st (src_at ?ms k)"
  have "\<not> mv_done (?ms ! k)" if "k < length ?ms" for k
    using that copy_moves_pending [of ds us] by (auto simp: pending_def)
  then have "copy_inv bk ?want st ?ms st"
    using copy_moves_wf [OF assms] by (simp add: copy_inv_def holds_want_def keeps_def)
  from copy_loop_ok [OF this, of "[]" st] obtain code ms' st' where
      run: "emit_parallel_copy ds us = Some code" "run_moves code st = Some st'"
      and inv: "copy_inv bk ?want st ms' st'" "pending ms' = {}" "map mv_dst ms' = map mv_dst ?ms"
    using False len by (auto simp: emit_parallel_copy_def)
  have len': "length ms' = length ?ms" by (rule map_eq_imp_length_eq [OF inv(3)])
  have dst: "dst_at ms' k = dst_at ?ms k" if "k < length ?ms" for k
    using inv(3) that len' by (metis nth_map)
  have val: "take_bit (8 * operand_size (dst_at ?ms k)) (read_loc st' (dst_at ?ms k)) =
      take_bit (8 * operand_size (dst_at ?ms k)) (?want k)" if "k < length ?ms" for k
    using inv(1,2) that len' dst by (auto simp: copy_inv_def holds_want_def pending_def)
  have keep: "read_loc st' op = read_loc st op"
    if "place op" "\<not> scratch_op op" "\<forall>k<length ?ms. \<not> same_loc (dst_at ?ms k) op" for op
    using inv(1) that len' dst by (simp add: copy_inv_def keeps_def)
  have moved: "take_bit (8 * operand_size (ds ! i)) (read_loc st' (ds ! i)) = take_bit (8 * operand_size (ds ! i)) (read_loc st (us ! i))"
    if i: "i < length ds" for i
  proof (cases "same_loc (ds ! i) (us ! i)")
    case True
    have "\<not> same_loc (dst_at ?ms k) (ds ! i)" if "k < length ?ms" for k
      using copy_moves_at [OF that len] True i assms unfolding copy_ok_def by metis
    moreover have "place (ds ! i)" "\<not> scratch_op (ds ! i)"
      using assms i move_okD(4,6) [of bk "ds ! i" "us ! i"] by (auto simp: copy_ok_def)
    ultimately have "read_loc st' (ds ! i) = read_loc st (ds ! i)" using keep by blast
    then show ?thesis using same_loc_read [OF True] by simp
  next
    case False
    then have "\<lparr>mv_dst = ds ! i, mv_src = us ! i, mv_done = False\<rparr> \<in> set ?ms"
      using i len unfolding copy_moves_map by (force simp: set_zip)
    then obtain k where "k < length ?ms" "?ms ! k = \<lparr>mv_dst = ds ! i, mv_src = us ! i, mv_done = False\<rparr>"
      by (metis in_set_conv_nth)
    then show ?thesis using val [of k] by simp
  qed
  have "\<forall>k<length ?ms. \<exists>d\<in>set ds. dst_at ?ms k = d" using copy_moves_at [OF _ len] by (metis nth_mem)
  then show ?thesis using run moved keep by blast
qed


declare copy_loop.simps [code]

theorem parallel_copy_correct_witness:
  "copy_ok (\<lambda>s. s = 9) [op_preg_gpr RAX 8, O_SpillSlot 1 4, op_preg_gpr RCX 8, O_PReg (preg_xmm 2) 16, O_SpillSlot 2 8]
     [O_SpillSlot 1 8, op_preg_gpr RCX 4, op_preg_gpr RAX 8, O_SpillSlot 9 16, O_ImmInt 7 8] \<and>
   (\<exists>code st'. emit_parallel_copy
       [op_preg_gpr RAX 8, O_SpillSlot 1 4, op_preg_gpr RCX 8, O_PReg (preg_xmm 2) 16, O_SpillSlot 2 8]
       [O_SpillSlot 1 8, op_preg_gpr RCX 4, op_preg_gpr RAX 8, O_SpillSlot 9 16, O_ImmInt 7 8] = Some code \<and>
     run_moves code \<lparr>mv_gpr = ucast, mv_xmm = (\<lambda>_. 0), mv_slot = (\<lambda>_. 3)\<rparr> = Some st' \<and>
     take_bit 64 (read_loc st' (op_preg_gpr RAX 8)) = take_bit 64 3)"
proof -
  let ?ds = "[op_preg_gpr RAX 8, O_SpillSlot 1 4, op_preg_gpr RCX 8, O_PReg (preg_xmm 2) 16, O_SpillSlot 2 8]"
  let ?us = "[O_SpillSlot 1 8, op_preg_gpr RCX 4, op_preg_gpr RAX 8, O_SpillSlot 9 16, O_ImmInt 7 8]"
  have ok: "copy_ok (\<lambda>s. s = 9) ?ds ?us"
    by (auto simp: copy_ok_def less_Suc_eq move_ok_def ex_bool_eq plain_gpr_def plain_xmm_def preg_gpr_def preg_xmm_def
        op_preg_gpr_def RC_GPR_def RC_XMM_def gpr_sizes_def xmm_sizes_def reads_back_def scalar_slot_copy_def)
  then show ?thesis
    using parallel_copy_correct [OF ok, of "\<lparr>mv_gpr = ucast, mv_xmm = (\<lambda>_. 0), mv_slot = (\<lambda>_. 3)\<rparr>"]
    by (force simp: op_preg_gpr_def)
qed

text \<open>
  C33.  Three scalar floating-point moves that rotate two spill slots and a vector register: the
  value of the first slot is parked in a general register and read back as a vector register
  that does not exist, which the encoder writes as register 7, so the destination register gets
  the contents of \<open>xmm7\<close> instead of the slot's.
\<close>

theorem scalar_slot_cycle_reads_xmm7:
  "\<exists>code st'. emit_parallel_copy [O_SpillSlot 0 8, O_SpillSlot 1 8, O_PReg (preg_xmm 3) 8]
       [O_SpillSlot 1 8, O_PReg (preg_xmm 3) 8, O_SpillSlot 0 8] = Some code \<and>
     run_moves code st = Some st' \<and> take_bit 64 (mv_xmm st' 3) = take_bit 64 (mv_xmm st 7)"
proof -
  have "emit_parallel_copy [O_SpillSlot 0 8, O_SpillSlot 1 8, O_PReg (preg_xmm 3) 8]
       [O_SpillSlot 1 8, O_PReg (preg_xmm 3) 8, O_SpillSlot 0 8] = Some
     [Mov_rm 10 (Mem_At (O_SpillSlot 0 8) 0), Mov_rm 11 (Mem_At (O_SpillSlot 1 8) 0),
      Mov_mr (Mem_At (O_SpillSlot 0 8) 0) 11, Movsd_mr (Mem_At (O_SpillSlot 1 8) 0) 3, Movaps_rr 3 0xFF]"
    by code_simp
  moreover have "encoded 10 = 10" "encoded 11 = 11" "encoded 3 = 3" "encoded 0xFF = 7" by code_simp+
  ultimately show ?thesis by (simp add: set_gpr_def get_gpr_def set_xmm_def get_xmm_def)
qed

end
