(* ===== verification/Block_Liveness.thy ===== *)
theory Block_Liveness
  imports Mir_Ir "HOL-Library.Product_Lexorder"
begin

text \<open>
  The uses of an instruction (\<open>include/brass/mir/uses.hpp\<close>) and the values live into each block
  (\<open>src/mir/block_liveness.cpp\<close>): for every value, a backward walk over the predecessors from
  its uses to its definition.  Blocks are numbered by their position in the function, which is
  what the lookup by block id and its fallback compute; the order of \<open>Value*\<close> addresses, which
  fixes only the order inside a result, is the order of value numbers; block numbers and round
  stamps are not bounded by \<open>uint32_t\<close>.  The theorem shows that the walk ends and that its
  result is liveness as paths define it.
\<close>

section \<open>Uses\<close>

text \<open>The value slots of an instruction, null slots included, and the values it reads.\<close>

definition use_slots :: "Instruction \<Rightarrow> vid option list" where
  "use_slots inst =
     operands inst @ state_map inst @ bt_args (branch_target inst) @ bt_args (true_target inst) @
     bt_args (false_target inst) @ concat (map (\<lambda>(v, t). bt_args t) (switch_cases inst))"

definition for_each_use :: "Instruction \<Rightarrow> vid list" where
  "for_each_use inst = map the (filter (\<lambda>v. v \<noteq> None) (use_slots inst))"

definition uses_value :: "Instruction \<Rightarrow> vid option \<Rightarrow> bool" where
  "uses_value inst val = (case val of None \<Rightarrow> False | Some v \<Rightarrow> list_ex (\<lambda>u. u = v) (for_each_use inst))"

section \<open>Numbering\<close>

definition dense_blocks :: "Function \<Rightarrow> bid list" where
  "dense_blocks fn = foldl (\<lambda>bs b. if b \<in> set bs then bs else bs @ [b]) [] (fn_blocks fn)"

definition block_of :: "bid list \<Rightarrow> bid option \<Rightarrow> nat option" where
  "block_of blocks bb = (case bb of None \<Rightarrow> None | Some b \<Rightarrow> List.find (\<lambda>i. blocks ! i = b) [0..<length blocks])"

definition defining_bid :: "value_table \<Rightarrow> vid \<Rightarrow> bid option" where
  "defining_bid vt v =
     (if val_kind (vt v) = BlockParam then def_block (vt v)
      else if def_inst (vt v) \<noteq> None then def_block (vt v) else None)"

abbreviation def_index :: "value_table \<Rightarrow> bid list \<Rightarrow> vid \<Rightarrow> nat option" where
  "def_index vt blocks v \<equiv> block_of blocks (defining_bid vt v)"

section \<open>Predecessors and uses\<close>

definition add_pred :: "bid list \<Rightarrow> nat \<Rightarrow> nat list list \<Rightarrow> bid \<Rightarrow> nat list list" where
  "add_pred blocks b preds s =
     (case block_of blocks (Some s) of None \<Rightarrow> preds | Some si \<Rightarrow> preds[si := preds ! si @ [b]])"

definition dense_preds :: "Function \<Rightarrow> bid list \<Rightarrow> nat list list" where
  "dense_preds fn blocks =
     foldl (\<lambda>preds b. foldl (add_pred blocks b) preds (elems (successors (fn_block fn (blocks ! b)))))
       (replicate (length blocks) []) [0..<length blocks]"

definition exposed_uses :: "value_table \<Rightarrow> Function \<Rightarrow> bid list \<Rightarrow> (vid \<times> nat) list" where
  "exposed_uses vt fn blocks =
     concat (map (\<lambda>b. map (\<lambda>v. (v, b)) (filter (\<lambda>v. def_index vt blocks v \<noteq> Some b)
       (concat (map for_each_use (insts (fn_block fn (blocks ! b))))))) [0..<length blocks])"

definition wanted_flags :: "bid list \<Rightarrow> bid list \<Rightarrow> bool list" where
  "wanted_flags blocks tgts =
     foldl (\<lambda>w t. case block_of blocks (Some t) of None \<Rightarrow> w | Some ti \<Rightarrow> w[ti := True])
       (replicate (length blocks) False) tgts"

section \<open>The walk\<close>

record live_state =
  stamp :: "nat list"
  live_sets :: "vid list list"
  work :: "nat list"

text \<open>\<open>wanted\<close> answers \<open>!targets || wanted[b]\<close>.\<close>

definition mark :: "(nat \<Rightarrow> bool) \<Rightarrow> vid \<Rightarrow> nat \<Rightarrow> nat \<Rightarrow> live_state \<Rightarrow> live_state" where
  "mark wanted v round b st =
     (if stamp st ! b = round then st
      else st\<lparr>stamp := (stamp st)[b := round],
              live_sets := (if wanted b then (live_sets st)[b := live_sets st ! b @ [v]] else live_sets st),
              work := work st @ [b]\<rparr>)"

partial_function (option) drain :: "(nat \<Rightarrow> bool) \<Rightarrow> nat list list \<Rightarrow> nat option \<Rightarrow> vid \<Rightarrow> nat \<Rightarrow> live_state \<Rightarrow> live_state option" where
  "drain wanted preds def v round st =
     (if work st = [] then Some st
      else
        let b = last (work st);
            st = st\<lparr>work := butlast (work st)\<rparr>
        in drain wanted preds def v round
             (foldl (\<lambda>st p. if Some p \<noteq> def then mark wanted v round p st else st) st (preds ! b)))"

declare drain.simps [code]

text \<open>The outer loop over the sorted uses: one round per value.\<close>

function rounds :: "value_table \<Rightarrow> bid list \<Rightarrow> (nat \<Rightarrow> bool) \<Rightarrow> nat list list \<Rightarrow> (vid \<times> nat) list \<Rightarrow> nat \<Rightarrow> live_state \<Rightarrow> live_state option" where
  "rounds vt blocks wanted preds [] round st = Some st"
| "rounds vt blocks wanted preds ((v, b) # uses) round st =
     (let round = round + 1;
          here = (v, b) # takeWhile (\<lambda>u. fst u = v) uses;
          st = foldl (\<lambda>st u. mark wanted v round (snd u) st) st here
      in case drain wanted preds (def_index vt blocks v) v round st of
           None \<Rightarrow> None
         | Some st \<Rightarrow> rounds vt blocks wanted preds (dropWhile (\<lambda>u. fst u = v) uses) round st)"
  by pat_completeness auto
termination
  by (relation "measure (\<lambda>(_, _, _, _, uses, _, _). length uses)") (auto simp: le_imp_less_Suc length_dropWhile_le)

definition compute_live_ins :: "value_table \<Rightarrow> Function \<Rightarrow> bid list option \<Rightarrow> (bid \<rightharpoonup> vid list) option" where
  "compute_live_ins vt fn tgts =
     (let blocks = dense_blocks fn;
          n = length blocks;
          preds = dense_preds fn blocks;
          uses = sort (exposed_uses vt fn blocks);
          wanted = (case tgts of None \<Rightarrow> (\<lambda>b. True) | Some ts \<Rightarrow> (\<lambda>b. wanted_flags blocks ts ! b))
      in map_option (\<lambda>st. map_of [(blocks ! b, live_sets st ! b). b \<leftarrow> [0..<n], wanted b])
           (rounds vt blocks wanted preds uses 0
              \<lparr>stamp = replicate n 0, live_sets = replicate n [], work = []\<rparr>))"


section \<open>One value\<close>

text \<open>The blocks reached backwards from \<open>U\<close>, not into the definition.\<close>

inductive_set back_reach :: "nat list list \<Rightarrow> nat option \<Rightarrow> nat set \<Rightarrow> nat set"
  for preds :: "nat list list" and def :: "nat option" and U :: "nat set" where
  seed: "b \<in> U \<Longrightarrow> b \<in> back_reach preds def U"
| pred: "b \<in> back_reach preds def U \<Longrightarrow> p \<in> set (preds ! b) \<Longrightarrow> Some p \<noteq> def \<Longrightarrow> p \<in> back_reach preds def U"

definition marked :: "nat \<Rightarrow> live_state \<Rightarrow> nat set" where
  "marked round st = {b. b < length (stamp st) \<and> stamp st ! b = round}"

definition unmarked :: "nat \<Rightarrow> live_state \<Rightarrow> nat" where
  "unmarked round st = card ({..<length (stamp st)} - marked round st)"

text \<open>What a round keeps: the marked blocks have got the value, the work list is marked.\<close>

definition round_inv :: "nat \<Rightarrow> (nat \<Rightarrow> bool) \<Rightarrow> vid \<Rightarrow> nat \<Rightarrow> vid list list \<Rightarrow> live_state \<Rightarrow> bool" where
  "round_inv n wanted v round sets st \<longleftrightarrow> length (stamp st) = n \<and> length (live_sets st) = n \<and>
     set (work st) \<subseteq> marked round st \<and> (\<forall>b<n. stamp st ! b \<le> round) \<and>
     (\<forall>b<n. live_sets st ! b = sets ! b @ (if b \<in> marked round st \<and> wanted b then [v] else []))"

lemma finite_marked [simp]: "finite (marked round st)"
  by (simp add: marked_def)

lemma mark_round:
  assumes "round_inv n wanted v round sets st" "b < n"
  shows "round_inv n wanted v round sets (mark wanted v round b st)"
    "marked round (mark wanted v round b st) = insert b (marked round st)"
    "set (work (mark wanted v round b st)) = set (work st) \<union> ({b} - marked round st)"
    "2 * unmarked round (mark wanted v round b st) + length (work (mark wanted v round b st))
       \<le> 2 * unmarked round st + length (work st)"
proof -
  let ?st = "mark wanted v round b st"
  have len: "length (stamp st) = n" "length (live_sets st) = n" using assms(1) by (simp_all add: round_inv_def)
  have sub: "set (work st) \<subseteq> marked round st" and
    old: "\<And>c. c < n \<Longrightarrow> live_sets st ! c = sets ! c @ (if c \<in> marked round st \<and> wanted c then [v] else [])"
    using assms(1) by (auto simp: round_inv_def)
  show m: "marked round ?st = insert b (marked round st)"
    using assms(2) len by (auto simp: marked_def mark_def nth_list_update)
  show w: "set (work ?st) = set (work st) \<union> ({b} - marked round st)"
    using assms(2) len by (auto simp: marked_def mark_def)
  have "live_sets ?st ! c = sets ! c @ (if c \<in> marked round ?st \<and> wanted c then [v] else [])" if "c < n" for c
    using old [OF that] that assms(2) len unfolding m
    by (auto simp: mark_def marked_def nth_list_update)
  moreover have "length (stamp ?st) = n" "length (live_sets ?st) = n" using len by (auto simp: mark_def)
  moreover have "\<forall>c<n. stamp ?st ! c \<le> round"
    using assms len by (auto simp: round_inv_def mark_def nth_list_update)
  ultimately show "round_inv n wanted v round sets ?st"
    using sub unfolding round_inv_def m w by blast
  show "2 * unmarked round ?st + length (work ?st) \<le> 2 * unmarked round st + length (work st)"
  proof (cases "b \<in> marked round st")
    case True
    then show ?thesis using assms(2) len by (simp add: mark_def marked_def unmarked_def)
  next
    case False
    have l: "length (stamp ?st) = n" using len by (auto simp: mark_def)
    have "{..<n} - marked round st = insert b ({..<n} - marked round ?st)"
      using False assms(2) unfolding m by auto
    moreover have "b \<notin> {..<n} - marked round ?st" unfolding m by blast
    ultimately have "card ({..<n} - marked round st) = Suc (card ({..<n} - marked round ?st))"
      by (metis card_insert_disjoint finite_Diff finite_lessThan)
    then have "unmarked round st = Suc (unmarked round ?st)"
      unfolding unmarked_def l len .
    moreover have "length (work ?st) = Suc (length (work st))"
      using False assms(2) len by (auto simp: mark_def marked_def)
    ultimately show ?thesis by simp
  qed
qed

lemma mark_list:
  assumes "round_inv n wanted v round sets st" "set bs \<subseteq> {..<n}"
  shows "round_inv n wanted v round sets (foldl (\<lambda>st b. mark wanted v round b st) st bs) \<and>
    marked round (foldl (\<lambda>st b. mark wanted v round b st) st bs) = marked round st \<union> set bs \<and>
    set (work (foldl (\<lambda>st b. mark wanted v round b st) st bs)) = set (work st) \<union> (set bs - marked round st) \<and>
    2 * unmarked round (foldl (\<lambda>st b. mark wanted v round b st) st bs) +
      length (work (foldl (\<lambda>st b. mark wanted v round b st) st bs)) \<le> 2 * unmarked round st + length (work st)"
  using assms
proof (induction bs arbitrary: st)
  case (Cons b bs)
  have b: "b < n" using Cons.prems(2) by simp
  note m = mark_round [OF Cons.prems(1) b]
  have "set bs \<subseteq> {..<n}" using Cons.prems(2) by simp
  from Cons.IH [OF m(1) this] show ?case using m by (auto simp: m(2,3))
qed simp

lemma foldl_filter: "foldl (\<lambda>st p. if P p then f st p else st) st ps = foldl f st (filter P ps)"
  by (induction ps arbitrary: st) auto

definition closed_but_work :: "nat list list \<Rightarrow> nat option \<Rightarrow> nat \<Rightarrow> live_state \<Rightarrow> bool" where
  "closed_but_work preds def round st \<longleftrightarrow>
     (\<forall>b \<in> marked round st - set (work st). \<forall>p \<in> set (preds ! b). Some p \<noteq> def \<longrightarrow> p \<in> marked round st)"

lemma drain_ok:
  assumes "round_inv n wanted v round sets st" "closed_but_work preds def round st"
    and "\<forall>b<n. set (preds ! b) \<subseteq> {..<n}" "marked round st \<subseteq> back_reach preds def U"
  shows "\<exists>st'. drain wanted preds def v round st = Some st' \<and> round_inv n wanted v round sets st' \<and>
    closed_but_work preds def round st' \<and> work st' = [] \<and> marked round st \<subseteq> marked round st' \<and>
    marked round st' \<subseteq> back_reach preds def U"
  using assms
proof (induction "2 * unmarked round st + length (work st)" arbitrary: st rule: less_induct)
  case less
  show ?case
  proof (cases "work st = []")
    case True
    then show ?thesis using less.prems by (subst drain.simps) simp
  next
    case False
    define b where "b = last (work st)"
    define st1 where "st1 = st\<lparr>work := butlast (work st)\<rparr>"
    let ?ps = "filter (\<lambda>p. Some p \<noteq> def) (preds ! b)"
    define st2 where "st2 = foldl (\<lambda>st p. mark wanted v round p st) st1 ?ps"
    have bm: "b \<in> marked round st" using False less.prems(1) by (auto simp: b_def round_inv_def)
    then have bn: "b < n" using less.prems(1) by (simp add: marked_def round_inv_def)
    have m1: "marked round st1 = marked round st" "unmarked round st1 = unmarked round st" "work st1 = butlast (work st)"
      by (simp_all add: st1_def marked_def unmarked_def)
    have i1: "round_inv n wanted v round sets st1"
      using less.prems(1) m1(1) by (auto simp: round_inv_def st1_def dest: in_set_butlastD)
    have "set ?ps \<subseteq> {..<n}" using less.prems(3) bn by auto
    from mark_list [OF i1 this, folded st2_def, unfolded m1] have i2: "round_inv n wanted v round sets st2"
        and m2: "marked round st2 = marked round st \<union> set ?ps"
        and w2: "set (work st2) = set (butlast (work st)) \<union> (set ?ps - marked round st)"
        and d2: "2 * unmarked round st2 + length (work st2) \<le> 2 * unmarked round st + length (butlast (work st))"
      by blast+
    have "length (butlast (work st)) < length (work st)" using False by simp
    then have dec: "2 * unmarked round st2 + length (work st2) < 2 * unmarked round st + length (work st)" using d2 by linarith
    have wb: "set (work st) = insert b (set (butlast (work st)))"
    proof -
      have "set (work st) = set (butlast (work st) @ [b])" using False by (simp add: b_def)
      then show ?thesis by simp
    qed
    have c2: "closed_but_work preds def round st2"
      unfolding closed_but_work_def
    proof (intro ballI impI)
      fix x p assume x: "x \<in> marked round st2 - set (work st2)" and p: "p \<in> set (preds ! x)" "Some p \<noteq> def"
      then have xm: "x \<in> marked round st" "x \<notin> set (butlast (work st))" unfolding m2 w2 by blast+
      show "p \<in> marked round st2"
      proof (cases "x = b")
        case True
        then show ?thesis using p unfolding m2 by simp
      next
        case False
        then have "x \<in> marked round st - set (work st)" using xm wb by blast
        then show ?thesis using less.prems(2) p unfolding closed_but_work_def m2 by blast
      qed
    qed
    have r2: "marked round st2 \<subseteq> back_reach preds def U"
      using less.prems(4) bm unfolding m2 by (auto intro: back_reach.pred)
    have "drain wanted preds def v round st = drain wanted preds def v round st2"
      using False by (subst drain.simps) (simp add: st2_def st1_def b_def foldl_filter)
    then show ?thesis using less.hyps [OF dec i2 c2 less.prems(3) r2] m2 by auto
  qed
qed


lemma closed_reach:
  assumes "closed_but_work preds def round st" "work st = []" "U \<subseteq> marked round st"
  shows "back_reach preds def U \<subseteq> marked round st"
proof
  fix b assume "b \<in> back_reach preds def U"
  then show "b \<in> marked round st"
    using assms by induction (auto simp: closed_but_work_def)
qed

text \<open>One round: the value is added to the blocks reached from its uses, and to no other.\<close>

lemma walk_round_ok:
  assumes "length (stamp st) = n" "length (live_sets st) = n" "work st = []" "\<forall>b<n. stamp st ! b < round"
    and "set bs \<subseteq> {..<n}" "\<forall>b<n. set (preds ! b) \<subseteq> {..<n}"
  shows "\<exists>st'. drain wanted preds def v round (foldl (\<lambda>st b. mark wanted v round b st) st bs) = Some st' \<and>
    length (stamp st') = n \<and> length (live_sets st') = n \<and> work st' = [] \<and>
    (\<forall>b<n. stamp st' ! b \<le> round) \<and>
    (\<forall>b<n. live_sets st' ! b = live_sets st ! b @ (if b \<in> back_reach preds def (set bs) \<and> wanted b then [v] else []))"
proof -
  let ?st = "foldl (\<lambda>st b. mark wanted v round b st) st bs"
  let ?U = "set bs"
  have m: "marked round st = {}" using assms(1,4) by (auto simp: marked_def)
  have i: "round_inv n wanted v round (live_sets st) st"
    using assms(1-4) m by (auto simp: round_inv_def)
  have i1: "round_inv n wanted v round (live_sets st) ?st" "marked round ?st = ?U" "set (work ?st) = ?U"
    using mark_list [OF i assms(5)] m assms(3) by auto
  have c: "closed_but_work preds def round ?st" by (simp add: closed_but_work_def i1)
  have r: "marked round ?st \<subseteq> back_reach preds def ?U" using i1(2) by (auto intro: back_reach.seed)
  obtain st' where st': "drain wanted preds def v round ?st = Some st'" "round_inv n wanted v round (live_sets st) st'"
      "closed_but_work preds def round st'" "work st' = []" "marked round ?st \<subseteq> marked round st'"
      "marked round st' \<subseteq> back_reach preds def ?U"
    using drain_ok [OF i1(1) c assms(6) r] by blast
  have "marked round st' = back_reach preds def ?U"
    using st'(5,6) closed_reach [OF st'(3,4)] i1(2) by blast
  then show ?thesis using st'(1,2,4) by (auto simp: round_inv_def)
qed

definition seeds :: "vid \<Rightarrow> (vid \<times> nat) list \<Rightarrow> nat set" where
  "seeds v uses = {b. (v, b) \<in> set uses}"

lemma back_reach_empty [simp]: "back_reach preds d {} = {}"
proof -
  have False if "b \<in> back_reach preds d {}" for b
    using that by induction auto
  then show ?thesis by blast
qed

lemma seeds_Nil [simp]: "seeds v [] = {}"
  by (simp add: seeds_def)

lemma walk_rounds_ok:
  assumes "length (stamp st) = n" "length (live_sets st) = n" "work st = []" "\<forall>b<n. stamp st ! b \<le> round"
    and "sorted uses" "snd ` set uses \<subseteq> {..<n}" "\<forall>b<n. set (preds ! b) \<subseteq> {..<n}"
    and "\<forall>b<n. distinct (live_sets st ! b) \<and> set (live_sets st ! b) \<inter> fst ` set uses = {}"
  shows "\<exists>st'. rounds vt blocks wanted preds uses round st = Some st' \<and>
    (\<forall>b<n. distinct (live_sets st' ! b) \<and> set (live_sets st' ! b) = set (live_sets st ! b) \<union>
       {v. wanted b \<and> b \<in> back_reach preds (def_index vt blocks v) (seeds v uses)})"
  using assms
proof (induction vt blocks wanted preds uses round st rule: rounds.induct)
  case (1 vt blocks wanted preds round st)
  then show ?case by simp
next
  case (2 vt blocks wanted preds v b uses round st)
  let ?here = "(v, b) # takeWhile (\<lambda>u. fst u = v) uses"
  let ?rest = "dropWhile (\<lambda>u. fst u = v) uses"
  let ?bs = "map snd ?here"
  have here: "set ?bs \<subseteq> {..<n}" using "2.prems"(6) by (auto dest: set_takeWhileD)
  have lt: "\<forall>b<n. stamp st ! b < round + 1" using "2.prems"(4) by (simp add: less_Suc_eq_le)
  from walk_round_ok [OF "2.prems"(1-3) lt here "2.prems"(7), of wanted "def_index vt blocks v" v]
  obtain st' where st': "drain wanted preds (def_index vt blocks v) v (round + 1)
        (foldl (\<lambda>st u. mark wanted v (round + 1) (snd u) st) st ?here) = Some st'"
      "length (stamp st') = n" "length (live_sets st') = n" "work st' = []" "\<forall>b<n. stamp st' ! b \<le> round + 1"
      and sets: "\<And>c. c < n \<Longrightarrow> live_sets st' ! c =
        live_sets st ! c @ (if c \<in> back_reach preds (def_index vt blocks v) (set ?bs) \<and> wanted c then [v] else [])"
    by (auto simp: foldl_map)
  have srt: "sorted ?rest" using "2.prems"(5) by (simp add: sorted_wrt_dropWhile)
  have later: "fst u \<noteq> v" if "u \<in> set ?rest" for u
  proof -
    have s: "sorted ?rest" "\<forall>u \<in> set uses. (v, b) \<le> u" using srt "2.prems"(5) by simp_all
    have "?rest \<noteq> []"
    proof
      assume "?rest = []"
      then have "set ?rest = {}" by (simp only: list.set)
      with that show False by (simp only: empty_iff)
    qed
    then obtain x xs where x: "?rest = x # xs" by (meson neq_Nil_conv)
    then have "fst x \<noteq> v" using hd_dropWhile [of "\<lambda>u. fst u = v" uses] by auto
    moreover have "x \<in> set uses" using x by (metis list.set_intros(1) set_dropWhileD)
    ultimately have "v < fst x" using s(2) by (fastforce simp: less_eq_prod_def)
    moreover have "x \<le> u" using s(1) that x by auto
    ultimately show ?thesis by (auto simp: less_eq_prod_def)
  qed
  have split: "set uses = set (takeWhile (\<lambda>u. fst u = v) uses) \<union> set ?rest"
    using takeWhile_dropWhile_id [of "\<lambda>u. fst u = v" uses] by (metis set_append)
  have first: "fst u = v" if "u \<in> set (takeWhile (\<lambda>u. fst u = v) uses)" for u
    using set_takeWhileD [OF that] by blast
  have su: "seeds v ((v, b) # uses) = set ?bs"
  proof (intro set_eqI iffI)
    fix c assume "c \<in> seeds v ((v, b) # uses)"
    then consider "c = b" | "(v, c) \<in> set uses" by (auto simp: seeds_def)
    then have "(v, c) \<in> set ?here"
    proof cases
      case 2
      moreover have "(v, c) \<notin> set ?rest" using later [of "(v, c)"] by auto
      ultimately have "(v, c) \<in> set (takeWhile (\<lambda>u. fst u = v) uses)" using split by blast
      then show ?thesis by simp
    qed simp
    then have "snd (v, c) \<in> snd ` set ?here" by (rule imageI)
    then show "c \<in> set ?bs" by simp
  next
    fix c assume "c \<in> set ?bs"
    then obtain u where u: "u \<in> set ?here" "snd u = c" unfolding set_map by (rule imageE) blast
    then have "u = (v, c)" using first [of u] by (cases u) (auto dest: first)
    then show "c \<in> seeds v ((v, b) # uses)" using u(1) split by (auto simp: seeds_def)
  qed
  have so: "seeds w ((v, b) # uses) = seeds w ?rest" if "w \<noteq> v" for w
  proof -
    have "(w, c) \<notin> set (takeWhile (\<lambda>u. fst u = v) uses)" for c using first [of "(w, c)"] that by auto
    then show ?thesis using that split by (auto simp: seeds_def)
  qed
  have none: "back_reach preds d (seeds v ?rest) = {}" for d
  proof -
    have "(v, c) \<notin> set ?rest" for c by (metis later fst_conv)
    then have "seeds v ?rest = {}" by (simp only: seeds_def) simp
    then show ?thesis by (simp only: back_reach_empty)
  qed
  have dis: "\<forall>c<n. distinct (live_sets st' ! c) \<and> set (live_sets st' ! c) \<inter> fst ` set ?rest = {}"
  proof (intro allI impI)
    fix c assume c: "c < n"
    have "distinct (live_sets st ! c)" "set (live_sets st ! c) \<inter> fst ` set ((v, b) # uses) = {}"
      using "2.prems"(8) c by simp_all
    moreover have "v \<notin> fst ` set ?rest" using later by (metis imageE)
    moreover have "fst ` set ?rest \<subseteq> fst ` set ((v, b) # uses)" using split by auto
    ultimately show "distinct (live_sets st' ! c) \<and> set (live_sets st' ! c) \<inter> fst ` set ?rest = {}"
      unfolding sets [OF c] by (cases "c \<in> back_reach preds (def_index vt blocks v) (set ?bs) \<and> wanted c") auto
  qed
  have sn: "snd ` set ?rest \<subseteq> {..<n}" using "2.prems"(6) by (auto dest: set_dropWhileD)
  obtain st'' where r: "rounds vt blocks wanted preds ?rest (round + 1) st' = Some st''"
      and fin: "\<And>c. c < n \<Longrightarrow> distinct (live_sets st'' ! c) \<and> set (live_sets st'' ! c) = set (live_sets st' ! c) \<union>
        {w. wanted c \<and> c \<in> back_reach preds (def_index vt blocks w) (seeds w ?rest)}"
    using "2.IH" [OF refl refl refl st'(1)] st'(2-5) srt sn "2.prems"(7) dis by auto
  have "set (live_sets st'' ! c) = set (live_sets st ! c) \<union>
      {w. wanted c \<and> c \<in> back_reach preds (def_index vt blocks w) (seeds w ((v, b) # uses))}" if "c < n" for c
  proof -
    have "{w. wanted c \<and> c \<in> back_reach preds (def_index vt blocks w) (seeds w ((v, b) # uses))} =
      (if c \<in> back_reach preds (def_index vt blocks v) (set ?bs) \<and> wanted c then {v} else {}) \<union>
      {w. wanted c \<and> c \<in> back_reach preds (def_index vt blocks w) (seeds w ?rest)}"
    proof (intro set_eqI)
      fix w
      show "w \<in> {w. wanted c \<and> c \<in> back_reach preds (def_index vt blocks w) (seeds w ((v, b) # uses))} \<longleftrightarrow>
        w \<in> (if c \<in> back_reach preds (def_index vt blocks v) (set ?bs) \<and> wanted c then {v} else {}) \<union>
          {w. wanted c \<and> c \<in> back_reach preds (def_index vt blocks w) (seeds w ?rest)}"
      proof (cases "w = v")
        case True
        show ?thesis unfolding True by (simp only: mem_Collect_eq Un_iff su none) auto
      next
        case False
        then show ?thesis by (simp only: mem_Collect_eq Un_iff so [OF False]) auto
      qed
    qed
    then show ?thesis using fin [OF that] sets [OF that] by auto
  qed
  then show ?case using r st'(1) fin by simp
qed

section \<open>Liveness by paths\<close>

text \<open>
  A value is live at the entry of a block of the function when the block does not define it and
  either uses it or has a successor where it is live.
\<close>

inductive live_at_entry :: "value_table \<Rightarrow> Function \<Rightarrow> vid \<Rightarrow> bid \<Rightarrow> bool" for vt fn v where
  used: "b \<in> set (fn_blocks fn) \<Longrightarrow> inst \<in> set (insts (fn_block fn b)) \<Longrightarrow> uses_value inst (Some v) \<Longrightarrow>
    defining_bid vt v \<noteq> Some b \<Longrightarrow> live_at_entry vt fn v b"
| succ: "live_at_entry vt fn v s \<Longrightarrow> b \<in> set (fn_blocks fn) \<Longrightarrow> s \<in> set (elems (successors (fn_block fn b))) \<Longrightarrow>
    defining_bid vt v \<noteq> Some b \<Longrightarrow> live_at_entry vt fn v b"

lemma live_in_function: "live_at_entry vt fn v b \<Longrightarrow> b \<in> set (fn_blocks fn)"
  by (induction rule: live_at_entry.induct)

lemma uses_value_iff: "uses_value inst (Some v) \<longleftrightarrow> v \<in> set (for_each_use inst)"
  by (auto simp: uses_value_def list_ex_iff)

lemma dense_distinct: "distinct (dense_blocks fn)"
  and dense_set: "set (dense_blocks fn) = set (fn_blocks fn)"
proof -
  have "(distinct bs \<longrightarrow> distinct (foldl (\<lambda>bs b. if b \<in> set bs then bs else bs @ [b]) bs xs)) \<and>
    set (foldl (\<lambda>bs b. if b \<in> set bs then bs else bs @ [b]) bs xs) = set bs \<union> set xs" for bs xs :: "bid list"
    by (induction xs arbitrary: bs) auto
  from this [of "[]" "fn_blocks fn"] show "distinct (dense_blocks fn)" "set (dense_blocks fn) = set (fn_blocks fn)"
    by (simp_all add: dense_blocks_def)
qed

lemma block_of_iff:
  assumes "distinct bs"
  shows "block_of bs bb = Some i \<longleftrightarrow> i < length bs \<and> bb = Some (bs ! i)"
proof (cases bb)
  case (Some b)
  have "List.find (\<lambda>i. bs ! i = b) [0..<length bs] = Some i \<longleftrightarrow> i < length bs \<and> b = bs ! i"
    using assms by (auto simp: find_Some_iff nth_eq_iff_index_eq)
  then show ?thesis by (auto simp: block_of_def Some)
qed (simp add: block_of_def)

lemma add_preds:
  assumes "distinct bs" "length preds = length bs"
  shows "length (foldl (add_pred bs b) preds ss) = length bs \<and> (\<forall>i < length bs.
    set (foldl (add_pred bs b) preds ss ! i) = set (preds ! i) \<union> (if bs ! i \<in> set ss then {b} else {}))"
  using assms(2)
proof (induction ss arbitrary: preds)
  case (Cons s ss)
  have l: "length (add_pred bs b preds s) = length bs"
    using Cons.prems by (simp add: add_pred_def split: option.split)
  have "set (add_pred bs b preds s ! i) = set (preds ! i) \<union> (if bs ! i = s then {b} else {})" if "i < length bs" for i
  proof (cases "block_of bs (Some s)")
    case None
    have "bs ! i \<noteq> s" using block_of_iff [OF assms(1), of "Some s" i] None that by auto
    then show ?thesis by (simp add: add_pred_def None)
  next
    case (Some j)
    then have "j < length bs" "bs ! i = s \<longleftrightarrow> i = j"
      using block_of_iff [OF assms(1)] assms(1) that by (auto simp: nth_eq_iff_index_eq)
    then show ?thesis using that Cons.prems by (simp add: add_pred_def Some nth_list_update)
  qed
  then show ?case using Cons.IH [OF l] by auto
qed simp

lemma dense_preds_spec:
  assumes "distinct bs"
  shows "length (dense_preds fn bs) = length bs"
    and "i < length bs \<Longrightarrow> p \<in> set (dense_preds fn bs ! i) \<longleftrightarrow>
      p < length bs \<and> bs ! i \<in> set (elems (successors (fn_block fn (bs ! p))))"
proof -
  let ?step = "\<lambda>preds b. foldl (add_pred bs b) preds (elems (successors (fn_block fn (bs ! b))))"
  have "length preds = length bs \<Longrightarrow> length (foldl ?step preds js) = length bs \<and> (\<forall>i < length bs.
    set (foldl ?step preds js ! i) = set (preds ! i) \<union> {p \<in> set js. bs ! i \<in> set (elems (successors (fn_block fn (bs ! p))))})"
    for preds js
  proof (induction js arbitrary: preds)
    case (Cons j js)
    show ?case using Cons.IH [of "?step preds j"] add_preds [OF assms Cons.prems] by auto
  qed simp
  from this [of "replicate (length bs) []" "[0..<length bs]"] show "length (dense_preds fn bs) = length bs"
    and "i < length bs \<Longrightarrow> p \<in> set (dense_preds fn bs ! i) \<longleftrightarrow>
      p < length bs \<and> bs ! i \<in> set (elems (successors (fn_block fn (bs ! p))))"
    by (auto simp: dense_preds_def)
qed

lemma exposed_uses_iff:
  "(v, b) \<in> set (exposed_uses vt fn bs) \<longleftrightarrow>
     b < length bs \<and> def_index vt bs v \<noteq> Some b \<and> (\<exists>inst \<in> set (insts (fn_block fn (bs ! b))). uses_value inst (Some v))"
  by (fastforce simp: exposed_uses_def uses_value_iff image_iff)

lemma wanted_flags_iff:
  assumes "distinct bs" "i < length bs"
  shows "wanted_flags bs ts ! i \<longleftrightarrow> bs ! i \<in> set ts"
proof -
  have "length w = length bs \<Longrightarrow>
    foldl (\<lambda>w t. case block_of bs (Some t) of None \<Rightarrow> w | Some ti \<Rightarrow> w[ti := True]) w ts ! i \<longleftrightarrow>
      w ! i \<or> bs ! i \<in> set ts" for w
  proof (induction ts arbitrary: w)
    case (Cons t ts)
    show ?case
    proof (cases "block_of bs (Some t)")
      case None
      then have "bs ! i \<noteq> t" using block_of_iff [OF assms(1), of "Some t" i] assms(2) by auto
      then show ?thesis using Cons by (simp add: None)
    next
      case (Some j)
      then have "j < length bs" "bs ! i = t \<longleftrightarrow> i = j"
        using block_of_iff [OF assms(1)] assms by (auto simp: nth_eq_iff_index_eq)
      then show ?thesis using Cons by (auto simp: Some nth_list_update)
    qed
  qed simp
  from this [of "replicate (length bs) False"] assms(2) show ?thesis by (simp add: wanted_flags_def)
qed

text \<open>The dense walk computes liveness by paths.\<close>

lemma reach_live:
  assumes "distinct bs" "set bs = set (fn_blocks fn)" "i < length bs"
  shows "i \<in> back_reach (dense_preds fn bs) (def_index vt bs v) (seeds v (exposed_uses vt fn bs)) \<longleftrightarrow>
    live_at_entry vt fn v (bs ! i)"
proof
  note def_iff = block_of_iff [OF assms(1)]
  assume "i \<in> back_reach (dense_preds fn bs) (def_index vt bs v) (seeds v (exposed_uses vt fn bs))"
  then have "i < length bs \<and> live_at_entry vt fn v (bs ! i)"
  proof induction
    case (seed b)
    then obtain inst where b: "b < length bs" "def_index vt bs v \<noteq> Some b"
        and inst: "inst \<in> set (insts (fn_block fn (bs ! b)))" "uses_value inst (Some v)"
      by (auto simp: seeds_def exposed_uses_iff)
    have "bs ! b \<in> set (fn_blocks fn)" using b(1) assms(2) nth_mem by blast
    moreover have "defining_bid vt v \<noteq> Some (bs ! b)" using b def_iff by blast
    ultimately show ?case using b(1) inst by (blast intro: live_at_entry.used)
  next
    case (pred b p)
    then have "p < length bs" "bs ! b \<in> set (elems (successors (fn_block fn (bs ! p))))"
      using dense_preds_spec(2) [OF assms(1)] by auto
    moreover have "bs ! p \<in> set (fn_blocks fn)" using calculation(1) assms(2) nth_mem by blast
    moreover have "defining_bid vt v \<noteq> Some (bs ! p)" using calculation(1) pred.hyps(3) def_iff by metis
    ultimately show ?case using pred.IH by (blast intro: live_at_entry.succ)
  qed
  then show "live_at_entry vt fn v (bs ! i)" by simp
next
  note def_iff = block_of_iff [OF assms(1)]
  have "\<exists>j < length bs. bs ! j = b" if "b \<in> set (fn_blocks fn)" for b
    using that assms(2) by (metis in_set_conv_nth)
  note pos = this
  have "\<forall>i < length bs. bs ! i = b \<longrightarrow> i \<in> back_reach (dense_preds fn bs) (def_index vt bs v) (seeds v (exposed_uses vt fn bs))"
    if "live_at_entry vt fn v b" for b
    using that
  proof induction
    case (used b inst)
    show ?case
    proof (intro allI impI back_reach.seed)
      fix i assume "i < length bs" "bs ! i = b"
      then show "i \<in> seeds v (exposed_uses vt fn bs)"
        using used def_iff [of "defining_bid vt v" i] by (auto simp: seeds_def exposed_uses_iff)
    qed
  next
    case (succ s b)
    show ?case
    proof (intro allI impI)
      fix i assume i: "i < length bs" "bs ! i = b"
      obtain j where j: "j < length bs" "bs ! j = s" using pos live_in_function [OF succ.hyps(1)] by blast
      have "i \<in> set (dense_preds fn bs ! j)" using dense_preds_spec(2) [OF assms(1) j(1)] i j succ.hyps by simp
      moreover have "Some i \<noteq> def_index vt bs v"
        using def_iff [of "defining_bid vt v" i] i succ.hyps(4) by auto
      ultimately show "i \<in> back_reach (dense_preds fn bs) (def_index vt bs v) (seeds v (exposed_uses vt fn bs))"
        using succ.IH j by (blast intro: back_reach.pred)
    qed
  qed
  moreover assume "live_at_entry vt fn v (bs ! i)"
  ultimately show "i \<in> back_reach (dense_preds fn bs) (def_index vt bs v) (seeds v (exposed_uses vt fn bs))"
    using assms(3) by blast
qed

lemma seeds_sort [simp]: "seeds v (sort uses) = seeds v uses"
  by (simp add: seeds_def)

lemma map_of_picked:
  assumes "distinct bs"
  shows "map_of [(bs ! i, f i). i \<leftarrow> [0..<length bs], P i] b = Some y \<longleftrightarrow> (\<exists>i < length bs. P i \<and> bs ! i = b \<and> y = f i)"
proof -
  have "map fst [(bs ! i, f i). i \<leftarrow> js, P i] = map (\<lambda>i. bs ! i) (filter P js)" for js
    by (induction js) auto
  then have "distinct (map fst [(bs ! i, f i). i \<leftarrow> [0..<length bs], P i])"
    using assms by (auto simp: distinct_map inj_on_def nth_eq_iff_index_eq)
  then show ?thesis by (subst map_of_eq_Some_iff) auto
qed

definition asked_for :: "Function \<Rightarrow> bid list option \<Rightarrow> bid \<Rightarrow> bool" where
  "asked_for fn tgts b \<longleftrightarrow> b \<in> set (fn_blocks fn) \<and> (case tgts of None \<Rightarrow> True | Some ts \<Rightarrow> b \<in> set ts)"

text \<open>
  C8.  The live-in analysis always ends, and its answer is exact: it has an entry for precisely
  the blocks of the function that were asked for (all of them when no list is given), and the
  entry of a block lists, each once, the values live at its entry, that is the values some path
  from the block uses before any block that defines them.
\<close>

theorem block_live_ins_exact:
  "\<exists>live. compute_live_ins vt fn tgts = Some live \<and>
     (\<forall>b. case live b of
            None \<Rightarrow> \<not> asked_for fn tgts b
          | Some vs \<Rightarrow> asked_for fn tgts b \<and> distinct vs \<and> set vs = {v. live_at_entry vt fn v b})"
proof -
  let ?bs = "dense_blocks fn"
  let ?n = "length ?bs"
  define wanted where "wanted = (case tgts of None \<Rightarrow> (\<lambda>b. True) | Some ts \<Rightarrow> (\<lambda>b. wanted_flags ?bs ts ! b))"
  define st where "st = \<lparr>stamp = replicate ?n 0, live_sets = replicate ?n [], work = []\<rparr>"
  let ?uses = "sort (exposed_uses vt fn ?bs)"
  have "snd ` set ?uses \<subseteq> {..<?n}" by (auto simp: exposed_uses_iff)
  moreover have "\<forall>b<?n. set (dense_preds fn ?bs ! b) \<subseteq> {..<?n}"
    using dense_preds_spec(2) [OF dense_distinct] by auto
  ultimately obtain st' where st': "rounds vt ?bs wanted (dense_preds fn ?bs) ?uses 0 st = Some st'"
      and sets: "\<And>b. b < ?n \<Longrightarrow> distinct (live_sets st' ! b) \<and> set (live_sets st' ! b) = set (live_sets st ! b) \<union>
       {v. wanted b \<and> b \<in> back_reach (dense_preds fn ?bs) (def_index vt ?bs v) (seeds v ?uses)}"
    using walk_rounds_ok [of st ?n 0 ?uses "dense_preds fn ?bs" vt ?bs wanted] by (auto simp: st_def)
  have val: "distinct (live_sets st' ! i)" "wanted i \<Longrightarrow> set (live_sets st' ! i) = {v. live_at_entry vt fn v (?bs ! i)}"
    if "i < ?n" for i
    using sets [OF that] reach_live [OF dense_distinct dense_set that] that by (auto simp: st_def)
  have w: "wanted i \<longleftrightarrow> asked_for fn tgts (?bs ! i)" if "i < ?n" for i
    using wanted_flags_iff [OF dense_distinct that] nth_mem [OF that]
    by (simp add: wanted_def asked_for_def dense_set split: option.split)
  define live where "live = map_of [(?bs ! b, live_sets st' ! b). b \<leftarrow> [0..<?n], wanted b]"
  have live: "live b = Some vs \<longleftrightarrow> (\<exists>i < ?n. wanted i \<and> ?bs ! i = b \<and> vs = live_sets st' ! i)" for b vs
    unfolding live_def by (rule map_of_picked [OF dense_distinct])
  have asked: "live b \<noteq> None" if "asked_for fn tgts b" for b
  proof -
    have "b \<in> set ?bs" using that by (simp add: asked_for_def dense_set)
    then obtain i where i: "i < ?n" "?bs ! i = b" by (auto simp: in_set_conv_nth)
    then have "wanted i" using w that by simp
    then have "live b = Some (live_sets st' ! i)" using live i by blast
    then show ?thesis by simp
  qed
  have listed: "asked_for fn tgts b \<and> distinct vs \<and> set vs = {v. live_at_entry vt fn v b}" if "live b = Some vs" for b vs
  proof -
    have "\<exists>i < ?n. wanted i \<and> ?bs ! i = b \<and> vs = live_sets st' ! i" using that unfolding live .
    then obtain i where i: "i < ?n" "wanted i" "?bs ! i = b" "vs = live_sets st' ! i" by blast
    have "asked_for fn tgts b" using w [OF i(1)] i by simp
    moreover have "set vs = {v. live_at_entry vt fn v b}" using val(2) [OF i(1,2)] by (simp only: i(3,4))
    moreover have "distinct vs" using val(1) [OF i(1)] by (simp only: i(4))
    ultimately show ?thesis by (intro conjI)
  qed
  have "case live b of None \<Rightarrow> \<not> asked_for fn tgts b
      | Some vs \<Rightarrow> asked_for fn tgts b \<and> distinct vs \<and> set vs = {v. live_at_entry vt fn v b}" for b
    using asked [of b] listed [of b] by (auto split: option.split)
  moreover have "compute_live_ins vt fn tgts = Some live"
    using st' by (simp add: compute_live_ins_def Let_def live_def wanted_def [symmetric] st_def)
  ultimately show ?thesis by (intro exI [of _ live] conjI allI)
qed

end
