(* ===== verification/Bv_Interval.thy ===== *)
theory Bv_Interval
  imports Bv_Eval
begin

text \<open>
  The interval the term builder keeps for every node (\<open>BVContext::compute_interval\<close> of
  \<open>src/verify/bv_solver.cpp\<close>): unsigned and signed bounds and the bits known to be zero or one.
  The four floating-point flags of an interval and the operations that set them
  (\<open>bv_fp_intervals.cpp\<close>) are not modelled; on the integer operations they leave the other
  fields alone.  The lemmas show, for every operation and every width from 1 to 64, that the
  interval computed from intervals of the operands contains the operation's value.
\<close>

section \<open>Intervals\<close>

record BVInterval =
  umin :: u64
  umax :: u64
  smin :: i64
  smax :: i64
  known_zeros :: u64
  known_ones :: u64

definition bv_max_signed :: "nat \<Rightarrow> i64" where
  "bv_max_signed w = (if w \<ge> 64 then word_of_int INT64_MAX else push_bit (w - 1) 1 - 1)"

definition full_interval :: "nat \<Rightarrow> BVInterval" where
  "full_interval w = \<lparr>umin = 0, umax = width_mask w, smin = bv_min_signed w, smax = bv_max_signed w,
     known_zeros = NOT (width_mask w), known_ones = 0\<rparr>"

definition sum_at_least :: "i64 \<Rightarrow> i64 \<Rightarrow> i64 \<Rightarrow> bool" where
  "sum_at_least a b lo =
     (if sint b > 0 \<and> sint a > INT64_MAX - sint b then True
      else if sint b < 0 \<and> sint a < INT64_MIN - sint b then False
      else sint (a + b) \<ge> sint lo)"

definition sum_at_most :: "i64 \<Rightarrow> i64 \<Rightarrow> i64 \<Rightarrow> bool" where
  "sum_at_most a b hi =
     (if sint b > 0 \<and> sint a > INT64_MAX - sint b then False
      else if sint b < 0 \<and> sint a < INT64_MIN - sint b then True
      else sint (a + b) \<le> sint hi)"

definition usum_at_most :: "u64 \<Rightarrow> u64 \<Rightarrow> u64 \<Rightarrow> bool" where
  "usum_at_most a b m \<longleftrightarrow> a \<le> m \<and> b \<le> m - a"

definition bits_of :: "u64 \<Rightarrow> nat" where
  "bits_of u = (if u = 0 then 0 else 64 - countl_zero u)"

definition sign_bit_of :: "nat \<Rightarrow> u64" where
  "sign_bit_of w = (if w \<ge> 64 then push_bit 63 1 else push_bit (w - 1) 1)"

text \<open>When the sign bit is known to be clear, the signed bounds are the unsigned ones.\<close>

definition signed_from_unsigned :: "nat \<Rightarrow> BVInterval \<Rightarrow> BVInterval" where
  "signed_from_unsigned w iv =
     (if known_zeros iv AND sign_bit_of w \<noteq> 0 then iv\<lparr>smin := umin iv, smax := umax iv\<rparr> else iv)"

section \<open>One operation at a time\<close>

definition interval_const :: "u64 \<Rightarrow> nat \<Rightarrow> BVInterval" where
  "interval_const imm w =
     (let c = imm AND width_mask w; sc = sign_extend_bits c w
      in \<lparr>umin = c, umax = c, smin = sc, smax = sc, known_zeros = NOT c, known_ones = c\<rparr>)"

definition interval_extract :: "BVInterval \<Rightarrow> nat \<Rightarrow> nat \<Rightarrow> BVInterval" where
  "interval_extract a lo w =
     (let m = width_mask w;
          kz = (drop_bit lo (known_zeros a) AND m) OR NOT m;
          ko = drop_bit lo (known_ones a) AND m
      in signed_from_unsigned w ((full_interval w)\<lparr>umin := ko, umax := m AND NOT kz, known_zeros := kz, known_ones := ko\<rparr>))"

definition interval_zext :: "BVInterval \<Rightarrow> nat \<Rightarrow> nat \<Rightarrow> BVInterval" where
  "interval_zext a aw w =
     (let am = width_mask aw;
          lo = umin a AND am;
          hi = umax a AND am;
          iv = (full_interval w)\<lparr>umin := lo, umax := hi\<rparr>;
          iv = (if aw < w then iv\<lparr>smin := lo, smax := hi\<rparr> else iv)
      in iv\<lparr>known_zeros := known_zeros a OR NOT am OR NOT (width_mask (bits_of hi)), known_ones := known_ones a AND am\<rparr>)"

definition interval_sext :: "BVInterval \<Rightarrow> nat \<Rightarrow> BVInterval" where
  "interval_sext a w =
     (let iv = (full_interval w)\<lparr>smin := smin a, smax := smax a\<rparr>
      in if sint (smin a) \<ge> 0 then
           iv\<lparr>umin := smin a, umax := smax a, known_zeros := known_zeros a OR NOT (width_mask (bits_of (smax a)))\<rparr>
         else if sint (smax a) < 0 then
           iv\<lparr>umin := smin a AND width_mask w, umax := smax a AND width_mask w\<rparr>
         else iv)"

definition interval_and :: "BVInterval \<Rightarrow> BVInterval \<Rightarrow> nat \<Rightarrow> BVInterval" where
  "interval_and a b w =
     (let kz = known_zeros a OR known_zeros b;
          ko = known_ones a AND known_ones b
      in signed_from_unsigned w ((full_interval w)\<lparr>umin := ko,
           umax := min (min (umax a) (umax b)) (width_mask w AND NOT kz), known_zeros := kz, known_ones := ko\<rparr>))"

definition interval_or :: "BVInterval \<Rightarrow> BVInterval \<Rightarrow> nat \<Rightarrow> BVInterval" where
  "interval_or a b w =
     (let kz = known_zeros a AND known_zeros b;
          ko = known_ones a OR known_ones b
      in (full_interval w)\<lparr>umin := max (max (umin a) (umin b)) ko, umax := width_mask w AND NOT kz,
           known_zeros := kz, known_ones := ko\<rparr>)"

definition interval_lshr :: "BVInterval \<Rightarrow> BVInterval \<Rightarrow> nat \<Rightarrow> BVInterval" where
  "interval_lshr a b w =
     (if umin b = umax b then
        let sh = shift_count (umin b) w
        in if 0 < sh \<and> sh < w then
             let low_mask = width_mask (w - sh); lo = drop_bit sh (umin a); hi = drop_bit sh (umax a)
             in \<lparr>umin = lo, umax = hi, smin = lo, smax = hi,
                 known_zeros = drop_bit sh (known_zeros a) OR NOT low_mask,
                 known_ones = drop_bit sh (known_ones a) AND low_mask\<rparr>
           else full_interval w
      else full_interval w)"

definition interval_shl :: "BVInterval \<Rightarrow> BVInterval \<Rightarrow> nat \<Rightarrow> BVInterval" where
  "interval_shl a b w =
     (if umin b = umax b then
        let sh = shift_count (umin b) w; m = width_mask w
        in if sh < w then
             let iv = (full_interval w)\<lparr>
                   known_zeros := (push_bit sh (known_zeros a) OR width_mask sh) OR NOT m,
                   known_ones := push_bit sh (known_ones a) AND m\<rparr>;
                 iv = (if sh = 0 \<or> umax a \<le> drop_bit sh m
                       then iv\<lparr>umin := push_bit sh (umin a) AND m, umax := push_bit sh (umax a) AND m\<rparr> else iv)
             in if w + sh < 63 then
                  let lo = smin a * push_bit sh 1; hi = smax a * push_bit sh 1;
                      min_s = - push_bit (w - 1) 1; max_s = push_bit (w - 1) 1 - 1
                  in if sint lo \<ge> sint (min_s :: i64) \<and> sint hi \<le> sint (max_s :: i64)
                     then iv\<lparr>smin := lo, smax := hi\<rparr> else iv
                else iv
           else full_interval w
      else full_interval w)"

definition interval_add :: "BVInterval \<Rightarrow> BVInterval \<Rightarrow> nat \<Rightarrow> BVInterval" where
  "interval_add a b w =
     (let m = width_mask w;
          iv = (if usum_at_most (umin a) (umin b) m \<and> usum_at_most (umax a) (umax b) m
                then (full_interval w)\<lparr>umin := umin a + umin b, umax := umax a + umax b,
                       known_zeros := NOT (width_mask (bits_of (umax a + umax b)))\<rparr>
                else full_interval w)
      in if sum_at_least (smin a) (smin b) (bv_min_signed w) \<and> sum_at_most (smax a) (smax b) (bv_max_signed w) then
           let lo = smin a + smin b; hi = smax a + smax b; iv = iv\<lparr>smin := lo, smax := hi\<rparr>
           in if sint lo \<ge> 0 then
                let u = min (umax iv) hi
                in iv\<lparr>umin := max (umin iv) lo, umax := u,
                      known_zeros := known_zeros iv OR NOT (width_mask (bits_of u))\<rparr>
              else if sint hi < 0 then
                iv\<lparr>umin := max (umin iv) (lo AND m), umax := min (umax iv) (hi AND m)\<rparr>
              else iv
         else iv)"

definition interval_mul :: "BVInterval \<Rightarrow> BVInterval \<Rightarrow> nat \<Rightarrow> BVInterval" where
  "interval_mul a b w =
     (if sint (smin a) \<ge> 0 \<and> sint (smin b) \<ge> 0 \<and>
         (smax a = 0 \<or> smax b = 0 \<or> sint (smax a) \<le> sint (bv_max_signed w) sdiv sint (smax b)) then
        let lo = smin a * smin b; hi = smax a * smax b
        in (full_interval w)\<lparr>smin := lo, smax := hi, umin := lo, umax := hi,
             known_zeros := NOT (width_mask (bits_of hi))\<rparr>
      else full_interval w)"

definition min_s64 :: "i64 \<Rightarrow> i64 \<Rightarrow> i64" where "min_s64 a b = (if sint b < sint a then b else a)"
definition max_s64 :: "i64 \<Rightarrow> i64 \<Rightarrow> i64" where "max_s64 a b = (if sint a < sint b then b else a)"

definition interval_ite :: "BVInterval \<Rightarrow> BVInterval \<Rightarrow> BVInterval" where
  "interval_ite t f = \<lparr>umin = min (umin t) (umin f), umax = max (umax t) (umax f),
     smin = min_s64 (smin t) (smin f), smax = max_s64 (smax t) (smax f),
     known_zeros = known_zeros t AND known_zeros f, known_ones = known_ones t AND known_ones f\<rparr>"

definition compute_interval :: "BVNode list \<Rightarrow> BVInterval list \<Rightarrow> BVNode \<Rightarrow> BVInterval" where
  "compute_interval nodes ivs n =
     (let w = bv_width n; a = ivs ! bv_a n; b = ivs ! bv_b n; c = ivs ! bv_c n
      in case bv_op n of
           BV_Const \<Rightarrow> interval_const (bv_imm n) w
         | BV_Extract \<Rightarrow> interval_extract a (bv_extra n) w
         | BV_ZExt \<Rightarrow> interval_zext a (bv_width (nodes ! bv_a n)) w
         | BV_SExt \<Rightarrow> interval_sext a w
         | BV_And \<Rightarrow> interval_and a b w
         | BV_Or \<Rightarrow> interval_or a b w
         | BV_LShr \<Rightarrow> interval_lshr a b w
         | BV_Shl \<Rightarrow> interval_shl a b w
         | BV_Add \<Rightarrow> if w \<le> 64 then interval_add a b w else full_interval w
         | BV_Mul \<Rightarrow> if w \<le> 64 then interval_mul a b w else full_interval w
         | BV_Ite \<Rightarrow> interval_ite b c
         | _ \<Rightarrow> full_interval w)"

section \<open>Values of a width\<close>

definition valid_width :: "nat \<Rightarrow> bool" where
  "valid_width w \<longleftrightarrow> 1 \<le> w \<and> w \<le> 64"

definition in_width :: "nat \<Rightarrow> u64 \<Rightarrow> bool" where
  "in_width w v \<longleftrightarrow> v AND width_mask w = v"

abbreviation sval :: "nat \<Rightarrow> u64 \<Rightarrow> int" where
  "sval w v \<equiv> sint (sign_extend_bits v w)"

lemma width_mask_take: "w \<le> 64 \<Longrightarrow> v AND width_mask w = take_bit w v"
  by (simp add: width_mask_eq take_bit_eq_mask)

lemma uint_width_mask: "w \<le> 64 \<Longrightarrow> uint (width_mask w) = 2 ^ w - 1"
proof -
  assume w: "w \<le> 64"
  have "(mask w :: u64) = word_of_int (2 ^ w - 1)" by (simp add: mask_eq_exp_minus_1)
  moreover have "(2 :: int) ^ w \<le> 2 ^ 64" using w by (intro power_increasing) auto
  then have "uint (word_of_int (2 ^ w - 1) :: u64) = 2 ^ w - 1"
    by (simp only: unsigned_of_int) (simp add: take_bit_int_eq_self)
  ultimately show ?thesis using w by (simp only: width_mask_eq)
qed

lemma uint_mask: "w \<le> 64 \<Longrightarrow> uint (v AND width_mask w) = uint v mod 2 ^ w"
  unfolding width_mask_take unsigned_take_bit_eq by (rule take_bit_eq_mod)

lemma in_width_iff: "w \<le> 64 \<Longrightarrow> in_width w v \<longleftrightarrow> uint v < 2 ^ w"
proof -
  assume w: "w \<le> 64"
  have "in_width w v \<longleftrightarrow> uint v mod 2 ^ w = uint v"
    unfolding in_width_def word_uint_eq_iff uint_mask [OF w] ..
  then show ?thesis by (metis mod_pos_pos_trivial pos_mod_bound uint_ge_0 zero_less_numeral zero_less_power)
qed

lemma in_width_le: "w \<le> 64 \<Longrightarrow> in_width w v \<longleftrightarrow> v \<le> width_mask w"
  by (simp add: in_width_iff word_le_def uint_width_mask)

lemma in_width_bit: "w \<le> 64 \<Longrightarrow> in_width w v \<Longrightarrow> bit v n \<Longrightarrow> n < w"
  by (metis bit_take_bit_iff in_width_def width_mask_take)

lemma in_width_mask [simp]: "in_width w (v AND width_mask w)"
  by (simp add: in_width_def and.assoc)

lemma bit_width_mask: "w \<le> 64 \<Longrightarrow> bit (width_mask w) n \<longleftrightarrow> n < w"
  by (auto simp: width_mask_eq bit_mask_iff)

lemma power_half: "1 \<le> w \<Longrightarrow> (2 :: int) ^ w = 2 * 2 ^ (w - 1)"
  by (cases w) simp_all

lemma sign_bit_iff: "in_width w v \<Longrightarrow> valid_width w \<Longrightarrow> bit v (w - 1) \<longleftrightarrow> 2 ^ (w - 1) \<le> uint v"
proof -
  assume v: "in_width w v" and w: "valid_width w"
  have lt: "uint v < 2 * 2 ^ (w - 1)" using v w power_half [of w] by (simp add: in_width_iff valid_width_def)
  have "w - 1 < 64" using w by (auto simp: valid_width_def)
  then have "bit v (w - 1) \<longleftrightarrow> bit (uint v) (w - 1)" by (simp add: bit_uint_iff)
  also have "\<dots> \<longleftrightarrow> odd (uint v div 2 ^ (w - 1))" by (rule bit_iff_odd)
  also have "\<dots> \<longleftrightarrow> 2 ^ (w - 1) \<le> uint v"
  proof (cases "2 ^ (w - 1) \<le> uint v")
    case True
    then have "uint v div 2 ^ (w - 1) = 1" using lt by (intro int_div_pos_eq [where r = "uint v - 2 ^ (w - 1)"]) auto
    then show ?thesis using True by simp
  next
    case False
    then have "uint v div 2 ^ (w - 1) = 0" by (intro div_pos_pos_trivial) auto
    then show ?thesis using False by simp
  qed
  finally show ?thesis .
qed

text \<open>The signed reading of a value of width \<open>w\<close>.\<close>

lemma sval_eq:
  assumes "in_width w v" "valid_width w"
  shows "sval w v = (if 2 ^ (w - 1) \<le> uint v then uint v - 2 ^ w else uint v)"
proof (cases "w = 64")
  case True
  have "bit v 63 \<longleftrightarrow> 2 ^ 63 \<le> uint v" using sign_bit_iff [OF assms] True by simp
  then show ?thesis using True sint_as_uint [of v] by simp
next
  case False
  then have w: "1 \<le> w" "w < 64" using assms(2) by (auto simp: valid_width_def)
  have v: "v AND width_mask w = v" using assms(1) by (simp add: in_width_def)
  have lt: "uint v < 2 ^ w" using assms(1) w by (simp add: in_width_iff)
  have "(2 :: int) ^ w \<le> 2 ^ 63" using w by (intro power_increasing) auto
  then have p: "(2 :: int) ^ w \<le> 9223372036854775808" by simp
  have se: "sign_extend_bits v w = (if bit v (w - 1) then v OR NOT (width_mask w) else v)"
    using w v unfolding sign_extend_bits_def Let_def test_bit v by simp
  show ?thesis
  proof (cases "bit v (w - 1)")
    case True
    have "v OR NOT (width_mask w) = v + NOT (width_mask w)"
    proof (rule disjunctive_add [symmetric])
      show "\<not> bit v n \<or> \<not> bit (NOT (width_mask w)) n" for n
        using in_width_bit [of w v n] assms(1) w by (auto simp: bit_not_iff bit_width_mask)
    qed
    also have "\<dots> = word_of_int (uint v - 2 ^ w)"
      using w by (simp add: width_mask_eq mask_eq_exp_minus_1 not_eq_complement)
    finally have "sval w v = sint (word_of_int (uint v - 2 ^ w) :: i64)" using se by (simp only: True if_True)
    also have "\<dots> = uint v - 2 ^ w" using lt p uint_ge_0 [of v] by (intro sint_of_int64) linarith+
    finally show ?thesis using True sign_bit_iff [OF assms] by simp
  next
    case False
    have "sint v = uint v"
      using lt p sint_of_int64 [of "uint v"] uint_ge_0 [of v] by simp
    then show ?thesis using False se sign_bit_iff [OF assms] by simp
  qed
qed

lemma sval_range:
  assumes "in_width w v" "valid_width w"
  shows "- (2 ^ (w - 1)) \<le> sval w v" "sval w v < 2 ^ (w - 1)"
proof -
  have "uint v < 2 ^ w" "(2 :: int) ^ w = 2 * 2 ^ (w - 1)" "0 < (2 :: int) ^ (w - 1)"
    using assms power_half [of w] by (simp_all add: in_width_iff valid_width_def)
  then show "- (2 ^ (w - 1)) \<le> sval w v" "sval w v < 2 ^ (w - 1)"
    unfolding sval_eq [OF assms] using uint_ge_0 [of v] by (simp_all only: split: if_split) linarith+
qed

lemma power_63: "valid_width w \<Longrightarrow> (2 :: int) ^ (w - 1) \<le> 9223372036854775808" "0 < (2 :: int) ^ (w - 1)"
proof -
  show "0 < (2 :: int) ^ (w - 1)" by simp
  assume "valid_width w"
  then have "(2 :: int) ^ (w - 1) \<le> 2 ^ 63" by (intro power_increasing) (auto simp: valid_width_def)
  then show "(2 :: int) ^ (w - 1) \<le> 9223372036854775808" by simp
qed

lemma sint_min_max:
  assumes "valid_width w"
  shows "sint (bv_min_signed w) = - (2 ^ (w - 1))" "sint (bv_max_signed w) = 2 ^ (w - 1) - 1"
proof -
  have "bv_min_signed w = word_of_int (- (2 ^ (w - 1)))"
    using assms by (cases "w \<ge> 64") (auto simp: bv_min_signed_def valid_width_def)
  then show "sint (bv_min_signed w) = - (2 ^ (w - 1))"
    using power_63 (1) [OF assms] power_63(2) [of w] by (simp only:) (rule sint_of_int64; linarith)
  have "bv_max_signed w = word_of_int (2 ^ (w - 1) - 1)"
    using assms by (cases "w \<ge> 64") (auto simp: bv_max_signed_def valid_width_def)
  then show "sint (bv_max_signed w) = 2 ^ (w - 1) - 1"
    using power_63 (1) [OF assms] power_63(2) [of w] by (simp only:) (rule sint_of_int64; linarith)
qed

lemma uint_sint_nonneg: "0 \<le> sint (x :: i64) \<Longrightarrow> uint x = sint x"
  by (rule uint_of_non_negative)

lemma bits_of_bound: "uint u < 2 ^ bits_of u" "bits_of u \<le> 64"
proof -
  show "bits_of u \<le> 64" by (simp add: bits_of_def)
  have "\<not> bit u n" if "bits_of u \<le> n" "n < 64" for n
  proof (cases "u = 0")
    case False
    let ?bs = "rev (map (bit u) [0..<64])"
    have cz: "countl_zero u = length (takeWhile Not ?bs)" by (simp add: countl_zero_def)
    have "63 - n < countl_zero u" using that False by (simp add: bits_of_def)
    then have i: "63 - n < length (takeWhile Not ?bs)" by (simp only: cz)
    then have "takeWhile Not ?bs ! (63 - n) \<in> set (takeWhile Not ?bs)" by (rule nth_mem)
    then have "\<not> takeWhile Not ?bs ! (63 - n)" using set_takeWhileD by fast
    moreover have "takeWhile Not ?bs ! (63 - n) = ?bs ! (63 - n)" using i by (rule takeWhile_nth)
    moreover have "?bs ! (63 - n) = bit u n" using that(2) by (simp add: rev_nth)
    ultimately show ?thesis by simp
  qed simp
  then have "take_bit (bits_of u) u = u"
    by (intro bit_word_eqI) (auto simp: bit_take_bit_iff not_less [symmetric])
  then have "uint u mod 2 ^ bits_of u = uint u" by (metis take_bit_eq_mod unsigned_take_bit_eq)
  then show "uint u < 2 ^ bits_of u" by (metis mod_less_divisor pos_mod_bound zero_less_numeral zero_less_power)
qed

section \<open>Containment\<close>

definition interval_ok :: "nat \<Rightarrow> BVInterval \<Rightarrow> u64 \<Rightarrow> bool" where
  "interval_ok w iv v \<longleftrightarrow> in_width w v \<and> umin iv \<le> v \<and> v \<le> umax iv \<and>
     sint (smin iv) \<le> sval w v \<and> sval w v \<le> sint (smax iv) \<and>
     v AND known_zeros iv = 0 \<and> known_ones iv AND v = known_ones iv"

definition interval_wf :: "nat \<Rightarrow> BVInterval \<Rightarrow> bool" where
  "interval_wf w iv \<longleftrightarrow> in_width w (umax iv) \<and> - (2 ^ (w - 1)) \<le> sint (smin iv) \<and> sint (smax iv) < 2 ^ (w - 1)"

definition contains :: "nat \<Rightarrow> BVInterval \<Rightarrow> u64 \<Rightarrow> bool" where
  "contains w iv v \<longleftrightarrow> interval_wf w iv \<and> interval_ok w iv v"

lemma and_eq_bits: "a AND b = a \<longleftrightarrow> (\<forall>n. bit a n \<longrightarrow> bit b n)" for a b :: "'a::len word"
  by (auto simp: bit_eq_iff bit_and_iff dest: bit_imp_le_length)

lemma and_zero_bits: "a AND b = 0 \<longleftrightarrow> (\<forall>n. bit a n \<longrightarrow> \<not> bit b n)" for a b :: "'a::len word"
  by (auto simp: bit_eq_iff bit_and_iff dest: bit_imp_le_length)

lemma sub_bits_le: "a AND b = a \<Longrightarrow> a \<le> b" for a b :: "'a::len word"
  by (metis word_and_le1)

lemma known_bounds:
  assumes "in_width w v" "v AND kz = 0" "ko AND v = ko"
  shows "ko \<le> v" "v \<le> width_mask w AND NOT kz"
proof -
  show "ko \<le> v" using assms(3) by (rule sub_bits_le)
  have "v AND (width_mask w AND NOT kz) = v"
    using assms(1,2) unfolding in_width_def and_eq_bits and_zero_bits
    by (auto simp: bit_and_iff bit_not_iff dest: bit_imp_le_length)
  then show "v \<le> width_mask w AND NOT kz" by (rule sub_bits_le)
qed

lemma full_ok: "valid_width w \<Longrightarrow> in_width w v \<Longrightarrow> interval_ok w (full_interval w) v"
  using sval_range [of w v] sint_min_max [of w]
  by (auto simp: interval_ok_def full_interval_def in_width_le valid_width_def and_zero_bits bit_not_iff
      bit_width_mask dest: in_width_bit)

lemma full_wf: "valid_width w \<Longrightarrow> interval_wf w (full_interval w)"
  using sint_min_max [of w] by (simp add: interval_wf_def full_interval_def in_width_def)

lemma in_width_mono: "w \<le> 64 \<Longrightarrow> a \<le> b \<Longrightarrow> in_width w b \<Longrightarrow> in_width w a"
  by (meson in_width_le order_trans)

lemma in_width_wider: "in_width v z \<Longrightarrow> v \<le> w \<Longrightarrow> w \<le> 64 \<Longrightarrow> in_width w z"
proof -
  assume z: "in_width v z" "v \<le> w" "w \<le> 64"
  have "(2 :: int) ^ v \<le> 2 ^ w" using z(2) by (intro power_increasing) auto
  then show ?thesis using z in_width_iff [of v z] in_width_iff [of w z] by linarith
qed

text \<open>A value without its top bit is its own signed reading.\<close>

lemma small_sval:
  assumes "valid_width w" "uint v < 2 ^ (w - 1)"
  shows "sval w v = uint v" "sint v = uint v" "in_width w v"
proof -
  have "(2 :: int) ^ w = 2 * 2 ^ (w - 1)" using assms(1) power_half [of w] by (simp add: valid_width_def)
  then have "uint v < 2 ^ w" using assms(2) power_63(2) [of w] by linarith
  then show i: "in_width w v" using assms(1) by (simp add: in_width_iff valid_width_def)
  show "sval w v = uint v" using sval_eq [OF i assms(1)] assms(2) by simp
  show "sint v = uint v" using sint_of_int64 [of "uint v"] assms power_63(1) [of w] uint_ge_0 [of v] by simp
qed

lemma clear_top:
  assumes "valid_width w" "kz AND sign_bit_of w \<noteq> 0" "v \<le> width_mask w AND NOT kz"
  shows "uint v < 2 ^ (w - 1)"
proof -
  let ?u = "width_mask w AND NOT kz"
  have w: "1 \<le> w" "w \<le> 64" using assms(1) by (simp_all add: valid_width_def)
  have "sign_bit_of w = push_bit (w - 1) 1" using w by (auto simp: sign_bit_of_def)
  then have "bit kz (w - 1)" using assms(2) by (simp only: test_bit)
  then have "\<not> bit ?u (w - 1)" by (simp add: bit_and_iff bit_not_iff)
  moreover have "in_width w ?u" by (simp add: in_width_def ac_simps)
  ultimately have "uint ?u < 2 ^ (w - 1)" using sign_bit_iff [OF _ assms(1), of ?u] by simp
  then show ?thesis using assms(3) by (simp add: word_le_def)
qed

lemma signed_from_unsigned_contains:
  assumes "valid_width w" "contains w iv v" "umax iv \<le> width_mask w AND NOT (known_zeros iv)"
  shows "contains w (signed_from_unsigned w iv) v"
proof (cases "known_zeros iv AND sign_bit_of w \<noteq> 0")
  case True
  have le: "umin iv \<le> v" "v \<le> umax iv" using assms(2) by (simp_all add: contains_def interval_ok_def)
  have u: "uint (umax iv) < 2 ^ (w - 1)" using clear_top [OF assms(1) True assms(3)] .
  then have v: "uint v < 2 ^ (w - 1)" "uint (umin iv) < 2 ^ (w - 1)" using le by (simp_all add: word_le_def)
  have "- (2 ^ (w - 1)) \<le> uint (umin iv)" using uint_ge_0 [of "umin iv"] power_63(2) [of w] by linarith
  then show ?thesis
    using assms(2) True le small_sval [OF assms(1) u] small_sval [OF assms(1) v(1)] small_sval [OF assms(1) v(2)] u
    by (simp add: signed_from_unsigned_def contains_def interval_ok_def interval_wf_def word_le_def)
next
  case False
  then show ?thesis using assms(2) by (simp add: signed_from_unsigned_def)
qed

lemma full_contains: "valid_width w \<Longrightarrow> in_width w v \<Longrightarrow> contains w (full_interval w) v"
  by (simp add: contains_def full_wf full_ok)

text \<open>Bounds and known bits that replace those of the full interval.\<close>

lemma contains_update:
  assumes "valid_width w" "in_width w v" "lo \<le> v" "v \<le> hi" "in_width w hi" "v AND kz = 0" "ko AND v = ko"
  shows "contains w ((full_interval w)\<lparr>umin := lo, umax := hi, known_zeros := kz, known_ones := ko\<rparr>) v"
  using full_contains [OF assms(1,2)] assms by (simp add: contains_def interval_ok_def interval_wf_def)

lemma contains_signed:
  assumes "contains w iv v" "sint lo \<le> sval w v" "sval w v \<le> sint hi" "- (2 ^ (w - 1)) \<le> sint lo" "sint hi < 2 ^ (w - 1)"
  shows "contains w (iv\<lparr>smin := lo, smax := hi\<rparr>) v"
  using assms by (simp add: contains_def interval_ok_def interval_wf_def)

lemma contains_unsigned:
  assumes "contains w iv v" "lo \<le> v" "v \<le> hi" "in_width w hi"
  shows "contains w (iv\<lparr>umin := lo, umax := hi\<rparr>) v"
  using assms by (simp add: contains_def interval_ok_def interval_wf_def)

lemma contains_zeros: "contains w iv v \<Longrightarrow> v AND kz = 0 \<Longrightarrow> contains w (iv\<lparr>known_zeros := kz\<rparr>) v"
  by (simp add: contains_def interval_ok_def interval_wf_def)

lemma containsD:
  assumes "contains w iv v"
  shows "in_width w v" "umin iv \<le> v" "v \<le> umax iv" "sint (smin iv) \<le> sval w v" "sval w v \<le> sint (smax iv)"
    "v AND known_zeros iv = 0" "known_ones iv AND v = known_ones iv" "in_width w (umax iv)"
    "- (2 ^ (w - 1)) \<le> sint (smin iv)" "sint (smax iv) < 2 ^ (w - 1)"
  using assms by (simp_all add: contains_def interval_ok_def interval_wf_def)

section \<open>The operations\<close>

lemma const_contains:
  assumes "valid_width w"
  shows "contains w (interval_const imm w) (imm AND width_mask w)"
proof -
  obtain c where c: "c = imm AND width_mask w" by simp
  then have i: "in_width w c" by simp
  have "c AND NOT c = 0" by simp
  then have "contains w \<lparr>umin = c, umax = c, smin = sign_extend_bits c w, smax = sign_extend_bits c w,
      known_zeros = NOT c, known_ones = c\<rparr> c"
    using sval_range [OF i assms] i by (simp add: contains_def interval_ok_def interval_wf_def)
  then show ?thesis by (simp only: interval_const_def Let_def c)
qed

lemma and_contains:
  assumes "valid_width w" "contains w a x" "contains w b y"
  shows "contains w (interval_and a b w) (x AND y)"
proof -
  note x = containsD [OF assms(2)] and y = containsD [OF assms(3)]
  let ?kz = "known_zeros a OR known_zeros b" and ?ko = "known_ones a AND known_ones b"
  have v: "in_width w (x AND y)" using x(1) unfolding in_width_def and_eq_bits by (auto simp: bit_and_iff)
  have kz: "(x AND y) AND ?kz = 0" using x(6) y(6) unfolding and_zero_bits by (auto simp: bit_and_iff bit_or_iff)
  have ko: "?ko AND (x AND y) = ?ko" using x(7) y(7) unfolding and_eq_bits by (auto simp: bit_and_iff)
  have "x AND y \<le> x" "x AND y \<le> y" by (rule word_and_le2, rule word_and_le1)
  then have hi: "x AND y \<le> min (min (umax a) (umax b)) (width_mask w AND NOT ?kz)"
    using x(3) y(3) known_bounds(2) [OF v kz ko] by auto
  have "min (min (umax a) (umax b)) (width_mask w AND NOT ?kz) \<le> width_mask w AND NOT ?kz" by simp
  moreover have "in_width w (width_mask w AND NOT ?kz)" by (simp add: in_width_def ac_simps)
  ultimately have "in_width w (min (min (umax a) (umax b)) (width_mask w AND NOT ?kz))"
    using assms(1) in_width_mono [of w] unfolding valid_width_def by blast
  then show ?thesis unfolding interval_and_def Let_def
    using known_bounds(1) [OF v kz ko] hi kz ko v assms(1)
    by (intro signed_from_unsigned_contains contains_update) simp_all
qed

lemma or_contains:
  assumes "valid_width w" "contains w a x" "contains w b y"
  shows "contains w (interval_or a b w) (x OR y)"
proof -
  note x = containsD [OF assms(2)] and y = containsD [OF assms(3)]
  let ?kz = "known_zeros a AND known_zeros b" and ?ko = "known_ones a OR known_ones b"
  have v: "in_width w (x OR y)" using x(1) y(1) unfolding in_width_def and_eq_bits by (auto simp: bit_or_iff)
  have kz: "(x OR y) AND ?kz = 0" using x(6) y(6) unfolding and_zero_bits by (auto simp: bit_and_iff bit_or_iff)
  have ko: "?ko AND (x OR y) = ?ko" using x(7) y(7) unfolding and_eq_bits by (auto simp: bit_or_iff)
  have "x \<le> x OR y" "y \<le> x OR y" by (rule sub_bits_le; auto simp: and_eq_bits bit_or_iff)+
  then have "umin a \<le> x OR y" "umin b \<le> x OR y" using x(2) y(2) by (blast intro: order_trans)+
  then show ?thesis unfolding interval_or_def Let_def
    using known_bounds [OF v kz ko] kz ko v assms(1)
    by (intro contains_update) (simp_all add: in_width_def ac_simps)
qed

lemma extract_contains:
  assumes "valid_width w" "contains aw a x"
  shows "contains w (interval_extract a lo w) (drop_bit lo x AND width_mask w)"
proof -
  note x = containsD [OF assms(2)]
  have w: "w \<le> 64" using assms(1) by (simp add: valid_width_def)
  let ?m = "width_mask w" and ?v = "drop_bit lo x AND width_mask w"
  let ?kz = "(drop_bit lo (known_zeros a) AND ?m) OR NOT ?m" and ?ko = "drop_bit lo (known_ones a) AND ?m"
  have kz: "?v AND ?kz = 0" using x(6) unfolding and_zero_bits
    by (auto simp: bit_and_iff bit_or_iff bit_drop_bit_eq bit_not_iff)
  have ko: "?ko AND ?v = ?ko" using x(7) unfolding and_eq_bits by (auto simp: bit_and_iff bit_drop_bit_eq)
  have "in_width w (?m AND NOT ?kz)" by (simp add: in_width_def ac_simps)
  then show ?thesis unfolding interval_extract_def Let_def
    using known_bounds [OF in_width_mask kz ko] kz ko assms(1)
    by (intro signed_from_unsigned_contains contains_update) simp_all
qed

lemma ite_contains:
  assumes "contains w t x" "contains w f y"
  shows "contains w (interval_ite t f) (if c then x else y)"
proof -
  note x = containsD [OF assms(1)] and y = containsD [OF assms(2)]
  have "(if c then x else y) AND (known_zeros t AND known_zeros f) = 0"
    using x(6) y(6) unfolding and_zero_bits by (auto simp: bit_and_iff)
  moreover have "(known_ones t AND known_ones f) AND (if c then x else y) = known_ones t AND known_ones f"
    using x(7) y(7) unfolding and_eq_bits by (auto simp: bit_and_iff)
  moreover have "in_width w (max (umax t) (umax f))" using x(8) y(8) by (simp add: max_def)
  ultimately show ?thesis using x y
    by (auto simp: contains_def interval_ok_def interval_wf_def interval_ite_def min_s64_def max_s64_def
        min_le_iff_disj le_max_iff_disj)
qed

text \<open>Signed readings modulo the width.\<close>

lemma sval_mod: "in_width w v \<Longrightarrow> valid_width w \<Longrightarrow> sval w v mod 2 ^ w = uint v"
  by (simp add: sval_eq in_width_iff valid_width_def mod_diff_right_eq)

lemma sval_of_mod:
  assumes "valid_width w" "uint v = S mod 2 ^ w" "- (2 ^ (w - 1)) \<le> S" "S < 2 ^ (w - 1)"
  shows "in_width w v" "sval w v = S"
proof -
  have w: "w \<le> 64" "(2 :: int) ^ w = 2 * 2 ^ (w - 1)" using assms(1) power_half [of w] by (simp_all add: valid_width_def)
  show i: "in_width w v" using assms(2) w(1) by (simp add: in_width_iff)
  show "sval w v = S"
  proof (cases "0 \<le> S")
    case True
    then have "uint v = S" using assms(2,4) w(2) by (simp add: mod_pos_pos_trivial)
    then show ?thesis using sval_eq [OF i assms(1)] assms(4) by simp
  next
    case False
    then have "(S + 2 ^ w) mod 2 ^ w = S + 2 ^ w" using assms(3,4) w(2) by (intro mod_pos_pos_trivial) linarith+
    then have "uint v = S + 2 ^ w" using assms(2) by simp
    then show ?thesis using sval_eq [OF i assms(1)] assms(3) w(2) by simp
  qed
qed

lemma uint_sint_mod: "w \<le> 64 \<Longrightarrow> uint (x :: u64) mod 2 ^ w = sint x mod 2 ^ w"
proof -
  assume "w \<le> 64"
  then have "(2 :: int) ^ w dvd 2 ^ 64" by (intro le_imp_power_dvd)
  moreover have "uint x - sint x = (if bit x 63 then 2 ^ 64 else 0)" using sint_as_uint [of x] by simp
  ultimately have "(2 :: int) ^ w dvd uint x - sint x" by simp
  then show ?thesis by (rule mod_eq_dvd_iff [THEN iffD2])
qed

lemma below_bits: "x \<le> hi \<Longrightarrow> x AND NOT (width_mask (bits_of hi)) = 0"
proof -
  assume "x \<le> hi"
  then have "in_width (bits_of hi) x" using bits_of_bound [of hi] by (simp add: in_width_iff word_le_def)
  then show ?thesis using in_width_bit [OF bits_of_bound(2)] unfolding and_zero_bits
    by (auto simp: bit_not_iff bit_width_mask bits_of_bound)
qed

lemma zext_contains:
  assumes "valid_width aw" "valid_width w" "aw \<le> w" "contains aw a x"
  shows "contains w (interval_zext a aw w) x"
proof -
  note x = containsD [OF assms(4)]
  have w: "aw \<le> 64" "w \<le> 64" using assms by (simp_all add: valid_width_def)
  have wide: "in_width w z" if "in_width aw z" for z using that assms(3) w(2) by (rule in_width_wider)
  have lo: "umin a AND width_mask aw = umin a" and hi: "umax a AND width_mask aw = umax a"
    using x(8) in_width_mono [OF w(1) x(2,1)] by (simp_all add: in_width_def)
  let ?kz = "known_zeros a OR NOT (width_mask aw) OR NOT (width_mask (bits_of (umax a)))"
  let ?iv = "(full_interval w)\<lparr>umin := umin a, umax := umax a, known_zeros := ?kz,
    known_ones := known_ones a AND width_mask aw\<rparr>"
  have "x AND NOT (width_mask aw) = 0" using in_width_bit [OF w(1) x(1)] unfolding and_zero_bits
    by (auto simp: bit_not_iff bit_width_mask w)
  then have "x AND ?kz = 0" using x(6) below_bits [OF x(3)] by (simp add: bit.conj_disj_distrib)
  moreover have "(known_ones a AND width_mask aw) AND x = known_ones a AND width_mask aw"
    using x(7) unfolding and_eq_bits by (auto simp: bit_and_iff)
  ultimately have c: "contains w ?iv x" using x wide assms(2) by (intro contains_update) simp_all
  show ?thesis
  proof (cases "aw < w")
    case False
    then show ?thesis using c by (simp add: interval_zext_def Let_def lo hi)
  next
    case True
    then have "(2 :: int) ^ aw \<le> 2 ^ (w - 1)" by (intro power_increasing) auto
    then have small: "uint z < 2 ^ (w - 1)" if "in_width aw z" for z
      using that w in_width_iff [of aw z] by linarith
    note su = small_sval [OF assms(2) small [OF x(8)]] and sl = small_sval [OF assms(2) small [OF in_width_mono [OF w(1) x(2,1)]]]
      and sx = small_sval [OF assms(2) small [OF x(1)]]
    have "- (2 ^ (w - 1)) \<le> uint (umin a)" using uint_ge_0 [of "umin a"] power_63(2) [of w] by linarith
    then show ?thesis using c True su sl sx x(2,3) small [OF x(8)]
      by (simp add: interval_zext_def Let_def lo hi contains_def interval_ok_def interval_wf_def word_le_def)
  qed
qed

lemma sext_value:
  assumes "valid_width aw" "valid_width w" "aw \<le> w" "in_width aw x"
  shows "uint (sign_extend_bits x aw AND width_mask w) = sval aw x mod 2 ^ w"
    and "sval w (sign_extend_bits x aw AND width_mask w) = sval aw x"
proof -
  have w: "w \<le> 64" using assms(2) by (simp add: valid_width_def)
  show u: "uint (sign_extend_bits x aw AND width_mask w) = sval aw x mod 2 ^ w"
    by (simp only: uint_mask [OF w] uint_sint_mod [OF w])
  have "(2 :: int) ^ (aw - 1) \<le> 2 ^ (w - 1)" using assms(3) by (intro power_increasing) auto
  then have "- (2 ^ (w - 1)) \<le> sval aw x" "sval aw x < 2 ^ (w - 1)"
    using sval_range [OF assms(4,1)] by linarith+
  then show "sval w (sign_extend_bits x aw AND width_mask w) = sval aw x" by (rule sval_of_mod(2) [OF assms(2) u])
qed

lemma sext_contains:
  assumes "valid_width aw" "valid_width w" "aw \<le> w" "contains aw a x"
  shows "contains w (interval_sext a w) (sign_extend_bits x aw AND width_mask w)"
proof -
  note x = containsD [OF assms(4)]
  have w: "aw \<le> 64" "w \<le> 64" using assms by (simp_all add: valid_width_def)
  let ?v = "sign_extend_bits x aw AND width_mask w"
  note v = sext_value [OF assms(1-3) x(1)]
  have p: "(2 :: int) ^ (aw - 1) \<le> 2 ^ (w - 1)" "(2 :: int) ^ w = 2 * 2 ^ (w - 1)"
    using assms(2,3) power_half [of w] by (auto simp: valid_width_def intro: power_increasing)
  have b: "- (2 ^ (w - 1)) \<le> sint (smin a)" "sint (smax a) < 2 ^ (w - 1)" using x(9,10) p(1) by linarith+
  have full: "contains w ((full_interval w)\<lparr>smin := smin a, smax := smax a\<rparr>) ?v"
    using full_contains [OF assms(2) in_width_mask] v(2) x(4,5) b by (simp add: contains_def interval_ok_def interval_wf_def)
  show ?thesis
  proof (cases "0 \<le> sint (smin a)")
    case True
    then have S: "0 \<le> sval aw x" using x(4) by linarith
    then have uv: "uint ?v = sval aw x" using v(1) x(5) b(2) p(2) by (simp add: mod_pos_pos_trivial)
    have "uint x = sval aw x" using S sval_eq [OF x(1) assms(1)] x(1) w(1) by (auto simp: in_width_iff split: if_splits)
    then have vx: "?v = x" using uv by (simp add: word_uint_eq_iff)
    have um: "uint (smin a) = sint (smin a)" "uint (smax a) = sint (smax a)"
      using True S x(5) by (auto intro: uint_sint_nonneg)
    have le: "smin a \<le> ?v" "?v \<le> smax a" using um x(4,5) uv by (simp_all add: word_le_def)
    have "uint (smax a) < 2 ^ w" using um(2) b(2) p(2) power_63(2) [of w] by linarith
    then have "in_width w (smax a)" by (simp add: in_width_iff w)
    moreover have "?v AND (known_zeros a OR NOT (width_mask (bits_of (smax a)))) = 0"
      using below_bits [OF le(2)] x(6) vx by (simp add: bit.conj_disj_distrib)
    ultimately show ?thesis using full le True
      by (simp add: interval_sext_def Let_def contains_def interval_ok_def interval_wf_def)
  next
    case neg: False
    show ?thesis
    proof (cases "sint (smax a) < 0")
      case True
      have m: "uint (z AND width_mask w) = sint z + 2 ^ w" if "- (2 ^ (w - 1)) \<le> sint z" "sint z < 0" for z :: i64
      proof -
        have "(sint z + 2 ^ w) mod 2 ^ w = sint z + 2 ^ w"
          using that p(2) by (intro mod_pos_pos_trivial) linarith+
        then show ?thesis by (simp only: uint_mask [OF w(2)] uint_sint_mod [OF w(2)]) simp
      qed
      have S: "sval aw x < 0" "- (2 ^ (w - 1)) \<le> sval aw x" using x(4,5) True b by linarith+
      have "uint ?v = sval aw x + 2 ^ w" using m [OF S(2,1)] .
      moreover have "uint (smin a AND width_mask w) = sint (smin a) + 2 ^ w"
        using b(1) neg by (intro m) simp_all
      moreover have "uint (smax a AND width_mask w) = sint (smax a) + 2 ^ w"
        using S x(5) True by (intro m) linarith+
      ultimately show ?thesis using full neg True x(4,5)
        by (simp add: interval_sext_def Let_def contains_def interval_ok_def interval_wf_def word_le_def)
    next
      case False
      then show ?thesis using full neg by (simp add: interval_sext_def Let_def)
    qed
  qed
qed

lemma uint_shift: "uint (drop_bit k (x :: 'a::len word)) = uint x div 2 ^ k"
proof -
  have "unat (drop_bit k x) = unat x div 2 ^ k" by (rule trans [OF unat_drop_bit_eq drop_bit_eq_div])
  then show ?thesis by (simp only: uint_nat of_nat_div of_nat_power of_nat_numeral)
qed

lemma uint_push: "w \<le> 64 \<Longrightarrow> uint (push_bit k x AND width_mask w) = uint x * 2 ^ k mod 2 ^ w"
proof -
  assume w: "w \<le> 64"
  have "push_bit k x = word_of_int (uint x * 2 ^ k)" by (simp add: push_bit_eq_mult)
  then have "uint (push_bit k x) = uint x * 2 ^ k mod 2 ^ 64" by (simp only: uint_word_of_int) simp
  moreover have "(2 :: int) ^ w dvd 2 ^ 64" using w by (intro le_imp_power_dvd)
  ultimately show ?thesis by (simp only: uint_mask [OF w] mod_mod_cancel)
qed

lemma single_shift: "contains bw b y \<Longrightarrow> umin b = umax b \<Longrightarrow> umin b = y"
  using containsD(2,3) [of bw b y] by simp

lemma lshr_contains:
  assumes "valid_width w" "contains w a x" "contains bw b y"
  shows "contains w (interval_lshr a b w) (drop_bit (shift_count y w) x AND width_mask w)"
proof (cases "umin b = umax b \<and> 0 < shift_count (umin b) w \<and> shift_count (umin b) w < w")
  case False
  then show ?thesis using full_contains [OF assms(1) in_width_mask] by (auto simp: interval_lshr_def Let_def)
next
  case True
  note x = containsD [OF assms(2)]
  have w: "w \<le> 64" using assms(1) by (simp add: valid_width_def)
  define sh where "sh = shift_count (umin b) w"
  have sh: "0 < sh" "sh < w" "shift_count y w = sh" using True single_shift [OF assms(3)] by (auto simp: sh_def)
  have narrow: "in_width (w - sh) (drop_bit sh z)" if "in_width w z" for z
  proof -
    have "bit (drop_bit sh z) n \<longrightarrow> n < w - sh" for n
      using in_width_bit [OF w that, of "sh + n"] by (auto simp: bit_drop_bit_eq)
    then show ?thesis using w unfolding in_width_def and_eq_bits by (simp add: bit_width_mask)
  qed
  have "(2 :: int) ^ (w - sh) \<le> 2 ^ (w - 1)" using sh by (intro power_increasing) auto
  then have small: "uint (drop_bit sh z) < 2 ^ (w - 1)" if "in_width w z" for z
    using narrow [OF that] w in_width_iff [of "w - sh" "drop_bit sh z"] by linarith
  have lo: "in_width w (umin a)" by (rule in_width_mono [OF w x(2,1)])
  let ?v = "drop_bit sh x"
  have v: "?v AND width_mask w = ?v" using small_sval(3) [OF assms(1) small [OF x(1)]] by (simp add: in_width_def)
  note sx = small_sval [OF assms(1) small [OF x(1)]] and su = small_sval [OF assms(1) small [OF x(8)]]
    and sl = small_sval [OF assms(1) small [OF lo]]
  have le: "drop_bit sh (umin a) \<le> ?v" "?v \<le> drop_bit sh (umax a)"
    using x(2,3) by (simp_all only: word_le_def uint_shift zdiv_mono1 zero_less_power zero_less_numeral)
  have "?v AND (drop_bit sh (known_zeros a) OR NOT (width_mask (w - sh))) = 0"
    using x(6) in_width_bit [OF _ narrow [OF x(1)]] w unfolding and_zero_bits
    by (auto simp: bit_or_iff bit_not_iff bit_drop_bit_eq bit_width_mask)
  moreover have "(drop_bit sh (known_ones a) AND width_mask (w - sh)) AND ?v = drop_bit sh (known_ones a) AND width_mask (w - sh)"
    using x(7) unfolding and_eq_bits by (auto simp: bit_and_iff bit_drop_bit_eq)
  moreover have "- (2 ^ (w - 1)) \<le> uint (drop_bit sh (umin a))"
    using uint_ge_0 [of "drop_bit sh (umin a)"] power_63(2) [of w] by linarith
  moreover have "umin b = umax b" "0 < sh \<and> sh < w" using True sh by simp_all
  then have "interval_lshr a b w = \<lparr>umin = drop_bit sh (umin a), umax = drop_bit sh (umax a),
      smin = drop_bit sh (umin a), smax = drop_bit sh (umax a),
      known_zeros = drop_bit sh (known_zeros a) OR NOT (width_mask (w - sh)),
      known_ones = drop_bit sh (known_ones a) AND width_mask (w - sh)\<rparr>"
    by (simp only: interval_lshr_def if_P Let_def sh_def)
  ultimately have "contains w (interval_lshr a b w) ?v"
    using le sx su sl small [OF x(8)] by (simp add: contains_def interval_ok_def interval_wf_def word_le_def)
  then show ?thesis using sh(3) v by simp
qed

lemma power_mult_mono: "uint z \<le> uint u \<Longrightarrow> uint u * 2 ^ k < 2 ^ w \<Longrightarrow> uint z * 2 ^ k mod 2 ^ w = uint z * 2 ^ k"
  for z u :: u64
proof -
  assume le: "uint z \<le> uint u" and u: "uint u * 2 ^ k < 2 ^ w"
  have "uint z * 2 ^ k \<le> uint u * 2 ^ k" using le by (rule mult_right_mono) simp
  then have "uint z * 2 ^ k < 2 ^ w" using u by linarith
  then show ?thesis by (intro mod_pos_pos_trivial) simp_all
qed

text \<open>A signed bound times a power of two, where the product fits.\<close>

lemma sint_times_power:
  assumes "- (2 ^ (w - 1)) \<le> sint (z :: i64)" "sint z < 2 ^ (w - 1)" "w + k < 63" "1 \<le> w"
  shows "sint (z * push_bit k 1) = sint z * 2 ^ k"
proof -
  have p: "(2 :: int) ^ (w - 1) * 2 ^ k \<le> 2 ^ 62"
    unfolding power_add [symmetric] using assms(3,4) by (intro power_increasing) auto
  have "sint z * 2 ^ k \<le> 2 ^ (w - 1) * 2 ^ k" "- (2 ^ (w - 1)) * 2 ^ k \<le> sint z * 2 ^ k"
    using assms(1,2) by (intro mult_right_mono; simp)+
  moreover have "(2 :: int) ^ 62 = 4611686018427387904" by simp
  ultimately have r: "INT64_MIN \<le> sint z * 2 ^ k" "sint z * 2 ^ k \<le> INT64_MAX" using p by linarith+
  have "z * push_bit k 1 = word_of_int (sint z * 2 ^ k)" by simp
  then show ?thesis using sint_of_int64 [OF r] by (simp only:)
qed

lemma shl_contains:
  assumes "valid_width w" "contains w a x" "contains bw b y"
  shows "contains w (interval_shl a b w) (push_bit (shift_count y w) x AND width_mask w)"
proof (cases "umin b = umax b \<and> shift_count (umin b) w < w")
  case False
  then show ?thesis using full_contains [OF assms(1) in_width_mask] by (auto simp: interval_shl_def Let_def)
next
  case True
  note x = containsD [OF assms(2)]
  have w: "1 \<le> w" "w \<le> 64" using assms(1) by (simp_all add: valid_width_def)
  define sh where "sh = shift_count (umin b) w"
  have sh: "sh < w" "shift_count y w = sh" using True single_shift [OF assms(3)] by (auto simp: sh_def)
  let ?m = "width_mask w" and ?v = "push_bit sh x AND width_mask w"
  let ?kz = "(push_bit sh (known_zeros a) OR width_mask sh) OR NOT ?m" and ?ko = "push_bit sh (known_ones a) AND ?m"
  have "?v AND ?kz = 0" using x(6) sh w unfolding and_zero_bits
    by (auto simp: bit_or_iff bit_and_iff bit_not_iff bit_push_bit_iff bit_width_mask)
  moreover have "?ko AND ?v = ?ko" using x(7) unfolding and_eq_bits by (auto simp: bit_and_iff bit_push_bit_iff)
  moreover note full_contains [OF assms(1) in_width_mask, of "push_bit sh x"]
  ultimately have c0: "contains w ((full_interval w)\<lparr>known_zeros := ?kz, known_ones := ?ko\<rparr>) ?v"
    by (simp add: contains_def interval_ok_def interval_wf_def)
  define iv1 where "iv1 = (if sh = 0 \<or> umax a \<le> drop_bit sh ?m
     then (full_interval w)\<lparr>known_zeros := ?kz, known_ones := ?ko, umin := push_bit sh (umin a) AND ?m, umax := push_bit sh (umax a) AND ?m\<rparr>
     else (full_interval w)\<lparr>known_zeros := ?kz, known_ones := ?ko\<rparr>)"
  have c1: "contains w iv1 ?v"
  proof (cases "sh = 0 \<or> umax a \<le> drop_bit sh ?m")
    case cond: True
    have "uint (umax a) * 2 ^ sh < 2 ^ w"
    proof (cases "sh = 0")
      case True
      then show ?thesis using x(8) w by (simp add: in_width_iff)
    next
      case False
      then have "uint (umax a) \<le> (2 ^ w - 1) div 2 ^ sh"
        using cond w by (simp add: word_le_def uint_shift uint_width_mask)
      then have "uint (umax a) * 2 ^ sh \<le> (2 ^ w - 1) div 2 ^ sh * 2 ^ sh" by (intro mult_right_mono) auto
      also have "\<dots> \<le> 2 ^ w - 1" by (metis div_mult_mod_eq le_add_same_cancel1 pos_mod_sign zero_less_numeral zero_less_power)
      finally show ?thesis by linarith
    qed
    note pm = power_mult_mono [OF _ this]
    have "uint (umin a) \<le> uint (umax a)" "uint x \<le> uint (umax a)" "uint (umin a) \<le> uint x"
      using x(2,3) by (simp_all add: word_le_def)
    then have "push_bit sh (umin a) AND ?m \<le> ?v" "?v \<le> push_bit sh (umax a) AND ?m"
      by (simp_all add: word_le_def uint_push [OF w(2)] pm mult_right_mono)
    then show ?thesis using c0 cond by (simp add: iv1_def contains_def interval_ok_def interval_wf_def)
  next
    case False
    then show ?thesis using c0 by (simp add: iv1_def)
  qed
  have "umin b = umax b" "sh < w" using True sh by simp_all
  then have shl: "interval_shl a b w = (if w + sh < 63 then
      (if sint (smin a * push_bit sh 1) \<ge> sint (- push_bit (w - 1) 1 :: i64) \<and>
          sint (smax a * push_bit sh 1) \<le> sint (push_bit (w - 1) 1 - 1 :: i64)
       then iv1\<lparr>smin := smin a * push_bit sh 1, smax := smax a * push_bit sh 1\<rparr> else iv1) else iv1)"
    by (simp only: interval_shl_def if_P Let_def sh_def iv1_def)
  show ?thesis unfolding sh(2)
  proof (cases "w + sh < 63 \<and> sint (smin a * push_bit sh 1) \<ge> sint (- push_bit (w - 1) 1 :: i64) \<and>
      sint (smax a * push_bit sh 1) \<le> sint (push_bit (w - 1) 1 - 1 :: i64)")
    case False
    then have "interval_shl a b w = iv1" unfolding shl by (simp only: split: if_split) blast
    then show "contains w (interval_shl a b w) ?v" using c1 by simp
  next
    case small: True
    have "sint (bv_min_signed w) = - (2 ^ (w - 1))" "sint (bv_max_signed w) = 2 ^ (w - 1) - 1"
      using sint_min_max [OF assms(1)] by simp_all
    moreover have "bv_min_signed w = - push_bit (w - 1) 1" "bv_max_signed w = push_bit (w - 1) 1 - 1"
      using small by (simp_all add: bv_min_signed_def bv_max_signed_def)
    ultimately have mm: "sint (- push_bit (w - 1) 1 :: i64) = - (2 ^ (w - 1))" "sint (push_bit (w - 1) 1 - 1 :: i64) = 2 ^ (w - 1) - 1"
      by simp_all
    have ss: "sint (smin a) < 2 ^ (w - 1)" "- (2 ^ (w - 1)) \<le> sint (smax a)" using x(4,5,9,10) by linarith+
    have lo: "sint (smin a * push_bit sh 1) = sint (smin a) * 2 ^ sh"
      using sint_times_power [OF x(9) ss(1)] small w by simp
    have hi: "sint (smax a * push_bit sh 1) = sint (smax a) * 2 ^ sh"
      using sint_times_power [OF ss(2) x(10)] small w by simp
    have S: "sint (smin a) * 2 ^ sh \<le> sval w x * 2 ^ sh" "sval w x * 2 ^ sh \<le> sint (smax a) * 2 ^ sh"
      using x(4,5) by (intro mult_right_mono; simp)+
    have "uint x mod 2 ^ w = sval w x mod 2 ^ w" using sval_mod [OF x(1) assms(1)] x(1) w by (simp add: in_width_iff)
    then have "uint ?v = sval w x * 2 ^ sh mod 2 ^ w" unfolding uint_push [OF w(2)] by (metis mod_mult_left_eq)
    then have "sval w ?v = sval w x * 2 ^ sh"
      using S small unfolding lo hi mm by (intro sval_of_mod(2) [OF assms(1)]) linarith+
    then have "contains w (iv1\<lparr>smin := smin a * push_bit sh 1, smax := smax a * push_bit sh 1\<rparr>) ?v"
      using c1 S small unfolding lo hi mm
      by (intro contains_signed) (simp_all only: lo hi mm, linarith+)
    then show "contains w (interval_shl a b w) ?v" using small by (simp only: shl if_True simp_thms)
  qed
qed

lemma sum_at_least_iff: "sum_at_least a b lo \<longleftrightarrow> sint a + sint b \<ge> sint lo"
proof -
  have "sint (a + b) = sint a + sint b" if "INT64_MIN \<le> sint a + sint b" "sint a + sint b \<le> INT64_MAX"
    using sint_of_int64 [OF that] by simp
  then show ?thesis unfolding sum_at_least_def
    using sint_range64 [of a] sint_range64 [of b] sint_range64 [of lo] by (smt (verit))
qed

lemma sum_at_most_iff: "sum_at_most a b hi \<longleftrightarrow> sint a + sint b \<le> sint hi"
proof -
  have "sint (a + b) = sint a + sint b" if "INT64_MIN \<le> sint a + sint b" "sint a + sint b \<le> INT64_MAX"
    using sint_of_int64 [OF that] by simp
  then show ?thesis unfolding sum_at_most_def
    using sint_range64 [of a] sint_range64 [of b] sint_range64 [of hi] by (smt (verit))
qed

lemma usum_at_most_iff: "usum_at_most a b m \<longleftrightarrow> uint a + uint b \<le> uint m"
  using uint_ge_0 [of b] unfolding usum_at_most_def word_le_def uint_sub_if' by (smt (verit))

lemma uint_add_exact: "uint a + uint b \<le> uint (m :: u64) \<Longrightarrow> uint (a + b) = uint a + uint b" for a b :: u64
  using uint_range64 [of m] uint_ge_0 [of a] uint_ge_0 [of b] by (simp add: uint_word_ariths)

lemma add_value_mod:
  assumes "w \<le> 64"
  shows "uint ((x + y) AND width_mask w) = (uint x + uint y) mod 2 ^ w"
proof -
  have "(2 :: int) ^ w dvd 2 ^ 64" using assms by (intro le_imp_power_dvd)
  then show ?thesis unfolding uint_mask [OF assms] by (simp add: uint_word_ariths mod_mod_cancel)
qed

lemma sum_of_svals:
  assumes "valid_width w" "in_width w x" "in_width w y"
    and "- (2 ^ (w - 1)) \<le> sval w x + sval w y" "sval w x + sval w y < 2 ^ (w - 1)"
  shows "sval w ((x + y) AND width_mask w) = sval w x + sval w y"
proof -
  have "(uint x + uint y) mod 2 ^ w = (sval w x + sval w y) mod 2 ^ w"
    using sval_mod [OF assms(2,1)] sval_mod [OF assms(3,1)] by (metis mod_add_eq)
  then show ?thesis using assms by (intro sval_of_mod(2)) (simp_all add: add_value_mod valid_width_def)
qed

lemma add_unsigned_contains:
  assumes "valid_width w" "contains w a x" "contains w b y"
    and "usum_at_most (umin a) (umin b) (width_mask w)" "usum_at_most (umax a) (umax b) (width_mask w)"
  shows "contains w ((full_interval w)\<lparr>umin := umin a + umin b, umax := umax a + umax b,
    known_zeros := NOT (width_mask (bits_of (umax a + umax b)))\<rparr>) ((x + y) AND width_mask w)"
proof -
  note x = containsD [OF assms(2)] and y = containsD [OF assms(3)]
  have w: "w \<le> 64" using assms(1) by (simp add: valid_width_def)
  note lo = uint_add_exact [OF assms(4) [unfolded usum_at_most_iff]]
  note hi = uint_add_exact [OF assms(5) [unfolded usum_at_most_iff]]
  have s: "uint (umax a) + uint (umax b) < 2 ^ w" using assms(5) w by (simp add: usum_at_most_iff uint_width_mask)
  have le: "uint (umin a) + uint (umin b) \<le> uint x + uint y" "uint x + uint y \<le> uint (umax a) + uint (umax b)"
    using x(2,3) y(2,3) by (simp_all add: word_le_def)
  then have v: "uint ((x + y) AND width_mask w) = uint x + uint y"
    unfolding add_value_mod [OF w] using s uint_ge_0 [of x] uint_ge_0 [of y] by (intro mod_pos_pos_trivial) linarith+
  have "(x + y) AND width_mask w \<le> umax a + umax b" using le v hi by (simp add: word_le_def)
  then show ?thesis
    using le v lo hi s w full_contains [OF assms(1) in_width_mask, of "x + y"]
    by (intro contains_zeros contains_unsigned below_bits) (simp_all add: word_le_def in_width_iff)
qed

lemma add_contains:
  assumes "valid_width w" "contains w a x" "contains w b y"
  shows "contains w (interval_add a b w) ((x + y) AND width_mask w)"
proof -
  note x = containsD [OF assms(2)] and y = containsD [OF assms(3)]
  have w: "1 \<le> w" "w \<le> 64" using assms(1) by (simp_all add: valid_width_def)
  let ?v = "(x + y) AND width_mask w" and ?m = "width_mask w"
  let ?lo = "smin a + smin b" and ?hi = "smax a + smax b"
  define iv where "iv = (if usum_at_most (umin a) (umin b) ?m \<and> usum_at_most (umax a) (umax b) ?m
     then (full_interval w)\<lparr>umin := umin a + umin b, umax := umax a + umax b,
            known_zeros := NOT (width_mask (bits_of (umax a + umax b)))\<rparr> else full_interval w)"
  have c: "contains w iv ?v"
    unfolding iv_def using add_unsigned_contains [OF assms] full_contains [OF assms(1) in_width_mask]
    by (simp split: if_split)
  show ?thesis
  proof (cases "sum_at_least (smin a) (smin b) (bv_min_signed w) \<and> sum_at_most (smax a) (smax b) (bv_max_signed w)")
    case False
    then have "interval_add a b w = iv" unfolding interval_add_def Let_def iv_def by (simp only: if_False)
    then show ?thesis using c by simp
  next
    case True
    let ?iv = "iv\<lparr>smin := ?lo, smax := ?hi\<rparr>"
    have i: "interval_add a b w = (if sint ?lo \<ge> 0 then
          ?iv\<lparr>umin := max (umin ?iv) ?lo, umax := min (umax ?iv) ?hi,
              known_zeros := known_zeros ?iv OR NOT (width_mask (bits_of (min (umax ?iv) ?hi)))\<rparr>
        else if sint ?hi < 0 then ?iv\<lparr>umin := max (umin ?iv) (?lo AND ?m), umax := min (umax ?iv) (?hi AND ?m)\<rparr>
        else ?iv)"
      unfolding interval_add_def Let_def iv_def if_P [OF True] by (rule refl)
    have S: "sint (smin a) + sint (smin b) \<le> sval w x + sval w y" "sval w x + sval w y \<le> sint (smax a) + sint (smax b)"
      using x(4,5) y(4,5) by linarith+
    have r: "- (2 ^ (w - 1)) \<le> sint (smin a) + sint (smin b)" "sint (smax a) + sint (smax b) < 2 ^ (w - 1)"
      using True sint_min_max [OF assms(1)] by (simp_all add: sum_at_least_iff sum_at_most_iff)
    have "INT64_MIN \<le> sint (smin a) + sint (smin b)" "sint (smin a) + sint (smin b) \<le> INT64_MAX"
        "INT64_MIN \<le> sint (smax a) + sint (smax b)" "sint (smax a) + sint (smax b) \<le> INT64_MAX"
      using r S power_63(1) [OF assms(1)] by linarith+
    then have lo: "sint ?lo = sint (smin a) + sint (smin b)" and hi: "sint ?hi = sint (smax a) + sint (smax b)"
      using sint_of_int64 [of "sint (smin a) + sint (smin b)"] sint_of_int64 [of "sint (smax a) + sint (smax b)"] by simp_all
    have v: "sval w ?v = sval w x + sval w y"
      using r S by (intro sum_of_svals [OF assms(1) x(1) y(1)]) linarith+
    have ci: "contains w ?iv ?v" using c v lo hi S r by (intro contains_signed) simp_all
    note d = containsD [OF ci]
    have u: "uint ?v = (if sval w ?v < 0 then sval w ?v + 2 ^ w else sval w ?v)"
      using sval_eq [OF in_width_mask assms(1), of "x + y"] uint_ge_0 [of ?v] iffD1 [OF in_width_iff [OF w(2)] d(1)]
      by (simp split: if_splits)
    have p: "(2 :: int) ^ w = 2 * 2 ^ (w - 1)" "0 < (2 :: int) ^ (w - 1)" using power_half [of w] w by simp_all
    show ?thesis
    proof (cases "sint ?lo \<ge> 0")
      case pos: True
      have ul: "uint ?lo = sint ?lo" "uint ?hi = sint ?hi" using pos lo hi S by (intro uint_sint_nonneg; linarith)+
      have le: "?lo \<le> ?v" "?v \<le> ?hi" using ul u v lo hi S pos by (simp_all add: word_le_def)
      have "in_width w ?hi" unfolding in_width_iff [OF w(2)] using ul hi r p by linarith
      then have "in_width w (min (umax ?iv) ?hi)" using d(8) by (simp add: min_def)
      moreover have "max (umin ?iv) ?lo \<le> ?v" "?v \<le> min (umax ?iv) ?hi" using le d(2,3) by simp_all
      moreover have "?v AND (known_zeros ?iv OR NOT (width_mask (bits_of (min (umax ?iv) ?hi)))) = 0"
        using d(6) below_bits [OF calculation(3)] by (simp only: bit.conj_disj_distrib) simp
      ultimately have "contains w (?iv\<lparr>umin := max (umin ?iv) ?lo, umax := min (umax ?iv) ?hi,
              known_zeros := known_zeros ?iv OR NOT (width_mask (bits_of (min (umax ?iv) ?hi)))\<rparr>) ?v"
        by (intro contains_zeros contains_unsigned ci)
      then show ?thesis unfolding i using pos by (simp only: if_True)
    next
      case npos: False
      show ?thesis
      proof (cases "sint ?hi < 0")
        case True
        have neg: "uint (z AND ?m) = sint z + 2 ^ w" if "- (2 ^ (w - 1)) \<le> sint z" "sint z < 0" for z :: i64
        proof -
          have "(sint z + 2 ^ w) mod 2 ^ w = sint z + 2 ^ w" using that p by (intro mod_pos_pos_trivial) linarith+
          then show ?thesis by (simp only: uint_mask [OF w(2)] uint_sint_mod [OF w(2)]) simp
        qed
        have "?lo AND ?m \<le> ?v" "?v \<le> ?hi AND ?m"
          using u v lo hi S r True npos neg [of ?lo] neg [of ?hi] by (simp_all add: word_le_def)
        then have "contains w (?iv\<lparr>umin := max (umin ?iv) (?lo AND ?m), umax := min (umax ?iv) (?hi AND ?m)\<rparr>) ?v"
          using d(2,3,8) by (intro contains_unsigned ci) (simp_all add: min_def)
        then show ?thesis unfolding i using npos True by (simp only: if_True if_False)
      next
        case False
        then show ?thesis unfolding i using npos ci by (simp only: if_False)
      qed
    qed
  qed
qed

lemma mul_value_mod:
  assumes "w \<le> 64"
  shows "uint ((x * y) AND width_mask w) = uint x * uint y mod 2 ^ w"
proof -
  have "(2 :: int) ^ w dvd 2 ^ 64" using assms by (intro le_imp_power_dvd)
  then show ?thesis unfolding uint_mask [OF assms] by (simp add: uint_word_ariths mod_mod_cancel)
qed

lemma sdiv_nonneg: "0 \<le> a \<Longrightarrow> 0 \<le> b \<Longrightarrow> a sdiv b = a div b" for a b :: int
  by (cases "a = 0"; cases "b = 0") (simp_all add: signed_divide_int_def sgn_if)

lemma mul_contains:
  assumes "valid_width w" "contains w a x" "contains w b y"
  shows "contains w (interval_mul a b w) ((x * y) AND width_mask w)"
proof (cases "sint (smin a) \<ge> 0 \<and> sint (smin b) \<ge> 0 \<and>
    (smax a = 0 \<or> smax b = 0 \<or> sint (smax a) \<le> sint (bv_max_signed w) sdiv sint (smax b))")
  case False
  then show ?thesis using full_contains [OF assms(1) in_width_mask] unfolding interval_mul_def if_not_P [OF False] by blast
next
  case True
  note x = containsD [OF assms(2)] and y = containsD [OF assms(3)]
  have w: "1 \<le> w" "w \<le> 64" using assms(1) by (simp_all add: valid_width_def)
  let ?v = "(x * y) AND width_mask w" and ?lo = "smin a * smin b" and ?hi = "smax a * smax b"
  have nn: "0 \<le> sint (smin a)" "0 \<le> sint (smin b)" "0 \<le> sval w x" "0 \<le> sval w y" "0 \<le> sint (smax a)" "0 \<le> sint (smax b)"
    using True x(4,5) y(4,5) by linarith+
  have ux: "uint z = sval w z" if "in_width w z" "0 \<le> sval w z" for z
    using that sval_eq [OF that(1) assms(1)] w by (auto simp: in_width_iff split: if_splits)
  have hi: "sint (smax a) * sint (smax b) \<le> 2 ^ (w - 1) - 1"
  proof (cases "sint (smax a) = 0 \<or> sint (smax b) = 0")
    case True
    then show ?thesis using power_63(2) [of w] by auto
  next
    case False
    then have "smax a \<noteq> 0" "smax b \<noteq> 0" by auto
    then have "sint (smax a) \<le> (2 ^ (w - 1) - 1) div sint (smax b)"
      using True False sdiv_nonneg [of "2 ^ (w - 1) - 1", OF _ nn(6)] sint_min_max(2) [OF assms(1)] power_63(2) [of w] by simp
    then have "sint (smax a) * sint (smax b) \<le> (2 ^ (w - 1) - 1) div sint (smax b) * sint (smax b)"
      using nn(6) by (rule mult_right_mono)
    also have "\<dots> \<le> 2 ^ (w - 1) - 1"
      using False nn(6) by (metis div_mult_mod_eq le_add_same_cancel1 order_le_less pos_mod_sign)
    finally show ?thesis .
  qed
  have S: "sint (smin a) * sint (smin b) \<le> sval w x * sval w y" "sval w x * sval w y \<le> sint (smax a) * sint (smax b)"
      "0 \<le> sint (smin a) * sint (smin b)"
    using x(4,5) y(4,5) nn by (auto intro: mult_mono)
  note p63 = power_63(1) [OF assms(1)]
  have slo: "sint ?lo = sint (smin a) * sint (smin b)" and shi: "sint ?hi = sint (smax a) * sint (smax b)"
    using sint_of_int64 [of "sint (smin a) * sint (smin b)"] sint_of_int64 [of "sint (smax a) * sint (smax b)"] S hi p63 by simp_all
  have p: "(2 :: int) ^ w = 2 * 2 ^ (w - 1)" using power_half [of w] w by simp
  have uv: "uint ?v = sval w x * sval w y"
    unfolding mul_value_mod [OF w(2)] ux [OF x(1) nn(3)] ux [OF y(1) nn(4)]
    using S hi p power_63(2) [of w] by (intro mod_pos_pos_trivial) linarith+
  then have "uint ?v < 2 ^ (w - 1)" using S hi by linarith
  note sv = small_sval(1) [OF assms(1) this]
  have u: "uint ?lo = sint ?lo" "uint ?hi = sint ?hi" using slo shi S by (intro uint_sint_nonneg; linarith)+
  have le: "?lo \<le> ?v" "?v \<le> ?hi" using u slo shi uv S by (simp_all add: word_le_def)
  have "uint ?hi < 2 ^ (w - 1)" using u shi hi by linarith
  note hw = small_sval(3) [OF assms(1) this]
  have "- (2 ^ (w - 1)) \<le> sint ?lo" using slo S power_63(2) [of w] by linarith
  then have "contains w ((full_interval w)\<lparr>smin := ?lo, smax := ?hi, umin := ?lo, umax := ?hi,
      known_zeros := NOT (width_mask (bits_of ?hi))\<rparr>) ?v"
    using sv uv slo shi S hi le hw
    by (intro contains_zeros contains_unsigned contains_signed full_contains below_bits assms(1)) simp_all
  then show ?thesis unfolding interval_mul_def if_P [OF True] Let_def .
qed

end
