(* ===== verification/Bv_Terms.thy ===== *)
theory Bv_Terms
  imports Bv_Interval
begin

text \<open>
  The context of the term builder (\<open>class BVContext\<close>): the node table, the interval of every
  node and the table that shares equal nodes (\<open>src/verify/bv_solver.cpp\<close>).  A context is well
  formed when its nodes are integer operations on earlier nodes of the right widths and every
  interval contains every value of its node; interning a node keeps it so.
\<close>

section \<open>Contexts\<close>

record BVVarInfo =
  var_name :: string
  var_width :: nat
  var_node :: BVNodeId
  var_is_float :: bool

record BVContext =
  nodes :: "BVNode list"
  intervals :: "BVInterval list"
  vars :: "BVVarInfo list"
  memo :: "BVNode \<rightharpoonup> BVNodeId"

abbreviation node :: "BVContext \<Rightarrow> BVNodeId \<Rightarrow> BVNode" where
  "node ctx i \<equiv> nodes ctx ! i"

abbreviation node_width :: "BVContext \<Rightarrow> BVNodeId \<Rightarrow> nat" where
  "node_width ctx i \<equiv> bv_width (nodes ctx ! i)"

abbreviation interval_of :: "BVContext \<Rightarrow> BVNodeId \<Rightarrow> BVInterval" where
  "interval_of ctx i \<equiv> intervals ctx ! i"

definition bv_node :: "BVOp \<Rightarrow> nat \<Rightarrow> BVNodeId \<Rightarrow> BVNodeId \<Rightarrow> BVNodeId \<Rightarrow> u64 \<Rightarrow> nat \<Rightarrow> BVNode" where
  "bv_node op w a b c imm extra =
     \<lparr>bv_op = op, bv_width = w, bv_a = a, bv_b = b, bv_c = c, bv_imm = imm, bv_extra = extra\<rparr>"

definition intern :: "BVContext \<Rightarrow> BVNode \<Rightarrow> BVContext \<times> BVNodeId" where
  "intern ctx n = (case memo ctx n of
      Some i \<Rightarrow> (ctx, i)
    | None \<Rightarrow>
        let i = length (nodes ctx)
        in (ctx\<lparr>nodes := nodes ctx @ [n],
                intervals := intervals ctx @ [compute_interval (nodes ctx) (intervals ctx) n],
                memo := (memo ctx)(n \<mapsto> i)\<rparr>, i))"

definition empty_context :: BVContext where
  "empty_context = fst (intern \<lparr>nodes = [], intervals = [], vars = [], memo = Map.empty\<rparr> (bv_node BV_Const 1 0 0 0 0 0))"

definition make_const :: "BVContext \<Rightarrow> u64 \<Rightarrow> nat \<Rightarrow> BVContext \<times> BVNodeId" where
  "make_const ctx val w = intern ctx (bv_node BV_Const w 0 0 0 (val AND width_mask w) 0)"

definition make_var :: "BVContext \<Rightarrow> string \<Rightarrow> nat \<Rightarrow> bool \<Rightarrow> BVContext \<times> BVNodeId" where
  "make_var ctx name w float_var =
     (let idx = length (vars ctx);
          (ctx, i) = intern ctx (bv_node BV_Var w 0 0 0 (of_nat idx) 0)
      in (ctx\<lparr>vars := vars ctx @ [\<lparr>var_name = name, var_width = w, var_node = i, var_is_float = float_var\<rparr>]\<rparr>, i))"

section \<open>Typed tables\<close>

text \<open>What the builder's callers give it: operands of the widths the operation is for.\<close>

definition node_typed :: "BVNode list \<Rightarrow> BVNode \<Rightarrow> bool" where
  "node_typed ns n \<longleftrightarrow>
     (let w = bv_width n; a = bv_a n; b = bv_b n; c = bv_c n; wd = (\<lambda>i. bv_width (ns ! i))
      in valid_width w \<and>
         (case bv_op n of
            BV_Const \<Rightarrow> in_width w (bv_imm n)
          | BV_Var \<Rightarrow> True
          | BV_Extract \<Rightarrow> a < length ns \<and> bv_extra n + w \<le> wd a \<and> unat (bv_imm n) + 1 = bv_extra n + w
          | BV_Concat \<Rightarrow> a < length ns \<and> b < length ns \<and> w = wd a + wd b
          | BV_ZExt \<Rightarrow> a < length ns \<and> 0 < bv_extra n \<and> w = wd a + bv_extra n
          | BV_SExt \<Rightarrow> a < length ns \<and> 0 < bv_extra n \<and> w = wd a + bv_extra n
          | BV_Ite \<Rightarrow> a < length ns \<and> b < length ns \<and> c < length ns \<and> wd a = 1 \<and> wd b = w \<and> wd c = w
          | BV_Fp f \<Rightarrow> False
          | op \<Rightarrow>
              if op \<in> {BV_Not, BV_Neg, BV_Clz, BV_Ctz, BV_Popcnt} then a < length ns \<and> wd a = w
              else if op \<in> {BV_And, BV_Or, BV_Xor, BV_Add, BV_Sub, BV_Mul, BV_UDiv, BV_SDiv, BV_URem, BV_SRem,
                BV_Shl, BV_LShr, BV_AShr} then a < length ns \<and> b < length ns \<and> wd a = w \<and> wd b = w
              else a < length ns \<and> b < length ns \<and> w = 1 \<and> wd b = wd a))"

definition table_typed :: "BVNode list \<Rightarrow> bool" where
  "table_typed ns \<longleftrightarrow> ns \<noteq> [] \<and> (\<forall>i < length ns. node_typed (take i ns) (ns ! i) \<and>
     bv_a (ns ! i) < max 1 i \<and> bv_b (ns ! i) < max 1 i \<and> bv_c (ns ! i) < max 1 i)"

text \<open>The value of a node under an assignment; no node is a floating-point operation.\<close>

definition no_fp :: fp_eval where
  "no_fp = (zero_fpu, zero_math)"

abbreviation bv_val :: "BVNode list \<Rightarrow> BVNodeId \<Rightarrow> u64 list \<Rightarrow> u64" where
  "bv_val ns i vs \<equiv> eval_concrete no_fp ns i vs"

definition node_sem :: "BVNode list \<Rightarrow> BVNode \<Rightarrow> u64 list \<Rightarrow> u64" where
  "node_sem ns n vs =
     (if bv_op n = BV_Var then node_val vs (unat (bv_imm n)) AND width_mask (bv_width n)
      else eval_op no_fp (bv_op n) (bv_width n) (bv_width (ns ! bv_a n)) (bv_width (ns ! bv_b n)) (bv_imm n) (bv_extra n)
        (bv_val ns (bv_a n) vs) (bv_val ns (bv_b n) vs) (bv_val ns (bv_c n) vs))"

lemma node_typed_width: "node_typed ns n \<Longrightarrow> valid_width (bv_width n)"
  by (simp add: node_typed_def Let_def)

lemma typed_width: "table_typed ns \<Longrightarrow> i < length ns \<Longrightarrow> valid_width (bv_width (ns ! i))"
  by (auto simp: table_typed_def dest: node_typed_width)

lemma typed_wf: "table_typed ns \<Longrightarrow> wf_nodes ns"
  unfolding wf_nodes_def
proof (intro allI impI conjI)
  fix i assume t: "table_typed ns" and i: "i < length ns"
  show "1 \<le> bv_width (ns ! i)" using typed_width [OF t i] by (simp add: valid_width_def)
  have n: "node_typed (take i ns) (ns ! i)" using t i by (simp add: table_typed_def)
  show "fp_width f (bv_width (ns ! i))" if "bv_op (ns ! i) = BV_Fp f" for f
    using n that by (simp add: node_typed_def Let_def)
  assume op: "bv_op (ns ! i) \<noteq> BV_Var \<and> bv_op (ns ! i) \<noteq> BV_Const"
  then have "0 < i" using n by (cases i) (auto simp: node_typed_def Let_def split: BVOp.splits)
  then show "bv_a (ns ! i) < i" "bv_b (ns ! i) < i" "bv_c (ns ! i) < i" using t i by (auto simp: table_typed_def max_def)
qed

lemma bv_val_width:
  assumes "table_typed ns" "i < length ns"
  shows "in_width (bv_width (ns ! i)) (bv_val ns i vs)"
  using node_values [where fp = no_fp, OF typed_wf [OF assms(1)] assms(2)] unfolding in_width_def by blast

lemma bv_val_node:
  assumes "table_typed ns" "i < length ns"
  shows "bv_val ns i vs = node_sem ns (ns ! i) vs"
proof -
  let ?n = "ns ! i"
  have v: "bv_val ns i vs = evaluate_node no_fp ns vs (evaluate_all no_fp ns vs) ?n"
    using node_values [where fp = no_fp, OF typed_wf [OF assms(1)] assms(2)] by blast
  show ?thesis
  proof (cases "bv_op ?n = BV_Var \<or> bv_op ?n = BV_Const")
    case True
    then show ?thesis unfolding v by (auto simp: evaluate_node_def node_sem_def)
  next
    case False
    then have c: "bv_a ?n < length ns" "bv_b ?n < length ns" "bv_c ?n < length ns"
      using typed_wf [OF assms(1)] assms(2) by (auto simp: wf_nodes_def)
    have m: "bv_val ns j vs AND width_mask (bv_width (ns ! j)) = bv_val ns j vs" if "j < length ns" for j
      using bv_val_width [OF assms(1) that] by (simp add: in_width_def)
    show ?thesis unfolding v using False c m
      by (simp add: evaluate_node_def node_sem_def eval_node_concrete_def child_width_def Let_def
          eval_concrete_def [symmetric])
  qed
qed

section \<open>Growing a table\<close>

lemma table_upto_append:
  assumes "table_typed ns" "k \<le> length ns"
  shows "table_upto fp (ns @ ms) vs k = table_upto fp ns vs k"
  using assms(2)
proof (induction k)
  case (Suc k)
  let ?n = "ns ! k"
  have c: "bv_op ?n = BV_Var \<or> bv_op ?n = BV_Const \<or> bv_a ?n < length ns \<and> bv_b ?n < length ns \<and> bv_c ?n < length ns"
    using typed_wf [OF assms(1)] Suc.prems unfolding wf_nodes_def by (meson Suc_le_lessD less_trans)
  have "evaluate_node fp (ns @ ms) vs vals ?n = evaluate_node fp ns vs vals ?n" for vals
    using c by (auto simp: evaluate_node_def eval_node_concrete_def child_width_def nth_append)
  then show ?case using Suc by (simp add: table_upto_Suc nth_append)
qed (simp add: table_upto_def)

lemma bv_val_append:
  assumes "table_typed ns" "i < length ns" "table_typed (ns @ ms)"
  shows "bv_val (ns @ ms) i vs = bv_val ns i vs"
proof -
  have t: "evaluate_all no_fp qs vs = table_upto no_fp qs vs (length qs)" for qs
    by (simp add: evaluate_all_def table_upto_def)
  have "take (length ns) (table_upto no_fp (ns @ ms) vs (length (ns @ ms))) = table_upto no_fp ns vs (length ns)"
    using table_upto_prefix [of "length ns" "length (ns @ ms)" "ns @ ms" no_fp vs] table_upto_append [OF assms(1) order_refl]
    by simp
  then have "evaluate_all no_fp (ns @ ms) vs ! i = evaluate_all no_fp ns vs ! i"
    unfolding t using assms(2) by (metis nth_take)
  then show ?thesis using assms(2)
    by (simp add: eval_concrete_def node_val_def t table_upto_length)
qed

lemma node_typed_append: "node_typed ns n \<Longrightarrow> node_typed (ns @ ms) n"
  unfolding node_typed_def Let_def by (cases "bv_op n") (auto simp: nth_append)

text \<open>A context extends another when it only adds nodes.\<close>

definition extends :: "BVContext \<Rightarrow> BVContext \<Rightarrow> bool" where
  "extends ctx ctx' \<longleftrightarrow> (\<exists>ms. nodes ctx' = nodes ctx @ ms)"

definition context_ok :: "BVContext \<Rightarrow> bool" where
  "context_ok ctx \<longleftrightarrow> table_typed (nodes ctx) \<and> length (intervals ctx) = length (nodes ctx) \<and>
     (\<forall>i < length (nodes ctx). \<forall>vs. contains (node_width ctx i) (interval_of ctx i) (bv_val (nodes ctx) i vs)) \<and>
     (\<forall>n i. memo ctx n = Some i \<longrightarrow> i < length (nodes ctx) \<and> nodes ctx ! i = n)"

definition denotes :: "BVContext \<Rightarrow> BVNodeId \<Rightarrow> nat \<Rightarrow> (u64 list \<Rightarrow> u64) \<Rightarrow> bool" where
  "denotes ctx i w f \<longleftrightarrow> i < length (nodes ctx) \<and> node_width ctx i = w \<and> bv_val (nodes ctx) i = f"

lemma extends_refl [simp]: "extends ctx ctx"
  by (simp add: extends_def)

lemma extends_trans: "extends a b \<Longrightarrow> extends b c \<Longrightarrow> extends a c"
  by (auto simp: extends_def)

lemma extends_node: "extends ctx ctx' \<Longrightarrow> i < length (nodes ctx) \<Longrightarrow> nodes ctx' ! i = nodes ctx ! i \<and> i < length (nodes ctx')"
  by (auto simp: extends_def nth_append)

lemma denotes_extends:
  assumes "context_ok ctx" "context_ok ctx'" "extends ctx ctx'" "denotes ctx i w f"
  shows "denotes ctx' i w f"
proof -
  obtain ms where "nodes ctx' = nodes ctx @ ms" using assms(3) by (auto simp: extends_def)
  then show ?thesis using assms bv_val_append [of "nodes ctx" i ms] by (auto simp: context_ok_def denotes_def nth_append)
qed

section \<open>Interning\<close>

lemma eval_in_width:
  assumes "1 \<le> w" "\<And>f. op \<noteq> BV_Fp f"
  shows "in_width w (eval_op no_fp op w aw bw imm extra va vb vc)"
  unfolding in_width_def by (intro eval_op_bounded) (use assms in simp_all)

lemma compute_interval_contains:
  assumes "node_typed ns n"
    and "\<And>i. i < length ns \<Longrightarrow> contains (bv_width (ns ! i)) (ivs ! i) (bv_val ns i vs)"
    and "\<And>i. i < length ns \<Longrightarrow> valid_width (bv_width (ns ! i))"
  shows "contains (bv_width n) (compute_interval ns ivs n) (node_sem ns n vs)"
proof -
  let ?w = "bv_width n"
  have w: "valid_width ?w" using node_typed_width [OF assms(1)] .
  have "bv_op n \<noteq> BV_Fp f" for f using assms(1) by (auto simp: node_typed_def Let_def)
  then have full: "contains ?w (full_interval ?w) (node_sem ns n vs)"
    using w by (intro full_contains) (simp_all add: node_sem_def eval_in_width valid_width_def)
  have w64: "?w \<le> 64" using w by (simp add: valid_width_def)
  have iw: "bv_val ns i vs AND width_mask (bv_width (ns ! i)) = bv_val ns i vs" if "i < length ns" for i
    using containsD(1) [OF assms(2) [OF that]] by (simp add: in_width_def)
  note typed = assms(1) [unfolded node_typed_def Let_def]
  show ?thesis
  proof (cases "bv_op n")
    case BV_Const
    then show ?thesis using const_contains [OF w] by (simp add: compute_interval_def node_sem_def)
  next
    case BV_Extract
    then show ?thesis using typed extract_contains [OF w assms(2)] by (simp add: compute_interval_def node_sem_def)
  next
    case BV_ZExt
    then have a: "bv_a n < length ns" "bv_width (ns ! bv_a n) \<le> ?w" using typed by simp_all
    have "bv_val ns (bv_a n) vs AND width_mask ?w = bv_val ns (bv_a n) vs"
      using in_width_wider [OF containsD(1) [OF assms(2) [OF a(1)]] a(2) w64] by (simp add: in_width_def)
    then show ?thesis using BV_ZExt zext_contains [OF assms(3) [OF a(1)] w a(2) assms(2) [OF a(1)]]
      by (simp add: compute_interval_def node_sem_def)
  next
    case BV_SExt
    then have a: "bv_a n < length ns" "bv_width (ns ! bv_a n) \<le> ?w" using typed by simp_all
    then show ?thesis using BV_SExt sext_contains [OF assms(3) [OF a(1)] w a(2) assms(2) [OF a(1)]]
      by (simp add: compute_interval_def node_sem_def)
  next
    case BV_And
    then have "bv_a n < length ns" "bv_width (ns ! bv_a n) = ?w" "bv_b n < length ns" "bv_width (ns ! bv_b n) = ?w"
      using typed by simp_all
    then show ?thesis
      using BV_And and_contains [OF w] assms(2) [of "bv_a n"] assms(2) [of "bv_b n"] iw [of "bv_b n"]
      by (simp add: compute_interval_def node_sem_def and.assoc)
  next
    case BV_Or
    then have c: "bv_a n < length ns" "bv_width (ns ! bv_a n) = ?w" "bv_b n < length ns" "bv_width (ns ! bv_b n) = ?w"
      using typed by simp_all
    then have "(bv_val ns (bv_a n) vs OR bv_val ns (bv_b n) vs) AND width_mask ?w = bv_val ns (bv_a n) vs OR bv_val ns (bv_b n) vs"
      using iw [of "bv_a n"] iw [of "bv_b n"] by (simp add: bit.conj_disj_distrib2)
    then show ?thesis
      using c BV_Or or_contains [OF w] assms(2) [of "bv_a n"] assms(2) [of "bv_b n"]
      by (simp add: compute_interval_def node_sem_def)
  next
    case BV_LShr
    then show ?thesis using typed lshr_contains [OF w, of "ivs ! bv_a n"] assms(2) [of "bv_a n"] assms(2) [of "bv_b n"]
      by (simp add: compute_interval_def node_sem_def)
  next
    case BV_Shl
    then show ?thesis using typed shl_contains [OF w, of "ivs ! bv_a n"] assms(2) [of "bv_a n"] assms(2) [of "bv_b n"]
      by (simp add: compute_interval_def node_sem_def)
  next
    case BV_Add
    then show ?thesis using typed w64 add_contains [OF w, of "ivs ! bv_a n"] assms(2) [of "bv_a n"] assms(2) [of "bv_b n"]
      by (simp add: compute_interval_def node_sem_def)
  next
    case BV_Mul
    then show ?thesis using typed w64 mul_contains [OF w, of "ivs ! bv_a n"] assms(2) [of "bv_a n"] assms(2) [of "bv_b n"]
      by (simp add: compute_interval_def node_sem_def)
  next
    case BV_Ite
    then show ?thesis using typed ite_contains [of ?w "ivs ! bv_b n" _ "ivs ! bv_c n"] assms(2) [of "bv_b n"] assms(2) [of "bv_c n"]
        iw [of "bv_b n"] iw [of "bv_c n"]
      by (simp add: compute_interval_def node_sem_def)
  qed (use full in \<open>simp_all add: compute_interval_def\<close>)
qed

lemma node_sem_append:
  assumes "table_typed ns" "table_typed (ns @ ms)" "bv_a n < length ns" "bv_b n < length ns" "bv_c n < length ns"
  shows "node_sem (ns @ ms) n = node_sem ns n"
  using assms bv_val_append [OF assms(1) _ assms(2)] by (simp add: fun_eq_iff node_sem_def nth_append)

lemma table_typed_snoc:
  assumes "table_typed ns" "node_typed ns n" "bv_a n < length ns" "bv_b n < length ns" "bv_c n < length ns"
  shows "table_typed (ns @ [n])"
  using assms by (auto simp: table_typed_def nth_append less_Suc_eq)

text \<open>The result of a constructor: a well-formed extension in which the node means \<open>f\<close>.\<close>

definition yields :: "BVContext \<Rightarrow> nat \<Rightarrow> (u64 list \<Rightarrow> u64) \<Rightarrow> BVContext \<times> BVNodeId \<Rightarrow> bool" where
  "yields ctx w f r \<longleftrightarrow> context_ok (fst r) \<and> extends ctx (fst r) \<and> denotes (fst r) (snd r) w f"

lemma intern_yields:
  assumes ok: "context_ok ctx" and n: "node_typed (nodes ctx) n"
    and c: "bv_a n < length (nodes ctx)" "bv_b n < length (nodes ctx)" "bv_c n < length (nodes ctx)"
  shows "yields ctx (bv_width n) (node_sem (nodes ctx) n) (intern ctx n)"
proof -
  have t: "table_typed (nodes ctx)" using ok by (simp add: context_ok_def)
  show ?thesis
  proof (cases "memo ctx n")
    case (Some i)
    then have "i < length (nodes ctx)" "nodes ctx ! i = n" using ok by (auto simp: context_ok_def)
    then show ?thesis using ok bv_val_node [OF t, of i] by (auto simp: intern_def Some yields_def denotes_def)
  next
    case None
    define ctx' where "ctx' = fst (intern ctx n)"
    have n': "nodes ctx' = nodes ctx @ [n]" "intervals ctx' = intervals ctx @ [compute_interval (nodes ctx) (intervals ctx) n]"
        "memo ctx' = (memo ctx)(n \<mapsto> length (nodes ctx))" "snd (intern ctx n) = length (nodes ctx)"
      by (simp_all add: ctx'_def intern_def None Let_def)
    have t': "table_typed (nodes ctx')" unfolding n' by (rule table_typed_snoc [OF t n c])
    have old: "bv_val (nodes ctx') i = bv_val (nodes ctx) i" if "i < length (nodes ctx)" for i
      using bv_val_append [OF t that] t' unfolding n' by blast
    have sem: "bv_val (nodes ctx') (length (nodes ctx)) = node_sem (nodes ctx) n"
      using bv_val_node [OF t', of "length (nodes ctx)"] node_sem_append [OF t, of "[n]" n] t' c
      by (simp add: n' fun_eq_iff)
    have iv: "contains (bv_width n) (compute_interval (nodes ctx) (intervals ctx) n) (node_sem (nodes ctx) n vs)" for vs
      using ok typed_width [OF t] by (intro compute_interval_contains [OF n]) (auto simp: context_ok_def)
    have "context_ok ctx'"
      unfolding context_ok_def
    proof (intro conjI allI impI)
      show "table_typed (nodes ctx')" by (rule t')
      show "length (intervals ctx') = length (nodes ctx')" using ok by (simp add: n' context_ok_def)
      fix i vs assume i: "i < length (nodes ctx')"
      show "contains (node_width ctx' i) (interval_of ctx' i) (bv_val (nodes ctx') i vs)"
      proof (cases "i < length (nodes ctx)")
        case True
        then show ?thesis using ok old [OF True] by (simp add: n' nth_append context_ok_def)
      next
        case False
        then have "i = length (nodes ctx)" using i by (simp add: n')
        then show ?thesis using iv [of vs] sem ok by (simp add: n' nth_append context_ok_def)
      qed
    next
      fix m i assume "memo ctx' m = Some i"
      then show "i < length (nodes ctx')" "nodes ctx' ! i = m"
        using ok less_SucI by (fastforce simp: n' nth_append context_ok_def split: if_splits)+
    qed
    then show ?thesis using sem n' by (auto simp: yields_def denotes_def extends_def ctx'_def [symmetric] nth_append)
  qed
qed

lemma yields_denotes:
  assumes "context_ok ctx" "yields ctx w f r" "denotes ctx i v g"
  shows "denotes (fst r) i v g"
  using assms denotes_extends by (auto simp: yields_def)

lemma yieldsD: "yields ctx w f r \<Longrightarrow> context_ok (fst r)" "yields ctx w f r \<Longrightarrow> extends ctx (fst r)"
    "yields ctx w f r \<Longrightarrow> denotes (fst r) (snd r) w f"
  by (simp_all add: yields_def)

lemma yields_extends: "extends ctx ctx' \<Longrightarrow> yields ctx' w f r \<Longrightarrow> yields ctx w f r"
  by (auto simp: yields_def intro: extends_trans)

lemma yields_self: "context_ok ctx \<Longrightarrow> denotes ctx i w f \<Longrightarrow> yields ctx w f (ctx, i)"
  by (simp add: yields_def)

lemma context_pos: "context_ok ctx \<Longrightarrow> 0 < length (nodes ctx)"
  by (auto simp: context_ok_def table_typed_def)

lemma bv_node_simps [simp]:
  "bv_op (bv_node op w a b c imm extra) = op" "bv_width (bv_node op w a b c imm extra) = w"
  "bv_a (bv_node op w a b c imm extra) = a" "bv_b (bv_node op w a b c imm extra) = b"
  "bv_c (bv_node op w a b c imm extra) = c" "bv_imm (bv_node op w a b c imm extra) = imm"
  "bv_extra (bv_node op w a b c imm extra) = extra"
  by (simp_all add: bv_node_def)

lemma make_const_yields:
  assumes "context_ok ctx" "valid_width w"
  shows "yields ctx w (\<lambda>_. v AND width_mask w) (make_const ctx v w)"
proof -
  have "node_sem (nodes ctx) (bv_node BV_Const w 0 0 0 (v AND width_mask w) 0) = (\<lambda>_. v AND width_mask w)"
    by (simp add: node_sem_def fun_eq_iff and.assoc)
  then show ?thesis
    using intern_yields [OF assms(1), of "bv_node BV_Const w 0 0 0 (v AND width_mask w) 0"] context_pos [OF assms(1)] assms(2)
    by (simp add: make_const_def node_typed_def)
qed

lemma make_const_node: "context_ok ctx \<Longrightarrow> valid_width w \<Longrightarrow>
    nodes (fst (make_const ctx v w)) ! snd (make_const ctx v w) = bv_node BV_Const w 0 0 0 (v AND width_mask w) 0"
  by (auto simp: make_const_def intern_def Let_def context_ok_def split: option.splits)

lemma empty_context_ok: "context_ok empty_context"
proof -
  have v1: "valid_width (Suc 0)" by (simp add: valid_width_def)
  have "contains (Suc 0) (interval_const 0 (Suc 0)) (bv_val [bv_node BV_Const (Suc 0) 0 0 0 0 0] 0 vs)" for vs
    using const_contains [OF v1, of 0]
    by (simp add: eval_concrete_def evaluate_all_def evaluate_node_def node_val_def)
  then show ?thesis
    by (auto simp: empty_context_def intern_def context_ok_def table_typed_def node_typed_def compute_interval_def v1
        in_width_def split: if_splits)
qed

section \<open>Intervals are sound\<close>

text \<open>
  C19.  Interning keeps a context well formed, and the interval computed for the node contains
  every value the node can have: its unsigned and its signed reading lie between the bounds, the
  bits known to be zero are zero and the bits known to be one are one.
\<close>

theorem intervals_contain_values:
  assumes "context_ok ctx" "node_typed (nodes ctx) n"
    and "bv_a n < length (nodes ctx)" "bv_b n < length (nodes ctx)" "bv_c n < length (nodes ctx)"
  shows "case intern ctx n of (ctx', i) \<Rightarrow>
    context_ok ctx' \<and> i < length (nodes ctx') \<and>
    (let v = eval_concrete no_fp (nodes ctx') i vs; iv = intervals ctx' ! i
     in umin iv \<le> v \<and> v \<le> umax iv \<and>
        sint (smin iv) \<le> sint (sign_extend_bits v (bv_width n)) \<and> sint (sign_extend_bits v (bv_width n)) \<le> sint (smax iv) \<and>
        v AND known_zeros iv = 0 \<and> known_ones iv AND v = known_ones iv)"
proof -
  obtain ctx' i where r: "intern ctx n = (ctx', i)" by (cases "intern ctx n")
  have y: "context_ok ctx'" "denotes ctx' i (bv_width n) (node_sem (nodes ctx) n)"
    using intern_yields [OF assms] r by (simp_all add: yields_def)
  then have "contains (bv_width n) (interval_of ctx' i) (eval_concrete no_fp (nodes ctx') i vs)"
    by (auto simp: context_ok_def denotes_def)
  from containsD [OF this] show ?thesis using y r by (simp add: Let_def denotes_def)
qed

theorem intervals_contain_values_witness:
  "case intern empty_context (bv_node BV_ZExt 8 0 0 0 0 7) of (ctx', i) \<Rightarrow>
     i = 1 \<and> context_ok ctx' \<and> eval_concrete no_fp (nodes ctx') i [] \<le> umax (intervals ctx' ! i)"
proof -
  let ?n = "bv_node BV_ZExt 8 0 0 0 0 7"
  have e: "nodes empty_context = [bv_node BV_Const 1 0 0 0 0 0]" "memo empty_context = Map.empty (bv_node BV_Const 1 0 0 0 0 0 \<mapsto> 0)"
    by (simp_all add: empty_context_def intern_def)
  have "node_typed (nodes empty_context) ?n" "bv_a ?n < length (nodes empty_context)" "bv_b ?n < length (nodes empty_context)"
      "bv_c ?n < length (nodes empty_context)"
    by (simp_all add: e node_typed_def valid_width_def)
  from intervals_contain_values [OF empty_context_ok this, of "[]"] show ?thesis
    by (simp add: intern_def e bv_node_def Let_def)
qed

end
