(* ===== verification/Bv_Simplify.thy ===== *)
theory Bv_Simplify
  imports Bv_Terms
begin

text \<open>
  The simplifying constructors of terms (\<open>BVContext::make_*\<close> of \<open>src/verify/bv_solver.cpp\<close>) on
  integer operations.  The switch of \<open>make_binary\<close> is one definition per group of operations
  that call each other; a group that recurses is a partial function, whose value is \<^const>\<open>None\<close>
  where the recursion does not end.  The simplifications of floating-point operations
  (\<open>simplify_fp_unary\<close>, \<open>simplify_fp_binary\<close>, \<open>simplify_fp_ite\<close>) do nothing on integer terms and are
  left out.  The theorems show that every constructor returns, at every width from 1 to 64, and
  that the node it returns has the value of the operation it was asked for.
\<close>

section \<open>Shared parts of the constructors\<close>

definition is_const :: "BVNode \<Rightarrow> bool" where
  "is_const n \<longleftrightarrow> bv_op n = BV_Const"

definition is_commutative :: "BVOp \<Rightarrow> bool" where
  "is_commutative op \<longleftrightarrow> op \<in> {BV_And, BV_Or, BV_Xor, BV_Add, BV_Mul, BV_Eq, BV_Ne, BV_UAddOvf, BV_SAddOvf, BV_UMulOvf, BV_SMulOvf}"

definition order_operands :: "BVContext \<Rightarrow> BVOp \<Rightarrow> BVNodeId \<Rightarrow> BVNodeId \<Rightarrow> BVNodeId \<times> BVNodeId" where
  "order_operands ctx op a b =
     (let ka = is_const (node ctx a); kb = is_const (node ctx b)
      in if is_commutative op \<and> (ka \<and> \<not> kb \<or> ka = kb \<and> a > b) then (b, a) else (a, b))"

definition fold_consts :: "BVContext \<Rightarrow> BVOp \<Rightarrow> BVNodeId \<Rightarrow> BVNodeId \<Rightarrow> nat \<Rightarrow> BVContext \<times> BVNodeId" where
  "fold_consts ctx op a b w =
     make_const ctx (eval_node_concrete no_fp (nodes ctx) (bv_node op w a b 0 0 0)
       (bv_imm (node ctx a)) (bv_imm (node ctx b)) 0) w"

definition make_binary_node :: "BVContext \<Rightarrow> BVOp \<Rightarrow> BVNodeId \<Rightarrow> BVNodeId \<Rightarrow> nat \<Rightarrow> BVContext \<times> BVNodeId" where
  "make_binary_node ctx op a b w = intern ctx (bv_node op w a b 0 0 0)"

text \<open>\<open>make_unary\<close> but for negation, which is a subtraction.\<close>

definition make_unary_node :: "BVContext \<Rightarrow> BVOp \<Rightarrow> BVNodeId \<Rightarrow> nat \<Rightarrow> BVContext \<times> BVNodeId" where
  "make_unary_node ctx op a w =
     (let na = node ctx a
      in if is_const na
         then make_const ctx (eval_node_concrete no_fp (nodes ctx) (bv_node op w a 0 0 0 0) (bv_imm na) 0 0) w
         else if op = BV_Not \<and> bv_op na = BV_Not then (ctx, bv_a na)
         else intern ctx (bv_node op w a 0 0 0 0))"

section \<open>Bitwise operations\<close>

type_synonym built = "(BVContext \<times> BVNodeId) option"

partial_function (option) make_and :: "BVContext \<Rightarrow> BVNodeId \<Rightarrow> BVNodeId \<Rightarrow> nat \<Rightarrow> built" where
  "make_and ctx a0 b0 w =
     (let m = width_mask (node_width ctx a0);
          (a, b) = order_operands ctx BV_And a0 b0;
          ca = node ctx a; cb = node ctx b; kb = is_const cb; imm = bv_imm cb;
          kz = known_zeros (interval_of ctx a)
      in if is_const ca \<and> kb then Some (fold_consts ctx BV_And a b w)
         else if a = b then Some (ctx, a)
         else if kb \<and> imm = 0 then Some (make_const ctx 0 w)
         else if kb \<and> imm = m then Some (ctx, a)
         else if kb \<and> kz OR NOT imm = kz then Some (ctx, a)
         else if kb \<and> kz AND imm = imm then Some (make_const ctx 0 w)
         else if bv_op ca = BV_Not \<and> bv_a ca = b then Some (make_const ctx 0 w)
         else if bv_op cb = BV_Not \<and> bv_a cb = a then Some (make_const ctx 0 w)
         else if bv_op ca = BV_And \<and> is_const (node ctx (bv_b ca)) \<and> kb then
           (case make_const ctx (bv_imm (node ctx (bv_b ca)) AND imm) w of (ctx, c) \<Rightarrow> make_and ctx (bv_a ca) c w)
         else Some (make_binary_node ctx BV_And a b w))"

partial_function (option) make_or :: "BVContext \<Rightarrow> BVNodeId \<Rightarrow> BVNodeId \<Rightarrow> nat \<Rightarrow> built" where
  "make_or ctx a0 b0 w =
     (let m = width_mask (node_width ctx a0);
          (a, b) = order_operands ctx BV_Or a0 b0;
          ca = node ctx a; cb = node ctx b; kb = is_const cb; imm = bv_imm cb
      in if is_const ca \<and> kb then Some (fold_consts ctx BV_Or a b w)
         else if a = b then Some (ctx, a)
         else if kb \<and> imm = 0 then Some (ctx, a)
         else if kb \<and> imm = m then Some (make_const ctx m w)
         else if bv_op ca = BV_Not \<and> bv_a ca = b then Some (make_const ctx m w)
         else if bv_op cb = BV_Not \<and> bv_a cb = a then Some (make_const ctx m w)
         else if bv_op ca = BV_Or \<and> is_const (node ctx (bv_b ca)) \<and> kb then
           (case make_const ctx (bv_imm (node ctx (bv_b ca)) OR imm) w of (ctx, c) \<Rightarrow> make_or ctx (bv_a ca) c w)
         else if bv_op ca = BV_And \<and> bv_op cb = BV_And \<and> bv_a ca = bv_a cb then
           Option.bind (make_or ctx (bv_b ca) (bv_b cb) w) (\<lambda>(ctx, t). make_and ctx (bv_a ca) t w)
         else if bv_op ca = BV_And \<and> bv_op cb = BV_And \<and> bv_a ca = bv_b cb then
           Option.bind (make_or ctx (bv_b ca) (bv_a cb) w) (\<lambda>(ctx, t). make_and ctx (bv_a ca) t w)
         else if bv_op ca = BV_And \<and> bv_op cb = BV_And \<and> bv_b ca = bv_a cb then
           Option.bind (make_or ctx (bv_a ca) (bv_b cb) w) (\<lambda>(ctx, t). make_and ctx (bv_b ca) t w)
         else if bv_op ca = BV_And \<and> bv_op cb = BV_And \<and> bv_b ca = bv_b cb then
           Option.bind (make_or ctx (bv_a ca) (bv_a cb) w) (\<lambda>(ctx, t). make_and ctx (bv_b ca) t w)
         else Some (make_binary_node ctx BV_Or a b w))"

partial_function (option) make_xor :: "BVContext \<Rightarrow> BVNodeId \<Rightarrow> BVNodeId \<Rightarrow> nat \<Rightarrow> built" where
  "make_xor ctx a0 b0 w =
     (let m = width_mask (node_width ctx a0);
          (a, b) = order_operands ctx BV_Xor a0 b0;
          ca = node ctx a; cb = node ctx b; kb = is_const cb; imm = bv_imm cb
      in if is_const ca \<and> kb then Some (fold_consts ctx BV_Xor a b w)
         else if a = b then Some (make_const ctx 0 w)
         else if kb \<and> imm = 0 then Some (ctx, a)
         else if kb \<and> imm = m then Some (make_unary_node ctx BV_Not a w)
         else if bv_op ca = BV_Xor \<and> bv_a ca = b then Some (ctx, bv_b ca)
         else if bv_op ca = BV_Xor \<and> bv_b ca = b then Some (ctx, bv_a ca)
         else if bv_op cb = BV_Xor \<and> bv_a cb = a then Some (ctx, bv_b cb)
         else if bv_op cb = BV_Xor \<and> bv_b cb = a then Some (ctx, bv_a cb)
         else if bv_op ca = BV_Xor \<and> is_const (node ctx (bv_b ca)) \<and> kb then
           (case make_const ctx (bv_imm (node ctx (bv_b ca)) XOR imm) w of (ctx, c) \<Rightarrow> make_xor ctx (bv_a ca) c w)
         else Some (make_binary_node ctx BV_Xor a b w))"

section \<open>Reasoning about constructors\<close>

definition returns :: "BVContext \<Rightarrow> nat \<Rightarrow> (u64 list \<Rightarrow> u64) \<Rightarrow> built \<Rightarrow> bool" where
  "returns ctx w f res \<longleftrightarrow> (\<exists>r. res = Some r \<and> yields ctx w f r)"

lemma returns_Some [simp]: "returns ctx w f (Some r) \<longleftrightarrow> yields ctx w f r"
  by (simp add: returns_def)

lemma returns_extends: "extends ctx ctx' \<Longrightarrow> returns ctx' w f r \<Longrightarrow> returns ctx w f r"
  by (auto simp: returns_def intro: yields_extends)

lemma returns_const:
  assumes "context_ok ctx" "valid_width w" "\<And>vs. f vs = v AND width_mask w"
  shows "returns ctx w f (Some (make_const ctx v w))"
proof -
  have "f = (\<lambda>_. v AND width_mask w)" using assms(3) by (simp add: fun_eq_iff)
  then show ?thesis using make_const_yields [OF assms(1,2)] by simp
qed

lemma returns_self: "context_ok ctx \<Longrightarrow> denotes ctx i w g \<Longrightarrow> f = g \<Longrightarrow> returns ctx w f (Some (ctx, i))"
  by (simp add: yields_self)

text \<open>A constant is made first, and the rest goes on in the extended context.\<close>

lemma const_then:
  assumes "context_ok ctx" "valid_width v"
    and "\<And>ctx' c. context_ok ctx' \<Longrightarrow> extends ctx ctx' \<Longrightarrow> denotes ctx' c v (\<lambda>_. x AND width_mask v) \<Longrightarrow>
      is_const (node ctx' c) \<Longrightarrow> bv_imm (node ctx' c) = x AND width_mask v \<Longrightarrow> returns ctx' w f (k ctx' c)"
  shows "returns ctx w f (case make_const ctx x v of (ctx, c) \<Rightarrow> k ctx c)"
proof -
  obtain ctx' c where c: "make_const ctx x v = (ctx', c)" by (cases "make_const ctx x v")
  have y: "yields ctx v (\<lambda>_. x AND width_mask v) (ctx', c)" using make_const_yields [OF assms(1,2), of x] c by simp
  have "node ctx' c = bv_node BV_Const v 0 0 0 (x AND width_mask v) 0"
    using make_const_node [OF assms(1,2), of x] c by simp
  then have "returns ctx' w f (k ctx' c)" using y by (intro assms(3)) (auto simp: yields_def is_const_def)
  then show ?thesis using y c by (auto simp: yields_def intro: returns_extends)
qed

lemma bind_then:
  assumes "returns ctx v g m"
    and "\<And>ctx' t. context_ok ctx' \<Longrightarrow> extends ctx ctx' \<Longrightarrow> denotes ctx' t v g \<Longrightarrow> returns ctx' w f (k ctx' t)"
  shows "returns ctx w f (Option.bind m (\<lambda>(ctx, t). k ctx t))"
proof -
  obtain ctx' t where m: "m = Some (ctx', t)" "yields ctx v g (ctx', t)" using assms(1) by (auto simp: returns_def)
  then have "returns ctx' w f (k ctx' t)" using assms(2) by (simp add: yields_def)
  then show ?thesis using m by (auto simp: yields_def intro: returns_extends)
qed

text \<open>What the nodes of a well-formed context mean.\<close>

lemma denotes_width: "context_ok ctx \<Longrightarrow> denotes ctx i w f \<Longrightarrow> valid_width w \<and> in_width w (f vs)"
  using bv_val_width typed_width by (auto simp: denotes_def context_ok_def)

lemma denotes_interval: "context_ok ctx \<Longrightarrow> denotes ctx i w f \<Longrightarrow> contains w (interval_of ctx i) (f vs)"
  by (auto simp: denotes_def context_ok_def)

lemma denotes_const: "context_ok ctx \<Longrightarrow> denotes ctx i w f \<Longrightarrow> is_const (node ctx i) \<Longrightarrow> f vs = bv_imm (node ctx i)"
proof -
  assume ok: "context_ok ctx" and d: "denotes ctx i w f" and k: "is_const (node ctx i)"
  have t: "table_typed (nodes ctx)" using ok by (simp add: context_ok_def)
  then have "node_typed (take i (nodes ctx)) (node ctx i)" using d by (simp add: table_typed_def denotes_def)
  then have "in_width w (bv_imm (node ctx i))" using k d by (simp add: node_typed_def is_const_def denotes_def)
  moreover have "f vs = node_sem (nodes ctx) (node ctx i) vs" using d bv_val_node [OF t] by (auto simp: denotes_def)
  ultimately show ?thesis using k d by (simp add: node_sem_def is_const_def in_width_def denotes_def)
qed

definition arith_op :: "BVOp \<Rightarrow> bool" where
  "arith_op op \<longleftrightarrow> op \<in> {BV_And, BV_Or, BV_Xor, BV_Add, BV_Sub, BV_Mul, BV_UDiv, BV_SDiv, BV_URem, BV_SRem, BV_Shl, BV_LShr, BV_AShr}"

abbreviation sem2 :: "BVOp \<Rightarrow> nat \<Rightarrow> u64 \<Rightarrow> u64 \<Rightarrow> u64" where
  "sem2 op w x y \<equiv> eval_op no_fp op w w w 0 0 x y 0"

lemma arith_eval: "arith_op op \<Longrightarrow> eval_op no_fp op w aw bw imm extra x y z = sem2 op w x y"
  by (auto simp: arith_op_def)

abbreviation value_of :: "BVContext \<Rightarrow> BVNodeId \<Rightarrow> u64 list \<Rightarrow> u64" where
  "value_of ctx i \<equiv> bv_val (nodes ctx) i"

lemma arith_node:
  assumes "context_ok ctx" "denotes ctx i w f" "bv_op (node ctx i) = op" "arith_op op"
  shows "bv_a (node ctx i) < i" "bv_b (node ctx i) < i" "denotes ctx (bv_a (node ctx i)) w (value_of ctx (bv_a (node ctx i)))"
    and "denotes ctx (bv_b (node ctx i)) w (value_of ctx (bv_b (node ctx i)))"
    and "f vs = sem2 op w (value_of ctx (bv_a (node ctx i)) vs) (value_of ctx (bv_b (node ctx i)) vs)"
proof -
  let ?n = "node ctx i"
  have t: "table_typed (nodes ctx)" and i: "i < length (nodes ctx)" "bv_width ?n = w" "f = value_of ctx i"
    using assms by (auto simp: context_ok_def denotes_def)
  have n: "node_typed (take i (nodes ctx)) ?n" using t i by (simp add: table_typed_def)
  show ab: "bv_a ?n < i" "bv_b ?n < i" using n i assms(3,4) by (auto simp: node_typed_def arith_op_def Let_def)
  show "denotes ctx (bv_a ?n) w (value_of ctx (bv_a ?n))" "denotes ctx (bv_b ?n) w (value_of ctx (bv_b ?n))"
    using n i assms(3,4) ab by (auto simp: node_typed_def arith_op_def Let_def denotes_def)
  show "f vs = sem2 op w (value_of ctx (bv_a ?n) vs) (value_of ctx (bv_b ?n) vs)"
    using bv_val_node [OF t i(1), of vs] assms(3,4) i arith_eval [OF assms(4)]
    by (auto simp: node_sem_def arith_op_def)
qed

lemma not_node:
  assumes "context_ok ctx" "denotes ctx i w f" "bv_op (node ctx i) = BV_Not"
  shows "bv_a (node ctx i) < i" "denotes ctx (bv_a (node ctx i)) w (value_of ctx (bv_a (node ctx i)))"
    and "f vs = NOT (value_of ctx (bv_a (node ctx i)) vs) AND width_mask w"
proof -
  let ?n = "node ctx i"
  have t: "table_typed (nodes ctx)" and i: "i < length (nodes ctx)" "bv_width ?n = w" "f = value_of ctx i"
    using assms by (auto simp: context_ok_def denotes_def)
  have n: "node_typed (take i (nodes ctx)) ?n" using t i by (simp add: table_typed_def)
  show ab: "bv_a ?n < i" using n i assms(3) by (auto simp: node_typed_def Let_def)
  show "denotes ctx (bv_a ?n) w (value_of ctx (bv_a ?n))" using n i assms(3) ab by (auto simp: node_typed_def Let_def denotes_def)
  show "f vs = NOT (value_of ctx (bv_a ?n) vs) AND width_mask w"
    using bv_val_node [OF t i(1), of vs] assms(3) i by (simp add: node_sem_def)
qed

lemma make_binary_node_returns:
  assumes "context_ok ctx" "denotes ctx a w f" "denotes ctx b w g" "arith_op op"
    and "\<And>vs. h vs = sem2 op w (f vs) (g vs)"
  shows "returns ctx w h (Some (make_binary_node ctx op a b w))"
proof -
  let ?n = "bv_node op w a b 0 0 0"
  have d: "a < length (nodes ctx)" "b < length (nodes ctx)" "node_width ctx a = w" "node_width ctx b = w"
      "bv_val (nodes ctx) a = f" "bv_val (nodes ctx) b = g"
    using assms(2,3) by (auto simp: denotes_def)
  have "node_typed (nodes ctx) ?n"
    using d assms(4) denotes_width [OF assms(1,2)] by (auto simp: node_typed_def arith_op_def)
  moreover have "node_sem (nodes ctx) ?n = h"
    using d assms(4,5) arith_eval [OF assms(4)] by (auto simp: node_sem_def arith_op_def fun_eq_iff)
  ultimately show ?thesis
    using intern_yields [OF assms(1), of ?n] d context_pos [OF assms(1)] by (simp add: make_binary_node_def)
qed

lemma fold_consts_returns:
  assumes "context_ok ctx" "denotes ctx a w f" "denotes ctx b w g" "arith_op op"
    and "is_const (node ctx a)" "is_const (node ctx b)" "\<And>vs. h vs = sem2 op w (f vs) (g vs)"
  shows "returns ctx w h (Some (fold_consts ctx op a b w))"
proof -
  have w: "valid_width w" "1 \<le> w" using denotes_width [OF assms(1,2)] by (simp_all add: valid_width_def)
  have fa: "f vs = bv_imm (node ctx a)" "g vs = bv_imm (node ctx b)" "f vs AND width_mask w = f vs" "g vs AND width_mask w = g vs" for vs
    using denotes_const [OF assms(1,2,5)] denotes_const [OF assms(1,3,6)] denotes_width [OF assms(1,2)] denotes_width [OF assms(1,3)]
    by (simp_all add: in_width_def)
  have d: "a < length (nodes ctx)" "b < length (nodes ctx)" "node_width ctx a = w" "node_width ctx b = w"
    using assms(2,3) by (auto simp: denotes_def)
  have "eval_node_concrete no_fp (nodes ctx) (bv_node op w a b 0 0 0) (bv_imm (node ctx a)) (bv_imm (node ctx b)) 0 = h vs" for vs
    using d fa [of vs] assms(7) [of vs] arith_eval [OF assms(4)]
    by (simp add: eval_node_concrete_def Let_def child_width_def)
  moreover have "h vs AND width_mask w = h vs" for vs
    unfolding assms(7) using eval_in_width [OF w(2), of op] assms(4) by (auto simp: in_width_def arith_op_def)
  ultimately show ?thesis unfolding fold_consts_def by (intro returns_const [OF assms(1) w(1)]) metis
qed

text \<open>The size of an operand: constants count nothing, other nodes their position.\<close>

definition weight :: "BVContext \<Rightarrow> BVNodeId \<Rightarrow> nat" where
  "weight ctx i = (if is_const (node ctx i) then 0 else Suc i)"

lemma weight_extends: "extends ctx ctx' \<Longrightarrow> i < length (nodes ctx) \<Longrightarrow> weight ctx' i = weight ctx i"
  using extends_node [of ctx ctx' i] by (simp add: weight_def)

lemma weight_child: "c < i \<Longrightarrow> \<not> is_const (node ctx i) \<Longrightarrow> weight ctx c < weight ctx i"
  by (simp add: weight_def)

lemma weight_const: "is_const (node ctx i) \<Longrightarrow> weight ctx i = 0"
  by (simp add: weight_def)

lemma weight_step:
  assumes "extends ctx ctx'" "c < i" "denotes ctx i w f" "\<not> is_const (node ctx i)"
  shows "weight ctx' c < weight ctx i"
proof -
  have "c < length (nodes ctx)" using assms(2,3) by (simp add: denotes_def)
  then show ?thesis using weight_extends [OF assms(1)] weight_child [OF assms(2,4)] by simp
qed

text \<open>The two orders of the operands of a commutative operation.\<close>

lemma order_cases:
  assumes "denotes ctx a0 w f0" "denotes ctx b0 w g0" "is_commutative op \<Longrightarrow> (\<And>x y. s x y = s y x)"
  obtains a b f g where "order_operands ctx op a0 b0 = (a, b)" "denotes ctx a w f" "denotes ctx b w g"
    "(\<lambda>vs. s (f0 vs) (g0 vs)) = (\<lambda>vs. s (f vs) (g vs))" "weight ctx a + weight ctx b = weight ctx a0 + weight ctx b0"
    "is_commutative op \<longrightarrow> is_const (node ctx a) \<longrightarrow> is_const (node ctx b)"
    "a = a0 \<and> b = b0 \<and> f = f0 \<and> g = g0 \<or> is_commutative op"
proof (cases "is_commutative op \<and> (is_const (node ctx a0) \<and> \<not> is_const (node ctx b0) \<or>
    is_const (node ctx a0) = is_const (node ctx b0) \<and> a0 > b0)")
  case False
  have o: "order_operands ctx op a0 b0 = (a0, b0)" unfolding order_operands_def Let_def if_not_P [OF False] ..
  have k: "is_commutative op \<longrightarrow> is_const (node ctx a0) \<longrightarrow> is_const (node ctx b0)" using False by blast
  show ?thesis by (rule that [of a0 b0 f0 g0]) (use o assms(1,2) k in simp_all)
next
  case True
  then have o: "order_operands ctx op a0 b0 = (b0, a0)" "is_commutative op"
      "is_const (node ctx b0) \<longrightarrow> is_const (node ctx a0)"
    unfolding order_operands_def Let_def if_P [OF True] by blast+
  have c: "(\<lambda>vs. s (f0 vs) (g0 vs)) = (\<lambda>vs. s (g0 vs) (f0 vs))" using assms(3) [OF o(2)] by (intro ext)
  show ?thesis by (rule that [of b0 a0 g0 f0]) (use o assms(1,2) c in simp_all)
qed

lemma returns_if: "(c \<Longrightarrow> returns ctx w f x) \<Longrightarrow> (\<not> c \<Longrightarrow> returns ctx w f y) \<Longrightarrow> returns ctx w f (if c then x else y)"
  by simp

section \<open>Bitwise constructors are exact\<close>

lemma arith_ops [simp]: "arith_op BV_And" "arith_op BV_Or" "arith_op BV_Xor" "arith_op BV_Add" "arith_op BV_Sub"
    "arith_op BV_Mul" "arith_op BV_Shl" "arith_op BV_LShr" "arith_op BV_AShr"
  by (simp_all add: arith_op_def)

lemma commutative_ops [simp]: "is_commutative BV_And" "is_commutative BV_Or" "is_commutative BV_Xor" "is_commutative BV_Add"
    "is_commutative BV_Mul" "is_commutative BV_Eq" "\<not> is_commutative BV_Sub" "\<not> is_commutative BV_Shl"
    "\<not> is_commutative BV_LShr" "\<not> is_commutative BV_AShr" "\<not> is_commutative BV_Ult" "\<not> is_commutative BV_Slt"
  by (simp_all add: is_commutative_def)

lemma make_and_returns:
  assumes "context_ok ctx" "denotes ctx a0 w f0" "denotes ctx b0 w g0"
  shows "returns ctx w (\<lambda>vs. f0 vs AND g0 vs) (make_and ctx a0 b0 w)"
  using assms
proof (induction "weight ctx a0 + weight ctx b0" arbitrary: ctx a0 b0 f0 g0 rule: less_induct)
  case less
  note ok = less.prems(1)
  obtain a b f g where o: "order_operands ctx BV_And a0 b0 = (a, b)" and da: "denotes ctx a w f" and db: "denotes ctx b w g"
      and h: "(\<lambda>vs. f0 vs AND g0 vs) = (\<lambda>vs. f vs AND g vs)" and wt: "weight ctx a + weight ctx b = weight ctx a0 + weight ctx b0"
    by (rule order_cases [OF less.prems(2,3), where s = "(AND)" and op = BV_And]) (auto simp: and.commute)
  have w: "valid_width w" "w \<le> 64" using denotes_width [OF ok da] by (simp_all add: valid_width_def)
  have fw: "f vs AND width_mask w = f vs" and gw: "g vs AND width_mask w = g vs" for vs
    using denotes_width [OF ok da] denotes_width [OF ok db] by (simp_all add: in_width_def)
  have m: "node_width ctx a0 = w" using less.prems(2) by (simp add: denotes_def)
  have kz: "f vs AND known_zeros (interval_of ctx a) = 0" for vs using containsD(6) [OF denotes_interval [OF ok da]] .
  have gk: "g vs = bv_imm (node ctx b)" if "is_const (node ctx b)" for vs using denotes_const [OF ok db that] .
  have andm: "(f vs AND g vs) AND width_mask w = f vs AND g vs" for vs using gw by (simp add: and.assoc)
  have self: "a = b \<Longrightarrow> f = g" using da db by (auto simp: denotes_def)
  show ?case
    unfolding h
  proof (subst make_and.simps, unfold Let_def o m prod.case, intro returns_if)
    assume "is_const (node ctx a) \<and> is_const (node ctx b)"
    then show "returns ctx w (\<lambda>vs. f vs AND g vs) (Some (fold_consts ctx BV_And a b w))"
      using andm by (intro fold_consts_returns [OF ok da db]) simp_all
  next
    assume "a = b"
    then show "returns ctx w (\<lambda>vs. f vs AND g vs) (Some (ctx, a))" using self by (intro returns_self [OF ok da]) simp
  next
    assume "is_const (node ctx b) \<and> bv_imm (node ctx b) = 0"
    then show "returns ctx w (\<lambda>vs. f vs AND g vs) (Some (make_const ctx 0 w))" using gk by (intro returns_const [OF ok w(1)]) simp
  next
    assume "is_const (node ctx b) \<and> bv_imm (node ctx b) = width_mask w"
    then show "returns ctx w (\<lambda>vs. f vs AND g vs) (Some (ctx, a))" using gk fw by (intro returns_self [OF ok da]) simp
  next
    assume c: "is_const (node ctx b) \<and> known_zeros (interval_of ctx a) OR NOT (bv_imm (node ctx b)) = known_zeros (interval_of ctx a)"
    have "f vs AND g vs = f vs" for vs
      using kz [of vs] gk [of vs] c unfolding and_eq_bits and_zero_bits
      by (metis (mono_tags, lifting) bit_not_iff bit_or_iff bit_imp_possible_bit)
    then show "returns ctx w (\<lambda>vs. f vs AND g vs) (Some (ctx, a))" by (intro returns_self [OF ok da]) simp
  next
    assume c: "is_const (node ctx b) \<and> known_zeros (interval_of ctx a) AND bv_imm (node ctx b) = bv_imm (node ctx b)"
    have "f vs AND g vs = (f vs AND known_zeros (interval_of ctx a)) AND bv_imm (node ctx b)" for vs
      using gk [of vs] c by (simp add: and.assoc)
    then have "f vs AND g vs = 0" for vs using kz by simp
    then show "returns ctx w (\<lambda>vs. f vs AND g vs) (Some (make_const ctx 0 w))" by (intro returns_const [OF ok w(1)]) simp
  next
    assume c: "bv_op (node ctx a) = BV_Not \<and> bv_a (node ctx a) = b"
    then have "f vs = NOT (g vs) AND width_mask w" for vs using not_node(3) [OF ok da] db by (simp add: denotes_def)
    then have "f vs AND g vs = 0" for vs by (simp add: and_zero_bits bit_and_iff bit_not_iff)
    then show "returns ctx w (\<lambda>vs. f vs AND g vs) (Some (make_const ctx 0 w))" by (intro returns_const [OF ok w(1)]) simp
  next
    assume c: "bv_op (node ctx b) = BV_Not \<and> bv_a (node ctx b) = a"
    then have "g vs = NOT (f vs) AND width_mask w" for vs using not_node(3) [OF ok db] da by (simp add: denotes_def)
    then have "f vs AND g vs = 0" for vs by (simp add: and_zero_bits bit_and_iff bit_not_iff)
    then show "returns ctx w (\<lambda>vs. f vs AND g vs) (Some (make_const ctx 0 w))" by (intro returns_const [OF ok w(1)]) simp
  next
    assume c: "bv_op (node ctx a) = BV_And \<and> is_const (node ctx (bv_b (node ctx a))) \<and> is_const (node ctx b)"
    note pq = arith_node [OF ok da conjunct1 [OF c] arith_ops(1)]
    have q: "value_of ctx (bv_b (node ctx a)) vs = bv_imm (node ctx (bv_b (node ctx a)))" for vs
      using denotes_const [OF ok pq(4)] c by simp
    show "returns ctx w (\<lambda>vs. f vs AND g vs)
      (case make_const ctx (bv_imm (node ctx (bv_b (node ctx a))) AND bv_imm (node ctx b)) w of (ctx', c) \<Rightarrow> make_and ctx' (bv_a (node ctx a)) c w)"
    proof (rule const_then [OF ok w(1)])
      fix ctx' d assume e: "context_ok ctx'" "extends ctx ctx'" "is_const (node ctx' d)"
        and dd: "denotes ctx' d w (\<lambda>_. (bv_imm (node ctx (bv_b (node ctx a))) AND bv_imm (node ctx b)) AND width_mask w)"
      have "\<not> is_const (node ctx a)" using c by (simp add: is_const_def)
      then have "weight ctx' (bv_a (node ctx a)) + weight ctx' d < weight ctx a0 + weight ctx b0"
        using weight_step [OF e(2) pq(1) da] weight_const [OF e(3)] wt by linarith
      from less.hyps [OF this e(1) denotes_extends [OF ok e(1,2) pq(3)] dd]
      show "returns ctx' w (\<lambda>vs. f vs AND g vs) (make_and ctx' (bv_a (node ctx a)) d w)"
        using gk c q by (simp add: pq(5) ac_simps)
    qed
  next
    show "returns ctx w (\<lambda>vs. f vs AND g vs) (Some (make_binary_node ctx BV_And a b w))"
      using andm by (intro make_binary_node_returns [OF ok da db]) simp_all
  qed
qed

text \<open>The operation of a node and a constant, regrouped so that the constants meet.\<close>

lemma regroup:
  assumes ok: "context_ok ctx" and da: "denotes ctx a w f" and db: "denotes ctx b w g"
    and c: "bv_op (node ctx a) = op" "is_const (node ctx (bv_b (node ctx a)))" "is_const (node ctx b)" and op: "arith_op op"
    and IH: "\<And>ctx' d f' g'. context_ok ctx' \<Longrightarrow> extends ctx ctx' \<Longrightarrow> is_const (node ctx' d) \<Longrightarrow> weight ctx' (bv_a (node ctx a)) + weight ctx' d < weight ctx a + weight ctx b \<Longrightarrow>
      denotes ctx' (bv_a (node ctx a)) w f' \<Longrightarrow> denotes ctx' d w g' \<Longrightarrow>
      returns ctx' w (\<lambda>vs. s (f' vs) (g' vs)) (mk ctx' (bv_a (node ctx a)) d w)"
    and same: "\<And>p vs. in_width w p \<Longrightarrow> f vs = sem2 op w p (bv_imm (node ctx (bv_b (node ctx a)))) \<Longrightarrow>
      s (f vs) (bv_imm (node ctx b)) = s p (k AND width_mask w)"
  shows "returns ctx w (\<lambda>vs. s (f vs) (g vs)) (case make_const ctx k w of (ctx', d) \<Rightarrow> mk ctx' (bv_a (node ctx a)) d w)"
proof (rule const_then [OF ok])
  show "valid_width w" using denotes_width [OF ok da] by simp
  note pq = arith_node [OF ok da c(1) op]
  have q: "value_of ctx (bv_b (node ctx a)) vs = bv_imm (node ctx (bv_b (node ctx a)))" for vs
    using denotes_const [OF ok pq(4) c(2)] .
  have g: "g vs = bv_imm (node ctx b)" for vs using denotes_const [OF ok db c(3)] .
  have nc: "\<not> is_const (node ctx a)" using c(1) op by (auto simp: is_const_def arith_op_def)
  fix ctx' d assume e: "context_ok ctx'" "extends ctx ctx'" "is_const (node ctx' d)" and dd: "denotes ctx' d w (\<lambda>_. k AND width_mask w)"
  have "weight ctx' (bv_a (node ctx a)) + weight ctx' d < weight ctx a + weight ctx b"
    using weight_step [OF e(2) pq(1) da nc] weight_const [OF e(3)] by linarith
  from IH [OF e this denotes_extends [OF ok e(1,2) pq(3)] dd]
  have r: "returns ctx' w (\<lambda>vs. s (value_of ctx (bv_a (node ctx a)) vs) (k AND width_mask w)) (mk ctx' (bv_a (node ctx a)) d w)" .
  have "s (f vs) (g vs) = s (value_of ctx (bv_a (node ctx a)) vs) (k AND width_mask w)" for vs
    unfolding g using same [of "value_of ctx (bv_a (node ctx a)) vs" vs] pq(5) [of vs] q [of vs] denotes_width [OF ok pq(3)] by simp
  then show "returns ctx' w (\<lambda>vs. s (f vs) (g vs)) (mk ctx' (bv_a (node ctx a)) d w)" using r by simp
qed

lemma and_node:
  assumes ok: "context_ok ctx" and d: "denotes ctx i w f" and op: "bv_op (node ctx i) = BV_And"
  shows "f vs = value_of ctx (bv_a (node ctx i)) vs AND value_of ctx (bv_b (node ctx i)) vs"
proof -
  note n = arith_node [OF ok d op arith_ops(1)]
  have "value_of ctx (bv_b (node ctx i)) vs AND width_mask w = value_of ctx (bv_b (node ctx i)) vs"
    using denotes_width [OF ok n(4)] by (simp add: in_width_def)
  then show ?thesis using n(5) [of vs] by (simp add: and.assoc)
qed

lemma make_or_returns:
  assumes "context_ok ctx" "denotes ctx a0 w f0" "denotes ctx b0 w g0"
  shows "returns ctx w (\<lambda>vs. f0 vs OR g0 vs) (make_or ctx a0 b0 w)"
  using assms
proof (induction "weight ctx a0 + weight ctx b0" arbitrary: ctx a0 b0 f0 g0 rule: less_induct)
  case less
  note ok = less.prems(1)
  obtain a b f g where o: "order_operands ctx BV_Or a0 b0 = (a, b)" and da: "denotes ctx a w f" and db: "denotes ctx b w g"
      and h: "(\<lambda>vs. f0 vs OR g0 vs) = (\<lambda>vs. f vs OR g vs)" and wt: "weight ctx a + weight ctx b = weight ctx a0 + weight ctx b0"
    by (rule order_cases [OF less.prems(2,3), where s = "(OR)" and op = BV_Or]) (auto simp: or.commute)
  have w: "valid_width w" "w \<le> 64" using denotes_width [OF ok da] by (simp_all add: valid_width_def)
  have fw: "f vs AND width_mask w = f vs" and gw: "g vs AND width_mask w = g vs" for vs
    using denotes_width [OF ok da] denotes_width [OF ok db] by (simp_all add: in_width_def)
  have m: "node_width ctx a0 = w" using less.prems(2) by (simp add: denotes_def)
  have gk: "g vs = bv_imm (node ctx b)" if "is_const (node ctx b)" for vs using denotes_const [OF ok db that] .
  have orm: "(f vs OR g vs) AND width_mask w = f vs OR g vs" for vs by (simp add: bit.conj_disj_distrib2 fw gw)
  have full: "x OR width_mask w = width_mask w" "(NOT x AND width_mask w) OR x = width_mask w" if "x AND width_mask w = x" for x :: u64
    using that by (simp_all add: bit_eq_iff bit_and_iff bit_or_iff bit_not_iff) blast+
  have IH: "returns ctx' w (\<lambda>vs. f' vs OR g' vs) (make_or ctx' a' b' w)"
    if "context_ok ctx'" "weight ctx' a' + weight ctx' b' < weight ctx a + weight ctx b" "denotes ctx' a' w f'" "denotes ctx' b' w g'"
    for ctx' a' b' f' g'
    using less.hyps [of ctx' a' b' f' g'] that wt by simp
  have distrib: "returns ctx w (\<lambda>vs. f vs OR g vs) (Option.bind (make_or ctx x y w) (\<lambda>(ctx', u). make_and ctx' z u w))"
    if "bv_op (node ctx a) = BV_And" "bv_op (node ctx b) = BV_And" "x < a" "y < b" "denotes ctx x w p" "denotes ctx y w q" "denotes ctx z w r"
      "\<And>vs. f vs OR g vs = r vs AND (p vs OR q vs)" for x y z p q r
  proof (rule bind_then)
    have "\<not> is_const (node ctx a)" "\<not> is_const (node ctx b)" using that(1,2) by (simp_all add: is_const_def)
    then have "weight ctx x + weight ctx y < weight ctx a + weight ctx b"
      using weight_child [of x a ctx] weight_child [of y b ctx] that(3,4) by simp
    then show "returns ctx w (\<lambda>vs. p vs OR q vs) (make_or ctx x y w)" using that by (intro IH [OF ok]) simp_all
    fix ctx' u assume e: "context_ok ctx'" "extends ctx ctx'" "denotes ctx' u w (\<lambda>vs. p vs OR q vs)"
    show "returns ctx' w (\<lambda>vs. f vs OR g vs) (make_and ctx' z u w)"
      unfolding that(8) by (rule make_and_returns [OF e(1) denotes_extends [OF ok e(1,2) that(7)] e(3)])
  qed
  show ?case
    unfolding h
  proof (subst make_or.simps, unfold Let_def o m prod.case, intro returns_if)
    assume "is_const (node ctx a) \<and> is_const (node ctx b)"
    then show "returns ctx w (\<lambda>vs. f vs OR g vs) (Some (fold_consts ctx BV_Or a b w))"
      using orm by (intro fold_consts_returns [OF ok da db]) simp_all
  next
    assume "a = b"
    then show "returns ctx w (\<lambda>vs. f vs OR g vs) (Some (ctx, a))"
      using da db by (intro returns_self [OF ok da]) (auto simp: denotes_def)
  next
    assume "is_const (node ctx b) \<and> bv_imm (node ctx b) = 0"
    then show "returns ctx w (\<lambda>vs. f vs OR g vs) (Some (ctx, a))" using gk by (intro returns_self [OF ok da]) simp
  next
    assume "is_const (node ctx b) \<and> bv_imm (node ctx b) = width_mask w"
    then show "returns ctx w (\<lambda>vs. f vs OR g vs) (Some (make_const ctx (width_mask w) w))"
      using gk fw full by (intro returns_const [OF ok w(1)]) simp
  next
    assume "bv_op (node ctx a) = BV_Not \<and> bv_a (node ctx a) = b"
    then have "f vs = NOT (g vs) AND width_mask w" for vs using not_node(3) [OF ok da] db by (simp add: denotes_def)
    then show "returns ctx w (\<lambda>vs. f vs OR g vs) (Some (make_const ctx (width_mask w) w))"
      using gw full by (intro returns_const [OF ok w(1)]) simp
  next
    assume "bv_op (node ctx b) = BV_Not \<and> bv_a (node ctx b) = a"
    then have "g vs = NOT (f vs) AND width_mask w" for vs using not_node(3) [OF ok db] da by (simp add: denotes_def)
    then show "returns ctx w (\<lambda>vs. f vs OR g vs) (Some (make_const ctx (width_mask w) w))"
      using fw full by (intro returns_const [OF ok w(1)]) (simp add: or.commute)
  next
    assume c: "bv_op (node ctx a) = BV_Or \<and> is_const (node ctx (bv_b (node ctx a))) \<and> is_const (node ctx b)"
    have "bv_imm (node ctx b) AND width_mask w = bv_imm (node ctx b)" using gk [of "[]"] gw [of "[]"] c by simp
    then show "returns ctx w (\<lambda>vs. f vs OR g vs)
      (case make_const ctx (bv_imm (node ctx (bv_b (node ctx a))) OR bv_imm (node ctx b)) w of (ctx', d) \<Rightarrow> make_or ctx' (bv_a (node ctx a)) d w)"
      using c by (intro regroup [OF ok da db, where op = BV_Or] IH)
        (auto simp: in_width_def bit.conj_disj_distrib2 or.assoc)
  next
    assume c: "bv_op (node ctx a) = BV_And \<and> bv_op (node ctx b) = BV_And \<and> bv_a (node ctx a) = bv_a (node ctx b)"
    note na = arith_node [OF ok da conjunct1 [OF c] arith_ops(1)] and nb = arith_node [OF ok db conjunct1 [OF conjunct2 [OF c]] arith_ops(1)]
    show "returns ctx w (\<lambda>vs. f vs OR g vs) (Option.bind (make_or ctx (bv_b (node ctx a)) (bv_b (node ctx b)) w)
        (\<lambda>(ctx', t). make_and ctx' (bv_a (node ctx a)) t w))"
      by (rule distrib [OF _ _ na(2) nb(2) na(4) nb(4) na(3)])
        (use c in \<open>simp_all add: and_node [OF ok da] and_node [OF ok db] bit.conj_disj_distrib and.commute\<close>)
  next
    assume c: "bv_op (node ctx a) = BV_And \<and> bv_op (node ctx b) = BV_And \<and> bv_a (node ctx a) = bv_b (node ctx b)"
    note na = arith_node [OF ok da conjunct1 [OF c] arith_ops(1)] and nb = arith_node [OF ok db conjunct1 [OF conjunct2 [OF c]] arith_ops(1)]
    show "returns ctx w (\<lambda>vs. f vs OR g vs) (Option.bind (make_or ctx (bv_b (node ctx a)) (bv_a (node ctx b)) w)
        (\<lambda>(ctx', t). make_and ctx' (bv_a (node ctx a)) t w))"
      by (rule distrib [OF _ _ na(2) nb(1) na(4) nb(3) na(3)])
        (use c in \<open>simp_all add: and_node [OF ok da] and_node [OF ok db] bit.conj_disj_distrib and.commute\<close>)
  next
    assume c: "bv_op (node ctx a) = BV_And \<and> bv_op (node ctx b) = BV_And \<and> bv_b (node ctx a) = bv_a (node ctx b)"
    note na = arith_node [OF ok da conjunct1 [OF c] arith_ops(1)] and nb = arith_node [OF ok db conjunct1 [OF conjunct2 [OF c]] arith_ops(1)]
    show "returns ctx w (\<lambda>vs. f vs OR g vs) (Option.bind (make_or ctx (bv_a (node ctx a)) (bv_b (node ctx b)) w)
        (\<lambda>(ctx', t). make_and ctx' (bv_b (node ctx a)) t w))"
      by (rule distrib [OF _ _ na(1) nb(2) na(3) nb(4) na(4)])
        (use c in \<open>simp_all add: and_node [OF ok da] and_node [OF ok db] bit.conj_disj_distrib and.commute\<close>)
  next
    assume c: "bv_op (node ctx a) = BV_And \<and> bv_op (node ctx b) = BV_And \<and> bv_b (node ctx a) = bv_b (node ctx b)"
    note na = arith_node [OF ok da conjunct1 [OF c] arith_ops(1)] and nb = arith_node [OF ok db conjunct1 [OF conjunct2 [OF c]] arith_ops(1)]
    show "returns ctx w (\<lambda>vs. f vs OR g vs) (Option.bind (make_or ctx (bv_a (node ctx a)) (bv_a (node ctx b)) w)
        (\<lambda>(ctx', t). make_and ctx' (bv_b (node ctx a)) t w))"
      by (rule distrib [OF _ _ na(1) nb(1) na(3) nb(3) na(4)])
        (use c in \<open>simp_all add: and_node [OF ok da] and_node [OF ok db] bit.conj_disj_distrib and.commute\<close>)
  next
    show "returns ctx w (\<lambda>vs. f vs OR g vs) (Some (make_binary_node ctx BV_Or a b w))"
      using orm by (intro make_binary_node_returns [OF ok da db]) simp_all
  qed
qed

text \<open>Complement, and the operands of an exclusive or that meet.\<close>

lemma make_not_yields:
  assumes ok: "context_ok ctx" and d: "denotes ctx a w f"
  shows "yields ctx w (\<lambda>vs. NOT (f vs) AND width_mask w) (make_unary_node ctx BV_Not a w)"
proof -
  have w: "valid_width w" using denotes_width [OF ok d] by simp
  have fw: "f vs AND width_mask w = f vs" for vs using denotes_width [OF ok d] by (simp add: in_width_def)
  have a: "a < length (nodes ctx)" "node_width ctx a = w" "value_of ctx a = f" using d by (simp_all add: denotes_def)
  consider (const) "is_const (node ctx a)" | (inner) "\<not> is_const (node ctx a)" "bv_op (node ctx a) = BV_Not"
    | (node) "\<not> is_const (node ctx a)" "bv_op (node ctx a) \<noteq> BV_Not" by blast
  then show ?thesis
  proof cases
    case const
    then have "returns ctx w (\<lambda>vs. NOT (f vs) AND width_mask w) (Some (make_unary_node ctx BV_Not a w))"
      unfolding make_unary_node_def Let_def using denotes_const [OF ok d const] fw a(2) context_pos [OF ok]
      by (simp del: returns_Some) (rule returns_const [OF ok w], simp add: eval_node_concrete_def child_width_def Let_def bit.conj_disj_distrib2)
    then show ?thesis by simp
  next
    case inner
    note n = not_node [OF ok d inner(2)]
    have "value_of ctx (bv_a (node ctx a)) vs AND width_mask w = value_of ctx (bv_a (node ctx a)) vs" for vs
      using denotes_width [OF ok n(2)] by (simp add: in_width_def)
    then have "NOT (f vs) AND width_mask w = value_of ctx (bv_a (node ctx a)) vs" for vs
      unfolding n(3) by (simp add: bit.conj_disj_distrib2)
    then show ?thesis using inner yields_self [OF ok n(2)] by (simp add: make_unary_node_def)
  next
    case node
    have "node_sem (nodes ctx) (bv_node BV_Not w a 0 0 0 0) = (\<lambda>vs. NOT (f vs) AND width_mask w)"
      using a by (simp add: node_sem_def fun_eq_iff)
    then show ?thesis
      using node intern_yields [OF ok, of "bv_node BV_Not w a 0 0 0 0"] context_pos [OF ok] a w
      by (simp add: make_unary_node_def node_typed_def Let_def)
  qed
qed

lemma xor_node:
  assumes ok: "context_ok ctx" and d: "denotes ctx i w f" and op: "bv_op (node ctx i) = BV_Xor"
  shows "f vs = value_of ctx (bv_a (node ctx i)) vs XOR value_of ctx (bv_b (node ctx i)) vs"
proof -
  note n = arith_node [OF ok d op arith_ops(3)]
  have "value_of ctx (bv_b (node ctx i)) vs AND width_mask w = value_of ctx (bv_b (node ctx i)) vs"
    "value_of ctx (bv_a (node ctx i)) vs AND width_mask w = value_of ctx (bv_a (node ctx i)) vs"
    using denotes_width [OF ok n(4)] denotes_width [OF ok n(3)] by (simp_all add: in_width_def)
  then show ?thesis using n(5) [of vs] by (simp add: bit.conj_xor_distrib2)
qed

lemma make_xor_returns:
  assumes "context_ok ctx" "denotes ctx a0 w f0" "denotes ctx b0 w g0"
  shows "returns ctx w (\<lambda>vs. f0 vs XOR g0 vs) (make_xor ctx a0 b0 w)"
  using assms
proof (induction "weight ctx a0 + weight ctx b0" arbitrary: ctx a0 b0 f0 g0 rule: less_induct)
  case less
  note ok = less.prems(1)
  obtain a b f g where o: "order_operands ctx BV_Xor a0 b0 = (a, b)" and da: "denotes ctx a w f" and db: "denotes ctx b w g"
      and h: "(\<lambda>vs. f0 vs XOR g0 vs) = (\<lambda>vs. f vs XOR g vs)" and wt: "weight ctx a + weight ctx b = weight ctx a0 + weight ctx b0"
    by (rule order_cases [OF less.prems(2,3), where s = "(XOR)" and op = BV_Xor]) (auto simp: xor.commute)
  have w: "valid_width w" "w \<le> 64" using denotes_width [OF ok da] by (simp_all add: valid_width_def)
  have fw: "f vs AND width_mask w = f vs" and gw: "g vs AND width_mask w = g vs" for vs
    using denotes_width [OF ok da] denotes_width [OF ok db] by (simp_all add: in_width_def)
  have m: "node_width ctx a0 = w" using less.prems(2) by (simp add: denotes_def)
  have gk: "g vs = bv_imm (node ctx b)" if "is_const (node ctx b)" for vs using denotes_const [OF ok db that] .
  have xorm: "(f vs XOR g vs) AND width_mask w = f vs XOR g vs" for vs by (simp add: bit.conj_xor_distrib2 fw gw)
  have IH: "returns ctx' w (\<lambda>vs. f' vs XOR g' vs) (make_xor ctx' a' b' w)"
    if "context_ok ctx'" "weight ctx' a' + weight ctx' b' < weight ctx a + weight ctx b" "denotes ctx' a' w f'" "denotes ctx' b' w g'"
    for ctx' a' b' f' g'
    using less.hyps [of ctx' a' b' f' g'] that wt by simp
  note fa = da [unfolded denotes_def] and ga = db [unfolded denotes_def]
  note na = arith_node [OF ok da _ arith_ops(3)] and nb = arith_node [OF ok db _ arith_ops(3)]
  have cancel: "(x XOR y) XOR x = y" "(x XOR y) XOR y = x" "x XOR (x XOR y) = y" "y XOR (x XOR y) = x" for x y :: u64
    by (simp_all add: xor.assoc xor.left_commute xor.commute)
  show ?case
    unfolding h
  proof (subst make_xor.simps, unfold Let_def o m prod.case, intro returns_if)
    assume "is_const (node ctx a) \<and> is_const (node ctx b)"
    then show "returns ctx w (\<lambda>vs. f vs XOR g vs) (Some (fold_consts ctx BV_Xor a b w))"
      using xorm by (intro fold_consts_returns [OF ok da db]) simp_all
  next
    assume "a = b"
    then show "returns ctx w (\<lambda>vs. f vs XOR g vs) (Some (make_const ctx 0 w))"
      using fa ga by (intro returns_const [OF ok w(1)]) auto
  next
    assume "is_const (node ctx b) \<and> bv_imm (node ctx b) = 0"
    then show "returns ctx w (\<lambda>vs. f vs XOR g vs) (Some (ctx, a))" using gk by (intro returns_self [OF ok da]) simp
  next
    assume c: "is_const (node ctx b) \<and> bv_imm (node ctx b) = width_mask w"
    have "f vs XOR g vs = NOT (f vs) AND width_mask w" for vs
      using gk c fw [of vs] by (simp add: bit_eq_iff bit_simps) blast
    then show "returns ctx w (\<lambda>vs. f vs XOR g vs) (Some (make_unary_node ctx BV_Not a w))" using make_not_yields [OF ok da] by simp
  next
    assume c: "bv_op (node ctx a) = BV_Xor \<and> bv_a (node ctx a) = b"
    then show "returns ctx w (\<lambda>vs. f vs XOR g vs) (Some (ctx, bv_b (node ctx a)))"
      using xor_node [OF ok da] ga by (intro returns_self [OF ok na(4)]) (auto simp: cancel)
  next
    assume c: "bv_op (node ctx a) = BV_Xor \<and> bv_b (node ctx a) = b"
    then show "returns ctx w (\<lambda>vs. f vs XOR g vs) (Some (ctx, bv_a (node ctx a)))"
      using xor_node [OF ok da] ga by (intro returns_self [OF ok na(3)]) (auto simp: cancel)
  next
    assume c: "bv_op (node ctx b) = BV_Xor \<and> bv_a (node ctx b) = a"
    then show "returns ctx w (\<lambda>vs. f vs XOR g vs) (Some (ctx, bv_b (node ctx b)))"
      using xor_node [OF ok db] fa by (intro returns_self [OF ok nb(4)]) (auto simp: cancel)
  next
    assume c: "bv_op (node ctx b) = BV_Xor \<and> bv_b (node ctx b) = a"
    then show "returns ctx w (\<lambda>vs. f vs XOR g vs) (Some (ctx, bv_a (node ctx b)))"
      using xor_node [OF ok db] fa by (intro returns_self [OF ok nb(3)]) (auto simp: cancel)
  next
    assume c: "bv_op (node ctx a) = BV_Xor \<and> is_const (node ctx (bv_b (node ctx a))) \<and> is_const (node ctx b)"
    have "bv_imm (node ctx b) AND width_mask w = bv_imm (node ctx b)" using gk [of "[]"] gw [of "[]"] c by simp
    then show "returns ctx w (\<lambda>vs. f vs XOR g vs)
      (case make_const ctx (bv_imm (node ctx (bv_b (node ctx a))) XOR bv_imm (node ctx b)) w of (ctx', d) \<Rightarrow> make_xor ctx' (bv_a (node ctx a)) d w)"
      using c by (intro regroup [OF ok da db, where op = BV_Xor] IH)
        (auto simp: in_width_def bit.conj_xor_distrib2 xor.assoc)
  next
    show "returns ctx w (\<lambda>vs. f vs XOR g vs) (Some (make_binary_node ctx BV_Xor a b w))"
      using xorm by (intro make_binary_node_returns [OF ok da db]) simp_all
  qed
qed

end
