(* ===== verification/Bv_Arith.thy ===== *)
theory Bv_Arith
  imports Bv_Simplify
begin

text \<open>
  The constructors of sums, differences and shifts (\<open>make_binary\<close> of
  \<open>src/verify/bv_solver.cpp\<close>).  The three call each other: a sum of a term with itself is a
  shift, a shift of a sum is a sum of shifts, a difference with a constant is a sum.  The recursion
  ends because every call goes down in a lexicographic order (\<open>arith_below\<close>).
\<close>

section \<open>Sums, differences and shifts\<close>

partial_function (option) make_arith :: "BVContext \<Rightarrow> BVOp \<Rightarrow> BVNodeId \<Rightarrow> BVNodeId \<Rightarrow> nat \<Rightarrow> built" where
  "make_arith ctx op a0 b0 w =
     (let m = width_mask (node_width ctx a0);
          (a, b) = order_operands ctx op a0 b0;
          ca = node ctx a; cb = node ctx b; kb = is_const cb; imm = bv_imm cb
      in if is_const ca \<and> kb then Some (fold_consts ctx op a b w)
         else if op = BV_Add then
           (if kb \<and> imm = 0 then Some (ctx, a)
            else if a = b then
              (if w = 1 then Some (make_const ctx 0 1)
               else case make_const ctx 1 w of (ctx, one) \<Rightarrow> make_arith ctx BV_Shl a one w)
            else if bv_op ca = BV_Add \<and> is_const (node ctx (bv_b ca)) \<and> kb then
              (case make_const ctx (bv_imm (node ctx (bv_b ca)) + imm) w of (ctx, c) \<Rightarrow> make_arith ctx BV_Add (bv_a ca) c w)
            else if bv_op ca = BV_Sub \<and> is_const (node ctx (bv_a ca)) \<and> bv_imm (node ctx (bv_a ca)) = 0 then
              make_arith ctx BV_Sub b (bv_b ca) w
            else if bv_op cb = BV_Sub \<and> is_const (node ctx (bv_a cb)) \<and> bv_imm (node ctx (bv_a cb)) = 0 then
              make_arith ctx BV_Sub a (bv_b cb) w
            else if bv_op ca = BV_Sub \<and> bv_b ca = b then Some (ctx, bv_a ca)
            else if bv_op cb = BV_Sub \<and> bv_b cb = a then Some (ctx, bv_a cb)
            else if (known_zeros (interval_of ctx a) OR known_zeros (interval_of ctx b)) AND m = m then make_or ctx a b w
            else Some (make_binary_node ctx BV_Add a b w))
         else if op = BV_Sub then
           (if kb \<and> imm = 0 then Some (ctx, a)
            else if a = b then Some (make_const ctx 0 w)
            else if kb then (case make_const ctx ((NOT imm + 1) AND m) w of (ctx, c) \<Rightarrow> make_arith ctx BV_Add a c w)
            else if bv_op ca = BV_Add \<and> bv_a ca = b then Some (ctx, bv_b ca)
            else if bv_op ca = BV_Add \<and> bv_b ca = b then Some (ctx, bv_a ca)
            else if bv_op cb = BV_Add \<and> bv_a cb = a then
              (case make_const ctx 0 w of (ctx, z) \<Rightarrow> make_arith ctx BV_Sub z (bv_b cb) w)
            else if bv_op cb = BV_Add \<and> bv_b cb = a then
              (case make_const ctx 0 w of (ctx, z) \<Rightarrow> make_arith ctx BV_Sub z (bv_a cb) w)
            else Some (make_binary_node ctx BV_Sub a b w))
         else if kb then
           (let sh = imm AND of_nat (shift_mask w); cab = node ctx (bv_b ca); kab = is_const cab;
                prev_sh = bv_imm cab AND of_nat (shift_mask w)
            in if sh \<noteq> imm then
                 (case make_const ctx sh (bv_width cb) of (ctx, c) \<Rightarrow> make_arith ctx op a c w)
               else if sh = 0 then Some (ctx, a)
               else if sh \<ge> of_nat w \<and> op \<noteq> BV_AShr then Some (make_const ctx 0 w)
               else if bv_op ca = op \<and> kab \<and> prev_sh + sh < of_nat w then
                 (case make_const ctx (prev_sh + sh) w of (ctx, c) \<Rightarrow> make_arith ctx op (bv_a ca) c w)
               else if bv_op ca = op \<and> kab \<and> op \<noteq> BV_AShr then Some (make_const ctx 0 w)
               else if op = BV_Shl \<and> sh < of_nat w \<and> bv_op ca = BV_Add \<and> kab then
                 Option.bind (make_arith ctx BV_Shl (bv_a ca) b w) (\<lambda>(ctx, t1).
                   case make_const ctx (push_bit (unat sh) (bv_imm cab) AND m) w of (ctx, t2) \<Rightarrow> make_arith ctx BV_Add t1 t2 w)
               else if op = BV_Shl \<and> sh < of_nat w \<and> bv_op ca = BV_LShr \<and> kab \<and> bv_imm cab = sh then
                 (case make_const ctx (push_bit (unat sh) m AND m) w of (ctx, c) \<Rightarrow> make_and ctx (bv_a ca) c w)
               else if op = BV_LShr \<and> sh < of_nat w \<and> bv_op ca = BV_Shl \<and> kab \<and> bv_imm cab = sh then
                 (case make_const ctx (drop_bit (unat sh) m) w of (ctx, c) \<Rightarrow> make_and ctx (bv_a ca) c w)
               else Some (make_binary_node ctx op a b w))
         else Some (make_binary_node ctx op a b w))"

section \<open>Arithmetic on masked values\<close>

lemma mask_ring:
  assumes "w \<le> 64"
  shows "((x AND width_mask w) + y) AND width_mask w = (x + y) AND width_mask w"
    and "(x + (y AND width_mask w)) AND width_mask w = (x + y) AND width_mask w"
    and "((x AND width_mask w) - y) AND width_mask w = (x - y) AND width_mask w"
    and "(x - (y AND width_mask w)) AND width_mask w = (x - y) AND width_mask w"
    and "((x AND width_mask w) * y) AND width_mask w = (x * y) AND width_mask w"
    and "(x * (y AND width_mask w)) AND width_mask w = (x * y) AND width_mask w"
proof -
  show add1: "((x AND width_mask w) + y) AND width_mask w = (x + y) AND width_mask w" for x y
    unfolding word_uint_eq_iff add_value_mod [OF assms] by (simp add: uint_mask [OF assms] mod_simps)
  then show "(x + (y AND width_mask w)) AND width_mask w = (x + y) AND width_mask w" by (metis add.commute)
  show mul1: "((x AND width_mask w) * y) AND width_mask w = (x * y) AND width_mask w" for x y
    unfolding word_uint_eq_iff mul_value_mod [OF assms] by (simp add: uint_mask [OF assms] mod_simps)
  then show mul2: "(x * (y AND width_mask w)) AND width_mask w = (x * y) AND width_mask w" for x y by (metis mult.commute)
  show "((x AND width_mask w) - y) AND width_mask w = (x - y) AND width_mask w"
    using add1 [of x "- y"] by simp
  have neg: "(- (y AND width_mask w)) AND width_mask w = (- y) AND width_mask w"
    using mul2 [of "- 1" y] by simp
  show "(x - (y AND width_mask w)) AND width_mask w = (x - y) AND width_mask w"
    using add1 [of "- (y AND width_mask w)" x] add1 [of "- y" x] unfolding neg by (simp add: algebra_simps)
qed

lemma push_mask: "w \<le> 64 \<Longrightarrow> push_bit k (x AND width_mask w) AND width_mask w = push_bit k x AND width_mask w"
  using mask_ring(5) [of w x "2 ^ k"] by (simp add: push_bit_eq_mult)

lemma disjoint_sum: "x AND y = 0 \<Longrightarrow> x + y = x OR y" for x y :: u64
  by (rule disjunctive_add_eq_or)

text \<open>The mask of a shift amount is one less than a power of two that is at least the width.\<close>

lemma shift_pow_power: "\<exists>k. shift_pow (2 ^ j) w = 2 ^ k" "w \<le> shift_pow (2 ^ j) w"
proof (induction "w - 2 ^ j" arbitrary: j rule: less_induct)
  case less
  {
    case 1
    show ?case
    proof (cases "2 ^ j < w")
      case True
      then have "w - 2 ^ Suc j < w - 2 ^ j" by (simp add: diff_less_mono2)
      then show ?thesis using less(1) [of "Suc j"] True by (subst shift_pow.simps) (simp add: mult.commute)
    qed (subst shift_pow.simps, auto)
  next
    case 2
    show ?case
    proof (cases "2 ^ j < w")
      case True
      then have "w - 2 ^ Suc j < w - 2 ^ j" by (simp add: diff_less_mono2)
      then show ?thesis using less(2) [of "Suc j"] True by (subst shift_pow.simps) (simp add: mult.commute)
    qed (subst shift_pow.simps, auto)
  }
qed

lemma shift_mask_mask: "\<exists>k. shift_mask w = 2 ^ k - 1 \<and> w \<le> 2 ^ k"
proof (cases "w \<le> 1")
  case True
  then show ?thesis by (intro exI [of _ 0]) (simp add: shift_mask_def)
next
  case False
  obtain k where "shift_pow 1 w = 2 ^ k" using shift_pow_power(1) [of 0 w] by auto
  then show ?thesis using False shift_pow_power(2) [where j = 0 and w = w] by (intro exI [of _ k]) (simp add: shift_mask_def)
qed

lemma shift_mask_below:
  assumes "c < of_nat w" "w \<le> 64"
  shows "c AND of_nat (shift_mask w) = (c :: u64)"
proof -
  obtain k where k: "shift_mask w = 2 ^ k - 1" "w \<le> 2 ^ k" using shift_mask_mask by blast
  have "unat c < w" using assms by (simp add: word_less_nat_alt unat_of_nat)
  then have c: "unat c < 2 ^ k" using k(2) by simp
  have m: "of_nat (2 ^ k - 1) = (mask k :: u64)" by (simp add: mask_eq_exp_minus_1 of_nat_diff)
  have "take_bit k c = c"
    using c by (simp add: word_unat_eq_iff unsigned_take_bit_eq take_bit_nat_eq_self)
  then show ?thesis unfolding k(1) m by (simp add: take_bit_eq_mask)
qed

lemma shift_count_below: "c < of_nat w \<Longrightarrow> w \<le> 64 \<Longrightarrow> shift_count c w = unat c"
  by (simp add: shift_count_def shift_mask_below)

section \<open>The order of the calls\<close>

text \<open>
  Sums and differences of two variable terms come first, then shifts, then sums and differences
  with a constant; within these the operands get smaller; last, a difference with a constant
  becomes a sum and the amount of a shift is reduced.
\<close>

definition arith_tier :: "BVContext \<Rightarrow> BVOp \<Rightarrow> BVNodeId \<Rightarrow> BVNodeId \<Rightarrow> nat" where
  "arith_tier ctx op a b =
     (if op = BV_Add \<or> op = BV_Sub then (if is_const (node ctx a) \<or> is_const (node ctx b) then 0 else 2) else 1)"

definition arith_fix :: "BVContext \<Rightarrow> BVOp \<Rightarrow> BVNodeId \<Rightarrow> nat \<Rightarrow> nat" where
  "arith_fix ctx op b w =
     (if op = BV_Sub then 1 else if op = BV_Add then 0
      else if bv_imm (node ctx b) AND of_nat (shift_mask w) \<noteq> bv_imm (node ctx b) then 1 else 0)"

definition arith_below :: "nat \<Rightarrow> BVContext \<Rightarrow> BVOp \<Rightarrow> BVNodeId \<Rightarrow> BVNodeId \<Rightarrow> BVContext \<Rightarrow> BVOp \<Rightarrow> BVNodeId \<Rightarrow> BVNodeId \<Rightarrow> bool" where
  "arith_below w ctx' op' a' b' ctx op a b \<longleftrightarrow>
     (let t' = arith_tier ctx' op' a' b'; t = arith_tier ctx op a b;
          s' = weight ctx' a' + weight ctx' b'; s = weight ctx a + weight ctx b
      in t' < t \<or> t' = t \<and> (s' < s \<or> s' = s \<and> arith_fix ctx' op' b' w < arith_fix ctx op b w))"

lemma below_tier: "arith_tier ctx' op' a' b' < arith_tier ctx op a b \<Longrightarrow> arith_below w ctx' op' a' b' ctx op a b"
  by (simp add: arith_below_def Let_def)

lemma below_weight:
  "arith_tier ctx' op' a' b' \<le> arith_tier ctx op a b \<Longrightarrow> weight ctx' a' + weight ctx' b' < weight ctx a + weight ctx b \<Longrightarrow>
    arith_below w ctx' op' a' b' ctx op a b"
  by (auto simp: arith_below_def Let_def)

lemma below_fix:
  "arith_tier ctx' op' a' b' \<le> arith_tier ctx op a b \<Longrightarrow> weight ctx' a' + weight ctx' b' \<le> weight ctx a + weight ctx b \<Longrightarrow>
    arith_fix ctx' op' b' w < arith_fix ctx op b w \<Longrightarrow> arith_below w ctx' op' a' b' ctx op a b"
  by (auto simp: arith_below_def Let_def)

lemma tier_swap: "arith_tier ctx op a b = arith_tier ctx op b a"
  by (auto simp: arith_tier_def)

abbreviation arith_built :: "BVContext \<Rightarrow> BVOp \<Rightarrow> BVNodeId \<Rightarrow> BVNodeId \<Rightarrow> nat \<Rightarrow> (u64 list \<Rightarrow> u64) \<Rightarrow> (u64 list \<Rightarrow> u64) \<Rightarrow> bool" where
  "arith_built ctx op a b w f g \<equiv> returns ctx w (\<lambda>vs. sem2 op w (f vs) (g vs)) (make_arith ctx op a b w)"

definition arith_group :: "BVOp \<Rightarrow> bool" where
  "arith_group op \<longleftrightarrow> op \<in> {BV_Add, BV_Sub, BV_Shl, BV_LShr, BV_AShr}"

lemma arith_groups [simp]: "arith_group BV_Add" "arith_group BV_Sub" "arith_group BV_Shl" "arith_group BV_LShr" "arith_group BV_AShr"
  by (simp_all add: arith_group_def)

section \<open>Sums\<close>

lemma disjoint_operands:
  assumes w: "w \<le> 64" and f: "in_width w x" "x AND ka = 0" and g: "in_width w y" "y AND kb = 0"
    and k: "(ka OR kb) AND width_mask w = width_mask w"
  shows "(x + y) AND width_mask w = x OR y"
proof -
  have "x AND y = 0"
    unfolding and_zero_bits
  proof (intro allI impI notI)
    fix n assume n: "bit x n" "bit y n"
    then have "n < w" using in_width_bit [OF w f(1)] by simp
    then have "bit ((ka OR kb) AND width_mask w) n" unfolding k by (simp add: bit_width_mask [OF w])
    then show False using n f(2) g(2) unfolding and_zero_bits by (auto simp: bit_simps)
  qed
  then show ?thesis using f(1) g(1) by (simp add: disjoint_sum in_width_def bit.conj_disj_distrib2)
qed

text \<open>A negated operand, written as a difference from zero.\<close>

lemma negated_node:
  assumes ok: "context_ok ctx" and d: "denotes ctx i w f"
    and c: "bv_op (node ctx i) = BV_Sub" "is_const (node ctx (bv_a (node ctx i)))" "bv_imm (node ctx (bv_a (node ctx i))) = 0"
  shows "bv_b (node ctx i) < i" "denotes ctx (bv_b (node ctx i)) w (value_of ctx (bv_b (node ctx i)))"
    and "f vs = (- value_of ctx (bv_b (node ctx i)) vs) AND width_mask w"
proof -
  note n = arith_node [OF ok d c(1) arith_ops(5)]
  show "bv_b (node ctx i) < i" "denotes ctx (bv_b (node ctx i)) w (value_of ctx (bv_b (node ctx i)))" by (rule n(2), rule n(4))
  have "value_of ctx (bv_a (node ctx i)) vs = 0" using denotes_const [OF ok n(3) c(2)] c(3) by simp
  then show "f vs = (- value_of ctx (bv_b (node ctx i)) vs) AND width_mask w" using n(5) [of vs] by simp
qed

lemma masked_self:
  assumes "context_ok ctx" "denotes ctx i w f"
  shows "f vs AND width_mask w = f vs"
  using denotes_width [OF assms] by (simp add: in_width_def)

lemma add_step:
  assumes ok: "context_ok ctx" and da: "denotes ctx a w f" and db: "denotes ctx b w g"
    and o: "order_operands ctx BV_Add a0 b0 = (a, b)" "node_width ctx a0 = w" "is_const (node ctx a) \<longrightarrow> is_const (node ctx b)"
    and IH: "\<And>ctx' op' a' b' f' g'. arith_group op' \<Longrightarrow> context_ok ctx' \<Longrightarrow> arith_below w ctx' op' a' b' ctx BV_Add a b \<Longrightarrow>
      denotes ctx' a' w f' \<Longrightarrow> denotes ctx' b' w g' \<Longrightarrow> arith_built ctx' op' a' b' w f' g'"
  shows "returns ctx w (\<lambda>vs. (f vs + g vs) AND width_mask w) (make_arith ctx BV_Add a0 b0 w)"
proof -
  have w: "valid_width w" "w \<le> 64" "1 \<le> w" using denotes_width [OF ok da] by (simp_all add: valid_width_def)
  note fw = masked_self [OF ok da] and gw = masked_self [OF ok db]
  note fa = da [unfolded denotes_def] and ga = db [unfolded denotes_def]
  have gk: "g vs = bv_imm (node ctx b)" if "is_const (node ctx b)" for vs using denotes_const [OF ok db that] .
  have one: "(1 :: u64) AND width_mask w = 1" using in_width_iff [OF w(2), of 1] w by (simp add: in_width_def)
  note na = arith_node [OF ok da _ arith_ops(5)] and nb = arith_node [OF ok db _ arith_ops(5)]
  show ?thesis
  proof (subst make_arith.simps, unfold Let_def o prod.case simp_thms if_True, intro returns_if)
    assume "is_const (node ctx a) \<and> is_const (node ctx b)"
    then show "returns ctx w (\<lambda>vs. (f vs + g vs) AND width_mask w) (Some (fold_consts ctx BV_Add a b w))"
      by (intro fold_consts_returns [OF ok da db]) simp_all
  next
    assume "is_const (node ctx b) \<and> bv_imm (node ctx b) = 0"
    then show "returns ctx w (\<lambda>vs. (f vs + g vs) AND width_mask w) (Some (ctx, a))"
      using gk fw by (intro returns_self [OF ok da]) simp
  next
    assume ab: "a = b" and w1: "w = 1"
    have "(x + x) AND width_mask 1 = 0" for x :: u64 using add_value_mod [of 1 x x] by (simp add: word_uint_eq_iff flip: mult_2)
    moreover have "f = g" using ab fa ga by auto
    ultimately have "returns ctx w (\<lambda>vs. (f vs + g vs) AND width_mask w) (Some (make_const ctx 0 w))"
      using w1 by (intro returns_const [OF ok w(1)]) simp
    then show "returns ctx w (\<lambda>vs. (f vs + g vs) AND width_mask w) (Some (make_const ctx 0 1))" unfolding w1 .
  next
    assume n: "\<not> (is_const (node ctx a) \<and> is_const (node ctx b))" and ab: "a = b" and w1: "w \<noteq> 1"
    show "returns ctx w (\<lambda>vs. (f vs + g vs) AND width_mask w) (case make_const ctx 1 w of (ctx', one) \<Rightarrow> make_arith ctx' BV_Shl a one w)"
    proof (rule const_then [OF ok w(1)], goal_cases)
      case e: (1 ctx' d)
      have "arith_below w ctx' BV_Shl a d ctx BV_Add a b" using n ab by (intro below_tier) (simp add: arith_tier_def)
      moreover have "(1 :: u64) < of_nat w" using w w1 by (simp add: word_less_nat_alt unat_of_nat)
      then have "shift_count 1 w = 1" using w by (simp add: shift_count_below)
      moreover have "f = g" using ab fa ga by auto
      ultimately show ?case
        using IH [of BV_Shl ctx' a d, OF arith_groups(3) e(1) _ denotes_extends [OF ok e(1,2) da] e(3)]
        by (simp add: one push_bit_eq_mult mult_2_right)
    qed
  next
    assume c: "bv_op (node ctx a) = BV_Add \<and> is_const (node ctx (bv_b (node ctx a))) \<and> is_const (node ctx b)"
    then show "returns ctx w (\<lambda>vs. (f vs + g vs) AND width_mask w)
      (case make_const ctx (bv_imm (node ctx (bv_b (node ctx a))) + bv_imm (node ctx b)) w of (ctx', d) \<Rightarrow> make_arith ctx' BV_Add (bv_a (node ctx a)) d w)"
    proof (intro regroup [OF ok da db, where op = BV_Add and s = "\<lambda>x y. (x + y) AND width_mask w"], goal_cases)
      case e: (5 ctx' d f' g')
      have "arith_below w ctx' BV_Add (bv_a (node ctx a)) d ctx BV_Add a b" using e by (intro below_weight) (simp_all add: arith_tier_def)
      then show ?case using IH [of BV_Add ctx' _ _ f' g'] e by simp
    qed (simp_all add: mask_ring [OF w(2)] add.assoc)
  next
    assume n: "\<not> (is_const (node ctx a) \<and> is_const (node ctx b))"
      and c: "bv_op (node ctx a) = BV_Sub \<and> is_const (node ctx (bv_a (node ctx a))) \<and> bv_imm (node ctx (bv_a (node ctx a))) = 0"
    note d = negated_node [OF ok da conjunct1 [OF c] conjunct1 [OF conjunct2 [OF c]] conjunct2 [OF conjunct2 [OF c]]]
    have nc: "\<not> is_const (node ctx a)" using c by (simp add: is_const_def)
    have "arith_below w ctx BV_Sub b (bv_b (node ctx a)) ctx BV_Add a b"
      using weight_child [OF d(1) nc] nc by (intro below_weight) (simp_all add: arith_tier_def)
    from IH [OF _ ok this db d(2)]
    show "returns ctx w (\<lambda>vs. (f vs + g vs) AND width_mask w) (make_arith ctx BV_Sub b (bv_b (node ctx a)) w)"
      by (simp add: d(3) mask_ring [OF w(2)])
  next
    assume n: "\<not> (is_const (node ctx a) \<and> is_const (node ctx b))"
      and c: "bv_op (node ctx b) = BV_Sub \<and> is_const (node ctx (bv_a (node ctx b))) \<and> bv_imm (node ctx (bv_a (node ctx b))) = 0"
    note d = negated_node [OF ok db conjunct1 [OF c] conjunct1 [OF conjunct2 [OF c]] conjunct2 [OF conjunct2 [OF c]]]
    have nc: "\<not> is_const (node ctx b)" using c by (simp add: is_const_def)
    then have "arith_below w ctx BV_Sub a (bv_b (node ctx b)) ctx BV_Add a b"
      using weight_child [OF d(1) nc] o(3) nc by (intro below_weight) (simp_all add: arith_tier_def)
    from IH [OF _ ok this da d(2)]
    show "returns ctx w (\<lambda>vs. (f vs + g vs) AND width_mask w) (make_arith ctx BV_Sub a (bv_b (node ctx b)) w)"
      by (simp add: d(3) mask_ring [OF w(2)])
  next
    assume c: "bv_op (node ctx a) = BV_Sub \<and> bv_b (node ctx a) = b"
    then show "returns ctx w (\<lambda>vs. (f vs + g vs) AND width_mask w) (Some (ctx, bv_a (node ctx a)))"
      using na(5) ga masked_self [OF ok na(3)] by (intro returns_self [OF ok na(3)]) (auto simp: mask_ring [OF w(2)])
  next
    assume c: "bv_op (node ctx b) = BV_Sub \<and> bv_b (node ctx b) = a"
    then show "returns ctx w (\<lambda>vs. (f vs + g vs) AND width_mask w) (Some (ctx, bv_a (node ctx b)))"
      using nb(5) fa masked_self [OF ok nb(3)] by (intro returns_self [OF ok nb(3)]) (auto simp: mask_ring [OF w(2)])
  next
    assume c: "(known_zeros (interval_of ctx a) OR known_zeros (interval_of ctx b)) AND width_mask w = width_mask w"
    have "(f vs + g vs) AND width_mask w = f vs OR g vs" for vs
      using containsD(1,6) [OF denotes_interval [OF ok da]] containsD(1,6) [OF denotes_interval [OF ok db]] c
      by (intro disjoint_operands [OF w(2)]) blast+
    then show "returns ctx w (\<lambda>vs. (f vs + g vs) AND width_mask w) (make_or ctx a b w)" using make_or_returns [OF ok da db] by simp
  next
    show "returns ctx w (\<lambda>vs. (f vs + g vs) AND width_mask w) (Some (make_binary_node ctx BV_Add a b w))"
      by (intro make_binary_node_returns [OF ok da db]) simp_all
  qed
qed

section \<open>Differences\<close>

lemma order_fixed [simp]: "\<not> is_commutative op \<Longrightarrow> order_operands ctx op a b = (a, b)"
  by (simp add: order_operands_def Let_def)

lemma sub_step:
  assumes ok: "context_ok ctx" and da: "denotes ctx a w f" and db: "denotes ctx b w g"
    and IH: "\<And>ctx' op' a' b' f' g'. arith_group op' \<Longrightarrow> context_ok ctx' \<Longrightarrow> arith_below w ctx' op' a' b' ctx BV_Sub a b \<Longrightarrow>
      denotes ctx' a' w f' \<Longrightarrow> denotes ctx' b' w g' \<Longrightarrow> arith_built ctx' op' a' b' w f' g'"
  shows "returns ctx w (\<lambda>vs. (f vs - g vs) AND width_mask w) (make_arith ctx BV_Sub a b w)"
proof -
  have w: "valid_width w" "w \<le> 64" "1 \<le> w" using denotes_width [OF ok da] by (simp_all add: valid_width_def)
  note fw = masked_self [OF ok da] and gw = masked_self [OF ok db]
  note fa = da [unfolded denotes_def] and ga = db [unfolded denotes_def]
  have gk: "g vs = bv_imm (node ctx b)" if "is_const (node ctx b)" for vs using denotes_const [OF ok db that] .
  have m: "node_width ctx a = w" "order_operands ctx BV_Sub a b = (a, b)" "BV_Sub \<noteq> BV_Add" using fa by simp_all
  note na = arith_node [OF ok da _ arith_ops(4)] and nb = arith_node [OF ok db _ arith_ops(4)]
  have negate: "returns ctx w (\<lambda>vs. (f vs - g vs) AND width_mask w) (case make_const ctx 0 w of (ctx', z) \<Rightarrow> make_arith ctx' BV_Sub z y w)"
    if "bv_op (node ctx b) = BV_Add" "y < b" "denotes ctx y w p" "\<And>vs. (f vs - g vs) AND width_mask w = (- p vs) AND width_mask w" for y p
  proof (rule const_then [OF ok w(1)], goal_cases)
    case e: (1 ctx' z)
    have nc: "\<not> is_const (node ctx b)" using that(1) by (simp add: is_const_def)
    have "arith_below w ctx' BV_Sub z y ctx BV_Sub a b"
      using weight_step [OF e(2) that(2) db nc] weight_const [OF e(4)] e(4) by (intro below_weight) (simp_all add: arith_tier_def)
    from IH [OF _ e(1) this e(3) denotes_extends [OF ok e(1,2) that(3)]] show ?case by (simp add: that(4))
  qed
  show ?thesis
  proof (subst make_arith.simps, unfold Let_def m prod.case if_not_P [OF m(3)] simp_thms if_True, intro returns_if)
    assume "is_const (node ctx a) \<and> is_const (node ctx b)"
    then show "returns ctx w (\<lambda>vs. (f vs - g vs) AND width_mask w) (Some (fold_consts ctx BV_Sub a b w))"
      by (intro fold_consts_returns [OF ok da db]) simp_all
  next
    assume "is_const (node ctx b) \<and> bv_imm (node ctx b) = 0"
    then show "returns ctx w (\<lambda>vs. (f vs - g vs) AND width_mask w) (Some (ctx, a))"
      using gk fw by (intro returns_self [OF ok da]) simp
  next
    assume "a = b"
    then show "returns ctx w (\<lambda>vs. (f vs - g vs) AND width_mask w) (Some (make_const ctx 0 w))"
      using fa ga by (intro returns_const [OF ok w(1)]) auto
  next
    assume n: "\<not> (is_const (node ctx a) \<and> is_const (node ctx b))" and k: "is_const (node ctx b)"
    show "returns ctx w (\<lambda>vs. (f vs - g vs) AND width_mask w)
      (case make_const ctx ((NOT (bv_imm (node ctx b)) + 1) AND width_mask w) w of (ctx', c) \<Rightarrow> make_arith ctx' BV_Add a c w)"
    proof (rule const_then [OF ok w(1)], goal_cases)
      case e: (1 ctx' d)
      have neg: "NOT (bv_imm (node ctx b)) + 1 = - bv_imm (node ctx b)" by (simp add: not_eq_complement)
      have "weight ctx' a = weight ctx a" using weight_extends [OF e(2)] fa by simp
      then have "arith_below w ctx' BV_Add a d ctx BV_Sub a b"
        using weight_const [OF e(4)] e(4) by (intro below_fix) (simp_all add: arith_tier_def arith_fix_def)
      from IH [OF _ e(1) this denotes_extends [OF ok e(1,2) da] e(3)]
      show ?case by (simp add: gk [OF k] mask_ring [OF w(2)] neg)
    qed
  next
    assume c: "bv_op (node ctx a) = BV_Add \<and> bv_a (node ctx a) = b"
    then show "returns ctx w (\<lambda>vs. (f vs - g vs) AND width_mask w) (Some (ctx, bv_b (node ctx a)))"
      using na(5) ga masked_self [OF ok na(4)] by (intro returns_self [OF ok na(4)]) (auto simp: mask_ring [OF w(2)])
  next
    assume c: "bv_op (node ctx a) = BV_Add \<and> bv_b (node ctx a) = b"
    then show "returns ctx w (\<lambda>vs. (f vs - g vs) AND width_mask w) (Some (ctx, bv_a (node ctx a)))"
      using na(5) ga masked_self [OF ok na(3)] by (intro returns_self [OF ok na(3)]) (auto simp: mask_ring [OF w(2)])
  next
    assume c: "bv_op (node ctx b) = BV_Add \<and> bv_a (node ctx b) = a"
    then show "returns ctx w (\<lambda>vs. (f vs - g vs) AND width_mask w)
        (case make_const ctx 0 w of (ctx', z) \<Rightarrow> make_arith ctx' BV_Sub z (bv_b (node ctx b)) w)"
      using nb(5) fa by (intro negate [OF _ nb(2) nb(4)]) (auto simp: mask_ring [OF w(2)])
  next
    assume c: "bv_op (node ctx b) = BV_Add \<and> bv_b (node ctx b) = a"
    then show "returns ctx w (\<lambda>vs. (f vs - g vs) AND width_mask w)
        (case make_const ctx 0 w of (ctx', z) \<Rightarrow> make_arith ctx' BV_Sub z (bv_a (node ctx b)) w)"
      using nb(5) fa by (intro negate [OF _ nb(1) nb(3)]) (auto simp: mask_ring [OF w(2)])
  next
    show "returns ctx w (\<lambda>vs. (f vs - g vs) AND width_mask w) (Some (make_binary_node ctx BV_Sub a b w))"
      by (intro make_binary_node_returns [OF ok da db]) simp_all
  qed
qed

section \<open>Shifts\<close>

text \<open>What the three shifts compute for an amount below the modulus.\<close>

definition shifted :: "BVOp \<Rightarrow> nat \<Rightarrow> nat \<Rightarrow> u64 \<Rightarrow> u64" where
  "shifted op w n x =
     (if op = BV_Shl then push_bit n x
      else if op = BV_LShr then drop_bit n x
      else signed_drop_bit n (sign_extend_bits x w)) AND width_mask w"

definition shift_op :: "BVOp \<Rightarrow> bool" where
  "shift_op op \<longleftrightarrow> op \<in> {BV_Shl, BV_LShr, BV_AShr}"

lemma shift_ops: "shift_op op \<Longrightarrow> arith_op op \<and> arith_group op \<and> \<not> is_commutative op \<and> op \<noteq> BV_Add \<and> op \<noteq> BV_Sub"
  by (auto simp: shift_op_def)

lemma sem_shifted: "shift_op op \<Longrightarrow> sem2 op w x y = shifted op w (shift_count y w) x"
  by (auto simp: shift_op_def shifted_def)

lemma shifted_width [simp]: "in_width w (shifted op w n x)"
  by (simp add: shifted_def)

lemma div_keeps_range:
  assumes "- h \<le> k" "k < (h :: int)" "1 \<le> d"
  shows "- h \<le> k div d" "k div d < h"
proof -
  have e: "k = k div d * d + k mod d" "0 \<le> k mod d" "k mod d < d" using assms(3) by simp_all
  show "- h \<le> k div d"
  proof (rule ccontr)
    assume "\<not> - h \<le> k div d"
    then have "(k div d + 1) * d \<le> - h * d" using assms(3) by (intro mult_right_mono) simp_all
    moreover have "- h * d \<le> - h" using assms by (cases "0 \<le> h") (simp_all add: mult_le_cancel_left1)
    moreover have "(k div d + 1) * d = k div d * d + d" by (simp add: algebra_simps)
    ultimately show False using e assms(1) by linarith
  qed
  show "k div d < h"
  proof (rule ccontr)
    assume "\<not> k div d < h"
    then have "h * d \<le> k div d * d" using assms(3) by (intro mult_right_mono) simp_all
    moreover have "h \<le> h * d" using assms by (cases "0 \<le> h") (simp_all add: mult_le_cancel_left1)
    ultimately show False using e assms(2) by linarith
  qed
qed

lemma ashr_value:
  assumes "valid_width w" "in_width w x"
  shows "sval w (signed_drop_bit n (sign_extend_bits x w) AND width_mask w) = sval w x div 2 ^ n"
proof -
  have w: "w \<le> 64" using assms(1) by (simp add: valid_width_def)
  have s: "sint (signed_drop_bit n (sign_extend_bits x w)) = sval w x div 2 ^ n"
    by (simp add: sint_signed_drop_bit_eq drop_bit_eq_div)
  note r = div_keeps_range [OF sval_range [OF assms(2,1)], where d = "2 ^ n"]
  have "uint (signed_drop_bit n (sign_extend_bits x w) AND width_mask w) = (sval w x div 2 ^ n) mod 2 ^ w"
    unfolding uint_mask [OF w] uint_sint_mod [OF w] s ..
  then show ?thesis using r by (intro sval_of_mod(2) [OF assms(1)]) simp_all
qed

lemma shifted_compose:
  assumes w: "valid_width w" and x: "in_width w x"
  shows "shifted op w n2 (shifted op w n1 x) = shifted op w (n1 + n2) x"
proof -
  have w64: "w \<le> 64" using w by (simp add: valid_width_def)
  consider "op = BV_Shl" | "op = BV_LShr" | "op \<noteq> BV_Shl" "op \<noteq> BV_LShr" by blast
  then show ?thesis
  proof cases
    case 1
    show ?thesis unfolding 1 shifted_def simp_thms if_True push_mask [OF w64] push_bit_push_bit by (simp add: add.commute)
  next
    case 2
    have "drop_bit n1 x AND width_mask w = drop_bit n1 x"
      using in_width_bit [OF w64 x] by (fastforce simp: and_eq_bits bit_simps bit_width_mask [OF w64])
    then show ?thesis using 2 by (simp add: shifted_def add.commute)
  next
    case 3
    let ?v = "shifted op w n1 x"
    have s: "sval w ?v = sval w x div 2 ^ n1" using 3 ashr_value [OF w x, of n1] by (simp add: shifted_def)
    have "sval w (shifted op w n2 ?v) = sval w (shifted op w (n1 + n2) x)"
      using 3 ashr_value [OF w shifted_width, of n2 op n1 x] ashr_value [OF w x, of "n1 + n2"] s
      by (simp add: shifted_def power_add zdiv_zmult2_eq)
    then have "uint (shifted op w n2 ?v) = uint (shifted op w (n1 + n2) x)" using sval_mod [OF shifted_width w] by metis
    then show ?thesis by (simp add: word_uint_eq_iff)
  qed
qed

lemma shifted_zero:
  assumes w: "valid_width w" and x: "in_width w x"
  shows "shifted op w 0 x = x"
proof -
  have "sval w x mod 2 ^ w = uint x" using sval_mod [OF x w] .
  then have "uint (sign_extend_bits x w AND width_mask w) = uint x"
    using w unfolding valid_width_def by (simp add: uint_mask uint_sint_mod)
  then show ?thesis using x by (auto simp: shifted_def in_width_def word_uint_eq_iff)
qed

lemma shifted_out:
  assumes w: "valid_width w" and x: "in_width w x" and "w \<le> n" "op = BV_Shl \<or> op = BV_LShr"
  shows "shifted op w n x = 0"
proof -
  have w64: "w \<le> 64" using w by (simp add: valid_width_def)
  have "\<not> bit (shifted op w n x) k" for k
    using assms(3,4) in_width_bit [OF w64 x, of "n + k"] by (auto simp: shifted_def bit_simps bit_width_mask [OF w64])
  then show ?thesis by (simp add: bit_eq_iff)
qed

lemma shl_of_lshr:
  assumes w: "valid_width w" and x: "in_width w x"
  shows "shifted BV_Shl w n (shifted BV_LShr w n x) = x AND (push_bit n (width_mask w) AND width_mask w)"
proof -
  have w64: "w \<le> 64" using w by (simp add: valid_width_def)
  show ?thesis by (rule bit_eqI) (auto simp: shifted_def bit_simps bit_width_mask [OF w64])
qed

lemma lshr_of_shl:
  assumes w: "valid_width w" and x: "in_width w x"
  shows "shifted BV_LShr w n (shifted BV_Shl w n x) = x AND (drop_bit n (width_mask w) AND width_mask w)"
proof -
  have w64: "w \<le> 64" using w by (simp add: valid_width_def)
  show ?thesis using in_width_bit [OF w64 x] w64 by (intro bit_eqI) (auto simp: shifted_def bit_simps bit_width_mask [OF w64])
qed

lemma shl_of_sum:
  assumes "w \<le> 64"
  shows "shifted BV_Shl w n ((x + y) AND width_mask w) = (shifted BV_Shl w n x + (push_bit n y AND width_mask w)) AND width_mask w"
  using assms by (simp add: shifted_def push_mask mask_ring push_bit_eq_mult algebra_simps)

text \<open>A shift amount is less than twice the width, so two of them are added without overflow.\<close>

lemma shift_pow_bound: "0 < p \<Longrightarrow> shift_pow p w \<le> max p (2 * w)"
proof (induction p w rule: shift_pow.induct)
  case (1 p w)
  then show ?case by (subst shift_pow.simps) auto
qed

lemma shift_mask_bound: "w \<le> 64 \<Longrightarrow> shift_mask w \<le> 128"
  using shift_pow_bound [of 1 w] by (auto simp: shift_mask_def)

lemma shift_amount_bound: "w \<le> 64 \<Longrightarrow> unat (x AND of_nat (shift_mask w) :: u64) \<le> 128"
proof -
  assume w: "w \<le> 64"
  have "x AND of_nat (shift_mask w) \<le> (of_nat (shift_mask w) :: u64)" by (rule sub_bits_le) (simp add: and.assoc)
  then show ?thesis using shift_mask_bound [OF w] by (simp add: word_le_nat_alt unat_of_nat)
qed

lemma shift_amounts:
  assumes "w \<le> 64"
  shows "unat ((x AND of_nat (shift_mask w)) + (y AND of_nat (shift_mask w)) :: u64) =
      unat (x AND of_nat (shift_mask w)) + unat (y AND of_nat (shift_mask w))"
  using shift_amount_bound [OF assms, of x] shift_amount_bound [OF assms, of y] by (intro unat_add_lem [THEN iffD1]) simp

lemma small_const: "c < of_nat w \<Longrightarrow> w \<le> 64 \<Longrightarrow> c AND width_mask w = c"
proof -
  assume c: "c < of_nat w" and w: "w \<le> 64"
  then have "unat c < w" by (simp add: word_less_nat_alt unat_of_nat)
  then have "uint c < int w" by (simp only: uint_nat of_nat_less_iff)
  moreover have "int w < 2 ^ w" using less_exp [of w] by (metis of_nat_less_iff of_nat_numeral of_nat_power)
  ultimately have "uint c < 2 ^ w" by linarith
  then show ?thesis using in_width_iff [OF w] by (simp add: in_width_def)
qed

text \<open>A shift by a constant.\<close>

lemma shift_node:
  assumes ok: "context_ok ctx" and d: "denotes ctx i w f" and c: "bv_op (node ctx i) = op" "shift_op op" "is_const (node ctx (bv_b (node ctx i)))"
  shows "bv_a (node ctx i) < i" "denotes ctx (bv_a (node ctx i)) w (value_of ctx (bv_a (node ctx i)))"
    and "in_width w (value_of ctx (bv_a (node ctx i)) vs)"
    and "f vs = shifted op w (unat (bv_imm (node ctx (bv_b (node ctx i))) AND of_nat (shift_mask w))) (value_of ctx (bv_a (node ctx i)) vs)"
proof -
  note n = arith_node [OF ok d c(1) conjunct1 [OF shift_ops [OF c(2)]]]
  show "bv_a (node ctx i) < i" "denotes ctx (bv_a (node ctx i)) w (value_of ctx (bv_a (node ctx i)))" by (rule n(1), rule n(3))
  show "in_width w (value_of ctx (bv_a (node ctx i)) vs)" using denotes_width [OF ok n(3)] by simp
  show "f vs = shifted op w (unat (bv_imm (node ctx (bv_b (node ctx i))) AND of_nat (shift_mask w))) (value_of ctx (bv_a (node ctx i)) vs)"
    using n(5) [of vs] unfolding sem_shifted [OF c(2)] shift_count_def denotes_const [OF ok n(4) c(3)] .
qed

lemma shift_step:
  assumes ok: "context_ok ctx" and da: "denotes ctx a w f" and db: "denotes ctx b w g" and op: "shift_op op"
    and IH: "\<And>ctx' op' a' b' f' g'. arith_group op' \<Longrightarrow> context_ok ctx' \<Longrightarrow> arith_below w ctx' op' a' b' ctx op a b \<Longrightarrow>
      denotes ctx' a' w f' \<Longrightarrow> denotes ctx' b' w g' \<Longrightarrow> arith_built ctx' op' a' b' w f' g'"
  shows "arith_built ctx op a b w f g"
proof -
  have w: "valid_width w" "w \<le> 64" "1 \<le> w" using denotes_width [OF ok da] by (simp_all add: valid_width_def)
  have fw: "in_width w (f vs)" and gw: "in_width w (g vs)" for vs using denotes_width [OF ok da] denotes_width [OF ok db] by simp_all
  note fa = da [unfolded denotes_def] and ga = db [unfolded denotes_def]
  have gk: "g vs = bv_imm (node ctx b)" if "is_const (node ctx b)" for vs using denotes_const [OF ok db that] .
  note ops = shift_ops [OF op]
  have m: "node_width ctx a = w" "order_operands ctx op a b = (a, b)" "op \<noteq> BV_Add" "op \<noteq> BV_Sub" using fa ops by simp_all
  define sh where "sh = bv_imm (node ctx b) AND of_nat (shift_mask w)"
  have sem: "sem2 op w (f vs) (g vs) = shifted op w (unat sh) (f vs)" if "is_const (node ctx b)" for vs
    unfolding sem_shifted [OF op] gk [OF that] shift_count_def sh_def ..
  let ?R = "returns ctx w (\<lambda>vs. sem2 op w (f vs) (g vs))"
  let ?ca = "node ctx a" and ?cab = "node ctx (bv_b (node ctx a))"
  define prev where "prev = bv_imm ?cab AND of_nat (shift_mask w)"
  have sum: "unat (prev + sh) = unat prev + unat sh" unfolding prev_def sh_def by (rule shift_amounts [OF w(2)])
  have below: "(unat x < w) = (x < of_nat w)" for x :: u64 using w(2) by (simp add: word_less_nat_alt unat_of_nat)
  show ?thesis
  proof (subst make_arith.simps, unfold Let_def m prod.case if_not_P [OF m(3)] if_not_P [OF m(4)] sh_def [symmetric] prev_def [symmetric], intro returns_if)
    assume "is_const ?ca \<and> is_const (node ctx b)"
    then show "?R (Some (fold_consts ctx op a b w))" using ops by (intro fold_consts_returns [OF ok da db]) simp_all
  next
    assume k: "is_const (node ctx b)" and ne: "sh \<noteq> bv_imm (node ctx b)"
    have bw: "bv_width (node ctx b) = w" using ga by simp
    have shw: "sh AND width_mask w = sh" using gw [of "[]"] unfolding gk [OF k] sh_def in_width_def by (metis and.assoc and.commute)
    show "?R (case make_const ctx sh (bv_width (node ctx b)) of (ctx', c) \<Rightarrow> make_arith ctx' op a c w)"
      unfolding bw
    proof (rule const_then [OF ok w(1)], goal_cases)
      case e: (1 ctx' d)
      have "weight ctx' a = weight ctx a" using weight_extends [OF e(2)] fa by simp
      moreover have "sh AND of_nat (shift_mask w) = sh" by (simp add: sh_def and.assoc)
      ultimately have "arith_below w ctx' op a d ctx op a b"
        using weight_const [OF e(4)] weight_const [OF k] e(5) ne ops shw by (intro below_fix) (simp_all add: arith_tier_def arith_fix_def flip: sh_def)
      from IH [OF _ e(1) this denotes_extends [OF ok e(1,2) da] e(3)]
      show ?case using ops by (simp add: gk [OF k] sh_def [symmetric] sem_shifted [OF op] shw shift_count_def \<open>sh AND of_nat (shift_mask w) = sh\<close>)
    qed
  next
    assume k: "is_const (node ctx b)" and z: "sh = 0"
    show "?R (Some (ctx, a))" unfolding sem [OF k] z using shifted_zero [OF w(1) fw] by (intro returns_self [OF ok da]) simp
  next
    assume k: "is_const (node ctx b)" and c: "of_nat w \<le> sh \<and> op \<noteq> BV_AShr"
    then have "w \<le> unat sh" "op = BV_Shl \<or> op = BV_LShr" using below [of sh] op by (auto simp: shift_op_def)
    then show "?R (Some (make_const ctx 0 w))" unfolding sem [OF k] using shifted_out [OF w(1) fw] by (intro returns_const [OF ok w(1)]) simp
  next
    assume k: "is_const (node ctx b)" and c: "bv_op ?ca = op \<and> is_const ?cab \<and> prev + sh < of_nat w"
    show "?R (case make_const ctx (prev + sh) w of (ctx', d) \<Rightarrow> make_arith ctx' op (bv_a ?ca) d w)"
    proof (rule const_then [OF ok w(1)], goal_cases)
      case e: (1 ctx' d)
      note n = shift_node [OF ok da conjunct1 [OF c] op conjunct1 [OF conjunct2 [OF c]], folded prev_def]
      have nc: "\<not> is_const ?ca" using c op by (auto simp: is_const_def shift_op_def)
      have "arith_below w ctx' op (bv_a ?ca) d ctx op a b"
        using weight_step [OF e(2) n(1) da nc] weight_const [OF e(4)] ops by (intro below_weight) (simp_all add: arith_tier_def)
      from IH [OF _ e(1) this denotes_extends [OF ok e(1,2) n(2)] e(3)]
      show ?case using ops c w(2)
        unfolding sem [OF k] by (simp add: sem_shifted [OF op] small_const shift_count_below sum n(4) shifted_compose [OF w(1) n(3)])
    qed
  next
    assume k: "is_const (node ctx b)" and c: "bv_op ?ca = op \<and> is_const ?cab \<and> op \<noteq> BV_AShr"
      and s: "\<not> (bv_op ?ca = op \<and> is_const ?cab \<and> prev + sh < of_nat w)"
    note n = shift_node [OF ok da conjunct1 [OF c] op conjunct1 [OF conjunct2 [OF c]], folded prev_def]
    have "w \<le> unat prev + unat sh" using s c below [of "prev + sh"] sum by auto
    moreover have "op = BV_Shl \<or> op = BV_LShr" using c op by (auto simp: shift_op_def)
    ultimately show "?R (Some (make_const ctx 0 w))"
      unfolding sem [OF k] unfolding n(4) shifted_compose [OF w(1) n(3)]
      using shifted_out [OF w(1) n(3)] by (intro returns_const [OF ok w(1)]) simp
  next
    assume k: "is_const (node ctx b)" and c: "op = BV_Shl \<and> sh < of_nat w \<and> bv_op ?ca = BV_Add \<and> is_const ?cab"
    show "?R (Option.bind (make_arith ctx BV_Shl (bv_a ?ca) b w)
          (\<lambda>(ctx', t1). case make_const ctx' (push_bit (unat sh) (bv_imm ?cab) AND width_mask w) w of (ctx', t2) \<Rightarrow> make_arith ctx' BV_Add t1 t2 w))"
    proof (rule bind_then)
      note n = arith_node [OF ok da _ arith_ops(4)]
      have ca: "bv_op ?ca = BV_Add" "is_const ?cab" "op = BV_Shl" and nc: "\<not> is_const ?ca" using c by (simp_all add: is_const_def)
      have "arith_below w ctx BV_Shl (bv_a ?ca) b ctx op a b"
        using weight_child [OF n(1) [OF ca(1)] nc] ca by (intro below_weight) (simp_all add: arith_tier_def)
      from IH [OF _ ok this n(3) [OF ca(1)] db]
      show "arith_built ctx BV_Shl (bv_a ?ca) b w (value_of ctx (bv_a ?ca)) g" by simp
      fix ctx1 t1 assume e1: "context_ok ctx1" "extends ctx ctx1" "denotes ctx1 t1 w (\<lambda>vs. sem2 BV_Shl w (value_of ctx (bv_a ?ca) vs) (g vs))"
      show "returns ctx1 w (\<lambda>vs. sem2 op w (f vs) (g vs))
        (case make_const ctx1 (push_bit (unat sh) (bv_imm ?cab) AND width_mask w) w of (ctx', t2) \<Rightarrow> make_arith ctx' BV_Add t1 t2 w)"
      proof (rule const_then [OF e1(1) w(1)], goal_cases)
        case e: (1 ctx' t2)
        have "arith_below w ctx' BV_Add t1 t2 ctx op a b" using e(4) ca by (intro below_tier) (simp add: arith_tier_def)
        from IH [OF _ e(1) this denotes_extends [OF e1(1) e(1,2) e1(3)] e(3)]
        have r: "returns ctx' w (\<lambda>vs. (sem2 BV_Shl w (value_of ctx (bv_a ?ca) vs) (g vs) + (push_bit (unat sh) (bv_imm ?cab) AND width_mask w)) AND width_mask w)
            (make_arith ctx' BV_Add t1 t2 w)" by (simp add: and.assoc)
        have "f vs = (value_of ctx (bv_a ?ca) vs + bv_imm ?cab) AND width_mask w" for vs
          using n(5) [OF ca(1), of vs] denotes_const [OF ok n(4) [OF ca(1)] ca(2)] by simp
        then have "sem2 op w (f vs) (g vs) = (sem2 BV_Shl w (value_of ctx (bv_a ?ca) vs) (g vs) + (push_bit (unat sh) (bv_imm ?cab) AND width_mask w)) AND width_mask w" for vs
          unfolding sem [OF k] unfolding ca(3) sem_shifted [OF op [unfolded ca(3)]] gk [OF k] shift_count_def sh_def [symmetric]
          by (simp only: shl_of_sum [OF w(2)])
        then show ?case using r by simp
      qed
    qed
  next
    assume k: "is_const (node ctx b)" and c: "op = BV_Shl \<and> sh < of_nat w \<and> bv_op ?ca = BV_LShr \<and> is_const ?cab \<and> bv_imm ?cab = sh"
    show "?R (case make_const ctx (push_bit (unat sh) (width_mask w) AND width_mask w) w of (ctx', c) \<Rightarrow> make_and ctx' (bv_a ?ca) c w)"
    proof (rule const_then [OF ok w(1)], goal_cases)
      case e: (1 ctx' d)
      have o2: "bv_op ?ca = BV_LShr" "shift_op BV_LShr" "is_const ?cab" "op = BV_Shl" using c by (simp_all add: shift_op_def)
      note n = shift_node [OF ok da o2(1,2,3)]
      have "bv_imm ?cab AND of_nat (shift_mask w) = sh" using c w(2) by (simp add: shift_mask_below)
      then have "sem2 op w (f vs) (g vs) = value_of ctx (bv_a ?ca) vs AND ((push_bit (unat sh) (width_mask w) AND width_mask w) AND width_mask w)" for vs
        unfolding sem [OF k] unfolding n(4) [of vs] o2(4) by (simp only: shl_of_lshr [OF w(1) n(3)] and.assoc and.idem)
      then show ?case using make_and_returns [OF e(1) denotes_extends [OF ok e(1,2) n(2)] e(3)] by simp
    qed
  next
    assume k: "is_const (node ctx b)" and c: "op = BV_LShr \<and> sh < of_nat w \<and> bv_op ?ca = BV_Shl \<and> is_const ?cab \<and> bv_imm ?cab = sh"
    show "?R (case make_const ctx (drop_bit (unat sh) (width_mask w)) w of (ctx', c) \<Rightarrow> make_and ctx' (bv_a ?ca) c w)"
    proof (rule const_then [OF ok w(1)], goal_cases)
      case e: (1 ctx' d)
      have o2: "bv_op ?ca = BV_Shl" "shift_op BV_Shl" "is_const ?cab" "op = BV_LShr" using c by (simp_all add: shift_op_def)
      note n = shift_node [OF ok da o2(1,2,3)]
      have "bv_imm ?cab AND of_nat (shift_mask w) = sh" using c w(2) by (simp add: shift_mask_below)
      then have "sem2 op w (f vs) (g vs) = value_of ctx (bv_a ?ca) vs AND ((drop_bit (unat sh) (width_mask w)) AND width_mask w)" for vs
        unfolding sem [OF k] unfolding n(4) [of vs] o2(4) by (simp only: lshr_of_shl [OF w(1) n(3)] and.assoc and.idem)
      then show ?case using make_and_returns [OF e(1) denotes_extends [OF ok e(1,2) n(2)] e(3)] by simp
    qed
  next
    show "?R (Some (make_binary_node ctx op a b w))" using ops by (intro make_binary_node_returns [OF ok da db]) simp_all
    show "?R (Some (make_binary_node ctx op a b w))" using ops by (intro make_binary_node_returns [OF ok da db]) simp_all
  qed
qed

section \<open>The group is exact\<close>

lemma make_arith_returns:
  assumes "arith_group op" "context_ok ctx" "denotes ctx a w f" "denotes ctx b w g"
  shows "arith_built ctx op a b w f g"
proof -
  define R where "R = measures [\<lambda>(ctx, op, a, b). arith_tier ctx op a b, \<lambda>(ctx, op, a, b). weight ctx a + weight ctx b,
    \<lambda>(ctx, op, a, b). arith_fix ctx op b w]"
  have R: "((ctx', op', a', b'), (ctx, op, a, b)) \<in> R \<longleftrightarrow> arith_below w ctx' op' a' b' ctx op a b" for ctx' op' a' b' ctx op a b
    by (simp add: R_def arith_below_def Let_def)
  have wf: "wf R" by (simp add: R_def)
  have "x = (ctx, op, a, b) \<Longrightarrow> arith_group op \<Longrightarrow> context_ok ctx \<Longrightarrow> denotes ctx a w f \<Longrightarrow> denotes ctx b w g \<Longrightarrow>
      arith_built ctx op a b w f g" for x ctx op a b f g
    using wf
  proof (induction x arbitrary: ctx op a b f g rule: wf_induct_rule)
    case (less x)
    note x = less.prems(1) and grp = less.prems(2) and ok = less.prems(3) and d = less.prems(4,5)
    have IH': "arith_built ctx' op' a' b' w f' g'"
      if "arith_group op'" "context_ok ctx'" "arith_below w ctx' op' a' b' ctx op a b" "denotes ctx' a' w f'" "denotes ctx' b' w g'"
      for ctx' op' a' b' f' g'
      using less.IH [OF _ refl that(1,2,4,5)] that(3) unfolding x R by blast
    consider (add) "op = BV_Add" | (sub) "op = BV_Sub" | (shift) "shift_op op" using grp by (auto simp: arith_group_def shift_op_def)
    then show "arith_built ctx op a b w f g"
    proof cases
      case add
      obtain x y p q where o: "order_operands ctx BV_Add a b = (x, y)" "denotes ctx x w p" "denotes ctx y w q"
          "(\<lambda>vs. (f vs + g vs) AND width_mask w) = (\<lambda>vs. (p vs + q vs) AND width_mask w)"
          "weight ctx x + weight ctx y = weight ctx a + weight ctx b" "is_const (node ctx x) \<longrightarrow> is_const (node ctx y)"
        by (rule order_cases [OF d, where s = "\<lambda>x y. (x + y) AND width_mask w" and op = BV_Add]) (auto simp: add.commute)
      have "arith_tier ctx BV_Add x y = arith_tier ctx BV_Add a b"
        using o(1) by (auto simp: order_operands_def Let_def arith_tier_def split: if_splits)
      then have "arith_below w ctx' op' a' b' ctx BV_Add x y \<longleftrightarrow> arith_below w ctx' op' a' b' ctx BV_Add a b" for ctx' op' a' b'
        using o(5) by (simp add: arith_below_def arith_fix_def)
      then have "returns ctx w (\<lambda>vs. (p vs + q vs) AND width_mask w) (make_arith ctx BV_Add a b w)"
        using IH' d add by (intro add_step [OF ok o(2,3,1) _ o(6)]) (simp_all add: denotes_def)
      then show ?thesis using add o(4) by simp
    next
      case sub
      then show ?thesis using sub_step [OF ok d] IH' by simp
    next
      case shift
      then show ?thesis using shift_step [OF ok d] IH' by blast
    qed
  qed
  then show ?thesis using assms by blast
qed

end
