(* ===== verification/Bv_Binary.thy ===== *)
theory Bv_Binary
  imports Bv_Arith
begin

text \<open>
  The constructors of products, comparisons, negations, counts and selections
  (\<open>make_binary\<close>, \<open>make_unary\<close> and \<open>make_ite\<close> of \<open>src/verify/bv_solver.cpp\<close>).
\<close>

section \<open>Products\<close>

definition has_single_bit :: "'a::len word \<Rightarrow> bool" where
  "has_single_bit x \<longleftrightarrow> popcount x = 1"

partial_function (option) make_mul :: "BVContext \<Rightarrow> BVNodeId \<Rightarrow> BVNodeId \<Rightarrow> nat \<Rightarrow> built" where
  "make_mul ctx a0 b0 w =
     (let m = width_mask (node_width ctx a0);
          (a, b) = order_operands ctx BV_Mul a0 b0;
          ca = node ctx a; cb = node ctx b; kb = is_const cb; imm = bv_imm cb
      in if is_const ca \<and> kb then Some (fold_consts ctx BV_Mul a b w)
         else if kb \<and> imm = 0 then Some (make_const ctx 0 w)
         else if kb \<and> imm = 1 then Some (ctx, a)
         else if kb \<and> imm = m then
           (case make_const ctx 0 w of (ctx, z) \<Rightarrow> make_arith ctx BV_Sub z a w)
         else if kb \<and> has_single_bit imm \<and> countr_zero imm < w then
           (case make_const ctx (of_nat (countr_zero imm)) w of (ctx, c) \<Rightarrow> make_arith ctx BV_Shl a c w)
         else if bv_op ca = BV_Mul \<and> is_const (node ctx (bv_b ca)) \<and> kb then
           (case make_const ctx (bv_imm (node ctx (bv_b ca)) * imm) w of (ctx, c) \<Rightarrow> make_mul ctx (bv_a ca) c w)
         else if bv_op ca = BV_Add \<and> is_const (node ctx (bv_b ca)) then
           Option.bind (make_mul ctx (bv_a ca) b w) (\<lambda>(ctx, t1).
             Option.bind (make_mul ctx b (bv_b ca) w) (\<lambda>(ctx, t2). make_arith ctx BV_Add t1 t2 w))
         else if bv_op cb = BV_Add \<and> is_const (node ctx (bv_b cb)) then
           Option.bind (make_mul ctx a (bv_a cb) w) (\<lambda>(ctx, t1).
             Option.bind (make_mul ctx a (bv_b cb) w) (\<lambda>(ctx, t2). make_arith ctx BV_Add t1 t2 w))
         else Some (make_binary_node ctx BV_Mul a b w))"

lemma single_bit_power:
  assumes "has_single_bit (x :: 'a::len word)"
  shows "x = 2 ^ countr_zero x" "countr_zero x < LENGTH('a)"
proof -
  obtain k where k: "filter (bit x) [0..<LENGTH('a)] = [k]"
    using assms by (auto simp: has_single_bit_def popcount_def length_Suc_conv)
  then have "k \<in> set (filter (bit x) [0..<LENGTH('a)])" by simp
  then have kx: "k < LENGTH('a)" "bit x k" by simp_all
  have only: "n = k" if "bit x n" for n
  proof -
    have "n < LENGTH('a)" using that by (rule bit_imp_le_length)
    then have "n \<in> set (filter (bit x) [0..<LENGTH('a)])" using that by simp
    then show ?thesis unfolding k by simp
  qed
  have "takeWhile Not (map (bit x) [0..<LENGTH('a)]) = take k (map (bit x) [0..<LENGTH('a)])"
  proof (rule takeWhile_eq_take_P_nth)
    show "\<not> map (bit x) [0..<LENGTH('a)] ! i" if "i < k" for i using that kx(1) only [of i] by auto
    show "\<not> \<not> map (bit x) [0..<LENGTH('a)] ! k" using kx by simp
  qed
  then have "countr_zero x = k" using kx(1) by (simp add: countr_zero_def)
  moreover have "bit x n \<longleftrightarrow> n = k" for n using only [of n] kx(2) by auto
  then have "x = 2 ^ k" using kx(1) by (simp add: bit_eq_iff bit_exp_iff)
  ultimately show "x = 2 ^ countr_zero x" "countr_zero x < LENGTH('a)" using kx by simp_all
qed

lemma make_mul_returns:
  assumes "context_ok ctx" "denotes ctx a0 w f0" "denotes ctx b0 w g0"
  shows "returns ctx w (\<lambda>vs. (f0 vs * g0 vs) AND width_mask w) (make_mul ctx a0 b0 w)"
  using assms
proof (induction "weight ctx a0 + weight ctx b0" arbitrary: ctx a0 b0 f0 g0 rule: less_induct)
  case less
  note ok = less.prems(1)
  obtain a b f g where o: "order_operands ctx BV_Mul a0 b0 = (a, b)" and da: "denotes ctx a w f" and db: "denotes ctx b w g"
      and h: "(\<lambda>vs. (f0 vs * g0 vs) AND width_mask w) = (\<lambda>vs. (f vs * g vs) AND width_mask w)"
      and wt: "weight ctx a + weight ctx b = weight ctx a0 + weight ctx b0"
    by (rule order_cases [OF less.prems(2,3), where s = "\<lambda>x y. (x * y) AND width_mask w" and op = BV_Mul]) (auto simp: mult.commute)
  have w: "valid_width w" "w \<le> 64" using denotes_width [OF ok da] by (simp_all add: valid_width_def)
  note fw = masked_self [OF ok da] and gw = masked_self [OF ok db]
  have m: "node_width ctx a0 = w" using less.prems(2) by (simp add: denotes_def)
  have gk: "g vs = bv_imm (node ctx b)" if "is_const (node ctx b)" for vs using denotes_const [OF ok db that] .
  have IH: "returns ctx' w (\<lambda>vs. (f' vs * g' vs) AND width_mask w) (make_mul ctx' a' b' w)"
    if "context_ok ctx'" "weight ctx' a' + weight ctx' b' < weight ctx a + weight ctx b" "denotes ctx' a' w f'" "denotes ctx' b' w g'"
    for ctx' a' b' f' g'
    using less.hyps [of ctx' a' b' f' g'] that wt by simp
  have distrib: "returns ctx w (\<lambda>vs. (f vs * g vs) AND width_mask w) (Option.bind (make_mul ctx x y w) (\<lambda>(ctx', t1).
        Option.bind (make_mul ctx' u v w) (\<lambda>(ctx', t2). make_arith ctx' BV_Add t1 t2 w)))"
    if "weight ctx x + weight ctx y < weight ctx a + weight ctx b" "weight ctx u + weight ctx v < weight ctx a + weight ctx b"
      "denotes ctx x w p" "denotes ctx y w q" "denotes ctx u w r" "denotes ctx v w s"
      "\<And>vs. (f vs * g vs) AND width_mask w = (p vs * q vs + r vs * s vs) AND width_mask w" for x y u v p q r s
  proof (rule bind_then, rule IH [OF ok that(1,3,4)], rule bind_then)
    fix ctx1 t1 assume e1: "context_ok ctx1" "extends ctx ctx1" "denotes ctx1 t1 w (\<lambda>vs. (p vs * q vs) AND width_mask w)"
    have "weight ctx1 u + weight ctx1 v < weight ctx a + weight ctx b"
      using that weight_extends [OF e1(2)] by (simp add: denotes_def)
    then show "returns ctx1 w (\<lambda>vs. (r vs * s vs) AND width_mask w) (make_mul ctx1 u v w)"
      by (intro IH [OF e1(1)] denotes_extends [OF ok e1(1,2)] that(5,6))
    fix ctx2 t2 assume e2: "context_ok ctx2" "extends ctx1 ctx2" "denotes ctx2 t2 w (\<lambda>vs. (r vs * s vs) AND width_mask w)"
    show "returns ctx2 w (\<lambda>vs. (f vs * g vs) AND width_mask w) (make_arith ctx2 BV_Add t1 t2 w)"
      using make_arith_returns [OF arith_groups(1) e2(1) denotes_extends [OF e1(1) e2(1,2) e1(3)] e2(3)]
      by (simp add: that(7) mask_ring [OF w(2)])
  qed
  note na = arith_node [OF ok da _ arith_ops(4)] and nb = arith_node [OF ok db _ arith_ops(4)]
  show ?case
    unfolding h
  proof (subst make_mul.simps, unfold Let_def o m prod.case, intro returns_if)
    assume "is_const (node ctx a) \<and> is_const (node ctx b)"
    then show "returns ctx w (\<lambda>vs. (f vs * g vs) AND width_mask w) (Some (fold_consts ctx BV_Mul a b w))"
      by (intro fold_consts_returns [OF ok da db]) simp_all
  next
    assume "is_const (node ctx b) \<and> bv_imm (node ctx b) = 0"
    then show "returns ctx w (\<lambda>vs. (f vs * g vs) AND width_mask w) (Some (make_const ctx 0 w))"
      using gk by (intro returns_const [OF ok w(1)]) simp
  next
    assume "is_const (node ctx b) \<and> bv_imm (node ctx b) = 1"
    then show "returns ctx w (\<lambda>vs. (f vs * g vs) AND width_mask w) (Some (ctx, a))"
      using gk fw by (intro returns_self [OF ok da]) simp
  next
    assume c: "is_const (node ctx b) \<and> bv_imm (node ctx b) = width_mask w"
    show "returns ctx w (\<lambda>vs. (f vs * g vs) AND width_mask w) (case make_const ctx 0 w of (ctx', z) \<Rightarrow> make_arith ctx' BV_Sub z a w)"
    proof (rule const_then [OF ok w(1)], goal_cases)
      case e: (1 ctx' z)
      have "(f vs * g vs) AND width_mask w = (- f vs) AND width_mask w" for vs
        using mask_ring(6) [OF w(2), of "f vs" "- 1"] gk c by simp
      then show ?case using make_arith_returns [OF arith_groups(2) e(1,3) denotes_extends [OF ok e(1,2) da]] by simp
    qed
  next
    assume c: "is_const (node ctx b) \<and> has_single_bit (bv_imm (node ctx b)) \<and> countr_zero (bv_imm (node ctx b)) < w"
    let ?k = "countr_zero (bv_imm (node ctx b))"
    show "returns ctx w (\<lambda>vs. (f vs * g vs) AND width_mask w)
      (case make_const ctx (of_nat ?k) w of (ctx', d) \<Rightarrow> make_arith ctx' BV_Shl a d w)"
    proof (rule const_then [OF ok w(1)], goal_cases)
      case e: (1 ctx' d)
      have k: "(of_nat ?k :: u64) < of_nat w" "unat (of_nat ?k :: u64) = ?k" using c w by (simp_all add: word_less_nat_alt unat_of_nat)
      have "(f vs * g vs) AND width_mask w = push_bit ?k (f vs) AND width_mask w" for vs
        using gk single_bit_power(1) [of "bv_imm (node ctx b)"] c by (simp add: push_bit_eq_mult)
      then show ?case using make_arith_returns [OF arith_groups(3) e(1) denotes_extends [OF ok e(1,2) da] e(3)] k w(2)
        by (simp add: small_const shift_count_below)
    qed
  next
    assume c: "bv_op (node ctx a) = BV_Mul \<and> is_const (node ctx (bv_b (node ctx a))) \<and> is_const (node ctx b)"
    then show "returns ctx w (\<lambda>vs. (f vs * g vs) AND width_mask w)
      (case make_const ctx (bv_imm (node ctx (bv_b (node ctx a))) * bv_imm (node ctx b)) w of (ctx', d) \<Rightarrow> make_mul ctx' (bv_a (node ctx a)) d w)"
      by (intro regroup [OF ok da db, where op = BV_Mul and s = "\<lambda>x y. (x * y) AND width_mask w"] IH)
        (simp_all add: mask_ring [OF w(2)] mult.assoc)
  next
    assume c: "bv_op (node ctx a) = BV_Add \<and> is_const (node ctx (bv_b (node ctx a)))"
    have nc: "\<not> is_const (node ctx a)" and ca: "bv_op (node ctx a) = BV_Add" using c by (simp_all add: is_const_def)
    show "returns ctx w (\<lambda>vs. (f vs * g vs) AND width_mask w) (Option.bind (make_mul ctx (bv_a (node ctx a)) b w)
        (\<lambda>(ctx', t1). Option.bind (make_mul ctx' b (bv_b (node ctx a)) w) (\<lambda>(ctx', t2). make_arith ctx' BV_Add t1 t2 w)))"
      using weight_child [OF na(1) [OF ca] nc] weight_child [OF na(2) [OF ca] nc]
      by (intro distrib [OF _ _ na(3) [OF ca] db db na(4) [OF ca]]) (simp_all add: na(5) [OF ca] mask_ring [OF w(2)] algebra_simps)
  next
    assume c: "bv_op (node ctx b) = BV_Add \<and> is_const (node ctx (bv_b (node ctx b)))"
    have nc: "\<not> is_const (node ctx b)" and cb: "bv_op (node ctx b) = BV_Add" using c by (simp_all add: is_const_def)
    show "returns ctx w (\<lambda>vs. (f vs * g vs) AND width_mask w) (Option.bind (make_mul ctx a (bv_a (node ctx b)) w)
        (\<lambda>(ctx', t1). Option.bind (make_mul ctx' a (bv_b (node ctx b)) w) (\<lambda>(ctx', t2). make_arith ctx' BV_Add t1 t2 w)))"
      using weight_child [OF nb(1) [OF cb] nc] weight_child [OF nb(2) [OF cb] nc]
      by (intro distrib [OF _ _ da nb(3) [OF cb] da nb(4) [OF cb]]) (simp_all add: nb(5) [OF cb] mask_ring [OF w(2)] algebra_simps)
  next
    show "returns ctx w (\<lambda>vs. (f vs * g vs) AND width_mask w) (Some (make_binary_node ctx BV_Mul a b w))"
      by (intro make_binary_node_returns [OF ok da db]) simp_all
  qed
qed

section \<open>Comparisons\<close>

text \<open>
  Every comparison but equality and the two orders is rewritten into those before the switch, so
  the branches of the switch for the others are never reached.
\<close>

partial_function (option) make_eq :: "BVContext \<Rightarrow> BVNodeId \<Rightarrow> BVNodeId \<Rightarrow> built" where
  "make_eq ctx a0 b0 =
     (let m = width_mask (node_width ctx a0);
          (a, b) = order_operands ctx BV_Eq a0 b0;
          ca = node ctx a; cb = node ctx b; kb = is_const cb; imm = bv_imm cb;
          ia = interval_of ctx a; ib = interval_of ctx b
      in if is_const ca \<and> kb then Some (fold_consts ctx BV_Eq a b 1)
         else if a = b then Some (make_const ctx 1 1)
         else if bv_op ca = BV_Add \<and> bv_op cb = BV_Add \<and> bv_a ca = bv_a cb then make_eq ctx (bv_b ca) (bv_b cb)
         else if bv_op ca = BV_Add \<and> bv_op cb = BV_Add \<and> bv_b ca = bv_b cb then make_eq ctx (bv_a ca) (bv_a cb)
         else if bv_op ca = BV_Add \<and> bv_op cb = BV_Add \<and> bv_a ca = bv_b cb then make_eq ctx (bv_b ca) (bv_a cb)
         else if bv_op ca = BV_Add \<and> bv_op cb = BV_Add \<and> bv_b ca = bv_a cb then make_eq ctx (bv_a ca) (bv_b cb)
         else if bv_op ca = BV_Add \<and> is_const (node ctx (bv_b ca)) \<and> kb then
           (case make_const ctx ((imm - bv_imm (node ctx (bv_b ca))) AND m) (bv_width ca) of (ctx, c) \<Rightarrow> make_eq ctx (bv_a ca) c)
         else if (bv_op ca = BV_ZExt \<and> bv_op cb = BV_ZExt \<or> bv_op ca = BV_SExt \<and> bv_op cb = BV_SExt)
             \<and> node_width ctx (bv_a ca) = node_width ctx (bv_a cb) then make_eq ctx (bv_a ca) (bv_a cb)
         else if bv_op ca = BV_ZExt \<and> node_width ctx (bv_a ca) = 1 \<and> kb then
           (if imm = 0 then Some (make_unary_node ctx BV_Not (bv_a ca) 1)
            else if imm = 1 then Some (ctx, bv_a ca)
            else Some (make_const ctx 0 1))
         else if umax ia < umin ib \<or> umax ib < umin ia \<or> sint (smax ia) < sint (smin ib) \<or> sint (smax ib) < sint (smin ia)
             \<or> known_ones ia AND known_zeros ib \<noteq> 0 \<or> known_ones ib AND known_zeros ia \<noteq> 0 then Some (make_const ctx 0 1)
         else Some (make_binary_node ctx BV_Eq a b 1))"

partial_function (option) make_ult :: "BVContext \<Rightarrow> BVNodeId \<Rightarrow> BVNodeId \<Rightarrow> built" where
  "make_ult ctx a b =
     (let ca = node ctx a; cb = node ctx b; ia = interval_of ctx a; ib = interval_of ctx b
      in if is_const ca \<and> is_const cb then Some (fold_consts ctx BV_Ult a b 1)
         else if a = b then Some (make_const ctx 0 1)
         else if umax ia < umin ib then Some (make_const ctx 1 1)
         else if umin ia \<ge> umax ib then Some (make_const ctx 0 1)
         else if bv_op ca = BV_ZExt \<and> bv_op cb = BV_ZExt \<and> node_width ctx (bv_a ca) = node_width ctx (bv_a cb)
           then make_ult ctx (bv_a ca) (bv_a cb)
         else Some (make_binary_node ctx BV_Ult a b 1))"

partial_function (option) make_slt :: "BVContext \<Rightarrow> BVNodeId \<Rightarrow> BVNodeId \<Rightarrow> built" where
  "make_slt ctx a b =
     (let ca = node ctx a; cb = node ctx b; ia = interval_of ctx a; ib = interval_of ctx b
      in if is_const ca \<and> is_const cb then Some (fold_consts ctx BV_Slt a b 1)
         else if a = b then Some (make_const ctx 0 1)
         else if sint (smax ia) < sint (smin ib) then Some (make_const ctx 1 1)
         else if sint (smin ia) \<ge> sint (smax ib) then Some (make_const ctx 0 1)
         else if bv_op ca = BV_SExt \<and> bv_op cb = BV_SExt \<and> node_width ctx (bv_a ca) = node_width ctx (bv_a cb)
           then make_slt ctx (bv_a ca) (bv_a cb)
         else Some (make_binary_node ctx BV_Slt a b 1))"

text \<open>The overflow tests have no rule of their own.\<close>

definition make_overflow :: "BVContext \<Rightarrow> BVOp \<Rightarrow> BVNodeId \<Rightarrow> BVNodeId \<Rightarrow> built" where
  "make_overflow ctx op a0 b0 =
     (let (a, b) = order_operands ctx op a0 b0
      in if is_const (node ctx a) \<and> is_const (node ctx b) then Some (fold_consts ctx op a b 1)
         else Some (make_binary_node ctx op a b 1))"

definition pred_op :: "BVOp \<Rightarrow> bool" where
  "pred_op op \<longleftrightarrow> op \<in> {BV_Eq, BV_Ne, BV_Ult, BV_Ule, BV_Ugt, BV_Uge, BV_Slt, BV_Sle, BV_Sgt, BV_Sge,
     BV_SAddOvf, BV_SSubOvf, BV_SMulOvf, BV_UAddOvf, BV_USubOvf, BV_UMulOvf}"

lemma pred_ops [simp]: "pred_op BV_Eq" "pred_op BV_Ult" "pred_op BV_Slt"
  by (simp_all add: pred_op_def)

abbreviation pred_sem :: "BVOp \<Rightarrow> nat \<Rightarrow> u64 \<Rightarrow> u64 \<Rightarrow> u64" where
  "pred_sem op aw x y \<equiv> eval_op no_fp op 1 aw aw 0 0 x y 0"

lemma pred_eval: "pred_op op \<Longrightarrow> eval_op no_fp op w aw bw imm extra x y z = pred_sem op aw x y"
  by (auto simp: pred_op_def)

lemma width_one: "valid_width (Suc 0)" by (simp add: valid_width_def)

lemma one_masked: "(1 :: u64) AND width_mask (Suc 0) = 1"
  by (simp add: width_mask_def)

lemma make_pred_node_returns:
  assumes "context_ok ctx" "denotes ctx a aw f" "denotes ctx b aw g" "pred_op op"
    and "\<And>vs. h vs = pred_sem op aw (f vs) (g vs)"
  shows "returns ctx 1 h (Some (make_binary_node ctx op a b 1))"
proof -
  let ?n = "bv_node op 1 a b 0 0 0"
  have d: "a < length (nodes ctx)" "b < length (nodes ctx)" "node_width ctx a = aw" "node_width ctx b = aw"
      "bv_val (nodes ctx) a = f" "bv_val (nodes ctx) b = g"
    using assms(2,3) by (auto simp: denotes_def)
  have "node_typed (nodes ctx) ?n"
    using d assms(4) width_one by (auto simp: node_typed_def pred_op_def)
  moreover have "node_sem (nodes ctx) ?n = h"
    using d assms(4,5) pred_eval [OF assms(4)] by (auto simp: node_sem_def pred_op_def fun_eq_iff)
  ultimately show ?thesis
    using intern_yields [OF assms(1), of ?n] d context_pos [OF assms(1)] by (simp add: make_binary_node_def)
qed

lemma fold_pred_returns:
  assumes "context_ok ctx" "denotes ctx a aw f" "denotes ctx b aw g" "pred_op op"
    and "is_const (node ctx a)" "is_const (node ctx b)" "\<And>vs. h vs = pred_sem op aw (f vs) (g vs)"
  shows "returns ctx 1 h (Some (fold_consts ctx op a b 1))"
proof -
  have fa: "f vs = bv_imm (node ctx a)" "g vs = bv_imm (node ctx b)" "f vs AND width_mask aw = f vs" "g vs AND width_mask aw = g vs" for vs
    using denotes_const [OF assms(1,2,5)] denotes_const [OF assms(1,3,6)] masked_self [OF assms(1,2)] masked_self [OF assms(1,3)] by simp_all
  have d: "a < length (nodes ctx)" "b < length (nodes ctx)" "node_width ctx a = aw" "node_width ctx b = aw"
    using assms(2,3) by (auto simp: denotes_def)
  have "eval_node_concrete no_fp (nodes ctx) (bv_node op 1 a b 0 0 0) (bv_imm (node ctx a)) (bv_imm (node ctx b)) 0 = h vs" for vs
    using d fa [of vs] assms(7) [of vs] pred_eval [OF assms(4)]
    by (simp add: eval_node_concrete_def Let_def child_width_def)
  moreover have "h vs AND width_mask 1 = h vs" for vs
    unfolding assms(7) using eval_in_width [of 1 op] assms(4) by (auto simp: in_width_def pred_op_def)
  ultimately show ?thesis unfolding fold_consts_def using width_one by (intro returns_const [OF assms(1)]) (simp, metis)
qed

text \<open>Extended operands.\<close>

lemma ext_node:
  assumes "context_ok ctx" "denotes ctx i w f" "bv_op (node ctx i) = op" "op = BV_ZExt \<or> op = BV_SExt"
  shows "bv_a (node ctx i) < i" "denotes ctx (bv_a (node ctx i)) (node_width ctx (bv_a (node ctx i))) (value_of ctx (bv_a (node ctx i)))"
    and "w = node_width ctx (bv_a (node ctx i)) + bv_extra (node ctx i)" "0 < bv_extra (node ctx i)"
    and "f vs = eval_op no_fp op w (node_width ctx (bv_a (node ctx i))) 0 0 0 (value_of ctx (bv_a (node ctx i)) vs) 0 0"
proof -
  let ?n = "node ctx i"
  have t: "table_typed (nodes ctx)" and i: "i < length (nodes ctx)" "bv_width ?n = w" "f = value_of ctx i"
    using assms by (auto simp: context_ok_def denotes_def)
  have n: "node_typed (take i (nodes ctx)) ?n" using t i by (simp add: table_typed_def)
  show ab: "bv_a ?n < i" using n i assms(3,4) by (auto simp: node_typed_def Let_def)
  show "denotes ctx (bv_a ?n) (node_width ctx (bv_a ?n)) (value_of ctx (bv_a ?n))" using i ab by (simp add: denotes_def)
  show "w = node_width ctx (bv_a ?n) + bv_extra ?n" "0 < bv_extra ?n" using n i assms(3,4) ab by (auto simp: node_typed_def Let_def)
  show "f vs = eval_op no_fp op w (node_width ctx (bv_a ?n)) 0 0 0 (value_of ctx (bv_a ?n) vs) 0 0"
    using bv_val_node [OF t i(1), of vs] assms(3,4) i by (auto simp: node_sem_def)
qed

lemma zext_node:
  assumes ok: "context_ok ctx" and d: "denotes ctx i w f" and op: "bv_op (node ctx i) = BV_ZExt"
  shows "f vs = value_of ctx (bv_a (node ctx i)) vs"
proof -
  note n = ext_node [OF ok d op disjI1 [OF refl]]
  have le: "node_width ctx (bv_a (node ctx i)) \<le> w" using n(3) by linarith
  have "w \<le> 64" using denotes_width [OF ok d] by (simp add: valid_width_def)
  then have "in_width w (value_of ctx (bv_a (node ctx i)) vs)"
    using in_width_wider [OF _ le] denotes_width [OF ok n(2)] by blast
  then show ?thesis using n(5) [of vs] by (simp add: in_width_def)
qed

lemma sext_node:
  assumes ok: "context_ok ctx" and d: "denotes ctx i w f" and op: "bv_op (node ctx i) = BV_SExt"
  shows "sval w (f vs) = sval (node_width ctx (bv_a (node ctx i))) (value_of ctx (bv_a (node ctx i)) vs)"
proof -
  note n = ext_node [OF ok d op disjI2 [OF refl]]
  have "node_width ctx (bv_a (node ctx i)) \<le> w" using n(3) by linarith
  then show ?thesis using n(5) [of vs] denotes_width [OF ok d] denotes_width [OF ok n(2)]
    by (simp add: sext_value(2))
qed

lemma sval_inj: "valid_width w \<Longrightarrow> in_width w x \<Longrightarrow> in_width w y \<Longrightarrow> sval w x = sval w y \<longleftrightarrow> x = y"
  using sval_mod [of w x] sval_mod [of w y] by (metis word_uint_eq_iff)

text \<open>Equality of sums that share an operand, and of a sum with a constant.\<close>

lemma sum_cancel:
  assumes w: "w \<le> 64" and x: "in_width w x" and y: "in_width w y"
  shows "(c + x) AND width_mask w = (c + y) AND width_mask w \<longleftrightarrow> x = y"
    and "(x + c) AND width_mask w = (y + c) AND width_mask w \<longleftrightarrow> x = y"
    and "(c + x) AND width_mask w = (y + c) AND width_mask w \<longleftrightarrow> x = y"
    and "(x + c) AND width_mask w = (c + y) AND width_mask w \<longleftrightarrow> x = y"
    and "(x + c) AND width_mask w = y \<longleftrightarrow> x = (y - c) AND width_mask w"
proof -
  have xy: "x AND width_mask w = x" "y AND width_mask w = y" using x y by (simp_all add: in_width_def)
  show e: "(x + c) AND width_mask w = y \<longleftrightarrow> x = (y - c) AND width_mask w"
    using mask_ring(1) [OF w, of "x + c" "- c"] mask_ring(1) [OF w, of "y - c" c] xy by auto
  have "(((y + c) AND width_mask w) - c) AND width_mask w = y" using mask_ring(3) [OF w, of "y + c" c] xy by simp
  then show "(x + c) AND width_mask w = (y + c) AND width_mask w \<longleftrightarrow> x = y"
    using mask_ring(3) [OF w, of "x + c" c] xy by auto
  then show "(c + x) AND width_mask w = (c + y) AND width_mask w \<longleftrightarrow> x = y"
    "(c + x) AND width_mask w = (y + c) AND width_mask w \<longleftrightarrow> x = y"
    "(x + c) AND width_mask w = (c + y) AND width_mask w \<longleftrightarrow> x = y"
    by (simp_all add: add.commute)
qed

lemma disjoint_intervals:
  assumes "contains w ia x" "contains w ib y"
    and "umax ia < umin ib \<or> umax ib < umin ia \<or> sint (smax ia) < sint (smin ib) \<or> sint (smax ib) < sint (smin ia)
      \<or> known_ones ia AND known_zeros ib \<noteq> 0 \<or> known_ones ib AND known_zeros ia \<noteq> 0"
  shows "x \<noteq> y"
proof
  assume e: "x = y"
  note x = containsD [OF assms(1)] and y = containsD [OF assms(2), folded e]
  have "k AND z = 0" if "k AND x = k" "x AND z = 0" for k z :: u64
  proof -
    have "k AND z = (k AND x) AND z" using that(1) by simp
    then show ?thesis using that(2) by (simp add: and.assoc)
  qed
  then have "known_ones ia AND known_zeros ib = 0" "known_ones ib AND known_zeros ia = 0"
    using x(6,7) y(6,7) by blast+
  moreover have "umin ib \<le> umax ia" "umin ia \<le> umax ib" by (rule order.trans [OF y(2) x(3)], rule order.trans [OF x(2) y(3)])
  moreover have "sint (smin ib) \<le> sint (smax ia)" "sint (smin ia) \<le> sint (smax ib)"
    by (rule order.trans [OF y(4) x(5)], rule order.trans [OF x(4) y(5)])
  ultimately show False using assms(3) by (simp add: not_less [symmetric])
qed

lemma bit_value: "in_width (Suc 0) x \<Longrightarrow> x = 0 \<or> x = 1"
proof -
  assume "in_width (Suc 0) x"
  then have "uint x < 2" using in_width_iff [of "Suc 0" x] by simp
  then have "uint x = 0 \<or> uint x = 1" using uint_ge_0 [of x] by linarith
  then show ?thesis by (simp add: word_uint_eq_iff)
qed

abbreviation of_bool64 :: "bool \<Rightarrow> u64" where "of_bool64 p \<equiv> if p then 1 else 0"

lemma make_eq_returns:
  assumes "context_ok ctx" "denotes ctx a0 w f0" "denotes ctx b0 w g0"
  shows "returns ctx 1 (\<lambda>vs. of_bool64 (f0 vs = g0 vs)) (make_eq ctx a0 b0)"
  using assms
proof (induction "weight ctx a0 + weight ctx b0" arbitrary: ctx a0 b0 f0 g0 w rule: less_induct)
  case less
  note ok = less.prems(1)
  obtain a b f g where o: "order_operands ctx BV_Eq a0 b0 = (a, b)" and da: "denotes ctx a w f" and db: "denotes ctx b w g"
      and h: "(\<lambda>vs. of_bool64 (f0 vs = g0 vs)) = (\<lambda>vs. of_bool64 (f vs = g vs))"
      and wt: "weight ctx a + weight ctx b = weight ctx a0 + weight ctx b0"
    by (rule order_cases [OF less.prems(2,3), where s = "\<lambda>x y. of_bool64 (x = y)" and op = BV_Eq]) (auto simp: eq_commute)
  have w: "valid_width w" "w \<le> 64" using denotes_width [OF ok da] by (simp_all add: valid_width_def)
  note fw = masked_self [OF ok da] and gw = masked_self [OF ok db]
  have m: "node_width ctx a0 = w" "bv_width (node ctx a) = w" using less.prems(2) da by (simp_all add: denotes_def)
  have gk: "g vs = bv_imm (node ctx b)" if "is_const (node ctx b)" for vs using denotes_const [OF ok db that] .
  have IH: "returns ctx' 1 (\<lambda>vs. of_bool64 (f vs = g vs)) (make_eq ctx' a' b')"
    if "context_ok ctx'" "weight ctx' a' + weight ctx' b' < weight ctx a + weight ctx b" "denotes ctx' a' v f'" "denotes ctx' b' v g'"
      "\<And>vs. f vs = g vs \<longleftrightarrow> f' vs = g' vs" for ctx' a' b' v f' g'
    using less.hyps [of ctx' a' b' v f' g'] that wt by simp
  note na = arith_node [OF ok da _ arith_ops(4)] and nb = arith_node [OF ok db _ arith_ops(4)]
  have down: "weight ctx x + weight ctx y < weight ctx a + weight ctx b"
    if "x < a" "y < b" "\<not> is_const (node ctx a)" "\<not> is_const (node ctx b)" for x y
    using weight_child [OF that(1,3)] weight_child [OF that(2,4)] by simp
  let ?R = "returns ctx 1 (\<lambda>vs. of_bool64 (f vs = g vs))"
  have cancel: "?R (make_eq ctx x y)"
    if "bv_op (node ctx a) = BV_Add" "bv_op (node ctx b) = BV_Add" "x < a" "y < b" "denotes ctx x w p" "denotes ctx y w q"
      "\<And>vs. f vs = g vs \<longleftrightarrow> p vs = q vs" for x y p q
    using that by (intro IH [OF ok down]) (simp_all add: is_const_def)
  have widths: "in_width w (value_of ctx i vs)" if "denotes ctx i w (value_of ctx i)" for i vs using denotes_width [OF ok that] by simp
  show ?case
    unfolding h
  proof (subst make_eq.simps, unfold Let_def o m prod.case, intro returns_if)
    assume "is_const (node ctx a) \<and> is_const (node ctx b)"
    then show "?R (Some (fold_consts ctx BV_Eq a b 1))" by (intro fold_pred_returns [OF ok da db]) simp_all
  next
    assume "a = b"
    then show "?R (Some (make_const ctx 1 1))"
      using da db one_masked width_one by (intro returns_const [OF ok]) (auto simp: denotes_def)
  next
    assume c: "bv_op (node ctx a) = BV_Add \<and> bv_op (node ctx b) = BV_Add \<and> bv_a (node ctx a) = bv_a (node ctx b)"
    note a = na [OF conjunct1 [OF c]] and b = nb [OF conjunct1 [OF conjunct2 [OF c]]]
    show "?R (make_eq ctx (bv_b (node ctx a)) (bv_b (node ctx b)))"
      by (rule cancel [OF _ _ a(2) b(2) a(4) b(4)]) (use c in \<open>simp_all add: a(5) b(5) sum_cancel(1-4) [OF w(2)] widths a(4) b(4)\<close>)
  next
    assume c: "bv_op (node ctx a) = BV_Add \<and> bv_op (node ctx b) = BV_Add \<and> bv_b (node ctx a) = bv_b (node ctx b)"
    note a = na [OF conjunct1 [OF c]] and b = nb [OF conjunct1 [OF conjunct2 [OF c]]]
    show "?R (make_eq ctx (bv_a (node ctx a)) (bv_a (node ctx b)))"
      by (rule cancel [OF _ _ a(1) b(1) a(3) b(3)]) (use c in \<open>simp_all add: a(5) b(5) sum_cancel(1-4) [OF w(2)] widths a(3) b(3)\<close>)
  next
    assume c: "bv_op (node ctx a) = BV_Add \<and> bv_op (node ctx b) = BV_Add \<and> bv_a (node ctx a) = bv_b (node ctx b)"
    note a = na [OF conjunct1 [OF c]] and b = nb [OF conjunct1 [OF conjunct2 [OF c]]]
    show "?R (make_eq ctx (bv_b (node ctx a)) (bv_a (node ctx b)))"
      by (rule cancel [OF _ _ a(2) b(1) a(4) b(3)]) (use c in \<open>simp_all add: a(5) b(5) sum_cancel(1-4) [OF w(2)] widths a(4) b(3)\<close>)
  next
    assume c: "bv_op (node ctx a) = BV_Add \<and> bv_op (node ctx b) = BV_Add \<and> bv_b (node ctx a) = bv_a (node ctx b)"
    note a = na [OF conjunct1 [OF c]] and b = nb [OF conjunct1 [OF conjunct2 [OF c]]]
    show "?R (make_eq ctx (bv_a (node ctx a)) (bv_b (node ctx b)))"
      by (rule cancel [OF _ _ a(1) b(2) a(3) b(4)]) (use c in \<open>simp_all add: a(5) b(5) sum_cancel(1-4) [OF w(2)] widths a(3) b(4)\<close>)
  next
    assume c: "bv_op (node ctx a) = BV_Add \<and> is_const (node ctx (bv_b (node ctx a))) \<and> is_const (node ctx b)"
    note a = na [OF conjunct1 [OF c]]
    have k: "is_const (node ctx b)" "is_const (node ctx (bv_b (node ctx a)))" and nc: "\<not> is_const (node ctx a)"
      using c by (simp_all add: is_const_def)
    show "?R (case make_const ctx ((bv_imm (node ctx b) - bv_imm (node ctx (bv_b (node ctx a)))) AND width_mask w) w of (ctx', d) \<Rightarrow> make_eq ctx' (bv_a (node ctx a)) d)"
    proof (rule const_then [OF ok w(1)], goal_cases)
      case e: (1 ctx' d)
      have "weight ctx' (bv_a (node ctx a)) + weight ctx' d < weight ctx a + weight ctx b"
        using weight_step [OF e(2) a(1) da nc] weight_const [OF e(4)] by linarith
      moreover have "f vs = g vs \<longleftrightarrow> value_of ctx (bv_a (node ctx a)) vs =
          ((bv_imm (node ctx b) - bv_imm (node ctx (bv_b (node ctx a)))) AND width_mask w) AND width_mask w" for vs
        using a(5) [of vs] gk [OF k(1), of vs] denotes_const [OF ok a(4) k(2), of vs] denotes_width [OF ok db, of vs]
        by (simp add: sum_cancel(5) [OF w(2) widths [OF a(3)]] and.assoc)
      ultimately show ?case using e by (intro IH [OF e(1) _ denotes_extends [OF ok e(1,2) a(3)]])
    qed
  next
    assume c: "(bv_op (node ctx a) = BV_ZExt \<and> bv_op (node ctx b) = BV_ZExt \<or> bv_op (node ctx a) = BV_SExt \<and> bv_op (node ctx b) = BV_SExt)
      \<and> node_width ctx (bv_a (node ctx a)) = node_width ctx (bv_a (node ctx b))"
    obtain op where op: "bv_op (node ctx a) = op" "bv_op (node ctx b) = op" "op = BV_ZExt \<or> op = BV_SExt" using c by auto
    note a = ext_node [OF ok da op(1,3)] and b = ext_node [OF ok db op(2,3)]
    have "f vs = g vs \<longleftrightarrow> value_of ctx (bv_a (node ctx a)) vs = value_of ctx (bv_a (node ctx b)) vs" for vs
    proof (cases "op = BV_ZExt")
      case True
      then show ?thesis using op zext_node [OF ok da] zext_node [OF ok db] by simp
    next
      case False
      then have s: "bv_op (node ctx a) = BV_SExt" "bv_op (node ctx b) = BV_SExt" using op by simp_all
      have "f vs = g vs \<longleftrightarrow> sval w (f vs) = sval w (g vs)"
        using sval_inj [OF w(1)] denotes_width [OF ok da] denotes_width [OF ok db] by blast
      also have "\<dots> \<longleftrightarrow> value_of ctx (bv_a (node ctx a)) vs = value_of ctx (bv_a (node ctx b)) vs"
        unfolding sext_node [OF ok da s(1)] sext_node [OF ok db s(2)]
        using c sval_inj denotes_width [OF ok a(2)] denotes_width [OF ok b(2)] by metis
      finally show ?thesis .
    qed
    then show "?R (make_eq ctx (bv_a (node ctx a)) (bv_a (node ctx b)))"
      using op b(2) c by (intro IH [OF ok down a(2)] a(1) b(1)) (auto simp: is_const_def)
  next
    assume c: "bv_op (node ctx a) = BV_ZExt \<and> node_width ctx (bv_a (node ctx a)) = 1 \<and> is_const (node ctx b)"
      and z: "bv_imm (node ctx b) = 0"
    note a = ext_node(2) [OF ok da conjunct1 [OF c] disjI1 [OF refl]]
    have d: "denotes ctx (bv_a (node ctx a)) (Suc 0) f" using a c zext_node [OF ok da] by (simp add: denotes_def fun_eq_iff)
    have "of_bool64 (f vs = g vs) = NOT (f vs) AND width_mask (Suc 0)" for vs
      using bit_value [of "f vs"] denotes_width [OF ok d, of vs] gk c z by (auto simp: width_mask_def)
    then show "?R (Some (make_unary_node ctx BV_Not (bv_a (node ctx a)) 1))" using make_not_yields [OF ok d] by simp
  next
    assume c: "bv_op (node ctx a) = BV_ZExt \<and> node_width ctx (bv_a (node ctx a)) = 1 \<and> is_const (node ctx b)"
      and z: "bv_imm (node ctx b) = 1"
    note a = ext_node(2) [OF ok da conjunct1 [OF c] disjI1 [OF refl]]
    have d: "denotes ctx (bv_a (node ctx a)) (Suc 0) f" using a c zext_node [OF ok da] by (simp add: denotes_def fun_eq_iff)
    have "of_bool64 (f vs = g vs) = f vs" for vs
      using bit_value [of "f vs"] denotes_width [OF ok d, of vs] gk c z by auto
    then show "?R (Some (ctx, bv_a (node ctx a)))" using yields_self [OF ok d] by simp
  next
    assume c: "bv_op (node ctx a) = BV_ZExt \<and> node_width ctx (bv_a (node ctx a)) = 1 \<and> is_const (node ctx b)"
      and z: "bv_imm (node ctx b) \<noteq> 0" "bv_imm (node ctx b) \<noteq> 1"
    note a = ext_node(2) [OF ok da conjunct1 [OF c] disjI1 [OF refl]]
    have d: "denotes ctx (bv_a (node ctx a)) (Suc 0) f" using a c zext_node [OF ok da] by (simp add: denotes_def fun_eq_iff)
    have "f vs \<noteq> g vs" for vs using bit_value [of "f vs"] denotes_width [OF ok d, of vs] gk c z by auto
    then show "?R (Some (make_const ctx 0 1))" using width_one by (intro returns_const [OF ok]) simp_all
  next
    assume c: "umax (interval_of ctx a) < umin (interval_of ctx b) \<or> umax (interval_of ctx b) < umin (interval_of ctx a) \<or>
      sint (smax (interval_of ctx a)) < sint (smin (interval_of ctx b)) \<or> sint (smax (interval_of ctx b)) < sint (smin (interval_of ctx a))
      \<or> known_ones (interval_of ctx a) AND known_zeros (interval_of ctx b) \<noteq> 0 \<or> known_ones (interval_of ctx b) AND known_zeros (interval_of ctx a) \<noteq> 0"
    have "f vs \<noteq> g vs" for vs using disjoint_intervals [OF denotes_interval [OF ok da] denotes_interval [OF ok db] c] .
    then show "?R (Some (make_const ctx 0 1))" using width_one by (intro returns_const [OF ok]) simp_all
  next
    show "?R (Some (make_binary_node ctx BV_Eq a b 1))" by (intro make_pred_node_returns [OF ok da db]) simp_all
  qed
qed

lemma make_ult_returns:
  assumes "context_ok ctx" "denotes ctx a w f" "denotes ctx b w g"
  shows "returns ctx 1 (\<lambda>vs. of_bool64 (f vs < g vs)) (make_ult ctx a b)"
  using assms
proof (induction a arbitrary: b f g w rule: less_induct)
  case (less a)
  note ok = less.prems(1) and da = less.prems(2) and db = less.prems(3)
  note ia = containsD [OF denotes_interval [OF ok da]] and ib = containsD [OF denotes_interval [OF ok db]]
  let ?R = "returns ctx 1 (\<lambda>vs. of_bool64 (f vs < g vs))"
  show ?case
  proof (subst make_ult.simps, unfold Let_def, intro returns_if)
    assume "is_const (node ctx a) \<and> is_const (node ctx b)"
    then show "?R (Some (fold_consts ctx BV_Ult a b 1))" by (intro fold_pred_returns [OF ok da db]) simp_all
  next
    assume "a = b"
    then show "?R (Some (make_const ctx 0 1))" using da db width_one by (intro returns_const [OF ok]) (auto simp: denotes_def)
  next
    assume c: "umax (interval_of ctx a) < umin (interval_of ctx b)"
    have "f vs < g vs" for vs using ia(3) [of vs] ib(2) [of vs] c by (meson order.strict_trans1 order.strict_trans2)
    then show "?R (Some (make_const ctx 1 1))" using one_masked width_one by (intro returns_const [OF ok]) simp_all
  next
    assume c: "umax (interval_of ctx b) \<le> umin (interval_of ctx a)"
    have "g vs \<le> f vs" for vs using ia(2) [of vs] ib(3) [of vs] c by (meson order.trans)
    then show "?R (Some (make_const ctx 0 1))" using width_one by (intro returns_const [OF ok]) (simp_all add: not_less [symmetric])
  next
    assume c: "bv_op (node ctx a) = BV_ZExt \<and> bv_op (node ctx b) = BV_ZExt \<and> node_width ctx (bv_a (node ctx a)) = node_width ctx (bv_a (node ctx b))"
    have op: "bv_op (node ctx a) = BV_ZExt" "bv_op (node ctx b) = BV_ZExt" using c by simp_all
    note a = ext_node [OF ok da op(1) disjI1 [OF refl]] and b = ext_node [OF ok db op(2) disjI1 [OF refl]]
    show "?R (make_ult ctx (bv_a (node ctx a)) (bv_a (node ctx b)))"
      using less.IH [OF a(1) ok a(2), of "bv_a (node ctx b)"] b(2) c
      by (simp add: zext_node [OF ok da op(1)] zext_node [OF ok db op(2)])
  next
    show "?R (Some (make_binary_node ctx BV_Ult a b 1))" by (intro make_pred_node_returns [OF ok da db]) simp_all
  qed
qed

lemma make_slt_returns:
  assumes "context_ok ctx" "denotes ctx a w f" "denotes ctx b w g"
  shows "returns ctx 1 (\<lambda>vs. of_bool64 (sval w (f vs) < sval w (g vs))) (make_slt ctx a b)"
  using assms
proof (induction a arbitrary: b f g w rule: less_induct)
  case (less a)
  note ok = less.prems(1) and da = less.prems(2) and db = less.prems(3)
  note ia = containsD [OF denotes_interval [OF ok da]] and ib = containsD [OF denotes_interval [OF ok db]]
  let ?R = "returns ctx 1 (\<lambda>vs. of_bool64 (sval w (f vs) < sval w (g vs)))"
  show ?case
  proof (subst make_slt.simps, unfold Let_def, intro returns_if)
    assume "is_const (node ctx a) \<and> is_const (node ctx b)"
    then show "?R (Some (fold_consts ctx BV_Slt a b 1))" by (intro fold_pred_returns [OF ok da db]) simp_all
  next
    assume "a = b"
    then show "?R (Some (make_const ctx 0 1))" using da db width_one by (intro returns_const [OF ok]) (auto simp: denotes_def)
  next
    assume c: "sint (smax (interval_of ctx a)) < sint (smin (interval_of ctx b))"
    have "sval w (f vs) < sval w (g vs)" for vs using ia(5) [of vs] ib(4) [of vs] c by linarith
    then show "?R (Some (make_const ctx 1 1))" using one_masked width_one by (intro returns_const [OF ok]) simp_all
  next
    assume c: "sint (smax (interval_of ctx b)) \<le> sint (smin (interval_of ctx a))"
    have "\<not> sval w (f vs) < sval w (g vs)" for vs using ia(4) [of vs] ib(5) [of vs] c by linarith
    then show "?R (Some (make_const ctx 0 1))" using width_one by (intro returns_const [OF ok]) simp_all
  next
    assume c: "bv_op (node ctx a) = BV_SExt \<and> bv_op (node ctx b) = BV_SExt \<and> node_width ctx (bv_a (node ctx a)) = node_width ctx (bv_a (node ctx b))"
    have op: "bv_op (node ctx a) = BV_SExt" "bv_op (node ctx b) = BV_SExt" using c by simp_all
    note a = ext_node [OF ok da op(1) disjI2 [OF refl]] and b = ext_node [OF ok db op(2) disjI2 [OF refl]]
    show "?R (make_slt ctx (bv_a (node ctx a)) (bv_a (node ctx b)))"
      using less.IH [OF a(1) ok a(2), of "bv_a (node ctx b)"] b(2) c
      by (simp add: sext_node [OF ok da op(1)] sext_node [OF ok db op(2)])
  next
    show "?R (Some (make_binary_node ctx BV_Slt a b 1))" by (intro make_pred_node_returns [OF ok da db]) simp_all
  qed
qed

text \<open>The comparisons that are rewritten.\<close>

definition negated :: "built \<Rightarrow> built" where
  "negated r = Option.bind r (\<lambda>(ctx, t). Some (make_unary_node ctx BV_Not t 1))"

definition make_compare :: "BVContext \<Rightarrow> BVOp \<Rightarrow> BVNodeId \<Rightarrow> BVNodeId \<Rightarrow> built" where
  "make_compare ctx op a b =
     (case op of
        BV_Ugt \<Rightarrow> make_ult ctx b a
      | BV_Uge \<Rightarrow> negated (make_ult ctx a b)
      | BV_Ule \<Rightarrow> negated (make_ult ctx b a)
      | BV_Sgt \<Rightarrow> make_slt ctx b a
      | BV_Sge \<Rightarrow> negated (make_slt ctx a b)
      | BV_Sle \<Rightarrow> negated (make_slt ctx b a)
      | BV_Ne \<Rightarrow> negated (make_eq ctx a b)
      | BV_Eq \<Rightarrow> make_eq ctx a b
      | BV_Ult \<Rightarrow> make_ult ctx a b
      | BV_Slt \<Rightarrow> make_slt ctx a b
      | _ \<Rightarrow> make_overflow ctx op a b)"

lemma negated_returns:
  assumes "returns ctx 1 (\<lambda>vs. of_bool64 (p vs)) r" "\<And>vs. h vs = of_bool64 (\<not> p vs)"
  shows "returns ctx 1 h (negated r)"
  unfolding negated_def
proof (rule bind_then [OF assms(1)])
  fix ctx' t assume e: "context_ok ctx'" "denotes ctx' t 1 (\<lambda>vs. of_bool64 (p vs))"
  have "NOT (of_bool64 (p vs)) AND width_mask 1 = h vs" for vs using assms(2) [of vs] by (simp add: width_mask_def)
  then show "returns ctx' 1 h (Some (make_unary_node ctx' BV_Not t 1))" using make_not_yields [OF e] by simp
qed

lemma carry_out:
  assumes "w \<le> 64" "in_width w x" "in_width w y"
  shows "(x + y) AND width_mask w < x \<longleftrightarrow> 2 ^ w \<le> uint x + uint y"
proof -
  have r: "uint x < 2 ^ w" "uint y < 2 ^ w" "0 \<le> uint x" "0 \<le> uint y" using assms by (simp_all add: in_width_iff)
  show ?thesis
  proof (cases "2 ^ w \<le> uint x + uint y")
    case True
    then have "(uint x + uint y - 2 ^ w) mod 2 ^ w = uint x + uint y - 2 ^ w"
      using r by (intro mod_pos_pos_trivial) linarith+
    then have "(uint x + uint y) mod 2 ^ w = uint x + uint y - 2 ^ w" by (simp only: minus_mod_self2)
    then show ?thesis using True r unfolding word_less_def add_value_mod [OF assms(1)] by simp
  next
    case False
    then have "(uint x + uint y) mod 2 ^ w = uint x + uint y" using r by (intro mod_pos_pos_trivial) simp_all
    then show ?thesis using False r unfolding word_less_def add_value_mod [OF assms(1)] by simp
  qed
qed

lemma overflow_commutes:
  assumes "is_commutative op" "op \<in> {BV_SAddOvf, BV_SSubOvf, BV_SMulOvf, BV_UAddOvf, BV_USubOvf, BV_UMulOvf}"
    and "valid_width w" "in_width w x" "in_width w y"
  shows "pred_sem op w x y = pred_sem op w y x"
proof -
  have w: "w \<le> 64" using assms(3) by (simp add: valid_width_def)
  have "(x + y) AND width_mask w < x \<longleftrightarrow> (y + x) AND width_mask w < y"
    unfolding carry_out [OF w assms(4,5)] carry_out [OF w assms(5,4)] by (simp add: add.commute)
  moreover have "mul_u64_overflow a b = mul_u64_overflow b a" "mul_s64_overflow a b = mul_s64_overflow b a" for a b
    by (simp_all add: mul_u64_overflow_exact mul_s64_overflow_exact word_overflow_exact mult.commute)
  ultimately show ?thesis using assms(1,2)
    by (auto simp: is_commutative_def Let_def add.commute mult.commute)
qed

lemma make_overflow_returns:
  assumes ok: "context_ok ctx" and d: "denotes ctx a0 w f0" "denotes ctx b0 w g0"
    and op: "op \<in> {BV_SAddOvf, BV_SSubOvf, BV_SMulOvf, BV_UAddOvf, BV_USubOvf, BV_UMulOvf}"
  shows "returns ctx 1 (\<lambda>vs. pred_sem op w (f0 vs) (g0 vs)) (make_overflow ctx op a0 b0)"
proof -
  have p: "pred_op op" using op by (auto simp: pred_op_def)
  have "returns ctx 1 (\<lambda>vs. pred_sem op w (f0 vs) (g0 vs)) (make_overflow ctx op a0 b0)"
    if o: "order_operands ctx op a0 b0 = (a, b)" "denotes ctx a w f" "denotes ctx b w g"
      "\<And>vs. pred_sem op w (f0 vs) (g0 vs) = pred_sem op w (f vs) (g vs)" for a b f g
    using fold_pred_returns [OF ok o(2,3) p] make_pred_node_returns [OF ok o(2,3) p] o(4)
    by (simp add: make_overflow_def o(1))
  moreover have "pred_sem op w (f0 vs) (g0 vs) = pred_sem op w (g0 vs) (f0 vs)" if "is_commutative op" for vs
    using denotes_width [OF ok d(1)] denotes_width [OF ok d(2)] by (intro overflow_commutes [OF that op]) simp_all
  ultimately show ?thesis using d
    by (cases "order_operands ctx op a0 b0 = (a0, b0)") (auto simp: order_operands_def Let_def split: if_splits)
qed

lemma make_compare_returns:
  assumes ok: "context_ok ctx" and a: "denotes ctx a w f" and b: "denotes ctx b w g" and op: "pred_op op"
  shows "returns ctx 1 (\<lambda>vs. pred_sem op w (f vs) (g vs)) (make_compare ctx op a b)"
proof -
  note eq = make_eq_returns [OF ok a b] and lt = make_ult_returns [OF ok a b] and gt = make_ult_returns [OF ok b a]
    and slt = make_slt_returns [OF ok a b] and sgt = make_slt_returns [OF ok b a]
  consider "op \<in> {BV_SAddOvf, BV_SSubOvf, BV_SMulOvf, BV_UAddOvf, BV_USubOvf, BV_UMulOvf}"
    | "op = BV_Eq" | "op = BV_Ult" | "op = BV_Ugt" | "op = BV_Slt" | "op = BV_Sgt"
    | "op = BV_Ne" | "op = BV_Uge" | "op = BV_Ule" | "op = BV_Sge" | "op = BV_Sle" using op by (auto simp: pred_op_def)
  then show ?thesis
  proof cases
    case 1
    then show ?thesis using make_overflow_returns [OF ok a b 1] by (auto simp: make_compare_def)
  qed (use eq lt gt slt sgt negated_returns [OF eq refl] negated_returns [OF lt refl] negated_returns [OF gt refl]
      negated_returns [OF slt refl] negated_returns [OF sgt refl] in \<open>simp_all add: make_compare_def not_less\<close>)
qed

end
