(* ===== verification/Bv_Extend.thy ===== *)
theory Bv_Extend
  imports Bv_Binary
begin

text \<open>
  The constructors of selections, extensions, extractions and concatenations (\<open>make_ite\<close>,
  \<open>make_zext\<close>, \<open>make_sext\<close>, \<open>make_extract\<close>, \<open>make_concat\<close> of \<open>src/verify/bv_solver.cpp\<close>) and the rest of
  \<open>make_unary\<close>.  Where C++ leaves the order of two argument evaluations open, the model takes the
  left one first; the order decides only which of two new nodes gets the smaller number.
\<close>

section \<open>Unary operations and selections\<close>

definition make_unary :: "BVContext \<Rightarrow> BVOp \<Rightarrow> BVNodeId \<Rightarrow> nat \<Rightarrow> built" where
  "make_unary ctx op a w =
     (if op = BV_Neg \<and> \<not> is_const (node ctx a)
      then case make_const ctx 0 w of (ctx, z) \<Rightarrow> make_arith ctx BV_Sub z a w
      else Some (make_unary_node ctx op a w))"

partial_function (option) make_ite :: "BVContext \<Rightarrow> BVNodeId \<Rightarrow> BVNodeId \<Rightarrow> BVNodeId \<Rightarrow> built" where
  "make_ite ctx cond t0 f0 =
     (let nc = node ctx cond; nt0 = node ctx t0; nf0 = node ctx f0;
          t = (if bv_op nt0 = BV_Ite \<and> bv_a nt0 = cond then bv_b nt0 else t0);
          f = (if bv_op nf0 = BV_Ite \<and> bv_a nf0 = cond then bv_c nf0 else f0);
          w = node_width ctx t; nt = node ctx t; nf = node ctx f
      in if t0 = f0 then Some (ctx, t0)
         else if is_const nc \<and> bv_imm nc \<noteq> 0 then Some (ctx, t0)
         else if is_const nc then Some (ctx, f0)
         else if bv_op nc = BV_Not then make_ite ctx (bv_a nc) f0 t0
         else if t = f then Some (ctx, t)
         else if w = 1 \<and> is_const nt \<and> is_const nf \<and> bv_imm nt = 1 \<and> bv_imm nf = 0 then Some (ctx, cond)
         else if w = 1 \<and> is_const nt \<and> is_const nf \<and> bv_imm nt = 0 \<and> bv_imm nf = 1
           then Some (make_unary_node ctx BV_Not cond 1)
         else Some (intern ctx (bv_node BV_Ite w cond t f 0 0)))"

definition unary_op :: "BVOp \<Rightarrow> bool" where
  "unary_op op \<longleftrightarrow> op \<in> {BV_Not, BV_Neg, BV_Clz, BV_Ctz, BV_Popcnt}"

abbreviation sem1 :: "BVOp \<Rightarrow> nat \<Rightarrow> u64 \<Rightarrow> u64" where
  "sem1 op w x \<equiv> eval_op no_fp op w w w 0 0 x 0 0"

lemma unary_eval: "unary_op op \<Longrightarrow> eval_op no_fp op w w bw imm extra x y z = sem1 op w x"
  by (auto simp: unary_op_def)

lemma make_unary_returns:
  assumes ok: "context_ok ctx" and d: "denotes ctx a w f" and op: "unary_op op"
  shows "returns ctx w (\<lambda>vs. sem1 op w (f vs)) (make_unary ctx op a w)"
proof -
  have w: "valid_width w" "1 \<le> w" using denotes_width [OF ok d] by (simp_all add: valid_width_def)
  note fw = masked_self [OF ok d]
  have a: "a < length (nodes ctx)" "node_width ctx a = w" "value_of ctx a = f" using d by (simp_all add: denotes_def)
  consider (const) "is_const (node ctx a)" | (neg) "\<not> is_const (node ctx a)" "op = BV_Neg" | (inv) "\<not> is_const (node ctx a)" "op = BV_Not"
    | (node) "\<not> is_const (node ctx a)" "op \<noteq> BV_Not" "op \<noteq> BV_Neg" by blast
  then show ?thesis
  proof cases
    case const
    have "eval_node_concrete no_fp (nodes ctx) (bv_node op w a 0 0 0 0) (bv_imm (node ctx a)) 0 0 = sem1 op w (f vs)" for vs
      using denotes_const [OF ok d const] fw [of vs] a unary_eval [OF op] by (simp add: eval_node_concrete_def child_width_def Let_def)
    moreover have "sem1 op w (f vs) AND width_mask w = sem1 op w (f vs)" for vs
      using eval_in_width [OF w(2), of op] op by (auto simp: in_width_def unary_op_def)
    ultimately have "returns ctx w (\<lambda>vs. sem1 op w (f vs)) (Some (make_unary_node ctx op a w))"
      unfolding make_unary_node_def Let_def using const by (simp only: if_True) (rule returns_const [OF ok w(1)], metis)
    then show ?thesis using const by (simp only: make_unary_def simp_thms if_False)
  next
    case neg
    have "returns ctx w (\<lambda>vs. sem1 op w (f vs)) (case make_const ctx 0 w of (ctx', z) \<Rightarrow> make_arith ctx' BV_Sub z a w)"
    proof (rule const_then [OF ok w(1)], goal_cases)
      case e: (1 ctx' z)
      show ?case using make_arith_returns [OF arith_groups(2) e(1,3) denotes_extends [OF ok e(1,2) d]] neg(2)
        by (simp add: not_eq_complement)
    qed
    then show ?thesis using neg by (simp add: make_unary_def)
  next
    case inv
    then show ?thesis using make_not_yields [OF ok d] by (simp add: make_unary_def)
  next
    case node
    have "node_sem (nodes ctx) (bv_node op w a 0 0 0 0) = (\<lambda>vs. sem1 op w (f vs))"
      using a op unary_eval [OF op] by (auto simp: node_sem_def fun_eq_iff unary_op_def)
    moreover have "node_typed (nodes ctx) (bv_node op w a 0 0 0 0)" using a op w by (auto simp: node_typed_def unary_op_def)
    ultimately show ?thesis
      using node intern_yields [OF ok, of "bv_node op w a 0 0 0 0"] context_pos [OF ok] a
      by (simp add: make_unary_def make_unary_node_def Let_def)
  qed
qed

lemma ite_node:
  assumes "context_ok ctx" "denotes ctx i w f" "bv_op (node ctx i) = BV_Ite"
  shows "bv_a (node ctx i) < i" "bv_b (node ctx i) < i" "bv_c (node ctx i) < i"
    and "denotes ctx (bv_a (node ctx i)) 1 (value_of ctx (bv_a (node ctx i)))"
    and "denotes ctx (bv_b (node ctx i)) w (value_of ctx (bv_b (node ctx i)))"
    and "denotes ctx (bv_c (node ctx i)) w (value_of ctx (bv_c (node ctx i)))"
    and "f vs = (if value_of ctx (bv_a (node ctx i)) vs \<noteq> 0 then value_of ctx (bv_b (node ctx i)) vs else value_of ctx (bv_c (node ctx i)) vs)"
proof -
  let ?n = "node ctx i"
  have t: "table_typed (nodes ctx)" and i: "i < length (nodes ctx)" "bv_width ?n = w" "f = value_of ctx i"
    using assms by (auto simp: context_ok_def denotes_def)
  have n: "node_typed (take i (nodes ctx)) ?n" using t i by (simp add: table_typed_def)
  show abc: "bv_a ?n < i" "bv_b ?n < i" "bv_c ?n < i" using n i assms(3) by (auto simp: node_typed_def Let_def)
  show "denotes ctx (bv_a ?n) 1 (value_of ctx (bv_a ?n))" using n i assms(3) abc by (auto simp: node_typed_def Let_def denotes_def)
  show bc: "denotes ctx (bv_b ?n) w (value_of ctx (bv_b ?n))" "denotes ctx (bv_c ?n) w (value_of ctx (bv_c ?n))"
    using n i assms(3) abc by (auto simp: node_typed_def Let_def denotes_def)
  show "f vs = (if value_of ctx (bv_a ?n) vs \<noteq> 0 then value_of ctx (bv_b ?n) vs else value_of ctx (bv_c ?n) vs)"
    using bv_val_node [OF t i(1), of vs] assms(3) i masked_self [OF assms(1) bc(1)] masked_self [OF assms(1) bc(2)] by (simp add: node_sem_def)
qed

lemma make_ite_returns:
  assumes "context_ok ctx" "denotes ctx cond 1 c" "denotes ctx t0 w p0" "denotes ctx f0 w q0"
  shows "returns ctx w (\<lambda>vs. if c vs \<noteq> 0 then p0 vs else q0 vs) (make_ite ctx cond t0 f0)"
  using assms
proof (induction cond arbitrary: c t0 f0 p0 q0 rule: less_induct)
  case (less cond)
  note ok = less.prems(1) and dc = less.prems(2) and dt = less.prems(3) and df = less.prems(4)
  let ?R = "returns ctx w (\<lambda>vs. if c vs \<noteq> 0 then p0 vs else q0 vs)"
  define t where "t = (if bv_op (node ctx t0) = BV_Ite \<and> bv_a (node ctx t0) = cond then bv_b (node ctx t0) else t0)"
  define f where "f = (if bv_op (node ctx f0) = BV_Ite \<and> bv_a (node ctx f0) = cond then bv_c (node ctx f0) else f0)"
  obtain p where p: "denotes ctx t w p" "\<And>vs. c vs \<noteq> 0 \<Longrightarrow> p0 vs = p vs"
    using dt dc ite_node [OF ok dt] by (cases "bv_op (node ctx t0) = BV_Ite \<and> bv_a (node ctx t0) = cond") (auto simp: t_def denotes_def)
  obtain q where q: "denotes ctx f w q" "\<And>vs. c vs = 0 \<Longrightarrow> q0 vs = q vs"
    using df dc ite_node [OF ok df] by (cases "bv_op (node ctx f0) = BV_Ite \<and> bv_a (node ctx f0) = cond") (auto simp: f_def denotes_def)
  have tw: "node_width ctx t = w" using p(1) by (simp add: denotes_def)
  have val: "(if c vs \<noteq> 0 then p0 vs else q0 vs) = (if c vs \<noteq> 0 then p vs else q vs)" for vs using p(2) q(2) by simp
  have bit: "c vs = 0 \<or> c vs = 1" for vs using bit_value denotes_width [OF ok dc] by simp
  have ck: "c vs = bv_imm (node ctx cond)" if "is_const (node ctx cond)" for vs using denotes_const [OF ok dc that] .
  have pk: "p vs = bv_imm (node ctx t)" if "is_const (node ctx t)" for vs using denotes_const [OF ok p(1) that] .
  have qk: "q vs = bv_imm (node ctx f)" if "is_const (node ctx f)" for vs using denotes_const [OF ok q(1) that] .
  show ?case
  proof (subst make_ite.simps, unfold Let_def t_def [symmetric] f_def [symmetric] tw, intro returns_if)
    assume "t0 = f0"
    then show "?R (Some (ctx, t0))" using df dt by (intro returns_self [OF ok dt]) (auto simp: denotes_def)
  next
    assume "is_const (node ctx cond) \<and> bv_imm (node ctx cond) \<noteq> 0"
    then show "?R (Some (ctx, t0))" using ck by (intro returns_self [OF ok dt]) simp
  next
    assume "is_const (node ctx cond)" "\<not> (is_const (node ctx cond) \<and> bv_imm (node ctx cond) \<noteq> 0)"
    then show "?R (Some (ctx, f0))" using ck by (intro returns_self [OF ok df]) simp
  next
    assume n: "bv_op (node ctx cond) = BV_Not"
    note nn = not_node [OF ok dc n]
    have b: "value_of ctx (bv_a (node ctx cond)) vs = 0 \<or> value_of ctx (bv_a (node ctx cond)) vs = 1" for vs
      using bit_value denotes_width [OF ok nn(2)] by simp
    have "(if c vs \<noteq> 0 then p0 vs else q0 vs) = (if value_of ctx (bv_a (node ctx cond)) vs \<noteq> 0 then q0 vs else p0 vs)" for vs
      using nn(3) [of vs] b [of vs] by (auto simp: width_mask_def)
    then show "?R (make_ite ctx (bv_a (node ctx cond)) f0 t0)" using less.IH [OF nn(1) ok nn(2) df dt] by simp
  next
    assume "t = f"
    then have "p = q" using p(1) q(1) by (auto simp: denotes_def)
    then show "?R (Some (ctx, t))" using val by (intro returns_self [OF ok p(1)]) (auto simp: fun_eq_iff)
  next
    assume k: "w = 1 \<and> is_const (node ctx t) \<and> is_const (node ctx f) \<and> bv_imm (node ctx t) = 1 \<and> bv_imm (node ctx f) = 0"
    have "(if c vs \<noteq> 0 then p0 vs else q0 vs) = c vs" for vs unfolding val using k pk qk bit [of vs] by auto
    then show "?R (Some (ctx, cond))" using k yields_self [OF ok dc] by simp
  next
    assume k: "w = 1 \<and> is_const (node ctx t) \<and> is_const (node ctx f) \<and> bv_imm (node ctx t) = 0 \<and> bv_imm (node ctx f) = 1"
    have "(if c vs \<noteq> 0 then p0 vs else q0 vs) = NOT (c vs) AND width_mask 1" for vs
      unfolding val using k pk qk bit [of vs] by (auto simp: width_mask_def)
    then show "?R (Some (make_unary_node ctx BV_Not cond 1))" using k make_not_yields [OF ok dc] by simp
  next
    let ?n = "bv_node BV_Ite w cond t f 0 0"
    have d: "cond < length (nodes ctx)" "node_width ctx cond = 1" "value_of ctx cond = c" "t < length (nodes ctx)" "value_of ctx t = p"
        "f < length (nodes ctx)" "node_width ctx f = w" "value_of ctx f = q"
      using dc p(1) q(1) by (simp_all add: denotes_def)
    have "node_typed (nodes ctx) ?n" using d tw denotes_width [OF ok p(1)] by (simp add: node_typed_def)
    moreover have "node_sem (nodes ctx) ?n = (\<lambda>vs. if c vs \<noteq> 0 then p0 vs else q0 vs)"
      unfolding val using d masked_self [OF ok p(1)] masked_self [OF ok q(1)] by (simp add: node_sem_def fun_eq_iff)
    ultimately show "?R (Some (intern ctx ?n))" using intern_yields [OF ok, of ?n] d by simp
  qed
qed

section \<open>Extensions\<close>

partial_function (option) make_zext :: "BVContext \<Rightarrow> BVNodeId \<Rightarrow> nat \<Rightarrow> built" where
  "make_zext ctx a ext_bits =
     (let na = node ctx a; w = bv_width na + ext_bits
      in if ext_bits = 0 then Some (ctx, a)
         else if is_const na then Some (make_const ctx (bv_imm na AND width_mask (bv_width na)) w)
         else if bv_op na = BV_ZExt then make_zext ctx (bv_a na) (bv_extra na + ext_bits)
         else if bv_op na = BV_Extract \<and> bv_extra na = 0 \<and> node_width ctx (bv_a na) = w then
           (case make_const ctx (width_mask (bv_width na)) w of (ctx, c) \<Rightarrow> make_and ctx (bv_a na) c w)
         else Some (intern ctx (bv_node BV_ZExt w a 0 0 0 ext_bits)))"

partial_function (option) make_sext :: "BVContext \<Rightarrow> BVNodeId \<Rightarrow> nat \<Rightarrow> built" where
  "make_sext ctx a ext_bits =
     (let na = node ctx a; w = bv_width na + ext_bits
      in if ext_bits = 0 then Some (ctx, a)
         else if is_const na then Some (make_const ctx (sign_extend_bits (bv_imm na) (bv_width na)) w)
         else if bv_op na = BV_SExt then make_sext ctx (bv_a na) (bv_extra na + ext_bits)
         else if bv_op na = BV_ZExt then make_zext ctx (bv_a na) (bv_extra na + ext_bits)
         else if sint (smin (interval_of ctx a)) \<ge> 0 then make_zext ctx a ext_bits
         else Some (intern ctx (bv_node BV_SExt w a 0 0 0 ext_bits)))"

lemma extract_node:
  assumes "context_ok ctx" "denotes ctx i w f" "bv_op (node ctx i) = BV_Extract"
  shows "bv_a (node ctx i) < i" "denotes ctx (bv_a (node ctx i)) (node_width ctx (bv_a (node ctx i))) (value_of ctx (bv_a (node ctx i)))"
    and "bv_extra (node ctx i) + w \<le> node_width ctx (bv_a (node ctx i))" "unat (bv_imm (node ctx i)) + 1 = bv_extra (node ctx i) + w"
    and "f vs = drop_bit (bv_extra (node ctx i)) (value_of ctx (bv_a (node ctx i)) vs) AND width_mask w"
proof -
  let ?n = "node ctx i"
  have t: "table_typed (nodes ctx)" and i: "i < length (nodes ctx)" "bv_width ?n = w" "f = value_of ctx i"
    using assms by (auto simp: context_ok_def denotes_def)
  have n: "node_typed (take i (nodes ctx)) ?n" using t i by (simp add: table_typed_def)
  show ab: "bv_a ?n < i" using n i assms(3) by (auto simp: node_typed_def Let_def)
  show "denotes ctx (bv_a ?n) (node_width ctx (bv_a ?n)) (value_of ctx (bv_a ?n))" using i ab by (simp add: denotes_def)
  show "bv_extra ?n + w \<le> node_width ctx (bv_a ?n)" "unat (bv_imm ?n) + 1 = bv_extra ?n + w"
    using n i assms(3) ab by (auto simp: node_typed_def Let_def)
  show "f vs = drop_bit (bv_extra ?n) (value_of ctx (bv_a ?n) vs) AND width_mask w"
    using bv_val_node [OF t i(1), of vs] assms(3) i by (simp add: node_sem_def)
qed

lemma make_zext_returns:
  assumes "context_ok ctx" "denotes ctx a aw f" "aw + ext \<le> 64"
  shows "returns ctx (aw + ext) f (make_zext ctx a ext)"
  using assms
proof (induction a arbitrary: aw ext f rule: less_induct)
  case (less a)
  note ok = less.prems(1) and da = less.prems(2)
  let ?w = "aw + ext"
  have w: "valid_width aw" "valid_width ?w" using denotes_width [OF ok da, of "[]"] less.prems(3) by (auto simp: valid_width_def)
  have aw: "bv_width (node ctx a) = aw" using da by (simp add: denotes_def)
  have fw: "f vs AND width_mask ?w = f vs" for vs
    using in_width_wider [of aw "f vs" ?w] denotes_width [OF ok da] less.prems(3) by (simp add: in_width_def)
  show ?case
  proof (subst make_zext.simps, unfold Let_def aw, intro returns_if)
    assume "ext = 0"
    then show "returns ctx ?w f (Some (ctx, a))" using yields_self [OF ok da] by simp
  next
    assume "is_const (node ctx a)"
    then show "returns ctx ?w f (Some (make_const ctx (bv_imm (node ctx a) AND width_mask aw) ?w))"
      using denotes_const [OF ok da] masked_self [OF ok da] fw by (intro returns_const [OF ok w(2)]) simp
  next
    assume op: "bv_op (node ctx a) = BV_ZExt"
    note n = ext_node [OF ok da op disjI1 [OF refl]]
    let ?v = "node_width ctx (bv_a (node ctx a))" and ?e = "bv_extra (node ctx a)"
    have e: "?v + (?e + ext) = aw + ext" "f = value_of ctx (bv_a (node ctx a))" using n(3) zext_node [OF ok da op] by auto
    show "returns ctx ?w f (make_zext ctx (bv_a (node ctx a)) (?e + ext))"
      using less.IH [OF n(1) ok n(2), of "?e + ext"] less.prems(3) unfolding e(2) e(1) by blast
  next
    assume c: "bv_op (node ctx a) = BV_Extract \<and> bv_extra (node ctx a) = 0 \<and> node_width ctx (bv_a (node ctx a)) = ?w"
    note n = extract_node [OF ok da conjunct1 [OF c]]
    have d: "denotes ctx (bv_a (node ctx a)) ?w (value_of ctx (bv_a (node ctx a)))" using n(2) c by simp
    have f: "f vs = value_of ctx (bv_a (node ctx a)) vs AND (width_mask aw AND width_mask ?w)" for vs
      using n(5) [of vs] c masked_self [OF ok d, of vs] by (simp add: and.assoc and.left_commute and.commute)
    show "returns ctx ?w f (case make_const ctx (width_mask aw) ?w of (ctx', d) \<Rightarrow> make_and ctx' (bv_a (node ctx a)) d ?w)"
    proof (rule const_then [OF ok w(2)], goal_cases)
      case e: (1 ctx' d')
      show ?case using make_and_returns [OF e(1) denotes_extends [OF ok e(1,2) d] e(3)] unfolding f [symmetric] .
    qed
  next
    assume n: "ext \<noteq> 0"
    let ?n = "bv_node BV_ZExt ?w a 0 0 0 ext"
    have "node_typed (nodes ctx) ?n" "node_sem (nodes ctx) ?n = f"
      using da w n fw by (simp_all add: node_typed_def node_sem_def denotes_def fun_eq_iff)
    then show "returns ctx ?w f (Some (intern ctx ?n))" using intern_yields [OF ok, of ?n] da context_pos [OF ok] by (simp add: denotes_def)
  qed
qed

text \<open>A value that is not negative is extended with zeros.\<close>

lemma sext_nonneg:
  assumes "valid_width aw" "valid_width w" "aw \<le> w" "in_width aw x" "0 \<le> sval aw x"
  shows "sign_extend_bits x aw AND width_mask w = x"
proof -
  have w: "w \<le> 64" "aw \<le> 64" using assms(1,2) by (simp_all add: valid_width_def)
  have "uint x < 2 ^ aw" using assms(4) w by (simp add: in_width_iff)
  then have u: "sval aw x = uint x" using assms(5) sval_eq [OF assms(4,1)] by (simp split: if_splits)
  have "uint x < 2 ^ w" using in_width_wider [OF assms(4,3) w(1)] w by (simp add: in_width_iff)
  then have "uint (sign_extend_bits x aw AND width_mask w) = uint x"
    using sext_value(1) [OF assms(1-4)] u by (simp add: mod_pos_pos_trivial)
  then show ?thesis by (simp add: word_uint_eq_iff)
qed

lemma make_sext_returns:
  assumes "context_ok ctx" "denotes ctx a aw f" "aw + ext \<le> 64"
  shows "returns ctx (aw + ext) (\<lambda>vs. sign_extend_bits (f vs) aw AND width_mask (aw + ext)) (make_sext ctx a ext)"
  using assms
proof (induction a arbitrary: aw ext f rule: less_induct)
  case (less a)
  note ok = less.prems(1) and da = less.prems(2)
  let ?w = "aw + ext"
  let ?R = "returns ctx ?w (\<lambda>vs. sign_extend_bits (f vs) aw AND width_mask ?w)"
  have w: "valid_width aw" "valid_width ?w" "aw \<le> ?w" using denotes_width [OF ok da, of "[]"] less.prems(3) by (auto simp: valid_width_def)
  have aw: "bv_width (node ctx a) = aw" using da by (simp add: denotes_def)
  have fw: "in_width aw (f vs)" for vs using denotes_width [OF ok da] by simp
  show ?case
  proof (subst make_sext.simps, unfold Let_def aw, intro returns_if)
    assume "ext = 0"
    then show "?R (Some (ctx, a))" using shifted_zero [OF w(1) fw, of BV_AShr] by (simp add: shifted_def yields_self [OF ok da])
  next
    assume "is_const (node ctx a)"
    then show "?R (Some (make_const ctx (sign_extend_bits (bv_imm (node ctx a)) aw) ?w))"
      using denotes_const [OF ok da] by (intro returns_const [OF ok w(2)]) simp
  next
    assume op: "bv_op (node ctx a) = BV_SExt"
    note n = ext_node [OF ok da op disjI2 [OF refl]]
    let ?v = "node_width ctx (bv_a (node ctx a))" and ?e = "bv_extra (node ctx a)" and ?x = "value_of ctx (bv_a (node ctx a))"
    have v: "valid_width ?v" "in_width ?v (?x vs)" for vs using denotes_width [OF ok n(2)] by simp_all
    have e: "?v + (?e + ext) = ?w" "?v \<le> ?w" using n(3) by simp_all
    have "sign_extend_bits (f vs) aw AND width_mask ?w = sign_extend_bits (?x vs) ?v AND width_mask ?w" for vs
      using sext_value(1) [OF w(1-3) fw] sext_value(1) [OF v(1) w(2) e(2) v(2)] sext_node [OF ok da op] by (simp add: word_uint_eq_iff)
    then show "?R (make_sext ctx (bv_a (node ctx a)) (?e + ext))"
      using less.IH [OF n(1) ok n(2), of "?e + ext"] less.prems(3) unfolding e(1) by simp
  next
    assume op: "bv_op (node ctx a) = BV_ZExt"
    note n = ext_node [OF ok da op disjI1 [OF refl]]
    let ?v = "node_width ctx (bv_a (node ctx a))" and ?e = "bv_extra (node ctx a)" and ?x = "value_of ctx (bv_a (node ctx a))"
    have e: "?v + (?e + ext) = ?w" "?v \<le> aw - 1" using n(3,4) by simp_all
    have "0 \<le> sval aw (f vs)" for vs
    proof -
      have le: "aw - 1 \<le> 64" using w(1) by (auto simp: valid_width_def)
      then have "in_width (aw - 1) (f vs)"
        unfolding zext_node [OF ok da op] using in_width_wider [OF _ e(2)] denotes_width [OF ok n(2)] by blast
      then have "uint (f vs) < 2 ^ (aw - 1)" unfolding in_width_iff [OF le] .
      then show ?thesis using sval_eq [OF fw w(1), of vs] by simp
    qed
    then have "sign_extend_bits (f vs) aw AND width_mask ?w = ?x vs" for vs
      using sext_nonneg [OF w(1-3) fw, of vs] zext_node [OF ok da op] by simp
    then show "?R (make_zext ctx (bv_a (node ctx a)) (?e + ext))"
      using make_zext_returns [OF ok n(2), of "?e + ext"] less.prems(3) unfolding e(1) by simp
  next
    assume c: "0 \<le> sint (smin (interval_of ctx a))"
    have "0 \<le> sval aw (f vs)" for vs using containsD(4) [OF denotes_interval [OF ok da], of vs] c by linarith
    then show "?R (make_zext ctx a ext)" using make_zext_returns [OF ok da less.prems(3)] sext_nonneg [OF w(1-3) fw] by simp
  next
    assume n: "ext \<noteq> 0"
    let ?n = "bv_node BV_SExt ?w a 0 0 0 ext"
    have "node_typed (nodes ctx) ?n" "node_sem (nodes ctx) ?n = (\<lambda>vs. sign_extend_bits (f vs) aw AND width_mask ?w)"
      using da w n by (simp_all add: node_typed_def node_sem_def denotes_def fun_eq_iff)
    then show "?R (Some (intern ctx ?n))" using intern_yields [OF ok, of ?n] da context_pos [OF ok] by (simp add: denotes_def)
  qed
qed

section \<open>Extractions and concatenations\<close>

definition make_ring :: "BVContext \<Rightarrow> BVOp \<Rightarrow> BVNodeId \<Rightarrow> BVNodeId \<Rightarrow> nat \<Rightarrow> built" where
  "make_ring ctx op a b w =
     (case op of
        BV_And \<Rightarrow> make_and ctx a b w
      | BV_Or \<Rightarrow> make_or ctx a b w
      | BV_Xor \<Rightarrow> make_xor ctx a b w
      | BV_Mul \<Rightarrow> make_mul ctx a b w
      | _ \<Rightarrow> make_arith ctx op a b w)"

partial_function (option) make_extract :: "BVContext \<Rightarrow> BVNodeId \<Rightarrow> nat \<Rightarrow> nat \<Rightarrow> built" where
  "make_extract ctx a hi lo =
     (let na = node ctx a; w = hi - lo + 1; w_mask = width_mask w; op = bv_op na;
          wa = node_width ctx (bv_a na); wb = node_width ctx (bv_b na);
          sh = bv_imm (node ctx (bv_b na)) AND of_nat (shift_mask (bv_width na))
      in if lo = 0 \<and> hi + 1 = bv_width na then Some (ctx, a)
         else if is_const na then Some (make_const ctx (drop_bit lo (bv_imm na) AND w_mask) w)
         else if drop_bit lo (known_zeros (interval_of ctx a)) AND w_mask = w_mask then Some (make_const ctx 0 w)
         else if op = BV_Ite then
           Option.bind (make_extract ctx (bv_b na) hi lo) (\<lambda>(ctx, t).
             Option.bind (make_extract ctx (bv_c na) hi lo) (\<lambda>(ctx, f). make_ite ctx (bv_a na) t f))
         else if op = BV_Extract then make_extract ctx (bv_a na) (bv_extra na + hi) (bv_extra na + lo)
         else if (op = BV_ZExt \<or> op = BV_SExt) \<and> hi < wa then make_extract ctx (bv_a na) hi lo
         else if op = BV_ZExt \<and> lo \<ge> wa then Some (make_const ctx 0 w)
         else if op = BV_Concat \<and> hi < wb then make_extract ctx (bv_b na) hi lo
         else if op = BV_Concat \<and> lo \<ge> wb then make_extract ctx (bv_a na) (hi - wb) (lo - wb)
         else if lo = 0 \<and> (op = BV_And \<or> op = BV_Or \<or> op = BV_Xor \<or> op = BV_Add \<or> op = BV_Sub \<or> op = BV_Mul) then
           Option.bind (make_extract ctx (bv_a na) hi 0) (\<lambda>(ctx, x).
             Option.bind (make_extract ctx (bv_b na) hi 0) (\<lambda>(ctx, y). make_ring ctx op x y w))
         else if lo = 0 \<and> op = BV_Shl \<and> is_const (node ctx (bv_b na)) \<and> sh < of_nat w then
           Option.bind (make_extract ctx (bv_a na) hi 0) (\<lambda>(ctx, x).
             case make_const ctx sh w of (ctx, c) \<Rightarrow> make_arith ctx BV_Shl x c w)
         else Some (intern ctx (bv_node BV_Extract w a 0 0 (of_nat hi) lo)))"

definition make_concat :: "BVContext \<Rightarrow> BVNodeId \<Rightarrow> BVNodeId \<Rightarrow> built" where
  "make_concat ctx hi lo =
     (let nhi = node ctx hi; nlo = node ctx lo; w = bv_width nhi + bv_width nlo
      in if is_const nhi \<and> is_const nlo then
           Some (make_const ctx (push_bit (bv_width nlo) (bv_imm nhi AND width_mask (bv_width nhi))
             OR (bv_imm nlo AND width_mask (bv_width nlo))) w)
         else if is_const nhi \<and> bv_imm nhi = 0 then make_zext ctx lo (bv_width nhi)
         else if bv_op nhi = BV_Extract \<and> bv_op nlo = BV_Extract \<and> bv_a nhi = bv_a nlo
             \<and> bv_imm nlo + 1 = of_nat (bv_extra nhi) then
           make_extract ctx (bv_a nhi) (unat (bv_imm nhi)) (bv_extra nlo)
         else Some (intern ctx (bv_node BV_Concat w hi lo 0 0 0)))"

definition ring_op :: "BVOp \<Rightarrow> bool" where
  "ring_op op \<longleftrightarrow> op \<in> {BV_And, BV_Or, BV_Xor, BV_Add, BV_Sub, BV_Mul}"

lemma make_ring_returns:
  assumes ok: "context_ok ctx" and d: "denotes ctx a w f" "denotes ctx b w g" and op: "ring_op op \<or> arith_group op"
  shows "returns ctx w (\<lambda>vs. sem2 op w (f vs) (g vs)) (make_ring ctx op a b w)"
proof -
  note m = masked_self [OF ok d(1)] masked_self [OF ok d(2)]
  have a: "sem2 BV_And w (f vs) (g vs) = f vs AND g vs" "sem2 BV_Or w (f vs) (g vs) = f vs OR g vs"
      "sem2 BV_Xor w (f vs) (g vs) = f vs XOR g vs" for vs
    using m by (simp_all add: and.assoc bit.conj_disj_distrib2 bit.conj_xor_distrib2)
  consider "op = BV_And" | "op = BV_Or" | "op = BV_Xor" | "op = BV_Mul" | "arith_group op" using op by (auto simp: ring_op_def)
  then show ?thesis
  proof cases
    case 1 then show ?thesis using make_and_returns [OF ok d] by (simp only: make_ring_def BVOp.case a)
  next
    case 2 then show ?thesis using make_or_returns [OF ok d] by (simp only: make_ring_def BVOp.case a)
  next
    case 3 then show ?thesis using make_xor_returns [OF ok d] by (simp only: make_ring_def BVOp.case a)
  next
    case 4 then show ?thesis using make_mul_returns [OF ok d] by (simp add: make_ring_def)
  next
    case 5 then show ?thesis using make_arith_returns [OF 5 ok d] by (auto simp: make_ring_def arith_group_def)
  qed
qed

text \<open>The low bits of a result are those of the operation on the low bits.\<close>

lemma mask_mask: "v \<le> w \<Longrightarrow> w \<le> 64 \<Longrightarrow> (x AND width_mask w) AND width_mask v = x AND width_mask v"
  by (rule bit_eqI) (auto simp: bit_and_iff bit_width_mask)

lemma ring_low_bits:
  assumes "ring_op op" "v \<le> w" "w \<le> 64"
  shows "sem2 op w x y AND width_mask v = sem2 op v (x AND width_mask v) (y AND width_mask v)"
proof -
  have v: "v \<le> 64" using assms by simp
  have "sem2 op w x y AND width_mask v = sem2 op v x y" using assms(1) mask_mask [OF assms(2,3)] by (auto simp: ring_op_def)
  also have "\<dots> = sem2 op v (x AND width_mask v) (y AND width_mask v)"
    using assms(1) mask_ring [OF v]
    by (auto simp: ring_op_def and.assoc and.left_commute bit.conj_disj_distrib2 bit.conj_xor_distrib2)
  finally show ?thesis .
qed

lemma concat_node:
  assumes "context_ok ctx" "denotes ctx i w f" "bv_op (node ctx i) = BV_Concat"
  shows "bv_a (node ctx i) < i" "bv_b (node ctx i) < i" "w = node_width ctx (bv_a (node ctx i)) + node_width ctx (bv_b (node ctx i))"
    and "denotes ctx (bv_a (node ctx i)) (node_width ctx (bv_a (node ctx i))) (value_of ctx (bv_a (node ctx i)))"
    and "denotes ctx (bv_b (node ctx i)) (node_width ctx (bv_b (node ctx i))) (value_of ctx (bv_b (node ctx i)))"
    and "f vs = (push_bit (node_width ctx (bv_b (node ctx i))) (value_of ctx (bv_a (node ctx i)) vs) OR value_of ctx (bv_b (node ctx i)) vs) AND width_mask w"
proof -
  let ?n = "node ctx i"
  have t: "table_typed (nodes ctx)" and i: "i < length (nodes ctx)" "bv_width ?n = w" "f = value_of ctx i"
    using assms by (auto simp: context_ok_def denotes_def)
  have n: "node_typed (take i (nodes ctx)) ?n" using t i by (simp add: table_typed_def)
  show ab: "bv_a ?n < i" "bv_b ?n < i" using n i assms(3) by (auto simp: node_typed_def Let_def)
  show "w = node_width ctx (bv_a ?n) + node_width ctx (bv_b ?n)" using n i assms(3) ab by (auto simp: node_typed_def Let_def)
  show d: "denotes ctx (bv_a ?n) (node_width ctx (bv_a ?n)) (value_of ctx (bv_a ?n))" "denotes ctx (bv_b ?n) (node_width ctx (bv_b ?n)) (value_of ctx (bv_b ?n))"
    using i ab by (simp_all add: denotes_def)
  show "f vs = (push_bit (node_width ctx (bv_b ?n)) (value_of ctx (bv_a ?n) vs) OR value_of ctx (bv_b ?n) vs) AND width_mask w"
    using bv_val_node [OF t i(1), of vs] assms(3) i masked_self [OF assms(1) d(2), of vs] by (simp add: node_sem_def)
qed

text \<open>A field of a value depends on the bits of the field only.\<close>

abbreviation field :: "nat \<Rightarrow> nat \<Rightarrow> u64 \<Rightarrow> u64" where
  "field lo v x \<equiv> drop_bit lo x AND width_mask v"

lemma field_cong:
  assumes "v \<le> 64" "\<And>n. lo \<le> n \<Longrightarrow> n < lo + v \<Longrightarrow> n < 64 \<Longrightarrow> bit x n = bit y n"
  shows "field lo v x = field lo v y"
proof (rule bit_eqI)
  fix n
  show "bit (field lo v x) n = bit (field lo v y) n"
    using assms(2) [of "lo + n"] bit_imp_le_length [of x "lo + n"] bit_imp_le_length [of y "lo + n"]
    by (auto simp: bit_and_iff bit_drop_bit_eq bit_width_mask [OF assms(1)])
qed

lemma field_zero:
  assumes "v \<le> 64" "\<And>n. lo \<le> n \<Longrightarrow> n < lo + v \<Longrightarrow> \<not> bit x n"
  shows "field lo v x = 0"
  using field_cong [OF assms(1), of lo x 0] assms(2) by simp

lemma field_of_high:
  assumes "b \<le> lo" "lo + v \<le> w" "w \<le> 64" "b \<le> 64" "in_width b y"
  shows "field lo v ((push_bit b x OR y) AND width_mask w) = field (lo - b) v x"
proof (rule bit_eqI)
  fix k
  show "bit (field lo v ((push_bit b x OR y) AND width_mask w)) k = bit (field (lo - b) v x) k"
  proof (cases "k < v")
    case True
    then have k: "lo + k < 64" "lo + k < w" "b \<le> lo + k" "lo + k - b = lo - b + k" using assms by auto
    have "\<not> bit y (lo + k)" using in_width_bit [OF assms(4,5), of "lo + k"] k(3) by linarith
    then show ?thesis using True k assms
      by (simp add: bit_and_iff bit_or_iff bit_push_bit_iff bit_drop_bit_eq bit_width_mask)
  qed (use assms in \<open>simp add: bit_and_iff bit_width_mask\<close>)
qed

lemma sext_low_bits:
  assumes "valid_width aw" "in_width aw x" "n < aw"
  shows "bit (sign_extend_bits x aw) n = bit x n"
proof -
  have "aw \<le> 64" using assms(1) by (simp add: valid_width_def)
  moreover have "sign_extend_bits x aw AND width_mask aw = x" using shifted_zero [OF assms(1,2), of BV_AShr] by (simp add: shifted_def)
  ultimately show ?thesis using assms(3) by (metis bit_and_iff bit_width_mask)
qed

lemma make_extract_returns:
  assumes "context_ok ctx" "denotes ctx a aw f" "lo \<le> hi" "hi < aw"
  shows "returns ctx (hi - lo + 1) (\<lambda>vs. field lo (hi - lo + 1) (f vs)) (make_extract ctx a hi lo)"
  using assms
proof (induction a arbitrary: ctx aw f hi lo rule: less_induct)
  case (less a)
  note ok = less.prems(1) and da = less.prems(2)
  define v where "v = hi - lo + 1"
  let ?R = "returns ctx v (\<lambda>vs. field lo v (f vs))"
  have w: "valid_width aw" "valid_width v" "aw \<le> 64" "v \<le> 64" "lo + v \<le> aw" "lo + v = hi + 1"
    using denotes_width [OF ok da, of "[]"] less.prems(3,4) by (auto simp: valid_width_def v_def)
  have aw: "bv_width (node ctx a) = aw" using da by (simp add: denotes_def)
  let ?n = "node ctx a"
  show ?case
    unfolding v_def [symmetric]
  proof (subst make_extract.simps, unfold Let_def aw v_def [symmetric], intro returns_if)
    assume c: "lo = 0 \<and> hi + 1 = aw"
    then have "v = aw" using w by simp
    then show "?R (Some (ctx, a))" using c masked_self [OF ok da] yields_self [OF ok da] by simp
  next
    assume c: "is_const ?n"
    then show "?R (Some (make_const ctx (drop_bit lo (bv_imm ?n) AND width_mask v) v))"
      using denotes_const [OF ok da c] by (intro returns_const [OF ok w(2)]) (simp add: and.assoc)
  next
    assume c: "drop_bit lo (known_zeros (interval_of ctx a)) AND width_mask v = width_mask v"
    have "field lo v (f vs) = 0" for vs
    proof (rule field_zero [OF w(4)])
      fix n assume n: "lo \<le> n" "n < lo + v"
      have "bit (known_zeros (interval_of ctx a)) n"
        using arg_cong [OF c, of "\<lambda>x. bit x (n - lo)"] n by (auto simp: bit_and_iff bit_drop_bit_eq bit_width_mask [OF w(4)])
      then show "\<not> bit (f vs) n" using containsD(6) [OF denotes_interval [OF ok da], of vs] unfolding and_zero_bits by blast
    qed
    then show "?R (Some (make_const ctx 0 v))" by (intro returns_const [OF ok w(2)]) simp
  next
    assume op: "bv_op ?n = BV_Ite"
    note n = ite_node [OF ok da op]
    show "?R (Option.bind (make_extract ctx (bv_b ?n) hi lo) (\<lambda>(ctx, t). Option.bind (make_extract ctx (bv_c ?n) hi lo) (\<lambda>(ctx, f). make_ite ctx (bv_a ?n) t f)))"
    proof (rule bind_then, rule less.IH [OF n(2) ok n(5) less.prems(3,4)], rule bind_then)
      fix ctx1 t assume e1: "context_ok ctx1" "extends ctx ctx1" "denotes ctx1 t (hi - lo + 1) (\<lambda>vs. field lo (hi - lo + 1) (value_of ctx (bv_b ?n) vs))"
      show "returns ctx1 (hi - lo + 1) (\<lambda>vs. field lo (hi - lo + 1) (value_of ctx (bv_c ?n) vs)) (make_extract ctx1 (bv_c ?n) hi lo)"
        by (rule less.IH [OF n(3) e1(1) denotes_extends [OF ok e1(1,2) n(6)] less.prems(3,4)])
      fix ctx2 u assume e2: "context_ok ctx2" "extends ctx1 ctx2" "denotes ctx2 u (hi - lo + 1) (\<lambda>vs. field lo (hi - lo + 1) (value_of ctx (bv_c ?n) vs))"
      have d: "denotes ctx2 (bv_a ?n) 1 (value_of ctx (bv_a ?n))" by (rule denotes_extends [OF e1(1) e2(1,2) denotes_extends [OF ok e1(1,2) n(4)]])
      have "field lo v (f vs) = (if value_of ctx (bv_a ?n) vs \<noteq> 0 then field lo v (value_of ctx (bv_b ?n) vs) else field lo v (value_of ctx (bv_c ?n) vs))" for vs
        using n(7) [of vs] by simp
      then show "returns ctx2 v (\<lambda>vs. field lo v (f vs)) (make_ite ctx2 (bv_a ?n) t u)"
        using make_ite_returns [OF e2(1) d denotes_extends [OF e1(1) e2(1,2) e1(3)] e2(3), folded v_def] by simp
    qed
  next
    assume op: "bv_op ?n = BV_Extract"
    note n = extract_node [OF ok da op]
    have "field lo v (f vs) = field (bv_extra ?n + lo) v (value_of ctx (bv_a ?n) vs)" for vs
      unfolding n(5) [of vs] using w(5) by (intro bit_eqI) (auto simp: bit_and_iff bit_drop_bit_eq bit_width_mask [OF w(3)] bit_width_mask [OF w(4)] ac_simps)
    moreover have "bv_extra ?n + hi - (bv_extra ?n + lo) + 1 = v" using v_def by simp
    moreover have "bv_extra ?n + hi < node_width ctx (bv_a ?n)" using n(3) less.prems(4) by simp
    ultimately show "?R (make_extract ctx (bv_a ?n) (bv_extra ?n + hi) (bv_extra ?n + lo))"
      using less.IH [OF n(1) ok n(2), of "bv_extra ?n + lo" "bv_extra ?n + hi"] less.prems(3) by simp
  next
    assume c: "(bv_op ?n = BV_ZExt \<or> bv_op ?n = BV_SExt) \<and> hi < node_width ctx (bv_a ?n)"
    note n = ext_node [OF ok da refl conjunct1 [OF c]]
    have x: "valid_width (node_width ctx (bv_a ?n))" "in_width (node_width ctx (bv_a ?n)) (value_of ctx (bv_a ?n) vs)" for vs
      using denotes_width [OF ok n(2)] by simp_all
    have "bit (f vs) k = bit (value_of ctx (bv_a ?n) vs) k" if "k < node_width ctx (bv_a ?n)" for k vs
    proof (cases "bv_op ?n = BV_ZExt")
      case False
      then have "f vs = sign_extend_bits (value_of ctx (bv_a ?n) vs) (node_width ctx (bv_a ?n)) AND width_mask aw" using n(5) [of vs] c by simp
      moreover have "k < aw" using that n(3) by linarith
      ultimately show ?thesis using sext_low_bits [OF x that, of vs] by (simp add: bit_and_iff bit_width_mask [OF w(3)])
    qed (simp add: zext_node [OF ok da])
    then have "field lo v (f vs) = field lo v (value_of ctx (bv_a ?n) vs)" for vs
      using c w(6) by (intro field_cong [OF w(4)]) simp
    then show "?R (make_extract ctx (bv_a ?n) hi lo)" using less.IH [OF n(1) ok n(2) less.prems(3), folded v_def] c by simp
  next
    assume c: "bv_op ?n = BV_ZExt \<and> node_width ctx (bv_a ?n) \<le> lo"
    note n = ext_node(2) [OF ok da conjunct1 [OF c] disjI1 [OF refl]]
    have "field lo v (f vs) = 0" for vs
    proof (rule field_zero [OF w(4)])
      fix k assume "lo \<le> k"
      then show "\<not> bit (f vs) k" using in_width_bit denotes_width [OF ok n] c zext_node [OF ok da] by (metis less_le_trans not_less valid_width_def)
    qed
    then show "?R (Some (make_const ctx 0 v))" by (intro returns_const [OF ok w(2)]) simp
  next
    assume c: "bv_op ?n = BV_Concat \<and> hi < node_width ctx (bv_b ?n)"
    note n = concat_node [OF ok da conjunct1 [OF c]]
    have "field lo v (f vs) = field lo v (value_of ctx (bv_b ?n) vs)" for vs
      unfolding n(6) using c w by (intro field_cong) (auto simp: bit_and_iff bit_or_iff bit_push_bit_iff bit_width_mask [OF w(3)])
    then show "?R (make_extract ctx (bv_b ?n) hi lo)" using less.IH [OF n(2) ok n(5) less.prems(3), folded v_def] c by simp
  next
    assume c: "bv_op ?n = BV_Concat \<and> node_width ctx (bv_b ?n) \<le> lo"
    let ?b = "node_width ctx (bv_b ?n)"
    note n = concat_node [OF ok da conjunct1 [OF c]]
    have "field lo v (f vs) = field (lo - ?b) v (value_of ctx (bv_a ?n) vs)" for vs
      unfolding n(6) using c w denotes_width [OF ok n(5), of vs] by (intro field_of_high) (simp_all add: valid_width_def)
    moreover have "hi - ?b - (lo - ?b) + 1 = v" using c v_def by simp
    moreover have "hi - ?b < node_width ctx (bv_a ?n)" "lo - ?b \<le> hi - ?b" using c n(3) less.prems(3,4) by auto
    ultimately show "?R (make_extract ctx (bv_a ?n) (hi - ?b) (lo - ?b))"
      using less.IH [OF n(1) ok n(4), of "lo - ?b" "hi - ?b"] by simp
  next
    assume c: "lo = 0 \<and> (bv_op ?n = BV_And \<or> bv_op ?n = BV_Or \<or> bv_op ?n = BV_Xor \<or> bv_op ?n = BV_Add \<or> bv_op ?n = BV_Sub \<or> bv_op ?n = BV_Mul)"
    have op: "ring_op (bv_op ?n)" "arith_op (bv_op ?n)" using c by (auto simp: ring_op_def arith_op_def)
    note n = arith_node [OF ok da refl op(2)]
    have l: "lo = 0" "hi - 0 + 1 = v" using c v_def by simp_all
    note IH = less.IH [of _ _ _ _ 0 hi, unfolded l(2)]
    show "?R (Option.bind (make_extract ctx (bv_a ?n) hi 0) (\<lambda>(ctx, x). Option.bind (make_extract ctx (bv_b ?n) hi 0) (\<lambda>(ctx, y). make_ring ctx (bv_op ?n) x y v)))"
    proof (rule bind_then, rule IH [OF n(1) ok n(3) _ less.prems(4)], simp, rule bind_then)
      fix ctx1 x assume e1: "context_ok ctx1" "extends ctx ctx1" "denotes ctx1 x v (\<lambda>vs. field 0 v (value_of ctx (bv_a ?n) vs))"
      show "returns ctx1 v (\<lambda>vs. field 0 v (value_of ctx (bv_b ?n) vs)) (make_extract ctx1 (bv_b ?n) hi 0)"
        by (rule IH [OF n(2) e1(1) denotes_extends [OF ok e1(1,2) n(4)] _ less.prems(4)]) simp
      fix ctx2 y assume e2: "context_ok ctx2" "extends ctx1 ctx2" "denotes ctx2 y v (\<lambda>vs. field 0 v (value_of ctx (bv_b ?n) vs))"
      have "field lo v (f vs) = sem2 (bv_op ?n) v (field 0 v (value_of ctx (bv_a ?n) vs)) (field 0 v (value_of ctx (bv_b ?n) vs))" for vs
        using ring_low_bits [OF op(1) _ w(3)] w(5) n(5) [of vs] l(1) by simp
      then show "returns ctx2 v (\<lambda>vs. field lo v (f vs)) (make_ring ctx2 (bv_op ?n) x y v)"
        using make_ring_returns [OF e2(1) denotes_extends [OF e1(1) e2(1,2) e1(3)] e2(3) disjI1 [OF op(1)]] by simp
    qed
  next
    assume c: "lo = 0 \<and> bv_op ?n = BV_Shl \<and> is_const (node ctx (bv_b ?n)) \<and> bv_imm (node ctx (bv_b ?n)) AND of_nat (shift_mask aw) < of_nat v"
    define sh where "sh = bv_imm (node ctx (bv_b ?n)) AND of_nat (shift_mask aw)"
    have op: "bv_op ?n = BV_Shl" "shift_op BV_Shl" "is_const (node ctx (bv_b ?n))" and sh: "sh < of_nat v" using c by (simp_all add: shift_op_def sh_def)
    note n = shift_node [OF ok da op]
    have l: "lo = 0" "hi - 0 + 1 = v" using c v_def by simp_all
    note IH = less.IH [of _ _ _ _ 0 hi, unfolded l(2)]
    show "?R (Option.bind (make_extract ctx (bv_a ?n) hi 0) (\<lambda>(ctx', x).
        case make_const ctx' (bv_imm (node ctx (bv_b ?n)) AND of_nat (shift_mask aw)) v of (ctx, c) \<Rightarrow> make_arith ctx BV_Shl x c v))"
    proof (rule bind_then, rule IH [OF n(1) ok n(2) _ less.prems(4)], simp)
      fix ctx1 x assume e1: "context_ok ctx1" "extends ctx ctx1" "denotes ctx1 x v (\<lambda>vs. field 0 v (value_of ctx (bv_a ?n) vs))"
      show "returns ctx1 v (\<lambda>vs. field lo v (f vs))
          (case make_const ctx1 (bv_imm (node ctx (bv_b ?n)) AND of_nat (shift_mask aw)) v of (ctx, c) \<Rightarrow> make_arith ctx BV_Shl x c v)"
        unfolding sh_def [symmetric]
      proof (rule const_then [OF e1(1) w(2)], goal_cases)
        case e: (1 ctx2 d)
        have "field lo v (f vs) = push_bit (unat sh) (field 0 v (value_of ctx (bv_a ?n) vs)) AND width_mask v" for vs
          unfolding n(4) [of vs] sh_def [symmetric] l(1) shifted_def drop_bit_0 id_apply push_mask [OF w(4)]
          using mask_mask [of v aw] w(3,5) by simp
        then show ?case
          using make_arith_returns [OF arith_groups(3) e(1) denotes_extends [OF e1(1) e(1,2) e1(3)] e(3)]
          by (simp add: small_const [OF sh w(4)] shift_count_below [OF sh w(4)])
      qed
    qed
  next
    let ?m = "bv_node BV_Extract v a 0 0 (of_nat hi) lo"
    have "unat (of_nat hi :: u64) = hi" using w less.prems(4) by (simp add: unat_of_nat)
    then have "node_typed (nodes ctx) ?m" "node_sem (nodes ctx) ?m = (\<lambda>vs. field lo v (f vs))"
      using da w by (simp_all add: node_typed_def node_sem_def denotes_def fun_eq_iff)
    then show "?R (Some (intern ctx ?m))" using intern_yields [OF ok, of ?m] da context_pos [OF ok] by (simp add: denotes_def)
  qed
qed

lemma make_concat_returns:
  assumes ok: "context_ok ctx" and dh: "denotes ctx hi hw f" and dl: "denotes ctx lo lw g" and w64: "hw + lw \<le> 64"
  shows "returns ctx (hw + lw) (\<lambda>vs. push_bit lw (f vs) OR g vs) (make_concat ctx hi lo)"
proof -
  let ?w = "hw + lw" and ?h = "node ctx hi" and ?l = "node ctx lo"
  let ?R = "returns ctx ?w (\<lambda>vs. push_bit lw (f vs) OR g vs)"
  have w: "valid_width ?w" "hw \<le> 64" "lw \<le> 64" using denotes_width [OF ok dh, of "[]"] w64 by (auto simp: valid_width_def)
  have widths: "bv_width ?h = hw" "bv_width ?l = lw" using dh dl by (simp_all add: denotes_def)
  have fw: "in_width hw (f vs)" "in_width lw (g vs)" for vs using denotes_width [OF ok dh] denotes_width [OF ok dl] by simp_all
  have full: "(push_bit lw (f vs) OR g vs) AND width_mask ?w = push_bit lw (f vs) OR g vs" for vs
    unfolding and_eq_bits using in_width_bit [OF w(2) fw(1) [of vs]] in_width_bit [OF w(3) fw(2) [of vs]] w64
    by (auto simp: bit_or_iff bit_push_bit_iff bit_width_mask) fastforce+
  show ?thesis
  proof (unfold make_concat_def Let_def widths, intro returns_if)
    assume c: "is_const ?h \<and> is_const ?l"
    then show "?R (Some (make_const ctx (push_bit lw (bv_imm ?h AND width_mask hw) OR bv_imm ?l AND width_mask lw) ?w))"
      using denotes_const [OF ok dh] denotes_const [OF ok dl] masked_self [OF ok dh] masked_self [OF ok dl] full
      by (intro returns_const [OF ok w(1)]) simp
  next
    assume c: "is_const ?h \<and> bv_imm ?h = 0"
    have "lw + hw \<le> 64" using w64 by simp
    from make_zext_returns [OF ok dl this] show "?R (make_zext ctx lo hw)"
      using denotes_const [OF ok dh] c by (simp add: add.commute)
  next
    assume c: "bv_op ?h = BV_Extract \<and> bv_op ?l = BV_Extract \<and> bv_a ?h = bv_a ?l \<and> bv_imm ?l + 1 = of_nat (bv_extra ?h)"
    have op: "bv_op ?h = BV_Extract" "bv_op ?l = BV_Extract" and same: "bv_a ?h = bv_a ?l" using c by simp_all
    note h = extract_node [OF ok dh op(1)] and l = extract_node [OF ok dl op(2)]
    have aw: "node_width ctx (bv_a ?h) \<le> 64" using denotes_width [OF ok h(2), of "[]"] by (simp add: valid_width_def)
    have lo: "unat (bv_imm ?l) = bv_extra ?l + lw - 1" "unat (bv_imm ?l) < 64" using l(3,4) same aw by simp_all
    have "unat (bv_imm ?l) + unat (1 :: u64) < 2 ^ LENGTH(64)" using lo(2) by simp
    then have "unat (bv_imm ?l + 1) = unat (bv_imm ?l) + unat (1 :: u64)" by (rule unat_add_lem [THEN iffD1])
    moreover have "unat (of_nat (bv_extra ?h) :: u64) = bv_extra ?h" using h(3) aw by (simp add: unat_of_nat)
    ultimately have meet: "bv_extra ?h = bv_extra ?l + lw" using c l(4) by simp
    have "unat (bv_imm ?h) = bv_extra ?l + ?w - 1" using h(4) meet by simp
    moreover have "1 \<le> hw" using denotes_width [OF ok dh, of "[]"] by (simp add: valid_width_def)
    ultimately have r: "unat (bv_imm ?h) - bv_extra ?l + 1 = ?w" "bv_extra ?l \<le> unat (bv_imm ?h)" "unat (bv_imm ?h) < node_width ctx (bv_a ?h)"
      using h(3) meet by simp_all
    have "push_bit lw (f vs) OR g vs = field (bv_extra ?l) ?w (value_of ctx (bv_a ?h) vs)" for vs
    proof (rule bit_eqI)
      fix k assume "possible_bit TYPE(64 word) k"
      then have "k < 64" by simp
      then show "bit (push_bit lw (f vs) OR g vs) k = bit (field (bv_extra ?l) ?w (value_of ctx (bv_a ?h) vs)) k"
        unfolding h(5) l(5) meet same
        by (cases "k < lw") (auto simp: bit_or_iff bit_and_iff bit_push_bit_iff bit_drop_bit_eq bit_width_mask w w64 ac_simps)
    qed
    then show "?R (make_extract ctx (bv_a ?h) (unat (bv_imm ?h)) (bv_extra ?l))"
      using make_extract_returns [OF ok h(2) r(2,3)] unfolding r(1) by simp
  next
    let ?n = "bv_node BV_Concat ?w hi lo 0 0 0"
    have "node_typed (nodes ctx) ?n" "node_sem (nodes ctx) ?n = (\<lambda>vs. push_bit lw (f vs) OR g vs)"
      using dh dl w full masked_self [OF ok dl] by (simp_all add: node_typed_def node_sem_def denotes_def fun_eq_iff)
    then show "?R (Some (intern ctx ?n))" using intern_yields [OF ok, of ?n] dh dl context_pos [OF ok] by (simp add: denotes_def)
  qed
qed

section \<open>Fields of terms\<close>

lemma returns_iff:
  "returns ctx w f r \<longleftrightarrow> (\<exists>ctx' i. r = Some (ctx', i) \<and> context_ok ctx' \<and> extends ctx ctx' \<and> i < length (nodes ctx') \<and>
     bv_width (nodes ctx' ! i) = w \<and> (\<forall>vs. eval_concrete no_fp (nodes ctx') i vs = f vs))"
  by (auto simp: returns_def yields_def denotes_def fun_eq_iff)

text \<open>
  C22.  Extracting a field of a term returns, however the term is nested, and the node it returns has
  the value of that field; on the way it rebuilds selections, sums, products, bitwise operations and
  shifts on the low bits through their own simplifying constructors.
\<close>

theorem extraction_exact:
  assumes "context_ok ctx" "a < length (nodes ctx)" "lo \<le> hi" "hi < bv_width (nodes ctx ! a)"
  shows "\<exists>ctx' i. make_extract ctx a hi lo = Some (ctx', i) \<and> context_ok ctx' \<and> extends ctx ctx' \<and> i < length (nodes ctx') \<and>
    bv_width (nodes ctx' ! i) = hi - lo + 1 \<and>
    (\<forall>vs. eval_concrete no_fp (nodes ctx') i vs = drop_bit lo (eval_concrete no_fp (nodes ctx) a vs) AND width_mask (hi - lo + 1))"
proof -
  have "denotes ctx a (bv_width (nodes ctx ! a)) (value_of ctx a)" using assms(2) by (simp add: denotes_def)
  from make_extract_returns [OF assms(1) this assms(3,4)] show ?thesis unfolding returns_iff .
qed

theorem extraction_exact_witness:
  "let ctx = fst (intern empty_context (bv_node BV_ZExt 8 0 0 0 0 7))
   in \<exists>ctx' i. make_extract ctx 1 3 2 = Some (ctx', i) \<and> context_ok ctx' \<and> bv_width (nodes ctx' ! i) = 2"
proof -
  let ?n = "bv_node BV_ZExt 8 0 0 0 0 7" and ?c = "bv_node BV_Const 1 0 0 0 0 0"
  define ctx where "ctx = fst (intern empty_context ?n)"
  have e: "nodes empty_context = [?c]" "memo empty_context = Map.empty (?c \<mapsto> 0)"
    by (simp_all add: empty_context_def intern_def)
  then have n: "nodes ctx = [?c, ?n]" by (simp add: ctx_def intern_def bv_node_def Let_def)
  have "context_ok ctx"
    unfolding ctx_def by (rule yieldsD(1) [OF intern_yields [OF empty_context_ok]]) (simp_all add: e node_typed_def valid_width_def)
  from extraction_exact [OF this, of 1 2 3] show ?thesis by (auto simp: n ctx_def [symmetric])
qed

end
