(* ===== verification/Udiv_Magic.thy ===== *)
theory Udiv_Magic
  imports Div_Magic
begin

text \<open>
  Unsigned 32-bit division by a constant as a multiplication (\<open>compute_magic_const_u32\<close> and
  \<open>build_magic_udiv_u32\<close> of \<open>src/mir/gpu_superopt.cpp\<close>), with which the equivalence checker
  replaces divisions in its terms and the GPU superoptimiser replaces them in code.  The search
  tries 32 exponents.  The theorems show that for every divisor up to \<open>2^31\<close> it finds a
  multiplier whose sequence divides every dividend exactly, and that above \<open>2^31\<close> it can run
  out of exponents, after which the sequence is wrong.
\<close>

section \<open>The search\<close>

record MagicConstU32 =
  mul_u32 :: u32
  pre_shift :: nat
  post_shift :: nat
  needs_add :: bool

text \<open>The loop of \<open>try_no_add\<close>: the first exponent that is exact, with its multiplier.\<close>

definition magic_delta :: "u64 \<Rightarrow> u64 \<Rightarrow> u64" where
  "magic_delta two_p dp = (let rem = two_p mod dp in if rem = 0 then 0 else dp - rem)"

function magic_u32_search :: "u64 \<Rightarrow> u64 \<Rightarrow> nat \<Rightarrow> (u64 \<times> nat) option" where
  "magic_u32_search dp nc s =
     (if s < 32 then
        let two_p = push_bit (32 + s) 1;
            delta = magic_delta two_p dp
        in if nc * delta < two_p then Some ((two_p + delta) div dp, s)
           else magic_u32_search dp nc (s + 1)
      else None)"
  by auto
termination
  by (relation "measure (\<lambda>(_, _, s). 32 - s)") auto

declare magic_u32_search.simps [simp del]

definition magic_candidate :: "u32 \<Rightarrow> nat \<Rightarrow> (u64 \<times> nat) option" where
  "magic_candidate d pre_sh =
     (let dp = ucast (drop_bit pre_sh d);
          xmax = drop_bit pre_sh 0xFFFFFFFF;
          nc = xmax - (xmax + 1) mod dp
      in magic_u32_search dp nc 0)"

definition try_no_add :: "u32 \<Rightarrow> nat \<Rightarrow> MagicConstU32 option" where
  "try_no_add d pre_sh = (case magic_candidate d pre_sh of
      Some (m64, s) \<Rightarrow>
        (if m64 \<le> 0xFFFFFFFF
         then Some \<lparr>mul_u32 = ucast m64, pre_shift = pre_sh, post_shift = s, needs_add = False\<rparr> else None)
    | None \<Rightarrow> None)"

definition compute_magic_const_u32 :: "u32 \<Rightarrow> MagicConstU32" where
  "compute_magic_const_u32 d =
     (if d \<le> 1 then \<lparr>mul_u32 = 1, pre_shift = 0, post_shift = 0, needs_add = False\<rparr>
      else case try_no_add d 0 of
        Some out \<Rightarrow> out
      | None \<Rightarrow>
          let tz = countr_zero d;
              (m64_0, s_0) = (case magic_candidate d 0 of None \<Rightarrow> (0, 0) | Some c \<Rightarrow> c);
              add = \<lparr>mul_u32 = ucast (m64_0 - push_bit 32 1), pre_shift = 0, post_shift = s_0, needs_add = True\<rparr>
          in if tz > 0 then (case try_no_add d tz of Some out \<Rightarrow> out | None \<Rightarrow> add) else add)"

text \<open>The value of the term that \<open>build_magic_udiv_u32\<close> builds on an operand of value \<open>a\<close>.\<close>

definition magic_udiv_value :: "MagicConstU32 \<Rightarrow> u32 \<Rightarrow> u32" where
  "magic_udiv_value mag a =
     (let x = (if pre_shift mag > 0 then drop_bit (pre_shift mag) a else a);
          prod64 = ucast x * ucast (mul_u32 mag) :: u64;
          hi32 = ucast (drop_bit 32 prod64)
      in if \<not> needs_add mag then (if post_shift mag > 0 then drop_bit (post_shift mag) hi32 else hi32)
         else
           let t = x - hi32;
               t2 = drop_bit 1 t;
               t3 = t2 + hi32
           in if post_shift mag > 1 then drop_bit (post_shift mag - 1) t3 else t3)"

section \<open>What the search finds\<close>

lemma unat_shift: "unat (drop_bit k (x :: 'a::len word)) = unat x div 2 ^ k"
  by (rule trans [OF unat_drop_bit_eq drop_bit_eq_div])

lemma unat_widen: "unat (ucast (x :: u32) :: u64) = unat x"
proof -
  have "unat x < 2 ^ 32" using unsigned_less [of x, where 'a = nat] by simp
  then show ?thesis by (simp add: unsigned_ucast_eq take_bit_nat_eq_self)
qed

text \<open>Over the natural numbers: the error of exponent \<open>32 + s\<close>, and whether it is small enough.\<close>

definition magic_err :: "nat \<Rightarrow> nat \<Rightarrow> nat" where
  "magic_err D s = (D - 2 ^ (32 + s) mod D) mod D"

definition magic_fits :: "nat \<Rightarrow> nat \<Rightarrow> nat \<Rightarrow> bool" where
  "magic_fits D n s \<longleftrightarrow> n * magic_err D s < 2 ^ (32 + s)"

lemma magic_err_less: "0 < D \<Longrightarrow> magic_err D s < D"
  by (simp add: magic_err_def)

lemma magic_err_dvd: "0 < D \<Longrightarrow> D dvd 2 ^ (32 + s) + magic_err D s"
proof (cases "2 ^ (32 + s) mod D = 0")
  case True
  then show ?thesis by (simp add: magic_err_def mod_eq_0_iff_dvd)
next
  case False
  assume D: "0 < D"
  then have e: "magic_err D s = D - 2 ^ (32 + s) mod D" using False by (simp add: magic_err_def)
  have "2 ^ (32 + s) = D * (2 ^ (32 + s) div D) + 2 ^ (32 + s) mod D" by simp
  moreover have "2 ^ (32 + s) mod D < D" using D by simp
  ultimately have "2 ^ (32 + s) + magic_err D s = D * (2 ^ (32 + s) div D) + D" unfolding e by linarith
  then show ?thesis by (metis dvd_add dvd_refl dvd_triv_left)
qed

lemma search_step:
  fixes dp nc :: u64
  assumes "s < 32" "0 < unat dp" "unat dp < 2 ^ 32" "unat nc < 2 ^ 32"
  defines "delta \<equiv> magic_delta (push_bit (32 + s) 1) dp"
  shows "unat delta = magic_err (unat dp) s"
    and "nc * delta < push_bit (32 + s) 1 \<longleftrightarrow> magic_fits (unat dp) (unat nc) s"
    and "unat ((push_bit (32 + s) 1 + delta) div dp) = (2 ^ (32 + s) + magic_err (unat dp) s) div unat dp"
proof -
  have "(2 :: nat) ^ (32 + s) < 2 ^ 64" using assms(1) by (intro power_strict_increasing) auto
  moreover have "(push_bit (32 + s) 1 :: u64) = of_nat (2 ^ (32 + s))" by simp
  ultimately have p: "unat (push_bit (32 + s) 1 :: u64) = 2 ^ (32 + s)"
    using assms(1) by (simp add: unsigned_of_nat take_bit_nat_eq_self del: of_nat_power)
  have r: "unat (push_bit (32 + s) 1 mod dp) = 2 ^ (32 + s) mod unat dp"
    by (simp only: unat_mod_distrib p)
  show d: "unat delta = magic_err (unat dp) s"
  proof (cases "push_bit (32 + s) 1 mod dp = 0")
    case True
    then have "2 ^ (32 + s) mod unat dp = 0" using r by (metis unat_0)
    then show ?thesis unfolding delta_def magic_delta_def Let_def if_P [OF True] by (simp add: magic_err_def)
  next
    case False
    then have "2 ^ (32 + s) mod unat dp \<noteq> 0" using r by (metis unat_eq_zero)
    moreover have "2 ^ (32 + s) mod unat dp < unat dp" using assms(2) by simp
    moreover have "push_bit (32 + s) 1 mod dp \<le> dp" using r calculation(2) by (simp add: word_le_nat_alt)
    ultimately show ?thesis unfolding delta_def magic_delta_def Let_def if_not_P [OF False]
      by (simp only: unat_sub r magic_err_def) simp
  qed
  then have dl: "unat delta < 2 ^ 32" using magic_err_less [OF assms(2), of s] assms(3) by simp
  then have "unat nc * unat delta < 2 ^ 32 * 2 ^ 32" using assms(4) by (intro mult_strict_mono) auto
  then have "unat (nc * delta) = unat nc * unat delta" by (simp add: unat_mult_lem [THEN iffD1])
  then show "nc * delta < push_bit (32 + s) 1 \<longleftrightarrow> magic_fits (unat dp) (unat nc) s"
    by (simp only: word_less_nat_alt p d magic_fits_def)
  have "(2 :: nat) ^ (32 + s) \<le> 2 ^ 63" using assms(1) by (intro power_increasing) auto
  then have "unat (push_bit (32 + s) 1 + delta) = 2 ^ (32 + s) + unat delta"
    using dl p by (subst unat_add_lem [THEN iffD1]) (simp_all only: p, simp_all)
  then show "unat ((push_bit (32 + s) 1 + delta) div dp) = (2 ^ (32 + s) + magic_err (unat dp) s) div unat dp"
    by (simp only: unat_div_distrib d)
qed

lemma search_result:
  assumes "0 < unat dp" "unat dp < 2 ^ 32" "unat nc < 2 ^ 32"
  shows "case magic_u32_search dp nc s of
      None \<Rightarrow> \<forall>j. s \<le> j \<longrightarrow> j < 32 \<longrightarrow> \<not> magic_fits (unat dp) (unat nc) j
    | Some (m, s') \<Rightarrow> s \<le> s' \<and> s' < 32 \<and> magic_fits (unat dp) (unat nc) s' \<and>
        (\<forall>j. s \<le> j \<longrightarrow> j < s' \<longrightarrow> \<not> magic_fits (unat dp) (unat nc) j) \<and>
        unat m = (2 ^ (32 + s') + magic_err (unat dp) s') div unat dp"
  using assms
proof (induction dp nc s rule: magic_u32_search.induct)
  case (1 dp nc s)
  show ?case
  proof (cases "s < 32")
    case True
    note st = search_step [OF True "1.prems"]
    show ?thesis
    proof (cases "magic_fits (unat dp) (unat nc) s")
      case fits: True
      then have "magic_u32_search dp nc s =
          Some ((push_bit (32 + s) 1 + magic_delta (push_bit (32 + s) 1) dp) div dp, s)"
        using True st(2) by (subst magic_u32_search.simps) (simp only: Let_def if_True)
      then show ?thesis using True fits st(3) by simp
    next
      case False
      have "magic_u32_search dp nc s = magic_u32_search dp nc (s + 1)"
        using True st(2) False by (subst magic_u32_search.simps) (simp only: Let_def if_True if_False)
      moreover have "\<not> nc * magic_delta (push_bit (32 + s) 1) dp < push_bit (32 + s) 1" using st(2) False by simp
      note "1.IH" [OF True refl refl this "1.prems"]
      ultimately show ?thesis using st(2) False
        by (auto split: option.splits simp: Suc_le_eq) (metis le_neq_implies_less)+
    qed
  next
    case False
    then show ?thesis by (subst magic_u32_search.simps) simp
  qed
qed

section \<open>Exact division\<close>

lemma multiply_divides:
  fixes D N nc m s k :: nat
  assumes nc: "nc + 1 = D * (N div D)" and D: "2 \<le> D" "D \<le> N" and k: "k < N"
    and fits: "magic_fits D nc s" and m: "m = (2 ^ (32 + s) + magic_err D s) div D"
  shows "(m * k) div 2 ^ (32 + s) = k div D"
proof -
  define P e where "P = (2 :: nat) ^ (32 + s)" and "e = magic_err D s"
  have "D dvd P + e" using magic_err_dvd [of D s] D by (simp add: P_def e_def)
  then have mD: "m * D = P + e" unfolding m by (simp add: P_def e_def)
  have "e * nc < P" using fits by (simp add: magic_fits_def P_def e_def mult.commute)
  then have R: "(k mod D) * P + k * e < D * P"
    using remainder_bound [OF nc _ D less_imp_le [OF k]] k by blast
  have prod: "D * (m * k) = D * ((k div D) * P) + ((k mod D) * P + k * e)"
    by (rule scaled_product [OF mD])
  then have "D * ((k div D) * P) \<le> D * (m * k)" by simp
  then have lo: "k div D * P \<le> m * k" using D by simp
  have "D * (m * k) < D * (k div D * P) + D * P" using prod R by linarith
  also have "\<dots> = D * (Suc (k div D) * P)" by (simp add: algebra_simps)
  finally have "m * k < Suc (k div D) * P" using D by (simp only: mult_less_cancel1)
  then have "(m * k) div P = k div D" using lo by (intro div_nat_eqI) (simp_all only: mult.commute)
  then show ?thesis by (simp only: P_def)
qed

text \<open>The search on the divisor and the largest dividend after the first shift.\<close>

definition shifted_divisor :: "u32 \<Rightarrow> nat \<Rightarrow> nat" where
  "shifted_divisor d pre = unat d div 2 ^ pre"

definition last_residue :: "u32 \<Rightarrow> nat \<Rightarrow> nat" where
  "last_residue d pre = 2 ^ (32 - pre) - 1 - 2 ^ (32 - pre) mod shifted_divisor d pre"

lemma last_residue_eq:
  assumes "0 < shifted_divisor d pre" "shifted_divisor d pre \<le> 2 ^ (32 - pre)"
  shows "last_residue d pre + 1 = shifted_divisor d pre * (2 ^ (32 - pre) div shifted_divisor d pre)"
proof -
  let ?D = "shifted_divisor d pre" and ?N = "2 ^ (32 - pre) :: nat"
  have "?N = ?D * (?N div ?D) + ?N mod ?D" by simp
  moreover have "?D \<le> ?D * (?N div ?D)" using assms by (simp add: Suc_leI div_greater_zero_iff)
  ultimately show ?thesis using assms(1) unfolding last_residue_def by linarith
qed

lemma shifted_divisor_le:
  assumes "pre < 32"
  shows "shifted_divisor d pre < 2 ^ (32 - pre)"
proof -
  have "unat d < 2 ^ 32" using unsigned_less [of d] by simp
  then have "unat d < 2 ^ (32 - pre) * 2 ^ pre" using assms by (simp flip: power_add)
  then show ?thesis unfolding shifted_divisor_def by (rule less_mult_imp_div_less)
qed

lemma candidate_result:
  assumes "pre < 32" "0 < shifted_divisor d pre"
  shows "case magic_candidate d pre of
      None \<Rightarrow> \<forall>j<32. \<not> magic_fits (shifted_divisor d pre) (last_residue d pre) j
    | Some (m, s) \<Rightarrow> s < 32 \<and> magic_fits (shifted_divisor d pre) (last_residue d pre) s \<and>
        (\<forall>j < s. \<not> magic_fits (shifted_divisor d pre) (last_residue d pre) j) \<and>
        unat m = (2 ^ (32 + s) + magic_err (shifted_divisor d pre) s) div shifted_divisor d pre"
proof -
  let ?D = "shifted_divisor d pre"
  define dp :: u64 where "dp = ucast (drop_bit pre d)"
  define xmax :: u64 where "xmax = drop_bit pre 0xFFFFFFFF"
  have p: "(2 :: nat) ^ (32 - pre) \<le> 2 ^ 32" by (intro power_increasing) auto
  have dp: "unat dp = ?D"
  proof -
    have "unat (drop_bit pre d) = shifted_divisor d pre"
      by (simp only: unat_shift shifted_divisor_def)
    then show ?thesis by (simp only: dp_def unat_widen)
  qed
  have x: "unat xmax = 2 ^ (32 - pre) - 1"
  proof -
    have "(0xFFFFFFFF :: u64) = mask 32" by (simp add: mask_eq_exp_minus_1)
    moreover have "drop_bit pre (mask 32 :: u64) = mask (32 - pre)"
      by (rule bit_word_eqI) (auto simp: bit_drop_bit_eq bit_mask_iff less_diff_conv add.commute)
    ultimately have "xmax = mask (32 - pre)" by (simp only: xmax_def)
    then have "xmax = of_nat (2 ^ (32 - pre) - 1)" by (simp add: mask_eq_exp_minus_1 of_nat_diff)
    moreover have "(2 :: nat) ^ (32 - pre) - 1 < 2 ^ 64" using p by simp
    ultimately show ?thesis by (simp only: unsigned_of_nat take_bit_nat_eq_self) (simp add: take_bit_nat_eq_self)
  qed
  then have x1: "unat (xmax + 1) = 2 ^ (32 - pre)"
    using p by (subst unat_add_lem [THEN iffD1]) simp_all
  have le: "2 ^ (32 - pre) mod ?D \<le> 2 ^ (32 - pre) - 1"
    using mod_less_divisor [OF assms(2), of "2 ^ (32 - pre)"] shifted_divisor_le [OF assms(1), of d] by linarith
  then have nc: "unat (xmax - (xmax + 1) mod dp) = last_residue d pre"
    by (subst unat_sub) (simp_all add: word_le_nat_alt unat_mod_distrib x1 dp x last_residue_def)
  have "unat dp < 2 ^ 32" "unat (xmax - (xmax + 1) mod dp) < 2 ^ 32"
    using shifted_divisor_le [OF assms(1), of d] p unfolding dp nc last_residue_def by linarith+
  note r = search_result [OF _ this, of 0, unfolded dp nc]
  have "magic_candidate d pre = magic_u32_search dp (xmax - (xmax + 1) mod dp) 0"
    by (simp only: magic_candidate_def Let_def dp_def xmax_def)
  then show ?thesis using r assms(2) by (auto split: option.splits)
qed

text \<open>Up to \<open>2^31\<close> an exponent is found, not above the width of the divisor.\<close>

lemma fits_at_width: "D \<le> 2 ^ s \<Longrightarrow> 0 < D \<Longrightarrow> n < 2 ^ 32 \<Longrightarrow> magic_fits D n s"
proof -
  assume D: "D \<le> 2 ^ s" "0 < D" and n: "n < (2 :: nat) ^ 32"
  have "magic_err D s < 2 ^ s" using magic_err_less [OF D(2), of s] D(1) by simp
  then have "n * magic_err D s < 2 ^ 32 * 2 ^ s" using n by (intro mult_strict_mono) auto
  then show ?thesis by (simp add: magic_fits_def power_add)
qed

lemma last_residue_less: "last_residue d pre < 2 ^ 32"
proof -
  have "(2 :: nat) ^ (32 - pre) \<le> 2 ^ 32" by (intro power_increasing) auto
  then show ?thesis unfolding last_residue_def by (simp add: less_imp_diff_less)
qed

lemma candidate_exists:
  assumes "1 < d" "d \<le> 0x80000000"
  obtains m s where "magic_candidate d 0 = Some (m, s)" "s < 32"
    and "magic_fits (unat d) (last_residue d 0) s" "unat m = (2 ^ (32 + s) + magic_err (unat d) s) div unat d"
    and "unat m < 2 ^ 33"
proof -
  have d: "1 < unat d" "unat d \<le> 2 ^ 31" using assms by (simp_all add: word_less_nat_alt word_le_nat_alt)
  note c = candidate_result [of 0 d, unfolded shifted_divisor_def, simplified]
  have all: "magic_fits (unat d) (last_residue d 0) j" if "unat d \<le> 2 ^ j" for j
    using that d last_residue_less [of d 0] by (intro fits_at_width) auto
  show ?thesis
  proof (cases "magic_candidate d 0")
    case None
    then show ?thesis using c all [of 31] d by (auto simp: word_gt_0)
  next
    case (Some r)
    obtain m s where r: "r = (m, s)" by (cases r)
    have f: "s < 32" "magic_fits (unat d) (last_residue d 0) s"
        "unat m = (2 ^ (32 + s) + magic_err (unat d) s) div unat d"
        and least: "\<And>j. j < s \<Longrightarrow> \<not> magic_fits (unat d) (last_residue d 0) j"
      using c Some r d by (auto simp: word_gt_0)
    have "unat m < 2 ^ 33"
    proof (cases s)
      case 0
      have "(2 ^ 32 + magic_err (unat d) 0) div unat d \<le> 2 ^ 32 + magic_err (unat d) 0" by (rule div_le_dividend)
      also have "\<dots> < 2 ^ 33" using magic_err_less [of "unat d" 0] d by simp
      finally show ?thesis using f(3) 0 by simp
    next
      case (Suc j)
      have "2 ^ j < unat d" using least [of j] all [of j] Suc by (meson lessI not_le)
      then have "2 ^ 33 * (2 ^ j + 1) \<le> 2 ^ 33 * unat d" by simp
      moreover have "magic_err (unat d) s < 2 ^ 33" using magic_err_less [of "unat d" s] d by simp
      ultimately have "2 ^ (32 + s) + magic_err (unat d) s < 2 ^ 33 * unat d" unfolding Suc by (simp add: power_add)
      then show ?thesis unfolding f(3) by (rule less_mult_imp_div_less)
    qed
    then show ?thesis using that Some r f by blast
  qed
qed

text \<open>The values of the emitted sequence, over the natural numbers.\<close>

lemma hi32_value: "unat (ucast (drop_bit 32 (ucast (x :: u32) * ucast (y :: u32) :: u64)) :: u32) = unat x * unat y div 2 ^ 32"
proof -
  have x: "unat x < 2 ^ 32" "unat y < 2 ^ 32" using unsigned_less [of x] unsigned_less [of y] by simp_all
  then have "unat x * unat y < 2 ^ 32 * 2 ^ 32" by (intro mult_strict_mono) auto
  then have p: "unat (ucast x * ucast y :: u64) = unat x * unat y"
    by (subst unat_mult_lem [THEN iffD1]) (simp_all add: unat_widen)
  have "unat x * unat y div 2 ^ 32 < 2 ^ 32"
    using \<open>unat x * unat y < 2 ^ 32 * 2 ^ 32\<close> by (intro less_mult_imp_div_less)
  then show ?thesis
    by (simp only: unsigned_ucast_eq unat_shift p) (simp add: take_bit_nat_eq_self)
qed

lemma no_add_value:
  "unat (magic_udiv_value \<lparr>mul_u32 = y, pre_shift = pre, post_shift = s, needs_add = False\<rparr> a)
     = (unat y * (unat a div 2 ^ pre)) div 2 ^ (32 + s)"
proof -
  have pre: "unat (if pre > 0 then drop_bit pre a else a) = unat a div 2 ^ pre"
    by (cases "pre > 0") (simp_all only: unat_shift if_True if_False, simp)
  have post: "unat (if s > 0 then drop_bit s z else z) = unat z div 2 ^ s" for z :: u32
    by (cases "s > 0") (simp_all only: unat_shift if_True if_False, simp)
  show ?thesis
    by (simp only: magic_udiv_value_def Let_def MagicConstU32.simps not_False_eq_True if_True post hi32_value pre
        power_add div_mult2_eq mult.commute [of "unat y"])
qed

lemma add_value:
  assumes "0 < s" "unat m = 2 ^ 32 + unat y"
  shows "unat (magic_udiv_value \<lparr>mul_u32 = y, pre_shift = 0, post_shift = s, needs_add = True\<rparr> a)
     = (unat m * unat a) div 2 ^ (32 + s)"
proof -
  define hi :: u32 where "hi = ucast (drop_bit 32 (ucast a * ucast y :: u64))"
  have x: "unat a < 2 ^ 32" "unat y < 2 ^ 32" using unsigned_less [of a] unsigned_less [of y] by simp_all
  have hi: "unat hi = unat a * unat y div 2 ^ 32" by (simp only: hi_def hi32_value)
  have "unat a * unat y \<le> unat a * 2 ^ 32" using x by simp
  then have le: "unat hi \<le> unat a" unfolding hi by (metis div_le_mono nonzero_mult_div_cancel_right power_not_zero zero_neq_numeral)
  have "unat (a - hi) = unat a - unat hi" using le by (simp add: unat_sub word_le_nat_alt)
  then have t2: "unat (drop_bit 1 (a - hi)) = (unat a - unat hi) div 2" by (simp only: unat_shift power_one_right)
  have "(unat a - unat hi) div 2 + unat hi \<le> unat a" using le by linarith
  then have t3: "unat (drop_bit 1 (a - hi) + hi) = (unat a - unat hi) div 2 + unat hi"
    using x by (subst unat_add_lem [THEN iffD1]) (simp_all only: t2, simp)
  also have "\<dots> = (unat a + unat hi) div 2" using le by linarith
  also have "unat a + unat hi = (unat m * unat a) div 2 ^ 32" unfolding hi assms(2) by (simp add: algebra_simps)
  finally have t3: "unat (drop_bit 1 (a - hi) + hi) = (unat m * unat a) div 2 ^ 32 div 2" .
  have "unat (if s > 1 then drop_bit (s - 1) z else z) = unat z div 2 ^ (s - 1)" for z :: u32
    using assms(1) by (cases "s > 1") (simp_all only: unat_shift if_True if_False, simp)
  then have "unat (magic_udiv_value \<lparr>mul_u32 = y, pre_shift = 0, post_shift = s, needs_add = True\<rparr> a) =
      (unat m * unat a) div 2 ^ 32 div 2 div 2 ^ (s - 1)"
    by (simp only: magic_udiv_value_def Let_def MagicConstU32.simps not_True_eq_False if_False less_irrefl
        hi_def [symmetric] t3)
  also have "\<dots> = (unat m * unat a) div (2 ^ 32 * (2 * 2 ^ (s - 1)))" by (simp only: div_mult2_eq)
  also have "2 ^ 32 * (2 * 2 ^ (s - 1)) = (2 :: nat) ^ (32 + s)" using assms(1) by (simp add: power_add flip: power_Suc)
  finally show ?thesis .
qed

lemma countr_zero_dvd: "2 ^ countr_zero (d :: 'a::len word) dvd unat d"
proof -
  have "\<not> bit d n" if "n < countr_zero d" for n
  proof -
    have "takeWhile Not (map (bit d) [0..<LENGTH('a)]) ! n = map (bit d) [0..<LENGTH('a)] ! n"
      using that by (simp add: countr_zero_def takeWhile_nth)
    moreover have "\<not> takeWhile Not (map (bit d) [0..<LENGTH('a)]) ! n"
      using that by (metis countr_zero_def nth_mem set_takeWhileD)
    moreover have "n < LENGTH('a)"
      using that length_takeWhile_le [of Not "map (bit d) [0..<LENGTH('a)]"] by (simp add: countr_zero_def)
    ultimately show ?thesis by simp
  qed
  then have "take_bit (countr_zero d) (unat d) = 0"
    by (intro bit_eqI) (simp add: bit_take_bit_iff bit_unsigned_iff)
  then show ?thesis by (simp add: take_bit_eq_mod mod_eq_0_iff_dvd)
qed

lemma countr_zero_less: "d \<noteq> 0 \<Longrightarrow> countr_zero (d :: 'a::len word) < LENGTH('a)"
proof -
  assume "d \<noteq> 0"
  then have "0 < unat d" by (simp add: unat_gt_0)
  then have "2 ^ countr_zero d \<le> unat d" using countr_zero_dvd by (rule dvd_imp_le [rotated])
  also have "\<dots> < 2 ^ LENGTH('a)" by (rule unsigned_less)
  finally show ?thesis by (simp only: power_strict_increasing_iff)
qed

lemma shifted_value:
  assumes "1 < d" "try_no_add d (countr_zero d) = Some out"
  shows "unat (magic_udiv_value out x) = unat x div unat d"
proof -
  let ?tz = "countr_zero d" and ?D = "shifted_divisor d (countr_zero d)"
  have tz: "?tz < 32" using countr_zero_less [of d] assms(1) by (cases "d = 0") simp_all
  have d: "unat d = 2 ^ ?tz * ?D" using countr_zero_dvd [of d] by (simp add: shifted_divisor_def)
  have "0 < unat d" using assms(1) by (simp add: word_less_nat_alt)
  then have D0: "0 < ?D" unfolding d by simp
  obtain m s where c: "magic_candidate d ?tz = Some (m, s)" and m32: "m \<le> 0xFFFFFFFF"
      and out: "out = \<lparr>mul_u32 = ucast m, pre_shift = ?tz, post_shift = s, needs_add = False\<rparr>"
    using assms(2) by (auto simp: try_no_add_def split: option.splits if_splits)
  from candidate_result [OF tz D0] c have fits: "magic_fits ?D (last_residue d ?tz) s"
      and m: "unat m = (2 ^ (32 + s) + magic_err ?D s) div ?D"
    by simp_all
  have um: "unat m < 2 ^ 32" using m32 by (simp add: word_le_nat_alt)
  have "?D \<noteq> 1"
  proof
    assume "?D = 1"
    then have "unat m = 2 ^ (32 + s)" using m by (simp add: magic_err_def)
    moreover have "(2 :: nat) ^ 32 \<le> 2 ^ (32 + s)" by (intro power_increasing) auto
    ultimately show False using um by simp
  qed
  then have D: "2 \<le> ?D" "?D \<le> 2 ^ (32 - ?tz)" using D0 shifted_divisor_le [OF tz, of d] by simp_all
  have "unat x < 2 ^ (32 - ?tz) * 2 ^ ?tz"
    using unsigned_less [of x, where 'a = nat] tz by (simp flip: power_add)
  then have k: "unat x div 2 ^ ?tz < 2 ^ (32 - ?tz)" by (rule less_mult_imp_div_less)
  have "unat (ucast m :: u32) = unat m" using um by (simp add: unsigned_ucast_eq take_bit_nat_eq_self)
  then have "unat (magic_udiv_value out x) = (unat m * (unat x div 2 ^ ?tz)) div 2 ^ (32 + s)"
    by (simp only: out no_add_value)
  also have "\<dots> = unat x div 2 ^ ?tz div ?D"
    by (rule multiply_divides [OF last_residue_eq [OF D0 D(2)] D k fits m])
  also have "\<dots> = unat x div unat d" by (simp only: d div_mult2_eq)
  finally show ?thesis .
qed

text \<open>The shifts of an answer are below the width.\<close>

lemma search_bound: "magic_u32_search dp nc k = Some (m, s) \<Longrightarrow> s < 32"
proof (induction dp nc k rule: magic_u32_search.induct)
  case (1 dp nc k)
  then show ?case by (subst (asm) magic_u32_search.simps) (auto simp: Let_def split: if_splits)
qed

lemma candidate_bound: "magic_candidate d k = Some (m, s) \<Longrightarrow> s < 32"
  unfolding magic_candidate_def Let_def by (rule search_bound)

lemma try_no_add_shifts: "try_no_add d k = Some out \<Longrightarrow> pre_shift out = k \<and> post_shift out < 32"
proof -
  assume out: "try_no_add d k = Some out"
  then obtain m s where c: "magic_candidate d k = Some (m, s)" by (auto simp: try_no_add_def split: option.splits)
  then show ?thesis using out candidate_bound [OF c] by (auto simp: try_no_add_def split: if_splits)
qed

lemma magic_u32_shifts: "pre_shift (compute_magic_const_u32 d) < 32 \<and> post_shift (compute_magic_const_u32 d) < 32"
proof -
  have "post_shift (compute_magic_const_u32 d) < 32"
    using candidate_bound [of d 0] try_no_add_shifts [of d] by (fastforce simp: compute_magic_const_u32_def Let_def split: option.splits)
  moreover have "pre_shift (compute_magic_const_u32 d) < 32"
  proof (cases "d \<le> 1")
    case False
    then have "d \<noteq> 0" by auto
    then have "countr_zero d < 32" using countr_zero_less [of d] by simp
    then show ?thesis using try_no_add_shifts [of d] by (fastforce simp: compute_magic_const_u32_def Let_def split: option.splits)
  qed (simp add: compute_magic_const_u32_def)
  ultimately show ?thesis by simp
qed

lemma magic_u32_divides:
  assumes "1 < d" "d \<le> 0x80000000"
  shows "magic_udiv_value (compute_magic_const_u32 d) x = x div d"
proof -
  have d: "1 < unat d" "unat d \<le> 2 ^ 31" using assms by (simp_all add: word_less_nat_alt word_le_nat_alt)
  have x: "unat x < 2 ^ 32" using unsigned_less [of x, where 'a = nat] by simp
  obtain m s where c: "magic_candidate d 0 = Some (m, s)" "s < 32"
      and fits: "magic_fits (unat d) (last_residue d 0) s"
      and m: "unat m = (2 ^ (32 + s) + magic_err (unat d) s) div unat d" "unat m < 2 ^ 33"
    using candidate_exists [OF assms] by blast
  have not1: "\<not> d \<le> 1" using assms(1) by simp
  have D: "shifted_divisor d 0 = unat d" by (simp add: shifted_divisor_def)
  have nc: "last_residue d 0 + 1 = unat d * (2 ^ 32 div unat d)"
    using last_residue_eq [of d 0] d by (simp add: D)
  have quot: "(unat m * unat x) div 2 ^ (32 + s) = unat x div unat d"
    using multiply_divides [OF nc _ _ x fits m(1)] d by simp
  have "unat (magic_udiv_value (compute_magic_const_u32 d) x) = unat x div unat d"
  proof (cases "try_no_add d 0")
    case (Some out)
    then have "m \<le> 0xFFFFFFFF" and out: "out = \<lparr>mul_u32 = ucast m, pre_shift = 0, post_shift = s, needs_add = False\<rparr>"
      using c by (auto simp: try_no_add_def split: if_splits)
    then have "unat (ucast m :: u32) = unat m"
      by (simp add: unsigned_ucast_eq take_bit_nat_eq_self word_le_nat_alt)
    then show ?thesis using Some assms quot by (simp add: compute_magic_const_u32_def out no_add_value)
  next
    case None
    then have big: "2 ^ 32 \<le> unat m" using c by (auto simp: try_no_add_def word_le_nat_alt split: if_splits)
    have s: "0 < s"
    proof (rule ccontr)
      assume "\<not> 0 < s"
      then have "unat m * unat d = 2 ^ 32 + magic_err (unat d) 0"
        using m(1) magic_err_dvd [of "unat d" 0] d by simp
      moreover have "magic_err (unat d) 0 < 2 ^ 32" using magic_err_less [of "unat d" 0] d by simp
      moreover have "2 ^ 32 * 2 \<le> unat m * unat d" using big d by (intro mult_le_mono) auto
      ultimately show False by simp
    qed
    define y :: u32 where "y = ucast (m - push_bit 32 1)"
    have "unat (m - push_bit 32 1) = unat m - 2 ^ 32" using big by (simp add: unat_sub word_le_nat_alt)
    then have y: "unat m = 2 ^ 32 + unat y"
      using big m(2) by (simp add: y_def unsigned_ucast_eq take_bit_nat_eq_self)
    show ?thesis
    proof (cases "countr_zero d > 0 \<and> try_no_add d (countr_zero d) \<noteq> None")
      case False
      then have "compute_magic_const_u32 d = \<lparr>mul_u32 = y, pre_shift = 0, post_shift = s, needs_add = True\<rparr>"
        using assms None c by (auto simp: compute_magic_const_u32_def y_def Let_def)
      then show ?thesis using add_value [OF s y] quot by simp
    next
      case True
      then obtain out where out: "countr_zero d > 0" "try_no_add d (countr_zero d) = Some out" by blast
      then show ?thesis using not1 None c shifted_value [OF assms(1) out(2)] by (simp add: compute_magic_const_u32_def Let_def)
    qed
  qed
  then show ?thesis by (simp add: word_unat_eq_iff unat_div_distrib)
qed

text \<open>
  C27.  For every divisor from 2 to \<open>2^31\<close> the search ends within its 32 exponents, and the
  multiply-and-shift sequence built from its answer, with or without the added correction and the
  first shift, gives the unsigned quotient of every 32-bit dividend.
\<close>

theorem magic_u32_exact:
  assumes "1 < d" "d \<le> 0x80000000"
  shows "magic_udiv_value (compute_magic_const_u32 d) x = x div d"
  by (rule magic_u32_divides [OF assms])

theorem magic_u32_exact_witness:
  "magic_udiv_value (compute_magic_const_u32 7) 4294967295 = 613566756 \<and>
   magic_udiv_value (compute_magic_const_u32 0x80000000) 4294967295 = 1"
  using magic_u32_exact [of 7 4294967295] magic_u32_exact [of "0x80000000" 4294967295] by simp

lemma magic_u32_exhausted:
  "magic_candidate 3967333745 0 = None"
  "compute_magic_const_u32 3967333745 = \<lparr>mul_u32 = 0, pre_shift = 0, post_shift = 0, needs_add = True\<rparr>"
proof -
  let ?d = "3967333745 :: u32"
  have d: "shifted_divisor ?d 0 = 3967333745" "last_residue ?d 0 = 3967333744"
    by (simp_all add: shifted_divisor_def last_residue_def)
  have "list_all (\<lambda>s. \<not> magic_fits 3967333745 3967333744 s) [0..<32]"
    by (simp add: upt_rec magic_fits_def magic_err_def)
  then have "\<not> magic_fits 3967333745 3967333744 s" if "s < 32" for s
    using that by (simp add: list_all_iff)
  then show none: "magic_candidate ?d 0 = None"
    using candidate_result [of 0 ?d, unfolded d] by (auto split: option.splits)
  have "countr_zero ?d = 0" by (simp add: countr_zero_def upt_rec)
  then show "compute_magic_const_u32 ?d = \<lparr>mul_u32 = 0, pre_shift = 0, post_shift = 0, needs_add = True\<rparr>"
    using none by (simp add: compute_magic_const_u32_def try_no_add_def word_le_nat_alt)
qed

text \<open>
  Above \<open>2^31\<close> the search can run out of its 32 exponents, and the code goes on with the
  multiplier 0 and no shift: dividing 3967333744 by 3967333745 gives 1983666872 instead of 0.
\<close>

theorem magic_u32_runs_out:
  "magic_candidate 3967333745 0 = None \<and>
   compute_magic_const_u32 3967333745 = \<lparr>mul_u32 = 0, pre_shift = 0, post_shift = 0, needs_add = True\<rparr> \<and>
   magic_udiv_value (compute_magic_const_u32 3967333745) 3967333744 = 1983666872 \<and>
   (3967333744 :: u32) div 3967333745 = 0"
  using magic_u32_exhausted by (simp add: magic_udiv_value_def)

end
