(* ===== verification/Bv_Divide.thy ===== *)
theory Bv_Divide
  imports Bv_Extend Udiv_Magic "HOL-Library.Monad_Syntax"
begin

text \<open>
  Division and remainder by a constant in terms (\<open>expand_const_div_rem_bv\<close> and
  \<open>build_magic_udiv_u32\<close> of \<open>src/mir/gpu_superopt.cpp\<close>), and \<open>make_binary\<close> as a whole.  The theorems show
  that every integer term that \<open>make_binary\<close> builds has the value of the operation, but for an
  unsigned 32-bit division by a constant above \<open>2^31\<close>, which can be built wrong.
\<close>

section \<open>The expansions\<close>

abbreviation const_term :: "BVContext \<Rightarrow> u64 \<Rightarrow> nat \<Rightarrow> built" where
  "const_term ctx v w \<equiv> Some (make_const ctx v w)"

definition shift_right :: "BVContext \<Rightarrow> BVNodeId \<Rightarrow> nat \<Rightarrow> nat \<Rightarrow> built" where
  "shift_right ctx a k w = do {
     (ctx, c) \<leftarrow> const_term ctx (of_nat k) w;
     make_arith ctx BV_LShr a c w}"

text \<open>The end of the sequence, from the high half of the product.\<close>

definition magic_finish :: "BVContext \<Rightarrow> BVNodeId \<Rightarrow> BVNodeId \<Rightarrow> MagicConstU32 \<Rightarrow> built" where
  "magic_finish ctx x hi32 mag =
     (if \<not> needs_add mag then
        (if post_shift mag > 0 then shift_right ctx hi32 (post_shift mag) 32 else Some (ctx, hi32))
      else do {
        (ctx, t) \<leftarrow> make_arith ctx BV_Sub x hi32 32;
        (ctx, t2) \<leftarrow> shift_right ctx t 1 32;
        (ctx, t3) \<leftarrow> make_arith ctx BV_Add t2 hi32 32;
        if post_shift mag > 1 then shift_right ctx t3 (post_shift mag - 1) 32 else Some (ctx, t3)})"

definition build_magic_udiv_u32 :: "BVContext \<Rightarrow> BVNodeId \<Rightarrow> MagicConstU32 \<Rightarrow> built" where
  "build_magic_udiv_u32 ctx a mag = do {
     (ctx, x) \<leftarrow> (if pre_shift mag > 0 then shift_right ctx a (pre_shift mag) 32 else Some (ctx, a));
     (ctx, z) \<leftarrow> make_zext ctx x 32;
     (ctx, m) \<leftarrow> const_term ctx (ucast (mul_u32 mag)) 64;
     (ctx, prod64) \<leftarrow> make_mul ctx z m 64;
     (ctx, hi32) \<leftarrow> make_extract ctx prod64 63 32;
     magic_finish ctx x hi32 mag}"

text \<open>
  The signed expansions work on the magnitude: \<open>k\<close> builds the unsigned result on the operand and
  on its negation, and the sign of the operand selects.
\<close>

definition by_sign :: "BVContext \<Rightarrow> BVNodeId \<Rightarrow> nat \<Rightarrow> (BVContext \<Rightarrow> BVNodeId \<Rightarrow> built) \<Rightarrow> built" where
  "by_sign ctx a w k = do {
     (ctx, z) \<leftarrow> const_term ctx 0 w;
     (ctx, non_neg) \<leftarrow> make_compare ctx BV_Sge a z;
     (ctx, pos) \<leftarrow> k ctx a;
     (ctx, neg_a) \<leftarrow> make_unary ctx BV_Neg a w;
     (ctx, t) \<leftarrow> k ctx neg_a;
     (ctx, neg) \<leftarrow> make_unary ctx BV_Neg t w;
     make_ite ctx non_neg pos neg}"

definition rem_by_quotient :: "BVContext \<Rightarrow> BVNodeId \<Rightarrow> BVNodeId \<Rightarrow> MagicConstU32 \<Rightarrow> built" where
  "rem_by_quotient ctx a b mag = do {
     (ctx, q) \<leftarrow> build_magic_udiv_u32 ctx a mag;
     (ctx, p) \<leftarrow> make_mul ctx q b 32;
     make_arith ctx BV_Sub a p 32}"

text \<open>The answer of an expansion: a node, or none (\<open>UINT32_MAX\<close>) with the nodes added so far.\<close>

type_synonym expansion = "(BVContext \<times> BVNodeId option) option"

definition found :: "built \<Rightarrow> expansion" where
  "found r = do {(ctx, i) \<leftarrow> r; Some (ctx, Some i)}"

definition expand_div :: "BVContext \<Rightarrow> BVOp \<Rightarrow> BVNodeId \<Rightarrow> BVNodeId \<Rightarrow> nat \<Rightarrow> expansion" where
  "expand_div ctx op a b w =
     (let cb = node ctx b; kb = is_const cb; imm = bv_imm cb; sh = countr_zero imm; d = (ucast imm :: u32)
      in if kb \<and> imm = 1 then found (Some (ctx, a))
         else if a = b \<and> umin (interval_of ctx b) > 0 then found (const_term ctx 1 w)
         else if kb \<and> has_single_bit imm \<and> op = BV_UDiv then found (shift_right ctx a sh w)
         else if kb \<and> has_single_bit imm \<and> sh > 0 \<and> sh + 1 < w then
           found (do {(ctx, sh_c) \<leftarrow> const_term ctx (of_nat sh) w; by_sign ctx a w (\<lambda>ctx x. make_arith ctx BV_LShr x sh_c w)})
         else if w = 32 \<and> kb \<and> op = BV_UDiv \<and> d > 1 \<and> \<not> has_single_bit d then
           found (build_magic_udiv_u32 ctx a (compute_magic_const_u32 d))
         else if w = 32 \<and> kb \<and> op = BV_SDiv \<and> sint d > 1 \<and> \<not> has_single_bit d then
           found (by_sign ctx a 32 (\<lambda>ctx x. build_magic_udiv_u32 ctx x (compute_magic_const_u32 d)))
         else Some (ctx, None))"

definition expand_rem :: "BVContext \<Rightarrow> BVOp \<Rightarrow> BVNodeId \<Rightarrow> BVNodeId \<Rightarrow> nat \<Rightarrow> expansion" where
  "expand_rem ctx op a b w =
     (let cb = node ctx b; kb = is_const cb; imm = bv_imm cb; sh = countr_zero imm; d = (ucast imm :: u32);
          single = kb \<and> has_single_bit imm;
          (ctx', mask_c) = (if single then make_const ctx (imm - 1) w else (ctx, 0))
      in if kb \<and> imm = 1 then found (const_term ctx 0 w)
         else if a = b \<and> umin (interval_of ctx b) > 0 then found (const_term ctx 0 w)
         else if single \<and> op = BV_URem then found (make_and ctx' a mask_c w)
         else if single \<and> sh > 0 \<and> sh + 1 < w then found (by_sign ctx' a w (\<lambda>ctx x. make_and ctx x mask_c w))
         else if w = 32 \<and> kb \<and> op = BV_URem \<and> d > 1 \<and> \<not> has_single_bit d then
           found (rem_by_quotient ctx' a b (compute_magic_const_u32 d))
         else if w = 32 \<and> kb \<and> op = BV_SRem \<and> sint d > 1 \<and> \<not> has_single_bit d then
           found (by_sign ctx' a 32 (\<lambda>ctx x. rem_by_quotient ctx x b (compute_magic_const_u32 d)))
         else Some (ctx', None))"

definition expand_const_div_rem_bv :: "BVContext \<Rightarrow> BVOp \<Rightarrow> BVNodeId \<Rightarrow> BVNodeId \<Rightarrow> nat \<Rightarrow> expansion" where
  "expand_const_div_rem_bv ctx op a b w =
     (if op = BV_UDiv \<or> op = BV_SDiv then expand_div ctx op a b w else expand_rem ctx op a b w)"

definition make_divide :: "BVContext \<Rightarrow> BVOp \<Rightarrow> BVNodeId \<Rightarrow> BVNodeId \<Rightarrow> nat \<Rightarrow> built" where
  "make_divide ctx op a b w =
     (if is_const (node ctx a) \<and> is_const (node ctx b) then Some (fold_consts ctx op a b w)
      else do {
        (ctx, r) \<leftarrow> expand_const_div_rem_bv ctx op a b w;
        Some (case r of Some i \<Rightarrow> (ctx, i) | None \<Rightarrow> make_binary_node ctx op a b w)})"

text \<open>
  \<open>make_binary\<close> on integer operations.  Callers ask for a comparison with the width 1 or with the
  default.
\<close>

definition make_binary :: "BVContext \<Rightarrow> BVOp \<Rightarrow> BVNodeId \<Rightarrow> BVNodeId \<Rightarrow> nat \<Rightarrow> built" where
  "make_binary ctx op a b res_width =
     (let w = (if res_width \<noteq> 0 then res_width else if pred_op op then 1 else max (node_width ctx a) (node_width ctx b))
      in if pred_op op then make_compare ctx op a b
         else if op \<in> {BV_UDiv, BV_SDiv, BV_URem, BV_SRem} then make_divide ctx op a b w
         else make_ring ctx op a b w)"

section \<open>Unsigned division by multiplication, as a term\<close>

lemma bind_step:
  assumes "returns ctx v g m"
    and "\<And>ctx' t. context_ok ctx' \<Longrightarrow> extends ctx ctx' \<Longrightarrow> denotes ctx' t v g \<Longrightarrow> returns ctx' w f (k ctx' t)"
  shows "returns ctx w f (do {(ctx', t) \<leftarrow> m; k ctx' t})"
  using assms by (rule bind_then)

lemma const_returns: "context_ok ctx \<Longrightarrow> valid_width w \<Longrightarrow> returns ctx w (\<lambda>_. v AND width_mask w) (const_term ctx v w)"
  by (simp add: make_const_yields)

lemma shift_right_returns:
  assumes ok: "context_ok ctx" and d: "denotes ctx a w f" and k: "k < w"
  shows "returns ctx w (\<lambda>vs. drop_bit k (f vs)) (shift_right ctx a k w)"
  unfolding shift_right_def
proof (rule bind_step)
  have w: "valid_width w" "w \<le> 64" using denotes_width [OF ok d] by (simp_all add: valid_width_def)
  show "returns ctx w (\<lambda>_. of_nat k AND width_mask w) (const_term ctx (of_nat k) w)" by (rule const_returns [OF ok w(1)])
  fix ctx' c assume e: "context_ok ctx'" "extends ctx ctx'" "denotes ctx' c w (\<lambda>_. of_nat k AND width_mask w)"
  have c: "(of_nat k :: u64) < of_nat w" "unat (of_nat k :: u64) = k" using k w by (simp_all add: word_less_nat_alt unat_of_nat)
  have "drop_bit k (f vs) AND width_mask w = drop_bit k (f vs)" for vs
    using in_width_bit [OF w(2)] denotes_width [OF ok d, of vs] by (fastforce simp: and_eq_bits bit_drop_bit_eq bit_width_mask [OF w(2)])
  then show "returns ctx' w (\<lambda>vs. drop_bit k (f vs)) (make_arith ctx' BV_LShr a c w)"
    using make_arith_returns [OF arith_groups(4) e(1) denotes_extends [OF ok e(1,2) d] e(3)] c w(2)
    by (simp add: small_const shift_count_below)
qed

lemma ucast_drop: "ucast (drop_bit k (x :: u32)) = (drop_bit k (ucast x) :: u64)"
  by (rule bit_eqI) (auto simp: bit_simps dest: bit_imp_le_length)

lemma ucast_high: "ucast (ucast (drop_bit 32 (p :: u64)) :: u32) = field 32 32 p"
  by (rule bit_eqI) (auto simp: bit_simps dest: bit_imp_le_length)

lemma ucast_low_32: "x AND mask 32 = x \<Longrightarrow> ucast (ucast (x :: u64) :: u32) = x"
  by (simp add: bit_eq_iff bit_simps) (metis bit_and_iff bit_mask_iff)

lemma ucast_ring:
  "ucast (x - y :: u32) = ((ucast x - ucast y :: u64) AND width_mask 32)"
  "ucast (x + y :: u32) = ((ucast x + ucast y :: u64) AND width_mask 32)"
  by (simp_all only: width_mask_simps mask_32_casts) simp_all

lemma magic_finish_returns:
  assumes ok: "context_ok ctx" and x: "denotes ctx x 32 X" and h: "denotes ctx hi 32 H" and sh: "post_shift mag < 32"
  shows "returns ctx 32 (\<lambda>vs. if \<not> needs_add mag then (if post_shift mag > 0 then drop_bit (post_shift mag) (H vs) else H vs)
      else if post_shift mag > 1 then drop_bit (post_shift mag - 1) ((drop_bit 1 ((X vs - H vs) AND width_mask 32) + H vs) AND width_mask 32)
      else (drop_bit 1 ((X vs - H vs) AND width_mask 32) + H vs) AND width_mask 32) (magic_finish ctx x hi mag)"
    (is "returns ctx 32 ?F _")
proof (cases "needs_add mag")
  case False
  then show ?thesis using shift_right_returns [OF ok h sh] yields_self [OF ok h] by (simp add: magic_finish_def)
next
  case True
  let ?T = "\<lambda>vs. (drop_bit 1 ((X vs - H vs) AND width_mask 32) + H vs) AND width_mask 32"
  have "returns ctx 32 (\<lambda>vs. (X vs - H vs) AND width_mask 32) (make_arith ctx BV_Sub x hi 32)"
    using make_arith_returns [OF arith_groups(2) ok x h] by simp
  then have "returns ctx 32 ?F (do {
      (ctx, t) \<leftarrow> make_arith ctx BV_Sub x hi 32;
      (ctx, t2) \<leftarrow> shift_right ctx t 1 32;
      (ctx, t3) \<leftarrow> make_arith ctx BV_Add t2 hi 32;
      if post_shift mag > 1 then shift_right ctx t3 (post_shift mag - 1) 32 else Some (ctx, t3)})"
  proof (rule bind_step)
    fix c1 t assume e1: "context_ok c1" "extends ctx c1" "denotes c1 t 32 (\<lambda>vs. (X vs - H vs) AND width_mask 32)"
    have h1: "denotes c1 hi 32 H" by (rule denotes_extends [OF ok e1(1,2) h])
    show "returns c1 32 ?F (do {
        (ctx, t2) \<leftarrow> shift_right c1 t 1 32;
        (ctx, t3) \<leftarrow> make_arith ctx BV_Add t2 hi 32;
        if post_shift mag > 1 then shift_right ctx t3 (post_shift mag - 1) 32 else Some (ctx, t3)})"
    proof (rule bind_step [OF shift_right_returns [OF e1(1,3)]], simp)
      fix c2 t2 assume e2: "context_ok c2" "extends c1 c2" "denotes c2 t2 32 (\<lambda>vs. drop_bit 1 ((X vs - H vs) AND width_mask 32))"
      have "returns c2 32 ?T (make_arith c2 BV_Add t2 hi 32)"
        using make_arith_returns [OF arith_groups(1) e2(1,3) denotes_extends [OF e1(1) e2(1,2) h1]] by simp
      then show "returns c2 32 ?F (do {
          (ctx, t3) \<leftarrow> make_arith c2 BV_Add t2 hi 32;
          if post_shift mag > 1 then shift_right ctx t3 (post_shift mag - 1) 32 else Some (ctx, t3)})"
      proof (rule bind_step)
        fix c3 t3 assume e3: "context_ok c3" "denotes c3 t3 32 ?T"
        have "post_shift mag - 1 < 32" using sh by simp
        then show "returns c3 32 ?F (if post_shift mag > 1 then shift_right c3 t3 (post_shift mag - 1) 32 else Some (c3, t3))"
          using True shift_right_returns [OF e3] yields_self [OF e3] by (simp del: width_mask_simps)
      qed
    qed
  qed
  then show ?thesis using True by (simp only: magic_finish_def simp_thms if_False)
qed

lemma build_magic_returns:
  assumes ok: "context_ok ctx" and d: "denotes ctx a 32 f" and sh: "pre_shift mag < 32" "post_shift mag < 32"
  shows "returns ctx 32 (\<lambda>vs. ucast (magic_udiv_value mag (ucast (f vs)))) (build_magic_udiv_u32 ctx a mag)"
proof -
  define X :: "u64 list \<Rightarrow> u64" where "X vs = (if pre_shift mag > 0 then drop_bit (pre_shift mag) (f vs) else f vs)" for vs
  define H :: "u64 list \<Rightarrow> u64" where "H vs = field 32 32 (X vs * ucast (mul_u32 mag))" for vs
  define T :: "u64 list \<Rightarrow> u64" where "T vs = (drop_bit 1 ((X vs - H vs) AND width_mask 32) + H vs) AND width_mask 32" for vs
  let ?goal = "\<lambda>vs. ucast (magic_udiv_value mag (ucast (f vs))) :: u64"
  have v: "valid_width 32" "valid_width 64" by (simp_all add: valid_width_def)
  have fu: "ucast (ucast (f vs) :: u32) = f vs" for vs
    using masked_self [OF ok d, of vs] by (simp add: ucast_low_32)
  have goal: "?goal vs = (if \<not> needs_add mag then (if post_shift mag > 0 then drop_bit (post_shift mag) (H vs) else H vs)
      else if post_shift mag > 1 then drop_bit (post_shift mag - 1) (T vs) else T vs)" for vs
    unfolding magic_udiv_value_def Let_def T_def H_def X_def if_distrib [of ucast] ucast_drop ucast_ring ucast_high fu ..
  have x: "returns ctx 32 X (if pre_shift mag > 0 then shift_right ctx a (pre_shift mag) 32 else Some (ctx, a))"
    using shift_right_returns [OF ok d sh(1)] yields_self [OF ok d] by (simp add: X_def [abs_def])
  show ?thesis
    unfolding build_magic_udiv_u32_def
  proof (rule bind_step [OF x])
    fix c1 x assume e1: "context_ok c1" "denotes c1 x 32 X"
    show "returns c1 32 ?goal (do {
       (ctx, z) \<leftarrow> make_zext c1 x 32;
       (ctx, m) \<leftarrow> const_term ctx (ucast (mul_u32 mag)) 64;
       (ctx, prod64) \<leftarrow> make_mul ctx z m 64;
       (ctx, hi32) \<leftarrow> make_extract ctx prod64 63 32;
       magic_finish ctx x hi32 mag})"
    proof (rule bind_step)
      show "returns c1 64 X (make_zext c1 x 32)" using make_zext_returns [OF e1, of 32] by simp
      fix c2 z assume e2: "context_ok c2" "extends c1 c2" "denotes c2 z 64 X"
      have x2: "denotes c2 x 32 X" by (rule denotes_extends [OF e1(1) e2(1,2) e1(2)])
      show "returns c2 32 ?goal (do {
         (ctx, m) \<leftarrow> const_term c2 (ucast (mul_u32 mag)) 64;
         (ctx, prod64) \<leftarrow> make_mul ctx z m 64;
         (ctx, hi32) \<leftarrow> make_extract ctx prod64 63 32;
         magic_finish ctx x hi32 mag})"
      proof (rule bind_step [OF const_returns [OF e2(1) v(2)]])
        fix c3 m assume e3: "context_ok c3" "extends c2 c3" "denotes c3 m 64 (\<lambda>_. ucast (mul_u32 mag) AND width_mask 64)"
        have x3: "denotes c3 x 32 X" by (rule denotes_extends [OF e2(1) e3(1,2) x2])
        show "returns c3 32 ?goal (do {
           (ctx, prod64) \<leftarrow> make_mul c3 z m 64;
           (ctx, hi32) \<leftarrow> make_extract ctx prod64 63 32;
           magic_finish ctx x hi32 mag})"
        proof (rule bind_step [OF make_mul_returns [OF e3(1) denotes_extends [OF e2(1) e3(1,2) e2(3)] e3(3)]])
          fix c4 p assume e4: "context_ok c4" "extends c3 c4"
            "denotes c4 p 64 (\<lambda>vs. (X vs * (ucast (mul_u32 mag) AND width_mask 64)) AND width_mask 64)"
          have p: "denotes c4 p 64 (\<lambda>vs. X vs * ucast (mul_u32 mag))" using e4(3) by simp
          have h: "returns c4 32 H (make_extract c4 p 63 32)" using make_extract_returns [OF e4(1) p, of 32 63] by (simp add: H_def [abs_def])
          show "returns c4 32 ?goal (do {(ctx, hi32) \<leftarrow> make_extract c4 p 63 32; magic_finish ctx x hi32 mag})"
          proof (rule bind_step [OF h])
            fix c5 hi assume e5: "context_ok c5" "extends c4 c5" "denotes c5 hi 32 H"
            have "denotes c5 x 32 X" by (rule denotes_extends [OF e4(1) e5(1,2) denotes_extends [OF e3(1) e4(1,2) x3]])
            from magic_finish_returns [OF e5(1) this e5(3) sh(2)] show "returns c5 32 ?goal (magic_finish c5 x hi mag)"
              unfolding goal T_def .
          qed
        qed
      qed
    qed
  qed
qed

section \<open>Signed division through the magnitude\<close>

lemma neg_masked: "sem1 BV_Neg w x = (- x) AND width_mask w"
  by (simp add: not_eq_complement)

lemma sval_zero: "valid_width w \<Longrightarrow> sval w 0 = 0"
  using sval_eq [of w 0] by (simp add: in_width_def)

lemma by_sign_returns:
  assumes ok: "context_ok ctx" and d: "denotes ctx a w f"
    and k: "\<And>ctx' x h. context_ok ctx' \<Longrightarrow> extends ctx ctx' \<Longrightarrow> denotes ctx' x w h \<Longrightarrow> returns ctx' w (\<lambda>vs. K (h vs)) (k ctx' x)"
  shows "returns ctx w (\<lambda>vs. if 0 \<le> sval w (f vs) then K (f vs) else (- K ((- f vs) AND width_mask w)) AND width_mask w) (by_sign ctx a w k)"
    (is "returns ctx w ?F _")
proof -
  have w: "valid_width w" using denotes_width [OF ok d] by simp
  let ?g = "\<lambda>vs. (- f vs) AND width_mask w"
  have neg: "unary_op BV_Neg" by (simp add: unary_op_def)
  have flag: "(of_bool64 p \<noteq> 0) = p" for p by simp
  show ?thesis
    unfolding by_sign_def
  proof (rule bind_step [OF const_returns [OF ok w]])
    fix c1 z assume e1: "context_ok c1" "extends ctx c1" "denotes c1 z w (\<lambda>_. 0 AND width_mask w)"
    have d1: "denotes c1 a w f" by (rule denotes_extends [OF ok e1(1,2) d])
    have "returns c1 1 (\<lambda>vs. of_bool64 (0 \<le> sval w (f vs))) (make_compare c1 BV_Sge a z)"
      using make_compare_returns [OF e1(1) d1 e1(3), of BV_Sge] sval_zero [OF w] by (simp add: pred_op_def)
    then show "returns c1 w ?F (do {
       (ctx, non_neg) \<leftarrow> make_compare c1 BV_Sge a z;
       (ctx, pos) \<leftarrow> k ctx a;
       (ctx, neg_a) \<leftarrow> make_unary ctx BV_Neg a w;
       (ctx, t) \<leftarrow> k ctx neg_a;
       (ctx, neg) \<leftarrow> make_unary ctx BV_Neg t w;
       make_ite ctx non_neg pos neg})"
    proof (rule bind_step)
      fix c2 nn assume e2: "context_ok c2" "extends c1 c2" "denotes c2 nn 1 (\<lambda>vs. of_bool64 (0 \<le> sval w (f vs)))"
      have x2: "extends ctx c2" by (rule extends_trans [OF e1(2) e2(2)])
      have d2: "denotes c2 a w f" by (rule denotes_extends [OF ok e2(1) x2 d])
      show "returns c2 w ?F (do {
         (ctx, pos) \<leftarrow> k c2 a;
         (ctx, neg_a) \<leftarrow> make_unary ctx BV_Neg a w;
         (ctx, t) \<leftarrow> k ctx neg_a;
         (ctx, neg) \<leftarrow> make_unary ctx BV_Neg t w;
         make_ite ctx nn pos neg})"
      proof (rule bind_step [OF k [OF e2(1) x2 d2]])
        fix c3 pos assume e3: "context_ok c3" "extends c2 c3" "denotes c3 pos w (\<lambda>vs. K (f vs))"
        have d3: "denotes c3 a w f" by (rule denotes_extends [OF e2(1) e3(1,2) d2])
        have "returns c3 w ?g (make_unary c3 BV_Neg a w)" using make_unary_returns [OF e3(1) d3 neg] unfolding neg_masked .
        then show "returns c3 w ?F (do {
           (ctx, neg_a) \<leftarrow> make_unary c3 BV_Neg a w;
           (ctx, t) \<leftarrow> k ctx neg_a;
           (ctx, neg) \<leftarrow> make_unary ctx BV_Neg t w;
           make_ite ctx nn pos neg})"
        proof (rule bind_step)
          fix c4 na assume e4: "context_ok c4" "extends c3 c4" "denotes c4 na w ?g"
          have x4: "extends c2 c4" by (rule extends_trans [OF e3(2) e4(2)])
          show "returns c4 w ?F (do {
             (ctx, t) \<leftarrow> k c4 na;
             (ctx, neg) \<leftarrow> make_unary ctx BV_Neg t w;
             make_ite ctx nn pos neg})"
          proof (rule bind_step [OF k [OF e4(1) extends_trans [OF x2 x4] e4(3)]])
            fix c5 t assume e5: "context_ok c5" "extends c4 c5" "denotes c5 t w (\<lambda>vs. K (?g vs))"
            have "returns c5 w (\<lambda>vs. (- K (?g vs)) AND width_mask w) (make_unary c5 BV_Neg t w)"
              using make_unary_returns [OF e5(1,3) neg] unfolding neg_masked .
            then show "returns c5 w ?F (do {(ctx, neg) \<leftarrow> make_unary c5 BV_Neg t w; make_ite ctx nn pos neg})"
            proof (rule bind_step)
              fix c6 n assume e6: "context_ok c6" "extends c5 c6" "denotes c6 n w (\<lambda>vs. (- K (?g vs)) AND width_mask w)"
              have x6: "extends c3 c6" by (rule extends_trans [OF e4(2) extends_trans [OF e5(2) e6(2)]])
              have "denotes c6 nn 1 (\<lambda>vs. of_bool64 (0 \<le> sval w (f vs)))" "denotes c6 pos w (\<lambda>vs. K (f vs))"
                by (rule denotes_extends [OF e2(1) e6(1) extends_trans [OF e3(2) x6] e2(3)], rule denotes_extends [OF e3(1) e6(1) x6 e3(3)])
              from make_ite_returns [OF e6(1) this e6(3)] show "returns c6 w ?F (make_ite c6 nn pos n)" unfolding flag .
            qed
          qed
        qed
      qed
    qed
  qed
qed

lemma uint_neg_masked: "w \<le> 64 \<Longrightarrow> uint ((- y) AND width_mask w) = (- uint y) mod 2 ^ w"
proof -
  assume w: "w \<le> 64"
  then have "(2 :: int) ^ w dvd 2 ^ 64" by (intro le_imp_power_dvd)
  then show ?thesis unfolding uint_mask [OF w] by (simp add: uint_word_ariths mod_mod_cancel)
qed

lemma uint_of_int_masked: "w \<le> 64 \<Longrightarrow> uint ((word_of_int k :: u64) AND width_mask w) = k mod 2 ^ w"
proof -
  assume w: "w \<le> 64"
  then have "(2 :: int) ^ w dvd 2 ^ 64" by (intro le_imp_power_dvd)
  then show ?thesis unfolding uint_mask [OF w] by (simp add: uint_word_of_int mod_mod_cancel)
qed

lemma magnitude:
  assumes "valid_width w" "in_width w x"
  shows "0 \<le> sval w x \<Longrightarrow> uint x = sval w x" "sval w x < 0 \<Longrightarrow> uint ((- x) AND width_mask w) = - sval w x"
proof -
  have w: "w \<le> 64" "(2 :: int) ^ w = 2 * 2 ^ (w - 1)" "(0 :: int) < 2 ^ (w - 1)" using assms(1) power_half [of w] by (simp_all add: valid_width_def)
  have r: "uint x < 2 ^ w" using assms(2) w by (simp add: in_width_iff)
  show "0 \<le> sval w x \<Longrightarrow> uint x = sval w x" using sval_eq [OF assms(2,1)] r by (simp split: if_splits)
  assume neg: "sval w x < 0"
  have "(- uint x) mod 2 ^ w = (- sval w x) mod 2 ^ w" using sval_mod [OF assms(2,1)] by (metis mod_minus_eq)
  also have "\<dots> = - sval w x" using neg sval_range [OF assms(2,1)] w by (intro mod_pos_pos_trivial) linarith+
  finally show "uint ((- x) AND width_mask w) = - sval w x" unfolding uint_neg_masked [OF w(1)] .
qed

text \<open>A constant divisor between 2 and the largest signed value.\<close>

definition small_divisor :: "nat \<Rightarrow> u64 \<Rightarrow> bool" where
  "small_divisor w d \<longleftrightarrow> 1 < uint d \<and> uint d < 2 ^ (w - 1)"

lemma signed_by_magnitude:
  assumes w: "valid_width w" and x: "in_width w x" and d: "in_width w d" "small_divisor w d"
  shows "sem2 BV_SDiv w x d = (if 0 \<le> sval w x then x div d else (- ((- x AND width_mask w) div d)) AND width_mask w)"
    and "sem2 BV_SRem w x d = (if 0 \<le> sval w x then x mod d else (- ((- x AND width_mask w) mod d)) AND width_mask w)"
proof -
  let ?S = "sval w x" and ?D = "uint d" and ?y = "(- x) AND width_mask w"
  have w64: "w \<le> 64" using w by (simp add: valid_width_def)
  have D: "sval w d = ?D" "1 < ?D" using sval_eq [OF d(1) w] d(2) by (auto simp: small_divisor_def)
  have nz: "d \<noteq> 0" "sign_extend_bits d w \<noteq> - 1" using D by auto
  have xr: "uint x < 2 ^ w" "0 \<le> uint x" using x w64 by (simp_all add: in_width_iff)
  have pos1: "?S sdiv ?D = ?S div ?D" if "0 \<le> ?S" using that D(2) by (simp add: sdiv_nonneg)
  have neg1: "?S sdiv ?D = - ((- ?S) div ?D)" if "?S < 0"
    using that D(2) by (simp add: signed_divide_int_def sgn_if abs_if)
  have pos2: "?S smod ?D = ?S mod ?D" if "0 \<le> ?S" using that D(2) by (simp add: signed_modulo_int_def sgn_if)
  have neg2: "?S smod ?D = - ((- ?S) mod ?D)" if "?S < 0"
    using that D(2) by (simp add: signed_modulo_int_def sgn_if abs_if)
  note pos = pos1 pos2 and neg = neg1 neg2
  show "sem2 BV_SDiv w x d = (if 0 \<le> ?S then x div d else (- (?y div d)) AND width_mask w)"
  proof (cases "0 \<le> ?S")
    case True
    have "uint x div ?D < 2 ^ w" using div_keeps_range(2) [of "2 ^ w" "uint x" ?D] xr D(2) by simp
    then have "(?S sdiv ?D) mod 2 ^ w = uint (x div d)"
      using True pos(1) magnitude(1) [OF w x True] xr D(2) by (simp add: uint_div_distrib pos_imp_zdiv_nonneg_iff)
    then show ?thesis using True nz by (simp add: Let_def c_div_def D(1) word_uint_eq_iff uint_of_int_masked [OF w64])
  next
    case False
    have "(?S sdiv ?D) mod 2 ^ w = uint ((- (?y div d)) AND width_mask w)"
      using False neg(1) magnitude(2) [OF w x] by (simp add: uint_neg_masked [OF w64] uint_div_distrib)
    then show ?thesis using False nz by (simp add: Let_def c_div_def D(1) word_uint_eq_iff uint_of_int_masked [OF w64])
  qed
  show "sem2 BV_SRem w x d = (if 0 \<le> ?S then x mod d else (- (?y mod d)) AND width_mask w)"
  proof (cases "0 \<le> ?S")
    case True
    have "uint x mod ?D < 2 ^ w" using xr D(2) by (meson le_less_trans zmod_le_nonneg_dividend)
    then have "(?S smod ?D) mod 2 ^ w = uint (x mod d)"
      using True pos(2) magnitude(1) [OF w x True] xr D(2) by (simp add: uint_mod_distrib)
    then show ?thesis using True nz by (simp add: Let_def c_mod_def D(1) word_uint_eq_iff uint_of_int_masked [OF w64])
  next
    case False
    have "(?S smod ?D) mod 2 ^ w = uint ((- (?y mod d)) AND width_mask w)"
      using False neg(2) magnitude(2) [OF w x] by (simp add: uint_neg_masked [OF w64] uint_mod_distrib)
    then show ?thesis using False nz by (simp add: Let_def c_mod_def D(1) word_uint_eq_iff uint_of_int_masked [OF w64])
  qed
qed

section \<open>Quotients and remainders of single values\<close>

lemma unsigned_values:
  assumes "w \<le> 64" "in_width w x" "y \<noteq> 0"
  shows "sem2 BV_UDiv w x y = x div y" "sem2 BV_URem w x y = x mod y"
proof -
  have x: "uint x < 2 ^ w" "0 \<le> uint x" using assms by (simp_all add: in_width_iff)
  have y: "1 \<le> uint y" using assms(3) uint_ge_0 [of y] by (metis int_one_le_iff_zero_less less_le uint_0_iff)
  have "in_width w (x div y)" "in_width w (x mod y)"
    using div_keeps_range(2) [of "2 ^ w" "uint x" "uint y"] x y zmod_le_nonneg_dividend [of "uint x" "uint y"]
    by (simp_all add: in_width_iff [OF assms(1)] uint_div_distrib uint_mod_distrib)
  then show "sem2 BV_UDiv w x y = x div y" "sem2 BV_URem w x y = x mod y" using assms(3) by (simp_all add: in_width_def)
qed

lemma unsigned_power:
  "drop_bit k x = x div 2 ^ k" "x AND (2 ^ k - 1) = x mod 2 ^ k" for x :: u64
  by (simp_all add: drop_bit_eq_div take_bit_eq_mod flip: mask_eq_exp_minus_1 take_bit_eq_mask)

lemma one_bit_signed: "sign_extend_bits 1 (Suc 0) = - 1" "sign_extend_bits 0 (Suc 0) = 0" "bv_min_signed (Suc 0) = - 1"
  by (simp_all add: sign_extend_bits_def bv_min_signed_def width_mask_def Let_def)

lemma divide_by_one:
  assumes w: "valid_width w" and x: "in_width w x"
  shows "sem2 BV_SDiv w x 1 = x" "sem2 BV_SRem w x 1 = 0"
proof -
  have w64: "w \<le> 64" "1 \<le> w" using w by (simp_all add: valid_width_def)
  have "sem2 BV_SDiv w x 1 = x \<and> sem2 BV_SRem w x 1 = 0"
  proof (cases "w = 1")
    case True
    then have "x = 0 \<or> x = 1" using x bit_value by simp
    then show ?thesis using True by (auto simp: one_bit_signed c_div_def c_mod_def width_mask_def)
  next
    case False
    have "(1 :: int) < 2 ^ (w - 1)" using False w64 by (intro one_less_power) auto
    moreover have "in_width w 1" using in_width_iff [OF w64(1), of 1] w64(2) by simp
    ultimately have s: "sval w 1 = 1" using sval_eq [OF _ w, of 1] by simp
    then have "sign_extend_bits 1 w \<noteq> - 1" by auto
    moreover have "uint (sign_extend_bits x w AND width_mask w) = uint x"
      using sval_mod [OF x w] unfolding uint_mask [OF w64(1)] uint_sint_mod [OF w64(1)] .
    ultimately show ?thesis using s
      by (simp add: Let_def c_div_def c_mod_def word_uint_eq_iff signed_divide_int_def signed_modulo_int_def sgn_mult_abs)
  qed
  then show "sem2 BV_SDiv w x 1 = x" "sem2 BV_SRem w x 1 = 0" by blast+
qed

lemma divide_by_self:
  assumes w: "valid_width w" and x: "in_width w x" "x \<noteq> 0"
  shows "sem2 BV_UDiv w x x = 1 AND width_mask w" "sem2 BV_SDiv w x x = 1 AND width_mask w"
    and "sem2 BV_URem w x x = 0" "sem2 BV_SRem w x x = 0"
proof -
  have nz: "sval w x \<noteq> 0" using sval_inj [OF w x(1), of 0] x(2) sval_zero [OF w] by (simp add: in_width_def)
  have "x div x = 1" using x(2) by (simp add: word_uint_eq_iff uint_div_distrib)
  then show "sem2 BV_UDiv w x x = 1 AND width_mask w" "sem2 BV_URem w x x = 0" using x(2) by simp_all
  have "sval w x sdiv sval w x = 1" "sval w x smod sval w x = 0"
    using nz by (simp_all add: signed_divide_int_def signed_modulo_int_def sgn_if)
  moreover have "w = 1" if "sign_extend_bits x w = bv_min_signed w" "sign_extend_bits x w = - 1"
  proof -
    have "sint (bv_min_signed w) = - 1" using that by (metis sint_n1)
    then have "- (2 ^ (w - 1)) = (- 1 :: int)" using sint_min_max(1) [OF w] by linarith
    then have "w - 1 = 0" using one_less_power [of "2 :: int" "w - 1"] by (cases "w - 1 = 0") auto
    then show ?thesis using w by (simp add: valid_width_def)
  qed
  ultimately show "sem2 BV_SDiv w x x = 1 AND width_mask w" "sem2 BV_SRem w x x = 0"
    using x(2) by (auto simp: Let_def c_div_def c_mod_def one_bit_signed width_mask_def)
qed

lemma ucast_div_mod: "ucast (x div y :: u32) = (ucast x div ucast y :: u64)" "ucast (x mod y :: u32) = (ucast x mod ucast y :: u64)"
  by (simp_all add: word_uint_eq_iff uint_div_distrib uint_mod_distrib uint_up_ucast is_up)

lemma magic_quotient:
  assumes "x AND mask 32 = (x :: u64)" "d AND mask 32 = d" "1 < (ucast d :: u32)" "(ucast d :: u32) \<le> 0x80000000"
  shows "ucast (magic_udiv_value (compute_magic_const_u32 (ucast d)) (ucast x)) = x div d"
  unfolding magic_u32_divides [OF assms(3,4)] ucast_div_mod ucast_low_32 [OF assms(1)] ucast_low_32 [OF assms(2)] ..

section \<open>Expansions are exact\<close>

definition expands :: "BVContext \<Rightarrow> nat \<Rightarrow> (u64 list \<Rightarrow> u64) \<Rightarrow> expansion \<Rightarrow> bool" where
  "expands ctx w h r \<longleftrightarrow> (\<exists>ctx' i. r = Some (ctx', i) \<and> context_ok ctx' \<and> extends ctx ctx' \<and>
     (\<forall>n. i = Some n \<longrightarrow> denotes ctx' n w h))"

lemma found_expands: "returns ctx w h r \<Longrightarrow> expands ctx w h (found r)"
  by (auto simp: returns_def yields_def expands_def found_def)

lemma expands_if: "(c \<Longrightarrow> expands ctx w h x) \<Longrightarrow> (\<not> c \<Longrightarrow> expands ctx w h y) \<Longrightarrow> expands ctx w h (if c then x else y)"
  by simp

lemma expands_extends: "extends ctx ctx' \<Longrightarrow> expands ctx' w h r \<Longrightarrow> expands ctx w h r"
  by (auto simp: expands_def intro: extends_trans)

lemma single_divisor:
  assumes "w \<le> 64" "in_width w d" "has_single_bit d"
  shows "d = 2 ^ countr_zero d" "countr_zero d < w" "d \<noteq> 0" "uint d = 2 ^ countr_zero d"
proof -
  show p: "d = 2 ^ countr_zero d" using single_bit_power(1) [OF assms(3)] .
  have k: "countr_zero d < 64" using single_bit_power(2) [OF assms(3)] by simp
  then have b: "bit d (countr_zero d)" by (subst p) (simp add: bit_exp_iff)
  then show "countr_zero d < w" using in_width_bit [OF assms(1,2)] by simp
  show "d \<noteq> 0" using b by auto
  have "(2 :: int) ^ countr_zero d < 2 ^ 64" using k by (intro power_strict_increasing) simp_all
  then have "uint (word_of_int (2 ^ countr_zero d) :: u64) = 2 ^ countr_zero d" by (simp only: uint_word_of_int) (simp add: mod_pos_pos_trivial)
  then show "uint d = 2 ^ countr_zero d" using p by simp
qed

text \<open>Divisors at width 32, as the code reads them.\<close>

lemma ucast_small_le: "ucast (x :: u32) \<le> (0x80000000 :: u64) \<Longrightarrow> x \<le> 0x80000000"
  by (simp add: word_le_def uint_up_ucast is_up)

lemma signed_divisor_32:
  assumes "d AND mask 32 = (d :: u64)" "1 < sint (ucast d :: u32)"
  shows "1 < (ucast d :: u32)" "(ucast d :: u32) \<le> 0x80000000" "small_divisor 32 d"
proof -
  let ?e = "ucast d :: u32"
  have u: "uint ?e = sint ?e" using assms(2) by (intro uint_of_non_negative) simp
  have "sint ?e < 2 ^ 31" using sint_range32 [of ?e] by simp
  moreover have "uint d = uint ?e" using arg_cong [OF ucast_low_32 [OF assms(1)], of uint] by (simp add: uint_up_ucast is_up)
  ultimately show "1 < ?e" "?e \<le> 0x80000000" "small_divisor 32 d"
    using assms(2) u by (simp_all add: word_less_def word_le_def small_divisor_def)
qed

lemma masked_shift_returns:
  assumes ok: "context_ok ctx" and d: "denotes ctx x w h" "denotes ctx c w (\<lambda>_. of_nat k AND width_mask w)" and k: "k < w"
  shows "returns ctx w (\<lambda>vs. drop_bit k (h vs) AND width_mask w) (make_arith ctx BV_LShr x c w)"
proof -
  have w: "w \<le> 64" using denotes_width [OF ok d(1)] by (simp add: valid_width_def)
  have "(of_nat k :: u64) < of_nat w" "unat (of_nat k :: u64) = k" using k w by (simp_all add: word_less_nat_alt unat_of_nat)
  then show ?thesis using make_arith_returns [OF arith_groups(4) ok d] w by (simp add: small_const shift_count_below)
qed

lemma expand_div_expands:
  assumes ok: "context_ok ctx" and da: "denotes ctx a w f" and db: "denotes ctx b w g" and op: "op = BV_UDiv \<or> op = BV_SDiv"
    and small: "op = BV_UDiv \<Longrightarrow> w = 32 \<Longrightarrow> is_const (node ctx b) \<Longrightarrow> bv_imm (node ctx b) \<le> 0x80000000"
  shows "expands ctx w (\<lambda>vs. sem2 op w (f vs) (g vs)) (expand_div ctx op a b w)"
proof -
  have w: "valid_width w" "w \<le> 64" using denotes_width [OF ok da] by (simp_all add: valid_width_def)
  have fw: "in_width w (f vs)" and gw: "in_width w (g vs)" for vs using denotes_width [OF ok da] denotes_width [OF ok db] by simp_all
  let ?d = "bv_imm (node ctx b)" and ?k = "countr_zero (bv_imm (node ctx b))" and ?F = "\<lambda>vs. sem2 op w (f vs) (g vs)"
  have gk: "g vs = ?d" if "is_const (node ctx b)" for vs using denotes_const [OF ok db that] .
  have dw: "in_width w ?d" if "is_const (node ctx b)" using gw [of "[]"] gk [OF that] by simp
  have neg: "in_width w ((- x) AND width_mask w)" for x by simp
  show ?thesis
  proof (unfold expand_div_def Let_def, intro expands_if)
    assume c: "is_const (node ctx b) \<and> ?d = 1"
    then have "?F vs = f vs" for vs using gk op divide_by_one(1) [OF w(1) fw] fw by (auto simp: in_width_def)
    then show "expands ctx w ?F (found (Some (ctx, a)))" by (intro found_expands returns_self [OF ok da]) simp
  next
    assume c: "a = b \<and> 0 < umin (interval_of ctx b)"
    have "g vs \<noteq> 0" for vs using containsD(2) [OF denotes_interval [OF ok db], of vs] c by (metis leD)
    moreover have "f = g" using c da db by (auto simp: denotes_def)
    ultimately have "?F vs = 1 AND width_mask w" for vs using op divide_by_self(1,2) [OF w(1) gw] by auto
    then show "expands ctx w ?F (found (const_term ctx 1 w))" by (intro found_expands returns_const [OF ok w(1)])
  next
    assume c: "is_const (node ctx b) \<and> has_single_bit ?d \<and> op = BV_UDiv"
    note d = single_divisor [OF w(2) dw, simplified c, simplified]
    have "?F vs = drop_bit ?k (f vs)" for vs
      using c gk unsigned_values(1) [OF w(2) fw d(3)] d(1) by (simp add: unsigned_power)
    then show "expands ctx w ?F (found (shift_right ctx a ?k w))"
      using shift_right_returns [OF ok da d(2)] by (intro found_expands) simp
  next
    assume c: "is_const (node ctx b) \<and> has_single_bit ?d \<and> 0 < ?k \<and> ?k + 1 < w"
      and u: "\<not> (is_const (node ctx b) \<and> has_single_bit ?d \<and> op = BV_UDiv)"
    have k: "is_const (node ctx b)" "op = BV_SDiv" using c u op by auto
    note d = single_divisor [OF w(2) dw [OF k(1)] conjunct1 [OF conjunct2 [OF c]]]
    have sd: "small_divisor w ?d" using c d(4) by (auto simp: small_divisor_def one_less_power)
    have K: "drop_bit ?k y AND width_mask w = y div ?d" if "in_width w y" for y
      using unsigned_values(1) [OF w(2) that d(3)] d(1,3) by (simp add: unsigned_power)
    have "returns ctx w ?F (do {(ctx, sh_c) \<leftarrow> const_term ctx (of_nat ?k) w; by_sign ctx a w (\<lambda>ctx x. make_arith ctx BV_LShr x sh_c w)})"
    proof (rule bind_step [OF const_returns [OF ok w(1)]])
      fix c1 s assume e1: "context_ok c1" "extends ctx c1" "denotes c1 s w (\<lambda>_. of_nat ?k AND width_mask w)"
      have "returns c1 w (\<lambda>vs. if 0 \<le> sval w (f vs) then drop_bit ?k (f vs) AND width_mask w
          else (- (drop_bit ?k ((- f vs) AND width_mask w) AND width_mask w)) AND width_mask w)
          (by_sign c1 a w (\<lambda>ctx x. make_arith ctx BV_LShr x s w))"
        by (rule by_sign_returns [OF e1(1) denotes_extends [OF ok e1(1,2) da], where K = "\<lambda>y. drop_bit ?k y AND width_mask w"])
          (rule masked_shift_returns [OF _ _ denotes_extends [OF e1(1) _ _ e1(3)] d(2)])
      then show "returns c1 w ?F (by_sign c1 a w (\<lambda>ctx x. make_arith ctx BV_LShr x s w))"
        unfolding k(2) gk [OF k(1)] signed_by_magnitude(1) [OF w(1) fw dw [OF k(1)] sd] K [OF fw] K [OF neg] .
    qed
    then show "expands ctx w ?F (found (do {(ctx, sh_c) \<leftarrow> const_term ctx (of_nat ?k) w; by_sign ctx a w (\<lambda>ctx x. make_arith ctx BV_LShr x sh_c w)}))"
      by (rule found_expands)
  next
    assume c: "w = 32 \<and> is_const (node ctx b) \<and> op = BV_UDiv \<and> 1 < (ucast ?d :: u32) \<and> \<not> has_single_bit (ucast ?d :: u32)"
    have k: "is_const (node ctx b)" "op = BV_UDiv" "w = 32" using c by simp_all
    have m: "f vs AND mask 32 = f vs" "?d AND mask 32 = ?d" for vs using fw [of vs] dw [OF k(1)] k(3) by (simp_all add: in_width_def)
    have "?d \<noteq> 0" using c by auto
    moreover have "(ucast ?d :: u32) \<le> 0x80000000" using small [OF k(2,3,1)] ucast_low_32 [OF m(2)] by (metis ucast_small_le)
    ultimately have "?F vs = ucast (magic_udiv_value (compute_magic_const_u32 (ucast ?d)) (ucast (f vs)))" for vs
      using magic_quotient [OF m] c unsigned_values(1) [OF w(2) fw] gk [OF k(1)] k(2) by simp
    then show "expands ctx w ?F (found (build_magic_udiv_u32 ctx a (compute_magic_const_u32 (ucast ?d))))"
      using build_magic_returns [OF ok da [unfolded k(3)]] magic_u32_shifts [of "ucast ?d"] k(3) by (intro found_expands) simp
  next
    assume c: "w = 32 \<and> is_const (node ctx b) \<and> op = BV_SDiv \<and> 1 < sint (ucast ?d :: u32) \<and> \<not> has_single_bit (ucast ?d :: u32)"
    have k: "is_const (node ctx b)" "op = BV_SDiv" "w = 32" using c by simp_all
    have dm: "?d AND mask 32 = ?d" using dw [OF k(1)] k(3) by (simp add: in_width_def)
    note r = signed_divisor_32 [OF dm, simplified c, simplified]
    have K: "ucast (magic_udiv_value (compute_magic_const_u32 (ucast ?d)) (ucast y)) = y div ?d" if "in_width 32 y" for y
      using that magic_quotient [OF _ dm r(1,2)] by (simp add: in_width_def)
    have sh: "pre_shift (compute_magic_const_u32 (ucast ?d)) < 32" "post_shift (compute_magic_const_u32 (ucast ?d)) < 32"
      using magic_u32_shifts by simp_all
    have "returns ctx 32 (\<lambda>vs. if 0 \<le> sval 32 (f vs) then ucast (magic_udiv_value (compute_magic_const_u32 (ucast ?d)) (ucast (f vs)))
        else (- ucast (magic_udiv_value (compute_magic_const_u32 (ucast ?d)) (ucast ((- f vs) AND width_mask 32)))) AND width_mask 32)
        (by_sign ctx a 32 (\<lambda>ctx x. build_magic_udiv_u32 ctx x (compute_magic_const_u32 (ucast ?d))))"
      by (rule by_sign_returns [OF ok da [unfolded k(3)]]) (rule build_magic_returns [OF _ _ sh])
    then have "returns ctx 32 ?F (by_sign ctx a 32 (\<lambda>ctx x. build_magic_udiv_u32 ctx x (compute_magic_const_u32 (ucast ?d))))"
      unfolding k(2,3) gk [OF k(1)] signed_by_magnitude(1) [OF w(1) [unfolded k(3)] fw [unfolded k(3)] dw [OF k(1), unfolded k(3)] r(3)]
        K [OF fw [unfolded k(3)]] K [OF neg [unfolded k(3)]] .
    then show "expands ctx w ?F (found (by_sign ctx a 32 (\<lambda>ctx x. build_magic_udiv_u32 ctx x (compute_magic_const_u32 (ucast ?d)))))"
      unfolding k(3) by (rule found_expands)
  next
    show "expands ctx w ?F (Some (ctx, None))" using ok by (simp add: expands_def)
  qed
qed

lemma rem_by_quotient_returns:
  assumes ok: "context_ok ctx" and x: "denotes ctx x 32 h" and b: "denotes ctx b 32 (\<lambda>_. d)"
    and sh: "pre_shift mag < 32" "post_shift mag < 32"
  shows "returns ctx 32 (\<lambda>vs. (h vs - ucast (magic_udiv_value mag (ucast (h vs))) * d) AND width_mask 32) (rem_by_quotient ctx x b mag)"
    (is "returns ctx 32 ?F _")
  unfolding rem_by_quotient_def
proof (rule bind_step [OF build_magic_returns [OF ok x sh]])
  let ?q = "\<lambda>vs. ucast (magic_udiv_value mag (ucast (h vs))) :: u64"
  have m32: "32 \<le> (64 :: nat)" by simp
  fix c1 q assume e1: "context_ok c1" "extends ctx c1" "denotes c1 q 32 ?q"
  show "returns c1 32 ?F (do {(ctx, p) \<leftarrow> make_mul c1 q b 32; make_arith ctx BV_Sub x p 32})"
  proof (rule bind_step [OF make_mul_returns [OF e1(1,3) denotes_extends [OF ok e1(1,2) b]]])
    fix c2 p assume e2: "context_ok c2" "extends c1 c2" "denotes c2 p 32 (\<lambda>vs. (?q vs * d) AND width_mask 32)"
    have "denotes c2 x 32 h" by (rule denotes_extends [OF e1(1) e2(1,2) denotes_extends [OF ok e1(1,2) x]])
    from make_arith_returns [OF arith_groups(2) e2(1) this e2(3)] show "returns c2 32 ?F (make_arith c2 BV_Sub x p 32)"
      unfolding eval_op.simps mask_ring(4) [OF m32] .
  qed
qed

lemma magic_remainder:
  assumes "x AND mask 32 = (x :: u64)" "d AND mask 32 = d" "1 < (ucast d :: u32)" "(ucast d :: u32) \<le> 0x80000000"
  shows "(x - ucast (magic_udiv_value (compute_magic_const_u32 (ucast d)) (ucast x)) * d) AND width_mask 32 = x mod d"
proof -
  have "d \<noteq> 0" using assms(3) by auto
  then show ?thesis
    unfolding magic_quotient [OF assms] using unsigned_values(2) [of 32 x d] assms(1)
    by (simp add: minus_div_mult_eq_mod in_width_def)
qed

lemma expand_rem_expands:
  assumes ok: "context_ok ctx" and da: "denotes ctx a w f" and db: "denotes ctx b w g" and op: "op = BV_URem \<or> op = BV_SRem"
    and small: "op = BV_URem \<Longrightarrow> w = 32 \<Longrightarrow> is_const (node ctx b) \<Longrightarrow> bv_imm (node ctx b) \<le> 0x80000000"
  shows "expands ctx w (\<lambda>vs. sem2 op w (f vs) (g vs)) (expand_rem ctx op a b w)"
proof -
  have w: "valid_width w" "w \<le> 64" using denotes_width [OF ok da] by (simp_all add: valid_width_def)
  have fw: "in_width w (f vs)" and gw: "in_width w (g vs)" for vs using denotes_width [OF ok da] denotes_width [OF ok db] by simp_all
  let ?d = "bv_imm (node ctx b)" and ?k = "countr_zero (bv_imm (node ctx b))" and ?F = "\<lambda>vs. sem2 op w (f vs) (g vs)"
  let ?single = "is_const (node ctx b) \<and> has_single_bit ?d"
  have gk: "g vs = ?d" if "is_const (node ctx b)" for vs using denotes_const [OF ok db that] .
  have dw: "in_width w ?d" if "is_const (node ctx b)" using gw [of "[]"] gk [OF that] by simp
  have neg: "in_width w ((- x) AND width_mask w)" for x by simp
  obtain c1 mc where c1: "(if ?single then make_const ctx (?d - 1) w else (ctx, 0)) = (c1, mc)"
    by (cases "if ?single then make_const ctx (?d - 1) w else (ctx, 0)")
  have e1: "context_ok c1" "extends ctx c1" "?single \<Longrightarrow> denotes c1 mc w (\<lambda>_. (?d - 1) AND width_mask w)"
    using c1 ok make_const_yields [OF ok w(1), of "?d - 1"] by (auto simp: yields_def split: if_splits)
  have da1: "denotes c1 a w f" and db1: "denotes c1 b w g" by (rule denotes_extends [OF ok e1(1,2) da], rule denotes_extends [OF ok e1(1,2) db])
  have K: "y AND ((?d - 1) AND width_mask w) = y mod ?d" if "?single" "in_width w y" for y
  proof -
    note d = single_divisor [OF w(2) dw]
    have "y AND ((?d - 1) AND width_mask w) = y AND (?d - 1)" using that(2) unfolding in_width_def by (metis and.assoc and.commute)
    then show ?thesis using d(1) that by (metis unsigned_power(2))
  qed
  have step: "expands ctx w ?F (found r)" if "returns c1 w ?F r" for r by (rule expands_extends [OF e1(2) found_expands [OF that]])
  show ?thesis
  proof (unfold expand_rem_def Let_def c1 prod.case, intro expands_if)
    assume c: "is_const (node ctx b) \<and> ?d = 1"
    have "?F vs = 0" for vs
    proof -
      have "f vs mod 1 = 0" by (metis mod_by_1)
      then show ?thesis using gk c op divide_by_one(2) [OF w(1) fw] by auto
    qed
    then show "expands ctx w ?F (found (const_term ctx 0 w))" by (intro found_expands returns_const [OF ok w(1)]) simp
  next
    assume c: "a = b \<and> 0 < umin (interval_of ctx b)"
    have "g vs \<noteq> 0" for vs using containsD(2) [OF denotes_interval [OF ok db], of vs] c by (metis leD)
    moreover have "f = g" using c da db by (auto simp: denotes_def)
    ultimately have "?F vs = 0" for vs using op divide_by_self(3,4) [OF w(1) gw] by auto
    then show "expands ctx w ?F (found (const_term ctx 0 w))" by (intro found_expands returns_const [OF ok w(1)]) simp
  next
    assume c: "?single \<and> op = BV_URem"
    then have s: "?single" by simp
    have "?F vs = f vs AND ((?d - 1) AND width_mask w)" for vs
      using c gk K [OF s fw] unsigned_values(2) [OF w(2) fw] single_divisor(3) [OF w(2) dw] by simp
    then show "expands ctx w ?F (found (make_and c1 a mc w))" using make_and_returns [OF e1(1) da1 e1(3) [OF s]] by (intro step) simp
  next
    assume c: "?single \<and> 0 < ?k \<and> ?k + 1 < w" and u: "\<not> (?single \<and> op = BV_URem)"
    have s: "?single" and k: "is_const (node ctx b)" "op = BV_SRem" using c u op by auto
    note d = single_divisor [OF w(2) dw [OF k(1)] conjunct2 [OF s]]
    have sd: "small_divisor w ?d" using c d(4) by (auto simp: small_divisor_def one_less_power)
    have "returns c1 w (\<lambda>vs. if 0 \<le> sval w (f vs) then f vs AND ((?d - 1) AND width_mask w)
        else (- (((- f vs) AND width_mask w) AND ((?d - 1) AND width_mask w))) AND width_mask w) (by_sign c1 a w (\<lambda>ctx x. make_and ctx x mc w))"
      by (rule by_sign_returns [OF e1(1) da1, where K = "\<lambda>y. y AND ((?d - 1) AND width_mask w)"])
        (rule make_and_returns [OF _ _ denotes_extends [OF e1(1) _ _ e1(3) [OF s]]])
    then show "expands ctx w ?F (found (by_sign c1 a w (\<lambda>ctx x. make_and ctx x mc w)))"
      unfolding k(2) gk [OF k(1)] signed_by_magnitude(2) [OF w(1) fw dw [OF k(1)] sd] K [OF s fw] K [OF s neg]
      by (rule step [unfolded k(2) gk [OF k(1)] signed_by_magnitude(2) [OF w(1) fw dw [OF k(1)] sd]])
  next
    assume c: "w = 32 \<and> is_const (node ctx b) \<and> op = BV_URem \<and> 1 < (ucast ?d :: u32) \<and> \<not> has_single_bit (ucast ?d :: u32)"
    have k: "is_const (node ctx b)" "op = BV_URem" "w = 32" using c by simp_all
    have m: "f vs AND mask 32 = f vs" "?d AND mask 32 = ?d" for vs using fw [of vs] dw [OF k(1)] k(3) by (simp_all add: in_width_def)
    have nz: "?d \<noteq> 0" using c by auto
    have le: "(ucast ?d :: u32) \<le> 0x80000000" using small [OF k(2,3,1)] ucast_low_32 [OF m(2)] by (metis ucast_small_le)
    have b: "denotes c1 b 32 (\<lambda>_. ?d)" using db1 gk [OF k(1)] k(3) by (simp add: denotes_def fun_eq_iff)
    have "?F vs = (f vs - ucast (magic_udiv_value (compute_magic_const_u32 (ucast ?d)) (ucast (f vs))) * ?d) AND width_mask 32" for vs
      using magic_remainder [OF m _ le] c unsigned_values(2) [OF w(2) fw nz] gk [OF k(1)] k(2) by simp
    then show "expands ctx w ?F (found (rem_by_quotient c1 a b (compute_magic_const_u32 (ucast ?d))))"
      using rem_by_quotient_returns [OF e1(1) da1 [unfolded k(3)] b] magic_u32_shifts [of "ucast ?d"] k(3) by (intro step) simp
  next
    assume c: "w = 32 \<and> is_const (node ctx b) \<and> op = BV_SRem \<and> 1 < sint (ucast ?d :: u32) \<and> \<not> has_single_bit (ucast ?d :: u32)"
    have k: "is_const (node ctx b)" "op = BV_SRem" "w = 32" using c by simp_all
    have dm: "?d AND mask 32 = ?d" using dw [OF k(1)] k(3) by (simp add: in_width_def)
    note r = signed_divisor_32 [OF dm, simplified c, simplified]
    let ?mag = "compute_magic_const_u32 (ucast ?d)"
    have M: "(y - ucast (magic_udiv_value ?mag (ucast y)) * ?d) AND width_mask 32 = y mod ?d" if "in_width 32 y" for y
      using that magic_remainder [OF _ dm r(1,2)] by (simp add: in_width_def)
    have sh: "pre_shift ?mag < 32" "post_shift ?mag < 32" using magic_u32_shifts by simp_all
    have b: "denotes c1 b 32 (\<lambda>_. ?d)" using db1 gk [OF k(1)] k(3) by (simp add: denotes_def fun_eq_iff)
    have "returns c1 32 (\<lambda>vs. if 0 \<le> sval 32 (f vs) then (f vs - ucast (magic_udiv_value ?mag (ucast (f vs))) * ?d) AND width_mask 32
        else (- ((((- f vs) AND width_mask 32) - ucast (magic_udiv_value ?mag (ucast ((- f vs) AND width_mask 32))) * ?d) AND width_mask 32)) AND width_mask 32)
        (by_sign c1 a 32 (\<lambda>ctx x. rem_by_quotient ctx x b ?mag))"
      by (rule by_sign_returns [OF e1(1) da1 [unfolded k(3)], where K = "\<lambda>y. (y - ucast (magic_udiv_value ?mag (ucast y)) * ?d) AND width_mask 32"])
        (rule rem_by_quotient_returns [OF _ _ denotes_extends [OF e1(1) _ _ b] sh])
    then have "returns c1 w ?F (by_sign c1 a 32 (\<lambda>ctx x. rem_by_quotient ctx x b ?mag))"
      unfolding k(2,3) gk [OF k(1)] signed_by_magnitude(2) [OF w(1) [unfolded k(3)] fw [unfolded k(3)] dw [OF k(1), unfolded k(3)] r(3)]
        M [OF fw [unfolded k(3)]] M [OF neg [unfolded k(3)]] .
    then show "expands ctx w ?F (found (by_sign c1 a 32 (\<lambda>ctx x. rem_by_quotient ctx x b ?mag)))" by (rule step)
  next
    show "expands ctx w ?F (Some (c1, None))" using e1 by (simp add: expands_def)
  qed
qed

section \<open>Every integer operation\<close>

lemma make_divide_returns:
  assumes ok: "context_ok ctx" and da: "denotes ctx a w f" and db: "denotes ctx b w g"
    and op: "op \<in> {BV_UDiv, BV_SDiv, BV_URem, BV_SRem}"
    and small: "op = BV_UDiv \<or> op = BV_URem \<Longrightarrow> w = 32 \<Longrightarrow> is_const (node ctx b) \<Longrightarrow> bv_imm (node ctx b) \<le> 0x80000000"
  shows "returns ctx w (\<lambda>vs. sem2 op w (f vs) (g vs)) (make_divide ctx op a b w)"
proof (cases "is_const (node ctx a) \<and> is_const (node ctx b)")
  case True
  have "arith_op op" using op by (auto simp: arith_op_def)
  then show ?thesis using True fold_consts_returns [OF ok da db] by (simp add: make_divide_def)
next
  case False
  let ?F = "\<lambda>vs. sem2 op w (f vs) (g vs)"
  have a: "arith_op op" using op by (auto simp: arith_op_def)
  have "expands ctx w ?F (expand_const_div_rem_bv ctx op a b w)"
  proof (cases "op = BV_UDiv \<or> op = BV_SDiv")
    case True
    show ?thesis unfolding expand_const_div_rem_bv_def if_P [OF True] using small by (intro expand_div_expands [OF ok da db True]) blast
  next
    case False
    then have "op = BV_URem \<or> op = BV_SRem" using op by blast
    then show ?thesis unfolding expand_const_div_rem_bv_def if_not_P [OF False] using small by (intro expand_rem_expands [OF ok da db]) blast+
  qed
  then obtain ctx' r where r: "expand_const_div_rem_bv ctx op a b w = Some (ctx', r)" "context_ok ctx'" "extends ctx ctx'"
      "\<And>n. r = Some n \<Longrightarrow> denotes ctx' n w ?F"
    by (auto simp: expands_def)
  have "returns ctx' w ?F (Some (case r of Some i \<Rightarrow> (ctx', i) | None \<Rightarrow> make_binary_node ctx' op a b w))"
  proof (cases r)
    case None
    then show ?thesis
      using make_binary_node_returns [OF r(2) denotes_extends [OF ok r(2,3) da] denotes_extends [OF ok r(2,3) db] a] by simp
  qed (use r in \<open>simp add: yields_self\<close>)
  moreover have "make_divide ctx op a b w = Some (case r of Some i \<Rightarrow> (ctx', i) | None \<Rightarrow> make_binary_node ctx' op a b w)"
    unfolding make_divide_def if_not_P [OF False] r(1) by simp
  ultimately show ?thesis by (simp only:) (rule returns_extends [OF r(3)])
qed

lemma make_binary_returns:
  assumes ok: "context_ok ctx" and da: "denotes ctx a w f" and db: "denotes ctx b w g"
    and res: "res = 0 \<or> res = (if pred_op op then 1 else w)"
    and small: "op = BV_UDiv \<or> op = BV_URem \<Longrightarrow> w = 32 \<Longrightarrow> is_const (node ctx b) \<Longrightarrow> bv_imm (node ctx b) \<le> 0x80000000"
  shows "pred_op op \<Longrightarrow> returns ctx 1 (\<lambda>vs. pred_sem op w (f vs) (g vs)) (make_binary ctx op a b res)"
    and "arith_op op \<Longrightarrow> returns ctx w (\<lambda>vs. sem2 op w (f vs) (g vs)) (make_binary ctx op a b res)"
proof -
  show "returns ctx 1 (\<lambda>vs. pred_sem op w (f vs) (g vs)) (make_binary ctx op a b res)" if "pred_op op"
    using make_compare_returns [OF ok da db that] that by (simp add: make_binary_def)
  assume op: "arith_op op"
  then have np: "\<not> pred_op op" by (auto simp: arith_op_def pred_op_def)
  have "node_width ctx a = w" "node_width ctx b = w" using da db by (simp_all add: denotes_def)
  then have rw: "(if res \<noteq> 0 then res else max (node_width ctx a) (node_width ctx b)) = w"
    using res np by auto
  show "returns ctx w (\<lambda>vs. sem2 op w (f vs) (g vs)) (make_binary ctx op a b res)"
  proof (cases "op \<in> {BV_UDiv, BV_SDiv, BV_URem, BV_SRem}")
    case True
    show ?thesis unfolding make_binary_def Let_def if_not_P [OF np] rw if_P [OF True] by (rule make_divide_returns [OF ok da db True small])
  next
    case False
    then have "ring_op op \<or> arith_group op" using op by (auto simp: arith_op_def ring_op_def arith_group_def)
    from make_ring_returns [OF ok da db this] show ?thesis unfolding make_binary_def Let_def if_not_P [OF np] rw if_not_P [OF False] .
  qed
qed

text \<open>
  C20.  Every integer operation that \<open>make_binary\<close> is asked for returns, at every width from 1 to 64,
  and the node it returns, through whatever chain of simplifications, has the value of the
  operation on the values of the operands.  Unsigned division and remainder at width 32 by a
  constant above \<open>2^31\<close> are left out.
\<close>

theorem make_binary_exact:
  assumes "context_ok ctx" "a < length (nodes ctx)" "b < length (nodes ctx)" "bv_width (nodes ctx ! b) = bv_width (nodes ctx ! a)"
    and "arith_op op \<or> pred_op op" "res = 0 \<or> res = (if pred_op op then 1 else bv_width (nodes ctx ! a))"
    and "(op = BV_UDiv \<or> op = BV_URem) \<and> bv_width (nodes ctx ! a) = 32 \<and> bv_op (nodes ctx ! b) = BV_Const \<Longrightarrow> bv_imm (nodes ctx ! b) \<le> 0x80000000"
  shows "\<exists>ctx' i. make_binary ctx op a b res = Some (ctx', i) \<and> context_ok ctx' \<and> extends ctx ctx' \<and> i < length (nodes ctx') \<and>
    bv_width (nodes ctx' ! i) = (if pred_op op then 1 else bv_width (nodes ctx ! a)) \<and>
    (\<forall>vs. eval_concrete no_fp (nodes ctx') i vs =
      eval_op no_fp op (if pred_op op then 1 else bv_width (nodes ctx ! a)) (bv_width (nodes ctx ! a)) (bv_width (nodes ctx ! a)) 0 0
        (eval_concrete no_fp (nodes ctx) a vs) (eval_concrete no_fp (nodes ctx) b vs) 0)"
proof -
  let ?w = "bv_width (nodes ctx ! a)"
  have d: "denotes ctx a ?w (value_of ctx a)" "denotes ctx b ?w (value_of ctx b)" using assms(2-4) by (simp_all add: denotes_def)
  note r = make_binary_returns [OF assms(1) d assms(6)]
  have "returns ctx (if pred_op op then 1 else ?w) (\<lambda>vs. eval_op no_fp op (if pred_op op then 1 else ?w) ?w ?w 0 0 (value_of ctx a vs) (value_of ctx b vs) 0)
      (make_binary ctx op a b res)"
    using r assms(5,7) by (cases "pred_op op") (simp_all add: is_const_def)
  then show ?thesis unfolding returns_iff .
qed

lemma make_var_yields:
  assumes "context_ok ctx" "valid_width w"
  shows "yields ctx w (\<lambda>vs. node_val vs (unat (of_nat (length (vars ctx)) :: u64)) AND width_mask w) (make_var ctx name w fl)"
proof -
  let ?n = "bv_node BV_Var w 0 0 0 (of_nat (length (vars ctx))) 0"
  have "node_sem (nodes ctx) ?n = (\<lambda>vs. node_val vs (unat (of_nat (length (vars ctx)) :: u64)) AND width_mask w)"
    by (simp add: node_sem_def fun_eq_iff)
  then have "yields ctx w (\<lambda>vs. node_val vs (unat (of_nat (length (vars ctx)) :: u64)) AND width_mask w) (intern ctx ?n)"
    using intern_yields [OF assms(1), of ?n] context_pos [OF assms(1)] assms(2) by (simp add: node_typed_def)
  then show ?thesis
    by (auto simp: make_var_def Let_def yields_def context_ok_def extends_def denotes_def split: prod.splits)
qed

text \<open>A context with a 32-bit variable and the divisor that the search fails on.\<close>

definition division_context :: BVContext where
  "division_context = fst (make_const (fst (make_var empty_context ''x'' 32 False)) 3967333745 32)"

lemma division_context:
  "context_ok division_context"
  "nodes division_context = [bv_node BV_Const 1 0 0 0 0 0, bv_node BV_Var 32 0 0 0 0 0, bv_node BV_Const 32 0 0 0 3967333745 0]"
proof -
  have w: "valid_width 32" by (simp add: valid_width_def)
  show "context_ok division_context"
    unfolding division_context_def by (rule yieldsD(1) [OF make_const_yields [OF yieldsD(1) [OF make_var_yields [OF empty_context_ok w]] w]])
  show "nodes division_context = [bv_node BV_Const 1 0 0 0 0 0, bv_node BV_Var 32 0 0 0 0 0, bv_node BV_Const 32 0 0 0 3967333745 0]"
    by (simp add: division_context_def make_const_def make_var_def empty_context_def intern_def Let_def bv_node_def mask_eq_exp_minus_1)
qed

theorem make_binary_exact_witness:
  "\<exists>ctx' i. make_binary division_context BV_Add 1 2 32 = Some (ctx', i) \<and>
     eval_concrete no_fp (nodes ctx') i [1] = 3967333746"
proof -
  have v: "eval_concrete no_fp (nodes division_context) 1 [1] = 1" "eval_concrete no_fp (nodes division_context) 2 [1] = 3967333745"
    by (simp_all add: division_context(2) eval_concrete_def evaluate_all_def evaluate_node_def node_val_def bv_node_def mask_eq_exp_minus_1)
  obtain ctx' i where r: "make_binary division_context BV_Add 1 2 32 = Some (ctx', i)"
      "\<And>vs. eval_concrete no_fp (nodes ctx') i vs =
        (eval_concrete no_fp (nodes division_context) 1 vs + eval_concrete no_fp (nodes division_context) 2 vs) AND width_mask 32"
    using make_binary_exact [OF division_context(1), of 1 2 BV_Add 32] by (auto simp: division_context(2) arith_op_def pred_op_def)
  show ?thesis using r(1) r(2) [of "[1]"] v by (intro exI [of _ ctx'] exI [of _ i]) (simp add: mask_eq_exp_minus_1)
qed

text \<open>
  C34.  An unsigned 32-bit division by the constant 3967333745 of a term that is not a constant is
  built as a shift right by one: the search for the multiplier runs out of exponents, and the
  expansion goes on with the multiplier zero.
\<close>

theorem udiv_term_wrong:
  assumes "context_ok ctx" "a < length (nodes ctx)" "bv_width (nodes ctx ! a) = 32" "bv_op (nodes ctx ! a) \<noteq> BV_Const"
    and "b < length (nodes ctx)" "nodes ctx ! b = bv_node BV_Const 32 0 0 0 3967333745 0"
  shows "\<exists>ctx' i. make_binary ctx BV_UDiv a b 32 = Some (ctx', i) \<and> context_ok ctx' \<and> extends ctx ctx' \<and>
    (\<forall>vs. eval_concrete no_fp (nodes ctx') i vs = eval_concrete no_fp (nodes ctx) a vs div 2)"
proof -
  have d: "denotes ctx a 32 (value_of ctx a)" using assms(2,3) by (simp add: denotes_def)
  have k: "\<not> is_const (node ctx a)" "is_const (node ctx b)" "bv_imm (node ctx b) = 3967333745" "a \<noteq> b"
    using assms(4,6) by (auto simp: is_const_def)
  let ?d = "3967333745 :: u64" and ?e = "3967333745 :: u32"
  have s: "\<not> has_single_bit ?d" "\<not> has_single_bit ?e" by (simp_all add: has_single_bit_def popcount_def upt_rec)
  have e: "(ucast ?d :: u32) = ?e" by simp
  have "make_binary ctx BV_UDiv a b 32 = Option.bind (found (build_magic_udiv_u32 ctx a (compute_magic_const_u32 ?e)))
      (\<lambda>(ctx, r). Some (case r of Some i \<Rightarrow> (ctx, i) | None \<Rightarrow> make_binary_node ctx BV_UDiv a b 32))"
    using k s by (simp add: make_binary_def pred_op_def make_divide_def expand_const_div_rem_bv_def expand_div_def Let_def e)
  also have "\<dots> = build_magic_udiv_u32 ctx a (compute_magic_const_u32 ?e)"
    by (cases "build_magic_udiv_u32 ctx a (compute_magic_const_u32 ?e)") (auto simp: found_def)
  finally have m: "make_binary ctx BV_UDiv a b 32 = build_magic_udiv_u32 ctx a (compute_magic_const_u32 ?e)" .
  have v: "ucast (magic_udiv_value (compute_magic_const_u32 ?e) (ucast (value_of ctx a vs))) = value_of ctx a vs div 2" for vs
  proof -
    have "ucast (ucast (value_of ctx a vs) :: u32) = value_of ctx a vs" using masked_self [OF assms(1) d, of vs] by (intro ucast_low_32) simp
    then show ?thesis unfolding magic_u32_exhausted(2)
      by (simp add: magic_udiv_value_def ucast_div_mod drop_bit_eq_div)
  qed
  have "returns ctx 32 (\<lambda>vs. value_of ctx a vs div 2) (make_binary ctx BV_UDiv a b 32)"
    unfolding m v [symmetric] by (rule build_magic_returns [OF assms(1) d]) (simp_all add: magic_u32_shifts)
  then show ?thesis unfolding returns_iff by blast
qed

theorem udiv_term_wrong_witness:
  "\<exists>ctx' i. make_binary division_context BV_UDiv 1 2 32 = Some (ctx', i) \<and>
     eval_concrete no_fp (nodes ctx') i [3967333744] = 1983666872 \<and>
     eval_op no_fp BV_UDiv 32 32 32 0 0 3967333744 3967333745 0 = 0"
proof -
  have v: "eval_concrete no_fp (nodes division_context) 1 [3967333744] = 3967333744"
    by (simp add: division_context(2) eval_concrete_def evaluate_all_def evaluate_node_def node_val_def bv_node_def mask_eq_exp_minus_1)
  obtain ctx' i where r: "make_binary division_context BV_UDiv 1 2 32 = Some (ctx', i)"
      "\<And>vs. eval_concrete no_fp (nodes ctx') i vs = eval_concrete no_fp (nodes division_context) 1 vs div 2"
    using udiv_term_wrong [OF division_context(1), of 1 2] by (auto simp: division_context(2))
  show ?thesis using r(1) r(2) [of "[3967333744]"] v by (intro exI [of _ ctx'] exI [of _ i]) simp
qed

end
