(* ===== verification/Spec2Isabelle.thy ===== *)
theory Spec2Isabelle
  imports Narrow_Int Branch_Refine Range_Fixpoint Stack_Map X64_Correct Parallel_Copy Mir_Typing Block_Liveness
    Bv_Divide
begin

text \<open>
  A model of the integer core of the Brass compiler and runtime, and of the paths an integer
  operation takes through it: folded at compile time, interpreted, bounded by the range analysis,
  checked by the bit-vector equivalence checker, or selected as x64 code; and of the stack maps
  through which generated code and the collector meet.  All paths are proved against one reference
  semantics, \<open>Word_Semantics\<close>, which states \<open>docs/semantics.md\<close>: two's-complement words that wrap,
  truncated division with \<open>MIN / -1 = MIN\<close>; and, where the document leaves it open, shift amounts
  modulo the width as the executions take them.

  \<^bold>\<open>The parts and how they interact.\<close>  A function in MIR is a graph of blocks of instructions over
  values.  The optimiser folds constants (\<open>int_fold.cpp\<close>) and derives ranges for values
  (\<open>range_analysis.cpp\<close>) that later passes use to drop checks.  The interpreter runs MIR on tagged
  64-bit values (\<open>value.cpp\<close>, \<open>interpreter.cpp\<close>).  The x64 back end selects low-level instructions
  on virtual registers (\<open>x64_isel*.cpp\<close>), which are then allocated and emitted; the verifier
  executes low-level code over bit-vector terms (\<open>lir_equiv.cpp\<close>, \<open>bv_concrete_search.cpp\<close>).  Generated
  code records its roots in stack maps (\<open>stack_map.cpp\<close>).

  \<^bold>\<open>MIR.\<close>  \<open>Mir_Opcodes\<close> and \<open>Mir_Types\<close>: opcodes, their names and classification, types and layout
  (\<open>opcodes.cpp\<close>, \<open>types.hpp\<close>).  \<open>Mir_Ir\<close>: instructions, blocks, functions and the control-flow graph
  (\<open>instruction.hpp\<close>, \<open>block.cpp\<close>, \<open>function.cpp\<close>); its lemmas show that rebuilding the predecessor
  lists gives the successor relation's converse.  \<open>Mir_Typing\<close>: the verifier's rules for scalar
  instructions (\<open>verifier.cpp\<close>) and the interpreter's frame and step on them; a step on an accepted
  instruction stores a value of the type the instruction declares.  \<open>Block_Liveness\<close>: the values live into
  each block (\<open>block_liveness.cpp\<close>); the backward walk is a loop that could run forever, so it is a
  partial function, and is shown to end with exactly the values that paths to their uses make live.

  \<^bold>\<open>Folding and interpreting.\<close>  \<open>Int_Fold\<close>: the folder at widths 32 and 64 is the reference
  semantics, and refuses exactly the operations without a result; it folds shifts by the width or more,
  which the document says it does not.  \<open>Float_Arith\<close>: which NaN the
  interpreter returns, over the host's floating-point unit as a parameter.  \<open>Runtime_Value\<close> and
  \<open>Interp_Ops\<close>: the value record, its operations and the interpreter's dispatch, with its errors;
  the two interpretations of \<open>val_add\<close> where C++ overflow is undefined are stated as such.
  \<open>Narrow_Int\<close>: 8- and 16-bit operations (\<open>narrow_int.cpp\<close>), shifts for amounts below the width.

  \<^bold>\<open>Range analysis.\<close>  \<open>Value_Range\<close>: the interval lattice and its transfer functions (\<open>range_analysis_lattice.cpp\<close>).
  \<open>Range_Analysis\<close>: the ranges of instructions, against what the interpreter computes for every
  instruction of the analysis that the verifier accepts, at all integer widths.  The ranges are
  right but for two cases, which the lemmas show to be wrong in the code: a constant patched to another
  value than its immediate, and a 64-bit bitwise operation on an \<open>i32\<close> as second operand.  \<open>Branch_Refine\<close>: refinement of ranges along branch
  edges and the undo log (\<open>range_analysis.cpp\<close>).  \<open>Range_Fixpoint\<close>: the worklist passes with widening;
  an execution of the function as an inductive step relation never leaves the computed ranges, for
  functions without those two cases, and is not stuck on an instruction the verifier accepts.
  The passes are bounded as in the code, by a constant number of rounds, so the model's recursion
  is on that counter; the walk over the dominator tree is on the tree.

  \<^bold>\<open>Stack maps.\<close>  \<open>Byte_Codec\<close>: the byte writer and bounds-checked reader.  \<open>Stack_Map\<close>: records,
  lookups by name, address and offset, the module index, and the binary format: encoding and decoding
  round trip, every truncated encoding is refused, and a lookup by return address finds the record.
  The reader functions share the contract stated as a locale in \<open>Byte_Codec\<close>.

  \<^bold>\<open>Bit-vector terms.\<close>  \<open>Bv_Eval\<close>: term tables and their evaluation (\<open>bv_concrete_search.cpp\<close>), with the
  operation the symbolic executor chooses for each MIR opcode; floating-point terms are evaluated as the
  code does, over the host's IEEE operations as a parameter.
  \<open>Bv_Interval\<close> and \<open>Bv_Terms\<close>: the intervals and known bits of every integer operation, and the table of
  shared nodes (\<open>bv_solver.cpp\<close>); in a well-formed table every interval contains every value of its node.
  \<open>Bv_Simplify\<close>, \<open>Bv_Arith\<close>, \<open>Bv_Binary\<close> and \<open>Bv_Extend\<close>: the constructors that simplify while they build (bitwise
  operations, sums, differences, shifts; products and comparisons; selections, extensions, extractions and
  concatenations); they call each other, so they are partial functions, and are shown to return, with a
  node that has the value of the operation asked for.  \<open>Bv_Divide\<close>: division and remainder by constants in terms
  (\<open>gpu_superopt.cpp\<close>) and \<open>make_binary\<close> on all integer operations.

  \<^bold>\<open>Low-level code.\<close>  \<open>Lir\<close>: registers, operands, instructions (\<open>lir.hpp\<close>).  \<open>Lir_Exec\<close>: the executor of the
  equivalence checker on concrete values (\<open>lir_equiv.cpp\<close>): flags, conditions, every integer and scalar
  instruction, parallel copies; an operand in memory has no value in the model.  \<open>X64_Machine\<close>: the
  multiplies, divides and bit scans the executor does not cover, as the emitter emits them
  (\<open>emit_alu.cpp\<close>, \<open>x64_encoder_alu.cpp\<close>) over the processor's own instructions, a parameter whose manual
  is the locale \<open>x64_cpu_laws\<close>; one rule per instruction shape for running code.

  \<^bold>\<open>Parallel copies.\<close>  \<open>Parallel_Copy\<close>: the emission of the moves of a block edge
  (\<open>emit_parallel_copy.cpp\<close>) on registers, spill slots and immediates, acyclic moves first and cycles through
  scratch registers; it returns, and its code performs all moves at once.

  \<^bold>\<open>x64 selection.\<close>  \<open>Div_Magic\<close>: the search for the multiplier that replaces a division
  (\<open>div_magic.hpp\<close>).  The search is a loop that could run forever: it is a partial function, and is shown to end
  with a multiplier for every divisor it takes, whose sequence divides every dividend exactly.
  \<open>Udiv_Magic\<close>: the unsigned search at 32 bits (\<open>gpu_superopt.cpp\<close>), whose 32 exponents are enough for the divisors
  up to \<open>2^31\<close> and not for all above.
  \<open>X64_Isel\<close>: the integer lowerings (\<open>x64_isel_alu.cpp\<close>, \<open>x64_isel_shift_div.cpp\<close>, \<open>x64_isel_cmp.cpp\<close>,
  \<open>x64_isel_overflow.cpp\<close>).  \<open>X64_Div\<close>, \<open>X64_Alu\<close>, \<open>X64_Cmp\<close> and \<open>X64_Select\<close>: that each lowering's code computes its
  operation, and the use analysis that decides which constants get no register (\<open>x64_isel.cpp\<close>).
  \<open>X64_Correct\<close>: the selection as a whole refines the reference semantics, at 32 and 64 bits.

  \<^bold>\<open>Not modelled.\<close>  Register allocation, scheduling and encoding: the selection theorems are about virtual
  registers.  Memory, calls, branches, floating-point and vector lowerings; the AArch64, PTX and SPIR-V back ends;
  the baseline compiler and the bytecode tier; the rewriting passes of the optimiser; the collected heap,
  threads, signals and unwinding, which work on raw memory; the SAT solver and the floating-point
  simplifications of terms;
  object files, debug information and tools.  The selection theorems cover constants folded by the use analysis
  and the product, shift or sum absorbed by the \<open>lea\<close> of an addition.  They leave out the two cases in which
  the lowering reads a register the use analysis folded, a comparison of a constant zero with another 32-bit constant and
  a subtraction of \<open>INT32_MIN\<close> from a 32-bit constant (\<open>X64_Correct\<close> shows the read), and loads folded into a
  memory operand.  The parallel copies leave out cycles through scalar floating-point slots that a register
  reads back, one of which \<open>Parallel_Copy\<close> shows to go wrong.

  \<^bold>\<open>Plan.\<close>  Next: loads folded into memory operands, constants and conversions, and the selection of
  branches and selects.
\<close>

end
